(* ===== verification/Prelude.thy ===== *)
theory Prelude
  imports Main "HOL-Library.Word" "HOL-Library.Multiset"
begin

text \<open>
  Shared vocabulary of the development: the Python exceptions as values, the result type and its
  bind, Python's list slicing and indexing, and the list lemmas the component theories use.
  Collections of rewrite rules are declared here so that each component can add to them:
  \<open>result_simps\<close> (error propagation), \<open>layout_simps\<close> (tensor layout), \<open>wire_simps\<close> (byte codecs).
\<close>

named_theorems result_simps
named_theorems layout_simps
named_theorems wire_simps

section \<open>Exceptions as values\<close>

datatype py_error =
    RuntimeError string
  | ValueError string
  | AssertionError string
  | KeyError string
  | IndexError
  | TypeError
  | AttributeError
  | StructError
  | OSError
  | NotImplementedError
  | ZeroDivisionError

type_synonym 'a result = "py_error + 'a"

abbreviation raise :: "py_error \<Rightarrow> 'a result" where
  "raise e \<equiv> Inl e"

abbreviation return :: "'a \<Rightarrow> 'a result" where
  "return x \<equiv> Inr x"

text \<open>Sequencing of statements that may raise: the first exception ends the block.\<close>

definition bind_r :: "'a result \<Rightarrow> ('a \<Rightarrow> 'b result) \<Rightarrow> 'b result" where
  "bind_r m f = (case m of Inl e \<Rightarrow> Inl e | Inr x \<Rightarrow> f x)"

lemma bind_r_Inl [simp, result_simps]: "bind_r (Inl e) f = Inl e"
  by (simp add: bind_r_def)

lemma bind_r_Inr [simp, result_simps]: "bind_r (Inr x) f = f x"
  by (simp add: bind_r_def)

lemma bind_r_eq_Inr [simp, result_simps]:
  "bind_r m f = Inr y \<longleftrightarrow> (\<exists>x. m = Inr x \<and> f x = Inr y)"
  by (cases m) auto

text \<open>A Python \<open>assert\<close> or a guarded \<open>raise\<close>.\<close>

definition ensure :: "bool \<Rightarrow> py_error \<Rightarrow> unit result" where
  "ensure b e = (if b then Inr () else Inl e)"

lemma ensure_simps [simp, result_simps]:
  "ensure True e = Inr ()" "ensure False e = Inl e"
  by (simp_all add: ensure_def)

lemma ensure_eq_Inr [simp, result_simps]: "ensure b e = Inr u \<longleftrightarrow> b"
  by (simp add: ensure_def)

text \<open>A loop whose body may raise, collecting the results in order.\<close>

fun map_r :: "('a \<Rightarrow> 'b result) \<Rightarrow> 'a list \<Rightarrow> 'b list result" where
  "map_r f [] = Inr []"
| "map_r f (x # xs) = bind_r (f x) (\<lambda>y. bind_r (map_r f xs) (\<lambda>ys. Inr (y # ys)))"

lemma map_r_Inr: "(\<And>x. x \<in> set xs \<Longrightarrow> f x = Inr (g x)) \<Longrightarrow> map_r f xs = Inr (map g xs)"
  by (induction xs) auto

lemma map_r_returns: "(\<forall>x \<in> set xs. \<exists>y. f x = Inr y) \<Longrightarrow> \<exists>ys. map_r f xs = Inr ys"
  by (induction xs) auto

lemma map_r_length: "map_r f xs = Inr ys \<Longrightarrow> length ys = length xs"
  by (induction xs arbitrary: ys) auto

lemma map_r_nth: "map_r f xs = Inr ys \<Longrightarrow> i < length xs \<Longrightarrow> f (xs ! i) = Inr (ys ! i)"
proof (induction xs arbitrary: ys i)
  case (Cons x xs)
  then show ?case by (cases i) auto
qed simp

text \<open>A loop whose body updates a state and may raise.\<close>

fun fold_r :: "('a \<Rightarrow> 's \<Rightarrow> 's result) \<Rightarrow> 'a list \<Rightarrow> 's \<Rightarrow> 's result" where
  "fold_r f [] s = Inr s"
| "fold_r f (x # xs) s = bind_r (f x s) (fold_r f xs)"

lemma fold_r_append [simp]:
  "fold_r f (xs @ ys) s = bind_r (fold_r f xs s) (fold_r f ys)"
proof (induction xs arbitrary: s)
  case (Cons x xs)
  then show ?case by (cases "f x s") auto
qed simp

text \<open>An invariant that every iteration keeps holds after the loop.\<close>

lemma fold_r_invariant:
  assumes "fold_r f xs s = Inr t" and "I s"
    and "\<And>x u v. x \<in> set xs \<Longrightarrow> I u \<Longrightarrow> f x u = Inr v \<Longrightarrow> I v"
  shows "I t"
  using assms
proof (induction xs arbitrary: s)
  case (Cons x xs)
  then show ?case by auto
qed simp

section \<open>Python lists\<close>

definition opt_default :: "'a \<Rightarrow> 'a option \<Rightarrow> 'a" where
  "opt_default d x = (case x of None \<Rightarrow> d | Some v \<Rightarrow> v)"

lemma opt_default_simps [simp]: "opt_default d None = d" "opt_default d (Some v) = v"
  by (simp_all add: opt_default_def)

text \<open>\<open>xs[a:b]\<close> for non-negative bounds: both ends are clipped to the length.\<close>

definition slice :: "nat \<Rightarrow> nat \<Rightarrow> 'a list \<Rightarrow> 'a list" where
  "slice a b xs = drop a (take b xs)"

lemma length_slice [simp]: "length (slice a b xs) = min b (length xs) - a"
  by (simp add: slice_def min_def)

lemma slice_mid:
  "xs = us @ vs @ ws \<Longrightarrow> length us = a \<Longrightarrow> b = a + length vs \<Longrightarrow> slice a b xs = vs"
  by (simp add: slice_def)

lemma nth_slice: "b \<le> length xs \<Longrightarrow> i < b - a \<Longrightarrow> slice a b xs ! i = xs ! (a + i)"
  by (simp add: slice_def less_diff_conv add.commute)

text \<open>Index of the first element satisfying a predicate, as the source's search loops find it.\<close>

fun find_index :: "('a \<Rightarrow> bool) \<Rightarrow> 'a list \<Rightarrow> nat option" where
  "find_index P [] = None"
| "find_index P (x # xs) = (if P x then Some 0 else map_option Suc (find_index P xs))"

lemma find_index_None: "find_index P xs = None \<longleftrightarrow> (\<forall>x \<in> set xs. \<not> P x)"
  by (induction xs) auto

lemma find_index_Some:
  "find_index P xs = Some i \<longleftrightarrow> i < length xs \<and> P (xs ! i) \<and> (\<forall>j < i. \<not> P (xs ! j))"
proof (induction xs arbitrary: i)
  case (Cons x xs)
  show ?case
  proof (cases i)
    case 0
    then show ?thesis by auto
  next
    case (Suc k)
    then show ?thesis using Cons.IH by (auto simp: less_Suc_eq_0_disj)
  qed
qed simp

lemma map_length_update: "(i < length b \<Longrightarrow> length r = length (b ! i)) \<Longrightarrow> map length (b[i := r]) = map length b"
  by (cases "i < length b") (simp_all add: list_eq_iff_nth_eq nth_list_update)

section \<open>Keyed logs\<close>

text \<open>
  Several components keep, per request id, a list that grows at the end until it is taken as a whole:
  the worker's in-process event dictionaries and the server's stores. This is their contract. The
  client lemma says that concurrent requests do not disturb each other: however the appends of
  different keys interleave, a key's log is its own appends in order.
\<close>

locale keyed_log =
  fixes put :: "'k \<Rightarrow> 'e list \<Rightarrow> 's \<Rightarrow> 's"
    and log :: "'s \<Rightarrow> 'k \<Rightarrow> 'e list"
    and drop_key :: "'k \<Rightarrow> 's \<Rightarrow> 's"
  assumes log_put: "log (put k xs s) k' = (if k' = k then log s k @ xs else log s k')"
    and log_drop: "log (drop_key k s) k' = (if k' = k then [] else log s k')"
begin

lemma log_fold_put:
  "log (fold (\<lambda>(k, xs). put k xs) ops s) k'
     = log s k' @ concat (map snd (filter (\<lambda>(k, xs). k = k') ops))"
  by (induction ops arbitrary: s) (auto simp: log_put)

lemma log_fold_put_fresh:
  "log s k' = [] \<Longrightarrow>
     log (fold (\<lambda>(k, xs). put k xs) ops s) k' = concat (map snd (filter (\<lambda>(k, xs). k = k') ops))"
  by (simp add: log_fold_put)

lemma log_drop_isolated: "k' \<noteq> k \<Longrightarrow> log (drop_key k (fold (\<lambda>(k, xs). put k xs) ops s)) k'
     = log (fold (\<lambda>(k, xs). put k xs) ops s) k'"
  by (simp add: log_drop)

end

text \<open>\<open>d[k].extend(xs)\<close> on a \<open>defaultdict(list)\<close>, and \<open>d.setdefault(k, []).extend(xs)\<close> on a dict.\<close>

definition extend_key :: "'k \<Rightarrow> 'v list \<Rightarrow> ('k \<rightharpoonup> 'v list) \<Rightarrow> ('k \<rightharpoonup> 'v list)" where
  "extend_key k xs m = m(k \<mapsto> opt_default [] (m k) @ xs)"

definition key_log :: "('k \<rightharpoonup> 'v list) \<Rightarrow> 'k \<Rightarrow> 'v list" where
  "key_log m k = opt_default [] (m k)"

definition pop_key :: "'k \<Rightarrow> ('k \<rightharpoonup> 'v) \<Rightarrow> ('k \<rightharpoonup> 'v)" where
  "pop_key k m = m(k := None)"

interpretation dict_log: keyed_log extend_key key_log pop_key
  by unfold_locales (auto simp: extend_key_def key_log_def pop_key_def)

section \<open>Keys in insertion order\<close>

definition first_occurrences :: "'a list \<Rightarrow> 'a list" where
  "first_occurrences xs = rev (remdups (rev xs))"

end
