(* ===== verification/Mask_IPC.thy ===== *)
theory Mask_IPC
  imports Prelude
begin

text \<open>
  The datagram format that carries token-source masks from the patched vLLM worker to the rollout
  server. The sender is \<open>_send_mask_chunk_ipc\<close> (with \<open>_get_mask_ipc_sock\<close>) of
  \<open>opd/patches/vllm/speculative_decode.py\<close>; the receiver is \<open>_decode_payload\<close> of
  \<open>OpdMaskIpcServer\<close> in \<open>verl/workers/rollout/vllm_rollout/vllm_async_server.py\<close>.
  Bytes are 8-bit words. A request id stands for its UTF-8 byte string. A float32 is its 32-bit
  pattern: the log-probabilities come out of a float32 tensor, so packing them loses nothing.
  The main result is the round trip: what the server decodes is what the worker sent.
\<close>

section \<open>Bytes, int32 and float32\<close>

type_synonym byte = "8 word"
type_synonym f32 = "32 word"

definition ascii :: "string \<Rightarrow> byte list" where
  "ascii s = map of_char s"

definition unascii :: "byte list \<Rightarrow> string" where
  "unascii bs = map (\<lambda>b. char_of (unat b)) bs"

text \<open>Big-endian bytes of an unsigned 32-bit value, and back.\<close>

definition be32 :: "int \<Rightarrow> byte list" where
  "be32 n = map word_of_int [n div 2 ^ 24, n div 2 ^ 16, n div 2 ^ 8, n]"

fun un_be32 :: "byte list \<Rightarrow> int" where
  "un_be32 [a, b, c, d] = ((uint a * 256 + uint b) * 256 + uint c) * 256 + uint d"
| "un_be32 _ = 0"

text \<open>\<open>struct.pack("!i", x)\<close>: a value outside int32 raises \<open>struct.error\<close>.\<close>

definition i32_ok :: "int \<Rightarrow> bool" where
  "i32_ok x \<longleftrightarrow> - (2 ^ 31) \<le> x \<and> x < 2 ^ 31"

definition pack_i32 :: "int \<Rightarrow> byte list result" where
  "pack_i32 x = (if i32_ok x then Inr (be32 (x mod 2 ^ 32)) else Inl StructError)"

definition unpack_i32 :: "byte list \<Rightarrow> int" where
  "unpack_i32 bs = (let n = un_be32 bs in if n < 2 ^ 31 then n else n - 2 ^ 32)"

definition pack_f32 :: "f32 \<Rightarrow> byte list" where
  "pack_f32 w = be32 (uint w)"

definition unpack_f32 :: "byte list \<Rightarrow> f32" where
  "unpack_f32 bs = word_of_int (un_be32 bs)"

text \<open>\<open>struct.pack(f"!{n}i", ...)\<close> and \<open>struct.unpack(f"!{n}i", ...)\<close>: consecutive 4-byte groups.\<close>

definition pack_i32s :: "int list \<Rightarrow> byte list result" where
  "pack_i32s xs = bind_r (map_r pack_i32 xs) (\<lambda>bss. Inr (concat bss))"

definition pack_f32s :: "f32 list \<Rightarrow> byte list" where
  "pack_f32s ws = concat (map pack_f32 ws)"

fun chunks4 :: "nat \<Rightarrow> byte list \<Rightarrow> byte list list" where
  "chunks4 0 bs = []"
| "chunks4 (Suc n) bs = take 4 bs # chunks4 n (drop 4 bs)"

definition unpack_i32s :: "nat \<Rightarrow> byte list \<Rightarrow> int list" where
  "unpack_i32s n bs = map unpack_i32 (chunks4 n bs)"

definition unpack_f32s :: "nat \<Rightarrow> byte list \<Rightarrow> f32 list" where
  "unpack_f32s n bs = map unpack_f32 (chunks4 n bs)"

section \<open>The sender\<close>

text \<open>
  \<open>_MASK_IPC_SOCK\<close> is the process-wide socket; \<open>sock_path\<close> is the environment variable
  \<open>VERL_OPD_MASK_IPC_SOCKET\<close>. \<open>sent\<close> records the datagrams handed to the kernel.
\<close>

record ipc_sender =
  sock_path :: "string option"
  sock_open :: bool
  sent :: "byte list list"

text \<open>
  \<open>_get_mask_ipc_sock\<close>: no socket when the variable is unset or empty; the first use connects,
  and a failing \<open>connect\<close> raises. \<open>connects\<close> says whether the operating system lets it connect.
\<close>

definition get_mask_ipc_sock :: "(string \<Rightarrow> bool) \<Rightarrow> ipc_sender \<Rightarrow> (ipc_sender \<times> bool) result" where
  "get_mask_ipc_sock connects s =
     (case sock_path s of
        None \<Rightarrow> Inr (s, False)
      | Some p \<Rightarrow>
          if p = '''' then Inr (s, False)
          else if sock_open s then Inr (s, True)
          else if connects p then Inr (s\<lparr>sock_open := True\<rparr>, True)
          else Inl OSError)"

text \<open>The consistency check at the head of \<open>_send_mask_chunk_ipc\<close>.\<close>

definition mask_chunk_malformed ::
  "bool list \<Rightarrow> int list \<Rightarrow> int list option \<Rightarrow> int list option \<Rightarrow> f32 list option \<Rightarrow> bool" where
  "mask_chunk_malformed msk tokens positions actions logps \<longleftrightarrow>
     length msk \<noteq> length tokens \<or> length msk > 255
     \<or> positions = None
     \<or> (case positions of None \<Rightarrow> True | Some ps \<Rightarrow> length ps \<noteq> length msk)
     \<or> (case actions of None \<Rightarrow> False | Some xs \<Rightarrow> length xs \<noteq> length msk)
     \<or> (case logps of None \<Rightarrow> False | Some xs \<Rightarrow> length xs \<noteq> length msk)"

text \<open>The body of the datagram: \<open>OPD3\<close> when both action fields are there, \<open>OPD2\<close> otherwise.\<close>

definition mask_chunk_body ::
  "bool list \<Rightarrow> int list \<Rightarrow> int list \<Rightarrow> int list option \<Rightarrow> f32 list option \<Rightarrow> byte list result" where
  "mask_chunk_body msk tokens positions actions logps =
     (let n = length msk;
          mask_bytes = map (\<lambda>x. if x then 1 else 0) msk
      in bind_r (pack_i32s tokens) (\<lambda>token_bytes.
         bind_r (pack_i32s positions) (\<lambda>position_bytes.
         case (actions, logps) of
           (Some as, Some lps) \<Rightarrow>
             bind_r (pack_i32s as) (\<lambda>action_bytes.
               Inr (ascii ''OPD3'' @ [word_of_nat n] @ mask_bytes @ token_bytes @ position_bytes
                    @ action_bytes @ pack_f32s lps))
         | _ \<Rightarrow> Inr (ascii ''OPD2'' @ [word_of_nat n] @ mask_bytes @ token_bytes @ position_bytes))))"

definition frame_payload :: "string \<Rightarrow> byte list \<Rightarrow> byte list" where
  "frame_payload rid body = ascii rid @ [0] @ body"

text \<open>
  \<open>_send_mask_chunk_ipc\<close>. \<open>sends\<close> says whether the operating system accepts a datagram; a failed
  send closes the socket and forgets it, and the chunk is lost without an exception.
\<close>

definition send_mask_chunk_ipc ::
  "(string \<Rightarrow> bool) \<Rightarrow> (byte list \<Rightarrow> bool) \<Rightarrow> ipc_sender \<Rightarrow> string \<Rightarrow> bool list \<Rightarrow> int list
     \<Rightarrow> int list option \<Rightarrow> int list option \<Rightarrow> f32 list option \<Rightarrow> ipc_sender result" where
  "send_mask_chunk_ipc connects sends s rid msk tokens positions actions logps =
     (if rid = '''' \<or> msk = [] then Inr s
      else if mask_chunk_malformed msk tokens positions actions logps
      then Inl (RuntimeError ''malformed OPD mask IPC chunk'')
      else bind_r (get_mask_ipc_sock connects s) (\<lambda>(s', have_sock).
        if \<not> have_sock then Inr s'
        else bind_r (mask_chunk_body msk tokens (the positions) actions logps) (\<lambda>body.
          let payload = frame_payload rid body in
          if sends payload then Inr (s'\<lparr>sent := sent s' @ [payload]\<rparr>)
          else Inr (s'\<lparr>sock_open := False\<rparr>))))"

section \<open>The receiver\<close>

type_synonym mask_event = "bool list \<times> int list option \<times> int list option \<times> int list option \<times> f32 list option"

text \<open>\<open>_decode_payload\<close>, with Python's clipping slices.\<close>

definition decode_payload :: "byte list \<Rightarrow> mask_event" where
  "decode_payload body =
     (if take 4 body = ascii ''OPD3'' \<and> 5 \<le> length body then
        (let n = unat (body ! 4); expected = 5 + n + 16 * n in
         if length body < expected then ([], None, None, None, None)
         else
           let mask_start = 5;
               token_start = mask_start + n;
               position_start = token_start + 4 * n;
               action_start = position_start + 4 * n;
               action_logp_start = action_start + 4 * n
           in (map (\<lambda>x. x \<noteq> 0) (slice mask_start token_start body),
               Some (unpack_i32s n (slice token_start position_start body)),
               Some (unpack_i32s n (slice position_start action_start body)),
               Some (unpack_i32s n (slice action_start action_logp_start body)),
               Some (unpack_f32s n (slice action_logp_start expected body))))
      else if take 4 body = ascii ''OPD2'' \<and> 5 \<le> length body then
        (let n = unat (body ! 4); expected = 5 + n + 8 * n in
         if length body < expected then ([], None, None, None, None)
         else
           let mask_start = 5;
               token_start = mask_start + n;
               position_start = token_start + 4 * n
           in (map (\<lambda>x. x \<noteq> 0) (slice mask_start token_start body),
               Some (unpack_i32s n (slice token_start position_start body)),
               Some (unpack_i32s n (slice position_start expected body)),
               None, None))
      else ([], None, None, None, None))"

text \<open>\<open>payload.split(b"\\0", 1)\<close>: \<open>None\<close> when there is no NUL byte, so fewer than two parts.\<close>

fun split_nul :: "byte list \<Rightarrow> (byte list \<times> byte list) option" where
  "split_nul [] = None"
| "split_nul (b # bs) =
     (if b = 0 then Some ([], bs)
      else map_option (\<lambda>(l, r). (b # l, r)) (split_nul bs))"

section \<open>Codec lemmas\<close>

lemma length_ascii [simp, wire_simps]: "length (ascii s) = length s"
  by (simp add: ascii_def)

lemma unascii_ascii [simp, wire_simps]: "unascii (ascii s) = s"
proof -
  have "char_of (unat (of_char c :: byte)) = c" for c
  proof -
    have "unat (of_nat (of_char c) :: byte) = (of_char c :: nat)"
      using nat_of_char_less_256 [of c] by (simp add: unat_of_nat)
    then have "unat (of_char c :: byte) = (of_char c :: nat)"
      by (simp add: of_nat_of_char)
    then show ?thesis by simp
  qed
  then show ?thesis by (simp add: ascii_def unascii_def map_idI)
qed

lemma length_be32 [simp, wire_simps]: "length (be32 n) = 4"
  by (simp add: be32_def)

lemma un_be32_be32:
  assumes "0 \<le> n" and "n < 2 ^ 32"
  shows "un_be32 (be32 n) = n"
proof -
  define a where "a = n div 256"
  define b where "b = a div 256"
  define c where "c = b div 256"
  have div16: "n div 2 ^ 16 = b" and div24: "n div 2 ^ 24 = c" and div8: "n div 2 ^ 8 = a"
    by (simp_all add: a_def b_def c_def zdiv_zmult2_eq [symmetric])
  have "c mod 256 = c"
    using assms by (simp add: a_def b_def c_def)
  moreover have "n = 256 * a + n mod 256" "a = 256 * b + a mod 256" "b = 256 * c + b mod 256"
    by (simp_all add: a_def b_def c_def)
  ultimately show ?thesis
    unfolding be32_def div8 div16 div24
    by (simp add: uint_word_of_int)
qed

lemma pack_i32_round: "pack_i32 x = Inr bs \<Longrightarrow> length bs = 4 \<and> unpack_i32 bs = x"
proof -
  assume "pack_i32 x = Inr bs"
  then have ok: "- (2 ^ 31) \<le> x" "x < 2 ^ 31" and bs: "bs = be32 (x mod 2 ^ 32)"
    by (auto simp: pack_i32_def i32_ok_def split: if_splits)
  have un: "un_be32 bs = x mod 2 ^ 32"
    unfolding bs by (rule un_be32_be32) simp_all
  have "unpack_i32 bs = x"
  proof (cases "0 \<le> x")
    case True
    with ok have "x mod 2 ^ 32 = x" by (intro mod_pos_pos_trivial) simp_all
    with un ok show ?thesis by (simp add: unpack_i32_def)
  next
    case False
    with ok have "(x + 2 ^ 32) mod 2 ^ 32 = x + 2 ^ 32" by (intro mod_pos_pos_trivial) simp_all
    then have "x mod 2 ^ 32 = x + 2 ^ 32" by simp
    with un ok False show ?thesis by (simp add: unpack_i32_def)
  qed
  then show ?thesis by (simp add: bs)
qed

lemma unpack_pack_f32 [simp]: "unpack_f32 (pack_f32 w) = w"
proof -
  have "un_be32 (be32 (uint w)) = uint w"
    using uint_bounded [of w] by (intro un_be32_be32) simp_all
  then show ?thesis by (simp add: pack_f32_def unpack_f32_def)
qed

lemma length_pack_f32 [simp, wire_simps]: "length (pack_f32 w) = 4"
  by (simp add: pack_f32_def)

text \<open>Groups of four bytes: cutting a concatenation of 4-byte blocks gives the blocks back.\<close>

lemma chunks4_concat [wire_simps]:
  "(\<And>b. b \<in> set bss \<Longrightarrow> length b = 4) \<Longrightarrow> n = length bss \<Longrightarrow> chunks4 n (concat bss) = bss"
  by (induction bss arbitrary: n) auto

lemma length_concat4:
  "(\<And>b. b \<in> set bss \<Longrightarrow> length b = 4) \<Longrightarrow> length (concat bss) = 4 * length bss"
  by (induction bss) auto

lemma map_r_pack_i32:
  "map_r pack_i32 xs = Inr bss \<Longrightarrow>
     length bss = length xs \<and> (\<forall>b \<in> set bss. length b = 4) \<and> map unpack_i32 bss = xs"
  by (induction xs arbitrary: bss) (auto dest!: pack_i32_round)

lemma pack_i32s_round:
  assumes "pack_i32s xs = Inr bs"
  shows "length bs = 4 * length xs" and "unpack_i32s (length xs) bs = xs"
proof -
  from assms obtain bss where bss: "map_r pack_i32 xs = Inr bss" and bs: "bs = concat bss"
    by (auto simp: pack_i32s_def)
  note facts = map_r_pack_i32 [OF bss]
  show "length bs = 4 * length xs"
    using facts by (simp add: bs length_concat4)
  show "unpack_i32s (length xs) bs = xs"
    using facts by (simp add: bs unpack_i32s_def chunks4_concat)
qed

lemma pack_i32s_total: "(\<forall>x \<in> set xs. i32_ok x) \<Longrightarrow> \<exists>bs. pack_i32s xs = Inr bs"
  by (induction xs) (auto simp: pack_i32s_def pack_i32_def)

lemma pack_f32s_round [simp]:
  "length (pack_f32s ws) = 4 * length ws" "unpack_f32s (length ws) (pack_f32s ws) = ws"
  by (induction ws) (simp_all add: pack_f32s_def unpack_f32s_def)

lemma ascii_tags [wire_simps]: "ascii ''OPD3'' \<noteq> ascii ''OPD2''"
  by (simp add: ascii_def)

lemma split_nul_frame [wire_simps]:
  "0 \<notin> set (ascii rid) \<Longrightarrow> split_nul (frame_payload rid body) = Some (ascii rid, body)"
proof -
  have "0 \<notin> set us \<Longrightarrow> split_nul (us @ 0 # body) = Some (us, body)" for us
    by (induction us) auto
  then show "0 \<notin> set (ascii rid) \<Longrightarrow> ?thesis" by (simp add: frame_payload_def)
qed

text \<open>A well-formed chunk that packs is decoded to exactly what was packed.\<close>

lemma decode_OPD3:
  assumes "length msk \<le> 255" "length tb = 4 * length msk" "length pb = 4 * length msk"
    "length ab = 4 * length msk" "length lb = 4 * length msk"
  shows "decode_payload (ascii ''OPD3'' @ [word_of_nat (length msk)]
           @ map (\<lambda>x. if x then 1 else 0) msk @ tb @ pb @ ab @ lb)
         = (msk, Some (unpack_i32s (length msk) tb), Some (unpack_i32s (length msk) pb),
            Some (unpack_i32s (length msk) ab), Some (unpack_f32s (length msk) lb))"
proof -
  let ?n = "length msk"
  let ?mb = "map (\<lambda>x. if x then 1 else 0) msk :: byte list"
  let ?h = "ascii ''OPD3'' @ [word_of_nat ?n]"
  let ?body = "ascii ''OPD3'' @ [word_of_nat ?n] @ ?mb @ tb @ pb @ ab @ lb"
  have n: "unat (?body ! 4) = ?n"
    using assms(1) by (simp add: nth_append unat_of_nat)
  have mb: "slice 5 (5 + ?n) ?body = ?mb"
    by (rule slice_mid [of _ ?h _ "tb @ pb @ ab @ lb"]) (simp_all add: assms)
  have tb: "slice (5 + ?n) (5 + ?n + 4 * ?n) ?body = tb"
    by (rule slice_mid [of _ "?h @ ?mb" _ "pb @ ab @ lb"]) (simp_all add: assms)
  have pb: "slice (5 + ?n + 4 * ?n) (5 + ?n + 4 * ?n + 4 * ?n) ?body = pb"
    by (rule slice_mid [of _ "?h @ ?mb @ tb" _ "ab @ lb"]) (simp_all add: assms)
  have ab: "slice (5 + ?n + 4 * ?n + 4 * ?n) (5 + ?n + 4 * ?n + 4 * ?n + 4 * ?n) ?body = ab"
    by (rule slice_mid [of _ "?h @ ?mb @ tb @ pb" _ lb]) (simp_all add: assms)
  have lb: "slice (5 + ?n + 4 * ?n + 4 * ?n + 4 * ?n) (5 + ?n + 16 * ?n) ?body = lb"
    by (rule slice_mid [of _ "?h @ ?mb @ tb @ pb @ ab" _ "[]"]) (simp_all add: assms)
  have len: "length ?body = 5 + ?n + 16 * ?n" using assms by simp
  have tag: "take 4 ?body = ascii ''OPD3''" by simp
  have "map (\<lambda>x. x \<noteq> 0) ?mb = msk" by (induction msk) auto
  then show ?thesis
    unfolding decode_payload_def Let_def n tag len
    by (simp only: mb tb pb ab lb) simp
qed

lemma decode_OPD2:
  assumes "length msk \<le> 255" "length tb = 4 * length msk" "length pb = 4 * length msk"
  shows "decode_payload (ascii ''OPD2'' @ [word_of_nat (length msk)]
           @ map (\<lambda>x. if x then 1 else 0) msk @ tb @ pb)
         = (msk, Some (unpack_i32s (length msk) tb), Some (unpack_i32s (length msk) pb), None, None)"
proof -
  let ?n = "length msk"
  let ?mb = "map (\<lambda>x. if x then 1 else 0) msk :: byte list"
  let ?h = "ascii ''OPD2'' @ [word_of_nat ?n]"
  let ?body = "ascii ''OPD2'' @ [word_of_nat ?n] @ ?mb @ tb @ pb"
  have n: "unat (?body ! 4) = ?n"
    using assms(1) by (simp add: nth_append unat_of_nat)
  have mb: "slice 5 (5 + ?n) ?body = ?mb"
    by (rule slice_mid [of _ ?h _ "tb @ pb"]) (simp_all add: assms)
  have tb: "slice (5 + ?n) (5 + ?n + 4 * ?n) ?body = tb"
    by (rule slice_mid [of _ "?h @ ?mb" _ pb]) (simp_all add: assms)
  have pb: "slice (5 + ?n + 4 * ?n) (5 + ?n + 8 * ?n) ?body = pb"
    by (rule slice_mid [of _ "?h @ ?mb @ tb" _ "[]"]) (simp_all add: assms)
  have len: "length ?body = 5 + ?n + 8 * ?n" using assms by simp
  have tag: "take 4 ?body = ascii ''OPD2''" by simp
  have "map (\<lambda>x. x \<noteq> 0) ?mb = msk" by (induction msk) auto
  then show ?thesis
    unfolding decode_payload_def Let_def n tag len
    by (simp only: mb tb pb) (simp add: ascii_tags ascii_tags [symmetric])
qed

lemma decode_mask_chunk_body:
  assumes "mask_chunk_body msk tokens positions actions logps = Inr body"
    and "\<not> mask_chunk_malformed msk tokens (Some positions) actions logps"
  shows "decode_payload body =
     (if actions \<noteq> None \<and> logps \<noteq> None then (msk, Some tokens, Some positions, actions, logps)
      else (msk, Some tokens, Some positions, None, None))"
proof -
  have len: "length msk \<le> 255" "length tokens = length msk" "length positions = length msk"
    "\<And>xs. actions = Some xs \<Longrightarrow> length xs = length msk"
    "\<And>xs. logps = Some xs \<Longrightarrow> length xs = length msk"
    using assms(2) by (auto simp: mask_chunk_malformed_def)
  from assms(1) obtain tb pb where tb: "pack_i32s tokens = Inr tb" and pb: "pack_i32s positions = Inr pb"
    by (auto simp: mask_chunk_body_def Let_def)
  note packs = pack_i32s_round [OF tb] pack_i32s_round [OF pb]
  show ?thesis
  proof (cases "actions \<noteq> None \<and> logps \<noteq> None")
    case True
    then obtain xs lps where some: "actions = Some xs" "logps = Some lps" by auto
    from assms(1) obtain ab where ab: "pack_i32s xs = Inr ab"
      and body: "body = ascii ''OPD3'' @ [word_of_nat (length msk)]
         @ map (\<lambda>x. if x then 1 else 0) msk @ tb @ pb @ ab @ pack_f32s lps"
      by (auto simp: mask_chunk_body_def Let_def some tb pb)
    have eqs: "length xs = length msk" "length lps = length msk" using len some by simp_all
    show ?thesis
      unfolding body using len eqs packs pack_i32s_round [OF ab] pack_f32s_round [of lps]
      by (subst decode_OPD3) (simp_all add: some)
  next
    case False
    then have body: "body = ascii ''OPD2'' @ [word_of_nat (length msk)]
         @ map (\<lambda>x. if x then 1 else 0) msk @ tb @ pb"
      using assms(1) by (auto simp: mask_chunk_body_def Let_def tb pb split: option.splits)
    show ?thesis
      unfolding body using len packs False by (subst decode_OPD2) auto
  qed
qed

lemma mask_chunk_body_total:
  assumes "list_all i32_ok tokens" "list_all i32_ok positions" "list_all i32_ok (opt_default [] actions)"
  shows "\<exists>body. mask_chunk_body msk tokens positions actions logps = Inr body"
proof -
  have total: "list_all i32_ok xs \<Longrightarrow> \<exists>bs. pack_i32s xs = Inr bs" for xs
    using pack_i32s_total by (simp add: list_all_iff)
  then obtain tb pb ab where "pack_i32s tokens = Inr tb" "pack_i32s positions = Inr pb"
    "pack_i32s (opt_default [] actions) = Inr ab"
    using total [OF assms(1)] total [OF assms(2)] total [OF assms(3)] by blast
  then show ?thesis
    by (cases actions; cases logps) (simp_all add: mask_chunk_body_def Let_def)
qed

section \<open>Sending and receiving one chunk\<close>

text \<open>
  Every well-formed chunk handed to \<open>_send_mask_chunk_ipc\<close> over a working socket is sent as one
  datagram, which \<open>split(b"\\0", 1)\<close> and \<open>_decode_payload\<close> take apart into the same request id, mask,
  token ids and positions; the action fields survive exactly when both were given.
\<close>

theorem mask_chunk_roundtrip:
  assumes "rid \<noteq> ''''" "0 \<notin> set (ascii rid)" "msk \<noteq> []"
    and "\<not> mask_chunk_malformed msk tokens (Some positions) actions logps"
    and "list_all i32_ok tokens" "list_all i32_ok positions" "list_all i32_ok (opt_default [] actions)"
    and "sock_path s = Some p" "p \<noteq> ''''" "sock_open s \<or> connects p" "\<And>d. sends d"
  shows "\<exists>payload body.
     send_mask_chunk_ipc connects sends s rid msk tokens (Some positions) actions logps
       = Inr (s\<lparr>sock_open := True, sent := sent s @ [payload]\<rparr>)
     \<and> split_nul payload = Some (ascii rid, body)
     \<and> decode_payload body =
         (if actions \<noteq> None \<and> logps \<noteq> None then (msk, Some tokens, Some positions, actions, logps)
          else (msk, Some tokens, Some positions, None, None))"
proof -
  obtain body where body: "mask_chunk_body msk tokens positions actions logps = Inr body"
    using mask_chunk_body_total [OF assms(5-7)] by blast
  have sock: "get_mask_ipc_sock connects s = Inr (s\<lparr>sock_open := True\<rparr>, True)"
    using assms(8-10) by (auto simp: get_mask_ipc_sock_def)
  have "send_mask_chunk_ipc connects sends s rid msk tokens (Some positions) actions logps
       = Inr (s\<lparr>sock_open := True, sent := sent s @ [frame_payload rid body]\<rparr>)"
    using assms(1,3,4,11) by (simp add: send_mask_chunk_ipc_def sock body)
  then show ?thesis
    using split_nul_frame [OF assms(2)] decode_mask_chunk_body [OF body assms(4)] by blast
qed

theorem mask_chunk_roundtrip_witness:
  "\<exists>payload body.
     send_mask_chunk_ipc (\<lambda>_. True) (\<lambda>_. True) \<lparr>sock_path = Some ''/s'', sock_open = False, sent = []\<rparr>
       ''r1'' [True, False] [7, 300] (Some [0, 1]) (Some [9, 300]) (Some [3212836864, 2143289344])
       = Inr \<lparr>sock_path = Some ''/s'', sock_open = True, sent = [payload]\<rparr>
     \<and> split_nul payload = Some (ascii ''r1'', body)
     \<and> decode_payload body =
         ([True, False], Some [7, 300], Some [0, 1], Some [9, 300], Some [3212836864, 2143289344])"
  using mask_chunk_roundtrip [of "''r1''" "[True, False]" "[7, 300]" "[0, 1]" "Some [9, 300]"
      "Some [3212836864, 2143289344]" "\<lparr>sock_path = Some ''/s'', sock_open = False, sent = []\<rparr>" "''/s''"
      "\<lambda>_. True" "\<lambda>_. True"]
  by (simp add: mask_chunk_malformed_def i32_ok_def ascii_def)

end
