(* ===== verification/Mask_Server.thy ===== *)
theory Mask_Server
  imports Mask_IPC
begin

text \<open>
  The rollout server's side of the mask channel: \<open>OpdMaskIpcServer\<close> of
  \<open>verl/workers/rollout/vllm_rollout/vllm_async_server.py\<close> (its stores, the receive loop, the alignment
  by absolute position, the two polling \<open>pop\<close> operations). The JSON text of a stop event is the
  business of Python's \<open>json\<close> module: \<open>loads\<close> and \<open>dumps\<close> are parameters.
  Polling loops are modelled with the datagrams that arrive before each poll as an explicit
  argument, so every interleaving of the receive thread with a \<open>pop\<close> is covered.
\<close>

section \<open>State\<close>

record stop_event =
  ev_request_id :: string
  ev_response_pos :: int
  ev_spec_pos :: int
  ev_internal_stop_token_id :: int
  ev_student_rank_gt :: "int option"

record ipc_store =
  mask_store :: "string \<rightharpoonup> bool list"
  token_store :: "string \<rightharpoonup> int list"
  position_store :: "string \<rightharpoonup> int list"
  action_store :: "string \<rightharpoonup> int list"
  action_logp_store :: "string \<rightharpoonup> f32 list"
  stop_event_store :: "string \<rightharpoonup> stop_event list"

definition empty_store :: ipc_store where
  "empty_store = \<lparr>mask_store = Map.empty, token_store = Map.empty, position_store = Map.empty,
     action_store = Map.empty, action_logp_store = Map.empty, stop_event_store = Map.empty\<rparr>"

definition extend_opt :: "'k \<Rightarrow> 'v list option \<Rightarrow> ('k \<rightharpoonup> 'v list) \<Rightarrow> ('k \<rightharpoonup> 'v list)" where
  "extend_opt k mxs m = (case mxs of None \<Rightarrow> m | Some xs \<Rightarrow> extend_key k xs m)"

section \<open>The receive loop\<close>

text \<open>\<open>_decode_stop_event_payload\<close>: \<open>loads\<close> gives \<open>None\<close> on malformed text or a non-object.\<close>

definition decode_stop_event_payload :: "(byte list \<Rightarrow> stop_event option) \<Rightarrow> byte list \<Rightarrow> stop_event option" where
  "decode_stop_event_payload loads body =
     (if take 4 body = ascii ''OPS1'' then loads (drop 4 body) else None)"

definition store_mask_event :: "string \<Rightarrow> mask_event \<Rightarrow> ipc_store \<Rightarrow> ipc_store" where
  "store_mask_event rid ev st =
     (case ev of (msk, tokens, positions, actions, logps) \<Rightarrow>
        if msk = [] then st
        else st\<lparr>mask_store := extend_key rid msk (mask_store st),
                token_store := extend_opt rid tokens (token_store st),
                position_store := extend_opt rid positions (position_store st),
                action_store := extend_opt rid actions (action_store st),
                action_logp_store := extend_opt rid logps (action_logp_store st)\<rparr>)"

text \<open>One iteration of \<open>_loop\<close> on a received datagram.\<close>

definition recv_datagram :: "(byte list \<Rightarrow> stop_event option) \<Rightarrow> byte list \<Rightarrow> ipc_store \<Rightarrow> ipc_store" where
  "recv_datagram loads payload st =
     (case split_nul payload of
        None \<Rightarrow> st
      | Some (rid_bytes, body) \<Rightarrow>
          (let rid = unascii rid_bytes in
           case decode_stop_event_payload loads body of
             Some e \<Rightarrow> st\<lparr>stop_event_store := extend_key rid [e] (stop_event_store st)\<rparr>
           | None \<Rightarrow> store_mask_event rid (decode_payload body) st))"

definition recv_all :: "(byte list \<Rightarrow> stop_event option) \<Rightarrow> byte list list \<Rightarrow> ipc_store \<Rightarrow> ipc_store" where
  "recv_all loads = fold (recv_datagram loads)"

section \<open>Alignment by absolute position\<close>

text \<open>The body of the loop of \<open>_align_mask_by_positions\<close>; the state is \<open>(aligned, seen_positions)\<close>.\<close>

definition align_mask_step ::
  "int list option \<Rightarrow> int list \<Rightarrow> nat \<times> bool \<times> int \<Rightarrow> bool list \<times> nat set \<Rightarrow> (bool list \<times> nat set) result" where
  "align_mask_step event_tokens token_ids = (\<lambda>(i, is_teacher, pos) (aligned, seen).
     if pos < 0 then Inl (RuntimeError ''OPD2 position out of range'')
     else if pos \<ge> int (length token_ids) then Inr (aligned, seen)
     else if (case event_tokens of None \<Rightarrow> False | Some ts \<Rightarrow> ts ! i \<noteq> token_ids ! nat pos)
     then Inl (RuntimeError ''OPD2 token mismatch'')
     else Inr (aligned[nat pos := aligned ! nat pos \<or> is_teacher], insert (nat pos) seen))"

definition align_mask_by_positions ::
  "bool list \<Rightarrow> int list option \<Rightarrow> int list \<Rightarrow> int list option \<Rightarrow> bool list result" where
  "align_mask_by_positions msk event_tokens event_positions token_ids_opt =
     (case token_ids_opt of
        None \<Rightarrow> Inl (RuntimeError ''OPD2 position alignment requires final token_ids'')
      | Some token_ids \<Rightarrow>
          (let expected_len = length token_ids in
           if \<not> (length msk = length event_positions
                 \<and> (case event_tokens of None \<Rightarrow> True | Some ts \<Rightarrow> length ts = length msk))
           then Inl (RuntimeError ''OPD2 malformed event lengths'')
           else bind_r
             (fold_r (align_mask_step event_tokens token_ids)
                (zip [0..<length msk] (zip msk event_positions))
                (replicate expected_len False, {}))
             (\<lambda>(aligned, seen).
               if list_all (\<lambda>p. p \<in> seen) [0..<expected_len] then Inr aligned
               else Inl (RuntimeError ''OPD2 position coverage incomplete''))))"

text \<open>\<open>math.isfinite\<close> on a float32 pattern: the exponent field is not all ones.\<close>

definition f32_isfinite :: "f32 \<Rightarrow> bool" where
  "f32_isfinite w \<longleftrightarrow> take_bit 8 (drop_bit 23 w) \<noteq> 255"

definition f32_nan :: f32 where
  "f32_nan = 0x7FC00000"

type_synonym aligned_actions = "int list option \<times> f32 list option \<times> bool list option"

definition align_action_step ::
  "nat \<Rightarrow> int \<times> f32 \<times> int \<Rightarrow> int list \<times> f32 list \<times> bool list \<Rightarrow> int list \<times> f32 list \<times> bool list" where
  "align_action_step expected_len = (\<lambda>(action, action_logp, pos) (acts, lps, am).
     if pos < 0 \<or> pos \<ge> int expected_len then (acts, lps, am)
     else if \<not> f32_isfinite action_logp then (acts, lps, am)
     else (acts[nat pos := action], lps[nat pos := action_logp], am[nat pos := True]))"

definition align_actions_by_positions ::
  "int list \<Rightarrow> int list option \<Rightarrow> f32 list option \<Rightarrow> int list \<Rightarrow> aligned_actions result" where
  "align_actions_by_positions event_positions action_tokens action_logps token_ids =
     (case (action_tokens, action_logps) of
        (Some as, Some ls) \<Rightarrow>
          if length as \<noteq> length event_positions \<or> length ls \<noteq> length event_positions
          then Inl (RuntimeError ''OPD3 malformed action lengths'')
          else
            (let expected_len = length token_ids;
                 (acts, lps, am) = fold (align_action_step expected_len)
                    (zip as (zip ls event_positions))
                    (token_ids, replicate expected_len f32_nan, replicate expected_len False)
             in Inr (Some acts, Some lps, Some am))
      | _ \<Rightarrow> Inr (None, None, None))"

section \<open>Polling pops\<close>

type_synonym popped = "bool list option \<times> aligned_actions"

definition pop_keys :: "string \<Rightarrow> ipc_store \<Rightarrow> ipc_store" where
  "pop_keys rid st = st\<lparr>mask_store := pop_key rid (mask_store st),
     token_store := pop_key rid (token_store st),
     position_store := pop_key rid (position_store st),
     action_store := pop_key rid (action_store st),
     action_logp_store := pop_key rid (action_logp_store st)\<rparr>"

definition align_popped :: "ipc_store \<Rightarrow> string \<Rightarrow> bool list \<Rightarrow> int list \<Rightarrow> int list \<Rightarrow> popped result" where
  "align_popped st rid msk positions token_ids =
     bind_r (align_mask_by_positions msk (token_store st rid) positions (Some token_ids)) (\<lambda>aligned.
     bind_r (align_actions_by_positions positions (action_store st rid) (action_logp_store st rid) token_ids)
       (\<lambda>acts. Inr (Some aligned, acts)))"

text \<open>
  The polling loop of \<open>pop_with_actions\<close>: \<open>polls\<close> lists the datagrams received before each poll,
  \<open>late\<close> those received between the last poll and the final \<open>pop\<close> after the deadline.
\<close>

fun pop_with_actions_poll ::
  "(byte list \<Rightarrow> stop_event option) \<Rightarrow> string \<Rightarrow> int list \<Rightarrow> byte list list list \<Rightarrow> byte list list
     \<Rightarrow> ipc_store \<Rightarrow> ipc_store \<times> popped result" where
  "pop_with_actions_poll loads rid token_ids [] late st =
     (let st = recv_all loads late st in
      (pop_keys rid st,
       case mask_store st rid of
         None \<Rightarrow> Inr (None, None, None, None)
       | Some msk \<Rightarrow>
           (case position_store st rid of
              None \<Rightarrow> Inl (RuntimeError ''OPD mask IPC payload has no absolute positions'')
            | Some positions \<Rightarrow> align_popped st rid msk positions token_ids)))"
| "pop_with_actions_poll loads rid token_ids (ds # polls) late st =
     (let st = recv_all loads ds st in
      case (mask_store st rid, position_store st rid) of
        (Some msk, Some positions) \<Rightarrow>
          if length positions \<ge> length token_ids
          then (pop_keys rid st, align_popped st rid msk positions token_ids)
          else pop_with_actions_poll loads rid token_ids polls late st
      | _ \<Rightarrow> pop_with_actions_poll loads rid token_ids polls late st)"

definition pop_with_actions ::
  "(byte list \<Rightarrow> stop_event option) \<Rightarrow> string option \<Rightarrow> nat \<Rightarrow> int list option \<Rightarrow> byte list list list
     \<Rightarrow> byte list list \<Rightarrow> ipc_store \<Rightarrow> ipc_store \<times> popped result" where
  "pop_with_actions loads request_id expected_len token_ids polls late st =
     (case request_id of
        None \<Rightarrow> (st, Inr (None, None, None, None))
      | Some rid \<Rightarrow>
          (case token_ids of
             None \<Rightarrow> (st, Inl (RuntimeError ''OPD absolute-position alignment requires final token_ids''))
           | Some ids \<Rightarrow>
               if expected_len \<noteq> length ids
               then (st, Inl (RuntimeError ''OPD absolute-position alignment requires final token_ids''))
               else pop_with_actions_poll loads rid ids polls late st))"

text \<open>\<open>min(events, key=lambda e: int(e.get("response_pos", 10**18)))\<close>: the first minimal event.\<close>

fun min_event :: "stop_event \<Rightarrow> stop_event list \<Rightarrow> stop_event" where
  "min_event e [] = e"
| "min_event e (x # xs) = min_event (if ev_response_pos x < ev_response_pos e then x else e) xs"

definition take_stop_event :: "string \<Rightarrow> ipc_store \<Rightarrow> ipc_store \<times> stop_event option" where
  "take_stop_event rid st =
     (st\<lparr>stop_event_store := pop_key rid (stop_event_store st)\<rparr>,
      case stop_event_store st rid of
        None \<Rightarrow> None
      | Some [] \<Rightarrow> None
      | Some (e # es) \<Rightarrow> Some (min_event e es))"

fun pop_stop_event ::
  "(byte list \<Rightarrow> stop_event option) \<Rightarrow> string \<Rightarrow> byte list list list \<Rightarrow> byte list list
     \<Rightarrow> ipc_store \<Rightarrow> ipc_store \<times> stop_event option" where
  "pop_stop_event loads rid [] late st = take_stop_event rid (recv_all loads late st)"
| "pop_stop_event loads rid (ds # polls) late st =
     (case take_stop_event rid (recv_all loads ds st) of
        (st', Some e) \<Rightarrow> (st', Some e)
      | (st', None) \<Rightarrow> pop_stop_event loads rid polls late st')"

section \<open>What the alignment computes\<close>

text \<open>
  The declarative reading of \<open>_align_mask_by_positions\<close>: an event is admissible when its position is not
  negative and, inside the response, its token is the final token there.
\<close>

definition event_ok :: "int list option \<Rightarrow> int list \<Rightarrow> nat \<times> bool \<times> int \<Rightarrow> bool" where
  "event_ok event_tokens token_ids = (\<lambda>(i, t, pos). 0 \<le> pos \<and>
     (pos < int (length token_ids) \<longrightarrow>
        (case event_tokens of None \<Rightarrow> True | Some ts \<Rightarrow> ts ! i = token_ids ! nat pos)))"

definition teacher_at :: "(nat \<times> bool \<times> int) list \<Rightarrow> nat \<Rightarrow> bool" where
  "teacher_at evs q = list_ex (\<lambda>(i, t, p). p = int q \<and> t) evs"

definition covered :: "nat \<Rightarrow> (nat \<times> bool \<times> int) list \<Rightarrow> nat set" where
  "covered n evs = {q. q < n \<and> (\<exists>i t. (i, t, int q) \<in> set evs)}"

lemma covered_Cons:
  "covered n ((i, t, p) # evs) = (if 0 \<le> p \<and> p < int n then insert (nat p) (covered n evs) else covered n evs)"
proof (rule set_eqI)
  fix q
  show "q \<in> covered n ((i, t, p) # evs) \<longleftrightarrow>
      q \<in> (if 0 \<le> p \<and> p < int n then insert (nat p) (covered n evs) else covered n evs)"
    by (cases "int q = p") (simp_all add: covered_def, auto)
qed

lemma align_mask_fold_ok:
  assumes "length al = length ids" and "list_all (event_ok ets ids) evs"
  shows "fold_r (align_mask_step ets ids) evs (al, seen)
    = Inr (map (\<lambda>q. al ! q \<or> teacher_at evs q) [0..<length ids], seen \<union> covered (length ids) evs)"
  using assms
proof (induction evs arbitrary: al seen)
  case Nil
  then show ?case by (simp add: teacher_at_def covered_def map_nth flip: Nil(1))
next
  case (Cons ev evs)
  obtain i t p where ev: "ev = (i, t, p)" by (cases ev) auto
  show ?case
  proof (cases "p < int (length ids)")
    case True
    with Cons.prems ev have p: "0 \<le> p" "nat p < length al"
      and tok: "\<not> (case ets of None \<Rightarrow> False | Some ts \<Rightarrow> ts ! i \<noteq> ids ! nat p)"
      by (auto simp: event_ok_def split: option.splits)
    have "fold_r (align_mask_step ets ids) (ev # evs) (al, seen)
      = fold_r (align_mask_step ets ids) evs (al[nat p := al ! nat p \<or> t], insert (nat p) seen)"
      using True p tok by (simp add: ev align_mask_step_def)
    also have "\<dots> = Inr (map (\<lambda>q. al[nat p := al ! nat p \<or> t] ! q \<or> teacher_at evs q) [0..<length ids],
        insert (nat p) seen \<union> covered (length ids) evs)"
      using Cons by (intro Cons.IH) auto
    also have "\<dots> = Inr (map (\<lambda>q. al ! q \<or> teacher_at (ev # evs) q) [0..<length ids],
        seen \<union> covered (length ids) (ev # evs))"
      using p True Cons.prems(1)
      by (auto simp: ev teacher_at_def covered_Cons nth_list_update)
    finally show ?thesis .
  next
    case False
    with Cons show ?thesis
      by (auto simp: ev align_mask_step_def event_ok_def teacher_at_def covered_Cons)
  qed
qed

lemma align_mask_fold_error:
  "\<not> list_all (event_ok ets ids) evs \<Longrightarrow> \<exists>e. fold_r (align_mask_step ets ids) evs s = Inl e"
proof (induction evs arbitrary: s)
  case (Cons ev evs)
  obtain i t p where ev: "ev = (i, t, p)" by (cases ev) auto
  obtain al seen where s: "s = (al, seen)" by (cases s) auto
  show ?case
  proof (cases "event_ok ets ids ev")
    case True
    then have "\<exists>s'. align_mask_step ets ids ev s = Inr s'"
      by (cases "p < int (length ids)"; cases ets) (simp_all add: ev s event_ok_def align_mask_step_def)
    with True Cons show ?thesis by auto
  next
    case False
    then have "\<exists>e. align_mask_step ets ids ev s = Inl e"
      by (cases "p < 0"; cases ets) (simp_all add: ev s event_ok_def align_mask_step_def)
    then show ?thesis by auto
  qed
qed simp

text \<open>
  \<open>_align_mask_by_positions\<close> succeeds exactly when the event lists have the same length, every
  position is non-negative, every event inside the response carries the final token of its position,
  and every response position is reported at least once. The mask it then returns is true at a
  position exactly when some event there is a teacher event.
\<close>

theorem align_mask_by_positions_correct:
  fixes msk tokens positions ids
  defines "evs \<equiv> zip [0..<length msk] (zip msk positions)"
  shows "align_mask_by_positions msk (Some tokens) positions (Some ids) = Inr aligned \<longleftrightarrow>
     length msk = length positions \<and> length tokens = length msk
     \<and> list_all (event_ok (Some tokens) ids) evs
     \<and> covered (length ids) evs = {0..<length ids}
     \<and> aligned = map (teacher_at evs) [0..<length ids]"
proof (cases "length msk = length positions \<and> length tokens = length msk
      \<and> list_all (event_ok (Some tokens) ids) evs")
  case True
  have cov: "list_all (\<lambda>p. p \<in> covered (length ids) evs) [0..<length ids]
      \<longleftrightarrow> covered (length ids) evs = {0..<length ids}"
    by (auto simp: list_all_iff covered_def)
  have "fold_r (align_mask_step (Some tokens) ids) evs (replicate (length ids) False, {})
      = Inr (map (teacher_at evs) [0..<length ids], covered (length ids) evs)"
    using True by (subst align_mask_fold_ok) (auto cong: map_cong)
  then have "align_mask_by_positions msk (Some tokens) positions (Some ids) =
      (if covered (length ids) evs = {0..<length ids} then Inr (map (teacher_at evs) [0..<length ids])
       else Inl (RuntimeError ''OPD2 position coverage incomplete''))"
    using True unfolding align_mask_by_positions_def Let_def evs_def [symmetric] cov [symmetric]
    by simp
  with True show ?thesis by auto
next
  case False
  then have "\<exists>e. align_mask_by_positions msk (Some tokens) positions (Some ids) = Inl e"
    using align_mask_fold_error [of "Some tokens" ids evs "(replicate (length ids) False, {})"]
    unfolding align_mask_by_positions_def Let_def evs_def [symmetric]
    by (cases "length msk = length positions \<and> length tokens = length msk") auto
  with False show ?thesis by auto
qed

end
