(* ===== verification/Token_Events.thy ===== *)
theory Token_Events
  imports Mask_Server
begin

text \<open>
  The worker's record of where each emitted token came from, in
  \<open>opd/patches/vllm/speculative_decode.py\<close>: \<open>_strip_vllm_suffix\<close>, \<open>_record_token_source_events\<close> with
  \<open>_get_pending_mask_rows\<close> and \<open>_get_response_base_positions\<close>, \<open>_record_trigger_stop_events\<close>,
  \<open>pop_rollout_trace\<close>, and the deferred flush in the patched \<open>_bookkeeping_sync\<close>.
  A sampler output is a matrix with one row per request of the batch and \<open>-1\<close> in unused slots.
\<close>

section \<open>Request ids\<close>

definition is_hex_digit :: "char \<Rightarrow> bool" where
  "is_hex_digit c \<longleftrightarrow> c \<in> set ''0123456789abcdef''"

definition has_random_suffix :: "string \<Rightarrow> bool" where
  "has_random_suffix s \<longleftrightarrow> 9 \<le> length s \<and> s ! (length s - 9) = CHR ''-''
     \<and> list_all is_hex_digit (drop (length s - 8) s)"

text \<open>
  \<open>_RANDOM_SUFFIX_RE.sub("", rid)\<close> for \<open>-[0-9a-f]{8}$\<close>; Python's \<open>$\<close> also matches before a final
  newline, which then stays.
\<close>

definition strip_vllm_suffix :: "string \<Rightarrow> string" where
  "strip_vllm_suffix s =
     (if has_random_suffix s then take (length s - 9) s
      else if s \<noteq> '''' \<and> last s = CHR 0x0A \<and> has_random_suffix (butlast s)
      then take (length s - 10) s @ [CHR 0x0A]
      else s)"

section \<open>State\<close>

abbreviation PLACEHOLDER_TOKEN_ID :: int where
  "PLACEHOLDER_TOKEN_ID \<equiv> -1"

record pending_row =
  pr_mask :: "bool list"
  pr_tokens :: "int list"
  pr_actions :: "int list"
  pr_logps :: "f32 list"

definition empty_row :: pending_row where
  "empty_row = \<lparr>pr_mask = [], pr_tokens = [], pr_actions = [], pr_logps = []\<rparr>"

text \<open>
  \<open>sampling_metadata\<close> as the patch uses it: the batch's request ids, the response base positions and
  the pending rows it hangs on it. \<open>event_state\<close> adds the module's per-request dictionaries.
\<close>

record event_state =
  md_req_ids :: "string option list option"
  md_base_positions :: "int list option"
  md_pending_rows :: "pending_row list option"
  teacher_mask_by_rid :: "string \<rightharpoonup> bool list"
  token_events_by_rid :: "string \<rightharpoonup> int list"
  position_events_by_rid :: "string \<rightharpoonup> int list"

definition get_response_base_positions :: "event_state \<Rightarrow> nat \<Rightarrow> int list option" where
  "get_response_base_positions st batch_size =
     (case md_base_positions st of
        None \<Rightarrow> None
      | Some bp \<Rightarrow> if length bp < batch_size then None else Some (take batch_size bp))"

definition get_pending_mask_rows :: "event_state \<Rightarrow> nat \<Rightarrow> pending_row list" where
  "get_pending_mask_rows st batch_size =
     (case md_pending_rows st of
        None \<Rightarrow> replicate batch_size empty_row
      | Some rows \<Rightarrow> if length rows < batch_size then replicate batch_size empty_row else rows)"

section \<open>Token sources of one sampler call\<close>

text \<open>
  The alternatives of \<open>_record_token_source_events\<close> for the teacher flags, in the order the code
  tries them: an explicit matrix, flags per flat token, flags per request, or nothing.
\<close>

datatype teacher_source =
    Override "bool list list"
  | PerToken "bool list" "nat list" "int list"
  | PerReq "bool list"
  | NoSource

definition emitted_matrix :: "int list list \<Rightarrow> bool list list" where
  "emitted_matrix out = map (map (\<lambda>t. t \<ge> 0 \<and> t \<noteq> PLACEHOLDER_TOKEN_ID)) out"

definition put2 :: "nat \<Rightarrow> nat \<Rightarrow> 'a \<Rightarrow> 'a list list \<Rightarrow> 'a list list" where
  "put2 r c v m = m[r := (m ! r)[c := v]]"

definition resolve_teacher_output ::
  "teacher_source \<Rightarrow> nat \<Rightarrow> nat \<Rightarrow> bool list list \<Rightarrow> bool list list" where
  "resolve_teacher_output src batch_size width emitted =
     (case src of
        Override t \<Rightarrow> map2 (map2 (\<and>)) t emitted
      | PerToken flags reqs poss \<Rightarrow>
          fold (\<lambda>(f, r, p) m.
                  if f \<and> r < batch_size \<and> 0 \<le> p \<and> p < int width then put2 r (nat p) True m else m)
            (zip flags (zip reqs poss)) (map (map (\<lambda>_. False)) emitted)
      | PerReq flags \<Rightarrow> map2 (\<lambda>f row. map (\<lambda>e. e \<and> f) row) flags emitted
      | NoSource \<Rightarrow> map (map (\<lambda>_. False)) emitted)"

text \<open>The inner loop over one row: the kept columns are the emitted ones with a token in the vocabulary.\<close>

definition kept_columns :: "int option \<Rightarrow> int list \<Rightarrow> nat list" where
  "kept_columns valid_vocab_size out_row =
     filter (\<lambda>c. out_row ! c \<ge> 0 \<and> out_row ! c \<noteq> PLACEHOLDER_TOKEN_ID
               \<and> \<not> (case valid_vocab_size of None \<Rightarrow> False | Some v \<Rightarrow> out_row ! c \<ge> v))
       [0..<length out_row]"

record token_chunk =
  ch_mask :: "bool list"
  ch_tokens :: "int list"
  ch_actions :: "int list option"
  ch_logps :: "f32 list option"
  ch_positions :: "int list option"

definition row_chunk ::
  "int option \<Rightarrow> int option \<Rightarrow> int list \<Rightarrow> bool list \<Rightarrow> int list option \<Rightarrow> f32 list option \<Rightarrow> token_chunk" where
  "row_chunk valid_vocab_size base out_row teacher_row action_row logp_row =
     (let cols = kept_columns valid_vocab_size out_row in
      \<lparr>ch_mask = map ((!) teacher_row) cols,
       ch_tokens = map ((!) out_row) cols,
       ch_actions = map_option (\<lambda>r. map ((!) r) cols) action_row,
       ch_logps = map_option (\<lambda>r. map ((!) r) cols) logp_row,
       ch_positions = map_option (\<lambda>b. map (\<lambda>k. b + int k) [0..<length cols]) base\<rparr>)"

definition append_pending :: "token_chunk \<Rightarrow> pending_row \<Rightarrow> pending_row" where
  "append_pending ch row =
     row\<lparr>pr_mask := pr_mask row @ ch_mask ch,
         pr_tokens := pr_tokens row @ ch_tokens ch,
         pr_actions := pr_actions row @ opt_default [] (ch_actions ch),
         pr_logps := pr_logps row @ opt_default [] (ch_logps ch)\<rparr>"

text \<open>Where a row's chunk goes: the pending rows when the IPC socket is configured, else the dictionaries.\<close>

definition record_chunk ::
  "bool \<Rightarrow> nat \<Rightarrow> nat \<Rightarrow> string \<Rightarrow> token_chunk \<Rightarrow> event_state \<Rightarrow> event_state" where
  "record_chunk use_ipc batch_size i rid ch st =
     (if ch_tokens ch = [] then st
      else if use_ipc then
        (let rows = get_pending_mask_rows st batch_size in
         st\<lparr>md_pending_rows := Some (rows[i := append_pending ch (rows ! i)])\<rparr>)
      else
        (let ext = strip_vllm_suffix rid in
         st\<lparr>teacher_mask_by_rid := extend_key ext (ch_mask ch) (teacher_mask_by_rid st),
            token_events_by_rid := extend_key ext (ch_tokens ch) (token_events_by_rid st),
            position_events_by_rid :=
              (case ch_positions ch of
                 None \<Rightarrow> position_events_by_rid st
               | Some ps \<Rightarrow> extend_key ext ps (position_events_by_rid st))\<rparr>))"

definition record_row ::
  "bool \<Rightarrow> nat \<Rightarrow> int list list \<Rightarrow> bool list list \<Rightarrow> int list list option \<Rightarrow> f32 list list option
     \<Rightarrow> int option \<Rightarrow> nat \<Rightarrow> event_state \<Rightarrow> event_state" where
  "record_row use_ipc batch_size out teacher actions logps valid_vocab_size i st =
     (case md_req_ids st of
        None \<Rightarrow> st
      | Some rids \<Rightarrow>
          if i \<ge> length rids then st
          else
            (case rids ! i of
               None \<Rightarrow> st
             | Some rid \<Rightarrow>
                 record_chunk use_ipc batch_size i rid
                   (row_chunk valid_vocab_size
                      (map_option (\<lambda>bp. bp ! i) (get_response_base_positions st batch_size))
                      (out ! i) (teacher ! i)
                      (map_option (\<lambda>m. m ! i) actions) (map_option (\<lambda>m. m ! i) logps))
                   st))"

text \<open>\<open>_record_token_source_events\<close>.\<close>

definition record_token_source_events ::
  "bool \<Rightarrow> nat \<Rightarrow> int list list \<Rightarrow> teacher_source \<Rightarrow> int list list option \<Rightarrow> f32 list list option
     \<Rightarrow> int option \<Rightarrow> event_state \<Rightarrow> event_state" where
  "record_token_source_events use_ipc batch_size out src actions logps valid_vocab_size st =
     (if md_req_ids st = None then st
      else
        (let emitted = emitted_matrix out in
         if \<not> list_ex (list_ex id) emitted then st
         else
           (let width = (case out of [] \<Rightarrow> 0 | r # _ \<Rightarrow> length r);
                teacher = resolve_teacher_output src batch_size width emitted
            in fold (record_row use_ipc batch_size out teacher actions logps valid_vocab_size)
                 [0..<batch_size] st)))"

section \<open>Trigger-stop events\<close>

text \<open>
  \<open>_record_trigger_stop_events\<close>: one event per internal stop slot, with the threshold when it is
  positive. The model returns the events in the order they are sent and written.
\<close>

definition row_stop_events ::
  "event_state \<Rightarrow> nat \<Rightarrow> int list list \<Rightarrow> bool list list \<Rightarrow> int list list option \<Rightarrow> nat \<Rightarrow> stop_event list" where
  "row_stop_events st batch_size out internal_stop thresholds i =
     (case md_req_ids st of
        None \<Rightarrow> []
      | Some rids \<Rightarrow>
          if i \<ge> length rids then []
          else
            (case rids ! i of
               None \<Rightarrow> []
             | Some rid \<Rightarrow>
                 (let response_pos =
                        (case get_response_base_positions st batch_size of None \<Rightarrow> 0 | Some bp \<Rightarrow> bp ! i)
                  in map (\<lambda>c.
                       \<lparr>ev_request_id = strip_vllm_suffix rid,
                        ev_response_pos = response_pos + int c,
                        ev_spec_pos = int c,
                        ev_internal_stop_token_id = out ! i ! c,
                        ev_student_rank_gt =
                          (case thresholds of
                             None \<Rightarrow> None
                           | Some th \<Rightarrow> if th ! i ! c > 0 then Some (th ! i ! c) else None)\<rparr>)
                     (filter (\<lambda>c. internal_stop ! i ! c) [0..<length (internal_stop ! i)]))))"

definition record_trigger_stop_events ::
  "event_state \<Rightarrow> int list list \<Rightarrow> bool list list \<Rightarrow> int list list option \<Rightarrow> stop_event list" where
  "record_trigger_stop_events st out internal_stop thresholds =
     (if md_req_ids st = None \<or> \<not> list_ex (list_ex id) internal_stop then []
      else concat (map (row_stop_events st (length out) out internal_stop thresholds) [0..<length out]))"

text \<open>\<open>pop_rollout_trace\<close> on the three token dictionaries (the trace events are not modelled).\<close>

definition pop_rollout_trace ::
  "string option \<Rightarrow> event_state
     \<Rightarrow> event_state \<times> (string \<times> bool list option \<times> int list option \<times> int list option) option" where
  "pop_rollout_trace request_id st =
     (case request_id of
        None \<Rightarrow> (st, None)
      | Some r \<Rightarrow>
          (let rid = strip_vllm_suffix r;
               msk = teacher_mask_by_rid st rid;
               tokens = token_events_by_rid st rid;
               positions = position_events_by_rid st rid
           in (st\<lparr>teacher_mask_by_rid := pop_key rid (teacher_mask_by_rid st),
                  token_events_by_rid := pop_key rid (token_events_by_rid st),
                  position_events_by_rid := pop_key rid (position_events_by_rid st)\<rparr>,
               if msk = None \<and> tokens = None \<and> positions = None then None
               else Some (rid, msk, tokens, positions))))"

text \<open>
  \<open>_send_stop_event_ipc\<close>: the event as JSON text (\<open>dumps\<close>) behind the tag \<open>OPS1\<close>. A failed send closes the
  socket and loses the event; a failing connect raises, since the socket is fetched outside the \<open>try\<close>.
\<close>

definition send_stop_event_ipc ::
  "(string \<Rightarrow> bool) \<Rightarrow> (byte list \<Rightarrow> bool) \<Rightarrow> (stop_event \<Rightarrow> byte list) \<Rightarrow> ipc_sender \<Rightarrow> string \<Rightarrow> stop_event
     \<Rightarrow> ipc_sender result" where
  "send_stop_event_ipc connects sends dumps s rid event =
     (if rid = '''' then Inr s
      else bind_r (get_mask_ipc_sock connects s) (\<lambda>(s', have_sock).
        if \<not> have_sock then Inr s'
        else
          (let payload = frame_payload rid (ascii ''OPS1'' @ dumps event) in
           if sends payload then Inr (s'\<lparr>sent := sent s' @ [payload]\<rparr>)
           else Inr (s'\<lparr>sock_open := False\<rparr>))))"

section \<open>The deferred flush\<close>

text \<open>
  The patched \<open>_bookkeeping_sync\<close> after vLLM's own bookkeeping: \<open>sampled\<close> are the accepted tokens of
  a request, \<open>outputs rid\<close> is its output token list with them already appended. The rows recorded by
  the sampler are matched against what vLLM accepted, and sent with absolute positions.
\<close>

definition flush_request ::
  "(string \<Rightarrow> bool) \<Rightarrow> (byte list \<Rightarrow> bool) \<Rightarrow> bool \<Rightarrow> pending_row list option \<Rightarrow> (string \<rightharpoonup> int list)
     \<Rightarrow> string option list \<Rightarrow> nat \<times> int list \<Rightarrow> ipc_sender \<Rightarrow> ipc_sender result" where
  "flush_request connects sends non_spec pending outputs rids = (\<lambda>(req_idx, sampled) s.
     if req_idx \<ge> length rids then Inr s
     else if sampled = [] then Inr s
     else
       (case rids ! req_idx of
          None \<Rightarrow> Inr s
        | Some rid \<Rightarrow>
            (let n = length sampled in
             bind_r
               (if non_spec
                then Inr \<lparr>pr_mask = replicate n False, pr_tokens = sampled, pr_actions = [], pr_logps = []\<rparr>
                else
                  (case pending of
                     None \<Rightarrow> Inl (RuntimeError ''speculative output has no pending mask row'')
                   | Some rows \<Rightarrow>
                       if req_idx \<ge> length rows
                       then Inl (RuntimeError ''speculative output has no pending mask row'')
                       else if take n (pr_tokens (rows ! req_idx)) \<noteq> sampled
                       then Inl (RuntimeError ''pending mask tokens do not match vLLM bookkeeping output'')
                       else Inr (rows ! req_idx)))
               (\<lambda>row.
                 case outputs rid of
                   None \<Rightarrow> Inr s
                 | Some out_ids \<Rightarrow>
                     (let end_pos = int (length out_ids);
                          start_pos = end_pos - int n;
                          positions = [start_pos..end_pos - 1];
                          actions = (if n \<le> length (pr_actions row) then Some (take n (pr_actions row)) else None);
                          logps = (if n \<le> length (pr_logps row) then Some (take n (pr_logps row)) else None)
                      in send_mask_chunk_ipc connects sends s (strip_vllm_suffix rid)
                           (take n (pr_mask row)) sampled (Some positions) actions logps)))))"

definition bookkeeping_flush ::
  "(string \<Rightarrow> bool) \<Rightarrow> (byte list \<Rightarrow> bool) \<Rightarrow> bool \<Rightarrow> pending_row list option \<Rightarrow> (string \<rightharpoonup> int list)
     \<Rightarrow> int list list \<Rightarrow> string option list \<Rightarrow> ipc_sender \<Rightarrow> ipc_sender result" where
  "bookkeeping_flush connects sends non_spec pending outputs sampled_ids rids s =
     (case sock_path s of
        None \<Rightarrow> Inr s
      | Some p \<Rightarrow>
          if p = '''' then Inr s
          else fold_r (flush_request connects sends non_spec pending outputs rids)
                 (enumerate 0 sampled_ids) s)"

section \<open>What the recording leaves for the flush\<close>

text \<open>The pending row of request \<open>i\<close>, as the flush will read it.\<close>

definition pending :: "nat \<Rightarrow> event_state \<Rightarrow> nat \<Rightarrow> pending_row" where
  "pending batch_size st i = get_pending_mask_rows st batch_size ! i"

lemma length_get_pending: "batch_size \<le> length (get_pending_mask_rows st batch_size)"
  by (auto simp: get_pending_mask_rows_def split: option.splits)

lemma record_chunk_pending:
  assumes "i < batch_size" "j < batch_size"
  shows "pending batch_size (record_chunk True batch_size i rid ch st) j
     = (if j = i \<and> ch_tokens ch \<noteq> [] then append_pending ch (pending batch_size st i) else pending batch_size st j)"
    and "md_req_ids (record_chunk True batch_size i rid ch st) = md_req_ids st"
    and "md_base_positions (record_chunk True batch_size i rid ch st) = md_base_positions st"
  using assms length_get_pending [of batch_size st]
  by (auto simp: record_chunk_def pending_def Let_def get_pending_mask_rows_def [of "st\<lparr>md_pending_rows := _\<rparr>"])

text \<open>The chunk a row contributes (nothing for a request without id).\<close>

definition chunk_of ::
  "nat \<Rightarrow> event_state \<Rightarrow> int list list \<Rightarrow> bool list list \<Rightarrow> int list list option \<Rightarrow> f32 list list option
     \<Rightarrow> int option \<Rightarrow> nat \<Rightarrow> token_chunk" where
  "chunk_of batch_size st out teacher actions logps v i =
     row_chunk v (map_option (\<lambda>bp. bp ! i) (get_response_base_positions st batch_size)) (out ! i) (teacher ! i)
       (map_option (\<lambda>m. m ! i) actions) (map_option (\<lambda>m. m ! i) logps)"

lemma chunk_of_cong:
  "md_base_positions st' = md_base_positions st \<Longrightarrow>
     chunk_of n st' out teacher actions logps v i = chunk_of n st out teacher actions logps v i"
  by (simp add: chunk_of_def get_response_base_positions_def)

lemma record_rows_pending:
  assumes "md_req_ids st = Some rids" "length rids = batch_size" "\<forall>i < batch_size. rids ! i \<noteq> None"
    and "distinct is" "\<forall>i \<in> set is. i < batch_size" "j < batch_size"
  shows "pending batch_size (fold (record_row True batch_size out teacher actions logps v) is st) j
     = (let ch = chunk_of batch_size st out teacher actions logps v j in
        if j \<in> set is \<and> ch_tokens ch \<noteq> [] then append_pending ch (pending batch_size st j) else pending batch_size st j)"
  using assms
proof (induction "is" arbitrary: st)
  case (Cons i "is")
  obtain rid where rid: "rids ! i = Some rid" using Cons.prems(3,5) by auto
  have i: "i < batch_size" using Cons.prems(5) by simp
  let ?ch = "chunk_of batch_size st out teacher actions logps v"
  let ?st = "record_row True batch_size out teacher actions logps v i st"
  have row: "?st = record_chunk True batch_size i rid (?ch i) st"
    using Cons.prems(1,2) i rid by (simp add: record_row_def chunk_of_def)
  note keep = record_chunk_pending(2,3) [OF i i, of rid "?ch i" st]
  have "pending batch_size (fold (record_row True batch_size out teacher actions logps v) is ?st) j
     = (if j \<in> set is \<and> ch_tokens (?ch j) \<noteq> [] then append_pending (?ch j) (pending batch_size ?st j) else pending batch_size ?st j)"
    using Cons.IH [of ?st] Cons.prems keep chunk_of_cong [of ?st st] by (simp add: row Let_def)
  then show ?case
    using record_chunk_pending(1) [OF i Cons.prems(6), of rid "?ch i" st] Cons.prems(4) by (auto simp: row Let_def)
qed simp

lemma kept_column_emitted:
  "c \<in> set (kept_columns v row) \<Longrightarrow> c < length row \<and> 0 \<le> row ! c"
  by (simp add: kept_columns_def)

text \<open>
  The sampler's record of a step, as it is left for the deferred flush: for every request the pending
  row holds the tokens of its output row that are in the vocabulary, in order, and for each of them the
  teacher mark, the student's action and its log-probability from the same column.
\<close>

theorem recorded_rows_match_output:
  fixes v :: "int option"
  assumes "md_req_ids st = Some rids" "length rids = batch_size" "\<forall>i < batch_size. rids ! i \<noteq> None"
    and "md_pending_rows st = None" "length out = batch_size" "length teacher = batch_size"
    and "\<forall>i < batch_size. length (teacher ! i) = length (out ! i)"
    and "b < batch_size"
  defines "cols \<equiv> kept_columns v (out ! b)"
  shows "pending batch_size
       (record_token_source_events True batch_size out (Override teacher) (Some actions) (Some logps) v st) b
     = \<lparr>pr_mask = map ((!) (teacher ! b)) cols, pr_tokens = map ((!) (out ! b)) cols,
        pr_actions = map ((!) (actions ! b)) cols, pr_logps = map ((!) (logps ! b)) cols\<rparr>"
proof -
  let ?t = "map2 (map2 (\<and>)) teacher (emitted_matrix out)"
  let ?ch = "chunk_of batch_size st out ?t (Some actions) (Some logps) v b"
  have p0: "pending batch_size st b = empty_row"
    using assms(4,8) by (simp add: pending_def get_pending_mask_rows_def)
  have tcol: "?t ! b ! c = teacher ! b ! c" if "c \<in> set cols" for c
    using kept_column_emitted [of c v "out ! b"] that assms(5-8) by (auto simp: cols_def emitted_matrix_def)
  have row: "append_pending ?ch empty_row = \<lparr>pr_mask = map ((!) (teacher ! b)) cols, pr_tokens = map ((!) (out ! b)) cols,
        pr_actions = map ((!) (actions ! b)) cols, pr_logps = map ((!) (logps ! b)) cols\<rparr>"
    using tcol by (simp add: chunk_of_def row_chunk_def append_pending_def empty_row_def cols_def [symmetric] Let_def)
  have toks: "ch_tokens ?ch = [] \<longleftrightarrow> cols = []" by (simp add: chunk_of_def row_chunk_def cols_def Let_def)
  show ?thesis
  proof (cases "list_ex (list_ex id) (emitted_matrix out)")
    case True
    have "pending batch_size (fold (record_row True batch_size out ?t (Some actions) (Some logps) v) [0..<batch_size] st) b
        = (if ch_tokens ?ch \<noteq> [] then append_pending ?ch (pending batch_size st b) else pending batch_size st b)"
      using record_rows_pending [OF assms(1-3), of "[0..<batch_size]" b out ?t "Some actions" "Some logps" v] assms(8)
      by (simp add: Let_def)
    then show ?thesis
      using True assms(1) row toks p0
      by (cases "cols = []") (simp_all add: record_token_source_events_def resolve_teacher_output_def Let_def empty_row_def)
  next
    case False
    then have "cols = []"
      using assms(5,8) kept_column_emitted [of _ v "out ! b"]
      by (fastforce simp: cols_def list_ex_iff emitted_matrix_def in_set_conv_nth ex_in_conv [symmetric])
    then show ?thesis using False assms(1) p0 by (simp add: record_token_source_events_def empty_row_def)
  qed
qed

theorem recorded_rows_match_output_witness:
  "pending 2 (record_token_source_events True 2 [[4, 9, -1], [7, -1, 3]] (Override [[False, True, False], [True, False, False]])
      (Some [[4, 5, -1], [7, -1, 3]]) (Some [[0, 1, 2], [3, 4, 5]]) (Some 8)
      \<lparr>md_req_ids = Some [Some ''a'', Some ''b''], md_base_positions = Some [0, 5], md_pending_rows = None,
       teacher_mask_by_rid = Map.empty, token_events_by_rid = Map.empty, position_events_by_rid = Map.empty\<rparr>) 1
     = \<lparr>pr_mask = [True, False], pr_tokens = [7, 3], pr_actions = [7, 3], pr_logps = [3, 5]\<rparr>"
proof -
  have cols: "kept_columns (Some 8) [7, -1, 3] = [0, 2]" by (simp add: kept_columns_def upt_rec)
  show ?thesis
    by (subst recorded_rows_match_output [where rids = "[Some ''a'', Some ''b'']"])
       (simp_all add: cols less_Suc_eq numeral_2_eq_2)
qed

text \<open>A stop event sent over a working socket is stored under its request, as the first element the server pops.\<close>

lemma stop_event_roundtrip:
  assumes "rid \<noteq> ''''" "0 \<notin> set (ascii rid)" "sock_path s = Some p" "p \<noteq> ''''" "sock_open s \<or> connects p"
    and "\<And>d. sends d" "loads (dumps e) = Some e"
  shows "\<exists>payload. send_stop_event_ipc connects sends dumps s rid e
       = Inr (s\<lparr>sock_open := True, sent := sent s @ [payload]\<rparr>)
     \<and> snd (pop_stop_event loads rid [[payload]] [] empty_store) = Some e"
proof -
  let ?payload = "frame_payload rid (ascii ''OPS1'' @ dumps e)"
  have get: "get_mask_ipc_sock connects s = Inr (s\<lparr>sock_open := True\<rparr>, True)"
    using assms(3-5) by (auto simp: get_mask_ipc_sock_def)
  have "take 4 (ascii ''OPS1'' @ dumps e) = ascii ''OPS1''" "drop 4 (ascii ''OPS1'' @ dumps e) = dumps e"
    by (simp_all add: ascii_def)
  then have "recv_datagram loads ?payload empty_store
      = empty_store\<lparr>stop_event_store := extend_key rid [e] (stop_event_store empty_store)\<rparr>"
    using assms(2,7) by (simp add: recv_datagram_def split_nul_frame decode_stop_event_payload_def)
  moreover have "send_stop_event_ipc connects sends dumps s rid e
      = Inr (s\<lparr>sock_open := True, sent := sent s @ [?payload]\<rparr>)"
    using assms(1,6) by (simp add: send_stop_event_ipc_def get Let_def)
  ultimately show ?thesis
    by (intro exI [of _ ?payload]) (simp add: recv_all_def take_stop_event_def extend_key_def empty_store_def)
qed

end
