(* ===== verification/Spec_Layout.thy ===== *)
theory Spec_Layout
  imports Token_Events
begin

text \<open>
  The flat layout of a speculative batch: \<open>_request_layout\<close> of
  \<open>opd/patches/vllm/speculative_decode.py\<close> and the tensor operations the samplers build on it
  (masked index assignment and \<open>scatter_reduce_(..., "amin")\<close>), as functions on lists.
  The lemmas translate a flat operation into what it does to one slot of one request: this is the
  only place where the flat indexing is reasoned about.
\<close>

section \<open>Definitions\<close>

definition repeat_interleave :: "'a list \<Rightarrow> nat list \<Rightarrow> 'a list" where
  "repeat_interleave xs ls = concat (map2 (\<lambda>x n. replicate n x) xs ls)"

definition request_layout ::
  "nat list \<Rightarrow> nat \<Rightarrow> nat \<Rightarrow> int list \<Rightarrow> nat list \<times> int list \<times> bool list" where
  "request_layout num_draft_tokens num_tokens max_spec_len cu_num_draft_tokens =
     (let lengths = num_draft_tokens;
          req_idx_all = [0..<length num_draft_tokens];
          req_ids = repeat_interleave req_idx_all lengths;
          starts = map2 (\<lambda>c l. c - int l) cu_num_draft_tokens lengths;
          pos_in_req = map2 (-) (map int [0..<num_tokens]) (repeat_interleave starts lengths);
          valid_pos = map (\<lambda>p. 0 \<le> p \<and> p < int max_spec_len + 1) pos_in_req
      in (req_ids, pos_in_req, valid_pos))"

text \<open>\<open>m[req_ids[mask], pos[mask]] = vals[mask]\<close>.\<close>

definition scatter2 :: "bool list \<Rightarrow> nat list \<Rightarrow> int list \<Rightarrow> 'a list \<Rightarrow> 'a list list \<Rightarrow> 'a list list" where
  "scatter2 sel req_ids pos vals m =
     fold (\<lambda>i m. put2 (req_ids ! i) (nat (pos ! i)) (vals ! i) m)
       (filter (\<lambda>i. sel ! i) [0..<length sel]) m"

text \<open>\<open>acc.scatter_reduce_(0, index, src, reduce="amin", include_self=True)\<close>.\<close>

definition scatter_amin :: "nat list \<Rightarrow> int list \<Rightarrow> int list \<Rightarrow> int list" where
  "scatter_amin index src acc =
     fold (\<lambda>(r, v) a. a[r := min (a ! r) v]) (zip index src) acc"

text \<open>What vLLM's \<open>SpecDecodeMetadata\<close> guarantees: the flat length is the sum of the draft counts,
  the cumulative counts are their running sums, and no request has more drafts than \<open>max_spec_len\<close>.\<close>

definition layout_ok :: "nat list \<Rightarrow> nat \<Rightarrow> nat \<Rightarrow> int list \<Rightarrow> bool" where
  "layout_ok nd num_tokens max_spec_len cu \<longleftrightarrow>
     num_tokens = sum_list nd
     \<and> cu = map (\<lambda>b. int (sum_list (take (Suc b) nd))) [0..<length nd]
     \<and> list_all (\<lambda>n. n \<le> max_spec_len) nd"

text \<open>The flat index of draft \<open>p\<close> of request \<open>b\<close>.\<close>

definition flat :: "nat list \<Rightarrow> nat \<Rightarrow> nat \<Rightarrow> nat" where
  "flat nd b p = sum_list (take b nd) + p"

section \<open>Flat indices\<close>

lemma nth_concat_at:
  "b < length xss \<Longrightarrow> p < length (xss ! b) \<Longrightarrow>
     concat xss ! (sum_list (map length (take b xss)) + p) = xss ! b ! p"
proof (induction xss arbitrary: b)
  case (Cons xs xss)
  then show ?case by (cases b) (auto simp: nth_append)
qed simp

lemma flat_less: "b < length nd \<Longrightarrow> p < nd ! b \<Longrightarrow> flat nd b p < sum_list nd"
proof (induction nd arbitrary: b)
  case (Cons n nd)
  then show ?case by (cases b) (auto simp: flat_def trans_less_add1)
qed simp

lemma flat_surj: "i < sum_list nd \<Longrightarrow> \<exists>b p. b < length nd \<and> p < nd ! b \<and> i = flat nd b p"
proof (induction nd arbitrary: i)
  case (Cons n nd)
  show ?case
  proof (cases "i < n")
    case True
    then show ?thesis by (intro exI [of _ 0] exI [of _ i]) (simp add: flat_def)
  next
    case False
    with Cons obtain b p where "b < length nd" "p < nd ! b" "i - n = flat nd b p"
      by (metis add_diff_inverse_nat add_less_cancel_left sum_list.Cons)
    with False show ?thesis
      by (intro exI [of _ "Suc b"] exI [of _ p]) (simp add: flat_def)
  qed
qed simp

lemma length_repeat_interleave:
  "length xs = length ls \<Longrightarrow> length (repeat_interleave xs ls) = sum_list ls"
  by (simp add: repeat_interleave_def length_concat comp_def split_def)

lemma nth_repeat_interleave:
  assumes "length xs = length ls" "b < length ls" "p < ls ! b"
  shows "repeat_interleave xs ls ! flat ls b p = xs ! b"
proof -
  let ?xss = "map2 (\<lambda>x n. replicate n x) xs ls"
  have "map length ?xss = ls"
    using assms(1) by (intro nth_equalityI) simp_all
  then have "map length (take b ?xss) = take b ls"
    by (metis take_map)
  then show ?thesis
    using nth_concat_at [of b ?xss p] assms by (simp add: repeat_interleave_def flat_def)
qed

section \<open>The layout, slot by slot\<close>

lemma layout_lengths [layout_simps]:
  assumes "layout_ok nd nt msl cu" "request_layout nd nt msl cu = (req, pos, valid)"
  shows "length req = nt" "length pos = nt" "length valid = nt"
  using assms by (auto simp: layout_ok_def request_layout_def Let_def length_repeat_interleave)

lemma layout_nth [layout_simps]:
  assumes "layout_ok nd nt msl cu" "request_layout nd nt msl cu = (req, pos, valid)"
    and "b < length nd" "p < nd ! b"
  shows "req ! flat nd b p = b" "pos ! flat nd b p = int p" "valid ! flat nd b p"
    "flat nd b p < nt"
proof -
  let ?starts = "map2 (\<lambda>c l. c - int l) cu nd"
  have nt: "nt = sum_list nd" and cu: "length cu = length nd" "cu ! b = int (sum_list (take (Suc b) nd))"
    using assms by (auto simp: layout_ok_def)
  show i: "flat nd b p < nt"
    using flat_less assms(3,4) nt by simp
  have start: "?starts ! b = int (sum_list (take b nd))"
    using assms(3) cu by (simp add: take_Suc_conv_app_nth)
  have req: "req = repeat_interleave [0..<length nd] nd"
    and pos: "pos = map2 (-) (map int [0..<nt]) (repeat_interleave ?starts nd)"
    and valid: "valid = map (\<lambda>p. 0 \<le> p \<and> p < int msl + 1) pos"
    using assms(2) by (auto simp: request_layout_def Let_def)
  show "req ! flat nd b p = b"
    unfolding req using assms(3,4) by (subst nth_repeat_interleave) simp_all
  have "repeat_interleave ?starts nd ! flat nd b p = int (sum_list (take b nd))"
    using assms(3,4) cu start by (subst nth_repeat_interleave) simp_all
  then show p: "pos ! flat nd b p = int p"
    unfolding pos using i cu nt by (simp add: length_repeat_interleave flat_def)
  have "p < Suc msl" using assms(1,3,4) by (auto simp: layout_ok_def list_all_length)
  then show "valid ! flat nd b p"
    unfolding valid using p i layout_lengths [OF assms(1,2)] by simp
qed

text \<open>Every flat index belongs to exactly one slot.\<close>

lemma layout_slot_cases:
  assumes "layout_ok nd nt msl cu" "i < nt"
  obtains b p where "b < length nd" "p < nd ! b" "i = flat nd b p"
  using assms flat_surj [of i nd] by (auto simp: layout_ok_def)

lemma layout_inj:
  assumes "layout_ok nd nt msl cu" "request_layout nd nt msl cu = (req, pos, valid)"
    and "i < nt" "j < nt" "req ! i = req ! j" "pos ! i = pos ! j"
  shows "i = j"
proof -
  obtain b p where bp: "b < length nd" "p < nd ! b" "i = flat nd b p"
    using layout_slot_cases assms(1,3) by blast
  obtain c q where cq: "c < length nd" "q < nd ! c" "j = flat nd c q"
    using layout_slot_cases assms(1,4) by blast
  show ?thesis
    using layout_nth [OF assms(1,2) bp(1,2)] layout_nth [OF assms(1,2) cq(1,2)] assms(5,6) bp(3) cq(3)
    by simp
qed

section \<open>Masked assignment\<close>

lemma length_put2 [simp]: "length (put2 r c v m) = length m"
  by (simp add: put2_def)

lemma length_put2_row [simp]: "length (put2 r c v m ! b) = length (m ! b)"
  by (cases "b = r"; cases "r < length m") (simp_all add: put2_def list_update_beyond)

lemma put2_nth:
  "b < length m \<Longrightarrow> p < length (m ! b) \<Longrightarrow>
     put2 r c v m ! b ! p = (if r = b \<and> c = p then v else m ! b ! p)"
  by (cases "r = b"; cases "c = p") (simp_all add: put2_def)

lemma length_fold_put2 [simp]:
  "length (fold (\<lambda>i m. put2 (r i) (c i) (v i) m) is m) = length m"
  "length (fold (\<lambda>i m. put2 (r i) (c i) (v i) m) is m ! b) = length (m ! b)"
  by (induction "is" arbitrary: m) simp_all

lemma fold_put2_nth:
  assumes "b < length m" "p < length (m ! b)" "distinct is" "inj_on (\<lambda>i. (r i, c i)) (set is)"
  shows "fold (\<lambda>i m. put2 (r i) (c i) (v i) m) is m ! b ! p =
     (case find (\<lambda>i. r i = b \<and> c i = p) is of Some i \<Rightarrow> v i | None \<Rightarrow> m ! b ! p)"
  using assms
proof (induction "is" arbitrary: m)
  case (Cons i "is")
  show ?case
  proof (cases "r i = b \<and> c i = p")
    case True
    have "find (\<lambda>j. r j = b \<and> c j = p) is = None"
      using True Cons.prems by (auto simp: find_None_iff inj_on_def)
    with True Cons show ?thesis by (simp add: put2_nth)
  next
    case False
    with Cons show ?thesis by (auto simp: put2_nth cong: option.case_cong)
  qed
qed simp

lemma length_scatter2 [simp]:
  "length (scatter2 sel req pos vals m) = length m"
  "length (scatter2 sel req pos vals m ! b) = length (m ! b)"
  by (simp_all add: scatter2_def)

text \<open>The slot view of \<open>m[req_ids[sel], pos[sel]] = vals[sel]\<close>.\<close>

lemma scatter2_nth [layout_simps]:
  assumes lay: "layout_ok nd nt msl cu" "request_layout nd nt msl cu = (req, pos, valid)"
    and "length sel = nt" "b < length nd" "length m = length nd" "q < length (m ! b)"
  shows "scatter2 sel req pos vals m ! b ! q =
     (if q < nd ! b \<and> sel ! flat nd b q then vals ! flat nd b q else m ! b ! q)"
proof -
  let ?is = "filter (\<lambda>i. sel ! i) [0..<length sel]"
  let ?P = "\<lambda>i. req ! i = b \<and> nat (pos ! i) = q"
  have slot: "i < nt \<Longrightarrow> ?P i \<longleftrightarrow> q < nd ! b \<and> i = flat nd b q" for i
  proof -
    assume "i < nt"
    then obtain b' p' where bp: "b' < length nd" "p' < nd ! b'" "i = flat nd b' p'"
      using layout_slot_cases lay(1) by blast
    show "?P i \<longleftrightarrow> q < nd ! b \<and> i = flat nd b q"
      using layout_nth [OF lay bp(1,2)] layout_nth [OF lay assms(4), of q] bp by auto
  qed
  have inj: "inj_on (\<lambda>i. (req ! i, nat (pos ! i))) (set ?is)"
  proof (rule inj_onI)
    fix i j assume "i \<in> set ?is" "j \<in> set ?is" "(req ! i, nat (pos ! i)) = (req ! j, nat (pos ! j))"
    moreover have "i < nt \<Longrightarrow> 0 \<le> pos ! i" for i
      using layout_slot_cases [OF lay(1)] layout_nth(2) [OF lay] by (metis of_nat_0_le_iff)
    ultimately show "i = j"
      using layout_inj [OF lay] assms(3) by (auto simp: eq_nat_nat_iff)
  qed
  have find: "find ?P ?is = (if q < nd ! b \<and> sel ! flat nd b q then Some (flat nd b q) else None)"
  proof (cases "q < nd ! b \<and> sel ! flat nd b q")
    case True
    then have "flat nd b q \<in> set ?is" "?P (flat nd b q)"
      using layout_nth [OF lay assms(4), of q] assms(3) by auto
    then have "find ?P ?is \<noteq> None" by (auto simp: find_None_iff)
    then obtain i where i: "find ?P ?is = Some i" by auto
    then have "i < nt" "?P i"
      using assms(3) by (auto simp: find_Some_iff dest!: nth_mem [of _ ?is])
    with slot True i show ?thesis by simp
  next
    case False
    have "\<not> ?P i" if "i \<in> set ?is" for i
      using that slot [of i] assms(3) False by auto
    then show ?thesis using False by (auto simp: find_None_iff)
  qed
  show ?thesis
    unfolding scatter2_def
    using fold_put2_nth [where r = "\<lambda>i. req ! i" and c = "\<lambda>i. nat (pos ! i)" and v = "\<lambda>i. vals ! i",
        OF _ _ _ inj] assms find by simp
qed

section \<open>First event of a request\<close>

lemma length_scatter_amin [simp]: "length (scatter_amin index src acc) = length acc"
proof -
  have "length (fold (\<lambda>(r, v) a. a[r := min (a ! r) v]) rvs acc) = length acc" for rvs
    by (induction rvs arbitrary: acc) auto
  then show ?thesis by (simp add: scatter_amin_def)
qed

lemma fold_amin_nth:
  fixes acc :: "int list"
  shows "b < length acc \<Longrightarrow>
     fold (\<lambda>(r, v) a. a[r := min (a ! r) v]) rvs acc ! b
       = fold min (map snd (filter (\<lambda>(r, v). r = b) rvs)) (acc ! b)"
proof (induction rvs arbitrary: acc)
  case (Cons rv rvs)
  obtain r v where rv: "rv = (r, v)" by (cases rv)
  show ?case
  proof (cases "r = b")
    case True
    with Cons show ?thesis by (simp add: rv min.commute [of v])
  next
    case False
    with Cons show ?thesis by (simp add: rv)
  qed
qed simp

lemma fold_min_cases:
  "(\<forall>v \<in> set vs. fold min vs (a::int) \<le> v) \<and> fold min vs a \<le> a \<and> (fold min vs a = a \<or> fold min vs a \<in> set vs)"
proof (induction vs arbitrary: a)
  case (Cons v vs)
  from Cons.IH [of "min v a"] show ?case by (auto simp: min_def split: if_splits)
qed simp

lemma fold_min_eq:
  fixes a m :: int
  assumes "m \<in> set vs" "\<And>v. v \<in> set vs \<Longrightarrow> m \<le> v" "m \<le> a"
  shows "fold min vs a = m"
proof (rule antisym)
  show "fold min vs a \<le> m" using fold_min_cases [of vs a] assms(1) by blast
  show "m \<le> fold min vs a" using fold_min_cases [of vs a] assms(2,3) by metis
qed

text \<open>
  The slot view of the masked \<open>amin\<close>: with non-events mapped to a sentinel above every position, the
  result for a request is the position of its first event, or the sentinel when it has none.
\<close>

lemma scatter_amin_first:
  fixes inf_pos :: int
  assumes lay: "layout_ok nd nt msl cu" "request_layout nd nt msl cu = (req, pos, valid)"
    and "length ev = nt" "b < length nd" "int msl < inf_pos"
  defines "fe \<equiv> scatter_amin req (map (\<lambda>i. if ev ! i then pos ! i else inf_pos) [0..<nt]) (replicate (length nd) inf_pos) ! b"
  shows "(fe = inf_pos \<and> (\<forall>p < nd ! b. \<not> ev ! flat nd b p))
     \<or> (\<exists>p < nd ! b. fe = int p \<and> ev ! flat nd b p \<and> (\<forall>q < p. \<not> ev ! flat nd b q))"
proof -
  let ?src = "map (\<lambda>i. if ev ! i then pos ! i else inf_pos) [0..<nt]"
  let ?vs = "map snd (filter (\<lambda>(r, v). r = b) (zip req ?src))"
  have len: "length req = nt" using layout_lengths [OF lay] by simp
  have fe: "fe = fold min ?vs inf_pos"
    using fold_amin_nth [of b "replicate (length nd) inf_pos" "zip req ?src"] assms(4)
    by (simp add: fe_def scatter_amin_def)
  have vs: "set ?vs = (\<lambda>p. if ev ! flat nd b p then int p else inf_pos) ` {..<nd ! b}"
  proof (intro set_eqI iffI)
    fix v assume "v \<in> set ?vs"
    then obtain i where i: "i < nt" "req ! i = b" "v = ?src ! i"
      using len by (auto simp: set_zip)
    obtain b' p where bp: "b' < length nd" "p < nd ! b'" "i = flat nd b' p"
      using layout_slot_cases [OF lay(1) i(1)] by blast
    with i layout_nth [OF lay bp(1,2)]
    show "v \<in> (\<lambda>p. if ev ! flat nd b p then int p else inf_pos) ` {..<nd ! b}" by auto
  next
    fix v assume "v \<in> (\<lambda>p. if ev ! flat nd b p then int p else inf_pos) ` {..<nd ! b}"
    then obtain p where p: "p < nd ! b" "v = (if ev ! flat nd b p then int p else inf_pos)" by auto
    note n = layout_nth [OF lay assms(4) p(1)]
    have "(req ! flat nd b p, ?src ! flat nd b p) \<in> set (zip req ?src)"
      using n(4) len by (auto simp: set_zip)
    with n p show "v \<in> set ?vs" by (auto simp: image_iff intro!: bexI)
  qed
  have small: "nd ! b \<le> msl" using lay(1) assms(4) by (auto simp: layout_ok_def list_all_length)
  show ?thesis
  proof (cases "\<exists>p < nd ! b. ev ! flat nd b p")
    case False
    then have "\<forall>v \<in> set ?vs. v = inf_pos" unfolding vs by auto
    then have "fe = inf_pos" using fold_min_cases [of ?vs inf_pos] fe by auto
    with False show ?thesis by auto
  next
    case True
    then obtain p where p: "p < nd ! b" "ev ! flat nd b p" "\<forall>q < p. \<not> (q < nd ! b \<and> ev ! flat nd b q)"
      by (subst (asm) exists_least_iff) blast
    then have first: "\<And>q. q < p \<Longrightarrow> \<not> ev ! flat nd b q" by (meson less_trans)
    have "int p \<in> set ?vs" unfolding vs using p by auto
    moreover have "int p \<le> v" if "v \<in> set ?vs" for v
      using that p(1) first assms(5) small unfolding vs by (auto split: if_splits intro: leI)
    moreover have "int p < inf_pos" using p(1) small assms(5) by simp
    ultimately have "fe = int p"
      unfolding fe by (intro fold_min_eq) auto
    with p first show ?thesis by auto
  qed
qed

end
