(* ===== verification/Py_Env.thy ===== *)
theory Py_Env
  imports Prelude
begin

text \<open>
  Environment variables as the patch reads them: Python's \<open>str.strip\<close>, \<open>str.lower\<close>, \<open>str.split\<close> and
  \<open>int(str)\<close> on ASCII text, the helpers \<open>_flag\<close>, \<open>_int\<close> and \<open>_trace_mode\<close> of
  \<open>opd/patches/vllm/speculative_decode.py\<close>, and the resolution of reflection, paragraph-boundary and
  internal-stop token ids. The tokenizer is a parameter: \<open>encode\<close> gives the token ids of a string,
  \<open>decode\<close> the text of one token (\<open>None\<close> when it raises).
\<close>

type_synonym environ = "string \<rightharpoonup> string"

section \<open>Python strings\<close>

definition is_space :: "char \<Rightarrow> bool" where
  "is_space c \<longleftrightarrow> (let n = of_char c :: nat in (9 \<le> n \<and> n \<le> 13) \<or> (28 \<le> n \<and> n \<le> 32))"

definition py_strip :: "string \<Rightarrow> string" where
  "py_strip s = rev (dropWhile is_space (rev (dropWhile is_space s)))"

definition lower_char :: "char \<Rightarrow> char" where
  "lower_char c = (let n = of_char c :: nat in if 65 \<le> n \<and> n \<le> 90 then char_of (n + 32) else c)"

definition py_lower :: "string \<Rightarrow> string" where
  "py_lower = map lower_char"

text \<open>\<open>s.split(sep)\<close> for a one-character separator.\<close>

fun py_split :: "char \<Rightarrow> string \<Rightarrow> string list" where
  "py_split sep [] = [[]]"
| "py_split sep (c # cs) =
     (if c = sep then [] # py_split sep cs
      else (case py_split sep cs of [] \<Rightarrow> [[c]] | w # ws \<Rightarrow> (c # w) # ws))"

definition digit_val :: "char \<Rightarrow> int option" where
  "digit_val c = (let n = of_char c :: nat in if 48 \<le> n \<and> n \<le> 57 then Some (int n - 48) else None)"

text \<open>Decimal digits with single underscores between them; the flag says the last character was a digit.\<close>

fun digits_value :: "int \<Rightarrow> bool \<Rightarrow> string \<Rightarrow> int option" where
  "digits_value acc after_digit [] = (if after_digit then Some acc else None)"
| "digits_value acc after_digit (c # cs) =
     (case digit_val c of
        Some d \<Rightarrow> digits_value (acc * 10 + d) True cs
      | None \<Rightarrow> if c = CHR ''_'' \<and> after_digit then digits_value acc False cs else None)"

definition py_int :: "string \<Rightarrow> int option" where
  "py_int s =
     (case py_strip s of
        [] \<Rightarrow> None
      | c # cs \<Rightarrow>
          if c = CHR ''-'' then map_option uminus (digits_value 0 False cs)
          else if c = CHR ''+'' then digits_value 0 False cs
          else digits_value 0 False (c # cs))"

section \<open>Reading the environment\<close>

definition env_flag :: "environ \<Rightarrow> string \<Rightarrow> bool \<Rightarrow> bool" where
  "env_flag env name dflt =
     (case env name of
        None \<Rightarrow> dflt
      | Some v \<Rightarrow> py_lower v \<in> {''1'', ''true'', ''yes'', ''y'', ''on'', ''sample''})"

definition env_int :: "environ \<Rightarrow> string \<Rightarrow> int \<Rightarrow> int" where
  "env_int env name dflt =
     (case env name of None \<Rightarrow> dflt | Some v \<Rightarrow> opt_default dflt (py_int v))"

text \<open>\<open>int(os.environ.get(name, default))\<close>, which raises \<open>ValueError\<close> on other text.\<close>

definition env_int_strict :: "environ \<Rightarrow> string \<Rightarrow> int \<Rightarrow> int result" where
  "env_int_strict env name dflt =
     (case env name of
        None \<Rightarrow> Inr dflt
      | Some v \<Rightarrow> (case py_int v of None \<Rightarrow> Inl (ValueError name) | Some n \<Rightarrow> Inr n))"

definition trace_mode :: "environ \<Rightarrow> string" where
  "trace_mode env =
     (let mode = py_lower (py_strip (opt_default ''full'' (env ''VERL_OPD_TRACE_MODE''))) in
      if mode \<in> {''mask'', ''masks'', ''position'', ''positions'', ''minimal'', ''light''} then ''mask''
      else ''full'')"

text \<open>\<open>os.environ.get(a) or os.environ.get(b) or os.environ.get(c)\<close>: an empty value counts as unset.\<close>

definition env_or :: "environ \<Rightarrow> string \<Rightarrow> string option \<Rightarrow> string option" where
  "env_or env name rest =
     (case env name of None \<Rightarrow> rest | Some v \<Rightarrow> if v = '''' then rest else Some v)"

definition tokenizer_path :: "environ \<Rightarrow> string option" where
  "tokenizer_path env =
     env_or env ''VERL_OPD_TOKENIZER_PATH''
       (env_or env ''VERL_OPD_TARGET_MODEL''
         (env_or env ''STUDENT_MODEL'' None))"

section \<open>Token ids resolved from the tokenizer\<close>

definition default_reflection_tokens :: string where
  "default_reflection_tokens =
     ''Wait, Wait,wait, wait,But, But,but, but,''
     @ ''Hmm, Hmm, hmm,Actually, Actually,actually, actually,''
     @ ''Hold, Hold,hold, hold,However, However,however, however,''
     @ ''Yet, Yet,yet, yet,Oh, Oh,oh, oh,''
     @ ''Alternatively, Alternatively,No, No,no, no,''
     @ ''Ah, Ah,ah, ah,Oops, Oops,Well, Well''"

text \<open>The loop of \<open>_get_reflection_token_ids\<close>: single-token markers, without repetition, in order.\<close>

definition add_marker :: "(string \<Rightarrow> int list) \<Rightarrow> string \<Rightarrow> int list \<Rightarrow> int list" where
  "add_marker encode m ids =
     (case encode m of
        [tid] \<Rightarrow> if tid \<in> set ids then ids else ids @ [tid]
      | _ \<Rightarrow> ids)"

definition get_reflection_token_ids :: "environ \<Rightarrow> (string \<Rightarrow> int list) \<Rightarrow> int list" where
  "get_reflection_token_ids env encode =
     (let env_val = opt_default default_reflection_tokens (env ''RELAY_OPD_REFLECTION_TOKENS'') in
      case tokenizer_path env of
        None \<Rightarrow> []
      | Some _ \<Rightarrow>
          fold (add_marker encode) (filter (\<lambda>s. s \<noteq> '''') (py_split CHR '','' env_val)) [])"

definition has_paragraph_break :: "string \<Rightarrow> bool" where
  "has_paragraph_break s =
     list_ex (\<lambda>i. s ! i = CHR 0x0A \<and> s ! Suc i = CHR 0x0A) [0..<length s - 1]"

text \<open>\<open>_get_paragraph_boundary_token_ids\<close>: the vocabulary entries whose text holds a blank line.\<close>

definition get_paragraph_boundary_token_ids ::
  "environ \<Rightarrow> nat \<Rightarrow> (nat \<Rightarrow> string option) \<Rightarrow> int list" where
  "get_paragraph_boundary_token_ids env vocab_size decode =
     (case tokenizer_path env of
        None \<Rightarrow> []
      | Some _ \<Rightarrow>
          map int (filter (\<lambda>tid. case decode tid of None \<Rightarrow> False | Some s \<Rightarrow> has_paragraph_break s)
            [0..<vocab_size]))"

text \<open>
  \<open>_get_internal_stop_token_id\<close>. \<open>eos\<close> is the tokenizer's \<open>eos_token_id\<close> list (\<open>None\<close> when the tokenizer
  cannot be loaded or has none); the result is only ever an id of the vocabulary.
\<close>

definition get_internal_stop_token_id :: "environ \<Rightarrow> int list option \<Rightarrow> int \<Rightarrow> int option" where
  "get_internal_stop_token_id env eos vocab_size =
     (let env_val = env ''VERL_OPD_INTERNAL_STOP_TOKEN_ID'';
          stop_id =
            (if env_val \<noteq> None \<and> env_val \<noteq> Some '''' then py_int (the env_val)
             else if tokenizer_path env \<noteq> None
             then (case eos of None \<Rightarrow> None | Some [] \<Rightarrow> None | Some (e # _) \<Rightarrow> Some e)
             else None)
      in case stop_id of
           None \<Rightarrow> None
         | Some s \<Rightarrow> if 0 \<le> s \<and> s < vocab_size then Some s else None)"

section \<open>Lemmas\<close>

lemma py_split_not_Nil [simp]: "py_split sep s \<noteq> []"
  by (induction s) (auto split: list.splits)

lemma internal_stop_in_vocab:
  "get_internal_stop_token_id env eos v = Some s \<Longrightarrow> 0 \<le> s \<and> s < v"
  by (auto simp: get_internal_stop_token_id_def Let_def split: option.splits if_splits)

lemma fold_add_marker:
  assumes "distinct ids"
  shows "distinct (fold (add_marker encode) ms ids)
    \<and> set (fold (add_marker encode) ms ids) = set ids \<union> {t. \<exists>m \<in> set ms. encode m = [t]}"
  using assms
proof (induction ms arbitrary: ids)
  case (Cons m ms)
  have "distinct (add_marker encode m ids)
      \<and> set (add_marker encode m ids) = set ids \<union> {t. encode m = [t]}"
    using Cons.prems by (auto simp: add_marker_def split: list.splits)
  with Cons.IH show ?case by auto
qed simp

end
