(* ===== verification/Relay_Sampler.thy ===== *)
theory Relay_Sampler
  imports Spec_Layout Py_Env
begin

text \<open>
  The Relay-OPD / Trigger-Stop sampler: \<open>_relay_opd_rejection_sample\<close> of
  \<open>opd/patches/vllm/speculative_decode.py\<close> with \<open>_infer_standard_target_emits\<close> and \<open>_stats_add\<close>,
  cut at the source's own phases. \<open>target_logits.argmax\<close>, \<open>draft_probs.topk\<close> and vLLM's original
  \<open>rejection_sample\<close> are parameters (\<open>deps\<close>). Token ids are unbounded integers (the int32 casts never
  overflow on vocabulary ids), statistics are exact sums (the source adds them in float32).
  \<open>log_softmax(...).gather\<close> is the parameter \<open>log_softmax_at\<close>.
\<close>

section \<open>Call arguments, parameters, module state\<close>

record ('l, 'p) spec_call =
  draft_token_ids :: "int list"
  num_draft_tokens :: "nat list"
  max_spec_len :: nat
  cu_num_draft_tokens :: "int list"
  draft_probs :: "'p list list option"
  target_logits :: "'l list list"
  vocab_size :: nat

record ('l, 'p) deps =
  argmax :: "'l list \<Rightarrow> nat"
  topk :: "nat \<Rightarrow> 'p list \<Rightarrow> nat list"
  standard_sample :: "('l, 'p) spec_call \<Rightarrow> int list list"
  log_softmax_at :: "'l list \<Rightarrow> int \<Rightarrow> f32"

text \<open>The module globals \<open>_TAKEOVER_TOKENS_REMAINING\<close>, \<open>_TAKEOVER_PARAGRAPHS_REMAINING\<close>,
  \<open>_COMPLETED_TAKEOVERS\<close> and \<open>_OPD_STATS\<close>.\<close>

record relay_state =
  tokens_remaining :: "string \<rightharpoonup> int"
  paragraphs_remaining :: "string \<rightharpoonup> int"
  completed_takeovers :: "string \<rightharpoonup> int"
  opd_stats :: "string \<rightharpoonup> int"

definition empty_relay_state :: relay_state where
  "empty_relay_state = \<lparr>tokens_remaining = Map.empty, paragraphs_remaining = Map.empty,
     completed_takeovers = Map.empty, opd_stats = Map.empty\<rparr>"

text \<open>Settings read from the environment at the head of the sampler.\<close>

record relay_cfg =
  takeover_enabled :: bool
  max_takeover_tokens :: int
  paragraphs_per_takeover :: int
  max_takeovers :: int

definition relay_config :: "environ \<Rightarrow> relay_cfg result" where
  "relay_config env =
     (let rollout_mode = py_lower (py_strip (opt_default ''relay'' (env ''VERL_OPD_ROLLOUT_MODE''))) in
      if rollout_mode \<notin> {''relay'', ''trigger_stop''}
      then Inl (RuntimeError ''Relay sampler requires VERL_OPD_ROLLOUT_MODE=relay or trigger_stop'')
      else
        (let enabled = (rollout_mode = ''relay'') in
         bind_r (env_int_strict env ''RELAY_OPD_MAX_TAKEOVER_TOKENS'' 256) (\<lambda>tokens.
         bind_r (env_int_strict env ''RELAY_OPD_PARAGRAPHS_PER_TAKEOVER'' 3) (\<lambda>paragraphs.
         let takeovers = env_int env ''RELAY_OPD_MAX_TAKEOVERS'' (if enabled then 2 else 0) in
         if enabled \<and> takeovers \<le> 0
         then Inl (RuntimeError ''RELAY_OPD_MAX_TAKEOVERS must be positive when takeover is enabled'')
         else if tokens \<le> 0 then Inl (RuntimeError ''RELAY_OPD_MAX_TAKEOVER_TOKENS must be positive'')
         else if paragraphs < 0 then Inl (RuntimeError ''RELAY_OPD_PARAGRAPHS_PER_TAKEOVER must be non-negative'')
         else Inr \<lparr>takeover_enabled = enabled, max_takeover_tokens = tokens,
                   paragraphs_per_takeover = paragraphs, max_takeovers = takeovers\<rparr>))))"

text \<open>Token ids the sampler looks up: reflection tokens, paragraph boundaries, the internal stop token.\<close>

record relay_ids =
  reflection_ids :: "int list"
  boundary_ids :: "int list"
  stop_id :: "int option"

definition stats_add :: "bool \<Rightarrow> string \<Rightarrow> int \<Rightarrow> relay_state \<Rightarrow> relay_state" where
  "stats_add enabled key v st =
     (if \<not> enabled then st
      else st\<lparr>opd_stats := (opd_stats st)(key \<mapsto> opt_default 0 (opd_stats st key) + v)\<rparr>)"

definition pop_opd_stats :: "relay_state \<Rightarrow> relay_state \<times> (string \<rightharpoonup> int)" where
  "pop_opd_stats st = (st\<lparr>opd_stats := Map.empty\<rparr>, opd_stats st)"

section \<open>Tensor helpers\<close>

abbreviation full2 :: "nat \<Rightarrow> nat \<Rightarrow> 'a \<Rightarrow> 'a list list" where
  "full2 rows cols v \<equiv> replicate rows (replicate cols v)"

definition any2 :: "bool list list \<Rightarrow> bool" where
  "any2 m = list_ex (list_ex id) m"

definition any1 :: "bool list \<Rightarrow> bool" where
  "any1 m = list_ex id m"

definition count1 :: "bool list \<Rightarrow> int" where
  "count1 m = int (length (filter id m))"

definition count2 :: "bool list list \<Rightarrow> int" where
  "count2 m = sum_list (map count1 m)"

definition row_and :: "bool list list \<Rightarrow> bool list \<Rightarrow> bool list list" where
  "row_and m rows = map2 (\<lambda>row r. map (\<lambda>x. x \<and> r) row) m rows"

definition true_columns :: "bool list \<Rightarrow> nat list" where
  "true_columns row = filter (\<lambda>c. row ! c) [0..<length row]"

section \<open>Takeover rows: vLLM's own sampler without the bonus token\<close>

definition ext_rids :: "string option list option \<Rightarrow> nat \<Rightarrow> string option list" where
  "ext_rids req_ids batch_size =
     map (\<lambda>bi. case req_ids of
                 None \<Rightarrow> None
               | Some rids \<Rightarrow> if bi < length rids then map_option strip_vllm_suffix (rids ! bi) else None)
       [0..<batch_size]"

definition in_takeover :: "relay_cfg \<Rightarrow> relay_state \<Rightarrow> string option list \<Rightarrow> bool list" where
  "in_takeover cfg st exts =
     map (\<lambda>e. case e of
                None \<Rightarrow> False
              | Some ext \<Rightarrow> takeover_enabled cfg \<and> opt_default 0 (tokens_remaining st ext) > 0) exts"

text \<open>\<open>_infer_standard_target_emits\<close>: slots where the standard sampler emitted something else than the draft.\<close>

definition infer_standard_target_emits ::
  "int list list \<Rightarrow> int list \<Rightarrow> nat list \<Rightarrow> nat \<Rightarrow> int list \<Rightarrow> bool list list" where
  "infer_standard_target_emits out drafts nd msl cu =
     (let emitted = emitted_matrix out in
      if drafts = [] then emitted
      else
        (let (req, pos, valid) = request_layout nd (length drafts) msl cu;
             sel = map (\<lambda>i. valid ! i \<and> drafts ! i \<ge> 0) [0..<length drafts];
             draft_by_pos = scatter2 sel req pos drafts (map (map (\<lambda>_. PLACEHOLDER_TOKEN_ID)) out)
         in map (\<lambda>b. map (\<lambda>c. emitted ! b ! c
                      \<and> ((c < nd ! b \<and> out ! b ! c \<noteq> draft_by_pos ! b ! c) \<or> c = nd ! b))
                 [0..<length (out ! b)])
              [0..<length out]))"

text \<open>The bonus token of a takeover row sits at column \<open>num_draft_tokens[b]\<close>; it is erased.\<close>

definition drop_bonus :: "bool list \<Rightarrow> nat list \<Rightarrow> int list list \<Rightarrow> int list list \<times> int" where
  "drop_bonus in_tk nd std =
     (let rows = filter (\<lambda>b. in_tk ! b \<and> nd ! b < length (std ! b)
                           \<and> std ! b ! (nd ! b) \<ge> 0 \<and> std ! b ! (nd ! b) \<noteq> PLACEHOLDER_TOKEN_ID)
                   [0..<length std]
      in (fold (\<lambda>b m. put2 b (nd ! b) PLACEHOLDER_TOKEN_ID m) rows std, int (length rows)))"

text \<open>The sampler's work tensors.\<close>

record bufs =
  b_output :: "int list list"
  b_teacher :: "bool list list"
  b_standard_target :: "bool list list"
  b_takeover :: "bool list list"
  b_stop :: "bool list list"
  b_boundary :: "bool list list"
  b_terminated :: "bool list"
  b_stopped :: "bool list"

definition init_bufs :: "nat \<Rightarrow> nat \<Rightarrow> bufs" where
  "init_bufs batch_size width =
     \<lparr>b_output = full2 batch_size width PLACEHOLDER_TOKEN_ID,
      b_teacher = full2 batch_size width False,
      b_standard_target = full2 batch_size width False,
      b_takeover = full2 batch_size width False,
      b_stop = full2 batch_size width False,
      b_boundary = full2 batch_size width False,
      b_terminated = replicate batch_size False,
      b_stopped = replicate batch_size False\<rparr>"

definition takeover_phase ::
  "bool \<Rightarrow> ('l, 'p) deps \<Rightarrow> ('l, 'p) spec_call \<Rightarrow> bool list \<Rightarrow> bufs \<Rightarrow> relay_state \<Rightarrow> bufs \<times> relay_state" where
  "takeover_phase stats d call in_tk bf st =
     (if \<not> any1 in_tk then (bf, st)
      else
        (let (std, dropped) = drop_bonus in_tk (num_draft_tokens call) (standard_sample d call);
             st' = (if dropped > 0 then stats_add stats ''relay_takeover_bonus_dropped'' dropped st else st);
             std_emitted = emitted_matrix std;
             std_target = infer_standard_target_emits std (draft_token_ids call) (num_draft_tokens call)
                            (max_spec_len call) (cu_num_draft_tokens call);
             emitted_tk = row_and std_emitted in_tk
         in (bf\<lparr>b_output := map (\<lambda>b. if in_tk ! b then std ! b else b_output bf ! b) [0..<length (b_output bf)],
                b_standard_target := std_target,
                b_takeover := emitted_tk,
                b_teacher := map2 (map2 (\<or>)) (b_teacher bf) emitted_tk\<rparr>, st')))"

section \<open>Trigger detection\<close>

text \<open>Per flat token: the teacher prefers a reflection token over the student's draft.\<close>

definition raw_trigger ::
  "int list \<Rightarrow> int list \<Rightarrow> int list \<Rightarrow> nat \<Rightarrow> bool list \<Rightarrow> bool list \<Rightarrow> nat list \<Rightarrow> bool list" where
  "raw_trigger refl_ids t_argmax drafts vocab valid in_tk req =
     map (\<lambda>i. t_argmax ! i \<in> set refl_ids \<and> t_argmax ! i \<noteq> drafts ! i \<and> valid ! i
            \<and> (0 \<le> drafts ! i \<and> drafts ! i < int vocab) \<and> \<not> in_tk ! (req ! i))
       [0..<length t_argmax]"

definition clamp_id :: "nat \<Rightarrow> int \<Rightarrow> int" where
  "clamp_id vocab t = min (max t 0) (int vocab - 1)"

definition in_student_topk ::
  "('l, 'p) deps \<Rightarrow> int \<Rightarrow> nat \<Rightarrow> 'p list list \<Rightarrow> int list \<Rightarrow> bool list" where
  "in_student_topk d trigger_topk vocab probs t_argmax =
     map (\<lambda>i. clamp_id vocab (t_argmax ! i)
               \<in> int ` set (topk d (nat (min trigger_topk (int (length (probs ! i))))) (probs ! i)))
       [0..<length t_argmax]"

definition first_event_pos ::
  "nat list \<Rightarrow> int list \<Rightarrow> bool list \<Rightarrow> nat \<Rightarrow> nat \<Rightarrow> int list" where
  "first_event_pos req pos event batch_size msl =
     (let inf_pos = int msl + 2 in
      if any1 event
      then scatter_amin req (map (\<lambda>i. if event ! i then pos ! i else inf_pos) [0..<length event])
             (replicate batch_size inf_pos)
      else replicate batch_size inf_pos)"

text \<open>The three kinds of flat emission, given the first event of each request.\<close>

definition emit_masks ::
  "bool list \<Rightarrow> bool list \<Rightarrow> int list \<Rightarrow> nat \<Rightarrow> bool list \<Rightarrow> nat list \<Rightarrow> int list \<Rightarrow> int list
     \<Rightarrow> bool list \<Rightarrow> bool list \<times> bool list \<times> bool list" where
  "emit_masks trig stop drafts vocab in_tk req pos first valid =
     (map (\<lambda>i. valid ! i \<and> (0 \<le> drafts ! i \<and> drafts ! i < int vocab) \<and> \<not> in_tk ! (req ! i)
             \<and> pos ! i < first ! (req ! i)) [0..<length drafts],
      map (\<lambda>i. trig ! i \<and> pos ! i = first ! (req ! i)) [0..<length drafts],
      map (\<lambda>i. stop ! i \<and> pos ! i = first ! (req ! i)) [0..<length drafts])"

section \<open>Trigger-Stop: the private stop token\<close>

definition place_stop :: "nat list \<Rightarrow> int list \<Rightarrow> int list \<Rightarrow> int \<Rightarrow> nat \<Rightarrow> nat \<Rightarrow> bufs \<Rightarrow> bufs" where
  "place_stop req pos drafts sid width i bf =
     (let b = req ! i; p = nat (pos ! i);
          out1 = put2 b p (drafts ! i) (b_output bf);
          slot = (if p + 1 < width then p + 1 else p)
      in bf\<lparr>b_output := put2 b slot sid out1, b_stop := put2 b slot True (b_stop bf)\<rparr>)"

definition stop_phase ::
  "bool \<Rightarrow> int option \<Rightarrow> nat list \<Rightarrow> int list \<Rightarrow> int list \<Rightarrow> nat \<Rightarrow> bool list \<Rightarrow> bufs \<Rightarrow> relay_state
     \<Rightarrow> bufs \<times> relay_state \<times> bool list" where
  "stop_phase stats sid req pos drafts width emit_stop bf st =
     (if \<not> any1 emit_stop then (bf, st, emit_stop)
      else
        (case sid of
           None \<Rightarrow> (bf, stats_add stats ''trigger_stop_missing_internal_stop_id'' (count1 emit_stop) st,
                    map (\<lambda>_. False) emit_stop)
         | Some s \<Rightarrow>
             (let bad = length (filter (\<lambda>i. nat (pos ! i) + 1 \<ge> width) (true_columns emit_stop)) in
              (fold (place_stop req pos drafts s width) (true_columns emit_stop) bf,
               if bad > 0 then stats_add stats ''trigger_stop_no_extra_slot'' (int bad) st else st,
               emit_stop))))"

text \<open>The rank thresholds reported with the stop events.\<close>

definition stop_thresholds ::
  "nat list \<Rightarrow> int list \<Rightarrow> nat \<Rightarrow> nat \<Rightarrow> bool list \<Rightarrow> int list \<Rightarrow> int list list" where
  "stop_thresholds req pos batch_size width emit_stop thresholds =
     fold (\<lambda>i m. let p = nat (pos ! i) in
                 put2 (req ! i) (if p + 1 < width then p + 1 else p) (thresholds ! i) m)
       (true_columns emit_stop) (full2 batch_size width 0)"

section \<open>Ending a takeover\<close>

text \<open>
  Counting a finished takeover. At the limit the counter is dropped and the internal stop token is
  written after column \<open>c\<close> (over it when there is no further slot); without a stop token nothing is
  written and the request goes on.
\<close>

definition finish_takeover ::
  "bool \<Rightarrow> relay_cfg \<Rightarrow> int option \<Rightarrow> nat \<Rightarrow> nat \<Rightarrow> nat \<Rightarrow> string \<Rightarrow> bufs \<Rightarrow> relay_state \<Rightarrow> bufs \<times> relay_state" where
  "finish_takeover stats cfg sid width b c ext bf st =
     (let end_count = opt_default 0 (completed_takeovers st ext) + 1 in
      if end_count \<ge> max_takeovers cfg then
        (let st1 = st\<lparr>completed_takeovers := pop_key ext (completed_takeovers st)\<rparr> in
         case sid of
           None \<Rightarrow> (bf, stats_add stats ''relay_stop_missing_internal_stop_id'' 1 st1)
         | Some s \<Rightarrow>
             (let slot = (if c + 1 \<ge> width then c else c + 1);
                  st2 = (if c + 1 \<ge> width then stats_add stats ''relay_stop_no_extra_slot'' 1 st1 else st1)
              in (bf\<lparr>b_output := put2 b slot s (b_output bf),
                     b_teacher := put2 b slot False (b_teacher bf),
                     b_takeover := put2 b slot False (b_takeover bf),
                     b_boundary := put2 b slot False (b_boundary bf),
                     b_standard_target := put2 b slot False (b_standard_target bf),
                     b_stop := put2 b slot True (b_stop bf),
                     b_stopped := (b_stopped bf)[b := True]\<rparr>, st2)))
      else (bf, st\<lparr>completed_takeovers := (completed_takeovers st)(ext \<mapsto> end_count)\<rparr>))"

text \<open>The trigger-only ablation (\<open>paragraphs_per_takeover <= 0\<close>): every trigger is a finished takeover.\<close>

definition trigger_only_phase ::
  "bool \<Rightarrow> relay_cfg \<Rightarrow> int option \<Rightarrow> nat \<Rightarrow> string option list \<Rightarrow> nat list \<Rightarrow> int list \<Rightarrow> bool list
     \<Rightarrow> bufs \<Rightarrow> relay_state \<Rightarrow> bufs \<times> relay_state" where
  "trigger_only_phase stats cfg sid width exts req pos emit_trigger bf st =
     (if paragraphs_per_takeover cfg \<le> 0 \<and> any1 emit_trigger \<and> max_takeovers cfg > 0
      then fold (\<lambda>i (bf, st). case exts ! (req ! i) of
                   None \<Rightarrow> (bf, st)
                 | Some ext \<Rightarrow> finish_takeover stats cfg sid width (req ! i) (nat (pos ! i)) ext bf st)
             (true_columns emit_trigger) (bf, st)
      else (bf, st))"

text \<open>
  The search for the last takeover token to keep: walking the emitted columns, stop at the first one
  that uses up the token budget or completes the paragraph budget.
\<close>

fun keep_until :: "int \<Rightarrow> int \<Rightarrow> bool list \<Rightarrow> int \<Rightarrow> int \<Rightarrow> nat list \<Rightarrow> nat option" where
  "keep_until cap paras hits idx seen [] = None"
| "keep_until cap paras hits idx seen (c # cs) =
     (let seen' = (if hits ! c then seen + 1 else seen) in
      if idx \<ge> cap \<or> paras - seen' \<le> 0 then Some c
      else keep_until cap paras hits (idx + 1) seen' cs)"

definition clear_columns :: "nat \<Rightarrow> nat list \<Rightarrow> bufs \<Rightarrow> bufs" where
  "clear_columns b cols bf =
     bf\<lparr>b_output := fold (\<lambda>c m. put2 b c PLACEHOLDER_TOKEN_ID m) cols (b_output bf),
        b_teacher := fold (\<lambda>c m. put2 b c False m) cols (b_teacher bf),
        b_takeover := fold (\<lambda>c m. put2 b c False m) cols (b_takeover bf),
        b_boundary := fold (\<lambda>c m. put2 b c False m) cols (b_boundary bf),
        b_standard_target := fold (\<lambda>c m. put2 b c False m) cols (b_standard_target bf)\<rparr>"

definition trim_row ::
  "bool \<Rightarrow> relay_cfg \<Rightarrow> int option \<Rightarrow> nat \<Rightarrow> string option list \<Rightarrow> nat \<Rightarrow> bufs \<times> relay_state \<Rightarrow> bufs \<times> relay_state" where
  "trim_row stats cfg sid width exts b = (\<lambda>(bf, st).
     case exts ! b of
       None \<Rightarrow> (bf, st)
     | Some ext \<Rightarrow>
         (let pos = true_columns (b_takeover bf ! b);
              cap_cur = opt_default 0 (tokens_remaining st ext);
              paragraphs_cur = opt_default 0 (paragraphs_remaining st ext)
          in if pos = [] then (bf, st)
             else if cap_cur \<le> 0 \<or> paragraphs_cur \<le> 0 then (bf, st)
             else
               (case keep_until cap_cur paragraphs_cur (b_boundary bf ! b) 1 0 pos of
                  None \<Rightarrow> (bf, st)
                | Some keep \<Rightarrow>
                    (let bf1 = clear_columns b (filter (\<lambda>c. c > keep) pos) bf;
                         bf2 = bf1\<lparr>b_terminated := (b_terminated bf1)[b := True]\<rparr>
                     in if max_takeovers cfg > 0
                        then finish_takeover stats cfg sid width b keep ext bf2 st
                        else (bf2, st)))))"

definition trim_phase ::
  "bool \<Rightarrow> relay_cfg \<Rightarrow> int option \<Rightarrow> int list \<Rightarrow> nat \<Rightarrow> string option list \<Rightarrow> bool list
     \<Rightarrow> bufs \<Rightarrow> relay_state \<Rightarrow> bufs \<times> relay_state" where
  "trim_phase stats cfg sid bids width exts in_tk bf st =
     (let hits = map2 (map2 (\<lambda>e t. e \<and> t \<in> set bids)) (b_takeover bf) (b_output bf);
          bf1 = bf\<lparr>b_boundary := hits\<rparr>
      in if any2 (b_takeover bf)
         then fold (trim_row stats cfg sid width exts) (true_columns in_tk) (bf1, st)
         else (bf1, st))"

section \<open>The takeover budgets after the call\<close>

definition update_budget ::
  "relay_cfg \<Rightarrow> bool \<Rightarrow> bool \<Rightarrow> bool \<Rightarrow> bool \<Rightarrow> int \<Rightarrow> int \<Rightarrow> string \<Rightarrow> relay_state \<Rightarrow> relay_state" where
  "update_budget cfg new_trigger trigger_is_boundary takeover terminated emitted boundaries ext st =
     (if new_trigger then
        (let paragraphs_left = paragraphs_per_takeover cfg - (if trigger_is_boundary then 1 else 0) in
         if paragraphs_left \<le> 0
         then st\<lparr>tokens_remaining := pop_key ext (tokens_remaining st),
                 paragraphs_remaining := pop_key ext (paragraphs_remaining st)\<rparr>
         else st\<lparr>tokens_remaining := (tokens_remaining st)(ext \<mapsto> max_takeover_tokens cfg),
                 paragraphs_remaining := (paragraphs_remaining st)(ext \<mapsto> paragraphs_left)\<rparr>)
      else if takeover \<and> emitted > 0 then
        (let cap_cur = opt_default 0 (tokens_remaining st ext) - emitted;
             paragraphs_cur = opt_default 0 (paragraphs_remaining st ext) - boundaries
         in if terminated \<or> paragraphs_cur \<le> 0 \<or> cap_cur \<le> 0
            then st\<lparr>tokens_remaining := pop_key ext (tokens_remaining st),
                    paragraphs_remaining := pop_key ext (paragraphs_remaining st)\<rparr>
            else st\<lparr>tokens_remaining := (tokens_remaining st)(ext \<mapsto> cap_cur),
                    paragraphs_remaining := (paragraphs_remaining st)(ext \<mapsto> paragraphs_cur)\<rparr>)
      else st)"

definition budget_phase ::
  "relay_cfg \<Rightarrow> string option list \<Rightarrow> bool list \<Rightarrow> bool list \<Rightarrow> bool list \<Rightarrow> bufs \<Rightarrow> relay_state \<Rightarrow> relay_state" where
  "budget_phase cfg exts new_trigger trig_boundary in_tk bf st =
     fold (\<lambda>b st. case exts ! b of
              None \<Rightarrow> st
            | Some ext \<Rightarrow> update_budget cfg (new_trigger ! b) (trig_boundary ! b) (in_tk ! b)
                (b_terminated bf ! b) (count1 (b_takeover bf ! b)) (count1 (b_boundary bf ! b)) ext st)
       [0..<length exts] st"

section \<open>Detection and emission\<close>

record detection =
  d_raw :: "bool list"
  d_in_topk :: "bool list"
  d_candidate :: "bool list"
  d_student :: "bool list"
  d_emit_trigger :: "bool list"
  d_emit_stop :: "bool list"

definition teacher_argmax :: "('l, 'p) deps \<Rightarrow> ('l, 'p) spec_call \<Rightarrow> int list" where
  "teacher_argmax d call = map (\<lambda>row. int (argmax d row)) (target_logits call)"

definition detect ::
  "relay_cfg \<Rightarrow> relay_ids \<Rightarrow> ('l, 'p) deps \<Rightarrow> ('l, 'p) spec_call \<Rightarrow> int \<Rightarrow> 'p list list
     \<Rightarrow> nat list \<Rightarrow> int list \<Rightarrow> bool list \<Rightarrow> bool list \<Rightarrow> detection" where
  "detect cfg ids d call trigger_topk probs req pos valid in_tk =
     (let batch_size = length (num_draft_tokens call);
          drafts = draft_token_ids call;
          t_argmax = teacher_argmax d call;
          raw = raw_trigger (reflection_ids ids) t_argmax drafts (vocab_size call) valid in_tk req;
          in_topk = in_student_topk d trigger_topk (vocab_size call) probs t_argmax;
          cand = map2 (\<lambda>r k. r \<and> \<not> k) raw in_topk;
          none = map (\<lambda>_. False) cand;
          (trig, stop) = (if takeover_enabled cfg \<and> any1 cand then (cand, none) else (none, cand));
          event = map2 (\<or>) trig stop;
          first = first_event_pos req pos event batch_size (max_spec_len call);
          (student, emit_trigger, emit_stop) =
            emit_masks trig stop drafts (vocab_size call) in_tk req pos first valid
      in \<lparr>d_raw = raw, d_in_topk = in_topk, d_candidate = cand, d_student = student,
          d_emit_trigger = emit_trigger, d_emit_stop = emit_stop\<rparr>)"

definition emit_phase ::
  "('l, 'p) deps \<Rightarrow> ('l, 'p) spec_call \<Rightarrow> nat list \<Rightarrow> int list \<Rightarrow> detection \<Rightarrow> bufs \<Rightarrow> bufs" where
  "emit_phase d call req pos det bf =
     (let out1 = scatter2 (d_student det) req pos (draft_token_ids call) (b_output bf);
          out2 = scatter2 (d_emit_trigger det) req pos (teacher_argmax d call) out1
      in bf\<lparr>b_output := out2,
            b_teacher := scatter2 (d_emit_trigger det) req pos (map (\<lambda>_. True) (d_emit_trigger det)) (b_teacher bf)\<rparr>)"

text \<open>Requests with a new trigger, and those whose trigger token is itself a paragraph boundary.\<close>

definition trigger_rows :: "nat \<Rightarrow> nat list \<Rightarrow> bool list \<Rightarrow> bool list" where
  "trigger_rows batch_size req sel =
     fold (\<lambda>i rows. rows[req ! i := True]) (true_columns sel) (replicate batch_size False)"

definition trigger_boundary :: "int list \<Rightarrow> int list \<Rightarrow> bool list \<Rightarrow> bool list" where
  "trigger_boundary bids t_argmax emit_trigger =
     map2 (\<lambda>e t. e \<and> t \<in> set bids) emit_trigger t_argmax"

section \<open>Exported student actions, statistics\<close>

definition export_actions ::
  "('l, 'p) deps \<Rightarrow> ('l, 'p) spec_call \<Rightarrow> nat list \<Rightarrow> int list \<Rightarrow> bool list \<Rightarrow> bufs
     \<Rightarrow> int list list \<times> f32 list list" where
  "export_actions d call req pos valid bf =
     (let drafts = draft_token_ids call;
          batch_size = length (num_draft_tokens call);
          width = max_spec_len call + 1;
          sel = map (\<lambda>i. valid ! i \<and> (0 \<le> drafts ! i \<and> drafts ! i < int (vocab_size call))
                      \<and> req ! i < batch_size \<and> 0 \<le> pos ! i \<and> pos ! i < int width
                      \<and> b_teacher bf ! (req ! i) ! nat (pos ! i)) [0..<length drafts];
          logps = map (\<lambda>i. log_softmax_at d (target_logits call ! i) (clamp_id (vocab_size call) (drafts ! i)))
                    [0..<length drafts]
      in (scatter2 sel req pos drafts (b_output bf),
          scatter2 sel req pos logps (full2 batch_size width f32_nan)))"

definition call_stats ::
  "bool \<Rightarrow> ('l, 'p) spec_call \<Rightarrow> bool list \<Rightarrow> bool list \<Rightarrow> detection \<Rightarrow> bool list \<Rightarrow> bool list list \<Rightarrow> bufs
     \<Rightarrow> relay_state \<Rightarrow> relay_state" where
  "call_stats stats call valid in_tk det emit_stop emitted bf st =
     (let final_emitted = map2 (map2 (\<lambda>e s. e \<and> \<not> s)) emitted (b_stop bf) in
      fold (\<lambda>(k, v). stats_add stats k v)
        [(''calls'', 1),
         (''requests'', int (length (num_draft_tokens call))),
         (''drafted_tokens'', count1 (map2 (\<lambda>v t. v \<and> t \<ge> 0) valid (draft_token_ids call))),
         (''emitted_tokens'', count2 final_emitted),
         (''student_tokens'', count2 (map2 (map2 (\<lambda>f t. f \<and> \<not> t)) final_emitted (b_teacher bf))),
         (''teacher_tokens'', count2 (b_teacher bf)),
         (''relay_new_triggers'', count1 (d_emit_trigger det)),
         (''trigger_stop_events'', count1 emit_stop),
         (''relay_takeover_tokens'', count2 (b_takeover bf)),
         (''relay_standard_target_tokens'', count2 (row_and (b_standard_target bf) in_tk)),
         (''relay_paragraph_boundaries'', count2 (b_boundary bf)),
         (''relay_takeovers_completed'', count1 (b_terminated bf)),
         (''relay_stopped_after_max_takeovers'', count1 (b_stopped bf))] st)"

section \<open>The whole sampler\<close>

text \<open>
  Everything after trigger detection: emission, stop tokens, ending takeovers, budgets, statistics.
  The result carries the work tensors, the emitted-token matrix the statistics use (taken before the
  trimming), and the thresholds of the stop events.
\<close>

definition relay_finish ::
  "bool \<Rightarrow> relay_cfg \<Rightarrow> relay_ids \<Rightarrow> ('l, 'p) deps \<Rightarrow> ('l, 'p) spec_call \<Rightarrow> int \<Rightarrow> string option list
     \<Rightarrow> nat list \<Rightarrow> int list \<Rightarrow> bool list \<Rightarrow> bool list \<Rightarrow> detection \<Rightarrow> bufs \<Rightarrow> relay_state
     \<Rightarrow> bufs \<times> int list list option \<times> relay_state" where
  "relay_finish stats cfg ids d call trigger_topk exts req pos valid in_tk det bf0 st0 =
     (let batch_size = length (num_draft_tokens call);
          width = max_spec_len call + 1;
          drafts = draft_token_ids call;
          sid = (if max_takeovers cfg > 0 then stop_id ids else None);
          bf1 = emit_phase d call req pos det bf0;
          (bf2, st1, emit_stop) = stop_phase stats (stop_id ids) req pos drafts width (d_emit_stop det) bf1 st0;
          thresholds =
            (if any2 (b_stop bf2)
             then Some (stop_thresholds req pos batch_size width emit_stop
                          (map (\<lambda>c. if c then trigger_topk else 0) (d_candidate det)))
             else None);
          new_trigger = trigger_rows batch_size req (d_emit_trigger det);
          trig_boundary = trigger_rows batch_size req
            (trigger_boundary (boundary_ids ids) (teacher_argmax d call) (d_emit_trigger det));
          (bf3, st2) = trigger_only_phase stats cfg sid width exts req pos (d_emit_trigger det) bf2 st1;
          emitted = emitted_matrix (b_output bf3);
          (bf4, st3) = trim_phase stats cfg sid (boundary_ids ids) width exts in_tk bf3 st2;
          st4 = budget_phase cfg exts new_trigger trig_boundary in_tk bf4 st3;
          st5 = call_stats stats call valid in_tk det emit_stop emitted bf4 st4
      in (bf4, thresholds, st5))"

text \<open>The counters of the detection step.\<close>

definition detect_stats :: "bool \<Rightarrow> relay_cfg \<Rightarrow> detection \<Rightarrow> relay_state \<Rightarrow> relay_state" where
  "detect_stats stats cfg det st1 =
     (let st2 = stats_add stats ''relay_reflection_candidates'' (count1 (d_raw det)) st1;
          st3 = stats_add stats ''relay_divergence_triggers'' (count1 (d_candidate det)) st2;
          st4 = stats_add stats ''relay_teacher_argmax_in_student_topk''
                  (count1 (map2 (\<and>) (d_raw det) (d_in_topk det))) st3
      in if takeover_enabled cfg \<and> any1 (d_candidate det)
         then stats_add stats ''relay_takeover_triggers'' (count1 (d_candidate det)) st4
         else st4)"

text \<open>The part of the sampler that runs once draft probabilities are known to be there.\<close>

definition relay_decode_phase ::
  "bool \<Rightarrow> relay_cfg \<Rightarrow> relay_ids \<Rightarrow> ('l, 'p) deps \<Rightarrow> ('l, 'p) spec_call \<Rightarrow> int \<Rightarrow> 'p list list
     \<Rightarrow> string option list \<Rightarrow> nat list \<times> int list \<times> bool list \<Rightarrow> bool list \<Rightarrow> bufs \<Rightarrow> relay_state
     \<Rightarrow> bufs \<times> int list list option \<times> relay_state" where
  "relay_decode_phase stats cfg ids d call trigger_topk probs exts layout in_tk bf0 st1 =
     (let (req, pos, valid) = layout;
          det = detect cfg ids d call trigger_topk probs req pos valid in_tk
      in relay_finish stats cfg ids d call trigger_topk exts req pos valid in_tk det bf0
           (detect_stats stats cfg det st1))"

definition relay_opd_rejection_sample ::
  "environ \<Rightarrow> relay_ids \<Rightarrow> ('l, 'p) deps \<Rightarrow> ('l, 'p) spec_call \<Rightarrow> relay_state \<Rightarrow> event_state
     \<Rightarrow> (int list list \<times> relay_state \<times> event_state \<times> stop_event list) result" where
  "relay_opd_rejection_sample env ids d call st ev =
     (let batch_size = length (num_draft_tokens call);
          num_tokens = length (target_logits call);
          width = max_spec_len call + 1;
          drafts = draft_token_ids call;
          vocab = vocab_size call;
          stats = env_flag env ''VERL_OPD_SOURCE_METRICS'' True;
          use_ipc = (opt_default '''' (env ''VERL_OPD_MASK_IPC_SOCKET'') \<noteq> '''')
      in
      if num_tokens = 0 then Inr (full2 batch_size width PLACEHOLDER_TOKEN_ID, st, ev, [])
      else bind_r (relay_config env) (\<lambda>cfg.
        let (req, pos, valid) = request_layout (num_draft_tokens call) num_tokens (max_spec_len call)
                                  (cu_num_draft_tokens call)
        in
        if reflection_ids ids = [] then
          (let emit = map (\<lambda>i. valid ! i \<and> (0 \<le> drafts ! i \<and> drafts ! i < int vocab)) [0..<num_tokens];
               out = scatter2 emit req pos drafts (full2 batch_size width PLACEHOLDER_TOKEN_ID)
           in Inr (out, st,
                   record_token_source_events use_ipc batch_size out
                     (PerToken (map (\<lambda>_. False) emit) req pos) None None (Some (int vocab)) ev, []))
        else
          (let exts = ext_rids (md_req_ids ev) batch_size;
               in_tk = in_takeover cfg st exts;
               (bf0, st1) = takeover_phase stats d call in_tk (init_bufs batch_size width) st;
               trigger_topk = env_int env ''RELAY_OPD_TRIGGER_TOPK'' (- 1)
           in
           if trigger_topk \<le> 0 then Inl (RuntimeError ''RELAY_OPD_TRIGGER_TOPK must be positive'')
           else
             (case draft_probs call of
                None \<Rightarrow>
                  if md_req_ids ev = None then Inr (standard_sample d call, st1, ev, [])
                  else Inl (RuntimeError ''Relay-OPD trigger detection requires draft_probs'')
              | Some probs \<Rightarrow>
                  (let (bf, thresholds, st6) =
                         relay_decode_phase stats cfg ids d call trigger_topk probs exts (req, pos, valid)
                           in_tk bf0 st1;
                       (actions, logps) =
                         (if env_flag env ''RELAY_OPD_EXPORT_STUDENT_ACTION'' False
                          then (let (a, l) = export_actions d call req pos valid bf in (Some a, Some l))
                          else (None, None));
                       ev' = record_token_source_events use_ipc batch_size (b_output bf) (Override (b_teacher bf))
                               actions logps (Some (int vocab)) ev
                   in Inr (b_output bf, st6, ev',
                           record_trigger_stop_events ev (b_output bf) (b_stop bf) thresholds))))))"

text \<open>
  One decoding step of a batch with draft probabilities and at least one reflection token: the
  takeover rows, then \<open>relay_decode_phase\<close>. This is what the sampler does on every real request.
\<close>

definition relay_step ::
  "bool \<Rightarrow> relay_cfg \<Rightarrow> relay_ids \<Rightarrow> ('l, 'p) deps \<Rightarrow> ('l, 'p) spec_call \<Rightarrow> int \<Rightarrow> 'p list list
     \<Rightarrow> string option list \<Rightarrow> relay_state \<Rightarrow> bufs \<times> int list list option \<times> relay_state" where
  "relay_step stats cfg ids d call trigger_topk probs exts st =
     (let in_tk = in_takeover cfg st exts;
          (bf0, st1) = takeover_phase stats d call in_tk
             (init_bufs (length (num_draft_tokens call)) (max_spec_len call + 1)) st
      in relay_decode_phase stats cfg ids d call trigger_topk probs exts
           (request_layout (num_draft_tokens call) (length (target_logits call)) (max_spec_len call)
              (cu_num_draft_tokens call)) in_tk bf0 st1)"

lemma relay_sample_is_step:
  assumes "target_logits call \<noteq> []" "relay_config env = Inr cfg" "reflection_ids ids \<noteq> []"
    and "env_int env ''RELAY_OPD_TRIGGER_TOPK'' (- 1) = k" "k > 0" "draft_probs call = Some probs"
    and "relay_opd_rejection_sample env ids d call st ev = Inr (out, st', ev', evs)"
  shows "\<exists>bf th. relay_step (env_flag env ''VERL_OPD_SOURCE_METRICS'' True) cfg ids d call k probs
             (ext_rids (md_req_ids ev) (length (num_draft_tokens call))) st = (bf, th, st')
           \<and> out = b_output bf \<and> evs = record_trigger_stop_events ev (b_output bf) (b_stop bf) th"
  using assms
  by (auto simp: relay_opd_rejection_sample_def relay_step_def Let_def split: prod.splits if_splits)

end
