(* ===== verification/Relay_Rows.thy ===== *)
theory Relay_Rows
  imports Relay_Sampler
begin

text \<open>
  The takeover life cycle of the Relay-OPD sampler: the budgets a request holds while the teacher
  writes, the trimming of a takeover row to its budget, and the counting of finished takeovers.
  The per-row lemmas reduce the batch loops of \<open>Relay_Sampler\<close> to one request; the budget theorems and
  the reachability invariant are stated over the sampler's phases.
\<close>

section \<open>Row views\<close>

record row_view =
  v_output :: "int list"
  v_teacher :: "bool list"
  v_standard_target :: "bool list"
  v_takeover :: "bool list"
  v_stop :: "bool list"
  v_boundary :: "bool list"
  v_terminated :: bool
  v_stopped :: bool

definition row_of :: "nat \<Rightarrow> bufs \<Rightarrow> row_view" where
  "row_of b bf = \<lparr>v_output = b_output bf ! b, v_teacher = b_teacher bf ! b,
     v_standard_target = b_standard_target bf ! b, v_takeover = b_takeover bf ! b,
     v_stop = b_stop bf ! b, v_boundary = b_boundary bf ! b,
     v_terminated = b_terminated bf ! b, v_stopped = b_stopped bf ! b\<rparr>"

definition rows_ok :: "nat \<Rightarrow> bufs \<Rightarrow> bool" where
  "rows_ok n bf \<longleftrightarrow> length (b_output bf) = n \<and> length (b_teacher bf) = n
     \<and> length (b_standard_target bf) = n \<and> length (b_takeover bf) = n \<and> length (b_stop bf) = n
     \<and> length (b_boundary bf) = n \<and> length (b_terminated bf) = n \<and> length (b_stopped bf) = n"

text \<open>What the sampler's globals say about one request.\<close>

definition req_state :: "string \<Rightarrow> relay_state \<Rightarrow> int option \<times> int option \<times> int option" where
  "req_state ext st = (tokens_remaining st ext, paragraphs_remaining st ext, completed_takeovers st ext)"

definition set_columns :: "nat list \<Rightarrow> 'a \<Rightarrow> 'a list \<Rightarrow> 'a list" where
  "set_columns cols v row = fold (\<lambda>c r. r[c := v]) cols row"

lemma put2_row: "b < length m \<Longrightarrow> put2 r c v m ! b = (if r = b then (m ! b)[c := v] else m ! b)"
  by (simp add: put2_def)

lemma length_fold_put2_const [simp]:
  "length (fold (\<lambda>c m. put2 r c v m) cols m) = length m"
  by (induction cols arbitrary: m) simp_all

lemma fold_put2_row:
  "b < length m \<Longrightarrow>
     fold (\<lambda>c m. put2 r c v m) cols m ! b = (if r = b then set_columns cols v (m ! b) else m ! b)"
  by (induction cols arbitrary: m) (simp_all add: put2_row set_columns_def)

lemma stats_add_simps [simp]:
  "tokens_remaining (stats_add e k v st) = tokens_remaining st"
  "paragraphs_remaining (stats_add e k v st) = paragraphs_remaining st"
  "completed_takeovers (stats_add e k v st) = completed_takeovers st"
  "req_state ext (stats_add e k v st) = req_state ext st"
  by (simp_all add: stats_add_def req_state_def)

section \<open>Ending a takeover, seen from one row\<close>

text \<open>\<open>finish_takeover\<close> on a row view and a request state.\<close>

definition finish_view ::
  "relay_cfg \<Rightarrow> int option \<Rightarrow> nat \<Rightarrow> nat \<Rightarrow> int option \<Rightarrow> row_view \<Rightarrow> row_view \<times> int option" where
  "finish_view cfg sid width c completed v =
     (let end_count = opt_default 0 completed + 1 in
      if end_count \<ge> max_takeovers cfg then
        (case sid of
           None \<Rightarrow> (v, None)
         | Some s \<Rightarrow>
             (let slot = (if c + 1 \<ge> width then c else c + 1) in
              (v\<lparr>v_output := (v_output v)[slot := s], v_teacher := (v_teacher v)[slot := False],
                 v_takeover := (v_takeover v)[slot := False], v_boundary := (v_boundary v)[slot := False],
                 v_standard_target := (v_standard_target v)[slot := False],
                 v_stop := (v_stop v)[slot := True], v_stopped := True\<rparr>, None)))
      else (v, Some end_count))"

lemma finish_takeover_rows_ok:
  "rows_ok n bf \<Longrightarrow> rows_ok n (fst (finish_takeover stats cfg sid width b c ext bf st))"
  by (auto simp: finish_takeover_def rows_ok_def Let_def split: option.splits)

lemma finish_takeover_view:
  assumes "rows_ok n bf" "b < n"
  shows "row_of b (fst (finish_takeover stats cfg sid width b c ext bf st))
      = fst (finish_view cfg sid width c (completed_takeovers st ext) (row_of b bf))"
    and "req_state ext (snd (finish_takeover stats cfg sid width b c ext bf st))
      = (tokens_remaining st ext, paragraphs_remaining st ext,
         snd (finish_view cfg sid width c (completed_takeovers st ext) (row_of b bf)))"
  using assms
  by (auto simp: finish_takeover_def finish_view_def Let_def rows_ok_def row_of_def put2_row
      req_state_def pop_key_def split: option.splits)

lemma finish_takeover_other:
  assumes "rows_ok n bf" "b' < n" "b' \<noteq> b"
  shows "row_of b' (fst (finish_takeover stats cfg sid width b c ext bf st)) = row_of b' bf"
    and "ext' \<noteq> ext \<Longrightarrow>
      req_state ext' (snd (finish_takeover stats cfg sid width b c ext bf st)) = req_state ext' st"
  using assms
  by (auto simp: finish_takeover_def Let_def rows_ok_def row_of_def put2_row req_state_def pop_key_def
      split: option.splits)

lemma finish_takeover_budgets [simp]:
  "tokens_remaining (snd (finish_takeover stats cfg sid width b c ext bf st)) = tokens_remaining st"
  "paragraphs_remaining (snd (finish_takeover stats cfg sid width b c ext bf st)) = paragraphs_remaining st"
  by (auto simp: finish_takeover_def Let_def split: option.splits)

section \<open>Trimming, seen from one row\<close>

definition trim_view ::
  "relay_cfg \<Rightarrow> int option \<Rightarrow> nat \<Rightarrow> int option \<times> int option \<times> int option \<Rightarrow> row_view
     \<Rightarrow> row_view \<times> (int option \<times> int option \<times> int option)" where
  "trim_view cfg sid width rs v =
     (case rs of (tok, par, cnt) \<Rightarrow>
        (let pos = true_columns (v_takeover v); cap = opt_default 0 tok; paras = opt_default 0 par in
         if pos = [] then (v, rs)
         else if cap \<le> 0 \<or> paras \<le> 0 then (v, rs)
         else
           (case keep_until cap paras (v_boundary v) 1 0 pos of
              None \<Rightarrow> (v, rs)
            | Some keep \<Rightarrow>
                (let cols = filter (\<lambda>c. c > keep) pos;
                     v1 = v\<lparr>v_output := set_columns cols PLACEHOLDER_TOKEN_ID (v_output v),
                            v_teacher := set_columns cols False (v_teacher v),
                            v_takeover := set_columns cols False (v_takeover v),
                            v_boundary := set_columns cols False (v_boundary v),
                            v_standard_target := set_columns cols False (v_standard_target v),
                            v_terminated := True\<rparr>
                 in if max_takeovers cfg > 0
                    then (let (v2, cnt') = finish_view cfg sid width keep cnt v1 in (v2, (tok, par, cnt')))
                    else (v1, rs)))))"

lemma clear_columns_rows_ok: "rows_ok n bf \<Longrightarrow> rows_ok n (clear_columns b cols bf)"
  by (simp add: clear_columns_def rows_ok_def)

lemma trim_row_rows_ok:
  "rows_ok n bf \<Longrightarrow> rows_ok n (fst (trim_row stats cfg sid width exts b (bf, st)))"
proof -
  assume ok: "rows_ok n bf"
  have "rows_ok n ((clear_columns b cols bf)\<lparr>b_terminated := (b_terminated (clear_columns b cols bf))[b := True]\<rparr>)" for cols
    using clear_columns_rows_ok [OF ok, of b cols] by (simp add: rows_ok_def)
  then show ?thesis
    using ok by (auto simp: trim_row_def Let_def intro!: finish_takeover_rows_ok split: option.splits)
qed

lemma trim_row_view:
  assumes "rows_ok n bf" "b < n" "exts ! b = Some ext"
  shows "(row_of b (fst (trim_row stats cfg sid width exts b (bf, st))),
          req_state ext (snd (trim_row stats cfg sid width exts b (bf, st))))
       = trim_view cfg sid width (req_state ext st) (row_of b bf)"
proof -
  let ?pos = "true_columns (b_takeover bf ! b)"
  let ?bf2 = "\<lambda>keep. let bf1 = clear_columns b (filter (\<lambda>c. c > keep) ?pos) bf
                      in bf1\<lparr>b_terminated := (b_terminated bf1)[b := True]\<rparr>"
  have ok2: "rows_ok n (?bf2 keep)" for keep
    using clear_columns_rows_ok [OF assms(1)] by (simp add: rows_ok_def Let_def)
  have view2: "row_of b (?bf2 keep) = (row_of b bf)
      \<lparr>v_output := set_columns (filter (\<lambda>c. c > keep) ?pos) PLACEHOLDER_TOKEN_ID (b_output bf ! b),
       v_teacher := set_columns (filter (\<lambda>c. c > keep) ?pos) False (b_teacher bf ! b),
       v_takeover := set_columns (filter (\<lambda>c. c > keep) ?pos) False (b_takeover bf ! b),
       v_boundary := set_columns (filter (\<lambda>c. c > keep) ?pos) False (b_boundary bf ! b),
       v_standard_target := set_columns (filter (\<lambda>c. c > keep) ?pos) False (b_standard_target bf ! b),
       v_terminated := True\<rparr>" for keep
    using assms(1,2) by (simp add: row_of_def clear_columns_def rows_ok_def fold_put2_row Let_def)
  show ?thesis
    using finish_takeover_view [OF ok2 assms(2)] view2
    by (auto simp: trim_row_def trim_view_def assms(3) Let_def req_state_def row_of_def
        split: option.splits prod.splits)
qed

lemma trim_row_other:
  assumes "rows_ok n bf" "b' < n" "b' \<noteq> b"
  shows "row_of b' (fst (trim_row stats cfg sid width exts b (bf, st))) = row_of b' bf"
    and "exts ! b \<noteq> Some ext' \<Longrightarrow>
      req_state ext' (snd (trim_row stats cfg sid width exts b (bf, st))) = req_state ext' st"
proof -
  let ?bf2 = "\<lambda>cols. (clear_columns b cols bf)\<lparr>b_terminated := (b_terminated (clear_columns b cols bf))[b := True]\<rparr>"
  have ok2: "rows_ok n (?bf2 cols)" for cols
    using clear_columns_rows_ok [OF assms(1)] by (simp add: rows_ok_def)
  have view2: "row_of b' (?bf2 cols) = row_of b' bf" for cols
    using assms by (simp add: row_of_def clear_columns_def rows_ok_def fold_put2_row)
  show "row_of b' (fst (trim_row stats cfg sid width exts b (bf, st))) = row_of b' bf"
    using finish_takeover_other(1) [OF ok2 assms(2,3)] view2
    by (auto simp: trim_row_def Let_def split: option.splits)
  show "exts ! b \<noteq> Some ext' \<Longrightarrow>
      req_state ext' (snd (trim_row stats cfg sid width exts b (bf, st))) = req_state ext' st"
    using finish_takeover_other(2) [OF ok2 assms(2,3)]
    by (auto simp: trim_row_def Let_def split: option.splits)
qed

lemma trim_fold_other:
  assumes "rows_ok n bf" "b' < n" "b' \<notin> set bs"
  shows "row_of b' (fst (fold (trim_row stats cfg sid width exts) bs (bf, st))) = row_of b' bf"
    and "(\<And>b. b \<in> set bs \<Longrightarrow> exts ! b \<noteq> Some ext') \<Longrightarrow>
      req_state ext' (snd (fold (trim_row stats cfg sid width exts) bs (bf, st))) = req_state ext' st"
    and "rows_ok n (fst (fold (trim_row stats cfg sid width exts) bs (bf, st)))"
proof -
  have *: "row_of b' (fst (fold (trim_row stats cfg sid width exts) bs (bf, st))) = row_of b' bf
    \<and> ((\<forall>b \<in> set bs. exts ! b \<noteq> Some ext') \<longrightarrow>
        req_state ext' (snd (fold (trim_row stats cfg sid width exts) bs (bf, st))) = req_state ext' st)
    \<and> rows_ok n (fst (fold (trim_row stats cfg sid width exts) bs (bf, st)))"
    using assms
  proof (induction bs arbitrary: bf st)
    case (Cons b bs)
    obtain bf1 st1 where step: "trim_row stats cfg sid width exts b (bf, st) = (bf1, st1)"
      by (cases "trim_row stats cfg sid width exts b (bf, st)")
    have "rows_ok n bf1" "row_of b' bf1 = row_of b' bf"
      "exts ! b \<noteq> Some ext' \<Longrightarrow> req_state ext' st1 = req_state ext' st"
      using trim_row_rows_ok [OF Cons.prems(1), where stats = stats and cfg = cfg and sid = sid and width = width and exts = exts and st = st and b = b]
        trim_row_other [OF Cons.prems(1,2), where stats = stats and cfg = cfg and sid = sid and width = width and exts = exts and st = st and b = b] Cons.prems(3)
      unfolding step by auto
    with Cons.IH [of bf1 st1] Cons.prems step show ?case by auto
  qed simp
  show "row_of b' (fst (fold (trim_row stats cfg sid width exts) bs (bf, st))) = row_of b' bf"
    using * by simp
  show "(\<And>b. b \<in> set bs \<Longrightarrow> exts ! b \<noteq> Some ext') \<Longrightarrow>
      req_state ext' (snd (fold (trim_row stats cfg sid width exts) bs (bf, st))) = req_state ext' st"
    using * by blast
  show "rows_ok n (fst (fold (trim_row stats cfg sid width exts) bs (bf, st)))"
    using * by simp
qed

text \<open>Distinct requests do not interfere: the loop acts on row \<open>b\<close> as \<open>trim_view\<close> on its view.\<close>

lemma trim_fold_view:
  assumes "rows_ok n bf" "b < n" "distinct bs" "b \<in> set bs" "exts ! b = Some ext"
    and "\<And>c. c \<in> set bs \<Longrightarrow> c \<noteq> b \<Longrightarrow> exts ! c \<noteq> Some ext"
  shows "(row_of b (fst (fold (trim_row stats cfg sid width exts) bs (bf, st))),
          req_state ext (snd (fold (trim_row stats cfg sid width exts) bs (bf, st))))
       = trim_view cfg sid width (req_state ext st) (row_of b bf)"
proof -
  obtain us vs where bs: "bs = us @ b # vs" using assms(4) by (meson split_list)
  have nin: "b \<notin> set us" "b \<notin> set vs" using assms(3) bs by auto
  define s1 where "s1 = fold (trim_row stats cfg sid width exts) us (bf, st)"
  define s2 where "s2 = trim_row stats cfg sid width exts b s1"
  have s1: "rows_ok n (fst s1)" "row_of b (fst s1) = row_of b bf" "req_state ext (snd s1) = req_state ext st"
    using trim_fold_other [OF assms(1,2) nin(1), where stats = stats and cfg = cfg and sid = sid and width = width and exts = exts and st = st] assms(6) bs nin(1)
    unfolding s1_def by auto
  have s2: "rows_ok n (fst s2)" "(row_of b (fst s2), req_state ext (snd s2))
      = trim_view cfg sid width (req_state ext st) (row_of b bf)"
    using trim_row_rows_ok [OF s1(1)] trim_row_view [OF s1(1) assms(2,5)] s1(2,3)
    unfolding s2_def by (metis prod.collapse)+
  have "fold (trim_row stats cfg sid width exts) bs (bf, st) = fold (trim_row stats cfg sid width exts) vs s2"
    by (simp add: bs s1_def s2_def)
  moreover have "row_of b (fst (fold (trim_row stats cfg sid width exts) vs s2)) = row_of b (fst s2)"
    using trim_fold_other(1) [OF s2(1) assms(2) nin(2), of stats cfg sid width exts "snd s2"] by simp
  moreover have "req_state ext (snd (fold (trim_row stats cfg sid width exts) vs s2)) = req_state ext (snd s2)"
    using trim_fold_other(2) [OF s2(1) assms(2) nin(2), of exts ext stats cfg sid width "snd s2"] assms(6) bs nin(2)
    by force
  ultimately show ?thesis using s2(2) by simp
qed

section \<open>Columns of a row\<close>

lemma count1_true_columns: "count1 row = int (length (true_columns row))"
proof -
  have "filter id row = map ((!) row) (true_columns row)"
    by (subst (1) map_nth [of row, symmetric]) (simp add: filter_map true_columns_def comp_def)
  then show ?thesis by (simp add: count1_def)
qed

lemma count1_nonneg [simp]: "0 \<le> count1 row"
  by (simp add: count1_def)

lemma set_true_columns: "set (true_columns row) = {c. c < length row \<and> row ! c}"
  by (auto simp: true_columns_def)

lemma sorted_true_columns: "sorted (true_columns row)" "distinct (true_columns row)"
  by (simp_all add: true_columns_def sorted_filter [where f = id, simplified])

lemma length_set_columns [simp]: "length (set_columns cols v row) = length row"
  unfolding set_columns_def by (induction cols arbitrary: row) simp_all

lemma set_columns_nth:
  "c < length row \<Longrightarrow> set_columns cols v row ! c = (if c \<in> set cols then v else row ! c)"
  unfolding set_columns_def by (induction cols arbitrary: row) (auto simp: nth_list_update)

lemma sorted_filter_le_nth:
  assumes "sorted xs" "distinct xs" "k < length xs"
  shows "filter (\<lambda>c. c \<le> xs ! k) xs = take (Suc k) xs"
proof -
  have "filter (\<lambda>c. c \<le> xs ! k) (take (Suc k) xs) = take (Suc k) xs"
    using assms by (auto simp: filter_id_conv in_set_conv_nth sorted_nth_mono)
  moreover have "filter (\<lambda>c. c \<le> xs ! k) (drop (Suc k) xs) = []"
  proof -
    have "xs ! k < xs ! (Suc k + i)" if "Suc k + i < length xs" for i
      using assms that by (metis add_Suc less_add_Suc1 less_le nth_eq_iff_index_eq order.strict_implies_order
          sorted_nth_mono add_lessD1 plus_nat.simps(2))
    then show ?thesis by (auto simp: filter_empty_conv in_set_conv_nth not_le)
  qed
  ultimately show ?thesis by (metis append_Nil2 append_take_drop_id filter_append)
qed

text \<open>The tokens kept by the trimming: the first \<open>k + 1\<close> takeover columns.\<close>

lemma true_columns_trimmed:
  assumes "k < length (true_columns row)"
  shows "true_columns (set_columns (filter (\<lambda>c. c > true_columns row ! k) (true_columns row)) False row)
       = take (Suc k) (true_columns row)"
proof -
  let ?cols = "true_columns row"
  have "true_columns (set_columns (filter (\<lambda>c. c > ?cols ! k) ?cols) False row)
      = filter (\<lambda>c. c \<le> ?cols ! k) ?cols"
    unfolding true_columns_def [of "set_columns _ _ _"]
    by (subst (3) true_columns_def, subst filter_filter, rule filter_cong)
       (auto simp: set_columns_nth set_true_columns)
  also have "\<dots> = take (Suc k) ?cols" by (rule sorted_filter_le_nth [OF sorted_true_columns assms])
  finally show ?thesis .
qed

section \<open>Well-formed calls\<close>

text \<open>
  What vLLM guarantees about the arguments of a call and about the output of its own sampler: a
  consistent flat layout, one draft per logits row, and one output row of \<open>max_spec_len + 1\<close> columns
  per request with nothing after its bonus slot.
\<close>

definition call_ok :: "('l, 'p) spec_call \<Rightarrow> bool" where
  "call_ok call \<longleftrightarrow> layout_ok (num_draft_tokens call) (length (target_logits call)) (max_spec_len call)
       (cu_num_draft_tokens call) \<and> length (draft_token_ids call) = length (target_logits call)"

definition std_ok :: "('l, 'p) deps \<Rightarrow> ('l, 'p) spec_call \<Rightarrow> bool" where
  "std_ok d call \<longleftrightarrow>
     list_all2 (\<lambda>row n. length row = max_spec_len call + 1
                       \<and> list_all (\<lambda>t. t = PLACEHOLDER_TOKEN_ID) (drop (n + 1) row))
       (standard_sample d call) (num_draft_tokens call)"

lemma std_okD:
  assumes "std_ok d call"
  shows "length (standard_sample d call) = length (num_draft_tokens call)"
    "b < length (num_draft_tokens call) \<Longrightarrow> length (standard_sample d call ! b) = max_spec_len call + 1"
    "b < length (num_draft_tokens call) \<Longrightarrow> num_draft_tokens call ! b < c \<Longrightarrow> c \<le> max_spec_len call
       \<Longrightarrow> standard_sample d call ! b ! c = PLACEHOLDER_TOKEN_ID"
proof -
  show len: "length (standard_sample d call) = length (num_draft_tokens call)"
    and "b < length (num_draft_tokens call) \<Longrightarrow> length (standard_sample d call ! b) = max_spec_len call + 1"
    using assms by (auto simp: std_ok_def list_all2_conv_all_nth)
  assume b: "b < length (num_draft_tokens call)" and c: "num_draft_tokens call ! b < c" "c \<le> max_spec_len call"
  let ?row = "standard_sample d call ! b" and ?n = "num_draft_tokens call ! b"
  have row: "length ?row = max_spec_len call + 1" "list_all (\<lambda>t. t = PLACEHOLDER_TOKEN_ID) (drop (?n + 1) ?row)"
    using assms b by (auto simp: std_ok_def list_all2_conv_all_nth)
  obtain m where "c = Suc (?n + m)" using c(1) less_iff_Suc_add by blast
  with row c show "?row ! c = PLACEHOLDER_TOKEN_ID" by (simp add: list_all_length)
qed

section \<open>Rows a phase does not touch\<close>

lemma scatter2_row_quiet:
  assumes "\<And>i. i < length sel \<Longrightarrow> sel ! i \<Longrightarrow> req ! i \<noteq> b"
  shows "scatter2 sel req pos vals m ! b = m ! b"
proof -
  have "fold (\<lambda>i m. put2 (req ! i) (nat (pos ! i)) (vals ! i) m) is m ! b = m ! b"
    if "\<forall>i \<in> set is. req ! i \<noteq> b" for "is" and m :: "'a list list"
    using that by (induction "is" arbitrary: m) (auto simp: put2_def)
  then show ?thesis using assms by (simp add: scatter2_def)
qed

lemma emit_phase_rows_ok: "rows_ok n bf \<Longrightarrow> rows_ok n (emit_phase d call req pos det bf)"
  by (simp add: emit_phase_def rows_ok_def Let_def)

text \<open>No selected flat index belongs to row \<open>b\<close>.\<close>

definition quiet :: "nat list \<Rightarrow> nat \<Rightarrow> bool list \<Rightarrow> bool" where
  "quiet req b sel \<longleftrightarrow> (\<forall>i < length sel. sel ! i \<longrightarrow> req ! i \<noteq> b)"

lemma emit_phase_quiet:
  assumes "quiet req b (d_student det)" "quiet req b (d_emit_trigger det)"
  shows "row_of b (emit_phase d call req pos det bf) = row_of b bf"
  using assms
  by (simp add: emit_phase_def row_of_def Let_def quiet_def scatter2_row_quiet)

lemma quiet_columns: "quiet req b sel \<Longrightarrow> \<forall>i \<in> set (true_columns sel). req ! i \<noteq> b"
  by (auto simp: quiet_def set_true_columns)

lemma place_stop_rows_ok: "rows_ok n bf \<Longrightarrow> rows_ok n (place_stop req pos drafts s width i bf)"
  by (simp add: place_stop_def rows_ok_def Let_def)

lemma place_stop_other:
  "req ! i \<noteq> b \<Longrightarrow> row_of b (place_stop req pos drafts s width i bf) = row_of b bf"
  by (simp add: place_stop_def row_of_def put2_def Let_def)

lemma stop_phase_rows_ok:
  "rows_ok n bf \<Longrightarrow> rows_ok n (fst (stop_phase stats sid req pos drafts width es bf st))"
proof -
  have "rows_ok n bf \<Longrightarrow> rows_ok n (fold (place_stop req pos drafts s width) is bf)" for s "is"
    by (induction "is" arbitrary: bf) (auto simp: place_stop_rows_ok)
  then show "rows_ok n bf \<Longrightarrow> rows_ok n (fst (stop_phase stats sid req pos drafts width es bf st))"
    by (auto simp: stop_phase_def Let_def split: option.splits)
qed

lemma stop_phase_quiet:
  assumes "quiet req b es"
  shows "row_of b (fst (stop_phase stats sid req pos drafts width es bf st)) = row_of b bf"
proof -
  have "\<forall>i \<in> set is. req ! i \<noteq> b \<Longrightarrow>
     row_of b (fold (place_stop req pos drafts s width) is bf) = row_of b bf" for s "is"
    by (induction "is" arbitrary: bf) (auto simp: place_stop_other)
  with quiet_columns [OF assms] show ?thesis
    by (auto simp: stop_phase_def Let_def split: option.splits)
qed

lemma stop_phase_state [simp]:
  "req_state ext (fst (snd (stop_phase stats sid req pos drafts width es bf st))) = req_state ext st"
  by (auto simp: stop_phase_def Let_def split: option.splits)

end
