(* ===== verification/Relay_Example.thy ===== *)
theory Relay_Example
  imports Relay_Rows
begin

text \<open>
  A small batch on which the sampler's theorems are instantiated: two requests with two drafts each
  over a vocabulary of six tokens. Request \<open>a\<close> is written by the student and diverges at its second
  draft; request \<open>b\<close> is in takeover. Logits and probabilities are integers, with the first maximum as
  \<open>argmax\<close>.
\<close>

definition ex_argmax :: "int list \<Rightarrow> nat" where
  "ex_argmax xs = opt_default 0 (find_index (\<lambda>x. list_all (\<lambda>y. y \<le> x) xs) xs)"

definition ex_topk :: "nat \<Rightarrow> int list \<Rightarrow> nat list" where
  "ex_topk k xs = take k (map snd (rev (sort_key fst (zip xs [0..<length xs]))))"

definition ex_deps :: "(int, int) deps" where
  "ex_deps = \<lparr>argmax = ex_argmax, topk = ex_topk, standard_sample = (\<lambda>c. [[1, 5, -1], [2, 3, 4]]),
     log_softmax_at = (\<lambda>_ _. 0)\<rparr>"

definition ex_probs :: "int list list" where
  "ex_probs = [[0, 9, 0, 0, 0, 0], [0, 0, 9, 0, 0, 0], [0, 0, 9, 0, 0, 0], [0, 0, 0, 9, 0, 0]]"

definition ex_call :: "(int, int) spec_call" where
  "ex_call = \<lparr>draft_token_ids = [1, 2, 2, 3], num_draft_tokens = [2, 2], max_spec_len = 2,
     cu_num_draft_tokens = [2, 4], draft_probs = Some ex_probs,
     target_logits = [[0, 9, 0, 0, 0, 0], [0, 0, 0, 0, 0, 9], [0, 0, 9, 0, 0, 0], [0, 0, 0, 9, 0, 0]],
     vocab_size = 6\<rparr>"

definition ex_cfg :: relay_cfg where
  "ex_cfg = \<lparr>takeover_enabled = True, max_takeover_tokens = 8, paragraphs_per_takeover = 2, max_takeovers = 1\<rparr>"

definition ex_ids :: relay_ids where
  "ex_ids = \<lparr>reflection_ids = [5], boundary_ids = [3], stop_id = Some 0\<rparr>"

definition ex_exts :: "string option list" where
  "ex_exts = [Some ''a'', Some ''b'']"

definition ex_state :: relay_state where
  "ex_state = empty_relay_state\<lparr>tokens_remaining := [''b'' \<mapsto> 5], paragraphs_remaining := [''b'' \<mapsto> 1]\<rparr>"

definition ex_env :: environ where
  "ex_env = [''RELAY_OPD_MAX_TAKEOVER_TOKENS'' \<mapsto> ''8'', ''RELAY_OPD_PARAGRAPHS_PER_TAKEOVER'' \<mapsto> ''2'',
     ''RELAY_OPD_MAX_TAKEOVERS'' \<mapsto> ''1'', ''RELAY_OPD_TRIGGER_TOPK'' \<mapsto> ''1'',
     ''VERL_OPD_SOURCE_METRICS'' \<mapsto> ''0'']"

definition ex_events :: event_state where
  "ex_events = \<lparr>md_req_ids = Some ex_exts, md_base_positions = Some [0, 0], md_pending_rows = None,
     teacher_mask_by_rid = Map.empty, token_events_by_rid = Map.empty, position_events_by_rid = Map.empty\<rparr>"

lemma ex_env_cfg: "relay_config ex_env = Inr ex_cfg"
  by code_simp

lemma ex_wf: "call_ok ex_call" "std_ok ex_deps ex_call" "length ex_exts = length (num_draft_tokens ex_call)"
  by (simp_all add: call_ok_def layout_ok_def std_ok_def ex_call_def ex_deps_def ex_exts_def)

lemma ex_exts_distinct: "c < length ex_exts \<Longrightarrow> c \<noteq> b \<Longrightarrow> b < length ex_exts \<Longrightarrow> ex_exts ! c \<noteq> ex_exts ! b"
  by (auto simp: ex_exts_def nth_Cons' split: if_splits)

end
