(* ===== verification/Relay_Takeover.thy ===== *)
theory Relay_Takeover
  imports Relay_Example
begin

text \<open>
  The takeover life cycle of the Relay-OPD sampler: what a decoding step does to a request whose
  teacher is writing, and the budgets over a whole takeover.
\<close>

section \<open>A takeover row is left alone until it is trimmed\<close>

lemma trigger_only_rows_ok:
  "rows_ok n bf \<Longrightarrow> rows_ok n (fst (trigger_only_phase stats cfg sid width exts req pos es bf st))"
proof -
  have "rows_ok n bf \<Longrightarrow> rows_ok n (fst (fold (\<lambda>i (bf, st). case exts ! (req ! i) of
                   None \<Rightarrow> (bf, st)
                 | Some ext \<Rightarrow> finish_takeover stats cfg sid width (req ! i) (nat (pos ! i)) ext bf st) is (bf, st)))" for "is"
  proof (induction "is" arbitrary: bf st)
    case (Cons i "is")
    show ?case
    proof (cases "exts ! (req ! i)")
      case (Some ext)
      obtain bf' st' where fin: "finish_takeover stats cfg sid width (req ! i) (nat (pos ! i)) ext bf st = (bf', st')"
        by (cases "finish_takeover stats cfg sid width (req ! i) (nat (pos ! i)) ext bf st")
      have "rows_ok n bf'"
        using finish_takeover_rows_ok [OF Cons.prems, of stats cfg sid width "req ! i" "nat (pos ! i)" ext st] fin by simp
      then show ?thesis using Cons.IH [of bf' st'] Some fin by simp
    qed (use Cons in simp)
  qed simp
  then show "rows_ok n bf \<Longrightarrow> rows_ok n (fst (trigger_only_phase stats cfg sid width exts req pos es bf st))"
    by (simp add: trigger_only_phase_def)
qed

abbreviation trigger_fold where
  "trigger_fold stats cfg sid width exts req pos \<equiv> fold (\<lambda>i (bf, st). case exts ! (req ! i) of
      None \<Rightarrow> (bf, st)
    | Some ext \<Rightarrow> finish_takeover stats cfg sid width (req ! i) (nat (pos ! i)) ext bf st)"

lemma trigger_fold_other:
  assumes "rows_ok n bf" "b < n" "\<forall>i \<in> set is. req ! i < n \<and> req ! i \<noteq> b"
  shows "row_of b (fst (trigger_fold stats cfg sid width exts req pos is (bf, st))) = row_of b bf"
    and "rows_ok n (fst (trigger_fold stats cfg sid width exts req pos is (bf, st)))"
    and "(\<And>c. c < n \<Longrightarrow> c \<noteq> b \<Longrightarrow> exts ! c \<noteq> Some ext) \<Longrightarrow>
      req_state ext (snd (trigger_fold stats cfg sid width exts req pos is (bf, st))) = req_state ext st"
proof -
  let ?f = "trigger_fold stats cfg sid width exts req pos"
  have "row_of b (fst (?f is (bf, st))) = row_of b bf \<and> rows_ok n (fst (?f is (bf, st)))
      \<and> ((\<forall>c < n. c \<noteq> b \<longrightarrow> exts ! c \<noteq> Some ext) \<longrightarrow> req_state ext (snd (?f is (bf, st))) = req_state ext st)"
    using assms(1,3)
  proof (induction "is" arbitrary: bf st)
    case (Cons i "is")
    show ?case
    proof (cases "exts ! (req ! i)")
      case (Some e)
      obtain bf' st' where fin: "finish_takeover stats cfg sid width (req ! i) (nat (pos ! i)) e bf st = (bf', st')"
        by (cases "finish_takeover stats cfg sid width (req ! i) (nat (pos ! i)) e bf st")
      have "rows_ok n bf'"
        using finish_takeover_rows_ok [OF Cons.prems(1), of stats cfg sid width "req ! i" "nat (pos ! i)" e st] fin by simp
      moreover have "row_of b bf' = row_of b bf" "e \<noteq> ext \<Longrightarrow> req_state ext st' = req_state ext st"
        using finish_takeover_other(1) [OF Cons.prems(1) assms(2), where b = "req ! i" and stats = stats and cfg = cfg and sid = sid and width = width and c = "nat (pos ! i)" and ext = e and st = st]
          finish_takeover_other(2) [OF Cons.prems(1) assms(2), where b = "req ! i" and stats = stats and cfg = cfg and sid = sid and width = width and c = "nat (pos ! i)" and ext = e and st = st and ext' = ext]
          fin Cons.prems(2) by auto
      ultimately show ?thesis using Cons.IH [of bf' st'] Cons.prems(2) Some fin by (cases "e = ext") auto
    qed (use Cons in simp)
  qed simp
  then show "row_of b (fst (?f is (bf, st))) = row_of b bf" "rows_ok n (fst (?f is (bf, st)))"
    "(\<And>c. c < n \<Longrightarrow> c \<noteq> b \<Longrightarrow> exts ! c \<noteq> Some ext) \<Longrightarrow> req_state ext (snd (?f is (bf, st))) = req_state ext st" by blast+
qed

lemma trigger_only_other:
  assumes "rows_ok n bf" "b < n" "quiet req b es"
    and "\<And>c. c < n \<Longrightarrow> c \<noteq> b \<Longrightarrow> exts ! c \<noteq> Some ext"
    and "\<And>i. i < length es \<Longrightarrow> req ! i < n"
  shows "row_of b (fst (trigger_only_phase stats cfg sid width exts req pos es bf st)) = row_of b bf"
    and "req_state ext (snd (trigger_only_phase stats cfg sid width exts req pos es bf st)) = req_state ext st"
proof -
  have cols: "\<forall>i \<in> set (true_columns es). req ! i < n \<and> req ! i \<noteq> b"
    using quiet_columns [OF assms(3)] assms(5) by (auto simp: set_true_columns)
  show "row_of b (fst (trigger_only_phase stats cfg sid width exts req pos es bf st)) = row_of b bf"
    "req_state ext (snd (trigger_only_phase stats cfg sid width exts req pos es bf st)) = req_state ext st"
    using trigger_fold_other(1) [OF assms(1,2) cols] trigger_fold_other(3) [OF assms(1,2) cols assms(4)]
    by (simp_all add: trigger_only_phase_def)
qed

text \<open>A row with one trigger is finished at that trigger when takeovers have no paragraphs.\<close>

lemma trigger_only_row:
  assumes "rows_ok n bf" "b < n" "\<forall>i < length es. req ! i < n"
    and i: "i < length es" "es ! i" "req ! i = b" and one: "\<forall>j < length es. es ! j \<and> req ! j = b \<longrightarrow> j = i"
    and uniq: "exts ! b \<noteq> None \<longrightarrow> (\<forall>c < n. c \<noteq> b \<longrightarrow> exts ! c \<noteq> exts ! b)"
    and mode: "paragraphs_per_takeover cfg \<le> 0" "0 < max_takeovers cfg"
  shows "row_of b (fst (trigger_only_phase stats cfg sid width exts req pos es bf st))
    = (case exts ! b of None \<Rightarrow> row_of b bf
       | Some ext \<Rightarrow> fst (finish_view cfg sid width (nat (pos ! i)) (completed_takeovers st ext) (row_of b bf)))"
proof -
  have mem: "i \<in> set (true_columns es)" using i by (simp add: set_true_columns)
  obtain us vs where cols: "true_columns es = us @ i # vs" using mem by (meson split_list)
  have "i \<notin> set us \<union> set vs" using sorted_true_columns(2) [of es] by (simp add: cols)
  then have others: "\<forall>j \<in> set us. req ! j < n \<and> req ! j \<noteq> b" "\<forall>j \<in> set vs. req ! j < n \<and> req ! j \<noteq> b"
    using assms(3) one set_true_columns [of es] by (auto simp: cols)
  let ?f = "trigger_fold stats cfg sid width exts req pos"
  obtain bf1 st1 where one': "?f us (bf, st) = (bf1, st1)" by (cases "?f us (bf, st)")
  note F = trigger_fold_other [OF assms(1,2) others(1), where stats = stats and cfg = cfg and sid = sid and width = width and exts = exts and pos = pos
      and st = st, unfolded one' fst_conv snd_conv]
  have any: "any1 es" using i by (auto simp: any1_def list_ex_length)
  have run: "trigger_only_phase stats cfg sid width exts req pos es bf st = ?f vs (case exts ! b of None \<Rightarrow> (bf1, st1)
      | Some ext \<Rightarrow> finish_takeover stats cfg sid width b (nat (pos ! i)) ext bf1 st1)"
    using mode any i(3) by (cases "exts ! b") (auto simp: trigger_only_phase_def cols one')
  show ?thesis
  proof (cases "exts ! b")
    case None
    then show ?thesis unfolding run using trigger_fold_other(1) [OF F(2) assms(2) others(2)] F(1) by simp
  next
    case (Some ext)
    have "req_state ext st1 = req_state ext st" by (rule F(3)) (use uniq Some in auto)
    then have c: "completed_takeovers st1 ext = completed_takeovers st ext" by (simp add: req_state_def)
    obtain bf2 st2 where fin: "finish_takeover stats cfg sid width b (nat (pos ! i)) ext bf1 st1 = (bf2, st2)"
      by (cases "finish_takeover stats cfg sid width b (nat (pos ! i)) ext bf1 st1")
    have "rows_ok n bf2" using finish_takeover_rows_ok [OF F(2), of stats cfg sid width b "nat (pos ! i)" ext st1] fin by simp
    moreover have "row_of b bf2 = fst (finish_view cfg sid width (nat (pos ! i)) (completed_takeovers st ext) (row_of b bf))"
      using finish_takeover_view(1) [OF F(2) assms(2), of stats cfg sid width "nat (pos ! i)" ext st1] fin F(1) c by simp
    ultimately show ?thesis
      unfolding run using trigger_fold_other(1) [OF _ assms(2) others(2), of bf2] Some fin by simp
  qed
qed

section \<open>Detection leaves takeover rows alone\<close>

lemma detect_lengths:
  assumes "length (draft_token_ids call) = length (target_logits call)"
  shows "length (d_student (detect cfg ids d call k probs req pos valid in_tk)) = length (target_logits call)"
    "length (d_emit_trigger (detect cfg ids d call k probs req pos valid in_tk)) = length (target_logits call)"
    "length (d_emit_stop (detect cfg ids d call k probs req pos valid in_tk)) = length (target_logits call)"
  using assms by (simp_all add: detect_def emit_masks_def Let_def split: prod.splits)

lemma detect_nth:
  assumes "length (draft_token_ids call) = length (target_logits call)" "i < length (target_logits call)"
    and "det = detect cfg ids d call k probs req pos valid in_tk"
  shows "d_student det ! i \<Longrightarrow> \<not> in_tk ! (req ! i)"
    "d_emit_trigger det ! i \<Longrightarrow> \<not> in_tk ! (req ! i)"
    "d_emit_stop det ! i \<Longrightarrow> \<not> in_tk ! (req ! i)"
  using assms(1,2)
  by (auto simp: assms(3) detect_def emit_masks_def raw_trigger_def teacher_argmax_def in_student_topk_def Let_def
      split: prod.splits if_splits)

lemma detect_quiet:
  assumes "length (draft_token_ids call) = length (target_logits call)" "in_tk ! b"
    and "det = detect cfg ids d call k probs req pos valid in_tk"
  shows "quiet req b (d_student det)" "quiet req b (d_emit_trigger det)" "quiet req b (d_emit_stop det)"
  using assms(2) detect_nth [OF assms(1) _ refl]
  unfolding quiet_def assms(3) detect_lengths [OF assms(1)] by auto

section \<open>One decoding step on a takeover row\<close>

text \<open>The row vLLM's sampler produced, without its bonus token.\<close>

definition no_bonus :: "nat \<Rightarrow> int list \<Rightarrow> int list" where
  "no_bonus n row = (if n < length row \<and> 0 \<le> row ! n then row[n := PLACEHOLDER_TOKEN_ID] else row)"

lemma fold_put2_rows:
  assumes "b < length m" "distinct rows"
  shows "fold (\<lambda>b m. put2 b (c b) v m) rows m ! b = (if b \<in> set rows then (m ! b)[c b := v] else m ! b)"
  using assms
proof (induction rows arbitrary: m)
  case (Cons r rows)
  then show ?case by (cases "r = b") (auto simp: put2_def)
qed simp

lemma length_fold_put2_rows [simp]:
  "length (fold (\<lambda>b m. put2 b (c b) v m) rows m) = length m"
  by (induction rows arbitrary: m) simp_all

lemma drop_bonus_row:
  assumes "b < length std" "in_tk ! b"
  shows "fst (drop_bonus in_tk nd std) ! b = no_bonus (nd ! b) (std ! b)"
  using assms by (auto simp: drop_bonus_def no_bonus_def Let_def fold_put2_rows)

lemma length_drop_bonus [simp]: "length (fst (drop_bonus in_tk nd std)) = length std"
  by (simp add: drop_bonus_def Let_def)

text \<open>How a takeover row enters the trimming loop.\<close>

definition takeover_view :: "int list \<Rightarrow> nat \<Rightarrow> int list \<Rightarrow> bool list \<Rightarrow> row_view" where
  "takeover_view bids width row target =
     (let e = map (\<lambda>t. 0 \<le> t) row in
      \<lparr>v_output = row, v_teacher = e, v_standard_target = target, v_takeover = e,
       v_stop = replicate width False, v_boundary = map (\<lambda>t. 0 \<le> t \<and> t \<in> set bids) row,
       v_terminated = False, v_stopped = False\<rparr>)"

lemma takeover_phase_rows_ok:
  assumes "std_ok d call" "length in_tk = length (num_draft_tokens call)"
    and "rows_ok (length (num_draft_tokens call)) bf"
  shows "rows_ok (length (num_draft_tokens call)) (fst (takeover_phase stats d call in_tk bf st))"
proof -
  obtain std n where db: "drop_bonus in_tk (num_draft_tokens call) (standard_sample d call) = (std, n)"
    by (cases "drop_bonus in_tk (num_draft_tokens call) (standard_sample d call)")
  then have "length std = length (num_draft_tokens call)"
    using std_okD(1) [OF assms(1)] length_drop_bonus [of in_tk "num_draft_tokens call" "standard_sample d call"]
    by simp
  with assms(2,3) show ?thesis
    by (simp add: takeover_phase_def db rows_ok_def row_and_def emitted_matrix_def
        infer_standard_target_emits_def Let_def split_def)
qed

lemma takeover_phase_state [simp]:
  "req_state ext (snd (takeover_phase stats d call in_tk bf st)) = req_state ext st"
  by (auto simp: takeover_phase_def Let_def split: prod.splits)

lemma emitted_iff [simp]: "0 \<le> t \<and> t \<noteq> PLACEHOLDER_TOKEN_ID \<longleftrightarrow> 0 \<le> t"
  by auto

lemma map2_or_False: "map2 (\<or>) (replicate (length xs) False) xs = xs"
  by (induction xs) auto

lemma takeover_phase_row:
  assumes "std_ok d call" "length in_tk = length (num_draft_tokens call)" "b < length in_tk" "in_tk ! b"
    and "width = max_spec_len call + 1"
    and "bf = fst (takeover_phase stats d call in_tk (init_bufs (length (num_draft_tokens call)) width) st)"
  shows "\<exists>target. row_of b bf = (takeover_view [] width
      (no_bonus (num_draft_tokens call ! b) (standard_sample d call ! b)) target)
        \<lparr>v_boundary := replicate width False\<rparr>"
proof -
  let ?row = "no_bonus (num_draft_tokens call ! b) (standard_sample d call ! b)"
  obtain std n where db: "drop_bonus in_tk (num_draft_tokens call) (standard_sample d call) = (std, n)"
    by (cases "drop_bonus in_tk (num_draft_tokens call) (standard_sample d call)")
  have any: "any1 in_tk" using assms(3,4) by (auto simp: any1_def list_ex_length)
  have len: "length std = length in_tk" "std ! b = ?row"
    using std_okD(1) [OF assms(1)] assms(2-4) db drop_bonus_row [of b "standard_sample d call" in_tk "num_draft_tokens call"]
      length_drop_bonus [of in_tk "num_draft_tokens call" "standard_sample d call"]
    by simp_all
  have w: "length ?row = width"
    using std_okD(2) [OF assms(1)] assms(2,3,5) by (simp add: no_bonus_def)
  show ?thesis
    using assms(2-4) any len w map2_or_False [of "map (\<lambda>t. 0 \<le> t) ?row"]
    by (auto simp: assms(6) takeover_phase_def db row_of_def takeover_view_def init_bufs_def row_and_def
        emitted_matrix_def comp_def Let_def)
qed

lemma trim_phase_view:
  assumes "rows_ok n bf" "b < n" "length in_tk = n" "in_tk ! b" "exts ! b = Some ext"
    and "\<And>c. c < n \<Longrightarrow> c \<noteq> b \<Longrightarrow> exts ! c \<noteq> Some ext"
  shows "(row_of b (fst (trim_phase stats cfg sid bids width exts in_tk bf st)),
          req_state ext (snd (trim_phase stats cfg sid bids width exts in_tk bf st)))
       = trim_view cfg sid width (req_state ext st)
           ((row_of b bf)\<lparr>v_boundary := map2 (\<lambda>e t. e \<and> t \<in> set bids) (b_takeover bf ! b) (b_output bf ! b)\<rparr>)"
proof -
  let ?bf1 = "bf\<lparr>b_boundary := map2 (map2 (\<lambda>e t. e \<and> t \<in> set bids)) (b_takeover bf) (b_output bf)\<rparr>"
  have ok: "rows_ok n ?bf1" using assms(1) by (simp add: rows_ok_def)
  have view: "row_of b ?bf1 = (row_of b bf)
      \<lparr>v_boundary := map2 (\<lambda>e t. e \<and> t \<in> set bids) (b_takeover bf ! b) (b_output bf ! b)\<rparr>"
    using assms(1,2) by (simp add: row_of_def rows_ok_def)
  show ?thesis
  proof (cases "any2 (b_takeover bf)")
    case True
    have "b \<in> set (true_columns in_tk)" using assms(2-4) by (simp add: set_true_columns)
    then show ?thesis
      using trim_fold_view [OF ok assms(2) sorted_true_columns(2) _ assms(5),
          where stats = stats and cfg = cfg and sid = sid and width = width and st = st] True assms(3,6) view
      by (auto simp: trim_phase_def Let_def set_true_columns)
  next
    case False
    then have "true_columns (b_takeover bf ! b) = []"
      using assms(1,2) by (auto simp: any2_def list_ex_length rows_ok_def true_columns_def filter_empty_conv)
    then show ?thesis using False view
      by (simp add: trim_phase_def trim_view_def req_state_def row_of_def Let_def)
  qed
qed

text \<open>The budget bookkeeping of one request.\<close>

definition budget_view ::
  "relay_cfg \<Rightarrow> bool \<Rightarrow> bool \<Rightarrow> bool \<Rightarrow> bool \<Rightarrow> int \<Rightarrow> int \<Rightarrow> int option \<times> int option \<times> int option
     \<Rightarrow> int option \<times> int option \<times> int option" where
  "budget_view cfg nt tb tk term e h rs =
     (case rs of (tok, par, cnt) \<Rightarrow>
        if nt then
          (let left = paragraphs_per_takeover cfg - (if tb then 1 else 0) in
           if left \<le> 0 then (None, None, cnt) else (Some (max_takeover_tokens cfg), Some left, cnt))
        else if tk \<and> e > 0 then
          (if term \<or> opt_default 0 par - h \<le> 0 \<or> opt_default 0 tok - e \<le> 0 then (None, None, cnt)
           else (Some (opt_default 0 tok - e), Some (opt_default 0 par - h), cnt))
        else (tok, par, cnt))"

lemma update_budget_view:
  "req_state ext (update_budget cfg nt tb tk term e h ext st) = budget_view cfg nt tb tk term e h (req_state ext st)"
  "ext' \<noteq> ext \<Longrightarrow> req_state ext' (update_budget cfg nt tb tk term e h ext st) = req_state ext' st"
  by (simp_all add: update_budget_def budget_view_def req_state_def pop_key_def Let_def)

lemma budget_phase_view:
  assumes "b < length exts" "exts ! b = Some ext"
    and "\<And>c. c < length exts \<Longrightarrow> c \<noteq> b \<Longrightarrow> exts ! c \<noteq> Some ext"
  shows "req_state ext (budget_phase cfg exts nt tb tk bf st)
       = budget_view cfg (nt ! b) (tb ! b) (tk ! b) (b_terminated bf ! b)
           (count1 (b_takeover bf ! b)) (count1 (b_boundary bf ! b)) (req_state ext st)"
proof -
  let ?f = "\<lambda>b st. case exts ! b of
              None \<Rightarrow> st
            | Some ext \<Rightarrow> update_budget cfg (nt ! b) (tb ! b) (tk ! b)
                (b_terminated bf ! b) (count1 (b_takeover bf ! b)) (count1 (b_boundary bf ! b)) ext st"
  have other: "req_state ext (fold ?f cs s) = req_state ext s"
    if "\<forall>c \<in> set cs. c < length exts \<and> c \<noteq> b" for cs s
    using that assms(3) by (induction cs arbitrary: s) (auto split: option.splits intro!: update_budget_view(2))
  have split: "[0..<length exts] = [0..<b] @ b # [Suc b..<length exts]"
    using assms(1) by (metis less_imp_add_positive upt_add_eq_append upt_conv_Cons zero_le)
  show ?thesis
    unfolding budget_phase_def split using assms(1,2)
    by (simp add: other update_budget_view(1))
qed

lemma call_stats_state [simp]:
  "req_state ext (call_stats stats call valid in_tk det es em bf st) = req_state ext st"
  by (simp add: call_stats_def Let_def)

text \<open>The phases of a decoding step, in order; statistics do not touch the request state.\<close>

lemma detect_stats_state [simp]: "req_state ext (detect_stats stats cfg det st) = req_state ext st"
  by (simp add: detect_stats_def Let_def)

lemma relay_step_phases:
  assumes "relay_step stats cfg ids d call k probs exts st = (bf, th, st')"
    and "request_layout (num_draft_tokens call) (length (target_logits call)) (max_spec_len call)
           (cu_num_draft_tokens call) = (r, p, v)"
    and "in_tk = in_takeover cfg st exts" "det = detect cfg ids d call k probs r p v in_tk"
    and "sid = (if max_takeovers cfg > 0 then stop_id ids else None)" "width = max_spec_len call + 1"
    and "n = length (num_draft_tokens call)"
  obtains bf0 st1 bf2 st2 es bf3 st3 st4 where
    "fst (takeover_phase stats d call in_tk (init_bufs n width) st) = bf0"
    "\<forall>ext. req_state ext st1 = req_state ext st"
    "stop_phase stats (stop_id ids) r p (draft_token_ids call) width (d_emit_stop det)
       (emit_phase d call r p det bf0) st1 = (bf2, st2, es)"
    "trigger_only_phase stats cfg sid width exts r p (d_emit_trigger det) bf2 st2 = (bf3, st3)"
    "trim_phase stats cfg sid (boundary_ids ids) width exts in_tk bf3 st3 = (bf, st4)"
    "\<forall>ext. req_state ext st' = req_state ext (budget_phase cfg exts (trigger_rows n r (d_emit_trigger det))
       (trigger_rows n r (trigger_boundary (boundary_ids ids) (teacher_argmax d call) (d_emit_trigger det)))
       in_tk bf st4)"
proof -
  obtain bf0 st0 where ph0: "takeover_phase stats d call in_tk (init_bufs n width) st = (bf0, st0)"
    by fastforce
  have st0: "req_state ext (detect_stats stats cfg det st0) = req_state ext st" for ext
    using takeover_phase_state [of ext stats d call in_tk "init_bufs n width" st] ph0 by simp
  obtain bf2 st2 es where ph2: "stop_phase stats (stop_id ids) r p (draft_token_ids call) width (d_emit_stop det)
       (emit_phase d call r p det bf0) (detect_stats stats cfg det st0) = (bf2, st2, es)" by (metis prod_cases3)
  obtain bf3 st3 where ph3: "trigger_only_phase stats cfg sid width exts r p (d_emit_trigger det) bf2 st2 = (bf3, st3)"
    by fastforce
  obtain bf4 st4 where ph4: "trim_phase stats cfg sid (boundary_ids ids) width exts in_tk bf3 st3 = (bf4, st4)"
    by fastforce
  have "relay_finish stats cfg ids d call k exts r p v in_tk det bf0 (detect_stats stats cfg det st0) = (bf, th, st')"
    using assms(1,2) ph0 unfolding relay_step_def relay_decode_phase_def assms(3,5-7) [symmetric] by (simp add: assms(4) Let_def)
  then have "bf4 = bf" "\<And>ext. req_state ext st' = req_state ext (budget_phase cfg exts (trigger_rows n r (d_emit_trigger det))
       (trigger_rows n r (trigger_boundary (boundary_ids ids) (teacher_argmax d call) (d_emit_trigger det)))
       in_tk bf4 st4)"
    using ph2 ph3 ph4 unfolding relay_finish_def Let_def assms(5-7) [symmetric] by auto
  with that [of bf0 "detect_stats stats cfg det st0" bf2 st2 es bf3 st3 st4] ph0 st0 ph2 ph3 ph4 show ?thesis by simp
qed

section \<open>Budgets through a step\<close>

text \<open>Only the last phase changes the token and paragraph budgets.\<close>

definition budgets :: "relay_state \<Rightarrow> (string \<rightharpoonup> int) \<times> (string \<rightharpoonup> int)" where
  "budgets st = (tokens_remaining st, paragraphs_remaining st)"

lemma finish_takeover_budgets_eq:
  "budgets (snd (finish_takeover stats cfg sid width b c ext bf st)) = budgets st"
  by (simp add: budgets_def)

lemma budgets_stats_add [simp]: "budgets (stats_add e k v st) = budgets st"
  by (simp add: budgets_def)

lemma trigger_only_budgets:
  "budgets (snd (trigger_only_phase stats cfg sid width exts req pos es bf st)) = budgets st"
proof -
  have "budgets (snd (fold (\<lambda>i (bf, st). case exts ! (req ! i) of
                   None \<Rightarrow> (bf, st)
                 | Some ext \<Rightarrow> finish_takeover stats cfg sid width (req ! i) (nat (pos ! i)) ext bf st) is s))
      = budgets (snd s)" for "is" s
  proof (induction "is" arbitrary: s)
    case (Cons i "is")
    then show ?case by (cases s) (auto simp: finish_takeover_budgets_eq split: option.splits)
  qed simp
  then show ?thesis by (simp add: trigger_only_phase_def)
qed

lemma trim_row_budgets: "budgets (snd (trim_row stats cfg sid width exts b s)) = budgets (snd s)"
  by (cases s) (auto simp: trim_row_def Let_def finish_takeover_budgets_eq split: option.splits)

lemma trim_phase_budgets: "budgets (snd (trim_phase stats cfg sid bids width exts in_tk bf st)) = budgets st"
proof -
  have "budgets (snd (fold (trim_row stats cfg sid width exts) bs s)) = budgets (snd s)" for bs s
    by (induction bs arbitrary: s) (auto simp: trim_row_budgets)
  then show ?thesis by (simp add: trim_phase_def Let_def)
qed

lemma budgets_of_req_state:
  "req_state ext st = req_state ext st' \<Longrightarrow> tokens_remaining st ext = tokens_remaining st' ext
     \<and> paragraphs_remaining st ext = paragraphs_remaining st' ext"
  by (simp add: req_state_def)

lemma phases_budgets:
  assumes "\<forall>ext. req_state ext st1 = req_state ext st"
    and "stop_phase stats sid0 r p drafts width es bf1 st1 = (bf2, st2, es')"
    and "trigger_only_phase stats cfg sid width exts r p et bf2 st2 = (bf3, st3)"
    and "trim_phase stats cfg sid bids width exts in_tk bf3 st3 = (bf, st4)"
  shows "\<forall>ext. tokens_remaining st4 ext = tokens_remaining st ext \<and> paragraphs_remaining st4 ext = paragraphs_remaining st ext"
proof -
  have "budgets st4 = budgets st2"
    using trim_phase_budgets [of stats cfg sid bids width exts in_tk bf3 st3]
      trigger_only_budgets [of stats cfg sid width exts r p et bf2 st2] assms(3,4) by simp
  moreover have "req_state ext st2 = req_state ext st" for ext
    using stop_phase_state [of ext stats sid0 r p drafts width es bf1 st1]
    unfolding assms(2) using assms(1) by simp
  ultimately show ?thesis
    using budgets_of_req_state [of _ st2 st] by (simp add: budgets_def)
qed

lemma trigger_rows_quiet:
  assumes "quiet req b sel" "b < n"
  shows "\<not> trigger_rows n req sel ! b"
proof -
  have "fold (\<lambda>i rows. rows[req ! i := True]) is rows ! b = rows ! b"
    if "\<forall>i \<in> set is. req ! i \<noteq> b" for "is" and rows :: "bool list"
    using that by (induction "is" arbitrary: rows) auto
  then show ?thesis using quiet_columns [OF assms(1)] assms(2) by (simp add: trigger_rows_def)
qed

text \<open>The flat request index of every token is a row of the batch.\<close>

lemma layout_req_less:
  assumes "layout_ok nd nt msl cu" "request_layout nd nt msl cu = (r, p, v)" "i < nt"
  shows "r ! i < length nd"
  using layout_slot_cases [OF assms(1,3)] layout_nth(1) [OF assms(1,2)] by metis

text \<open>
  One whole decoding step on a request in takeover, whatever else is in the batch: vLLM's row without
  the bonus token, cut by \<open>trim_view\<close>, and the budget updated from what was kept.
\<close>

lemma relay_step_takeover_row:
  assumes call: "call_ok call" "std_ok d call" "length exts = length (num_draft_tokens call)"
    and req: "b < length exts" "exts ! b = Some ext"
      "\<And>c. c < length exts \<Longrightarrow> c \<noteq> b \<Longrightarrow> exts ! c \<noteq> Some ext"
    and tk: "takeover_enabled cfg" "tokens_remaining st ext = Some cap" "0 < cap"
    and step: "relay_step stats cfg ids d call k probs exts st = (bf, th, st')"
    and sid: "sid = (if max_takeovers cfg > 0 then stop_id ids else None)"
    and row: "row = no_bonus (num_draft_tokens call ! b) (standard_sample d call ! b)"
    and width: "width = max_spec_len call + 1"
  obtains target rs nt tb where
    "trim_view cfg sid width (req_state ext st) (takeover_view (boundary_ids ids) width row target) = (row_of b bf, rs)"
    "\<not> nt" "req_state ext st' = budget_view cfg nt tb True (b_terminated bf ! b)
            (count1 (b_takeover bf ! b)) (count1 (b_boundary bf ! b)) rs"
proof -
  let ?n = "length (num_draft_tokens call)"
  let ?in_tk = "in_takeover cfg st exts"
  obtain r p v where lay: "request_layout (num_draft_tokens call) (length (target_logits call)) (max_spec_len call)
      (cu_num_draft_tokens call) = (r, p, v)" by (metis prod_cases3)
  let ?det = "detect cfg ids d call k probs r p v ?in_tk"
  obtain bf0 st1 bf2 st2 es bf3 st3 st4 where
    ph0: "fst (takeover_phase stats d call ?in_tk (init_bufs ?n width) st) = bf0"
    and st1: "\<forall>ext. req_state ext st1 = req_state ext st"
    and ph2: "stop_phase stats (stop_id ids) r p (draft_token_ids call) width (d_emit_stop ?det)
       (emit_phase d call r p ?det bf0) st1 = (bf2, st2, es)"
    and ph3: "trigger_only_phase stats cfg sid width exts r p (d_emit_trigger ?det) bf2 st2 = (bf3, st3)"
    and ph4: "trim_phase stats cfg sid (boundary_ids ids) width exts ?in_tk bf3 st3 = (bf, st4)"
    and bud: "\<forall>ext. req_state ext st' = req_state ext (budget_phase cfg exts (trigger_rows ?n r (d_emit_trigger ?det))
       (trigger_rows ?n r (trigger_boundary (boundary_ids ids) (teacher_argmax d call) (d_emit_trigger ?det)))
       ?in_tk bf st4)"
    by (rule relay_step_phases [OF step lay refl refl sid width refl])
  have in_tk: "length ?in_tk = ?n" "?in_tk ! b"
    using call(3) req tk by (simp_all add: in_takeover_def)
  have dl: "length (draft_token_ids call) = length (target_logits call)"
    and lok: "layout_ok (num_draft_tokens call) (length (target_logits call)) (max_spec_len call) (cu_num_draft_tokens call)"
    using call(1) by (simp_all add: call_ok_def)
  note q = detect_quiet [OF dl in_tk(2) refl, where cfg = cfg and ids = ids and d = d and k = k and probs = probs and req = r and pos = p and valid = v]
  have bn: "b < ?n" "b < length ?in_tk" using req(1) call(3) in_tk(1) by simp_all
  have uniq: "\<And>c. c < ?n \<Longrightarrow> c \<noteq> b \<Longrightarrow> exts ! c \<noteq> Some ext" using req(3) call(3) by simp
  have ok0: "rows_ok ?n bf0"
    using takeover_phase_rows_ok [OF call(2) in_tk(1), of "init_bufs ?n width" stats st] ph0
    by (simp add: rows_ok_def init_bufs_def)
  obtain target where view0: "row_of b bf0 = (takeover_view [] width row target)\<lparr>v_boundary := replicate width False\<rparr>"
    using takeover_phase_row [OF call(2) in_tk(1) bn(2) in_tk(2) width ph0 [symmetric]] row by blast
  have ok2: "rows_ok ?n bf2" "row_of b bf2 = row_of b bf0" "req_state ext st2 = req_state ext st"
    using stop_phase_rows_ok [OF emit_phase_rows_ok [OF ok0], of stats "stop_id ids" r p "draft_token_ids call" width "d_emit_stop ?det" d call r p ?det st1]
      stop_phase_quiet [OF q(3), of stats "stop_id ids" p "draft_token_ids call" width "emit_phase d call r p ?det bf0" st1]
      emit_phase_quiet [OF q(1,2)] stop_phase_state [of ext stats "stop_id ids" r p "draft_token_ids call" width "d_emit_stop ?det" "emit_phase d call r p ?det bf0" st1]
      ph2 st1 by simp_all
  have rlen: "\<And>i. i < length (d_emit_trigger ?det) \<Longrightarrow> r ! i < ?n"
    using layout_req_less [OF lok lay] detect_lengths(2) [OF dl] by simp
  have ok3: "rows_ok ?n bf3" "row_of b bf3 = row_of b bf0" "req_state ext st3 = req_state ext st"
    using trigger_only_rows_ok [OF ok2(1), of stats cfg sid width exts r p "d_emit_trigger ?det" st2]
      trigger_only_other [OF ok2(1) bn(1) q(2) uniq rlen, where stats = stats and cfg = cfg and sid = sid and width = width and pos = p and st = st2]
      ok2 ph3 by simp_all
  have "b_takeover bf3 ! b = map (\<lambda>t. 0 \<le> t) row" "b_output bf3 ! b = row"
    using ok3(2) view0 by (simp_all add: row_of_def takeover_view_def Let_def)
  then have "(row_of b bf3)\<lparr>v_boundary := map2 (\<lambda>e t. e \<and> t \<in> set (boundary_ids ids)) (b_takeover bf3 ! b) (b_output bf3 ! b)\<rparr>
      = takeover_view (boundary_ids ids) width row target"
    using ok3(2) view0 by (auto simp: takeover_view_def Let_def map2_map_map [where f = "\<lambda>t. 0 \<le> t" and g = id, simplified])
  then have trim: "trim_view cfg sid width (req_state ext st) (takeover_view (boundary_ids ids) width row target)
      = (row_of b bf, req_state ext st4)"
    using trim_phase_view [OF ok3(1) bn(1) in_tk(1,2) req(2) uniq, where stats = stats and cfg = cfg and sid = sid
        and width = width and st = st3 and bids = "boundary_ids ids"] ph4 ok3(3) by simp
  have "\<not> trigger_rows ?n r (d_emit_trigger ?det) ! b"
    by (rule trigger_rows_quiet [OF q(2) bn(1)])
  then show ?thesis
    using that [OF trim] bud [rule_format, of ext] budget_phase_view [OF req(1,2,3), where cfg = cfg and tk = ?in_tk and bf = bf and st = st4]
      in_tk(2) by simp
qed

section \<open>The abstract specification of a takeover step\<close>

text \<open>
  The tokens of a row, and the prefix of a takeover row that is kept: it ends with the token that
  spends the last of the token budget or of the paragraph budget.
\<close>

definition row_tokens :: "int list \<Rightarrow> int list" where
  "row_tokens row = filter (\<lambda>t. 0 \<le> t) row"

fun takeover_prefix :: "int list \<Rightarrow> int \<Rightarrow> int \<Rightarrow> int list \<Rightarrow> int list \<times> bool" where
  "takeover_prefix bids cap paras [] = ([], False)"
| "takeover_prefix bids cap paras (t # ts) =
     (let paras' = (if t \<in> set bids then paras - 1 else paras) in
      if cap \<le> 1 \<or> paras' \<le> 0 then ([t], True)
      else (let (kept, ended) = takeover_prefix bids (cap - 1) paras' ts in (t # kept, ended)))"

text \<open>
  What one step does to a request in takeover with budgets \<open>cap\<close> and \<open>paras\<close>, when vLLM's sampler
  offers the tokens \<open>toks\<close>: the tokens it emits, the number of teacher tokens among them, whether the
  takeover ends, and the request state afterwards.
\<close>

definition takeover_spec ::
  "relay_cfg \<Rightarrow> int option \<Rightarrow> int list \<Rightarrow> int \<Rightarrow> int \<Rightarrow> int option \<Rightarrow> int list
     \<Rightarrow> int list \<times> int \<times> bool \<times> (int option \<times> int option \<times> int option)" where
  "takeover_spec cfg sid bids cap paras cnt toks =
     (let (kept, ended) = takeover_prefix bids cap paras toks;
          count = opt_default 0 cnt + 1;
          last_one = (ended \<and> count \<ge> max_takeovers cfg)
      in (kept @ (if last_one then (case sid of None \<Rightarrow> [] | Some s \<Rightarrow> [s]) else []),
          int (length kept), ended,
          if ended then (None, None, if last_one then None else Some count)
          else (Some (cap - int (length kept)),
                Some (paras - int (length (filter (\<lambda>t. t \<in> set bids) kept))), cnt)))"

lemma takeover_prefix_length:
  "takeover_prefix bids cap paras toks = (kept, ended) \<Longrightarrow> 0 < cap \<Longrightarrow>
     int (length kept) \<le> cap \<and> (\<not> ended \<longrightarrow> int (length kept) < cap)
     \<and> (\<exists>rest. toks = kept @ rest) \<and> (\<not> ended \<longrightarrow> kept = toks)"
proof (induction toks arbitrary: cap paras kept ended)
  case (Cons t ts)
  obtain kept' ended' where rec: "takeover_prefix bids (cap - 1) (if t \<in> set bids then paras - 1 else paras) ts = (kept', ended')"
    by fastforce
  let ?paras = "if t \<in> set bids then paras - 1 else paras"
  show ?case
  proof (cases "cap \<le> 1 \<or> ?paras \<le> 0")
    case True
    then have "kept = [t]" "ended" using Cons.prems(1) by (simp_all add: Let_def)
    with Cons.prems(2) show ?thesis by simp
  next
    case False
    then have "kept = t # kept'" "ended = ended'" using Cons.prems(1) rec by (simp_all add: Let_def)
    with False Cons.IH [OF rec] show ?thesis by (cases ended') auto
  qed
qed simp

text \<open>The search over columns finds the end of that prefix.\<close>

lemma keep_until_prefix:
  assumes "\<And>c. c \<in> set cols \<Longrightarrow> hits ! c \<longleftrightarrow> row ! c \<in> set bids"
  shows "case keep_until cap paras hits idx seen cols of
           None \<Rightarrow> takeover_prefix bids (cap - idx + 1) (paras - seen) (map ((!) row) cols) = (map ((!) row) cols, False)
         | Some c \<Rightarrow> (\<exists>k < length cols. c = cols ! k
             \<and> takeover_prefix bids (cap - idx + 1) (paras - seen) (map ((!) row) cols)
                 = (map ((!) row) (take (Suc k) cols), True))"
  using assms
proof (induction cols arbitrary: idx seen)
  case (Cons c cs)
  let ?seen = "if hits ! c then seen + 1 else seen"
  have hit: "hits ! c \<longleftrightarrow> row ! c \<in> set bids" using Cons.prems by simp
  show ?case
  proof (cases "idx \<ge> cap \<or> paras - ?seen \<le> 0")
    case True
    with hit show ?thesis by (auto simp: Let_def intro!: exI [of _ 0])
  next
    case False
    have eq: "cap - (idx + 1) + 1 = cap - idx + 1 - 1"
      "paras - ?seen = (if row ! c \<in> set bids then paras - seen - 1 else paras - seen)" using hit by auto
    have IH: "case keep_until cap paras hits (idx + 1) ?seen cs of
           None \<Rightarrow> takeover_prefix bids (cap - idx + 1 - 1) (if row ! c \<in> set bids then paras - seen - 1 else paras - seen)
                     (map ((!) row) cs) = (map ((!) row) cs, False)
         | Some c' \<Rightarrow> (\<exists>k < length cs. c' = cs ! k
             \<and> takeover_prefix bids (cap - idx + 1 - 1) (if row ! c \<in> set bids then paras - seen - 1 else paras - seen)
                 (map ((!) row) cs) = (map ((!) row) (take (Suc k) cs), True))"
      using Cons.IH [of "idx + 1" ?seen] Cons.prems unfolding eq by simp
    show ?thesis
      using False IH hit
      by (cases "keep_until cap paras hits (idx + 1) ?seen cs")
         (auto simp: Let_def split: if_splits intro!: exI [of _ "Suc _"])
  qed
qed simp

section \<open>Trimming implements the specification\<close>

lemma row_tokens_columns: "row_tokens row = map ((!) row) (true_columns (map (\<lambda>t. 0 \<le> t) row))"
proof -
  have "row_tokens row = filter (\<lambda>t. 0 \<le> t) (map ((!) row) [0..<length row])"
    by (simp add: row_tokens_def map_nth)
  also have "\<dots> = map ((!) row) (filter (\<lambda>c. 0 \<le> row ! c) [0..<length row])"
    by (simp add: filter_map comp_def)
  also have "filter (\<lambda>c. 0 \<le> row ! c) [0..<length row] = true_columns (map (\<lambda>t. 0 \<le> t) row)"
    by (auto simp: true_columns_def intro!: filter_cong)
  finally show ?thesis .
qed

text \<open>Writing one token after the last token of a row appends it.\<close>

lemma row_tokens_write_after:
  assumes "i < length row" "\<And>j. i \<le> j \<Longrightarrow> j < length row \<Longrightarrow> row ! j < 0" "0 \<le> s"
  shows "row_tokens (row[i := s]) = row_tokens row @ [s]"
proof -
  have none: "row_tokens (drop k row) = []" if "i \<le> k" for k
  proof -
    have "t < 0" if t: "t \<in> set (drop k row)" for t
    proof -
      from t obtain m where "m < length row - k" "t = row ! (k + m)" by (auto simp: in_set_conv_nth)
      with assms(2) [of "k + m"] \<open>i \<le> k\<close> show ?thesis by simp
    qed
    then show ?thesis by (fastforce simp: row_tokens_def filter_empty_conv)
  qed
  have "row_tokens (row[i := s]) = row_tokens (take i row) @ s # row_tokens (drop (Suc i) row)"
    using assms(1,3) by (simp add: upd_conv_take_nth_drop row_tokens_def)
  moreover have "row_tokens row = row_tokens (take i row) @ row_tokens (drop i row)"
    by (metis append_take_drop_id filter_append row_tokens_def)
  ultimately show ?thesis using none by simp
qed

text \<open>A takeover row cut after its \<open>k\<close>-th token.\<close>

lemma cut_row:
  assumes "k < length (true_columns (map (\<lambda>t. 0 \<le> t) row))"
  defines "cols \<equiv> true_columns (map (\<lambda>t. 0 \<le> t) row)"
  defines "crow \<equiv> set_columns (filter (\<lambda>c. c > cols ! k) cols) PLACEHOLDER_TOKEN_ID row"
  shows "row_tokens crow = map ((!) row) (take (Suc k) cols)"
    "\<And>j. cols ! k < j \<Longrightarrow> j < length row \<Longrightarrow> crow ! j < 0"
    "map (\<lambda>t. 0 \<le> t) crow = set_columns (filter (\<lambda>c. c > cols ! k) cols) False (map (\<lambda>t. 0 \<le> t) row)"
proof -
  show e: "map (\<lambda>t. 0 \<le> t) crow = set_columns (filter (\<lambda>c. c > cols ! k) cols) False (map (\<lambda>t. 0 \<le> t) row)"
    by (auto simp: crow_def set_columns_nth intro!: nth_equalityI)
  show "crow ! j < 0" if "cols ! k < j" "j < length row" for j
  proof (cases "0 \<le> row ! j")
    case True
    then have "j \<in> set (filter (\<lambda>c. c > cols ! k) cols)" using that by (simp add: cols_def set_true_columns)
    then show ?thesis using that by (simp add: crow_def set_columns_nth)
  qed (use that in \<open>simp add: crow_def set_columns_nth\<close>)
  have "row_tokens crow = map ((!) crow) (take (Suc k) cols)"
    using true_columns_trimmed [OF assms(1)] unfolding row_tokens_columns [of crow] e cols_def by simp
  also have "\<dots> = map ((!) row) (take (Suc k) cols)"
  proof (rule map_cong [OF refl])
    fix c assume c: "c \<in> set (take (Suc k) cols)"
    then have "c \<in> set cols" by (rule in_set_takeD)
    moreover have "c \<le> cols ! k"
      using c assms(1) sorted_true_columns(1) [of "map (\<lambda>t. 0 \<le> t) row"] unfolding cols_def
      by (auto simp: in_set_conv_nth sorted_nth_mono)
    ultimately show "crow ! c = row ! c" by (auto simp: crow_def set_columns_nth cols_def set_true_columns)
  qed
  finally show "row_tokens crow = map ((!) row) (take (Suc k) cols)" .
qed

lemma list_update_same: "xs ! i = v \<Longrightarrow> xs[i := v] = xs"
  by auto

text \<open>Ending a takeover after column \<open>c\<close>, with a free slot behind it.\<close>

lemma finish_view_after:
  assumes "finish_view cfg sid width c cnt v = (v', cnt')" "c + 1 < width" "length (v_output v) = width"
    and "\<And>j. c < j \<Longrightarrow> j < width \<Longrightarrow> v_output v ! j < 0"
    and "v_takeover v = map (\<lambda>t. 0 \<le> t) (v_output v)" "v_teacher v = v_takeover v" "\<not> v_boundary v ! (c + 1)"
    and "\<And>s. sid = Some s \<Longrightarrow> 0 \<le> s"
  shows "row_tokens (v_output v') = row_tokens (v_output v)
       @ (if opt_default 0 cnt + 1 \<ge> max_takeovers cfg then (case sid of None \<Rightarrow> [] | Some s \<Rightarrow> [s]) else [])"
    and "v_takeover v' = v_takeover v" "v_teacher v' = v_teacher v" "v_boundary v' = v_boundary v"
    and "v_terminated v' = v_terminated v"
    and "cnt' = (if opt_default 0 cnt + 1 \<ge> max_takeovers cfg then None else Some (opt_default 0 cnt + 1))"
proof -
  have no: "\<not> v_takeover v ! (c + 1)" using assms(2,3,5) assms(4) [of "c + 1"] by simp
  have tok: "row_tokens ((v_output v)[c + 1 := s]) = row_tokens (v_output v) @ [s]" if "sid = Some s" for s
    using that assms(2-4,8) by (intro row_tokens_write_after) auto
  show "row_tokens (v_output v') = row_tokens (v_output v)
       @ (if opt_default 0 cnt + 1 \<ge> max_takeovers cfg then (case sid of None \<Rightarrow> [] | Some s \<Rightarrow> [s]) else [])"
    and "v_takeover v' = v_takeover v" "v_teacher v' = v_teacher v" "v_boundary v' = v_boundary v"
    and "v_terminated v' = v_terminated v"
    and "cnt' = (if opt_default 0 cnt + 1 \<ge> max_takeovers cfg then None else Some (opt_default 0 cnt + 1))"
    using assms(1,2,6,7) no tok unfolding finish_view_def Let_def
    by (auto simp: list_update_same split: if_splits option.splits)
qed

text \<open>\<open>trim_view\<close> computes \<open>takeover_spec\<close>; the teacher marks of the row are the kept takeover tokens.\<close>

lemma trim_view_spec:
  assumes trim: "trim_view cfg sid width (Some cap, Some paras, cnt) (takeover_view bids width row target) = (v', rs')"
    and w: "length row = width" "\<And>c. c < width \<Longrightarrow> 0 \<le> row ! c \<Longrightarrow> c + 1 < width"
    and pos: "0 < cap" "0 < paras" "max_takeovers cfg > 0" "\<And>s. sid = Some s \<Longrightarrow> 0 \<le> s"
    and spec: "takeover_prefix bids cap paras (row_tokens row) = (kept, ended)"
  shows "row_tokens (v_output v') = kept @ (if ended \<and> opt_default 0 cnt + 1 \<ge> max_takeovers cfg
           then (case sid of None \<Rightarrow> [] | Some s \<Rightarrow> [s]) else [])
    \<and> count1 (v_takeover v') = int (length kept)
    \<and> count1 (v_boundary v') = int (length (filter (\<lambda>t. t \<in> set bids) kept))
    \<and> v_teacher v' = v_takeover v' \<and> v_terminated v' = ended
    \<and> rs' = (Some cap, Some paras, if \<not> ended then cnt
              else if opt_default 0 cnt + 1 \<ge> max_takeovers cfg then None else Some (opt_default 0 cnt + 1))"
proof -
  let ?e = "map (\<lambda>t. 0 \<le> t) row" and ?h = "map (\<lambda>t. 0 \<le> t \<and> t \<in> set bids) row"
  let ?cols = "true_columns ?e"
  have hits: "c \<in> set ?cols \<Longrightarrow> ?h ! c \<longleftrightarrow> row ! c \<in> set bids" for c by (auto simp: set_true_columns)
  have bnd: "count1 (map (\<lambda>t. 0 \<le> t \<and> t \<in> set bids) r) = int (length (filter (\<lambda>t. t \<in> set bids) (row_tokens r)))" for r
    by (simp add: count1_def row_tokens_def filter_map comp_def conj_commute)
  have cnt: "count1 (map (\<lambda>t. 0 \<le> t) r) = int (length (row_tokens r))" for r
    by (simp add: count1_def row_tokens_def filter_map comp_def)
  note ku = keep_until_prefix [where cols = ?cols and hits = ?h and row = row and bids = bids and cap = cap
      and paras = paras and idx = 1 and seen = 0, OF hits, folded row_tokens_columns]
  show ?thesis
  proof (cases "keep_until cap paras ?h 1 0 ?cols")
    case None
    then have "kept = row_tokens row" "\<not> ended" using ku spec by simp_all
    moreover have "v' = takeover_view bids width row target" "rs' = (Some cap, Some paras, cnt)"
      using trim None pos by (auto simp: trim_view_def takeover_view_def Let_def split: if_splits)
    ultimately show ?thesis by (simp add: takeover_view_def Let_def bnd cnt)
  next
    case (Some c)
    then obtain k where k: "k < length ?cols" "c = ?cols ! k" "kept = map ((!) row) (take (Suc k) ?cols)" "ended"
      using ku spec by auto
    let ?drop = "filter (\<lambda>x. x > c) ?cols"
    let ?crow = "set_columns ?drop PLACEHOLDER_TOKEN_ID row"
    note crow = cut_row [OF k(1), folded k(2)]
    have hb: "set_columns ?drop False ?h = map (\<lambda>t. 0 \<le> t \<and> t \<in> set bids) ?crow"
      by (auto simp: set_columns_nth intro!: nth_equalityI)
    let ?v1 = "takeover_view bids width ?crow (set_columns ?drop False target)\<lparr>v_terminated := True\<rparr>"
    have c: "c < width" "0 \<le> row ! c" "c + 1 < width"
      using k(1,2) w nth_mem [OF k(1)] by (auto simp: set_true_columns)
    obtain v2 cnt' where fin: "finish_view cfg sid width c cnt ?v1 = (v2, cnt')" by fastforce
    have "v' = v2" "rs' = (Some cap, Some paras, cnt')"
      using trim Some k(1) pos(1-3) fin crow(3) hb
      by (auto simp: trim_view_def takeover_view_def Let_def split: if_splits)
    moreover note finish_view_after [OF fin c(3) _ _ _ _ _ pos(4)]
    moreover have "\<not> 0 \<le> ?crow ! Suc c" using crow(2) [of "Suc c"] c w(1) by simp
    ultimately show ?thesis
      using crow(1,2) c w k(3,4) by (simp add: takeover_view_def Let_def bnd cnt)
  qed
qed

lemma takeover_prefix_ended:
  assumes "takeover_prefix bids cap paras toks = (kept, ended)" "0 < paras"
  shows "ended \<Longrightarrow> kept \<noteq> []"
    "\<not> ended \<Longrightarrow> int (length (filter (\<lambda>t. t \<in> set bids) kept)) < paras"
proof -
  have "(ended \<longrightarrow> kept \<noteq> []) \<and> (\<not> ended \<longrightarrow> int (length (filter (\<lambda>t. t \<in> set bids) kept)) < paras)"
    using assms
  proof (induction toks arbitrary: cap paras kept ended)
    case (Cons t ts)
    let ?paras = "if t \<in> set bids then paras - 1 else paras"
    obtain kept' ended' where rec: "takeover_prefix bids (cap - 1) ?paras ts = (kept', ended')"
      by fastforce
    show ?case
    proof (cases "cap \<le> 1 \<or> ?paras \<le> 0")
      case True
      then show ?thesis using Cons.prems(1) by (auto simp: Let_def)
    next
      case False
      then have "kept = t # kept'" "ended = ended'" using Cons.prems(1) rec by (simp_all add: Let_def)
      moreover have "\<not> ended' \<longrightarrow> int (length (filter (\<lambda>t. t \<in> set bids) kept')) < ?paras"
        using False Cons.IH [OF rec] by auto
      ultimately show ?thesis by (auto split: if_splits)
    qed
  qed simp
  then show "ended \<Longrightarrow> kept \<noteq> []"
    "\<not> ended \<Longrightarrow> int (length (filter (\<lambda>t. t \<in> set bids) kept)) < paras" by auto
qed

lemma no_bonus_free_slot:
  assumes "call_ok call" "std_ok d call" "b < length (num_draft_tokens call)" "c < max_spec_len call + 1"
    and "0 \<le> no_bonus (num_draft_tokens call ! b) (standard_sample d call ! b) ! c"
  shows "c + 1 < max_spec_len call + 1"
proof -
  let ?n = "num_draft_tokens call ! b"
  have n: "?n \<le> max_spec_len call" using assms(1,3) by (auto simp: call_ok_def layout_ok_def list_all_length)
  have "\<not> ?n < c"
    using assms(4,5) std_okD(2,3) [OF assms(2,3)] by (auto simp: no_bonus_def split: if_splits)
  moreover have "c \<noteq> ?n"
    using assms(4,5) std_okD(2) [OF assms(2,3)] by (auto simp: no_bonus_def split: if_splits)
  ultimately show ?thesis using n by simp
qed

lemma takeover_step_spec:
  assumes "call_ok call" "std_ok d call" "length exts = length (num_draft_tokens call)"
    and "b < length exts" "exts ! b = Some ext"
    and "\<And>c. c < length exts \<Longrightarrow> c \<noteq> b \<Longrightarrow> exts ! c \<noteq> Some ext"
    and "takeover_enabled cfg" "0 < max_takeovers cfg" "\<And>s. stop_id ids = Some s \<Longrightarrow> 0 \<le> s"
    and "tokens_remaining st ext = Some cap" "0 < cap"
    and "paragraphs_remaining st ext = Some paras" "0 < paras"
    and "relay_step stats cfg ids d call k probs exts st = (bf, th, st')"
  shows "takeover_spec cfg (stop_id ids) (boundary_ids ids) cap paras (completed_takeovers st ext)
       (row_tokens (no_bonus (num_draft_tokens call ! b) (standard_sample d call ! b)))
     = (row_tokens (b_output bf ! b), count1 (b_takeover bf ! b), b_terminated bf ! b, req_state ext st')
    \<and> b_teacher bf ! b = b_takeover bf ! b"
proof -
  let ?row = "no_bonus (num_draft_tokens call ! b) (standard_sample d call ! b)"
  let ?width = "max_spec_len call + 1"
  obtain kept ended where spec: "takeover_prefix (boundary_ids ids) cap paras (row_tokens ?row) = (kept, ended)"
    by fastforce
  have sid: "stop_id ids = (if max_takeovers cfg > 0 then stop_id ids else None)" using assms(8) by simp
  obtain target rs nt tb where
    trim: "trim_view cfg (stop_id ids) ?width (req_state ext st) (takeover_view (boundary_ids ids) ?width ?row target) = (row_of b bf, rs)"
    and bud: "\<not> nt" "req_state ext st' = budget_view cfg nt tb True (b_terminated bf ! b)
            (count1 (b_takeover bf ! b)) (count1 (b_boundary bf ! b)) rs"
    by (rule relay_step_takeover_row [OF assms(1-7,10,11,14) sid refl refl])
  have rs: "req_state ext st = (Some cap, Some paras, completed_takeovers st ext)"
    using assms(10,12) by (simp add: req_state_def)
  have b: "b < length (num_draft_tokens call)" using assms(3,4) by simp
  have w: "length ?row = ?width" using std_okD(2) [OF assms(2) b] by (simp add: no_bonus_def)
  note t = trim_view_spec [OF trim [unfolded rs] w no_bonus_free_slot [OF assms(1,2) b] assms(11,13,8,9) spec]
  note len = takeover_prefix_length [OF spec assms(11)] and ends = takeover_prefix_ended [OF spec assms(13)]
  show ?thesis
    using t bud len ends
    by (cases "kept = []"; cases ended) (auto simp: takeover_spec_def spec budget_view_def row_of_def Let_def)
qed

text \<open>
  [C1] Refinement: one call of the vectorised sampler, seen from a request whose teacher is writing,
  is \<open>takeover_spec\<close>. The request emits vLLM's tokens without the bonus token, cut right after the
  token that spends its token or paragraph budget, followed by the internal stop token exactly when
  this was its last allowed takeover; the budgets shrink by what was emitted, and the number of
  finished takeovers grows by one when the takeover ends. The other requests of the batch do not matter.
\<close>

theorem takeover_step_refines_spec:
  assumes "call_ok call" "std_ok d call" "length exts = length (num_draft_tokens call)"
    and "b < length exts" "exts ! b = Some ext"
    and "\<And>c. c < length exts \<Longrightarrow> c \<noteq> b \<Longrightarrow> exts ! c \<noteq> Some ext"
    and "takeover_enabled cfg" "0 < max_takeovers cfg" "\<And>s. stop_id ids = Some s \<Longrightarrow> 0 \<le> s"
    and "tokens_remaining st ext = Some cap" "0 < cap"
    and "paragraphs_remaining st ext = Some paras" "0 < paras"
    and "relay_step stats cfg ids d call k probs exts st = (bf, th, st')"
  shows "takeover_spec cfg (stop_id ids) (boundary_ids ids) cap paras (completed_takeovers st ext)
       (row_tokens (no_bonus (num_draft_tokens call ! b) (standard_sample d call ! b)))
     = (row_tokens (b_output bf ! b), count1 (b_takeover bf ! b), b_terminated bf ! b, req_state ext st')
    \<and> b_teacher bf ! b = b_takeover bf ! b"
  using assms by (rule takeover_step_spec)

theorem takeover_step_refines_spec_witness:
  "case relay_step True ex_cfg ex_ids ex_deps ex_call 1 ex_probs ex_exts ex_state of (bf, th, st') \<Rightarrow>
     row_tokens (b_output bf ! 1) = [2, 3, 0] \<and> count1 (b_takeover bf ! 1) = 2 \<and> b_terminated bf ! 1
     \<and> req_state ''b'' st' = (None, None, None)"
proof -
  obtain bf th st' where step: "relay_step True ex_cfg ex_ids ex_deps ex_call 1 ex_probs ex_exts ex_state = (bf, th, st')"
    by (metis prod_cases3)
  have "takeover_spec ex_cfg (stop_id ex_ids) (boundary_ids ex_ids) 5 1 (completed_takeovers ex_state ''b'')
       (row_tokens (no_bonus (num_draft_tokens ex_call ! 1) (standard_sample ex_deps ex_call ! 1)))
     = (row_tokens (b_output bf ! 1), count1 (b_takeover bf ! 1), b_terminated bf ! 1, req_state ''b'' st')
    \<and> b_teacher bf ! 1 = b_takeover bf ! 1"
    using ex_exts_distinct [of _ 1]
    by (intro takeover_step_refines_spec [OF ex_wf, of 1 "''b''", OF _ _ _ _ _ _ _ _ _ _ step])
       (auto simp: ex_exts_def ex_cfg_def ex_ids_def ex_state_def)
  moreover have "takeover_spec ex_cfg (stop_id ex_ids) (boundary_ids ex_ids) 5 1 (completed_takeovers ex_state ''b'')
       (row_tokens (no_bonus (num_draft_tokens ex_call ! 1) (standard_sample ex_deps ex_call ! 1)))
     = ([2, 3, 0], 2, True, None, None, None)"
    by (simp add: takeover_spec_def ex_cfg_def ex_ids_def ex_state_def ex_call_def ex_deps_def
        no_bonus_def row_tokens_def empty_relay_state_def)
  ultimately show ?thesis unfolding step by simp
qed

end
