(* ===== verification/Relay_Runs.thy ===== *)
theory Relay_Runs
  imports Relay_Takeover
begin

text \<open>
  Executions of the Relay-OPD sampler over many decoding steps, seen from one request: an inductive
  run with a ghost counter of the tokens the current takeover has emitted, and its invariant.
\<close>

lemma relay_step_budgets:
  assumes "relay_step stats cfg ids d call k probs exts st = (bf, th, st')"
  obtains nt tb st4 where
    "\<forall>ext. tokens_remaining st4 ext = tokens_remaining st ext \<and> paragraphs_remaining st4 ext = paragraphs_remaining st ext"
    "\<forall>ext. req_state ext st' = req_state ext (budget_phase cfg exts nt tb (in_takeover cfg st exts) bf st4)"
proof -
  obtain r p v where lay: "request_layout (num_draft_tokens call) (length (target_logits call)) (max_spec_len call)
      (cu_num_draft_tokens call) = (r, p, v)" by (metis prod_cases3)
  let ?det = "detect cfg ids d call k probs r p v (in_takeover cfg st exts)"
  let ?n = "length (num_draft_tokens call)" and ?sid = "if max_takeovers cfg > 0 then stop_id ids else None"
  obtain bf0 st1 bf2 st2 es bf3 st3 st4 where
    "fst (takeover_phase stats d call (in_takeover cfg st exts) (init_bufs ?n (max_spec_len call + 1)) st) = bf0"
    and ph: "\<forall>ext. req_state ext st1 = req_state ext st"
    "stop_phase stats (stop_id ids) r p (draft_token_ids call) (max_spec_len call + 1) (d_emit_stop ?det)
       (emit_phase d call r p ?det bf0) st1 = (bf2, st2, es)"
    "trigger_only_phase stats cfg ?sid (max_spec_len call + 1) exts r p (d_emit_trigger ?det) bf2 st2 = (bf3, st3)"
    "trim_phase stats cfg ?sid (boundary_ids ids) (max_spec_len call + 1) exts (in_takeover cfg st exts) bf3 st3 = (bf, st4)"
    "\<forall>ext. req_state ext st' = req_state ext (budget_phase cfg exts (trigger_rows ?n r (d_emit_trigger ?det))
       (trigger_rows ?n r (trigger_boundary (boundary_ids ids) (teacher_argmax d call) (d_emit_trigger ?det)))
       (in_takeover cfg st exts) bf st4)"
    by (rule relay_step_phases [OF assms lay refl refl refl refl refl])
  have "\<forall>ext. tokens_remaining st4 ext = tokens_remaining st ext \<and> paragraphs_remaining st4 ext = paragraphs_remaining st ext"
    by (rule phases_budgets [OF ph(1-4)])
  then show ?thesis by (rule that) (rule ph(5))
qed

section \<open>Runs of one request\<close>

text \<open>
  A run of request \<open>ext\<close>: steps of batches that contain it once, and steps of batches that do not.
  \<open>used\<close> is the number of takeover tokens emitted since the last trigger. Sampling is random, so
  each step may use any behaviour of the set \<open>D\<close>.
\<close>

definition batch_has :: "string option list \<Rightarrow> nat \<Rightarrow> string \<Rightarrow> bool" where
  "batch_has exts b ext \<longleftrightarrow> b < length exts \<and> exts ! b = Some ext
     \<and> (\<forall>c < length exts. c \<noteq> b \<longrightarrow> exts ! c \<noteq> Some ext)"

inductive relay_run :: "('l, 'p) deps set \<Rightarrow> relay_cfg \<Rightarrow> relay_ids \<Rightarrow> string \<Rightarrow> relay_state \<Rightarrow> int \<Rightarrow> bool"
  for D :: "('l, 'p) deps set" and cfg :: relay_cfg and ids :: relay_ids and ext :: string where
  run_start: "relay_run D cfg ids ext empty_relay_state 0"
| run_takeover: "relay_run D cfg ids ext st used \<Longrightarrow> tokens_remaining st ext = Some cap
    \<Longrightarrow> call_ok call \<Longrightarrow> std_ok d call \<Longrightarrow> length exts = length (num_draft_tokens call)
    \<Longrightarrow> batch_has exts b ext
    \<Longrightarrow> d \<in> D \<Longrightarrow> relay_step stats cfg ids d call k probs exts st = (bf, th, st')
    \<Longrightarrow> relay_run D cfg ids ext st' (used + count1 (b_takeover bf ! b))"
| run_student: "relay_run D cfg ids ext st used \<Longrightarrow> tokens_remaining st ext = None
    \<Longrightarrow> batch_has exts b ext
    \<Longrightarrow> d \<in> D \<Longrightarrow> relay_step stats cfg ids d call k probs exts st = (bf, th, st')
    \<Longrightarrow> relay_run D cfg ids ext st' 0"
| run_absent: "relay_run D cfg ids ext st used \<Longrightarrow> Some ext \<notin> set exts
    \<Longrightarrow> d \<in> D \<Longrightarrow> relay_step stats cfg ids d call k probs exts st = (bf, th, st')
    \<Longrightarrow> relay_run D cfg ids ext st' used"

inductive_cases relay_runE: "relay_run D cfg ids ext st used"

text \<open>The budgets a request holds while its teacher writes, against the tokens already used.\<close>

definition budget_inv :: "relay_cfg \<Rightarrow> string \<Rightarrow> relay_state \<Rightarrow> int \<Rightarrow> bool" where
  "budget_inv cfg ext st used \<longleftrightarrow> 0 \<le> used \<and> used \<le> max_takeover_tokens cfg
     \<and> (case tokens_remaining st ext of
          None \<Rightarrow> paragraphs_remaining st ext = None
        | Some t \<Rightarrow> 0 < t \<and> used + t = max_takeover_tokens cfg
            \<and> (\<exists>p. paragraphs_remaining st ext = Some p \<and> 0 < p \<and> p \<le> paragraphs_per_takeover cfg))"

lemma relay_step_absent:
  assumes "relay_step stats cfg ids d call k probs exts st = (bf, th, st')" "Some ext \<notin> set exts"
  shows "tokens_remaining st' ext = tokens_remaining st ext \<and> paragraphs_remaining st' ext = paragraphs_remaining st ext"
proof -
  obtain nt tb st4 where st4:
    "\<forall>ext. tokens_remaining st4 ext = tokens_remaining st ext \<and> paragraphs_remaining st4 ext = paragraphs_remaining st ext"
    "\<forall>ext. req_state ext st' = req_state ext (budget_phase cfg exts nt tb (in_takeover cfg st exts) bf st4)"
    by (rule relay_step_budgets [OF assms(1)])
  have "req_state ext (fold (\<lambda>b st. case exts ! b of None \<Rightarrow> st
            | Some e \<Rightarrow> update_budget cfg (nt ! b) (tb ! b) (in_takeover cfg st' exts ! b)
                (b_terminated bf ! b) (count1 (b_takeover bf ! b)) (count1 (b_boundary bf ! b)) e st) cs s) = req_state ext s"
    if "\<forall>c \<in> set cs. c < length exts" for cs s st'
    using that assms(2)
    by (induction cs arbitrary: s) (auto split: option.splits intro!: update_budget_view(2) dest: nth_mem)
  then have "req_state ext (budget_phase cfg exts nt tb (in_takeover cfg st exts) bf st4) = req_state ext st4"
    by (simp add: budget_phase_def)
  with st4(2) [rule_format, of ext] st4(1) [rule_format, of ext] budgets_of_req_state [of ext st' st4] show ?thesis by simp
qed

lemma relay_step_student_budget:
  assumes step: "relay_step stats cfg ids d call k probs exts st = (bf, th, st')" and has: "batch_has exts b ext"
    and st: "tokens_remaining st ext = None" "paragraphs_remaining st ext = None"
  shows "(tokens_remaining st' ext, paragraphs_remaining st' ext) = (None, None)
     \<or> (\<exists>p. tokens_remaining st' ext = Some (max_takeover_tokens cfg) \<and> paragraphs_remaining st' ext = Some p
            \<and> 0 < p \<and> p \<le> paragraphs_per_takeover cfg)"
proof -
  obtain nt tb st4 where st4:
    "\<forall>ext. tokens_remaining st4 ext = tokens_remaining st ext \<and> paragraphs_remaining st4 ext = paragraphs_remaining st ext"
    "\<forall>ext. req_state ext st' = req_state ext (budget_phase cfg exts nt tb (in_takeover cfg st exts) bf st4)"
    by (rule relay_step_budgets [OF step])
  have tk: "\<not> in_takeover cfg st exts ! b" using has st by (simp add: batch_has_def in_takeover_def)
  have b: "b < length exts" "exts ! b = Some ext" "\<And>c. c < length exts \<Longrightarrow> c \<noteq> b \<Longrightarrow> exts ! c \<noteq> Some ext"
    using has by (auto simp: batch_has_def)
  show ?thesis
    using budget_phase_view [OF b, of cfg nt tb "in_takeover cfg st exts" bf st4] st4(2) [rule_format, of ext] st4(1) [rule_format, of ext] st tk
    by (auto simp: budget_view_def req_state_def Let_def split: if_splits)
qed

lemma relay_run_inv:
  assumes "relay_run D cfg ids ext st used"
    and "takeover_enabled cfg" "0 < max_takeovers cfg" "0 < max_takeover_tokens cfg"
    and "\<And>s. stop_id ids = Some s \<Longrightarrow> 0 \<le> s"
  shows "budget_inv cfg ext st used"
  using assms(1)
proof induction
  case run_start
  then show ?case using assms(4) by (simp add: budget_inv_def empty_relay_state_def)
next
  case (run_takeover st used cap call d exts b stats k probs bf th st')
  obtain p where p: "0 < cap" "used + cap = max_takeover_tokens cfg" "0 \<le> used"
    "paragraphs_remaining st ext = Some p" "0 < p" "p \<le> paragraphs_per_takeover cfg"
    using run_takeover.IH run_takeover.hyps(2) by (auto simp: budget_inv_def)
  obtain kept ended where spec: "takeover_prefix (boundary_ids ids) cap p
      (row_tokens (no_bonus (num_draft_tokens call ! b) (standard_sample d call ! b))) = (kept, ended)" by fastforce
  have "b < length exts" "exts ! b = Some ext" "\<And>c. c < length exts \<Longrightarrow> c \<noteq> b \<Longrightarrow> exts ! c \<noteq> Some ext"
    using run_takeover.hyps(6) by (auto simp: batch_has_def)
  from takeover_step_spec [OF run_takeover.hyps(3-5) this assms(2,3,5) run_takeover.hyps(2) p(1,4,5) run_takeover.hyps(8)]
  have "count1 (b_takeover bf ! b) = int (length kept)"
    and "ended \<Longrightarrow> tokens_remaining st' ext = None \<and> paragraphs_remaining st' ext = None"
    and "\<not> ended \<Longrightarrow> tokens_remaining st' ext = Some (cap - int (length kept))
      \<and> paragraphs_remaining st' ext = Some (p - int (length (filter (\<lambda>t. t \<in> set (boundary_ids ids)) kept)))"
    by (auto simp: takeover_spec_def spec req_state_def Let_def)
  then show ?case
    using takeover_prefix_length [OF spec p(1)] takeover_prefix_ended(2) [OF spec p(5)] p
    by (cases ended) (auto simp: budget_inv_def)
next
  case (run_student st used exts b d stats call k probs bf th st')
  have "paragraphs_remaining st ext = None" using run_student.IH run_student.hyps(2) by (simp add: budget_inv_def)
  from relay_step_student_budget [OF run_student.hyps(5,3,2) this] assms(4)
  show ?case by (auto simp: budget_inv_def)
next
  case (run_absent st used exts d stats call k probs bf th st')
  from relay_step_absent [OF run_absent.hyps(4,2)] run_absent.IH show ?case by (auto simp: budget_inv_def split: option.splits)
qed

text \<open>
  [C2] Safety over whole executions: whatever batches a request goes through and whatever vLLM's sampler
  draws, a takeover never emits more than \<open>RELAY_OPD_MAX_TAKEOVER_TOKENS\<close> tokens; while it lasts, what it
  has emitted and what it may still emit add up to exactly that number, its paragraph budget is positive
  and at most \<open>RELAY_OPD_PARAGRAPHS_PER_TAKEOVER\<close>; and both budgets are present together or not at all.
\<close>

theorem takeover_tokens_bounded:
  assumes "relay_config env = Inr cfg" "takeover_enabled cfg"
    and "\<And>s. stop_id ids = Some s \<Longrightarrow> 0 \<le> s"
    and "relay_run D cfg ids ext st used"
  shows "used \<le> max_takeover_tokens cfg
    \<and> (\<forall>t. tokens_remaining st ext = Some t \<longrightarrow> 0 < t \<and> used + t = max_takeover_tokens cfg)
    \<and> (\<forall>p. paragraphs_remaining st ext = Some p \<longrightarrow> 0 < p \<and> p \<le> paragraphs_per_takeover cfg)
    \<and> (tokens_remaining st ext = None \<longleftrightarrow> paragraphs_remaining st ext = None)"
proof -
  have "0 < max_takeovers cfg" "0 < max_takeover_tokens cfg"
    using assms(1,2) by (auto simp: relay_config_def Let_def split: if_splits)
  from relay_run_inv [OF assms(4,2) this assms(3)] show ?thesis
    by (auto simp: budget_inv_def split: option.splits)
qed

theorem takeover_tokens_bounded_witness:
  "\<exists>st. relay_run {ex_deps} ex_cfg ex_ids ''a'' st 2 \<and> 2 \<le> max_takeover_tokens ex_cfg
     \<and> tokens_remaining st ''a'' = Some 6"
proof -
  let ?step = "\<lambda>st. relay_step False ex_cfg ex_ids ex_deps ex_call 1 ex_probs ex_exts st"
  let ?st1 = "snd (snd (?step empty_relay_state))"
  let ?st2 = "snd (snd (?step ?st1))"
  have has: "batch_has ex_exts 0 ''a''" by code_simp
  have s1: "?step empty_relay_state = (fst (?step empty_relay_state), fst (snd (?step empty_relay_state)), ?st1)"
    and s2: "?step ?st1 = (fst (?step ?st1), fst (snd (?step ?st1)), ?st2)" by simp_all
  have run1: "relay_run {ex_deps} ex_cfg ex_ids ''a'' ?st1 0"
    by (rule relay_run.run_student [OF relay_run.run_start _ has _ s1]) (simp_all add: empty_relay_state_def)
  have "tokens_remaining ?st1 ''a'' = Some 8" by code_simp
  from relay_run.run_takeover [OF run1 this ex_wf has _ s2]
  have "relay_run {ex_deps} ex_cfg ex_ids ''a'' ?st2 (0 + count1 (b_takeover (fst (?step ?st1)) ! 0))" by simp
  moreover have "count1 (b_takeover (fst (?step ?st1)) ! 0) = 2" by code_simp
  ultimately have run2: "relay_run {ex_deps} ex_cfg ex_ids ''a'' ?st2 2" by simp
  moreover have "tokens_remaining ?st2 ''a'' = Some 6" by code_simp
  moreover have "2 \<le> max_takeover_tokens ex_cfg"
    using takeover_tokens_bounded [OF ex_env_cfg _ _ run2] by (simp add: ex_cfg_def ex_ids_def)
  ultimately show ?thesis by blast
qed

section \<open>The state invariant\<close>

text \<open>
  What holds of the module's dictionaries between calls, for every request: a takeover in progress has
  both budgets, positive and within the configured limits, and the number of completed takeovers that is
  remembered is below the limit.
\<close>

definition relay_inv :: "relay_cfg \<Rightarrow> relay_state \<Rightarrow> bool" where
  "relay_inv cfg st \<longleftrightarrow>
     (\<forall>ext. (tokens_remaining st ext = None \<longleftrightarrow> paragraphs_remaining st ext = None)
        \<and> (\<forall>t. tokens_remaining st ext = Some t \<longrightarrow> 0 < t \<and> t \<le> max_takeover_tokens cfg)
        \<and> (\<forall>p. paragraphs_remaining st ext = Some p \<longrightarrow> 0 < p \<and> p \<le> paragraphs_per_takeover cfg)
        \<and> (\<forall>c. completed_takeovers st ext = Some c \<longrightarrow> 0 < c \<and> c < max_takeovers cfg))"

lemma relay_invD:
  assumes "relay_inv cfg st"
  shows "tokens_remaining st ext = Some t \<Longrightarrow> 0 < t \<and> t \<le> max_takeover_tokens cfg"
    and "paragraphs_remaining st ext = Some p \<Longrightarrow> 0 < p \<and> p \<le> paragraphs_per_takeover cfg"
  using assms by (auto simp: relay_inv_def)

lemma relay_inv_cong: "(\<And>ext. req_state ext st' = req_state ext st) \<Longrightarrow> relay_inv cfg st' = relay_inv cfg st"
  by (simp add: relay_inv_def req_state_def)

lemma relay_inv_stats [simp]: "relay_inv cfg (stats_add e key v st) = relay_inv cfg st"
  by (simp add: relay_inv_def)

lemma finish_takeover_inv:
  "relay_inv cfg st \<Longrightarrow> relay_inv cfg (snd (finish_takeover stats cfg sid width b c ext bf st))"
proof -
  assume inv: "relay_inv cfg st"
  then have "0 \<le> opt_default 0 (completed_takeovers st ext)"
    by (cases "completed_takeovers st ext") (force simp: relay_inv_def)+
  moreover from inv have "relay_inv cfg (st\<lparr>completed_takeovers := pop_key ext (completed_takeovers st)\<rparr>)"
    by (simp add: relay_inv_def pop_key_def)
  ultimately show ?thesis using inv
    by (auto simp: finish_takeover_def Let_def split: option.splits) (auto simp: relay_inv_def)
qed

lemma trigger_only_inv:
  "relay_inv cfg st \<Longrightarrow> relay_inv cfg (snd (trigger_only_phase stats cfg sid width exts req pos es bf st))"
proof -
  have "relay_inv cfg (snd s) \<Longrightarrow> relay_inv cfg (snd (fold (\<lambda>i (bf, st). case exts ! (req ! i) of
                   None \<Rightarrow> (bf, st)
                 | Some ext \<Rightarrow> finish_takeover stats cfg sid width (req ! i) (nat (pos ! i)) ext bf st) is s))" for "is" s
  proof (induction "is" arbitrary: s)
    case (Cons i "is")
    then show ?case by (cases s) (auto simp: finish_takeover_inv split: option.splits)
  qed simp
  from this [of "(bf, st)"] show "relay_inv cfg st \<Longrightarrow> ?thesis" by (simp add: trigger_only_phase_def)
qed

lemma trim_phase_inv:
  "relay_inv cfg st \<Longrightarrow> relay_inv cfg (snd (trim_phase stats cfg sid bids width exts in_tk bf st))"
proof -
  have row: "relay_inv cfg (snd s) \<Longrightarrow> relay_inv cfg (snd (trim_row stats cfg sid width exts b s))" for b s
    by (cases s) (auto simp: trim_row_def Let_def finish_takeover_inv split: option.splits)
  have "relay_inv cfg (snd s) \<Longrightarrow> relay_inv cfg (snd (fold (trim_row stats cfg sid width exts) bs s))" for bs s
    by (induction bs arbitrary: s) (auto simp: row)
  from this [of "(_, st)"] show "relay_inv cfg st \<Longrightarrow> ?thesis" by (simp add: trim_phase_def Let_def)
qed

lemma update_budget_inv:
  assumes "relay_inv cfg st" "0 < max_takeover_tokens cfg" "0 \<le> h"
  shows "relay_inv cfg (update_budget cfg nt tb tk term e h ext st)"
proof -
  have "relay_inv cfg (st\<lparr>tokens_remaining := pop_key ext (tokens_remaining st),
      paragraphs_remaining := pop_key ext (paragraphs_remaining st)\<rparr>)"
    using assms(1) by (simp add: relay_inv_def pop_key_def)
  moreover have "relay_inv cfg (st\<lparr>tokens_remaining := (tokens_remaining st)(ext \<mapsto> t),
      paragraphs_remaining := (paragraphs_remaining st)(ext \<mapsto> p)\<rparr>)"
    if "0 < t" "t \<le> max_takeover_tokens cfg" "0 < p" "p \<le> paragraphs_per_takeover cfg" for t p
    using assms(1) that by (simp add: relay_inv_def)
  moreover have "opt_default 0 (tokens_remaining st ext) \<le> max_takeover_tokens cfg"
    using relay_invD(1) [OF assms(1)] assms(2) by (cases "tokens_remaining st ext") auto
  moreover have "0 < opt_default 0 (paragraphs_remaining st ext) \<Longrightarrow>
      opt_default 0 (paragraphs_remaining st ext) \<le> paragraphs_per_takeover cfg"
    using relay_invD(2) [OF assms(1)] by (cases "paragraphs_remaining st ext") auto
  moreover have "0 < opt_default 0 (paragraphs_remaining st ext)"
    if "\<not> opt_default 0 (paragraphs_remaining st ext) \<le> h" using that assms(3) by simp
  ultimately show ?thesis using assms by (auto simp: update_budget_def Let_def)
qed

lemma relay_step_inv:
  assumes "relay_step stats cfg ids d call k probs exts st = (bf, th, st')"
    and "relay_inv cfg st" "0 < max_takeover_tokens cfg"
  shows "relay_inv cfg st'"
proof -
  obtain r p v where lay: "request_layout (num_draft_tokens call) (length (target_logits call)) (max_spec_len call)
      (cu_num_draft_tokens call) = (r, p, v)" by (metis prod_cases3)
  let ?det = "detect cfg ids d call k probs r p v (in_takeover cfg st exts)"
  let ?n = "length (num_draft_tokens call)" and ?sid = "if max_takeovers cfg > 0 then stop_id ids else None"
  let ?w = "max_spec_len call + 1"
  obtain bf0 st1 bf2 st2 es bf3 st3 st4 where
    "fst (takeover_phase stats d call (in_takeover cfg st exts) (init_bufs ?n ?w) st) = bf0"
    and ph: "\<forall>ext. req_state ext st1 = req_state ext st"
    "stop_phase stats (stop_id ids) r p (draft_token_ids call) ?w (d_emit_stop ?det)
       (emit_phase d call r p ?det bf0) st1 = (bf2, st2, es)"
    "trigger_only_phase stats cfg ?sid ?w exts r p (d_emit_trigger ?det) bf2 st2 = (bf3, st3)"
    "trim_phase stats cfg ?sid (boundary_ids ids) ?w exts (in_takeover cfg st exts) bf3 st3 = (bf, st4)"
    "\<forall>ext. req_state ext st' = req_state ext (budget_phase cfg exts (trigger_rows ?n r (d_emit_trigger ?det))
       (trigger_rows ?n r (trigger_boundary (boundary_ids ids) (teacher_argmax d call) (d_emit_trigger ?det)))
       (in_takeover cfg st exts) bf st4)"
    by (rule relay_step_phases [OF assms(1) lay refl refl refl refl refl])
  have "relay_inv cfg st2"
    using stop_phase_state [of _ stats "stop_id ids" r p "draft_token_ids call" ?w "d_emit_stop ?det" "emit_phase d call r p ?det bf0" st1]
      ph(1,2) assms(2) relay_inv_cong [of st2 st cfg] by (metis fst_conv snd_conv)
  with trigger_only_inv trim_phase_inv ph(3,4) have inv4: "relay_inv cfg st4" by (metis snd_conv)
  have "relay_inv cfg s \<Longrightarrow> relay_inv cfg (budget_phase cfg exts nt tb tk bf s)" for nt tb tk s
    unfolding budget_phase_def
    by (rule fold_invariant [where Q = "\<lambda>_. True"]) (auto simp: update_budget_inv assms(3) split: option.splits)
  with inv4 ph(5) relay_inv_cong [of st' _ cfg] show ?thesis by metis
qed

text \<open>
  [C9] The invariant of the sampler's state: whatever the batch, the parameters and the outcome of vLLM's
  own sampler, a call that returns keeps \<open>relay_inv\<close> (also on the paths that end early), and so does
  taking the statistics out.
\<close>

theorem relay_sampler_preserves_inv:
  assumes "relay_config env = Inr cfg" "relay_inv cfg st"
    and "relay_opd_rejection_sample env ids d call st ev = Inr (out, st', ev', evs)"
  shows "relay_inv cfg st' \<and> relay_inv cfg (fst (pop_opd_stats st'))"
proof -
  have pos: "0 < max_takeover_tokens cfg"
    using assms(1) by (auto simp: relay_config_def Let_def split: if_splits)
  have tk: "relay_inv cfg (snd (takeover_phase stats d call in_tk bf st))" for stats in_tk bf
    using assms(2) relay_inv_cong [OF takeover_phase_state] by blast
  have "relay_inv cfg st'"
  proof (cases "target_logits call = [] \<or> reflection_ids ids = [] \<or> draft_probs call = None")
    case True
    then show ?thesis
      using assms tk [of "env_flag env ''VERL_OPD_SOURCE_METRICS'' True"]
      by (auto simp: relay_opd_rejection_sample_def Let_def split: prod.splits if_splits option.splits)
         (metis snd_conv)
  next
    case False
    then obtain probs where probs: "draft_probs call = Some probs" by auto
    have k: "0 < env_int env ''RELAY_OPD_TRIGGER_TOPK'' (- 1)"
      using assms(1,3) False by (auto simp: relay_opd_rejection_sample_def Let_def split: prod.splits if_splits)
    from relay_sample_is_step [OF _ assms(1) _ refl k probs assms(3)] False
    show ?thesis using relay_step_inv [OF _ assms(2) pos] by blast
  qed
  then show ?thesis by (simp add: pop_opd_stats_def relay_inv_def)
qed

theorem relay_sampler_preserves_inv_witness:
  "case relay_opd_rejection_sample ex_env ex_ids ex_deps ex_call ex_state ex_events of
     Inl e \<Rightarrow> False
   | Inr (out, st', ev', evs) \<Rightarrow> out = [[1, 5, -1], [2, 3, 0]] \<and> relay_inv ex_cfg st'"
proof -
  let ?res = "relay_opd_rejection_sample ex_env ex_ids ex_deps ex_call ex_state ex_events"
  have inv: "relay_inv ex_cfg ex_state"
    by (simp add: relay_inv_def ex_cfg_def ex_state_def empty_relay_state_def)
  have out: "map_sum (\<lambda>_. ()) fst ?res = Inr [[1, 5, -1], [2, 3, 0]]" by code_simp
  then obtain out st' ev' evs where res: "?res = Inr (out, st', ev', evs)"
    by (cases ?res) auto
  with relay_sampler_preserves_inv [OF ex_env_cfg inv res] out show ?thesis by simp
qed

end
