(* ===== verification/Relay_Student.thy ===== *)
theory Relay_Student
  imports Relay_Takeover
begin

text \<open>
  What a decoding step does to a request the student is writing. The reference is a walk over the
  request's own drafts, one position at a time; the theorem says that the vectorised sampler (masks,
  scatter, \<open>amin\<close> over the flat batch) computes exactly this walk for every such row.
\<close>

section \<open>The reference walk\<close>

datatype emission = Student int | Teacher int | Internal_Stop int | Hole

fun token_of :: "emission \<Rightarrow> int" where
  "token_of (Student t) = t"
| "token_of (Teacher t) = t"
| "token_of (Internal_Stop t) = t"
| "token_of Hole = PLACEHOLDER_TOKEN_ID"

definition is_teacher :: "emission \<Rightarrow> bool" where
  "is_teacher e \<longleftrightarrow> (case e of Teacher _ \<Rightarrow> True | _ \<Rightarrow> False)"

definition is_stop :: "emission \<Rightarrow> bool" where
  "is_stop e \<longleftrightarrow> (case e of Internal_Stop _ \<Rightarrow> True | _ \<Rightarrow> False)"

text \<open>One draft position: the student's token, whether it is in the vocabulary, the teacher's first
  choice, and whether the two diverge (the teacher wants a reflection token that the student does not rank among its top-k).\<close>

record draft_item =
  it_draft :: int
  it_valid :: bool
  it_teacher :: int
  it_diverges :: bool

definition accept :: "draft_item \<Rightarrow> emission" where
  "accept x = (if it_valid x then Student (it_draft x) else Hole)"

text \<open>At a divergence, \<open>fin\<close> is the stop token that follows the teacher's when the handoff is over at once and was the last one.\<close>

definition on_divergence :: "bool \<Rightarrow> int option \<Rightarrow> int option \<Rightarrow> draft_item \<Rightarrow> emission list" where
  "on_divergence relay sid fin x =
     (if relay then Teacher (it_teacher x) # (case fin of None \<Rightarrow> [] | Some s \<Rightarrow> [Internal_Stop s])
      else (case sid of None \<Rightarrow> [] | Some s \<Rightarrow> [Student (it_draft x), Internal_Stop s]))"

fun student_walk :: "bool \<Rightarrow> int option \<Rightarrow> int option \<Rightarrow> draft_item list \<Rightarrow> emission list" where
  "student_walk relay sid fin [] = []"
| "student_walk relay sid fin (x # xs) =
     (if it_diverges x then on_divergence relay sid fin x else accept x # student_walk relay sid fin xs)"

text \<open>With no paragraph per takeover a handoff is over at its first token; after the last one the request is stopped.\<close>

definition handoff_end :: "relay_cfg \<Rightarrow> int option \<Rightarrow> string option \<Rightarrow> relay_state \<Rightarrow> int option" where
  "handoff_end cfg sid ext st =
     (case ext of None \<Rightarrow> None
      | Some e \<Rightarrow> if paragraphs_per_takeover cfg \<le> 0 \<and> 0 < max_takeovers cfg
            \<and> max_takeovers cfg \<le> opt_default 0 (completed_takeovers st e) + 1 then sid else None)"

definition pad_row :: "nat \<Rightarrow> emission list \<Rightarrow> emission list" where
  "pad_row width es = es @ replicate (width - length es) Hole"

text \<open>The drafts of request \<open>b\<close>.\<close>

definition draft_items ::
  "relay_ids \<Rightarrow> ('l, 'p) deps \<Rightarrow> ('l, 'p) spec_call \<Rightarrow> int \<Rightarrow> 'p list list \<Rightarrow> nat \<Rightarrow> draft_item list" where
  "draft_items ids d call k probs b =
     map (\<lambda>p. let i = flat (num_draft_tokens call) b p;
                  t = int (argmax d (target_logits call ! i));
                  draft = draft_token_ids call ! i;
                  valid = (0 \<le> draft \<and> draft < int (vocab_size call))
              in \<lparr>it_draft = draft, it_valid = valid, it_teacher = t,
                  it_diverges = (t \<in> set (reflection_ids ids) \<and> t \<noteq> draft \<and> valid
                    \<and> clamp_id (vocab_size call) t
                        \<notin> int ` set (topk d (nat (min k (int (length (probs ! i))))) (probs ! i)))\<rparr>)
       [0..<num_draft_tokens call ! b]"

lemma length_draft_items [simp]: "length (draft_items ids d call k probs b) = num_draft_tokens call ! b"
  by (simp add: draft_items_def)

lemma student_walk_unfold:
  "student_walk relay sid fin xs =
     (case find_index it_diverges xs of
        None \<Rightarrow> map accept xs
      | Some p \<Rightarrow> map accept (take p xs) @ on_divergence relay sid fin (xs ! p))"
  by (induction xs) (auto split: option.splits)

text \<open>The walk, column by column.\<close>

lemma pad_walk_nth:
  assumes "length xs < width" "q < width"
  shows "pad_row width (student_walk relay sid fin xs) ! q =
     (case find_index it_diverges xs of
        None \<Rightarrow> if q < length xs then accept (xs ! q) else Hole
      | Some p \<Rightarrow>
          if q < p then accept (xs ! q)
          else if relay then (if q = p then Teacher (it_teacher (xs ! p))
            else (case fin of None \<Rightarrow> Hole | Some s \<Rightarrow> if q = p + 1 then Internal_Stop s else Hole))
          else (case sid of None \<Rightarrow> Hole
                | Some s \<Rightarrow> if q = p then Student (it_draft (xs ! p)) else if q = p + 1 then Internal_Stop s else Hole))"
proof (cases "find_index it_diverges xs")
  case None
  then show ?thesis using assms by (simp add: student_walk_unfold pad_row_def nth_append)
next
  case (Some p)
  then have "p < length xs" by (simp add: find_index_Some)
  then show ?thesis
    using assms Some
    by (auto simp: student_walk_unfold pad_row_def nth_append on_divergence_def nth_Cons' split: option.splits)
qed

lemma length_pad_walk: "length xs < width \<Longrightarrow> length (pad_row width (student_walk relay sid fin xs)) = width"
proof -
  assume "length xs < width"
  moreover have "length (student_walk relay sid fin xs) \<le> Suc (length xs)"
    by (induction xs) (auto simp: on_divergence_def split: option.splits)
  ultimately show ?thesis by (simp add: pad_row_def)
qed

section \<open>Detection, slot by slot\<close>

lemma first_event_slot:
  assumes lay: "layout_ok nd nt msl cu" "request_layout nd nt msl cu = (req, pos, valid)"
    and "length event = nt" "b < length nd" "length xs = nd ! b"
    and ev: "\<And>p. p < nd ! b \<Longrightarrow> event ! flat nd b p \<longleftrightarrow> P (xs ! p)"
  shows "first_event_pos req pos event (length nd) msl ! b
       = (case find_index P xs of None \<Rightarrow> int msl + 2 | Some p \<Rightarrow> int p)"
proof (cases "any1 event")
  case False
  then have "\<not> event ! flat nd b p" if "p < nd ! b" for p
    using that layout_nth(4) [OF lay assms(4)] assms(3) by (auto simp: any1_def list_ex_length)
  then have "find_index P xs = None" using ev assms(5) by (auto simp: find_index_None in_set_conv_nth)
  then show ?thesis using False assms(4) by (simp add: first_event_pos_def Let_def)
next
  case True
  define fe where "fe = scatter_amin req (map (\<lambda>i. if event ! i then pos ! i else int msl + 2) [0..<nt])
      (replicate (length nd) (int msl + 2)) ! b"
  have "first_event_pos req pos event (length nd) msl ! b = fe"
    using True assms(3) by (simp add: first_event_pos_def fe_def Let_def)
  moreover have "(fe = int msl + 2 \<and> (\<forall>p < nd ! b. \<not> event ! flat nd b p))
     \<or> (\<exists>p < nd ! b. fe = int p \<and> event ! flat nd b p \<and> (\<forall>q < p. \<not> event ! flat nd b q))"
    unfolding fe_def using scatter_amin_first [OF lay assms(3,4), of "int msl + 2"] by simp
  then have "fe = (case find_index P xs of None \<Rightarrow> int msl + 2 | Some p \<Rightarrow> int p)"
  proof (elim disjE exE conjE)
    fix p assume p: "p < nd ! b" "fe = int p" "event ! flat nd b p" "\<forall>q < p. \<not> event ! flat nd b q"
    then have "find_index P xs = Some p" using ev assms(5) by (auto simp: find_index_Some)
    then show ?thesis using p by simp
  next
    assume none: "fe = int msl + 2" "\<forall>p < nd ! b. \<not> event ! flat nd b p"
    then have "find_index P xs = None" using ev assms(5) by (auto simp: find_index_None in_set_conv_nth)
    then show ?thesis using none by simp
  qed
  ultimately show ?thesis by simp
qed

lemma candidate_slot:
  assumes "call_ok call"
    and lay: "request_layout (num_draft_tokens call) (length (target_logits call)) (max_spec_len call)
      (cu_num_draft_tokens call) = (r, p, v)"
    and b: "b < length (num_draft_tokens call)" "q < num_draft_tokens call ! b" "\<not> in_tk ! b"
  shows "d_candidate (detect cfg ids d call k probs r p v in_tk) ! flat (num_draft_tokens call) b q
       = it_diverges (draft_items ids d call k probs b ! q)"
proof -
  have ok: "layout_ok (num_draft_tokens call) (length (target_logits call)) (max_spec_len call) (cu_num_draft_tokens call)"
    using assms(1) by (simp add: call_ok_def)
  note n = layout_nth [OF ok lay b(1,2)]
  show ?thesis
    using n b
    by (auto simp: detect_def raw_trigger_def in_student_topk_def teacher_argmax_def draft_items_def Let_def split_beta)
qed

lemma detect_slot:
  assumes "call_ok call"
    and lay: "request_layout (num_draft_tokens call) (length (target_logits call)) (max_spec_len call)
      (cu_num_draft_tokens call) = (r, p, v)"
    and b: "b < length (num_draft_tokens call)" "q < num_draft_tokens call ! b" "\<not> in_tk ! b"
    and det: "det = detect cfg ids d call k probs r p v in_tk"
    and xs: "xs = draft_items ids d call k probs b" and i: "i = flat (num_draft_tokens call) b q"
  shows "d_student det ! i \<longleftrightarrow> it_valid (xs ! q)
           \<and> (case find_index it_diverges xs of None \<Rightarrow> True | Some f \<Rightarrow> q < f)"
    and "d_emit_trigger det ! i \<longleftrightarrow> takeover_enabled cfg \<and> find_index it_diverges xs = Some q"
    and "d_emit_stop det ! i \<longleftrightarrow> \<not> takeover_enabled cfg \<and> find_index it_diverges xs = Some q"
proof -
  let ?nd = "num_draft_tokens call" and ?nt = "length (target_logits call)" and ?msl = "max_spec_len call"
  have ok: "layout_ok ?nd ?nt ?msl (cu_num_draft_tokens call)" and dl: "length (draft_token_ids call) = ?nt"
    using assms(1) by (simp_all add: call_ok_def)
  note n = layout_nth [OF ok lay b(1,2), folded i]
  let ?cand = "d_candidate det"
  let ?none = "map (\<lambda>_. False) ?cand"
  let ?trig = "if takeover_enabled cfg \<and> any1 ?cand then ?cand else ?none"
  let ?stop = "if takeover_enabled cfg \<and> any1 ?cand then ?none else ?cand"
  let ?event = "map2 (\<or>) ?trig ?stop"
  let ?first = "first_event_pos r p ?event (length ?nd) ?msl"
  have len: "length ?cand = ?nt"
    by (simp add: det detect_def raw_trigger_def in_student_topk_def teacher_argmax_def Let_def split_beta)
  have masks: "(d_student det, d_emit_trigger det, d_emit_stop det)
      = emit_masks ?trig ?stop (draft_token_ids call) (vocab_size call) in_tk r p ?first v"
    by (simp add: det detect_def Let_def split_beta)
  have cand: "?cand ! flat ?nd b j = it_diverges (xs ! j)" if "j < ?nd ! b" for j
    using candidate_slot [OF assms(1) lay b(1) that b(3)] by (simp add: det xs)
  have ev: "?event ! flat ?nd b j = it_diverges (xs ! j)" if "j < ?nd ! b" for j
    using cand [OF that] layout_nth(4) [OF ok lay b(1) that] len by (auto simp: any1_def)
  have first: "?first ! b = (case find_index it_diverges xs of None \<Rightarrow> int ?msl + 2 | Some f \<Rightarrow> int f)"
    by (rule first_event_slot [OF ok lay _ b(1) _ ev]) (simp_all add: len xs)
  have small: "q \<le> ?msl" using ok b(1,2) by (auto simp: layout_ok_def list_all_length)
  have any: "?cand ! i \<Longrightarrow> any1 ?cand" using n(4) len by (auto simp: any1_def list_ex_length)
  have dv: "?cand ! i = it_diverges (xs ! q)" using cand [OF b(2)] i by simp
  have valid: "it_valid (xs ! q) \<longleftrightarrow> 0 \<le> draft_token_ids call ! i \<and> draft_token_ids call ! i < int (vocab_size call)"
    using b(2) by (simp add: xs draft_items_def i Let_def)
  have fi: "find_index it_diverges xs = Some q \<Longrightarrow> it_diverges (xs ! q)" by (simp add: find_index_Some)
  show "d_student det ! i \<longleftrightarrow> it_valid (xs ! q)
           \<and> (case find_index it_diverges xs of None \<Rightarrow> True | Some f \<Rightarrow> q < f)"
    using masks n first small valid b(3) dl by (auto simp: emit_masks_def split: option.splits)
  show "d_emit_trigger det ! i \<longleftrightarrow> takeover_enabled cfg \<and> find_index it_diverges xs = Some q"
    using masks n first small dl any dv fi len by (auto simp: emit_masks_def split: option.splits if_splits)
  show "d_emit_stop det ! i \<longleftrightarrow> \<not> takeover_enabled cfg \<and> find_index it_diverges xs = Some q"
    using masks n first small dl any dv fi len by (auto simp: emit_masks_def split: option.splits if_splits)
qed

section \<open>The phases on a student row\<close>

lemma takeover_phase_student_row:
  assumes "std_ok d call" "length in_tk = length (num_draft_tokens call)" "b < length in_tk" "\<not> in_tk ! b"
    and "width = max_spec_len call + 1"
    and "bf = fst (takeover_phase stats d call in_tk (init_bufs (length (num_draft_tokens call)) width) st)"
  shows "b_output bf ! b = replicate width PLACEHOLDER_TOKEN_ID" "b_teacher bf ! b = replicate width False"
    "b_takeover bf ! b = replicate width False" "b_stop bf ! b = replicate width False"
proof -
  obtain std n where db: "drop_bonus in_tk (num_draft_tokens call) (standard_sample d call) = (std, n)"
    by (cases "drop_bonus in_tk (num_draft_tokens call) (standard_sample d call)")
  have len: "length std = length in_tk"
    using std_okD(1) [OF assms(1)] assms(2) db length_drop_bonus [of in_tk "num_draft_tokens call" "standard_sample d call"]
    by simp
  have "length (fst (drop_bonus in_tk (num_draft_tokens call) (standard_sample d call)) ! b) = width"
    using std_okD(1,2) [OF assms(1)] assms(2-5)
    by (simp add: drop_bonus_def Let_def fold_put2_rows)
  then have w: "length (std ! b) = width" using db by simp
  have zip: "map (\<lambda>(e, t). e \<or> t) (zip (replicate width False) (replicate width False)) = replicate width False"
    by (simp add: zip_replicate)
  show "b_output bf ! b = replicate width PLACEHOLDER_TOKEN_ID" "b_teacher bf ! b = replicate width False"
    "b_takeover bf ! b = replicate width False" "b_stop bf ! b = replicate width False"
    using assms(2-4) len w zip
    by (auto simp: assms(6) takeover_phase_def db init_bufs_def row_and_def emitted_matrix_def Let_def
        map_replicate_const comp_def)
qed

text \<open>The stop phase writes the divergent draft and the stop token of the one event in a row.\<close>

lemma place_stop_row:
  assumes "rows_ok n bf" "b < n" "req ! i = b"
  shows "b_output (place_stop req pos drafts s width i bf) ! b
       = ((b_output bf ! b)[nat (pos ! i) := drafts ! i])[(if nat (pos ! i) + 1 < width then nat (pos ! i) + 1 else nat (pos ! i)) := s]"
    and "b_stop (place_stop req pos drafts s width i bf) ! b
       = (b_stop bf ! b)[(if nat (pos ! i) + 1 < width then nat (pos ! i) + 1 else nat (pos ! i)) := True]"
    and "b_teacher (place_stop req pos drafts s width i bf) = b_teacher bf"
    and "b_takeover (place_stop req pos drafts s width i bf) = b_takeover bf"
  using assms by (simp_all add: place_stop_def rows_ok_def put2_def Let_def)

lemma place_stop_fold_other:
  "\<forall>i \<in> set is. req ! i \<noteq> b \<Longrightarrow>
     row_of b (fold (place_stop req pos drafts s width) is bf) = row_of b bf"
  by (induction "is" arbitrary: bf) (auto simp: place_stop_other)

lemma place_stop_fold_rows_ok:
  "rows_ok n bf \<Longrightarrow> rows_ok n (fold (place_stop req pos drafts s width) is bf)"
  by (induction "is" arbitrary: bf) (auto simp: place_stop_rows_ok)

lemma place_stop_fold_row:
  assumes "rows_ok n bf" "b < n" "i \<in> set is" "distinct is" "req ! i = b"
    and "\<And>j. j \<in> set is \<Longrightarrow> req ! j = b \<Longrightarrow> j = i"
    and p_def: "p = nat (pos ! i)" and slot_def: "slot = (if p + 1 < width then p + 1 else p)"
  shows "row_of b (fold (place_stop req pos drafts s width) is bf)
       = (row_of b bf)\<lparr>v_output := ((b_output bf ! b)[p := drafts ! i])[slot := s], v_stop := (b_stop bf ! b)[slot := True]\<rparr>"
proof -
  obtain us vs where "is": "is = us @ i # vs" using assms(3) by (meson split_list)
  have "i \<notin> set us" "i \<notin> set vs" using assms(4) by (simp_all add: "is")
  moreover have "j = i" if "j \<in> set us \<union> set vs" "req ! j = b" for j
    using that assms(6) [of j] by (simp add: "is")
  ultimately have others: "\<forall>j \<in> set us. req ! j \<noteq> b" "\<forall>j \<in> set vs. req ! j \<noteq> b" by blast+
  define bf1 where "bf1 = fold (place_stop req pos drafts s width) us bf"
  have bf1: "row_of b bf1 = row_of b bf" "rows_ok n bf1"
    using place_stop_fold_other [OF others(1)] place_stop_fold_rows_ok [OF assms(1)] by (simp_all add: bf1_def)
  have "row_of b (fold (place_stop req pos drafts s width) is bf) = row_of b (place_stop req pos drafts s width i bf1)"
    using place_stop_fold_other [OF others(2)] by (simp add: "is" bf1_def)
  also have "\<dots> = (row_of b bf1)\<lparr>v_output := ((b_output bf1 ! b)[p := drafts ! i])[slot := s],
      v_stop := (b_stop bf1 ! b)[slot := True]\<rparr>"
    using place_stop_row [OF bf1(2) assms(2,5), of pos drafts s width]
    by (simp add: row_of_def p_def slot_def place_stop_def Let_def)
  finally show ?thesis using bf1(1) by (simp add: row_of_def)
qed

text \<open>The columns of a row after emission.\<close>

lemma emit_phase_slot:
  assumes "call_ok call"
    and lay: "request_layout (num_draft_tokens call) (length (target_logits call)) (max_spec_len call)
      (cu_num_draft_tokens call) = (r, p, v)"
    and b: "b < length (num_draft_tokens call)" "\<not> in_tk ! b"
    and det: "det = detect cfg ids d call k probs r p v in_tk"
    and xs: "xs = draft_items ids d call k probs b"
    and bf: "rows_ok (length (num_draft_tokens call)) bf" "b_output bf ! b = replicate w PLACEHOLDER_TOKEN_ID"
      "b_teacher bf ! b = replicate w False" "q < w"
  shows "b_output (emit_phase d call r p det bf) ! b ! q
       = (if q < num_draft_tokens call ! b
          then (case find_index it_diverges xs of
                  None \<Rightarrow> token_of (accept (xs ! q))
                | Some f \<Rightarrow> if q < f then token_of (accept (xs ! q))
                            else if takeover_enabled cfg \<and> q = f then it_teacher (xs ! q) else PLACEHOLDER_TOKEN_ID)
          else PLACEHOLDER_TOKEN_ID)"
    and "b_teacher (emit_phase d call r p det bf) ! b ! q
       = (takeover_enabled cfg \<and> find_index it_diverges xs = Some q)"
proof -
  let ?nd = "num_draft_tokens call"
  have ok: "layout_ok ?nd (length (target_logits call)) (max_spec_len call) (cu_num_draft_tokens call)"
    and dl: "length (draft_token_ids call) = length (target_logits call)"
    using assms(1) by (simp_all add: call_ok_def)
  note sl = detect_slot [OF assms(1) lay b(1) _ b(2) det xs refl, of q]
  note len = detect_lengths [OF dl, where cfg = cfg and ids = ids and d = d and k = k and probs = probs
      and req = r and pos = p and valid = v and in_tk = in_tk, folded det]
  have item: "it_draft (xs ! q) = draft_token_ids call ! flat ?nd b q"
    "it_teacher (xs ! q) = teacher_argmax d call ! flat ?nd b q" if "q < ?nd ! b"
    using that layout_nth(4) [OF ok lay b(1) that] by (simp_all add: xs draft_items_def teacher_argmax_def Let_def)
  have fi: "find_index it_diverges xs = Some q \<Longrightarrow> q < ?nd ! b" by (simp add: find_index_Some xs)
  have rows: "length (b_output bf) = length ?nd" "length (b_teacher bf) = length ?nd" using bf(1) by (simp_all add: rows_ok_def)
  note s1 = scatter2_nth [OF ok lay len(1) b(1), of "b_output bf" q "draft_token_ids call"]
  note s2 = scatter2_nth [OF ok lay len(2) b(1), of "scatter2 (d_student det) r p (draft_token_ids call) (b_output bf)" q "teacher_argmax d call"]
  note s3 = scatter2_nth [OF ok lay len(2) b(1), of "b_teacher bf" q "map (\<lambda>_. True) (d_emit_trigger det)"]
  show "b_output (emit_phase d call r p det bf) ! b ! q
       = (if q < ?nd ! b
          then (case find_index it_diverges xs of
                  None \<Rightarrow> token_of (accept (xs ! q))
                | Some f \<Rightarrow> if q < f then token_of (accept (xs ! q))
                            else if takeover_enabled cfg \<and> q = f then it_teacher (xs ! q) else PLACEHOLDER_TOKEN_ID)
          else PLACEHOLDER_TOKEN_ID)"
    using s1 s2 sl item bf rows
    by (auto simp: emit_phase_def Let_def accept_def split: option.splits)
  show "b_teacher (emit_phase d call r p det bf) ! b ! q
       = (takeover_enabled cfg \<and> find_index it_diverges xs = Some q)"
    using s3 sl fi bf rows layout_nth(4) [OF ok lay b(1), of q] len
    by (auto simp: emit_phase_def Let_def)
qed

lemma stop_phase_student_row:
  assumes call: "call_ok call"
    and lay: "request_layout (num_draft_tokens call) (length (target_logits call)) (max_spec_len call)
      (cu_num_draft_tokens call) = (r, p, v)"
    and b: "b < length (num_draft_tokens call)" "\<not> in_tk ! b"
    and det: "det = detect cfg ids d call k probs r p v in_tk"
    and xs: "xs = draft_items ids d call k probs b" and width: "width = max_spec_len call + 1"
    and bf: "rows_ok (length (num_draft_tokens call)) bf"
  shows "row_of b (fst (stop_phase stats sid r p (draft_token_ids call) width (d_emit_stop det) bf st))
    = (case (find_index it_diverges xs, sid) of
         (Some f, Some s) \<Rightarrow>
           if takeover_enabled cfg then row_of b bf
           else (row_of b bf)\<lparr>v_output := ((b_output bf ! b)[f := it_draft (xs ! f)])[f + 1 := s],
                              v_stop := (b_stop bf ! b)[f + 1 := True]\<rparr>
       | _ \<Rightarrow> row_of b bf)"
proof -
  let ?nd = "num_draft_tokens call" and ?es = "d_emit_stop det"
  have ok: "layout_ok ?nd (length (target_logits call)) (max_spec_len call) (cu_num_draft_tokens call)"
    and dl: "length (draft_token_ids call) = length (target_logits call)"
    using call by (simp_all add: call_ok_def)
  have len: "length ?es = length (target_logits call)" using detect_lengths(3) [OF dl] det by simp
  note sl = detect_slot(3) [OF call lay b(1) _ b(2) det xs refl]
  have hit: "i \<in> set (true_columns ?es) \<and> r ! i = b \<longleftrightarrow>
      (\<exists>f. \<not> takeover_enabled cfg \<and> find_index it_diverges xs = Some f \<and> i = flat ?nd b f)" for i
  proof
    assume i: "i \<in> set (true_columns ?es) \<and> r ! i = b"
    then obtain c q where cq: "c < length ?nd" "q < ?nd ! c" "i = flat ?nd c q"
      using layout_slot_cases [OF ok] len by (auto simp: set_true_columns)
    with i layout_nth(1) [OF ok lay cq(1,2)] sl [of q]
    show "\<exists>f. \<not> takeover_enabled cfg \<and> find_index it_diverges xs = Some f \<and> i = flat ?nd b f"
      by (auto simp: set_true_columns)
  next
    assume "\<exists>f. \<not> takeover_enabled cfg \<and> find_index it_diverges xs = Some f \<and> i = flat ?nd b f"
    then obtain f where f: "\<not> takeover_enabled cfg" "find_index it_diverges xs = Some f" "i = flat ?nd b f" by blast
    then have "f < ?nd ! b" by (simp add: find_index_Some xs)
    with f sl layout_nth [OF ok lay b(1)] len show "i \<in> set (true_columns ?es) \<and> r ! i = b"
      by (simp add: set_true_columns)
  qed
  show ?thesis
  proof (cases "\<exists>f. \<not> takeover_enabled cfg \<and> find_index it_diverges xs = Some f")
    case False
    then have "\<not> (i \<in> set (true_columns ?es) \<and> r ! i = b)" for i using hit by blast
    then have "quiet r b ?es" by (simp add: quiet_def set_true_columns)
    from stop_phase_quiet [OF this] False show ?thesis by (auto split: option.splits)
  next
    case True
    then obtain f where f: "\<not> takeover_enabled cfg" "find_index it_diverges xs = Some f" by blast
    let ?i = "flat ?nd b f"
    have i: "?i \<in> set (true_columns ?es)" "r ! ?i = b" using hit f by blast+
    have uniq: "j = ?i" if "j \<in> set (true_columns ?es)" "r ! j = b" for j using hit that f by auto
    have any: "any1 ?es" using i(1) by (auto simp: any1_def list_ex_length set_true_columns)
    have fb: "f < ?nd ! b" using f by (simp add: find_index_Some xs)
    have small: "f + 1 < width" using ok fb b(1) width by (auto simp: layout_ok_def list_all_length)
    have draft: "draft_token_ids call ! ?i = it_draft (xs ! f)" using fb by (simp add: xs draft_items_def Let_def)
    have pf: "f = nat (p ! ?i)" using layout_nth(2) [OF ok lay b(1) fb] by simp
    show ?thesis
    proof (cases sid)
      case None
      then show ?thesis using any f by (simp add: stop_phase_def)
    next
      case (Some s)
      have "row_of b (fold (place_stop r p (draft_token_ids call) s width) (true_columns ?es) bf)
         = (row_of b bf)\<lparr>v_output := ((b_output bf ! b)[f := draft_token_ids call ! ?i])[f + 1 := s],
             v_stop := (b_stop bf ! b)[f + 1 := True]\<rparr>"
        using place_stop_fold_row [OF bf b(1) i(1) sorted_true_columns(2) i(2) uniq pf refl, where width = width] small
        by simp
      then show ?thesis using Some any f draft by (simp add: stop_phase_def Let_def)
    qed
  qed
qed

section \<open>The sampler on a student row\<close>

lemma trim_phase_other_row:
  assumes "rows_ok n bf" "b < n" "\<not> in_tk ! b"
  shows "(row_of b (fst (trim_phase stats cfg sid bids width exts in_tk bf st)))\<lparr>v_boundary := z\<rparr>
       = (row_of b bf)\<lparr>v_boundary := z\<rparr>"
proof -
  let ?bf1 = "bf\<lparr>b_boundary := map2 (map2 (\<lambda>e t. e \<and> t \<in> set bids)) (b_takeover bf) (b_output bf)\<rparr>"
  have ok: "rows_ok n ?bf1" using assms(1) by (simp add: rows_ok_def)
  have "b \<notin> set (true_columns in_tk)" using assms(3) by (simp add: set_true_columns)
  from trim_fold_other(1) [OF ok assms(2) this, of stats cfg sid width exts st]
  show ?thesis by (simp add: trim_phase_def row_of_def Let_def)
qed

lemma no_triggers:
  assumes "\<not> takeover_enabled cfg" "det = detect cfg ids d call k probs r p v in_tk"
    and "length (draft_token_ids call) = length (target_logits call)"
  shows "\<not> any1 (d_emit_trigger det)"
  using assms(1,3) unfolding assms(2) any1_def list_ex_length detect_lengths [OF assms(3)]
  by (auto simp: detect_def emit_masks_def raw_trigger_def in_student_topk_def teacher_argmax_def Let_def)

text \<open>What the phase for takeovers without paragraphs does to a row that is not in takeover.\<close>

lemma trigger_only_student_row:
  assumes call: "call_ok call"
    and lay: "request_layout (num_draft_tokens call) (length (target_logits call)) (max_spec_len call)
      (cu_num_draft_tokens call) = (r, p, v)"
    and b: "b < length (num_draft_tokens call)" "\<not> in_tk ! b"
    and det: "det = detect cfg ids d call k probs r p v in_tk"
    and xs: "xs = draft_items ids d call k probs b" and width: "width = max_spec_len call + 1"
    and bf: "rows_ok (length (num_draft_tokens call)) bf" and len: "length exts = length (num_draft_tokens call)"
    and uniq: "takeover_enabled cfg \<and> paragraphs_per_takeover cfg \<le> 0 \<and> exts ! b \<noteq> None
      \<longrightarrow> (\<forall>c < length exts. c \<noteq> b \<longrightarrow> exts ! c \<noteq> exts ! b)"
    and sid: "sid = (if max_takeovers cfg > 0 then stop_id ids else None)"
  shows "row_of b (fst (trigger_only_phase stats cfg sid width exts r p (d_emit_trigger det) bf st))
    = (case (find_index it_diverges xs, handoff_end cfg (stop_id ids) (exts ! b) st) of
         (Some f, Some s) \<Rightarrow>
           if takeover_enabled cfg then fst (finish_view cfg (Some s) width f (completed_takeovers st (the (exts ! b))) (row_of b bf))
           else row_of b bf
       | _ \<Rightarrow> row_of b bf)"
proof (cases "takeover_enabled cfg \<and> paragraphs_per_takeover cfg \<le> 0 \<and> 0 < max_takeovers cfg")
  case False
  then have "trigger_only_phase stats cfg sid width exts r p (d_emit_trigger det) bf st = (bf, st)"
    using no_triggers [OF _ det] call by (auto simp: trigger_only_phase_def call_ok_def)
  then show ?thesis using False by (auto simp: handoff_end_def split: option.splits)
next
  case True
  let ?nd = "num_draft_tokens call" and ?es = "d_emit_trigger det"
  have ok: "layout_ok ?nd (length (target_logits call)) (max_spec_len call) (cu_num_draft_tokens call)"
    and dl: "length (draft_token_ids call) = length (target_logits call)"
    using call by (simp_all add: call_ok_def)
  have el: "length ?es = length (target_logits call)" using detect_lengths(2) [OF dl] det by simp
  note sl = detect_slot(2) [OF call lay b(1) _ b(2) det xs refl]
  have req: "\<forall>i < length ?es. r ! i < length ?nd" using layout_req_less [OF ok lay] el by simp
  have hit: "find_index it_diverges xs = Some f \<and> i = flat ?nd b f \<and> f < ?nd ! b"
    if "i < length ?es" "?es ! i" "r ! i = b" "f = nat (p ! i)" for i f
  proof -
    have "i < length (target_logits call)" using that(1) el by simp
    then obtain c q where cq: "c < length ?nd" "q < ?nd ! c" "i = flat ?nd c q" by (rule layout_slot_cases [OF ok])
    with that layout_nth(1,2) [OF ok lay cq(1,2)] sl [of q] show ?thesis by auto
  qed
  show ?thesis
  proof (cases "find_index it_diverges xs")
    case None
    then have "quiet r b ?es" using hit by (auto simp: quiet_def)
    then have quiet: "\<forall>i \<in> set (true_columns ?es). r ! i < length ?nd \<and> r ! i \<noteq> b"
      using quiet_columns req by (auto simp: set_true_columns)
    show ?thesis using trigger_fold_other(1) [OF bf b(1) quiet] None by (simp add: trigger_only_phase_def)
  next
    case (Some f)
    let ?i = "flat ?nd b f"
    have f: "f < ?nd ! b" using Some by (simp add: find_index_Some xs)
    note n = layout_nth [OF ok lay b(1) f]
    have i: "?i < length ?es" "?es ! ?i" "r ! ?i = b" "nat (p ! ?i) = f" using n sl [OF f] True Some el by auto
    have one: "\<forall>j < length ?es. ?es ! j \<and> r ! j = b \<longrightarrow> j = ?i" using hit Some by auto
    have u: "exts ! b \<noteq> None \<longrightarrow> (\<forall>c < length ?nd. c \<noteq> b \<longrightarrow> exts ! c \<noteq> exts ! b)" using uniq True len by simp
    note row = trigger_only_row [OF bf b(1) req i(1-3) one u, where cfg = cfg and sid = sid and width = width and pos = p and st = st and stats = stats,
        unfolded i(4)]
    have mode: "paragraphs_per_takeover cfg \<le> 0" "0 < max_takeovers cfg" "takeover_enabled cfg" "sid = stop_id ids" using True sid by simp_all
    show ?thesis
    proof (cases "exts ! b")
      case None
      then show ?thesis using row [OF mode(1,2)] by (simp add: handoff_end_def split: option.splits)
    next
      case (Some ext)
      then show ?thesis using row [OF mode(1,2)] mode \<open>find_index it_diverges xs = Some f\<close>
        by (cases "stop_id ids") (simp_all add: handoff_end_def finish_view_def Let_def)
    qed
  qed
qed

lemma student_step_walk:
  assumes call: "call_ok call" "std_ok d call" "length exts = length (num_draft_tokens call)"
    and b: "b < length exts" "\<not> in_takeover cfg st exts ! b"
    and uniq: "takeover_enabled cfg \<and> paragraphs_per_takeover cfg \<le> 0 \<and> exts ! b \<noteq> None
      \<longrightarrow> (\<forall>c < length exts. c \<noteq> b \<longrightarrow> exts ! c \<noteq> exts ! b)"
    and step: "relay_step stats cfg ids d call k probs exts st = (bf, th, st')"
    and width: "width = max_spec_len call + 1" and xs: "xs = draft_items ids d call k probs b"
    and W: "W = pad_row width (student_walk (takeover_enabled cfg) (stop_id ids) (handoff_end cfg (stop_id ids) (exts ! b) st) xs)"
  shows "b_output bf ! b = map token_of W" "b_teacher bf ! b = map is_teacher W" "b_stop bf ! b = map is_stop W"
proof -
  let ?n = "length (num_draft_tokens call)"
  let ?in_tk = "in_takeover cfg st exts" and ?sid = "if max_takeovers cfg > 0 then stop_id ids else None"
  obtain r p v where lay: "request_layout (num_draft_tokens call) (length (target_logits call)) (max_spec_len call)
      (cu_num_draft_tokens call) = (r, p, v)" by (metis prod_cases3)
  let ?det = "detect cfg ids d call k probs r p v ?in_tk"
  obtain bf0 st1 bf2 st2 es bf3 st3 st4 where
    ph0: "fst (takeover_phase stats d call ?in_tk (init_bufs ?n width) st) = bf0"
    and st1: "\<forall>ext. req_state ext st1 = req_state ext st"
    and ph2: "stop_phase stats (stop_id ids) r p (draft_token_ids call) width (d_emit_stop ?det)
       (emit_phase d call r p ?det bf0) st1 = (bf2, st2, es)"
    and ph3: "trigger_only_phase stats cfg ?sid width exts r p (d_emit_trigger ?det) bf2 st2 = (bf3, st3)"
    and ph4: "trim_phase stats cfg ?sid (boundary_ids ids) width exts ?in_tk bf3 st3 = (bf, st4)"
    and bud: "\<forall>ext. req_state ext st' = req_state ext (budget_phase cfg exts (trigger_rows ?n r (d_emit_trigger ?det))
       (trigger_rows ?n r (trigger_boundary (boundary_ids ids) (teacher_argmax d call) (d_emit_trigger ?det)))
       ?in_tk bf st4)"
    by (rule relay_step_phases [OF step lay refl refl refl width refl])
  have dl: "length (draft_token_ids call) = length (target_logits call)"
    and small: "num_draft_tokens call ! b < width"
    using call b(1) by (auto simp: width call_ok_def layout_ok_def list_all_length le_imp_less_Suc)
  have in_tk: "length ?in_tk = ?n" "b < length ?in_tk" "b < ?n" using call(3) b(1) by (simp_all add: in_takeover_def)
  note row0 = takeover_phase_student_row [OF call(2) in_tk(1,2) b(2) width ph0 [symmetric]]
  have ok0: "rows_ok ?n bf0"
    using takeover_phase_rows_ok [OF call(2) in_tk(1), of "init_bufs ?n width" stats st] ph0
    by (simp add: rows_ok_def init_bufs_def)
  let ?bf1 = "emit_phase d call r p ?det bf0"
  note ok1 = emit_phase_rows_ok [OF ok0, of d call r p ?det]
  have ok2: "rows_ok ?n bf2"
    using stop_phase_rows_ok [OF ok1, of stats "stop_id ids" r p "draft_token_ids call" width "d_emit_stop ?det" st1] ph2 by simp
  have ok3: "rows_ok ?n bf3"
    using trigger_only_rows_ok [OF ok2, of stats cfg ?sid width exts r p "d_emit_trigger ?det" st2] ph3 by simp
  have row: "b_output bf ! b = v_output (row_of b bf3)" "b_teacher bf ! b = v_teacher (row_of b bf3)"
    "b_stop bf ! b = v_stop (row_of b bf3)"
    using trim_phase_other_row [OF ok3 in_tk(3) b(2), where stats = stats and cfg = cfg and sid = ?sid and bids = "boundary_ids ids"
        and width = width and exts = exts and st = st3 and z = "[]"] ph4
    by (simp_all add: row_of_def)
  let ?stops = "\<not> takeover_enabled cfg \<and> stop_id ids \<noteq> None \<and> find_index it_diverges xs \<noteq> None"
  let ?f = "the (find_index it_diverges xs)"
  let ?fin = "handoff_end cfg (stop_id ids) (exts ! b) st"
  let ?ends = "takeover_enabled cfg \<and> ?fin \<noteq> None \<and> find_index it_diverges xs \<noteq> None"
  have count: "completed_takeovers st2 e = completed_takeovers st e" for e
    using stop_phase_state [of e stats "stop_id ids" r p "draft_token_ids call" width "d_emit_stop ?det" "emit_phase d call r p ?det bf0" st1] ph2 st1
    by (simp add: req_state_def)
  then have fin2: "handoff_end cfg (stop_id ids) (exts ! b) st2 = ?fin" by (simp add: handoff_end_def split: option.splits)
  have f_small: "?f + 1 < width" if some: "find_index it_diverges xs \<noteq> None"
  proof -
    obtain f where f: "find_index it_diverges xs = Some f" using some by (cases "find_index it_diverges xs") auto
    then have "f < num_draft_tokens call ! b" by (simp add: find_index_Some xs)
    then show ?thesis using small f by simp
  qed
  have row3: "row_of b bf3 = (if ?ends then fst (finish_view cfg ?fin width ?f (completed_takeovers st (the (exts ! b))) (row_of b bf2)) else row_of b bf2)"
    using trigger_only_student_row [OF call(1) lay in_tk(3) b(2) refl xs width ok2 call(3) uniq refl, where stats = stats and st = st2, unfolded ph3 fst_conv fin2] count
    by (auto split: option.splits)
  have ended: "fst (finish_view cfg ?fin width ?f (completed_takeovers st (the (exts ! b))) v)
      = v\<lparr>v_output := (v_output v)[?f + 1 := the ?fin], v_teacher := (v_teacher v)[?f + 1 := False],
          v_takeover := (v_takeover v)[?f + 1 := False], v_boundary := (v_boundary v)[?f + 1 := False],
          v_standard_target := (v_standard_target v)[?f + 1 := False], v_stop := (v_stop v)[?f + 1 := True], v_stopped := True\<rparr>"
    if "?ends" for v
    using that f_small by (auto simp: finish_view_def handoff_end_def Let_def split: option.splits if_splits)
  have row2: "b_output bf ! b = (if ?stops then ((b_output ?bf1 ! b)[?f := it_draft (xs ! ?f)])[?f + 1 := the (stop_id ids)]
      else if ?ends then (b_output ?bf1 ! b)[?f + 1 := the ?fin] else b_output ?bf1 ! b)"
    "b_teacher bf ! b = (if ?ends then (b_teacher ?bf1 ! b)[?f + 1 := False] else b_teacher ?bf1 ! b)"
    "b_stop bf ! b = (if ?stops \<or> ?ends then (b_stop ?bf1 ! b)[?f + 1 := True] else b_stop ?bf1 ! b)"
    using row [unfolded row3] ended stop_phase_student_row [OF call(1) lay in_tk(3) b(2) refl xs width ok1, where cfg = cfg and stats = stats
        and sid = "stop_id ids" and st = st1, unfolded ph2 fst_conv]
    by (auto simp: row_of_def split: option.splits if_splits)
  note slot = emit_phase_slot [OF call(1) lay in_tk(3) b(2) refl xs ok0 row0(1,2)]
  have len1: "length (b_output ?bf1 ! b) = width" "length (b_teacher ?bf1 ! b) = width" "b_stop ?bf1 ! b = replicate width False"
    using row0 by (simp_all add: emit_phase_def Let_def)
  have lw: "length xs = num_draft_tokens call ! b" "length W = width"
    using length_pad_walk [of xs width] small W xs by simp_all
  note pad = pad_walk_nth [of xs width _ "takeover_enabled cfg" "stop_id ids" ?fin, folded W, unfolded lw, OF small]
  have f: "f < num_draft_tokens call ! b" if "find_index it_diverges xs = Some f" for f
    using that lw by (simp add: find_index_Some)
  have l: "length (b_output bf ! b) = width" "length (b_teacher bf ! b) = width" "length (b_stop bf ! b) = width"
    using row2 len1 by simp_all
  show "b_output bf ! b = map token_of W"
  proof (rule nth_equalityI)
    fix q assume "q < length (b_output bf ! b)"
    then have q: "q < width" using l by simp
    show "b_output bf ! b ! q = map token_of W ! q"
      using slot(1) [OF q] pad [OF q] q lw(2) len1(1) small f
      by (auto simp: row2(1) nth_list_update split: option.splits if_splits)
  qed (use l lw in simp)
  show "b_teacher bf ! b = map is_teacher W"
  proof (rule nth_equalityI)
    fix q assume "q < length (b_teacher bf ! b)"
    then have q: "q < width" using l by simp
    show "b_teacher bf ! b ! q = map is_teacher W ! q"
      using slot(2) [OF q] pad [OF q] q lw(2) len1(2)
      by (auto simp: row2(2) nth_list_update is_teacher_def accept_def split: option.splits if_splits)
  qed (use l lw in simp)
  show "b_stop bf ! b = map is_stop W"
  proof (rule nth_equalityI)
    fix q assume "q < length (b_stop bf ! b)"
    then have q: "q < width" using l by simp
    show "b_stop bf ! b ! q = map is_stop W ! q"
      using pad [OF q] q lw(2) small f
      by (auto simp: row2(3) len1(3) nth_list_update is_stop_def accept_def split: option.splits if_splits)
  qed (use l lw in simp)
qed

text \<open>
  [C3] Equivalence with the sequential reference: on every row of a well-formed call that is not in takeover, the output of
  the vectorised sampler, its teacher marks and its internal-stop marks are those of \<open>student_walk\<close> over the request's own
  drafts, in every mode and configuration. A draft diverges when it is in the vocabulary, the teacher's first choice is a
  reflection token other than the draft, and that token is not among the student's top-k (the README's trigger is stricter:
  no reflection token at all among them; see \<open>handoff_despite_reflection_token\<close>). The student's valid
  drafts are accepted up to the first divergence; there, in relay mode the teacher's token is emitted and marked,
  followed, when takeovers have no paragraphs and this was the last one, by the internal stop token; in trigger-stop mode
  the student's token is kept and followed by the internal stop token, or neither is emitted when no stop token is
  configured. Nothing is emitted after that, and no other request matters (with takeovers of no paragraphs, because no
  two requests of a batch have the same id).
\<close>

theorem student_step_refines_walk:
  assumes "call_ok call" "std_ok d call" "length exts = length (num_draft_tokens call)"
    and "b < length exts" "\<not> in_takeover cfg st exts ! b"
    and "takeover_enabled cfg \<and> paragraphs_per_takeover cfg \<le> 0 \<and> exts ! b \<noteq> None
      \<longrightarrow> (\<forall>c < length exts. c \<noteq> b \<longrightarrow> exts ! c \<noteq> exts ! b)"
    and "relay_step stats cfg ids d call k probs exts st = (bf, th, st')"
  defines "W \<equiv> pad_row (max_spec_len call + 1)
     (student_walk (takeover_enabled cfg) (stop_id ids) (handoff_end cfg (stop_id ids) (exts ! b) st) (draft_items ids d call k probs b))"
  shows "b_output bf ! b = map token_of W \<and> b_teacher bf ! b = map is_teacher W \<and> b_stop bf ! b = map is_stop W"
  using student_step_walk [OF assms(1-7) refl refl W_def [THEN meta_eq_to_obj_eq]] by simp

theorem student_step_refines_walk_witness:
  "case relay_step False ex_cfg ex_ids ex_deps ex_call 1 ex_probs ex_exts ex_state of (bf, th, st') \<Rightarrow>
     b_output bf ! 0 = [1, 5, -1] \<and> b_teacher bf ! 0 = [False, True, False]"
proof -
  obtain bf th st' where step: "relay_step False ex_cfg ex_ids ex_deps ex_call 1 ex_probs ex_exts ex_state = (bf, th, st')"
    by (metis prod_cases3)
  have "pad_row (max_spec_len ex_call + 1) (student_walk (takeover_enabled ex_cfg) (stop_id ex_ids)
      (handoff_end ex_cfg (stop_id ex_ids) (ex_exts ! 0) ex_state) (draft_items ex_ids ex_deps ex_call 1 ex_probs 0)) = [Student 1, Teacher 5, Hole]" by code_simp
  moreover have "0 < length ex_exts" "\<not> in_takeover ex_cfg ex_state ex_exts ! 0"
    "\<not> paragraphs_per_takeover ex_cfg \<le> 0" by code_simp+
  ultimately show ?thesis
    using student_step_refines_walk [OF ex_wf _ _ _ step, of 0] by (simp add: step is_teacher_def)
qed

text \<open>
  The project's README describes a stricter trigger: no reflection token at all in the student's top-k. The code looks for
  the teacher's choice only. Here the student's first choice, its draft, is a reflection token, and the handoff fires.
\<close>

lemma handoff_despite_reflection_token:
  defines "two \<equiv> ex_ids\<lparr>reflection_ids := [5, 2]\<rparr>"
  defines "x \<equiv> draft_items two ex_deps ex_call 1 ex_probs 0 ! 1"
  shows "it_diverges x \<and> it_draft x \<in> set (reflection_ids two) \<and> it_draft x \<in> int ` set (topk ex_deps 1 (ex_probs ! 1))"
  unfolding x_def two_def by code_simp

section \<open>A trigger arms the takeover\<close>

lemma list_update_True_nth: "b < length rows \<Longrightarrow> rows[k := True] ! b \<longleftrightarrow> k = b \<or> rows ! b"
  by (cases "k = b") simp_all

lemma trigger_rows_nth:
  assumes "b < n"
  shows "trigger_rows n req sel ! b \<longleftrightarrow> (\<exists>i < length sel. sel ! i \<and> req ! i = b)"
proof -
  have "length rows = n \<Longrightarrow> fold (\<lambda>i rows. rows[req ! i := True]) is rows ! b
      \<longleftrightarrow> rows ! b \<or> (\<exists>i \<in> set is. req ! i = b)" for "is" and rows :: "bool list"
    using assms by (induction "is" arbitrary: rows) (auto simp: list_update_True_nth)
  from this [of "replicate n False" "true_columns sel"] assms show ?thesis
    by (auto simp: trigger_rows_def set_true_columns)
qed

lemma trigger_slot:
  assumes "call_ok call"
    and lay: "request_layout (num_draft_tokens call) (length (target_logits call)) (max_spec_len call)
      (cu_num_draft_tokens call) = (r, p, v)"
    and b: "b < length (num_draft_tokens call)" "\<not> in_tk ! b"
    and det: "det = detect cfg ids d call k probs r p v in_tk"
    and xs: "xs = draft_items ids d call k probs b"
  shows "(\<exists>i < length (d_emit_trigger det). d_emit_trigger det ! i \<and> P i \<and> r ! i = b)
    \<longleftrightarrow> takeover_enabled cfg \<and> (\<exists>f. find_index it_diverges xs = Some f \<and> P (flat (num_draft_tokens call) b f))"
proof -
  let ?nd = "num_draft_tokens call"
  have ok: "layout_ok ?nd (length (target_logits call)) (max_spec_len call) (cu_num_draft_tokens call)"
    and dl: "length (draft_token_ids call) = length (target_logits call)"
    using assms(1) by (simp_all add: call_ok_def)
  have len: "length (d_emit_trigger det) = length (target_logits call)" using detect_lengths(2) [OF dl] det by simp
  note sl = detect_slot(2) [OF assms(1) lay b(1) _ b(2) det xs refl]
  show ?thesis
  proof (intro iffI; elim exE conjE)
    fix i assume i: "i < length (d_emit_trigger det)" "d_emit_trigger det ! i" "P i" "r ! i = b"
    then obtain c q where cq: "c < length ?nd" "q < ?nd ! c" "i = flat ?nd c q"
      using layout_slot_cases [OF ok] len by auto
    with i layout_nth(1) [OF ok lay cq(1,2)] sl [of q]
    show "takeover_enabled cfg \<and> (\<exists>f. find_index it_diverges xs = Some f \<and> P (flat ?nd b f))" by auto
  next
    fix f assume f: "takeover_enabled cfg" "find_index it_diverges xs = Some f" "P (flat ?nd b f)"
    then have "f < ?nd ! b" by (simp add: find_index_Some xs)
    with f sl layout_nth [OF ok lay b(1)] len
    show "\<exists>i < length (d_emit_trigger det). d_emit_trigger det ! i \<and> P i \<and> r ! i = b"
      by (intro exI [of _ "flat ?nd b f"]) simp
  qed
qed

lemma item_teacher:
  assumes "call_ok call" "b < length (num_draft_tokens call)" "xs = draft_items ids d call k probs b"
    and "f < num_draft_tokens call ! b"
  shows "teacher_argmax d call ! flat (num_draft_tokens call) b f = it_teacher (xs ! f)"
  using assms flat_less [OF assms(2,4)]
  by (simp add: draft_items_def teacher_argmax_def call_ok_def layout_ok_def Let_def)

lemma student_step_budget:
  assumes call: "call_ok call" "length exts = length (num_draft_tokens call)"
    and b: "b < length exts" "exts ! b = Some ext" "\<And>c. c < length exts \<Longrightarrow> c \<noteq> b \<Longrightarrow> exts ! c \<noteq> Some ext"
    and tk: "\<not> in_takeover cfg st exts ! b"
    and step: "relay_step stats cfg ids d call k probs exts st = (bf, th, st')"
    and xs: "xs = draft_items ids d call k probs b"
  shows "(tokens_remaining st' ext, paragraphs_remaining st' ext) =
     (case find_index it_diverges xs of
        None \<Rightarrow> (tokens_remaining st ext, paragraphs_remaining st ext)
      | Some f \<Rightarrow>
          if \<not> takeover_enabled cfg then (tokens_remaining st ext, paragraphs_remaining st ext)
          else let left = paragraphs_per_takeover cfg - (if it_teacher (xs ! f) \<in> set (boundary_ids ids) then 1 else 0)
               in if left \<le> 0 then (None, None) else (Some (max_takeover_tokens cfg), Some left))"
proof -
  let ?n = "length (num_draft_tokens call)" and ?in_tk = "in_takeover cfg st exts"
  let ?sid = "if max_takeovers cfg > 0 then stop_id ids else None" and ?width = "max_spec_len call + 1"
  obtain r p v where lay: "request_layout (num_draft_tokens call) (length (target_logits call)) (max_spec_len call)
      (cu_num_draft_tokens call) = (r, p, v)" by (metis prod_cases3)
  let ?det = "detect cfg ids d call k probs r p v ?in_tk"
  let ?nt = "trigger_rows ?n r (d_emit_trigger ?det)"
  let ?tb = "trigger_rows ?n r (trigger_boundary (boundary_ids ids) (teacher_argmax d call) (d_emit_trigger ?det))"
  obtain bf0 st1 bf2 st2 es bf3 st3 st4 where
    "fst (takeover_phase stats d call ?in_tk (init_bufs ?n ?width) st) = bf0"
    and st1: "\<forall>ext. req_state ext st1 = req_state ext st"
    and ph2: "stop_phase stats (stop_id ids) r p (draft_token_ids call) ?width (d_emit_stop ?det)
       (emit_phase d call r p ?det bf0) st1 = (bf2, st2, es)"
    and ph3: "trigger_only_phase stats cfg ?sid ?width exts r p (d_emit_trigger ?det) bf2 st2 = (bf3, st3)"
    and ph4: "trim_phase stats cfg ?sid (boundary_ids ids) ?width exts ?in_tk bf3 st3 = (bf, st4)"
    and bud: "\<forall>ext. req_state ext st' = req_state ext (budget_phase cfg exts ?nt ?tb ?in_tk bf st4)"
    by (rule relay_step_phases [OF step lay refl refl refl refl refl])
  have eq: "tokens_remaining st4 ext = tokens_remaining st ext \<and> paragraphs_remaining st4 ext = paragraphs_remaining st ext"
    using phases_budgets [OF st1 ph2 ph3 ph4] by blast
  have bn: "b < ?n" using b(1) call(2) by simp
  have dl: "length (draft_token_ids call) = length (target_logits call)" using call(1) by (simp add: call_ok_def)
  have tl: "length (trigger_boundary (boundary_ids ids) (teacher_argmax d call) (d_emit_trigger ?det)) = length (d_emit_trigger ?det)"
    using detect_lengths(2) [OF dl] by (simp add: trigger_boundary_def teacher_argmax_def)
  have nt: "?nt ! b \<longleftrightarrow> takeover_enabled cfg \<and> find_index it_diverges xs \<noteq> None"
    using trigger_slot [OF call(1) lay bn tk refl xs, where cfg = cfg and P = "\<lambda>_. True"] bn by (auto simp: trigger_rows_nth)
  have "?tb ! b \<longleftrightarrow> (\<exists>i < length (d_emit_trigger ?det). d_emit_trigger ?det ! i
      \<and> teacher_argmax d call ! i \<in> set (boundary_ids ids) \<and> r ! i = b)"
    using bn tl detect_lengths(2) [OF dl] by (auto simp: trigger_rows_nth trigger_boundary_def teacher_argmax_def)
  also have "\<dots> \<longleftrightarrow> takeover_enabled cfg \<and> (\<exists>f. find_index it_diverges xs = Some f
      \<and> teacher_argmax d call ! flat (num_draft_tokens call) b f \<in> set (boundary_ids ids))"
    by (rule trigger_slot [OF call(1) lay bn tk refl xs])
  also have "\<dots> \<longleftrightarrow> takeover_enabled cfg \<and> (\<exists>f. find_index it_diverges xs = Some f
      \<and> it_teacher (xs ! f) \<in> set (boundary_ids ids))"
    using item_teacher [OF call(1) bn xs] by (metis find_index_Some length_draft_items xs)
  finally have tb: "?tb ! b \<longleftrightarrow> takeover_enabled cfg \<and> (\<exists>f. find_index it_diverges xs = Some f
      \<and> it_teacher (xs ! f) \<in> set (boundary_ids ids))" .
  show ?thesis
    using bud [rule_format, of ext] budget_phase_view [OF b, of cfg ?nt ?tb ?in_tk bf st4] eq nt tb tk
    by (auto simp: budget_view_def req_state_def Let_def split: option.splits if_splits)
qed

text \<open>
  [C4] A divergence (the teacher's first choice is a reflection token, differs from the valid draft
  and is itself not in the student's top-k; the README would also ask that no other reflection token is there, which the
  code does not test, see \<open>handoff_despite_reflection_token\<close>) in relay mode arms the takeover of that request and of no other, in a
  well-formed call whose requests have different ids: the request gets the
  full token budget and the paragraph budget, less one when the teacher's token is itself a paragraph
  boundary; if that leaves no paragraph, the takeover is over at once. Without a divergence, and in
  trigger-stop mode, the budgets are untouched.
\<close>

theorem divergence_arms_takeover:
  assumes "call_ok call" "length exts = length (num_draft_tokens call)"
    and "b < length exts" "exts ! b = Some ext" "\<And>c. c < length exts \<Longrightarrow> c \<noteq> b \<Longrightarrow> exts ! c \<noteq> Some ext"
    and "\<not> in_takeover cfg st exts ! b"
    and "relay_step stats cfg ids d call k probs exts st = (bf, th, st')"
  defines "xs \<equiv> draft_items ids d call k probs b"
  shows "(tokens_remaining st' ext, paragraphs_remaining st' ext) =
     (case find_index it_diverges xs of
        None \<Rightarrow> (tokens_remaining st ext, paragraphs_remaining st ext)
      | Some f \<Rightarrow>
          if \<not> takeover_enabled cfg then (tokens_remaining st ext, paragraphs_remaining st ext)
          else let left = paragraphs_per_takeover cfg - (if it_teacher (xs ! f) \<in> set (boundary_ids ids) then 1 else 0)
               in if left \<le> 0 then (None, None) else (Some (max_takeover_tokens cfg), Some left))"
  using student_step_budget [OF assms(1-7) xs_def [THEN meta_eq_to_obj_eq]] .

theorem divergence_arms_takeover_witness:
  "case relay_step True ex_cfg ex_ids ex_deps ex_call 1 ex_probs ex_exts ex_state of (bf, th, st') \<Rightarrow>
     tokens_remaining st' ''a'' = Some 8 \<and> paragraphs_remaining st' ''a'' = Some 2"
proof -
  obtain bf th st' where step: "relay_step True ex_cfg ex_ids ex_deps ex_call 1 ex_probs ex_exts ex_state = (bf, th, st')"
    by (metis prod_cases3)
  have "find_index it_diverges (draft_items ex_ids ex_deps ex_call 1 ex_probs 0) = Some 1"
    "it_teacher (draft_items ex_ids ex_deps ex_call 1 ex_probs 0 ! 1) \<notin> set (boundary_ids ex_ids)"
    "0 < length ex_exts" "ex_exts ! 0 = Some ''a''" "\<not> in_takeover ex_cfg ex_state ex_exts ! 0" by code_simp+
  then show ?thesis
    using divergence_arms_takeover [OF ex_wf(1,3) _ _ _ _ step, of 0 "''a''"] ex_exts_distinct [of _ 0]
    unfolding step by (simp add: ex_cfg_def)
qed

end
