(* ===== verification/Skd_Sampler.thy ===== *)
theory Skd_Sampler
  imports Complex_Main Relay_Student
begin

text \<open>
  The SKD sampler, \<open>_skd_topk_rejection_sample\<close> of \<open>opd/patches/vllm/speculative_decode.py\<close>: drafts are
  accepted while they are in the teacher's top-k; at the first rejection a teacher top-k sample replaces
  the draft. The tensor operations \<open>argmax\<close>, \<open>topk\<close> and \<open>multinomial\<close> and the cleaned softmax
  (\<open>softmax\<close>, \<open>nan_to_num\<close>, \<open>clamp_min_\<close>) are parameters; probabilities are rationals, so the masking and the
  renormalisation are exact. The source's in-place \<open>scatter_\<close> on \<open>reject_probs[valid_reject_draft]\<close> writes
  to a copy and has no effect; it is left out.
\<close>

record 'l skd_deps =
  skd_argmax :: "'l list \<Rightarrow> nat"
  skd_topk :: "nat \<Rightarrow> 'l list \<Rightarrow> nat list"
  skd_probs :: "'l list \<Rightarrow> rat list"
  skd_multinomial :: "nat \<Rightarrow> rat list \<Rightarrow> nat"

definition skd_k :: "environ \<Rightarrow> nat \<Rightarrow> nat" where
  "skd_k env vocab = nat (min (max (env_int env ''SKD_ACCEPTANCE_TOPK'' 25) 1) (int vocab))"

text \<open>The teacher's first choice, and whether the draft at a flat index is accepted.\<close>

definition skd_teacher_argmax :: "'l skd_deps \<Rightarrow> nat \<Rightarrow> 'l list \<Rightarrow> nat" where
  "skd_teacher_argmax d k logits = (if k = 1 then skd_argmax d logits else skd_topk d k logits ! 0)"

definition skd_accepts :: "'l skd_deps \<Rightarrow> nat \<Rightarrow> nat \<Rightarrow> int \<Rightarrow> 'l list \<Rightarrow> bool" where
  "skd_accepts d k vocab draft logits \<longleftrightarrow>
     (if k = 1 then int (skd_argmax d logits) = draft else draft \<in> int ` set (skd_topk d k logits))
     \<and> 0 \<le> draft \<and> draft < int vocab"

text \<open>The replacement for a rejected draft: a draw from the teacher's probabilities restricted to its
  top-k, or the teacher's first choice when nothing is left of them.\<close>

definition skd_restrict :: "nat list \<Rightarrow> rat list \<Rightarrow> rat list" where
  "skd_restrict ids ps = map (\<lambda>j. if j \<in> set ids then ps ! j else 0) [0..<length ps]"

definition skd_recovered :: "'l skd_deps \<Rightarrow> nat \<Rightarrow> nat \<Rightarrow> nat \<Rightarrow> 'l list \<Rightarrow> nat" where
  "skd_recovered d k vocab i logits =
     (let ps = skd_restrict (skd_topk d k logits) (skd_probs d logits);
          row_sum = sum_list ps;
          degenerate = (row_sum \<le> 0);
          ps' = (if degenerate then map (\<lambda>_. 1 / of_nat (max vocab 1)) ps else map (\<lambda>p. p / max row_sum (1 / 10 ^ 30)) ps);
          sampled = skd_multinomial d i ps'
      in if degenerate then skd_teacher_argmax d k logits else sampled)"

definition skd_first_rej :: "nat list \<Rightarrow> int list \<Rightarrow> bool list \<Rightarrow> bool list \<Rightarrow> nat \<Rightarrow> nat \<Rightarrow> int list" where
  "skd_first_rej req pos accept_mask valid batch_size msl =
     (let rejected = filter (\<lambda>i. \<not> accept_mask ! i \<and> valid ! i) [0..<length accept_mask] in
      scatter_amin (map ((!) req) rejected) (map ((!) pos) rejected) (replicate batch_size (int msl)))"

record skd_result =
  sk_output :: "int list list"
  sk_teacher :: "bool list list"
  sk_accept :: "bool list"
  sk_reject :: "bool list"

definition skd_decode :: "'l skd_deps \<Rightarrow> nat \<Rightarrow> ('l, 'p) spec_call \<Rightarrow> skd_result" where
  "skd_decode d k call =
     (let batch_size = length (num_draft_tokens call);
          num_tokens = length (target_logits call);
          width = max_spec_len call + 1;
          drafts = draft_token_ids call;
          logits = target_logits call;
          accept_mask = map (\<lambda>i. skd_accepts d k (vocab_size call) (drafts ! i) (logits ! i)) [0..<num_tokens];
          (req, pos, valid) = request_layout (num_draft_tokens call) num_tokens (max_spec_len call)
                                (cu_num_draft_tokens call);
          first = skd_first_rej req pos accept_mask valid batch_size (max_spec_len call);
          emit_accept = map (\<lambda>i. accept_mask ! i \<and> pos ! i < first ! (req ! i) \<and> valid ! i) [0..<num_tokens];
          emit_reject = map (\<lambda>i. \<not> accept_mask ! i \<and> pos ! i = first ! (req ! i) \<and> valid ! i) [0..<num_tokens];
          out1 = scatter2 emit_accept req pos drafts (full2 batch_size width PLACEHOLDER_TOKEN_ID);
          recovered = map (\<lambda>i. int (skd_recovered d k (vocab_size call) i (logits ! i))) [0..<num_tokens]
      in \<lparr>sk_output = scatter2 emit_reject req pos recovered out1,
          sk_teacher = scatter2 emit_reject req pos (map (\<lambda>_. True) emit_reject) (full2 batch_size width False),
          sk_accept = emit_accept, sk_reject = emit_reject\<rparr>)"

definition skd_stats :: "bool \<Rightarrow> ('l, 'p) spec_call \<Rightarrow> bool list \<Rightarrow> skd_result \<Rightarrow> relay_state \<Rightarrow> relay_state" where
  "skd_stats stats call valid r st =
     fold (\<lambda>(key, v). stats_add stats key v)
       [(''calls'', 1),
        (''requests'', int (length (num_draft_tokens call))),
        (''drafted_tokens'', count1 (map2 (\<lambda>v t. v \<and> 0 \<le> t \<and> t < int (vocab_size call)) valid (draft_token_ids call))),
        (''emitted_tokens'', count1 (sk_accept r) + count1 (sk_reject r)),
        (''student_tokens'', count1 (sk_accept r)),
        (''teacher_tokens'', count1 (sk_reject r)),
        (''teacher_requests'', count1 (sk_reject r)),
        (''accepted_draft_tokens'', count1 (sk_accept r)),
        (''rejected_draft_tokens'', count1 (sk_reject r))] st"

definition skd_topk_rejection_sample ::
  "environ \<Rightarrow> 'l skd_deps \<Rightarrow> ('l, 'p) spec_call \<Rightarrow> relay_state \<Rightarrow> event_state
     \<Rightarrow> int list list \<times> relay_state \<times> event_state" where
  "skd_topk_rejection_sample env d call st ev =
     (let batch_size = length (num_draft_tokens call);
          num_tokens = length (target_logits call);
          stats = env_flag env ''VERL_OPD_SOURCE_METRICS'' True;
          use_ipc = (opt_default '''' (env ''VERL_OPD_MASK_IPC_SOCKET'') \<noteq> '''')
      in
      if num_tokens = 0 then (full2 batch_size (max_spec_len call + 1) PLACEHOLDER_TOKEN_ID, st, ev)
      else
        (let r = skd_decode d (skd_k env (vocab_size call)) call;
             (req, pos, valid) = request_layout (num_draft_tokens call) num_tokens (max_spec_len call)
                                   (cu_num_draft_tokens call)
         in (sk_output r, skd_stats stats call valid r st,
             record_token_source_events use_ipc batch_size (sk_output r) (Override (sk_teacher r)) None None
               (Some (int (vocab_size call))) ev)))"

section \<open>The reference walk\<close>

record skd_item =
  si_draft :: int
  si_accepted :: bool
  si_recovered :: int

fun skd_walk :: "skd_item list \<Rightarrow> emission list" where
  "skd_walk [] = []"
| "skd_walk (x # xs) = (if si_accepted x then Student (si_draft x) # skd_walk xs else [Teacher (si_recovered x)])"

definition skd_items :: "'l skd_deps \<Rightarrow> nat \<Rightarrow> ('l, 'p) spec_call \<Rightarrow> nat \<Rightarrow> skd_item list" where
  "skd_items d k call b =
     map (\<lambda>p. let i = flat (num_draft_tokens call) b p; logits = target_logits call ! i; draft = draft_token_ids call ! i
              in \<lparr>si_draft = draft, si_accepted = skd_accepts d k (vocab_size call) draft logits,
                  si_recovered = int (skd_recovered d k (vocab_size call) i logits)\<rparr>)
       [0..<num_draft_tokens call ! b]"

lemma length_skd_items [simp]: "length (skd_items d k call b) = num_draft_tokens call ! b"
  by (simp add: skd_items_def)

lemma skd_walk_nth:
  assumes "length xs < width" "q < width"
  shows "pad_row width (skd_walk xs) ! q =
     (case find_index (\<lambda>x. \<not> si_accepted x) xs of
        None \<Rightarrow> if q < length xs then Student (si_draft (xs ! q)) else Hole
      | Some p \<Rightarrow> if q < p then Student (si_draft (xs ! q))
                  else if q = p then Teacher (si_recovered (xs ! p)) else Hole)"
proof -
  have unfold: "skd_walk ys = (case find_index (\<lambda>x. \<not> si_accepted x) ys of
        None \<Rightarrow> map (\<lambda>x. Student (si_draft x)) ys
      | Some p \<Rightarrow> map (\<lambda>x. Student (si_draft x)) (take p ys) @ [Teacher (si_recovered (ys ! p))])" for ys
    by (induction ys) (auto split: option.splits)
  show ?thesis
  proof (cases "find_index (\<lambda>x. \<not> si_accepted x) xs")
    case None
    then show ?thesis using assms by (simp add: unfold pad_row_def nth_append)
  next
    case (Some p)
    then have "p < length xs" by (simp add: find_index_Some)
    with Some show ?thesis using assms by (auto simp: unfold pad_row_def nth_append nth_Cons')
  qed
qed

lemma length_pad_skd: "length xs < width \<Longrightarrow> length (pad_row width (skd_walk xs)) = width"
proof -
  have "length (skd_walk xs) \<le> Suc (length xs)" by (induction xs) auto
  then show "length xs < width \<Longrightarrow> length (pad_row width (skd_walk xs)) = width" by (simp add: pad_row_def)
qed

section \<open>The first rejection of a request\<close>

lemma skd_first_slot:
  assumes lay: "layout_ok nd nt msl cu" "request_layout nd nt msl cu = (req, pos, valid)"
    and "length acc = nt" "b < length nd" "length xs = nd ! b"
    and ac: "\<And>p. p < nd ! b \<Longrightarrow> acc ! flat nd b p \<longleftrightarrow> si_accepted (xs ! p)"
  shows "skd_first_rej req pos acc valid (length nd) msl ! b
       = (case find_index (\<lambda>x. \<not> si_accepted x) xs of None \<Rightarrow> int msl | Some p \<Rightarrow> int p)"
proof -
  let ?rej = "filter (\<lambda>i. \<not> acc ! i \<and> valid ! i) [0..<length acc]"
  let ?vs = "map snd (filter (\<lambda>(r, v). r = b) (zip (map ((!) req) ?rej) (map ((!) pos) ?rej)))"
  have fe: "skd_first_rej req pos acc valid (length nd) msl ! b = fold min ?vs (int msl)"
    using fold_amin_nth [of b "replicate (length nd) (int msl)" "zip (map ((!) req) ?rej) (map ((!) pos) ?rej)"] assms(4)
    by (simp add: skd_first_rej_def scatter_amin_def Let_def)
  have vs: "v \<in> set ?vs \<longleftrightarrow> (\<exists>p < nd ! b. v = int p \<and> \<not> acc ! flat nd b p)" for v
  proof
    assume "v \<in> set ?vs"
    then obtain i where i: "i < nt" "\<not> acc ! i" "req ! i = b" "v = pos ! i"
      using assms(3) by (auto simp: zip_map_map zip_same_conv_map)
    obtain b' p where bp: "b' < length nd" "p < nd ! b'" "i = flat nd b' p"
      using layout_slot_cases [OF lay(1) i(1)] by blast
    with i layout_nth [OF lay bp(1,2)] show "\<exists>p < nd ! b. v = int p \<and> \<not> acc ! flat nd b p" by auto
  next
    assume "\<exists>p < nd ! b. v = int p \<and> \<not> acc ! flat nd b p"
    then obtain p where p: "p < nd ! b" "v = int p" "\<not> acc ! flat nd b p" by blast
    note n = layout_nth [OF lay assms(4) p(1)]
    have "flat nd b p \<in> set ?rej" using n p assms(3) by simp
    then have "(b, int p) \<in> set (zip (map ((!) req) ?rej) (map ((!) pos) ?rej))"
      using n by (auto simp: zip_map_map zip_same_conv_map image_iff)
    then show "v \<in> set ?vs" using p(2) by (auto simp: image_iff)
  qed
  have small: "nd ! b \<le> msl" using lay(1) assms(4) by (auto simp: layout_ok_def list_all_length)
  show ?thesis
  proof (cases "find_index (\<lambda>x. \<not> si_accepted x) xs")
    case None
    then have "\<forall>p < nd ! b. acc ! flat nd b p" using ac assms(5) by (auto simp: find_index_None)
    then have none: "v \<notin> set ?vs" for v unfolding vs by blast
    have "?vs = []"
    proof (rule ccontr)
      assume "?vs \<noteq> []"
      then have "hd ?vs \<in> set ?vs" by (rule hd_in_set)
      with none show False by blast
    qed
    then show ?thesis using fe None by (simp only: fold_Nil id_apply option.case)
  next
    case (Some p)
    then have p: "p < nd ! b" "\<not> acc ! flat nd b p" "\<forall>q < p. acc ! flat nd b q"
      using ac assms(5) by (auto simp: find_index_Some)
    have "fold min ?vs (int msl) = int p"
    proof (rule fold_min_eq)
      show "int p \<in> set ?vs" unfolding vs using p by blast
      show "\<And>v. v \<in> set ?vs \<Longrightarrow> int p \<le> v" unfolding vs using p(3) by (metis not_le of_nat_le_iff)
      show "int p \<le> int msl" using p(1) small by simp
    qed
    then show ?thesis using fe Some by simp
  qed
qed

lemma skd_step_walk:
  fixes d :: "'l skd_deps" and k :: nat
  assumes "call_ok call" "b < length (num_draft_tokens call)"
  defines "W \<equiv> pad_row (max_spec_len call + 1) (skd_walk (skd_items d k call b))"
  shows "sk_output (skd_decode d k call) ! b = map token_of W
    \<and> sk_teacher (skd_decode d k call) ! b = map is_teacher W"
proof -
  let ?nd = "num_draft_tokens call" and ?nt = "length (target_logits call)" and ?width = "max_spec_len call + 1"
  let ?xs = "skd_items d k call b"
  let ?acc = "map (\<lambda>i. skd_accepts d k (vocab_size call) (draft_token_ids call ! i) (target_logits call ! i)) [0..<?nt]"
  obtain r p v where lay: "request_layout ?nd ?nt (max_spec_len call) (cu_num_draft_tokens call) = (r, p, v)"
    by (metis prod_cases3)
  have ok: "layout_ok ?nd ?nt (max_spec_len call) (cu_num_draft_tokens call)" using assms(1) by (simp add: call_ok_def)
  let ?first = "skd_first_rej r p ?acc v (length ?nd) (max_spec_len call)"
  let ?ea = "map (\<lambda>i. ?acc ! i \<and> p ! i < ?first ! (r ! i) \<and> v ! i) [0..<?nt]"
  let ?er = "map (\<lambda>i. \<not> ?acc ! i \<and> p ! i = ?first ! (r ! i) \<and> v ! i) [0..<?nt]"
  let ?rec = "map (\<lambda>i. int (skd_recovered d k (vocab_size call) i (target_logits call ! i))) [0..<?nt]"
  let ?out0 = "full2 (length ?nd) ?width PLACEHOLDER_TOKEN_ID"
  have res: "sk_output (skd_decode d k call) = scatter2 ?er r p ?rec (scatter2 ?ea r p (draft_token_ids call) ?out0)"
    "sk_teacher (skd_decode d k call) = scatter2 ?er r p (map (\<lambda>_. True) ?er) (full2 (length ?nd) ?width False)"
    by (simp_all add: skd_decode_def lay Let_def)
  have item: "?acc ! flat ?nd b q = si_accepted (?xs ! q)" "si_draft (?xs ! q) = draft_token_ids call ! flat ?nd b q"
    "si_recovered (?xs ! q) = ?rec ! flat ?nd b q" if "q < ?nd ! b" for q
    using that layout_nth(4) [OF ok lay assms(2) that] by (simp_all add: skd_items_def Let_def)
  have first: "?first ! b = (case find_index (\<lambda>x. \<not> si_accepted x) ?xs of None \<Rightarrow> int (max_spec_len call) | Some f \<Rightarrow> int f)"
    by (rule skd_first_slot [OF ok lay _ assms(2) _ item(1)]) simp_all
  have small: "?nd ! b < ?width" using ok assms(2) by (auto simp: layout_ok_def list_all_length le_imp_less_Suc)
  have fi: "f < ?nd ! b \<and> \<not> si_accepted (?xs ! f) \<and> (\<forall>q < f. si_accepted (?xs ! q))" if "find_index (\<lambda>x. \<not> si_accepted x) ?xs = Some f" for f
    using that by (simp add: find_index_Some)
  have fn: "q < ?nd ! b \<Longrightarrow> si_accepted (?xs ! q)" if "find_index (\<lambda>x. \<not> si_accepted x) ?xs = None" for q
    using that by (auto simp: find_index_None)
  have ea: "?ea ! flat ?nd b q \<longleftrightarrow> si_accepted (?xs ! q) \<and> (case find_index (\<lambda>x. \<not> si_accepted x) ?xs of None \<Rightarrow> True | Some f \<Rightarrow> q < f)"
    and er: "?er ! flat ?nd b q \<longleftrightarrow> find_index (\<lambda>x. \<not> si_accepted x) ?xs = Some q" if "q < ?nd ! b" for q
    using that item(1) [OF that] first layout_nth [OF ok lay assms(2) that] small fi fn [of q]
    by (cases "find_index (\<lambda>x. \<not> si_accepted x) ?xs"; auto)+
  have W: "length W = ?width" using length_pad_skd [of ?xs ?width] small by (simp add: W_def)
  note nth = skd_walk_nth [of ?xs ?width, folded W_def, unfolded length_skd_items, OF small]
  have row: "(if q < ?nd ! b \<and> ?er ! flat ?nd b q then ?rec ! flat ?nd b q
       else if q < ?nd ! b \<and> ?ea ! flat ?nd b q then draft_token_ids call ! flat ?nd b q else PLACEHOLDER_TOKEN_ID)
      = token_of (W ! q)" "(q < ?nd ! b \<and> ?er ! flat ?nd b q) = is_teacher (W ! q)" if "q < ?width" for q
    using nth [OF that] ea [of q] er [of q] item(2,3) [of q] fi fn
    by (cases "find_index (\<lambda>x. \<not> si_accepted x) ?xs"; auto simp: is_teacher_def)+
  have "sk_output (skd_decode d k call) ! b = map token_of W"
  proof (rule nth_equalityI)
    fix q assume "q < length (sk_output (skd_decode d k call) ! b)"
    then have q: "q < ?width" using assms(2) by (simp add: res)
    have "scatter2 ?er r p ?rec (scatter2 ?ea r p (draft_token_ids call) ?out0) ! b ! q
      = (if q < ?nd ! b \<and> ?er ! flat ?nd b q then ?rec ! flat ?nd b q
         else scatter2 ?ea r p (draft_token_ids call) ?out0 ! b ! q)"
      by (rule scatter2_nth [OF ok lay _ assms(2)]) (use q assms(2) in simp_all)
    also have "scatter2 ?ea r p (draft_token_ids call) ?out0 ! b ! q
      = (if q < ?nd ! b \<and> ?ea ! flat ?nd b q then draft_token_ids call ! flat ?nd b q else ?out0 ! b ! q)"
      by (rule scatter2_nth [OF ok lay _ assms(2)]) (use q assms(2) in simp_all)
    also have "?out0 ! b ! q = PLACEHOLDER_TOKEN_ID" using q assms(2) by (simp del: replicate_Suc)
    finally show "sk_output (skd_decode d k call) ! b ! q = map token_of W ! q"
      unfolding res(1) using row(1) [OF q] q W by simp
  qed (use assms(2) W in \<open>simp add: res\<close>)
  moreover have "sk_teacher (skd_decode d k call) ! b = map is_teacher W"
  proof (rule nth_equalityI)
    fix q assume "q < length (sk_teacher (skd_decode d k call) ! b)"
    then have q: "q < ?width" using assms(2) by (simp add: res)
    have "scatter2 ?er r p (map (\<lambda>_. True) ?er) (full2 (length ?nd) ?width False) ! b ! q
      = (if q < ?nd ! b \<and> ?er ! flat ?nd b q then map (\<lambda>_. True) ?er ! flat ?nd b q
         else full2 (length ?nd) ?width False ! b ! q)"
      by (rule scatter2_nth [OF ok lay _ assms(2)]) (use q assms(2) in simp_all)
    also have "\<dots> = (q < ?nd ! b \<and> ?er ! flat ?nd b q)"
      using q assms(2) layout_nth(4) [OF ok lay assms(2), of q] by (simp del: replicate_Suc)
    finally show "sk_teacher (skd_decode d k call) ! b ! q = map is_teacher W ! q"
      unfolding res(2) using row(2) [OF q] q W by simp
  qed (use assms(2) W in \<open>simp add: res\<close>)
  ultimately show ?thesis by simp
qed

text \<open>
  [C10] Equivalence with the sequential reference: for every request, the SKD sampler emits the drafts that
  are in the teacher's top-k up to the first one that is not, then the teacher's replacement for that one
  and nothing more, and it marks exactly the replacement as the teacher's.
\<close>

theorem skd_step_refines_walk:
  fixes d :: "'l skd_deps" and k :: nat
  assumes "call_ok call" "b < length (num_draft_tokens call)"
  defines "W \<equiv> pad_row (max_spec_len call + 1) (skd_walk (skd_items d k call b))"
  shows "sk_output (skd_decode d k call) ! b = map token_of W
    \<and> sk_teacher (skd_decode d k call) ! b = map is_teacher W"
  unfolding W_def by (rule skd_step_walk [OF assms(1,2)])

section \<open>Every emitted token is a teacher top-k token\<close>

text \<open>What PyTorch documents of the operations, at the logits of one call: \<open>topk\<close> is not empty, probabilities are
  non-negative and there is one per logit, and \<open>multinomial\<close> draws an index of positive weight whenever there is one.\<close>

definition skd_deps_ok :: "'l skd_deps \<Rightarrow> nat \<Rightarrow> 'l list list \<Rightarrow> bool" where
  "skd_deps_ok d k rows \<longleftrightarrow>
     list_all (\<lambda>l. skd_topk d k l \<noteq> [] \<and> length (skd_probs d l) = length l \<and> list_all (\<lambda>p. 0 \<le> p) (skd_probs d l)) rows
     \<and> (\<forall>i ps. list_all (\<lambda>p. 0 \<le> p) ps \<longrightarrow> list_ex (\<lambda>p. 0 < p) ps \<longrightarrow>
          skd_multinomial d i ps < length ps \<and> 0 < ps ! skd_multinomial d i ps)"

text \<open>The teacher's choices: its top-k, and for \<open>k = 1\<close> its \<open>argmax\<close>, which the code uses then and which may be another of several
  equal maxima.\<close>

definition skd_choices :: "'l skd_deps \<Rightarrow> nat \<Rightarrow> 'l list \<Rightarrow> int set" where
  "skd_choices d k l = int ` (set (skd_topk d k l) \<union> (if k = 1 then {skd_argmax d l} else {}))"

lemma sum_list_pos_ex: "0 < sum_list (ps :: rat list) \<Longrightarrow> list_ex (\<lambda>p. 0 < p) ps"
proof (induction ps)
  case (Cons p ps)
  then show ?case by (cases "0 < p") auto
qed simp

lemma skd_recovered_choice:
  assumes "skd_deps_ok d k rows" "logits \<in> set rows"
  shows "int (skd_recovered d k vocab i logits) \<in> skd_choices d k logits"
proof -
  let ?ids = "skd_topk d k logits" and ?ps = "skd_restrict (skd_topk d k logits) (skd_probs d logits)"
  have ok: "?ids \<noteq> []" "list_all (\<lambda>p. 0 \<le> p) (skd_probs d logits)"
    and mult: "\<And>i ps. list_all (\<lambda>p. 0 \<le> p) ps \<Longrightarrow> list_ex (\<lambda>p. 0 < p) ps \<Longrightarrow>
          skd_multinomial d i ps < length ps \<and> 0 < ps ! skd_multinomial d i ps"
    using assms by (auto simp: skd_deps_ok_def list_all_iff)
  show ?thesis
  proof (cases "sum_list ?ps \<le> 0")
    case True
    have "int (skd_teacher_argmax d k logits) \<in> skd_choices d k logits"
      using ok(1) by (auto simp: skd_teacher_argmax_def skd_choices_def)
    with True show ?thesis by (simp add: skd_recovered_def Let_def)
  next
    case False
    let ?c = "max (sum_list ?ps) (1 / 10 ^ 30)"
    let ?qs = "map (\<lambda>p. p / ?c) ?ps"
    have c: "0 < ?c" by (simp add: less_max_iff_disj)
    have nonneg: "list_all (\<lambda>p. 0 \<le> p) ?ps" using ok(2) by (auto simp: skd_restrict_def list_all_iff)
    from False sum_list_pos_ex [of ?ps] obtain w where "w \<in> set ?ps" "0 < w" by (auto simp: list_ex_iff)
    then have "w / ?c \<in> set ?qs" "0 < w / ?c" using c by (simp_all only: set_map image_eqI divide_pos_pos)
    then have "list_ex (\<lambda>p. 0 < p) ?qs" by (metis list_ex_iff)
    moreover have "list_all (\<lambda>p. 0 \<le> p) ?qs" using nonneg c by (auto simp: list_all_iff)
    ultimately have m: "skd_multinomial d i ?qs < length ?qs" "0 < ?qs ! skd_multinomial d i ?qs" using mult by blast+
    then have "0 < ?ps ! skd_multinomial d i ?qs" using c by (simp add: zero_less_divide_iff)
    moreover have "skd_multinomial d i ?qs < length (skd_probs d logits)" using m(1) by (simp add: skd_restrict_def)
    ultimately have "skd_multinomial d i ?qs \<in> set ?ids" by (auto simp: skd_restrict_def split: if_splits)
    with False show ?thesis by (simp add: skd_recovered_def skd_choices_def Let_def)
  qed
qed

lemma skd_walk_slots:
  "length (skd_walk xs) \<le> length xs \<and> (\<forall>q < length (skd_walk xs).
     if si_accepted (xs ! q) then skd_walk xs ! q = Student (si_draft (xs ! q))
     else skd_walk xs ! q = Teacher (si_recovered (xs ! q)) \<and> q = length (skd_walk xs) - 1)"
  by (induction xs) (auto simp: nth_Cons' less_Suc_eq_0_disj)

text \<open>
  [C11] In the output of the SKD sampler on a well-formed call, every column of a request's row is either the placeholder or a
  token of the request's own drafted positions that is among the teacher's choices at that position: its top-k tokens, or
  for \<open>k = 1\<close> its first choice. The teacher's mark is only on such a token that replaces a draft, and nothing is
  emitted behind it, so a request gets at most one teacher token per step. Of the tensor library it is
  assumed that top-k is not empty, that there is a non-negative probability for every logit, and that
  multinomial draws an index of positive weight when there is one.
\<close>

theorem skd_emits_teacher_topk:
  assumes "call_ok call" "b < length (num_draft_tokens call)" "skd_deps_ok d k (target_logits call)" "q < max_spec_len call + 1"
  defines "out \<equiv> sk_output (skd_decode d k call) ! b" and "marks \<equiv> sk_teacher (skd_decode d k call) ! b"
  shows "(out ! q = PLACEHOLDER_TOKEN_ID \<and> \<not> marks ! q
      \<or> q < num_draft_tokens call ! b \<and> out ! q \<in> skd_choices d k (target_logits call ! flat (num_draft_tokens call) b q))
    \<and> (marks ! q \<longrightarrow> (\<forall>q' < max_spec_len call + 1. q < q' \<longrightarrow> out ! q' = PLACEHOLDER_TOKEN_ID))"
proof -
  let ?nd = "num_draft_tokens call" and ?xs = "skd_items d k call b" and ?width = "max_spec_len call + 1"
  let ?W = "pad_row ?width (skd_walk ?xs)"
  note walk = skd_walk_slots [of ?xs]
  have small: "?nd ! b < ?width" using assms(1,2) by (auto simp: call_ok_def layout_ok_def list_all_length le_imp_less_Suc)
  have len: "length ?W = ?width" using length_pad_skd [of ?xs ?width] small by simp
  have W: "?W ! j = (if j < length (skd_walk ?xs) then skd_walk ?xs ! j else Hole)" if "j < ?width" for j
    using that len by (simp add: pad_row_def nth_append)
  have out: "out ! j = token_of (?W ! j)" "marks ! j = is_teacher (?W ! j)" if "j < ?width" for j
    using that len unfolding out_def marks_def skd_step_walk [OF assms(1,2), THEN conjunct1] skd_step_walk [OF assms(1,2), THEN conjunct2]
    by simp_all
  have choice: "token_of (skd_walk ?xs ! q) \<in> skd_choices d k (target_logits call ! flat ?nd b q)" if q: "q < ?nd ! b" "q < length (skd_walk ?xs)"
  proof -
    let ?l = "target_logits call ! flat ?nd b q"
    have row: "?l \<in> set (target_logits call)"
      using flat_less [OF assms(2) q(1)] assms(1) by (simp add: call_ok_def layout_ok_def)
    have item: "si_draft (?xs ! q) = draft_token_ids call ! flat ?nd b q"
      "si_accepted (?xs ! q) = skd_accepts d k (vocab_size call) (draft_token_ids call ! flat ?nd b q) ?l"
      "si_recovered (?xs ! q) = int (skd_recovered d k (vocab_size call) (flat ?nd b q) ?l)"
      using q by (simp_all add: skd_items_def Let_def)
    show ?thesis
      using walk q item skd_recovered_choice [OF assms(3) row, of "vocab_size call" "flat ?nd b q"]
      by (cases "si_accepted (?xs ! q)") (auto simp: skd_accepts_def skd_choices_def split: if_splits)
  qed
  show ?thesis
  proof (cases "q < length (skd_walk ?xs)")
    case True
    then have q: "q < ?nd ! b" using walk by simp
    have last: "out ! q' = PLACEHOLDER_TOKEN_ID" if "marks ! q" "q' < ?width" "q < q'" for q'
    proof -
      have "is_teacher (skd_walk ?xs ! q)" using that(1) out(2) [OF assms(4)] W [OF assms(4)] True by simp
      then have "q = length (skd_walk ?xs) - 1" using walk True by (cases "si_accepted (?xs ! q)") (auto simp: is_teacher_def)
      then have "\<not> q' < length (skd_walk ?xs)" using that(3) by simp
      then show ?thesis using out(1) [OF that(2)] W [OF that(2)] by simp
    qed
    show ?thesis using choice [OF q True] q last out(1) [OF assms(4)] W [OF assms(4)] True by simp
  qed (use out [OF assms(4)] W [OF assms(4)] in \<open>simp add: is_teacher_def\<close>)
qed

definition ex_skd_deps :: "int skd_deps" where
  "ex_skd_deps = \<lparr>skd_argmax = ex_argmax, skd_topk = ex_topk, skd_probs = map (\<lambda>l. of_int (max l 0)),
     skd_multinomial = (\<lambda>_ ps. opt_default 0 (find_index (\<lambda>p. 0 < p) ps))\<rparr>"

lemma ex_skd_walk: "skd_walk (skd_items ex_skd_deps 1 ex_call 0) = [Student 1, Teacher 5]"
  by code_simp

theorem skd_step_refines_walk_witness:
  "sk_output (skd_decode ex_skd_deps 1 ex_call) ! 0 = [1, 5, -1]
   \<and> sk_teacher (skd_decode ex_skd_deps 1 ex_call) ! 0 = [False, True, False]"
proof -
  have b: "0 < length (num_draft_tokens ex_call)" "max_spec_len ex_call + 1 = 3" by (simp_all add: ex_call_def)
  show ?thesis
    using skd_step_refines_walk [OF ex_wf(1) b(1), of ex_skd_deps 1] unfolding ex_skd_walk b(2)
    by (simp add: pad_row_def is_teacher_def)
qed

lemma ex_skd_deps_ok: "skd_deps_ok ex_skd_deps 1 (target_logits ex_call)"
proof -
  have "\<forall>l \<in> set (target_logits ex_call). ex_topk 1 l \<noteq> []" by code_simp
  moreover have "ps ! n > 0 \<and> n < length ps" if "list_ex (\<lambda>p. 0 < p) ps" "n = opt_default 0 (find_index (\<lambda>p. 0 < p) ps)" for ps :: "rat list" and n
    using that by (cases "find_index (\<lambda>p. 0 < p) ps") (auto simp: find_index_None find_index_Some list_ex_iff)
  ultimately show ?thesis
    by (auto simp: skd_deps_ok_def ex_skd_deps_def list_all_iff)
qed

theorem skd_emits_teacher_topk_witness:
  "sk_output (skd_decode ex_skd_deps 1 ex_call) ! 0 ! 1 \<in> skd_choices ex_skd_deps 1 [0, 0, 0, 0, 0, 9]
     \<and> sk_output (skd_decode ex_skd_deps 1 ex_call) ! 0 ! 2 = PLACEHOLDER_TOKEN_ID"
proof -
  have b: "0 < length (num_draft_tokens ex_call)" "1 < max_spec_len ex_call + 1" "2 < max_spec_len ex_call + 1" by (simp_all add: ex_call_def)
  have "sk_output (skd_decode ex_skd_deps 1 ex_call) ! 0 ! 1 = 5" "sk_teacher (skd_decode ex_skd_deps 1 ex_call) ! 0 ! 1"
    "target_logits ex_call ! flat (num_draft_tokens ex_call) 0 1 = [0, 0, 0, 0, 0, 9]" by code_simp+
  then show ?thesis
    using skd_emits_teacher_topk [OF ex_wf(1) b(1) ex_skd_deps_ok b(2)] b(3) by simp
qed

end
