(* ===== verification/Mask_Channel.thy ===== *)
theory Mask_Channel
  imports Token_Events
begin

text \<open>
  The mask channel end to end: the worker's deferred flush (\<open>_patched_bookkeeping_sync\<close>), the datagrams,
  the server's receive loop and its polling \<open>pop_with_actions\<close>. The flushes of many requests interleave
  freely, and the datagrams reach the server in any grouping between polls.
\<close>

section \<open>A run of flushes\<close>

text \<open>
  One iteration of the flush loop for the request at \<open>fc_idx\<close>: vLLM has just appended \<open>fc_sampled\<close> to the
  request's output. \<open>outputs\<close> is the output of every request so far.
\<close>

record flush_call =
  fc_non_spec :: bool
  fc_pending :: "pending_row list option"
  fc_rids :: "string option list"
  fc_idx :: nat
  fc_sampled :: "int list"

definition fc_rid :: "flush_call \<Rightarrow> string" where
  "fc_rid fc = the (fc_rids fc ! fc_idx fc)"

definition fc_row :: "flush_call \<Rightarrow> pending_row" where
  "fc_row fc = (if fc_non_spec fc
     then \<lparr>pr_mask = replicate (length (fc_sampled fc)) False, pr_tokens = fc_sampled fc, pr_actions = [], pr_logps = []\<rparr>
     else the (fc_pending fc) ! fc_idx fc)"

definition fc_mask :: "flush_call \<Rightarrow> bool list" where
  "fc_mask fc = take (length (fc_sampled fc)) (pr_mask (fc_row fc))"

text \<open>Whether the flush carries student actions (then the datagram is \<open>OPD3\<close>).\<close>

definition fc_has_actions :: "flush_call \<Rightarrow> bool" where
  "fc_has_actions fc \<longleftrightarrow> length (fc_sampled fc) \<le> length (pr_actions (fc_row fc))
     \<and> length (fc_sampled fc) \<le> length (pr_logps (fc_row fc))"

definition fc_ok :: "flush_call \<Rightarrow> bool" where
  "fc_ok fc \<longleftrightarrow> fc_idx fc < length (fc_rids fc) \<and> fc_rids fc ! fc_idx fc \<noteq> None
     \<and> strip_vllm_suffix (fc_rid fc) \<noteq> '''' \<and> 0 \<notin> set (ascii (strip_vllm_suffix (fc_rid fc)))
     \<and> fc_sampled fc \<noteq> [] \<and> length (fc_sampled fc) \<le> 255 \<and> list_all i32_ok (fc_sampled fc)
     \<and> list_all i32_ok (pr_actions (fc_row fc))
     \<and> length (fc_sampled fc) \<le> length (pr_mask (fc_row fc))
     \<and> (\<not> fc_non_spec fc \<longrightarrow> fc_pending fc \<noteq> None \<and> fc_idx fc < length (the (fc_pending fc))
          \<and> take (length (fc_sampled fc)) (pr_tokens (fc_row fc)) = fc_sampled fc)"

definition flush_step ::
  "(string \<Rightarrow> bool) \<Rightarrow> (byte list \<Rightarrow> bool) \<Rightarrow> flush_call \<Rightarrow> (string \<rightharpoonup> int list) \<times> ipc_sender
     \<Rightarrow> ((string \<rightharpoonup> int list) \<times> ipc_sender) result" where
  "flush_step connects sends fc = (\<lambda>(outputs, s).
     let outputs' = extend_key (fc_rid fc) (fc_sampled fc) outputs in
     bind_r (flush_request connects sends (fc_non_spec fc) (fc_pending fc) outputs' (fc_rids fc)
               (fc_idx fc, fc_sampled fc) s)
       (\<lambda>s'. Inr (outputs', s')))"

text \<open>What the server stores for a flush whose first token is at response position \<open>start\<close>.\<close>

definition fc_event :: "nat \<Rightarrow> flush_call \<Rightarrow> mask_event" where
  "fc_event start fc =
     (let n = length (fc_sampled fc) in
      (fc_mask fc, Some (fc_sampled fc), Some (map int [start..<start + n]),
       if fc_has_actions fc then Some (take n (pr_actions (fc_row fc))) else None,
       if fc_has_actions fc then Some (take n (pr_logps (fc_row fc))) else None))"

lemma body_not_stop:
  "mask_chunk_body msk tokens positions actions logps = Inr body \<Longrightarrow> take 4 body \<noteq> ascii ''OPS1''"
  by (cases actions; cases logps) (auto simp: mask_chunk_body_def Let_def ascii_def)

lemma upto_map_int: "[int a..int (a + n) - 1] = map int [a..<a + n]"
  by (induction n) (simp_all add: upto_rec2)

lemma flush_step_sends:
  assumes ok: "fc_ok fc" and sock: "sock_path s = Some p" "p \<noteq> ''''" "sock_open s \<or> connects p" "\<And>d. sends d"
    and start: "start = length (key_log outputs (fc_rid fc))" "int (start + length (fc_sampled fc)) < 2 ^ 31"
  obtains payload where
    "flush_step connects sends fc (outputs, s)
       = Inr (extend_key (fc_rid fc) (fc_sampled fc) outputs, s\<lparr>sock_open := True, sent := sent s @ [payload]\<rparr>)"
    "\<forall>loads st. recv_datagram loads payload st
       = store_mask_event (strip_vllm_suffix (fc_rid fc)) (fc_event start fc) st"
proof -
  let ?ext = "strip_vllm_suffix (fc_rid fc)" and ?n = "length (fc_sampled fc)"
  let ?pos = "map int [start..<start + ?n]"
  let ?acts = "if ?n \<le> length (pr_actions (fc_row fc)) then Some (take ?n (pr_actions (fc_row fc))) else None"
  let ?lps = "if ?n \<le> length (pr_logps (fc_row fc)) then Some (take ?n (pr_logps (fc_row fc))) else None"
  have wf: "\<not> mask_chunk_malformed (fc_mask fc) (fc_sampled fc) (Some ?pos) ?acts ?lps" "fc_mask fc \<noteq> []"
    using ok by (auto simp: fc_ok_def fc_mask_def mask_chunk_malformed_def)
  have i32: "list_all i32_ok (fc_sampled fc)" "list_all i32_ok ?pos" "list_all i32_ok (opt_default [] ?acts)"
    using ok start(2) by (auto simp: fc_ok_def i32_ok_def list_all_iff dest: in_set_takeD)
  obtain body where body: "mask_chunk_body (fc_mask fc) (fc_sampled fc) ?pos ?acts ?lps = Inr body"
    using mask_chunk_body_total [OF i32] by blast
  have get: "get_mask_ipc_sock connects s = Inr (s\<lparr>sock_open := True\<rparr>, True)"
    using sock by (auto simp: get_mask_ipc_sock_def)
  let ?payload = "frame_payload ?ext body"
  have ends: "int (length (key_log outputs (fc_rid fc) @ fc_sampled fc)) = int (start + ?n)" using start(1) by simp
  have send: "send_mask_chunk_ipc connects sends s ?ext (fc_mask fc) (fc_sampled fc) (Some ?pos) ?acts ?lps
      = Inr (s\<lparr>sock_open := True, sent := sent s @ [?payload]\<rparr>)"
    using ok wf sock(4) by (simp add: send_mask_chunk_ipc_def get body fc_ok_def)
  have "flush_step connects sends fc (outputs, s)
       = Inr (extend_key (fc_rid fc) (fc_sampled fc) outputs, s\<lparr>sock_open := True, sent := sent s @ [?payload]\<rparr>)"
    using ok send upto_map_int [of start ?n] ends
    by (auto simp: flush_step_def flush_request_def fc_ok_def fc_rid_def fc_row_def fc_mask_def extend_key_def
        key_log_def Let_def split: if_splits)
  moreover have "recv_datagram loads ?payload st = store_mask_event ?ext (fc_event start fc) st" for loads st
    using ok body_not_stop [OF body] decode_mask_chunk_body [OF body wf(1)]
    by (auto simp: recv_datagram_def split_nul_frame decode_stop_event_payload_def fc_ok_def fc_event_def
        fc_has_actions_def Let_def)
  ultimately show ?thesis using that by blast
qed

section \<open>Many requests\<close>

text \<open>The events of a run of flushes, each with the external id it is stored under.\<close>

fun run_events :: "(string \<rightharpoonup> int list) \<Rightarrow> flush_call list \<Rightarrow> (string \<times> mask_event) list" where
  "run_events outputs [] = []"
| "run_events outputs (fc # fcs) =
     (strip_vllm_suffix (fc_rid fc), fc_event (length (key_log outputs (fc_rid fc))) fc)
       # run_events (extend_key (fc_rid fc) (fc_sampled fc) outputs) fcs"

definition carries :: "byte list \<Rightarrow> string \<times> mask_event \<Rightarrow> bool" where
  "carries payload ke \<longleftrightarrow> (\<forall>loads st. recv_datagram loads payload st = store_mask_event (fst ke) (snd ke) st)"

lemma length_run_events [simp]: "length (run_events outputs fcs) = length fcs"
  by (induction fcs arbitrary: outputs) simp_all

lemma take_run_events: "take j (run_events outputs fcs) = run_events outputs (take j fcs)"
proof (induction fcs arbitrary: outputs j)
  case (Cons fc fcs)
  then show ?case by (cases j) simp_all
qed simp

lemma flush_run:
  assumes "list_all fc_ok fcs" "sock_path s = Some p" "p \<noteq> ''''" "sock_open s \<or> connects p" "\<And>d. sends d"
    and "\<And>rid. int (length (key_log outputs rid) + length (concat (map fc_sampled fcs))) < 2 ^ 31"
  shows "\<exists>payloads s'. fold_r (flush_step connects sends) fcs (outputs, s)
       = Inr (fold (\<lambda>fc. extend_key (fc_rid fc) (fc_sampled fc)) fcs outputs, s')
     \<and> sent s' = sent s @ payloads \<and> list_all2 carries payloads (run_events outputs fcs)"
  using assms
proof (induction fcs arbitrary: outputs s)
  case (Cons fc fcs)
  let ?outs = "extend_key (fc_rid fc) (fc_sampled fc) outputs"
  have "int (length (key_log outputs (fc_rid fc)) + length (fc_sampled fc)) < 2 ^ 31"
    using Cons.prems(6) [of "fc_rid fc"] by simp
  then obtain payload where step:
    "flush_step connects sends fc (outputs, s) = Inr (?outs, s\<lparr>sock_open := True, sent := sent s @ [payload]\<rparr>)"
    "\<forall>loads st. recv_datagram loads payload st
       = store_mask_event (strip_vllm_suffix (fc_rid fc)) (fc_event (length (key_log outputs (fc_rid fc))) fc) st"
    using flush_step_sends [of fc s p connects sends, OF _ Cons.prems(2-5) refl] Cons.prems(1) by auto
  let ?s = "s\<lparr>sock_open := True, sent := sent s @ [payload]\<rparr>"
  have len: "int (length (key_log ?outs rid) + length (concat (map fc_sampled fcs))) < 2 ^ 31" for rid
    using Cons.prems(6) [of rid] by (auto simp: dict_log.log_put)
  have rest: "list_all fc_ok fcs" "sock_path ?s = Some p" "sock_open ?s \<or> connects p"
    using Cons.prems(1,2) by simp_all
  obtain payloads s' where "fold_r (flush_step connects sends) fcs (?outs, s\<lparr>sock_open := True, sent := sent s @ [payload]\<rparr>)
       = Inr (fold (\<lambda>fc. extend_key (fc_rid fc) (fc_sampled fc)) fcs ?outs, s')"
     "sent s' = (sent s @ [payload]) @ payloads" "list_all2 carries payloads (run_events ?outs fcs)"
    using Cons.IH [OF rest(1,2) Cons.prems(3) rest(3) Cons.prems(5) len] by auto
  with step show ?case
    by (intro exI [of _ "payload # payloads"] exI [of _ s']) (simp add: carries_def [of payload])
qed simp

lemma recv_carried:
  "list_all2 carries payloads evs \<Longrightarrow> recv_all loads payloads st = fold (\<lambda>(k, e). store_mask_event k e) evs st"
  by (induction arbitrary: st rule: list_all2_induct) (auto simp: recv_all_def carries_def)

section \<open>What the stores hold for one request\<close>

lemma extend_fold_None:
  "fold (\<lambda>(k, xs). extend_key k xs) ops m k' = None \<longleftrightarrow> m k' = None \<and> (\<forall>(k, xs) \<in> set ops. k \<noteq> k')"
  by (induction ops arbitrary: m) (auto simp: extend_key_def split: if_splits)

lemma extend_fold:
  "fold (\<lambda>(k, xs). extend_key k xs) ops Map.empty k' =
     (if filter (\<lambda>(k, xs). k = k') ops = [] then None
      else Some (concat (map snd (filter (\<lambda>(k, xs). k = k') ops))))"
proof -
  have log: "key_log (fold (\<lambda>(k, xs). extend_key k xs) ops Map.empty) k'
      = concat (map snd (filter (\<lambda>(k, xs). k = k') ops))"
    by (rule dict_log.log_fold_put_fresh) (simp add: key_log_def)
  show ?thesis
    using log extend_fold_None [of ops Map.empty k']
    by (cases "fold (\<lambda>(k, xs). extend_key k xs) ops Map.empty k'") (auto simp: key_log_def filter_empty_conv)
qed

text \<open>The maps of the store after a list of events with tokens and positions.\<close>

definition full_event :: "string \<times> mask_event \<Rightarrow> bool" where
  "full_event ke \<longleftrightarrow> (case ke of (k, m, t, p, a, l) \<Rightarrow> m \<noteq> [] \<and> t \<noteq> None \<and> p \<noteq> None)"

lemma store_events_maps:
  assumes "list_all full_event evs"
  shows "mask_store (fold (\<lambda>(k, e). store_mask_event k e) evs st)
      = fold (\<lambda>(k, xs). extend_key k xs) (map (\<lambda>(k, m, t, p, a, l). (k, m)) evs) (mask_store st)"
    and "token_store (fold (\<lambda>(k, e). store_mask_event k e) evs st)
      = fold (\<lambda>(k, xs). extend_key k xs) (map (\<lambda>(k, m, t, p, a, l). (k, the t)) evs) (token_store st)"
    and "position_store (fold (\<lambda>(k, e). store_mask_event k e) evs st)
      = fold (\<lambda>(k, xs). extend_key k xs) (map (\<lambda>(k, m, t, p, a, l). (k, the p)) evs) (position_store st)"
    and "action_store (fold (\<lambda>(k, e). store_mask_event k e) evs st)
      = fold (\<lambda>(k, xs). extend_key k xs) (map (\<lambda>(k, m, t, p, a, l). (k, the a)) (filter (\<lambda>(k, m, t, p, a, l). a \<noteq> None) evs)) (action_store st)"
    and "action_logp_store (fold (\<lambda>(k, e). store_mask_event k e) evs st)
      = fold (\<lambda>(k, xs). extend_key k xs) (map (\<lambda>(k, m, t, p, a, l). (k, the l)) (filter (\<lambda>(k, m, t, p, a, l). l \<noteq> None) evs)) (action_logp_store st)"
  using assms
  by (induction evs arbitrary: st) (auto simp: full_event_def store_mask_event_def extend_opt_def split: option.splits)

lemma run_events_full: "list_all fc_ok fcs \<Longrightarrow> list_all full_event (run_events outputs fcs)"
  by (induction fcs arbitrary: outputs) (auto simp: full_event_def fc_event_def fc_ok_def fc_mask_def Let_def)

text \<open>The events of a request whose external id is not shared, as a function of its own flushes.\<close>

lemma run_events_own:
  assumes "\<forall>fc \<in> set fcs. strip_vllm_suffix (fc_rid fc) = strip_vllm_suffix rid \<longrightarrow> fc_rid fc = rid"
  defines "own \<equiv> filter (\<lambda>fc. fc_rid fc = rid) fcs"
  shows "map (\<lambda>(k, m, t, p, a, l). m) (filter (\<lambda>(k, e). k = strip_vllm_suffix rid) (run_events outputs fcs)) = map fc_mask own"
    and "map (\<lambda>(k, m, t, p, a, l). the t) (filter (\<lambda>(k, e). k = strip_vllm_suffix rid) (run_events outputs fcs)) = map fc_sampled own"
    and "concat (map (\<lambda>(k, m, t, p, a, l). the p) (filter (\<lambda>(k, e). k = strip_vllm_suffix rid) (run_events outputs fcs)))
       = map int [length (key_log outputs rid)..<length (key_log outputs rid) + length (concat (map fc_sampled own))]"
  using assms(1) unfolding own_def
proof (induction fcs arbitrary: outputs)
  case (Cons fc fcs)
  { case 1 then show ?case using Cons(1) [of "extend_key (fc_rid fc) (fc_sampled fc) outputs"] by (auto simp: fc_event_def Let_def) }
  { case 2 then show ?case using Cons(2) [of "extend_key (fc_rid fc) (fc_sampled fc) outputs"] by (auto simp: fc_event_def Let_def) }
  { case 3
    let ?outs = "extend_key (fc_rid fc) (fc_sampled fc) outputs"
    have split: "map int [a..<a + (b + c)] = map int [a..<a + b] @ map int [a + b..<a + b + c]" for a b c :: nat
      using upt_add_eq_append [of a "a + b" c] by (simp add: add.assoc)
    show ?case
      using 3 Cons(3) [of ?outs] split [of "length (key_log outputs rid)" "length (fc_sampled fc)"]
      by (cases "fc_rid fc = rid") (auto simp: fc_event_def Let_def dict_log.log_put) }
qed simp_all

text \<open>What the server holds for a request once it has received the run \<open>fcs\<close>.\<close>

definition received :: "flush_call list \<Rightarrow> ipc_store" where
  "received fcs = fold (\<lambda>(k, e). store_mask_event k e) (run_events Map.empty fcs) empty_store"

lemma filter_key_map: "filter (\<lambda>(k, xs). k = k') (map (\<lambda>(k, e). (k, f e)) evs) = map (\<lambda>(k, e). (k, f e)) (filter (\<lambda>(k, e). k = k') evs)"
  by (simp add: filter_map comp_def split_def)

lemma received_stores:
  assumes ok: "list_all fc_ok fcs"
    and uniq: "\<forall>fc \<in> set fcs. strip_vllm_suffix (fc_rid fc) = strip_vllm_suffix rid \<longrightarrow> fc_rid fc = rid"
    and own: "own = filter (\<lambda>fc. fc_rid fc = rid) fcs" and ext: "ext = strip_vllm_suffix rid"
  shows "mask_store (received fcs) ext = (if own = [] then None else Some (concat (map fc_mask own)))"
    and "token_store (received fcs) ext = (if own = [] then None else Some (concat (map fc_sampled own)))"
    and "position_store (received fcs) ext
       = (if own = [] then None else Some (map int [0..<length (concat (map fc_sampled own))]))"
proof -
  let ?evs = "run_events Map.empty fcs"
  let ?mine = "filter (\<lambda>(k, e). k = ext) ?evs"
  note full = run_events_full [OF ok, of Map.empty]
  note maps = store_events_maps [OF full, of empty_store, folded received_def]
  note mine = run_events_own [OF uniq, of Map.empty, folded own ext]
  have e: "mask_store empty_store = Map.empty" "token_store empty_store = Map.empty" "position_store empty_store = Map.empty"
    by (simp_all add: empty_store_def)
  have fm: "filter (\<lambda>(k, xs). k = ext) (map (\<lambda>(k, m, t, p, a, l). (k, g m t p a l)) ?evs)
      = map (\<lambda>(k, m, t, p, a, l). (k, g m t p a l)) ?mine" for g :: "bool list \<Rightarrow> int list option \<Rightarrow> int list option \<Rightarrow> int list option \<Rightarrow> f32 list option \<Rightarrow> 'x"
    by (simp add: filter_map comp_def split_def)
  have ne: "?mine = [] \<longleftrightarrow> own = []"
    using arg_cong [OF mine(1), of "\<lambda>xs. xs = []"] unfolding map_is_Nil_conv .
  have snds: "map snd (map (\<lambda>(k, m, t, p, a, l). (k, g m t p a l)) xs) = map (\<lambda>(k, m, t, p, a, l). g m t p a l) xs"
    for g :: "bool list \<Rightarrow> int list option \<Rightarrow> int list option \<Rightarrow> int list option \<Rightarrow> f32 list option \<Rightarrow> 'x" and xs
    by (simp add: comp_def split_def)
  show "mask_store (received fcs) ext = (if own = [] then None else Some (concat (map fc_mask own)))"
    unfolding maps(1) e extend_fold fm snds using ne mine(1) by simp
  show "token_store (received fcs) ext = (if own = [] then None else Some (concat (map fc_sampled own)))"
    unfolding maps(2) e extend_fold fm snds using ne mine(2) by simp
  show "position_store (received fcs) ext
       = (if own = [] then None else Some (map int [0..<length (concat (map fc_sampled own))]))"
    unfolding maps(3) e extend_fold fm snds using ne mine(3) by (simp add: key_log_def)
qed

lemma received_no_actions:
  assumes ok: "list_all fc_ok fcs"
    and "\<forall>fc \<in> set fcs. strip_vllm_suffix (fc_rid fc) = ext \<longrightarrow> \<not> fc_has_actions fc"
  shows "action_store (received fcs) ext = None" "action_logp_store (received fcs) ext = None"
proof -
  have none: "(ext, m, t, p, a, l) \<in> set (run_events outputs fcs) \<Longrightarrow> a = None \<and> l = None" for m t p a l outputs
    using assms(2) by (induction fcs arbitrary: outputs) (auto simp: fc_event_def Let_def)
  note maps = store_events_maps(4,5) [OF run_events_full [OF ok, of Map.empty], of empty_store, folded received_def]
  show "action_store (received fcs) ext = None" "action_logp_store (received fcs) ext = None"
    unfolding maps extend_fold_None by (auto simp: empty_store_def dest!: none)
qed

section \<open>Aligning a contiguous stream\<close>

lemma align_contiguous:
  assumes "length tokens = length msk" "ids = take k tokens" "k \<le> length tokens"
  shows "align_mask_by_positions msk (Some tokens) (map int [0..<length msk]) (Some ids) = Inr (take k msk)"
proof -
  let ?L = "length msk"
  let ?evs = "zip [0..<?L] (zip msk (map int [0..<?L]))"
  have ids: "length ids = k" using assms by simp
  have nth: "?evs ! i = (i, msk ! i, int i)" if "i < ?L" for i using that by simp
  have mem: "(i, t, p) \<in> set ?evs \<longleftrightarrow> i < ?L \<and> t = msk ! i \<and> p = int i" for i t p
    by (auto simp: in_set_conv_nth)
  have ok: "list_all (event_ok (Some tokens) ids) ?evs"
    using assms by (auto simp: list_all_iff event_ok_def mem)
  have cov: "covered k ?evs = {0..<k}" using assms by (auto simp: covered_def mem)
  have at: "teacher_at ?evs q = msk ! q" if "q < k" for q
  proof -
    have "teacher_at ?evs q \<longleftrightarrow> (\<exists>i t p. (i, t, p) \<in> set ?evs \<and> p = int q \<and> t)"
      by (auto simp: teacher_at_def list_ex_iff)
    with that assms show ?thesis unfolding mem by auto
  qed
  have "fold_r (align_mask_step (Some tokens) ids) ?evs (replicate k False, {})
      = Inr (map (teacher_at ?evs) [0..<k], covered k ?evs)"
    using align_mask_fold_ok [OF _ ok, of "replicate k False" "{}"] ids by (simp cong: map_cong)
  moreover have "map (teacher_at ?evs) [0..<k] = take k msk"
    using assms at by (intro nth_equalityI) simp_all
  moreover have "list_all (\<lambda>p. p \<in> covered k ?evs) [0..<k]" unfolding cov by (simp add: list_all_iff)
  ultimately show ?thesis
    using assms(1) ids unfolding align_mask_by_positions_def Let_def by simp
qed

section \<open>Polling\<close>

lemma recv_more:
  assumes "list_all2 carries payloads (run_events Map.empty fcs)" "drop j payloads = ds @ rest" "j \<le> length payloads"
  shows "recv_all loads ds (received (take j fcs)) = received (take (j + length ds) fcs)"
proof -
  let ?evs = "run_events Map.empty fcs" and ?m = "length ds"
  have "ds = take ?m (drop j payloads)" using assms(2) by simp
  then have "list_all2 carries ds (take ?m (drop j ?evs))"
    using assms(1) list_all2_takeI list_all2_dropI by metis
  moreover have "take (j + ?m) ?evs = take j ?evs @ take ?m (drop j ?evs)" by (simp add: take_add)
  ultimately show ?thesis
    using recv_carried by (simp add: received_def flip: take_run_events)
qed

lemma fc_ok_mask: "fc_ok fc \<Longrightarrow> length (fc_mask fc) = length (fc_sampled fc)"
  by (simp add: fc_ok_def fc_mask_def)

lemma length_concat_masks:
  "list_all fc_ok fcs \<Longrightarrow> length (concat (map fc_mask fcs)) = length (concat (map fc_sampled fcs))"
  by (induction fcs) (auto simp: fc_ok_mask)

lemma align_received:
  assumes ok: "list_all fc_ok fcs"
    and uniq: "\<forall>fc \<in> set fcs. strip_vllm_suffix (fc_rid fc) = ext \<longrightarrow> fc_rid fc = rid"
    and acts: "\<forall>fc \<in> set fcs. strip_vllm_suffix (fc_rid fc) = ext \<longrightarrow> \<not> fc_has_actions fc"
    and own: "own = filter (\<lambda>fc. fc_rid fc = rid) fcs" "own' = filter (\<lambda>fc. fc_rid fc = rid) (take j fcs)"
    and ext: "ext = strip_vllm_suffix rid"
    and ids: "ids = take k (concat (map fc_sampled own))" "length ids = k" "k \<le> length (concat (map fc_sampled own'))"
  shows "align_popped (received (take j fcs)) ext (concat (map fc_mask own'))
       (map int [0..<length (concat (map fc_sampled own'))]) ids
     = Inr (Some (take k (concat (map fc_mask own))), None, None, None) \<or> own' = []"
proof (cases "own' = []")
  case False
  have ok': "list_all fc_ok (take j fcs)" "list_all fc_ok own'" using ok own(2)
    by (auto simp: list_all_iff dest: in_set_takeD)
  have uniq': "\<forall>fc \<in> set (take j fcs). strip_vllm_suffix (fc_rid fc) = strip_vllm_suffix rid \<longrightarrow> fc_rid fc = rid"
    using uniq ext by (auto dest: in_set_takeD)
  have acts': "\<forall>fc \<in> set (take j fcs). strip_vllm_suffix (fc_rid fc) = ext \<longrightarrow> \<not> fc_has_actions fc"
    using acts by (auto dest: in_set_takeD)
  obtain rest where split: "own = own' @ rest"
    using own by (metis append_take_drop_id filter_append)
  have len: "length (concat (map fc_mask own')) = length (concat (map fc_sampled own'))"
    by (rule length_concat_masks [OF ok'(2)])
  have "align_mask_by_positions (concat (map fc_mask own')) (Some (concat (map fc_sampled own')))
      (map int [0..<length (concat (map fc_mask own'))]) (Some ids) = Inr (take k (concat (map fc_mask own')))"
    using ids split len by (intro align_contiguous) auto
  moreover have "take k (concat (map fc_mask own')) = take k (concat (map fc_mask own))"
    using ids(3) split len by simp
  ultimately show ?thesis
    using received_stores(2) [OF ok'(1) uniq' own(2) ext] received_no_actions [OF ok'(1) acts'] False len
    by (simp add: align_popped_def align_actions_by_positions_def)
qed simp

text \<open>
  Whatever the grouping, \<open>pop_with_actions\<close> aligns some received prefix that has at least as many
  positions as the response has tokens.
\<close>

lemma poll_pops:
  assumes ok: "list_all fc_ok fcs" and sent: "list_all2 carries payloads (run_events Map.empty fcs)"
    and uniq: "\<forall>fc \<in> set fcs. strip_vllm_suffix (fc_rid fc) = ext \<longrightarrow> fc_rid fc = rid"
    and own: "own = (\<lambda>j. filter (\<lambda>fc. fc_rid fc = rid) (take j fcs))" "own (length fcs) \<noteq> []"
    and ext: "ext = strip_vllm_suffix rid"
    and ids: "length ids \<le> length (concat (map fc_sampled (own (length fcs))))"
    and got: "drop j payloads = concat polls @ late" "j \<le> length payloads"
  shows "\<exists>i. own i \<noteq> [] \<and> length ids \<le> length (concat (map fc_sampled (own i)))
     \<and> snd (pop_with_actions_poll loads ext ids polls late (received (take j fcs)))
       = align_popped (received (take i fcs)) ext (concat (map fc_mask (own i)))
           (map int [0..<length (concat (map fc_sampled (own i)))]) ids"
  using got
proof (induction polls arbitrary: j)
  case Nil
  let ?n = "length fcs"
  have "?n = length payloads" using list_all2_lengthD [OF sent] by simp
  moreover have "length payloads = j + length late" using arg_cong [OF Nil(1), of length] Nil(2) by simp
  ultimately have all: "recv_all loads late (received (take j fcs)) = received (take ?n fcs)"
    using recv_more [OF sent, of j late "[]" loads] Nil by simp
  have own': "own ?n = filter (\<lambda>fc. fc_rid fc = rid) fcs" using own(1) by simp
  show ?case
    using received_stores [OF ok uniq [unfolded ext] own' ext] own(2) all ids
    by (intro exI [of _ ?n]) (simp add: Let_def)
next
  case (Cons ds polls)
  let ?j = "j + length ds"
  have got: "recv_all loads ds (received (take j fcs)) = received (take ?j fcs)"
    using recv_more [OF sent, of j ds "concat polls @ late" loads] Cons.prems by simp
  have "length payloads - j = length ds + length (concat polls @ late)"
    using arg_cong [OF Cons.prems(1), of length] by simp
  then have rest: "drop ?j payloads = concat polls @ late" "?j \<le> length payloads"
    using Cons.prems by (simp_all add: add.commute [of j] flip: drop_drop)
  have ok': "list_all fc_ok (take ?j fcs)" using ok by (auto simp: list_all_iff dest: in_set_takeD)
  have uniq': "\<forall>fc \<in> set (take ?j fcs). strip_vllm_suffix (fc_rid fc) = strip_vllm_suffix rid \<longrightarrow> fc_rid fc = rid"
    using uniq ext by (auto dest: in_set_takeD)
  have ownj: "own ?j = filter (\<lambda>fc. fc_rid fc = rid) (take ?j fcs)" using own(1) by simp
  note stores = received_stores [OF ok' uniq' ownj ext]
  show ?case
  proof (cases "own ?j \<noteq> [] \<and> length ids \<le> length (concat (map fc_sampled (own ?j)))")
    case True
    then show ?thesis using stores got by (intro exI [of _ ?j]) (simp add: Let_def)
  next
    case False
    then have "pop_with_actions_poll loads ext ids (ds # polls) late (received (take j fcs))
        = pop_with_actions_poll loads ext ids polls late (received (take ?j fcs))"
      using stores got by (auto simp: Let_def)
    with Cons.IH [OF rest] show ?thesis by simp
  qed
qed

section \<open>Delivery\<close>

text \<open>The conditions of a run: well-formed flushes, a working socket, positions that fit 32 bits, and an
  external id that no other request of the run shares.\<close>

definition channel_ok :: "flush_call list \<Rightarrow> string \<Rightarrow> ipc_sender \<Rightarrow> bool" where
  "channel_ok fcs rid s \<longleftrightarrow> list_all fc_ok fcs \<and> length (concat (map fc_sampled fcs)) < 2 ^ 31
     \<and> list_all (\<lambda>fc. strip_vllm_suffix (fc_rid fc) = strip_vllm_suffix rid \<longrightarrow> fc_rid fc = rid) fcs
     \<and> list_ex (\<lambda>fc. fc_rid fc = rid) fcs
     \<and> sock_open s \<and> sent s = [] \<and> (case sock_path s of None \<Rightarrow> False | Some p \<Rightarrow> p \<noteq> '''')"

text \<open>What a run under these conditions guarantees about the datagrams.\<close>

lemma channel_sent:
  assumes "channel_ok fcs rid s" "fold_r (flush_step connects (\<lambda>_. True)) fcs (Map.empty, s) = Inr (outs, s')"
  shows "list_all fc_ok fcs"
    and "\<forall>fc \<in> set fcs. strip_vllm_suffix (fc_rid fc) = strip_vllm_suffix rid \<longrightarrow> fc_rid fc = rid"
    and "filter (\<lambda>fc. fc_rid fc = rid) fcs \<noteq> []"
    and "list_all2 carries (sent s') (run_events Map.empty fcs)"
proof -
  obtain p where ok: "list_all fc_ok fcs" "sock_path s = Some p" "p \<noteq> ''''" "sock_open s" "sent s = []"
    and len: "length (concat (map fc_sampled fcs)) < 2 ^ 31"
    using assms(1) by (auto simp: channel_ok_def split: option.splits)
  then show "list_all fc_ok fcs" by simp
  show "\<forall>fc \<in> set fcs. strip_vllm_suffix (fc_rid fc) = strip_vllm_suffix rid \<longrightarrow> fc_rid fc = rid"
    and "filter (\<lambda>fc. fc_rid fc = rid) fcs \<noteq> []"
    using assms(1) by (auto simp: channel_ok_def list_all_iff list_ex_iff filter_empty_conv)
  have "\<exists>payloads s'. fold_r (flush_step connects (\<lambda>_. True)) fcs (Map.empty, s)
       = Inr (fold (\<lambda>fc. extend_key (fc_rid fc) (fc_sampled fc)) fcs Map.empty, s')
     \<and> sent s' = sent s @ payloads \<and> list_all2 carries payloads (run_events Map.empty fcs)"
    by (rule flush_run [OF ok(1-3)]) (use ok(4) len in \<open>simp_all add: key_log_def\<close>)
  with assms(2) ok(5) show "list_all2 carries (sent s') (run_events Map.empty fcs)" by auto
qed

lemma channel_run:
  assumes "channel_ok fcs rid s" "fold_r (flush_step connects (\<lambda>_. True)) fcs (Map.empty, s) = Inr (outs, s')"
    and "drop j (sent s') = concat polls @ late" "j \<le> length (sent s')" "own = filter (\<lambda>fc. fc_rid fc = rid) fcs"
    and "length ids \<le> length (concat (map fc_sampled own))"
  obtains i own' where "own' = filter (\<lambda>fc. fc_rid fc = rid) (take i fcs)" "own' \<noteq> []"
    "length ids \<le> length (concat (map fc_sampled own'))"
    "snd (pop_with_actions loads (Some (strip_vllm_suffix rid)) (length ids) (Some ids) polls late (received (take j fcs)))
       = align_popped (received (take i fcs)) (strip_vllm_suffix rid) (concat (map fc_mask own'))
           (map int [0..<length (concat (map fc_sampled own'))]) ids"
proof -
  note sent = channel_sent [OF assms(1,2)]
  let ?own = "\<lambda>j. filter (\<lambda>fc. fc_rid fc = rid) (take j fcs)"
  have "\<exists>i. ?own i \<noteq> [] \<and> length ids \<le> length (concat (map fc_sampled (?own i)))
     \<and> snd (pop_with_actions_poll loads (strip_vllm_suffix rid) ids polls late (received (take j fcs)))
       = align_popped (received (take i fcs)) (strip_vllm_suffix rid) (concat (map fc_mask (?own i)))
           (map int [0..<length (concat (map fc_sampled (?own i)))]) ids"
    by (rule poll_pops [OF sent(1,4,2) refl _ refl]) (use sent(3) assms(3-6) in simp_all)
  then show ?thesis using that by (auto simp: pop_with_actions_def)
qed

lemma received_Nil [simp]: "received [] = empty_store"
  by (simp add: received_def)

lemma run_outputs:
  assumes "fold_r (flush_step connects sends) fcs (Map.empty, s) = Inr (outs, s')"
  shows "key_log outs rid = concat (map fc_sampled (filter (\<lambda>fc. fc_rid fc = rid) fcs))"
proof -
  have step: "flush_step connects sends fc (outs, s) = Inr (outs', s') \<Longrightarrow> outs' = extend_key (fc_rid fc) (fc_sampled fc) outs"
    for fc outs s outs' s' by (auto simp: flush_step_def Let_def)
  have "fold_r (flush_step connects sends) fcs (outs0, s) = Inr (outs, s') \<Longrightarrow>
      outs = fold (\<lambda>(k, xs). extend_key k xs) (map (\<lambda>fc. (fc_rid fc, fc_sampled fc)) fcs) outs0" for outs0
    by (induction fcs arbitrary: outs0 s) (auto dest!: step)
  with assms have "outs = fold (\<lambda>(k, xs). extend_key k xs) (map (\<lambda>fc. (fc_rid fc, fc_sampled fc)) fcs) Map.empty" by blast
  then show ?thesis
    using dict_log.log_fold_put_fresh [of Map.empty rid "map (\<lambda>fc. (fc_rid fc, fc_sampled fc)) fcs"]
    by (simp add: key_log_def filter_map comp_def)
qed

lemma channel_align:
  assumes "channel_ok fcs rid s" "fold_r (flush_step connects (\<lambda>_. True)) fcs (Map.empty, s) = Inr (outs, s')"
    and "drop j (sent s') = concat polls @ late" "j \<le> length (sent s')"
    and "\<forall>fc \<in> set fcs. fc_rid fc = rid \<longrightarrow> \<not> fc_has_actions fc"
    and "ids = take k (key_log outs rid)" "k \<le> length (key_log outs rid)"
  shows "snd (pop_with_actions loads (Some (strip_vllm_suffix rid)) (length ids) (Some ids) polls late (received (take j fcs)))
       = Inr (Some (take k (concat (map fc_mask (filter (\<lambda>fc. fc_rid fc = rid) fcs)))), None, None, None)"
proof -
  let ?own = "filter (\<lambda>fc. fc_rid fc = rid) fcs"
  note sent = channel_sent [OF assms(1,2)]
  have acts: "\<forall>fc \<in> set fcs. strip_vllm_suffix (fc_rid fc) = strip_vllm_suffix rid \<longrightarrow> \<not> fc_has_actions fc"
    using sent(2) assms(5) by blast
  have outs: "key_log outs rid = concat (map fc_sampled ?own)" by (rule run_outputs [OF assms(2)])
  have ids: "ids = take k (concat (map fc_sampled ?own))" "length ids = k" using assms(6,7) outs by simp_all
  then have "length ids \<le> length (concat (map fc_sampled ?own))" using assms(7) outs by simp
  then obtain i own' where i: "own' = filter (\<lambda>fc. fc_rid fc = rid) (take i fcs)" "own' \<noteq> []"
    "length ids \<le> length (concat (map fc_sampled own'))"
    "snd (pop_with_actions loads (Some (strip_vllm_suffix rid)) (length ids) (Some ids) polls late (received (take j fcs)))
       = align_popped (received (take i fcs)) (strip_vllm_suffix rid) (concat (map fc_mask own'))
           (map int [0..<length (concat (map fc_sampled own'))]) ids"
    by (rule channel_run [OF assms(1-4) refl])
  from align_received [OF sent(1,2) acts refl i(1) refl ids] i show ?thesis using ids(2) by simp
qed

text \<open>Two requests: \<open>r1\<close> gets vLLM's non-speculative first token and then a speculative row, \<open>r2\<close> in between.\<close>

definition ex_flushes :: "flush_call list" where
  "ex_flushes =
     [\<lparr>fc_non_spec = True, fc_pending = None, fc_rids = [Some ''r1''], fc_idx = 0, fc_sampled = [7]\<rparr>,
      \<lparr>fc_non_spec = False,
       fc_pending = Some [empty_row, \<lparr>pr_mask = [True], pr_tokens = [5], pr_actions = [], pr_logps = []\<rparr>],
       fc_rids = [Some ''r1'', Some ''r2''], fc_idx = 1, fc_sampled = [5]\<rparr>,
      \<lparr>fc_non_spec = False,
       fc_pending = Some [\<lparr>pr_mask = [False, True], pr_tokens = [8, 9], pr_actions = [], pr_logps = []\<rparr>],
       fc_rids = [Some ''r1''], fc_idx = 0, fc_sampled = [8, 9]\<rparr>]"

definition ex_sender :: ipc_sender where
  "ex_sender = \<lparr>sock_path = Some ''/run/opd'', sock_open = True, sent = []\<rparr>"

lemma ex_flushes_ok: "channel_ok ex_flushes ''r1'' ex_sender"
proof -
  have "strip_vllm_suffix ''r1'' = ''r1''" "strip_vllm_suffix ''r2'' = ''r2''" by code_simp+
  then show ?thesis
    by (simp add: channel_ok_def ex_flushes_def ex_sender_def fc_ok_def fc_rid_def fc_row_def i32_ok_def ascii_def)
qed

lemma channel_ok_run:
  assumes "channel_ok fcs rid s"
  shows "\<exists>outs s'. fold_r (flush_step connects (\<lambda>_. True)) fcs (Map.empty, s) = Inr (outs, s')"
proof -
  obtain p where "list_all fc_ok fcs" "sock_path s = Some p" "p \<noteq> ''''" "sock_open s \<or> connects p"
    and "length (concat (map fc_sampled fcs)) < 2 ^ 31"
    using assms by (auto simp: channel_ok_def split: option.splits)
  then show ?thesis using flush_run [of fcs s p connects "\<lambda>_. True" Map.empty] by (auto simp: key_log_def)
qed

section \<open>Mixed flushes\<close>

lemma received_actions:
  assumes ok: "list_all fc_ok fcs"
    and uniq: "\<forall>fc \<in> set fcs. strip_vllm_suffix (fc_rid fc) = strip_vllm_suffix rid \<longrightarrow> fc_rid fc = rid"
    and acting: "acting = filter (\<lambda>fc. fc_rid fc = rid \<and> fc_has_actions fc) fcs" "acting \<noteq> []"
  shows "\<exists>as ls. action_store (received fcs) (strip_vllm_suffix rid) = Some as
     \<and> action_logp_store (received fcs) (strip_vllm_suffix rid) = Some ls
     \<and> length as = length (concat (map fc_sampled acting))"
proof -
  let ?ext = "strip_vllm_suffix rid"
  let ?A = "\<lambda>(k, m, t, p, a, l). a \<noteq> (None :: int list option)" and ?L = "\<lambda>(k, m, t, p, a, l). l \<noteq> (None :: f32 list option)"
  have evs: "map (\<lambda>(k, m, t, p, a, l). length (the a)) (filter (\<lambda>(k, e). k = ?ext) (filter ?A (run_events outputs fcs)))
        = map (\<lambda>fc. length (fc_sampled fc)) acting
      \<and> length (filter (\<lambda>(k, e). k = ?ext) (filter ?L (run_events outputs fcs))) = length acting" for outputs
    using uniq unfolding acting(1)
    by (induction fcs arbitrary: outputs) (auto simp: fc_event_def fc_has_actions_def Let_def)
  note maps = store_events_maps(4,5) [OF run_events_full [OF ok, of Map.empty], of empty_store, folded received_def]
  have e: "action_store empty_store = Map.empty" "action_logp_store empty_store = Map.empty"
    by (simp_all add: empty_store_def)
  let ?as = "filter (\<lambda>(k, xs). k = ?ext) (map (\<lambda>(k, m, t, p, a, l). (k, the a)) (filter ?A (run_events Map.empty fcs)))"
  let ?ls = "filter (\<lambda>(k, xs). k = ?ext) (map (\<lambda>(k, m, t, p, a, l). (k, the l)) (filter ?L (run_events Map.empty fcs)))"
  have las: "map (\<lambda>(k, xs). length xs) ?as = map (\<lambda>fc. length (fc_sampled fc)) acting" and lls: "length ?ls = length acting"
    using evs [of Map.empty] by (simp_all add: filter_map comp_def split_def)
  have "?as \<noteq> []" using arg_cong [OF las, of "\<lambda>xs. xs = []"] acting(2) unfolding map_is_Nil_conv by simp
  moreover have "?ls \<noteq> []" using lls acting(2) unfolding length_0_conv [symmetric] by (simp only:) simp
  ultimately have "action_store (received fcs) ?ext = Some (concat (map snd ?as))"
    "action_logp_store (received fcs) ?ext = Some (concat (map snd ?ls))"
    unfolding maps e extend_fold by (simp_all only: if_False)
  moreover have "length (concat (map snd ?as)) = length (concat (map fc_sampled acting))"
    using arg_cong [OF las, of sum_list] by (simp add: length_concat comp_def split_def)
  ultimately show ?thesis by blast
qed

lemma acting_shorter:
  assumes "list_all fc_ok own" "\<exists>fc \<in> set own. \<not> fc_has_actions fc"
  shows "length (concat (map fc_sampled (filter fc_has_actions own))) < length (concat (map fc_sampled own))"
  using assms
proof (induction own)
  case (Cons fc own)
  have "length (concat (map fc_sampled (filter fc_has_actions own))) \<le> length (concat (map fc_sampled own))"
    by (induction own) auto
  moreover have "0 < length (fc_sampled fc)" using Cons.prems by (simp add: fc_ok_def)
  ultimately show ?case
    using Cons.IH Cons.prems by (cases "fc_has_actions fc"; cases "\<exists>fc \<in> set own. \<not> fc_has_actions fc") simp_all
qed simp

text \<open>
  What happens when student actions are exported (\<open>RELAY_OPD_EXPORT_STUDENT_ACTION\<close>): the flush of
  vLLM's non-speculative first token never carries actions, so as soon as another flush of the same
  request does, the action list is shorter than the position list and \<open>pop_with_actions\<close> raises for the
  complete response, in every interleaving and grouping of the datagrams.
\<close>

theorem mixed_action_flushes_rejected:
  assumes "channel_ok fcs rid s" "fold_r (flush_step connects (\<lambda>_. True)) fcs (Map.empty, s) = Inr (outs, s')"
    and "concat polls @ late = sent s'"
    and "\<exists>fc \<in> set fcs. fc_rid fc = rid \<and> fc_non_spec fc"
    and "\<exists>fc \<in> set fcs. fc_rid fc = rid \<and> fc_has_actions fc"
  shows "snd (pop_with_actions loads (Some (strip_vllm_suffix rid)) (length (key_log outs rid)) (Some (key_log outs rid)) polls late empty_store)
       = Inl (RuntimeError ''OPD3 malformed action lengths'')"
proof -
  let ?ext = "strip_vllm_suffix rid"
  let ?own = "filter (\<lambda>fc. fc_rid fc = rid) fcs"
  have ok: "list_all fc_ok fcs"
    and uniq: "\<forall>fc \<in> set fcs. strip_vllm_suffix (fc_rid fc) = ?ext \<longrightarrow> fc_rid fc = rid"
    using assms(1) by (auto simp: channel_ok_def list_all_iff)
  have outs: "key_log outs rid = concat (map fc_sampled ?own)" by (rule run_outputs [OF assms(2)])
  obtain i own' where i: "own' = filter (\<lambda>fc. fc_rid fc = rid) (take i fcs)" "own' \<noteq> []"
    "length (key_log outs rid) \<le> length (concat (map fc_sampled own'))"
    "snd (pop_with_actions loads (Some ?ext) (length (key_log outs rid)) (Some (key_log outs rid)) polls late empty_store)
       = align_popped (received (take i fcs)) ?ext (concat (map fc_mask own'))
           (map int [0..<length (concat (map fc_sampled own'))]) (key_log outs rid)"
    by (rule channel_run [where j = 0 and polls = polls and late = late and loads = loads and ids = "key_log outs rid",
          OF assms(1,2) _ _ refl]) (use assms(3) in \<open>simp_all add: outs\<close>)
  have ok': "list_all fc_ok (take i fcs)" "list_all fc_ok own'" using ok i(1)
    by (auto simp: list_all_iff dest: in_set_takeD)
  have uniq': "\<forall>fc \<in> set (take i fcs). strip_vllm_suffix (fc_rid fc) = ?ext \<longrightarrow> fc_rid fc = rid"
    using uniq by (auto dest: in_set_takeD)
  obtain rest where split: "?own = own' @ rest" using i(1) by (metis append_take_drop_id filter_append)
  have "rest = []"
  proof (rule ccontr)
    assume "rest \<noteq> []"
    then obtain fc where "fc \<in> set rest" by (cases rest) auto
    moreover from this have "fc \<in> set ?own" using split by simp
    then have "fc_sampled fc \<noteq> []" using ok by (auto simp: list_all_iff fc_ok_def)
    ultimately have "concat (map fc_sampled rest) \<noteq> []" by auto
    then show False using i(3) split unfolding outs by simp
  qed
  with split have same: "own' = ?own" by simp
  let ?acting = "filter (\<lambda>fc. fc_rid fc = rid \<and> fc_has_actions fc) (take i fcs)"
  have acting: "?acting = filter fc_has_actions own'" by (simp add: i(1) conj_commute)
  have plain: "\<not> fc_has_actions fc" if "fc \<in> set fcs" "fc_non_spec fc" for fc
    using that ok by (auto simp: list_all_iff fc_has_actions_def fc_row_def fc_ok_def)
  have mixed: "\<exists>fc \<in> set own'. \<not> fc_has_actions fc" "?acting \<noteq> []"
    using assms(4,5) plain unfolding acting same by (auto simp: filter_empty_conv)
  obtain as ls where "action_store (received (take i fcs)) ?ext = Some as"
     "action_logp_store (received (take i fcs)) ?ext = Some ls" "length as = length (concat (map fc_sampled ?acting))"
    using received_actions [OF ok'(1) uniq' refl mixed(2)] by blast
  moreover have "length (concat (map fc_sampled ?acting)) < length (concat (map fc_sampled own'))"
    unfolding acting by (rule acting_shorter [OF ok'(2) mixed(1)])
  moreover have len: "length (concat (map fc_mask own')) = length (concat (map fc_sampled own'))"
    by (rule length_concat_masks [OF ok'(2)])
  have "align_mask_by_positions (concat (map fc_mask own')) (Some (concat (map fc_sampled own')))
      (map int [0..<length (concat (map fc_mask own'))]) (Some (key_log outs rid))
    = Inr (take (length (key_log outs rid)) (concat (map fc_mask own')))"
    using outs same len by (intro align_contiguous) simp_all
  ultimately show ?thesis
    using i(4) len received_stores(2) [OF ok'(1) uniq' i(1) refl] i(2)
    by (simp add: align_popped_def align_actions_by_positions_def)
qed

definition ex_action_flushes :: "flush_call list" where
  "ex_action_flushes =
     [\<lparr>fc_non_spec = True, fc_pending = None, fc_rids = [Some ''r1''], fc_idx = 0, fc_sampled = [7]\<rparr>,
      \<lparr>fc_non_spec = False,
       fc_pending = Some [\<lparr>pr_mask = [True], pr_tokens = [8], pr_actions = [6], pr_logps = [0]\<rparr>],
       fc_rids = [Some ''r1''], fc_idx = 0, fc_sampled = [8]\<rparr>]"

theorem mixed_action_flushes_rejected_witness:
  "\<exists>outs s'. fold_r (flush_step (\<lambda>_. True) (\<lambda>_. True)) ex_action_flushes (Map.empty, ex_sender) = Inr (outs, s')
     \<and> key_log outs ''r1'' = [7, 8]
     \<and> snd (pop_with_actions (\<lambda>_. None) (Some ''r1'') 2 (Some [7, 8]) [sent s'] [] empty_store)
       = Inl (RuntimeError ''OPD3 malformed action lengths'')"
proof -
  have ext: "strip_vllm_suffix ''r1'' = ''r1''" by code_simp
  have ok: "channel_ok ex_action_flushes ''r1'' ex_sender"
    by (simp add: channel_ok_def ex_action_flushes_def ex_sender_def fc_ok_def fc_rid_def fc_row_def i32_ok_def ascii_def ext)
  then obtain outs s' where run: "fold_r (flush_step (\<lambda>_. True) (\<lambda>_. True)) ex_action_flushes (Map.empty, ex_sender) = Inr (outs, s')"
    using channel_ok_run by blast
  have outs: "key_log outs ''r1'' = [7, 8]"
    unfolding run_outputs [OF run] by (simp add: ex_action_flushes_def fc_rid_def)
  have "snd (pop_with_actions (\<lambda>_. None) (Some (strip_vllm_suffix ''r1'')) (length (key_log outs ''r1''))
      (Some (key_log outs ''r1'')) [sent s'] [] empty_store) = Inl (RuntimeError ''OPD3 malformed action lengths'')"
    by (rule mixed_action_flushes_rejected [OF ok run])
       (simp_all add: ex_action_flushes_def fc_rid_def fc_has_actions_def fc_row_def)
  then have "snd (pop_with_actions (\<lambda>_. None) (Some ''r1'') 2 (Some [7, 8]) [sent s'] [] empty_store)
       = Inl (RuntimeError ''OPD3 malformed action lengths'')"
    unfolding ext outs by (simp add: numeral_2_eq_2)
  with run outs show ?thesis by blast
qed

section \<open>The channel, end to end\<close>

text \<open>
  [C8] What the mask channel delivers. The worker flushes the accepted tokens of any number of requests in any
  interleaving, over a socket that accepts every datagram (well-formed flushes, positions below \<open>2 ^ 31\<close>, an external
  id that no other request of the run shares); every datagram is received, grouped between the server's polls in any
  way. If no flush of the request carries student actions, \<open>pop_with_actions\<close> called with the final response (a prefix
  of what the request emitted) returns exactly the teacher marks recorded for these tokens, one per token, and no
  actions. With exported actions the channel does not deliver: a request with a flush of vLLM's non-speculative token
  and a flush with actions makes the pop of its complete response raise.
\<close>

theorem mask_channel_delivers:
  assumes "channel_ok fcs rid s" "fold_r (flush_step connects (\<lambda>_. True)) fcs (Map.empty, s) = Inr (outs, s')"
    and "concat polls @ late = sent s'" "k \<le> length (key_log outs rid)"
    and "popped = snd (pop_with_actions loads (Some (strip_vllm_suffix rid)) k (Some (take k (key_log outs rid))) polls late empty_store)"
  shows "((\<forall>fc \<in> set fcs. fc_rid fc = rid \<longrightarrow> \<not> fc_has_actions fc) \<longrightarrow>
        popped = Inr (Some (take k (concat (map fc_mask (filter (\<lambda>fc. fc_rid fc = rid) fcs)))), None, None, None))
    \<and> ((\<exists>fc \<in> set fcs. fc_rid fc = rid \<and> fc_non_spec fc) \<and> (\<exists>fc \<in> set fcs. fc_rid fc = rid \<and> fc_has_actions fc)
        \<and> k = length (key_log outs rid) \<longrightarrow> popped = Inl (RuntimeError ''OPD3 malformed action lengths''))"
proof (intro conjI impI)
  assume "\<forall>fc \<in> set fcs. fc_rid fc = rid \<longrightarrow> \<not> fc_has_actions fc"
  from channel_align [OF assms(1,2) _ _ this refl assms(4), of 0 polls late loads] assms(3-5)
  show "popped = Inr (Some (take k (concat (map fc_mask (filter (\<lambda>fc. fc_rid fc = rid) fcs)))), None, None, None)" by simp
next
  assume "(\<exists>fc \<in> set fcs. fc_rid fc = rid \<and> fc_non_spec fc) \<and> (\<exists>fc \<in> set fcs. fc_rid fc = rid \<and> fc_has_actions fc)
    \<and> k = length (key_log outs rid)"
  then show "popped = Inl (RuntimeError ''OPD3 malformed action lengths'')"
    using mixed_action_flushes_rejected [OF assms(1-3), of loads] assms(5) by simp
qed

theorem mask_channel_delivers_witness:
  "\<exists>outs s' outs2 s2. fold_r (flush_step (\<lambda>_. True) (\<lambda>_. True)) ex_flushes (Map.empty, ex_sender) = Inr (outs, s')
     \<and> snd (pop_with_actions (\<lambda>_. None) (Some ''r1'') 3 (Some [7, 8, 9]) [[], take 2 (sent s')] (drop 2 (sent s')) empty_store)
       = Inr (Some [False, False, True], None, None, None)
     \<and> fold_r (flush_step (\<lambda>_. True) (\<lambda>_. True)) ex_action_flushes (Map.empty, ex_sender) = Inr (outs2, s2)
     \<and> snd (pop_with_actions (\<lambda>_. None) (Some ''r1'') 2 (Some [7, 8]) [sent s2] [] empty_store)
       = Inl (RuntimeError ''OPD3 malformed action lengths'')"
proof -
  have ext: "strip_vllm_suffix ''r1'' = ''r1''" by code_simp
  obtain outs s' where run: "fold_r (flush_step (\<lambda>_. True) (\<lambda>_. True)) ex_flushes (Map.empty, ex_sender) = Inr (outs, s')"
    using channel_ok_run [OF ex_flushes_ok] by blast
  have own: "filter (\<lambda>fc. fc_rid fc = ''r1'') ex_flushes = [ex_flushes ! 0, ex_flushes ! 2]"
    by (simp add: ex_flushes_def fc_rid_def)
  have outs: "key_log outs ''r1'' = [7, 8, 9]"
    unfolding run_outputs [OF run] own by (simp add: ex_flushes_def)
  have acts: "\<forall>fc \<in> set ex_flushes. fc_rid fc = ''r1'' \<longrightarrow> \<not> fc_has_actions fc"
    by (simp add: ex_flushes_def fc_rid_def fc_has_actions_def fc_row_def)
  have "snd (pop_with_actions (\<lambda>_. None) (Some (strip_vllm_suffix ''r1'')) 3 (Some (take 3 (key_log outs ''r1'')))
        [[], take 2 (sent s')] (drop 2 (sent s')) empty_store)
      = Inr (Some (take 3 (concat (map fc_mask (filter (\<lambda>fc. fc_rid fc = ''r1'') ex_flushes)))), None, None, None)"
    by (rule mp [OF conjunct1 [OF mask_channel_delivers [OF ex_flushes_ok run _ _ refl]] acts]) (simp_all add: outs)
  moreover have "take 3 (concat (map fc_mask [ex_flushes ! 0, ex_flushes ! 2])) = [False, False, True]"
    by (simp add: ex_flushes_def fc_mask_def fc_row_def)
  ultimately have one: "snd (pop_with_actions (\<lambda>_. None) (Some ''r1'') 3 (Some [7, 8, 9]) [[], take 2 (sent s')]
      (drop 2 (sent s')) empty_store) = Inr (Some [False, False, True], None, None, None)"
    unfolding own ext outs by (simp add: numeral_3_eq_3)
  have ok: "channel_ok ex_action_flushes ''r1'' ex_sender"
    by (simp add: channel_ok_def ex_action_flushes_def ex_sender_def fc_ok_def fc_rid_def fc_row_def i32_ok_def ascii_def ext)
  obtain outs2 s2 where run2: "fold_r (flush_step (\<lambda>_. True) (\<lambda>_. True)) ex_action_flushes (Map.empty, ex_sender) = Inr (outs2, s2)"
    using channel_ok_run [OF ok] by blast
  have outs2: "key_log outs2 ''r1'' = [7, 8]"
    unfolding run_outputs [OF run2] by (simp add: ex_action_flushes_def fc_rid_def)
  have "snd (pop_with_actions (\<lambda>_. None) (Some (strip_vllm_suffix ''r1'')) 2 (Some (take 2 (key_log outs2 ''r1'')))
      [sent s2] [] empty_store) = Inl (RuntimeError ''OPD3 malformed action lengths'')"
    by (rule mp [OF conjunct2 [OF mask_channel_delivers [OF ok run2 _ _ refl]]])
       (simp_all add: outs2 ex_action_flushes_def fc_rid_def fc_has_actions_def fc_row_def)
  then have "snd (pop_with_actions (\<lambda>_. None) (Some ''r1'') 2 (Some [7, 8]) [sent s2] [] empty_store)
       = Inl (RuntimeError ''OPD3 malformed action lengths'')"
    unfolding ext outs2 by (simp add: numeral_2_eq_2)
  with run one run2 show ?thesis by blast
qed

end
