(* ===== verification/Generate.thy ===== *)
theory Generate
  imports Mask_Channel Py_Env
begin

text \<open>
  The rollout server's \<open>generate\<close> (\<open>vLLMHttpServer.generate\<close> of \<open>vllm_async_server.py\<close>) and the helpers it
  calls: the token budget of a request, the prompt clean-up \<open>qwen2_5_vl_dedup_image_tokens\<close>, the prompt
  log-probabilities \<open>extract_prompt_logprobs\<close>, the trigger-stop post-processing that removes the private stop
  token, and the export of the mask collected by \<open>OpdMaskIpcServer\<close>. The vLLM engine is a parameter that
  maps a prompt and its sampling parameters to the outputs of its async generator. Floats are only moved
  around here, so they are an opaque type \<open>'f\<close>.
\<close>

section \<open>The token budget\<close>

record gen_config =
  max_model_len :: int
  prompt_length :: int
  response_length :: int
  enable_rollout_routing_replay :: bool
  mtp_rollout :: bool
  lora_as_adapter :: bool
  is_teacher_model :: bool
  is_reward_model :: bool
  gc_global_steps :: int

record sampling_request =
  sp_max_tokens :: "int option"
  sp_max_new_tokens :: "int option"
  sp_logprobs :: bool
  sp_prompt_logprobs :: "int option"

text \<open>Lines 533-565: the headroom test, the choice of \<open>max_tokens\<close> and its clamping.\<close>

definition resolve_max_tokens :: "gen_config \<Rightarrow> sampling_request \<Rightarrow> nat \<Rightarrow> int result" where
  "resolve_max_tokens cfg sp prompt_len =
     (let max_possible_tokens = max_model_len cfg - int prompt_len in
      if max_possible_tokens < 1
      then Inl (ValueError ''Prompt length leaves no room to generate'')
      else
        (let max_tokens =
               (case sp_max_tokens sp of
                  Some m \<Rightarrow> m
                | None \<Rightarrow>
                    (case sp_max_new_tokens sp of
                       Some m \<Rightarrow> m
                     | None \<Rightarrow> min (response_length cfg)
                                 (prompt_length cfg + response_length cfg - int prompt_len)));
             max_tokens = max 1 (min max_tokens max_possible_tokens)
         in if 1 \<le> max_tokens \<and> max_tokens \<le> max_possible_tokens then Inr max_tokens
            else Inl (AssertionError ''max_tokens not in valid range'')))"

section \<open>Prompt clean-up\<close>

text \<open>\<open>mask[1:] &= ~(is_value[1:] & is_value[:-1])\<close> and the selection; \<open>vision\<close> is the pair of placeholder
  token ids of a Qwen2-VL processor, \<open>None\<close> for every other processor.\<close>

definition qwen2_5_vl_dedup_image_tokens :: "(int \<times> int) option \<Rightarrow> int list \<Rightarrow> int list" where
  "qwen2_5_vl_dedup_image_tokens vision prompt_ids =
     (case vision of
        None \<Rightarrow> prompt_ids
      | Some (image_id, video_id) \<Rightarrow>
          (let is_value = map (\<lambda>t. t = image_id \<or> t = video_id) prompt_ids;
               keep = map (\<lambda>i. \<not> (0 < i \<and> is_value ! i \<and> is_value ! (i - 1))) [0..<length prompt_ids]
           in map fst (filter snd (zip prompt_ids keep))))"

section \<open>Prompt log-probabilities\<close>

record 'f logprob_entry =
  lp_rank :: int
  lp_logprob :: 'f

type_synonym 'f logprob_dict = "(int \<times> 'f logprob_entry) list"

text \<open>\<open>xs[i] = v\<close> with Python's negative indices.\<close>

definition py_set :: "'a list \<Rightarrow> int \<Rightarrow> 'a \<Rightarrow> 'a list result" where
  "py_set xs i v =
     (let j = (if i < 0 then i + int (length xs) else i) in
      if 0 \<le> j \<and> j < int (length xs) then Inr (xs[nat j := v]) else Inl IndexError)"

definition rank_step ::
  "int \<Rightarrow> int \<times> 'f logprob_entry \<Rightarrow> int option list \<times> 'f option list \<Rightarrow> (int option list \<times> 'f option list) result" where
  "rank_step k = (\<lambda>(token_id, e) (ids, lps).
     if lp_rank e > k then Inr (ids, lps)
     else bind_r (py_set ids (lp_rank e - 1) (Some token_id)) (\<lambda>ids'.
          bind_r (py_set lps (lp_rank e - 1) (Some (lp_logprob e))) (\<lambda>lps'. Inr (ids', lps'))))"

text \<open>One iteration of the loop over \<open>output.prompt_logprobs[1:]\<close>: the row of ids, the row of
  log-probabilities, and the actual token's log-probability when it is asked for.\<close>

definition prompt_logprob_row ::
  "int \<Rightarrow> int list option \<Rightarrow> bool \<Rightarrow> nat \<Rightarrow> 'f logprob_dict
     \<Rightarrow> (int option list \<times> 'f option list \<times> 'f list) result" where
  "prompt_logprob_row k prompt_token_ids include_token pos d =
     (if k = 0 then
        (case d of
           [] \<Rightarrow> Inl IndexError
         | (t, e) # _ \<Rightarrow> Inr ([Some t], [Some (lp_logprob e)], if include_token then [lp_logprob e] else []))
      else if \<not> (int (length d) = k \<or> int (length d) = k + 1) then Inl (AssertionError ''prompt logprobs'')
      else
        bind_r (fold_r (rank_step k) d (replicate (nat k) None, replicate (nat k) None)) (\<lambda>(ids, lps).
          case (if include_token then prompt_token_ids else None) of
            None \<Rightarrow> Inr (ids, lps, [])
          | Some actual \<Rightarrow>
              if pos + 1 \<ge> length actual then Inl IndexError
              else (case map_of d (actual ! (pos + 1)) of
                      None \<Rightarrow> Inl (RuntimeError ''actual token missing from prompt_logprobs'')
                    | Some e \<Rightarrow> Inr (ids, lps, [lp_logprob e]))))"

record 'f prompt_logprobs =
  pl_ids :: "int option list list"
  pl_logprobs :: "'f option list list"
  pl_token_logprobs :: "'f list option"

definition extract_prompt_logprobs ::
  "'f \<Rightarrow> 'f logprob_dict list \<Rightarrow> int option \<Rightarrow> int list option \<Rightarrow> bool \<Rightarrow> 'f prompt_logprobs option result" where
  "extract_prompt_logprobs zero prompt_lps num_prompt_logprobs prompt_token_ids include_token =
     (case num_prompt_logprobs of
        None \<Rightarrow> Inr None
      | Some k \<Rightarrow>
          bind_r (map_r (\<lambda>(pos, d). prompt_logprob_row k prompt_token_ids include_token pos d)
                    (enumerate 0 (drop 1 prompt_lps)))
            (\<lambda>rows.
              Inr (Some \<lparr>pl_ids = map fst rows @ [replicate (nat (max k 1)) (Some 0)],
                pl_logprobs = map (fst \<circ> snd) rows @ [replicate (nat (max k 1)) (Some zero)],
                pl_token_logprobs =
                  (if include_token then Some (concat (map (snd \<circ> snd) rows) @ [zero]) else None)\<rparr>)))"

section \<open>Trigger-Stop post-processing\<close>

text \<open>Lines 651-698: the response is cut in front of the private stop token; an event that does not match the
  final tokens is dropped. The dictionary entries that are only logged are left out.\<close>

definition apply_stop_event :: "int list \<Rightarrow> stop_event option \<Rightarrow> int list \<times> stop_event option" where
  "apply_stop_event raw_token_ids event =
     (case event of
        None \<Rightarrow> (raw_token_ids, None)
      | Some e \<Rightarrow>
          (let truncate_pos = ev_response_pos e; internal_stop_id = ev_internal_stop_token_id e in
           if 0 \<le> truncate_pos \<and> truncate_pos < int (length raw_token_ids)
              \<and> raw_token_ids ! nat truncate_pos = internal_stop_id
           then (take (nat truncate_pos) raw_token_ids, Some e)
           else if truncate_pos = int (length raw_token_ids) then (raw_token_ids, Some e)
           else (raw_token_ids, None)))"

text \<open>Lines 699-704; the engine's list has one dictionary per raw token.\<close>

definition token_logprobs :: "int list \<Rightarrow> nat \<Rightarrow> (int \<rightharpoonup> 'f) list option \<Rightarrow> 'f list result" where
  "token_logprobs raw_token_ids n lps_opt =
     (case lps_opt of
        None \<Rightarrow> Inl TypeError
      | Some lps \<Rightarrow>
          bind_r (map_r (\<lambda>(i, d). if i \<ge> length raw_token_ids then Inl IndexError
                                  else (case d (raw_token_ids ! i) of
                                          None \<Rightarrow> Inl (KeyError ''token id'')
                                        | Some f \<Rightarrow> Inr f))
                    (enumerate 0 lps))
            (\<lambda>raw. Inr (take n raw)))"

definition map_stop_reason :: "string option \<Rightarrow> string option" where
  "map_stop_reason finish_reason =
     (if finish_reason = Some ''abort'' then Some ''aborted''
      else if finish_reason = Some ''stop'' \<or> finish_reason = Some ''length'' then Some ''completed''
      else finish_reason)"

section \<open>The engine's outputs and the server's result\<close>

record ('f, 'r) completion =
  co_token_ids :: "int list"
  co_logprobs :: "(int \<rightharpoonup> 'f) list option"
  co_finish_reason :: "string option"
  co_routed_experts :: "'r option"
  co_num_preempted :: "int option"

record spec_decode_stats =
  sds_draft :: int
  sds_accepted :: int
  sds_steps :: int

record ('f, 'r) request_output =
  ro_outputs :: "('f, 'r) completion list"
  ro_prompt_logprobs :: "'f logprob_dict list"
  ro_spec_stats :: "spec_decode_stats option"

record engine_params =
  ep_max_tokens :: int
  ep_logprobs :: "int option"
  ep_prompt_logprobs :: "int option"

record 'f extra_fields =
  ef_request_id :: string
  ef_global_steps :: int
  ef_stop_reason :: "string option"
  ef_trigger_stopped :: bool
  ef_trigger_stop_pos :: "int option"
  ef_prompt :: "'f prompt_logprobs option"
  ef_relay_teacher_mask :: "bool list option"
  ef_relay_student_actions :: "(int list \<times> f32 list \<times> bool list) option"
  ef_spec_stats :: "spec_decode_stats option"

record ('f, 'r) token_output =
  to_token_ids :: "int list"
  to_log_probs :: "'f list option"
  to_routed_experts :: "'r option"
  to_stop_reason :: "string option"
  to_num_preempted :: "int option"
  to_extra_fields :: "'f extra_fields"

text \<open>The datagrams that the receive thread gets during the two polling waits of a request.\<close>

record arrivals =
  ar_stop_polls :: "byte list list list"
  ar_stop_late :: "byte list list"
  ar_mask_polls :: "byte list list list"
  ar_mask_late :: "byte list list"

section \<open>Exporting the mask\<close>

definition opd_enabled :: "environ \<Rightarrow> bool" where
  "opd_enabled env \<longleftrightarrow> env ''VERL_OPD_SPECULATIVE_ENABLE'' = Some ''1''"

text \<open>Lines 736-755.\<close>

definition export_mask ::
  "(byte list \<Rightarrow> stop_event option) \<Rightarrow> string \<Rightarrow> int list \<Rightarrow> arrivals \<Rightarrow> ipc_store
     \<Rightarrow> ipc_store \<times> (bool list \<times> (int list \<times> f32 list \<times> bool list) option) result" where
  "export_mask loads rid token_ids ar store =
     (case pop_with_actions loads (Some rid) (length token_ids) (Some token_ids) (ar_mask_polls ar) (ar_mask_late ar) store of
        (store', r) \<Rightarrow>
          (store', bind_r r (\<lambda>(mask_opt, action_ids, action_logps, action_mask).
             case mask_opt of
               None \<Rightarrow> Inl (RuntimeError ''relay_teacher_mask missing'')
             | Some msk \<Rightarrow>
                 if length msk \<noteq> length token_ids
                 then Inl (RuntimeError ''relay_teacher_mask length mismatch after alignment'')
                 else Inr (msk, case (action_ids, action_logps, action_mask) of
                                  (Some a, Some l, Some m) \<Rightarrow> Some (a, l, m)
                                | _ \<Rightarrow> None))))"

section \<open>generate\<close>

text \<open>Lines 640-778, once the engine has produced a final output with at least one completion: \<open>ipc\<close> is the
  mask server's store when the server has one.\<close>

definition finish_generate ::
  "environ \<Rightarrow> (byte list \<Rightarrow> stop_event option) \<Rightarrow> 'f \<Rightarrow> gen_config \<Rightarrow> string \<Rightarrow> engine_params \<Rightarrow> int list
     \<Rightarrow> ('f, 'r) request_output \<Rightarrow> ('f, 'r) completion \<Rightarrow> arrivals \<Rightarrow> ipc_store option
     \<Rightarrow> ipc_store option \<times> ('f, 'r) token_output result" where
  "finish_generate env loads zero cfg rid ep prompt_ids res c ar ipc =
     (let include_token = (env ''VERL_DISTILLATION_DUAL_LOGPROBS'' = Some ''1'') in
      case extract_prompt_logprobs zero (ro_prompt_logprobs res) (ep_prompt_logprobs ep)
             (if include_token then Some prompt_ids else None) include_token of
        Inl e \<Rightarrow> (ipc, Inl e)
      | Inr plp \<Rightarrow>
          (let raw_token_ids = co_token_ids c;
               (ipc1, event) =
                 (case (if opd_enabled env then ipc else None) of
                    None \<Rightarrow> (ipc, None)
                  | Some store \<Rightarrow> map_prod Some id (pop_stop_event loads rid (ar_stop_polls ar) (ar_stop_late ar) store));
               (token_ids, event) = apply_stop_event raw_token_ids event;
               log_probs = (case ep_logprobs ep of
                              None \<Rightarrow> Inr None
                            | Some _ \<Rightarrow> bind_r (token_logprobs raw_token_ids (length token_ids) (co_logprobs c))
                                         (\<lambda>l. Inr (Some l)))
           in case log_probs of
                Inl e \<Rightarrow> (ipc1, Inl e)
              | Inr lps \<Rightarrow>
                  (let stop_reason = map_stop_reason (co_finish_reason c);
                       (ipc2, exported) =
                         (case (if opd_enabled env then ipc1 else None) of
                            None \<Rightarrow> (ipc1, Inr (None, None))
                          | Some store \<Rightarrow> map_prod Some (\<lambda>r. bind_r r (\<lambda>(m, a). Inr (Some m, a)))
                                           (export_mask loads rid token_ids ar store))
                   in (ipc2, bind_r exported (\<lambda>(msk, acts).
                        if mtp_rollout cfg \<and> ro_spec_stats res = None
                        then Inl (RuntimeError ''vLLM MTP rollout requires request_spec_decode_stats'')
                        else Inr \<lparr>to_token_ids = token_ids,
                          to_log_probs = lps,
                          to_routed_experts = (if enable_rollout_routing_replay cfg then co_routed_experts c else None),
                          to_stop_reason = stop_reason,
                          to_num_preempted = co_num_preempted c,
                          to_extra_fields = \<lparr>ef_request_id = rid, ef_global_steps = gc_global_steps cfg,
                            ef_stop_reason = stop_reason, ef_trigger_stopped = (event \<noteq> None),
                            ef_trigger_stop_pos = map_option ev_response_pos event, ef_prompt = plp,
                            ef_relay_teacher_mask = msk, ef_relay_student_actions = acts,
                            ef_spec_stats = (if mtp_rollout cfg then ro_spec_stats res else None)\<rparr>\<rparr>)))))"

text \<open>The early return for an aborted request.\<close>

definition aborted_output :: "environ \<Rightarrow> gen_config \<Rightarrow> string \<Rightarrow> engine_params \<Rightarrow> ('f, 'r) token_output" where
  "aborted_output env cfg rid ep =
     \<lparr>to_token_ids = [], to_log_probs = (if ep_logprobs ep \<noteq> None then Some [] else None),
      to_routed_experts = None, to_stop_reason = Some ''aborted'', to_num_preempted = None,
      to_extra_fields = \<lparr>ef_request_id = rid, ef_global_steps = gc_global_steps cfg,
        ef_stop_reason = Some ''aborted'', ef_trigger_stopped = False, ef_trigger_stop_pos = None,
        ef_prompt = None, ef_relay_teacher_mask = (if opd_enabled env then Some [] else None),
        ef_relay_student_actions = None, ef_spec_stats = None\<rparr>\<rparr>"

text \<open>\<open>generate\<close>: \<open>engine\<close> gives the outputs of the engine's async generator for a prompt, its sampling
  parameters and whether the LoRA adapter is used (the adapter is used when it is loaded).\<close>

definition generate ::
  "environ \<Rightarrow> (byte list \<Rightarrow> stop_event option) \<Rightarrow> 'f
     \<Rightarrow> (int list \<Rightarrow> engine_params \<Rightarrow> bool \<Rightarrow> ('f, 'r) request_output list) \<Rightarrow> bool
     \<Rightarrow> gen_config \<Rightarrow> (int \<times> int) option \<Rightarrow> int list \<Rightarrow> sampling_request \<Rightarrow> string \<Rightarrow> arrivals
     \<Rightarrow> ipc_store option \<Rightarrow> ipc_store option \<times> ('f, 'r) token_output result" where
  "generate env loads zero engine lora_loaded cfg vision prompt_ids sp rid ar ipc =
     (if opd_enabled env \<and> \<not> is_teacher_model cfg \<and> \<not> is_reward_model cfg \<and> ipc = None
      then (ipc, Inl (RuntimeError ''OPD mask IPC server is not initialized''))
      else
        (case resolve_max_tokens cfg sp (length prompt_ids) of
           Inl e \<Rightarrow> (ipc, Inl e)
         | Inr max_tokens \<Rightarrow>
             (let ep = \<lparr>ep_max_tokens = max_tokens, ep_logprobs = (if sp_logprobs sp then Some 0 else None),
                        ep_prompt_logprobs = sp_prompt_logprobs sp\<rparr>;
                  prompt = qwen2_5_vl_dedup_image_tokens vision prompt_ids;
                  outs = engine prompt ep (lora_as_adapter cfg \<and> lora_loaded)
              in if outs = [] then (ipc, Inl (AssertionError ''final_res''))
                 else
                   (case ro_outputs (last outs) of
                      [] \<Rightarrow> (ipc, Inr (aborted_output env cfg rid ep))
                    | c # _ \<Rightarrow> finish_generate env loads zero cfg rid ep prompt (last outs) c ar ipc))))"

text \<open>\<open>_sleep_hybrid\<close>: the sleep level.\<close>

definition sleep_level :: "environ \<Rightarrow> gen_config \<Rightarrow> bool \<Rightarrow> nat" where
  "sleep_level env cfg npu =
     (let opd_speculative_enabled = (opd_enabled env \<and> \<not> is_teacher_model cfg \<and> \<not> is_reward_model cfg) in
      if lora_as_adapter cfg \<or> npu \<or> opd_speculative_enabled then 1 else 2)"

section \<open>The prompt clean-up collapses runs of vision tokens\<close>

text \<open>The reference: after a vision token, the vision tokens that follow it are dropped.\<close>

fun squash :: "('a \<Rightarrow> bool) \<Rightarrow> bool \<Rightarrow> 'a list \<Rightarrow> 'a list" where
  "squash P prev [] = []"
| "squash P prev (x # xs) = (if prev \<and> P x then squash P True xs else x # squash P (P x) xs)"

lemma squash_keep_mask:
  "map fst (filter snd (zip xs (map (\<lambda>i. \<not> ((if i = 0 then prev else P (xs ! (i - 1))) \<and> P (xs ! i))) [0..<length xs])))
     = squash P prev xs"
proof (induction xs arbitrary: prev)
  case (Cons x xs)
  have shift: "map (\<lambda>i. \<not> ((if i = 0 then prev else P ((x # xs) ! (i - 1))) \<and> P ((x # xs) ! i))) [0..<length (x # xs)]
      = (\<not> (prev \<and> P x)) # map (\<lambda>i. \<not> ((if i = 0 then P x else P (xs ! (i - 1))) \<and> P (xs ! i))) [0..<length xs]"
    unfolding list.size(4) map_upt_Suc One_nat_def add_Suc_right add_0_right
    by (auto intro!: map_cong simp: nth_Cons' split: nat.splits)
  show ?case unfolding shift using Cons.IH [of "P x"] Cons.IH [of True] by auto
qed simp

lemma dedup_squash:
  "qwen2_5_vl_dedup_image_tokens (Some (im, vi)) ids = squash (\<lambda>t. t = im \<or> t = vi) False ids"
proof -
  let ?P = "\<lambda>t. t = im \<or> t = vi"
  have "map (\<lambda>i. \<not> (0 < i \<and> map ?P ids ! i \<and> map ?P ids ! (i - 1))) [0..<length ids]
      = map (\<lambda>i. \<not> ((if i = 0 then False else ?P (ids ! (i - 1))) \<and> ?P (ids ! i))) [0..<length ids]"
    by (rule map_cong) auto
  then show ?thesis
    unfolding qwen2_5_vl_dedup_image_tokens_def Let_def option.case prod.case 
    by (simp only: squash_keep_mask [of ids False ?P])
qed

lemma squash_text: "filter (\<lambda>x. \<not> P x) (squash P prev xs) = filter (\<lambda>x. \<not> P x) xs"
  by (induction P prev xs rule: squash.induct) auto

lemma squash_hd: "squash P True xs = [] \<or> \<not> P (hd (squash P True xs))"
  by (induction xs) auto

lemma squash_adjacent: "successively (\<lambda>x y. \<not> (P x \<and> P y)) (squash P prev xs)"
proof (induction P prev xs rule: squash.induct)
  case (2 P prev x xs)
  then show ?case using squash_hd [of P xs] by (auto simp: successively_Cons)
qed simp

lemma squash_fixed: "successively (\<lambda>x y. \<not> (P x \<and> P y)) (x # xs) \<Longrightarrow> squash P (P x) xs = xs"
proof (induction xs arbitrary: x)
  case (Cons y ys)
  then show ?case by auto
qed simp

text \<open>
  \<open>qwen2_5_vl_dedup_image_tokens\<close> leaves the text tokens as they are and in their order, leaves no
  two adjacent vision placeholders, and changes nothing when it is applied again.
\<close>

theorem dedup_image_tokens_correct:
  fixes im vi :: int
  defines "vis \<equiv> (\<lambda>t. t = im \<or> t = vi)" and "dedup \<equiv> qwen2_5_vl_dedup_image_tokens (Some (im, vi))"
  shows "filter (\<lambda>t. \<not> vis t) (dedup ids) = filter (\<lambda>t. \<not> vis t) ids
    \<and> successively (\<lambda>s t. \<not> (vis s \<and> vis t)) (dedup ids)
    \<and> dedup (dedup ids) = dedup ids"
proof -
  have d: "dedup xs = squash vis False xs" for xs by (simp add: dedup_def dedup_squash vis_def)
  have "squash vis False (dedup ids) = dedup ids"
    using squash_adjacent [of vis False ids] squash_fixed [of vis] unfolding d
    by (cases "squash vis False ids") auto
  then show ?thesis using squash_adjacent [of vis False ids] by (simp add: d squash_text)
qed

text \<open>
  The token budget of a request: \<open>generate\<close> refuses exactly the prompts that fill the context, and
  otherwise asks vLLM for at least one token and never for more than the context leaves, nor for more
  than the caller asked for (when that is at least one token).
\<close>

theorem resolve_max_tokens_bounds:
  "case resolve_max_tokens cfg sp n of
     Inl e \<Rightarrow> max_model_len cfg \<le> int n \<and> e = ValueError ''Prompt length leaves no room to generate''
   | Inr m \<Rightarrow> 1 \<le> m \<and> int n + m \<le> max_model_len cfg
       \<and> (case sp_max_tokens sp of
            Some a \<Rightarrow> m \<le> max 1 a
          | None \<Rightarrow> (case sp_max_new_tokens sp of
               Some a \<Rightarrow> m \<le> max 1 a
             | None \<Rightarrow> m \<le> max 1 (response_length cfg)
                 \<and> (int n + m \<le> prompt_length cfg + response_length cfg \<or> m = 1)))"
  by (auto simp: resolve_max_tokens_def Let_def split: option.splits)

section \<open>Prompt log-probabilities are placed by rank\<close>

lemma rank_fold:
  assumes "list_all (\<lambda>(t, e). 1 \<le> lp_rank e) d" "distinct (map (lp_rank \<circ> snd) d)"
    and "length ids = nat k" "length lps = nat k"
  shows "\<exists>ids' lps'. fold_r (rank_step k) d (ids, lps) = Inr (ids', lps') \<and> length ids' = nat k \<and> length lps' = nat k
    \<and> (\<forall>r. 1 \<le> r \<longrightarrow> r \<le> k \<longrightarrow>
        (case find (\<lambda>(t, e). lp_rank e = r) d of
           None \<Rightarrow> ids' ! nat (r - 1) = ids ! nat (r - 1) \<and> lps' ! nat (r - 1) = lps ! nat (r - 1)
         | Some (t, e) \<Rightarrow> ids' ! nat (r - 1) = Some t \<and> lps' ! nat (r - 1) = Some (lp_logprob e)))"
  using assms
proof (induction d arbitrary: ids lps)
  case (Cons te d)
  obtain t e where te: "te = (t, e)" by (cases te)
  let ?r0 = "lp_rank e"
  have none: "find (\<lambda>(t, e). lp_rank e = ?r0) d = None"
    using Cons.prems(2) by (force simp: te find_None_iff)
  have IH: "\<exists>ids' lps'. fold_r (rank_step k) d (is, ls) = Inr (ids', lps') \<and> length ids' = nat k \<and> length lps' = nat k
    \<and> (\<forall>r. 1 \<le> r \<longrightarrow> r \<le> k \<longrightarrow>
        (case find (\<lambda>(t, e). lp_rank e = r) d of
           None \<Rightarrow> ids' ! nat (r - 1) = is ! nat (r - 1) \<and> lps' ! nat (r - 1) = ls ! nat (r - 1)
         | Some (t, e) \<Rightarrow> ids' ! nat (r - 1) = Some t \<and> lps' ! nat (r - 1) = Some (lp_logprob e)))"
    if "length is = nat k" "length ls = nat k" for "is" ls
    using Cons.IH [of "is" ls] Cons.prems that by simp
  show ?case
  proof (cases "?r0 > k")
    case True
    then show ?thesis using IH [OF Cons.prems(3,4)] by (auto simp: te rank_step_def)
  next
    case False
    let ?j = "nat (?r0 - 1)"
    have j: "1 \<le> ?r0" "?j < nat k" using Cons.prems(1) False by (auto simp: te)
    then have step: "rank_step k te (ids, lps) = Inr (ids[?j := Some t], lps[?j := Some (lp_logprob e)])"
      using False Cons.prems(3,4) by (auto simp: te rank_step_def py_set_def Let_def)
    obtain ids' lps' where r: "fold_r (rank_step k) d (ids[?j := Some t], lps[?j := Some (lp_logprob e)]) = Inr (ids', lps')"
      "length ids' = nat k" "length lps' = nat k"
      and at: "\<forall>r. 1 \<le> r \<longrightarrow> r \<le> k \<longrightarrow>
        (case find (\<lambda>(t, e). lp_rank e = r) d of
           None \<Rightarrow> ids' ! nat (r - 1) = ids[?j := Some t] ! nat (r - 1)
             \<and> lps' ! nat (r - 1) = lps[?j := Some (lp_logprob e)] ! nat (r - 1)
         | Some (t, e) \<Rightarrow> ids' ! nat (r - 1) = Some t \<and> lps' ! nat (r - 1) = Some (lp_logprob e))"
      using IH [of "ids[?j := Some t]" "lps[?j := Some (lp_logprob e)]"] Cons.prems(3,4) by auto
    have "case find (\<lambda>(t, e). lp_rank e = r) (te # d) of
           None \<Rightarrow> ids' ! nat (r - 1) = ids ! nat (r - 1) \<and> lps' ! nat (r - 1) = lps ! nat (r - 1)
         | Some (t, e) \<Rightarrow> ids' ! nat (r - 1) = Some t \<and> lps' ! nat (r - 1) = Some (lp_logprob e)"
      if "1 \<le> r" "r \<le> k" for r
    proof (cases "r = ?r0")
      case True
      then show ?thesis using at [rule_format, OF that] none j Cons.prems(3,4) by (simp add: te)
    next
      case False
      then have "nat (r - 1) \<noteq> ?j" using that j by auto
      then show ?thesis using at [rule_format, OF that] False by (auto simp: te split: option.splits)
    qed
    then show ?thesis using r step by auto
  qed
qed (auto split: option.splits)

text \<open>What vLLM documents of \<open>prompt_logprobs = k\<close>: at every position but the first the dictionary holds the
  \<open>k\<close> best tokens with ranks \<open>1..k\<close>, and the actual token too when it is not one of them.\<close>

definition ranks_ok :: "nat \<Rightarrow> int list \<Rightarrow> 'f logprob_dict list \<Rightarrow> bool" where
  "ranks_ok k actual lps \<longleftrightarrow> 0 < k \<and> length lps \<le> length actual
     \<and> list_all (\<lambda>p. let d = lps ! p in
         (length d = k \<or> length d = k + 1)
         \<and> list_all (\<lambda>(t, e). 1 \<le> lp_rank e) d \<and> distinct (map (lp_rank \<circ> snd) d)
         \<and> list_all (\<lambda>r. list_ex (\<lambda>(t, e). lp_rank e = int r) d) [1..<Suc k]
         \<and> map_of d (actual ! p) \<noteq> None) [1..<length lps]"

definition row_ok :: "nat \<Rightarrow> int list \<Rightarrow> bool \<Rightarrow> nat \<Rightarrow> 'f logprob_dict \<Rightarrow> int option list \<times> 'f option list \<times> 'f list \<Rightarrow> bool" where
  "row_ok k actual incl p d = (\<lambda>(ids, lps, tok). length ids = k \<and> length lps = k
     \<and> (\<forall>j < k. \<exists>(t, e) \<in> set d. lp_rank e = int j + 1 \<and> ids ! j = Some t \<and> lps ! j = Some (lp_logprob e))
     \<and> tok = (if incl then [lp_logprob (the (map_of d (actual ! p)))] else []))"

lemma prompt_logprob_row_ok:
  assumes "ranks_ok k actual lps" "Suc pos < length lps"
  shows "\<exists>row. prompt_logprob_row (int k) (if incl then Some actual else None) incl pos (lps ! Suc pos) = Inr row
    \<and> row_ok k actual incl (Suc pos) (lps ! Suc pos) row"
proof -
  let ?d = "lps ! Suc pos"
  have all: "list_all (\<lambda>p. let d = lps ! p in (length d = k \<or> length d = k + 1)
         \<and> list_all (\<lambda>(t, e). 1 \<le> lp_rank e) d \<and> distinct (map (lp_rank \<circ> snd) d)
         \<and> list_all (\<lambda>r. list_ex (\<lambda>(t, e). lp_rank e = int r) d) [1..<Suc k]
         \<and> map_of d (actual ! p) \<noteq> None) [1..<length lps]"
    and k: "0 < k" and len: "length lps \<le> length actual"
    using assms(1) unfolding ranks_ok_def by blast+
  have "Suc pos \<in> set [1..<length lps]" using assms(2) by simp
  then have d: "length ?d = k \<or> length ?d = k + 1" "list_all (\<lambda>(t, e). 1 \<le> lp_rank e) ?d"
      "distinct (map (lp_rank \<circ> snd) ?d)" "map_of ?d (actual ! Suc pos) \<noteq> None"
      "\<forall>r \<in> set [1..<Suc k]. list_ex (\<lambda>(t, e). lp_rank e = int r) ?d"
    using all unfolding list_all_iff Let_def by blast+
  have len0: "length (replicate (nat (int k)) None) = nat (int k)" by simp
  obtain ids lps' where f: "fold_r (rank_step (int k)) ?d (replicate (nat (int k)) None, replicate (nat (int k)) None) = Inr (ids, lps')"
      "length ids = k" "length lps' = k"
    and at: "\<forall>r. 1 \<le> r \<longrightarrow> r \<le> int k \<longrightarrow>
        (case find (\<lambda>(t, e). lp_rank e = r) ?d of
           None \<Rightarrow> ids ! nat (r - 1) = replicate (nat (int k)) None ! nat (r - 1)
             \<and> lps' ! nat (r - 1) = replicate (nat (int k)) None ! nat (r - 1)
         | Some (t, e) \<Rightarrow> ids ! nat (r - 1) = Some t \<and> lps' ! nat (r - 1) = Some (lp_logprob e))"
    using rank_fold [OF d(2,3) len0 len0] by auto
  have "\<exists>(t, e) \<in> set ?d. lp_rank e = int j + 1 \<and> ids ! j = Some t \<and> lps' ! j = Some (lp_logprob e)" if "j < k" for j
  proof -
    have "Suc j \<in> set [1..<Suc k]" using that by auto
    from bspec [OF d(5) this] have "list_ex (\<lambda>(t, e). lp_rank e = int j + 1) ?d" by (simp add: add.commute)
    then obtain te where te: "find (\<lambda>(t, e). lp_rank e = int j + 1) ?d = Some te"
      by (cases "find (\<lambda>(t, e). lp_rank e = int j + 1) ?d") (auto simp: find_None_iff list_ex_iff)
    moreover from this have "te \<in> set ?d" "case te of (t, e) \<Rightarrow> lp_rank e = int j + 1" by (auto simp: find_Some_iff in_set_conv_nth)
    ultimately show ?thesis using at [rule_format, of "int j + 1"] that by (intro bexI [of _ te]) auto
  qed
  with f d(1,4) k len assms(2) show ?thesis
    by (auto simp: prompt_logprob_row_def row_ok_def split: option.splits)
qed

text \<open>
  \<open>extract_prompt_logprobs\<close>: with the dictionaries vLLM documents it never raises and returns one row
  per prompt position, whose entry \<open>j\<close> is the token of rank \<open>j + 1\<close> with its log-probability; the row of the
  last position is padding; when they are asked for, the actual tokens' log-probabilities are returned too.
\<close>

theorem extract_prompt_logprobs_by_rank:
  assumes "ranks_ok k actual lps"
  shows "\<exists>r. extract_prompt_logprobs zero lps (Some (int k)) (if incl then Some actual else None) incl = Inr (Some r)
    \<and> length (pl_ids r) = max 1 (length lps) \<and> length (pl_logprobs r) = max 1 (length lps)
    \<and> (\<forall>p. Suc p < length lps \<longrightarrow> (\<forall>j < k. \<exists>(t, e) \<in> set (lps ! Suc p).
         lp_rank e = int j + 1 \<and> pl_ids r ! p ! j = Some t \<and> pl_logprobs r ! p ! j = Some (lp_logprob e)))
    \<and> pl_token_logprobs r = (if incl
         then Some (map (\<lambda>p. lp_logprob (the (map_of (lps ! p) (actual ! p)))) [1..<length lps] @ [zero]) else None)"
proof -
  let ?ps = "enumerate 0 (drop 1 lps)"
  let ?f = "\<lambda>(pos, d). prompt_logprob_row (int k) (if incl then Some actual else None) incl pos d"
  have nth: "?ps ! p = (p, lps ! Suc p)" if "Suc p < length lps" for p
    using that by (simp add: nth_enumerate_eq)
  have "\<exists>row. ?f x = Inr row \<and> (case x of (p, d) \<Rightarrow> row_ok k actual incl (Suc p) d row)" if "x \<in> set ?ps" for x
  proof -
    obtain p where p: "p < length ?ps" "?ps ! p = x" using \<open>x \<in> set ?ps\<close> by (auto simp: in_set_conv_nth)
    then have "x = (p, lps ! Suc p)" "Suc p < length lps" using nth [of p] by auto
    then show ?thesis using prompt_logprob_row_ok [OF assms, of p incl] by auto
  qed
  then obtain g where g: "\<forall>x \<in> set ?ps. ?f x = Inr (g x) \<and> (case x of (p, d) \<Rightarrow> row_ok k actual incl (Suc p) d (g x))"
    by metis
  then have rows: "map_r ?f ?ps = Inr (map g ?ps)" by (intro map_r_Inr) auto
  have row: "row_ok k actual incl (Suc p) (lps ! Suc p) (g (?ps ! p))" if "Suc p < length lps" for p
  proof -
    have "?ps ! p \<in> set ?ps" using that by (intro nth_mem) simp
    with g nth [OF that] show ?thesis by fastforce
  qed
  have tok: "concat (map (snd \<circ> snd) (map g ?ps))
      = (if incl then map (\<lambda>p. lp_logprob (the (map_of (lps ! p) (actual ! p)))) [1..<length lps] else [])"
  proof -
    have "map (snd \<circ> snd) (map g ?ps)
        = map (\<lambda>p. if incl then [lp_logprob (the (map_of (lps ! p) (actual ! p)))] else []) [1..<length lps]"
    proof (rule nth_equalityI)
      fix i assume "i < length (map (snd \<circ> snd) (map g ?ps))"
      then have "Suc i < length lps" by simp
      with row [OF this] show "map (snd \<circ> snd) (map g ?ps) ! i
          = map (\<lambda>p. if incl then [lp_logprob (the (map_of (lps ! p) (actual ! p)))] else []) [1..<length lps] ! i"
        by (auto simp: row_ok_def split: prod.splits)
    qed simp
    then show ?thesis by (simp add: concat_map_singleton)
  qed
  have ex: "extract_prompt_logprobs zero lps (Some (int k)) (if incl then Some actual else None) incl
     = Inr (Some \<lparr>pl_ids = map fst (map g ?ps) @ [replicate (nat (max (int k) 1)) (Some 0)],
                pl_logprobs = map (fst \<circ> snd) (map g ?ps) @ [replicate (nat (max (int k) 1)) (Some zero)],
                pl_token_logprobs = (if incl then Some (concat (map (snd \<circ> snd) (map g ?ps)) @ [zero]) else None)\<rparr>)"
    unfolding extract_prompt_logprobs_def option.case rows by simp
  have "\<exists>(t, e) \<in> set (lps ! Suc p). lp_rank e = int j + 1
      \<and> (map fst (map g ?ps) @ z) ! p ! j = Some t \<and> (map (fst \<circ> snd) (map g ?ps) @ z') ! p ! j = Some (lp_logprob e)"
    if "Suc p < length lps" "j < k" for p j z z'
  proof -
    obtain ids ls tl where gp: "g (?ps ! p) = (ids, ls, tl)" using prod_cases3 by blast
    have "(map fst (map g ?ps) @ z) ! p = ids" "(map (fst \<circ> snd) (map g ?ps) @ z') ! p = ls"
      using that(1) gp by (simp_all add: nth_append less_diff_conv)
    then show ?thesis using row [OF that(1)] that(2) unfolding gp row_ok_def by (simp del: map_map)
  qed
  then show ?thesis unfolding ex tok by auto
qed

section \<open>What generate returns\<close>

lemma align_mask_length:
  assumes "align_mask_by_positions msk ets poss (Some ids) = Inr al"
  shows "length al = length ids"
proof -
  have "fold_r (align_mask_step ets ids) evs s = Inr t \<Longrightarrow> length (fst t) = length (fst s)" for evs s t
    by (induction evs arbitrary: s) (auto simp: align_mask_step_def split: if_splits prod.splits option.splits)
  from this [of "zip [0..<length msk] (zip msk poss)" "(replicate (length ids) False, {})"] assms show ?thesis
    by (auto simp: align_mask_by_positions_def Let_def split: if_splits prod.splits)
qed

lemma align_actions_length:
  assumes "align_actions_by_positions poss acts lps ids = Inr (Some a, Some l, Some m)"
  shows "length a = length ids \<and> length l = length ids \<and> length m = length ids"
proof -
  have "length (fst (fold (align_action_step n) evs s)) = length (fst s)
      \<and> length (fst (snd (fold (align_action_step n) evs s))) = length (fst (snd s))
      \<and> length (snd (snd (fold (align_action_step n) evs s))) = length (snd (snd s))" for n evs s
    by (induction evs arbitrary: s) (auto simp: align_action_step_def split: prod.splits)
  note len = this
  show ?thesis
  proof (cases acts)
    case (Some as)
    with assms obtain ls where ls: "lps = Some ls" by (cases lps) (auto simp: align_actions_by_positions_def)
    let ?r = "fold (align_action_step (length ids)) (zip as (zip ls poss)) (ids, replicate (length ids) f32_nan, replicate (length ids) False)"
    have "?r = (a, l, m)" using assms Some ls
      by (auto simp: align_actions_by_positions_def Let_def split: if_splits prod.splits)
    with len [of "length ids" "zip as (zip ls poss)" "(ids, replicate (length ids) f32_nan, replicate (length ids) False)"]
    show ?thesis by simp
  qed (use assms in \<open>simp add: align_actions_by_positions_def\<close>)
qed

lemma pop_poll_lengths:
  assumes "snd (pop_with_actions_poll loads rid ids polls late st) = Inr (mo, a, l, m)"
  shows "(\<forall>msk. mo = Some msk \<longrightarrow> length msk = length ids)
    \<and> (\<forall>a' l' m'. (a, l, m) = (Some a', Some l', Some m') \<longrightarrow>
         length a' = length ids \<and> length l' = length ids \<and> length m' = length ids)"
proof -
  have al: "align_popped st rid msk poss ids = Inr (mo, a, l, m) \<Longrightarrow> ?thesis" for st msk poss
    by (auto simp: align_popped_def dest: align_mask_length align_actions_length)
  from assms show ?thesis
  proof (induction polls arbitrary: st)
    case Nil
    then show ?case using al by (auto simp: Let_def split: option.splits)
  next
    case (Cons ds polls)
    let ?st = "recv_all loads ds st"
    show ?case
    proof (cases "\<exists>msk poss. mask_store ?st rid = Some msk \<and> position_store ?st rid = Some poss \<and> length ids \<le> length poss")
      case True
      then show ?thesis using Cons.prems al by (auto simp: Let_def)
    next
      case False
      then have "pop_with_actions_poll loads rid ids (ds # polls) late st = pop_with_actions_poll loads rid ids polls late ?st"
        by (auto simp: Let_def split: option.splits)
      then show ?thesis using Cons by simp
    qed
  qed
qed

lemma export_mask_lengths:
  assumes "export_mask loads rid ids ar store = (store', Inr (msk, acts))"
  shows "length msk = length ids
    \<and> (\<forall>a l m. acts = Some (a, l, m) \<longrightarrow> length a = length ids \<and> length l = length ids \<and> length m = length ids)"
proof -
  let ?r = "pop_with_actions_poll loads rid ids (ar_mask_polls ar) (ar_mask_late ar) store"
  have pop: "pop_with_actions loads (Some rid) (length ids) (Some ids) (ar_mask_polls ar) (ar_mask_late ar) store = ?r"
    by (simp add: pop_with_actions_def)
  obtain st r where r: "?r = (st, r)" by (cases ?r)
  obtain mo a l m where res: "r = Inr (mo, a, l, m)"
    using assms pop r by (cases r) (auto simp: export_mask_def)
  have mo: "mo = Some msk" and len: "length msk = length ids"
    and acts: "acts = (case (a, l, m) of (Some a, Some l, Some m) \<Rightarrow> Some (a, l, m) | _ \<Rightarrow> None)"
    using assms unfolding export_mask_def pop r res prod.case bind_r_Inr
    by (cases mo; cases "length (the mo) = length ids"; simp)+
  have "snd ?r = Inr (mo, a, l, m)" by (simp add: r res)
  note lens = pop_poll_lengths [OF this, THEN conjunct2, rule_format]
  have "(a, l, m) = (Some a', Some l', Some m')" if "acts = Some (a', l', m')" for a' l' m'
    using that unfolding acts by (simp split: option.splits)
  with lens len show ?thesis by blast
qed

text \<open>The one way through \<open>finish_generate\<close> that returns.\<close>

lemma finish_generateE:
  assumes "finish_generate env loads zero cfg rid ep prompt_ids res c ar ipc = (ipc', Inr out)"
  obtains ipc1 event0 event msk acts where
    "(ipc1, event0) = (case (if opd_enabled env then ipc else None) of
        None \<Rightarrow> (ipc, None)
      | Some store \<Rightarrow> map_prod Some id (pop_stop_event loads rid (ar_stop_polls ar) (ar_stop_late ar) store))"
    "apply_stop_event (co_token_ids c) event0 = (to_token_ids out, event)"
    "(case (if opd_enabled env then ipc1 else None) of
        None \<Rightarrow> (ipc1, Inr (None, None))
      | Some store \<Rightarrow> map_prod Some (\<lambda>r. bind_r r (\<lambda>(m, a). Inr (Some m, a)))
                       (export_mask loads rid (to_token_ids out) ar store)) = (ipc', Inr (msk, acts))"
    "ef_relay_teacher_mask (to_extra_fields out) = msk" "ef_relay_student_actions (to_extra_fields out) = acts"
    "ef_trigger_stopped (to_extra_fields out) = (event \<noteq> None)"
    "ef_trigger_stop_pos (to_extra_fields out) = map_option ev_response_pos event"
proof -
  obtain ipc1 event0 where 1: "(case (if opd_enabled env then ipc else None) of
        None \<Rightarrow> (ipc, None)
      | Some store \<Rightarrow> map_prod Some id (pop_stop_event loads rid (ar_stop_polls ar) (ar_stop_late ar) store)) = (ipc1, event0)"
    by (cases "case (if opd_enabled env then ipc else None) of
        None \<Rightarrow> (ipc, None)
      | Some store \<Rightarrow> map_prod Some id (pop_stop_event loads rid (ar_stop_polls ar) (ar_stop_late ar) store)")
  obtain toks event where 2: "apply_stop_event (co_token_ids c) event0 = (toks, event)"
    by (cases "apply_stop_event (co_token_ids c) event0")
  obtain ipc2 exported where 3: "(case (if opd_enabled env then ipc1 else None) of
        None \<Rightarrow> (ipc1, Inr (None, None))
      | Some store \<Rightarrow> map_prod Some (\<lambda>r. bind_r r (\<lambda>(m, a). Inr (Some m, a))) (export_mask loads rid toks ar store)) = (ipc2, exported)"
    by (cases "case (if opd_enabled env then ipc1 else None) of
        None \<Rightarrow> (ipc1, Inr (None, None))
      | Some store \<Rightarrow> map_prod Some (\<lambda>r. bind_r r (\<lambda>(m, a). Inr (Some m, a))) (export_mask loads rid toks ar store)")
  have "\<exists>msk acts. exported = Inr (msk, acts) \<and> ipc2 = ipc' \<and> to_token_ids out = toks
      \<and> ef_relay_teacher_mask (to_extra_fields out) = msk \<and> ef_relay_student_actions (to_extra_fields out) = acts
      \<and> ef_trigger_stopped (to_extra_fields out) = (event \<noteq> None)
      \<and> ef_trigger_stop_pos (to_extra_fields out) = map_option ev_response_pos event"
    using assms unfolding finish_generate_def Let_def 1 2 prod.case 3
    by (cases exported) (auto split: sum.splits if_splits simp del: not_None_eq)
  then obtain msk acts where r: "exported = Inr (msk, acts)" "ipc2 = ipc'" "to_token_ids out = toks"
      "ef_relay_teacher_mask (to_extra_fields out) = msk" "ef_relay_student_actions (to_extra_fields out) = acts"
      "ef_trigger_stopped (to_extra_fields out) = (event \<noteq> None)"
      "ef_trigger_stop_pos (to_extra_fields out) = map_option ev_response_pos event"
    by blast
  show ?thesis
    by (rule that [OF 1 [symmetric] _ _ r(4-7)]) (use 2 3 [unfolded r(1,2)] in \<open>simp_all only: r(3)\<close>)
qed

definition engine_call_ok :: "gen_config \<Rightarrow> sampling_request \<Rightarrow> nat \<Rightarrow> engine_params \<Rightarrow> bool" where
  "engine_call_ok cfg sp n ep \<longleftrightarrow> resolve_max_tokens cfg sp n = Inr (ep_max_tokens ep)
     \<and> ep_logprobs ep = (if sp_logprobs sp then Some 0 else None) \<and> ep_prompt_logprobs ep = sp_prompt_logprobs sp"

lemma generateE:
  assumes "generate env loads zero engine lora_loaded cfg vision prompt_ids sp rid ar ipc = (ipc', Inr out)"
    and "prompt = qwen2_5_vl_dedup_image_tokens vision prompt_ids"
  obtains (aborted) ep where "out = aborted_output env cfg rid ep"
  | (finished) ep c cs where "engine_call_ok cfg sp (length prompt_ids) ep"
      "ro_outputs (last (engine prompt ep (lora_as_adapter cfg \<and> lora_loaded))) = c # cs"
      "finish_generate env loads zero cfg rid ep prompt (last (engine prompt ep (lora_as_adapter cfg \<and> lora_loaded))) c ar ipc
         = (ipc', Inr out)"
proof -
  obtain m where m: "resolve_max_tokens cfg sp (length prompt_ids) = Inr m"
    using assms(1) by (cases "resolve_max_tokens cfg sp (length prompt_ids)") (auto simp: generate_def split: if_splits)
  define ep where "ep = \<lparr>ep_max_tokens = m, ep_logprobs = (if sp_logprobs sp then Some 0 else None),
    ep_prompt_logprobs = sp_prompt_logprobs sp\<rparr>"
  let ?res = "last (engine prompt ep (lora_as_adapter cfg \<and> lora_loaded))"
  have ep: "engine_call_ok cfg sp (length prompt_ids) ep" by (simp add: engine_call_ok_def ep_def m)
  have "(case ro_outputs ?res of [] \<Rightarrow> (ipc, Inr (aborted_output env cfg rid ep))
       | c # _ \<Rightarrow> finish_generate env loads zero cfg rid ep prompt ?res c ar ipc) = (ipc', Inr out)"
    using assms unfolding generate_def Let_def m sum.case ep_def [symmetric] by (auto split: if_splits)
  with ep that show ?thesis by (cases "ro_outputs ?res") auto
qed

text \<open>
  The contract the trainer relies on: whenever a rollout server with OPD enabled returns a response,
  the response carries a relay mask with exactly one entry per returned token, and the student-action
  lists, when present, have that length too. (A response without mask is refused with an error.)
\<close>

theorem generate_mask_aligned:
  assumes "opd_enabled env" "\<not> is_teacher_model cfg" "\<not> is_reward_model cfg"
    and "generate env loads zero engine lora_loaded cfg vision prompt_ids sp rid ar ipc = (ipc', Inr out)"
  shows "\<exists>msk. ef_relay_teacher_mask (to_extra_fields out) = Some msk \<and> length msk = length (to_token_ids out)
    \<and> (\<forall>a l m. ef_relay_student_actions (to_extra_fields out) = Some (a, l, m) \<longrightarrow>
         length a = length (to_token_ids out) \<and> length l = length (to_token_ids out) \<and> length m = length (to_token_ids out))"
  using assms(4) refl
proof (cases rule: generateE)
  case (aborted ep)
  then show ?thesis using assms(1) by (simp add: aborted_output_def)
next
  case (finished ep c cs)
  obtain store where ipc: "ipc = Some store"
    using assms by (cases ipc) (auto simp: generate_def)
  from finished(3) show ?thesis
  proof (cases rule: finish_generateE)
    case (1 ipc1 event0 event msk acts)
    obtain store1 where ipc1: "ipc1 = Some store1"
      using 1(1) by (cases "pop_stop_event loads rid (ar_stop_polls ar) (ar_stop_late ar) store") (simp add: ipc assms(1))
    obtain st r where r: "export_mask loads rid (to_token_ids out) ar store1 = (st, r)" by fastforce
    have "bind_r r (\<lambda>(m, a). Inr (Some m, a)) = Inr (msk, acts)" using 1(3) by (simp add: assms(1) ipc1 r)
    then obtain m where m: "r = Inr (m, acts)" "msk = Some m" by auto
    from export_mask_lengths [OF r [unfolded m(1)]] m(2) 1(4,5) show ?thesis by simp
  qed
qed

text \<open>
  Trigger-Stop post-processing: the response is the engine's token list, unless the request was stopped by
  a trigger; then it is the part before the reported position, and what the engine emitted there, if
  anything, is the private stop token of the event, which therefore never reaches the trainer as the
  token of that position.
\<close>

theorem generate_cuts_at_stop:
  assumes "generate env loads zero engine lora_loaded cfg vision prompt_ids sp rid ar (Some store) = (ipc', Inr out)"
    and "to_token_ids out \<noteq> []" and "prompt = qwen2_5_vl_dedup_image_tokens vision prompt_ids"
    and "event = snd (pop_stop_event loads rid (ar_stop_polls ar) (ar_stop_late ar) store)"
  shows "\<exists>ep c cs. engine_call_ok cfg sp (length prompt_ids) ep
    \<and> ro_outputs (last (engine prompt ep (lora_as_adapter cfg \<and> lora_loaded))) = c # cs
    \<and> (case ef_trigger_stop_pos (to_extra_fields out) of
         None \<Rightarrow> \<not> ef_trigger_stopped (to_extra_fields out) \<and> to_token_ids out = co_token_ids c
       | Some p \<Rightarrow> ef_trigger_stopped (to_extra_fields out) \<and> 0 \<le> p \<and> p \<le> int (length (co_token_ids c))
           \<and> to_token_ids out = take (nat p) (co_token_ids c)
           \<and> (\<exists>e. event = Some e \<and> ev_response_pos e = p
                \<and> (nat p < length (co_token_ids c) \<longrightarrow> co_token_ids c ! nat p = ev_internal_stop_token_id e)))"
  using assms(1,3)
proof (cases rule: generateE)
  case (aborted ep)
  then show ?thesis using assms(2) by (simp add: aborted_output_def)
next
  case (finished ep c cs)
  from finished(3) show ?thesis
  proof (cases rule: finish_generateE)
    case (1 ipc1 event0 event1 msk acts)
    have ev: "event0 = None \<or> event0 = event"
      using 1(1) by (cases "opd_enabled env") (auto simp: assms(4) map_prod_def split: prod.splits)
    have "case ef_trigger_stop_pos (to_extra_fields out) of
         None \<Rightarrow> \<not> ef_trigger_stopped (to_extra_fields out) \<and> to_token_ids out = co_token_ids c
       | Some p \<Rightarrow> ef_trigger_stopped (to_extra_fields out) \<and> 0 \<le> p \<and> p \<le> int (length (co_token_ids c))
           \<and> to_token_ids out = take (nat p) (co_token_ids c)
           \<and> (\<exists>e. event = Some e \<and> ev_response_pos e = p
                \<and> (nat p < length (co_token_ids c) \<longrightarrow> co_token_ids c ! nat p = ev_internal_stop_token_id e))"
      using 1(2,6,7) ev by (cases event0) (auto simp: apply_stop_event_def Let_def split: if_splits)
    then show ?thesis using finished(1,2) by blast
  qed
qed

section \<open>From the worker's flushes to the response\<close>

text \<open>A datagram of the worker's \<open>_send_stop_event_ipc\<close>, as the receive loop recognises it.\<close>

definition stop_datagram :: "(byte list \<Rightarrow> stop_event option) \<Rightarrow> byte list \<Rightarrow> bool" where
  "stop_datagram loads payload =
     (case split_nul payload of None \<Rightarrow> False | Some (r, body) \<Rightarrow> decode_stop_event_payload loads body \<noteq> None)"

abbreviation masks_only :: "(byte list \<Rightarrow> stop_event option) \<Rightarrow> byte list list \<Rightarrow> byte list list" where
  "masks_only loads \<equiv> filter (\<lambda>d. \<not> stop_datagram loads d)"

text \<open>The datagrams that arrive before \<open>pop_stop_event\<close> returns: it stops polling at the first event of its request.\<close>

fun stop_wait ::
  "(byte list \<Rightarrow> stop_event option) \<Rightarrow> string \<Rightarrow> byte list list list \<Rightarrow> byte list list \<Rightarrow> ipc_store \<Rightarrow> byte list list" where
  "stop_wait loads rid [] late st = late"
| "stop_wait loads rid (ds # polls) late st =
     ds @ (case take_stop_event rid (recv_all loads ds st) of
             (st', Some e) \<Rightarrow> []
           | (st', None) \<Rightarrow> stop_wait loads rid polls late st')"

text \<open>Stop events and mask events are kept apart: forgetting the stop events commutes with every operation.\<close>

definition no_stops :: "ipc_store \<Rightarrow> ipc_store" where
  "no_stops st = st\<lparr>stop_event_store := Map.empty\<rparr>"

lemma no_stops_store: "no_stops (store_mask_event k ev st) = store_mask_event k ev (no_stops st)"
  by (simp add: no_stops_def store_mask_event_def split: prod.splits)

lemma no_stops_recv:
  "no_stops (recv_datagram loads d st) = (if stop_datagram loads d then no_stops st else recv_datagram loads d (no_stops st))"
  by (auto simp: recv_datagram_def stop_datagram_def no_stops_store Let_def split: option.splits) (simp_all add: no_stops_def)

lemma no_stops_recv_all: "no_stops (recv_all loads ds st) = recv_all loads (masks_only loads ds) (no_stops st)"
  unfolding recv_all_def by (induction ds arbitrary: st) (simp_all add: no_stops_recv)

lemma no_stops_take: "no_stops (fst (take_stop_event rid st)) = no_stops st"
  by (simp add: no_stops_def take_stop_event_def)

lemma recv_all_append: "recv_all loads (ds @ ds') st = recv_all loads ds' (recv_all loads ds st)"
  by (simp add: recv_all_def)

lemma no_stops_pop_stop_event:
  "no_stops (fst (pop_stop_event loads rid polls late st)) = recv_all loads (masks_only loads (stop_wait loads rid polls late st)) (no_stops st)"
proof (induction polls arbitrary: st)
  case Nil
  then show ?case by (simp add: no_stops_take no_stops_recv_all)
next
  case (Cons ds polls)
  obtain st' e where t: "take_stop_event rid (recv_all loads ds st) = (st', e)" by fastforce
  have "no_stops st' = recv_all loads (masks_only loads ds) (no_stops st)"
    using no_stops_take [of rid "recv_all loads ds st"] t by (simp add: no_stops_recv_all)
  then show ?case using Cons.IH [of st'] t by (cases e) (simp_all add: recv_all_append)
qed

lemma no_stops_sel:
  "mask_store (no_stops st) = mask_store st" "position_store (no_stops st) = position_store st"
  "align_popped (no_stops st) = align_popped st"
  by (simp_all add: no_stops_def align_popped_def fun_eq_iff)

lemma no_stops_pop_poll:
  "snd (pop_with_actions_poll loads rid ids polls late st)
     = snd (pop_with_actions_poll loads rid ids (map (masks_only loads) polls) (masks_only loads late) (no_stops st))"
proof (induction polls arbitrary: st)
  case Nil
  show ?case by (simp add: Let_def no_stops_sel cong: option.case_cong flip: no_stops_recv_all)
next
  case (Cons ds polls)
  show ?case
    using Cons.IH [of "recv_all loads ds st"] by (auto simp: Let_def no_stops_sel split: option.splits simp flip: no_stops_recv_all)
qed

lemma no_stops_pop:
  "snd (pop_with_actions loads rid n ids polls late st)
     = snd (pop_with_actions loads rid n ids (map (masks_only loads) polls) (masks_only loads late) (no_stops st))"
  using no_stops_pop_poll [of loads _ _ polls late st] by (simp add: pop_with_actions_def split: option.splits)

lemma token_logprobs_run:
  assumes "length lps = length raw" "\<forall>i < length raw. (lps ! i) (raw ! i) \<noteq> None"
  shows "token_logprobs raw n (Some lps) = Inr (take n (map (\<lambda>i. the ((lps ! i) (raw ! i))) [0..<length raw]))"
proof -
  have "map_r (\<lambda>(i, d). if length raw \<le> i then Inl IndexError
          else (case d (raw ! i) of None \<Rightarrow> Inl (KeyError ''token id'') | Some f \<Rightarrow> Inr f)) (enumerate 0 lps)
      = Inr (map (\<lambda>(i, d). the (d (raw ! i))) (enumerate 0 lps))"
    by (rule map_r_Inr) (use assms in \<open>auto simp: in_set_enumerate_eq\<close>)
  moreover have "map (\<lambda>(i, d). the (d (raw ! i))) (enumerate 0 lps) = map (\<lambda>i. the ((lps ! i) (raw ! i))) [0..<length raw]"
    using assms(1) by (intro nth_equalityI) (simp_all add: nth_enumerate_eq)
  ultimately show ?thesis by (simp add: token_logprobs_def)
qed

text \<open>What \<open>apply_stop_event\<close> leaves of the engine's tokens.\<close>

lemma apply_stop_event_cut:
  "fst (apply_stop_event raw ev) = (case ev of
       Some e \<Rightarrow> if 0 \<le> ev_response_pos e \<and> ev_response_pos e < int (length raw)
                   \<and> raw ! nat (ev_response_pos e) = ev_internal_stop_token_id e
                 then take (nat (ev_response_pos e)) raw else raw
     | None \<Rightarrow> raw)"
  by (auto simp: apply_stop_event_def Let_def split: option.splits)

lemma finish_generate_delivers:
  fixes zero :: 'f and c :: "('f, 'r) completion"
  assumes "channel_ok fcs rid s" "fold_r (flush_step connects (\<lambda>_. True)) fcs (Map.empty, s) = Inr (outs, s')"
    and recd: "masks_only loads (stop_wait loads (strip_vllm_suffix rid) (ar_stop_polls ar) (ar_stop_late ar) empty_store
           @ concat (ar_mask_polls ar) @ ar_mask_late ar) = sent s'"
    and "\<forall>fc \<in> set fcs. fc_rid fc = rid \<longrightarrow> \<not> fc_has_actions fc"
    and "co_token_ids c = take k (key_log outs rid)" "k \<le> length (key_log outs rid)"
    and "opd_enabled env" "ep_prompt_logprobs ep = None" "mtp_rollout cfg \<longrightarrow> ro_spec_stats res \<noteq> None"
    and lps: "ep_logprobs ep \<noteq> None \<longrightarrow> (\<exists>lps. co_logprobs c = Some lps \<and> length lps = length (co_token_ids c)
           \<and> (\<forall>i < length (co_token_ids c). (lps ! i) (co_token_ids c ! i) \<noteq> None))"
    and ev: "ev = snd (pop_stop_event loads (strip_vllm_suffix rid) (ar_stop_polls ar) (ar_stop_late ar) empty_store)"
  shows "\<exists>ipc out. finish_generate env loads zero cfg (strip_vllm_suffix rid) ep prompt res c ar (Some empty_store) = (ipc, Inr out)
    \<and> to_token_ids out = fst (apply_stop_event (co_token_ids c) ev)
    \<and> ef_relay_teacher_mask (to_extra_fields out)
      = Some (take (length (to_token_ids out)) (concat (map fc_mask (filter (\<lambda>fc. fc_rid fc = rid) fcs))))
    \<and> to_log_probs out = (if ep_logprobs ep = None then None else
        Some (take (length (to_token_ids out)) (map (\<lambda>i. the ((the (co_logprobs c) ! i) (co_token_ids c ! i))) [0..<length (co_token_ids c)])))
    \<and> ef_trigger_stopped (to_extra_fields out) = (snd (apply_stop_event (co_token_ids c) ev) \<noteq> None)"
proof -
  let ?ext = "strip_vllm_suffix rid" and ?own = "filter (\<lambda>fc. fc_rid fc = rid) fcs" and ?raw = "co_token_ids c"
  obtain ids stop where cut: "apply_stop_event ?raw ev = (ids, stop)" by fastforce
  let ?W = "masks_only loads (stop_wait loads ?ext (ar_stop_polls ar) (ar_stop_late ar) empty_store)" and ?j = "length (
     masks_only loads (stop_wait loads (strip_vllm_suffix rid) (ar_stop_polls ar) (ar_stop_late ar) empty_store))"
  let ?m = "take (length ids) (concat (map fc_mask ?own))"
  note sent = channel_sent [OF assms(1,2)]
  obtain st1 where pop: "pop_stop_event loads ?ext (ar_stop_polls ar) (ar_stop_late ar) empty_store = (st1, ev)"
    using ev by (metis prod.collapse)
  have "no_stops st1 = recv_all loads ?W (received (take 0 fcs))"
    using no_stops_pop_stop_event [of loads ?ext "ar_stop_polls ar" "ar_stop_late ar" empty_store] pop
    by (simp add: no_stops_def empty_store_def)
  also have "\<dots> = received (take ?j fcs)"
    using recv_more [OF sent(4), of 0 ?W "masks_only loads (concat (ar_mask_polls ar) @ ar_mask_late ar)" loads] recd by simp
  finally have st1: "no_stops st1 = received (take ?j fcs)" .
  have rest: "drop ?j (sent s') = concat (map (masks_only loads) (ar_mask_polls ar)) @ masks_only loads (ar_mask_late ar)"
    "?j \<le> length (sent s')"
    by (simp_all add: filter_concat flip: recd)
  have fst: "ids = fst (apply_stop_event ?raw ev)" using cut by simp
  obtain k' where k': "ids = take k' (key_log outs rid)" "k' \<le> length (key_log outs rid)"
  proof (cases "ids = ?raw")
    case True
    then show ?thesis using that assms(5,6) by simp
  next
    case False
    then obtain n where "ids = take n ?raw" "n < length ?raw"
      unfolding fst by (auto simp: apply_stop_event_cut split: option.splits if_splits)
    then show ?thesis using that [of n] assms(5,6) by simp
  qed
  have "snd (pop_with_actions loads (Some ?ext) (length ids) (Some ids) (ar_mask_polls ar) (ar_mask_late ar) st1)
      = Inr (Some (take k' (concat (map fc_mask ?own))), None, None, None)"
    by (rule trans [OF no_stops_pop]) (simp only: st1 channel_align [OF assms(1,2) rest assms(4) k'])
  moreover have k: "k' = length ids" using k' by simp
  ultimately obtain st where mpop: "pop_with_actions loads (Some ?ext) (length ids) (Some ids) (ar_mask_polls ar) (ar_mask_late ar) st1
      = (st, Inr (Some ?m, None, None, None))" by (metis prod.collapse)
  have "length (concat (map fc_mask ?own)) = length (key_log outs rid)"
    using run_outputs [OF assms(2), of rid] length_concat_masks [of ?own] sent(1) by (auto simp: list_all_iff)
  then have "length ?m = length ids" using k k'(2) by simp
  then have export: "export_mask loads ?ext ids ar st1 = (st, Inr (?m, None))"
    unfolding export_mask_def mpop by simp
  have logs: "(case ep_logprobs ep of None \<Rightarrow> Inr None
      | Some _ \<Rightarrow> bind_r (token_logprobs ?raw (length ids) (co_logprobs c)) (\<lambda>l. Inr (Some l)))
    = Inr (if ep_logprobs ep = None then None else
        Some (take (length ids) (map (\<lambda>i. the ((the (co_logprobs c) ! i) (?raw ! i))) [0..<length ?raw])))"
    using lps token_logprobs_run [of _ ?raw "length ids"] by (auto split: option.splits)
  have "finish_generate env loads zero cfg ?ext ep prompt res c ar (Some empty_store) = (Some st, Inr \<lparr>to_token_ids = ids,
        to_log_probs = (if ep_logprobs ep = None then None else
          Some (take (length ids) (map (\<lambda>i. the ((the (co_logprobs c) ! i) (?raw ! i))) [0..<length ?raw]))),
        to_routed_experts = (if enable_rollout_routing_replay cfg then co_routed_experts c else None),
        to_stop_reason = map_stop_reason (co_finish_reason c), to_num_preempted = co_num_preempted c,
        to_extra_fields = \<lparr>ef_request_id = ?ext, ef_global_steps = gc_global_steps cfg,
          ef_stop_reason = map_stop_reason (co_finish_reason c), ef_trigger_stopped = (stop \<noteq> None),
          ef_trigger_stop_pos = map_option ev_response_pos stop, ef_prompt = None,
          ef_relay_teacher_mask = Some ?m, ef_relay_student_actions = None,
          ef_spec_stats = (if mtp_rollout cfg then ro_spec_stats res else None)\<rparr>\<rparr>)"
    unfolding finish_generate_def Let_def
    using assms(7-9) by (simp add: extract_prompt_logprobs_def pop cut logs export)
  then show ?thesis using cut by simp
qed

text \<open>
  [C5] End to end, from the worker to the response, with OPD enabled: the worker flushes the accepted tokens of its
  requests in any interleaving, and the datagrams reach the server, among any stop events of \<open>Trigger-Stop\<close>, in any
  grouping over the two waits of \<open>generate\<close>. If vLLM returns the first \<open>k\<close> tokens that the request emitted,
  \<open>generate\<close> returns them, cut in front of the private stop token when a matching stop event of the request arrived,
  with the teacher marks that the sampler recorded for exactly these tokens as their relay mask and, when asked for,
  exactly their log-probabilities.

  The conditions: the flushes are well formed and the socket works (\<open>channel_ok\<close>); no flush of the request carries
  student actions (\<open>mask_channel_delivers\<close> says what happens with them); the server's store starts empty and every mask
  datagram has arrived when the second wait ends; the prompt leaves room to generate; the request asks for no prompt
  log-probabilities; vLLM gives a log-probability of each token when asked for them, and its speculation statistics
  under an MTP rollout.
\<close>

theorem generate_delivers_mask:
  assumes "channel_ok fcs rid s" "fold_r (flush_step connects (\<lambda>_. True)) fcs (Map.empty, s) = Inr (outs, s')"
    and "masks_only loads (stop_wait loads (strip_vllm_suffix rid) (ar_stop_polls ar) (ar_stop_late ar) empty_store
           @ concat (ar_mask_polls ar) @ ar_mask_late ar) = sent s'"
    and "\<forall>fc \<in> set fcs. fc_rid fc = rid \<longrightarrow> \<not> fc_has_actions fc"
    and "co_token_ids c = take k (key_log outs rid)" "k \<le> length (key_log outs rid)"
    and "opd_enabled env" "sp_prompt_logprobs sp = None" "mtp_rollout cfg \<longrightarrow> ro_spec_stats (last res) \<noteq> None"
    and "sp_logprobs sp \<longrightarrow> (\<exists>lps. co_logprobs c = Some lps \<and> length lps = length (co_token_ids c)
           \<and> (\<forall>i < length (co_token_ids c). (lps ! i) (co_token_ids c ! i) \<noteq> None))"
    and "int (length prompt_ids) < max_model_len cfg"
    and "\<forall>ep. engine_call_ok cfg sp (length prompt_ids) ep \<longrightarrow>
           engine (qwen2_5_vl_dedup_image_tokens vision prompt_ids) ep (lora_as_adapter cfg \<and> lora_loaded) = res"
    and "res \<noteq> []" "ro_outputs (last res) = [c]"
    and "ev = snd (pop_stop_event loads (strip_vllm_suffix rid) (ar_stop_polls ar) (ar_stop_late ar) empty_store)"
  shows "\<exists>ipc out. generate env loads zero engine lora_loaded cfg vision prompt_ids sp (strip_vllm_suffix rid) ar (Some empty_store)
      = (ipc, Inr out)
    \<and> to_token_ids out = (case ev of
          Some e \<Rightarrow> if 0 \<le> ev_response_pos e \<and> ev_response_pos e < int (length (co_token_ids c))
                       \<and> co_token_ids c ! nat (ev_response_pos e) = ev_internal_stop_token_id e
                    then take (nat (ev_response_pos e)) (co_token_ids c) else co_token_ids c
        | None \<Rightarrow> co_token_ids c)
    \<and> ef_relay_teacher_mask (to_extra_fields out)
      = Some (take (length (to_token_ids out)) (concat (map fc_mask (filter (\<lambda>fc. fc_rid fc = rid) fcs))))
    \<and> to_log_probs out = (if sp_logprobs sp then
        Some (map (\<lambda>i. the ((the (co_logprobs c) ! i) (co_token_ids c ! i))) [0..<length (to_token_ids out)]) else None)
    \<and> (ev = None \<longrightarrow> \<not> ef_trigger_stopped (to_extra_fields out))"
proof -
  obtain m where m: "resolve_max_tokens cfg sp (length prompt_ids) = Inr m"
    using assms(11) by (auto simp: resolve_max_tokens_def Let_def)
  define ep where "ep = \<lparr>ep_max_tokens = m, ep_logprobs = (if sp_logprobs sp then Some 0 else None), ep_prompt_logprobs = None\<rparr>"
  let ?prompt = "qwen2_5_vl_dedup_image_tokens vision prompt_ids"
  have "engine_call_ok cfg sp (length prompt_ids) ep" using assms(8) by (simp add: engine_call_ok_def ep_def m)
  with assms(12) have eng: "engine ?prompt ep (lora_as_adapter cfg \<and> lora_loaded) = res" by blast
  have gen: "generate env loads zero engine lora_loaded cfg vision prompt_ids sp (strip_vllm_suffix rid) ar (Some empty_store)
    = finish_generate env loads zero cfg (strip_vllm_suffix rid) ep ?prompt (last res) c ar (Some empty_store)"
    using assms(8,13,14) eng by (simp add: generate_def m ep_def Let_def)
  have "ep_prompt_logprobs ep = None" "ep_logprobs ep \<noteq> None \<longrightarrow> (\<exists>lps. co_logprobs c = Some lps
      \<and> length lps = length (co_token_ids c) \<and> (\<forall>i < length (co_token_ids c). (lps ! i) (co_token_ids c ! i) \<noteq> None))"
    using assms(10) by (simp_all add: ep_def)
  from finish_generate_delivers [OF assms(1-7) this(1) assms(9) this(2) assms(15), of zero ?prompt] obtain ipc out where
    out: "finish_generate env loads zero cfg (strip_vllm_suffix rid) ep ?prompt (last res) c ar (Some empty_store) = (ipc, Inr out)"
    "to_token_ids out = fst (apply_stop_event (co_token_ids c) ev)"
    "ef_relay_teacher_mask (to_extra_fields out)
      = Some (take (length (to_token_ids out)) (concat (map fc_mask (filter (\<lambda>fc. fc_rid fc = rid) fcs))))"
    "to_log_probs out = (if ep_logprobs ep = None then None else Some (take (length (to_token_ids out))
      (map (\<lambda>i. the ((the (co_logprobs c) ! i) (co_token_ids c ! i))) [0..<length (co_token_ids c)])))"
    "ef_trigger_stopped (to_extra_fields out) = (snd (apply_stop_event (co_token_ids c) ev) \<noteq> None)" by blast
  have "length (to_token_ids out) \<le> length (co_token_ids c)"
    unfolding out(2) apply_stop_event_cut by (auto split: option.splits)
  then have "to_log_probs out = (if sp_logprobs sp then
      Some (map (\<lambda>i. the ((the (co_logprobs c) ! i) (co_token_ids c ! i))) [0..<length (to_token_ids out)]) else None)"
    unfolding out(4) by (simp add: ep_def take_map min_def)
  moreover have "ev = None \<longrightarrow> \<not> ef_trigger_stopped (to_extra_fields out)" using out(5) by (simp add: apply_stop_event_def)
  ultimately show ?thesis
    using gen out(1,3) out(2) [unfolded apply_stop_event_cut] by (intro exI [of _ ipc] exI [of _ out] conjI) simp_all
qed

section \<open>Concrete runs\<close>

definition ex_gen_cfg :: gen_config where
  "ex_gen_cfg = \<lparr>max_model_len = 16, prompt_length = 8, response_length = 8, enable_rollout_routing_replay = False,
     mtp_rollout = False, lora_as_adapter = False, is_teacher_model = False, is_reward_model = False, gc_global_steps = 0\<rparr>"

definition ex_sampling :: sampling_request where
  "ex_sampling = \<lparr>sp_max_tokens = None, sp_max_new_tokens = None, sp_logprobs = False, sp_prompt_logprobs = None\<rparr>"

definition ex_completion :: "int list \<Rightarrow> (int, int) completion" where
  "ex_completion toks = \<lparr>co_token_ids = toks, co_logprobs = None, co_finish_reason = Some ''stop'', co_routed_experts = None,
     co_num_preempted = None\<rparr>"

definition ex_engine :: "int list \<Rightarrow> int list \<Rightarrow> engine_params \<Rightarrow> bool \<Rightarrow> (int, int) request_output list" where
  "ex_engine toks = (\<lambda>_ _ _. [\<lparr>ro_outputs = [ex_completion toks], ro_prompt_logprobs = [], ro_spec_stats = None\<rparr>])"

definition ex_opd_env :: environ where
  "ex_opd_env = Map.empty(''VERL_OPD_SPECULATIVE_ENABLE'' \<mapsto> ''1'')"

text \<open>A store in which request \<open>r\<close> has the marks of two tokens and the stop event of a third.\<close>

definition ex_gen_store :: ipc_store where
  "ex_gen_store = empty_store\<lparr>mask_store := [''r'' \<mapsto> [False, True]], token_store := [''r'' \<mapsto> [4, 5]],
     position_store := [''r'' \<mapsto> [0, 1]],
     stop_event_store := [''r'' \<mapsto> [\<lparr>ev_request_id = ''r'', ev_response_pos = 2, ev_spec_pos = 1,
        ev_internal_stop_token_id = 99, ev_student_rank_gt = None\<rparr>]]\<rparr>"

definition ex_arrivals :: arrivals where
  "ex_arrivals = \<lparr>ar_stop_polls = [], ar_stop_late = [], ar_mask_polls = [], ar_mask_late = []\<rparr>"

definition ex_generate :: "ipc_store option \<times> (int, int) token_output result" where
  "ex_generate = generate ex_opd_env (\<lambda>_. None) 0 (ex_engine [4, 5, 99]) False ex_gen_cfg None [1, 2] ex_sampling ''r'' ex_arrivals
     (Some ex_gen_store)"

lemma ex_generate_returns:
  "\<exists>out. snd ex_generate = Inr out \<and> to_token_ids out = [4, 5] \<and> ef_trigger_stop_pos (to_extra_fields out) = Some 2
     \<and> ef_relay_teacher_mask (to_extra_fields out) = Some [False, True]"
proof -
  have res: "resolve_max_tokens ex_gen_cfg ex_sampling (length [1, 2 :: int]) = Inr 8"
    by (simp add: resolve_max_tokens_def ex_gen_cfg_def ex_sampling_def)
  have opd: "opd_enabled ex_opd_env" by (simp add: opd_enabled_def ex_opd_env_def)
  show ?thesis
    unfolding ex_generate_def generate_def res sum.case Let_def finish_generate_def
    by (simp add: ex_engine_def ex_completion_def opd ex_arrivals_def ex_gen_store_def take_stop_event_def recv_all_def
        extract_prompt_logprobs_def ex_sampling_def apply_stop_event_def export_mask_def pop_with_actions_def
        align_popped_def align_mask_by_positions_def align_mask_step_def align_actions_by_positions_def empty_store_def
        ex_gen_cfg_def pop_key_def Let_def)
qed

theorem generate_mask_aligned_witness:
  "\<exists>ipc out msk. ex_generate = (ipc, Inr out) \<and> to_token_ids out = [4, 5]
     \<and> ef_relay_teacher_mask (to_extra_fields out) = Some msk \<and> length msk = 2"
proof -
  obtain ipc out where out: "ex_generate = (ipc, Inr out)" "to_token_ids out = [4, 5]"
    using ex_generate_returns by (metis prod.collapse)
  have "opd_enabled ex_opd_env" "\<not> is_teacher_model ex_gen_cfg" "\<not> is_reward_model ex_gen_cfg"
    by (simp_all add: opd_enabled_def ex_opd_env_def ex_gen_cfg_def)
  from generate_mask_aligned [OF this out(1) [unfolded ex_generate_def]] obtain msk
    where "ef_relay_teacher_mask (to_extra_fields out) = Some msk" "length msk = length (to_token_ids out)" by blast
  with out show ?thesis by (intro exI [of _ ipc] exI [of _ out] exI [of _ msk]) simp
qed

theorem generate_cuts_at_stop_witness:
  "\<exists>ipc out. ex_generate = (ipc, Inr out) \<and> ef_trigger_stopped (to_extra_fields out)
     \<and> to_token_ids out = take 2 [4, 5, 99]"
proof -
  obtain ipc out where out: "ex_generate = (ipc, Inr out)" "to_token_ids out \<noteq> []"
      "ef_trigger_stop_pos (to_extra_fields out) = Some 2"
    using ex_generate_returns by (metis prod.collapse list.distinct(1))
  have eng: "ro_outputs (last (ex_engine [4, 5, 99] p ep l)) = c # cs \<Longrightarrow> co_token_ids c = [4, 5, 99]" for p ep l c cs
    by (simp add: ex_engine_def) (auto simp: ex_completion_def)
  from generate_cuts_at_stop [OF out(1) [unfolded ex_generate_def] out(2) refl refl] eng
  have "ef_trigger_stopped (to_extra_fields out) \<and> to_token_ids out = take (nat 2) [4, 5, 99]"
    unfolding out(3) option.case by metis
  then show ?thesis using out(1) by (intro exI [of _ ipc] exI [of _ out]) simp
qed

lemma sent_not_stop:
  assumes "channel_ok fcs rid s" "fold_r (flush_step connects (\<lambda>_. True)) fcs (Map.empty, s) = Inr (outs, s')"
  shows "\<forall>d \<in> set (sent s'). \<not> stop_datagram loads d"
proof
  fix d assume "d \<in> set (sent s')"
  then obtain k e where "carries d (k, e)"
    using list_all2_conv_all_nth [THEN iffD1, OF channel_sent(4) [OF assms]] by (metis in_set_conv_nth prod.collapse)
  then have "recv_datagram loads d empty_store = store_mask_event k e empty_store" by (simp add: carries_def)
  then have "stop_event_store (recv_datagram loads d empty_store) = Map.empty"
    by (simp add: store_mask_event_def empty_store_def split: prod.splits)
  then show "\<not> stop_datagram loads d"
    by (auto simp: stop_datagram_def recv_datagram_def Let_def empty_store_def extend_key_def fun_eq_iff split: option.splits if_splits)
qed

definition ex_stop_event :: stop_event where
  "ex_stop_event = \<lparr>ev_request_id = ''r1'', ev_response_pos = 2, ev_spec_pos = 1, ev_internal_stop_token_id = 9, ev_student_rank_gt = None\<rparr>"

definition ex_stop_payload :: "byte list" where
  "ex_stop_payload = frame_payload ''r1'' (ascii ''OPS1'')"

definition ex_loads :: "byte list \<Rightarrow> stop_event option" where
  "ex_loads = (\<lambda>_. Some ex_stop_event)"

lemma ex_stop_payload_recv:
  "stop_datagram ex_loads ex_stop_payload"
  "recv_datagram ex_loads ex_stop_payload st = st\<lparr>stop_event_store := extend_key ''r1'' [ex_stop_event] (stop_event_store st)\<rparr>"
proof -
  have "split_nul ex_stop_payload = Some (ascii ''r1'', ascii ''OPS1'')"
    unfolding ex_stop_payload_def by (rule split_nul_frame) (simp add: ascii_def)
  moreover have "decode_stop_event_payload ex_loads (ascii ''OPS1'') = Some ex_stop_event"
    by (simp add: decode_stop_event_payload_def ex_loads_def ascii_def)
  moreover have "unascii (ascii ''r1'') = ''r1''" by code_simp
  ultimately show "stop_datagram ex_loads ex_stop_payload"
    "recv_datagram ex_loads ex_stop_payload st = st\<lparr>stop_event_store := extend_key ''r1'' [ex_stop_event] (stop_event_store st)\<rparr>"
    by (simp_all add: stop_datagram_def recv_datagram_def)
qed

text \<open>The stop event arrives with the first mask datagram: the response is cut in front of token 9.\<close>

theorem generate_delivers_mask_witness:
  "\<exists>outs s' ipc out. fold_r (flush_step (\<lambda>_. True) (\<lambda>_. True)) ex_flushes (Map.empty, ex_sender) = Inr (outs, s')
     \<and> generate ex_opd_env ex_loads 0 (ex_engine [7, 8, 9]) False ex_gen_cfg None [1, 2] ex_sampling ''r1''
         \<lparr>ar_stop_polls = [take 1 (sent s') @ [ex_stop_payload]], ar_stop_late = [], ar_mask_polls = [], ar_mask_late = drop 1 (sent s')\<rparr>
         (Some empty_store) = (ipc, Inr out)
     \<and> to_token_ids out = [7, 8] \<and> ef_relay_teacher_mask (to_extra_fields out) = Some [False, False]"
proof -
  obtain outs s' where run: "fold_r (flush_step (\<lambda>_. True) (\<lambda>_. True)) ex_flushes (Map.empty, ex_sender) = Inr (outs, s')"
    using channel_ok_run [OF ex_flushes_ok] by blast
  let ?ar = "\<lparr>ar_stop_polls = [take 1 (sent s') @ [ex_stop_payload]], ar_stop_late = [], ar_mask_polls = [], ar_mask_late = drop 1 (sent s')\<rparr>"
  have own: "filter (\<lambda>fc. fc_rid fc = ''r1'') ex_flushes = [ex_flushes ! 0, ex_flushes ! 2]"
    by (simp add: ex_flushes_def fc_rid_def)
  have outs: "key_log outs ''r1'' = [7, 8, 9]" unfolding run_outputs [OF run] own by (simp add: ex_flushes_def)
  have acts: "\<forall>fc \<in> set ex_flushes. fc_rid fc = ''r1'' \<longrightarrow> \<not> fc_has_actions fc"
    by (simp add: ex_flushes_def fc_rid_def fc_has_actions_def fc_row_def)
  have ext: "strip_vllm_suffix ''r1'' = ''r1''" by code_simp
  have msk: "take 2 (concat (map fc_mask [ex_flushes ! 0, ex_flushes ! 2])) = [False, False]"
    by (simp add: ex_flushes_def fc_mask_def fc_row_def)
  have opd: "opd_enabled ex_opd_env" by (simp add: opd_enabled_def ex_opd_env_def)
  note sent = channel_sent [OF ex_flushes_ok run]
  have "length (sent s') = 3" using list_all2_lengthD [OF sent(4)] by (simp add: ex_flushes_def)
  then have got: "recv_all ex_loads (take 1 (sent s')) empty_store = received (take 1 ex_flushes)"
    using recv_more [OF sent(4), of 0 "take 1 (sent s')" "drop 1 (sent s')" ex_loads] by simp
  have none: "stop_event_store (received fcs) = Map.empty" for fcs
  proof -
    have "stop_event_store (fold (\<lambda>(k, e). store_mask_event k e) evs st) = stop_event_store st" for evs st
      by (induction evs arbitrary: st) (auto simp: store_mask_event_def split: prod.splits)
    then show ?thesis by (simp add: received_def empty_store_def)
  qed
  have take: "snd (take_stop_event ''r1'' (recv_all ex_loads (take 1 (sent s') @ [ex_stop_payload]) empty_store)) = Some ex_stop_event"
    unfolding recv_all_append got by (simp add: recv_all_def ex_stop_payload_recv(2) take_stop_event_def none extend_key_def)
  then have ev: "Some ex_stop_event
      = snd (pop_stop_event ex_loads (strip_vllm_suffix ''r1'') (ar_stop_polls ?ar) (ar_stop_late ?ar) empty_store)"
    and wait: "stop_wait ex_loads (strip_vllm_suffix ''r1'') (ar_stop_polls ?ar) (ar_stop_late ?ar) empty_store
      = take 1 (sent s') @ [ex_stop_payload]"
    unfolding ext by (auto split: prod.splits option.splits)
  have plain: "masks_only ex_loads ds = ds" if "set ds \<subseteq> set (sent s')" for ds
    using sent_not_stop [OF ex_flushes_ok run] that by (auto simp: filter_id_conv)
  have "masks_only ex_loads (take 1 (sent s')) = take 1 (sent s')" "masks_only ex_loads (drop 1 (sent s')) = drop 1 (sent s')"
    by (auto intro!: plain dest: in_set_takeD in_set_dropD)
  then have arr: "masks_only ex_loads (stop_wait ex_loads (strip_vllm_suffix ''r1'') (ar_stop_polls ?ar) (ar_stop_late ?ar) empty_store
      @ concat (ar_mask_polls ?ar) @ ar_mask_late ?ar) = sent s'"
    unfolding wait by (simp add: ex_stop_payload_recv(1))
  have toks: "co_token_ids (ex_completion [7, 8, 9]) = take 3 (key_log outs ''r1'')" "3 \<le> length (key_log outs ''r1'')"
    by (simp_all add: outs ex_completion_def numeral_3_eq_3)
  let ?res = "[\<lparr>ro_outputs = [ex_completion [7, 8, 9]], ro_prompt_logprobs = [], ro_spec_stats = None\<rparr>]"
  have sp: "sp_prompt_logprobs ex_sampling = None" "mtp_rollout ex_gen_cfg \<longrightarrow> ro_spec_stats (last ?res) \<noteq> None"
    "int (length [1, 2 :: int]) < max_model_len ex_gen_cfg"
    by (simp_all add: ex_sampling_def ex_gen_cfg_def)
  from generate_delivers_mask [OF ex_flushes_ok run arr acts toks opd sp(1,2) _ sp(3) _ _ _ ev, of "ex_engine [7, 8, 9]" None False 0]
  show ?thesis unfolding own ext using msk run
    by (simp add: ex_engine_def ex_sampling_def) (auto simp: ex_completion_def ex_stop_event_def numeral_2_eq_2)
qed

definition ex_prompt_lps :: "int logprob_dict list" where
  "ex_prompt_lps = [[], [(3, \<lparr>lp_rank = 2, lp_logprob = -2\<rparr>), (4, \<lparr>lp_rank = 1, lp_logprob = -1\<rparr>)],
     [(9, \<lparr>lp_rank = 1, lp_logprob = -1\<rparr>), (6, \<lparr>lp_rank = 2, lp_logprob = -3\<rparr>), (5, \<lparr>lp_rank = 7, lp_logprob = -8\<rparr>)]]"

theorem extract_prompt_logprobs_by_rank_witness:
  "\<exists>r. extract_prompt_logprobs 0 ex_prompt_lps (Some (int 2)) (Some [2, 3, 5]) True = Inr (Some r)
     \<and> length (pl_ids r) = 3 \<and> pl_ids r ! 1 ! 0 = Some 9 \<and> pl_token_logprobs r = Some [-2, -8, 0]"
proof -
  have "ranks_ok 2 [2, 3, 5] ex_prompt_lps" by code_simp
  from extract_prompt_logprobs_by_rank [OF this, of 0 True] obtain r where
    r: "extract_prompt_logprobs 0 ex_prompt_lps (Some (int 2)) (Some [2, 3, 5]) True = Inr (Some r)"
      "length (pl_ids r) = max 1 (length ex_prompt_lps)"
      "\<forall>p. Suc p < length ex_prompt_lps \<longrightarrow> (\<forall>j < 2. \<exists>(t, e) \<in> set (ex_prompt_lps ! Suc p).
         lp_rank e = int j + 1 \<and> pl_ids r ! p ! j = Some t \<and> pl_logprobs r ! p ! j = Some (lp_logprob e))"
      "pl_token_logprobs r
        = Some (map (\<lambda>p. lp_logprob (the (map_of (ex_prompt_lps ! p) ([2, 3, 5] ! p)))) [1..<length ex_prompt_lps] @ [0])"
    unfolding if_True by blast
  have "length ex_prompt_lps = 3" by (simp add: ex_prompt_lps_def)
  then have "\<exists>(t, e) \<in> set (ex_prompt_lps ! 2). lp_rank e = 1 \<and> pl_ids r ! 1 ! 0 = Some t"
    using r(3) [rule_format, of 1 0] by (force simp: numeral_2_eq_2)
  then have "pl_ids r ! 1 ! 0 = Some 9" by (auto simp: ex_prompt_lps_def)
  moreover have "[1..<length ex_prompt_lps] = [1, 2]" by (simp add: ex_prompt_lps_def upt_rec)
  ultimately show ?thesis using r(1,2,4) by (simp add: ex_prompt_lps_def)
qed

end
