(* ===== verification/Relay_Batch.thy ===== *)
theory Relay_Batch
  imports Complex_Main Generate
begin

text \<open>
  The trainer's side of the relay mask: \<open>_attach_relay_teacher_mask\<close>, \<open>_attach_relay_student_action_fields\<close>,
  \<open>_attach_relay_training_fields\<close> and \<open>_compute_trigger_stop_metrics\<close> of \<open>verl/trainer/ppo/ray_trainer.py\<close>.
  The record holds the entries of the \<open>DataProto\<close> that they read and write: tensors are lists of rows,
  an absent key is \<open>None\<close>, and an entry of a non-tensor array may itself be \<open>None\<close>.
\<close>

section \<open>The batch\<close>

datatype py_value = VNone | VBool bool | VInt int | VStr string | VNan

record relay_batch =
  rb_responses :: "int list list"
  rb_response_mask :: "bool list list"
  rb_response_len :: nat
  rb_prompt_width :: nat
  rb_input_ids :: "int list list"
  rb_relay_teacher_mask :: "bool list list option"
  rb_pg_action_input_ids :: "int list list option"
  rb_student_action_ids :: "int list list option"
  rb_student_action_mask :: "bool list list option"
  rb_student_action_logps :: "f32 list list option"
  nt_relay_teacher_mask :: "bool list option list option"
  nt_student_action_ids :: "int list option list option"
  nt_student_action_logps :: "f32 list option list option"
  nt_student_action_mask :: "bool list option list option"
  nt_trigger_stopped :: "py_value list option"
  nt_trigger_stop_pos :: "py_value list option"

section \<open>The relay mask\<close>

text \<open>One row: \<open>out[i, :n] = m[:n]\<close> on a row of zeros.\<close>

definition padded_row :: "nat \<Rightarrow> bool list option \<Rightarrow> bool list" where
  "padded_row response_len m =
     (case m of
        None \<Rightarrow> replicate response_len False
      | Some ms \<Rightarrow> (let n = min (length ms) response_len in take n ms @ replicate (response_len - n) False))"

definition attach_relay_teacher_mask :: "environ \<Rightarrow> relay_batch \<Rightarrow> relay_batch result" where
  "attach_relay_teacher_mask env b =
     (if rb_relay_teacher_mask b \<noteq> None then Inr b
      else
        (case nt_relay_teacher_mask b of
           None \<Rightarrow>
             if opd_enabled env then Inl (RuntimeError ''relay_teacher_mask missing from non_tensor_batch'') else Inr b
         | Some masks \<Rightarrow>
             (let bsz = length (rb_response_mask b) in
              if length masks < bsz then Inl IndexError
              else if list_ex (\<lambda>i. masks ! i = None) [0..<bsz]
              then Inl (RuntimeError ''relay_teacher_mask: not all samples have an absolute-position mask'')
              else Inr (b\<lparr>rb_relay_teacher_mask :=
                            Some (map (\<lambda>i. map2 (\<and>) (padded_row (rb_response_len b) (masks ! i)) (rb_response_mask b ! i)) [0..<bsz]),
                          nt_relay_teacher_mask := None\<rparr>))))"

section \<open>Student actions at trigger positions\<close>

text \<open>One row: the new ids, log-probabilities and mask; a row without any masked position stays as it is.\<close>

definition action_row ::
  "nat \<Rightarrow> int list \<Rightarrow> bool list \<Rightarrow> int list option \<Rightarrow> f32 list option \<Rightarrow> bool list option
     \<Rightarrow> int list \<times> f32 list \<times> bool list" where
  "action_row response_len resp rmask acts lps am =
     (case (acts, lps, am) of
        (Some as, Some ls, Some ms) \<Rightarrow>
          (let n = min (min (length as) (length ls)) (min (length ms) response_len);
               m = map (\<lambda>j. j < n \<and> ms ! j \<and> rmask ! j) [0..<response_len]
           in (map (\<lambda>j. if m ! j then as ! j else resp ! j) [0..<response_len],
               map (\<lambda>j. if m ! j then ls ! j else 0) [0..<response_len], m))
      | _ \<Rightarrow> (resp, replicate response_len 0, replicate response_len False))"

definition put_slice :: "nat \<Rightarrow> 'a list \<Rightarrow> 'a list \<Rightarrow> 'a list" where
  "put_slice off xs row = take off row @ xs @ drop (off + length xs) row"

definition attach_relay_student_action_fields :: "relay_batch \<Rightarrow> relay_batch result" where
  "attach_relay_student_action_fields b =
     (if rb_pg_action_input_ids b \<noteq> None then Inr b
      else
        (case (nt_student_action_ids b, nt_student_action_logps b, nt_student_action_mask b) of
           (Some actions, Some logps, Some masks) \<Rightarrow>
             (let bsz = length (rb_responses b) in
              if length actions < bsz \<or> length logps < bsz \<or> length masks < bsz then Inl IndexError
              else
                (let rows = map (\<lambda>i. action_row (rb_response_len b) (rb_responses b ! i) (rb_response_mask b ! i)
                                     (actions ! i) (logps ! i) (masks ! i)) [0..<bsz]
                 in if \<not> list_ex (\<lambda>(_, _, m). list_ex id m) rows then Inr b
                    else Inr (b\<lparr>rb_pg_action_input_ids :=
                                 Some (map2 (\<lambda>row (ids, _, _). put_slice (rb_prompt_width b) ids row) (rb_input_ids b) rows),
                                rb_student_action_ids := Some (map fst rows),
                                rb_student_action_mask := Some (map (snd \<circ> snd) rows),
                                rb_student_action_logps := Some (map (fst \<circ> snd) rows),
                                nt_student_action_ids := None, nt_student_action_mask := None,
                                nt_student_action_logps := None\<rparr>)))
         | _ \<Rightarrow> Inr b))"

definition attach_relay_training_fields :: "environ \<Rightarrow> relay_batch \<Rightarrow> relay_batch result" where
  "attach_relay_training_fields env b =
     bind_r (attach_relay_teacher_mask env b) attach_relay_student_action_fields"

section \<open>Trigger-Stop metrics\<close>

definition truthy :: "py_value \<Rightarrow> bool" where
  "truthy v = (case v of
     VNone \<Rightarrow> False
   | VStr s \<Rightarrow> py_lower s \<in> {''1'', ''true'', ''yes'', ''y'', ''on''}
   | VBool b \<Rightarrow> b
   | VInt i \<Rightarrow> i \<noteq> 0
   | VNan \<Rightarrow> True)"

definition maybe_int :: "py_value \<Rightarrow> int option" where
  "maybe_int v = (case v of
     VNone \<Rightarrow> None
   | VNan \<Rightarrow> None
   | VInt i \<Rightarrow> Some i
   | VBool b \<Rightarrow> Some (if b then 1 else 0)
   | VStr s \<Rightarrow> py_int s)"

definition mean :: "int list \<Rightarrow> rat" where
  "mean xs = of_int (sum_list xs) / of_nat (length xs)"

definition compute_trigger_stop_metrics :: "relay_batch \<Rightarrow> (string \<times> rat) list" where
  "compute_trigger_stop_metrics b =
     (case nt_trigger_stopped b of
        None \<Rightarrow> []
      | Some stopped \<Rightarrow>
          (let flags = map truthy stopped;
               count = length (filter id flags);
               base = [(''response/trigger_stopped_ratio'', if flags = [] then 0 else of_nat count / of_nat (length flags)),
                       (''response/trigger_stopped_count'', of_nat count)]
           in if \<not> list_ex id flags then base
              else
                (let valid_lens = map (\<lambda>row. int (length (filter id row))) (rb_response_mask b);
                     trunc_lens = map fst (filter snd (zip valid_lens flags));
                     lens = [(''response/trigger_stopped_length_mean'', mean trunc_lens),
                             (''response/trigger_stopped_length_max'', of_int (Max (set trunc_lens))),
                             (''response/trigger_stopped_length_min'', of_int (Min (set trunc_lens)))];
                     pos = (case nt_trigger_stop_pos b of
                              None \<Rightarrow> []
                            | Some raw \<Rightarrow>
                                (let vals = concat (map (\<lambda>(p, f). case maybe_int p of Some i \<Rightarrow> if f then [i] else [] | None \<Rightarrow> [])
                                                      (zip raw flags))
                                 in if vals = [] then []
                                    else [(''response/trigger_stop_pos_mean'', mean vals),
                                          (''response/trigger_stop_pos_max'', of_int (Max (set vals)))]))
                 in base @ lens @ pos)))"

section \<open>What the training step sees\<close>

definition batch_shape :: "relay_batch \<Rightarrow> bool" where
  "batch_shape b \<longleftrightarrow> length (rb_responses b) = length (rb_response_mask b) \<and> length (rb_input_ids b) = length (rb_responses b)
     \<and> list_all (\<lambda>r. length r = rb_response_len b) (rb_responses b)
     \<and> list_all (\<lambda>r. length r = rb_response_len b) (rb_response_mask b)
     \<and> list_all (\<lambda>r. length r = rb_prompt_width b + rb_response_len b) (rb_input_ids b)"

lemma length_padded_row [simp]: "length (padded_row n m) = n"
  by (auto simp: padded_row_def Let_def split: option.splits)

lemma nth_padded_row: "j < n \<Longrightarrow> padded_row n (Some ms) ! j \<longleftrightarrow> j < length ms \<and> ms ! j"
  by (auto simp: padded_row_def Let_def nth_append)

lemma attach_mask_Some:
  assumes "rb_relay_teacher_mask b = None" "nt_relay_teacher_mask b = Some masks"
    and "attach_relay_teacher_mask env b = Inr b'"
  shows "list_all (\<lambda>i. masks ! i \<noteq> None) [0..<length (rb_response_mask b)]"
    and "b' = b\<lparr>rb_relay_teacher_mask := Some (map (\<lambda>i. map2 (\<and>) (padded_row (rb_response_len b) (masks ! i)) (rb_response_mask b ! i))
           [0..<length (rb_response_mask b)]), nt_relay_teacher_mask := None\<rparr>"
  using assms by (auto simp: attach_relay_teacher_mask_def Let_def list_ex_iff list_all_iff split: if_splits)

text \<open>
  The relay mask that reaches the loss has the shape of the response mask, is true exactly at the valid
  response tokens that the rollout marked as the teacher's, and a batch in which some sample has no mask is
  refused. Attaching it a second time changes nothing.
\<close>

theorem relay_mask_attached:
  assumes "batch_shape b" "rb_relay_teacher_mask b = None" "nt_relay_teacher_mask b = Some masks"
    and "attach_relay_teacher_mask env b = Inr b'"
  shows "\<exists>out. rb_relay_teacher_mask b' = Some out \<and> length out = length (rb_response_mask b)
    \<and> (\<forall>i < length out. length (out ! i) = rb_response_len b \<and> (\<exists>ms. masks ! i = Some ms
         \<and> (\<forall>j < rb_response_len b. out ! i ! j \<longleftrightarrow> rb_response_mask b ! i ! j \<and> j < length ms \<and> ms ! j)))
    \<and> attach_relay_teacher_mask env b' = Inr b'"
proof -
  note r = attach_mask_Some [OF assms(2-4)]
  let ?out = "map (\<lambda>i. map2 (\<and>) (padded_row (rb_response_len b) (masks ! i)) (rb_response_mask b ! i)) [0..<length (rb_response_mask b)]"
  have "length (?out ! i) = rb_response_len b \<and> (\<exists>ms. masks ! i = Some ms
      \<and> (\<forall>j < rb_response_len b. ?out ! i ! j \<longleftrightarrow> rb_response_mask b ! i ! j \<and> j < length ms \<and> ms ! j))" if "i < length ?out" for i
  proof -
    have i: "i < length (rb_response_mask b)" using that by simp
    then obtain ms where ms: "masks ! i = Some ms" using bspec [OF r(1) [unfolded list_all_iff], of i] by auto
    have len: "length (rb_response_mask b ! i) = rb_response_len b" using assms(1) i by (simp add: batch_shape_def list_all_length)
    have "?out ! i = map2 (\<and>) (padded_row (rb_response_len b) (Some ms)) (rb_response_mask b ! i)" using i ms by simp
    then show ?thesis using ms len by (auto simp: nth_padded_row)
  qed
  moreover have "rb_relay_teacher_mask b' = Some ?out" "length ?out = length (rb_response_mask b)" unfolding r(2) by simp_all
  moreover have "attach_relay_teacher_mask env b' = Inr b'" unfolding r(2) by (simp add: attach_relay_teacher_mask_def)
  ultimately show ?thesis by (intro exI [of _ ?out]) blast
qed

text \<open>The student-action fields keep the model inputs where no action replaces a token.\<close>

lemma action_row_spec:
  assumes "length resp = n" "action_row n resp rmask acts lps am = (ids, ls, m)"
  shows "length ids = n \<and> length ls = n \<and> length m = n
    \<and> (\<forall>j < n. m ! j \<longrightarrow> rmask ! j \<and> (\<exists>as. acts = Some as \<and> j < length as \<and> ids ! j = as ! j))
    \<and> (\<forall>j < n. \<not> m ! j \<longrightarrow> ids ! j = resp ! j \<and> ls ! j = 0)"
  using assms by (auto simp: action_row_def Let_def split: option.splits)

lemma nth_put_slice:
  assumes "off + length xs \<le> length row" "j < length row"
  shows "put_slice off xs row ! j = (if off \<le> j \<and> j < off + length xs then xs ! (j - off) else row ! j)"
  using assms by (auto simp: put_slice_def nth_append min_def)

text \<open>
  The policy-gradient inputs: when student actions are attached, a position of \<open>pg_action_input_ids\<close> differs
  from \<open>input_ids\<close> only inside the response, at a valid response token, and there it is the action that the
  rollout exported for that token; unmasked response positions hold the response itself, and their
  log-probability entry is zero.
\<close>

theorem student_actions_attached:
  assumes "batch_shape b" "rb_pg_action_input_ids b = None"
    and "attach_relay_student_action_fields b = Inr b'" "rb_pg_action_input_ids b' = Some pg"
    and "i < length (rb_responses b)" "j < rb_prompt_width b + rb_response_len b"
  shows "\<exists>acts m. nt_student_action_ids b = Some acts \<and> rb_student_action_mask b' = Some m \<and>
     (let q = j - rb_prompt_width b in
      if rb_prompt_width b \<le> j \<and> m ! i ! q
      then rb_response_mask b ! i ! q \<and> (\<exists>as. acts ! i = Some as \<and> q < length as \<and> pg ! i ! j = as ! q)
      else pg ! i ! j = (if rb_prompt_width b \<le> j then rb_responses b ! i ! q else rb_input_ids b ! i ! j))"
proof -
  obtain acts lps ms where nt: "nt_student_action_ids b = Some acts" "nt_student_action_logps b = Some lps" "nt_student_action_mask b = Some ms"
    using assms(2-4) by (auto simp: attach_relay_student_action_fields_def split: option.splits)
  define rows where "rows = map (\<lambda>i. action_row (rb_response_len b) (rb_responses b ! i) (rb_response_mask b ! i)
       (acts ! i) (lps ! i) (ms ! i)) [0..<length (rb_responses b)]"
  have out: "pg = map2 (\<lambda>row (ids, _, _). put_slice (rb_prompt_width b) ids row) (rb_input_ids b) rows"
    "rb_student_action_mask b' = Some (map (snd \<circ> snd) rows)"
    using assms(2-4) unfolding attach_relay_student_action_fields_def nt Let_def option.case prod.case rows_def [symmetric]
    by (auto split: if_splits)
  have len: "length (rb_responses b ! i) = rb_response_len b" "length (rb_input_ids b ! i) = rb_prompt_width b + rb_response_len b"
    "length (rb_input_ids b) = length (rb_responses b)"
    using assms(1,5) by (simp_all add: batch_shape_def list_all_length)
  obtain ids ls m where row: "rows ! i = (ids, ls, m)" by (cases "rows ! i")
  have "action_row (rb_response_len b) (rb_responses b ! i) (rb_response_mask b ! i) (acts ! i) (lps ! i) (ms ! i) = (ids, ls, m)"
    using row assms(5) by (simp add: rows_def)
  note spec = action_row_spec [OF len(1) this]
  have i: "i < length rows" using assms(5) by (simp add: rows_def)
  have pg: "pg ! i = put_slice (rb_prompt_width b) ids (rb_input_ids b ! i)" using i row len(3) assms(5) by (simp add: out)
  have mm: "map (snd \<circ> snd) rows ! i = m" using i row by simp
  have at: "pg ! i ! j = (if rb_prompt_width b \<le> j \<and> j < rb_prompt_width b + length ids then ids ! (j - rb_prompt_width b)
      else rb_input_ids b ! i ! j)"
    unfolding pg by (rule nth_put_slice) (use spec len(2) assms(6) in simp_all)
  show ?thesis
  proof (intro exI conjI)
    show "let q = j - rb_prompt_width b in
      if rb_prompt_width b \<le> j \<and> map (snd \<circ> snd) rows ! i ! q
      then rb_response_mask b ! i ! q \<and> (\<exists>as. acts ! i = Some as \<and> q < length as \<and> pg ! i ! j = as ! q)
      else pg ! i ! j = (if rb_prompt_width b \<le> j then rb_responses b ! i ! q else rb_input_ids b ! i ! j)"
      unfolding Let_def mm at using spec assms(6) by auto
  qed (use nt out in auto)
qed

section \<open>Concrete batches\<close>

definition ex_batch :: relay_batch where
  "ex_batch = \<lparr>rb_responses = [[4, 5, 0]], rb_response_mask = [[True, True, False]], rb_response_len = 3, rb_prompt_width = 1,
     rb_input_ids = [[9, 4, 5, 0]], rb_relay_teacher_mask = None, rb_pg_action_input_ids = None, rb_student_action_ids = None,
     rb_student_action_mask = None, rb_student_action_logps = None, nt_relay_teacher_mask = Some [Some [False, True]],
     nt_student_action_ids = Some [Some [4, 7]], nt_student_action_logps = Some [Some [0, 1]],
     nt_student_action_mask = Some [Some [False, True]], nt_trigger_stopped = None, nt_trigger_stop_pos = None\<rparr>"

theorem relay_mask_attached_witness:
  "\<exists>b'. attach_relay_teacher_mask Map.empty ex_batch = Inr b' \<and> rb_relay_teacher_mask b' = Some [[False, True, False]]
     \<and> attach_relay_teacher_mask Map.empty b' = Inr b'"
proof -
  have h: "batch_shape ex_batch" "rb_relay_teacher_mask ex_batch = None" "nt_relay_teacher_mask ex_batch = Some [Some [False, True]]"
    by (simp_all add: ex_batch_def batch_shape_def)
  obtain b' where b': "attach_relay_teacher_mask Map.empty ex_batch = Inr b'"
      "rb_relay_teacher_mask b' = Some [[False, True, False]]"
    by (simp add: attach_relay_teacher_mask_def ex_batch_def padded_row_def)
  with relay_mask_attached [OF h b'(1)] show ?thesis by blast
qed

theorem student_actions_attached_witness:
  "\<exists>b'. attach_relay_student_action_fields ex_batch = Inr b' \<and> rb_pg_action_input_ids b' = Some [[9, 4, 7, 0]]
     \<and> (7::int) = [4, 7] ! 1"
proof -
  have h: "batch_shape ex_batch" "rb_pg_action_input_ids ex_batch = None" by (simp_all add: ex_batch_def batch_shape_def)
  obtain b' where b': "attach_relay_student_action_fields ex_batch = Inr b'" "rb_pg_action_input_ids b' = Some [[9, 4, 7, 0]]"
      "rb_student_action_mask b' = Some [[False, True, False]]"
    by (simp add: attach_relay_student_action_fields_def ex_batch_def action_row_def put_slice_def numeral_3_eq_3)
  have "nt_student_action_ids ex_batch = Some [Some [4, 7]]" by (simp add: ex_batch_def)
  with student_actions_attached [OF h b'(1,2), of 0 2] b' show ?thesis by (auto simp: ex_batch_def)
qed

end
