(* ===== verification/Py_Sort.thy ===== *)
theory Py_Sort
  imports Prelude "HOL-Library.Product_Lexorder" "HOL-Library.List_Lexorder"
begin

text \<open>
  Python's \<open>sorted\<close> and \<open>heapq\<close> for a user-defined \<open>__lt__\<close>: both only ever call \<open><\<close>. The contract of such an
  order is the locale \<open>py_order\<close> (a strict weak order); inside it the two stable sorts and the priority
  queue are shown to permute their input, to order it, and to pop a least element. The orders of the
  model's own types are interpretations of it.
\<close>

section \<open>Stable sorts\<close>

fun insert_asc :: "('a \<Rightarrow> 'a \<Rightarrow> bool) \<Rightarrow> 'a \<Rightarrow> 'a list \<Rightarrow> 'a list" where
  "insert_asc lt x [] = [x]"
| "insert_asc lt x (y # ys) = (if lt y x then y # insert_asc lt x ys else x # y # ys)"

fun insert_desc :: "('a \<Rightarrow> 'a \<Rightarrow> bool) \<Rightarrow> 'a \<Rightarrow> 'a list \<Rightarrow> 'a list" where
  "insert_desc lt x [] = [x]"
| "insert_desc lt x (y # ys) = (if lt x y then y # insert_desc lt x ys else x # y # ys)"

text \<open>\<open>sorted(xs)\<close> and \<open>sorted(xs, reverse=True)\<close>: equal elements keep their order in both.\<close>

definition sorted_asc :: "('a \<Rightarrow> 'a \<Rightarrow> bool) \<Rightarrow> 'a list \<Rightarrow> 'a list" where
  "sorted_asc lt xs = foldr (insert_asc lt) xs []"

definition sorted_desc :: "('a \<Rightarrow> 'a \<Rightarrow> bool) \<Rightarrow> 'a list \<Rightarrow> 'a list" where
  "sorted_desc lt xs = foldr (insert_desc lt) xs []"

lemma mset_insert_asc [simp]: "mset (insert_asc lt x xs) = add_mset x (mset xs)"
  by (induction xs) auto

lemma mset_insert_desc [simp]: "mset (insert_desc lt x xs) = add_mset x (mset xs)"
  by (induction xs) auto

lemma mset_sorted_asc [simp]: "mset (sorted_asc lt xs) = mset xs"
  by (induction xs) (simp_all add: sorted_asc_def)

lemma mset_sorted_desc [simp]: "mset (sorted_desc lt xs) = mset xs"
  by (induction xs) (simp_all add: sorted_desc_def)

lemma set_sorted [simp]: "set (sorted_asc lt xs) = set xs" "set (sorted_desc lt xs) = set xs"
  "set (insert_asc lt x xs) = insert x (set xs)" "set (insert_desc lt x xs) = insert x (set xs)"
  by (metis mset_sorted_asc mset_eq_setD, metis mset_sorted_desc mset_eq_setD)
    (induction xs; auto)+

lemma length_sorted [simp]: "length (sorted_asc lt xs) = length xs" "length (sorted_desc lt xs) = length xs"
  "length (insert_asc lt x xs) = Suc (length xs)" "length (insert_desc lt x xs) = Suc (length xs)"
  by (metis mset_sorted_asc size_mset, metis mset_sorted_desc size_mset)
    (induction xs; auto)+

lemma length_filter_sorted_desc: "length (filter P (sorted_desc lt xs)) = length (filter P xs)"
  by (metis mset_filter mset_sorted_desc size_mset)

section \<open>The contract of an order\<close>

locale py_order =
  fixes lt :: "'a \<Rightarrow> 'a \<Rightarrow> bool"
  assumes lt_asym: "lt x y \<Longrightarrow> \<not> lt y x"
    and lt_neg_trans: "\<not> lt x y \<Longrightarrow> \<not> lt y z \<Longrightarrow> \<not> lt x z"
begin

lemma sorted_insert_asc:
  "sorted_wrt (\<lambda>x y. \<not> lt y x) xs \<Longrightarrow> sorted_wrt (\<lambda>x y. \<not> lt y x) (insert_asc lt x xs)"
  by (induction xs) (auto dest: lt_asym lt_neg_trans)

lemma sorted_insert_desc:
  "sorted_wrt (\<lambda>x y. \<not> lt x y) xs \<Longrightarrow> sorted_wrt (\<lambda>x y. \<not> lt x y) (insert_desc lt x xs)"
  by (induction xs) (auto dest: lt_asym lt_neg_trans)

lemma sorted_sorted_asc: "sorted_wrt (\<lambda>x y. \<not> lt y x) (sorted_asc lt xs)"
  by (induction xs) (simp_all add: sorted_asc_def sorted_insert_asc)

lemma sorted_sorted_desc: "sorted_wrt (\<lambda>x y. \<not> lt x y) (sorted_desc lt xs)"
  by (induction xs) (simp_all add: sorted_desc_def sorted_insert_desc)

end

text \<open>An order given by a key into a linear order is a strict weak order.\<close>

lemma py_order_key: "(\<And>x y. lt x y \<longleftrightarrow> (key x :: 'b::linorder) < key y) \<Longrightarrow> py_order lt"
  by unfold_locales auto

section \<open>Priority queues\<close>

text \<open>What a client of \<open>heapq\<close> relies on: a push adds the element, a pop returns a least element and removes it.\<close>

locale priority_queue = py_order lt for lt :: "'a \<Rightarrow> 'a \<Rightarrow> bool" +
  fixes push :: "'a \<Rightarrow> 'q \<Rightarrow> 'q"
    and pop :: "'q \<Rightarrow> ('a \<times> 'q) option"
    and elems :: "'q \<Rightarrow> 'a multiset"
    and invar :: "'q \<Rightarrow> bool"
  assumes elems_push: "invar q \<Longrightarrow> elems (push x q) = add_mset x (elems q)"
    and invar_push: "invar q \<Longrightarrow> invar (push x q)"
    and pop_None: "invar q \<Longrightarrow> pop q = None \<longleftrightarrow> elems q = {#}"
    and elems_pop: "invar q \<Longrightarrow> pop q = Some (x, q') \<Longrightarrow> elems q = add_mset x (elems q')"
    and invar_pop: "invar q \<Longrightarrow> pop q = Some (x, q') \<Longrightarrow> invar q'"
    and pop_least: "invar q \<Longrightarrow> pop q = Some (x, q') \<Longrightarrow> y \<in># elems q' \<Longrightarrow> \<not> lt y x"
begin

text \<open>Pushing a whole list, as the loops that fill the queue do.\<close>

lemma push_all:
  "invar q \<Longrightarrow> invar (fold push xs q) \<and> elems (fold push xs q) = mset xs + elems q"
  by (induction xs arbitrary: q) (simp_all add: elems_push invar_push)

end

text \<open>The queue as the list of its elements in ascending order.\<close>

definition heappop :: "'a list \<Rightarrow> ('a \<times> 'a list) option" where
  "heappop q = (case q of [] \<Rightarrow> None | x # xs \<Rightarrow> Some (x, xs))"

context py_order
begin

lemma sorted_list_queue:
  "priority_queue lt (insert_asc lt) heappop mset (sorted_wrt (\<lambda>x y. \<not> lt y x))"
  by unfold_locales (auto simp: heappop_def sorted_insert_asc split: list.splits)

end

end
