(* ===== verification/Seqlen_Balance.thy ===== *)
theory Seqlen_Balance
  imports Py_Sort
begin

text \<open>
  Balancing of sequence lengths over micro-batches and ranks, \<open>verl/utils/seqlen_balancing.py\<close>: the
  Karmarkar-Karp differencing method, the greedy partition, the checks of
  \<open>get_seqlen_balanced_partitions\<close>, the dynamic micro-batches with their restoration, and the partition
  that keeps the samples of one prompt together.
\<close>

section \<open>Workloads and integer helpers\<close>

definition calculate_workload :: "int \<Rightarrow> int" where
  "calculate_workload seqlen = 24576 * seqlen + seqlen ^ 2"

definition ceildiv :: "int \<Rightarrow> int \<Rightarrow> int result" where
  "ceildiv a b = (if b = 0 then Inl ZeroDivisionError else Inr (- (a div (- b))))"

definition roundup_divisible :: "int \<Rightarrow> int \<Rightarrow> int result" where
  "roundup_divisible a b = (if b = 0 then Inl ZeroDivisionError else Inr (((a + b - 1) div b) * b))"

section \<open>Karmarkar-Karp\<close>

text \<open>The local class \<open>Set\<close>.\<close>

record kk_set =
  s_sum :: int
  s_items :: "(nat \<times> int) list"

definition empty_set :: kk_set where
  "empty_set = \<lparr>s_sum = 0, s_items = []\<rparr>"

definition set_add :: "nat \<times> int \<Rightarrow> kk_set \<Rightarrow> kk_set" where
  "set_add = (\<lambda>(idx, val) s. s\<lparr>s_items := s_items s @ [(idx, val)], s_sum := s_sum s + val\<rparr>)"

definition set_merge :: "kk_set \<Rightarrow> kk_set \<Rightarrow> kk_set" where
  "set_merge s other = fold set_add (s_items other) s"

definition set_lt :: "kk_set \<Rightarrow> kk_set \<Rightarrow> bool" where
  "set_lt a b =
     (if s_sum a \<noteq> s_sum b then s_sum a < s_sum b
      else if length (s_items a) \<noteq> length (s_items b) then length (s_items a) < length (s_items b)
      else s_items a < s_items b)"

text \<open>The local class \<open>State\<close>: its sets, in decreasing order; \<open>k\<close> is their number.\<close>

record kk_state =
  st_sets :: "kk_set list"

text \<open>\<open>State.__init__\<close>: with \<open>k = 0\<close> the first \<open>self.sets[i]\<close> is out of range.\<close>

definition make_state :: "nat \<Rightarrow> (nat \<times> int) list \<Rightarrow> kk_state result" where
  "make_state k items =
     (if \<not> (length items = 1 \<or> length items = k) then Inl (AssertionError ''len(items) not in [1, k]'')
      else if length items > k then Inl IndexError
      else Inr \<lparr>st_sets = sorted_desc set_lt
             (map (\<lambda>i. if i < length items then set_add (items ! i) empty_set else empty_set) [0..<k])\<rparr>)"

definition get_partitions :: "kk_state \<Rightarrow> nat list list" where
  "get_partitions st = map (\<lambda>s. map fst (s_items s)) (st_sets st)"

definition state_merge :: "kk_state \<Rightarrow> kk_state \<Rightarrow> kk_state" where
  "state_merge a b = \<lparr>st_sets = sorted_desc set_lt (map2 set_merge (st_sets a) (rev (st_sets b)))\<rparr>"

definition spread :: "kk_state \<Rightarrow> int" where
  "spread st = s_sum (hd (st_sets st)) - s_sum (last (st_sets st))"

definition state_lt :: "kk_state \<Rightarrow> kk_state \<Rightarrow> bool" where
  "state_lt a b = (if spread a \<noteq> spread b then spread a > spread b
                   else set_lt (hd (st_sets b)) (hd (st_sets a)))"

text \<open>The two ways to fill the queue.\<close>

definition indexed_sorted :: "int list \<Rightarrow> (int \<times> nat) list" where
  "indexed_sorted seqlen_list = sorted_asc (<) (map (\<lambda>(i, s). (s, i)) (enumerate 0 seqlen_list))"

fun chunks :: "nat \<Rightarrow> nat \<Rightarrow> 'a list \<Rightarrow> 'a list list" where
  "chunks 0 k xs = []"
| "chunks (Suc m) k xs = take k xs # chunks m k (drop k xs)"

definition initial_states :: "int list \<Rightarrow> nat \<Rightarrow> bool \<Rightarrow> kk_state list result" where
  "initial_states seqlen_list k equal_size =
     (let srt = map (\<lambda>(s, i). (i, s)) (indexed_sorted seqlen_list) in
      if equal_size then
        (if k = 0 then Inl ZeroDivisionError
         else if length seqlen_list mod k \<noteq> 0 then Inl (AssertionError ''len(seqlen_list) % k_partitions != 0'')
         else map_r (make_state k) (chunks (length srt div k) k srt))
      else map_r (\<lambda>x. make_state k [x]) srt)"

text \<open>The differencing loop.\<close>

function kk_loop :: "kk_state list \<Rightarrow> kk_state result" where
  "kk_loop [] = Inl IndexError"
| "kk_loop [s] = Inr s"
| "kk_loop (s0 # s1 # pq) = kk_loop (insert_asc state_lt (state_merge s0 s1) pq)"
  by pat_completeness auto

termination
  by (relation "measure length") simp_all

definition karmarkar_karp :: "int list \<Rightarrow> nat \<Rightarrow> bool \<Rightarrow> nat list list result" where
  "karmarkar_karp seqlen_list k equal_size =
     bind_r (initial_states seqlen_list k equal_size) (\<lambda>states.
     bind_r (kk_loop (fold (insert_asc state_lt) states [])) (\<lambda>final.
       let partitions = get_partitions final in
       if equal_size \<and> \<not> list_all (\<lambda>p. length p * k = length seqlen_list) partitions
       then Inl (AssertionError ''len(partition) * k_partitions != len(seqlen_list)'')
       else Inr partitions))"

section \<open>The greedy partition\<close>

text \<open>The inner search: the first index with the least sum (\<open>None\<close> when there are no partitions).\<close>

fun argmin_from :: "int list \<Rightarrow> nat \<Rightarrow> nat option \<Rightarrow> nat list \<Rightarrow> nat option" where
  "argmin_from sums k best [] = best"
| "argmin_from sums k best (j # js) =
     argmin_from sums k
       (case best of None \<Rightarrow> Some j | Some m \<Rightarrow> if sums ! j < sums ! m then Some j else Some m) js"

definition greedy_step ::
  "nat \<Rightarrow> int \<times> nat \<Rightarrow> nat list list \<times> int list \<Rightarrow> (nat list list \<times> int list) result" where
  "greedy_step k = (\<lambda>(seqlen, i) (partitions, sums).
     case argmin_from sums k None [0..<k] of
       None \<Rightarrow> Inl TypeError
     | Some m \<Rightarrow> Inr (partitions[m := partitions ! m @ [i]], sums[m := sums ! m + seqlen]))"

definition greedy_partition :: "int list \<Rightarrow> nat \<Rightarrow> bool \<Rightarrow> nat list list result" where
  "greedy_partition seqlen_list k equal_size =
     (let bias = (if equal_size then sum_list seqlen_list + 1 else 0);
          items = map (\<lambda>(i, s). (s + bias, i)) (enumerate 0 seqlen_list)
      in bind_r (fold_r (greedy_step k) items (replicate k [], replicate k 0)) (\<lambda>(partitions, sums).
           if equal_size \<and> \<not> list_all (\<lambda>p. length p * k = length seqlen_list) partitions
           then Inl (AssertionError ''len(partition) * k_partitions != len(seqlen_list)'')
           else Inr partitions))"

section \<open>Checked partitions\<close>

definition check_and_sort_partitions :: "nat \<Rightarrow> nat \<Rightarrow> nat list list \<Rightarrow> nat list list result" where
  "check_and_sort_partitions n k partitions =
     (if length partitions \<noteq> k then Inl (AssertionError ''len(partitions) != k_partitions'')
      else if list_ex (\<lambda>p. p = []) partitions then Inl (AssertionError ''partition is empty'')
      else if set (concat partitions) \<noteq> set [0..<n] then Inl (AssertionError ''seen_idx'')
      else Inr (map sort partitions))"

definition get_seqlen_balanced_partitions :: "int list \<Rightarrow> nat \<Rightarrow> bool \<Rightarrow> nat list list result" where
  "get_seqlen_balanced_partitions seqlen_list k equal_size =
     (if length seqlen_list < k then Inl (AssertionError ''number of items < k_partitions'')
      else bind_r (karmarkar_karp seqlen_list k equal_size) (check_and_sort_partitions (length seqlen_list) k))"

section \<open>The orders are strict weak orders\<close>

definition set_key :: "kk_set \<Rightarrow> int \<times> nat \<times> (nat \<times> int) list" where
  "set_key s = (s_sum s, length (s_items s), s_items s)"

lemma set_lt_key: "set_lt a b \<longleftrightarrow> set_key a < set_key b"
  by (auto simp: set_lt_def set_key_def less_prod_def)

interpretation kk_set_order: py_order set_lt
  by (rule py_order_key [where key = set_key]) (rule set_lt_key)

lemma state_lt_key: "state_lt a b \<longleftrightarrow> (spread b, set_key (hd (st_sets b))) < (spread a, set_key (hd (st_sets a)))"
  by (auto simp: state_lt_def set_lt_key less_prod_def)

interpretation kk_state_order: py_order state_lt
  by unfold_locales (auto simp: state_lt_key)

interpretation kk_queue: priority_queue state_lt "insert_asc state_lt" heappop mset "sorted_wrt (\<lambda>x y. \<not> state_lt y x)"
  by (rule kk_state_order.sorted_list_queue)

interpretation pair_order: py_order "(<) :: int \<times> nat \<Rightarrow> int \<times> nat \<Rightarrow> bool"
  by unfold_locales auto

section \<open>States\<close>

definition sum_ok :: "kk_set \<Rightarrow> bool" where
  "sum_ok s \<longleftrightarrow> s_sum s = sum_list (map snd (s_items s))"

definition state_ok :: "nat \<Rightarrow> kk_state \<Rightarrow> bool" where
  "state_ok k st \<longleftrightarrow> length (st_sets st) = k \<and> list_all sum_ok (st_sets st)
     \<and> sorted_wrt (\<lambda>a b. \<not> set_lt a b) (st_sets st)"

definition state_items :: "kk_state \<Rightarrow> (nat \<times> int) multiset" where
  "state_items st = mset (concat (map s_items (st_sets st)))"

lemma set_merge_simps [simp]:
  "s_items (set_merge a b) = s_items a @ s_items b"
  "s_sum (set_merge a b) = s_sum a + sum_list (map snd (s_items b))"
proof -
  have "s_items (fold set_add xs s) = s_items s @ xs \<and> s_sum (fold set_add xs s) = s_sum s + sum_list (map snd xs)" for xs s
    by (induction xs arbitrary: s) (auto simp: set_add_def split_def)
  then show "s_items (set_merge a b) = s_items a @ s_items b"
    "s_sum (set_merge a b) = s_sum a + sum_list (map snd (s_items b))"
    by (simp_all add: set_merge_def)
qed

lemma set_add_simps [simp]:
  "s_items (set_add x s) = s_items s @ [x]" "s_sum (set_add x s) = s_sum s + snd x"
  "s_items empty_set = []" "s_sum empty_set = 0"
  by (simp_all add: set_add_def empty_set_def split_def)

lemma mset_concat_perm: "mset xs = mset ys \<Longrightarrow> mset (concat (map f xs)) = mset (concat (map f ys))"
  unfolding mset_concat map_map sum_mset_sum_list [symmetric] mset_map by simp

lemma mset_concat_map2:
  "length xs = length ys \<Longrightarrow>
     mset (concat (map s_items (map2 set_merge xs ys))) = mset (concat (map s_items xs)) + mset (concat (map s_items ys))"
  by (induction xs ys rule: list_induct2) auto

lemma state_merge_ok:
  assumes "state_ok k a" "state_ok k b"
  shows "state_ok k (state_merge a b)" "state_items (state_merge a b) = state_items a + state_items b"
proof -
  have len: "length (st_sets a) = length (rev (st_sets b))" using assms by (simp add: state_ok_def)
  have "list_all sum_ok (map2 set_merge (st_sets a) (rev (st_sets b)))"
  proof -
    have "sum_ok (set_merge p q)" if "(p, q) \<in> set (zip (st_sets a) (rev (st_sets b)))" for p q
    proof -
      from that have "p \<in> set (st_sets a)" "q \<in> set (st_sets b)" by (auto dest: set_zip_leftD set_zip_rightD)
      with assms show ?thesis by (simp add: state_ok_def list_all_iff sum_ok_def)
    qed
    then show ?thesis by (auto simp: list_all_iff)
  qed
  then show "state_ok k (state_merge a b)"
    using assms kk_set_order.sorted_sorted_desc by (simp add: state_ok_def state_merge_def list_all_iff)
  have "state_items (state_merge a b) = mset (concat (map s_items (map2 set_merge (st_sets a) (rev (st_sets b)))))"
    unfolding state_items_def state_merge_def by (simp only: kk_state.simps, rule mset_concat_perm) simp
  also have "\<dots> = state_items a + mset (concat (map s_items (rev (st_sets b))))"
    unfolding mset_concat_map2 [OF len] state_items_def by simp
  also have "mset (concat (map s_items (rev (st_sets b)))) = state_items b"
    unfolding state_items_def by (rule mset_concat_perm) simp
  finally show "state_items (state_merge a b) = state_items a + state_items b" .
qed

lemma make_state_ok:
  assumes "make_state k items = Inr st"
  shows "state_ok k st" "state_items st = mset items"
proof -
  let ?init = "map (\<lambda>i. if i < length items then set_add (items ! i) empty_set else empty_set) [0..<k]"
  have st: "st_sets st = sorted_desc set_lt ?init" and len: "length items \<le> k"
    using assms by (auto simp: make_state_def split: if_splits)
  have "list_all sum_ok ?init" by (auto simp: list_all_iff sum_ok_def)
  then show "state_ok k st" using st kk_set_order.sorted_sorted_desc by (simp add: state_ok_def list_all_iff)
  have "concat (map s_items ?init) = concat (map (\<lambda>i. if i < length items then [items ! i] else []) [0..<k])"
    by (simp add: comp_def if_distrib cong: if_cong)
  also have "\<dots> = items"
  proof -
    let ?f = "\<lambda>i. if i < length items then [items ! i] else []"
    have "[0..<k] = [0..<length items] @ [length items..<k]" using len upt_add_eq_append [of 0 "length items" "k - length items"] by simp
    moreover have "map ?f [0..<length items] = map (\<lambda>i. [items ! i]) [0..<length items]" by (rule map_cong) simp_all
    moreover have "concat (map ?f [length items..<k]) = []" by simp
    ultimately show ?thesis by (simp only: map_append concat_append concat_map_singleton map_nth append_Nil2)
  qed
  finally show "state_items st = mset items"
    unfolding state_items_def st by (metis mset_concat_perm mset_sorted_desc)
qed

lemma make_state_returns: "0 < k \<Longrightarrow> length items = 1 \<or> length items = k \<Longrightarrow> \<exists>st. make_state k items = Inr st"
  by (auto simp: make_state_def)

section \<open>The differencing loop\<close>

lemma kk_loop_returns: "qs \<noteq> [] \<Longrightarrow> \<exists>f. kk_loop qs = Inr f"
proof (induction qs rule: kk_loop.induct)
  case (3 s0 s1 pq)
  have "insert_asc state_lt (state_merge s0 s1) pq \<noteq> []" by (cases pq) auto
  with 3 show ?case by simp
qed auto

text \<open>A property that merging keeps holds of the final state.\<close>

lemma kk_loop_inv:
  assumes "kk_loop qs = Inr f" "\<forall>s \<in> set qs. P s" "\<forall>a b. P a \<longrightarrow> P b \<longrightarrow> P (state_merge a b)"
  shows "P f"
  using assms by (induction qs rule: kk_loop.induct) auto

lemma kk_loop_items:
  assumes "kk_loop qs = Inr f" "\<forall>s \<in> set qs. state_ok k s"
  shows "state_items f = sum_list (map state_items qs)"
  using assms
proof (induction qs rule: kk_loop.induct)
  case (3 s0 s1 pq)
  have ins: "sum_list (map state_items (insert_asc state_lt x xs)) = state_items x + sum_list (map state_items xs)" for x xs
    by (induction xs) (auto simp: add.left_commute)
  from 3 show ?case by (simp add: ins state_merge_ok [of k] add.assoc)
qed auto

section \<open>No set stays empty\<close>

definition filled :: "kk_set \<Rightarrow> bool" where
  "filled s \<longleftrightarrow> s_items s \<noteq> []"

definition nonneg_items :: "kk_state \<Rightarrow> bool" where
  "nonneg_items st \<longleftrightarrow> (\<forall>x \<in># state_items st. 0 \<le> snd x)"

lemma set_items_nonneg:
  assumes "nonneg_items st" "s \<in> set (st_sets st)"
  shows "\<forall>x \<in> set (s_items s). 0 \<le> snd x"
  using assms by (auto simp: nonneg_items_def state_items_def)

text \<open>In a sorted state with non-negative values the filled sets come first.\<close>

lemma filled_prefix:
  assumes "state_ok k st" "nonneg_items st" "i < k"
  shows "filled (st_sets st ! i) \<longleftrightarrow> i < length (filter filled (st_sets st))"
proof -
  have step: "filled a" if "s_items b \<noteq> []" "\<not> set_lt a b" "sum_ok a" "sum_ok b" "\<forall>x \<in> set (s_items b). 0 \<le> snd x" for a b
  proof (rule ccontr)
    assume "\<not> filled a"
    then have "s_sum a = 0" "s_items a = []" using that(3) by (auto simp: filled_def sum_ok_def)
    moreover have "0 \<le> s_sum b" using that(4,5) unfolding sum_ok_def by (auto intro!: sum_list_nonneg)
    ultimately show False using that(1,2) by (auto simp: set_lt_def split: if_splits)
  qed
  have "list_all sum_ok xs \<Longrightarrow> sorted_wrt (\<lambda>a b. \<not> set_lt a b) xs \<Longrightarrow> (\<forall>s \<in> set xs. \<forall>x \<in> set (s_items s). 0 \<le> snd x) \<Longrightarrow>
      i < length xs \<Longrightarrow> filled (xs ! i) \<longleftrightarrow> i < length (filter filled xs)" for xs i
  proof (induction xs arbitrary: i)
    case (Cons a xs)
    show ?case
    proof (cases "filled a")
      case True
      then show ?thesis using Cons by (cases i) auto
    next
      case False
      then have "\<not> filled b" if "b \<in> set xs" for b
        using step [of b a] Cons.prems that by (auto simp: filled_def list_all_iff)
      then have "filter filled (a # xs) = []" "\<not> filled ((a # xs) ! i)"
        using False Cons.prems(4) by (auto simp: filter_empty_conv nth_Cons' less_Suc_eq_0_disj)
      then show ?thesis by simp
    qed
  qed simp
  then show ?thesis using assms set_items_nonneg [OF assms(2)] by (simp add: state_ok_def)
qed

lemma card_ends: "fa \<le> k \<Longrightarrow> fb \<le> k \<Longrightarrow> card {i. i < k \<and> (i < fa \<or> k - 1 - i < fb)} = min k (fa + fb)"
proof -
  assume le: "fa \<le> k" "fb \<le> k"
  have "{i. i < k \<and> (i < fa \<or> k - 1 - i < fb)} = {0..<fa} \<union> {k - fb..<k}" using le by auto
  moreover have "card ({0..<fa} \<union> {k - fb..<k}) = min k (fa + fb)"
  proof (cases "fa + fb \<le> k")
    case True
    then show ?thesis by (subst card_Un_disjoint) auto
  next
    case False
    then have "{0..<fa} \<union> {k - fb..<k} = {0..<k}" using le by auto
    then show ?thesis using False by simp
  qed
  ultimately show ?thesis by simp
qed

definition filled_inv :: "nat \<Rightarrow> kk_state \<Rightarrow> bool" where
  "filled_inv k st \<longleftrightarrow> state_ok k st \<and> nonneg_items st
     \<and> length (filter filled (st_sets st)) = min k (size (state_items st))"

lemma filled_merge:
  assumes "filled_inv k a" "filled_inv k b"
  shows "filled_inv k (state_merge a b)"
proof -
  have ok: "state_ok k a" "state_ok k b" "nonneg_items a" "nonneg_items b" using assms by (simp_all add: filled_inv_def)
  have len: "length (st_sets a) = k" "length (st_sets b) = k" using ok by (simp_all add: state_ok_def)
  let ?m = "map2 set_merge (st_sets a) (rev (st_sets b))"
  let ?fa = "length (filter filled (st_sets a))" and ?fb = "length (filter filled (st_sets b))"
  have "filled (?m ! i) \<longleftrightarrow> i < ?fa \<or> k - 1 - i < ?fb" if "i < k" for i
  proof -
    have "filled (?m ! i) \<longleftrightarrow> filled (st_sets a ! i) \<or> filled (st_sets b ! (k - 1 - i))"
      using that len by (simp add: filled_def rev_nth)
    also have "filled (st_sets a ! i) \<longleftrightarrow> i < ?fa" by (rule filled_prefix [OF ok(1,3) that])
    also have "filled (st_sets b ! (k - 1 - i)) \<longleftrightarrow> k - 1 - i < ?fb" by (rule filled_prefix [OF ok(2,4)]) (use that in simp)
    finally show ?thesis .
  qed
  then have "{i. i < length ?m \<and> filled (?m ! i)} = {i. i < k \<and> (i < ?fa \<or> k - 1 - i < ?fb)}" using len by auto
  then have "length (filter filled ?m) = min k (?fa + ?fb)"
    unfolding length_filter_conv_card using card_ends [of ?fa k ?fb] length_filter_le [of filled "st_sets a"]
      length_filter_le [of filled "st_sets b"] len by (simp only: length_filter_conv_card)
  moreover have "length (filter filled (st_sets (state_merge a b))) = length (filter filled ?m)"
    by (simp add: state_merge_def length_filter_sorted_desc)
  ultimately show ?thesis
    using assms state_merge_ok [OF ok(1,2)] ok(3,4)
    by (auto simp: filled_inv_def nonneg_items_def min_def)
qed

lemma filled_make:
  assumes "make_state k items = Inr st" "\<forall>x \<in> set items. 0 \<le> snd x"
  shows "filled_inv k st"
proof -
  let ?init = "map (\<lambda>i. if i < length items then set_add (items ! i) empty_set else empty_set) [0..<k]"
  have st: "st_sets st = sorted_desc set_lt ?init" and le: "length items \<le> k"
    using assms(1) by (auto simp: make_state_def split: if_splits)
  have "length (filter filled ?init) = card {i. i < k \<and> i < length items}"
    unfolding length_filter_conv_card by (rule arg_cong [where f = card]) (auto simp: filled_def split: if_splits)
  also have "{i. i < k \<and> i < length items} = {..<length items}" using le by auto
  finally have "length (filter filled (st_sets st)) = length items"
    by (simp add: st length_filter_sorted_desc)
  then show ?thesis
    using make_state_ok [OF assms(1)] assms(2) le by (simp add: filled_inv_def nonneg_items_def)
qed

section \<open>The spread never grows\<close>

definition spread_inv :: "nat \<Rightarrow> int \<Rightarrow> kk_state \<Rightarrow> bool" where
  "spread_inv k M st \<longleftrightarrow> state_ok k st \<and> (\<forall>a \<in> set (st_sets st). \<forall>b \<in> set (st_sets st). s_sum a - s_sum b \<le> M)"

lemma sums_sorted: "state_ok k st \<Longrightarrow> i \<le> j \<Longrightarrow> j < k \<Longrightarrow> s_sum (st_sets st ! j) \<le> s_sum (st_sets st ! i)"
proof (cases "i = j")
  case False
  assume "state_ok k st" "i \<le> j" "j < k"
  with False have "\<not> set_lt (st_sets st ! i) (st_sets st ! j)" by (auto simp: state_ok_def sorted_wrt_iff_nth_less)
  then show ?thesis by (auto simp: set_lt_def split: if_splits)
qed simp

lemma spread_merge:
  assumes "spread_inv k M a" "spread_inv k M b"
  shows "spread_inv k M (state_merge a b)"
proof -
  have ok: "state_ok k a" "state_ok k b" using assms by (simp_all add: spread_inv_def)
  have len: "length (st_sets a) = k" "length (st_sets b) = k" using ok by (simp_all add: state_ok_def)
  let ?A = "\<lambda>i. s_sum (st_sets a ! i)" and ?B = "\<lambda>i. s_sum (st_sets b ! i)"
  let ?m = "map2 set_merge (st_sets a) (rev (st_sets b))"
  have sum: "s_sum (?m ! i) = ?A i + ?B (k - 1 - i)" if "i < k" for i
    using that len ok(2) by (simp add: rev_nth state_ok_def list_all_length sum_ok_def)
  have AB: "?A i - ?A j \<le> M" "?B i - ?B j \<le> M" if "i < k" "j < k" for i j
    using assms len that by (simp_all add: spread_inv_def)
  have "s_sum (?m ! i) - s_sum (?m ! j) \<le> M" if "i < k" "j < k" for i j
  proof (cases "i \<le> j")
    case True
    then have "?B (k - 1 - i) \<le> ?B (k - 1 - j)" using that by (intro sums_sorted [OF ok(2)]) auto
    then show ?thesis using AB(1) [OF that] sum that by simp
  next
    case False
    then have "?A i \<le> ?A j" using that by (intro sums_sorted [OF ok(1)]) auto
    then show ?thesis using AB(2) [of "k - 1 - i" "k - 1 - j"] sum that by simp
  qed
  then have "s_sum x - s_sum y \<le> M" if "x \<in> set ?m" "y \<in> set ?m" for x y
  proof -
    obtain i j where "i < length ?m" "x = ?m ! i" "j < length ?m" "y = ?m ! j" using \<open>x \<in> set ?m\<close> \<open>y \<in> set ?m\<close> by (metis in_set_conv_nth)
    then show ?thesis using \<open>\<And>i j. i < k \<Longrightarrow> j < k \<Longrightarrow> s_sum (?m ! i) - s_sum (?m ! j) \<le> M\<close> len by simp
  qed
  moreover have "set (st_sets (state_merge a b)) = set ?m" by (simp add: state_merge_def)
  ultimately show ?thesis using state_merge_ok(1) [OF ok] by (auto simp: spread_inv_def)
qed

lemma spread_make:
  assumes "make_state k items = Inr st" "\<forall>x \<in> set items. 0 \<le> snd x \<and> snd x \<le> M" "0 \<le> M"
  shows "spread_inv k M st"
proof -
  have "0 \<le> s_sum s \<and> s_sum s \<le> M" if "s \<in> set (st_sets st)" for s
    using that assms by (auto simp: make_state_def split: if_splits)
  then have "s_sum s - s_sum t \<le> M" if "s \<in> set (st_sets st)" "t \<in> set (st_sets st)" for s t
    using that by (meson diff_le_eq le_add_same_cancel1 order_trans)
  then show ?thesis using make_state_ok(1) [OF assms(1)] by (simp add: spread_inv_def)
qed

section \<open>Equal sizes\<close>

definition sizes_inv :: "nat \<Rightarrow> kk_state \<Rightarrow> bool" where
  "sizes_inv k st \<longleftrightarrow> state_ok k st \<and> (\<exists>m. \<forall>s \<in> set (st_sets st). length (s_items s) = m)"

lemma sizes_merge:
  assumes "sizes_inv k a" "sizes_inv k b"
  shows "sizes_inv k (state_merge a b)"
proof -
  obtain m n where mn: "\<forall>s \<in> set (st_sets a). length (s_items s) = m" "\<forall>s \<in> set (st_sets b). length (s_items s) = n"
    and ok: "state_ok k a" "state_ok k b" using assms by (auto simp: sizes_inv_def)
  have "length (s_items s) = m + n" if "s \<in> set (st_sets (state_merge a b))" for s
  proof -
    from that obtain p q where "(p, q) \<in> set (zip (st_sets a) (rev (st_sets b)))" "s = set_merge p q"
      by (auto simp: state_merge_def)
    moreover from this have "p \<in> set (st_sets a)" "q \<in> set (st_sets b)" by (auto dest: set_zip_leftD set_zip_rightD)
    ultimately show ?thesis using mn by simp
  qed
  then show ?thesis using state_merge_ok(1) [OF ok] by (auto simp: sizes_inv_def)
qed

lemma sizes_make: "make_state k items = Inr st \<Longrightarrow> length items = k \<Longrightarrow> sizes_inv k st"
  using make_state_ok(1) [of k items st]
  by (auto simp: sizes_inv_def make_state_def split: if_splits intro!: exI [of _ 1])

section \<open>Correctness of the partition\<close>

lemma mset_indexed_sorted:
  "mset (map (\<lambda>(s, i). (i, s)) (indexed_sorted xs)) = mset (enumerate 0 xs)"
proof -
  have "mset (map (\<lambda>(s, i). (i, s)) (indexed_sorted xs))
      = image_mset (\<lambda>(s, i). (i, s)) (mset (map (\<lambda>(i, s). (s, i)) (enumerate 0 xs)))"
    by (simp add: indexed_sorted_def)
  also have "\<dots> = mset (map (\<lambda>x. x) (enumerate 0 xs))"
    by (simp only: mset_map [symmetric] map_map) (rule arg_cong [where f = mset], rule map_cong, auto)
  finally show ?thesis by simp
qed

lemma chunks_concat: "length xs = m * k \<Longrightarrow> concat (chunks m k xs) = xs \<and> (\<forall>c \<in> set (chunks m k xs). length c = k)"
proof (induction m arbitrary: xs)
  case (Suc m)
  have "concat (chunks m k (drop k xs)) = drop k xs \<and> (\<forall>c \<in> set (chunks m k (drop k xs)). length c = k)"
    by (rule Suc.IH) (use Suc.prems in simp)
  then show ?case using Suc.prems by auto
qed simp

lemma map_r_forall2: "map_r f xs = Inr ys \<Longrightarrow> \<forall>y \<in> set ys. \<exists>x \<in> set xs. f x = Inr y"
  by (metis in_set_conv_nth map_r_length map_r_nth)

lemma map_r_state_items:
  "map_r (make_state k) xss = Inr sts \<Longrightarrow> sum_list (map state_items sts) = mset (concat xss)"
  by (induction xss arbitrary: sts) (auto dest: make_state_ok(2))

text \<open>The initial states: they exist, they carry each item once, and each of them is built by
  \<open>make_state\<close> from a group of items.\<close>

lemma initial_states_ok:
  assumes "0 < k" "equal_size \<longrightarrow> k dvd length xs"
  obtains sts where "initial_states xs k equal_size = Inr sts"
    "sum_list (map state_items sts) = mset (enumerate 0 xs)"
    "\<forall>s \<in> set sts. \<exists>items. make_state k items = Inr s \<and> set items \<subseteq> set (enumerate 0 xs) \<and> (equal_size \<longrightarrow> length items = k)"
proof -
  let ?srt = "map (\<lambda>(s, i). (i, s)) (indexed_sorted xs)"
  let ?groups = "if equal_size then chunks (length ?srt div k) k ?srt else map (\<lambda>x. [x]) ?srt"
  have len: "length ?srt = length xs" by (simp add: indexed_sorted_def)
  have cc: "concat ?groups = ?srt \<and> (\<forall>g \<in> set ?groups. length g = (if equal_size then k else 1))"
  proof (cases equal_size)
    case True
    then show ?thesis using chunks_concat [of ?srt "length ?srt div k" k] assms len by simp
  next
    case False
    have "concat (map (\<lambda>x. [x]) ys) = ys" for ys :: "(nat \<times> int) list" by (induction ys) auto
    then show ?thesis using False by (simp del: map_map)
  qed
  then have "\<exists>sts. map_r (make_state k) ?groups = Inr sts"
    by (intro map_r_returns ballI make_state_returns assms(1)) (auto split: if_splits)
  then obtain sts where sts: "map_r (make_state k) ?groups = Inr sts" by blast
  have single: "map_r (\<lambda>x. make_state k [x]) ys = map_r (make_state k) (map (\<lambda>x. [x]) ys)" for ys
    by (induction ys) auto
  have "initial_states xs k equal_size = map_r (make_state k) ?groups"
    using assms by (auto simp: initial_states_def Let_def single dvd_eq_mod_eq_0)
  moreover have "sum_list (map state_items sts) = mset (enumerate 0 xs)"
    using map_r_state_items [OF sts] cc mset_indexed_sorted [of xs] by simp
  moreover have "\<exists>items. make_state k items = Inr s \<and> set items \<subseteq> set (enumerate 0 xs) \<and> (equal_size \<longrightarrow> length items = k)"
    if "s \<in> set sts" for s
  proof -
    obtain g where g: "g \<in> set ?groups" "make_state k g = Inr s" using map_r_forall2 [OF sts] \<open>s \<in> set sts\<close> by blast
    have "set g \<subseteq> set (concat ?groups)" using g(1) by (metis UN_upper set_concat)
    also have "\<dots> = set (enumerate 0 xs)" using cc mset_indexed_sorted [of xs] by (metis mset_eq_setD)
    finally show ?thesis using g cc by (intro exI [of _ g]) auto
  qed
  ultimately show ?thesis by (intro that [of sts]) (simp_all add: sts del: map_map)
qed

text \<open>The final state of the method, with everything the invariants say about it.\<close>

lemma kk_final:
  assumes "0 < k" "xs \<noteq> []" "equal_size \<longrightarrow> k dvd length xs"
  obtains sts f where "initial_states xs k equal_size = Inr sts" "kk_loop (fold (insert_asc state_lt) sts []) = Inr f"
    "state_ok k f" "state_items f = mset (enumerate 0 xs)" "equal_size \<longrightarrow> sizes_inv k f"
    "list_all (\<lambda>x. 0 \<le> x) xs \<longrightarrow> filled_inv k f" "list_all (\<lambda>x. 0 \<le> x) xs \<longrightarrow> spread_inv k (Max (set xs)) f"
proof -
  obtain sts where sts: "initial_states xs k equal_size = Inr sts" "sum_list (map state_items sts) = mset (enumerate 0 xs)"
    and made: "\<forall>s \<in> set sts. \<exists>items. make_state k items = Inr s \<and> set items \<subseteq> set (enumerate 0 xs) \<and> (equal_size \<longrightarrow> length items = k)"
    by (rule initial_states_ok [OF assms(1,3)])
  let ?q = "fold (insert_asc state_lt) sts []"
  have q: "mset ?q = mset sts" using kk_queue.push_all [of "[]" sts] by simp
  then have set_q: "set ?q = set sts" by (metis mset_eq_setD)
  note madeq = made [folded set_q]
  have "sts \<noteq> []" using sts(2) assms(2) by (auto dest: arg_cong [where f = size])
  then have "?q \<noteq> []" using set_q by auto
  then obtain f where f: "kk_loop ?q = Inr f" using kk_loop_returns by blast
  have ok: "\<forall>s \<in> set ?q. state_ok k s" using madeq make_state_ok(1) by blast
  have "state_items f = sum_list (map state_items ?q)" by (rule kk_loop_items [OF f ok])
  also have "\<dots> = sum_list (map state_items sts)" 
    unfolding sum_mset_sum_list [symmetric] mset_map q by simp
  finally have items: "state_items f = mset (enumerate 0 xs)" using sts(2) by simp
  have val: "snd x \<in> set xs" if "x \<in> set items" "set items \<subseteq> set (enumerate 0 xs)" for x items
  proof -
    from that have "x \<in> set (enumerate 0 xs)" by blast
    then show ?thesis using nth_mem [of "fst x" xs] by (simp add: in_set_enumerate_eq)
  qed
  have okf: "state_ok k f" by (intro kk_loop_inv [where P = "state_ok k", OF f ok] allI impI state_merge_ok)
  have size: "equal_size \<longrightarrow> sizes_inv k f"
  proof
    assume equal_size
    with madeq have "\<forall>s \<in> set ?q. sizes_inv k s" using sizes_make by blast
    then show "sizes_inv k f" by (intro kk_loop_inv [where P = "sizes_inv k", OF f] allI impI sizes_merge)
  qed
  have fill: "list_all (\<lambda>x. 0 \<le> x) xs \<longrightarrow> filled_inv k f"
  proof
    assume nn: "list_all (\<lambda>x. 0 \<le> x) xs"
    have "filled_inv k s" if s: "s \<in> set ?q" for s
    proof -
      obtain items where it: "make_state k items = Inr s" "set items \<subseteq> set (enumerate 0 xs)"
        using bspec [OF madeq s] by (elim exE conjE)
      have "\<forall>x \<in> set items. 0 \<le> snd x" using val [OF _ it(2)] nn by (simp add: list_all_iff)
      with it(1) show ?thesis by (rule filled_make)
    qed
    then show "filled_inv k f" by (intro kk_loop_inv [where P = "filled_inv k", OF f] ballI allI impI filled_merge)
  qed
  have spr: "list_all (\<lambda>x. 0 \<le> x) xs \<longrightarrow> spread_inv k (Max (set xs)) f"
  proof
    assume nn: "list_all (\<lambda>x. 0 \<le> x) xs"
    have M: "0 \<le> Max (set xs)" using nn assms(2) by (cases xs) (auto simp: list_all_iff Max_ge_iff)
    have "spread_inv k (Max (set xs)) s" if s: "s \<in> set ?q" for s
    proof -
      obtain items where it: "make_state k items = Inr s" "set items \<subseteq> set (enumerate 0 xs)"
        using bspec [OF madeq s] by (elim exE conjE)
      have "\<forall>x \<in> set items. 0 \<le> snd x \<and> snd x \<le> Max (set xs)" using val [OF _ it(2)] nn by (simp add: list_all_iff)
      with it(1) show ?thesis by (rule spread_make [OF _ _ M])
    qed
    then show "spread_inv k (Max (set xs)) f"
      by (intro kk_loop_inv [where P = "spread_inv k (Max (set xs))", OF f] ballI allI impI spread_merge)
  qed
  show ?thesis by (rule that [OF sts(1) f okf items size fill spr])
qed

lemma partitions_of_state:
  assumes "state_items f = mset (enumerate 0 xs)"
  shows "mset (concat (get_partitions f)) = mset [0..<length xs]"
proof -
  have "concat (map (\<lambda>s. map fst (s_items s)) ss) = map fst (concat (map s_items ss))" for ss :: "kk_set list"
    by (induction ss) auto
  then have "mset (concat (get_partitions f)) = image_mset fst (state_items f)"
    by (simp add: get_partitions_def state_items_def)
  then show ?thesis by (simp add: assms flip: mset_map)
qed

lemma sizes_of_state:
  assumes "sizes_inv k f" "state_items f = mset (enumerate 0 xs)"
  shows "list_all (\<lambda>p. length p * k = length xs) (get_partitions f)"
proof -
  obtain m where m: "\<forall>s \<in> set (st_sets f). length (s_items s) = m" and len: "length (st_sets f) = k"
    using assms(1) by (auto simp: sizes_inv_def state_ok_def)
  have "\<forall>s \<in> set ss. length (s_items s) = m \<Longrightarrow> length (concat (map s_items ss)) = m * length ss" for ss :: "kk_set list"
    by (induction ss) auto
  from this [OF m] have "m * k = length xs"
    using arg_cong [OF assms(2), of size] len by (simp add: state_items_def)
  then show ?thesis using m by (simp add: list_all_iff get_partitions_def)
qed

text \<open>What a checked partition is: every index exactly once, in \<open>k\<close> groups.\<close>

definition is_partition :: "nat \<Rightarrow> nat \<Rightarrow> nat list list \<Rightarrow> bool" where
  "is_partition n k parts \<longleftrightarrow> length parts = k \<and> mset (concat parts) = mset [0..<n]"

definition part_sum :: "int list \<Rightarrow> nat list \<Rightarrow> int" where
  "part_sum xs p = sum_list (map ((!) xs) p)"

lemma set_sum_is_part_sum:
  assumes "state_ok k f" "state_items f = mset (enumerate 0 xs)" "s \<in> set (st_sets f)"
  shows "s_sum s = part_sum xs (map fst (s_items s))"
proof -
  have "set (s_items s) \<subseteq> set (concat (map s_items (st_sets f)))" using assms(3) by auto
  also have "\<dots> = set (enumerate 0 xs)" using assms(2) by (metis state_items_def mset_eq_setD)
  finally have "snd x = xs ! fst x" if "x \<in> set (s_items s)" for x using that by (auto simp: in_set_enumerate_eq)
  then have "map snd (s_items s) = map ((!) xs) (map fst (s_items s))" unfolding map_map by (intro map_cong) auto
  moreover have "sum_ok s" using assms(1,3) by (simp add: state_ok_def list_all_iff)
  ultimately show ?thesis by (simp only: sum_ok_def part_sum_def)
qed

lemma kk_partition:
  assumes "0 < k" "xs \<noteq> []" "equal_size \<longrightarrow> k dvd length xs"
  shows "\<exists>parts. karmarkar_karp xs k equal_size = Inr parts \<and> is_partition (length xs) k parts
    \<and> (equal_size \<longrightarrow> (\<forall>p \<in> set parts. length p = length xs div k))
    \<and> (list_all (\<lambda>x. 0 \<le> x) xs \<longrightarrow>
         (k \<le> length xs \<longrightarrow> [] \<notin> set parts)
         \<and> (\<forall>p \<in> set parts. \<forall>q \<in> set parts. part_sum xs p - part_sum xs q \<le> Max (set xs)))"
proof -
  obtain sts f where st: "initial_states xs k equal_size = Inr sts" "kk_loop (fold (insert_asc state_lt) sts []) = Inr f"
    and f: "state_ok k f" "state_items f = mset (enumerate 0 xs)" "equal_size \<longrightarrow> sizes_inv k f"
    and nn: "list_all (\<lambda>x. 0 \<le> x) xs \<longrightarrow> filled_inv k f" "list_all (\<lambda>x. 0 \<le> x) xs \<longrightarrow> spread_inv k (Max (set xs)) f"
    by (rule kk_final [OF assms])
  let ?parts = "get_partitions f"
  have sizes: "equal_size \<longrightarrow> list_all (\<lambda>p. length p * k = length xs) ?parts" using sizes_of_state f(2,3) by blast
  then have "karmarkar_karp xs k equal_size = Inr ?parts" by (auto simp: karmarkar_karp_def st Let_def)
  moreover have "is_partition (length xs) k ?parts"
    using partitions_of_state [OF f(2)] f(1) by (simp add: is_partition_def get_partitions_def state_ok_def)
  moreover have "\<forall>p \<in> set ?parts. length p = length xs div k" if equal_size
  proof
    fix p assume "p \<in> set ?parts"
    then have "length xs = length p * k" using sizes that by (simp add: list_all_iff)
    then show "length p = length xs div k" using assms(1) by simp
  qed
  moreover have "[] \<notin> set ?parts" if "list_all (\<lambda>x. 0 \<le> x) xs" "k \<le> length xs"
  proof -
    have fi: "filled_inv k f" using nn(1) that(1) by blast
    then have "length (filter filled (st_sets f)) = length (st_sets f)"
      using that(2) f(1,2) by (simp add: filled_inv_def state_ok_def)
    then have "\<forall>s \<in> set (st_sets f). filled s" by (metis length_filter_less nat_neq_iff)
    then show ?thesis by (auto simp: get_partitions_def filled_def)
  qed
  moreover have "part_sum xs p - part_sum xs q \<le> Max (set xs)"
    if "list_all (\<lambda>x. 0 \<le> x) xs" "p \<in> set ?parts" "q \<in> set ?parts" for p q
    using nn(2) that set_sum_is_part_sum [OF f(1,2)] by (auto simp: spread_inv_def get_partitions_def)
  ultimately show ?thesis by blast
qed

text \<open>
  [C23] The Karmarkar-Karp routine returns for every non-empty input (the length must be a multiple of \<open>k\<close> when
  equal sizes are asked for), and what it returns is a partition of the indices into \<open>k\<close> groups, of equal
  sizes when asked for. With non-negative values no group is empty once there are at least \<open>k\<close> items, and
  the sums of two groups never differ by more than the largest single value.
\<close>

theorem karmarkar_karp_correct:
  assumes "0 < k" "xs \<noteq> []" "equal_size \<longrightarrow> k dvd length xs"
  shows "\<exists>parts. karmarkar_karp xs k equal_size = Inr parts \<and> is_partition (length xs) k parts
    \<and> (equal_size \<longrightarrow> (\<forall>p \<in> set parts. length p = length xs div k))
    \<and> (list_all (\<lambda>x. 0 \<le> x) xs \<longrightarrow>
         (k \<le> length xs \<longrightarrow> [] \<notin> set parts)
         \<and> (\<forall>p \<in> set parts. \<forall>q \<in> set parts. part_sum xs p - part_sum xs q \<le> Max (set xs)))"
  by (rule kk_partition [OF assms])

theorem karmarkar_karp_correct_witness:
  "\<exists>parts. karmarkar_karp [5, 3, 3, 9] 2 True = Inr parts \<and> is_partition 4 2 parts
     \<and> (\<forall>p \<in> set parts. length p = 2) \<and> (\<forall>p \<in> set parts. \<forall>q \<in> set parts. part_sum [5, 3, 3, 9] p - part_sum [5, 3, 3, 9] q \<le> 9)"
proof -
  have h: "0 < (2::nat)" "[5, 3, 3, 9 :: int] \<noteq> []" "True \<longrightarrow> 2 dvd length [5, 3, 3, 9 :: int]" by simp_all
  obtain parts where "karmarkar_karp [5, 3, 3, 9] 2 True = Inr parts" "is_partition (length [5, 3, 3, 9 :: int]) 2 parts"
    "\<forall>p \<in> set parts. length p = length [5, 3, 3, 9 :: int] div 2"
    "\<forall>p \<in> set parts. \<forall>q \<in> set parts. part_sum [5, 3, 3, 9] p - part_sum [5, 3, 3, 9] q \<le> Max (set [5, 3, 3, 9])"
    using karmarkar_karp_correct [OF h] by auto
  moreover have "length [5, 3, 3, 9 :: int] = 4" "length [5, 3, 3, 9 :: int] div 2 = 2" "Max (set [5, 3, 3, 9 :: int]) = 9"
    by simp_all
  ultimately show ?thesis by (intro exI [of _ parts]) (simp only: simp_thms)
qed

section \<open>Checked partitions are always returned\<close>

lemma sort_concat_mset: "mset (concat (map sort parts)) = mset (concat parts)"
  by (induction parts) simp_all

lemma is_partition_map_sort: "is_partition n k (map sort parts) \<longleftrightarrow> is_partition n k parts"
  by (simp add: is_partition_def sort_concat_mset)

lemma part_sum_perm: "mset p = mset q \<Longrightarrow> part_sum xs p = part_sum xs q"
  unfolding part_sum_def by (metis mset_map sum_mset_sum_list)

lemma is_partition_set: "is_partition n k parts \<Longrightarrow> set (concat parts) = {0..<n}"
  unfolding is_partition_def by (metis mset_eq_setD set_upt)

lemma is_partition_distinct: "is_partition n k parts \<Longrightarrow> distinct (concat parts)"
  unfolding is_partition_def by (metis distinct_upt mset_eq_imp_distinct_iff)

text \<open>The promise to the callers: with non-negative workloads, at least as many items as groups and a
  divisible length when equal sizes are asked for, none of the assertions fires.\<close>

definition balanced :: "int list \<Rightarrow> nat \<Rightarrow> bool \<Rightarrow> nat list list \<Rightarrow> bool" where
  "balanced xs k equal_size parts \<longleftrightarrow> is_partition (length xs) k parts
     \<and> list_all (\<lambda>p. p \<noteq> [] \<and> sorted_wrt (<) p \<and> (equal_size \<longrightarrow> length p = length xs div k)) parts
     \<and> (\<forall>p \<in> set parts. \<forall>q \<in> set parts. part_sum xs p - part_sum xs q \<le> Max (set xs))"

lemma balanced_partitions:
  assumes "0 < k" "k \<le> length xs" "list_all (\<lambda>x. 0 \<le> x) xs" "equal_size \<longrightarrow> k dvd length xs"
  shows "\<exists>parts. get_seqlen_balanced_partitions xs k equal_size = Inr parts \<and> balanced xs k equal_size parts"
proof -
  have ne: "xs \<noteq> []" using assms(1,2) by auto
  obtain parts where kk: "karmarkar_karp xs k equal_size = Inr parts" "is_partition (length xs) k parts"
    "equal_size \<longrightarrow> (\<forall>p \<in> set parts. length p = length xs div k)" "[] \<notin> set parts"
    "\<forall>p \<in> set parts. \<forall>q \<in> set parts. part_sum xs p - part_sum xs q \<le> Max (set xs)"
    using kk_partition [OF assms(1) ne assms(4)] assms(2,3) by (elim exE conjE) blast
  have "check_and_sort_partitions (length xs) k parts = Inr (map sort parts)"
    using kk(2,4) is_partition_set [OF kk(2)] by (auto simp: check_and_sort_partitions_def is_partition_def list_ex_iff)
  moreover have "sorted_wrt (<) (sort p)" if "p \<in> set parts" for p
  proof -
    have "distinct p" using is_partition_distinct [OF kk(2)] that by (metis distinct_concat_iff)
    then show ?thesis by (simp add: strict_sorted_iff)
  qed
  moreover have "part_sum xs (sort p) = part_sum xs p" for p by (rule part_sum_perm) simp
  moreover have "sort p = [] \<longleftrightarrow> p = []" for p :: "nat list" by (metis length_0_conv length_sort)
  ultimately show ?thesis
    using kk assms(2) by (auto simp: get_seqlen_balanced_partitions_def balanced_def is_partition_map_sort list_all_iff)
qed

text \<open>
  \<open>get_seqlen_balanced_partitions\<close> never fails on the inputs it is meant for: it returns \<open>k\<close> non-empty,
  strictly increasing index lists that contain every index exactly once (of equal sizes when asked for),
  whose sums differ by at most the largest value. It raises when there are fewer items than groups.
\<close>

theorem balanced_partitions_correct:
  assumes "0 < k" "list_all (\<lambda>x. 0 \<le> x) xs" "equal_size \<longrightarrow> k dvd length xs"
  shows "if k \<le> length xs
    then \<exists>parts. get_seqlen_balanced_partitions xs k equal_size = Inr parts \<and> balanced xs k equal_size parts
    else \<exists>e. get_seqlen_balanced_partitions xs k equal_size = Inl (AssertionError e)"
  using balanced_partitions [OF assms(1) _ assms(2,3)] by (auto simp: get_seqlen_balanced_partitions_def)

theorem balanced_partitions_correct_witness:
  "\<exists>parts. get_seqlen_balanced_partitions [5, 3, 8] 2 False = Inr parts \<and> balanced [5, 3, 8] 2 False parts"
  using balanced_partitions_correct [of 2 "[5, 3, 8]" False] by simp

section \<open>The greedy partition\<close>

lemma argmin_from_least:
  assumes "case best of None \<Rightarrow> js \<noteq> [] | Some b \<Rightarrow> True"
  shows "\<exists>m. argmin_from ss k best js = Some m \<and> (m \<in> set js \<or> best = Some m)
    \<and> (\<forall>j \<in> set js. ss ! m \<le> ss ! j) \<and> (\<forall>b. best = Some b \<longrightarrow> ss ! m \<le> ss ! b)"
  using assms
proof (induction js arbitrary: best)
  case (Cons j js)
  let ?b = "case best of None \<Rightarrow> Some j | Some m \<Rightarrow> if ss ! j < ss ! m then Some j else Some m"
  obtain b where b: "?b = Some b" "b = j \<or> best = Some b" "ss ! b \<le> ss ! j" "\<forall>c. best = Some c \<longrightarrow> ss ! b \<le> ss ! c"
  proof (cases best)
    case None
    then show ?thesis using that [of j] by simp
  next
    case (Some a)
    then show ?thesis using that [of j] that [of a] by (cases "ss ! j < ss ! a") simp_all
  qed
  obtain m where m: "argmin_from ss k (Some b) js = Some m" "m \<in> set js \<or> b = m"
      "\<forall>i \<in> set js. ss ! m \<le> ss ! i" "ss ! m \<le> ss ! b"
    using Cons.IH [of "Some b"] by auto
  show ?case
  proof (intro exI [of _ m] conjI)
    show "argmin_from ss k best (j # js) = Some m" using m(1) b(1) by simp
    show "m \<in> set (j # js) \<or> best = Some m" using m(2) b(2) by auto
    show "\<forall>j \<in> set (j # js). ss ! m \<le> ss ! j" using m(3,4) b(3) by auto
    show "\<forall>b. best = Some b \<longrightarrow> ss ! m \<le> ss ! b" using m(4) b(4) order_trans by blast
  qed
qed (auto split: option.splits)

text \<open>The loop invariant after the items of \<open>done\<close>: the indices are distributed, every sum is the number of
  items times the bias plus their lengths, and with a bias above the total the counts differ by at most one.\<close>

definition greedy_inv :: "int list \<Rightarrow> nat \<Rightarrow> int \<Rightarrow> nat \<Rightarrow> nat list list \<times> int list \<Rightarrow> bool" where
  "greedy_inv xs k bias n = (\<lambda>(ps, ss). length ps = k \<and> length ss = k \<and> mset (concat ps) = mset [0..<n]
     \<and> (\<forall>j < k. ss ! j = int (length (ps ! j)) * bias + part_sum xs (ps ! j))
     \<and> (sum_list xs < bias \<longrightarrow> (\<forall>i < k. \<forall>j < k. length (ps ! i) \<le> length (ps ! j) + 1)))"

lemma mset_concat_update:
  assumes "m < length ps"
  shows "mset (concat (ps[m := ps ! m @ [x]])) = add_mset x (mset (concat ps))"
  using assms
proof (induction ps arbitrary: m)
  case (Cons p ps)
  then show ?case by (cases m) auto
qed simp

lemma part_sum_bounds:
  assumes "list_all (\<lambda>x. 0 \<le> x) xs" "mset p \<subseteq># mset [0..<length xs]"
  shows "0 \<le> part_sum xs p" "part_sum xs p \<le> sum_list xs"
proof -
  obtain q' where "mset [0..<length xs] = mset p + q'" using assms(2) by (metis subset_mset.le_iff_add)
  moreover obtain ql where "q' = mset ql" using ex_mset by metis
  ultimately have q: "mset [0..<length xs] = mset p + mset ql" by simp
  have "sum_list xs = sum_mset (image_mset ((!) xs) (mset [0..<length xs]))"
    by (metis map_nth mset_map sum_mset_sum_list)
  also have "\<dots> = part_sum xs p + part_sum xs ql"
    unfolding q by (simp add: part_sum_def sum_mset_sum_list flip: mset_map)
  finally have eq: "sum_list xs = part_sum xs p + part_sum xs ql" .
  have nn: "0 \<le> xs ! i" if "i \<in># mset [0..<length xs]" for i using that assms(1) by (auto simp: list_all_length)
  have "0 \<le> part_sum xs ql" using nn unfolding q part_sum_def by (intro sum_list_nonneg) auto
  then show "part_sum xs p \<le> sum_list xs" using eq by simp
  show "0 \<le> part_sum xs p" unfolding part_sum_def using nn unfolding q by (intro sum_list_nonneg) auto
qed

lemma greedy_step_inv:
  assumes "greedy_inv xs k bias n s" "0 < k" "n < length xs" "list_all (\<lambda>x. 0 \<le> x) xs" "0 \<le> bias"
  shows "\<exists>s'. greedy_step k (xs ! n + bias, n) s = Inr s' \<and> greedy_inv xs k bias (Suc n) s'"
proof -
  obtain ps ss where s: "s = (ps, ss)" by (cases s)
  have inv: "length ps = k" "length ss = k" "mset (concat ps) = mset [0..<n]"
    "\<forall>j < k. ss ! j = int (length (ps ! j)) * bias + part_sum xs (ps ! j)"
    "sum_list xs < bias \<longrightarrow> (\<forall>i < k. \<forall>j < k. length (ps ! i) \<le> length (ps ! j) + 1)"
    using assms(1) by (simp_all add: greedy_inv_def s)
  obtain m where m: "argmin_from ss k None [0..<k] = Some m" "m < k" "\<forall>j < k. ss ! m \<le> ss ! j"
    using argmin_from_least [where best = None and js = "[0..<k]" and ss = ss and k = k] assms(2) by auto
  let ?ps = "ps[m := ps ! m @ [n]]" and ?ss = "ss[m := ss ! m + (xs ! n + bias)]"
  have sub: "mset (ps ! j) \<subseteq># mset [0..<length xs]" if "j < k" for j
  proof -
    have "mset (ps ! j) \<subseteq># mset (concat ps)"
      using that inv(1) by (metis concat.simps(2) concat_append id_take_nth_drop mset_append mset_subset_eq_add_left mset_subset_eq_add_right subset_mset.order_trans)
    also have "\<dots> \<subseteq># mset [0..<length xs]"
      using assms(3) upt_add_eq_append [of 0 n "length xs - n"] unfolding inv(3) by (metis add_diff_inverse_nat le0 mset_append mset_subset_eq_add_left not_less_iff_gr_or_eq)
    finally show ?thesis .
  qed
  have least: "length (ps ! m) \<le> length (ps ! j)" if "sum_list xs < bias" "j < k" for j
  proof (rule ccontr)
    assume "\<not> length (ps ! m) \<le> length (ps ! j)"
    then have "(int (length (ps ! j)) + 1) * bias \<le> int (length (ps ! m)) * bias" using assms(5) by (intro mult_right_mono) auto
    moreover have "0 \<le> part_sum xs (ps ! m)" "part_sum xs (ps ! j) < bias"
      using part_sum_bounds [OF assms(4) sub [OF m(2)]] part_sum_bounds [OF assms(4) sub [OF that(2)]] that(1) by linarith+
    ultimately have "ss ! j < ss ! m" using inv(4) m(2) that(2) by (simp add: distrib_right)
    then show False using m(3) that(2) by force
  qed
  have "length (?ps ! i) \<le> length (?ps ! j) + 1" if "sum_list xs < bias" "i < k" "j < k" for i j
  proof -
    have "length (ps ! i) \<le> length (ps ! j) + 1" using inv(5) that by blast
    then show ?thesis using inv(1) that least [OF that(1)] m(2) by (auto simp: nth_list_update)
  qed
  moreover have "\<forall>j < k. ?ss ! j = int (length (?ps ! j)) * bias + part_sum xs (?ps ! j)"
    using inv(1,2,4) m(2) by (auto simp: nth_list_update part_sum_def algebra_simps)
  moreover have "mset (concat ?ps) = mset [0..<Suc n]" using mset_concat_update [of m ps n] m(2) inv(1,3) by simp
  ultimately have "greedy_inv xs k bias (Suc n) (?ps, ?ss)" using inv(1,2) by (simp add: greedy_inv_def)
  then show ?thesis using m(1) by (simp add: greedy_step_def s)
qed

lemma greedy_loop:
  assumes "greedy_inv xs k bias n s" "0 < k" "list_all (\<lambda>x. 0 \<le> x) xs" "0 \<le> bias" "n \<le> length xs"
  shows "\<exists>s'. fold_r (greedy_step k) (map (\<lambda>i. (xs ! i + bias, i)) [n..<length xs]) s = Inr s'
     \<and> greedy_inv xs k bias (length xs) s'"
  using assms
proof (induction "length xs - n" arbitrary: n s)
  case (Suc d)
  then have n: "n < length xs" by simp
  obtain s' where s': "greedy_step k (xs ! n + bias, n) s = Inr s'" "greedy_inv xs k bias (Suc n) s'"
    using greedy_step_inv [OF Suc.prems(1,2) n Suc.prems(3,4)] by blast
  have "\<exists>s''. fold_r (greedy_step k) (map (\<lambda>i. (xs ! i + bias, i)) [Suc n..<length xs]) s' = Inr s''
     \<and> greedy_inv xs k bias (length xs) s''"
    by (rule Suc.hyps(1)) (use Suc.hyps(2) s'(2) Suc.prems n in auto)
  then show ?case using s'(1) by (simp add: upt_conv_Cons [OF n])
qed simp

text \<open>Counts that differ by at most one and add up to a multiple of \<open>k\<close> are equal.\<close>

lemma equal_counts:
  assumes "0 < length cs" "\<forall>c \<in> set cs. \<forall>d \<in> set cs. c \<le> d + (1::nat)" "length cs dvd sum_list cs"
  shows "\<forall>c \<in> set cs. c * length cs = sum_list cs"
proof -
  define m where "m = Min (set cs)"
  have m: "m \<in> set cs" "\<forall>c \<in> set cs. m \<le> c \<and> c \<le> m + 1" using assms(1,2) by (auto simp: m_def)
  have sum: "\<forall>c \<in> set ds. m \<le> c \<and> c \<le> m + 1 \<Longrightarrow> sum_list ds = m * length ds + length (filter (\<lambda>c. c \<noteq> m) ds)" for ds
    by (induction ds) (auto simp: le_Suc_eq)
  have "length (filter (\<lambda>c. c \<noteq> m) cs) < length cs" by (rule length_filter_less [OF m(1)]) simp
  moreover have "length cs dvd length (filter (\<lambda>c. c \<noteq> m) cs)"
    using assms(3) sum [OF m(2)] by (metis dvd_add_right_iff dvd_triv_right)
  ultimately have "filter (\<lambda>c. c \<noteq> m) cs = []" using nat_dvd_not_less by (metis length_0_conv neq0_conv)
  then have "\<forall>c \<in> set cs. c = m" by (auto simp: filter_empty_conv)
  then show ?thesis using sum [OF m(2)] \<open>filter (\<lambda>c. c \<noteq> m) cs = []\<close> by simp
qed

text \<open>
  The greedy partition returns a partition of the indices into \<open>k\<close> groups for every list of non-negative
  values, and the bias it adds when equal sizes are asked for does its job: on a length divisible by \<open>k\<close> all
  groups get the same number of items, so the final assertion never fires.
\<close>

theorem greedy_partition_correct:
  assumes "0 < k" "list_all (\<lambda>x. 0 \<le> x) xs" "equal_size \<longrightarrow> k dvd length xs"
  shows "\<exists>parts. greedy_partition xs k equal_size = Inr parts \<and> is_partition (length xs) k parts
    \<and> (equal_size \<longrightarrow> (\<forall>p \<in> set parts. length p * k = length xs))"
proof -
  define bias where "bias = (if equal_size then sum_list xs + 1 else 0)"
  have "0 \<le> sum_list xs" using assms(2) by (intro sum_list_nonneg) (auto simp: list_all_iff)
  then have bias: "0 \<le> bias" by (simp add: bias_def)
  have items: "map (\<lambda>(i, s). (s + bias, i)) (enumerate 0 xs) = map (\<lambda>i. (xs ! i + bias, i)) [0..<length xs]"
    by (rule nth_equalityI) (simp_all add: nth_enumerate_eq)
  have init: "greedy_inv xs k bias 0 (replicate k [], replicate k 0)"
    by (simp add: greedy_inv_def part_sum_def)
  obtain ps ss where run: "fold_r (greedy_step k) (map (\<lambda>i. (xs ! i + bias, i)) [0..<length xs]) (replicate k [], replicate k 0)
      = Inr (ps, ss)" "greedy_inv xs k bias (length xs) (ps, ss)"
    using greedy_loop [OF init assms(1,2) bias] by auto
  have ps: "length ps = k" "mset (concat ps) = mset [0..<length xs]" using run(2) by (simp_all add: greedy_inv_def)
  have equal: "\<forall>p \<in> set ps. length p * k = length xs" if equal_size
  proof -
    have "\<forall>c \<in> set (map length ps). \<forall>d \<in> set (map length ps). c \<le> d + 1"
      using run(2) that ps(1) by (auto simp: greedy_inv_def bias_def in_set_conv_nth)
    moreover have "sum_list (map length ps) = length xs"
      using arg_cong [OF ps(2), of size] by (simp add: length_concat)
    ultimately show ?thesis using equal_counts [of "map length ps"] assms(1,3) ps(1) that by auto
  qed
  then have "greedy_partition xs k equal_size = Inr ps"
    unfolding greedy_partition_def Let_def bias_def [symmetric] items run(1) by (auto simp: list_all_iff)
  then show ?thesis using equal ps by (simp add: is_partition_def)
qed

theorem greedy_partition_correct_witness:
  "\<exists>parts. greedy_partition [5, 1, 1, 9] 2 True = Inr parts \<and> is_partition 4 2 parts \<and> (\<forall>p \<in> set parts. length p * 2 = 4)"
proof -
  have "\<exists>parts. greedy_partition [5, 1, 1, 9] 2 True = Inr parts \<and> is_partition (length [5, 1, 1, 9 :: int]) 2 parts
    \<and> (True \<longrightarrow> (\<forall>p \<in> set parts. length p * 2 = length [5, 1, 1, 9 :: int]))"
    by (rule greedy_partition_correct) simp_all
  moreover have "length [5, 1, 1, 9 :: int] = 4" by simp
  ultimately show ?thesis by metis
qed

end
