(* ===== verification/Micro_Batches.thy ===== *)
theory Micro_Batches
  imports Complex_Main Seqlen_Balance
begin

text \<open>
  The users of the balanced partitions in \<open>verl/utils/seqlen_balancing.py\<close>: dynamic micro-batches
  (\<open>rearrange_micro_batches\<close>), their restoration (\<open>restore_dynamic_batch\<close>), the partition by prompt groups
  (\<open>get_group_balanced_partitions\<close>) and the imbalance metrics. A batch is the list of its rows with their
  effective lengths; selecting rows by index is the tensor library's \<open>index_select\<close>.
\<close>

section \<open>Dynamic micro-batches\<close>

record rearrange_args =
  ra_max_token_len :: int
  ra_dp_reduce :: "(int \<Rightarrow> int) option"
  ra_num_batches_divided_by :: "int option"
  ra_min_num_micro_batch :: "int option"
  ra_use_dynamic_bsz_balance :: bool
  ra_force_group_size :: nat

text \<open>The number of micro-batches; \<open>ra_dp_reduce\<close> is the maximum over the data-parallel group when there is
  one to be synchronised with.\<close>

definition num_micro_batches :: "rearrange_args \<Rightarrow> int list \<Rightarrow> int result" where
  "num_micro_batches a seq_lens =
     bind_r (ceildiv (sum_list seq_lens) (ra_max_token_len a)) (\<lambda>c.
       let num_groups = int (length seq_lens div ra_force_group_size a);
           n1 = min num_groups c;
           n2 = (case ra_min_num_micro_batch a of None \<Rightarrow> n1 | Some m \<Rightarrow> max m n1);
           n3 = (case ra_dp_reduce a of None \<Rightarrow> n2 | Some reduce \<Rightarrow> reduce n2)
       in bind_r (case ra_num_batches_divided_by a of None \<Rightarrow> Inr n3 | Some d \<Rightarrow> roundup_divisible n3 d) (\<lambda>n4.
            if n4 \<le> num_groups then Inr n4 else Inl (AssertionError ''num_micro_batches <= num_groups'')))"

fun stride2 :: "'a list \<Rightarrow> 'a list" where
  "stride2 [] = []"
| "stride2 [x] = [x]"
| "stride2 (x # y # xs) = x # stride2 xs"

fun every :: "nat \<Rightarrow> nat \<Rightarrow> 'a list \<Rightarrow> 'a list" where
  "every n i [] = []"
| "every n 0 (x # xs) = x # every n (n - 1) xs"
| "every n (Suc i) (x # xs) = every n i xs"

text \<open>The sort key of a micro-batch: its workload and its first index.\<close>

definition micro_key :: "nat \<Rightarrow> int list \<Rightarrow> nat list \<Rightarrow> int \<times> nat" where
  "micro_key g workloads p =
     (if g > 1 then sum_list (map (\<lambda>i. workloads ! (i div g)) (every g 0 p)) else part_sum workloads p,
      case p of [] \<Rightarrow> 0 | i # _ \<Rightarrow> i)"

definition place_small_at_ends :: "nat \<Rightarrow> int list \<Rightarrow> nat list list \<Rightarrow> nat list list" where
  "place_small_at_ends g workloads idx =
     (let s = sorted_desc (\<lambda>p q. micro_key g workloads p < micro_key g workloads q) idx
      in rev (stride2 s) @ stride2 (drop 1 s))"

definition group_members :: "nat \<Rightarrow> nat list \<Rightarrow> nat list" where
  "group_members g = (\<lambda>gs. concat (map (\<lambda>i. [i * g..<i * g + g]) gs))"

text \<open>\<open>rearrange_micro_batches\<close>: \<open>width\<close> is the padded length of the batch, \<open>None\<close> for a nested batch, whose
  longest sequence counts. The batches are the rows selected by the returned index lists.\<close>

definition rearrange_micro_batches ::
  "rearrange_args \<Rightarrow> int option \<Rightarrow> int list \<Rightarrow> 'r list \<Rightarrow> ('r list list \<times> nat list list) result" where
  "rearrange_micro_batches a width seq_lens rows =
     bind_r (case width of Some w \<Rightarrow> Inr w
             | None \<Rightarrow> (if seq_lens = [] then Inl (ValueError ''max() of an empty sequence'') else Inr (Max (set seq_lens))))
       (\<lambda>max_seq_len.
     if \<not> max_seq_len \<le> ra_max_token_len a then Inl (AssertionError ''max_token_len must be greater than the sequence length'')
     else if ra_force_group_size a = 0 then Inl ZeroDivisionError
     else if length seq_lens mod ra_force_group_size a \<noteq> 0 then Inl (AssertionError ''Batch size must be divisible'')
     else bind_r (num_micro_batches a seq_lens) (\<lambda>n.
       let g = ra_force_group_size a;
           num_groups = length seq_lens div g;
           per_sample = map calculate_workload seq_lens;
           workloads = (if g > 1 then map sum_list (chunks num_groups g per_sample) else per_sample)
       in bind_r (get_seqlen_balanced_partitions workloads (nat n) False) (\<lambda>parts.
            let idx = (if g > 1 then map (group_members g) parts else parts);
                idx = (if ra_use_dynamic_bsz_balance a then place_small_at_ends g workloads idx else idx)
            in Inr (map (map ((!) rows)) idx, idx))))"

text \<open>\<open>get_reverse_idx\<close> and \<open>restore_dynamic_batch\<close>.\<close>

definition get_reverse_idx :: "nat list \<Rightarrow> nat list result" where
  "get_reverse_idx idx_map =
     fold_r (\<lambda>(i, idx) r. if idx < length r then Inr (r[idx := i]) else Inl IndexError) (enumerate 0 idx_map) idx_map"

definition restore_dynamic_batch :: "'r list \<Rightarrow> nat list list \<Rightarrow> 'r list result" where
  "restore_dynamic_batch data batch_idx_list =
     (let indices = concat batch_idx_list in
      if length indices \<noteq> length data then Inl (AssertionError ''len(indices) vs. batch_size'')
      else bind_r (get_reverse_idx indices) (\<lambda>revert. Inr (map ((!) data) revert)))"

section \<open>Prompt groups and metrics\<close>

text \<open>The loop of \<open>get_group_balanced_partitions\<close> that collects consecutive samples with the same uid; the
  state is \<open>(groups, current_uid, current_indices)\<close>. The running group length is not used afterwards.\<close>

definition uid_step :: "nat \<times> 'u \<Rightarrow> nat list list \<times> 'u option \<times> nat list \<Rightarrow> nat list list \<times> 'u option \<times> nat list" where
  "uid_step = (\<lambda>(i, uid) (groups, current_uid, current).
     if Some uid \<noteq> current_uid
     then (if current \<noteq> [] then groups @ [current] else groups, Some uid, [i])
     else (groups, current_uid, current @ [i]))"

definition uid_groups :: "'u list \<Rightarrow> nat list list" where
  "uid_groups uid_list =
     (case fold uid_step (enumerate 0 uid_list) ([], None, []) of
        (groups, _, current) \<Rightarrow> if current \<noteq> [] then groups @ [current] else groups)"

definition get_group_balanced_partitions :: "int list \<Rightarrow> 'u list \<Rightarrow> nat \<Rightarrow> nat list list result" where
  "get_group_balanced_partitions seqlen_list uid_list k =
     (if length seqlen_list \<noteq> length uid_list then Inl (AssertionError ''same length'')
      else
        (let groups = uid_groups uid_list in
         if length groups < k then Inl (AssertionError ''Number of uid groups must be >= k_partitions'')
         else
           (let group_workloads = map (\<lambda>g. sum_list (map (\<lambda>i. calculate_workload (seqlen_list ! i)) g)) groups in
            bind_r (get_seqlen_balanced_partitions group_workloads k True)
              (\<lambda>parts. Inr (map (\<lambda>p. sort (concat (map ((!) groups) p))) parts)))))"

record unbalance_metrics =
  um_min :: int
  um_max :: int
  um_minmax_diff :: int
  um_balanced_min :: int
  um_balanced_max :: int
  um_mean :: rat

text \<open>\<open>log_seqlen_unbalance\<close>: the slices of \<open>len(seqlen_list) // k\<close> consecutive lengths, the last one possibly
  shorter, against the given partitions.\<close>

definition log_seqlen_unbalance :: "int list \<Rightarrow> nat list list \<Rightarrow> unbalance_metrics result" where
  "log_seqlen_unbalance seqlen_list partitions =
     (if partitions = [] then Inl ZeroDivisionError
      else
        (let batch_size = length seqlen_list div length partitions in
         if batch_size = 0 then Inl (ValueError ''range() arg 3 must not be zero'')
         else if list_ex (\<lambda>i. i \<ge> length seqlen_list) (concat partitions) then Inl IndexError
         else
           (let slice_sums = map (\<lambda>off. sum_list (slice off (off + batch_size) seqlen_list))
                         (map (\<lambda>j. j * batch_size) [0..<(length seqlen_list + batch_size - 1) div batch_size]);
                group_sums = map (part_sum seqlen_list) partitions
            in Inr \<lparr>um_min = Min (set slice_sums), um_max = Max (set slice_sums), um_minmax_diff = Max (set slice_sums) - Min (set slice_sums),
                  um_balanced_min = Min (set group_sums), um_balanced_max = Max (set group_sums),
                  um_mean = of_int (sum_list slice_sums) / of_nat (length partitions)\<rparr>)))"

section \<open>Restoring a batch\<close>

lemma reverse_fold:
  assumes "distinct (map snd ps)" "\<forall>(i, j) \<in> set ps. j < length r"
  shows "\<exists>r'. fold_r (\<lambda>(i, idx) r. if idx < length r then Inr (r[idx := i]) else Inl IndexError) ps r = Inr r'
     \<and> length r' = length r \<and> (\<forall>(i, j) \<in> set ps. r' ! j = i) \<and> (\<forall>j. j \<notin> snd ` set ps \<longrightarrow> r' ! j = r ! j)"
  using assms
proof (induction ps arbitrary: r)
  case (Cons p ps)
  obtain i j where p: "p = (i, j)" by (cases p)
  have "\<exists>r'. fold_r (\<lambda>(i, idx) r. if idx < length r then Inr (r[idx := i]) else Inl IndexError) ps (r[j := i]) = Inr r'
     \<and> length r' = length (r[j := i]) \<and> (\<forall>(i, j) \<in> set ps. r' ! j = i) \<and> (\<forall>l. l \<notin> snd ` set ps \<longrightarrow> r' ! l = r[j := i] ! l)"
    by (rule Cons.IH) (use Cons.prems in \<open>auto simp: p\<close>)
  then obtain r' where r': "fold_r (\<lambda>(i, idx) r. if idx < length r then Inr (r[idx := i]) else Inl IndexError) ps (r[j := i]) = Inr r'"
     "length r' = length r" "\<forall>(i, j) \<in> set ps. r' ! j = i" "\<forall>l. l \<notin> snd ` set ps \<longrightarrow> r' ! l = r[j := i] ! l" by auto
  have "j \<notin> snd ` set ps" "j < length r" using Cons.prems by (auto simp: p)
  then have "r' ! j = i" "\<forall>l. l \<notin> snd ` set (p # ps) \<longrightarrow> r' ! l = r ! l" using r'(4) by (auto simp: p)
  with r' \<open>j < length r\<close> show ?case by (intro exI [of _ r']) (auto simp: p)
qed auto

lemma reverse_idx:
  assumes "mset idx = mset [0..<n]"
  shows "\<exists>r. get_reverse_idx idx = Inr r \<and> length r = n \<and> (\<forall>i < n. r ! (idx ! i) = i)"
proof -
  have len: "length idx = n" using arg_cong [OF assms, of size] by simp
  have set: "set idx = {0..<n}" using assms by (metis mset_eq_setD set_upt)
  have "distinct idx" using assms by (metis distinct_upt mset_eq_imp_distinct_iff)
  then have "distinct (map snd (enumerate 0 idx))" by simp
  moreover have "\<forall>(i, j) \<in> set (enumerate 0 idx). j < length idx"
    using set len nth_mem by (fastforce simp: in_set_enumerate_eq)
  ultimately obtain r where r: "get_reverse_idx idx = Inr r" "length r = length idx" "\<forall>(i, j) \<in> set (enumerate 0 idx). r ! j = i"
    using reverse_fold [of "enumerate 0 idx" idx] unfolding get_reverse_idx_def by blast
  have "r ! (idx ! i) = i" if "i < n" for i
  proof -
    have "(i, idx ! i) \<in> set (enumerate 0 idx)" using that len by (simp add: in_set_enumerate_eq)
    with r(3) show ?thesis by blast
  qed
  with r len show ?thesis by auto
qed

text \<open>
  Round trip of dynamic batching: rows that are selected by a partition of the batch indices, processed
  row by row and concatenated, come back in their original order from \<open>restore_dynamic_batch\<close>.
\<close>

theorem restore_dynamic_batch_roundtrip:
  assumes "is_partition (length rows) k idx"
  shows "restore_dynamic_batch (concat (map (map (\<lambda>i. f (rows ! i))) idx)) idx = Inr (map f rows)"
proof -
  let ?ix = "concat idx" and ?n = "length rows"
  have perm: "mset ?ix = mset [0..<?n]" using assms by (simp add: is_partition_def)
  then obtain r where r: "get_reverse_idx ?ix = Inr r" "length r = ?n" "\<forall>i < ?n. r ! (?ix ! i) = i" using reverse_idx by blast
  have len: "length ?ix = ?n" using arg_cong [OF perm, of size] by simp
  have set: "set ?ix = {0..<?n}" using perm by (metis mset_eq_setD set_upt)
  have data: "concat (map (map (\<lambda>i. f (rows ! i))) idx) = map (\<lambda>i. f (rows ! i)) ?ix" by (simp add: map_concat)
  have "map ((!) (map (\<lambda>i. f (rows ! i)) ?ix)) r = map f rows"
  proof (rule nth_equalityI)
    fix j assume "j < length (map ((!) (map (\<lambda>i. f (rows ! i)) ?ix)) r)"
    then have j: "j < ?n" using r(2) by simp
    then have "j \<in> set ?ix" using set by simp
    then obtain i where i: "i < ?n" "?ix ! i = j" using len by (metis in_set_conv_nth)
    then have "r ! j = i" using r(3) by auto
    then show "map ((!) (map (\<lambda>i. f (rows ! i)) ?ix)) r ! j = map f rows ! j" using i j r(2) len by simp
  qed (use r(2) in simp)
  then show ?thesis unfolding data using r(1) len by (simp add: restore_dynamic_batch_def Let_def)
qed

theorem restore_dynamic_batch_roundtrip_witness:
  "restore_dynamic_batch (concat (map (map (\<lambda>i. Suc ([10, 20, 30] ! i))) [[2, 0], [1]])) [[2, 0], [1]] = Inr [11, 21, 31]"
proof -
  have "is_partition (length [10, 20, 30 :: nat]) 2 [[2, 0], [1]]" by (simp add: is_partition_def numeral_3_eq_3 add_mset_commute)
  from restore_dynamic_batch_roundtrip [OF this, of Suc] show ?thesis by simp
qed

section \<open>Micro-batches partition the batch\<close>

lemma stride2_Cons: "stride2 (x # xs) = x # stride2 (drop 1 xs)"
  by (cases xs) simp_all

lemma mset_stride2: "mset (stride2 xs) + mset (stride2 (drop 1 xs)) = mset xs"
proof (induction xs)
  case (Cons x xs)
  then show ?case by (simp add: stride2_Cons add.commute del: stride2.simps)
qed simp

lemma mset_place_small: "mset (place_small_at_ends g w idx) = mset idx"
  using mset_stride2 [of "sorted_desc (\<lambda>p q. micro_key g w p < micro_key g w q) idx"]
  by (simp add: place_small_at_ends_def Let_def add.commute)

lemma mset_concat_perm_list: "mset xss = mset yss \<Longrightarrow> mset (concat xss) = mset (concat yss)"
  using mset_concat_perm [of xss yss id] by simp

lemma is_partition_perm: "mset idx = mset idx' \<Longrightarrow> is_partition n k idx' \<Longrightarrow> is_partition n k idx"
  unfolding is_partition_def by (metis mset_concat_perm_list size_mset)

lemma group_members_concat: "concat (map (group_members g) parts) = group_members g (concat parts)"
  by (induction parts) (simp_all add: group_members_def)

lemma group_members_upt: "group_members g [0..<m] = [0..<m * g]"
proof (induction m)
  case (Suc m)
  have "group_members g [0..<Suc m] = group_members g [0..<m] @ [m * g..<m * g + g]" by (simp add: group_members_def)
  then show ?case using Suc upt_add_eq_append [of 0 "m * g" g] by (simp add: add.commute)
qed (simp add: group_members_def)

lemma is_partition_groups:
  assumes "is_partition m k parts"
  shows "is_partition (m * g) k (map (group_members g) parts)"
proof -
  have "mset (group_members g (concat parts)) = mset (group_members g [0..<m])"
    unfolding group_members_def by (rule mset_concat_perm) (use assms in \<open>simp add: is_partition_def\<close>)
  then show ?thesis using assms by (simp add: is_partition_def group_members_concat group_members_upt)
qed

lemma workload_nonneg: "0 \<le> s \<Longrightarrow> 0 \<le> calculate_workload s"
  by (simp add: calculate_workload_def)

lemma length_chunks [simp]: "length (chunks m k xs) = m"
  by (induction m arbitrary: xs) simp_all

lemma set_chunks: "c \<in> set (chunks m k xs) \<Longrightarrow> set c \<subseteq> set xs"
  by (induction m arbitrary: xs) (auto dest: in_set_takeD in_set_dropD)

text \<open>The conditions under which a caller may expect micro-batches.\<close>

definition rearrange_ok :: "rearrange_args \<Rightarrow> int option \<Rightarrow> int list \<Rightarrow> bool" where
  "rearrange_ok a width lens \<longleftrightarrow> lens \<noteq> [] \<and> list_all (\<lambda>x. 0 \<le> x) lens \<and> 0 < ra_force_group_size a
     \<and> ra_force_group_size a dvd length lens
     \<and> (case width of None \<Rightarrow> Max (set lens) \<le> ra_max_token_len a | Some w \<Rightarrow> w \<le> ra_max_token_len a)"

lemma rearrange_returns:
  assumes "rearrange_ok a width lens" "num_micro_batches a lens = Inr n" "1 \<le> n"
  shows "\<exists>idx. rearrange_micro_batches a width lens rows = Inr (map (map ((!) rows)) idx, idx)
    \<and> is_partition (length lens) (nat n) idx \<and> [] \<notin> set idx
    \<and> (\<forall>p \<in> set idx. \<exists>gs. p = group_members (ra_force_group_size a) gs)"
proof -
  let ?g = "ra_force_group_size a" and ?m = "length lens div ra_force_group_size a"
  let ?per = "map calculate_workload lens"
  let ?w = "if ?g > 1 then map sum_list (chunks ?m ?g ?per) else ?per"
  have ok: "lens \<noteq> []" "\<forall>x \<in> set lens. 0 \<le> x" "0 < ?g" "?g dvd length lens" using assms(1) by (auto simp: rearrange_ok_def list_all_iff)
  have len: "length ?w = ?m"
  proof (cases "?g > 1")
    case False
    then have "?g = 1" using ok(3) by linarith
    then show ?thesis by simp
  qed simp
  have nn: "list_all (\<lambda>x. 0 \<le> x) ?w"
  proof -
    have per: "\<forall>x \<in> set ?per. 0 \<le> x" using ok(2) workload_nonneg by auto
    have "0 \<le> sum_list c" if "c \<in> set (chunks ?m ?g ?per)" for c
      using set_chunks [OF that] per by (intro sum_list_nonneg) blast
    then show ?thesis using per by (auto simp: list_all_iff)
  qed
  have "n \<le> int ?m" using assms(2) by (auto simp: num_micro_batches_def Let_def split: if_splits)
  then have n: "0 < nat n" "nat n \<le> length ?w" using assms(3) len by linarith+
  define w where "w = ?w"
  obtain parts where parts: "get_seqlen_balanced_partitions w (nat n) False = Inr parts" "balanced w (nat n) False parts"
    using balanced_partitions [OF n nn, of False, folded w_def, OF impI] by auto
  define idx1 where "idx1 = (if ?g > 1 then map (group_members ?g) parts else parts)"
  define idx where "idx = (if ra_use_dynamic_bsz_balance a then place_small_at_ends ?g w idx1 else idx1)"
  have g1: "group_members 1 p = p" for p by (induction p) (simp_all add: group_members_def)
  have idx1: "idx1 = map (group_members ?g) parts"
  proof (cases "?g > 1")
    case False
    then have "?g = 1" using ok(3) by linarith
    then show ?thesis using g1 by (simp add: idx1_def map_idI)
  qed (simp add: idx1_def)
  have mset: "mset idx = mset idx1" by (simp add: idx_def mset_place_small)
  have "is_partition ?m (nat n) parts" using parts(2) len unfolding balanced_def w_def by simp
  then have "is_partition (?m * ?g) (nat n) idx1" unfolding idx1 by (rule is_partition_groups)
  then have part: "is_partition (length lens) (nat n) idx" using is_partition_perm [OF mset] ok(4) by simp
  have "p \<noteq> []" if "p \<in> set parts" for p using parts(2) that by (simp add: balanced_def list_all_iff)
  then have "[] \<notin> set idx1" unfolding idx1 using ok(3) by (auto simp: group_members_def)
  then have ne: "[] \<notin> set idx" using mset_eq_setD [OF mset] by simp
  have grp: "\<forall>p \<in> set idx. \<exists>gs. p = group_members ?g gs"
    unfolding mset_eq_setD [OF mset] idx1 by auto
  have max: "bind_r (case width of Some w \<Rightarrow> Inr w | None \<Rightarrow>
        (if lens = [] then Inl (ValueError ''max() of an empty sequence'') else Inr (Max (set lens)))) f
      = f (case width of Some w \<Rightarrow> w | None \<Rightarrow> Max (set lens))" for f :: "int \<Rightarrow> ('a list list \<times> nat list list) result"
    using ok(1) by (cases width) simp_all
  have "(case width of Some w \<Rightarrow> w | None \<Rightarrow> Max (set lens)) \<le> ra_max_token_len a"
    using assms(1) by (cases width) (simp_all add: rearrange_ok_def)
  then have "rearrange_micro_batches a width lens rows = Inr (map (map ((!) rows)) idx, idx)"
    unfolding rearrange_micro_batches_def max Let_def w_def [symmetric] assms(2) bind_r_Inr parts(1) idx1_def [symmetric] idx_def [symmetric]
    using ok(3,4) by (simp add: dvd_eq_mod_eq_0)
  with part ne grp show ?thesis by blast
qed

text \<open>
  [C24] \<open>rearrange_micro_batches\<close>: whenever the number of micro-batches can be computed and is at least one, it
  returns that many non-empty micro-batches; every sample is in exactly one of them, the samples of one
  forced group stay together, and the returned index lists are the ones the rows were selected with.
\<close>

theorem rearrange_micro_batches_partition:
  assumes "rearrange_ok a width lens" "num_micro_batches a lens = Inr n" "1 \<le> n"
  shows "\<exists>idx. rearrange_micro_batches a width lens rows = Inr (map (map ((!) rows)) idx, idx)
    \<and> is_partition (length lens) (nat n) idx \<and> [] \<notin> set idx
    \<and> (\<forall>p \<in> set idx. \<exists>gs. p = group_members (ra_force_group_size a) gs)"
  by (rule rearrange_returns [OF assms])

lemma ceildiv_bounds:
  assumes "0 < b" "ceildiv a b = Inr c"
  shows "a \<le> c * b" "c * b < a + b"
proof -
  have c: "c = - (a div (- b))" using assms by (simp add: ceildiv_def)
  have "a div (- b) * (- b) + a mod (- b) = a" by (rule div_mult_mod_eq)
  moreover have "- b < a mod (- b)" "a mod (- b) \<le> 0" using assms(1) neg_mod_bound [of "- b" a] neg_mod_sign [of "- b" a] by auto
  ultimately show "a \<le> c * b" "c * b < a + b" by (simp_all add: c)
qed

lemma roundup_bounds:
  assumes "0 < b" "roundup_divisible a b = Inr c"
  shows "b dvd c" "a \<le> c" "c < a + b"
proof -
  have c: "c = (a + b - 1) div b * b" using assms by (simp add: roundup_divisible_def)
  have "(a + b - 1) div b * b + (a + b - 1) mod b = a + b - 1" by (rule div_mult_mod_eq)
  moreover have "0 \<le> (a + b - 1) mod b" "(a + b - 1) mod b < b" using assms(1) by simp_all
  ultimately show "b dvd c" "a \<le> c" "c < a + b" unfolding c by (simp, linarith+)
qed

text \<open>
  The number of micro-batches: never more than there are groups, and enough for the token budget on
  average, unless every group already has a micro-batch of its own; when virtual pipeline stages ask for
  it, the number is a multiple of their count. The only requirement on the data-parallel maximum is that it
  is not below the local value.
\<close>

theorem num_micro_batches_bounds:
  assumes "num_micro_batches a lens = Inr n" "0 < ra_max_token_len a"
    and "\<forall>reduce x. ra_dp_reduce a = Some reduce \<longrightarrow> x \<le> reduce x"
    and "\<forall>d. ra_num_batches_divided_by a = Some d \<longrightarrow> 0 < d"
  shows "n \<le> int (length lens div ra_force_group_size a)
    \<and> (sum_list lens \<le> n * ra_max_token_len a \<or> n = int (length lens div ra_force_group_size a))
    \<and> (\<forall>d. ra_num_batches_divided_by a = Some d \<longrightarrow> d dvd n)
    \<and> (\<forall>m. ra_min_num_micro_batch a = Some m \<longrightarrow> m \<le> n)"
proof -
  let ?G = "int (length lens div ra_force_group_size a)" and ?M = "ra_max_token_len a"
  obtain c where c: "ceildiv (sum_list lens) ?M = Inr c" using assms(2) by (simp add: ceildiv_def)
  define n1 where "n1 = min ?G c"
  define n2 where "n2 = (case ra_min_num_micro_batch a of None \<Rightarrow> n1 | Some m \<Rightarrow> max m n1)"
  define n3 where "n3 = (case ra_dp_reduce a of None \<Rightarrow> n2 | Some reduce \<Rightarrow> reduce n2)"
  have r: "bind_r (case ra_num_batches_divided_by a of None \<Rightarrow> Inr n3 | Some d \<Rightarrow> roundup_divisible n3 d)
      (\<lambda>n4. if n4 \<le> ?G then Inr n4 else Inl (AssertionError ''num_micro_batches <= num_groups'')) = Inr n"
    using assms(1) unfolding num_micro_batches_def c bind_r_Inr Let_def n1_def [symmetric] n2_def [symmetric] n3_def [symmetric] .
  then have n: "n \<le> ?G" "(case ra_num_batches_divided_by a of None \<Rightarrow> Inr n3 | Some d \<Rightarrow> roundup_divisible n3 d) = Inr n"
    by (auto split: if_splits)
  have "n3 \<le> n" using n(2) assms(4) roundup_bounds(2) by (cases "ra_num_batches_divided_by a") auto
  moreover have "n2 \<le> n3" using assms(3) by (cases "ra_dp_reduce a") (auto simp: n3_def)
  moreover have "n1 \<le> n2" by (cases "ra_min_num_micro_batch a") (auto simp: n2_def)
  ultimately have le: "n1 \<le> n" "n2 \<le> n" by linarith+
  have "sum_list lens \<le> n * ?M \<or> n = ?G"
  proof (cases "?G \<le> c")
    case True
    then show ?thesis using le n(1) by (simp add: n1_def)
  next
    case False
    then have "c * ?M \<le> n * ?M" using le assms(2) by (simp add: n1_def)
    then show ?thesis using ceildiv_bounds(1) [OF assms(2) c] by simp
  qed
  moreover have "d dvd n" if "ra_num_batches_divided_by a = Some d" for d
    using n(2) that assms(4) roundup_bounds(1) by auto
  moreover have "m \<le> n" if "ra_min_num_micro_batch a = Some m" for m
    using le(2) that by (simp add: n2_def)
  ultimately show ?thesis using n(1) by blast
qed

definition ex_rearrange :: rearrange_args where
  "ex_rearrange = \<lparr>ra_max_token_len = 5, ra_dp_reduce = None, ra_num_batches_divided_by = None,
     ra_min_num_micro_batch = None, ra_use_dynamic_bsz_balance = True, ra_force_group_size = 1\<rparr>"

lemma ex_num: "num_micro_batches ex_rearrange [3, 3, 3] = Inr 2"
  by (simp add: num_micro_batches_def ex_rearrange_def ceildiv_def)

theorem rearrange_micro_batches_partition_witness:
  "\<exists>idx. rearrange_micro_batches ex_rearrange None [3, 3, 3] [7, 8, 9 :: nat] = Inr (map (map ((!) [7, 8, 9])) idx, idx)
     \<and> is_partition 3 2 idx"
proof -
  have "rearrange_ok ex_rearrange None [3, 3, 3]" by (simp add: rearrange_ok_def ex_rearrange_def)
  from rearrange_micro_batches_partition [OF this ex_num, of "[7, 8, 9]"] show ?thesis by (auto simp: numeral_3_eq_3)
qed

theorem num_micro_batches_bounds_witness:
  "(2::int) \<le> 3 \<and> (sum_list [3, 3, 3] \<le> 2 * ra_max_token_len ex_rearrange \<or> (2::int) = 3)"
  using num_micro_batches_bounds [OF ex_num] by (simp add: ex_rearrange_def)

text \<open>
  The documented token bound is not kept: three samples of 3 tokens with \<open>max_token_len = 5\<close> give two
  micro-batches, one of which has 6 tokens, although every sample fits and three micro-batches would do.
\<close>

theorem micro_batch_exceeds_max_token_len:
  "\<exists>idx. rearrange_micro_batches ex_rearrange None [3, 3, 3] [(), (), ()] = Inr (map (map (\<lambda>_. ())) idx, idx)
     \<and> list_ex (\<lambda>p. part_sum [3, 3, 3] p > ra_max_token_len ex_rearrange) idx"
proof -
  have "case rearrange_micro_batches ex_rearrange None [3, 3, 3] [(), (), ()] of
     Inl _ \<Rightarrow> False | Inr (b, idx) \<Rightarrow> b = map (map (\<lambda>_. ())) idx \<and> list_ex (\<lambda>p. part_sum [3, 3, 3] p > ra_max_token_len ex_rearrange) idx"
    by code_simp
  then show ?thesis by (auto split: sum.splits)
qed

section \<open>Samples of one prompt stay together\<close>

lemma uid_fold:
  assumes "fold uid_step (enumerate 0 uids) ([], None, []) = (gs, cu, cur)"
  shows "concat gs @ cur = [0..<length uids] \<and> [] \<notin> set gs
    \<and> (uids \<noteq> [] \<longrightarrow> cu = Some (last uids) \<and> length uids - 1 \<in> set cur)
    \<and> (\<forall>i. Suc i < length uids \<longrightarrow> uids ! i = uids ! Suc i \<longrightarrow> (\<exists>g \<in> set (gs @ [cur]). i \<in> set g \<and> Suc i \<in> set g))"
  using assms
proof (induction uids arbitrary: gs cu cur rule: rev_induct)
  case (snoc u us)
  obtain gs0 cu0 cur0 where f0: "fold uid_step (enumerate 0 us) ([], None, []) = (gs0, cu0, cur0)"
    by (cases "fold uid_step (enumerate 0 us) ([], None, [])")
  note IH = snoc.IH [OF f0]
  have step: "uid_step (length us, u) (gs0, cu0, cur0) = (gs, cu, cur)"
    using snoc.prems f0 by (simp add: enumerate_append_eq)
  show ?case
  proof (cases "Some u = cu0")
    case True
    with step have st: "gs = gs0" "cu = Some u" "cur = cur0 @ [length us]" by (auto simp: uid_step_def)
    have "us \<noteq> []" using f0 True by auto
    then have "us ! (length us - 1) = u" using IH True by (simp add: last_conv_nth)
    have "\<exists>g \<in> set (gs @ [cur]). i \<in> set g \<and> Suc i \<in> set g" if "Suc i < length (us @ [u])" "(us @ [u]) ! i = (us @ [u]) ! Suc i" for i
    proof (cases "Suc i < length us")
      case True
      then have "\<exists>g \<in> set (gs0 @ [cur0]). i \<in> set g \<and> Suc i \<in> set g" using IH that by (simp add: nth_append)
      then show ?thesis using st by auto
    next
      case False
      then have "Suc i = length us" using that by simp
      moreover from this have "i = length us - 1" by simp
      ultimately show ?thesis using IH \<open>us \<noteq> []\<close> st by auto
    qed
    then show ?thesis using IH st by simp
  next
    case False
    with step have st: "gs = (if cur0 \<noteq> [] then gs0 @ [cur0] else gs0)" "cu = Some u" "cur = [length us]"
      by (auto simp: uid_step_def split: if_splits)
    have "\<exists>g \<in> set (gs @ [cur]). i \<in> set g \<and> Suc i \<in> set g" if "Suc i < length (us @ [u])" "(us @ [u]) ! i = (us @ [u]) ! Suc i" for i
    proof (cases "Suc i < length us")
      case True
      then have "\<exists>g \<in> set (gs0 @ [cur0]). i \<in> set g \<and> Suc i \<in> set g" using IH that by (simp add: nth_append)
      then show ?thesis using st by auto
    next
      case F: False
      then have "Suc i = length us" using that by simp
      moreover from this have "us \<noteq> []" "i = length us - 1" by auto
      ultimately have "u = last us" "us \<noteq> []" using that(2) by (simp_all add: nth_append last_conv_nth)
      then show ?thesis using IH False by simp
    qed
    then show ?thesis using IH st by (auto split: if_splits)
  qed
qed simp

lemma uid_groups_spec:
  "concat (uid_groups uids) = [0..<length uids]" "[] \<notin> set (uid_groups uids)"
  "\<forall>i. Suc i < length uids \<longrightarrow> uids ! i = uids ! Suc i \<longrightarrow> (\<exists>g \<in> set (uid_groups uids). i \<in> set g \<and> Suc i \<in> set g)"
proof -
  obtain gs cu cur where f: "fold uid_step (enumerate 0 uids) ([], None, []) = (gs, cu, cur)"
    by (cases "fold uid_step (enumerate 0 uids) ([], None, [])")
  have g: "uid_groups uids = (if cur \<noteq> [] then gs @ [cur] else gs)" by (simp add: uid_groups_def f)
  from uid_fold [OF f] show "concat (uid_groups uids) = [0..<length uids]" "[] \<notin> set (uid_groups uids)"
    "\<forall>i. Suc i < length uids \<longrightarrow> uids ! i = uids ! Suc i \<longrightarrow> (\<exists>g \<in> set (uid_groups uids). i \<in> set g \<and> Suc i \<in> set g)"
    unfolding g by auto
qed

lemma select_groups:
  assumes "mset (concat parts) = mset [0..<length groups]"
  shows "mset (concat (map (\<lambda>p. sort (concat (map ((!) groups) p))) parts)) = mset (concat groups)"
proof -
  have "mset (concat (map (\<lambda>p. sort (concat (map ((!) groups) p))) parts)) = mset (concat (map ((!) groups) (concat parts)))"
    by (induction parts) auto
  also have "\<dots> = mset (concat (map ((!) groups) [0..<length groups]))" by (rule mset_concat_perm [OF assms])
  finally show ?thesis by (simp add: map_nth)
qed

text \<open>
  \<open>get_group_balanced_partitions\<close>: when the samples form at least \<open>k\<close> runs of equal uids and their number
  is a multiple of \<open>k\<close>, it returns \<open>k\<close> increasing index lists that contain every sample exactly once, and
  the samples of one run, which are the responses to one prompt, are never separated.
\<close>

theorem group_balanced_partitions_correct:
  assumes "length lens = length uids" "list_all (\<lambda>x. 0 \<le> x) lens" "0 < k"
    and "k \<le> length (uid_groups uids)" "k dvd length (uid_groups uids)"
  shows "\<exists>parts. get_group_balanced_partitions lens uids k = Inr parts \<and> is_partition (length uids) k parts
    \<and> list_all sorted parts
    \<and> (\<forall>i. Suc i < length uids \<longrightarrow> uids ! i = uids ! Suc i \<longrightarrow> (\<exists>p \<in> set parts. i \<in> set p \<and> Suc i \<in> set p))"
proof -
  let ?G = "uid_groups uids"
  define w where "w = map (\<lambda>g. sum_list (map (\<lambda>i. calculate_workload (lens ! i)) g)) ?G"
  have lenw: "length w = length ?G" by (simp add: w_def)
  have mem: "i < length lens" if "g \<in> set ?G" "i \<in> set g" for g i
  proof -
    have "i \<in> set (concat ?G)" using that by auto
    then show ?thesis unfolding uid_groups_spec(1) assms(1) by simp
  qed
  have "0 \<le> sum_list (map (\<lambda>i. calculate_workload (lens ! i)) g)" if "g \<in> set ?G" for g
    using mem [OF that] assms(2) by (intro sum_list_nonneg) (auto simp: list_all_length intro!: workload_nonneg)
  then have nn: "list_all (\<lambda>x. 0 \<le> x) w" by (auto simp: w_def list_all_iff)
  have "k \<le> length w" "True \<longrightarrow> k dvd length w" using assms(4,5) lenw by simp_all
  then obtain parts where parts: "get_seqlen_balanced_partitions w k True = Inr parts" "balanced w k True parts"
    using balanced_partitions [OF assms(3) _ nn, of True] by auto
  define out where "out = map (\<lambda>p. sort (concat (map ((!) ?G) p))) parts"
  have res: "get_group_balanced_partitions lens uids k = Inr out"
    unfolding get_group_balanced_partitions_def Let_def w_def [symmetric] parts(1) out_def using assms(1,4) by simp
  have perm: "mset (concat parts) = mset [0..<length ?G]" "length parts = k"
    using parts(2) lenw by (simp_all add: balanced_def is_partition_def)
  have part: "is_partition (length uids) k out"
    using select_groups [OF perm(1)] perm(2) uid_groups_spec(1) [of uids] by (simp add: is_partition_def out_def)
  have "\<exists>p \<in> set out. i \<in> set p \<and> Suc i \<in> set p" if i: "Suc i < length uids" "uids ! i = uids ! Suc i" for i
  proof -
    obtain g where g: "g \<in> set ?G" "i \<in> set g" "Suc i \<in> set g" using uid_groups_spec(3) [rule_format, OF i] by blast
    then obtain j where j: "j < length ?G" "?G ! j = g" by (metis in_set_conv_nth)
    have "j \<in> set (concat parts)" using j(1) perm(1) by (metis mset_eq_setD set_upt atLeastLessThan_iff le0)
    then obtain p where p: "p \<in> set parts" "j \<in> set p" by auto
    then have "set g \<subseteq> set (sort (concat (map ((!) ?G) p)))" using j(2) by auto
    then have "i \<in> set (sort (concat (map ((!) ?G) p)))" "Suc i \<in> set (sort (concat (map ((!) ?G) p)))" using g(2,3) by blast+
    moreover have "sort (concat (map ((!) ?G) p)) \<in> set out" using p(1) unfolding out_def set_map by (rule imageI)
    ultimately show ?thesis by blast
  qed
  moreover have "list_all sorted out" by (auto simp: out_def list_all_iff)
  ultimately show ?thesis using res part by blast
qed

theorem group_balanced_partitions_correct_witness:
  "\<exists>parts. get_group_balanced_partitions [3, 4, 2, 6] [1, 1, 2, 2 :: nat] 2 = Inr parts \<and> is_partition 4 2 parts"
proof -
  have g: "uid_groups [1, 1, 2, 2 :: nat] = [[0, 1], [2, 3]]" by code_simp
  have "\<exists>parts. get_group_balanced_partitions [3, 4, 2, 6] [1, 1, 2, 2 :: nat] 2 = Inr parts
      \<and> is_partition (length [1, 1, 2, 2 :: nat]) 2 parts \<and> list_all sorted parts
      \<and> (\<forall>i. Suc i < length [1, 1, 2, 2 :: nat] \<longrightarrow> [1, 1, 2, 2 :: nat] ! i = [1, 1, 2, 2] ! Suc i \<longrightarrow>
           (\<exists>p \<in> set parts. i \<in> set p \<and> Suc i \<in> set p))"
    by (rule group_balanced_partitions_correct) (simp_all add: g [simplified])
  then show ?thesis by (auto simp: eval_nat_numeral)
qed

end
