(* ===== verification/Tensor_Ops.thy ===== *)
theory Tensor_Ops
  imports Complex_Main Prelude
begin

text \<open>
  The masked reductions of \<open>verl/utils/torch_functional.py\<close> and the grouped statistics of
  \<open>verl/utils/groupwise.py\<close>. A tensor of shape (batch, length) is the list of its rows; numbers are
  reals, so the rounding of floating point and its special values are not part of the model. A mask is a
  tensor of zeros and ones.
\<close>

type_synonym tensor = "real list list"

section \<open>Masked reductions\<close>

definition tsum :: "tensor \<Rightarrow> real" where
  "tsum m = sum_list (map sum_list m)"

abbreviation tmap2 :: "('a \<Rightarrow> 'b \<Rightarrow> 'c) \<Rightarrow> 'a list list \<Rightarrow> 'b list list \<Rightarrow> 'c list list" where
  "tmap2 f \<equiv> map2 (map2 f)"

definition masked_sum :: "tensor \<Rightarrow> tensor \<Rightarrow> real" where
  "masked_sum values msk = tsum (tmap2 (\<lambda>v m. (if m \<noteq> 0 then v else 0) * m) values msk)"

definition masked_mean :: "tensor \<Rightarrow> tensor \<Rightarrow> real" where
  "masked_mean values msk = masked_sum values msk / (tsum msk + 1 / 10 ^ 8)"

definition masked_var :: "tensor \<Rightarrow> tensor \<Rightarrow> bool \<Rightarrow> real result" where
  "masked_var values msk unbiased =
     (let mean = masked_mean values msk;
          variance = masked_mean (map (map (\<lambda>v. (v - mean) ^ 2)) values) msk;
          mask_sum = tsum msk
      in if unbiased then
           (if mask_sum = 0 then Inl (ValueError ''At least one element in the mask has to be 1.'')
            else if mask_sum = 1 then Inl (ValueError ''The sum of the mask is one, which can cause a division by zero.'')
            else Inr (variance * (mask_sum / (mask_sum - 1))))
         else Inr variance)"

definition masked_whiten :: "tensor \<Rightarrow> tensor \<Rightarrow> bool \<Rightarrow> tensor result" where
  "masked_whiten values msk shift_mean =
     bind_r (masked_var values msk True) (\<lambda>var.
       let mean = masked_mean values msk;
           whitened = map (map (\<lambda>v. (v - mean) * (1 / sqrt (var + 1 / 10 ^ 8)))) values
       in Inr (if shift_mean then whitened else map (map (\<lambda>w. w + mean)) whitened))"

definition clip_by_value :: "real \<Rightarrow> real \<Rightarrow> real \<Rightarrow> real" where
  "clip_by_value x lo hi = max (min x hi) lo"

text \<open>\<open>get_response_mask\<close>: everything up to and including the first end-of-sequence token.\<close>

fun cumsum :: "('a::monoid_add) \<Rightarrow> 'a list \<Rightarrow> 'a list" where
  "cumsum acc [] = []"
| "cumsum acc (x # xs) = (acc + x) # cumsum (acc + x) xs"

definition get_response_mask :: "int list \<Rightarrow> int list \<Rightarrow> int list" where
  "get_response_mask eos_token response_id =
     (let eos_mask = map (\<lambda>t. if t \<in> set eos_token then (1::int) else 0) response_id
      in map2 (\<lambda>c e. if c - e = 0 then 1 else 0) (cumsum 0 eos_mask) eos_mask)"

text \<open>The values at valid positions.\<close>

definition valid1 :: "real list \<Rightarrow> real list \<Rightarrow> real list" where
  "valid1 values msk = map fst (filter (\<lambda>(v, m). m \<noteq> 0) (zip values msk))"

section \<open>Statistics\<close>

definition mean_of :: "real list \<Rightarrow> real" where
  "mean_of xs = sum_list xs / real (length xs)"

text \<open>\<open>torch.std\<close> with Bessel's correction.\<close>

definition std_of :: "real list \<Rightarrow> real" where
  "std_of xs = sqrt (sum_list (map (\<lambda>x. (x - mean_of xs) ^ 2) xs) / real (length xs - 1))"

text \<open>\<open>index_add_\<close> on zeros: the values are added up at their indices.\<close>

definition index_add :: "nat \<Rightarrow> nat list \<Rightarrow> real list \<Rightarrow> real list" where
  "index_add G gidx vals = fold (\<lambda>(g, v) acc. acc[g := acc ! g + v]) (zip gidx vals) (replicate G 0)"

definition group_mean_std :: "real list \<Rightarrow> nat list \<Rightarrow> real \<Rightarrow> (real list \<times> real list \<times> real list) result" where
  "group_mean_std scores gidx eps =
     (if length scores \<noteq> length gidx then Inl (ValueError ''scores and gidx length mismatch'')
      else
        (let G = (if gidx = [] then 0 else Max (set gidx) + 1) in
         if G = 0 then Inr ([], [], [])
         else
           (let count = index_add G gidx (map (\<lambda>_. 1) scores);
                s1 = index_add G gidx scores;
                mean = map2 (\<lambda>s c. s / max c 1) s1 count;
                centered = map2 (\<lambda>s g. s - mean ! g) scores gidx;
                var_num = index_add G gidx (map (\<lambda>c. c * c) centered);
                var = map2 (\<lambda>v c. v / max (c - 1) 1) var_num count;
                std = map (\<lambda>v. sqrt (max v eps)) var
            in Inr (map2 (\<lambda>m c. if c \<le> 1 then 0 else m) mean count,
                    map2 (\<lambda>s c. if c \<le> 1 then 1 else s) std count, count))))"

section \<open>Facts about the reductions\<close>

lemma nth_cumsum: "i < length xs \<Longrightarrow> cumsum acc xs ! i = acc + sum_list (take (Suc i) xs)"
proof (induction xs arbitrary: acc i)
  case (Cons x xs)
  then show ?case by (cases i) (simp_all add: add.assoc)
qed simp

lemma length_cumsum [simp]: "length (cumsum acc xs) = length xs"
  by (induction xs arbitrary: acc) simp_all

text \<open>
  \<open>get_response_mask\<close> keeps the shape and marks exactly the tokens that have no end-of-sequence token
  before them: the response together with its first end-of-sequence token.
\<close>

theorem response_mask_until_eos:
  "length (get_response_mask eos ids) = length ids
   \<and> (\<forall>i < length ids. get_response_mask eos ids ! i = (if \<forall>j < i. ids ! j \<notin> set eos then 1 else 0))"
proof -
  let ?e = "map (\<lambda>t. if t \<in> set eos then (1::int) else 0) ids"
  have "get_response_mask eos ids ! i = (if \<forall>j < i. ids ! j \<notin> set eos then 1 else 0)" if "i < length ids" for i
  proof -
    have "cumsum 0 ?e ! i - ?e ! i = sum_list (take i ?e)"
      using that by (simp add: nth_cumsum take_Suc_conv_app_nth)
    moreover have "sum_list (take i ?e) = 0 \<longleftrightarrow> (\<forall>x \<in> set (take i ?e). x = 0)"
      by (rule sum_list_nonneg_eq_0_iff) (auto dest!: in_set_takeD)
    moreover have "(\<forall>x \<in> set (take i ?e). x = 0) \<longleftrightarrow> (\<forall>j < i. ids ! j \<notin> set eos)"
    proof -
      have "(\<forall>x \<in> set (take i ?e). x = 0) \<longleftrightarrow> (\<forall>j < length (take i ?e). take i ?e ! j = 0)" by (metis in_set_conv_nth)
      then show ?thesis using that by auto
    qed
    moreover have "get_response_mask eos ids ! i = (if cumsum 0 ?e ! i - ?e ! i = 0 then 1 else 0)"
      using that unfolding get_response_mask_def Let_def by (subst nth_map) (simp_all del: nth_map)
    ultimately show ?thesis by (simp only:)
  qed
  then show ?thesis by (simp add: get_response_mask_def Let_def)
qed

text \<open>Whitening with a mask of zeros and ones is one increasing affine map on all entries.\<close>

definition mask01 :: "tensor \<Rightarrow> bool" where
  "mask01 m \<longleftrightarrow> list_all (list_all (\<lambda>x. x = 0 \<or> x = 1)) m"

lemma tsum_mask01: "mask01 m \<Longrightarrow> \<exists>n. tsum m = real n"
proof -
  assume "mask01 m"
  have row: "\<exists>n. sum_list r = real n" if "list_all (\<lambda>x. x = 0 \<or> x = 1) r" for r
    using that
  proof (induction r)
    case (Cons x r)
    then obtain n where "sum_list r = real n" by auto
    with Cons.prems show ?case by (auto intro: exI [of _ n] exI [of _ "Suc n"])
  qed (auto intro: exI [of _ 0])
  show ?thesis using \<open>mask01 m\<close>
  proof (induction m)
    case (Cons r m)
    then obtain a where "tsum m = real a" by (auto simp: mask01_def)
    moreover obtain b where "sum_list r = real b" using row [of r] Cons.prems by (auto simp: mask01_def)
    ultimately show ?case by (intro exI [of _ "b + a"]) (simp add: tsum_def)
  qed (auto simp: tsum_def intro: exI [of _ 0])
qed

lemma masked_sum_nonneg:
  assumes "mask01 msk" "\<forall>row \<in> set values. \<forall>v \<in> set row. 0 \<le> v"
  shows "0 \<le> masked_sum values msk"
proof -
  have "0 \<le> x" if row: "row \<in> set (tmap2 (\<lambda>v m. (if m \<noteq> 0 then v else 0) * m) values msk)" and x: "x \<in> set row" for row x
  proof -
    obtain r1 r2 where r: "(r1, r2) \<in> set (zip values msk)" "row = map2 (\<lambda>v m. (if m \<noteq> 0 then v else 0) * m) r1 r2"
      using row by auto
    obtain v m where vm: "(v, m) \<in> set (zip r1 r2)" "x = (if m \<noteq> 0 then v else 0) * m" using x r(2) by auto
    have mem: "r1 \<in> set values" "r2 \<in> set msk" "v \<in> set r1" "m \<in> set r2"
      using r(1) vm(1) by (auto dest: set_zip_leftD set_zip_rightD)
    then have "0 \<le> v" "m = 0 \<or> m = 1" using assms by (auto simp: mask01_def list_all_iff)
    then show ?thesis using vm(2) by auto
  qed
  then show ?thesis unfolding masked_sum_def tsum_def by (intro sum_list_nonneg) (auto intro!: sum_list_nonneg)
qed

lemma masked_var_nonneg:
  assumes "mask01 msk" "masked_var values msk unbiased = Inr var"
  shows "0 \<le> var"
proof -
  obtain n where n: "tsum msk = real n" using tsum_mask01 [OF assms(1)] by blast
  let ?v = "masked_mean (map (map (\<lambda>v. (v - masked_mean values msk) ^ 2)) values) msk"
  have nn: "0 \<le> ?v"
    unfolding masked_mean_def [of "map _ values"] by (intro divide_nonneg_nonneg masked_sum_nonneg assms(1)) (auto simp: n)
  show ?thesis
  proof (cases unbiased)
    case True
    then have "var = ?v * (real n / (real n - 1))" "real n \<noteq> 0" "real n \<noteq> 1"
      using assms(2) by (auto simp: masked_var_def Let_def n split: if_splits)
    moreover from this have "0 \<le> real n / (real n - 1)" by (cases n) auto
    ultimately show ?thesis using nn by simp
  qed (use assms(2) nn in \<open>simp add: masked_var_def Let_def\<close>)
qed

lemma masked_whiten_affine:
  assumes "mask01 msk" "masked_whiten values msk shift_mean = Inr w"
  obtains a c where "0 < a" "w = map (map (\<lambda>v. a * v + c)) values"
proof -
  obtain var where var: "masked_var values msk True = Inr var" using assms(2) by (auto simp: masked_whiten_def)
  define r where "r = 1 / sqrt (var + 1 / 10 ^ 8)"
  define mu where "mu = masked_mean values msk"
  have "0 < var + 1 / 10 ^ 8" using masked_var_nonneg [OF assms(1) var] by simp
  then have "0 < r" by (simp add: r_def)
  moreover have "w = map (map (\<lambda>v. r * v + ((if shift_mean then 0 else mu) - mu * r))) values"
    using assms(2) unfolding masked_whiten_def var bind_r_Inr Let_def mu_def [symmetric] r_def [symmetric]
    by (auto simp: algebra_simps)
  ultimately show ?thesis using that by blast
qed

end
