(* ===== verification/Advantages.thy ===== *)
theory Advantages
  imports Tensor_Ops
begin

text \<open>
  The advantage estimators of \<open>verl/trainer/ppo/core_algos.py\<close>. Rewards, values and masks are tensors of
  shape (batch, response length); \<open>index\<close> gives the prompt group of each response. The dictionaries
  \<open>id2score\<close>, \<open>id2len\<close> and \<open>prompt_groups\<close> are maps that the code's loops fill by appending.
\<close>

section \<open>Groups and broadcasting\<close>

text \<open>\<open>for i in range(bsz): d[index[i]].append(vals[i])\<close> on a \<open>defaultdict(list)\<close>.\<close>

definition id2list :: "'i list \<Rightarrow> 'a list \<Rightarrow> ('i \<rightharpoonup> 'a list)" where
  "id2list index vals = fold (\<lambda>(k, xs). extend_key k xs) (map (\<lambda>(k, v). (k, [v])) (zip index vals)) Map.empty"

definition scores_of :: "tensor \<Rightarrow> real list" where
  "scores_of rewards = map sum_list rewards"

text \<open>\<open>scores.unsqueeze(-1) * response_mask\<close>.\<close>

definition broadcast :: "real list \<Rightarrow> tensor \<Rightarrow> tensor" where
  "broadcast scores msk = map2 (\<lambda>s row. map (\<lambda>m. s * m) row) scores msk"

definition check_index :: "'i list \<Rightarrow> tensor \<Rightarrow> unit result" where
  "check_index index rewards = (if length index < length rewards then Inl IndexError else Inr ())"

section \<open>GAE\<close>

text \<open>The loop over \<open>reversed(range(gen_len))\<close> on one row: advantages, \<open>nextvalues\<close> and \<open>lastgaelam\<close>.\<close>

fun gae_row :: "real \<Rightarrow> real \<Rightarrow> (real \<times> real \<times> real) list \<Rightarrow> real list \<times> real \<times> real" where
  "gae_row gamma lam [] = ([], 0, 0)"
| "gae_row gamma lam ((r, v, m) # rest) =
     (case gae_row gamma lam rest of
        (advs, nextvalues, lastgaelam) \<Rightarrow>
          (let delta = r + gamma * nextvalues - v;
               lastgaelam1 = delta + gamma * lam * lastgaelam;
               nextvalues' = v * m + (1 - m) * nextvalues;
               lastgaelam' = lastgaelam1 * m + (1 - m) * lastgaelam
           in (lastgaelam' # advs, nextvalues', lastgaelam')))"

definition compute_gae_advantage_return ::
  "tensor \<Rightarrow> tensor \<Rightarrow> tensor \<Rightarrow> real \<Rightarrow> real \<Rightarrow> (tensor \<times> tensor) result" where
  "compute_gae_advantage_return rewards values msk gamma lam =
     (let advantages = map2 (\<lambda>rs (vs, ms). fst (gae_row gamma lam (zip rs (zip vs ms)))) rewards (zip values msk);
          returns = tmap2 (+) advantages values
      in bind_r (masked_whiten advantages msk True) (\<lambda>w. Inr (w, returns)))"

section \<open>GRPO\<close>

definition grpo_scalars :: "real \<Rightarrow> bool \<Rightarrow> 'i list \<Rightarrow> real list \<Rightarrow> real list" where
  "grpo_scalars epsilon norm_adv index scores =
     (let id2score = id2list index scores;
          id2mean = (\<lambda>ix. let g = key_log id2score ix in if length g = 1 then 0 else mean_of g);
          id2std = (\<lambda>ix. let g = key_log id2score ix in if length g = 1 then 1 else std_of g)
      in map2 (\<lambda>s ix. if norm_adv then (s - id2mean ix) / (id2std ix + epsilon) else s - id2mean ix) scores index)"

definition compute_grpo_outcome_advantage ::
  "tensor \<Rightarrow> tensor \<Rightarrow> 'i list \<Rightarrow> real \<Rightarrow> bool \<Rightarrow> (tensor \<times> tensor) result" where
  "compute_grpo_outcome_advantage rewards msk index epsilon norm_adv =
     bind_r (check_index index rewards) (\<lambda>_.
       let a = broadcast (grpo_scalars epsilon norm_adv index (scores_of rewards)) msk in Inr (a, a))"

text \<open>The vectorised variant; \<open>as_torch_index\<close> gives the group labels as numbers.\<close>

definition compute_grpo_vectorized_outcome_advantage ::
  "('i list \<Rightarrow> nat list) \<Rightarrow> tensor \<Rightarrow> tensor \<Rightarrow> 'i list \<Rightarrow> real \<Rightarrow> bool \<Rightarrow> (tensor \<times> tensor) result" where
  "compute_grpo_vectorized_outcome_advantage as_torch_index rewards msk index epsilon norm_adv =
     (let scores = scores_of rewards; g = as_torch_index index in
      bind_r (group_mean_std scores g 0) (\<lambda>(mean_g, std_g, _).
        let scalars = (if norm_adv then map2 (\<lambda>s i. (s - mean_g ! i) / (std_g ! i + epsilon)) scores g
                       else map2 (\<lambda>s i. s - mean_g ! i) scores g);
            a = broadcast scalars msk
        in Inr (a, a)))"

text \<open>GDPO: one GRPO normalisation per reward component, a weighted sum, and whitening. A component's
  rewards sit at the last valid position of each row (Python's \<open>-1\<close> is the last column).\<close>

definition component_scores :: "int list \<Rightarrow> tensor \<Rightarrow> real list \<Rightarrow> tensor result" where
  "component_scores valid_response_length msk cvals =
     map_r (\<lambda>(row, p, c). let n = int (length row); q = (if p < 0 then p + n else p) in
              if 0 \<le> q \<and> q < n then Inr ((replicate (length row) 0)[nat q := c]) else Inl IndexError)
       (zip msk (zip valid_response_length cvals))"

definition compute_gdpo_outcome_advantage ::
  "tensor \<Rightarrow> tensor \<Rightarrow> 'i list \<Rightarrow> real \<Rightarrow> bool \<Rightarrow> (int list \<times> real list list) option \<Rightarrow> real list option
     \<Rightarrow> (tensor \<times> tensor) result" where
  "compute_gdpo_outcome_advantage rewards msk index epsilon norm_adv components reward_weights =
     bind_r (case components of
               None \<Rightarrow> Inr [rewards]
             | Some (valid_response_length, comps) \<Rightarrow>
                 if comps = [] then Inl (AssertionError ''GDPO requires algorithm.gdpo_reward_keys'')
                 else map_r (component_scores valid_response_length msk) comps)
       (\<lambda>score_list.
         let weights = (case (components, reward_weights) of (Some _, Some w) \<Rightarrow> w | _ \<Rightarrow> replicate (length score_list) 1) in
         if length weights < length score_list then Inl IndexError
         else bind_r (map_r (\<lambda>s. compute_grpo_outcome_advantage s msk index epsilon norm_adv) score_list) (\<lambda>normalized.
           let weighted = map2 (\<lambda>w (a, _). map (map (\<lambda>x. w * x)) a) weights normalized;
               new_advantage = foldl (tmap2 (+)) (hd weighted) (tl weighted)
           in bind_r (masked_whiten new_advantage msk True) (\<lambda>wh.
                let a = tmap2 (*) wh msk in Inr (a, a))))"

section \<open>Pass@k\<close>

text \<open>\<open>torch.topk(rewards, 2)\<close> gives the two largest values; which of several equally large entries comes
  first is the library's choice, so the position of the first is a parameter.\<close>

definition second_max :: "nat \<Rightarrow> real list \<Rightarrow> real" where
  "second_max first_idx xs = Max (set (take first_idx xs @ drop (Suc first_idx) xs))"

definition passk_scalars ::
  "(real list \<Rightarrow> nat) \<Rightarrow> real \<Rightarrow> bool \<Rightarrow> 'i list \<Rightarrow> real list \<Rightarrow> real list result" where
  "passk_scalars topk_idx epsilon norm_adv index scores =
     (let id2scores = id2list index scores; id2indices = id2list index [0..<length scores] in
      fold_r (\<lambda>ix advantages.
          let rewards = key_log id2scores ix in
          if length rewards < 2 then Inl (ValueError ''Pass@k requires at least 2 samples per group.'')
          else
            (let first_idx = topk_idx rewards;
                 i_max = key_log id2indices ix ! first_idx;
                 advantage = rewards ! first_idx - second_max first_idx rewards;
                 advantage = (if norm_adv then advantage / (std_of rewards + epsilon) else advantage)
             in Inr (advantages[i_max := advantage])))
        (rev (remdups (rev (take (length scores) index)))) (map (\<lambda>_. 0) scores))"

definition compute_grpo_passk_outcome_advantage ::
  "(real list \<Rightarrow> nat) \<Rightarrow> tensor \<Rightarrow> tensor \<Rightarrow> 'i list \<Rightarrow> real \<Rightarrow> bool \<Rightarrow> (tensor \<times> tensor) result" where
  "compute_grpo_passk_outcome_advantage topk_idx rewards msk index epsilon norm_adv =
     bind_r (check_index index rewards) (\<lambda>_.
     bind_r (passk_scalars topk_idx epsilon norm_adv index (scores_of rewards)) (\<lambda>s.
       let a = broadcast s msk in Inr (a, a)))"

section \<open>Baselines by group\<close>

definition group_mean :: "'i list \<Rightarrow> real list \<Rightarrow> 'i \<Rightarrow> real" where
  "group_mean index scores ix =
     (let g = key_log (id2list index scores) ix in if length g = 1 then 0 else mean_of g)"

definition compute_reinforce_plus_plus_baseline_outcome_advantage ::
  "tensor \<Rightarrow> tensor \<Rightarrow> 'i list \<Rightarrow> (tensor \<times> tensor) result" where
  "compute_reinforce_plus_plus_baseline_outcome_advantage rewards msk index =
     bind_r (check_index index rewards) (\<lambda>_.
       let scores = scores_of rewards;
           centred = map2 (\<lambda>s ix. s - group_mean index scores ix) scores index
       in bind_r (masked_whiten (broadcast centred msk) msk True) (\<lambda>w. let a = tmap2 (*) w msk in Inr (a, a)))"

definition rloo_scalars :: "'i list \<Rightarrow> real list \<Rightarrow> real list" where
  "rloo_scalars index scores =
     map2 (\<lambda>s ix. let n = length (key_log (id2list index scores) ix) in
            if n > 1 then s * real n / (real n - 1) - group_mean index scores ix * real n / (real n - 1) else s)
       scores index"

definition compute_rloo_outcome_advantage :: "tensor \<Rightarrow> tensor \<Rightarrow> 'i list \<Rightarrow> (tensor \<times> tensor) result" where
  "compute_rloo_outcome_advantage rewards msk index =
     bind_r (check_index index rewards) (\<lambda>_.
       let a = broadcast (rloo_scalars index (scores_of rewards)) msk in Inr (a, a))"

text \<open>The vectorised variant: \<open>np.unique(...)[1]\<close> numbers the groups, \<open>bincount\<close> counts and adds up.\<close>

definition rloo_vectorized_scalars :: "nat list \<Rightarrow> real list \<Rightarrow> real list" where
  "rloo_vectorized_scalars inverse_idx scores =
     (let G = (if inverse_idx = [] then 0 else Max (set inverse_idx) + 1);
          counts = index_add G inverse_idx (map (\<lambda>_. 1) inverse_idx);
          weighted = index_add G inverse_idx scores
      in map2 (\<lambda>s i. let c = counts ! i in ((c * s - weighted ! i) / max (c - 1) 1) * (if c > 1 then 1 else 0)) scores inverse_idx)"

definition compute_rloo_vectorized_outcome_advantage ::
  "('i list \<Rightarrow> nat list) \<Rightarrow> tensor \<Rightarrow> tensor \<Rightarrow> 'i list \<Rightarrow> tensor \<times> tensor" where
  "compute_rloo_vectorized_outcome_advantage unique_inverse rewards msk index =
     (let a = broadcast (rloo_vectorized_scalars (unique_inverse index) (scores_of rewards)) msk in (a, a))"

definition opo_baseline :: "'i list \<Rightarrow> real list \<Rightarrow> real list \<Rightarrow> 'i \<Rightarrow> real" where
  "opo_baseline index scores lens ix =
     (let sc = key_log (id2list index scores) ix; ln = key_log (id2list index lens) ix in
      if length sc = 1 then 0 else sum_list (map2 (*) ln sc) / sum_list ln)"

definition compute_opo_outcome_advantage :: "tensor \<Rightarrow> tensor \<Rightarrow> 'i list \<Rightarrow> (tensor \<times> tensor) result" where
  "compute_opo_outcome_advantage rewards msk index =
     bind_r (check_index index rewards) (\<lambda>_.
       let scores = scores_of rewards; lens = map sum_list msk;
           a = broadcast (map2 (\<lambda>s ix. s - opo_baseline index scores lens ix) scores index) msk
       in Inr (a, a))"

definition compute_gpg_outcome_advantage :: "tensor \<Rightarrow> tensor \<Rightarrow> 'i list \<Rightarrow> real \<Rightarrow> (tensor \<times> tensor) result" where
  "compute_gpg_outcome_advantage rewards msk index f_norm =
     bind_r (check_index index rewards) (\<lambda>_.
       let scores = scores_of rewards;
           m = length (filter (\<lambda>s. s \<noteq> 0) scores);
           alpha = real (length scores) / real (max m 1);
           a = broadcast (map2 (\<lambda>s ix. alpha * (s - group_mean index scores ix) / f_norm) scores index) msk
       in Inr (a, a))"

section \<open>Returns\<close>

text \<open>REINFORCE++: the running return is reset after a masked position.\<close>

fun rpp_row :: "real \<Rightarrow> (real \<times> real) list \<Rightarrow> real list \<times> real" where
  "rpp_row gamma [] = ([], 0)"
| "rpp_row gamma ((r, m) # rest) =
     (case rpp_row gamma rest of (returns, running) \<Rightarrow>
        (let running' = r + gamma * running in (running' # returns, running' * m)))"

definition compute_reinforce_plus_plus_outcome_advantage :: "tensor \<Rightarrow> tensor \<Rightarrow> real \<Rightarrow> (tensor \<times> tensor) result" where
  "compute_reinforce_plus_plus_outcome_advantage rewards msk gamma =
     (let returns = map2 (\<lambda>rs ms. fst (rpp_row gamma (zip rs ms))) rewards msk in
      bind_r (masked_whiten returns msk True) (\<lambda>w. Inr (tmap2 (*) w msk, returns)))"

text \<open>\<open>x.flip(-1).cumsum(-1).flip(-1)\<close>: the reward to go.\<close>

definition reward_to_go :: "real list \<Rightarrow> real list" where
  "reward_to_go xs = rev (cumsum 0 (rev xs))"

definition compute_remax_outcome_advantage :: "tensor \<Rightarrow> real list \<Rightarrow> tensor \<Rightarrow> tensor \<times> tensor" where
  "compute_remax_outcome_advantage rewards reward_baselines msk =
     (let returns = map reward_to_go (tmap2 (*) rewards msk) in
      (map2 (\<lambda>ret (b, row). map2 (\<lambda>g m. g - b * m) ret row) returns (zip reward_baselines msk), returns))"

section \<open>Facts about groups\<close>

definition members :: "'i list \<Rightarrow> 'a list \<Rightarrow> 'i \<Rightarrow> 'a list" where
  "members index vals ix = map snd (filter (\<lambda>(k, v). k = ix) (zip index vals))"

lemma concat_singletons:
  "concat (map snd (filter (\<lambda>(k, xs). k = ix) (map (\<lambda>(k, v). (k, [v])) ps))) = map snd (filter (\<lambda>(k, v). k = ix) ps)"
  by (induction ps) auto

lemma key_log_id2list: "key_log (id2list index vals) ix = members index vals ix"
proof -
  have "key_log (id2list index vals) ix
      = concat (map snd (filter (\<lambda>(k, xs). k = ix) (map (\<lambda>(k, v). (k, [v])) (zip index vals))))"
    unfolding id2list_def by (rule dict_log.log_fold_put_fresh) (simp add: key_log_def)
  also have "\<dots> = members index vals ix"
    unfolding members_def by (rule concat_singletons)
  finally show ?thesis .
qed

lemma members_upt:
  assumes "length index = length vals"
  shows "members index vals ix = map ((!) vals) (filter (\<lambda>i. index ! i = ix) [0..<length vals])"
proof -
  have "zip index vals = map (\<lambda>i. (index ! i, vals ! i)) [0..<length vals]"
    by (rule nth_equalityI) (simp_all add: assms)
  then show ?thesis by (simp add: members_def filter_map o_def)
qed

text \<open>The positions of a group, and a sum over them.\<close>

definition group_of :: "'i list \<Rightarrow> 'i \<Rightarrow> nat set" where
  "group_of index ix = {i. i < length index \<and> index ! i = ix}"

lemma group_of_set:
  "length index = n \<Longrightarrow> set (filter (\<lambda>i. index ! i = ix) [0..<n]) = group_of index ix"
  by (auto simp: group_of_def)

lemma finite_group [simp]: "finite (group_of index ix)"
  by (simp add: group_of_def)

lemma sum_members:
  assumes "length index = length vals"
  shows "sum_list (map f (members index vals ix)) = (\<Sum>i \<in> group_of index ix. f (vals ! i))"
proof -
  have "sum_list (map f (members index vals ix)) = sum_list (map (\<lambda>i. f (vals ! i)) (filter (\<lambda>i. index ! i = ix) [0..<length vals]))"
    by (simp add: members_upt [OF assms] o_def)
  also have "\<dots> = (\<Sum>i \<in> set (filter (\<lambda>i. index ! i = ix) [0..<length vals]). f (vals ! i))"
    by (rule sum_list_distinct_conv_sum_set) simp
  finally show ?thesis by (simp only: group_of_set [OF assms])
qed

lemma length_members: "length index = length vals \<Longrightarrow> length (members index vals ix) = card (group_of index ix)"
  by (simp add: members_upt flip: group_of_set distinct_card)

lemma card_group_pos: "i \<in> group_of index ix \<Longrightarrow> 0 < card (group_of index ix)"
  by (auto simp: card_gt_0_iff)

text \<open>The mean of a group as a sum over its positions.\<close>

lemma mean_members:
  assumes "length index = length vals"
  shows "mean_of (members index vals ix) = (\<Sum>i \<in> group_of index ix. vals ! i) / card (group_of index ix)"
  using sum_members [OF assms, of "\<lambda>x. x"] by (simp add: mean_of_def length_members assms)

lemma group_mean_alt:
  assumes "length index = length vals"
  shows "group_mean index vals ix = (if card (group_of index ix) = 1 then 0
           else (\<Sum>i \<in> group_of index ix. vals ! i) / card (group_of index ix))"
  by (simp add: group_mean_def key_log_id2list Let_def length_members [OF assms] mean_members [OF assms])

lemma centred_sum_zero:
  assumes "length index = length vals" "card (group_of index ix) \<noteq> 1"
  shows "(\<Sum>i \<in> group_of index ix. vals ! i - group_mean index vals ix) = 0"
  by (cases "card (group_of index ix) = 0") (use assms in \<open>auto simp: sum_subtractf group_mean_alt\<close>)

lemma std_of_nonneg: "0 \<le> std_of xs"
  unfolding std_of_def by (intro real_sqrt_ge_zero divide_nonneg_nonneg sum_list_nonneg) auto

section \<open>Grouped estimators\<close>

definition group_std :: "'i list \<Rightarrow> real list \<Rightarrow> 'i \<Rightarrow> real" where
  "group_std index scores ix = (let g = members index scores ix in if length g = 1 then 1 else std_of g)"

lemma grpo_scalars_alt:
  "grpo_scalars epsilon norm_adv index scores =
     map2 (\<lambda>s ix. if norm_adv then (s - group_mean index scores ix) / (group_std index scores ix + epsilon)
                  else s - group_mean index scores ix) scores index"
  unfolding grpo_scalars_def group_mean_def group_std_def key_log_id2list Let_def ..

lemma group_std_nonneg: "0 \<le> group_std index scores ix"
  by (simp add: group_std_def Let_def std_of_nonneg)

lemma scores_of_simps [simp]: "length (scores_of rewards) = length rewards"
  "i < length rewards \<Longrightarrow> scores_of rewards ! i = sum_list (rewards ! i)"
  by (simp_all add: scores_of_def)

lemma length_broadcast [simp]: "length (broadcast a msk) = min (length a) (length msk)"
  by (simp add: broadcast_def)

text \<open>
  GRPO gives every token of a response the same advantage, the response's group-normalised score,
  and nothing to masked tokens. In a group of several responses the advantages add up to zero and are
  ordered as the scores are; the only response of a group keeps its score (divided by \<open>1 + epsilon\<close> when the
  advantages are normalised).
\<close>

theorem grpo_advantages:
  assumes "compute_grpo_outcome_advantage rewards msk index epsilon norm_adv = Inr (adv, ret)"
    and "length index = length rewards" "length msk = length rewards" "0 < epsilon"
  shows "ret = adv \<and>
    (\<exists>a. length a = length rewards
       \<and> (\<forall>i < length rewards. adv ! i = map (\<lambda>m. a ! i * m) (msk ! i))
       \<and> (\<forall>ix. card (group_of index ix) \<noteq> 1 \<longrightarrow> (\<Sum>i \<in> group_of index ix. a ! i) = 0)
       \<and> (\<forall>i < length rewards. \<forall>j < length rewards. index ! i = index ! j \<longrightarrow>
            (a ! i \<le> a ! j \<longleftrightarrow> sum_list (rewards ! i) \<le> sum_list (rewards ! j)))
       \<and> (\<forall>i < length rewards. group_of index (index ! i) = {i} \<longrightarrow>
            a ! i = sum_list (rewards ! i) / (if norm_adv then 1 + epsilon else 1)))"
proof -
  define s where "s = scores_of rewards"
  define a where "a = grpo_scalars epsilon norm_adv index s"
  have len: "length index = length s" "length a = length rewards" by (simp_all add: s_def a_def grpo_scalars_alt assms)
  have adv: "adv = broadcast a msk" "ret = adv"
    using assms(1) by (auto simp: compute_grpo_outcome_advantage_def Let_def a_def s_def)
  define d where "d ix = (if norm_adv then group_std index s ix + epsilon else 1)" for ix
  have d: "0 < d ix" for ix using group_std_nonneg [of index s ix] assms(4) by (simp add: d_def)
  have a: "a ! i = (s ! i - group_mean index s (index ! i)) / d (index ! i)" if "i < length rewards" for i
    using that assms(2) by (simp add: a_def grpo_scalars_alt s_def d_def)
  have zero: "(\<Sum>i \<in> group_of index ix. a ! i) = 0" if "card (group_of index ix) \<noteq> 1" for ix
  proof -
    have "(\<Sum>i \<in> group_of index ix. a ! i) = (\<Sum>i \<in> group_of index ix. (s ! i - group_mean index s ix) / d ix)"
      by (rule sum.cong) (auto simp: group_of_def a assms(2))
    also have "\<dots> = (\<Sum>i \<in> group_of index ix. s ! i - group_mean index s ix) / d ix" by (simp only: sum_divide_distrib)
    finally show ?thesis using centred_sum_zero [OF len(1) that] by simp
  qed
  have order: "a ! i \<le> a ! j \<longleftrightarrow> sum_list (rewards ! i) \<le> sum_list (rewards ! j)"
    if "i < length rewards" "j < length rewards" "index ! i = index ! j" for i j
    using that d [of "index ! j"] by (simp add: a s_def divide_le_cancel)
  have single: "a ! i = sum_list (rewards ! i) / (if norm_adv then 1 + epsilon else 1)"
    if "i < length rewards" "group_of index (index ! i) = {i}" for i
    using that by (simp add: a d_def s_def group_std_def group_mean_alt length_members assms(2) Let_def)
  have rows: "adv ! i = map (\<lambda>m. a ! i * m) (msk ! i)" if "i < length rewards" for i
    using that by (simp add: adv(1) broadcast_def len assms(3))
  show ?thesis using adv(2) len(2) rows zero order single by blast
qed

theorem grpo_advantages_witness:
  "\<exists>a. length a = 2 \<and> (\<Sum>i \<in> group_of [7, 7::nat] 7. a ! i) = (0::real)"
proof -
  define msk :: tensor where "msk = [[1, 1], [1, 0]]"
  have run: "compute_grpo_outcome_advantage [[0, 1], [0, 3]] msk [7, 7::nat] 1 True
      = Inr (broadcast (grpo_scalars 1 True [7, 7::nat] (scores_of [[0, 1], [0, 3]])) msk,
             broadcast (grpo_scalars 1 True [7, 7::nat] (scores_of [[0, 1], [0, 3]])) msk)"
    by (simp add: compute_grpo_outcome_advantage_def check_index_def Let_def)
  have two: "group_of [7, 7::nat] 7 = {0, 1}" by (auto simp: group_of_def less_Suc_eq nth_Cons')
  obtain a where "length a = length [[0, 1], [0, 3 :: real]]"
      "\<forall>ix. card (group_of [7, 7::nat] ix) \<noteq> 1 \<longrightarrow> (\<Sum>i \<in> group_of [7, 7] ix. a ! i) = (0::real)"
    using grpo_advantages [OF run] by (auto simp: msk_def)
  moreover have "card (group_of [7, 7::nat] 7) \<noteq> 1" by (simp add: two)
  ultimately show ?thesis by (intro exI [of _ a]) simp
qed

section \<open>The vectorised GRPO\<close>

lemma index_add_nth:
  assumes "k < G" "length gidx = length vals"
  shows "index_add G gidx vals ! k = (\<Sum>i \<in> group_of gidx k. vals ! i)"
proof -
  have gen: "length (fold (\<lambda>(g, v) acc. acc[g := acc ! g + v]) ps acc) = length acc
      \<and> fold (\<lambda>(g, v) acc. acc[g := acc ! g + v]) ps acc ! k = acc ! k + sum_list (map snd (filter (\<lambda>(g, v). g = k) ps))"
    if "k < length acc" for ps :: "(nat \<times> real) list" and acc
    using that
  proof (induction ps arbitrary: acc)
    case (Cons p ps)
    obtain g v where p: "p = (g, v)" by force
    show ?case using Cons.IH [of "acc[g := acc ! g + v]"] Cons.prems by (auto simp: p nth_list_update)
  qed simp
  have "index_add G gidx vals ! k = sum_list (members gidx vals k)"
    using gen [of "replicate G 0" "zip gidx vals"] assms(1) by (simp add: index_add_def members_def)
  then show ?thesis using sum_members [OF assms(2), of "\<lambda>x. x" k] by simp
qed

lemma length_index_add [simp]: "length (index_add G gidx vals) = G"
proof -
  have "length (fold (\<lambda>(g, v) acc. acc[g := acc ! g + v]) ps acc) = length acc" for ps :: "(nat \<times> real) list" and acc
    by (induction ps arbitrary: acc) auto
  then show ?thesis by (simp add: index_add_def)
qed

text \<open>What the grouped statistics are, at the number of a group that occurs.\<close>

lemma group_mean_std_at:
  assumes "length scores = length gidx" "k \<in> set gidx"
  obtains m s c where "group_mean_std scores gidx 0 = Inr (m, s, c)" "length m = length s"
    "m ! k = group_mean gidx scores k" "s ! k = group_std gidx scores k"
proof -
  let ?grp = "group_of gidx k"
  define G where "G = Max (set gidx) + 1"
  have len: "length gidx = length scores" using assms(1) ..
  have ne: "gidx \<noteq> []" and kG: "k < G" using assms(2) by (auto simp: G_def less_Suc_eq_le)
  obtain i where "i \<in> ?grp" using assms(2) by (auto simp: in_set_conv_nth group_of_def)
  then have pos: "0 < card ?grp" by (rule card_group_pos)
  define count where "count = index_add G gidx (map (\<lambda>_. 1) scores)"
  define mean where "mean = map2 (\<lambda>s c. s / max c 1) (index_add G gidx scores) count"
  define centered where "centered = map2 (\<lambda>s g. s - mean ! g) scores gidx"
  define var where "var = map2 (\<lambda>v c. v / max (c - 1) 1) (index_add G gidx (map (\<lambda>c. c * c) centered)) count"
  define std where "std = map (\<lambda>v. sqrt (max v 0)) var"
  define m where "m = map2 (\<lambda>m c. if c \<le> 1 then 0 else m) mean count"
  define s where "s = map2 (\<lambda>s c. if c \<le> 1 then 1 else s) std count"
  have run: "group_mean_std scores gidx 0 = Inr (m, s, count)"
    by (simp add: group_mean_std_def ne assms(1) Let_def G_def m_def s_def std_def var_def centered_def mean_def count_def)
  have lens: "length count = G" "length mean = G" "length centered = length scores" "length var = G" "length std = G"
      "length m = G" "length s = G"
    by (simp_all add: count_def mean_def centered_def var_def std_def m_def s_def assms(1))
  have "(\<Sum>i \<in> ?grp. map (\<lambda>_. 1) scores ! i) = (\<Sum>i \<in> ?grp. 1 :: real)"
    by (rule sum.cong) (auto simp: group_of_def len)
  then have c: "count ! k = real (card ?grp)" by (simp add: count_def index_add_nth [OF kG] assms(1))
  have mk: "mean ! k = mean_of (members gidx scores k)"
    using kG pos by (simp add: mean_def lens c index_add_nth [OF kG] len mean_members [OF len] max_def)
  have m1: "m ! k = group_mean gidx scores k"
    using kG pos by (auto simp: m_def lens c mk group_mean_alt [OF len] mean_members [OF len])
  have sq: "(\<Sum>i \<in> ?grp. map (\<lambda>c. c * c) centered ! i) = sum_list (map (\<lambda>x. (x - mean_of (members gidx scores k))\<^sup>2) (members gidx scores k))"
  proof -
    have "(\<Sum>i \<in> ?grp. map (\<lambda>c. c * c) centered ! i) = (\<Sum>i \<in> ?grp. (scores ! i - mean_of (members gidx scores k))\<^sup>2)"
      by (rule sum.cong) (auto simp: group_of_def len centered_def mk power2_eq_square)
    then show ?thesis by (simp only: sum_members [OF len])
  qed
  have s1: "s ! k = group_std gidx scores k"
  proof (cases "card ?grp = 1")
    case True
    then show ?thesis using kG by (simp add: s_def lens c group_std_def length_members [OF len] Let_def)
  next
    case False
    have "0 \<le> sum_list (map (\<lambda>x. (x - mean_of (members gidx scores k))\<^sup>2) (members gidx scores k)) / real (card ?grp - 1)"
      by (intro divide_nonneg_nonneg sum_list_nonneg) auto
    moreover have "max (real (card ?grp) - 1) 1 = real (card ?grp - 1)" using False pos by (simp add: max_def of_nat_diff)
    ultimately have "std ! k = std_of (members gidx scores k)"
      using kG by (simp add: std_def var_def lens c index_add_nth [OF kG] assms(1) sq std_of_def length_members [OF len])
    then show ?thesis using False pos kG by (simp add: s_def lens c group_std_def length_members [OF len] Let_def)
  qed
  show ?thesis using that [OF run _ m1 s1] lens by simp
qed

text \<open>
  The vectorised GRPO computes the same advantages as the loop over groups, whatever numbers the groups
  are given, as long as two responses have the same number exactly when they belong to the same prompt.
\<close>

theorem grpo_vectorized_equals_grpo:
  assumes "length index = length rewards"
    and numbering: "length (as_torch_index index) = length index"
      "\<And>i j. i < length index \<Longrightarrow> j < length index \<Longrightarrow>
         as_torch_index index ! i = as_torch_index index ! j \<longleftrightarrow> index ! i = index ! j"
  shows "compute_grpo_vectorized_outcome_advantage as_torch_index rewards msk index epsilon norm_adv
       = compute_grpo_outcome_advantage rewards msk index epsilon norm_adv"
proof (cases "rewards = []")
  case True
  then show ?thesis using assms(1) numbering(1)
    by (simp add: compute_grpo_vectorized_outcome_advantage_def compute_grpo_outcome_advantage_def Let_def
        group_mean_std_def scores_of_def check_index_def grpo_scalars_alt broadcast_def)
next
  case False
  define s where "s = scores_of rewards"
  define g where "g = as_torch_index index"
  have len: "length s = length index" "length g = length s" by (simp_all add: s_def g_def assms(1) numbering(1))
  have grp: "members g s (g ! i) = members index s (index ! i)" if "i < length s" for i
    unfolding members_upt [OF len(2)] members_upt [OF len(1) [symmetric]]
    using that numbering(2) by (intro arg_cong [where f = "map _"] filter_cong) (auto simp: g_def len)
  have "g ! 0 \<in> set g" using False len assms(1) by (auto intro!: nth_mem)
  then obtain m sd c where run: "group_mean_std s g 0 = Inr (m, sd, c)"
    using group_mean_std_at [of s g "g ! 0"] len by metis
  have at: "m ! (g ! i) = group_mean index s (index ! i) \<and> sd ! (g ! i) = group_std index s (index ! i)" if i: "i < length s" for i
  proof -
    have "g ! i \<in> set g" using i len by auto
    then obtain m' s' c' where "group_mean_std s g 0 = Inr (m', s', c')" "m' ! (g ! i) = group_mean g s (g ! i)"
        "s' ! (g ! i) = group_std g s (g ! i)"
      using group_mean_std_at [of s g "g ! i"] len by metis
    then show ?thesis using run grp [OF i] by (simp add: group_mean_def group_std_def key_log_id2list)
  qed
  have "(if norm_adv then map2 (\<lambda>s i. (s - m ! i) / (sd ! i + epsilon)) s g else map2 (\<lambda>s i. s - m ! i) s g)
      = grpo_scalars epsilon norm_adv index s"
    by (rule nth_equalityI) (auto simp: grpo_scalars_alt len at)
  then show ?thesis
    unfolding compute_grpo_vectorized_outcome_advantage_def compute_grpo_outcome_advantage_def Let_def
      s_def [symmetric] g_def [symmetric] run
    by (simp add: check_index_def assms(1) del: if_split)
qed

theorem grpo_vectorized_equals_grpo_witness:
  "compute_grpo_vectorized_outcome_advantage (map (\<lambda>l. length l)) [[1], [3]] [[1], [1]] [''a'', ''bb''] 1 True
     = compute_grpo_outcome_advantage [[1], [3]] [[1], [1]] [''a'', ''bb''] 1 True"
  by (rule grpo_vectorized_equals_grpo) (auto simp: less_Suc_eq nth_Cons')

section \<open>Leave-one-out baselines\<close>

lemma sum_others:
  assumes "i \<in> group_of index ix"
  shows "(\<Sum>j \<in> group_of index ix - {i}. f j) = (\<Sum>j \<in> group_of index ix. f j) - (f i :: real)"
  using assms by (simp add: sum_diff1)

lemma rloo_scalars_nth:
  assumes "length index = length scores" "i < length scores"
  shows "rloo_scalars index scores ! i =
    (let n = card (group_of index (index ! i)) in
     if n > 1 then scores ! i - (\<Sum>j \<in> group_of index (index ! i) - {i}. scores ! j) / (real n - 1) else scores ! i)"
proof -
  let ?g = "group_of index (index ! i)"
  have i: "i \<in> ?g" using assms by (simp add: group_of_def)
  have eq: "x * n / (n - 1) - S / n * n / (n - 1) = x - (S - x) / (n - 1)" if n: "1 < n" for x n S :: real
  proof -
    have "x * n / (n - 1) - S / n * n / (n - 1) = (x * n - S) / (n - 1)" using n by (simp add: diff_divide_distrib)
    also have "x * n - S = x * (n - 1) - (S - x)" by (simp add: algebra_simps)
    finally show ?thesis using n by (simp add: diff_divide_distrib)
  qed
  have "rloo_scalars index scores ! i =
      (if card ?g > 1 then scores ! i * real (card ?g) / (real (card ?g) - 1)
          - group_mean index scores (index ! i) * real (card ?g) / (real (card ?g) - 1) else scores ! i)"
    using assms by (simp add: rloo_scalars_def key_log_id2list length_members Let_def)
  then show ?thesis
    using eq [of "real (card ?g)"] by (simp add: group_mean_alt [OF assms(1)] sum_others [OF i] Let_def)
qed

lemma rloo_vectorized_scalars_nth:
  assumes "length gidx = length scores" "i < length scores"
  shows "rloo_vectorized_scalars gidx scores ! i =
    (let n = card (group_of gidx (gidx ! i)) in
     if n > 1 then scores ! i - (\<Sum>j \<in> group_of gidx (gidx ! i) - {i}. scores ! j) / (real n - 1) else 0)"
proof -
  let ?g = "group_of gidx (gidx ! i)"
  have i: "i \<in> ?g" using assms by (simp add: group_of_def)
  have ne: "gidx \<noteq> []" and kG: "gidx ! i < Suc (Max (set gidx))" using assms by (auto simp: less_Suc_eq_le)
  have "(\<Sum>j \<in> ?g. map (\<lambda>_. 1) gidx ! j) = (\<Sum>j \<in> ?g. 1 :: real)"
    by (rule sum.cong) (auto simp: group_of_def)
  then have c: "index_add (Suc (Max (set gidx))) gidx (map (\<lambda>_. 1) gidx) ! (gidx ! i) = real (card ?g)"
    by (simp add: index_add_nth [OF kG])
  have eq: "(n * x - S) / max (n - 1) 1 = x - (S - x) / (n - 1)" if "2 \<le> n" for x n S :: real
    using that by (simp add: field_simps max_def)
  have "rloo_vectorized_scalars gidx scores ! i =
      (real (card ?g) * scores ! i - (\<Sum>j \<in> ?g. scores ! j)) / max (real (card ?g) - 1) 1 * (if real (card ?g) > 1 then 1 else 0)"
    using assms ne by (simp add: rloo_vectorized_scalars_def Let_def c index_add_nth [OF kG])
  then show ?thesis using eq [of "real (card ?g)"] by (simp add: sum_others [OF i] Let_def)
qed

text \<open>
  RLOO and its vectorised form give a response of a group of at least two its score minus the mean
  score of the other responses of the group, and agree there. On the only response of a group they
  disagree: the loop keeps the raw score as the advantage, the vectorised form gives zero.
\<close>

theorem rloo_leave_one_out:
  assumes "compute_rloo_outcome_advantage rewards msk index = Inr (adv, ret)"
    and "length index = length rewards" "length msk = length rewards"
    and numbering: "length (unique_inverse index) = length index"
      "\<And>i j. i < length index \<Longrightarrow> j < length index \<Longrightarrow>
         unique_inverse index ! i = unique_inverse index ! j \<longleftrightarrow> index ! i = index ! j"
    and i: "i < length rewards"
  shows "let group = group_of index (index ! i); n = card group;
             a = sum_list (rewards ! i) - (\<Sum>j \<in> group - {i}. sum_list (rewards ! j)) / (real n - 1);
             vec = fst (compute_rloo_vectorized_outcome_advantage unique_inverse rewards msk index)
         in ret = adv \<and>
            (if n > 1 then adv ! i = map (\<lambda>m. a * m) (msk ! i) \<and> vec ! i = adv ! i
             else adv ! i = map (\<lambda>m. sum_list (rewards ! i) * m) (msk ! i) \<and> vec ! i = map (\<lambda>m. 0) (msk ! i))"
proof -
  define s where "s = scores_of rewards"
  let ?u = "unique_inverse index"
  have len: "length index = length s" "length ?u = length s" "i < length s" using assms by (simp_all add: s_def)
  have adv: "adv = broadcast (rloo_scalars index s) msk" "ret = adv"
    using assms(1) by (auto simp: compute_rloo_outcome_advantage_def Let_def s_def)
  have vec: "fst (compute_rloo_vectorized_outcome_advantage unique_inverse rewards msk index)
      = broadcast (rloo_vectorized_scalars ?u s) msk"
    by (simp add: compute_rloo_vectorized_outcome_advantage_def Let_def s_def)
  have grp: "group_of ?u (?u ! i) = group_of index (index ! i)"
    using numbering i assms(2) by (auto simp: group_of_def)
  have others: "(\<Sum>j \<in> group_of index (index ! i) - {i}. s ! j) = (\<Sum>j \<in> group_of index (index ! i) - {i}. sum_list (rewards ! j))"
    by (rule sum.cong) (auto simp: group_of_def s_def assms(2))
  have row: "broadcast a msk ! i = map (\<lambda>m. a ! i * m) (msk ! i)" if "length a = length s" for a
    using that len(3) assms(3) by (simp add: broadcast_def s_def)
  have lens: "length (rloo_scalars index s) = length s" "length (rloo_vectorized_scalars ?u s) = length s"
    using len by (simp_all add: rloo_scalars_def rloo_vectorized_scalars_def Let_def)
  show ?thesis
    unfolding Let_def vec adv row [OF lens(1)] row [OF lens(2)]
    unfolding rloo_scalars_nth [OF len(1,3)] rloo_vectorized_scalars_nth [OF len(2,3)] grp others Let_def
    using i by (simp add: s_def)
qed

theorem rloo_leave_one_out_witness:
  "\<exists>adv. compute_rloo_outcome_advantage [[2], [6]] [[1], [1]] [''p'', ''q''] = Inr (adv, adv)
     \<and> adv ! 0 = [2] \<and> fst (compute_rloo_vectorized_outcome_advantage (map (\<lambda>l. if l = ''p'' then 0 else 1)) [[2], [6]] [[1], [1]] [''p'', ''q'']) ! 0 = [0]"
proof -
  obtain adv where run: "compute_rloo_outcome_advantage [[2], [6]] [[1], [1]] [''p'', ''q''] = Inr (adv, adv)"
    by (simp add: compute_rloo_outcome_advantage_def check_index_def Let_def)
  have g: "group_of [''p'', ''q''] ''p'' = {0}" by (auto simp: group_of_def less_Suc_eq nth_Cons')
  define u :: "string list \<Rightarrow> nat list" where "u = map (\<lambda>l. if l = ''p'' then 0 else 1)"
  have num: "u [''p'', ''q''] ! i = u [''p'', ''q''] ! j \<longleftrightarrow> [''p'', ''q''] ! i = [''p'', ''q''] ! j"
    if "i < length [''p'', ''q'']" "j < length [''p'', ''q'']" for i j
    using that by (auto simp: u_def less_Suc_eq nth_Cons')
  have "adv ! 0 = [2] \<and> fst (compute_rloo_vectorized_outcome_advantage u [[2], [6]] [[1], [1]] [''p'', ''q'']) ! 0 = [0]"
    using rloo_leave_one_out [where i = 0 and unique_inverse = u, OF run _ _ _ num] by (simp add: g u_def)
  then show ?thesis using run unfolding u_def by blast
qed

section \<open>GAE against its textbook form\<close>

text \<open>The estimator as a sum of discounted TD errors over the live tokens: \<open>rvs\<close> are their rewards and
  values, in order.\<close>

definition td_error :: "real \<Rightarrow> (real \<times> real) list \<Rightarrow> nat \<Rightarrow> real" where
  "td_error gamma rvs k = fst (rvs ! k) + gamma * (if Suc k < length rvs then snd (rvs ! Suc k) else 0) - snd (rvs ! k)"

definition gae_textbook :: "real \<Rightarrow> real \<Rightarrow> (real \<times> real) list \<Rightarrow> real" where
  "gae_textbook gamma lam rvs = (\<Sum>k < length rvs. (gamma * lam) ^ k * td_error gamma rvs k)"

definition live :: "(real \<times> real \<times> real) list \<Rightarrow> (real \<times> real) list" where
  "live xs = map (\<lambda>(r, v, m). (r, v)) (filter (\<lambda>(r, v, m). m = 1) xs)"

definition row01 :: "(real \<times> real \<times> real) list \<Rightarrow> bool" where
  "row01 xs \<longleftrightarrow> list_all (\<lambda>(r, v, m). m = 0 \<or> m = 1) xs"

lemma gae_textbook_Cons:
  "gae_textbook gamma lam ((r, v) # rvs)
     = r + gamma * (case rvs of [] \<Rightarrow> 0 | rv # _ \<Rightarrow> snd rv) - v + gamma * lam * gae_textbook gamma lam rvs"
proof -
  have suc: "td_error gamma ((r, v) # rvs) (Suc k) = td_error gamma rvs k" for k by (simp add: td_error_def)
  have hd: "td_error gamma ((r, v) # rvs) 0 = r + gamma * (case rvs of [] \<Rightarrow> 0 | rv # _ \<Rightarrow> snd rv) - v"
    by (cases rvs) (simp_all add: td_error_def)
  show ?thesis
    unfolding gae_textbook_def list.size(4) add_0_right add_Suc_right sum.lessThan_Suc_shift hd suc
    by (simp add: hd suc sum_distrib_left mult.assoc)
qed

lemma gae_row_state:
  "row01 xs \<Longrightarrow> length (fst (gae_row gamma lam xs)) = length xs
     \<and> snd (gae_row gamma lam xs) = (case live xs of [] \<Rightarrow> 0 | rv # _ \<Rightarrow> snd rv, gae_textbook gamma lam (live xs))"
proof (induction xs)
  case Nil
  show ?case by (simp add: live_def gae_textbook_def)
next
  case (Cons x xs)
  obtain r v m where x: "x = (r, v, m)" by (cases x) auto
  obtain advs nv lg where rest: "gae_row gamma lam xs = (advs, nv, lg)" by (cases "gae_row gamma lam xs") auto
  have "row01 xs" and m: "m = 0 \<or> m = 1" using Cons.prems by (simp_all add: row01_def x)
  with Cons.IH rest have IH: "length advs = length xs" "nv = (case live xs of [] \<Rightarrow> 0 | rv # _ \<Rightarrow> snd rv)"
      "lg = gae_textbook gamma lam (live xs)" by simp_all
  from m show ?case
  proof
    assume "m = 0"
    then have "live (x # xs) = live xs" by (simp add: live_def x)
    then show ?thesis using IH by (simp add: x rest Let_def \<open>m = 0\<close>)
  next
    assume "m = 1"
    then have "live (x # xs) = (r, v) # live xs" by (simp add: live_def x)
    then show ?thesis using IH by (simp add: x rest Let_def \<open>m = 1\<close> gae_textbook_Cons)
  qed
qed

lemma gae_row_nth:
  "row01 xs \<Longrightarrow> t < length xs \<Longrightarrow> fst (gae_row gamma lam xs) ! t = gae_textbook gamma lam (live (drop t xs))"
proof (induction xs arbitrary: t)
  case (Cons x xs)
  obtain r v m where x: "x = (r, v, m)" by (cases x) auto
  show ?case
  proof (cases t)
    case 0
    have "fst (gae_row gamma lam (x # xs)) ! 0 = snd (snd (gae_row gamma lam (x # xs)))"
      by (simp add: x Let_def split: prod.splits)
    then show ?thesis using gae_row_state [OF Cons.prems(1)] 0 by simp
  next
    case (Suc k)
    have "fst (gae_row gamma lam (x # xs)) ! Suc k = fst (gae_row gamma lam xs) ! k"
      by (simp add: x Let_def split: prod.splits)
    then show ?thesis using Cons.IH [of k] Cons.prems Suc by (simp add: row01_def)
  qed
qed simp

text \<open>With \<open>lam = 1\<close> the values cancel: value plus advantage is the discounted reward to go.\<close>

lemma gae_textbook_lam1:
  "gae_textbook gamma 1 rvs + (case rvs of [] \<Rightarrow> 0 | rv # _ \<Rightarrow> snd rv) = (\<Sum>k < length rvs. gamma ^ k * fst (rvs ! k))"
proof (induction rvs)
  case (Cons rv rvs)
  obtain r v where rv: "rv = (r, v)" by force
  have "(\<Sum>k < length (rv # rvs). gamma ^ k * fst ((rv # rvs) ! k)) = r + gamma * (\<Sum>k < length rvs. gamma ^ k * fst (rvs ! k))"
    by (simp add: rv sum.lessThan_Suc_shift sum_distrib_left mult.assoc del: sum.lessThan_Suc)
  then show ?case unfolding Cons.IH [symmetric] by (simp add: rv gae_textbook_Cons distrib_left)
qed (simp add: gae_textbook_def)

definition same_shape :: "'a list list \<Rightarrow> 'b list list \<Rightarrow> bool" where
  "same_shape xs ys \<longleftrightarrow> map length xs = map length ys"

lemma same_shape_nth:
  "same_shape xs ys \<Longrightarrow> length ys = length xs"
  "same_shape xs ys \<Longrightarrow> b < length xs \<Longrightarrow> length (ys ! b) = length (xs ! b)"
  unfolding same_shape_def by (metis length_map) (metis length_map nth_map)

lemma same_shape_tmap2: "same_shape xs ys \<Longrightarrow> same_shape (tmap2 f xs ys) ys"
  unfolding same_shape_def by (rule nth_equalityI) (auto dest: map_eq_imp_length_eq simp: list_eq_iff_nth_eq)

lemma entry_tmap2:
  assumes "same_shape xs ys" "i < length ys" "j < length (ys ! i)"
  shows "tmap2 f xs ys ! i ! j = f (xs ! i ! j) (ys ! i ! j)"
  using assms same_shape_nth [OF assms(1)] by simp

lemma same_shape_sym: "same_shape xs ys \<Longrightarrow> same_shape ys xs"
  by (simp add: same_shape_def)

lemma same_shape_trans: "same_shape xs ys \<Longrightarrow> same_shape ys zs \<Longrightarrow> same_shape xs zs"
  by (simp add: same_shape_def)

lemma same_shape_map: "same_shape (map (map f) xs) ys \<longleftrightarrow> same_shape xs ys"
  by (simp add: same_shape_def comp_def)

lemma same_shape_map2:
  assumes "same_shape xs ys" "\<And>x y. length x = length y \<Longrightarrow> length (f x y) = length y"
  shows "same_shape (map2 f xs ys) ys"
proof -
  have "length (f (xs ! i) (ys ! i)) = length (ys ! i)" if "i < length ys" for i
    using assms(2) same_shape_nth [OF assms(1)] that by metis
  then show ?thesis using same_shape_nth(1) [OF assms(1)] by (auto simp: same_shape_def list_eq_iff_nth_eq)
qed

lemma tensor_eqI:
  assumes "same_shape xs ys" "\<And>i j. i < length ys \<Longrightarrow> j < length (ys ! i) \<Longrightarrow> xs ! i ! j = ys ! i ! j"
  shows "xs = ys"
  using assms same_shape_nth [OF assms(1)] by (intro nth_equalityI) auto

text \<open>
  [C39] GAE at a live token is the textbook estimator over the live tokens from there on: masked tokens (the
  observations of a multi-turn rollout, the padding) neither add a TD error nor a discount step. The returns
  are these sums plus the values, for \<open>lam = 1\<close> the discounted rewards to go, and the advantages handed to the
  policy loss are one increasing affine image of the sums (the whitening).
\<close>

theorem gae_matches_textbook:
  assumes run: "compute_gae_advantage_return rewards values msk gamma lam = Inr (adv, ret)"
    and shapes: "same_shape rewards values" "same_shape rewards msk" and m01: "mask01 msk"
  shows "\<exists>a c. 0 < a \<and> (\<forall>b < length rewards. \<forall>t < length (rewards ! b). msk ! b ! t = 1 \<longrightarrow>
    (let rvs = live (drop t (zip (rewards ! b) (zip (values ! b) (msk ! b)))); g = gae_textbook gamma lam rvs
     in ret ! b ! t = g + values ! b ! t \<and> adv ! b ! t = a * g + c
        \<and> (lam = 1 \<longrightarrow> ret ! b ! t = (\<Sum>k < length rvs. gamma ^ k * fst (rvs ! k)))))"
proof -
  define raw where "raw = map2 (\<lambda>rs (vs, ms). fst (gae_row gamma lam (zip rs (zip vs ms)))) rewards (zip values msk)"
  have wh: "masked_whiten raw msk True = Inr adv" and ret: "ret = tmap2 (+) raw values"
    using run by (auto simp: compute_gae_advantage_return_def Let_def raw_def)
  obtain a c where ac: "0 < a" "adv = map (map (\<lambda>v. a * v + c)) raw" using masked_whiten_affine [OF m01 wh] by blast
  have at: "let rvs = live (drop t (zip (rewards ! b) (zip (values ! b) (msk ! b)))); g = gae_textbook gamma lam rvs
     in ret ! b ! t = g + values ! b ! t \<and> adv ! b ! t = a * g + c
        \<and> (lam = 1 \<longrightarrow> ret ! b ! t = (\<Sum>k < length rvs. gamma ^ k * fst (rvs ! k)))"
    if b: "b < length rewards" and t: "t < length (rewards ! b)" and live: "msk ! b ! t = 1" for b t
  proof -
    let ?xs = "zip (rewards ! b) (zip (values ! b) (msk ! b))"
    note sh = same_shape_nth(1) [OF shapes(1)] same_shape_nth(1) [OF shapes(2)]
      same_shape_nth(2) [OF shapes(1) b] same_shape_nth(2) [OF shapes(2) b]
    have r01: "row01 ?xs"
    proof -
      have "msk ! b \<in> set msk" using b sh(2) by simp
      then show ?thesis using m01 by (auto simp: row01_def mask01_def list_all_iff dest!: set_zip_rightD)
    qed
    have lenx: "length ?xs = length (rewards ! b)" using sh by simp
    have rawb: "raw ! b = fst (gae_row gamma lam ?xs)" "length raw = length rewards" using b sh by (simp_all add: raw_def)
    have len: "length (raw ! b) = length (rewards ! b)" using gae_row_state [OF r01] by (simp only: rawb lenx)
    let ?rvs = "live (drop t ?xs)"
    have g: "raw ! b ! t = gae_textbook gamma lam ?rvs" unfolding rawb(1) by (rule gae_row_nth [OF r01]) (simp only: lenx t)
    have hd: "(case ?rvs of [] \<Rightarrow> 0 | rv # _ \<Rightarrow> snd rv) = values ! b ! t"
    proof -
      have "drop t ?xs = (rewards ! b ! t, values ! b ! t, msk ! b ! t) # drop (Suc t) ?xs"
        using t sh lenx by (subst Cons_nth_drop_Suc [symmetric]) simp_all
      then show ?thesis using live by (simp add: live_def)
    qed
    have rt: "ret ! b ! t = raw ! b ! t + values ! b ! t" using b t sh rawb(2) len by (simp add: ret)
    have av: "adv ! b ! t = a * (raw ! b ! t) + c" using b t rawb(2) len by (simp add: ac(2))
    show ?thesis using rt av gae_textbook_lam1 [of gamma ?rvs] by (auto simp: g hd Let_def)
  qed
  show ?thesis using at ac(1) by blast
qed

theorem gae_matches_textbook_witness:
  "\<exists>adv ret. compute_gae_advantage_return [[1, 5, 2]] [[0, 7, 0]] [[1, 0, 1]] 1 1 = Inr (adv, ret) \<and> ret ! 0 ! 0 = 3"
proof -
  have "tsum [[1, 0, 1]] = 2" by (simp add: tsum_def)
  then obtain adv ret where run: "compute_gae_advantage_return [[1, 5, 2]] [[0, 7, 0]] [[1, 0, 1]] 1 1 = Inr (adv, ret)"
    by (simp add: compute_gae_advantage_return_def masked_whiten_def masked_var_def Let_def)
  define R V M where "R = [[1, 5, 2 :: real]]" and "V = [[0, 7, 0 :: real]]" and "M = [[1, 0, 1 :: real]]"
  obtain a c where "\<forall>b < length R. \<forall>t < length (R ! b). M ! b ! t = 1 \<longrightarrow>
      (let rvs = live (drop t (zip (R ! b) (zip (V ! b) (M ! b)))); g = gae_textbook 1 1 rvs
       in ret ! b ! t = g + V ! b ! t \<and> adv ! b ! t = a * g + c
          \<and> (1 = (1::real) \<longrightarrow> ret ! b ! t = (\<Sum>k < length rvs. 1 ^ k * fst (rvs ! k))))"
    using gae_matches_textbook [OF run [folded R_def V_def M_def]] by (auto simp: R_def V_def M_def same_shape_def mask01_def)
  then have "ret ! 0 ! 0 = (\<Sum>k < length (live [(1, 0, 1), (5, 7, 0), (2, 0, 1)]). fst (live [(1, 0, 1), (5, 7, 0), (2, 0, 1)] ! k))"
    by (auto simp: Let_def R_def V_def M_def dest!: spec [of _ 0])
  then have "ret ! 0 ! 0 = 3" by (simp add: live_def)
  with run show ?thesis by blast
qed

section \<open>Length-weighted baseline\<close>

text \<open>
  With OPO's length-weighted baseline the token advantages of a prompt with several responses cancel:
  summed over all tokens of all its responses they give zero.
\<close>

theorem opo_token_advantages_cancel:
  assumes run: "compute_opo_outcome_advantage rewards msk index = Inr (adv, ret)"
    and len: "length index = length rewards" "length msk = length rewards"
    and several: "card (group_of index ix) \<noteq> 1" and tokens: "0 < (\<Sum>i \<in> group_of index ix. sum_list (msk ! i))"
  shows "(\<Sum>i \<in> group_of index ix. sum_list (adv ! i)) = 0"
proof -
  let ?g = "group_of index ix"
  define s where "s = scores_of rewards"
  define l where "l = map sum_list msk"
  define B where "B = opo_baseline index s l ix"
  have lens: "length index = length s" "length index = length l" by (simp_all add: s_def l_def len)
  have adv: "adv = broadcast (map2 (\<lambda>s' ix. s' - opo_baseline index s l ix) s index) msk"
    using run by (auto simp: compute_opo_outcome_advantage_def Let_def s_def l_def)
  have row: "sum_list (adv ! i) = (s ! i - B) * l ! i" if "i \<in> ?g" for i
  proof -
    have "i < length rewards" "index ! i = ix" using that by (simp_all add: group_of_def len)
    then show ?thesis by (simp add: adv broadcast_def B_def s_def l_def len sum_list_const_mult)
  qed
  have ls: "(\<Sum>i \<in> ?g. l ! i) = (\<Sum>i \<in> ?g. sum_list (msk ! i))"
    by (rule sum.cong) (auto simp: group_of_def l_def len)
  have prod: "sum_list (map2 (*) (members index l ix) (members index s ix)) = (\<Sum>i \<in> ?g. l ! i * s ! i)"
  proof -
    have "map2 (*) (members index l ix) (members index s ix) = members index (map2 (*) l s) ix"
    proof -
      have l: "length l = length s" "length index = length (map2 (*) l s)" using lens by simp_all
      show ?thesis
        unfolding members_upt [OF lens(1)] members_upt [OF lens(2)] members_upt [OF l(2)] l(1) map2_map_map
        by (rule map_cong) (use l in auto)
    qed
    then have "sum_list (map2 (*) (members index l ix) (members index s ix)) = sum_list (map (\<lambda>x. x) (members index (map2 (*) l s) ix))"
      by simp
    also have "\<dots> = (\<Sum>i \<in> ?g. map2 (*) l s ! i)" by (rule sum_members) (use lens in simp)
    also have "\<dots> = (\<Sum>i \<in> ?g. l ! i * s ! i)" by (rule sum.cong) (use lens in \<open>auto simp: group_of_def\<close>)
    finally show ?thesis .
  qed
  have B: "B * (\<Sum>i \<in> ?g. l ! i) = (\<Sum>i \<in> ?g. l ! i * s ! i)"
    using several tokens sum_members [OF lens(2), of "\<lambda>x. x" ix]
    by (simp add: B_def opo_baseline_def key_log_id2list Let_def length_members lens(1) prod ls)
  have "(\<Sum>i \<in> ?g. sum_list (adv ! i)) = (\<Sum>i \<in> ?g. l ! i * s ! i) - B * (\<Sum>i \<in> ?g. l ! i)"
    by (simp add: row algebra_simps sum_subtractf sum_distrib_left)
  then show ?thesis using B by simp
qed

theorem opo_token_advantages_cancel_witness:
  "\<exists>adv. compute_opo_outcome_advantage [[0, 1], [0, 4]] [[1, 1], [1, 0]] [7, 7::nat] = Inr (adv, adv)
     \<and> (\<Sum>i \<in> group_of [7, 7::nat] 7. sum_list (adv ! i)) = 0"
proof -
  obtain adv where run: "compute_opo_outcome_advantage [[0, 1], [0, 4]] [[1, 1], [1, 0]] [7, 7::nat] = Inr (adv, adv)"
    by (simp add: compute_opo_outcome_advantage_def check_index_def Let_def)
  have two: "group_of [7, 7::nat] 7 = {0, 1}" by (auto simp: group_of_def less_Suc_eq nth_Cons')
  have "(\<Sum>i \<in> group_of [7, 7::nat] 7. sum_list (adv ! i)) = 0"
    by (rule opo_token_advantages_cancel [OF run]) (simp_all add: two)
  with run show ?thesis by blast
qed

end
