(* ===== verification/Policy_Losses.thy ===== *)
theory Policy_Losses
  imports Tensor_Ops
begin

text \<open>
  The losses of \<open>verl/trainer/ppo/core_algos.py\<close>: aggregation (\<open>agg_loss\<close>), the policy losses, the value loss,
  the KL penalties and the KL controllers. The model gives the values of the losses; \<open>detach\<close>, which only
  changes gradients, is the identity. An absent keyword argument is \<open>None\<close>.
\<close>

section \<open>KL controllers\<close>

record kl_ctrl_config =
  kc_type :: string
  kc_kl_coef :: real
  kc_target_kl :: real
  kc_horizon :: real

datatype kl_controller =
    AdaptiveKLController (kl_value: real) (kl_target: real) (kl_horizon: real)
  | FixedKLController (kl_value: real)

text \<open>\<open>np.clip\<close> and \<open>torch.clamp\<close>.\<close>

definition clamp :: "real \<Rightarrow> real \<Rightarrow> real \<Rightarrow> real" where
  "clamp lo hi x = min (max x lo) hi"

fun kl_update :: "real \<Rightarrow> real \<Rightarrow> kl_controller \<Rightarrow> kl_controller" where
  "kl_update current_kl n_steps (AdaptiveKLController v target horizon) =
     (let proportional_error = clamp (- 0.2) 0.2 (current_kl / target - 1);
          mult = 1 + proportional_error * n_steps / horizon
      in AdaptiveKLController (v * mult) target horizon)"
| "kl_update current_kl n_steps (FixedKLController v) = FixedKLController v"

definition get_kl_controller :: "kl_ctrl_config \<Rightarrow> kl_controller result" where
  "get_kl_controller c =
     (if kc_type c = ''fixed'' then Inr (FixedKLController (kc_kl_coef c))
      else if kc_type c = ''adaptive'' then
        (if kc_horizon c > 0 then Inr (AdaptiveKLController (kc_kl_coef c) (kc_target_kl c) (kc_horizon c))
         else Inl (AssertionError ''horizon must be larger than 0''))
      else Inl NotImplementedError)"

section \<open>Rewards and aggregation\<close>

definition compute_rewards :: "tensor \<Rightarrow> tensor \<Rightarrow> tensor \<Rightarrow> real \<Rightarrow> tensor" where
  "compute_rewards token_level_scores old_log_prob ref_log_prob kl_ratio =
     tmap2 (\<lambda>s kl. s - kl * kl_ratio) token_level_scores (tmap2 (-) old_log_prob ref_log_prob)"

record batch_info =
  bi_dp_size :: nat
  bi_batch_num_tokens :: "real option"
  bi_global_batch_size :: "real option"
  bi_loss_scale_factor :: "real option"

definition no_batch_info :: batch_info where
  "no_batch_info = \<lparr>bi_dp_size = 1, bi_batch_num_tokens = None, bi_global_batch_size = None, bi_loss_scale_factor = None\<rparr>"

text \<open>\<open>masked_sum\<close> on a vector, and a total that has to be given when there are several ranks.\<close>

definition masked_sum1 :: "real list \<Rightarrow> real list \<Rightarrow> real" where
  "masked_sum1 values msk = sum_list (map2 (\<lambda>v m. (if m \<noteq> 0 then v else 0) * m) values msk)"

definition global_total :: "string \<Rightarrow> nat \<Rightarrow> real option \<Rightarrow> real \<Rightarrow> real result" where
  "global_total what dp_size given local =
     (case given of
        Some n \<Rightarrow> Inr n
      | None \<Rightarrow> if dp_size > 1 then Inl (ValueError what) else Inr local)"

text \<open>\<open>agg_loss\<close>. The argument \<open>horizon\<close> is \<open>loss_mask.shape[-1]\<close>: a list of rows determines the width of a
  tensor only if it has a row, so the width, which every micro-batch and every shard of a batch shares, is passed beside it.\<close>

definition agg_loss :: "nat \<Rightarrow> tensor \<Rightarrow> tensor \<Rightarrow> string \<Rightarrow> batch_info \<Rightarrow> real result" where
  "agg_loss horizon loss_mat loss_mask loss_agg_mode info =
     (let dp_size = bi_dp_size info in
      if loss_agg_mode = ''token-mean'' then
        bind_r (global_total ''batch_num_tokens is required when dp_size > 1'' dp_size (bi_batch_num_tokens info) (tsum loss_mask))
          (\<lambda>n. Inr (masked_sum loss_mat loss_mask / n * real dp_size))
      else if loss_agg_mode = ''seq-mean-token-sum'' \<or> loss_agg_mode = ''seq-mean-token-sum-norm'' then
        (let seq_losses = map sum_list (tmap2 (*) loss_mat loss_mask);
             seq_mask = map (\<lambda>row. if sum_list row > 0 then 1 else 0) loss_mask
         in bind_r (global_total ''global_batch_size is required when dp_size > 1'' dp_size (bi_global_batch_size info) (sum_list seq_mask))
              (\<lambda>g. let loss = masked_sum1 seq_losses seq_mask / g * real dp_size in
                   Inr (if loss_agg_mode = ''seq-mean-token-sum-norm''
                        then loss / opt_default (real horizon) (bi_loss_scale_factor info) else loss)))
      else if loss_agg_mode = ''seq-mean-token-mean'' then
        (let seq_len = map sum_list loss_mask;
             seq_losses = map2 (\<lambda>s n. s / (n + 1 / 10 ^ 8)) (map sum_list (tmap2 (*) loss_mat loss_mask)) seq_len;
             seq_mask = map (\<lambda>n. if n > 0 then 1 else 0) seq_len
         in bind_r (global_total ''global_batch_size is required when dp_size > 1'' dp_size (bi_global_batch_size info) (sum_list seq_mask))
              (\<lambda>g. Inr (masked_sum1 seq_losses seq_mask / g * real dp_size)))
      else Inl (ValueError ''Invalid loss_agg_mode''))"

section \<open>The clipped policy loss\<close>

definition neg_approx_kl :: "real \<Rightarrow> real \<Rightarrow> real" where
  "neg_approx_kl log_prob old_log_prob = clamp (- 20) 20 (log_prob - old_log_prob)"

definition ppo_ratio :: "real \<Rightarrow> real \<Rightarrow> real" where
  "ppo_ratio log_prob old_log_prob = exp (neg_approx_kl log_prob old_log_prob)"

text \<open>One token: \<open>pg_losses1\<close>, \<open>pg_losses2\<close>, \<open>clip_pg_losses1\<close>, \<open>pg_losses3\<close> and \<open>pg_losses\<close>.\<close>

definition pg_loss1 :: "real \<Rightarrow> real \<Rightarrow> real" where
  "pg_loss1 A r = - A * r"

definition pg_loss2 :: "real \<Rightarrow> real \<Rightarrow> real \<Rightarrow> real \<Rightarrow> real" where
  "pg_loss2 lo hi A r = - A * clamp (1 - lo) (1 + hi) r"

definition clip_pg_loss1 :: "real \<Rightarrow> real \<Rightarrow> real \<Rightarrow> real \<Rightarrow> real" where
  "clip_pg_loss1 lo hi A r = max (pg_loss1 A r) (pg_loss2 lo hi A r)"

definition pg_token_loss :: "real \<Rightarrow> real \<Rightarrow> real \<Rightarrow> real \<Rightarrow> real \<Rightarrow> real" where
  "pg_token_loss lo hi c A r =
     (if A < 0 then min (- A * c) (clip_pg_loss1 lo hi A r) else clip_pg_loss1 lo hi A r)"

record pg_metrics =
  pm_clipfrac :: real
  pm_ppo_kl :: real
  pm_clipfrac_lower :: real

definition of_flag :: "bool \<Rightarrow> real" where
  "of_flag b = (if b then 1 else 0)"

definition clip_metrics :: "real \<Rightarrow> real \<Rightarrow> real \<Rightarrow> tensor \<Rightarrow> tensor \<Rightarrow> tensor \<Rightarrow> tensor \<Rightarrow> pg_metrics" where
  "clip_metrics lo hi c old_log_prob log_prob advantages msk =
     (let ratio = tmap2 ppo_ratio log_prob old_log_prob in
      \<lparr>pm_clipfrac = masked_mean (tmap2 (\<lambda>A r. of_flag (pg_loss2 lo hi A r > pg_loss1 A r)) advantages ratio) msk,
       pm_ppo_kl = masked_mean (tmap2 (\<lambda>l ol. - neg_approx_kl l ol) log_prob old_log_prob) msk,
       pm_clipfrac_lower =
         masked_mean (tmap2 (\<lambda>A r. of_flag (clip_pg_loss1 lo hi A r > - A * c) * of_flag (A < 0)) advantages ratio) msk\<rparr>)"

definition pg_losses :: "real \<Rightarrow> real \<Rightarrow> real \<Rightarrow> tensor \<Rightarrow> tensor \<Rightarrow> tensor \<Rightarrow> tensor" where
  "pg_losses lo hi c old_log_prob log_prob advantages =
     tmap2 (pg_token_loss lo hi c) advantages (tmap2 ppo_ratio log_prob old_log_prob)"

text \<open>The deprecated \<open>compute_policy_loss\<close>. Without a clip range the code fails on \<open>1 - None\<close>.\<close>

definition compute_policy_loss ::
  "nat \<Rightarrow> tensor \<Rightarrow> tensor \<Rightarrow> tensor \<Rightarrow> tensor \<Rightarrow> real option \<Rightarrow> real option \<Rightarrow> real option \<Rightarrow> real \<Rightarrow> string
     \<Rightarrow> (real \<times> pg_metrics) result" where
  "compute_policy_loss horizon old_log_prob log_prob advantages msk cliprange cliprange_low cliprange_high c mode =
     (if \<not> c > 1 then Inl (AssertionError ''clip_ratio_c'')
      else
        (case (case cliprange_low of Some x \<Rightarrow> Some x | None \<Rightarrow> cliprange,
               case cliprange_high of Some x \<Rightarrow> Some x | None \<Rightarrow> cliprange) of
           (Some lo, Some hi) \<Rightarrow>
             bind_r (agg_loss horizon (pg_losses lo hi c old_log_prob log_prob advantages) msk mode no_batch_info)
               (\<lambda>loss. Inr (loss, clip_metrics lo hi c old_log_prob log_prob advantages msk))
         | _ \<Rightarrow> Inl TypeError))"

record actor_config =
  ac_clip_ratio :: real
  ac_clip_ratio_low :: "real option"
  ac_clip_ratio_high :: "real option"
  ac_clip_ratio_c :: "real option"
  ac_global_batch_info :: batch_info

definition ratio_low :: "actor_config \<Rightarrow> real" where
  "ratio_low cfg = opt_default (ac_clip_ratio cfg) (ac_clip_ratio_low cfg)"

definition ratio_high :: "actor_config \<Rightarrow> real" where
  "ratio_high cfg = opt_default (ac_clip_ratio cfg) (ac_clip_ratio_high cfg)"

text \<open>The rollout correction weights, when there are any.\<close>

definition apply_is_weights :: "tensor option \<Rightarrow> tensor \<Rightarrow> tensor" where
  "apply_is_weights weights losses = (case weights of None \<Rightarrow> losses | Some w \<Rightarrow> tmap2 (*) losses w)"

definition compute_policy_loss_vanilla ::
  "nat \<Rightarrow> tensor \<Rightarrow> tensor \<Rightarrow> tensor \<Rightarrow> tensor \<Rightarrow> string \<Rightarrow> actor_config option \<Rightarrow> tensor option
     \<Rightarrow> (real \<times> pg_metrics) result" where
  "compute_policy_loss_vanilla horizon old_log_prob log_prob advantages msk mode config weights =
     (case config of
        None \<Rightarrow> Inl (AssertionError ''config is not None'')
      | Some cfg \<Rightarrow>
          (let lo = ratio_low cfg; hi = ratio_high cfg; c = opt_default 3 (ac_clip_ratio_c cfg) in
           if \<not> c > 1 then Inl (AssertionError ''clip_ratio_c'')
           else bind_r (agg_loss horizon (apply_is_weights weights (pg_losses lo hi c old_log_prob log_prob advantages)) msk mode
                          (ac_global_batch_info cfg))
                  (\<lambda>loss. Inr (loss, clip_metrics lo hi c old_log_prob log_prob advantages msk))))"

section \<open>Divergence-clipped and sequence-level losses\<close>

text \<open>DPPO: a token whose probability has moved too far in the direction of its advantage is dropped.\<close>

definition dppo_tv_valid :: "real \<Rightarrow> real \<Rightarrow> real \<Rightarrow> real \<Rightarrow> real \<Rightarrow> bool" where
  "dppo_tv_valid lo hi A l ol = (if A > 0 then exp l - exp ol \<le> hi else exp l - exp ol \<ge> - lo)"

definition binary_kl :: "real \<Rightarrow> real \<Rightarrow> real" where
  "binary_kl l ol = exp ol * (ol - l) + (1 - exp ol) * ln ((1 - exp ol + 1 / 10 ^ 8) / (1 - exp l + 1 / 10 ^ 8))"

definition dppo_kl_valid :: "real \<Rightarrow> real \<Rightarrow> real \<Rightarrow> real \<Rightarrow> real \<Rightarrow> bool" where
  "dppo_kl_valid lo hi A l ol =
     (if A > 0 then binary_kl l ol \<le> hi \<or> exp l \<le> exp ol else binary_kl l ol \<le> lo \<or> exp l \<ge> exp ol)"

definition dppo_loss ::
  "(real \<Rightarrow> real \<Rightarrow> real \<Rightarrow> real \<Rightarrow> real \<Rightarrow> bool) \<Rightarrow> nat \<Rightarrow> tensor \<Rightarrow> tensor \<Rightarrow> tensor \<Rightarrow> tensor \<Rightarrow> string
     \<Rightarrow> actor_config option \<Rightarrow> tensor option \<Rightarrow> (real \<times> pg_metrics) result" where
  "dppo_loss valid horizon old_log_prob log_prob advantages msk mode config weights =
     (case config of
        None \<Rightarrow> Inl (AssertionError ''config is not None'')
      | Some cfg \<Rightarrow>
          (let lo = ratio_low cfg; hi = ratio_high cfg; c = opt_default 20 (ac_clip_ratio_c cfg);
               ratio = tmap2 ppo_ratio log_prob old_log_prob;
               valid_mask = tmap2 (\<lambda>A (l, ol). of_flag (valid lo hi A l ol)) advantages (tmap2 Pair log_prob old_log_prob);
               losses = tmap2 (\<lambda>(A, v) (r, l). - A * min r c * l * v) (tmap2 Pair advantages valid_mask) (tmap2 Pair ratio log_prob)
           in bind_r (agg_loss horizon (apply_is_weights weights losses) msk mode (ac_global_batch_info cfg)) (\<lambda>loss.
                Inr (loss,
                  \<lparr>pm_clipfrac = masked_mean (map (map (\<lambda>v. 1 - v)) valid_mask) msk,
                   pm_ppo_kl = masked_mean (tmap2 (\<lambda>l ol. - neg_approx_kl l ol) log_prob old_log_prob) msk,
                   pm_clipfrac_lower = masked_mean (tmap2 (\<lambda>r v. of_flag (r > c) * v) ratio valid_mask) msk\<rparr>))))"

definition compute_policy_loss_dppo_tv ::
  "nat \<Rightarrow> tensor \<Rightarrow> tensor \<Rightarrow> tensor \<Rightarrow> tensor \<Rightarrow> string \<Rightarrow> actor_config option \<Rightarrow> tensor option
     \<Rightarrow> (real \<times> pg_metrics) result" where
  "compute_policy_loss_dppo_tv = dppo_loss dppo_tv_valid"

definition compute_policy_loss_dppo_kl ::
  "nat \<Rightarrow> tensor \<Rightarrow> tensor \<Rightarrow> tensor \<Rightarrow> tensor \<Rightarrow> string \<Rightarrow> actor_config option \<Rightarrow> tensor option
     \<Rightarrow> (real \<times> pg_metrics) result" where
  "compute_policy_loss_dppo_kl = dppo_loss dppo_kl_valid"

text \<open>GSPO: one importance ratio per sequence, the geometric mean of its token ratios.\<close>

definition gspo_ratio :: "real list \<Rightarrow> real list \<Rightarrow> real list \<Rightarrow> real" where
  "gspo_ratio log_prob old_log_prob row_mask =
     exp (min (sum_list (map2 (*) (map2 (-) log_prob old_log_prob) row_mask) / max (sum_list row_mask) 1) 10)"

definition gspo_ratios :: "tensor \<Rightarrow> tensor \<Rightarrow> tensor \<Rightarrow> tensor" where
  "gspo_ratios log_prob old_log_prob msk =
     map2 (\<lambda>l (ol, m). map (\<lambda>_. gspo_ratio l ol m) l) log_prob (zip old_log_prob msk)"

definition compute_policy_loss_gspo ::
  "nat \<Rightarrow> tensor \<Rightarrow> tensor \<Rightarrow> tensor \<Rightarrow> tensor \<Rightarrow> string \<Rightarrow> actor_config option \<Rightarrow> tensor option
     \<Rightarrow> (real \<times> pg_metrics) result" where
  "compute_policy_loss_gspo horizon old_log_prob log_prob advantages msk mode config weights =
     (case config of
        None \<Rightarrow> Inl (AssertionError ''config is not None'')
      | Some cfg \<Rightarrow>
          (let lo = ratio_low cfg; hi = ratio_high cfg;
               ratio = gspo_ratios log_prob old_log_prob msk;
               losses = tmap2 (clip_pg_loss1 lo hi) advantages ratio
           in bind_r (agg_loss horizon (apply_is_weights weights losses) msk ''seq-mean-token-mean'' (ac_global_batch_info cfg)) (\<lambda>loss.
                Inr (loss,
                  \<lparr>pm_clipfrac = masked_mean (tmap2 (\<lambda>A r. of_flag (pg_loss2 lo hi A r > pg_loss1 A r)) advantages ratio) msk,
                   pm_ppo_kl = masked_mean (tmap2 (\<lambda>l ol. - (l - ol)) log_prob old_log_prob) msk,
                   pm_clipfrac_lower = 0\<rparr>))))"

definition compute_policy_loss_cispo ::
  "nat \<Rightarrow> tensor \<Rightarrow> tensor \<Rightarrow> tensor \<Rightarrow> tensor \<Rightarrow> string \<Rightarrow> actor_config option \<Rightarrow> tensor option
     \<Rightarrow> (real \<times> pg_metrics) result" where
  "compute_policy_loss_cispo horizon old_log_prob log_prob advantages msk mode config weights =
     (case config of
        None \<Rightarrow> Inl (AssertionError ''config is not None'')
      | Some cfg \<Rightarrow>
          (let lo = ratio_low cfg; hi = ratio_high cfg;
               ratio = tmap2 ppo_ratio log_prob old_log_prob;
               clipped = map (map (clamp (1 - lo) (1 + hi))) ratio;
               losses = tmap2 (\<lambda>r (A, l). - r * A * l) clipped (tmap2 Pair advantages log_prob)
           in bind_r (agg_loss horizon (apply_is_weights weights losses) msk mode (ac_global_batch_info cfg)) (\<lambda>loss.
                Inr (loss,
                  \<lparr>pm_clipfrac = masked_mean (tmap2 (\<lambda>r r'. of_flag (r \<noteq> r')) ratio clipped) msk,
                   pm_ppo_kl = masked_mean (tmap2 (\<lambda>l ol. - neg_approx_kl l ol) log_prob old_log_prob) msk,
                   pm_clipfrac_lower = 0\<rparr>))))"

section \<open>Value loss and KL penalties\<close>

definition compute_value_loss ::
  "nat \<Rightarrow> tensor \<Rightarrow> tensor \<Rightarrow> tensor \<Rightarrow> tensor \<Rightarrow> real \<Rightarrow> string \<Rightarrow> (real \<times> real) result" where
  "compute_value_loss horizon vpreds returns values msk cliprange_value mode =
     (let vpredclipped = tmap2 (\<lambda>p v. clip_by_value p (v - cliprange_value) (v + cliprange_value)) vpreds values;
          vf_losses1 = tmap2 (\<lambda>p r. (p - r) ^ 2) vpreds returns;
          vf_losses2 = tmap2 (\<lambda>p r. (p - r) ^ 2) vpredclipped returns
      in bind_r (agg_loss horizon (tmap2 max vf_losses1 vf_losses2) msk mode no_batch_info) (\<lambda>loss.
           Inr (0.5 * loss, masked_mean (tmap2 (\<lambda>a b. of_flag (b > a)) vf_losses1 vf_losses2) msk)))"

definition kl_penalty_forward :: "real \<Rightarrow> real \<Rightarrow> string \<Rightarrow> real result" where
  "kl_penalty_forward logprob ref_logprob penalty =
     (if penalty = ''kl'' \<or> penalty = ''k1'' then Inr (logprob - ref_logprob)
      else if penalty = ''abs'' then Inr \<bar>logprob - ref_logprob\<bar>
      else if penalty = ''mse'' \<or> penalty = ''k2'' then Inr (0.5 * (logprob - ref_logprob) ^ 2)
      else if penalty = ''low_var_kl'' \<or> penalty = ''k3'' then
        (let kl = clamp (- 20) 20 (ref_logprob - logprob)
         in Inr (clamp (- 10) 10 (exp kl - kl - 1)))
      else Inl NotImplementedError)"

definition ends_plus :: "string \<Rightarrow> bool" where
  "ends_plus s \<longleftrightarrow> s \<noteq> [] \<and> last s = CHR ''+''"

definition kl_penalty :: "real \<Rightarrow> real \<Rightarrow> string \<Rightarrow> real result" where
  "kl_penalty logprob ref_logprob penalty =
     bind_r (kl_penalty_forward logprob ref_logprob (if ends_plus penalty then butlast penalty else penalty)) (\<lambda>forward_score.
       if \<not> ends_plus penalty \<or> penalty = ''mse'' \<or> penalty = ''k2'' then Inr forward_score
       else
         (let backward_score = 0.5 * (logprob - ref_logprob) ^ 2
          in Inr (backward_score - backward_score + forward_score)))"

section \<open>Facts about the policy loss\<close>

lemma mult_max_distrib: "0 \<le> (a::real) \<Longrightarrow> max (a * x) (a * y) = a * max x y"
  by (simp add: max_mult_distrib_left)

lemma mult_min_distrib: "0 \<le> (a::real) \<Longrightarrow> min (a * x) (a * y) = a * min x y"
  by (simp add: min_mult_distrib_left)

lemma pg_token_loss_positive:
  assumes "0 \<le> A" "0 \<le> lo" "0 \<le> hi"
  shows "pg_token_loss lo hi c A r = - A * min r (1 + hi)"
proof -
  have "clip_pg_loss1 lo hi A r = max (- (A * r)) (- (A * clamp (1 - lo) (1 + hi) r))"
    by (simp add: clip_pg_loss1_def pg_loss1_def pg_loss2_def)
  also have "\<dots> = - (A * min r (clamp (1 - lo) (1 + hi) r))"
    by (simp add: mult_min_distrib [OF assms(1), symmetric] minus_min_eq_max)
  also have "min r (clamp (1 - lo) (1 + hi) r) = min r (1 + hi)" using assms by (auto simp: clamp_def)
  finally show ?thesis using assms(1) by (simp add: pg_token_loss_def)
qed

lemma pg_token_loss_negative:
  assumes "A < 0" "0 \<le> lo" "0 \<le> hi"
  shows "pg_token_loss lo hi c A r = - A * min c (max r (1 - lo))"
proof -
  have nonneg: "0 \<le> - A" using assms(1) by simp
  have "clip_pg_loss1 lo hi A r = - A * max r (clamp (1 - lo) (1 + hi) r)"
    unfolding clip_pg_loss1_def pg_loss1_def pg_loss2_def by (rule mult_max_distrib [OF nonneg])
  also have "max r (clamp (1 - lo) (1 + hi) r) = max r (1 - lo)" using assms by (auto simp: clamp_def)
  finally show ?thesis using assms(1) mult_min_distrib [OF nonneg, of c] by (simp add: pg_token_loss_def)
qed

lemma ppo_ratio_bounds: "0 < ppo_ratio l ol" "exp (- 20) \<le> ppo_ratio l ol" "ppo_ratio l ol \<le> exp 20"
  by (simp_all add: ppo_ratio_def neg_approx_kl_def clamp_def)

text \<open>
  The dual-clipped loss of one token, as \<open>compute_policy_loss_vanilla\<close> evaluates it, is the textbook one:
  a non-negative advantage is weighted with the probability ratio cut off at \<open>1 + clip_ratio_high\<close>, a negative one
  with the ratio kept between \<open>1 - clip_ratio_low\<close> and \<open>clip_ratio_c\<close>. So however far the policies are apart the
  loss is at most the advantage times the larger of the two upper cut-offs.
\<close>

theorem dual_clip_loss:
  assumes "0 \<le> lo" "0 \<le> hi" "1 < c"
    and "length log_prob = length advantages" "length old_log_prob = length advantages"
    and "i < length advantages" "t < length (advantages ! i)" "t < length (log_prob ! i)" "t < length (old_log_prob ! i)"
  shows "let A = advantages ! i ! t; r = ppo_ratio (log_prob ! i ! t) (old_log_prob ! i ! t);
             loss = pg_losses lo hi c old_log_prob log_prob advantages ! i ! t
         in loss = (if A < 0 then - A * min c (max r (1 - lo)) else - A * min r (1 + hi))
            \<and> \<bar>loss\<bar> \<le> \<bar>A\<bar> * max c (1 + hi) \<and> 0 < r \<and> r \<le> exp 20"
proof -
  define A r where "A = advantages ! i ! t" and "r = ppo_ratio (log_prob ! i ! t) (old_log_prob ! i ! t)"
  have at: "pg_losses lo hi c old_log_prob log_prob advantages ! i ! t = pg_token_loss lo hi c A r"
    using assms by (simp add: pg_losses_def A_def r_def)
  have r: "0 < r" "r \<le> exp 20" by (simp_all add: r_def ppo_ratio_bounds)
  have loss: "pg_token_loss lo hi c A r = (if A < 0 then - A * min c (max r (1 - lo)) else - A * min r (1 + hi))"
    using assms(1,2) by (simp add: pg_token_loss_positive pg_token_loss_negative)
  have "\<bar>w\<bar> \<le> max c (1 + hi)" if "w = min c (max r (1 - lo)) \<or> w = min r (1 + hi)" for w
    using that r assms(1-3) by (auto simp: abs_le_iff)
  then have "\<bar>pg_token_loss lo hi c A r\<bar> \<le> \<bar>A\<bar> * max c (1 + hi)"
    unfolding loss by (auto simp: abs_mult intro!: mult_left_mono simp del: min_def max_def)
  then show ?thesis unfolding at Let_def A_def [symmetric] r_def [symmetric] using loss r by simp
qed

theorem dual_clip_loss_witness: "pg_losses 0.2 0.3 3 [[0]] [[0]] [[- 2]] ! 0 ! 0 = 2"
proof -
  have "ppo_ratio 0 0 = 1" by (simp add: ppo_ratio_def neg_approx_kl_def clamp_def)
  then show ?thesis
    using dual_clip_loss [of "0.2" "0.3" 3 "[[0]]" "[[- 2]]" "[[0]]" 0 0] by (simp add: Let_def)
qed

section \<open>Facts about aggregation\<close>

definition given_totals :: "batch_info \<Rightarrow> bool" where
  "given_totals info \<longleftrightarrow> bi_batch_num_tokens info \<noteq> None \<and> bi_global_batch_size info \<noteq> None"

definition agg_modes :: "string list" where
  "agg_modes = [''token-mean'', ''seq-mean-token-sum'', ''seq-mean-token-sum-norm'', ''seq-mean-token-mean'']"

text \<open>What one sequence adds to the aggregated loss of a single rank.\<close>

definition row_loss :: "nat \<Rightarrow> string \<Rightarrow> batch_info \<Rightarrow> real list \<times> real list \<Rightarrow> real" where
  "row_loss horizon mode info = (\<lambda>(l, m).
     if mode = ''token-mean'' then masked_sum1 l m / the (bi_batch_num_tokens info)
     else
       (let token_sum = sum_list (map2 (*) l m); live = (if sum_list m > 0 then 1 else 0);
            s = (if mode = ''seq-mean-token-mean'' then token_sum / (sum_list m + 1 / 10 ^ 8) else token_sum);
            g = s * live / the (bi_global_batch_size info)
        in if mode = ''seq-mean-token-sum-norm'' then g / opt_default (real horizon) (bi_loss_scale_factor info) else g))"

lemma masked_sum1_rows:
  "masked_sum1 (map f xs) (map g xs) = sum_list (map (\<lambda>x. f x * of_flag (g x \<noteq> 0) * g x) xs)"
  unfolding masked_sum1_def map2_map_map by (rule arg_cong [where f = sum_list]) (simp add: of_flag_def)

lemma sum_list_scale: "sum_list (map (\<lambda>x. f x / (g::real)) xs) = sum_list (map f xs) / g"
  by (induction xs) (simp_all add: add_divide_distrib)

lemma agg_loss_rows:
  assumes "mode \<in> set agg_modes" "given_totals info" "length loss_mat = length loss_mask"
  shows "agg_loss horizon loss_mat loss_mask mode info
       = Inr (sum_list (map (row_loss horizon mode info) (zip loss_mat loss_mask)) * real (bi_dp_size info))"
proof -
  obtain N G where NG: "bi_batch_num_tokens info = Some N" "bi_global_batch_size info = Some G"
    using assms(2) by (auto simp: given_totals_def)
  define ps where "ps = zip loss_mat loss_mask"
  have ps: "loss_mat = map fst ps" "loss_mask = map snd ps" using assms(3) by (simp_all add: ps_def)
  define live where "live p = (if sum_list (snd p) > 0 then 1 else 0 :: real)" for p :: "real list \<times> real list"
  define s where "s p = sum_list (map2 (*) (fst p) (snd p))" for p :: "real list \<times> real list"
  have sums: "map sum_list (tmap2 (*) (map fst ps) (map snd ps)) = map s ps"
    unfolding map2_map_map by (simp add: s_def)
  have seq: "masked_sum1 (map f ps) (map live ps) = sum_list (map (\<lambda>p. f p * live p) ps)" for f
    unfolding masked_sum1_rows by (rule arg_cong [where f = sum_list]) (simp add: of_flag_def live_def)
  have mask: "map (\<lambda>row. if sum_list row > 0 then 1 else 0) (map snd ps) = map live ps" by (simp add: live_def)
  have ms: "masked_sum (map fst ps) (map snd ps) = sum_list (map (\<lambda>p. masked_sum1 (fst p) (snd p)) ps)"
    unfolding masked_sum_def tsum_def map2_map_map masked_sum1_def by (simp add: o_def)
  have sums1: "masked_sum1 (map sum_list (tmap2 (*) loss_mat loss_mask)) (map (\<lambda>row. if sum_list row > 0 then 1 else 0) loss_mask)
      = sum_list (map (\<lambda>p. s p * live p) ps)"
    unfolding ps sums mask seq ..
  have means1: "masked_sum1 (map2 (\<lambda>s n. s / (n + 1 / 10 ^ 8)) (map sum_list (tmap2 (*) loss_mat loss_mask)) (map sum_list loss_mask))
        (map (\<lambda>n. if n > 0 then 1 else 0) (map sum_list loss_mask))
      = sum_list (map (\<lambda>p. s p / (sum_list (snd p) + 1 / 10 ^ 8) * live p) ps)"
  proof -
    have "map (\<lambda>n. if n > 0 then 1 else 0) (map sum_list (map snd ps)) = map live ps" by (simp add: live_def)
    then show ?thesis unfolding ps sums map_map map2_map_map by (simp only: seq o_def s_def)
  qed
  have row: "row_loss horizon mode info p =
      (if mode = ''token-mean'' then masked_sum1 (fst p) (snd p) / N
       else if mode = ''seq-mean-token-mean'' then s p / (sum_list (snd p) + 1 / 10 ^ 8) * live p / G
       else if mode = ''seq-mean-token-sum-norm'' then s p * live p / G / opt_default (real horizon) (bi_loss_scale_factor info)
       else s p * live p / G)" for p
    by (cases p) (simp add: row_loss_def NG s_def live_def)
  consider "mode = ''token-mean''" | "mode = ''seq-mean-token-sum''" | "mode = ''seq-mean-token-sum-norm''"
    | "mode = ''seq-mean-token-mean''"
    using assms(1) by (auto simp: agg_modes_def)
  then show ?thesis
    unfolding agg_loss_def Let_def sums1 means1 unfolding ps_def [symmetric] row NG global_total_def
    by cases (simp_all add: ms [folded ps] sum_list_scale del: divide_divide_eq_left times_divide_eq_left,
        simp add: field_simps)
qed

lemma agg_loss_shards:
  assumes "mode \<in> set agg_modes" "given_totals info" "0 < bi_dp_size info"
    and shards: "\<forall>(l, m) \<in> set shards. length l = length m"
  shows "\<exists>losses total. map_r (\<lambda>(l, m). agg_loss horizon l m mode info) shards = Inr losses
    \<and> agg_loss horizon (concat (map fst shards)) (concat (map snd shards)) mode (info\<lparr>bi_dp_size := 1\<rparr>) = Inr total
    \<and> sum_list losses / real (bi_dp_size info) = total"
proof -
  let ?row = "row_loss horizon mode info"
  let ?one = "info\<lparr>bi_dp_size := 1\<rparr>"
  have row1: "row_loss horizon mode ?one = ?row" by (simp add: row_loss_def fun_eq_iff Let_def)
  have given1: "given_totals ?one" using assms(2) by (simp add: given_totals_def)
  define f where "f p = sum_list (map ?row (zip (fst p) (snd p))) * real (bi_dp_size info)" for p :: "tensor \<times> tensor"
  have parts: "map_r (\<lambda>(l, m). agg_loss horizon l m mode info) shards = Inr (map f shards)"
    by (rule map_r_Inr) (use shards in \<open>auto simp: f_def agg_loss_rows [OF assms(1,2)]\<close>)
  have lens: "length (concat (map fst shards)) = length (concat (map snd shards))
      \<and> zip (concat (map fst shards)) (concat (map snd shards)) = concat (map (\<lambda>p. zip (fst p) (snd p)) shards)"
    using shards by (induction shards) auto
  then have whole: "agg_loss horizon (concat (map fst shards)) (concat (map snd shards)) mode ?one
      = Inr (sum_list (map ?row (concat (map (\<lambda>p. zip (fst p) (snd p)) shards))))"
    unfolding agg_loss_rows [OF assms(1) given1 conjunct1 [OF lens]] row1 by simp
  have "sum_list (map f shards) = sum_list (map ?row (concat (map (\<lambda>p. zip (fst p) (snd p)) shards))) * real (bi_dp_size info)"
    by (induction shards) (simp_all add: f_def distrib_right)
  then have "sum_list (map f shards) / real (bi_dp_size info) = sum_list (map ?row (concat (map (\<lambda>p. zip (fst p) (snd p)) shards)))"
    using assms(3) by simp
  then show ?thesis using parts whole by blast
qed

text \<open>
  [C32] \<open>agg_loss\<close> is invariant to parallelism in every aggregation mode: when the batch is spread over shards (the
  ranks' micro-batches, in any number and of any sizes) and every shard is aggregated with the batch-wide totals
  and the number of ranks, the average over the ranks of the accumulated losses is the loss of the whole batch
  on one rank. With several ranks and no batch-wide totals it refuses to aggregate, as it does in an unknown
  mode.
\<close>

theorem agg_loss_parallelism_invariant:
  "(mode \<in> set agg_modes \<longrightarrow> given_totals info \<longrightarrow> 0 < bi_dp_size info \<longrightarrow>
      (\<forall>(l, m) \<in> set shards. length l = length m) \<longrightarrow>
      (\<exists>losses total. map_r (\<lambda>(l, m). agg_loss horizon l m mode info) shards = Inr losses
        \<and> agg_loss horizon (concat (map fst shards)) (concat (map snd shards)) mode (info\<lparr>bi_dp_size := 1\<rparr>) = Inr total
        \<and> sum_list losses / real (bi_dp_size info) = total))
   \<and> (1 < bi_dp_size info \<longrightarrow> bi_batch_num_tokens info = None \<longrightarrow> bi_global_batch_size info = None \<longrightarrow>
        (\<exists>e. agg_loss horizon lm mm mode info = Inl e))
   \<and> (mode \<notin> set agg_modes \<longrightarrow> agg_loss horizon lm mm mode info = Inl (ValueError ''Invalid loss_agg_mode''))"
proof -
  have "\<exists>e. agg_loss horizon lm mm mode info = Inl e"
    if "1 < bi_dp_size info" "bi_batch_num_tokens info = None" "bi_global_batch_size info = None"
    using that by (simp add: agg_loss_def Let_def global_total_def)
  moreover have "agg_loss horizon lm mm mode info = Inl (ValueError ''Invalid loss_agg_mode'')" if "mode \<notin> set agg_modes"
    using that by (simp add: agg_loss_def Let_def agg_modes_def)
  ultimately show ?thesis using agg_loss_shards by blast
qed

theorem agg_loss_parallelism_invariant_witness:
  "\<exists>losses total. map_r (\<lambda>(l, m). agg_loss 2 l m ''token-mean''
        \<lparr>bi_dp_size = 2, bi_batch_num_tokens = Some 3, bi_global_batch_size = Some 2, bi_loss_scale_factor = None\<rparr>)
        [([[1, 5]], [[1, 1]]), ([[3, 7]], [[1, 0]])] = Inr losses
     \<and> agg_loss 2 [[1, 5], [3, 7]] [[1, 1], [1, 0]] ''token-mean''
        \<lparr>bi_dp_size = 1, bi_batch_num_tokens = Some 3, bi_global_batch_size = Some 2, bi_loss_scale_factor = None\<rparr> = Inr total
     \<and> sum_list losses / 2 = total"
  using agg_loss_parallelism_invariant [where mode = "''token-mean''" and horizon = 2
      and info = "\<lparr>bi_dp_size = 2, bi_batch_num_tokens = Some 3, bi_global_batch_size = Some 2, bi_loss_scale_factor = None\<rparr>"
      and shards = "[([[1, 5]], [[1, 1]]), ([[3, 7]], [[1, 0]])]"]
  by (simp add: agg_modes_def given_totals_def)

section \<open>Facts about the KL terms\<close>

lemma exp_sub_self: "(x::real) \<noteq> 0 \<Longrightarrow> 0 < exp x - x - 1"
proof -
  assume x: "x \<noteq> 0"
  have a: "1 + y \<le> exp y" for y :: real by (rule exp_ge_add_one_self)
  have half: "(1 + x / 2)\<^sup>2 = 1 + x + x\<^sup>2 / 4" by (simp add: power2_eq_square algebra_simps)
  show ?thesis
  proof (cases "- 2 \<le> x")
    case True
    then have "(1 + x / 2)\<^sup>2 \<le> (exp (x / 2))\<^sup>2" by (intro power_mono a) simp
    also have "(exp (x / 2))\<^sup>2 = exp x" by (simp add: power2_eq_square flip: exp_add)
    finally have "1 + x + x\<^sup>2 / 4 \<le> exp x" unfolding half .
    moreover have "0 < x\<^sup>2 / 4" using x by simp
    ultimately show ?thesis by linarith
  next
    case False
    then show ?thesis using exp_gt_zero [of x] by linarith
  qed
qed

lemma kl_penalty_plain: "\<not> ends_plus p \<Longrightarrow> kl_penalty l rl p = kl_penalty_forward l rl p"
  by (cases "kl_penalty_forward l rl p") (simp_all add: kl_penalty_def)

lemma kl_penalty_plus: "kl_penalty l rl (p @ ''+'') = kl_penalty_forward l rl p"
  by (cases "kl_penalty_forward l rl p") (simp_all add: kl_penalty_def ends_plus_def)

text \<open>
  The KL penalties that the actor loss uses: \<open>abs\<close>, \<open>k2\<close> and \<open>k3\<close> are never negative and vanish exactly when
  the two log-probabilities agree, \<open>k3\<close> never exceeds 10, a \<open>+\<close> suffix does not change the value of the penalty, and
  every other name is refused.
\<close>

theorem kl_penalty_values:
  "(p \<in> {''abs'', ''mse'', ''k2'', ''low_var_kl'', ''k3''} \<longrightarrow>
      (\<exists>v. kl_penalty l rl p = Inr v \<and> kl_penalty l rl (p @ ''+'') = Inr v \<and> 0 \<le> v \<and> (v = 0 \<longleftrightarrow> l = rl)
         \<and> (p \<in> {''low_var_kl'', ''k3''} \<longrightarrow> v \<le> 10)))
   \<and> (p \<in> {''kl'', ''k1''} \<longrightarrow> kl_penalty l rl p = Inr (l - rl) \<and> kl_penalty l rl (p @ ''+'') = Inr (l - rl))
   \<and> (p \<notin> {''kl'', ''k1'', ''abs'', ''mse'', ''k2'', ''low_var_kl'', ''k3''} \<longrightarrow> \<not> ends_plus p \<longrightarrow>
        kl_penalty l rl p = Inl NotImplementedError)"
proof -
  have k3: "\<exists>v. kl_penalty l rl p = Inr v \<and> kl_penalty l rl (p @ ''+'') = Inr v \<and> 0 \<le> v \<and> (v = 0 \<longleftrightarrow> l = rl) \<and> v \<le> 10"
    if "p \<in> {''low_var_kl'', ''k3''}"
  proof -
    define x where "x = clamp (- 20) 20 (rl - l)"
    have z: "x = 0 \<longleftrightarrow> l = rl" by (auto simp: x_def clamp_def min_def max_def)
    have nn: "0 \<le> exp x - x - 1" "exp x - x - 1 = 0 \<longleftrightarrow> x = 0"
      using exp_sub_self [of x] by (cases "x = 0"; simp)+
    have "\<not> ends_plus p" "kl_penalty_forward l rl p = Inr (clamp (- 10) 10 (exp x - x - 1))"
      using that by (auto simp: kl_penalty_forward_def Let_def ends_plus_def x_def)
    then have "kl_penalty l rl p = Inr (clamp (- 10) 10 (exp x - x - 1)) \<and> kl_penalty l rl (p @ ''+'') = Inr (clamp (- 10) 10 (exp x - x - 1))"
      by (simp add: kl_penalty_plain kl_penalty_plus)
    moreover have "0 \<le> clamp (- 10) 10 (exp x - x - 1)" "clamp (- 10) 10 (exp x - x - 1) \<le> 10"
      "clamp (- 10) 10 (exp x - x - 1) = 0 \<longleftrightarrow> exp x - x - 1 = 0"
      using nn(1) by (auto simp: clamp_def min_def max_def)
    ultimately show ?thesis using nn(2) z by blast
  qed
  have other: "\<exists>v. kl_penalty l rl p = Inr v \<and> kl_penalty l rl (p @ ''+'') = Inr v \<and> 0 \<le> v \<and> (v = 0 \<longleftrightarrow> l = rl)"
    if "p \<in> {''abs'', ''mse'', ''k2''}"
  proof -
    define v where "v = (if p = ''abs'' then \<bar>l - rl\<bar> else 0.5 * (l - rl) ^ 2)"
    have "\<not> ends_plus p" "kl_penalty_forward l rl p = Inr v"
      using that by (auto simp: kl_penalty_forward_def ends_plus_def v_def)
    moreover have "0 \<le> v" "v = 0 \<longleftrightarrow> l = rl" by (simp_all add: v_def)
    ultimately show ?thesis by (simp add: kl_penalty_plain kl_penalty_plus)
  qed
  have k1: "kl_penalty l rl p = Inr (l - rl) \<and> kl_penalty l rl (p @ ''+'') = Inr (l - rl)" if "p \<in> {''kl'', ''k1''}"
    using that by (auto simp: kl_penalty_plus kl_penalty_plain kl_penalty_forward_def ends_plus_def)
  have bad: "kl_penalty l rl p = Inl NotImplementedError"
    if "p \<notin> {''kl'', ''k1'', ''abs'', ''mse'', ''k2'', ''low_var_kl'', ''k3''}" "\<not> ends_plus p"
    using that by (simp add: kl_penalty_plain kl_penalty_forward_def)
  have "\<exists>v. kl_penalty l rl p = Inr v \<and> kl_penalty l rl (p @ ''+'') = Inr v \<and> 0 \<le> v \<and> (v = 0 \<longleftrightarrow> l = rl)
      \<and> (p \<in> {''low_var_kl'', ''k3''} \<longrightarrow> v \<le> 10)" if p: "p \<in> {''abs'', ''mse'', ''k2'', ''low_var_kl'', ''k3''}"
  proof (cases "p \<in> {''low_var_kl'', ''k3''}")
    case True
    then show ?thesis using k3 by blast
  next
    case False
    then have "p \<in> {''abs'', ''mse'', ''k2''}" using p by blast
    then show ?thesis using other False by blast
  qed
  then show ?thesis using k1 bad by blast
qed

theorem kl_penalty_values_witness:
  "\<exists>v. kl_penalty 1 0 ''k3'' = Inr v \<and> kl_penalty 1 0 (''k3'' @ ''+'') = Inr v \<and> 0 \<le> v \<and> v \<noteq> 0 \<and> v \<le> 10"
  using kl_penalty_values [of "''k3''" 1 0] by auto

definition kl_run :: "(real \<times> real) list \<Rightarrow> kl_controller \<Rightarrow> kl_controller" where
  "kl_run steps ctrl = fold (\<lambda>(kl, n). kl_update kl n) steps ctrl"

lemma clamp_sign: "0 < x \<Longrightarrow> 0 < clamp (- 0.2) 0.2 x" "x < 0 \<Longrightarrow> clamp (- 0.2) 0.2 x < 0"
  unfolding clamp_def min_def max_def by auto

lemma adaptive_step:
  assumes "0 < v" "0 < target" "0 < horizon" "0 \<le> n" "n < 5 * horizon"
  obtains v' where "kl_update kl n (AdaptiveKLController v target horizon) = AdaptiveKLController v' target horizon"
    "0 < v'" "\<bar>v' - v\<bar> \<le> 0.2 * v * n / horizon" "kl > target \<Longrightarrow> v \<le> v'" "kl < target \<Longrightarrow> v' \<le> v"
    "kl > target \<Longrightarrow> 0 < n \<Longrightarrow> v < v'"
proof -
  define e where "e = clamp (- 0.2) 0.2 (kl / target - 1)"
  have rel: "kl > target \<Longrightarrow> 0 < kl / target - 1" "kl < target \<Longrightarrow> kl / target - 1 < 0"
    using assms(2) by (simp_all add: field_simps)
  have "- 0.2 \<le> e" "e \<le> 0.2" unfolding e_def clamp_def by (simp_all only: min.bounded_iff min.cobounded2 max.cobounded2) simp
  then have e: "\<bar>e\<bar> \<le> 0.2" by linarith
  have e_sign: "kl > target \<Longrightarrow> 0 < e" "kl < target \<Longrightarrow> e < 0"
    using clamp_sign [of "kl / target - 1"] rel by (simp_all add: e_def)
  define q where "q = n / horizon"
  have q: "0 \<le> q" "q < 5" "0 < n \<Longrightarrow> 0 < q" using assms by (simp_all add: q_def field_simps)
  have eq: "\<bar>e * q\<bar> \<le> 0.2 * q" using mult_right_mono [OF e q(1)] q(1) by (simp add: abs_mult)
  then have pos: "0 < 1 + e * q" using q(2) by (simp add: abs_le_iff)
  have upd: "kl_update kl n (AdaptiveKLController v target horizon) = AdaptiveKLController (v * (1 + e * q)) target horizon"
    by (simp add: e_def q_def Let_def)
  have diff: "v * (1 + e * q) - v = v * (e * q)" by (simp add: algebra_simps)
  have "\<bar>v * (1 + e * q) - v\<bar> \<le> v * (0.2 * q)"
  proof -
    have "\<bar>v * (e * q)\<bar> = v * \<bar>e * q\<bar>" using assms(1) by (simp add: abs_mult)
    then show ?thesis unfolding diff using mult_left_mono [OF eq, of v] assms(1) by simp
  qed
  then have "\<bar>v * (1 + e * q) - v\<bar> \<le> 0.2 * v * n / horizon" by (simp add: q_def)
  moreover have "v \<le> v * (1 + e * q)" if "kl > target"
    using assms(1) q(1) e_sign(1) [OF that] by (simp add: distrib_left)
  moreover have "v * (1 + e * q) \<le> v" if "kl < target"
    using assms(1) q(1) e_sign(2) [OF that] by (simp add: distrib_left mult_nonneg_nonpos mult_nonpos_nonneg)
  moreover have "v < v * (1 + e * q)" if "kl > target" "0 < n"
    using assms(1) q(3) [OF that(2)] e_sign(1) [OF that(1)] by (simp add: distrib_left)
  moreover have "0 < v * (1 + e * q)" using assms(1) pos by simp
  ultimately show ?thesis using that [OF upd] by blast
qed

text \<open>
  The adaptive KL controller keeps its coefficient positive along every run in which no update covers five
  horizons or more, and each update moves it towards the target: up when the measured KL is above the
  target, down when it is below, never by more than a fifth per horizon.
\<close>

theorem kl_controller_stays_positive:
  assumes "get_kl_controller c = Inr ctrl" "0 < kc_kl_coef c" "0 < kc_target_kl c"
    and "\<forall>(kl, n) \<in> set steps. 0 \<le> n \<and> n < 5 * kc_horizon c"
  shows "0 < kl_value (kl_run steps ctrl) \<and>
    (\<forall>kl n. 0 \<le> n \<longrightarrow> n < 5 * kc_horizon c \<longrightarrow> kl > kc_target_kl c \<longrightarrow>
       kl_value (kl_run steps ctrl) \<le> kl_value (kl_update kl n (kl_run steps ctrl)))
    \<and> (\<forall>kl n. 0 \<le> n \<longrightarrow> n < 5 * kc_horizon c \<longrightarrow> kl < kc_target_kl c \<longrightarrow>
       kl_value (kl_update kl n (kl_run steps ctrl)) \<le> kl_value (kl_run steps ctrl))"
proof (cases "kc_type c = ''fixed''")
  case True
  then have ctrl: "ctrl = FixedKLController (kc_kl_coef c)" using assms(1) by (simp add: get_kl_controller_def)
  have "kl_run steps (FixedKLController v) = FixedKLController v" for v
    unfolding kl_run_def by (induction steps) auto
  then show ?thesis using assms(2) by (simp add: ctrl)
next
  case False
  then have hor: "0 < kc_horizon c" and ctrl: "ctrl = AdaptiveKLController (kc_kl_coef c) (kc_target_kl c) (kc_horizon c)"
    using assms(1) by (auto simp: get_kl_controller_def split: if_splits)
  have "\<exists>v'. kl_run steps (AdaptiveKLController v (kc_target_kl c) (kc_horizon c))
      = AdaptiveKLController v' (kc_target_kl c) (kc_horizon c) \<and> 0 < v'" if "0 < v" for v
    using that assms(4)
  proof (induction steps arbitrary: v)
    case (Cons s steps)
    obtain kl n where s: "s = (kl, n)" by force
    have n: "0 \<le> n" "n < 5 * kc_horizon c" using Cons.prems(2) by (auto simp: s)
    obtain v' where "kl_update kl n (AdaptiveKLController v (kc_target_kl c) (kc_horizon c))
        = AdaptiveKLController v' (kc_target_kl c) (kc_horizon c)" "0 < v'"
      using adaptive_step [OF Cons.prems(1) assms(3) hor n] by metis
    then show ?case using Cons.IH [of v'] Cons.prems(2) by (simp add: s kl_run_def)
  qed (simp add: kl_run_def)
  then obtain v' where run: "kl_run steps ctrl = AdaptiveKLController v' (kc_target_kl c) (kc_horizon c)" "0 < v'"
    using ctrl assms(2) by blast
  have up: "v' \<le> kl_value (kl_update kl n (AdaptiveKLController v' (kc_target_kl c) (kc_horizon c)))"
    if n: "0 \<le> n" "n < 5 * kc_horizon c" and kl: "kl > kc_target_kl c" for kl n
    by (rule adaptive_step [OF run(2) assms(3) hor n, of kl]) (use kl in simp)
  have down: "kl_value (kl_update kl n (AdaptiveKLController v' (kc_target_kl c) (kc_horizon c))) \<le> v'"
    if n: "0 \<le> n" "n < 5 * kc_horizon c" and kl: "kl < kc_target_kl c" for kl n
    by (rule adaptive_step [OF run(2) assms(3) hor n, of kl]) (use kl in simp)
  show ?thesis unfolding run(1) using run(2) up down by simp
qed

theorem kl_controller_stays_positive_witness:
  "\<exists>ctrl. get_kl_controller \<lparr>kc_type = ''adaptive'', kc_kl_coef = 1, kc_target_kl = 2, kc_horizon = 10\<rparr> = Inr ctrl
     \<and> 0 < kl_value (kl_run [(5, 1), (0, 3)] ctrl)"
proof -
  let ?c = "\<lparr>kc_type = ''adaptive'', kc_kl_coef = 1, kc_target_kl = 2, kc_horizon = 10\<rparr>"
  obtain ctrl where run: "get_kl_controller ?c = Inr ctrl" by (simp add: get_kl_controller_def)
  have "0 < kl_value (kl_run [(5, 1), (0, 3)] ctrl)"
    using kl_controller_stays_positive [OF run, of "[(5, 1), (0, 3)]"] by simp
  with run show ?thesis by blast
qed

section \<open>The deprecated entry point\<close>

text \<open>The deprecated \<open>compute_policy_loss\<close> is the vanilla loss on one rank without correction weights.\<close>

lemma deprecated_policy_loss:
  assumes "ac_global_batch_info cfg = no_batch_info" "ac_clip_ratio_c cfg = Some c"
  shows "compute_policy_loss horizon old_log_prob log_prob advantages msk (Some (ac_clip_ratio cfg)) (ac_clip_ratio_low cfg)
           (ac_clip_ratio_high cfg) c mode
       = compute_policy_loss_vanilla horizon old_log_prob log_prob advantages msk mode (Some cfg) None"
  by (auto simp: compute_policy_loss_def compute_policy_loss_vanilla_def assms ratio_low_def ratio_high_def Let_def
      apply_is_weights_def split: option.splits)

end
