(* ===== verification/Padding.thy ===== *)
theory Padding
  imports Tensor_Ops
begin

text \<open>
  The passage between the padded batch and the packed model output (\<open>verl/workers/utils/padding.py\<close>). A
  packed (nested) tensor is the concatenation of the valid tokens of all sequences; the model's output at a
  token predicts the next one, so the outputs that belong to a response start one position before it.
\<close>

section \<open>Packing and slicing\<close>

text \<open>\<open>x[mask]\<close> on one row, and the packed values of a padded tensor.\<close>

definition select_row :: "'a list \<Rightarrow> bool list \<Rightarrow> 'a list" where
  "select_row row m = map fst (filter snd (zip row m))"

definition left_right_2_no_padding :: "'a list list \<Rightarrow> bool list list \<Rightarrow> 'a list list" where
  "left_right_2_no_padding rows attention_mask = map2 select_row rows attention_mask"

text \<open>What \<open>no_padding_2_padding\<close> reads from the batch: nested prompts and responses with the maximal length the
  caller stored (negative when there is none), or padded ones with an attention mask.\<close>

datatype batch_layout =
    Nested (prompt_sizes: "nat list") (response_sizes: "nat list") (stored_max: int)
  | Padded (prompt_width: nat) (response_width: nat) (attention: "bool list list")

definition count_true :: "bool list \<Rightarrow> nat" where
  "count_true m = length (filter id m)"

definition layout_lens :: "batch_layout \<Rightarrow> (nat list \<times> nat list \<times> nat) result" where
  "layout_lens ly =
     (case ly of
        Nested ps rs mx \<Rightarrow>
          if 0 \<le> mx then Inr (ps, rs, nat mx)
          else if rs = [] then Inl (RuntimeError ''max of an empty tensor'')
          else Inr (ps, rs, Max (set rs))
      | Padded pw rw attn \<Rightarrow>
          Inr (map (\<lambda>m. count_true (take pw m)) attn, map (\<lambda>m. count_true (drop pw m)) attn, rw))"

text \<open>One response: \<open>values[off - r - 1 : off - 1]\<close>, padded (or cropped, for a negative pad) to the maximal length.\<close>

definition response_slice :: "'a \<Rightarrow> 'a list \<Rightarrow> nat \<Rightarrow> nat \<Rightarrow> nat \<Rightarrow> 'a list" where
  "response_slice pad values max_len r off =
     take max_len (slice (off - r - 1) (off - 1) values) @ replicate (max_len - r) pad"

definition no_padding_2_padding :: "'a \<Rightarrow> 'a list \<Rightarrow> batch_layout \<Rightarrow> 'a list list result" where
  "no_padding_2_padding pad values ly =
     bind_r (layout_lens ly) (\<lambda>(prompt_lens, response_lens, max_len).
       let offsets = cumsum 0 (map2 (+) prompt_lens response_lens) in
       if offsets = [] then Inl IndexError
       else if last offsets \<noteq> length values then Inl (AssertionError ''sequence_offsets'')
       else if 0 \<in> set prompt_lens then Inl (AssertionError ''prompt_len > 0'')
       else Inr (map2 (response_slice pad values max_len) response_lens offsets))"

section \<open>Alignment\<close>

lemma length_select_row [simp]: "length row = length m \<Longrightarrow> length (select_row row m) = count_true m"
  unfolding select_row_def count_true_def by (induction row m rule: list_induct2) auto

lemma last_cumsum: "xs \<noteq> [] \<Longrightarrow> last (cumsum acc xs) = acc + sum_list (xs :: nat list)"
proof (induction xs arbitrary: acc)
  case (Cons x xs)
  show ?case
  proof (cases "xs = []")
    case False
    then have "cumsum (acc + x) xs \<noteq> []" by (metis length_cumsum length_0_conv)
    then show ?thesis using Cons.IH [OF False, of "acc + x"] by simp
  qed simp
qed simp

lemma slice_middle:
  "p > 0 \<Longrightarrow> length ys = p + r \<Longrightarrow>
     slice (length xs + (p + r) - r - 1) (length xs + (p + r) - 1) (xs @ ys @ zs) = take r (drop (p - 1) ys)"
  by (auto simp: slice_def drop_take)

text \<open>
  [C25] Alignment of the packed model output with the responses: if the output is the concatenation of one list per
  sequence and every sequence has its prompt and its response, the row of a sequence holds the outputs from the
  last prompt token on, which are the predictions of its response tokens, in order and padded to the common
  width. So entry \<open>t\<close> is the model's value for response token \<open>t\<close> of that very sequence.
\<close>

theorem no_padding_2_padding_aligned:
  assumes lens: "layout_lens ly = Inr (prompt_lens, response_lens, max_len)"
    and outs: "outs \<noteq> []" "length prompt_lens = length outs" "length response_lens = length outs"
      "\<forall>i < length outs. length (outs ! i) = prompt_lens ! i + response_lens ! i"
    and pos: "\<forall>p \<in> set prompt_lens. 0 < p" and fits: "\<forall>r \<in> set response_lens. r \<le> max_len"
  shows "\<exists>rows. no_padding_2_padding pad (concat outs) ly = Inr rows \<and> length rows = length outs
    \<and> (\<forall>i < length outs. length (rows ! i) = max_len
         \<and> (\<forall>t < max_len. rows ! i ! t = (if t < response_lens ! i then outs ! i ! (prompt_lens ! i - 1 + t) else pad)))"
proof -
  let ?sizes = "map2 (+) prompt_lens response_lens"
  let ?offsets = "cumsum 0 ?sizes"
  have sizes: "?sizes = map length outs"
    by (rule nth_equalityI) (use outs in auto)
  have ne: "?offsets \<noteq> []" using outs(1) sizes by (metis length_cumsum length_0_conv map_is_Nil_conv)
  have "last ?offsets = length (concat outs)"
    using outs(1) by (simp add: sizes last_cumsum length_concat)
  moreover have "0 \<notin> set prompt_lens" using pos by auto
  ultimately have run: "no_padding_2_padding pad (concat outs) ly
      = Inr (map2 (response_slice pad (concat outs) max_len) response_lens ?offsets)"
    using ne by (simp add: no_padding_2_padding_def lens Let_def)
  have at: "length (row i) = max_len
      \<and> (\<forall>t < max_len. row i ! t = (if t < response_lens ! i then outs ! i ! (prompt_lens ! i - 1 + t) else pad))"
    if i: "i < length outs" and row: "row i = map2 (response_slice pad (concat outs) max_len) response_lens ?offsets ! i" for i row
  proof -
    let ?p = "prompt_lens ! i" and ?r = "response_lens ! i"
    have p: "0 < ?p" and r: "?r \<le> max_len" and len: "length (outs ! i) = ?p + ?r" using i outs pos fits by auto
    have split: "concat outs = concat (take i outs) @ outs ! i @ concat (drop (Suc i) outs)"
      using id_take_nth_drop [OF i] by (metis concat.simps(2) concat_append)
    have "?offsets ! i = length (concat (take i outs)) + (?p + ?r)"
      using i len by (simp add: sizes nth_cumsum take_map [symmetric] take_Suc_conv_app_nth length_concat)
    then have "row i = take max_len (take ?r (drop (?p - 1) (outs ! i))) @ replicate (max_len - ?r) pad"
      using row i outs(2,3) slice_middle [OF p len, of "concat (take i outs)" "concat (drop (Suc i) outs)"]
      by (simp add: response_slice_def split [symmetric])
    moreover have "take max_len (take ?r (drop (?p - 1) (outs ! i))) = take ?r (drop (?p - 1) (outs ! i))"
      using r by (simp add: min_def)
    ultimately have ri: "row i = take ?r (drop (?p - 1) (outs ! i)) @ replicate (max_len - ?r) pad" by simp
    have lr: "length (take ?r (drop (?p - 1) (outs ! i))) = ?r" using p len by simp
    show ?thesis using r p len by (auto simp: ri nth_append lr)
  qed
  show ?thesis
    unfolding run using at [where row = "\<lambda>i. map2 (response_slice pad (concat outs) max_len) response_lens ?offsets ! i"] outs
    by (auto simp: sizes)
qed

theorem no_padding_2_padding_aligned_witness:
  "\<exists>rows. no_padding_2_padding 0 [10, 11, 12, 20, 21, 22, 23 :: int] (Nested [2, 1] [1, 3] 3) = Inr rows
     \<and> rows ! 0 ! 0 = 11 \<and> rows ! 1 ! 2 = 22 \<and> rows ! 0 ! 1 = 0"
proof -
  have l: "layout_lens (Nested [2, 1] [1, 3] 3) = Inr ([2, 1], [1, 3], 3)" by (simp add: layout_lens_def)
  have "\<exists>rows. no_padding_2_padding 0 (concat [[10, 11, 12], [20, 21, 22, 23 :: int]]) (Nested [2, 1] [1, 3] 3) = Inr rows
      \<and> length rows = length [[10, 11, 12], [20, 21, 22, 23 :: int]]
      \<and> (\<forall>i < length [[10, 11, 12], [20, 21, 22, 23 :: int]]. length (rows ! i) = 3
           \<and> (\<forall>t < 3. rows ! i ! t = (if t < [1, 3] ! i then [[10, 11, 12], [20, 21, 22, 23]] ! i ! ([2, 1] ! i - 1 + t) else 0)))"
    by (rule no_padding_2_padding_aligned [OF l]) (auto simp: less_Suc_eq)
  then obtain rows where "no_padding_2_padding 0 [10, 11, 12, 20, 21, 22, 23 :: int] (Nested [2, 1] [1, 3] 3) = Inr rows"
      and at: "\<And>i t. i < 2 \<Longrightarrow> t < 3 \<Longrightarrow> rows ! i ! t = (if t < [1, 3] ! i then [[10, 11, 12], [20, 21, 22, 23]] ! i ! ([2, 1] ! i - 1 + t) else 0)"
    by auto
  then show ?thesis using at [of 0 0] at [of 1 2] at [of 0 1] by auto
qed

text \<open>The hypothesis on the lengths holds for tensors packed with the attention mask of the batch.\<close>

lemma packed_lengths:
  assumes "layout_lens (Padded pw rw attn) = Inr (ps, rs, mx)" "length rows = length attn"
    and "\<forall>i < length attn. length (rows ! i) = length (attn ! i)" and "i < length attn"
  shows "length (left_right_2_no_padding rows attn ! i) = ps ! i + rs ! i"
proof -
  have "count_true (attn ! i) = count_true (take pw (attn ! i)) + count_true (drop pw (attn ! i))"
    unfolding count_true_def by (metis append_take_drop_id filter_append length_append)
  then show ?thesis using assms by (auto simp: left_right_2_no_padding_def layout_lens_def)
qed

text \<open>The shape of the padded tensor depends on the layout only.\<close>

lemma no_padding_2_padding_shape:
  assumes "no_padding_2_padding pad values ly = Inr rows" "no_padding_2_padding pad' values' ly = Inr rows'"
  shows "map length rows = map length rows'"
proof -
  obtain ps rs mx where l: "layout_lens ly = Inr (ps, rs, mx)" using assms(1) by (auto simp: no_padding_2_padding_def)
  let ?off = "cumsum 0 (map2 (+) ps rs)"
  have rows: "rows = map2 (response_slice pad values mx) rs ?off" "rows' = map2 (response_slice pad' values' mx) rs ?off"
      and len: "length values = length values'"
    using assms by (auto simp: no_padding_2_padding_def l Let_def split: if_splits)
  show ?thesis unfolding rows by (rule nth_equalityI) (simp_all add: response_slice_def len)
qed

end
