(* ===== verification/Distillation.thy ===== *)
theory Distillation
  imports Policy_Losses Padding Py_Env
begin

text \<open>
  The distillation losses of \<open>verl/trainer/distillation/losses.py\<close> with their FSDP token losses
  (\<open>fsdp/losses.py\<close>): the top-k forward KL of the logits processor, the single-sample estimators, the Relay-OPD
  loss that combines policy gradient on student tokens with the teacher branch, and the entry point
  \<open>distillation_ppo_loss\<close>. Tensors that the code pads (\<open>to_padded_tensor\<close>) are padded in the model.
\<close>

section \<open>Token losses over the teacher's top-k\<close>

definition log_softmax :: "real list \<Rightarrow> real list" where
  "log_softmax xs = map (\<lambda>x. x - ln (sum_list (map exp xs))) xs"

text \<open>\<open>kl_divergence\<close> of one token; the support test of the code only matters for infinite log-probabilities.\<close>

definition kl_divergence :: "real list \<Rightarrow> real list \<Rightarrow> real" where
  "kl_divergence log_q log_p = sum_list (map2 (\<lambda>lq lp. exp lp * (lp - lq)) log_q log_p)"

definition compute_overlap_outputs :: "nat list \<Rightarrow> nat list \<Rightarrow> real list \<Rightarrow> nat \<times> real" where
  "compute_overlap_outputs teacher_topk_ids student_topk_ids token_kl =
     (let overlap = map (\<lambda>t. t \<in> set student_topk_ids) teacher_topk_ids;
          overlap_count = length (filter id overlap);
          adv_sum = sum_list (map2 (\<lambda>k b. - k * of_flag b) token_kl overlap)
      in (overlap_count, if overlap_count > 0 then adv_sum / max (real overlap_count) 1 else 0))"

record topk_out =
  tk_loss :: real
  tk_student_mass :: real
  tk_teacher_mass :: real
  tk_overlap_count :: nat
  tk_overlap_advantage :: real

record loss_config =
  lc_loss_mode :: string
  lc_topk :: "nat option"
  lc_use_task_rewards :: bool
  lc_distillation_loss_coef :: real
  lc_loss_max_clamp :: "real option"
  lc_log_prob_min_clamp :: "real option"
  lc_use_policy_gradient :: bool
  lc_policy_loss_mode :: string
  lc_clip_ratio :: real
  lc_clip_ratio_low :: "real option"
  lc_clip_ratio_high :: "real option"
  lc_relay_teacher_fkl_coef :: real
  lc_relay_action_token :: string
  lc_relay_teacher_mask_key :: string
  lc_relay_fallback_all_k1 :: bool

definition clamp_min :: "real option \<Rightarrow> real \<Rightarrow> real" where
  "clamp_min lo x = (case lo of None \<Rightarrow> x | Some l \<Rightarrow> max x l)"

text \<open>One token of the two FSDP losses; \<open>topk_ids\<close> is \<open>torch.topk(..).indices\<close>, and the ids are gathered from the
  student's full-vocabulary log-probabilities.\<close>

definition fsdp_forward_kl_topk ::
  "(nat \<Rightarrow> real list \<Rightarrow> nat list) \<Rightarrow> bool \<Rightarrow> loss_config \<Rightarrow> real list \<Rightarrow> real list \<Rightarrow> nat list \<Rightarrow> topk_out result" where
  "fsdp_forward_kl_topk topk_ids renorm cfg student_logits teacher_lps teacher_ids =
     (let teacher_lps = (if renorm then log_softmax teacher_lps else teacher_lps);
          student_log_probs = log_softmax student_logits;
          student_topk_ids = topk_ids (length teacher_ids) student_log_probs
      in if list_ex (\<lambda>i. i \<ge> length student_log_probs) teacher_ids then Inl IndexError
         else
           (let student_lps = map ((!) student_log_probs) teacher_ids;
                student_mass = sum_list (map exp student_lps);
                teacher_mass = (if renorm then 1 else sum_list (map exp teacher_lps));
                student_lps = map (clamp_min (lc_log_prob_min_clamp cfg)) student_lps;
                teacher_lps = map (clamp_min (lc_log_prob_min_clamp cfg)) teacher_lps;
                loss = kl_divergence student_lps teacher_lps;
                token_kl = map2 (\<lambda>lp lq. exp lp * (lp - lq)) teacher_lps student_lps;
                (overlap_count, overlap_adv) = compute_overlap_outputs teacher_ids student_topk_ids token_kl
            in Inr \<lparr>tk_loss = loss, tk_student_mass = student_mass, tk_teacher_mass = teacher_mass,
                    tk_overlap_count = overlap_count, tk_overlap_advantage = overlap_adv\<rparr>))"

text \<open>\<open>_prepare_topk_tensors\<close>: the shape tests, without sequence parallelism.\<close>

definition prepare_topk_tensors ::
  "loss_config \<Rightarrow> nat \<Rightarrow> real list list \<Rightarrow> nat list list \<Rightarrow> (real list list \<times> nat list list) result" where
  "prepare_topk_tensors cfg n_logits teacher_lps teacher_ids =
     (if map length teacher_lps \<noteq> map length teacher_ids then Inl (RuntimeError ''teacher shape mismatch'')
      else if (case lc_topk cfg of Some k \<Rightarrow> list_ex (\<lambda>row. length row \<noteq> k) teacher_ids | None \<Rightarrow> False)
      then Inl (RuntimeError ''teacher_topk_ids last dim must equal topk'')
      else if length teacher_ids \<noteq> n_logits then Inl (RuntimeError ''shape mismatch before gather'')
      else Inr (teacher_lps, teacher_ids))"

definition fsdp_topk_loss ::
  "(nat \<Rightarrow> real list \<Rightarrow> nat list) \<Rightarrow> bool \<Rightarrow> loss_config \<Rightarrow> real list list \<Rightarrow> real list list \<Rightarrow> nat list list \<Rightarrow> topk_out list result" where
  "fsdp_topk_loss topk_ids renorm cfg student_logits teacher_lps teacher_ids =
     bind_r (prepare_topk_tensors cfg (length student_logits) teacher_lps teacher_ids) (\<lambda>(lps, ids).
       map_r (\<lambda>(logits, lp, i). fsdp_forward_kl_topk topk_ids renorm cfg logits lp i) (zip student_logits (zip lps ids)))"

text \<open>\<open>compute_topk_loss\<close>: the choice by strategy and loss mode; the Megatron loss is a parameter.\<close>

definition compute_topk_loss ::
  "(nat \<Rightarrow> real list \<Rightarrow> nat list) \<Rightarrow> (loss_config \<Rightarrow> real list list \<Rightarrow> real list list \<Rightarrow> nat list list \<Rightarrow> topk_out list result)
     \<Rightarrow> string \<Rightarrow> loss_config \<Rightarrow> real list list \<Rightarrow> real list list \<Rightarrow> nat list list \<Rightarrow> topk_out list result" where
  "compute_topk_loss topk_ids megatron strategy cfg student_logits teacher_lps teacher_ids =
     (let outputs =
        (if strategy = ''fsdp'' \<or> strategy = ''veomni'' then
           (if lc_loss_mode cfg = ''forward_kl_topk'' then fsdp_topk_loss topk_ids False cfg student_logits teacher_lps teacher_ids
            else if lc_loss_mode cfg = ''forward_kl_topk_teacher_renorm'' \<or> lc_loss_mode cfg = ''relay_opd_fkl''
            then fsdp_topk_loss topk_ids True cfg student_logits teacher_lps teacher_ids
            else Inl NotImplementedError)
         else if strategy = ''megatron'' then
           (if lc_loss_mode cfg \<noteq> ''forward_kl_topk'' then Inl NotImplementedError
            else megatron cfg student_logits teacher_lps teacher_ids)
         else Inl NotImplementedError)
      in bind_r outputs (\<lambda>outs.
           if length outs \<noteq> length student_logits then Inl (AssertionError ''Expected shape'') else Inr outs))"

section \<open>The batch and the model output\<close>

type_synonym mask = "bool list list"

record distill_data =
  dd_layout :: batch_layout
  dd_width :: nat
  dd_response_mask :: mask
  dd_masks :: "string \<Rightarrow> mask option"
  dd_old_log_probs :: tensor
  dd_advantages :: tensor
  dd_ref_log_prob :: "tensor option"
  dd_rollout_is_weights :: "tensor option"
  dd_teacher_logprobs :: "real list list option"
  dd_teacher_token_logprobs :: "real list option"
  dd_action_teacher_logprobs :: "tensor option"
  dd_action_mask :: "mask option"
  dd_action_ids :: "int list list option"
  dd_responses :: "int list list option"
  dd_dp_size :: nat
  dd_batch_num_tokens :: "real option"
  dd_global_batch_size :: "real option"

record model_output =
  mo_log_probs :: "real list"
  mo_entropy :: "real list option"
  mo_topk :: "topk_out list option"

record distill_actor =
  da_loss_agg_mode :: string
  da_loss_scale_factor :: "real option"
  da_clip :: actor_config
  da_policy_loss_mode :: string
  da_entropy_coeff :: real
  da_use_kl_loss :: bool
  da_kl_loss_type :: string
  da_kl_loss_coef :: real

definition of_mask :: "mask \<Rightarrow> tensor" where
  "of_mask m = map (map of_flag) m"

definition any_mask :: "mask \<Rightarrow> bool" where
  "any_mask m = list_ex (list_ex id) m"

abbreviation mask_and :: "mask \<Rightarrow> mask \<Rightarrow> mask" where
  "mask_and \<equiv> map2 (map2 (\<and>))"

definition mask_minus :: "mask \<Rightarrow> mask \<Rightarrow> mask" where
  "mask_minus a b = map2 (map2 (\<lambda>x y. x \<and> \<not> y)) a b"

definition select_mask :: "'a list list \<Rightarrow> mask \<Rightarrow> 'a list" where
  "select_mask t m = concat (map2 select_row t m)"

text \<open>The totals that \<open>distillation_ppo_loss\<close> puts into the actor's and the loss's configuration.\<close>

definition global_info :: "distill_actor \<Rightarrow> distill_data \<Rightarrow> batch_info" where
  "global_info actor d = \<lparr>bi_dp_size = dd_dp_size d, bi_batch_num_tokens = dd_batch_num_tokens d,
     bi_global_batch_size = dd_global_batch_size d, bi_loss_scale_factor = da_loss_scale_factor actor\<rparr>"

definition pg_config :: "loss_config \<Rightarrow> batch_info \<Rightarrow> actor_config" where
  "pg_config lc info = \<lparr>ac_clip_ratio = lc_clip_ratio lc, ac_clip_ratio_low = lc_clip_ratio_low lc,
     ac_clip_ratio_high = lc_clip_ratio_high lc, ac_clip_ratio_c = None, ac_global_batch_info = info\<rparr>"

definition clamp_loss :: "real option \<Rightarrow> real \<Rightarrow> real" where
  "clamp_loss mx x = (case mx of None \<Rightarrow> x | Some c \<Rightarrow> clamp (- c) c x)"

text \<open>\<open>no_padding_2_padding(data["teacher_logprobs"], data).squeeze(-1)\<close>, which has the shape of the
  log-probabilities exactly when every token has one entry.\<close>

definition squeezed_teacher_logprobs :: "py_error \<Rightarrow> batch_layout \<Rightarrow> real list list \<Rightarrow> tensor result" where
  "squeezed_teacher_logprobs mismatch ly rows =
     bind_r (no_padding_2_padding [0] rows ly) (\<lambda>padded.
       if list_all (\<lambda>row. length row = 1) rows then Inr (map (map hd) padded) else Inl mismatch)"

section \<open>The Relay-OPD loss\<close>

definition ppo_pg_loss_mat ::
  "tensor \<Rightarrow> tensor \<Rightarrow> tensor \<Rightarrow> mask \<Rightarrow> actor_config \<Rightarrow> tensor option \<Rightarrow> tensor \<times> pg_metrics" where
  "ppo_pg_loss_mat old_log_prob log_prob advantages rm cfg weights =
     (let lo = ratio_low cfg; hi = ratio_high cfg; c = opt_default 3 (ac_clip_ratio_c cfg) in
      (apply_is_weights weights (pg_losses lo hi c old_log_prob log_prob advantages),
       clip_metrics lo hi c old_log_prob log_prob advantages (of_mask rm)))"

definition relay_teacher_mask :: "loss_config \<Rightarrow> distill_data \<Rightarrow> mask result" where
  "relay_teacher_mask lc d =
     (case dd_masks d (lc_relay_teacher_mask_key lc) of
        Some m \<Rightarrow> Inr (mask_and m (dd_response_mask d))
      | None \<Rightarrow>
          if lc_relay_fallback_all_k1 lc then Inr (mask_and (map (map (\<lambda>_. False)) (dd_response_mask d)) (dd_response_mask d))
          else Inl (RuntimeError ''relay_teacher_mask not found in data''))"

text \<open>The teacher's log-probabilities of the emitted tokens.\<close>

definition teacher_token_lp :: "bool \<Rightarrow> distill_data \<Rightarrow> tensor result" where
  "teacher_token_lp rkl d =
     (case dd_teacher_token_logprobs d of
        Some flat \<Rightarrow> no_padding_2_padding 0 flat (dd_layout d)
      | None \<Rightarrow>
          (case (if rkl then dd_teacher_logprobs d else None) of
             Some rows \<Rightarrow> squeezed_teacher_logprobs (RuntimeError ''teacher_token_logprobs shape mismatch'') (dd_layout d) rows
           | None \<Rightarrow> Inl (RuntimeError ''Relay-OPD requires the teacher log-probability of each emitted token'')))"

text \<open>In \<open>student_draft\<close> mode the teacher's log-probability of the student's own draft replaces that of the
  emitted token wherever the teacher wrote; every such position needs a draft.\<close>

definition draft_action_lp :: "distill_data \<Rightarrow> mask \<Rightarrow> tensor \<Rightarrow> (tensor \<times> mask) result" where
  "draft_action_lp d tm lp =
     (case (dd_action_teacher_logprobs d, dd_action_mask d) of
        (Some alp, Some am) \<Rightarrow>
          (let action_mask = mask_and am tm in
           if map length alp \<noteq> map length lp \<or> map length action_mask \<noteq> map length (dd_response_mask d)
           then Inl (RuntimeError ''Relay-OPD action shape mismatch'')
           else if any_mask tm \<and> \<not> any_mask (mask_and action_mask tm)
           then Inl (RuntimeError ''student_draft saw a teacher mask but no valid action rows'')
           else if any_mask (mask_minus tm action_mask)
           then Inl (RuntimeError ''student_draft requires every teacher-mask token to have a draft action'')
           else Inr (tmap2 (\<lambda>(use, a) l. if use then a else l) (tmap2 Pair action_mask alp) lp, action_mask))
      | _ \<Rightarrow>
          if any_mask tm then Inl (RuntimeError ''student_draft requires action logprobs and mask from rollout IPC'')
          else Inr (lp, map (map (\<lambda>_. False)) (dd_response_mask d)))"

record relay_metrics =
  rm_teacher_ratio :: real
  rm_student_ratio :: real
  rm_pg_loss :: real
  rm_teacher_pg_loss :: real
  rm_is_rkl :: real
  rm_is_student_draft :: real
  rm_action_coverage :: real
  rm_action_mismatch :: real
  rm_abs_loss :: "real option"
  rm_k1_adv_mean :: real
  rm_k1_adv_std :: real
  rm_pg :: pg_metrics
  rm_fkl :: "(real \<times> real) option"

definition mask_mean :: "tensor \<Rightarrow> mask \<Rightarrow> real" where
  "mask_mean t m = (if any_mask m then masked_mean t (of_mask m) else 0)"

definition population_std :: "real list \<Rightarrow> real" where
  "population_std xs = sqrt (mean_of (map (\<lambda>x. (x - mean_of xs) ^ 2) xs))"

definition action_mismatch :: "distill_data \<Rightarrow> mask \<Rightarrow> real" where
  "action_mismatch d am =
     (case (dd_action_ids d, dd_responses d) of
        (Some ids, Some resp) \<Rightarrow>
          if map length resp = map length ids \<and> any_mask am
          then mean_of (select_mask (tmap2 (\<lambda>a r. of_flag (a \<noteq> r)) ids resp) am) else 0
      | _ \<Rightarrow> 0)"

definition relay_metrics_of ::
  "bool \<Rightarrow> bool \<Rightarrow> distill_data \<Rightarrow> mask \<Rightarrow> mask \<Rightarrow> tensor \<Rightarrow> tensor \<Rightarrow> tensor \<Rightarrow> pg_metrics \<Rightarrow> relay_metrics" where
  "relay_metrics_of rkl draft d tm am k1_losses pg_tok fkl_tok pgm =
     (let rm = dd_response_mask d; sm = mask_minus rm tm;
          total = max (tsum (of_mask rm)) 1;
          valid = select_mask k1_losses rm;
          adv = (if any_mask sm then select_mask (map (map uminus) k1_losses) sm else [0, 0])
      in \<lparr>rm_teacher_ratio = tsum (of_mask tm) / total,
          rm_student_ratio = tsum (of_mask sm) / total,
          rm_pg_loss = mask_mean pg_tok (if rkl then rm else sm),
          rm_teacher_pg_loss = mask_mean pg_tok tm,
          rm_is_rkl = of_flag rkl,
          rm_is_student_draft = of_flag draft,
          rm_action_coverage = tsum (of_mask am) / max (tsum (of_mask tm)) 1,
          rm_action_mismatch = action_mismatch d am,
          rm_abs_loss = (if valid = [] then None else Some (mean_of (map abs valid))),
          rm_k1_adv_mean = mean_of adv,
          rm_k1_adv_std = population_std adv,
          rm_pg = pgm,
          rm_fkl = (if rkl then None
                    else Some (mask_mean fkl_tok tm,
                               if any_mask tm then Max (set (select_mask fkl_tok tm)) else 0))\<rparr>)"

definition relay_opd_loss ::
  "distill_actor \<Rightarrow> loss_config \<Rightarrow> model_output \<Rightarrow> distill_data \<Rightarrow> (real \<times> relay_metrics) result" where
  "relay_opd_loss actor lc mo d =
     (let rkl = (lc_loss_mode lc \<noteq> ''relay_opd_fkl'');
          action_token = py_lower (lc_relay_action_token lc);
          rm = dd_response_mask d
      in if action_token \<noteq> ''emitted'' \<and> action_token \<noteq> ''student_draft''
         then Inl (ValueError ''Unsupported relay_action_token'')
         else
           bind_r (relay_teacher_mask lc d) (\<lambda>tm.
           bind_r (no_padding_2_padding 0 (mo_log_probs mo) (dd_layout d)) (\<lambda>student_lp.
           bind_r (teacher_token_lp rkl d) (\<lambda>tlp.
           bind_r (if action_token = ''student_draft'' then draft_action_lp d tm tlp
                   else Inr (tlp, map (map (\<lambda>_. False)) rm)) (\<lambda>(lp, am).
             let k1_losses = map (map (clamp_loss (lc_loss_max_clamp lc))) (tmap2 (-) student_lp lp);
                 sm = mask_minus rm tm;
                 (pg_tok, pgm) = ppo_pg_loss_mat (dd_old_log_probs d) student_lp (map (map uminus) k1_losses)
                                   (if rkl then rm else sm) (pg_config lc (global_info actor d)) (dd_rollout_is_weights d)
             in if \<not> rkl \<and> mo_topk mo = None then Inl (RuntimeError ''relay_opd_fkl requires distillation_losses'')
                else
                  bind_r (case mo_topk mo of
                            None \<Rightarrow> Inr (map (map (\<lambda>_. 0)) pg_tok)
                          | Some outs \<Rightarrow>
                              bind_r (no_padding_2_padding 0 (map tk_loss outs) (dd_layout d)) (\<lambda>f.
                                Inr (map (map (\<lambda>x. let y = max x 0 in
                                                  case lc_loss_max_clamp lc of None \<Rightarrow> y | Some c \<Rightarrow> min y c)) f))) (\<lambda>fkl_tok.
                  let loss_tok = (if rkl then tmap2 (*) (of_mask rm) pg_tok
                                  else tmap2 (+) (tmap2 (*) (of_mask sm) pg_tok)
                                         (tmap2 (\<lambda>m f. m * lc_relay_teacher_fkl_coef lc * f) (of_mask tm) fkl_tok))
                  in bind_r (agg_loss (dd_width d) loss_tok (of_mask rm) (da_loss_agg_mode actor) (global_info actor d)) (\<lambda>total.
                       Inr (total, relay_metrics_of rkl (action_token = ''student_draft'') d tm am k1_losses pg_tok fkl_tok pgm))))))))"

section \<open>The other distillation losses\<close>

definition select_or :: "'a \<Rightarrow> ('b list \<Rightarrow> 'a) \<Rightarrow> 'b list \<Rightarrow> 'a" where
  "select_or d f xs = (if xs = [] then d else f xs)"

text \<open>\<open>compute_distillation_loss_reverse_kl_estimator\<close>.\<close>

definition reverse_kl_estimator :: "loss_config \<Rightarrow> model_output \<Rightarrow> distill_data \<Rightarrow> (tensor \<times> real) result" where
  "reverse_kl_estimator lc mo d =
     bind_r (no_padding_2_padding 0 (mo_log_probs mo) (dd_layout d)) (\<lambda>student_lp.
     case dd_teacher_logprobs d of
       None \<Rightarrow> Inl (KeyError ''teacher_logprobs'')
     | Some rows \<Rightarrow>
         bind_r (squeezed_teacher_logprobs (AssertionError ''shape'') (dd_layout d) rows) (\<lambda>teacher_lp.
         if map length student_lp \<noteq> map length (dd_response_mask d) then Inl (AssertionError ''shape'')
         else
           bind_r (map_r (map_r (\<lambda>(l, rl). kl_penalty l rl (lc_loss_mode lc))) (tmap2 Pair student_lp teacher_lp)) (\<lambda>losses.
             Inr (losses, select_or 0 (\<lambda>xs. mean_of (map abs xs)) (select_mask losses (dd_response_mask d))))))"

record mass_metrics =
  mm_mean :: real
  mm_min :: real
  mm_max :: real

definition mass_metrics_of :: "real list \<Rightarrow> mass_metrics result" where
  "mass_metrics_of xs =
     (if xs = [] then Inl (RuntimeError ''min of an empty tensor'')
      else Inr \<lparr>mm_mean = mean_of xs, mm_min = Min (set xs), mm_max = Max (set xs)\<rparr>)"

record topk_metrics =
  tm_student_mass :: mass_metrics
  tm_teacher_mass :: mass_metrics
  tm_overlap_ratio :: real
  tm_overlap_advantage :: real

text \<open>\<open>compute_forward_kl_topk\<close> of the loss registry, on the outputs of the logits processor.\<close>

definition forward_kl_topk :: "loss_config \<Rightarrow> model_output \<Rightarrow> distill_data \<Rightarrow> (tensor \<times> topk_metrics) result" where
  "forward_kl_topk lc mo d =
     (case mo_topk mo of
        None \<Rightarrow> Inl (KeyError ''distillation_losses'')
      | Some outs \<Rightarrow>
          (let pad = \<lambda>f. no_padding_2_padding 0 (map f outs) (dd_layout d); rm = dd_response_mask d in
           bind_r (pad tk_loss) (\<lambda>losses.
           bind_r (pad tk_student_mass) (\<lambda>student_mass.
           bind_r (pad tk_teacher_mass) (\<lambda>teacher_mass.
           bind_r (pad (real \<circ> tk_overlap_count)) (\<lambda>count.
           bind_r (pad tk_overlap_advantage) (\<lambda>adv.
           if map length losses \<noteq> map length rm then Inl (AssertionError ''shape'')
           else
             (case lc_topk lc of
                None \<Rightarrow> Inl (AssertionError ''k is not None'')
              | Some k \<Rightarrow>
                  (let ratio = mean_of (select_mask count rm) / real k;
                       pos = mask_and rm (map (map (\<lambda>c. c > 0)) count);
                       overlap_adv = (if any_mask pos then mean_of (select_mask adv pos) else 0)
                   in bind_r (mass_metrics_of (select_mask student_mass rm)) (\<lambda>sm.
                      bind_r (mass_metrics_of (select_mask teacher_mass rm)) (\<lambda>tm.
                        Inr (map (map (\<lambda>x. max x 0)) losses,
                             \<lparr>tm_student_mass = sm, tm_teacher_mass = tm, tm_overlap_ratio = ratio,
                              tm_overlap_advantage = overlap_adv\<rparr>))))))))))))"

definition compute_distillation_loss_range :: "tensor \<Rightarrow> mask \<Rightarrow> real \<times> real" where
  "compute_distillation_loss_range losses rm =
     (let xs = select_mask losses rm in if xs = [] then (0, 0) else (Min (set xs), Max (set xs)))"

definition compute_relay_teacher_mask_metrics :: "distill_data \<Rightarrow> (real \<times> real \<times> real) option" where
  "compute_relay_teacher_mask_metrics d =
     (case dd_masks d ''relay_teacher_mask'' of
        None \<Rightarrow> None
      | Some m \<Rightarrow>
          (let rm = dd_response_mask d; tm = mask_and m rm in
           Some (tsum (of_mask tm) / max (tsum (of_mask rm)) 1,
                 mean_of (map2 (\<lambda>t r. sum_list t / max (sum_list r) 1) (of_mask tm) (of_mask rm)),
                 mean_of (map (\<lambda>row. of_flag (list_ex id row)) tm))))"

record distill_metrics =
  dm_abs_loss :: "real option"
  dm_topk :: "topk_metrics option"
  dm_range :: "real \<times> real"
  dm_mask :: "(real \<times> real \<times> real) option"
  dm_pg :: "pg_metrics option"

text \<open>The registry of distillation losses; the two Relay-OPD entries are hooks that return zeros.\<close>

definition distillation_loss_fn ::
  "loss_config \<Rightarrow> model_output \<Rightarrow> distill_data \<Rightarrow> (tensor \<times> real option \<times> topk_metrics option) result" where
  "distillation_loss_fn lc mo d =
     (if lc_loss_mode lc \<in> {''forward_kl_topk'', ''forward_kl_topk_teacher_renorm''}
      then bind_r (forward_kl_topk lc mo d) (\<lambda>(l, m). Inr (l, None, Some m))
      else if lc_loss_mode lc \<in> {''kl'', ''k1'', ''abs'', ''mse'', ''k2'', ''low_var_kl'', ''k3''}
      then bind_r (reverse_kl_estimator lc mo d) (\<lambda>(l, a). Inr (l, Some a, None))
      else if lc_loss_mode lc \<in> {''relay_opd'', ''relay_opd_fkl''}
      then bind_r (no_padding_2_padding 0 (mo_log_probs mo) (dd_layout d)) (\<lambda>l. Inr (map (map (\<lambda>_. 0)) l, None, None))
      else Inl (ValueError ''Unsupported loss mode''))"

text \<open>\<open>get_policy_loss_fn\<close>: the registry of policy losses is a parameter.\<close>

type_synonym policy_loss_fn =
  "nat \<Rightarrow> tensor \<Rightarrow> tensor \<Rightarrow> tensor \<Rightarrow> tensor \<Rightarrow> string \<Rightarrow> actor_config option \<Rightarrow> tensor option \<Rightarrow> (real \<times> pg_metrics) result"

definition get_policy_loss_fn :: "(string \<Rightarrow> policy_loss_fn option) \<Rightarrow> string \<Rightarrow> policy_loss_fn result" where
  "get_policy_loss_fn registry name =
     (case registry name of None \<Rightarrow> Inl (ValueError ''Unsupported loss mode'') | Some f \<Rightarrow> Inr f)"

definition distillation_loss ::
  "(string \<Rightarrow> policy_loss_fn option) \<Rightarrow> distill_actor \<Rightarrow> loss_config \<Rightarrow> model_output \<Rightarrow> distill_data
     \<Rightarrow> (real \<times> distill_metrics) result" where
  "distillation_loss registry actor lc mo d =
     bind_r (distillation_loss_fn lc mo d) (\<lambda>(raw, abs_loss, topk).
       let rm = dd_response_mask d;
           losses = map (map (clamp_loss (lc_loss_max_clamp lc))) raw;
           metrics = \<lambda>pgm. \<lparr>dm_abs_loss = abs_loss, dm_topk = topk, dm_range = compute_distillation_loss_range raw rm,
                            dm_mask = compute_relay_teacher_mask_metrics d, dm_pg = pgm\<rparr>
       in if lc_use_policy_gradient lc then
            bind_r (get_policy_loss_fn registry (lc_policy_loss_mode lc)) (\<lambda>policy_loss_fn.
            bind_r (no_padding_2_padding 0 (mo_log_probs mo) (dd_layout d)) (\<lambda>log_prob.
            bind_r (policy_loss_fn (dd_width d) (dd_old_log_probs d) log_prob (map (map uminus) losses) (of_mask rm)
                      (da_loss_agg_mode actor) (Some (pg_config lc (global_info actor d))) (dd_rollout_is_weights d))
              (\<lambda>(loss, pgm). Inr (loss, metrics (Some pgm)))))
          else
            bind_r (agg_loss (dd_width d) losses (of_mask rm) (da_loss_agg_mode actor) (global_info actor d))
              (\<lambda>loss. Inr (loss, metrics None)))"

section \<open>The policy loss and the entry point\<close>

record ppo_metrics =
  pp_pg :: pg_metrics
  pp_pg_loss :: real
  pp_entropy_loss :: "real option"
  pp_kl_loss :: "real option"
  pp_sum_aggregated :: bool

definition ppo_loss ::
  "(string \<Rightarrow> policy_loss_fn option) \<Rightarrow> distill_actor \<Rightarrow> model_output \<Rightarrow> distill_data \<Rightarrow> (real \<times> ppo_metrics) result" where
  "ppo_loss registry actor mo d =
     (let info = global_info actor d; rm = of_mask (dd_response_mask d); mode = da_loss_agg_mode actor;
          summed = (dd_dp_size d > 1 \<or> dd_batch_num_tokens d \<noteq> None \<or> dd_global_batch_size d \<noteq> None
                    \<or> da_loss_scale_factor actor \<noteq> None)
      in
      bind_r (no_padding_2_padding 0 (mo_log_probs mo) (dd_layout d)) (\<lambda>log_prob.
      bind_r (case mo_entropy mo of
                None \<Rightarrow> Inr None
              | Some e \<Rightarrow> bind_r (no_padding_2_padding 0 e (dd_layout d)) (\<lambda>x. Inr (Some x))) (\<lambda>entropy.
      bind_r (get_policy_loss_fn registry (da_policy_loss_mode actor)) (\<lambda>policy_loss_fn.
      bind_r (policy_loss_fn (dd_width d) (dd_old_log_probs d) log_prob (dd_advantages d) rm mode
                (Some ((da_clip actor)\<lparr>ac_global_batch_info := info\<rparr>)) (dd_rollout_is_weights d)) (\<lambda>(pg_loss, pgm).
      bind_r (case entropy of
                None \<Rightarrow> Inr None
              | Some e \<Rightarrow> bind_r (agg_loss (dd_width d) e rm mode info) (\<lambda>x. Inr (Some x))) (\<lambda>entropy_loss.
      bind_r (if \<not> da_use_kl_loss actor then Inr None
              else
                (case dd_ref_log_prob d of
                   None \<Rightarrow> Inl (KeyError ''ref_log_prob'')
                 | Some ref \<Rightarrow>
                     bind_r (map_r (map_r (\<lambda>(l, rl). kl_penalty l rl (da_kl_loss_type actor))) (tmap2 Pair log_prob ref)) (\<lambda>kld.
                     bind_r (agg_loss (dd_width d) kld rm mode info) (\<lambda>x. Inr (Some x))))) (\<lambda>kl_loss.
        Inr (pg_loss - (case entropy_loss of None \<Rightarrow> 0 | Some e \<Rightarrow> da_entropy_coeff actor * e)
                     + (case kl_loss of None \<Rightarrow> 0 | Some k \<Rightarrow> k * da_kl_loss_coef actor),
             \<lparr>pp_pg = pgm, pp_pg_loss = pg_loss, pp_entropy_loss = entropy_loss, pp_kl_loss = kl_loss,
              pp_sum_aggregated = summed\<rparr>))))))))"

datatype loss_metrics =
    RelayMetrics relay_metrics real
  | CombinedMetrics ppo_metrics distill_metrics real

text \<open>\<open>distillation_ppo_loss\<close> as the final policy loss; as a logits processor it is \<open>compute_topk_loss\<close>.\<close>

definition distillation_ppo_loss ::
  "(string \<Rightarrow> policy_loss_fn option) \<Rightarrow> distill_actor \<Rightarrow> loss_config \<Rightarrow> model_output \<Rightarrow> distill_data
     \<Rightarrow> (real \<times> loss_metrics) result" where
  "distillation_ppo_loss registry actor lc mo d =
     (if lc_loss_mode lc \<in> {''relay_opd'', ''relay_opd_fkl''}
      then bind_r (relay_opd_loss actor lc mo d) (\<lambda>(loss, m). Inr (loss, RelayMetrics m loss))
      else
        bind_r (distillation_loss registry actor lc mo d) (\<lambda>(distill_loss, dm).
        bind_r (ppo_loss registry actor mo d) (\<lambda>(policy_loss, pm).
          let base = (if lc_use_task_rewards lc then policy_loss else 0);
              coef = (if lc_use_task_rewards lc then lc_distillation_loss_coef lc else 1)
          in Inr (base + distill_loss * coef, CombinedMetrics pm dm distill_loss))))"

section \<open>Facts about the top-k loss\<close>

lemma sum_list_exp_pos: "xs \<noteq> [] \<Longrightarrow> 0 < sum_list (map exp (xs :: real list))"
proof (induction xs)
  case (Cons x xs)
  then show ?case by (cases "xs = []") (simp_all add: add_pos_pos)
qed simp

lemma softmax_sums_to_one: "xs \<noteq> [] \<Longrightarrow> sum_list (map exp (log_softmax xs)) = 1"
proof -
  assume ne: "xs \<noteq> []"
  define S where "S = sum_list (map exp xs)"
  have pos: "0 < S" unfolding S_def by (rule sum_list_exp_pos [OF ne])
  have "map exp (log_softmax xs) = map (\<lambda>x. exp x / S) xs"
    using pos by (simp add: log_softmax_def S_def [symmetric] exp_diff)
  then have "sum_list (map exp (log_softmax xs)) = sum_list (map (\<lambda>x. exp x / S) xs)" by simp
  also have "\<dots> = S / S" unfolding S_def by (rule sum_list_scale)
  finally show ?thesis using pos by simp
qed

lemma sum_gathered:
  assumes "distinct ids" "\<forall>i \<in> set ids. i < length xs" "\<forall>x \<in> set xs. 0 \<le> (f x :: real)"
  shows "sum_list (map (\<lambda>i. f (xs ! i)) ids) \<le> sum_list (map f xs)"
proof -
  have "sum_list (map (\<lambda>i. f (xs ! i)) ids) = (\<Sum>i \<in> set ids. f (xs ! i))"
    using assms(1) by (rule sum_list_distinct_conv_sum_set)
  also have "\<dots> \<le> (\<Sum>i < length xs. f (xs ! i))"
    by (rule sum_mono2) (use assms in auto)
  also have "\<dots> = sum_list (map f xs)" by (simp add: sum_list_sum_nth atLeast0LessThan)
  finally show ?thesis .
qed

text \<open>Each term of the divergence is at least the difference of the probabilities.\<close>

lemma kl_divergence_lower:
  "length lq = length lp \<Longrightarrow> sum_list (map exp lp) - sum_list (map exp lq) \<le> kl_divergence lq lp"
proof (induction lq lp rule: list_induct2)
  case (Cons x xs y ys)
  have "exp y * (1 + (x - y)) \<le> exp y * exp (x - y)" by (intro mult_left_mono exp_ge_add_one_self) simp
  then have "exp y - exp x \<le> exp y * (y - x)" by (simp add: algebra_simps flip: exp_add)
  then show ?case using Cons.IH by (simp add: kl_divergence_def)
qed (simp add: kl_divergence_def)

lemma clamped_mass:
  "sum_list (map exp lps) \<le> sum_list (map exp (map (clamp_min c) lps))"
  "sum_list (map exp (map (clamp_min c) lps))
     \<le> sum_list (map exp lps) + real (length lps) * (case c of None \<Rightarrow> 0 | Some l \<Rightarrow> exp l)"
proof -
  show "sum_list (map exp lps) \<le> sum_list (map exp (map (clamp_min c) lps))"
    unfolding map_map by (rule sum_list_mono) (simp add: clamp_min_def split: option.splits)
  have "exp (clamp_min c x) \<le> exp x + (case c of None \<Rightarrow> 0 | Some l \<Rightarrow> exp l)" for x
    by (auto simp: clamp_min_def max_def split: option.splits)
  then show "sum_list (map exp (map (clamp_min c) lps))
     \<le> sum_list (map exp lps) + real (length lps) * (case c of None \<Rightarrow> 0 | Some l \<Rightarrow> exp l)"
  proof (induction lps)
    case (Cons x lps)
    then show ?case by (simp add: distrib_right add_mono algebra_simps) (smt (verit) Cons.prems)
  qed simp
qed

text \<open>
  The top-k forward KL against the renormalised teacher is a genuine divergence: without clamping of the
  log-probabilities it is never negative, and a clamp at \<open>c\<close> can lower it by at most \<open>exp c\<close> per teacher token. The
  student's mass on the teacher's tokens is a probability. (So the later \<open>clamp_min(0)\<close> only removes the effect of the
  clamping.)
\<close>

theorem teacher_renorm_fkl_lower_bound:
  assumes run: "fsdp_forward_kl_topk topk_ids True cfg student_logits teacher_lps teacher_ids = Inr out"
    and "distinct teacher_ids" "length teacher_lps = length teacher_ids" "teacher_ids \<noteq> []"
  shows "- real (length teacher_ids) * (case lc_log_prob_min_clamp cfg of None \<Rightarrow> 0 | Some c \<Rightarrow> exp c) \<le> tk_loss out
    \<and> 0 < tk_student_mass out \<and> tk_student_mass out \<le> 1 \<and> tk_teacher_mass out = 1"
proof -
  define sl where "sl = log_softmax student_logits"
  define gl where "gl = map ((!) sl) teacher_ids"
  define tl where "tl = log_softmax teacher_lps"
  let ?c = "lc_log_prob_min_clamp cfg"
  have rng: "\<forall>i \<in> set teacher_ids. i < length sl"
    using run by (auto simp: fsdp_forward_kl_topk_def Let_def sl_def list_ex_iff split: if_splits)
  have out: "tk_loss out = kl_divergence (map (clamp_min ?c) gl) (map (clamp_min ?c) tl)"
      "tk_student_mass out = sum_list (map exp gl)" "tk_teacher_mass out = 1"
    using run by (auto simp: fsdp_forward_kl_topk_def Let_def sl_def gl_def tl_def o_def split: if_splits prod.splits)
  have len: "length gl = length tl" "length gl = length teacher_ids" by (simp_all add: gl_def tl_def log_softmax_def assms(3))
  have "student_logits \<noteq> []" using rng assms(4) by (auto simp: sl_def log_softmax_def)
  then have "sum_list (map exp sl) = 1" unfolding sl_def by (rule softmax_sums_to_one)
  moreover have "sum_list (map exp gl) \<le> sum_list (map exp sl)"
    unfolding gl_def map_map o_def by (rule sum_gathered [OF assms(2) rng]) simp
  ultimately have mass: "sum_list (map exp gl) \<le> 1" by simp
  have "gl \<noteq> []" using assms(4) by (simp add: gl_def)
  then have pos: "0 < sum_list (map exp gl)" by (rule sum_list_exp_pos)
  have "teacher_lps \<noteq> []" using assms(3,4) by auto
  then have "sum_list (map exp tl) = 1" unfolding tl_def by (rule softmax_sums_to_one)
  then have "1 \<le> sum_list (map exp (map (clamp_min ?c) tl))" using clamped_mass(1) [of tl ?c] by simp
  moreover have "sum_list (map exp (map (clamp_min ?c) gl)) \<le> 1 + real (length teacher_ids) * (case ?c of None \<Rightarrow> 0 | Some l \<Rightarrow> exp l)"
    using clamped_mass(2) [of ?c gl, unfolded len(2)] mass by linarith
  moreover have "sum_list (map exp (map (clamp_min ?c) tl)) - sum_list (map exp (map (clamp_min ?c) gl)) \<le> tk_loss out"
    unfolding out(1) by (rule kl_divergence_lower) (simp add: len)
  ultimately show ?thesis using out mass pos by simp
qed

definition ex_lc :: "string \<Rightarrow> loss_config" where
  "ex_lc mode =
     \<lparr>lc_loss_mode = mode, lc_topk = Some 1, lc_use_task_rewards = False, lc_distillation_loss_coef = 1,
      lc_loss_max_clamp = None, lc_log_prob_min_clamp = None, lc_use_policy_gradient = True, lc_policy_loss_mode = ''vanilla'',
      lc_clip_ratio = 1 / 5, lc_clip_ratio_low = None, lc_clip_ratio_high = None, lc_relay_teacher_fkl_coef = 1,
      lc_relay_action_token = ''emitted'', lc_relay_teacher_mask_key = ''relay_teacher_mask'', lc_relay_fallback_all_k1 = False\<rparr>"

theorem teacher_renorm_fkl_lower_bound_witness:
  "\<exists>out. fsdp_forward_kl_topk (\<lambda>k xs. [0..<k]) True (ex_lc ''relay_opd_fkl'') [1, 2] [0] [1] = Inr out \<and> 0 \<le> tk_loss out"
proof -
  obtain out where run: "fsdp_forward_kl_topk (\<lambda>k xs. [0..<k]) True (ex_lc ''relay_opd_fkl'') [1, 2] [0] [1] = Inr out"
    by (simp add: fsdp_forward_kl_topk_def Let_def log_softmax_def compute_overlap_outputs_def)
  have "0 \<le> tk_loss out" using teacher_renorm_fkl_lower_bound [OF run] by (simp add: ex_lc_def)
  with run show ?thesis by blast
qed

section \<open>Facts about the Relay-OPD loss\<close>

lemma mask01_of_mask [simp]: "mask01 (of_mask m)"
  by (auto simp: mask01_def of_mask_def of_flag_def list_all_iff)

text \<open>Multiplying the losses with the mask that they are aggregated with changes nothing.\<close>

lemma agg_loss_masked:
  assumes "mask01 msk" "map length mat = map length msk"
  shows "agg_loss h (tmap2 (*) msk mat) msk mode info = agg_loss h mat msk mode info"
proof -
  have len: "length mat = length msk" using assms(2) by (metis length_map)
  have row: "length (mat ! i) = length (msk ! i)" if "i < length msk" for i
    using assms(2) that len by (metis nth_map)
  have m: "x = 0 \<or> x = 1" if "i < length msk" "x \<in> set (msk ! i)" for i x
    using assms(1) that by (auto simp: mask01_def list_all_iff)
  have cell: "msk ! i ! t = 0 \<or> msk ! i ! t = 1" if "i < length msk" "t < length (msk ! i)" for i t
    using m [OF that(1)] that(2) by simp
  have a: "tmap2 (\<lambda>v m. (if m \<noteq> 0 then v else 0) * m) (tmap2 (*) msk mat) msk = tmap2 (\<lambda>v m. (if m \<noteq> 0 then v else 0) * m) mat msk"
  proof (rule nth_equalityI)
    fix i assume "i < length (tmap2 (\<lambda>v m. (if m \<noteq> 0 then v else 0) * m) (tmap2 (*) msk mat) msk)"
    then have i: "i < length msk" by simp
    show "tmap2 (\<lambda>v m. (if m \<noteq> 0 then v else 0) * m) (tmap2 (*) msk mat) msk ! i = tmap2 (\<lambda>v m. (if m \<noteq> 0 then v else 0) * m) mat msk ! i"
      using i len row [OF i] cell [OF i] by (intro nth_equalityI) auto
  qed (simp add: len)
  have b: "tmap2 (*) (tmap2 (*) msk mat) msk = tmap2 (*) mat msk"
  proof (rule nth_equalityI)
    fix i assume "i < length (tmap2 (*) (tmap2 (*) msk mat) msk)"
    then have i: "i < length msk" by simp
    show "tmap2 (*) (tmap2 (*) msk mat) msk ! i = tmap2 (*) mat msk ! i"
      using i len row [OF i] cell [OF i] by (intro nth_equalityI) auto
  qed (simp add: len)
  show ?thesis unfolding agg_loss_def masked_sum_def Let_def a b ..
qed

lemma pg_losses_shape:
  "map length old = map length lp \<Longrightarrow> map length adv = map length lp \<Longrightarrow>
     map length (pg_losses lo hi c old lp adv) = map length lp"
proof -
  assume a: "map length old = map length lp" "map length adv = map length lp"
  have l: "length old = length lp" "length adv = length lp" using a by (metis length_map)+
  have "length (old ! i) = length (lp ! i) \<and> length (adv ! i) = length (lp ! i)" if "i < length lp" for i
    using a that l by (metis nth_map)
  then show ?thesis using l by (intro nth_equalityI) (simp_all add: pg_losses_def)
qed

lemma clamped_shape: "map length (map (map f) t) = map length t"
  by simp

lemma tmap2_shape: "map length a = map length b \<Longrightarrow> map length (tmap2 f a b) = map length b"
proof -
  assume a: "map length a = map length b"
  then have l: "length a = length b" by (metis length_map)
  have "length (a ! i) = length (b ! i)" if "i < length b" for i using a that l by (metis nth_map)
  then show ?thesis using l by (intro nth_equalityI) simp_all
qed

lemma squeezed_shape:
  assumes "squeezed_teacher_logprobs e ly rows = Inr t" "no_padding_2_padding pad values ly = Inr v"
  shows "map length t = map length v" "squeezed_teacher_logprobs e' ly rows = Inr t"
proof -
  obtain p where p: "no_padding_2_padding [0] rows ly = Inr p" "t = map (map hd) p"
      "list_all (\<lambda>row. length row = 1) rows"
    using assms(1) by (auto simp: squeezed_teacher_logprobs_def split: if_splits)
  show "map length t = map length v" unfolding p(2) clamped_shape by (rule no_padding_2_padding_shape [OF p(1) assms(2)])
  show "squeezed_teacher_logprobs e' ly rows = Inr t" using p by (simp add: squeezed_teacher_logprobs_def)
qed

lemma k1_penalties: "map_r (map_r (\<lambda>(l, rl). kl_penalty l rl ''k1'')) (map2 zip a b) = Inr (tmap2 (-) a b)"
proof -
  have k1: "kl_penalty l rl ''k1'' = Inr (l - rl)" for l rl by (simp add: kl_penalty_plain ends_plus_def kl_penalty_forward_def)
  have rows: "map_r (\<lambda>(l, rl). kl_penalty l rl ''k1'') ps = Inr (map (\<lambda>(l, rl). l - rl) ps)" for ps
    by (rule map_r_Inr) (auto simp: k1)
  have "map_r (map_r (\<lambda>(l, rl). kl_penalty l rl ''k1'')) (map2 zip a b)
      = Inr (map (map (\<lambda>(l, rl). l - rl)) (map2 zip a b))"
    by (rule map_r_Inr) (rule rows)
  then show ?thesis by (simp add: o_def case_prod_beta')
qed

lemma apply_is_weights_shape:
  "(\<And>w. weights = Some w \<Longrightarrow> map length w = map length t) \<Longrightarrow> map length (apply_is_weights weights t) = map length t"
proof (cases weights)
  case (Some w)
  assume "\<And>w. weights = Some w \<Longrightarrow> map length w = map length t"
  then have w: "map length w = map length t" using Some by simp
  then show ?thesis using tmap2_shape [of t w] by (simp add: apply_is_weights_def Some)
qed (simp add: apply_is_weights_def)

text \<open>
  [C7] Relay-OPD with the reverse-KL teacher branch and emitted tokens is plain on-policy distillation: whenever the
  relay loss is computed, it is the loss that \<open>distillation_loss\<close> computes in mode \<open>k1\<close> with the policy gradient, the
  same log-probabilities, clamping, clipping and aggregation. The relay mask only decides which tokens the
  metrics call the teacher's.
\<close>

theorem relay_rkl_is_k1_policy_gradient:
  assumes run: "relay_opd_loss actor lc mo d = Inr (loss, m)"
    and mode: "lc_loss_mode lc = ''relay_opd''" "py_lower (lc_relay_action_token lc) = ''emitted''"
    and pg: "lc_use_policy_gradient lc" "lc_policy_loss_mode lc = ''vanilla''" "registry ''vanilla'' = Some compute_policy_loss_vanilla"
    and lps: "dd_teacher_token_logprobs d = None"
    and shapes: "no_padding_2_padding 0 (mo_log_probs mo) (dd_layout d) = Inr lp" "map length lp = map length (dd_response_mask d)"
      "map length (dd_old_log_probs d) = map length lp" "\<forall>w. dd_rollout_is_weights d = Some w \<longrightarrow> map length w = map length lp"
  shows "\<exists>m'. distillation_loss registry actor (lc\<lparr>lc_loss_mode := ''k1''\<rparr>) mo d = Inr (loss, m')"
proof -
  let ?rm = "of_mask (dd_response_mask d)" and ?info = "global_info actor d"
  let ?cfg = "pg_config lc ?info"
  obtain rows tlp where rows: "dd_teacher_logprobs d = Some rows"
      "squeezed_teacher_logprobs (RuntimeError ''teacher_token_logprobs shape mismatch'') (dd_layout d) rows = Inr tlp"
    using run by (auto simp: relay_opd_loss_def Let_def mode teacher_token_lp_def lps shapes(1) split: option.splits)
  note sq = squeezed_shape [OF rows(2) shapes(1)]
  define k1 where "k1 = map (map (clamp_loss (lc_loss_max_clamp lc))) (tmap2 (-) lp tlp)"
  define adv where "adv = map (map uminus) k1"
  define pgt where "pgt = apply_is_weights (dd_rollout_is_weights d) (pg_losses (ratio_low ?cfg) (ratio_high ?cfg) 3 (dd_old_log_probs d) lp adv)"
  have advs: "map length adv = map length lp"
    unfolding adv_def k1_def clamped_shape using tmap2_shape [of lp tlp "(-)"] sq(1) by (simp only:)
  have pgs: "map length pgt = map length ?rm"
  proof -
    have base: "map length (pg_losses (ratio_low ?cfg) (ratio_high ?cfg) 3 (dd_old_log_probs d) lp adv) = map length lp"
      by (rule pg_losses_shape [OF shapes(3) advs])
    have "map length pgt = map length lp"
      unfolding pgt_def by (subst apply_is_weights_shape) (use base shapes(4) in auto)
    then show ?thesis using shapes(2) by (simp add: of_mask_def)
  qed
  have "agg_loss (dd_width d) (tmap2 (*) ?rm pgt) ?rm (da_loss_agg_mode actor) ?info = Inr loss"
    using run unfolding relay_opd_loss_def
    by (auto simp: Let_def mode teacher_token_lp_def lps shapes(1) rows ppo_pg_loss_mat_def pg_config_def
        pgt_def adv_def k1_def split: option.splits prod.splits)
  then have agg: "agg_loss (dd_width d) pgt ?rm (da_loss_agg_mode actor) ?info = Inr loss"
    by (simp add: agg_loss_masked pgs)
  have est: "reverse_kl_estimator (lc\<lparr>lc_loss_mode := ''k1''\<rparr>) mo d = Inr (tmap2 (-) lp tlp,
      select_or 0 (\<lambda>xs. mean_of (map abs xs)) (select_mask (tmap2 (-) lp tlp) (dd_response_mask d)))"
    by (simp add: reverse_kl_estimator_def shapes rows sq(2) k1_penalties)
  have cfg: "pg_config (lc\<lparr>lc_loss_mode := ''k1''\<rparr>) ?info = ?cfg" by (simp add: pg_config_def)
  have "compute_policy_loss_vanilla (dd_width d) (dd_old_log_probs d) lp adv ?rm (da_loss_agg_mode actor) (Some ?cfg) (dd_rollout_is_weights d)
      = Inr (loss, clip_metrics (ratio_low ?cfg) (ratio_high ?cfg) 3 (dd_old_log_probs d) lp adv ?rm)"
    using agg by (simp add: compute_policy_loss_vanilla_def Let_def pgt_def pg_config_def)
  then show ?thesis
    by (simp add: distillation_loss_def distillation_loss_fn_def est cfg get_policy_loss_fn_def pg shapes(1) Let_def
        k1_def [symmetric] adv_def [symmetric] del: map_map)
qed

lemma tmap2_nth:
  "map length a = map length b \<Longrightarrow> i < length b \<Longrightarrow> t < length (b ! i) \<Longrightarrow> tmap2 f a b ! i ! t = f (a ! i ! t) (b ! i ! t)"
proof -
  assume a: "map length a = map length b" and i: "i < length b" and t: "t < length (b ! i)"
  have "length a = length b" using a by (metis length_map)
  moreover have "length (a ! i) = length (b ! i)" using a i calculation by (metis nth_map)
  ultimately show ?thesis using i t by simp
qed

lemma rows_nth: "i < length a \<Longrightarrow> t < length (a ! i) \<Longrightarrow> map (map f) a ! i ! t = f (a ! i ! t)"
  by simp

lemma shape_nth: "map length a = map length b \<Longrightarrow> i < length b \<Longrightarrow> i < length a \<and> length (a ! i) = length (b ! i)"
  by (metis length_map nth_map)

lemma mask_and_nth:
  "map length a = map length b \<Longrightarrow> i < length b \<Longrightarrow> t < length (b ! i) \<Longrightarrow> mask_and a b ! i ! t \<longleftrightarrow> a ! i ! t \<and> b ! i ! t"
  by (simp add: tmap2_nth)

definition relay_weight :: "distill_data \<Rightarrow> nat \<Rightarrow> nat \<Rightarrow> real" where
  "relay_weight d i t = (case dd_rollout_is_weights d of None \<Rightarrow> 1 | Some w \<Rightarrow> w ! i ! t)"

lemma pg_tok_nth:
  assumes "map length old = map length lp" "map length adv = map length lp"
    and "\<And>w. dd_rollout_is_weights d = Some w \<Longrightarrow> map length w = map length lp"
    and "i < length lp" "t < length (lp ! i)"
  shows "apply_is_weights (dd_rollout_is_weights d) (pg_losses lo hi c old lp adv) ! i ! t
    = pg_token_loss lo hi c (adv ! i ! t) (ppo_ratio (lp ! i ! t) (old ! i ! t)) * relay_weight d i t"
proof -
  have ps: "map length (pg_losses lo hi c old lp adv) = map length lp" by (rule pg_losses_shape [OF assms(1,2)])
  have rs: "map length (tmap2 ppo_ratio lp old) = map length lp" using tmap2_shape [of lp old] assms(1) by simp
  have r: "tmap2 ppo_ratio lp old ! i ! t = ppo_ratio (lp ! i ! t) (old ! i ! t)"
    using assms(1,4,5) shape_nth [OF assms(1,4)] by (simp add: tmap2_nth)
  have at: "pg_losses lo hi c old lp adv ! i ! t = pg_token_loss lo hi c (adv ! i ! t) (ppo_ratio (lp ! i ! t) (old ! i ! t))"
    unfolding pg_losses_def r [symmetric]
    by (rule tmap2_nth) (use rs assms(2,4,5) shape_nth [OF rs assms(4)] in \<open>simp_all only:\<close>)
  show ?thesis
  proof (cases "dd_rollout_is_weights d")
    case (Some w)
    have w: "map length (pg_losses lo hi c old lp adv) = map length w" using ps assms(3) [OF Some] by simp
    have "i < length w" "t < length (w ! i)" using shape_nth [OF assms(3) [OF Some] assms(4)] assms(5) by simp_all
    then show ?thesis using tmap2_nth [OF w, of i t "(*)"] at by (simp add: Some apply_is_weights_def relay_weight_def)
  qed (simp add: apply_is_weights_def relay_weight_def at)
qed

text \<open>
  [C6] The two branches of Relay-OPD with the forward-KL teacher branch: every valid token is trained by exactly one
  of them. A token the teacher wrote contributes its clamped top-k forward KL times the coefficient, a token the
  student wrote the clipped policy-gradient loss with the negative clamped reverse-KL estimate as advantage
  (times the rollout correction), and a padded position nothing; the loss is the aggregate over all of them.
\<close>

theorem relay_fkl_branches:
  assumes run: "relay_opd_loss actor lc mo d = Inr (loss, m)"
    and mode: "lc_loss_mode lc = ''relay_opd_fkl''" "py_lower (lc_relay_action_token lc) = ''emitted''"
    and tmask: "dd_masks d (lc_relay_teacher_mask_key lc) = Some tmask" "map length tmask = map length (dd_response_mask d)"
    and shapes: "no_padding_2_padding 0 (mo_log_probs mo) (dd_layout d) = Inr lp" "map length lp = map length (dd_response_mask d)"
      "map length (dd_old_log_probs d) = map length lp" "\<forall>w. dd_rollout_is_weights d = Some w \<longrightarrow> map length w = map length lp"
  shows "\<exists>mat flat outs tlp fkl. dd_teacher_token_logprobs d = Some flat \<and> mo_topk mo = Some outs
    \<and> no_padding_2_padding 0 flat (dd_layout d) = Inr tlp \<and> no_padding_2_padding 0 (map tk_loss outs) (dd_layout d) = Inr fkl
    \<and> agg_loss (dd_width d) mat (of_mask (dd_response_mask d)) (da_loss_agg_mode actor) (global_info actor d) = Inr loss
    \<and> (\<forall>i < length (dd_response_mask d). \<forall>t < length (dd_response_mask d ! i).
         let cfg = pg_config lc (global_info actor d); A = - clamp_loss (lc_loss_max_clamp lc) (lp ! i ! t - tlp ! i ! t);
             f = max (fkl ! i ! t) 0
         in mat ! i ! t =
           (if \<not> dd_response_mask d ! i ! t then 0
            else if tmask ! i ! t
              then lc_relay_teacher_fkl_coef lc * (case lc_loss_max_clamp lc of None \<Rightarrow> f | Some c \<Rightarrow> min f c)
            else pg_token_loss (ratio_low cfg) (ratio_high cfg) 3 A (ppo_ratio (lp ! i ! t) (dd_old_log_probs d ! i ! t))
                   * relay_weight d i t))"
proof -
  let ?rm = "dd_response_mask d" and ?info = "global_info actor d"
  let ?cfg = "pg_config lc ?info" and ?mx = "lc_loss_max_clamp lc"
  define tm where "tm = mask_and tmask ?rm"
  define sm where "sm = mask_minus ?rm tm"
  obtain flat tlp where flat: "dd_teacher_token_logprobs d = Some flat" "no_padding_2_padding 0 flat (dd_layout d) = Inr tlp"
    using run by (auto simp: relay_opd_loss_def Let_def mode relay_teacher_mask_def tmask(1) shapes(1) teacher_token_lp_def split: option.splits)
  define k1 where "k1 = map (map (clamp_loss ?mx)) (tmap2 (-) lp tlp)"
  define adv where "adv = map (map uminus) k1"
  define pgt where "pgt = apply_is_weights (dd_rollout_is_weights d) (pg_losses (ratio_low ?cfg) (ratio_high ?cfg) 3 (dd_old_log_probs d) lp adv)"
  obtain outs fkl where outs: "mo_topk mo = Some outs" "no_padding_2_padding 0 (map tk_loss outs) (dd_layout d) = Inr fkl"
    using run by (auto simp: relay_opd_loss_def Let_def mode relay_teacher_mask_def tmask(1) shapes(1) teacher_token_lp_def flat
        ppo_pg_loss_mat_def split: option.splits if_splits)
  define fclamp where "fclamp x = (let y = max x 0 in case ?mx of None \<Rightarrow> y | Some c \<Rightarrow> min y c)" for x
  define fkt where "fkt = map (map fclamp) fkl"
  define mat where "mat = tmap2 (+) (tmap2 (*) (of_mask sm) pgt) (tmap2 (\<lambda>m f. m * lc_relay_teacher_fkl_coef lc * f) (of_mask tm) fkt)"
  have agg: "agg_loss (dd_width d) mat (of_mask ?rm) (da_loss_agg_mode actor) ?info = Inr loss"
    using run unfolding relay_opd_loss_def
    by (auto simp: Let_def mode relay_teacher_mask_def tmask(1) shapes(1) teacher_token_lp_def flat outs ppo_pg_loss_mat_def
        pg_config_def mat_def pgt_def adv_def k1_def fkt_def fclamp_def [abs_def] tm_def sm_def split: prod.splits)
  have sh: "map length tlp = map length lp" "map length fkl = map length lp"
    using no_padding_2_padding_shape [OF flat(2) shapes(1)] no_padding_2_padding_shape [OF outs(2) shapes(1)] .
  have tms: "map length tm = map length ?rm" unfolding tm_def using tmap2_shape [OF tmask(2)] .
  have sms: "map length sm = map length ?rm" unfolding sm_def mask_minus_def using tmap2_shape [OF tms [symmetric]] tms by simp
  have diff: "map length (tmap2 (-) lp tlp) = map length lp" using tmap2_shape [of lp tlp "(-)"] sh(1) by (simp only:)
  have advs: "map length adv = map length lp" unfolding adv_def k1_def clamped_shape by (rule diff)
  have pgs: "map length pgt = map length lp"
    unfolding pgt_def by (subst apply_is_weights_shape) (use pg_losses_shape [OF shapes(3) advs] shapes(4) in auto)
  have fks: "map length fkt = map length lp" unfolding fkt_def clamped_shape by (rule sh(2))
  have masks: "map length (of_mask sm) = map length lp" "map length (of_mask tm) = map length lp"
    unfolding of_mask_def clamped_shape using sms tms shapes(2) by simp_all
  have at: "mat ! i ! t = (if \<not> ?rm ! i ! t then 0
      else if tmask ! i ! t then lc_relay_teacher_fkl_coef lc * fclamp (fkl ! i ! t)
      else pg_token_loss (ratio_low ?cfg) (ratio_high ?cfg) 3 (- clamp_loss ?mx (lp ! i ! t - tlp ! i ! t)) (ppo_ratio (lp ! i ! t) (dd_old_log_probs d ! i ! t))
             * relay_weight d i t)" if i: "i < length ?rm" and t: "t < length (?rm ! i)" for i t
  proof -
    have il: "i < length lp" "t < length (lp ! i)" using shape_nth [OF shapes(2) i] t by simp_all
    note ix = shape_nth [OF _ il(1)]
    have a: "adv ! i ! t = - clamp_loss ?mx (lp ! i ! t - tlp ! i ! t)"
    proof -
      have k: "i < length (tmap2 (-) lp tlp)" "t < length (tmap2 (-) lp tlp ! i)" using ix [OF diff] il(2) by (simp_all only:)
      have "adv ! i ! t = - clamp_loss ?mx (tmap2 (-) lp tlp ! i ! t)"
        unfolding adv_def k1_def map_map using rows_nth [OF k] k by simp
      then show ?thesis using tmap2_nth [of lp tlp i t "(-)"] ix [OF sh(1)] il(2) sh(1) by simp
    qed
    have pg: "pgt ! i ! t = pg_token_loss (ratio_low ?cfg) (ratio_high ?cfg) 3 (adv ! i ! t) (ppo_ratio (lp ! i ! t) (dd_old_log_probs d ! i ! t)) * relay_weight d i t"
      unfolding pgt_def by (rule pg_tok_nth [OF shapes(3) advs shapes(4) [rule_format] il])
    have f: "fkt ! i ! t = fclamp (fkl ! i ! t)" unfolding fkt_def using rows_nth ix [OF sh(2)] il(2) by simp
    have tmb: "tm ! i ! t \<longleftrightarrow> tmask ! i ! t \<and> ?rm ! i ! t" unfolding tm_def by (rule mask_and_nth [OF tmask(2) i t])
    have smb: "sm ! i ! t \<longleftrightarrow> ?rm ! i ! t \<and> \<not> tm ! i ! t"
      unfolding sm_def mask_minus_def using tmap2_nth [of ?rm tm i t] tms shape_nth [OF tms i] t by simp
    have om: "of_mask sm ! i ! t = of_flag (sm ! i ! t)" "of_mask tm ! i ! t = of_flag (tm ! i ! t)"
      unfolding of_mask_def using rows_nth shape_nth [OF sms i] shape_nth [OF tms i] t by simp_all
    have l: "tmap2 (*) (of_mask sm) pgt ! i ! t = of_flag (sm ! i ! t) * pgt ! i ! t"
      using tmap2_nth [of "of_mask sm" pgt i t "(*)"] masks(1) pgs ix [OF pgs] il(2) om(1) by simp
    have r: "tmap2 (\<lambda>m f. m * lc_relay_teacher_fkl_coef lc * f) (of_mask tm) fkt ! i ! t = of_flag (tm ! i ! t) * lc_relay_teacher_fkl_coef lc * fkt ! i ! t"
      using tmap2_nth [of "of_mask tm" fkt i t] masks(2) fks ix [OF fks] il(2) om(2) by simp
    have ls: "map length (tmap2 (*) (of_mask sm) pgt) = map length lp" by (rule trans [OF tmap2_shape pgs]) (simp only: masks pgs)
    have rs: "map length (tmap2 (\<lambda>m f. m * lc_relay_teacher_fkl_coef lc * f) (of_mask tm) fkt) = map length lp"
      by (rule trans [OF tmap2_shape fks]) (simp only: masks fks)
    have "mat ! i ! t = of_flag (sm ! i ! t) * pgt ! i ! t + of_flag (tm ! i ! t) * lc_relay_teacher_fkl_coef lc * fkt ! i ! t"
      unfolding mat_def l [symmetric] r [symmetric]
      by (rule tmap2_nth) (use ls rs ix [OF rs] il(2) in \<open>simp_all only:\<close>)
    then show ?thesis by (simp add: pg f smb tmb a of_flag_def)
  qed
  show ?thesis using flat outs agg at unfolding fclamp_def Let_def by blast
qed

section \<open>A concrete batch\<close>

text \<open>One sequence with one prompt token and two response tokens, the second of them the teacher's.\<close>

definition ex_layout :: batch_layout where
  "ex_layout = Nested [1] [2] 2"

definition ex_dd :: distill_data where
  "ex_dd = \<lparr>dd_layout = ex_layout, dd_width = 2, dd_response_mask = [[True, True]],
     dd_masks = [''relay_teacher_mask'' \<mapsto> [[False, True]]], dd_old_log_probs = [[0, 0]], dd_advantages = [[0, 0]],
     dd_ref_log_prob = None, dd_rollout_is_weights = None, dd_teacher_logprobs = Some [[0], [0], [0]],
     dd_teacher_token_logprobs = None, dd_action_teacher_logprobs = None, dd_action_mask = None, dd_action_ids = None,
     dd_responses = None, dd_dp_size = 1, dd_batch_num_tokens = Some 2, dd_global_batch_size = Some 1\<rparr>"

definition ex_dd_fkl :: distill_data where
  "ex_dd_fkl = ex_dd\<lparr>dd_teacher_token_logprobs := Some [0, 0, 0]\<rparr>"

definition ex_mo :: model_output where
  "ex_mo = \<lparr>mo_log_probs = [0, 0, 0], mo_entropy = None,
     mo_topk = Some (map (\<lambda>x. \<lparr>tk_loss = x, tk_student_mass = 1, tk_teacher_mass = 1, tk_overlap_count = 1, tk_overlap_advantage = 0\<rparr>)
       [3, 4, 5])\<rparr>"

definition ex_actor :: distill_actor where
  "ex_actor = \<lparr>da_loss_agg_mode = ''token-mean'', da_loss_scale_factor = None,
     da_clip = \<lparr>ac_clip_ratio = 1 / 5, ac_clip_ratio_low = None, ac_clip_ratio_high = None, ac_clip_ratio_c = None,
       ac_global_batch_info = no_batch_info\<rparr>,
     da_policy_loss_mode = ''vanilla'', da_entropy_coeff = 0, da_use_kl_loss = False, da_kl_loss_type = ''k1'', da_kl_loss_coef = 0\<rparr>"

lemma ex_padded: "no_padding_2_padding 0 [0, 0, 0 :: real] ex_layout = Inr [[0, 0]]"
    "no_padding_2_padding [0] [[0], [0], [0 :: real]] ex_layout = Inr [[[0], [0]]]"
    "no_padding_2_padding 0 [3, 4, 5 :: real] ex_layout = Inr [[3, 4]]"
  by (simp_all add: ex_layout_def no_padding_2_padding_def layout_lens_def Let_def response_slice_def slice_def numeral_2_eq_2)

lemma ex_lower: "py_lower ''emitted'' = ''emitted''"
  by code_simp

lemma ex_agg: "\<exists>x. agg_loss (dd_width ex_dd) mat msk (da_loss_agg_mode ex_actor) (global_info ex_actor ex_dd) = Inr x"
  by (simp add: ex_actor_def agg_loss_def global_info_def ex_dd_def global_total_def) (rule exI [of _ "masked_sum mat msk / 2"], simp)

lemma ex_relay_parts:
  "relay_teacher_mask (ex_lc mode) ex_dd = Inr [[False, True]]" "relay_teacher_mask (ex_lc mode) ex_dd_fkl = Inr [[False, True]]"
  "no_padding_2_padding 0 (mo_log_probs ex_mo) (dd_layout ex_dd) = Inr [[0, 0]]"
  "no_padding_2_padding 0 (map tk_loss (the (mo_topk ex_mo))) (dd_layout ex_dd) = Inr [[3, 4]]"
  "teacher_token_lp True ex_dd = Inr [[0, 0]]" "teacher_token_lp False ex_dd_fkl = Inr [[0, 0]]"
  by (simp_all add: relay_teacher_mask_def ex_dd_fkl_def ex_lc_def ex_dd_def ex_mo_def ex_padded teacher_token_lp_def
      squeezed_teacher_logprobs_def comp_def)

lemma ex_fkl_same: "dd_layout ex_dd_fkl = dd_layout ex_dd" "dd_width ex_dd_fkl = dd_width ex_dd" "global_info a ex_dd_fkl = global_info a ex_dd"
  by (simp_all add: ex_dd_fkl_def global_info_def)

lemma ex_topk: "mo_topk ex_mo = Some (the (mo_topk ex_mo))"
  by (simp add: ex_mo_def)

lemma ex_rkl_runs: "\<exists>loss m. relay_opd_loss ex_actor (ex_lc ''relay_opd'') ex_mo ex_dd = Inr (loss, m)"
proof -
  have lc: "lc_loss_mode (ex_lc ''relay_opd'') \<noteq> ''relay_opd_fkl''" "py_lower (lc_relay_action_token (ex_lc ''relay_opd'')) = ''emitted''"
    by (simp_all add: ex_lc_def ex_lower)
  show ?thesis
    unfolding relay_opd_loss_def Let_def ex_relay_parts
    by (subst ex_topk) (use ex_agg in \<open>simp add: lc ex_relay_parts split_beta\<close>)
qed

theorem relay_rkl_is_k1_policy_gradient_witness:
  "\<exists>loss m m'. relay_opd_loss ex_actor (ex_lc ''relay_opd'') ex_mo ex_dd = Inr (loss, m)
     \<and> distillation_loss [''vanilla'' \<mapsto> compute_policy_loss_vanilla] ex_actor (ex_lc ''k1'') ex_mo ex_dd = Inr (loss, m')"
proof -
  obtain loss m where run: "relay_opd_loss ex_actor (ex_lc ''relay_opd'') ex_mo ex_dd = Inr (loss, m)"
    using ex_rkl_runs by blast
  have mode: "lc_loss_mode (ex_lc ''relay_opd'') = ''relay_opd''"
      "py_lower (lc_relay_action_token (ex_lc ''relay_opd'')) = ''emitted''"
      "lc_use_policy_gradient (ex_lc ''relay_opd'')" "lc_policy_loss_mode (ex_lc ''relay_opd'') = ''vanilla''"
      "dd_teacher_token_logprobs ex_dd = None" "no_padding_2_padding 0 (mo_log_probs ex_mo) (dd_layout ex_dd) = Inr [[0, 0]]"
      "map length [[0, 0 :: real]] = map length (dd_response_mask ex_dd)"
      "map length (dd_old_log_probs ex_dd) = map length [[0, 0 :: real]]"
    by (simp_all add: ex_lc_def ex_dd_def ex_mo_def ex_lower ex_padded)
  have k1: "(ex_lc ''relay_opd'')\<lparr>lc_loss_mode := ''k1''\<rparr> = ex_lc ''k1''" by (simp add: ex_lc_def)
  have "\<exists>m'. distillation_loss [''vanilla'' \<mapsto> compute_policy_loss_vanilla] ex_actor ((ex_lc ''relay_opd'')\<lparr>lc_loss_mode := ''k1''\<rparr>) ex_mo ex_dd
      = Inr (loss, m')"
    by (rule relay_rkl_is_k1_policy_gradient [OF run mode(1-4) _ mode(5-8)]) (simp_all add: ex_dd_def)
  then show ?thesis using run unfolding k1 by blast
qed

lemma ex_fkl_runs: "\<exists>loss m. relay_opd_loss ex_actor (ex_lc ''relay_opd_fkl'') ex_mo ex_dd_fkl = Inr (loss, m)"
proof -
  have lc: "lc_loss_mode (ex_lc ''relay_opd_fkl'') = ''relay_opd_fkl''" "py_lower (lc_relay_action_token (ex_lc ''relay_opd_fkl'')) = ''emitted''"
    by (simp_all add: ex_lc_def ex_lower)
  have tlp: "teacher_token_lp (lc_loss_mode (ex_lc ''relay_opd_fkl'') \<noteq> ''relay_opd_fkl'') ex_dd_fkl = Inr [[0, 0]]"
    by (simp add: lc ex_relay_parts)
  show ?thesis
    unfolding relay_opd_loss_def Let_def ex_fkl_same ex_relay_parts tlp
    by (subst ex_topk, subst ex_topk) (use ex_agg in \<open>simp add: lc ex_relay_parts split_beta\<close>)
qed

theorem relay_fkl_branches_witness:
  "\<exists>loss m mat. relay_opd_loss ex_actor (ex_lc ''relay_opd_fkl'') ex_mo ex_dd_fkl = Inr (loss, m)
     \<and> agg_loss 2 mat [[1, 1]] ''token-mean'' (global_info ex_actor ex_dd_fkl) = Inr loss \<and> mat ! 0 ! 1 = 4"
proof -
  obtain loss m where run: "relay_opd_loss ex_actor (ex_lc ''relay_opd_fkl'') ex_mo ex_dd_fkl = Inr (loss, m)"
    using ex_fkl_runs by blast
  have h: "lc_loss_mode (ex_lc ''relay_opd_fkl'') = ''relay_opd_fkl''"
      "py_lower (lc_relay_action_token (ex_lc ''relay_opd_fkl'')) = ''emitted''"
      "dd_masks ex_dd_fkl (lc_relay_teacher_mask_key (ex_lc ''relay_opd_fkl'')) = Some [[False, True]]"
      "map length [[False, True]] = map length (dd_response_mask ex_dd_fkl)"
      "no_padding_2_padding 0 (mo_log_probs ex_mo) (dd_layout ex_dd_fkl) = Inr [[0, 0]]"
      "map length [[0, 0 :: real]] = map length (dd_response_mask ex_dd_fkl)"
      "map length (dd_old_log_probs ex_dd_fkl) = map length [[0, 0 :: real]]"
      "\<forall>w. dd_rollout_is_weights ex_dd_fkl = Some w \<longrightarrow> map length w = map length [[0, 0 :: real]]"
    by (simp_all add: ex_lc_def ex_dd_def ex_dd_fkl_def ex_mo_def ex_lower ex_padded)
  obtain mat outs fkl where o: "mo_topk ex_mo = Some outs" "no_padding_2_padding 0 (map tk_loss outs) (dd_layout ex_dd_fkl) = Inr fkl"
      and agg: "agg_loss (dd_width ex_dd_fkl) mat (of_mask (dd_response_mask ex_dd_fkl)) (da_loss_agg_mode ex_actor) (global_info ex_actor ex_dd_fkl) = Inr loss"
      and at: "\<And>i t. i < length (dd_response_mask ex_dd_fkl) \<Longrightarrow> t < length (dd_response_mask ex_dd_fkl ! i) \<Longrightarrow>
        dd_response_mask ex_dd_fkl ! i ! t \<Longrightarrow> [[False, True]] ! i ! t \<Longrightarrow>
        mat ! i ! t = lc_relay_teacher_fkl_coef (ex_lc ''relay_opd_fkl'') *
          (case lc_loss_max_clamp (ex_lc ''relay_opd_fkl'') of None \<Rightarrow> max (fkl ! i ! t) 0 | Some c \<Rightarrow> min (max (fkl ! i ! t) 0) c)"
    using relay_fkl_branches [OF run h] unfolding Let_def by (elim exE conjE) simp
  have fkl: "fkl = [[3, 4]]" using o by (auto simp: ex_mo_def ex_dd_fkl_def ex_dd_def ex_padded)
  have "mat ! 0 ! 1 = 4" using at [of 0 1] by (simp add: fkl ex_dd_fkl_def ex_dd_def ex_lc_def)
  then show ?thesis using run agg
    by (intro exI [of _ loss] exI [of _ m] exI [of _ mat]) (simp add: ex_dd_fkl_def ex_dd_def ex_actor_def of_mask_def of_flag_def)
qed

end
