(* ===== verification/Py_Data.thy ===== *)
theory Py_Data
  imports Prelude Py_Env "HOL-Library.AList"
begin

text \<open>
  Python values and dictionaries as the batch container uses them: values with Python's \<open>==\<close> and truth test,
  dictionaries as association lists in insertion order, general slices, numpy's \<open>array_split\<close>, and the dictionary
  helpers of \<open>verl/utils/py_functional.py\<close>.
\<close>

section \<open>Values\<close>

text \<open>An \<open>MAtom\<close> is an object of which only identity of contents is used; its truth value is true.\<close>

datatype 'm py_obj =
    MNone
  | MBool bool
  | MInt int
  | MStr string
  | MAtom 'm
  | MList "'m py_obj list"
  | MDict "(string \<times> 'm py_obj) list"

type_synonym 'v dict = "(string \<times> 'v) list"

fun py_truth :: "'m py_obj \<Rightarrow> bool" where
  "py_truth MNone = False"
| "py_truth (MBool b) = b"
| "py_truth (MInt i) = (i \<noteq> 0)"
| "py_truth (MStr s) = (s \<noteq> [])"
| "py_truth (MAtom a) = True"
| "py_truth (MList xs) = (xs \<noteq> [])"
| "py_truth (MDict d) = (d \<noteq> [])"

definition bool_int :: "bool \<Rightarrow> int" where
  "bool_int b = (if b then 1 else 0)"

text \<open>Python's \<open>==\<close>: dictionaries are compared without regard to the order of their keys, and \<open>True == 1\<close>.\<close>

fun py_eq :: "'m py_obj \<Rightarrow> 'm py_obj \<Rightarrow> bool" where
  "py_eq (MList xs) w = (case w of MList ys \<Rightarrow> list_all2 py_eq xs ys | _ \<Rightarrow> False)"
| "py_eq (MDict d) w =
     (case w of
        MDict e \<Rightarrow> length d = length e
          \<and> list_all (\<lambda>(k, v). case map_of e k of None \<Rightarrow> False | Some u \<Rightarrow> py_eq v u) d
      | _ \<Rightarrow> False)"
| "py_eq (MBool b) w = (case w of MBool c \<Rightarrow> b = c | MInt i \<Rightarrow> bool_int b = i | _ \<Rightarrow> False)"
| "py_eq (MInt i) w = (case w of MBool c \<Rightarrow> i = bool_int c | MInt j \<Rightarrow> i = j | _ \<Rightarrow> False)"
| "py_eq v w = (v = w)"

text \<open>Keys of a dictionary are distinct.\<close>

fun py_ok :: "'m py_obj \<Rightarrow> bool" where
  "py_ok (MList xs) = list_all py_ok xs"
| "py_ok (MDict d) = (distinct (map fst d) \<and> list_all (\<lambda>(k, v). py_ok v) d)"
| "py_ok v = True"

lemma py_eq_refl [simp]: "py_ok v \<Longrightarrow> py_eq v v"
proof (induction v)
  case (MList xs)
  then show ?case by (simp add: list_all_iff list.rel_refl_strong)
next
  case (MDict d)
  have "map_of d k = Some v" if "(k, v) \<in> set d" for k v
    using that MDict.prems by (simp add: map_of_is_SomeI)
  then show ?case using MDict by (fastforce simp: list_all_iff)
qed auto

text \<open>\<open>xs[-n:]\<close>: for \<open>n = 0\<close> this is the whole list.\<close>

definition last_n :: "nat \<Rightarrow> 'a list \<Rightarrow> 'a list" where
  "last_n n xs = (if n = 0 then xs else drop (length xs - n) xs)"

text \<open>\<open>xs[:n]\<close>.\<close>

definition py_take :: "int \<Rightarrow> 'a list \<Rightarrow> 'a list" where
  "py_take n xs = (if 0 \<le> n then take (nat n) xs else take (length xs - nat (- n)) xs)"

text \<open>\<open>int(v)\<close>.\<close>

definition py_int_of :: "'m py_obj \<Rightarrow> int result" where
  "py_int_of v =
     (case v of
        MInt i \<Rightarrow> Inr i
      | MBool b \<Rightarrow> Inr (bool_int b)
      | MStr s \<Rightarrow> (case py_int s of None \<Rightarrow> Inl (ValueError ''invalid literal for int()'') | Some i \<Rightarrow> Inr i)
      | _ \<Rightarrow> Inl TypeError)"

section \<open>Dictionaries of \<open>py_functional.py\<close>\<close>

text \<open>\<open>d[k] = v\<close> is \<^const>\<open>AList.update\<close>: it replaces in place or appends.\<close>

text \<open>\<open>union_two_dict\<close>, with the equality that the values are compared with.\<close>

definition union_two_dict :: "('v \<Rightarrow> 'v \<Rightarrow> bool) \<Rightarrow> 'v dict \<Rightarrow> 'v dict \<Rightarrow> 'v dict result" where
  "union_two_dict eq dict1 dict2 =
     fold_r (\<lambda>(key, val) d.
       (case map_of d key of
          None \<Rightarrow> Inr (AList.update key val d)
        | Some old \<Rightarrow> if eq val old then Inr (AList.update key val d)
            else Inl (AssertionError ''in meta_dict1 and meta_dict2 are not the same object'')))
       dict2 dict1"

definition lodd_step :: "'v dict \<Rightarrow> 'v list dict \<Rightarrow> 'v list dict result" where
  "lodd_step = fold_r (\<lambda>(key, item) output.
     (case map_of output key of
        None \<Rightarrow> Inl (AssertionError ''Key is not present in the keys of the first dictionary'')
      | Some items \<Rightarrow> Inr (AList.update key (items @ [item]) output)))"

definition list_of_dict_to_dict_of_list :: "'v dict list \<Rightarrow> 'v list dict result" where
  "list_of_dict_to_dict_of_list list_of_dict =
     (case list_of_dict of
        [] \<Rightarrow> Inr []
      | d # _ \<Rightarrow> fold_r lodd_step list_of_dict (map (\<lambda>(key, _). (key, [])) d))"

section \<open>Slices and splits\<close>

definition py_range :: "int \<Rightarrow> int \<Rightarrow> int \<Rightarrow> int list" where
  "py_range a b s =
     (let n = (if s > 0 then (if a < b then (b - a - 1) div s + 1 else 0)
               else if s < 0 then (if b < a then (a - b - 1) div (- s) + 1 else 0) else 0)
      in map (\<lambda>k. a + int k * s) [0..<nat n])"

text \<open>The indices that \<open>slice(start, stop, step)\<close> selects from a sequence of length \<open>n\<close>, \<open>step \<noteq> 0\<close>.\<close>

definition slice_indices :: "int option \<Rightarrow> int option \<Rightarrow> int \<Rightarrow> nat \<Rightarrow> nat list" where
  "slice_indices start stop step n =
     (let lower = (if step < 0 then - 1 else 0);
          upper = (if step < 0 then int n - 1 else int n);
          clip = (\<lambda>i. if i < 0 then max (i + int n) lower else min i upper);
          a = (case start of None \<Rightarrow> if step < 0 then upper else lower | Some i \<Rightarrow> clip i);
          b = (case stop of None \<Rightarrow> if step < 0 then lower else upper | Some i \<Rightarrow> clip i)
      in map nat (py_range a b step))"

text \<open>\<open>xs[i]\<close> with a possibly negative index.\<close>

definition py_index :: "int \<Rightarrow> nat \<Rightarrow> nat result" where
  "py_index i n = (if 0 \<le> i \<and> i < int n then Inr (nat i)
     else if - int n \<le> i \<and> i < 0 then Inr (nat (i + int n)) else Inl IndexError)"

text \<open>\<open>np.array_split\<close> at given indices and into equal parts.\<close>

fun split_at_indices :: "nat \<Rightarrow> nat list \<Rightarrow> 'a list \<Rightarrow> 'a list list" where
  "split_at_indices a [] xs = [drop a xs]"
| "split_at_indices a (b # bs) xs = slice a b xs # split_at_indices b bs xs"

fun split_by_sizes :: "nat list \<Rightarrow> 'a list \<Rightarrow> 'a list list" where
  "split_by_sizes [] xs = []"
| "split_by_sizes (n # ns) xs = take n xs # split_by_sizes ns (drop n xs)"

definition array_split_equal :: "nat \<Rightarrow> 'a list \<Rightarrow> 'a list list" where
  "array_split_equal c xs =
     (let q = length xs div c; r = length xs mod c
      in split_by_sizes (replicate r (q + 1) @ replicate (c - r) q) xs)"

section \<open>Lemmas\<close>

lemma update_conv_map:
  assumes "distinct (map fst d)" "map_of d k = Some old"
  shows "AList.update k v d = map (\<lambda>(k', v'). (k', if k' = k then v else v')) d"
  using assms
proof (induction d)
  case (Cons p d)
  obtain k' v' where p: "p = (k', v')" by (cases p)
  show ?case
  proof (cases "k' = k")
    case True
    then have "map (\<lambda>(k', v'). (k', if k' = k then v else v')) d = d"
      using Cons.prems(1) p by (intro map_idI) (force simp: image_iff)
    then show ?thesis using True p by simp
  next
    case False
    then show ?thesis using Cons p by simp
  qed
qed simp

lemma lodd_step_run:
  assumes "distinct (map fst data)" "distinct (map fst out)" "set (map fst data) \<subseteq> set (map fst out)"
  shows "lodd_step data out
     = Inr (map (\<lambda>(k, xs). (k, xs @ (case map_of data k of None \<Rightarrow> [] | Some v \<Rightarrow> [v]))) out)"
  using assms unfolding lodd_step_def
proof (induction data arbitrary: out)
  case Nil
  then show ?case by (simp add: case_prod_beta)
next
  case (Cons p data)
  obtain k v where p: "p = (k, v)" by (cases p)
  have "k \<in> set (map fst out)" using Cons.prems(3) p by simp
  then obtain items where items: "map_of out k = Some items" by (metis map_of_eq_None_iff not_Some_eq set_map)
  let ?out = "map (\<lambda>(k', v'). (k', if k' = k then items @ [v] else v')) out"
  have keys: "map fst ?out = map fst out" by (simp add: case_prod_beta comp_def)
  have nk: "map_of data k = None" using Cons.prems(1) p by (simp add: map_of_eq_None_iff)
  have val: "xs = items" if "(k, xs) \<in> set out" for xs
    using that items Cons.prems(2) by (metis map_of_is_SomeI option.inject)
  have sub: "distinct (map fst data)" "distinct (map fst ?out)" "set (map fst data) \<subseteq> set (map fst ?out)"
    using Cons.prems p unfolding keys by auto
  have "map (\<lambda>(k', xs). (k', xs @ (case map_of data k' of None \<Rightarrow> [] | Some v \<Rightarrow> [v]))) ?out
      = map (\<lambda>(k', xs). (k', xs @ (case map_of (p # data) k' of None \<Rightarrow> [] | Some v \<Rightarrow> [v]))) out"
    unfolding map_map using val by (intro map_cong refl) (auto simp: p nk)
  then show ?case using Cons.IH [OF sub]
    by (simp add: p items update_conv_map [OF Cons.prems(2) items])
qed

lemma lodd_steps_run:
  assumes "\<forall>d \<in> set ds. distinct (map fst d) \<and> set (map fst d) \<subseteq> set (map fst out)" "distinct (map fst out)"
  shows "fold_r lodd_step ds out
     = Inr (map (\<lambda>(k, xs). (k, xs @ List.map_filter (\<lambda>d. map_of d k) ds)) out)"
  using assms
proof (induction ds arbitrary: out)
  case Nil
  then show ?case by (simp add: List.map_filter_simps case_prod_beta)
next
  case (Cons d ds)
  let ?out = "map (\<lambda>(k, xs). (k, xs @ (case map_of d k of None \<Rightarrow> [] | Some v \<Rightarrow> [v]))) out"
  have keys: "map fst ?out = map fst out" by (simp add: case_prod_beta comp_def)
  have step: "lodd_step d out = Inr ?out" using Cons.prems by (intro lodd_step_run) auto
  have "fold_r lodd_step ds ?out = Inr (map (\<lambda>(k, xs). (k, xs @ List.map_filter (\<lambda>d. map_of d k) ds)) ?out)"
    by (rule Cons.IH) (use Cons.prems in \<open>simp_all only: keys, simp_all\<close>)
  moreover have "map (\<lambda>(k, xs). (k, xs @ List.map_filter (\<lambda>d. map_of d k) ds)) ?out
      = map (\<lambda>(k, xs). (k, xs @ List.map_filter (\<lambda>d. map_of d k) (d # ds))) out"
    unfolding map_map by (intro map_cong refl) (auto simp: List.map_filter_simps split: option.splits)
  ultimately show ?case by (simp add: step)
qed

text \<open>Dictionaries over the same keys are transposed: every key gets the values of all of them, in order.\<close>

lemma lodd_transpose:
  assumes "ds \<noteq> []" "\<forall>d \<in> set ds. map fst d = ks" "distinct ks"
  shows "list_of_dict_to_dict_of_list ds = Inr (map (\<lambda>k. (k, map (\<lambda>d. the (map_of d k)) ds)) ks)"
proof -
  obtain d ds' where ds: "ds = d # ds'" using assms(1) by (cases ds) auto
  have d: "map fst d = ks" using assms(2) ds by simp
  let ?out = "map (\<lambda>(key, _). (key, [])) d :: (string \<times> 'a list) list"
  have keys: "map fst ?out = ks" using d by (simp add: case_prod_beta comp_def)
  have out: "?out = map (\<lambda>k. (k, [])) ks" by (simp flip: d add: case_prod_beta comp_def)
  have "fold_r lodd_step ds ?out = Inr (map (\<lambda>(k, xs). (k, xs @ List.map_filter (\<lambda>d. map_of d k) ds)) ?out)"
    by (rule lodd_steps_run) (use assms keys in simp_all)
  also have "map (\<lambda>(k, xs). (k, xs @ List.map_filter (\<lambda>d. map_of d k) ds)) ?out
      = map (\<lambda>k. (k, List.map_filter (\<lambda>d. map_of d k) ds)) ks" unfolding out by simp
  also have "\<dots> = map (\<lambda>k. (k, map (\<lambda>d. the (map_of d k)) ds)) ks"
  proof (intro map_cong refl arg_cong2 [where f = Pair])
    fix k assume "k \<in> set ks"
    then have "map_of d k \<noteq> None" if "d \<in> set ds" for d
      using assms(2) that by (metis map_of_eq_None_iff set_map)
    then have "\<forall>d \<in> set ds. \<exists>v. map_of d k = Some v" by auto
    then show "List.map_filter (\<lambda>d. map_of d k) ds = map (\<lambda>d. the (map_of d k)) ds"
      by (induction ds) (auto simp: List.map_filter_simps)
  qed
  finally show ?thesis unfolding list_of_dict_to_dict_of_list_def ds by simp
qed

lemma union_two_dict_same:
  assumes "distinct (map fst d)" "\<forall>(k, v) \<in> set d. eq v v" "set e \<subseteq> set d"
  shows "union_two_dict eq d e = Inr d"
  using assms(3) unfolding union_two_dict_def
proof (induction e)
  case (Cons p e)
  obtain k v where p: "p = (k, v)" by (cases p)
  then have kv: "(k, v) \<in> set d" using Cons.prems by simp
  then have m: "map_of d k = Some v" using assms(1) by simp
  have "AList.update k v d = d"
    unfolding update_conv_map [OF assms(1) m]
    using assms(1) kv by (intro map_idI) (auto dest: eq_key_imp_eq_value)
  then show ?case using Cons m kv assms(2) by (auto simp: p)
qed simp

lemma concat_split_by_sizes: "sum_list ns = length xs \<Longrightarrow> concat (split_by_sizes ns xs) = xs"
  by (induction ns arbitrary: xs) auto

lemma length_split_by_sizes [simp]: "length (split_by_sizes ns xs) = length ns"
  by (induction ns arbitrary: xs) auto

lemma map_split_by_sizes: "map (map f) (split_by_sizes ns xs) = split_by_sizes ns (map f xs)"
  by (induction ns arbitrary: xs) (auto simp: take_map drop_map)

lemma array_split_equal_dvd:
  assumes "0 < c" "length xs = q * c"
  shows "array_split_equal c xs = split_by_sizes (replicate c q) xs"
  using assms by (simp add: array_split_equal_def Let_def)

lemma py_range_up: "py_range 0 (int n) 1 = map int [0..<n]"
  by (cases n) (simp_all add: py_range_def Let_def nat_add_distrib del: upt_Suc)

lemma slice_indices_prefix: "m \<le> n \<Longrightarrow> slice_indices None (Some (int m)) 1 n = [0..<m]"
  by (simp add: slice_indices_def Let_def py_range_up comp_def)

lemma slice_indices_drop_last: "0 < m \<Longrightarrow> m \<le> n \<Longrightarrow> slice_indices None (Some (- int m)) 1 n = [0..<n - m]"
  using py_range_up [of "n - m"] by (simp add: slice_indices_def Let_def comp_def of_nat_diff)

text \<open>A dictionary with distinct keys whose values satisfy a predicate.\<close>

definition dict_ok :: "('v \<Rightarrow> bool) \<Rightarrow> 'v dict \<Rightarrow> bool" where
  "dict_ok P d \<longleftrightarrow> distinct (map fst d) \<and> list_all (\<lambda>(_, v). P v) d"

lemma dict_ok_filter: "dict_ok P d \<Longrightarrow> dict_ok P (filter Q d)"
  by (auto simp: dict_ok_def list_all_iff distinct_map inj_on_def)

lemma dict_ok_update: "dict_ok P d \<Longrightarrow> P v \<Longrightarrow> dict_ok P (AList.update k v d)"
proof -
  assume d: "dict_ok P d" and v: "P v"
  have "distinct (map fst (AList.update k v d))" using d by (simp add: dict_ok_def distinct_update)
  moreover have "P w" if "(k', w) \<in> set (AList.update k v d)" for k' w
    using that d v by (induction d) (auto simp: dict_ok_def list_all_iff split: if_splits)
  ultimately show ?thesis by (auto simp: dict_ok_def list_all_iff)
qed

lemma dict_ok_delete: "dict_ok P d \<Longrightarrow> dict_ok P (AList.delete k d)"
  by (simp add: AList.delete_eq dict_ok_filter)

end
