(* ===== verification/Data_Proto.thy ===== *)
theory Data_Proto
  imports Py_Data Py_Env Seqlen_Balance Tensor_Ops
begin

text \<open>
  The batch container \<open>DataProto\<close> of \<open>verl/protocol.py\<close>. A tensor is the list of its rows along the batch dimension and
  an object array the list of its entries; rows and entries are opaque. A \<open>TensorDict\<close> is its batch size with its
  tensors by key; what is used of it (indexing, \<open>cat\<close>, \<open>chunk\<close>, \<open>select\<close>, the size check of its constructor) acts on
  the rows of every tensor alike. Operations that the code performs in place return the updated container.
\<close>

section \<open>The container\<close>

record 't tensordict =
  td_size :: nat
  td_items :: "(string \<times> 't list) list"

record ('t, 'n, 'm) data_proto =
  dp_batch :: "'t tensordict option"
  dp_non_tensor :: "(string \<times> 'n list) list"
  dp_meta :: "(string \<times> 'm py_obj) list"

record ('t, 'n, 'm) data_proto_item =
  item_batch :: "(string \<times> 't) list option"
  item_non_tensor :: "(string \<times> 'n) list"
  item_meta :: "(string \<times> 'm py_obj) list"

text \<open>\<open>TensorDict(source=..., batch_size=(n,))\<close> refuses tensors of another length.\<close>

definition make_td :: "nat \<Rightarrow> (string \<times> 't list) list \<Rightarrow> 't tensordict result" where
  "make_td n items =
     (if list_all (\<lambda>(_, c). length c = n) items then Inr \<lparr>td_size = n, td_items = items\<rparr>
      else Inl (RuntimeError ''batch dimension mismatch''))"

text \<open>\<open>check_consistency\<close>, and the constructor, whose \<open>__post_init__\<close> calls it.\<close>

definition check_consistency :: "('t, 'n, 'm) data_proto \<Rightarrow> unit result" where
  "check_consistency dp =
     (case dp_batch dp of
        None \<Rightarrow> Inr ()
      | Some td \<Rightarrow> ensure (list_all (\<lambda>(_, val). length val = td_size td) (dp_non_tensor dp))
                     (AssertionError ''length is not equal to batch size''))"

definition make_dp :: "'t tensordict option \<Rightarrow> (string \<times> 'n list) list \<Rightarrow> (string \<times> 'm py_obj) list
    \<Rightarrow> ('t, 'n, 'm) data_proto result" where
  "make_dp b nt meta =
     (let dp = \<lparr>dp_batch = b, dp_non_tensor = nt, dp_meta = meta\<rparr>
      in bind_r (check_consistency dp) (\<lambda>_. Inr dp))"

definition dp_len :: "('t, 'n, 'm) data_proto \<Rightarrow> nat" where
  "dp_len dp =
     (case dp_batch dp of
        Some td \<Rightarrow> td_size td
      | None \<Rightarrow> (case dp_non_tensor dp of [] \<Rightarrow> 0 | (_, val) # _ \<Rightarrow> length val))"

section \<open>Construction\<close>

definition auto_padding_key :: string where
  "auto_padding_key = ''_verl_auto_padding''"

definition upper_char :: "char \<Rightarrow> char" where
  "upper_char c = (let n = of_char c :: nat in if 97 \<le> n \<and> n \<le> 122 then char_of (n - 32) else c)"

text \<open>\<open>DataProtoConfig.auto_padding\<close>: the environment, or the value stored by the setter.\<close>

definition config_auto_padding :: "environ \<Rightarrow> bool \<Rightarrow> bool" where
  "config_auto_padding env stored \<longleftrightarrow>
     map upper_char (opt_default ''FALSE'' (env ''VERL_AUTO_PADDING'')) \<in> {''TRUE'', ''1''} \<or> stored"

definition is_padding_enabled :: "bool \<Rightarrow> ('t, 'n, 'm) data_proto \<Rightarrow> bool" where
  "is_padding_enabled config dp \<longleftrightarrow>
     (case map_of (dp_meta dp) auto_padding_key of None \<Rightarrow> False | Some v \<Rightarrow> py_truth v) \<or> config"

text \<open>\<open>from_dict\<close> with one batch dimension.\<close>

definition from_dict :: "(string \<times> 't list) list \<Rightarrow> (string \<times> 'n list) list \<Rightarrow> (string \<times> 'm py_obj) list \<Rightarrow> bool
    \<Rightarrow> ('t, 'n, 'm) data_proto result" where
  "from_dict tensors non_tensors meta auto_padding =
     (let meta' = (if auto_padding then AList.update auto_padding_key (MBool True) meta else meta) in
      case tensors of
        [] \<Rightarrow> make_dp None non_tensors meta'
      | (_, pivot) # _ \<Rightarrow>
          if list_all (\<lambda>(_, c). length c = length pivot) tensors
          then bind_r (make_td (length pivot) tensors) (\<lambda>td. make_dp (Some td) non_tensors meta')
          else Inl (AssertionError ''Not all the tensor in tensors have the same batch size''))"

datatype ('t, 'n) entry = Tensor "'t list" | Array "'n list" | Other

fun split_entries :: "(string \<times> ('t, 'n) entry) list \<Rightarrow> ((string \<times> 't list) list \<times> (string \<times> 'n list) list) result" where
  "split_entries [] = Inr ([], [])"
| "split_entries ((k, e) # es) =
     (case e of
        Other \<Rightarrow> Inl (ValueError ''Unsupported type in data'')
      | Tensor c \<Rightarrow> bind_r (split_entries es) (\<lambda>(ts, ns). Inr ((k, c) # ts, ns))
      | Array c \<Rightarrow> bind_r (split_entries es) (\<lambda>(ts, ns). Inr (ts, (k, c) # ns)))"

definition from_single_dict :: "(string \<times> ('t, 'n) entry) list \<Rightarrow> (string \<times> 'm py_obj) list \<Rightarrow> bool
    \<Rightarrow> ('t, 'n, 'm) data_proto result" where
  "from_single_dict data meta auto_padding =
     bind_r (split_entries data) (\<lambda>(ts, ns). from_dict ts ns meta auto_padding)"

section \<open>Indexing\<close>

definition take_cols :: "nat list \<Rightarrow> (string \<times> 'a list) list \<Rightarrow> (string \<times> 'a list) list" where
  "take_cols idx = map (\<lambda>(k, c). (k, map ((!) c) idx))"

text \<open>\<open>slice(start, end, step)\<close>: numpy accepts a negative step, tensors do not.\<close>

definition dp_slice :: "int option \<Rightarrow> int option \<Rightarrow> int option \<Rightarrow> ('t, 'n, 'm) data_proto \<Rightarrow> ('t, 'n, 'm) data_proto result" where
  "dp_slice start stop step dp =
     (let s = opt_default 1 step in
      if s = 0 \<and> (dp_batch dp \<noteq> None \<or> dp_non_tensor dp \<noteq> []) then Inl (ValueError ''slice step cannot be zero'')
      else if s < 0 \<and> dp_batch dp \<noteq> None then Inl (ValueError ''step must be greater than zero'')
      else
        make_dp
          (map_option (\<lambda>td. let idx = slice_indices start stop s (td_size td)
                            in \<lparr>td_size = length idx, td_items = take_cols idx (td_items td)\<rparr>) (dp_batch dp))
          (map (\<lambda>(k, c). (k, map ((!) c) (slice_indices start stop s (length c)))) (dp_non_tensor dp))
          (dp_meta dp))"

datatype idxs = IntIdxs "int list" | BoolIdxs "bool list"

text \<open>Indexing one tensor or array: \<open>tensor[idxs]\<close>.\<close>

definition index_col :: "idxs \<Rightarrow> 'a list \<Rightarrow> 'a list result" where
  "index_col ix c =
     (case ix of
        IntIdxs is \<Rightarrow> bind_r (map_r (\<lambda>i. py_index i (length c)) is) (\<lambda>js. Inr (map ((!) c) js))
      | BoolIdxs bs \<Rightarrow> if length bs = length c then Inr (map fst (filter snd (zip c bs))) else Inl IndexError)"

definition idxs_size :: "idxs \<Rightarrow> nat" where
  "idxs_size ix = (case ix of IntIdxs is \<Rightarrow> length is | BoolIdxs bs \<Rightarrow> length (filter id bs))"

definition map_cols :: "('a list \<Rightarrow> 'b list result) \<Rightarrow> (string \<times> 'a list) list \<Rightarrow> (string \<times> 'b list) list result" where
  "map_cols f = map_r (\<lambda>(k, c). bind_r (f c) (\<lambda>c'. Inr (k, c')))"

definition opt_r :: "('a \<Rightarrow> 'b result) \<Rightarrow> 'a option \<Rightarrow> 'b option result" where
  "opt_r f x = (case x of None \<Rightarrow> Inr None | Some v \<Rightarrow> bind_r (f v) (\<lambda>w. Inr (Some w)))"

definition select_idxs :: "idxs \<Rightarrow> ('t, 'n, 'm) data_proto \<Rightarrow> ('t, 'n, 'm) data_proto result" where
  "select_idxs ix dp =
     bind_r (opt_r (\<lambda>td. bind_r (map_cols (index_col ix) (td_items td)) (make_td (idxs_size ix))) (dp_batch dp)) (\<lambda>b.
     bind_r (map_cols (index_col ix) (dp_non_tensor dp)) (\<lambda>nt.
       make_dp b nt (dp_meta dp)))"

text \<open>\<open>self[i]\<close> for an integer.\<close>

definition index_item :: "int \<Rightarrow> (string \<times> 'a list) list \<Rightarrow> (string \<times> 'a) list result" where
  "index_item i = map_r (\<lambda>(k, c). bind_r (py_index i (length c)) (\<lambda>j. Inr (k, c ! j)))"

definition get_item :: "int \<Rightarrow> ('t, 'n, 'm) data_proto \<Rightarrow> ('t, 'n, 'm) data_proto_item result" where
  "get_item i dp =
     bind_r (opt_r (\<lambda>td. bind_r (py_index i (td_size td)) (\<lambda>_. index_item i (td_items td))) (dp_batch dp)) (\<lambda>b.
     bind_r (index_item i (dp_non_tensor dp)) (\<lambda>nt.
       Inr \<lparr>item_batch = b, item_non_tensor = nt, item_meta = dp_meta dp\<rparr>))"

section \<open>Selecting, removing and joining keys\<close>

definition keep_keys :: "string list \<Rightarrow> (string \<times> 'a) list \<Rightarrow> (string \<times> 'a) list" where
  "keep_keys ks = filter (\<lambda>(k, _). k \<in> set ks)"

text \<open>\<open>select\<close>; \<open>TensorDict.select\<close> refuses keys that are absent.\<close>

definition dp_select :: "string list option \<Rightarrow> string list option \<Rightarrow> string list option
    \<Rightarrow> ('t, 'n, 'm) data_proto \<Rightarrow> ('t, 'n, 'm) data_proto result" where
  "dp_select batch_keys non_tensor_keys meta_keys dp =
     bind_r (case batch_keys of
               None \<Rightarrow> Inr (dp_batch dp)
             | Some ks \<Rightarrow> (case dp_batch dp of
                   None \<Rightarrow> Inl AttributeError
                 | Some td \<Rightarrow> if set ks \<subseteq> set (map fst (td_items td))
                     then Inr (Some (td\<lparr>td_items := keep_keys ks (td_items td)\<rparr>)) else Inl (KeyError ''select'')))
       (\<lambda>b. make_dp b
          (case non_tensor_keys of None \<Rightarrow> dp_non_tensor dp | Some ks \<Rightarrow> keep_keys ks (dp_non_tensor dp))
          (case meta_keys of None \<Rightarrow> dp_meta dp | Some ks \<Rightarrow> keep_keys ks (dp_meta dp)))"

text \<open>\<open>out[key] = d.pop(key)\<close> for each key; the state is the dictionary and what was taken.\<close>

definition dp_pop_keys :: "string list \<Rightarrow> (string \<times> 'a) list \<Rightarrow> ((string \<times> 'a) list \<times> (string \<times> 'a) list) result" where
  "dp_pop_keys ks d =
     fold_r (\<lambda>key (d, out).
       (case map_of d key of
          None \<Rightarrow> Inl (AssertionError ''key in keys()'')
        | Some v \<Rightarrow> Inr (AList.delete key d, AList.update key v out))) ks (d, [])"

text \<open>\<open>pop\<close>: the remaining container and the popped one.\<close>

definition dp_pop :: "string list \<Rightarrow> string list \<Rightarrow> string list \<Rightarrow> ('t, 'n, 'm) data_proto
    \<Rightarrow> (('t, 'n, 'm) data_proto \<times> ('t, 'n, 'm) data_proto) result" where
  "dp_pop batch_keys non_tensor_keys meta_keys dp =
     bind_r (case dp_batch dp of
               None \<Rightarrow> if batch_keys = [] then Inr (None, []) else Inl AttributeError
             | Some td \<Rightarrow> bind_r (dp_pop_keys batch_keys (td_items td))
                 (\<lambda>(rest, out). Inr (Some (td\<lparr>td_items := rest\<rparr>), out))) (\<lambda>(b, tensors).
     bind_r (dp_pop_keys non_tensor_keys (dp_non_tensor dp)) (\<lambda>(nt, non_tensors).
     bind_r (dp_pop_keys meta_keys (dp_meta dp)) (\<lambda>(meta, meta_out).
     bind_r (from_dict tensors non_tensors meta_out False) (\<lambda>popped.
       Inr (\<lparr>dp_batch = b, dp_non_tensor = nt, dp_meta = meta\<rparr>, popped)))))"

text \<open>\<open>union_tensor_dict\<close>; \<open>teq\<close> is the tensor library's \<open>equal\<close>.\<close>

definition union_tensor_dict :: "('t list \<Rightarrow> 't list \<Rightarrow> bool) \<Rightarrow> 't tensordict \<Rightarrow> 't tensordict \<Rightarrow> 't tensordict result" where
  "union_tensor_dict teq td1 td2 =
     (if td_size td1 \<noteq> td_size td2 then Inl (AssertionError ''Two tensor dict must have identical batch size'')
      else bind_r
        (fold_r (\<lambda>(key, c) d.
           (case map_of d key of
              None \<Rightarrow> Inr (d @ [(key, c)])
            | Some old \<Rightarrow> if teq old c then Inr d else Inl (AssertionError ''are not the same object'')))
           (td_items td2) (td_items td1))
        (\<lambda>items. Inr (td1\<lparr>td_items := items\<rparr>)))"

text \<open>\<open>union\<close>: tensors, object arrays (compared by \<open>_deep_equal\<close>, for which equal entries are equal, NaN
  included) and meta information. The constructor is not called, so the lengths of the arrays are not checked.\<close>

definition dp_union :: "('t list \<Rightarrow> 't list \<Rightarrow> bool) \<Rightarrow> ('t, 'n, 'm) data_proto \<Rightarrow> ('t, 'n, 'm) data_proto
    \<Rightarrow> ('t, 'n, 'm) data_proto result" where
  "dp_union teq dp other =
     (case (dp_batch dp, dp_batch other) of
        (Some td1, Some td2) \<Rightarrow>
          bind_r (union_tensor_dict teq td1 td2) (\<lambda>td.
          bind_r (union_two_dict (=) (dp_non_tensor dp) (dp_non_tensor other)) (\<lambda>nt.
          bind_r (union_two_dict py_eq (dp_meta dp) (dp_meta other)) (\<lambda>meta.
            Inr \<lparr>dp_batch = Some td, dp_non_tensor = nt, dp_meta = meta\<rparr>)))
      | _ \<Rightarrow> Inl AttributeError)"

section \<open>Concatenation\<close>

text \<open>\<open>torch.cat\<close> of tensor dictionaries, which must have the same keys.\<close>

definition td_cat :: "'t tensordict list \<Rightarrow> 't tensordict result" where
  "td_cat tds =
     (case tds of
        [] \<Rightarrow> Inl (RuntimeError ''expected a non-empty list of TensorDicts'')
      | td # _ \<Rightarrow>
          if list_all (\<lambda>t. set (map fst (td_items t)) = set (map fst (td_items td))) tds
          then Inr \<lparr>td_size = sum_list (map td_size tds),
                    td_items = map (\<lambda>k. (k, concat (map (\<lambda>t. the (map_of (td_items t) k)) tds))) (map fst (td_items td))\<rparr>
          else Inl (KeyError ''got keys that are incompatible''))"

text \<open>One meta entry of one container: metrics are collected, other values must agree.\<close>

definition metrics_key :: string where
  "metrics_key = ''metrics''"

definition merge_entry :: "string \<times> 'm py_obj \<Rightarrow> 'm py_obj list \<times> (string \<times> 'm py_obj) list
    \<Rightarrow> ('m py_obj list \<times> (string \<times> 'm py_obj) list) result" where
  "merge_entry = (\<lambda>(k, v) (all_metrics, merged).
     if k = metrics_key
     then Inr (case v of MNone \<Rightarrow> all_metrics | MList vs \<Rightarrow> all_metrics @ vs | _ \<Rightarrow> all_metrics @ [v], merged)
     else (case map_of merged k of
             Some old \<Rightarrow> if py_eq old v then Inr (all_metrics, merged) else Inl (AssertionError ''Conflicting values for meta_info key'')
           | None \<Rightarrow> Inr (all_metrics, merged @ [(k, v)])))"

definition as_dict :: "'m py_obj \<Rightarrow> (string \<times> 'm py_obj) list result" where
  "as_dict v = (case v of MDict d \<Rightarrow> Inr d | _ \<Rightarrow> Inl AttributeError)"

definition merge_meta :: "(string \<times> 'm py_obj) list list \<Rightarrow> (string \<times> 'm py_obj) list result" where
  "merge_meta metas =
     bind_r (fold_r (fold_r merge_entry) metas ([], [])) (\<lambda>(all_metrics, merged).
       if all_metrics = [] then Inr merged
       else bind_r (map_r as_dict all_metrics) (\<lambda>ds.
            bind_r (list_of_dict_to_dict_of_list ds) (\<lambda>m.
              Inr (merged @ [(metrics_key, MDict (map (\<lambda>(k, vs). (k, MList vs)) m))]))))"

definition dp_concat :: "('t, 'n, 'm) data_proto list \<Rightarrow> ('t, 'n, 'm) data_proto result" where
  "dp_concat data =
     (case data of
        [] \<Rightarrow> Inl IndexError
      | d # _ \<Rightarrow>
          bind_r (if dp_batch d = None then Inr None
                  else if list_ex (\<lambda>x. dp_batch x = None) data then Inl TypeError
                  else bind_r (td_cat (map (\<lambda>x. the (dp_batch x)) data)) (\<lambda>td. Inr (Some td))) (\<lambda>b.
          bind_r (list_of_dict_to_dict_of_list (map dp_non_tensor data)) (\<lambda>nt.
          bind_r (merge_meta (map dp_meta data)) (\<lambda>meta.
            make_dp b (map (\<lambda>(k, cs). (k, concat cs)) nt) meta))))"

section \<open>Repeating and padding\<close>

definition interleave_rows :: "nat \<Rightarrow> 'a list \<Rightarrow> 'a list" where
  "interleave_rows n xs = concat (map (replicate n) xs)"

definition repeat_stack :: "nat \<Rightarrow> 'a list \<Rightarrow> 'a list" where
  "repeat_stack n xs = concat (replicate n xs)"

definition dp_repeat :: "nat \<Rightarrow> bool \<Rightarrow> ('t, 'n, 'm) data_proto \<Rightarrow> ('t, 'n, 'm) data_proto result" where
  "dp_repeat n interleave dp =
     (let rep_t = (if interleave then interleave_rows n else repeat_stack n);
          rep_n = (if interleave then interleave_rows n else repeat_stack n)
      in bind_r (opt_r (\<lambda>td. make_td (td_size td * n) (map (\<lambda>(k, c). (k, rep_t c)) (td_items td))) (dp_batch dp))
           (\<lambda>b. make_dp b (map (\<lambda>(k, c). (k, rep_n c)) (dp_non_tensor dp)) (dp_meta dp)))"

text \<open>Row \<open>i\<close> of a column repeated \<open>reps ! i\<close> times; a single count is broadcast.\<close>

definition repeat_each :: "nat list \<Rightarrow> 'a list \<Rightarrow> 'a list result" where
  "repeat_each reps xs =
     (if length reps = length xs then Inr (concat (map2 replicate reps xs))
      else if length reps = 1 then Inr (interleave_rows (hd reps) xs)
      else Inl (RuntimeError ''repeats must have the same size as input along dim''))"

definition sample_level_repeat :: "nat list \<Rightarrow> ('t, 'n, 'm) data_proto \<Rightarrow> ('t, 'n, 'm) data_proto result" where
  "sample_level_repeat reps dp =
     bind_r (opt_r (\<lambda>td. bind_r (map_cols (repeat_each reps) (td_items td)) (make_td (sum_list reps))) (dp_batch dp)) (\<lambda>b.
     bind_r (map_cols (repeat_each reps) (dp_non_tensor dp)) (\<lambda>nt.
       make_dp b nt (dp_meta dp)))"

text \<open>\<open>padding\<close>: in place; the meta information stays that of the container.\<close>

definition dp_padding :: "nat \<Rightarrow> string \<Rightarrow> ('t, 'n, 'm) data_proto \<Rightarrow> ('t, 'n, 'm) data_proto result" where
  "dp_padding padding_size padding_candidate dp =
     (if padding_size = 0 then Inr dp
      else
        bind_r (select_idxs (IntIdxs [if padding_candidate = ''first'' then 0 else int (dp_len dp) - 1]) dp) (\<lambda>cand.
        bind_r (dp_repeat padding_size True cand) (\<lambda>part.
        bind_r (dp_concat [dp, part]) (\<lambda>padded.
          Inr (dp\<lparr>dp_batch := dp_batch padded, dp_non_tensor := dp_non_tensor padded\<rparr>)))))"

text \<open>The loop of \<open>pad_dataproto_to_divisor\<close>: the sizes of the prefixes that are appended. With no items there is
  nothing to pad, so the second guard is never what ends it.\<close>

function take_sizes :: "nat \<Rightarrow> nat \<Rightarrow> nat list" where
  "take_sizes len remaining_pad =
     (if remaining_pad = 0 \<or> len = 0 then []
      else (let take_size = min remaining_pad len in take_size # take_sizes len (remaining_pad - take_size)))"
  by pat_completeness auto
termination by (relation "measure snd") auto

declare take_sizes.simps [simp del]

definition pad_dataproto_to_divisor :: "('t, 'n, 'm) data_proto \<Rightarrow> nat \<Rightarrow> (('t, 'n, 'm) data_proto \<times> nat) result" where
  "pad_dataproto_to_divisor data size_divisor =
     (if size_divisor = 0 then Inl ZeroDivisionError
      else if dp_len data mod size_divisor \<noteq> 0
      then (let pad_size = size_divisor - dp_len data mod size_divisor in
            bind_r (map_r (\<lambda>n. dp_slice None (Some (int n)) None data) (take_sizes (dp_len data) pad_size)) (\<lambda>padding_protos.
            bind_r (dp_concat (data # padding_protos)) (\<lambda>padded. Inr (padded, pad_size))))
      else Inr (data, 0))"

definition unpad_dataproto :: "('t, 'n, 'm) data_proto \<Rightarrow> nat \<Rightarrow> ('t, 'n, 'm) data_proto result" where
  "unpad_dataproto data pad_size =
     (if pad_size \<noteq> 0 then dp_slice None (Some (- int pad_size)) None data else Inr data)"

section \<open>Splitting\<close>

text \<open>The sizes of \<open>TensorDict.chunk\<close>: pieces of \<open>ceil(n / chunks)\<close> rows, the last one smaller, at least one piece,
  possibly fewer than asked for.\<close>

function split_sizes :: "nat \<Rightarrow> nat \<Rightarrow> nat list" where
  "split_sizes s n = (if n \<le> s \<or> s = 0 then [n] else s # split_sizes s (n - s))"
  by pat_completeness auto
termination by (relation "measure snd") auto

declare split_sizes.simps [simp del]

definition td_chunk :: "nat \<Rightarrow> 't tensordict \<Rightarrow> 't tensordict list" where
  "td_chunk c td =
     (let sizes = split_sizes ((td_size td + c - 1) div c) (td_size td)
      in map (\<lambda>i. \<lparr>td_size = sizes ! i, td_items = map (\<lambda>(k, col). (k, split_by_sizes sizes col ! i)) (td_items td)\<rparr>)
           [0..<length sizes])"

text \<open>\<open>chunk\<close>: the arrays are split where the tensors were (\<open>np.cumsum(sizes)[:-1]\<close>), or evenly when there are no
  tensors. Fewer pieces than asked for are an error: of the assertion when there is an array, else of \<open>batch_lst[i]\<close>.\<close>

definition dp_chunk :: "bool \<Rightarrow> nat \<Rightarrow> ('t, 'n, 'm) data_proto \<Rightarrow> ('t, 'n, 'm) data_proto list result" where
  "dp_chunk config c dp =
     (if c = 0 then Inl ZeroDivisionError
      else if \<not> is_padding_enabled config dp \<and> dp_len dp mod c \<noteq> 0
      then Inl (AssertionError ''only support equal chunk'')
      else
        (let tds = map_option (td_chunk c) (dp_batch dp);
             split = (case tds of
                        None \<Rightarrow> array_split_equal c
                      | Some ts \<Rightarrow> split_at_indices 0 (butlast (cumsum 0 (map td_size ts))))
         in if list_ex (\<lambda>(_, val). length (split val) \<noteq> c) (dp_non_tensor dp)
            then Inl (AssertionError ''len(non_tensor_lst) == chunks'')
            else map_r (\<lambda>i.
              bind_r (case tds of None \<Rightarrow> Inr None | Some ts \<Rightarrow> if i < length ts then Inr (Some (ts ! i)) else Inl IndexError)
                (\<lambda>b. make_dp b (map (\<lambda>(k, val). (k, split val ! i)) (dp_non_tensor dp)) (dp_meta dp))) [0..<c]))"

text \<open>\<open>split\<close>: \<open>range(0, len(self), split_size)\<close> gives the starts of the slices.\<close>

definition dp_split :: "nat \<Rightarrow> ('t, 'n, 'm) data_proto \<Rightarrow> ('t, 'n, 'm) data_proto list result" where
  "dp_split split_size dp =
     (if split_size = 0 then Inl (ValueError ''range() arg 3 must not be zero'')
      else map_r (\<lambda>i. dp_slice (Some i) (Some (i + int split_size)) None dp)
             (py_range 0 (int (dp_len dp)) (int split_size)))"

text \<open>\<open>reorder\<close>, in place: indexing without a consistency check.\<close>

definition dp_reorder :: "int list \<Rightarrow> ('t, 'n, 'm) data_proto \<Rightarrow> ('t, 'n, 'm) data_proto result" where
  "dp_reorder indices dp =
     (case dp_batch dp of
        None \<Rightarrow> Inl TypeError
      | Some td \<Rightarrow>
          bind_r (map_r (\<lambda>i. py_index i (td_size td)) indices) (\<lambda>js.
          bind_r (map_cols (index_col (IntIdxs indices)) (dp_non_tensor dp)) (\<lambda>nt.
            Inr (dp\<lparr>dp_batch := Some \<lparr>td_size = length js, td_items = take_cols js (td_items td)\<rparr>, dp_non_tensor := nt\<rparr>))))"

section \<open>Mini-batches\<close>

text \<open>\<open>collate_fn\<close>: items with the same keys become a container; the meta information is not collected.\<close>

definition collate_fn :: "('t, 'n, 'm) data_proto_item list \<Rightarrow> ('t, 'n, 'm) data_proto result" where
  "collate_fn x =
     (if x = [] then Inl (RuntimeError ''stack expects a non-empty list'')
      else if list_ex (\<lambda>it. item_batch it = None) x then Inl TypeError
      else bind_r (list_of_dict_to_dict_of_list (map (\<lambda>it. the (item_batch it)) x)) (\<lambda>cols.
           bind_r (list_of_dict_to_dict_of_list (map item_non_tensor x)) (\<lambda>nt.
             make_dp (Some \<lparr>td_size = length x, td_items = cols\<rparr>) nt [])))"

text \<open>\<open>make_iterator\<close>: \<open>orders\<close> gives, per epoch, the order in which the data loader's sampler visits the items.\<close>

definition make_iterator :: "nat \<Rightarrow> nat list list \<Rightarrow> ('t, 'n, 'm) data_proto \<Rightarrow> ('t, 'n, 'm) data_proto list result" where
  "make_iterator mini_batch_size orders dp =
     (case dp_batch dp of
        None \<Rightarrow> Inl AttributeError
      | Some td \<Rightarrow>
          if mini_batch_size = 0 then Inl ZeroDivisionError
          else if td_size td mod mini_batch_size \<noteq> 0 then Inl (AssertionError ''% mini_batch_size != 0'')
          else bind_r (map_r (\<lambda>order.
                 map_r (\<lambda>mb. bind_r (map_r (\<lambda>i. get_item (int i) dp) mb) (\<lambda>its.
                         bind_r (collate_fn its) (\<lambda>d. Inr (d\<lparr>dp_meta := dp_meta dp\<rparr>))))
                   (chunks (length order div mini_batch_size) mini_batch_size order)) orders) (\<lambda>bs. Inr (concat bs)))"

section \<open>The container as a list of rows\<close>

text \<open>
  Abstractly a container is a list of rows, a row being the values at one index under all keys. All operations along
  the batch dimension are the corresponding list operations on the rows; this is what the lemmas below say.
\<close>

definition cols_ok :: "nat \<Rightarrow> (string \<times> 'a list) list \<Rightarrow> bool" where
  "cols_ok n cols \<longleftrightarrow> distinct (map fst cols) \<and> list_all (\<lambda>(_, c). length c = n) cols"

definition dp_ok :: "('t, 'n, 'm) data_proto \<Rightarrow> bool" where
  "dp_ok dp \<longleftrightarrow> (case dp_batch dp of None \<Rightarrow> True | Some td \<Rightarrow> cols_ok (td_size td) (td_items td))
     \<and> cols_ok (dp_len dp) (dp_non_tensor dp)
     \<and> distinct (map fst (dp_meta dp)) \<and> list_all (\<lambda>(_, v). py_ok v) (dp_meta dp)"

definition dp_row_of :: "(string \<times> 'a list) list \<Rightarrow> nat \<Rightarrow> (string \<times> 'a) list" where
  "dp_row_of cols i = map (\<lambda>(k, c). (k, c ! i)) cols"

definition dp_rows :: "('t, 'n, 'm) data_proto \<Rightarrow> ((string \<times> 't) list option \<times> (string \<times> 'n) list) list" where
  "dp_rows dp = map (\<lambda>i. (map_option (\<lambda>td. dp_row_of (td_items td) i) (dp_batch dp), dp_row_of (dp_non_tensor dp) i)) [0..<dp_len dp]"

text \<open>What does not depend on the rows: the keys and the meta information.\<close>

definition dp_sig :: "('t, 'n, 'm) data_proto \<Rightarrow> string list option \<times> string list \<times> (string \<times> 'm py_obj) list" where
  "dp_sig dp = (map_option (\<lambda>td. map fst (td_items td)) (dp_batch dp), map fst (dp_non_tensor dp), dp_meta dp)"

definition dp_take :: "nat list \<Rightarrow> ('t, 'n, 'm) data_proto \<Rightarrow> ('t, 'n, 'm) data_proto" where
  "dp_take idx dp = \<lparr>dp_batch = map_option (\<lambda>td. \<lparr>td_size = length idx, td_items = take_cols idx (td_items td)\<rparr>) (dp_batch dp),
     dp_non_tensor = take_cols idx (dp_non_tensor dp), dp_meta = dp_meta dp\<rparr>"

lemma length_dp_rows [simp]: "length (dp_rows dp) = dp_len dp"
  by (simp add: dp_rows_def)

lemma keys_take_cols [simp]: "map fst (take_cols idx cols) = map fst cols"
  by (simp add: take_cols_def case_prod_beta comp_def)

lemma cols_ok_take [simp]: "cols_ok n cols \<Longrightarrow> cols_ok (length idx) (take_cols idx cols)"
  by (auto simp: cols_ok_def list_all_iff) (auto simp: take_cols_def)

lemma dp_row_of_take: "i < length idx \<Longrightarrow> dp_row_of (take_cols idx cols) i = dp_row_of cols (idx ! i)"
  by (simp add: dp_row_of_def take_cols_def case_prod_beta)

lemma cols_eqI:
  assumes "map fst a = map fst b" "cols_ok n a" "cols_ok n b" "\<And>i. i < n \<Longrightarrow> dp_row_of a i = dp_row_of b i"
  shows "a = b"
proof (rule nth_equalityI)
  show len: "length a = length b" using assms(1) by (metis length_map)
  fix j assume j: "j < length a"
  have "length (snd (a ! j)) = n" "length (snd (b ! j)) = n"
    using assms(2,3) j len by (auto simp: cols_ok_def list_all_length case_prod_beta)
  moreover have "snd (a ! j) ! i = snd (b ! j) ! i" if "i < n" for i
    using arg_cong [OF assms(4) [OF that], of "\<lambda>r. snd (r ! j)"] j len by (simp add: dp_row_of_def case_prod_beta)
  ultimately have "snd (a ! j) = snd (b ! j)" by (intro nth_equalityI) auto
  moreover have "fst (a ! j) = fst (b ! j)" using arg_cong [OF assms(1), of "\<lambda>ks. ks ! j"] j len by simp
  ultimately show "a ! j = b ! j" by (rule prod_eqI [rotated])
qed

lemma dp_len_take: "dp_ok dp \<Longrightarrow> \<forall>i \<in> set idx. i < dp_len dp \<Longrightarrow> dp_len (dp_take idx dp) = length idx"
  by (cases "dp_non_tensor dp"; cases idx)
     (auto simp: dp_len_def dp_take_def take_cols_def split: option.splits)

text \<open>A well-formed container is determined by its rows, its keys and its meta information.\<close>

lemma dp_eqI:
  assumes "dp_ok d" "dp_ok e" "dp_sig d = dp_sig e" "dp_rows d = dp_rows e"
  shows "d = e"
proof -
  have len: "dp_len d = dp_len e" using arg_cong [OF assms(4), of length] by simp
  have row: "map_option (\<lambda>td. dp_row_of (td_items td) i) (dp_batch d) = map_option (\<lambda>td. dp_row_of (td_items td) i) (dp_batch e)"
    "dp_row_of (dp_non_tensor d) i = dp_row_of (dp_non_tensor e) i" if "i < dp_len d" for i
    using arg_cong [OF assms(4), of "\<lambda>r. r ! i"] that len by (simp_all add: dp_rows_def)
  have nt: "dp_non_tensor d = dp_non_tensor e"
    by (rule cols_eqI [where n = "dp_len d"]) (use assms(1-3) row(2) len in \<open>simp_all add: dp_ok_def dp_sig_def\<close>)
  have "dp_batch d = dp_batch e"
  proof (cases "dp_batch d")
    case None
    then show ?thesis using assms(3) by (simp add: dp_sig_def)
  next
    case (Some td)
    then obtain te where te: "dp_batch e = Some te" using assms(3) by (cases "dp_batch e") (auto simp: dp_sig_def)
    have size: "td_size td = td_size te" using len Some te by (simp add: dp_len_def)
    have "td_items td = td_items te"
    proof (rule cols_eqI [where n = "td_size td"])
      fix i assume "i < td_size td"
      then have "i < dp_len d" using Some by (simp add: dp_len_def)
      from row(1) [OF this] show "dp_row_of (td_items td) i = dp_row_of (td_items te) i" using Some te by simp
    qed (use assms(1-3) Some te size in \<open>simp_all add: dp_ok_def dp_sig_def\<close>)
    then show ?thesis using size Some te by simp
  qed
  then show ?thesis using nt assms(3) by (simp add: dp_sig_def)
qed

lemma dp_take_ok [simp]: "dp_ok dp \<Longrightarrow> \<forall>i \<in> set idx. i < dp_len dp \<Longrightarrow> dp_ok (dp_take idx dp)"
  unfolding dp_ok_def [of "dp_take idx dp"] dp_len_take
  by (auto simp: dp_take_def dp_ok_def split: option.splits)

lemma dp_take_sig [simp]: "dp_sig (dp_take idx dp) = dp_sig dp"
  by (simp add: dp_take_def dp_sig_def option.map_comp comp_def)

lemma dp_take_meta [simp]: "dp_meta (dp_take idx dp) = dp_meta dp"
  by (simp add: dp_take_def)

lemma dp_rows_take:
  assumes "dp_ok dp" "\<forall>i \<in> set idx. i < dp_len dp"
  shows "dp_rows (dp_take idx dp) = map ((!) (dp_rows dp)) idx"
proof (rule nth_equalityI)
  show len: "length (dp_rows (dp_take idx dp)) = length (map ((!) (dp_rows dp)) idx)"
    using dp_len_take [OF assms] by simp
  fix i assume "i < length (dp_rows (dp_take idx dp))"
  then have i: "i < length idx" using len by simp
  then have "idx ! i < dp_len dp" using assms(2) by simp
  then show "dp_rows (dp_take idx dp) ! i = map ((!) (dp_rows dp)) idx ! i"
    using i dp_len_take [OF assms]
    by (simp add: dp_rows_def) (simp add: dp_take_def dp_row_of_take option.map_comp comp_def cong: map_option_cong)
qed

lemma dp_take_all: "dp_ok dp \<Longrightarrow> dp_take [0..<dp_len dp] dp = dp"
  by (rule dp_eqI) (auto simp: dp_rows_take intro: nth_equalityI)

section \<open>Operations on one container\<close>

lemma make_dp_take:
  "make_dp (map_option (\<lambda>td. \<lparr>td_size = length idx, td_items = take_cols idx (td_items td)\<rparr>) (dp_batch dp))
     (take_cols idx (dp_non_tensor dp)) (dp_meta dp) = Inr (dp_take idx dp)"
  by (cases "dp_batch dp")
     (auto simp: make_dp_def Let_def check_consistency_def dp_take_def take_cols_def list_all_iff ensure_def)

lemma py_range_up_bounds: "0 < s \<Longrightarrow> i \<in> set (py_range a b s) \<Longrightarrow> a \<le> i \<and> i < b"
proof -
  assume s: "0 < s" and i: "i \<in> set (py_range a b s)"
  then obtain k where k: "i = a + int k * s" "int k < (b - a - 1) div s + 1" "a < b"
    by (auto simp: py_range_def Let_def split: if_splits)
  then have "int k * s \<le> (b - a - 1) div s * s" using s by (intro mult_right_mono) auto
  also have "\<dots> \<le> b - a - 1" using s by (metis div_mult_mod_eq le_add_same_cancel1 pos_mod_sign)
  finally show ?thesis using k s by simp
qed

lemma slice_indices_bounds: "0 < s \<Longrightarrow> i \<in> set (slice_indices a b s n) \<Longrightarrow> i < n"
  by (auto simp: slice_indices_def Let_def dest!: py_range_up_bounds split: option.splits if_splits)

lemma dp_slice_run:
  assumes "dp_ok dp" "0 < opt_default 1 step"
  shows "dp_slice a b step dp = Inr (dp_take (slice_indices a b (opt_default 1 step) (dp_len dp)) dp)"
proof -
  have nt: "map (\<lambda>(k, c). (k, map ((!) c) (slice_indices a b (opt_default 1 step) (length c)))) (dp_non_tensor dp)
      = take_cols (slice_indices a b (opt_default 1 step) (dp_len dp)) (dp_non_tensor dp)"
    using assms(1) by (auto simp: take_cols_def dp_ok_def cols_ok_def list_all_iff)
  have b: "map_option (\<lambda>td. \<lparr>td_size = length (slice_indices a b s (td_size td)), td_items = take_cols (slice_indices a b s (td_size td)) (td_items td)\<rparr>) (dp_batch dp)
     = map_option (\<lambda>td. \<lparr>td_size = length (slice_indices a b s (dp_len dp)), td_items = take_cols (slice_indices a b s (dp_len dp)) (td_items td)\<rparr>) (dp_batch dp)" for s
    by (cases "dp_batch dp") (simp_all add: dp_len_def)
  show ?thesis using assms(2) unfolding dp_slice_def Let_def nt b make_dp_take by auto
qed

lemma map_cols_run:
  "(\<And>k c. (k, c) \<in> set cols \<Longrightarrow> f c = Inr (g c)) \<Longrightarrow> map_cols f cols = Inr (map (\<lambda>(k, c). (k, g c)) cols)"
  unfolding map_cols_def by (rule map_r_Inr) auto

text \<open>An operation that picks the same rows of every column and passes them to the constructor.\<close>

lemma make_by_cols:
  assumes "dp_ok dp" "\<And>c. length c = dp_len dp \<Longrightarrow> f c = Inr (map ((!) c) idx)"
    and "\<And>c. length c = dp_len dp \<Longrightarrow> g c = Inr (map ((!) c) idx)" "n = length idx"
  shows "bind_r (opt_r (\<lambda>td. bind_r (map_cols f (td_items td)) (make_td n)) (dp_batch dp)) (\<lambda>b.
     bind_r (map_cols g (dp_non_tensor dp)) (\<lambda>nt. make_dp b nt (dp_meta dp))) = Inr (dp_take idx dp)"
proof -
  have nt: "map_cols g (dp_non_tensor dp) = Inr (take_cols idx (dp_non_tensor dp))"
    unfolding take_cols_def by (rule map_cols_run) (use assms(1,3) in \<open>auto simp: dp_ok_def cols_ok_def list_all_iff\<close>)
  have b: "opt_r (\<lambda>td. bind_r (map_cols f (td_items td)) (make_td n)) (dp_batch dp)
     = Inr (map_option (\<lambda>td. \<lparr>td_size = length idx, td_items = take_cols idx (td_items td)\<rparr>) (dp_batch dp))"
  proof (cases "dp_batch dp")
    case (Some td)
    then have "map_cols f (td_items td) = Inr (take_cols idx (td_items td))"
      unfolding take_cols_def by (intro map_cols_run) (use assms(1,2) in \<open>auto simp: dp_ok_def cols_ok_def list_all_iff dp_len_def\<close>)
    then show ?thesis using Some by (simp add: opt_r_def make_td_def assms(4)) (auto simp: take_cols_def list_all_iff)
  qed (simp add: opt_r_def)
  show ?thesis unfolding b nt bind_r_Inr by (rule make_dp_take)
qed

lemma py_index_bound: "py_index i n = Inr j \<Longrightarrow> j < n"
  by (auto simp: py_index_def split: if_splits)

lemma py_index_nat [simp]: "i < n \<Longrightarrow> py_index (int i) n = Inr i"
  by (simp add: py_index_def)

lemma select_int_idxs:
  assumes "dp_ok dp" "map_r (\<lambda>i. py_index i (dp_len dp)) is = Inr js"
  shows "select_idxs (IntIdxs is) dp = Inr (dp_take js dp)" "\<forall>j \<in> set js. j < dp_len dp"
proof -
  show "select_idxs (IntIdxs is) dp = Inr (dp_take js dp)" unfolding select_idxs_def
    by (rule make_by_cols [OF assms(1)]) (use assms(2) in \<open>simp_all add: index_col_def idxs_size_def map_r_length\<close>)
  show "\<forall>j \<in> set js. j < dp_len dp"
    using assms(2) map_r_length [OF assms(2)] by (metis in_set_conv_nth map_r_nth py_index_bound)
qed

lemma filter_as_take: "length bs = length c \<Longrightarrow> map fst (filter snd (zip c bs)) = map ((!) c) (filter ((!) bs) [0..<length c])"
proof (induction c bs rule: rev_induct2)
  case (4 x xs y ys)
  have "filter ((!) (ys @ [y])) [0..<length xs] = filter ((!) ys) [0..<length xs]"
    by (intro filter_cong) (use 4 in \<open>auto simp: nth_append\<close>)
  moreover have "map ((!) (xs @ [x])) (filter ((!) ys) [0..<length xs]) = map ((!) xs) (filter ((!) ys) [0..<length xs])"
    by (intro map_cong) (auto simp: nth_append)
  ultimately show ?case using 4 by (simp add: nth_append_length del: nth_append) (simp add: nth_append)
qed auto

lemma select_bool_idxs:
  assumes "dp_ok dp" "length bs = dp_len dp"
  shows "select_idxs (BoolIdxs bs) dp = Inr (dp_take (filter ((!) bs) [0..<dp_len dp]) dp)"
proof -
  have "length (filter id bs) = length (filter ((!) bs) [0..<length bs])"
    using arg_cong [OF filter_as_take [of bs bs], of length]
    by (simp add: zip_same_conv_map filter_map comp_def id_def)
  then show ?thesis unfolding select_idxs_def
    by (intro make_by_cols [OF assms(1)]) (use assms(2) in \<open>auto simp: index_col_def idxs_size_def filter_as_take\<close>)
qed

lemma nth_interleave_rows: "interleave_rows n c = map ((!) c) (interleave_rows n [0..<length c])"
  unfolding interleave_rows_def map_concat map_map
  by (subst map_nth [of c, symmetric], subst map_map) (auto intro!: arg_cong [of _ _ concat] map_cong)

lemma nth_repeat_stack: "repeat_stack n c = map ((!) c) (repeat_stack n [0..<length c])"
  unfolding repeat_stack_def map_concat map_replicate by (simp add: map_nth)

lemma repeat_lengths [simp]:
  "length (interleave_rows n c) = length c * n" "length (repeat_stack n c) = length c * n"
  by (simp_all add: interleave_rows_def repeat_stack_def length_concat comp_def sum_list_triv sum_list_replicate)

lemma set_repeats:
  "set (interleave_rows n xs) \<subseteq> set xs" "set (repeat_stack n xs) \<subseteq> set xs"
  by (auto simp: interleave_rows_def repeat_stack_def)

definition repeat_idx :: "nat \<Rightarrow> bool \<Rightarrow> nat \<Rightarrow> nat list" where
  "repeat_idx n interleave len = (if interleave then interleave_rows n else repeat_stack n) [0..<len]"

lemma set_repeat_idx: "i \<in> set (repeat_idx n il len) \<Longrightarrow> i < len"
  using set_repeats [of n "[0..<len]"] by (auto simp: repeat_idx_def split: if_splits)

lemma map_cols_pure: "map_cols (\<lambda>c. Inr (f c)) cols = Inr (map (\<lambda>(k, c). (k, f c)) cols)"
  by (rule map_cols_run) (rule refl)

lemma dp_repeat_run:
  assumes "dp_ok dp"
  shows "dp_repeat n il dp = Inr (dp_take (repeat_idx n il (dp_len dp)) dp)"
proof -
  let ?f = "if il then interleave_rows n else repeat_stack n :: 'x list \<Rightarrow> 'x list"
  have "bind_r (opt_r (\<lambda>td. bind_r (map_cols (\<lambda>c. Inr (if il then interleave_rows n c else repeat_stack n c)) (td_items td))
          (make_td (dp_len dp * n))) (dp_batch dp)) (\<lambda>b.
     bind_r (map_cols (\<lambda>c. Inr (if il then interleave_rows n c else repeat_stack n c)) (dp_non_tensor dp)) (\<lambda>nt. make_dp b nt (dp_meta dp)))
     = Inr (dp_take (repeat_idx n il (dp_len dp)) dp)"
  proof (rule make_by_cols [OF assms])
    fix c :: "'a list" assume "length c = dp_len dp"
    then show "(Inr (if il then interleave_rows n c else repeat_stack n c) :: 'a list result) = Inr (map ((!) c) (repeat_idx n il (dp_len dp)))"
      using nth_interleave_rows [of n c] nth_repeat_stack [of n c] by (simp add: repeat_idx_def)
  next
    fix c :: "'b list" assume "length c = dp_len dp"
    then show "(Inr (if il then interleave_rows n c else repeat_stack n c) :: 'b list result) = Inr (map ((!) c) (repeat_idx n il (dp_len dp)))"
      using nth_interleave_rows [of n c] nth_repeat_stack [of n c] by (simp add: repeat_idx_def)
  qed (simp add: repeat_idx_def)
  moreover have "opt_r (\<lambda>td. make_td (td_size td * n) (map (\<lambda>(k, c). (k, if il then interleave_rows n c else repeat_stack n c)) (td_items td))) (dp_batch dp)
     = opt_r (\<lambda>td. make_td (dp_len dp * n) (map (\<lambda>(k, c). (k, if il then interleave_rows n c else repeat_stack n c)) (td_items td))) (dp_batch dp)"
    by (cases "dp_batch dp") (simp_all add: opt_r_def dp_len_def)
  ultimately show ?thesis unfolding dp_repeat_def Let_def map_cols_pure bind_r_Inr by (cases il) simp_all
qed

lemma nth_map2_replicate:
  "length reps = length c \<Longrightarrow> concat (map2 replicate reps c) = map ((!) c) (concat (map2 replicate reps [0..<length c]))"
  unfolding map_concat by (rule arg_cong [of _ _ concat], rule nth_equalityI) auto

lemma length_map2_replicate: "length reps = length c \<Longrightarrow> length (concat (map2 replicate reps c)) = sum_list reps"
  by (induction reps c rule: list_induct2) auto

lemma set_map2_replicate: "set (concat (map2 replicate reps xs)) \<subseteq> set xs"
  by (auto dest: set_zip_rightD)

lemma sample_level_repeat_run:
  assumes "dp_ok dp" "length reps = dp_len dp"
  shows "sample_level_repeat reps dp = Inr (dp_take (concat (map2 replicate reps [0..<dp_len dp])) dp)"
  unfolding sample_level_repeat_def
proof (rule make_by_cols [OF assms(1)])
  show "repeat_each reps c = Inr (map ((!) c) (concat (map2 replicate reps [0..<dp_len dp])))"
    if "length c = dp_len dp" for c :: "'a list"
    using nth_map2_replicate [of reps c] that assms(2) by (simp add: repeat_each_def)
  show "repeat_each reps c = Inr (map ((!) c) (concat (map2 replicate reps [0..<dp_len dp])))"
    if "length c = dp_len dp" for c :: "'b list"
    using nth_map2_replicate [of reps c] that assms(2) by (simp add: repeat_each_def)
qed (simp add: length_map2_replicate assms(2))

text \<open>Slices of consecutive rows.\<close>

lemma slice_indices_mid:
  assumes "a \<le> n"
  shows "slice_indices (Some (int a)) (Some (int b)) 1 n = [a..<min b n]"
proof -
  have "py_range (int a) (int e) 1 = map int [a..<e]" if "a \<le> e" for e
  proof -
    have "nat (if int a < int e then (int e - int a - 1) div 1 + 1 else 0) = e - a" using that by auto
    then show ?thesis by (intro nth_equalityI) (simp_all add: py_range_def Let_def)
  qed
  moreover have "py_range (int a) (int e) 1 = []" if "e < a" for e using that by (simp add: py_range_def)
  ultimately show ?thesis using assms
    by (cases "a \<le> min b n") (simp_all add: slice_indices_def Let_def comp_def of_nat_min [symmetric] del: of_nat_min)
qed

lemma py_range_steps: "0 < s \<Longrightarrow> py_range 0 (int n) (int s) = map (\<lambda>k. int (k * s)) [0..<(n + s - 1) div s]"
proof -
  assume s: "0 < s"
  have "(int n - 1) div int s + 1 = int ((n + s - 1) div s)" if "0 < n"
  proof -
    have "(n + s - 1) div s = (n - 1) div s + 1" using s that
      by (metis Nat.add_diff_assoc2 One_nat_def Suc_eq_plus1 Suc_leI div_add_self2 less_numeral_extra(3) order_refl add.commute)
    then show ?thesis using that by (simp add: zdiv_int of_nat_diff)
  qed
  then show ?thesis using s by (cases "n = 0") (simp_all add: py_range_def Let_def)
qed

lemma dp_split_run:
  assumes "dp_ok dp" "0 < s"
  shows "dp_split s dp = Inr (map (\<lambda>k. dp_take [k * s..<min (k * s + s) (dp_len dp)] dp) [0..<(dp_len dp + s - 1) div s])"
proof -
  let ?n = "dp_len dp"
  have start: "k * s \<le> ?n" if "k < (?n + s - 1) div s" for k
  proof -
    have "(k + 1) * s \<le> ?n + s - 1" using that assms(2) by (metis Suc_eq_plus1 Suc_leI less_eq_div_iff_mult_less_eq)
    then show ?thesis by simp
  qed
  have "map_r (\<lambda>i. dp_slice (Some i) (Some (i + int s)) None dp) (map (\<lambda>k. int (k * s)) [0..<(?n + s - 1) div s])
     = Inr (map (\<lambda>i. dp_take [nat i..<min (nat i + s) ?n] dp) (map (\<lambda>k. int (k * s)) [0..<(?n + s - 1) div s]))"
  proof (rule map_r_Inr)
    fix i assume "i \<in> set (map (\<lambda>k. int (k * s)) [0..<(?n + s - 1) div s])"
    then obtain k where k: "i = int (k * s)" "k < (?n + s - 1) div s" by (auto simp del: of_nat_mult of_nat_eq_iff)
    show "dp_slice (Some i) (Some (i + int s)) None dp = Inr (dp_take [nat i..<min (nat i + s) ?n] dp)"
      using slice_indices_mid [OF start [OF k(2)], of "k * s + s"] by (simp add: dp_slice_run [OF assms(1)] k(1) nat_mult_distrib)
  qed
  then show ?thesis using assms(2) by (simp add: dp_split_def py_range_steps [OF assms(2)] comp_def nat_mult_distrib del: of_nat_mult)
qed

text \<open>Equal chunks.\<close>

lemma split_sizes_mult: "0 < q \<Longrightarrow> split_sizes q (Suc m * q) = replicate (Suc m) q"
proof (induction m)
  case 0
  then show ?case by (simp add: split_sizes.simps)
next
  case (Suc m)
  then show ?case by (subst split_sizes.simps) simp
qed

lemma split_by_equal_sizes:
  assumes "length xs = c * q" "i < c"
  shows "split_by_sizes (replicate c q) xs ! i = map ((!) xs) [i * q..<i * q + q]"
  using assms
proof (induction c arbitrary: xs i)
  case (Suc c)
  show ?case
  proof (cases i)
    case 0
    then show ?thesis using Suc.prems by (intro nth_equalityI) auto
  next
    case (Suc j)
    have "split_by_sizes (replicate c q) (drop q xs) ! j = map ((!) (drop q xs)) [j * q..<j * q + q]"
      by (rule Suc.IH) (use Suc.prems \<open>i = Suc j\<close> in auto)
    also have "\<dots> = map ((!) xs) [i * q..<i * q + q]"
      using Suc.prems \<open>i = Suc j\<close> by (intro nth_equalityI) (auto simp: add.commute add.left_commute)
    finally show ?thesis using Suc by simp
  qed
qed simp

lemma split_at_cumsum:
  "ns \<noteq> [] \<Longrightarrow> a + sum_list ns = length xs \<Longrightarrow> split_at_indices a (butlast (cumsum a ns)) xs = split_by_sizes ns (drop a xs)"
proof (induction ns arbitrary: a)
  case (Cons n ns)
  show ?case
  proof (cases "ns = []")
    case True
    then show ?thesis using Cons.prems by simp
  next
    case False
    then have ne: "cumsum (a + n) ns \<noteq> []" by (metis length_cumsum length_0_conv)
    have "split_at_indices (a + n) (butlast (cumsum (a + n) ns)) xs = split_by_sizes ns (drop (a + n) xs)"
      by (rule Cons.IH [OF False]) (use Cons.prems in simp)
    then show ?thesis using ne by (simp add: slice_def drop_take add.commute)
  qed
qed simp

lemma dp_chunk_run:
  assumes "dp_ok dp" "0 < c" "dp_len dp = c * q" "0 < q"
  shows "dp_chunk config c dp = Inr (map (\<lambda>i. dp_take [i * q..<i * q + q] dp) [0..<c])"
proof -
  have sizes: "split_sizes ((c * q + c - 1) div c) (c * q) = replicate c q"
  proof -
    have "(c * q + c - 1) div c = q" using assms(2)
      by (metis Nat.add_diff_assoc One_nat_def Suc_leI Suc_pred div_mult_self4 lessI less_numeral_extra(3) div_less add.commute add_0)
    then show ?thesis using split_sizes_mult [OF assms(4), of "c - 1"] assms(2) by simp
  qed
  let ?tds = "map_option (td_chunk c) (dp_batch dp)"
  let ?split = "case ?tds of None \<Rightarrow> array_split_equal c | Some ts \<Rightarrow> split_at_indices 0 (butlast (cumsum 0 (map td_size ts)))"
  have tds: "td_chunk c td = map (\<lambda>i. \<lparr>td_size = q, td_items = take_cols [i * q..<i * q + q] (td_items td)\<rparr>) [0..<c]"
    if "dp_batch dp = Some td" for td
  proof -
    have n: "td_size td = c * q" using that assms(3) by (simp add: dp_len_def)
    have "\<forall>(k, col) \<in> set (td_items td). length col = c * q"
      using assms(1) that n by (auto simp: dp_ok_def cols_ok_def list_all_iff)
    then show ?thesis unfolding td_chunk_def Let_def n sizes
      by (auto simp: take_cols_def split_by_equal_sizes)
  qed
  have split: "?split val = split_by_sizes (replicate c q) val" if "(k, val) \<in> set (dp_non_tensor dp)" for k val
  proof -
    have len: "length val = c * q" using that assms(1,3) by (auto simp: dp_ok_def cols_ok_def list_all_iff)
    show ?thesis
    proof (cases "dp_batch dp")
      case None
      then show ?thesis using array_split_equal_dvd [OF assms(2), of val q] len by (simp add: mult.commute)
    next
      case (Some td)
      have "map td_size (td_chunk c td) = replicate c q" unfolding tds [OF Some] by (simp add: comp_def map_replicate_const)
      then show ?thesis using split_at_cumsum [of "replicate c q" 0 val] assms(2) len Some by (simp add: sum_list_replicate)
    qed
  qed
  have ok: "\<not> list_ex (\<lambda>(_, val). length (?split val) \<noteq> c) (dp_non_tensor dp)"
    using split by (auto simp: list_ex_iff simp del: option.case option.map)
  have piece: "bind_r (case ?tds of None \<Rightarrow> Inr None | Some ts \<Rightarrow> if i < length ts then Inr (Some (ts ! i)) else Inl IndexError)
      (\<lambda>b. make_dp b (map (\<lambda>(k, val). (k, ?split val ! i)) (dp_non_tensor dp)) (dp_meta dp)) = Inr (dp_take [i * q..<i * q + q] dp)"
    if i: "i < c" for i
  proof -
    have "map (\<lambda>(k, val). (k, ?split val ! i)) (dp_non_tensor dp) = take_cols [i * q..<i * q + q] (dp_non_tensor dp)"
      unfolding take_cols_def
    proof (intro map_cong refl, clarify, intro conjI refl)
      fix k val assume kv: "(k, val) \<in> set (dp_non_tensor dp)"
      then have "length val = c * q" using assms(1,3) by (auto simp: dp_ok_def cols_ok_def list_all_iff)
      then show "?split val ! i = map ((!) val) [i * q..<i * q + q]"
        unfolding split [OF kv] by (rule split_by_equal_sizes) (rule i)
    qed
    moreover have "(case ?tds of None \<Rightarrow> Inr None | Some ts \<Rightarrow> if i < length ts then Inr (Some (ts ! i)) else Inl IndexError)
        = (Inr (map_option (\<lambda>td. \<lparr>td_size = length [i * q..<i * q + q], td_items = take_cols [i * q..<i * q + q] (td_items td)\<rparr>) (dp_batch dp)) :: 'a tensordict option result)"
      using i tds by (cases "dp_batch dp") simp_all
    ultimately show ?thesis using make_dp_take [of "[i * q..<i * q + q]" dp] by (simp only: bind_r_Inr)
  qed
  have "dp_len dp mod c = 0" using assms(3) by simp
  then show ?thesis unfolding dp_chunk_def Let_def using assms(2) ok piece by (simp only: if_False simp_thms) (auto intro!: map_r_Inr)
qed

section \<open>Concatenation of containers with the same keys\<close>

lemma concat_nth_at:
  "j < length xss \<Longrightarrow> i < length (xss ! j) \<Longrightarrow> concat xss ! (length (concat (take j xss)) + i) = xss ! j ! i"
proof -
  assume j: "j < length xss" and i: "i < length (xss ! j)"
  have "concat xss = concat (take j xss) @ xss ! j @ concat (drop (Suc j) xss)"
    using id_take_nth_drop [OF j] by (metis concat.simps(2) concat_append)
  then show ?thesis using i by (simp add: nth_append)
qed

lemma concat_rowsI:
  assumes "\<And>j i. j < length ds \<Longrightarrow> i < n (ds ! j) \<Longrightarrow> g (sum_list (map n (take j ds)) + i) = f (ds ! j) i"
  shows "map g [0..<sum_list (map n ds)] = concat (map (\<lambda>d. map (f d) [0..<n d]) ds)"
  using assms
proof (induction ds arbitrary: g)
  case (Cons d ds)
  let ?m = "sum_list (map n ds)"
  have "map (\<lambda>i. g (n d + i)) [0..<?m] = concat (map (\<lambda>d. map (f d) [0..<n d]) ds)"
  proof (rule Cons.IH)
    fix j i assume "j < length ds" "i < n (ds ! j)"
    then show "g (n d + (sum_list (map n (take j ds)) + i)) = f (ds ! j) i" using Cons.prems [of "Suc j" i] by (simp add: add.assoc)
  qed
  moreover have "map g [0..<n d] = map (f d) [0..<n d]" using Cons.prems [of 0] by simp
  moreover have "[0..<n d + ?m] = [0..<n d] @ map (\<lambda>i. n d + i) [0..<?m]"
    using upt_add_eq_append [of 0 "n d" ?m] map_add_upt [of "n d" ?m] by (simp add: add.commute)
  ultimately show ?case by (simp add: comp_def)
qed simp

definition join_cols :: "string list \<Rightarrow> (string \<times> 'a list) list list \<Rightarrow> (string \<times> 'a list) list" where
  "join_cols ks colss = map (\<lambda>k. (k, concat (map (\<lambda>cols. the (map_of cols k)) colss))) ks"

lemma cols_ok_col:
  assumes "cols_ok n cols" "map fst cols = ks" "k \<in> set ks"
  shows "length (the (map_of cols k)) = n"
proof -
  obtain c where "(k, c) \<in> set cols" using assms(2,3) by auto
  then show ?thesis using assms(1) by (auto simp: cols_ok_def list_all_iff)
qed

lemma dp_row_of_keys: "distinct (map fst cols) \<Longrightarrow> map fst cols = ks \<Longrightarrow> dp_row_of cols i = map (\<lambda>k. (k, the (map_of cols k) ! i)) ks"
  by (auto simp: dp_row_of_def)

lemma join_cols_ok:
  assumes "\<forall>d \<in> set ds. cols_ok (n d) (cs d) \<and> map fst (cs d) = ks" "distinct ks"
  shows "cols_ok (sum_list (map n ds)) (join_cols ks (map cs ds))"
proof -
  have "length (concat (map (\<lambda>cols. the (map_of cols k)) (map cs ds))) = sum_list (map n ds)" if "k \<in> set ks" for k
    using assms(1) that by (induction ds) (auto simp: cols_ok_col)
  then show ?thesis using assms(2) by (auto simp: cols_ok_def join_cols_def list_all_iff comp_def)
qed

lemma dp_row_of_join:
  assumes "\<forall>d \<in> set ds. cols_ok (n d) (cs d) \<and> map fst (cs d) = ks" "j < length ds" "i < n (ds ! j)"
  shows "dp_row_of (join_cols ks (map cs ds)) (sum_list (map n (take j ds)) + i) = dp_row_of (cs (ds ! j)) i"
proof -
  have d: "cols_ok (n (ds ! j)) (cs (ds ! j))" "map fst (cs (ds ! j)) = ks" using assms(1,2) by auto
  have "concat (map (\<lambda>d. the (map_of (cs d) k)) ds) ! (sum_list (map n (take j ds)) + i) = the (map_of (cs (ds ! j)) k) ! i"
    if k: "k \<in> set ks" for k
  proof -
    let ?h = "\<lambda>d. the (map_of (cs d) k)"
    have "length (concat (map ?h (take j ds))) = sum_list (map n (take j ds))"
      using assms(1) k by (auto simp: length_concat comp_def cols_ok_col intro!: arg_cong [of _ _ sum_list] map_cong dest!: in_set_takeD)
    then show ?thesis using concat_nth_at [of j "map ?h ds" i] assms(2,3) cols_ok_col [OF d k] by (simp add: take_map)
  qed
  moreover have "dp_row_of (cs (ds ! j)) i = map (\<lambda>k. (k, the (map_of (cs (ds ! j)) k) ! i)) ks"
    by (rule dp_row_of_keys) (use d in \<open>simp_all add: cols_ok_def\<close>)
  ultimately show ?thesis by (simp add: dp_row_of_def join_cols_def comp_def)
qed

lemma merge_first:
  "distinct (map fst m) \<Longrightarrow> metrics_key \<notin> set (map fst m) \<Longrightarrow> set (map fst m) \<inter> set (map fst acc) = {} \<Longrightarrow>
     fold_r merge_entry m (ms, acc) = Inr (ms, acc @ m)"
proof (induction m arbitrary: acc)
  case (Cons p m)
  obtain k v where p: "p = (k, v)" by (cases p)
  have "map_of acc k = None" using Cons.prems(3) p by (auto simp: map_of_eq_None_iff)
  moreover have "fold_r merge_entry m (ms, acc @ [p]) = Inr (ms, (acc @ [p]) @ m)"
    by (rule Cons.IH) (use Cons.prems p in auto)
  moreover have "merge_entry p (ms, acc) = Inr (ms, acc @ [p])"
    using Cons.prems(2) p \<open>map_of acc k = None\<close> by (auto simp: merge_entry_def)
  ultimately show ?case by simp
qed simp

lemma merge_again:
  assumes "distinct (map fst acc)" "list_all (\<lambda>(_, v). py_ok v) acc" "metrics_key \<notin> set (map fst acc)" "set m \<subseteq> set acc"
  shows "fold_r merge_entry m (ms, acc) = Inr (ms, acc)"
  using assms(4)
proof (induction m)
  case (Cons p m)
  obtain k v where p: "p = (k, v)" by (cases p)
  then have kv: "(k, v) \<in> set acc" using Cons.prems by simp
  then have "map_of acc k = Some v" "py_ok v" "k \<noteq> metrics_key"
    using assms(1-3) by (auto simp: list_all_iff) force
  then have "merge_entry p (ms, acc) = Inr (ms, acc)" by (simp add: merge_entry_def p)
  then show ?case using Cons by simp
qed simp

lemma merge_meta_same:
  assumes "metas \<noteq> []" "\<forall>m \<in> set metas. m = meta" "distinct (map fst meta)" "list_all (\<lambda>(_, v). py_ok v) meta"
    "metrics_key \<notin> set (map fst meta)"
  shows "merge_meta metas = Inr meta"
proof -
  obtain ms where metas: "metas = meta # ms" "\<forall>m \<in> set ms. m = meta" using assms(1,2) by (cases metas) auto
  have "fold_r (fold_r merge_entry) ms ([], meta) = Inr ([], meta)"
    using metas(2) by (induction ms) (simp_all add: merge_again [OF assms(3-5)])
  then show ?thesis using merge_first [OF assms(3,5), of "[]" "[]"] by (simp add: merge_meta_def metas(1))
qed

lemma dp_sig_iff:
  "dp_sig d = (bk, nk, meta) \<longleftrightarrow> map_option (\<lambda>td. map fst (td_items td)) (dp_batch d) = bk \<and> map fst (dp_non_tensor d) = nk \<and> dp_meta d = meta"
  by (simp add: dp_sig_def)

lemma dp_concat_run:
  assumes ne: "ds \<noteq> []" and all: "\<forall>d \<in> set ds. dp_ok d \<and> dp_sig d = s" and nm: "metrics_key \<notin> set (map fst (snd (snd s)))"
  shows "\<exists>r. dp_concat ds = Inr r \<and> dp_ok r \<and> dp_sig r = s \<and> dp_rows r = concat (map dp_rows ds)"
proof -
  obtain bk nk meta where s: "s = (bk, nk, meta)" by (cases s)
  have sig: "map_option (\<lambda>td. map fst (td_items td)) (dp_batch d) = bk" "map fst (dp_non_tensor d) = nk" "dp_meta d = meta"
    if "d \<in> set ds" for d using all that by (auto simp: s dp_sig_def)
  have ok: "dp_ok d" if "d \<in> set ds" for d using all that by blast
  obtain d0 ds' where ds: "ds = d0 # ds'" using ne by (cases ds) auto
  have d0: "d0 \<in> set ds" by (simp add: ds)
  have mok: "distinct (map fst meta)" "list_all (\<lambda>(_, v). py_ok v) meta" using ok [OF d0] sig(3) [OF d0] by (auto simp: dp_ok_def)
  have meta: "merge_meta (map dp_meta ds) = Inr meta"
    by (rule merge_meta_same) (use ne sig(3) mok nm in \<open>auto simp: s\<close>)
  have dn: "distinct nk" using ok [OF d0] sig(2) [OF d0] by (auto simp: dp_ok_def cols_ok_def)
  have nt: "list_of_dict_to_dict_of_list (map dp_non_tensor ds) = Inr (map (\<lambda>k. (k, map (\<lambda>d. the (map_of d k)) (map dp_non_tensor ds))) nk)"
    by (rule lodd_transpose) (use ne sig(2) dn in auto)
  let ?nt = "join_cols nk (map dp_non_tensor ds)"
  have nts: "\<forall>d \<in> set ds. cols_ok (dp_len d) (dp_non_tensor d) \<and> map fst (dp_non_tensor d) = nk" using ok sig(2) by (auto simp: dp_ok_def)
  have ntok: "cols_ok (sum_list (map dp_len ds)) ?nt" by (rule join_cols_ok [OF nts dn])
  have run: "dp_concat ds = bind_r (if dp_batch d0 = None then Inr None
       else if list_ex (\<lambda>x. dp_batch x = None) ds then Inl TypeError
       else bind_r (td_cat (map (\<lambda>x. the (dp_batch x)) ds)) (\<lambda>td. Inr (Some td))) (\<lambda>b. make_dp b ?nt meta)"
    unfolding dp_concat_def ds list.case unfolding ds [symmetric] nt meta bind_r_Inr join_cols_def by (simp add: comp_def)
  show ?thesis
  proof (cases bk)
    case None
    have nb: "dp_batch d = None" if "d \<in> set ds" for d using sig(1) [OF that] None by (cases "dp_batch d") auto
    let ?r = "\<lparr>dp_batch = None, dp_non_tensor = ?nt, dp_meta = meta\<rparr>"
    have res: "dp_concat ds = Inr ?r" unfolding run using nb [OF d0] by (simp add: make_dp_def check_consistency_def)
    have len: "dp_len ?r = sum_list (map dp_len ds)"
    proof (cases "?nt")
      case Nil
      then have "nk = []" by (simp add: join_cols_def)
      then have "dp_len d = 0" if "d \<in> set ds" for d using nb [OF that] sig(2) [OF that] by (simp add: dp_len_def)
      then show ?thesis using Nil nb by (simp add: dp_len_def)
    next
      case (Cons p ps)
      then show ?thesis using ntok by (auto simp: dp_len_def cols_ok_def split: prod.splits)
    qed
    have "dp_rows ?r = map (\<lambda>i. (None, dp_row_of ?nt i)) [0..<sum_list (map dp_len ds)]" unfolding dp_rows_def len by simp
    also have "\<dots> = concat (map (\<lambda>d. map (\<lambda>i. (None, dp_row_of (dp_non_tensor d) i)) [0..<dp_len d]) ds)"
      by (rule concat_rowsI) (simp add: dp_row_of_join [OF nts])
    also have "\<dots> = concat (map dp_rows ds)"
      by (intro arg_cong [of _ _ concat] map_cong refl) (simp add: dp_rows_def nb)
    finally have "dp_rows ?r = concat (map dp_rows ds)" .
    moreover have "dp_ok ?r" using ntok mok by (simp add: dp_ok_def len)
    moreover have "dp_sig ?r = s" using None by (simp add: s dp_sig_def join_cols_def comp_def)
    ultimately show ?thesis using res by blast
  next
    case (Some ks)
    have tb: "\<exists>td. dp_batch d = Some td \<and> map fst (td_items td) = ks \<and> cols_ok (dp_len d) (td_items td) \<and> td_size td = dp_len d" if "d \<in> set ds" for d
      using sig(1) [OF that] Some ok [OF that] by (cases "dp_batch d") (auto simp: dp_ok_def dp_len_def)
    let ?items = "\<lambda>d. td_items (the (dp_batch d))"
    have its: "\<forall>d \<in> set ds. cols_ok (dp_len d) (?items d) \<and> map fst (?items d) = ks" using tb by fastforce
    have dk: "distinct ks" using its d0 by (auto simp: cols_ok_def)
    let ?td = "\<lparr>td_size = sum_list (map dp_len ds), td_items = join_cols ks (map ?items ds)\<rparr>"
    let ?r = "\<lparr>dp_batch = Some ?td, dp_non_tensor = ?nt, dp_meta = meta\<rparr>"
    let ?tds = "map (\<lambda>x. the (dp_batch x)) ds"
    have sizes: "map td_size ?tds = map dp_len ds" using tb by (simp add: comp_def) fastforce
    have keys: "list_all (\<lambda>t. set (map fst (td_items t)) = set (map fst (td_items (the (dp_batch d0))))) ?tds"
    proof -
      have "\<forall>t \<in> set ?tds. map fst (td_items t) = ks" using its by simp
      moreover have "map fst (?items d0) = ks" using its d0 by blast
      ultimately show ?thesis unfolding list_all_iff by metis
    qed
    have "td_cat ?tds = (if list_all (\<lambda>t. set (map fst (td_items t)) = set (map fst (td_items (the (dp_batch d0))))) ?tds
        then Inr \<lparr>td_size = sum_list (map td_size ?tds),
             td_items = map (\<lambda>k. (k, concat (map (\<lambda>t. the (map_of (td_items t) k)) ?tds))) (map fst (td_items (the (dp_batch d0))))\<rparr>
        else Inl (KeyError ''got keys that are incompatible''))" unfolding td_cat_def by (simp add: ds)
    also have "\<dots> = Inr ?td" unfolding sizes using keys its d0 by (simp add: join_cols_def comp_def)
    finally have "td_cat ?tds = Inr ?td" .
    moreover have "\<not> list_ex (\<lambda>x. dp_batch x = None) ds" "dp_batch d0 \<noteq> None" using tb d0 by (auto simp: list_ex_iff)
    ultimately have res: "dp_concat ds = Inr ?r" unfolding run using ntok
      by (simp add: make_dp_def check_consistency_def cols_ok_def)
    have len: "dp_len ?r = sum_list (map dp_len ds)" by (simp add: dp_len_def)
    have "dp_rows ?r = map (\<lambda>i. (Some (dp_row_of (join_cols ks (map ?items ds)) i), dp_row_of ?nt i)) [0..<sum_list (map dp_len ds)]"
      unfolding dp_rows_def len by simp
    also have "\<dots> = concat (map (\<lambda>d. map (\<lambda>i. (Some (dp_row_of (?items d) i), dp_row_of (dp_non_tensor d) i)) [0..<dp_len d]) ds)"
      by (rule concat_rowsI) (simp add: dp_row_of_join [OF nts] dp_row_of_join [OF its])
    also have "\<dots> = concat (map dp_rows ds)"
    proof (intro arg_cong [of _ _ concat] map_cong refl)
      fix d assume "d \<in> set ds"
      from tb [OF this] obtain td where "dp_batch d = Some td" by blast
      then show "map (\<lambda>i. (Some (dp_row_of (?items d) i), dp_row_of (dp_non_tensor d) i)) [0..<dp_len d] = dp_rows d" by (simp add: dp_rows_def)
    qed
    finally have "dp_rows ?r = concat (map dp_rows ds)" .
    moreover have "dp_ok ?r" using ntok mok join_cols_ok [OF its dk] by (simp add: dp_ok_def len)
    moreover have "dp_sig ?r = s" using Some by (simp add: s dp_sig_def join_cols_def comp_def)
    ultimately show ?thesis using res by blast
  qed
qed



end
