(* ===== verification/Data_Proto_Laws.thy ===== *)
theory Data_Proto_Laws
  imports Data_Proto
begin

text \<open>
  The laws of the batch container: selections and concatenations, padding and unpadding, well-formedness as an
  invariant, and what concatenation does to metrics.
\<close>

section \<open>Selections, concatenation and padding\<close>

text \<open>Concatenating selections of the rows of one container.\<close>

lemma dp_concat_takes:
  assumes "dp_ok d" "metrics_key \<notin> set (map fst (dp_meta d))" "idxs \<noteq> []" "\<forall>idx \<in> set idxs. \<forall>i \<in> set idx. i < dp_len d"
  shows "dp_concat (map (\<lambda>idx. dp_take idx d) idxs) = Inr (dp_take (concat idxs) d)"
proof -
  let ?ds = "map (\<lambda>idx. dp_take idx d) idxs"
  obtain r where r: "dp_concat ?ds = Inr r" "dp_ok r" "dp_sig r = dp_sig d" "dp_rows r = concat (map dp_rows ?ds)"
    using dp_concat_run [of ?ds "dp_sig d"] assms by (auto simp: dp_sig_def [of d])
  have "concat (map dp_rows ?ds) = map ((!) (dp_rows d)) (concat idxs)"
    using assms(4) by (induction idxs) (auto simp: dp_rows_take [OF assms(1)])
  also have "\<dots> = dp_rows (dp_take (concat idxs) d)" by (rule dp_rows_take [symmetric]) (use assms in auto)
  finally have "r = dp_take (concat idxs) d"
    by (intro dp_eqI [OF r(2)]) (use assms r(3,4) in auto)
  then show ?thesis using r(1) by simp
qed

lemma concat_upts: "concat (map (\<lambda>i. [i * q..<i * q + q]) [0..<c]) = [0..<c * q]"
proof (induction c)
  case (Suc c)
  have "[0..<c * q + q] = [0..<c * q] @ [c * q..<c * q + q]" by (rule upt_add_eq_append) simp
  then show ?case using Suc by (simp add: add.commute)
qed simp

lemma concat_split_upts:
  assumes "0 < s"
  shows "concat (map (\<lambda>k. [k * s..<min (k * s + s) n]) [0..<m]) = [0..<min (m * s) n]"
proof (induction m)
  case (Suc m)
  have "[0..<min (m * s) n] @ [m * s..<min (m * s + s) n] = [0..<min (m * s + s) n]"
  proof (cases "m * s \<le> n")
    case True
    then have "[0..<m * s + (min (m * s + s) n - m * s)] = [0..<m * s] @ [m * s..<m * s + (min (m * s + s) n - m * s)]"
      by (intro upt_add_eq_append) simp
    then show ?thesis using True by simp
  qed simp
  then show ?case using Suc by (simp add: add.commute)
qed simp

text \<open>The appended prefixes continue the rows cyclically.\<close>

lemma take_sizes_cyclic:
  "0 < len \<Longrightarrow> concat (map (\<lambda>t. [0..<t]) (take_sizes len r)) = map (\<lambda>i. i mod len) [0..<r]"
proof (induction len r rule: take_sizes.induct)
  case (1 len r)
  show ?case
  proof (cases "r = 0")
    case True
    then show ?thesis by (simp add: take_sizes.simps)
  next
    case False
    let ?t = "min r len"
    have "concat (map (\<lambda>t. [0..<t]) (take_sizes len (r - ?t))) = map (\<lambda>i. i mod len) [0..<r - ?t]"
      using 1 False by simp
    moreover have "map (\<lambda>i. i mod len) [0..<r] = [0..<?t] @ map (\<lambda>i. i mod len) [0..<r - ?t]"
    proof (rule nth_equalityI)
      fix i assume "i < length (map (\<lambda>i. i mod len) [0..<r])"
      then show "map (\<lambda>i. i mod len) [0..<r] ! i = ([0..<?t] @ map (\<lambda>i. i mod len) [0..<r - ?t]) ! i"
        using 1(2) by (auto simp: nth_append min_def le_mod_geq)
    qed simp
    ultimately show ?thesis using False 1(2) by (subst take_sizes.simps) (simp add: Let_def)
  qed
qed

lemma set_take_sizes: "t \<in> set (take_sizes len r) \<Longrightarrow> t \<le> len"
proof (induction len r rule: take_sizes.induct)
  case (1 len r)
  then show ?case by (subst (asm) (2) take_sizes.simps) (auto simp: Let_def split: if_splits)
qed

definition pad_amount :: "nat \<Rightarrow> nat \<Rightarrow> nat" where
  "pad_amount n d = (if n mod d = 0 then 0 else d - n mod d)"

lemma pad_amount_dvd: "0 < d \<Longrightarrow> d dvd n + pad_amount n d \<and> pad_amount n d < d"
proof -
  assume d: "0 < d"
  have "n + (d - n mod d) = n div d * d + d" using d mod_less_divisor [OF d, of n] div_mult_mod_eq [of n d] by linarith
  then show ?thesis using d by (auto simp: pad_amount_def)
qed

lemma pad_dataproto_run:
  assumes "dp_ok d" "0 < m" "metrics_key \<notin> set (map fst (dp_meta d))"
  shows "pad_dataproto_to_divisor d m = Inr (dp_take ([0..<dp_len d] @ map (\<lambda>i. i mod dp_len d) [0..<pad_amount (dp_len d) m]) d, pad_amount (dp_len d) m)"
proof (cases "dp_len d mod m = 0")
  case True
  then show ?thesis using assms(2) dp_take_all [OF assms(1)] by (simp add: pad_dataproto_to_divisor_def pad_amount_def)
next
  case False
  then have pos: "0 < dp_len d" by (cases "dp_len d") auto
  let ?n = "m - dp_len d mod m" let ?ts = "take_sizes (dp_len d) ?n"
  have n: "pad_amount (dp_len d) m = ?n" using False by (simp add: pad_amount_def)
  have prefixes: "map_r (\<lambda>n. dp_slice None (Some (int n)) None d) ?ts = Inr (map (\<lambda>t. dp_take [0..<t] d) ?ts)"
    by (rule map_r_Inr) (simp add: dp_slice_run [OF assms(1)] slice_indices_prefix [OF set_take_sizes])
  have "dp_concat (d # map (\<lambda>t. dp_take [0..<t] d) ?ts) = dp_concat (map (\<lambda>idx. dp_take idx d) ([0..<dp_len d] # map (\<lambda>t. [0..<t]) ?ts))"
    by (simp add: dp_take_all [OF assms(1)] comp_def)
  also have "\<dots> = Inr (dp_take (concat ([0..<dp_len d] # map (\<lambda>t. [0..<t]) ?ts)) d)"
    by (rule dp_concat_takes [OF assms(1,3)]) (auto dest: set_take_sizes)
  also have "concat ([0..<dp_len d] # map (\<lambda>t. [0..<t]) ?ts) = [0..<dp_len d] @ map (\<lambda>i. i mod dp_len d) [0..<?n]"
    by (simp add: take_sizes_cyclic [OF pos])
  finally show ?thesis using assms(2) False n by (simp add: pad_dataproto_to_divisor_def prefixes Let_def)
qed

lemma dp_take_take:
  assumes "dp_ok d" "\<forall>i \<in> set idx. i < dp_len d" "\<forall>j \<in> set js. j < length idx"
  shows "dp_take js (dp_take idx d) = dp_take (map ((!) idx) js) d"
proof (rule dp_eqI)
  have len: "dp_len (dp_take idx d) = length idx" by (rule dp_len_take [OF assms(1,2)])
  show "dp_rows (dp_take js (dp_take idx d)) = dp_rows (dp_take (map ((!) idx) js) d)"
    using assms len by (auto simp: dp_rows_take)
qed (use assms in \<open>auto simp: dp_len_take\<close>)

lemma unpad_take:
  assumes "dp_ok d" "\<forall>i \<in> set ext. i < dp_len d"
  shows "unpad_dataproto (dp_take ([0..<dp_len d] @ ext) d) (length ext) = Inr d"
proof (cases "ext = []")
  case True
  then show ?thesis by (simp add: unpad_dataproto_def dp_take_all [OF assms(1)])
next
  case False
  let ?idx = "[0..<dp_len d] @ ext"
  have b: "\<forall>i \<in> set ?idx. i < dp_len d" using assms(2) by auto
  have ok: "dp_ok (dp_take ?idx d)" by (rule dp_take_ok [OF assms(1) b])
  have len: "dp_len (dp_take ?idx d) = dp_len d + length ext" by (simp add: dp_len_take [OF assms(1) b])
  have "slice_indices None (Some (- int (length ext))) 1 (dp_len d + length ext) = [0..<dp_len d]"
    using slice_indices_drop_last [of "length ext" "dp_len d + length ext"] False by simp
  then have "unpad_dataproto (dp_take ?idx d) (length ext) = Inr (dp_take [0..<dp_len d] (dp_take ?idx d))"
    using False by (simp add: unpad_dataproto_def dp_slice_run [OF ok] len)
  also have "dp_take [0..<dp_len d] (dp_take ?idx d) = dp_take [0..<dp_len d] d"
    by (subst dp_take_take [OF assms(1) b]) (auto simp: nth_append intro!: arg_cong2 [of _ _ _ _ dp_take] nth_equalityI)
  finally show ?thesis by (simp add: dp_take_all [OF assms(1)])
qed

section \<open>Properties\<close>

text \<open>
  [C28] The abstract specification, for well-formed containers: on the list of rows, \<open>slice\<close> with a positive step takes the rows Python's
  slice selects, \<open>select_idxs\<close> the indexed (if every index is in range) or flagged ones (one flag per row), \<open>repeat\<close> copies rows one
  by one or the list as a whole, \<open>sample_level_repeat\<close> copies each row as often as asked (one count per row), and \<open>concat\<close> of containers
  with the same columns and the same meta information, which has no metrics, appends the lists. Keys, meta information and
  well-formedness are kept. (With other keys or with metrics \<open>concat\<close> behaves as in \<open>concat_accepts_missing_key\<close> and
  \<open>padding_duplicates_metrics\<close> below.)
\<close>

theorem dp_operations_refine_rows:
  assumes "dp_ok d"
  shows "(\<forall>a b step. 0 < opt_default 1 step \<longrightarrow> (\<exists>r. dp_slice a b step d = Inr r \<and> dp_ok r \<and> dp_sig r = dp_sig d
            \<and> dp_rows r = map ((!) (dp_rows d)) (slice_indices a b (opt_default 1 step) (length (dp_rows d)))))
    \<and> (\<forall>is js. map_r (\<lambda>i. py_index i (length (dp_rows d))) is = Inr js \<longrightarrow> (\<exists>r. select_idxs (IntIdxs is) d = Inr r \<and> dp_ok r
            \<and> dp_sig r = dp_sig d \<and> dp_rows r = map ((!) (dp_rows d)) js))
    \<and> (\<forall>bs. length bs = length (dp_rows d) \<longrightarrow> (\<exists>r. select_idxs (BoolIdxs bs) d = Inr r \<and> dp_ok r
            \<and> dp_sig r = dp_sig d \<and> dp_rows r = map fst (filter snd (zip (dp_rows d) bs))))
    \<and> (\<forall>n il. \<exists>r. dp_repeat n il d = Inr r \<and> dp_ok r \<and> dp_sig r = dp_sig d
            \<and> dp_rows r = (if il then concat (map (replicate n) (dp_rows d)) else concat (replicate n (dp_rows d))))
    \<and> (\<forall>reps. length reps = length (dp_rows d) \<longrightarrow> (\<exists>r. sample_level_repeat reps d = Inr r \<and> dp_ok r \<and> dp_sig r = dp_sig d
            \<and> dp_rows r = concat (map2 replicate reps (dp_rows d))))
    \<and> (\<forall>es. metrics_key \<notin> set (map fst (dp_meta d)) \<longrightarrow> (\<forall>e \<in> set es. dp_ok e \<and> dp_sig e = dp_sig d) \<longrightarrow>
         (\<exists>r. dp_concat (d # es) = Inr r \<and> dp_ok r \<and> dp_sig r = dp_sig d \<and> dp_rows r = concat (map dp_rows (d # es))))"
proof -
  have take: "\<exists>r. Inr (dp_take idx d) = Inr r \<and> dp_ok r \<and> dp_sig r = dp_sig d \<and> dp_rows r = rows"
    if "\<forall>i \<in> set idx. i < dp_len d" "map ((!) (dp_rows d)) idx = rows" for idx rows
    using that assms by (simp add: dp_rows_take)
  have 1: "\<exists>r. dp_slice a b step d = Inr r \<and> dp_ok r \<and> dp_sig r = dp_sig d
            \<and> dp_rows r = map ((!) (dp_rows d)) (slice_indices a b (opt_default 1 step) (length (dp_rows d)))"
    if "0 < opt_default 1 step" for a b step
    unfolding dp_slice_run [OF assms that] by (rule take) (use slice_indices_bounds that in auto)
  have 2: "\<exists>r. select_idxs (IntIdxs is) d = Inr r \<and> dp_ok r \<and> dp_sig r = dp_sig d \<and> dp_rows r = map ((!) (dp_rows d)) js"
    if "map_r (\<lambda>i. py_index i (length (dp_rows d))) is = Inr js" for "is" js
    using select_int_idxs [OF assms, of "is" js] that take [of js] by simp
  have 3: "\<exists>r. select_idxs (BoolIdxs bs) d = Inr r \<and> dp_ok r \<and> dp_sig r = dp_sig d
      \<and> dp_rows r = map fst (filter snd (zip (dp_rows d) bs))" if "length bs = length (dp_rows d)" for bs
    unfolding select_bool_idxs [OF assms that [unfolded length_dp_rows]]
    by (rule take) (use filter_as_take [OF that] in auto)
  have 4: "\<exists>r. dp_repeat n il d = Inr r \<and> dp_ok r \<and> dp_sig r = dp_sig d
      \<and> dp_rows r = (if il then concat (map (replicate n) (dp_rows d)) else concat (replicate n (dp_rows d)))" for n il
    unfolding dp_repeat_run [OF assms]
  proof (rule take)
    show "map ((!) (dp_rows d)) (repeat_idx n il (dp_len d)) = (if il then concat (map (replicate n) (dp_rows d)) else concat (replicate n (dp_rows d)))"
      using nth_interleave_rows [of n "dp_rows d"] nth_repeat_stack [of n "dp_rows d"]
      by (simp add: repeat_idx_def interleave_rows_def [of n "dp_rows d"] repeat_stack_def [of n "dp_rows d"])
  qed (use set_repeat_idx in blast)
  have 5: "\<exists>r. sample_level_repeat reps d = Inr r \<and> dp_ok r \<and> dp_sig r = dp_sig d \<and> dp_rows r = concat (map2 replicate reps (dp_rows d))"
    if "length reps = length (dp_rows d)" for reps
    unfolding sample_level_repeat_run [OF assms that [unfolded length_dp_rows]]
    by (rule take) (use nth_map2_replicate [OF that] in \<open>auto dest: set_zip_rightD\<close>)
  have 6: "\<exists>r. dp_concat (d # es) = Inr r \<and> dp_ok r \<and> dp_sig r = dp_sig d \<and> dp_rows r = concat (map dp_rows (d # es))"
    if "metrics_key \<notin> set (map fst (dp_meta d))" "\<forall>e \<in> set es. dp_ok e \<and> dp_sig e = dp_sig d" for es
    by (rule dp_concat_run) (use that assms in \<open>auto simp: dp_sig_def\<close>)
  show ?thesis by (intro conjI allI impI) (fact 1 2 3 4 5 6 | blast intro: 1 2 3 4 5 6)+
qed

text \<open>
  Splitting a container and concatenating the parts gives the container back: \<open>chunk\<close> into a number of parts that
  divides its length returns that many containers of equal length, \<open>split\<close> containers of at most the given size, and
  \<open>concat\<close> of either is the original.
\<close>

theorem split_concat_roundtrip:
  assumes "dp_ok d" "metrics_key \<notin> set (map fst (dp_meta d))" "0 < dp_len d" "0 < s"
  shows "(s dvd dp_len d \<longrightarrow> (\<exists>ds. dp_chunk config s d = Inr ds \<and> length ds = s
            \<and> (\<forall>e \<in> set ds. dp_len e = dp_len d div s) \<and> dp_concat ds = Inr d))
    \<and> (\<exists>ds. dp_split s d = Inr ds \<and> length ds = (dp_len d + s - 1) div s
            \<and> (\<forall>e \<in> set ds. dp_len e \<le> s) \<and> dp_concat ds = Inr d)"
proof (intro conjI impI)
  assume "s dvd dp_len d"
  then obtain q where q: "dp_len d = s * q" by blast
  then have pos: "0 < q" using assms(3) by (cases q) auto
  have b: "\<forall>j \<in> set [i * q..<i * q + q]. j < dp_len d" if "i < s" for i
  proof -
    have "(i + 1) * q \<le> s * q" using that by (intro mult_right_mono) auto
    then show ?thesis using q by auto
  qed
  let ?ds = "map (\<lambda>i. dp_take [i * q..<i * q + q] d) [0..<s]"
  have "dp_concat ?ds = dp_concat (map (\<lambda>idx. dp_take idx d) (map (\<lambda>i. [i * q..<i * q + q]) [0..<s]))" by (simp add: comp_def)
  also have "\<dots> = Inr (dp_take [0..<s * q] d)"
    by (subst dp_concat_takes [OF assms(1,2)]) (use assms(4) b in \<open>auto simp: concat_upts\<close>)
  finally have "dp_concat ?ds = Inr d" using dp_take_all [OF assms(1)] q by simp
  moreover have "dp_len e = dp_len d div s" if "e \<in> set ?ds" for e
    using that b assms(4) q by (auto simp: dp_len_take [OF assms(1)])
  ultimately show "\<exists>ds. dp_chunk config s d = Inr ds \<and> length ds = s \<and> (\<forall>e \<in> set ds. dp_len e = dp_len d div s) \<and> dp_concat ds = Inr d"
    using dp_chunk_run [OF assms(1,4) q pos] by (intro exI [of _ ?ds]) simp
next
  let ?m = "(dp_len d + s - 1) div s"
  let ?idx = "\<lambda>k. [k * s..<min (k * s + s) (dp_len d)]"
  let ?ds = "map (\<lambda>k. dp_take (?idx k) d) [0..<?m]"
  have cover: "dp_len d \<le> ?m * s" using assms(4) div_mult_mod_eq [of "dp_len d + s - 1" s] mod_less_divisor [OF assms(4), of "dp_len d + s - 1"] by linarith
  have m: "0 < ?m" using assms(3,4) by (simp add: div_greater_zero_iff)
  have "dp_concat ?ds = dp_concat (map (\<lambda>idx. dp_take idx d) (map ?idx [0..<?m]))" by (simp add: comp_def)
  also have "\<dots> = Inr (dp_take [0..<dp_len d] d)"
    by (subst dp_concat_takes [OF assms(1,2)]) (use assms(4) m cover in \<open>auto simp: concat_split_upts min_absorb2\<close>)
  finally have "dp_concat ?ds = Inr d" using dp_take_all [OF assms(1)] by simp
  moreover have "dp_len e \<le> s" if "e \<in> set ?ds" for e
    using that by (auto simp: dp_len_take [OF assms(1)])
  ultimately show "\<exists>ds. dp_split s d = Inr ds \<and> length ds = ?m \<and> (\<forall>e \<in> set ds. dp_len e \<le> s) \<and> dp_concat ds = Inr d"
    using dp_split_run [OF assms(1,4)] by (intro exI [of _ ?ds]) simp
qed

text \<open>
  [C29] Padding to a multiple and removing the padding, for a well-formed container without metrics in its meta information: the padded
  container is the smallest extension whose length is a multiple of the divisor, its rows repeat those of the container
  cyclically, and \<open>unpad_dataproto\<close> with the returned size gives the container back. (Metrics are not given back, see
  \<open>padding_duplicates_metrics\<close> below.)
\<close>

theorem pad_unpad_roundtrip:
  assumes "dp_ok d" "0 < m" "metrics_key \<notin> set (map fst (dp_meta d))"
  shows "\<exists>p n. pad_dataproto_to_divisor d m = Inr (p, n) \<and> n < m \<and> m dvd dp_len p \<and> dp_len p = dp_len d + n
    \<and> (\<forall>i < dp_len p. dp_rows p ! i = dp_rows d ! (i mod dp_len d)) \<and> unpad_dataproto p n = Inr d"
proof -
  let ?n = "pad_amount (dp_len d) m"
  let ?ext = "map (\<lambda>i. i mod dp_len d) [0..<?n]" let ?p = "dp_take ([0..<dp_len d] @ ?ext) d"
  have b: "\<forall>i \<in> set ?ext. i < dp_len d"
  proof (cases "dp_len d = 0")
    case True
    then show ?thesis by (simp add: pad_amount_def)
  qed auto
  then have b': "\<forall>i \<in> set ([0..<dp_len d] @ ?ext). i < dp_len d" by auto
  have len: "dp_len ?p = dp_len d + ?n" by (simp add: dp_len_take [OF assms(1) b'])
  have "dp_rows ?p ! i = dp_rows d ! (i mod dp_len d)" if "i < dp_len ?p" for i
  proof -
    have "([0..<dp_len d] @ ?ext) ! i = i mod dp_len d" using that unfolding len by (auto simp: nth_append le_mod_geq)
    then show ?thesis using that unfolding len dp_rows_take [OF assms(1) b'] by (simp del: map_append)
  qed
  then show ?thesis using pad_dataproto_run [OF assms] unpad_take [OF assms(1) b] pad_amount_dvd [OF assms(2), of "dp_len d"] len
    by (intro exI [of _ ?p] exI [of _ ?n]) simp
qed

section \<open>Well-formedness\<close>

lemma cols_ok_dict: "cols_ok n cols \<longleftrightarrow> dict_ok (\<lambda>c. length c = n) cols"
  by (simp add: cols_ok_def dict_ok_def)

lemma dp_okI:
  assumes "\<And>td. b = Some td \<Longrightarrow> td_size td = n \<and> cols_ok n (td_items td)" "cols_ok n nt" "dict_ok py_ok meta"
  shows "dp_ok \<lparr>dp_batch = b, dp_non_tensor = nt, dp_meta = meta\<rparr>"
proof -
  let ?d = "\<lparr>dp_batch = b, dp_non_tensor = nt, dp_meta = meta\<rparr>"
  have "cols_ok (dp_len ?d) nt"
    using assms(1,2) by (cases b; cases nt) (auto simp: dp_len_def cols_ok_def)
  then show ?thesis using assms by (auto simp: dp_ok_def dict_ok_def split: option.splits)
qed

lemma dp_okD:
  assumes "dp_ok d"
  shows "dp_batch d = Some td \<Longrightarrow> td_size td = dp_len d \<and> cols_ok (dp_len d) (td_items td)"
    and "cols_ok (dp_len d) (dp_non_tensor d)" "dict_ok py_ok (dp_meta d)"
  using assms by (auto simp: dp_ok_def dict_ok_def dp_len_def)

lemma make_dp_ok:
  assumes "make_dp b nt meta = Inr r" "\<And>td. b = Some td \<Longrightarrow> cols_ok (td_size td) (td_items td)"
    and "dict_ok (\<lambda>_. True) nt" "b = None \<Longrightarrow> \<exists>n. cols_ok n nt" "dict_ok py_ok meta"
  shows "dp_ok r"
proof -
  have r: "r = \<lparr>dp_batch = b, dp_non_tensor = nt, dp_meta = meta\<rparr>"
    "\<And>td. b = Some td \<Longrightarrow> list_all (\<lambda>(_, val). length val = td_size td) nt"
    using assms(1) by (auto simp: make_dp_def check_consistency_def Let_def split: option.splits)
  show ?thesis
  proof (cases b)
    case None
    then obtain n where "cols_ok n nt" using assms(4) by blast
    then show ?thesis unfolding r(1) using None assms(5) by (intro dp_okI [where n = n]) auto
  next
    case (Some td)
    have "cols_ok (td_size td) nt" using r(2) [OF Some] assms(3) by (simp add: cols_ok_def dict_ok_def)
    then show ?thesis unfolding r(1) using Some assms(2,5) by (intro dp_okI [where n = "td_size td"]) auto
  qed
qed

lemma map_colsD:
  assumes "map_cols f cols = Inr cols'"
  shows "map fst cols' = map fst cols" "\<And>k c'. (k, c') \<in> set cols' \<Longrightarrow> \<exists>c. (k, c) \<in> set cols \<and> f c = Inr c'"
proof -
  have "map fst cols' = map fst cols \<and> (\<forall>(k, c') \<in> set cols'. \<exists>c. (k, c) \<in> set cols \<and> f c = Inr c')"
    using assms unfolding map_cols_def by (induction cols arbitrary: cols') fastforce+
  then show "map fst cols' = map fst cols" "\<And>k c'. (k, c') \<in> set cols' \<Longrightarrow> \<exists>c. (k, c) \<in> set cols \<and> f c = Inr c'" by auto
qed

lemma make_tdD: "make_td n items = Inr td \<Longrightarrow> td = \<lparr>td_size = n, td_items = items\<rparr> \<and> list_all (\<lambda>(_, c). length c = n) items"
  by (simp add: make_td_def split: if_splits)

text \<open>The common form of the operations that act on every column.\<close>

lemma by_cols_ok:
  assumes "dp_ok d" "bind_r (opt_r (\<lambda>td. bind_r (map_cols f (td_items td)) (make_td n)) (dp_batch d)) (\<lambda>b.
     bind_r (map_cols g (dp_non_tensor d)) (\<lambda>nt. make_dp b nt (dp_meta d))) = Inr r"
    and len: "\<And>c c'. length c = dp_len d \<Longrightarrow> g c = Inr c' \<Longrightarrow> length c' = m"
  shows "dp_ok r"
proof -
  obtain b nt where b: "opt_r (\<lambda>td. bind_r (map_cols f (td_items td)) (make_td n)) (dp_batch d) = Inr b"
    and nt: "map_cols g (dp_non_tensor d) = Inr nt" and r: "make_dp b nt (dp_meta d) = Inr r"
    using assms(2) by auto
  have keys: "distinct (map fst nt)" using map_colsD(1) [OF nt] dp_okD(2) [OF assms(1)] by (simp add: cols_ok_def)
  have "cols_ok m nt"
    using keys map_colsD(2) [OF nt] dp_okD(2) [OF assms(1)] len by (fastforce simp: cols_ok_def list_all_iff)
  moreover have "cols_ok (td_size t) (td_items t)" if bt: "b = Some t" for t
  proof -
    obtain td items where "dp_batch d = Some td" "map_cols f (td_items td) = Inr items" "make_td n items = Inr t"
      using b bt by (cases "dp_batch d") (auto simp: opt_r_def)
    then show ?thesis using map_colsD(1) [of f "td_items td" items] make_tdD [of n items t] dp_okD(1) [OF assms(1)] by (auto simp: cols_ok_def)
  qed
  ultimately show ?thesis
    using keys dp_okD(3) [OF assms(1)] by (intro make_dp_ok [OF r]) (auto simp: dict_ok_def list_all_iff)
qed

lemma length_index_col: "index_col ix c = Inr c' \<Longrightarrow> length c' = idxs_size ix"
proof (cases ix)
  case (BoolIdxs bs)
  assume "index_col ix c = Inr c'"
  then have "length bs = length c" "c' = map fst (filter snd (zip c bs))" using BoolIdxs by (auto simp: index_col_def split: if_splits)
  moreover have "length bs = length c \<Longrightarrow> length (filter snd (zip c bs)) = length (filter id bs)"
    by (induction bs c rule: list_induct2) auto
  ultimately show ?thesis using BoolIdxs by (simp add: idxs_size_def)
qed (auto simp: index_col_def idxs_size_def map_r_length)

lemma select_idxs_ok: "dp_ok d \<Longrightarrow> select_idxs ix d = Inr r \<Longrightarrow> dp_ok r"
  unfolding select_idxs_def by (erule by_cols_ok [where m = "idxs_size ix"]) (auto simp: length_index_col)

lemma repeat_each_length:
  "length c = L \<Longrightarrow> repeat_each reps c = Inr c' \<Longrightarrow> length c' = (if length reps = L then sum_list reps else L * hd reps)"
  by (auto simp: repeat_each_def length_map2_replicate split: if_splits)

lemma sample_level_repeat_ok:
  assumes "dp_ok d" "sample_level_repeat reps d = Inr r"
  shows "dp_ok r"
  using by_cols_ok [OF assms(1) assms(2) [unfolded sample_level_repeat_def], of "if length reps = dp_len d then sum_list reps else dp_len d * hd reps"]
  by (simp add: repeat_each_length)

lemma dp_repeat_ok: "dp_ok d \<Longrightarrow> dp_repeat n il d = Inr r \<Longrightarrow> dp_ok r"
  using dp_repeat_run [of d n il] set_repeat_idx by auto

lemma dp_slice_ok:
  assumes "dp_ok d" "dp_slice a b step d = Inr r"
  shows "dp_ok r"
proof (cases "0 < opt_default 1 step")
  case True
  then show ?thesis using dp_slice_run [OF assms(1) True] slice_indices_bounds [OF True] assms by auto
next
  case False
  let ?s = "opt_default 1 step"
  let ?f = "\<lambda>c. map ((!) c) (slice_indices a b ?s (length c))"
  show ?thesis
  proof (cases "dp_batch d")
    case (Some td)
    then show ?thesis using False assms(2) by (auto simp: dp_slice_def Let_def split: if_splits)
  next
    case None
    then have r: "make_dp None (map (\<lambda>(k, c). (k, ?f c)) (dp_non_tensor d)) (dp_meta d) = Inr r"
      using assms(2) by (auto simp: dp_slice_def Let_def split: if_splits)
    have "cols_ok (length (slice_indices a b ?s (dp_len d))) (map (\<lambda>(k, c). (k, ?f c)) (dp_non_tensor d))"
      using dp_okD(2) [OF assms(1)] by (auto simp: cols_ok_def list_all_iff comp_def case_prod_beta)
    then show ?thesis using dp_okD(3) [OF assms(1)] by (intro make_dp_ok [OF r]) (auto simp: cols_ok_def dict_ok_def list_all_iff)
  qed
qed

lemma dp_select_ok:
  assumes "dp_ok d" "dp_select bk nk mk d = Inr r"
  shows "dp_ok r"
proof -
  let ?nt = "case nk of None \<Rightarrow> dp_non_tensor d | Some ks \<Rightarrow> keep_keys ks (dp_non_tensor d)"
  let ?meta = "case mk of None \<Rightarrow> dp_meta d | Some ks \<Rightarrow> keep_keys ks (dp_meta d)"
  obtain b where b: "(case bk of None \<Rightarrow> Inr (dp_batch d)
      | Some ks \<Rightarrow> (case dp_batch d of None \<Rightarrow> Inl AttributeError
        | Some td \<Rightarrow> if set ks \<subseteq> set (map fst (td_items td)) then Inr (Some (td\<lparr>td_items := keep_keys ks (td_items td)\<rparr>)) else Inl (KeyError ''select''))) = Inr b"
    and r: "make_dp b ?nt ?meta = Inr r" using assms(2) unfolding dp_select_def by auto
  have nt: "cols_ok (dp_len d) ?nt" using dp_okD(2) [OF assms(1)] by (auto simp: cols_ok_dict keep_keys_def dict_ok_filter split: option.splits)
  show ?thesis
  proof (rule make_dp_ok [OF r])
    show "cols_ok (td_size td) (td_items td)" if "b = Some td" for td
      using b that dp_okD(1) [OF assms(1)] by (auto simp: cols_ok_dict keep_keys_def dict_ok_filter split: option.splits if_splits)
    show "dict_ok (\<lambda>_. True) ?nt" using nt by (auto simp: cols_ok_def dict_ok_def list_all_iff)
    show "\<exists>n. cols_ok n ?nt" using nt by blast
    show "dict_ok py_ok ?meta" using dp_okD(3) [OF assms(1)] by (auto simp: keep_keys_def dict_ok_filter split: option.splits)
  qed
qed

lemma dp_pop_keys_ok:
  assumes "dp_pop_keys ks d = Inr (rest, out)" "dict_ok P d"
  shows "dict_ok P rest \<and> dict_ok P out"
proof -
  have "(\<lambda>(d, out). dict_ok P d \<and> dict_ok P out) (rest, out)"
  proof (rule fold_r_invariant [OF assms(1) [unfolded dp_pop_keys_def]])
    fix key u v
    assume I: "case u of (d, out) \<Rightarrow> dict_ok P d \<and> dict_ok P out"
      and s: "(case u of (d, out) \<Rightarrow> case map_of d key of None \<Rightarrow> Inl (AssertionError ''key in keys()'')
           | Some v \<Rightarrow> Inr (AList.delete key d, AList.update key v out)) = Inr v"
    obtain d out where u: "u = (d, out)" by (cases u)
    obtain x where x: "map_of d key = Some x" "v = (AList.delete key d, AList.update key x out)"
      using s by (auto simp: u split: option.splits)
    have "P x" using I x(1) by (auto simp: u dict_ok_def list_all_iff dest!: map_of_SomeD)
    then show "case v of (d, out) \<Rightarrow> dict_ok P d \<and> dict_ok P out" using I by (simp add: u x dict_ok_update dict_ok_delete)
  qed (use assms(2) in \<open>simp add: dict_ok_def\<close>)
  then show ?thesis by simp
qed

lemma from_dict_ok:
  assumes "from_dict tensors nts meta ap = Inr r" "cols_ok n tensors" "cols_ok n nts" "dict_ok py_ok meta"
  shows "dp_ok r"
proof -
  let ?meta = "if ap then AList.update auto_padding_key (MBool True) meta else meta"
  have meta: "dict_ok py_ok ?meta" using assms(4) by (simp add: dict_ok_update)
  have nts: "dict_ok (\<lambda>_. True) nts" using assms(3) by (auto simp: cols_ok_def dict_ok_def list_all_iff)
  show ?thesis
  proof (cases tensors)
    case Nil
    then have "make_dp None nts ?meta = Inr r" using assms(1) by (simp add: from_dict_def)
    then show ?thesis by (rule make_dp_ok) (use assms(3) nts meta in auto)
  next
    case (Cons p ts)
    then have "make_dp (Some \<lparr>td_size = n, td_items = tensors\<rparr>) nts ?meta = Inr r"
      using assms(1,2) by (cases p) (auto simp: from_dict_def Let_def make_td_def cols_ok_def split: if_splits)
    then show ?thesis by (rule make_dp_ok) (use assms(2) nts meta in auto)
  qed
qed

lemma dp_pop_ok:
  assumes "dp_ok d" "dp_pop bk nk mk d = Inr (rest, popped)"
  shows "dp_ok rest \<and> dp_ok popped"
proof -
  let ?pop = "case dp_batch d of None \<Rightarrow> if bk = [] then Inr (None, []) else Inl AttributeError
      | Some td \<Rightarrow> bind_r (dp_pop_keys bk (td_items td)) (\<lambda>(rest, out). Inr (Some (td\<lparr>td_items := rest\<rparr>), out))"
  obtain b tensors nt nts meta meta_out where run: "?pop = Inr (b, tensors)"
      "dp_pop_keys nk (dp_non_tensor d) = Inr (nt, nts)" "dp_pop_keys mk (dp_meta d) = Inr (meta, meta_out)"
      "from_dict tensors nts meta_out False = Inr popped" "rest = \<lparr>dp_batch = b, dp_non_tensor = nt, dp_meta = meta\<rparr>"
    using assms(2) unfolding dp_pop_def by (auto split: prod.splits)
  have t: "(\<forall>td. b = Some td \<longrightarrow> td_size td = dp_len d \<and> cols_ok (dp_len d) (td_items td)) \<and> cols_ok (dp_len d) tensors"
  proof (cases "dp_batch d")
    case None
    then show ?thesis using run(1) by (auto simp: cols_ok_def split: if_splits)
  next
    case (Some td)
    then obtain re where p: "dp_pop_keys bk (td_items td) = Inr (re, tensors)" "b = Some (td\<lparr>td_items := re\<rparr>)" using run(1) by auto
    then show ?thesis using dp_pop_keys_ok [OF p(1)] dp_okD(1) [OF assms(1) Some] by (simp add: cols_ok_dict)
  qed
  have n: "cols_ok (dp_len d) nt \<and> cols_ok (dp_len d) nts" using dp_pop_keys_ok [OF run(2)] dp_okD(2) [OF assms(1)] by (simp add: cols_ok_dict)
  have m: "dict_ok py_ok meta \<and> dict_ok py_ok meta_out" using dp_pop_keys_ok [OF run(3) dp_okD(3) [OF assms(1)]] .
  show ?thesis using t n m from_dict_ok [OF run(4)] unfolding run(5) by (auto intro!: dp_okI [where n = "dp_len d"])
qed

lemma union_two_dict_ok:
  assumes "union_two_dict eq d e = Inr u" "dict_ok P d" "dict_ok P e"
  shows "dict_ok P u"
proof (rule fold_r_invariant [OF assms(1) [unfolded union_two_dict_def]])
  fix x u v
  assume x: "x \<in> set e" and I: "dict_ok P u"
    and s: "(case x of (key, val) \<Rightarrow> \<lambda>d. case map_of d key of None \<Rightarrow> Inr (AList.update key val d)
        | Some old \<Rightarrow> if eq val old then Inr (AList.update key val d) else Inl (AssertionError ''in meta_dict1 and meta_dict2 are not the same object'')) u = Inr v"
  obtain k val where "x = (k, val)" by (cases x)
  moreover then have "P val" using x assms(3) by (auto simp: dict_ok_def list_all_iff)
  ultimately show "dict_ok P v" using s I by (auto simp: dict_ok_update split: option.splits if_splits)
qed (rule assms(2))

lemma dp_union_ok:
  assumes "dp_ok d" "dp_ok e" "dp_union teq d e = Inr r"
  shows "dp_ok r"
proof -
  obtain td te t nt meta where u: "dp_batch d = Some td" "dp_batch e = Some te" "union_tensor_dict teq td te = Inr t"
      "union_two_dict (=) (dp_non_tensor d) (dp_non_tensor e) = Inr nt" "union_two_dict py_eq (dp_meta d) (dp_meta e) = Inr meta"
      "r = \<lparr>dp_batch = Some t, dp_non_tensor = nt, dp_meta = meta\<rparr>"
    using assms(3) unfolding dp_union_def by (auto split: option.splits)
  have size: "td_size td = dp_len d" "td_size te = dp_len d" "dp_len e = dp_len d"
    using dp_okD(1) [OF assms(1) u(1)] dp_okD(1) [OF assms(2) u(2)] u(3) by (auto simp: union_tensor_dict_def split: if_splits)
  obtain items where items: "fold_r (\<lambda>(key, c) d. case map_of d key of None \<Rightarrow> Inr (d @ [(key, c)])
        | Some old \<Rightarrow> if teq old c then Inr d else Inl (AssertionError ''are not the same object'')) (td_items te) (td_items td) = Inr items"
      "t = td\<lparr>td_items := items\<rparr>"
    using u(3) by (auto simp: union_tensor_dict_def split: if_splits)
  have "dict_ok (\<lambda>c. length c = dp_len d) items"
  proof (rule fold_r_invariant [OF items(1)])
    show "dict_ok (\<lambda>c. length c = dp_len d) (td_items td)" using dp_okD(1) [OF assms(1) u(1)] by (simp add: cols_ok_dict)
    fix x w v
    assume x: "x \<in> set (td_items te)" and I: "dict_ok (\<lambda>c. length c = dp_len d) w"
      and s: "(case x of (key, c) \<Rightarrow> \<lambda>d. case map_of d key of None \<Rightarrow> Inr (d @ [(key, c)])
        | Some old \<Rightarrow> if teq old c then Inr d else Inl (AssertionError ''are not the same object'')) w = Inr v"
    obtain k c where p: "x = (k, c)" by (cases x)
    have "length c = dp_len d" using x p dp_okD(1) [OF assms(2) u(2)] size by (auto simp: cols_ok_def list_all_iff)
    then show "dict_ok (\<lambda>c. length c = dp_len d) v"
      using s I p by (auto simp: dict_ok_def map_of_eq_None_iff split: option.splits if_splits)
  qed
  then have "cols_ok (dp_len d) (td_items t) \<and> td_size t = dp_len d" using items(2) size by (simp add: cols_ok_dict)
  moreover have "cols_ok (dp_len d) nt"
    using union_two_dict_ok [OF u(4)] dp_okD(2) [OF assms(1)] dp_okD(2) [OF assms(2)] size(3) by (simp add: cols_ok_dict)
  moreover have "dict_ok py_ok meta" using union_two_dict_ok [OF u(5) dp_okD(3) [OF assms(1)] dp_okD(3) [OF assms(2)]] .
  ultimately show ?thesis unfolding u(6) by (intro dp_okI [where n = "dp_len d"]) auto
qed

lemma dp_reorder_ok:
  assumes "dp_ok d" "dp_reorder is d = Inr r"
  shows "dp_ok r"
proof -
  obtain td js nt where run: "dp_batch d = Some td" "map_r (\<lambda>i. py_index i (td_size td)) is = Inr js"
      "map_cols (index_col (IntIdxs is)) (dp_non_tensor d) = Inr nt"
      "r = d\<lparr>dp_batch := Some \<lparr>td_size = length js, td_items = take_cols js (td_items td)\<rparr>, dp_non_tensor := nt\<rparr>"
    using assms(2) unfolding dp_reorder_def by (auto split: option.splits)
  have "length c = length js" if "(k, c) \<in> set nt" for k c
    using map_colsD(2) [OF run(3) that] length_index_col map_r_length [OF run(2)] by (fastforce simp: idxs_size_def)
  then have "cols_ok (length js) nt" using map_colsD(1) [OF run(3)] dp_okD(2) [OF assms(1)] by (auto simp: cols_ok_def list_all_iff)
  moreover have "cols_ok (length js) (take_cols js (td_items td))" by (rule cols_ok_take) (use dp_okD(1) [OF assms(1) run(1)] in auto)
  moreover have "r = \<lparr>dp_batch = Some \<lparr>td_size = length js, td_items = take_cols js (td_items td)\<rparr>, dp_non_tensor = nt, dp_meta = dp_meta d\<rparr>"
    by (simp add: run(4))
  ultimately show ?thesis using dp_okD(3) [OF assms(1)] by (auto intro!: dp_okI [where n = "length js"])
qed

lemma dp_split_ok:
  assumes "dp_ok d" "dp_split piece d = Inr rs"
  shows "list_all dp_ok rs"
proof -
  have "list_all dp_ok ys" if "map_r (\<lambda>i. dp_slice (Some i) (Some (i + int piece)) None d) xs = Inr ys" for xs ys
    using that by (induction xs arbitrary: ys) (auto intro: dp_slice_ok [OF assms(1)])
  then show ?thesis using assms(2) by (auto simp: dp_split_def split: if_splits)
qed

lemma unpad_dataproto_ok: "dp_ok d \<Longrightarrow> unpad_dataproto d n = Inr r \<Longrightarrow> dp_ok r"
  by (auto simp: unpad_dataproto_def split: if_splits intro: dp_slice_ok)

lemma dp_chunk_ok:
  assumes "dp_ok d" "0 < dp_len d" "c dvd dp_len d" "dp_chunk config c d = Inr rs"
  shows "list_all dp_ok rs"
proof -
  obtain q where q: "dp_len d = c * q" using assms(3) by (elim dvdE)
  have pos: "0 < c" "0 < q" using q assms(2) by auto
  have "i * q + q \<le> dp_len d" if "i < c" for i
  proof -
    have "(i + 1) * q \<le> c * q" using that by (intro mult_le_mono1) simp
    then show ?thesis by (simp add: q)
  qed
  then have "dp_ok (dp_take [i * q..<i * q + q] d)" if "i < c" for i
    using that by (intro dp_take_ok [OF assms(1)]) fastforce
  then show ?thesis using dp_chunk_run [OF assms(1) pos(1) q pos(2), of config] assms(4) by (auto simp: list_all_iff)
qed

lemma pad_dataproto_ok:
  assumes "dp_ok d" "metrics_key \<notin> set (map fst (dp_meta d))" "pad_dataproto_to_divisor d m = Inr (r, n)"
  shows "dp_ok r"
proof -
  have "0 < m" using assms(3) by (auto simp: pad_dataproto_to_divisor_def split: if_splits)
  then have r: "r = dp_take ([0..<dp_len d] @ map (\<lambda>i. i mod dp_len d) [0..<pad_amount (dp_len d) m]) d"
    using pad_dataproto_run [OF assms(1) \<open>0 < m\<close> assms(2)] assms(3) by auto
  have "\<forall>i \<in> set ([0..<dp_len d] @ map (\<lambda>i. i mod dp_len d) [0..<pad_amount (dp_len d) m]). i < dp_len d"
    by (cases "dp_len d = 0") (auto simp: pad_amount_def)
  then show ?thesis unfolding r by (rule dp_take_ok [OF assms(1)])
qed

text \<open>
  [C30] Well-formedness of containers: tensors and arrays of one common length under distinct keys. When they return (rather than
  raise) on well-formed containers, \<open>slice\<close>, \<open>select_idxs\<close>, \<open>repeat\<close>, \<open>sample_level_repeat\<close>, \<open>select\<close>, \<open>union\<close>, \<open>reorder\<close>, \<open>split\<close> and
  unpadding return well-formed ones; \<open>pop\<close> leaves a well-formed rest and gives a well-formed part; \<open>from_dict\<close> builds one from columns
  of one length. So do \<open>chunk\<close> of a non-empty container into pieces of equal size, padding of a container without
  metrics, and \<open>concat\<close> of containers with the same columns and the same meta information without metrics.
\<close>

theorem dp_operations_well_formed:
  fixes d e :: "('t, 'n, 'm) data_proto"
  assumes "dp_ok d" "dp_ok e"
  shows "(\<forall>a b step r. dp_slice a b step d = Inr r \<longrightarrow> dp_ok r)
    \<and> (\<forall>ix r. select_idxs ix d = Inr r \<longrightarrow> dp_ok r)
    \<and> (\<forall>n il r. dp_repeat n il d = Inr r \<longrightarrow> dp_ok r)
    \<and> (\<forall>reps r. sample_level_repeat reps d = Inr r \<longrightarrow> dp_ok r)
    \<and> (\<forall>bk nk mk r. dp_select bk nk mk d = Inr r \<longrightarrow> dp_ok r)
    \<and> (\<forall>bk nk mk rest part. dp_pop bk nk mk d = Inr (rest, part) \<longrightarrow> dp_ok rest \<and> dp_ok part)
    \<and> (\<forall>teq r. dp_union teq d e = Inr r \<longrightarrow> dp_ok r)
    \<and> (\<forall>is r. dp_reorder is d = Inr r \<longrightarrow> dp_ok r)
    \<and> (\<forall>piece rs. dp_split piece d = Inr rs \<longrightarrow> list_all dp_ok rs)
    \<and> (\<forall>n r. unpad_dataproto d n = Inr r \<longrightarrow> dp_ok r)
    \<and> (\<forall>config c rs. 0 < dp_len d \<longrightarrow> c dvd dp_len d \<longrightarrow> dp_chunk config c d = Inr rs \<longrightarrow> list_all dp_ok rs)
    \<and> (\<forall>m r n. metrics_key \<notin> set (map fst (dp_meta d)) \<longrightarrow> pad_dataproto_to_divisor d m = Inr (r, n) \<longrightarrow> dp_ok r)
    \<and> (\<forall>es r. metrics_key \<notin> set (map fst (dp_meta d)) \<longrightarrow> (\<forall>x \<in> set es. dp_ok x \<and> dp_sig x = dp_sig d) \<longrightarrow>
        dp_concat (d # es) = Inr r \<longrightarrow> dp_ok r)
    \<and> (\<forall>n ts ns ap r. cols_ok n ts \<longrightarrow> cols_ok n ns \<longrightarrow> from_dict ts ns (dp_meta d) ap = Inr r \<longrightarrow> dp_ok (r :: ('t, 'n, 'm) data_proto))"
proof (intro conjI allI impI)
  show "dp_ok r" if "from_dict ts ns (dp_meta d) ap = Inr r" "cols_ok n ts" "cols_ok n ns" for n ts ns ap and r :: "('t, 'n, 'm) data_proto"
    by (rule from_dict_ok [OF that dp_okD(3) [OF assms(1)]])
  show "list_all dp_ok rs" if "dp_split piece d = Inr rs" for piece rs by (rule dp_split_ok [OF assms(1) that])
  show "dp_ok r" if "unpad_dataproto d n = Inr r" for n r by (rule unpad_dataproto_ok [OF assms(1) that])
  show "list_all dp_ok rs" if "0 < dp_len d" "c dvd dp_len d" "dp_chunk config c d = Inr rs" for config c rs
    by (rule dp_chunk_ok [OF assms(1) that])
  show "dp_ok r" if "metrics_key \<notin> set (map fst (dp_meta d))" "pad_dataproto_to_divisor d m = Inr (r, n)" for m r n
    by (rule pad_dataproto_ok [OF assms(1) that])
  show "dp_ok r" if "metrics_key \<notin> set (map fst (dp_meta d))" "\<forall>x \<in> set es. dp_ok x \<and> dp_sig x = dp_sig d"
    "dp_concat (d # es) = Inr r" for es r
    using dp_concat_run [of "d # es" "dp_sig d"] that assms(1) by (auto simp: dp_sig_def)
qed (use dp_slice_ok select_idxs_ok dp_repeat_ok sample_level_repeat_ok dp_select_ok dp_pop_ok dp_union_ok dp_reorder_ok assms in \<open>fast+\<close>)

section \<open>Concrete containers\<close>

definition ex_dp :: "(nat, nat, nat) data_proto" where
  "ex_dp = \<lparr>dp_batch = Some \<lparr>td_size = 3, td_items = [(''input_ids'', [10, 11, 12])]\<rparr>,
     dp_non_tensor = [(''uid'', [7, 8, 9])], dp_meta = [(''step'', MInt 1)]\<rparr>"

lemma ex_dp_ok: "dp_ok ex_dp" "dp_len ex_dp = 3" "metrics_key \<notin> set (map fst (dp_meta ex_dp))"
  by (simp_all add: ex_dp_def dp_ok_def cols_ok_def dp_len_def metrics_key_def)

theorem dp_operations_refine_rows_witness:
  "\<exists>r. dp_repeat 2 True ex_dp = Inr r \<and> dp_rows r = concat (map (replicate 2) (dp_rows ex_dp))"
  using dp_operations_refine_rows [OF ex_dp_ok(1)] by (metis (full_types))

theorem split_concat_roundtrip_witness:
  "\<exists>ds. dp_split 2 ex_dp = Inr ds \<and> length ds = 2 \<and> dp_concat ds = Inr ex_dp"
  using split_concat_roundtrip [OF ex_dp_ok(1,3), of 2] by (auto simp: ex_dp_ok(2))

theorem pad_unpad_roundtrip_witness:
  "\<exists>p n. pad_dataproto_to_divisor ex_dp 4 = Inr (p, n) \<and> 4 dvd dp_len p \<and> unpad_dataproto p n = Inr ex_dp"
  using pad_unpad_roundtrip [OF ex_dp_ok(1) _ ex_dp_ok(3), of 4] by (auto simp: ex_dp_ok(2))

theorem dp_operations_well_formed_witness:
  "\<exists>r. dp_slice (Some (- 2)) None (Some 1) ex_dp = Inr r \<and> dp_ok r"
proof -
  have "dp_slice (Some (- 2)) None (Some 1) ex_dp = Inr (dp_take [1, 2] ex_dp)"
    using dp_slice_run [OF ex_dp_ok(1), of "Some 1" "Some (- 2)" None] by (simp add: ex_dp_ok(2) slice_indices_def py_range_def Let_def upt_rec)
  then show ?thesis using conjunct1 [OF dp_operations_well_formed [OF ex_dp_ok(1) ex_dp_ok(1)]] by simp
qed

text \<open>Metrics are not carried through a concatenation unchanged: even the concatenation of one container wraps every
  metric into the list of the workers' values, and padding by concatenation lists the value once per piece.\<close>

definition ex_metrics :: "(nat, nat, nat) data_proto" where
  "ex_metrics = \<lparr>dp_batch = None, dp_non_tensor = [(''uid'', [7])], dp_meta = [(''metrics'', MDict [(''loss'', MInt 5)])]\<rparr>"

lemma padding_duplicates_metrics:
  "\<exists>p. pad_dataproto_to_divisor ex_metrics 2 = Inr (p, 1)
     \<and> dp_meta p = [(''metrics'', MDict [(''loss'', MList [MInt 5, MInt 5])])]
     \<and> (\<exists>u. unpad_dataproto p 1 = Inr u \<and> dp_meta u \<noteq> dp_meta ex_metrics)"
proof -
  let ?p = "\<lparr>dp_batch = None, dp_non_tensor = [(''uid'', [7, 7])], dp_meta = [(''metrics'', MDict [(''loss'', MList [MInt 5, MInt 5])])]\<rparr> :: (nat, nat, nat) data_proto"
  have "pad_dataproto_to_divisor ex_metrics 2 = Inr (?p, 1)"
    by (simp add: pad_dataproto_to_divisor_def ex_metrics_def dp_len_def take_sizes.simps dp_slice_def slice_indices_def py_range_def
        make_dp_def check_consistency_def dp_concat_def list_of_dict_to_dict_of_list_def lodd_step_def merge_meta_def merge_entry_def
        metrics_key_def as_dict_def Let_def)
  moreover have "\<exists>u. unpad_dataproto ?p 1 = Inr u \<and> dp_meta u \<noteq> dp_meta ex_metrics"
    by (simp add: unpad_dataproto_def dp_slice_def slice_indices_def py_range_def make_dp_def check_consistency_def ex_metrics_def Let_def)
  ultimately show ?thesis by (intro exI [of _ ?p]) simp
qed

text \<open>A key that a later container lacks is not noticed: without tensors the result has columns of different lengths.\<close>

lemma concat_accepts_missing_key:
  "\<exists>r. dp_concat [\<lparr>dp_batch = None, dp_non_tensor = [(''a'', [1]), (''b'', [2])], dp_meta = []\<rparr>,
       \<lparr>dp_batch = None, dp_non_tensor = [(''a'', [3])], dp_meta = []\<rparr> :: (nat, nat, nat) data_proto] = Inr r
     \<and> dp_non_tensor r = [(''a'', [1, 3]), (''b'', [2])]"
  by (simp add: dp_concat_def list_of_dict_to_dict_of_list_def lodd_step_def merge_meta_def make_dp_def check_consistency_def)

end
