(* ===== verification/Dispatch.thy ===== *)
theory Dispatch
  imports Data_Proto_Laws
begin

text \<open>
  Distributed calls: the dispatch and collect functions of \<open>verl/single_controller/base/decorator.py\<close>, the method
  that \<open>func_generator\<close> and \<open>execute_all_async\<close> of \<open>verl/single_controller/ray/base.py\<close> bind to a worker group, and
  \<open>DataProtoFuture\<close>. A remote method is a function of the worker's rank and its arguments; waiting for its results
  is evaluating it. Positional arguments come before keyword arguments, which are treated alike.
\<close>

section \<open>Workers and arguments\<close>

text \<open>The arguments of a remote call: a Python list, or any other object.\<close>

datatype 'a warg = Sharded (shards: "'a list") | Whole 'a

text \<open>\<open>execute_all_async\<close> and \<open>ray.get\<close>: if all arguments are lists with one element per worker, every worker gets
  its elements, otherwise every worker gets the arguments as they are.\<close>

definition shard_ok :: "nat \<Rightarrow> 'a warg \<Rightarrow> bool" where
  "shard_ok world a = (case a of Sharded xs \<Rightarrow> length xs = world | Whole _ \<Rightarrow> False)"

definition execute_all :: "nat \<Rightarrow> (nat \<Rightarrow> 'a warg list \<Rightarrow> 'b result) \<Rightarrow> 'a warg list \<Rightarrow> 'b list result" where
  "execute_all world run args =
     (if list_all (shard_ok world) args
      then map_r (\<lambda>i. run i (map (\<lambda>a. Whole (shards a ! i)) args)) [0..<world]
      else map_r (\<lambda>i. run i args) [0..<world])"

text \<open>A worker group: the cached placement of every mesh and the answers of its workers when they are asked. Each worker
  holds at most one data-parallel rank per mesh.\<close>

record worker_info =
  dispatch_dp_rank :: "string \<rightharpoonup> nat"
  collect_dp_rank :: "string \<rightharpoonup> bool"

definition register_dispatch_collect_info :: "string \<Rightarrow> nat \<Rightarrow> bool \<Rightarrow> worker_info \<Rightarrow> worker_info result" where
  "register_dispatch_collect_info mesh dp_rank is_collect w =
     (if dispatch_dp_rank w mesh \<noteq> None \<or> collect_dp_rank w mesh \<noteq> None
      then Inl (ValueError ''mesh_name has been registered'')
      else Inr (w\<lparr>dispatch_dp_rank := (dispatch_dp_rank w)(mesh \<mapsto> dp_rank),
                   collect_dp_rank := (collect_dp_rank w)(mesh \<mapsto> is_collect)\<rparr>))"

record worker_group =
  wg_workers :: "worker_info list"
  wg_dispatch_info :: "string \<rightharpoonup> nat list"
  wg_collect_info :: "string \<rightharpoonup> bool list"

definition wg_world_size :: "worker_group \<Rightarrow> nat" where
  "wg_world_size wg = length (wg_workers wg)"

definition query_dispatch_info :: "string \<Rightarrow> worker_info \<Rightarrow> nat result" where
  "query_dispatch_info mesh w =
     (case dispatch_dp_rank w mesh of None \<Rightarrow> Inl (AssertionError ''is not registered'') | Some r \<Rightarrow> Inr r)"

definition query_collect_info :: "string \<Rightarrow> worker_info \<Rightarrow> bool result" where
  "query_collect_info mesh w =
     (case collect_dp_rank w mesh of None \<Rightarrow> Inl (AssertionError ''is not registered'') | Some b \<Rightarrow> Inr b)"

section \<open>Dispatch to all workers\<close>

definition dispatch_one_to_all :: "nat \<Rightarrow> 'a list \<Rightarrow> 'a warg list" where
  "dispatch_one_to_all world args = map (\<lambda>a. Sharded (replicate world a)) args"

definition dispatch_dp_compute :: "nat \<Rightarrow> 'a warg list \<Rightarrow> 'a warg list result" where
  "dispatch_dp_compute world args =
     (if list_all (shard_ok world) args then Inr args else Inl (AssertionError ''len(arg) == worker_group.world_size''))"

definition collect_dp_compute :: "nat \<Rightarrow> 'b list \<Rightarrow> 'b list result" where
  "collect_dp_compute world outputs =
     (if length outputs = world then Inr outputs else Inl (AssertionError ''len(output) == worker_group.world_size''))"

section \<open>Splitting containers over the workers\<close>

definition split_args_data_proto :: "bool \<Rightarrow> nat \<Rightarrow> ('t, 'n, 'm) data_proto list \<Rightarrow> ('t, 'n, 'm) data_proto warg list result" where
  "split_args_data_proto config n_chunks args =
     bind_r (map_r (dp_chunk config n_chunks) args) (\<lambda>css.
       if list_all (\<lambda>cs. length cs = n_chunks) css then Inr (map Sharded css)
       else Inl (AssertionError ''len(chunked_arg) == chunks''))"

text \<open>\<open>_padding_and_split_data\<close>; the state is \<open>data_proto_len\<close> with \<open>padding_size\<close>, set by the first padded argument.\<close>

definition padding_and_split_data :: "bool \<Rightarrow> nat \<Rightarrow> ('t, 'n, 'm) data_proto
    \<Rightarrow> (nat \<times> nat) option \<times> ('t, 'n, 'm) data_proto warg list \<Rightarrow> ((nat \<times> nat) option \<times> ('t, 'n, 'm) data_proto warg list) result" where
  "padding_and_split_data config n_chunks obj = (\<lambda>(st, out).
     if is_padding_enabled config obj
     then bind_r (case st of
                    None \<Rightarrow> if n_chunks = 0 then Inl ZeroDivisionError
                      else Inr (dp_len obj, if dp_len obj mod n_chunks > 0 then n_chunks - dp_len obj mod n_chunks else 0)
                  | Some (data_proto_len, padding_size) \<Rightarrow>
                      if data_proto_len = dp_len obj then Inr (data_proto_len, padding_size)
                      else Inl (AssertionError ''expecting all arg share same length''))
            (\<lambda>(data_proto_len, padding_size).
          bind_r (dp_padding padding_size '''' obj) (\<lambda>obj'.
          bind_r (dp_chunk config n_chunks obj') (\<lambda>cs. Inr (Some (data_proto_len, padding_size), out @ [Sharded cs]))))
     else bind_r (dp_chunk config n_chunks obj) (\<lambda>cs. Inr (st, out @ [Sharded cs])))"

definition split_with_auto_padding :: "bool \<Rightarrow> nat \<Rightarrow> ('t, 'n, 'm) data_proto list
    \<Rightarrow> (nat \<times> ('t, 'n, 'm) data_proto warg list) result" where
  "split_with_auto_padding config n_chunks args =
     bind_r (fold_r (padding_and_split_data config n_chunks) args (None, []))
       (\<lambda>(st, out). Inr (case st of None \<Rightarrow> 0 | Some (_, padding_size) \<Rightarrow> padding_size, out))"

text \<open>\<open>padding\<close> works in place: after the call the caller's first argument is the padded container.\<close>

definition argument_after_call :: "bool \<Rightarrow> nat \<Rightarrow> ('t, 'n, 'm) data_proto \<Rightarrow> ('t, 'n, 'm) data_proto result" where
  "argument_after_call config n_chunks obj =
     (if is_padding_enabled config obj
      then if n_chunks = 0 then Inl ZeroDivisionError
        else dp_padding (if dp_len obj mod n_chunks > 0 then n_chunks - dp_len obj mod n_chunks else 0) '''' obj
      else Inr obj)"

text \<open>\<open>_concat_data_proto_or_future\<close> on containers, after \<open>is_concatable\<close>.\<close>

definition collect_dp_compute_data_proto :: "nat \<Rightarrow> ('t, 'n, 'm) data_proto list \<Rightarrow> ('t, 'n, 'm) data_proto result" where
  "collect_dp_compute_data_proto world outputs =
     (if outputs = [] then Inl (AssertionError ''expecting concatable output'')
      else bind_r (collect_dp_compute world outputs) dp_concat)"

section \<open>The bound method\<close>

text \<open>The last step of \<open>Functor.__call__\<close>: a container loses the padded rows, a list its last elements.\<close>

definition unpad_indices :: "nat \<Rightarrow> nat \<Rightarrow> int list" where
  "unpad_indices n padding_count = map int [0..<n - padding_count]"

definition unpad_output :: "nat \<Rightarrow> ('t, 'n, 'm) data_proto \<Rightarrow> ('t, 'n, 'm) data_proto result" where
  "unpad_output padding_count out =
     (if padding_count > 0 then select_idxs (IntIdxs (unpad_indices (dp_len out) padding_count)) out else Inr out)"

definition call_dp_compute_proto :: "bool \<Rightarrow> nat \<Rightarrow> (nat \<Rightarrow> ('t, 'n, 'm) data_proto warg list \<Rightarrow> ('u, 'k, 'm) data_proto result)
    \<Rightarrow> ('t, 'n, 'm) data_proto list \<Rightarrow> ('u, 'k, 'm) data_proto result" where
  "call_dp_compute_proto config world run args =
     bind_r (split_with_auto_padding config world args) (\<lambda>(padding_count, wargs).
     bind_r (execute_all world run wargs) (\<lambda>outputs.
     bind_r (collect_dp_compute_data_proto world outputs) (unpad_output padding_count)))"

text \<open>\<open>DP_COMPUTE_METRIC\<close>: the outputs are collected as a list, and the list is what is shortened.\<close>

definition call_dp_compute_metric :: "bool \<Rightarrow> nat \<Rightarrow> (nat \<Rightarrow> ('t, 'n, 'm) data_proto warg list \<Rightarrow> 'b result)
    \<Rightarrow> ('t, 'n, 'm) data_proto list \<Rightarrow> 'b list result" where
  "call_dp_compute_metric config world run args =
     bind_r (split_with_auto_padding config world args) (\<lambda>(padding_count, wargs).
     bind_r (execute_all world run wargs) (\<lambda>outputs.
     bind_r (collect_dp_compute world outputs) (\<lambda>out.
       Inr (if padding_count > 0 then take (length out - padding_count) out else out))))"

text \<open>A non-blocking call returns the futures of the outputs; \<open>get\<close> waits for them, concatenates, and selects a chunk
  when the future was itself chunked for a later call.\<close>

record ('t, 'n, 'm) data_proto_future =
  fut_outputs :: "('t, 'n, 'm) data_proto list"
  fut_dispatch :: "(nat \<times> nat) option"

definition call_nonblocking :: "bool \<Rightarrow> nat \<Rightarrow> (nat \<Rightarrow> ('t, 'n, 'm) data_proto warg list \<Rightarrow> ('u, 'k, 'm) data_proto result)
    \<Rightarrow> ('t, 'n, 'm) data_proto list \<Rightarrow> ('u, 'k, 'm) data_proto_future result" where
  "call_nonblocking config world run args =
     bind_r (split_with_auto_padding config world args) (\<lambda>(_, wargs).
     bind_r (execute_all world run wargs) (\<lambda>outputs.
       if outputs = [] then Inl (AssertionError ''expecting concatable output'')
       else bind_r (collect_dp_compute world outputs) (\<lambda>outs. Inr \<lparr>fut_outputs = outs, fut_dispatch = None\<rparr>)))"

definition future_chunk :: "nat \<Rightarrow> ('t, 'n, 'm) data_proto_future \<Rightarrow> ('t, 'n, 'm) data_proto_future list" where
  "future_chunk n_chunks f = map (\<lambda>i. f\<lparr>fut_dispatch := Some (i, n_chunks)\<rparr>) [0..<n_chunks]"

definition future_get :: "bool \<Rightarrow> ('t, 'n, 'm) data_proto_future \<Rightarrow> ('t, 'n, 'm) data_proto result" where
  "future_get config f =
     bind_r (dp_concat (fut_outputs f)) (\<lambda>out.
       case fut_dispatch f of
         None \<Rightarrow> Inr out
       | Some (i, n_chunks) \<Rightarrow> bind_r (dp_chunk config n_chunks out) (\<lambda>cs. if i < length cs then Inr (cs ! i) else Inl IndexError))"

section \<open>Dispatch over a device mesh\<close>

text \<open>\<open>dispatch_nd_compute\<close>: rank \<open>i\<close> gets the part of its data-parallel rank. The number of workers for the transfer is
  taken from the first positional argument, so there must be one.\<close>

definition dispatch_nd_compute :: "nat list \<Rightarrow> nat \<Rightarrow> nat \<Rightarrow> nat \<Rightarrow> 'a warg list \<Rightarrow> 'a warg list result" where
  "dispatch_nd_compute dp_rank_mapping dp_size world n_positional args =
     (if n_positional = 0 then Inl IndexError
      else if \<not> list_all (shard_ok dp_size) args then Inl (AssertionError ''len(arg) == dp_size'')
      else map_r (\<lambda>a. bind_r (map_r (\<lambda>i.
             if i < length dp_rank_mapping \<and> dp_rank_mapping ! i < length (shards a)
             then Inr (shards a ! (dp_rank_mapping ! i)) else Inl IndexError) [0..<world]) (\<lambda>xs. Inr (Sharded xs))) args)"

definition collect_nd_compute :: "bool list \<Rightarrow> nat \<Rightarrow> 'b list \<Rightarrow> 'b list result" where
  "collect_nd_compute collect_mask world outputs =
     (if length outputs \<noteq> world then Inl (AssertionError ''len(output) == worker_group.world_size'')
      else if length collect_mask < world then Inl IndexError
      else Inr (map ((!) outputs) (filter ((!) collect_mask) [0..<world])))"

text \<open>\<open>dispatch_lazy_compute_data_proto\<close> and its collection: the placement is asked for once and cached in the group.\<close>

definition lazy_info :: "(string \<rightharpoonup> 'v list) \<Rightarrow> string \<Rightarrow> (worker_info \<Rightarrow> 'v result) \<Rightarrow> worker_info list \<Rightarrow> 'v list result" where
  "lazy_info cache mesh query workers = (case cache mesh of Some info \<Rightarrow> Inr info | None \<Rightarrow> map_r query workers)"

definition call_nd_compute :: "bool \<Rightarrow> string \<Rightarrow> (nat \<Rightarrow> ('t, 'n, 'm) data_proto warg list \<Rightarrow> ('u, 'k, 'm) data_proto result)
    \<Rightarrow> nat \<Rightarrow> ('t, 'n, 'm) data_proto list \<Rightarrow> worker_group \<Rightarrow> (('u, 'k, 'm) data_proto \<times> worker_group) result" where
  "call_nd_compute config mesh run n_positional args wg =
     bind_r (lazy_info (wg_dispatch_info wg) mesh (query_dispatch_info mesh) (wg_workers wg)) (\<lambda>mapping.
       if mapping = [] then Inl (ValueError ''max() arg is an empty sequence'')
       else
         let dp_size = Max (set mapping) + 1; world = wg_world_size wg;
             wg' = wg\<lparr>wg_dispatch_info := (wg_dispatch_info wg)(mesh \<mapsto> mapping)\<rparr>
         in bind_r (split_args_data_proto config dp_size args) (\<lambda>parts.
            bind_r (dispatch_nd_compute mapping dp_size world n_positional parts) (\<lambda>wargs.
            bind_r (execute_all world run wargs) (\<lambda>outputs.
            bind_r (lazy_info (wg_collect_info wg') mesh (query_collect_info mesh) (wg_workers wg')) (\<lambda>cmask.
            bind_r (collect_nd_compute cmask world outputs) (\<lambda>outs.
              if outs = [] then Inl (AssertionError ''expecting concatable output'')
              else bind_r (dp_concat outs) (\<lambda>r. Inr (r, wg'\<lparr>wg_collect_info := (wg_collect_info wg')(mesh \<mapsto> cmask)\<rparr>))))))))"

section \<open>What callers rely on\<close>

text \<open>
  The contract of a container that can be split over workers and joined again, as \<open>BatchData\<close> demands it of every type
  it accepts: chunks of equal size that append to the rows of the whole, and a concatenation of parts with the same
  signature that appends their rows.
\<close>

locale chunkable =
  fixes rows :: "'d \<Rightarrow> 'r list" and signature :: "'d \<Rightarrow> 's" and ok :: "'d \<Rightarrow> bool"
    and chunk :: "nat \<Rightarrow> 'd \<Rightarrow> 'd list result"
  assumes chunk_law: "ok d \<Longrightarrow> 0 < c \<Longrightarrow> 0 < length (rows d) \<Longrightarrow> c dvd length (rows d) \<Longrightarrow>
     \<exists>ds. chunk c d = Inr ds \<and> length ds = c \<and> concat (map rows ds) = rows d
       \<and> (\<forall>e \<in> set ds. ok e \<and> signature e = signature d \<and> length (rows e) = length (rows d) div c)"

locale concatable =
  fixes rows :: "'d \<Rightarrow> 'r list" and signature :: "'d \<Rightarrow> 's" and ok :: "'d \<Rightarrow> bool"
    and joinable :: "'s \<Rightarrow> bool" and join :: "'d list \<Rightarrow> 'd result"
  assumes join_law: "ds \<noteq> [] \<Longrightarrow> joinable s \<Longrightarrow> \<forall>e \<in> set ds. ok e \<and> signature e = s \<Longrightarrow>
     \<exists>r. join ds = Inr r \<and> ok r \<and> signature r = s \<and> rows r = concat (map rows ds)"

text \<open>A computation that is row-wise on every part is row-wise on the whole.\<close>

locale map_reduce =
  inp: chunkable rows signature ok chunk + out: concatable rows' signature' ok' joinable join
  for rows :: "'d \<Rightarrow> 'r list" and signature :: "'d \<Rightarrow> 's" and ok and chunk
    and rows' :: "'e \<Rightarrow> 'q list" and signature' :: "'e \<Rightarrow> 'p" and ok' and joinable and join
begin

lemma parts_compute_whole:
  assumes d: "ok d" "0 < c" "0 < length (rows d)" "c dvd length (rows d)" and s: "joinable s"
    and F: "\<And>i e. i < c \<Longrightarrow> ok e \<Longrightarrow> signature e = signature d
        \<Longrightarrow> \<exists>r. F i e = Inr r \<and> ok' r \<and> signature' r = s \<and> rows' r = map f (rows e)"
  shows "\<exists>ds outs r. chunk c d = Inr ds \<and> length ds = c \<and> map_r (\<lambda>i. F i (ds ! i)) [0..<c] = Inr outs
     \<and> join outs = Inr r \<and> ok' r \<and> signature' r = s \<and> rows' r = map f (rows d)"
proof -
  obtain ds where ds: "chunk c d = Inr ds" "length ds = c" "concat (map rows ds) = rows d"
      "\<forall>e \<in> set ds. ok e \<and> signature e = signature d" using inp.chunk_law [OF d] by blast
  have "\<exists>r. F i (ds ! i) = Inr r \<and> ok' r \<and> signature' r = s \<and> rows' r = map f (rows (ds ! i))" if "i < c" for i
    using F [OF that, of "ds ! i"] ds(2,4) that by auto
  then obtain G where G: "F i (ds ! i) = Inr (G i) \<and> ok' (G i) \<and> signature' (G i) = s \<and> rows' (G i) = map f (rows (ds ! i))"
    if "i < c" for i by metis
  have outs: "map_r (\<lambda>i. F i (ds ! i)) [0..<c] = Inr (map G [0..<c])" by (rule map_r_Inr) (use G in auto)
  obtain r where r: "join (map G [0..<c]) = Inr r" "ok' r" "signature' r = s" "rows' r = concat (map rows' (map G [0..<c]))"
    using out.join_law [of "map G [0..<c]" s] s G d(2) by auto
  have "concat (map rows' (map G [0..<c])) = concat (map (\<lambda>i. map f (rows (ds ! i))) [0..<c])"
    using G by (auto intro!: arg_cong [of _ _ concat])
  also have "\<dots> = map f (concat (map rows (map ((!) ds) [0..<c])))" by (simp add: map_concat comp_def)
  also have "map ((!) ds) [0..<c] = ds" using ds(2) map_nth [of ds] by simp
  finally show ?thesis using ds outs r by auto
qed

end

definition no_metrics :: "string list option \<times> string list \<times> (string \<times> 'm py_obj) list \<Rightarrow> bool" where
  "no_metrics s \<longleftrightarrow> metrics_key \<notin> set (map fst (snd (snd s)))"

lemma dp_chunk_law:
  assumes "dp_ok d" "0 < c" "0 < length (dp_rows d)" "c dvd length (dp_rows d)"
  shows "\<exists>ds. dp_chunk config c d = Inr ds \<and> length ds = c \<and> concat (map dp_rows ds) = dp_rows d
       \<and> (\<forall>e \<in> set ds. dp_ok e \<and> dp_sig e = dp_sig d \<and> length (dp_rows e) = length (dp_rows d) div c)"
proof -
  obtain q where q: "dp_len d = c * q" using assms(4) by auto
  then have pos: "0 < q" using assms(3) by (cases q) auto
  have b: "\<forall>j \<in> set [i * q..<i * q + q]. j < dp_len d" if "i < c" for i
  proof -
    have "(i + 1) * q \<le> c * q" using that by (intro mult_right_mono) auto
    then show ?thesis using q by auto
  qed
  let ?ds = "map (\<lambda>i. dp_take [i * q..<i * q + q] d) [0..<c]"
  have "concat (map dp_rows ?ds) = concat (map (\<lambda>i. map ((!) (dp_rows d)) [i * q..<i * q + q]) [0..<c])"
    using dp_rows_take [OF assms(1) b] by (auto intro!: arg_cong [of _ _ concat])
  also have "\<dots> = map ((!) (dp_rows d)) (concat (map (\<lambda>i. [i * q..<i * q + q]) [0..<c]))" by (simp only: map_concat map_map comp_def)
  also have "\<dots> = dp_rows d" unfolding concat_upts using q using map_nth [of "dp_rows d"] by simp
  finally have "concat (map dp_rows ?ds) = dp_rows d" .
  moreover have "\<forall>e \<in> set ?ds. dp_ok e \<and> dp_sig e = dp_sig d \<and> length (dp_rows e) = length (dp_rows d) div c"
    using b assms(1,2) q by (auto simp: dp_len_take [OF assms(1)] intro!: dp_take_ok)
  ultimately show ?thesis using dp_chunk_run [OF assms(1,2) q pos, of config] by (intro exI [of _ ?ds]) simp
qed

interpretation dp_input: chunkable dp_rows dp_sig dp_ok "dp_chunk config" for config
  by unfold_locales (rule dp_chunk_law)

interpretation dp_output: concatable dp_rows dp_sig dp_ok no_metrics dp_concat
  by unfold_locales (rule dp_concat_run, auto simp: no_metrics_def)

interpretation dp_map_reduce: map_reduce dp_rows dp_sig dp_ok "dp_chunk config" dp_rows dp_sig dp_ok no_metrics dp_concat for config ..

section \<open>Calls over the data-parallel workers\<close>

lemma dp_padding_run:
  assumes "dp_ok d" "0 < dp_len d" "no_metrics (dp_sig d)"
  shows "dp_padding p '''' d = Inr (dp_take ([0..<dp_len d] @ replicate p (dp_len d - 1)) d)"
proof (cases "p = 0")
  case True
  then show ?thesis by (simp add: dp_padding_def dp_take_all [OF assms(1)])
next
  case False
  define k where "k = dp_len d - 1"
  have last: "map_r (\<lambda>i. py_index i (dp_len d)) [int (dp_len d) - 1] = Inr [k]"
    using assms(2) by (simp add: py_index_def nat_diff_distrib k_def)
  have cand: "select_idxs (IntIdxs [int (dp_len d) - 1]) d = Inr (dp_take [k] d)" by (rule select_int_idxs(1) [OF assms(1) last])
  have b: "\<forall>i \<in> set [k]. i < dp_len d" using assms(2) by (simp add: k_def)
  have len1: "dp_len (dp_take [k] d) = 1" unfolding dp_len_take [OF assms(1) b] by simp
  have idx: "repeat_idx p True 1 = replicate p 0" by (simp add: repeat_idx_def interleave_rows_def)
  have "dp_repeat p True (dp_take [k] d) = Inr (dp_take (replicate p 0) (dp_take [k] d))"
    using dp_repeat_run [OF dp_take_ok [OF assms(1) b], of p True] by (simp only: len1 idx)
  also have "dp_take (replicate p 0) (dp_take [k] d) = dp_take (replicate p k) d"
    by (subst dp_take_take [OF assms(1) b]) (simp_all add: map_replicate)
  finally have part: "dp_repeat p True (dp_take [k] d) = Inr (dp_take (replicate p k) d)" .
  have "dp_concat [d, dp_take (replicate p k) d] = dp_concat (map (\<lambda>idx. dp_take idx d) [[0..<dp_len d], replicate p k])"
    by (simp add: dp_take_all [OF assms(1)])
  also have "\<dots> = Inr (dp_take (concat [[0..<dp_len d], replicate p k]) d)"
    by (rule dp_concat_takes) (use assms b in \<open>auto simp: no_metrics_def dp_sig_def\<close>)
  finally have cat: "dp_concat [d, dp_take (replicate p k) d] = Inr (dp_take ([0..<dp_len d] @ replicate p k) d)" by simp
  have same: "d\<lparr>dp_batch := dp_batch (dp_take idx d), dp_non_tensor := dp_non_tensor (dp_take idx d)\<rparr> = dp_take idx d" for idx
    by (simp add: dp_take_def)
  show ?thesis using False unfolding k_def [symmetric] by (simp add: dp_padding_def cand part cat same)
qed

lemma padding_enabled_sig: "dp_sig d = dp_sig e \<Longrightarrow> is_padding_enabled config d = is_padding_enabled config e"
  by (simp add: is_padding_enabled_def dp_sig_def)

lemma execute_shards:
  assumes "length ds = world"
  shows "execute_all world run [Sharded ds] = map_r (\<lambda>i. run i [Whole (ds ! i)]) [0..<world]"
  using assms by (simp add: execute_all_def shard_ok_def)

text \<open>What the workers receive: the rows of the container, followed by copies of the last one when it is padded.\<close>

definition padding_count :: "bool \<Rightarrow> nat \<Rightarrow> ('t, 'n, 'm) data_proto \<Rightarrow> nat" where
  "padding_count config world d = (if is_padding_enabled config d then pad_amount (dp_len d) world else 0)"

lemma split_one:
  assumes "dp_ok d" "0 < dp_len d" "0 < world" "no_metrics (dp_sig d)" "is_padding_enabled config d \<or> world dvd dp_len d"
  shows "\<exists>e. dp_ok e \<and> dp_sig e = dp_sig d \<and> dp_rows e = dp_rows d @ replicate (padding_count config world d) (last (dp_rows d))
     \<and> world dvd dp_len e \<and> split_with_auto_padding config world [d]
         = bind_r (dp_chunk config world e) (\<lambda>cs. Inr (padding_count config world d, [Sharded cs]))"
proof (cases "is_padding_enabled config d")
  case False
  then show ?thesis using assms
    by (intro exI [of _ d]) (auto simp: padding_count_def split_with_auto_padding_def padding_and_split_data_def bind_r_def split: sum.splits)
next
  case True
  define k where "k = dp_len d - 1"
  have k: "k < dp_len d" using assms(2) by (simp add: k_def)
  let ?p = "pad_amount (dp_len d) world" let ?idx = "[0..<dp_len d] @ replicate ?p k"
  let ?e = "dp_take ?idx d"
  have b: "\<forall>i \<in> set ?idx. i < dp_len d" using k by auto
  have "last (dp_rows d) = dp_rows d ! k" using assms(2) by (simp add: k_def last_conv_nth flip: length_greater_0_conv)
  then have rows: "dp_rows ?e = dp_rows d @ replicate ?p (last (dp_rows d))"
    unfolding dp_rows_take [OF assms(1) b] using map_nth [of "dp_rows d"] by simp
  have size: "(if dp_len d mod world > 0 then world - dp_len d mod world else 0) = ?p" by (simp add: pad_amount_def)
  have dv: "world dvd dp_len ?e" using pad_amount_dvd [OF assms(3), of "dp_len d"] unfolding dp_len_take [OF assms(1) b] by simp
  have pad: "dp_padding ?p '''' d = Inr ?e" unfolding k_def by (rule dp_padding_run [OF assms(1,2,4)])
  have "padding_and_split_data config world d (None, []) = bind_r (dp_chunk config world ?e) (\<lambda>cs. Inr (Some (dp_len d, ?p), [Sharded cs]))"
  proof -
    have w: "(world = 0) = False" using assms(3) by simp
    show ?thesis using True unfolding padding_and_split_data_def prod.case option.case size w
      by (simp only: if_True if_False bind_r_Inr prod.case pad append_Nil)
  qed
  then have "split_with_auto_padding config world [d] = bind_r (dp_chunk config world ?e) (\<lambda>cs. Inr (?p, [Sharded cs]))"
    unfolding split_with_auto_padding_def by (cases "dp_chunk config world ?e") simp_all
  then show ?thesis using rows dv dp_take_ok [OF assms(1) b] True by (intro exI [of _ ?e]) (simp add: padding_count_def)
qed

lemma call_leaves_argument_padded:
  assumes "dp_ok d" "0 < dp_len d" "0 < world" "no_metrics (dp_sig d)" "is_padding_enabled config d" "\<not> world dvd dp_len d"
  shows "\<exists>e. argument_after_call config world d = Inr e \<and> dp_len e = dp_len d + pad_amount (dp_len d) world \<and> dp_len d < dp_len e"
proof -
  let ?p = "pad_amount (dp_len d) world" let ?idx = "[0..<dp_len d] @ replicate ?p (dp_len d - 1)"
  have b: "\<forall>i \<in> set ?idx. i < dp_len d" using assms(2) by auto
  have "0 < ?p" using assms(3,6) by (simp add: pad_amount_def dvd_eq_mod_eq_0)
  moreover have "dp_len (dp_take ?idx d) = dp_len d + ?p" unfolding dp_len_take [OF assms(1) b] by simp
  moreover have "argument_after_call config world d = dp_padding ?p '''' d"
    using assms(3,5) by (simp add: argument_after_call_def pad_amount_def)
  ultimately show ?thesis unfolding dp_padding_run [OF assms(1,2,4)] by auto
qed

lemma unpad_rows:
  assumes "dp_ok r" "dp_rows r = xs @ ys"
  shows "\<exists>u. unpad_output (length ys) r = Inr u \<and> dp_ok u \<and> dp_sig u = dp_sig r \<and> dp_rows u = xs"
proof (cases "ys = []")
  case True
  then show ?thesis using assms by (simp add: unpad_output_def)
next
  case False
  have len: "dp_len r = length xs + length ys" using arg_cong [OF assms(2), of length] by simp
  have js: "map_r (\<lambda>i. py_index i (dp_len r)) (map int [0..<length xs]) = Inr (map nat (map int [0..<length xs]))"
    by (rule map_r_Inr) (auto simp: len)
  have idx: "map nat (map int [0..<length xs]) = [0..<length xs]" by (simp add: comp_def)
  have b: "\<forall>i \<in> set [0..<length xs]. i < dp_len r" using len by simp
  have "map ((!) (xs @ ys)) [0..<length xs] = xs" by (rule nth_equalityI) (simp_all add: nth_append)
  then show ?thesis using False select_int_idxs(1) [OF assms(1) js] dp_rows_take [OF assms(1) b] dp_take_ok [OF assms(1) b] assms(2)
    by (simp add: unpad_output_def unpad_indices_def len idx comp_def)
qed

text \<open>A worker method that computes each row of its output from the same row of its input.\<close>

definition rowwise :: "nat \<Rightarrow> (nat \<Rightarrow> ('t, 'n, 'm) data_proto warg list \<Rightarrow> ('u, 'k, 'm) data_proto result)
    \<Rightarrow> (string list option \<times> string list \<times> (string \<times> 'm py_obj) list) \<Rightarrow> (string list option \<times> string list \<times> (string \<times> 'm py_obj) list)
    \<Rightarrow> _ \<Rightarrow> bool" where
  "rowwise world run s_in s_out f \<longleftrightarrow> (\<forall>i < world. \<forall>e. dp_ok e \<longrightarrow> dp_sig e = s_in \<longrightarrow>
     (\<exists>r. run i [Whole e] = Inr r \<and> dp_ok r \<and> dp_sig r = s_out \<and> dp_rows r = map f (dp_rows e)))"

text \<open>
  [C26] A distributed call is the call on one machine: if the worker method is row-wise, then dispatching a container over
  any number of workers, with automatic padding where the length is not a multiple of that number, executing,
  concatenating the outputs and removing the padding gives exactly the method applied to every row, in order. Without
  padding the length must be a multiple.
\<close>

theorem dp_compute_proto_rowwise:
  assumes "dp_ok d" "0 < dp_len d" "0 < world" "no_metrics (dp_sig d)" "no_metrics s"
    and "is_padding_enabled config d \<or> world dvd dp_len d" "rowwise world run (dp_sig d) s f"
  shows "\<exists>r. call_dp_compute_proto config world run [d] = Inr r \<and> dp_ok r \<and> dp_sig r = s \<and> dp_rows r = map f (dp_rows d)"
proof -
  let ?p = "padding_count config world d"
  obtain e where e: "dp_ok e" "dp_sig e = dp_sig d" "dp_rows e = dp_rows d @ replicate ?p (last (dp_rows d))" "world dvd dp_len e"
      "split_with_auto_padding config world [d] = bind_r (dp_chunk config world e) (\<lambda>cs. Inr (?p, [Sharded cs]))"
    using split_one [OF assms(1-4,6)] by blast
  have pos: "0 < length (dp_rows e)" using e(3) assms(2) by simp
  have dv: "world dvd length (dp_rows e)" using e(4) by simp
  have run: "\<exists>r. run i [Whole x] = Inr r \<and> dp_ok r \<and> dp_sig r = s \<and> dp_rows r = map f (dp_rows x)"
    if "i < world" "dp_ok x" "dp_sig x = dp_sig e" for i x using assms(7) that e(2) by (simp add: rowwise_def)
  obtain ds outs r where r: "dp_chunk config world e = Inr ds" "length ds = world" "map_r (\<lambda>i. run i [Whole (ds ! i)]) [0..<world] = Inr outs"
      "dp_concat outs = Inr r" "dp_ok r" "dp_sig r = s" "dp_rows r = map f (dp_rows e)"
    using dp_map_reduce.parts_compute_whole [where F = "\<lambda>i x. run i [Whole x]" and config = config, OF e(1) assms(3) pos dv assms(5) run] by blast
  have "length outs = world" "outs \<noteq> []" using map_r_length [OF r(3)] assms(3) by auto
  then have "call_dp_compute_proto config world run [d] = unpad_output ?p r"
    using r by (simp add: call_dp_compute_proto_def e(5) execute_shards collect_dp_compute_data_proto_def collect_dp_compute_def)
  moreover have "dp_rows r = map f (dp_rows d) @ map f (replicate ?p (last (dp_rows d)))" using r(7) e(3) by simp
  ultimately show ?thesis using unpad_rows [OF r(5), of "map f (dp_rows d)" "map f (replicate ?p (last (dp_rows d)))"] r(6) by simp
qed

text \<open>
  The calls that do not take the padding away correctly. In the metric mode every worker reports one value, but the list
  of the workers' values is cut by the number of padded rows; a non-blocking call never removes the padding.
\<close>

lemma split_one_chunks:
  assumes "dp_ok d" "0 < dp_len d" "0 < world" "no_metrics (dp_sig d)" "is_padding_enabled config d"
  shows "\<exists>ds. length ds = world \<and> split_with_auto_padding config world [d] = Inr (pad_amount (dp_len d) world, [Sharded ds])"
proof -
  obtain e where e: "dp_ok e" "dp_rows e = dp_rows d @ replicate (padding_count config world d) (last (dp_rows d))" "world dvd dp_len e"
      "split_with_auto_padding config world [d] = bind_r (dp_chunk config world e) (\<lambda>cs. Inr (padding_count config world d, [Sharded cs]))"
    using split_one [of d world config] assms by auto
  have "0 < length (dp_rows e)" using e(2) assms(2) by simp
  from dp_input.chunk_law [OF e(1) assms(3) this, of config] e(3)
  obtain ds where "dp_chunk config world e = Inr ds" "length ds = world" by auto
  then show ?thesis using e(4) assms(5) by (simp add: padding_count_def)
qed

theorem metric_mode_drops_workers:
  assumes "dp_ok d" "0 < dp_len d" "0 < world" "no_metrics (dp_sig d)" "is_padding_enabled config d"
    and "\<And>i args. \<exists>v. run i args = Inr v"
  shows "\<exists>out. call_dp_compute_metric config world run [d] = Inr out \<and> length out = world - pad_amount (dp_len d) world"
proof -
  obtain ds where ds: "length ds = world" "split_with_auto_padding config world [d] = Inr (pad_amount (dp_len d) world, [Sharded ds])"
    using split_one_chunks [OF assms(1-5)] by blast
  obtain g where "run i args = Inr (g i args)" for i args using assms(6) by metis
  then have "map_r (\<lambda>i. run i [Whole (ds ! i)]) [0..<world] = Inr (map (\<lambda>i. g i [Whole (ds ! i)]) [0..<world])" by (intro map_r_Inr) simp
  then show ?thesis by (simp add: call_dp_compute_metric_def ds execute_shards collect_dp_compute_def)
qed

theorem nonblocking_keeps_padding:
  assumes "dp_ok d" "0 < dp_len d" "0 < world" "no_metrics (dp_sig d)" "no_metrics s"
    and "is_padding_enabled config d" "rowwise world run (dp_sig d) s f"
  shows "\<exists>fut r. call_nonblocking config world run [d] = Inr fut \<and> future_get config fut = Inr r
    \<and> dp_rows r = map f (dp_rows d) @ replicate (pad_amount (dp_len d) world) (f (last (dp_rows d)))"
proof -
  let ?p = "padding_count config world d"
  obtain e where e: "dp_ok e" "dp_sig e = dp_sig d" "dp_rows e = dp_rows d @ replicate ?p (last (dp_rows d))" "world dvd dp_len e"
      "split_with_auto_padding config world [d] = bind_r (dp_chunk config world e) (\<lambda>cs. Inr (?p, [Sharded cs]))"
    using split_one [of d world config] assms(1-4,6) by blast
  have pos: "0 < length (dp_rows e)" using e(3) assms(2) by simp
  have dv: "world dvd length (dp_rows e)" using e(4) by simp
  have run: "\<exists>r. run i [Whole x] = Inr r \<and> dp_ok r \<and> dp_sig r = s \<and> dp_rows r = map f (dp_rows x)"
    if "i < world" "dp_ok x" "dp_sig x = dp_sig e" for i x using assms(7) that e(2) by (simp add: rowwise_def)
  obtain ds outs r where r: "dp_chunk config world e = Inr ds" "length ds = world" "map_r (\<lambda>i. run i [Whole (ds ! i)]) [0..<world] = Inr outs"
      "dp_concat outs = Inr r" "dp_rows r = map f (dp_rows e)"
    using dp_map_reduce.parts_compute_whole [where F = "\<lambda>i x. run i [Whole x]" and config = config, OF e(1) assms(3) pos dv assms(5) run] by blast
  have "length outs = world" "outs \<noteq> []" using map_r_length [OF r(3)] assms(3) by auto
  then show ?thesis using r e(3,5) assms(6)
    by (intro exI [of _ "\<lparr>fut_outputs = outs, fut_dispatch = None\<rparr>"] exI [of _ r])
       (simp add: call_nonblocking_def execute_shards collect_dp_compute_def future_get_def padding_count_def)
qed

section \<open>Calls over a device mesh\<close>

text \<open>Every data-parallel rank is collected from exactly one worker, in the order of the ranks.\<close>

definition placement_ok :: "nat list \<Rightarrow> bool list \<Rightarrow> bool" where
  "placement_ok mapping cmask \<longleftrightarrow> mapping \<noteq> [] \<and> length cmask = length mapping
     \<and> map ((!) mapping) (filter ((!) cmask) [0..<length mapping]) = [0..<Max (set mapping) + 1]"

text \<open>
  A call over a device mesh, where several workers (tensor- or pipeline-parallel ranks) share a data-parallel rank, is
  also the call on one machine: each worker gets the part of its data-parallel rank, the outputs are taken from one
  worker per rank, and the result is the method applied to every row in order. The placement is cached in the group.
\<close>

theorem nd_compute_rowwise:
  assumes "dp_ok d" "0 < dp_len d" "no_metrics s" "placement_ok mapping cmask"
    and "map_r (query_dispatch_info mesh) (wg_workers wg) = Inr mapping" "map_r (query_collect_info mesh) (wg_workers wg) = Inr cmask"
    and "wg_dispatch_info wg mesh \<in> {None, Some mapping}" "wg_collect_info wg mesh \<in> {None, Some cmask}"
    and "Max (set mapping) + 1 dvd dp_len d" "rowwise (wg_world_size wg) run (dp_sig d) s f"
  shows "\<exists>r wg'. call_nd_compute config mesh run 1 [d] wg = Inr (r, wg') \<and> dp_ok r \<and> dp_sig r = s \<and> dp_rows r = map f (dp_rows d)
    \<and> wg_dispatch_info wg' mesh = Some mapping \<and> wg_collect_info wg' mesh = Some cmask"
proof -
  let ?n = "Max (set mapping) + 1" let ?world = "wg_world_size wg"
  have lens: "length mapping = ?world" "length cmask = ?world" "mapping \<noteq> []"
    using map_r_length [OF assms(5)] assms(4) by (simp_all add: wg_world_size_def placement_ok_def)
  have bound: "mapping ! i < ?n" if "i < ?world" for i
  proof -
    have "mapping ! i \<in> set mapping" using that lens(1) by simp
    then have "mapping ! i \<le> Max (set mapping)" by (intro Max_ge) auto
    then show ?thesis by simp
  qed
  let ?coll = "filter ((!) cmask) [0..<?world]"
  have coll: "map ((!) mapping) ?coll = [0..<?n]" using assms(4) lens by (simp add: placement_ok_def)
  then have lc: "length ?coll = ?n" by (metis length_map length_upt minus_nat.diff_0)
  have rank: "?coll ! k < ?world \<and> mapping ! (?coll ! k) = k" if "k < ?n" for k
  proof
    have "?coll ! k \<in> set ?coll" using that lc by (intro nth_mem) simp
    then show "?coll ! k < ?world" by simp
    show "mapping ! (?coll ! k) = k" using arg_cong [OF coll, of "\<lambda>xs. xs ! k"] that lc by (simp del: upt_Suc)
  qed
  have run: "\<exists>r. run (?coll ! k) [Whole x] = Inr r \<and> dp_ok r \<and> dp_sig r = s \<and> dp_rows r = map f (dp_rows x)"
    if "k < ?n" "dp_ok x" "dp_sig x = dp_sig d" for k x using assms(10) that rank by (simp add: rowwise_def)
  have n: "0 < ?n" by simp
  have pos: "0 < length (dp_rows d)" and dv: "?n dvd length (dp_rows d)" using assms(2,9) by simp_all
  obtain ds outs r where r: "dp_chunk config ?n d = Inr ds" "length ds = ?n"
      "map_r (\<lambda>k. run (?coll ! k) [Whole (ds ! k)]) [0..<?n] = Inr outs" "dp_concat outs = Inr r"
      "dp_ok r" "dp_sig r = s" "dp_rows r = map f (dp_rows d)"
    using dp_map_reduce.parts_compute_whole [where F = "\<lambda>k x. run (?coll ! k) [Whole x]" and config = config, OF assms(1) n pos dv assms(3) run]
    by blast
  have dsok: "dp_ok (ds ! k) \<and> dp_sig (ds ! k) = dp_sig d" if "k < ?n" for k
    using dp_input.chunk_law [OF assms(1), of ?n config] assms(2,9) r(1,2) that by auto
  let ?xs = "map (\<lambda>i. ds ! (mapping ! i)) [0..<?world]"
  have disp: "dispatch_nd_compute mapping ?n ?world 1 [Sharded ds] = Inr [Sharded ?xs]"
    using r(2) bound lens(1) by (auto simp: dispatch_nd_compute_def shard_ok_def intro!: map_r_Inr)
  have "\<exists>v. run i [Whole (?xs ! i)] = Inr v" if "i < ?world" for i
    using assms(10) dsok bound that by (force simp: rowwise_def)
  then obtain g where g: "run i [Whole (?xs ! i)] = Inr (g i)" if "i < ?world" for i by metis
  have exec: "execute_all ?world run [Sharded ?xs] = Inr (map g [0..<?world])"
    unfolding execute_shards [of ?xs ?world, simplified] by (rule map_r_Inr) (use g in simp)
  have "outs ! k = g (?coll ! k)" if "k < ?n" for k
    using map_r_nth [OF r(3), of k] g [of "?coll ! k"] rank [OF that] that by (simp del: upt_Suc)
  moreover have "length outs = ?n" using map_r_length [OF r(3)] by simp
  ultimately have outs: "outs = map g ?coll" using lc by (intro nth_equalityI) simp_all
  have coll_run: "collect_nd_compute cmask ?world (map g [0..<?world]) = Inr outs"
    unfolding outs collect_nd_compute_def using lens(2) by (auto intro!: map_cong)
  have ne: "outs \<noteq> []" using \<open>length outs = ?n\<close> by auto
  let ?wg = "wg\<lparr>wg_dispatch_info := (wg_dispatch_info wg)(mesh \<mapsto> mapping)\<rparr>"
  have info: "lazy_info (wg_dispatch_info wg) mesh (query_dispatch_info mesh) (wg_workers wg) = Inr mapping"
    "lazy_info (wg_collect_info ?wg) mesh (query_collect_info mesh) (wg_workers ?wg) = Inr cmask"
    using assms(5-8) by (auto simp: lazy_info_def)
  have split: "split_args_data_proto config ?n [d] = Inr [Sharded ds]" using r(1,2) by (simp add: split_args_data_proto_def)
  have "call_nd_compute config mesh run 1 [d] wg = Inr (r, ?wg\<lparr>wg_collect_info := (wg_collect_info ?wg)(mesh \<mapsto> cmask)\<rparr>)"
    unfolding call_nd_compute_def info(1) bind_r_Inr Let_def split disp exec info(2) coll_run
    using lens(3) ne r(4) by simp
  then show ?thesis using r(5-7) by simp
qed

section \<open>Concrete calls\<close>

definition ex_run :: "nat \<Rightarrow> (nat, nat, nat) data_proto warg list \<Rightarrow> (nat, nat, nat) data_proto result" where
  "ex_run i args = (case args of [Whole e] \<Rightarrow> Inr e | _ \<Rightarrow> Inl TypeError)"

lemma ex_run_rowwise: "rowwise world ex_run s s id"
  by (simp add: rowwise_def ex_run_def)

lemma ex_no_metrics: "no_metrics (dp_sig ex_dp)"
  using ex_dp_ok(3) by (simp add: no_metrics_def dp_sig_def)

theorem dp_compute_proto_rowwise_witness:
  "\<exists>r. call_dp_compute_proto True 2 ex_run [ex_dp] = Inr r \<and> dp_rows r = dp_rows ex_dp"
  using dp_compute_proto_rowwise [OF ex_dp_ok(1) _ _ ex_no_metrics ex_no_metrics _ ex_run_rowwise, of 2 True]
  by (auto simp: ex_dp_ok(2) is_padding_enabled_def)

theorem metric_mode_drops_workers_witness:
  "\<exists>out. call_dp_compute_metric True 2 (\<lambda>i args. Inr i :: nat result) [ex_dp] = Inr out \<and> length out = 1"
  using metric_mode_drops_workers [OF ex_dp_ok(1) _ _ ex_no_metrics, of 2 True "\<lambda>i args. Inr i :: nat result"]
  by (simp add: ex_dp_ok(2) is_padding_enabled_def pad_amount_def)

theorem nonblocking_keeps_padding_witness:
  "\<exists>fut r. call_nonblocking True 2 ex_run [ex_dp] = Inr fut \<and> future_get True fut = Inr r \<and> length (dp_rows r) = 4"
proof -
  obtain fut r where "call_nonblocking True 2 ex_run [ex_dp] = Inr fut" "future_get True fut = Inr r"
      "dp_rows r = map id (dp_rows ex_dp) @ replicate (pad_amount (dp_len ex_dp) 2) (id (last (dp_rows ex_dp)))"
    using nonblocking_keeps_padding [OF ex_dp_ok(1) _ _ ex_no_metrics ex_no_metrics _ ex_run_rowwise, of 2 True]
    by (auto simp: ex_dp_ok(2) is_padding_enabled_def)
  moreover have "pad_amount (dp_len ex_dp) 2 = 1" by (simp add: ex_dp_ok(2) pad_amount_def)
  moreover have "length (dp_rows ex_dp) = 3" by (simp add: ex_dp_ok(2))
  ultimately have "length (dp_rows r) = 4" by (simp del: length_dp_rows)
  with \<open>call_nonblocking True 2 ex_run [ex_dp] = Inr fut\<close> \<open>future_get True fut = Inr r\<close> show ?thesis by blast
qed

definition ex_worker :: "nat \<Rightarrow> bool \<Rightarrow> worker_info" where
  "ex_worker r c = \<lparr>dispatch_dp_rank = [''actor'' \<mapsto> r], collect_dp_rank = [''actor'' \<mapsto> c]\<rparr>"

definition ex_group :: worker_group where
  "ex_group = \<lparr>wg_workers = [ex_worker 0 True, ex_worker 0 False, ex_worker 1 True, ex_worker 2 True],
     wg_dispatch_info = Map.empty, wg_collect_info = Map.empty\<rparr>"

theorem nd_compute_rowwise_witness:
  "\<exists>r wg'. call_nd_compute False ''actor'' ex_run 1 [ex_dp] ex_group = Inr (r, wg') \<and> dp_rows r = dp_rows ex_dp
     \<and> wg_dispatch_info wg' ''actor'' = Some [0, 0, 1, 2]"
proof -
  have q: "map_r (query_dispatch_info ''actor'') (wg_workers ex_group) = Inr [0, 0, 1, 2]"
    "map_r (query_collect_info ''actor'') (wg_workers ex_group) = Inr [True, False, True, True]"
    by (simp_all add: ex_group_def ex_worker_def query_dispatch_info_def query_collect_info_def)
  have p: "placement_ok [0, 0, 1, 2] [True, False, True, True]" by (simp add: placement_ok_def upt_rec)
  have "Max (set [0, 0, 1, 2 :: nat]) + 1 = dp_len ex_dp" by (simp add: ex_dp_ok(2))
  then have "Max (set [0, 0, 1, 2 :: nat]) + 1 dvd dp_len ex_dp" by (simp only: dvd_refl)
  then show ?thesis
    using nd_compute_rowwise [OF ex_dp_ok(1) _ ex_no_metrics p q _ _ _ ex_run_rowwise, of False]
    by (simp add: ex_dp_ok(2) del: set_simps One_nat_def) (auto simp: ex_group_def)
qed

end
