(* ===== verification/Trainer_Balance.thy ===== *)
theory Trainer_Balance
  imports Dispatch Micro_Batches
begin

text \<open>
  \<open>_balance_batch\<close> of \<open>verl/trainer/ppo/ray_trainer.py\<close>: the rows of the training batch are reordered so that the equal
  chunks which the dispatch functions send to the data-parallel ranks carry similar work. The metrics it logs are those
  of \<open>log_seqlen_unbalance\<close> in \<open>Micro_Batches\<close>.
\<close>

section \<open>The reordering\<close>

record balance_config =
  bc_dp_size :: nat
  bc_use_prefix_grouper :: bool
  bc_keep_minibatch :: bool
  bc_minibatch_size :: nat

text \<open>The partition per mini-batch: \<open>global_partition_lst[j].extend([x + minibatch_size * i for x in part])\<close>.\<close>

definition minibatch_partitions :: "nat \<Rightarrow> nat \<Rightarrow> int list \<Rightarrow> nat list list result" where
  "minibatch_partitions dp_size mb workloads =
     (if mb = 0 then Inl ZeroDivisionError
      else fold_r (\<lambda>i parts.
             bind_r (get_seqlen_balanced_partitions (slice (i * mb) (Suc i * mb) workloads) dp_size True) (\<lambda>rearranged.
               Inr (map2 (\<lambda>part new. part @ map (\<lambda>x. x + mb * i) new) parts rearranged)))
             [0..<length workloads div mb] (replicate dp_size []))"

text \<open>\<open>partition.sort(key=...)\<close> and \<open>partition[::2] + partition[1::2][::-1]\<close>: small items at both ends.\<close>

definition order_partition :: "int list \<Rightarrow> nat list \<Rightarrow> nat list" where
  "order_partition workloads part =
     (let s = sorted_asc (\<lambda>x y. (workloads ! x, x) < (workloads ! y, y)) part
      in stride2 s @ rev (stride2 (drop 1 s)))"

definition global_partitions :: "balance_config \<Rightarrow> int list \<Rightarrow> 'u list option \<Rightarrow> nat list list result" where
  "global_partitions cfg seqlens uids =
     (let workloads = map calculate_workload seqlens; k = bc_dp_size cfg in
      bind_r (case uids of
                Some us \<Rightarrow>
                  if bc_use_prefix_grouper cfg
                  then (if k = 0 then Inl ZeroDivisionError
                        else if card (set us) mod k \<noteq> 0 then Inl (ValueError ''PrefixGrouper with balance_batch'')
                        else get_group_balanced_partitions seqlens us k)
                  else if bc_keep_minibatch cfg then minibatch_partitions k (bc_minibatch_size cfg) workloads
                  else get_seqlen_balanced_partitions workloads k True
              | None \<Rightarrow>
                  if bc_keep_minibatch cfg then minibatch_partitions k (bc_minibatch_size cfg) workloads
                  else get_seqlen_balanced_partitions workloads k True)
        (\<lambda>parts. Inr (if bc_use_prefix_grouper cfg then parts else map (order_partition workloads) parts)))"

definition balance_batch :: "balance_config \<Rightarrow> int list \<Rightarrow> 'u list option \<Rightarrow> ('t, 'n, 'm) data_proto
    \<Rightarrow> (('t, 'n, 'm) data_proto \<times> nat list list) result" where
  "balance_batch cfg seqlens uids batch =
     bind_r (global_partitions cfg seqlens uids) (\<lambda>parts.
     bind_r (dp_reorder (map int (concat parts)) batch) (\<lambda>batch'. Inr (batch', parts)))"

section \<open>Correctness\<close>

lemma mset_order_partition: "mset (order_partition w p) = mset p"
  using mset_stride2 [of "sorted_asc (\<lambda>x y. (w ! x, x) < (w ! y, y)) p"] by (simp add: order_partition_def Let_def)

lemma mset_concat_order: "mset (concat (map (order_partition w) parts)) = mset (concat parts)"
  by (induction parts) (simp_all add: mset_order_partition)

lemma part_sum_mset: "mset p = mset q \<Longrightarrow> part_sum xs p = part_sum xs q"
  unfolding part_sum_def by (metis mset_map sum_mset_sum_list)

lemma dp_reorder_run:
  assumes "dp_ok d" "dp_batch d \<noteq> None" "\<forall>i \<in> set idx. i < dp_len d"
  shows "dp_reorder (map int idx) d = Inr (dp_take idx d)"
proof -
  obtain td where td: "dp_batch d = Some td" using assms(2) by blast
  note ok = dp_okD(1) [OF assms(1) td] dp_okD(2) [OF assms(1)]
  have js: "map_r (\<lambda>i. py_index i (dp_len d)) (map int idx) = Inr idx"
  proof -
    have "map_r (\<lambda>i. py_index i (dp_len d)) (map int idx) = Inr (map nat (map int idx))"
      by (rule map_r_Inr) (use assms(3) in auto)
    then show ?thesis by (simp add: comp_def)
  qed
  have "map_cols (index_col (IntIdxs (map int idx))) (dp_non_tensor d) = Inr (take_cols idx (dp_non_tensor d))"
    unfolding take_cols_def by (rule map_cols_run) (use ok(2) js in \<open>auto simp: cols_ok_def list_all_iff index_col_def\<close>)
  moreover have "td_size td = dp_len d" using ok(1) by simp
  ultimately show ?thesis by (simp add: dp_reorder_def td js) (simp add: dp_take_def td)
qed

lemma concat_block:
  assumes "\<forall>p \<in> set parts. length p = q" "j < length parts"
  shows "map ((!) (concat parts)) [j * q..<j * q + q] = parts ! j"
proof (rule nth_equalityI)
  have lj: "length (parts ! j) = q" using assms by simp
  then show "length (map ((!) (concat parts)) [j * q..<j * q + q]) = length (parts ! j)" by simp
  have "length (concat (take j parts)) = j * q"
  proof -
    have "map length (take j parts) = replicate j q" using assms by (intro nth_equalityI) auto
    then show ?thesis by (simp add: length_concat sum_list_replicate)
  qed
  then show "map ((!) (concat parts)) [j * q..<j * q + q] ! i = parts ! j ! i"
    if "i < length (map ((!) (concat parts)) [j * q..<j * q + q])" for i
    using concat_nth_at [OF assms(2), of i] lj that by simp
qed

lemma chunk_reordered:
  assumes "dp_ok d" "is_partition (dp_len d) k parts" "\<forall>p \<in> set parts. length p = q" "0 < k" "0 < q"
  shows "dp_chunk config k (dp_take (concat parts) d) = Inr (map (\<lambda>p. dp_take p d) parts)"
proof -
  have set: "set (concat parts) = {0..<dp_len d}" using assms(2) unfolding is_partition_def by (metis mset_eq_setD set_upt)
  then have b: "\<forall>i \<in> set (concat parts). i < dp_len d" by auto
  have len: "length (concat parts) = k * q"
  proof -
    have "map length parts = replicate k q" using assms(2,3) by (intro nth_equalityI) (auto simp: is_partition_def)
    then show ?thesis by (simp add: length_concat sum_list_replicate)
  qed
  have dlen: "dp_len (dp_take (concat parts) d) = k * q" unfolding dp_len_take [OF assms(1) b] by (rule len)
  have piece: "dp_take [i * q..<i * q + q] (dp_take (concat parts) d) = dp_take (parts ! i) d" if "i < k" for i
  proof -
    have "(i + 1) * q \<le> k * q" using that by (intro mult_right_mono) auto
    then have "\<forall>j \<in> set [i * q..<i * q + q]. j < length (concat parts)" unfolding len by auto
    then show ?thesis using dp_take_take [OF assms(1) b] concat_block [OF assms(3), of i] that assms(2) by (simp add: is_partition_def)
  qed
  have "map (\<lambda>i. dp_take [i * q..<i * q + q] (dp_take (concat parts) d)) [0..<k] = map (\<lambda>i. dp_take (parts ! i) d) [0..<k]"
    by (rule map_cong) (simp_all add: piece)
  also have "\<dots> = map (\<lambda>p. dp_take p d) (map ((!) parts) [0..<k])" by simp
  also have "map ((!) parts) [0..<k] = parts" using assms(2) map_nth [of parts] by (simp add: is_partition_def)
  finally show ?thesis using dp_chunk_run [OF dp_take_ok [OF assms(1) b] assms(4) dlen assms(5), of config] by (simp only:)
qed

lemma workloads_nonneg: "list_all (\<lambda>x. 0 \<le> x) lens \<Longrightarrow> list_all (\<lambda>x. 0 \<le> x) (map calculate_workload lens)"
  by (auto simp: list_all_iff workload_nonneg)

lemma plain_partitions:
  assumes "0 < k" "k dvd length lens" "0 < length lens" "list_all (\<lambda>x. 0 \<le> x) lens" "\<not> bc_use_prefix_grouper cfg" "\<not> bc_keep_minibatch cfg" "bc_dp_size cfg = k"
  shows "\<exists>parts. global_partitions cfg lens uids = Inr parts \<and> is_partition (length lens) k parts
    \<and> (\<forall>p \<in> set parts. length p = length lens div k)
    \<and> (\<forall>p \<in> set parts. \<forall>q \<in> set parts. part_sum (map calculate_workload lens) p - part_sum (map calculate_workload lens) q
         \<le> Max (set (map calculate_workload lens)))"
proof -
  let ?w = "map calculate_workload lens"
  have "k \<le> length ?w" using assms(2,3) by (simp add: dvd_imp_le)
  then obtain parts where parts: "get_seqlen_balanced_partitions ?w k True = Inr parts" "balanced ?w k True parts"
    using balanced_partitions [OF assms(1) _ workloads_nonneg [OF assms(4)], of True] assms(2) by auto
  let ?out = "map (order_partition ?w) parts"
  have "global_partitions cfg lens uids = Inr ?out"
    using assms(5-7) parts(1) by (simp add: global_partitions_def Let_def split: option.splits)
  moreover have "is_partition (length lens) k ?out"
    using parts(2) by (simp add: balanced_def is_partition_def mset_concat_order del: mset_concat)
  moreover have "length (order_partition ?w p) = length p" "part_sum ?w (order_partition ?w p) = part_sum ?w p" for p
    using mset_order_partition [of ?w p] part_sum_mset by (metis size_mset, metis)
  moreover have "\<forall>p \<in> set parts. length p = length lens div k"
    "\<forall>p \<in> set parts. \<forall>q \<in> set parts. part_sum ?w p - part_sum ?w q \<le> Max (set ?w)"
    using parts(2) by (auto simp: balanced_def list_all_iff)
  ultimately show ?thesis by (intro exI [of _ ?out]) auto
qed

text \<open>
  [C27] Balancing and dispatch together, in the default mode (neither \<open>use_prefix_grouper\<close> nor \<open>keep_minibatch\<close>) and for a well-formed,
  non-empty batch of tensors whose length the number of ranks divides: \<open>_balance_batch\<close> returns, and the equal chunks that the
  dispatch functions cut from the reordered batch are exactly the balanced partitions, so data-parallel rank \<open>j\<close> computes on the rows of
  partition \<open>j\<close>; the partitions cover every row once, are of equal size, and their workloads differ by at most one row's. (With
  \<open>keep_minibatch\<close> rows are mixed and dropped, see \<open>keep_minibatch_mixes\<close> and \<open>keep_minibatch_drops_rows\<close>.)
\<close>

theorem balance_then_dispatch:
  assumes "dp_ok d" "dp_batch d \<noteq> None" "length lens = dp_len d" "list_all (\<lambda>x. 0 \<le> x) lens"
    and "0 < bc_dp_size cfg" "bc_dp_size cfg dvd dp_len d" "0 < dp_len d" "\<not> bc_use_prefix_grouper cfg" "\<not> bc_keep_minibatch cfg"
  shows "\<exists>d' parts. balance_batch cfg lens uids d = Inr (d', parts)
    \<and> dp_chunk config (bc_dp_size cfg) d' = Inr (map (\<lambda>p. dp_take p d) parts)
    \<and> is_partition (dp_len d) (bc_dp_size cfg) parts \<and> (\<forall>p \<in> set parts. length p = dp_len d div bc_dp_size cfg)
    \<and> (\<forall>p \<in> set parts. \<forall>q \<in> set parts. part_sum (map calculate_workload lens) p - part_sum (map calculate_workload lens) q
         \<le> Max (set (map calculate_workload lens)))"
proof -
  let ?k = "bc_dp_size cfg" let ?w = "map calculate_workload lens"
  obtain parts where parts: "global_partitions cfg lens uids = Inr parts" "is_partition (dp_len d) ?k parts"
      "\<forall>p \<in> set parts. length p = dp_len d div ?k"
      "\<forall>p \<in> set parts. \<forall>q \<in> set parts. part_sum ?w p - part_sum ?w q \<le> Max (set ?w)"
    using plain_partitions [OF assms(5) _ _ assms(4,8,9) refl, of uids] assms(3,6,7) by auto
  have "set (concat parts) = {0..<dp_len d}" using parts(2) unfolding is_partition_def by (metis mset_eq_setD set_upt)
  then have "balance_batch cfg lens uids d = Inr (dp_take (concat parts) d, parts)"
    using dp_reorder_run [OF assms(1,2), of "concat parts"] parts(1) by (auto simp: balance_batch_def)
  moreover have "0 < dp_len d div ?k" using assms(5-7) by (auto elim!: dvdE)
  ultimately show ?thesis using chunk_reordered [OF assms(1) parts(2,3) assms(5), of config] parts by blast
qed

theorem balance_then_dispatch_witness:
  "\<exists>d' parts. balance_batch \<lparr>bc_dp_size = 3, bc_use_prefix_grouper = False, bc_keep_minibatch = False, bc_minibatch_size = 1\<rparr>
      [5, 2, 9] (None :: nat list option) ex_dp = Inr (d', parts) \<and> is_partition 3 3 parts"
  using balance_then_dispatch [OF ex_dp_ok(1), of "[5, 2, 9]" "\<lparr>bc_dp_size = 3, bc_use_prefix_grouper = False, bc_keep_minibatch = False, bc_minibatch_size = 1\<rparr>" "None :: nat list option" False]
  by (auto simp: ex_dp_ok(2)) (auto simp: ex_dp_def)

section \<open>Mini-batches\<close>

text \<open>Two behaviours of the mini-batch mode. The final ordering by workload runs over a rank's whole partition, so samples of
  different mini-batches are mixed although the partition was made mini-batch by mini-batch; and rows behind the last full
  mini-batch are in no partition, so the reordered batch loses them.\<close>

definition minibatch_cfg :: balance_config where
  "minibatch_cfg = \<lparr>bc_dp_size = 1, bc_use_prefix_grouper = False, bc_keep_minibatch = True, bc_minibatch_size = 2\<rparr>"

lemma keep_minibatch_mixes:
  "global_partitions minibatch_cfg [9, 8, 1, 2] (None :: nat list option) = Inr [[2, 1, 0, 3]]"
  by code_simp

lemma keep_minibatch_drops_rows:
  "global_partitions minibatch_cfg [9, 8, 1] (None :: nat list option) = Inr [[1, 0]]"
  by code_simp

end
