(* ===== verification/Loops.thy ===== *)
theory Loops
  imports Prelude
begin

text \<open>
  Python loops that need not end: \<open>repeat_r f x\<close> runs the body \<open>f\<close>, which raises, continues with a new state (\<open>Inl\<close>) or leaves
  the loop with a result (\<open>Inr\<close>). The value is \<open>None\<close> when the loop runs forever. The two rules prove that what leaves the
  loop satisfies a postcondition, and that the loop ends.
\<close>

partial_function (option) repeat_r :: "('x \<Rightarrow> ('x + 'y) result) \<Rightarrow> 'x \<Rightarrow> 'y result option" where
  "repeat_r f x = (case f x of Inl e \<Rightarrow> Some (Inl e) | Inr (Inl x') \<Rightarrow> repeat_r f x' | Inr (Inr y) \<Rightarrow> Some (Inr y))"

lemma repeat_r_post:
  fixes f :: "'x \<Rightarrow> ('x + 'y) result"
  assumes "repeat_r f x = Some (Inr y)" "I x"
    and "\<And>x x'. I x \<Longrightarrow> f x = Inr (Inl x') \<Longrightarrow> I x'" and "\<And>x y. I x \<Longrightarrow> f x = Inr (Inr y) \<Longrightarrow> Q y"
  shows "Q y"
proof -
  let ?P = "\<lambda>g x (r :: 'y result). g = f \<longrightarrow> I x \<longrightarrow> (\<forall>y. r = Inr y \<longrightarrow> Q y)"
  have "(case (f, x) of (g, x) \<Rightarrow> ?P g x) (Inr y)"
  proof (rule repeat_r.raw_induct [where P = ?P])
    fix loop g x r
    assume IH: "\<And>g x r. loop g x = Some r \<Longrightarrow> ?P g x r"
      and body: "(case g x of Inl e \<Rightarrow> Some (Inl e) | Inr (Inl x') \<Rightarrow> loop g x' | Inr (Inr y) \<Rightarrow> Some (Inr y)) = Some r"
    show "?P g x r"
    proof (cases "g x")
      case (Inl e)
      then show ?thesis using body by auto
    next
      case (Inr c)
      then show ?thesis using body IH assms(3,4) by (cases c) auto
    qed
  qed (use assms(1) in simp)
  then show ?thesis using assms(2) by simp
qed

lemma repeat_r_returns:
  assumes "\<And>x x'. I x \<Longrightarrow> f x = Inr (Inl x') \<Longrightarrow> I x' \<and> m x' < (m x :: nat)" "I x"
  shows "\<exists>r. repeat_r f x = Some r"
  using assms(2)
proof (induction "m x" arbitrary: x rule: less_induct)
  case less
  show ?case
  proof (cases "f x")
    case (Inl e)
    then show ?thesis by (subst repeat_r.simps) simp
  next
    case (Inr c)
    show ?thesis
    proof (cases c)
      case (Inl x')
      then have "\<exists>r. repeat_r f x' = Some r" using less assms(1) [of x x'] Inr by simp
      then show ?thesis using Inr Inl by (subst repeat_r.simps) simp
    next
      case (Inr y)
      then show ?thesis using \<open>f x = Inr c\<close> by (subst repeat_r.simps) simp
    qed
  qed
qed

end
