(* ===== verification/Agent_Loop.thy ===== *)
theory Agent_Loop
  imports Py_Data Py_Env Loops Complex_Main
begin

text \<open>
  The agent loops of \<open>verl/experimental/agent_loop\<close>: \<open>ToolAgentLoop\<close>, a state machine that alternates between
  generating and calling tools, and \<open>SingleTurnAgentLoop\<close>. The language model server, the tokenizer with its chat
  template, the tool parser and the tools are parameters; those with a state of their own act on a state of the
  outside world that is passed along. The calls of \<open>asyncio.gather\<close> are taken one after the other.
\<close>

section \<open>Tools\<close>

text \<open>\<open>ToolResponse\<close> of \<open>verl/tools/schemas.py\<close>, whose validator admits only lists as images and videos.\<close>

record 'i tool_response =
  tr_text :: "string option"
  tr_image :: "'i option list option"
  tr_video :: "'i option list option"

definition text_response :: "string \<Rightarrow> 'i tool_response" where
  "text_response s = \<lparr>tr_text = Some s, tr_image = None, tr_video = None\<rparr>"

text \<open>What a function tool may return; \<open>ROther\<close> and \<open>RDict\<close> carry the Python value.\<close>

datatype ('a, 'i) raw_return =
    RResponse "'i tool_response"
  | RStr string
  | RDict 'a
  | RTuple "('a, 'i) raw_return list"
  | RNone
  | ROther 'a

text \<open>Conversions of Python values that the code leaves to \<open>json\<close>, \<open>str\<close>, \<open>float\<close> and \<open>dict\<close>; the error is the text of
  the exception.\<close>

record ('a, 'i) conversions =
  json_loads :: "string \<Rightarrow> string + 'a"
  json_dumps :: "'a \<Rightarrow> string"
  raw_str :: "('a, 'i) raw_return \<Rightarrow> string"
  raw_float :: "('a, 'i) raw_return \<Rightarrow> string + real"
  raw_dict :: "('a, 'i) raw_return \<Rightarrow> string + unit"

definition coerce_response :: "('a, 'i) conversions \<Rightarrow> ('a, 'i) raw_return \<Rightarrow> 'i tool_response" where
  "coerce_response cv value =
     (case value of
        RResponse r \<Rightarrow> r
      | RStr s \<Rightarrow> text_response s
      | RDict d \<Rightarrow> text_response (json_dumps cv d)
      | _ \<Rightarrow> text_response (raw_str cv value))"

text \<open>\<open>normalize_function_tool_return\<close>; the metrics are dropped by the caller.\<close>

definition normalize_function_tool_return ::
    "('a, 'i) conversions \<Rightarrow> ('a, 'i) raw_return \<Rightarrow> string + 'i tool_response \<times> real option" where
  "normalize_function_tool_return cv ret =
     (case ret of
        RTuple vs \<Rightarrow>
          (if vs = [] \<or> length vs > 3 then Inl ''@function_tool return tuple must have length 1, 2, or 3''
           else case (if length vs < 2 \<or> vs ! 1 = RNone then Inr 0 else raw_float cv (vs ! 1)) of
                  Inl e \<Rightarrow> Inl e
                | Inr reward \<Rightarrow>
                    (case (if length vs < 3 \<or> vs ! 2 = RNone then Inr () else raw_dict cv (vs ! 2)) of
                       Inl e \<Rightarrow> Inl e
                     | Inr _ \<Rightarrow> Inr (coerce_response cv (vs ! 0), Some reward)))
      | _ \<Rightarrow> Inr (coerce_response cv ret, Some 0))"

text \<open>A tool: a plain function, or an object with \<open>create\<close>, \<open>execute\<close> and \<open>release\<close>. Errors are the texts of exceptions.\<close>

datatype ('a, 'i, 's) agent_tool =
    Function_Tool "'a \<Rightarrow> 's \<Rightarrow> (string + ('a, 'i) raw_return) \<times> 's"
  | Base_Tool
      (tool_create: "'s \<Rightarrow> (string + string) \<times> 's")
      (tool_execute: "string \<Rightarrow> 'a \<Rightarrow> 's \<Rightarrow> (string + 'i tool_response \<times> real option) \<times> 's")
      (tool_release: "string \<Rightarrow> 's \<Rightarrow> 's")

record function_call =
  fc_name :: string
  fc_arguments :: string

text \<open>The \<open>try\<close> block of \<open>_call_tool\<close>: an instance that was created is released, whether or not \<open>execute\<close> raised.
  Two things the code allows and the model leaves out: \<open>execute\<close> is handed the \<open>agent_data\<close> object and
  could write to it, whereas tools here change only the world \<open>'s\<close>; and \<open>release\<close>, which stands in the
  \<open>finally\<close> block, could raise past the handler, whereas here it returns.\<close>

definition execute_tool :: "('a, 'i) conversions \<Rightarrow> ('a, 'i, 's) agent_tool \<Rightarrow> 'a \<Rightarrow> 's
    \<Rightarrow> (string + 'i tool_response \<times> real option) \<times> 's" where
  "execute_tool cv tool args w =
     (case tool of
        Function_Tool f \<Rightarrow>
          (case f args w of
             (Inl e, w') \<Rightarrow> (Inl e, w')
           | (Inr raw, w') \<Rightarrow> (normalize_function_tool_return cv raw, w'))
      | Base_Tool create execute release \<Rightarrow>
          (case create w of
             (Inl e, w') \<Rightarrow> (Inl e, w')
           | (Inr inst, w') \<Rightarrow>
               (case execute inst args w' of
                  (res, w'') \<Rightarrow> (res, if inst \<noteq> [] then release inst w'' else w''))))"

definition truncate_response :: "nat \<Rightarrow> string \<Rightarrow> string \<Rightarrow> string" where
  "truncate_response max_len side txt =
     (if length txt \<le> max_len then txt
      else if side = ''left'' then ''(truncated)...'' @ last_n max_len txt
      else if side = ''right'' then take max_len txt @ ''...(truncated)''
      else (let half = max_len div 2 in take half txt @ ''...(truncated)...'' @ last_n half txt))"

section \<open>The state of an agent\<close>

datatype agent_state = PENDING | GENERATING | PROCESSING_TOOLS | TERMINATED

datatype content_part = ImagePart | VideoPart | TextPart string

datatype 'q message = Given 'q | ToolText string | ToolParts "content_part list"

record ('e, 'm) server_reply =
  to_token_ids :: "int list"
  to_log_probs :: "real list option"
  to_routed_experts :: "'e list option"
  to_stop_reason :: "string option"
  to_num_preempted :: "int option"
  to_extra_fields :: "'m py_obj dict"

record ('i, 'q, 'e, 'm) agent_data =
  ad_messages :: "'q message list"
  ad_image_data :: "'i list option"
  ad_prompt_ids :: "int list"
  ad_response_ids :: "int list"
  ad_response_mask :: "int list"
  ad_response_logprobs :: "real list"
  ad_tool_rewards :: "real list"
  ad_user_turns :: nat
  ad_assistant_turns :: nat
  ad_tool_calls :: "function_call list"
  ad_routed_experts :: "'e list option"
  ad_extra_fields :: "'m py_obj dict"
  ad_num_preempted :: "int option"
  ad_active_tools :: "string list"

text \<open>The configuration of the loop and the programs around it.\<close>

record ('a, 'i, 'q, 'e, 'm, 's) agent_env =
  max_user_turns :: "nat option"
  max_assistant_turns :: "nat option"
  max_parallel_calls :: nat
  max_tool_response_length :: nat
  tool_response_truncate_side :: string
  parser_name :: string
  parser_stop_ids :: "int list"
  prompt_cap :: nat
  response_cap :: nat
  has_image_processor :: bool
  has_video_or_audio :: bool
  system_prompt :: "int list"
  tools :: "(string \<times> ('a, 'i, 's) agent_tool) list"
  conv :: "('a, 'i) conversions"
  parts_repr :: "content_part list \<Rightarrow> string"
  chat_template :: "'q message list \<Rightarrow> string list \<Rightarrow> 'i list option \<Rightarrow> int list"
  encode :: "string \<Rightarrow> int list"
  extract_tool_calls :: "int list \<Rightarrow> string list \<Rightarrow> function_call list"
  serve :: "int list \<Rightarrow> int list option \<Rightarrow> 'i list option \<Rightarrow> 's \<Rightarrow> (('e, 'm) server_reply \<times> 's) result"

text \<open>\<open>AgentLoopBase.apply_chat_template\<close>: text prompts are cut from the left, multi-modal ones refused.\<close>

definition apply_chat_template :: "('a, 'i, 'q, 'e, 'm, 's) agent_env \<Rightarrow> 'q message list \<Rightarrow> string list
    \<Rightarrow> 'i list option \<Rightarrow> bool \<Rightarrow> bool \<Rightarrow> int list result" where
  "apply_chat_template env messages tls images media remove_system_prompt =
     (let ids = chat_template env messages tls images;
          ids = (if remove_system_prompt then drop (length (system_prompt env)) ids else ids)
      in if length ids > prompt_cap env
         then if (images \<noteq> None \<and> images \<noteq> Some []) \<or> media
              then Inl (ValueError ''Multimodal prompt exceeds rollout.prompt_length'')
              else Inr (last_n (prompt_cap env) ids)
         else Inr ids)"

section \<open>The handlers\<close>

text \<open>\<open>_call_tool\<close>: unknown names, bad arguments and failing tools become messages to the model. The list of tools is
  printed as Python prints a list of strings without quotes in them.\<close>

definition quoted :: "string \<Rightarrow> string" where
  "quoted s = CHR 0x27 # s @ [CHR 0x27]"

fun comma_separated :: "string list \<Rightarrow> string" where
  "comma_separated [] = []"
| "comma_separated [x] = quoted x"
| "comma_separated (x # xs) = quoted x @ '', '' @ comma_separated xs"

definition call_tool :: "('a, 'i, 'q, 'e, 'm, 's) agent_env \<Rightarrow> string list \<Rightarrow> function_call \<Rightarrow> 's
    \<Rightarrow> ('i tool_response \<times> real option) \<times> 's" where
  "call_tool env active call w =
     (case (if fc_name call \<in> set active then map_of (tools env) (fc_name call) else None) of
        None \<Rightarrow> ((text_response (''Unknown function '' @ quoted (fc_name call) @ ''. Available tools: [''
                   @ comma_separated active @ '']''), Some 0), w)
      | Some tool \<Rightarrow>
          (case json_loads (conv env) (fc_arguments call) of
             Inl e \<Rightarrow> ((text_response (''Invalid JSON in arguments for '' @ quoted (fc_name call) @ '': '' @ e), Some 0), w)
           | Inr args \<Rightarrow>
               (case execute_tool (conv env) tool args w of
                  (Inl e, w') \<Rightarrow> ((text_response (''Error executing tool '' @ quoted (fc_name call) @ '': '' @ e), Some 0), w')
                | (Inr (resp, reward), w') \<Rightarrow>
                    ((resp\<lparr>tr_text := map_option (truncate_response (max_tool_response_length env)
                             (tool_response_truncate_side env)) (tr_text resp)\<rparr>, reward), w'))))"

fun call_tools :: "('a, 'i, 'q, 'e, 'm, 's) agent_env \<Rightarrow> string list \<Rightarrow> function_call list \<Rightarrow> 's
    \<Rightarrow> ('i tool_response \<times> real option) list \<times> 's" where
  "call_tools env active [] w = ([], w)"
| "call_tools env active (c # cs) w =
     (case call_tool env active c w of
        (r, w1) \<Rightarrow> (case call_tools env active cs w1 of (rs, w2) \<Rightarrow> (r # rs, w2)))"

definition handle_pending :: "('a, 'i, 'q, 'e, 'm, 's) agent_env \<Rightarrow> ('i, 'q, 'e, 'm) agent_data \<Rightarrow> 's
    \<Rightarrow> (agent_state \<times> ('i, 'q, 'e, 'm) agent_data \<times> 's) result" where
  "handle_pending env d w =
     bind_r (apply_chat_template env (ad_messages d) (ad_active_tools d) (ad_image_data d) (has_video_or_audio env) False)
       (\<lambda>ids. Inr (GENERATING, d\<lparr>ad_prompt_ids := ids\<rparr>, w))"

definition spec_decode_extra_keys :: "string list" where
  "spec_decode_extra_keys = [''spec_num_draft_tokens'', ''spec_num_accepted_tokens'', ''spec_num_verify_steps'']"

definition add_spec_key :: "'m py_obj dict \<Rightarrow> string \<Rightarrow> 'm py_obj dict \<Rightarrow> 'm py_obj dict result" where
  "add_spec_key new key efields =
     (case (map_of new key, map_of efields key) of
        (Some v, Some u) \<Rightarrow>
          bind_r (py_int_of u) (\<lambda>a. bind_r (py_int_of v) (\<lambda>b. Inr (AList.update key (MInt (a + b)) efields)))
      | _ \<Rightarrow> Inr efields)"

text \<open>The extra fields of a reply: those of the first reply are taken over, later ones only change the step and the
  speculative decoding counters.\<close>

definition merge_extra_fields :: "'m py_obj dict \<Rightarrow> 'm py_obj dict \<Rightarrow> 'm py_obj dict result" where
  "merge_extra_fields new efields =
     (if efields = [] then Inr (fold (\<lambda>(k, v). AList.update k v) new [])
      else
        (let efields' = (case map_of new ''max_global_steps'' of
                          None \<Rightarrow> efields
                        | Some v \<Rightarrow> if py_truth v then AList.update ''max_global_steps'' v efields else efields)
         in fold_r (add_spec_key new) spec_decode_extra_keys efields'))"

definition limit_reached :: "nat option \<Rightarrow> nat \<Rightarrow> bool" where
  "limit_reached limit turns = (case limit of None \<Rightarrow> False | Some l \<Rightarrow> l \<noteq> 0 \<and> l \<le> turns)"

text \<open>The update of the agent by a reply.\<close>

definition record_reply :: "('e, 'm) server_reply \<Rightarrow> 'm py_obj dict \<Rightarrow> ('i, 'q, 'e, 'm) agent_data \<Rightarrow> ('i, 'q, 'e, 'm) agent_data" where
  "record_reply out efields d =
     d\<lparr>ad_num_preempted := Some (case ad_num_preempted d of
                                  None \<Rightarrow> opt_default (- 1) (to_num_preempted out)
                                | Some n \<Rightarrow> n + opt_default 0 (to_num_preempted out)),
       ad_extra_fields := efields,
       ad_assistant_turns := ad_assistant_turns d + 1,
       ad_response_ids := to_token_ids out,
       ad_prompt_ids := ad_prompt_ids d @ to_token_ids out,
       ad_response_mask := ad_response_mask d @ replicate (length (to_token_ids out)) 1,
       ad_response_logprobs := ad_response_logprobs d @ opt_default [] (to_log_probs out),
       ad_routed_experts := (case to_routed_experts out of None \<Rightarrow> ad_routed_experts d | Some e \<Rightarrow> Some e)\<rparr>"

definition stop_ids :: "int list \<Rightarrow> int list option \<Rightarrow> int list option" where
  "stop_ids parser_ids requested =
     (if parser_ids = [] then requested else Some (remdups (opt_default [] requested @ parser_ids)))"

definition handle_generating :: "('a, 'i, 'q, 'e, 'm, 's) agent_env \<Rightarrow> int list option \<Rightarrow> bool
    \<Rightarrow> ('i, 'q, 'e, 'm) agent_data \<Rightarrow> 's \<Rightarrow> (agent_state \<times> ('i, 'q, 'e, 'm) agent_data \<times> 's) result" where
  "handle_generating env requested_stop ignore_termination d w =
     bind_r (serve env (ad_prompt_ids d) (stop_ids (parser_stop_ids env) requested_stop) (ad_image_data d) w) (\<lambda>(out, w').
     bind_r (merge_extra_fields (to_extra_fields out) (ad_extra_fields d)) (\<lambda>efields.
       let d1 = record_reply out efields d in
       if (\<not> ignore_termination \<and> response_cap env \<le> length (ad_response_mask d1))
          \<or> limit_reached (max_assistant_turns env) (ad_assistant_turns d1)
          \<or> limit_reached (max_user_turns env) (ad_user_turns d1)
       then Inr (TERMINATED, d1, w')
       else
         let calls = extract_tool_calls env (ad_response_ids d1) (ad_active_tools d1);
             d2 = d1\<lparr>ad_tool_calls := calls\<rparr>
         in Inr (if calls = [] then TERMINATED else PROCESSING_TOOLS, d2, w')))"

text \<open>The loop over the responses: the message, the new images and the reward of each.\<close>

definition has_media :: "'i option list option \<Rightarrow> bool" where
  "has_media f = (f \<noteq> None \<and> f \<noteq> Some [])"

definition tool_message :: "'i tool_response \<Rightarrow> 'q message" where
  "tool_message r =
     (if has_media (tr_image r) \<or> has_media (tr_video r)
      then ToolParts ((if has_media (tr_image r) then [ImagePart] else [])
                    @ (if has_media (tr_video r) then [VideoPart] else [])
                    @ (if opt_default [] (tr_text r) \<noteq> [] then [TextPart (opt_default [] (tr_text r))] else []))
      else ToolText (opt_default [] (tr_text r)))"

definition add_response :: "bool \<Rightarrow> 'i tool_response \<times> real option \<Rightarrow> 'q message list \<times> 'i list \<times> real list
    \<Rightarrow> ('q message list \<times> 'i list \<times> real list) result" where
  "add_response image_processor = (\<lambda>(r, reward) (messages, images, rewards).
     if (has_media (tr_image r) \<or> has_media (tr_video r)) \<and> \<not> image_processor
     then Inl (ValueError ''Multimedia data can only be processed by processor'')
     else if has_media (tr_video r) then Inl NotImplementedError
     else Inr (messages @ [tool_message r],
               images @ List.map_filter id (opt_default [] (tr_image r)),
               rewards @ (case reward of None \<Rightarrow> [] | Some x \<Rightarrow> [x])))"

text \<open>The text that is encoded by hand for two chat formats.\<close>

definition gpt_oss_text :: "(content_part list \<Rightarrow> string) \<Rightarrow> 'q message list \<Rightarrow> string list \<Rightarrow> string" where
  "gpt_oss_text repr messages names =
     concat (map2 (\<lambda>m name. ''<|start|>functions.'' @ name @ '' to=assistant<|channel|>commentary<|message|>''
        @ (case m of ToolText t \<Rightarrow> t | ToolParts ps \<Rightarrow> repr ps | Given _ \<Rightarrow> []) @ ''<|end|>'') messages names)
     @ ''<|start|>assistant''"

definition gemma_text :: "'q message list \<Rightarrow> string list \<Rightarrow> string" where
  "gemma_text messages names =
     concat (map2 (\<lambda>m name. ''<|tool_response>response:'' @ name @ ''{value:<|\"|>''
        @ (case m of ToolText t \<Rightarrow> t
           | ToolParts ps \<Rightarrow> concat (map (\<lambda>p. case p of TextPart t \<Rightarrow> t | _ \<Rightarrow> []) ps) | Given _ \<Rightarrow> [])
        @ ''<|\"|>}<tool_response|>'') messages names)"

definition tool_response_ids :: "('a, 'i, 'q, 'e, 'm, 's) agent_env \<Rightarrow> 'q message list \<Rightarrow> string list \<Rightarrow> 'i list \<Rightarrow> int list result" where
  "tool_response_ids env messages names images =
     (if parser_name env = ''gpt-oss'' then Inr (encode env (gpt_oss_text (parts_repr env) messages names))
      else if parser_name env = ''gemma4'' then Inr (encode env (gemma_text messages names))
      else apply_chat_template env messages [] (if images = [] then None else Some images) False True)"

definition record_tools :: "'q message list \<Rightarrow> real list \<Rightarrow> ('i, 'q, 'e, 'm) agent_data \<Rightarrow> ('i, 'q, 'e, 'm) agent_data" where
  "record_tools messages rewards d =
     d\<lparr>ad_tool_rewards := ad_tool_rewards d @ rewards, ad_messages := ad_messages d @ messages\<rparr>"

definition record_observation :: "int list \<Rightarrow> 'i list \<Rightarrow> ('i, 'q, 'e, 'm) agent_data \<Rightarrow> ('i, 'q, 'e, 'm) agent_data" where
  "record_observation ids images d =
     d\<lparr>ad_image_data := (if images = [] then ad_image_data d else Some (opt_default [] (ad_image_data d) @ images)),
       ad_prompt_ids := ad_prompt_ids d @ ids,
       ad_response_mask := ad_response_mask d @ replicate (length ids) 0,
       ad_response_logprobs := (if ad_response_logprobs d = [] then [] else ad_response_logprobs d @ replicate (length ids) 0),
       ad_user_turns := ad_user_turns d + 1\<rparr>"

definition handle_processing_tools :: "('a, 'i, 'q, 'e, 'm, 's) agent_env \<Rightarrow> ('i, 'q, 'e, 'm) agent_data \<Rightarrow> 's
    \<Rightarrow> (agent_state \<times> ('i, 'q, 'e, 'm) agent_data \<times> 's) result" where
  "handle_processing_tools env d w =
     (let calls = take (max_parallel_calls env) (ad_tool_calls d);
          (responses, w') = call_tools env (ad_active_tools d) calls w
      in bind_r (fold_r (add_response (has_image_processor env)) responses ([], [], [])) (\<lambda>(messages, images, rewards).
         let d1 = record_tools messages rewards d in
         bind_r (tool_response_ids env messages (map fc_name calls) images) (\<lambda>ids.
           if response_cap env \<le> length (ad_response_mask d1) + length ids then Inr (TERMINATED, d1, w')
           else Inr (GENERATING, record_observation ids images d1, w'))))"

section \<open>The state machine\<close>

definition agent_step :: "('a, 'i, 'q, 'e, 'm, 's) agent_env \<Rightarrow> int list option \<Rightarrow> agent_state
    \<Rightarrow> ('i, 'q, 'e, 'm) agent_data \<Rightarrow> 's \<Rightarrow> (agent_state \<times> ('i, 'q, 'e, 'm) agent_data \<times> 's) result" where
  "agent_step env requested_stop st d w =
     (case st of
        PENDING \<Rightarrow> handle_pending env d w
      | GENERATING \<Rightarrow> handle_generating env requested_stop False d w
      | PROCESSING_TOOLS \<Rightarrow> handle_processing_tools env d w
      | TERMINATED \<Rightarrow> Inr (TERMINATED, d, w))"

text \<open>The \<open>while\<close> loop of \<open>run\<close>; \<open>None\<close> stands for a run without end.\<close>

definition agent_loop :: "('a, 'i, 'q, 'e, 'm, 's) agent_env \<Rightarrow> int list option \<Rightarrow> agent_state
    \<Rightarrow> ('i, 'q, 'e, 'm) agent_data \<Rightarrow> 's \<Rightarrow> (('i, 'q, 'e, 'm) agent_data \<times> 's) result option" where
  "agent_loop env requested_stop st d w =
     repeat_r (\<lambda>(st, d, w).
       if st = TERMINATED then Inr (Inr (d, w))
       else bind_r (agent_step env requested_stop st d w) (\<lambda>next_state. Inr (Inl next_state))) (st, d, w)"

lemma agent_loop_simps:
  "agent_loop env requested_stop st d w =
     (if st = TERMINATED then Some (Inr (d, w))
      else case agent_step env requested_stop st d w of
        Inl e \<Rightarrow> Some (Inl e)
      | Inr (st', d', w') \<Rightarrow> agent_loop env requested_stop st' d' w')"
  unfolding agent_loop_def by (subst repeat_r.simps) (auto simp: bind_r_def split: sum.splits prod.splits)

record ('i, 'e, 'm) agent_output =
  ao_prompt_ids :: "int list"
  ao_response_ids :: "int list"
  ao_response_mask :: "int list"
  ao_images :: "'i list option"
  ao_response_logprobs :: "real list option"
  ao_num_turns :: nat
  ao_routed_experts :: "'e list option"
  ao_num_preempted :: "int option"
  ao_extra_fields :: "'m py_obj dict"
  ao_tool_rewards :: "real list"

text \<open>\<open>response_ids = prompt_ids[-len(response_mask):]\<close> and the cuts at the response length.\<close>

definition finalize :: "('a, 'i, 'q, 'e, 'm, 's) agent_env \<Rightarrow> ('i, 'q, 'e, 'm) agent_data \<Rightarrow> ('i, 'e, 'm) agent_output" where
  "finalize env d =
     (let n = length (ad_response_mask d); cap = response_cap env;
          response = last_n n (ad_prompt_ids d);
          prompt = take (length (ad_prompt_ids d) - n) (ad_prompt_ids d)
      in \<lparr>ao_prompt_ids = prompt, ao_response_ids = take cap response, ao_response_mask = take cap (ad_response_mask d),
          ao_images = ad_image_data d,
          ao_response_logprobs = (if ad_response_logprobs d = [] then None else Some (take cap (ad_response_logprobs d))),
          ao_num_turns = ad_user_turns d + ad_assistant_turns d + 1,
          ao_routed_experts = map_option (take (length prompt + cap)) (ad_routed_experts d),
          ao_num_preempted = ad_num_preempted d, ao_extra_fields = ad_extra_fields d, ao_tool_rewards = ad_tool_rewards d\<rparr>)"

text \<open>\<open>extra_info.tool_selection\<close> restricts the tools of one sample.\<close>

definition active_tools :: "('a, 'i, 'q, 'e, 'm, 's) agent_env \<Rightarrow> string list option \<Rightarrow> string list" where
  "active_tools env selection =
     (case selection of
        None \<Rightarrow> map fst (tools env)
      | Some sel \<Rightarrow> if sel = [] \<or> tools env = [] then map fst (tools env)
          else rev (remdups (rev (filter (\<lambda>name. name \<in> set (map fst (tools env))) sel))))"

definition initial_data :: "('a, 'i, 'q, 'e, 'm, 's) agent_env \<Rightarrow> 'q list \<Rightarrow> 'i list option \<Rightarrow> string list option
    \<Rightarrow> ('i, 'q, 'e, 'm) agent_data" where
  "initial_data env raw_prompt images selection =
     \<lparr>ad_messages = map Given raw_prompt, ad_image_data = images, ad_prompt_ids = [], ad_response_ids = [],
      ad_response_mask = [], ad_response_logprobs = [], ad_tool_rewards = [], ad_user_turns = 0, ad_assistant_turns = 0,
      ad_tool_calls = [], ad_routed_experts = None, ad_extra_fields = [], ad_num_preempted = None,
      ad_active_tools = active_tools env selection\<rparr>"

definition tool_agent_run :: "('a, 'i, 'q, 'e, 'm, 's) agent_env \<Rightarrow> int list option \<Rightarrow> 'q list \<Rightarrow> 'i list option
    \<Rightarrow> string list option \<Rightarrow> 's \<Rightarrow> (('i, 'e, 'm) agent_output \<times> 's) result option" where
  "tool_agent_run env requested_stop raw_prompt images selection w =
     map_option (\<lambda>r. bind_r r (\<lambda>(d, w'). Inr (finalize env d, w')))
       (agent_loop env requested_stop PENDING (initial_data env raw_prompt images selection) w)"

section \<open>The single-turn agent\<close>

definition single_turn_run :: "('a, 'i, 'q, 'e, 'm, 's) agent_env \<Rightarrow> int option \<Rightarrow> int list option \<Rightarrow> 'q list \<Rightarrow> 'i list option
    \<Rightarrow> 's \<Rightarrow> (('i, 'e, 'm) agent_output \<times> 's) result" where
  "single_turn_run env max_tokens requested_stop raw_prompt images w =
     bind_r (apply_chat_template env (map Given raw_prompt) [] images (has_video_or_audio env) False) (\<lambda>prompt.
     bind_r (serve env prompt requested_stop images w) (\<lambda>(out, w').
       let len = (case max_tokens of None \<Rightarrow> int (response_cap env) | Some n \<Rightarrow> if n = 0 then int (response_cap env) else n)
       in Inr (\<lparr>ao_prompt_ids = prompt, ao_response_ids = py_take len (to_token_ids out),
                ao_response_mask = py_take len (replicate (length (to_token_ids out)) 1), ao_images = images,
                ao_response_logprobs = map_option (py_take len) (to_log_probs out), ao_num_turns = 2,
                ao_routed_experts = map_option (py_take (int (length prompt) + len)) (to_routed_experts out),
                ao_num_preempted = Some (opt_default (- 1) (to_num_preempted out)),
                ao_extra_fields = to_extra_fields out, ao_tool_rewards = []\<rparr>, w')))"

section \<open>The trajectory\<close>

text \<open>
  The specification of a trajectory: a list of segments, generated ones (marked true) alternating with observations,
  beginning and ending with a generated one.
\<close>

type_synonym segment = "bool \<times> int list"

definition seg_ids :: "segment list \<Rightarrow> int list" where
  "seg_ids segs = concat (map snd segs)"

definition seg_mask :: "segment list \<Rightarrow> int list" where
  "seg_mask segs = concat (map (\<lambda>(g, ids). replicate (length ids) (if g then 1 else 0)) segs)"

lemma seg_append [simp]:
  "seg_ids [] = []" "seg_mask [] = []"
  "seg_ids (xs @ ys) = seg_ids xs @ seg_ids ys" "seg_mask (xs @ ys) = seg_mask xs @ seg_mask ys"
  "seg_ids [(g, ids)] = ids" "seg_mask [(g, ids)] = replicate (length ids) (if g then 1 else 0)"
  by (simp_all add: seg_ids_def seg_mask_def)

lemma length_seg_mask [simp]: "length (seg_mask segs) = length (seg_ids segs)"
  by (induction segs) (auto simp: seg_ids_def seg_mask_def)

text \<open>What a segment after \<open>before\<close> may be: the server's reply to exactly the prompt and the segments before it, or an
  observation that leaves room in the response.\<close>

definition segment_ok :: "('a, 'i, 'q, 'e, 'm, 's) agent_env \<Rightarrow> int list \<Rightarrow> segment list \<Rightarrow> segment \<Rightarrow> bool" where
  "segment_ok env prompt before seg =
     (if fst seg
      then even (length before) \<and> (before = [] \<or> length (seg_ids before) < response_cap env)
         \<and> (\<exists>stop images w out w'. serve env (prompt @ seg_ids before) stop images w = Inr (out, w') \<and> snd seg = to_token_ids out)
      else odd (length before) \<and> length (seg_ids before) + length (snd seg) < response_cap env)"

inductive trajectory :: "('a, 'i, 'q, 'e, 'm, 's) agent_env \<Rightarrow> int list \<Rightarrow> segment list \<Rightarrow> bool"
  for env :: "('a, 'i, 'q, 'e, 'm, 's) agent_env" and prompt :: "int list" where
  Start: "trajectory env prompt []"
| Extend: "trajectory env prompt segs \<Longrightarrow> segment_ok env prompt segs seg \<Longrightarrow> trajectory env prompt (segs @ [seg])"

text \<open>The agent's state follows the trajectory.\<close>

definition follows :: "int list \<Rightarrow> segment list \<Rightarrow> ('i, 'q, 'e, 'm) agent_data \<Rightarrow> bool" where
  "follows prompt segs d \<longleftrightarrow> ad_prompt_ids d = prompt @ seg_ids segs \<and> ad_response_mask d = seg_mask segs
     \<and> ad_assistant_turns d = (length segs + 1) div 2 \<and> ad_user_turns d = length segs div 2"

definition agent_inv :: "('a, 'i, 'q, 'e, 'm, 's) agent_env \<Rightarrow> int list \<Rightarrow> agent_state \<Rightarrow> ('i, 'q, 'e, 'm) agent_data \<Rightarrow> bool" where
  "agent_inv env prompt st d \<longleftrightarrow> st \<noteq> PENDING \<and>
     (\<exists>segs. trajectory env prompt segs \<and> follows prompt segs d
        \<and> (if st = GENERATING then even (length segs) \<and> (segs = [] \<or> length (seg_ids segs) < response_cap env) else odd (length segs)))"

lemma generating_inv:
  assumes "agent_inv env prompt GENERATING d" "handle_generating env stop False d w = Inr (st', d', w')"
  shows "agent_inv env prompt st' d' \<and> st' \<noteq> GENERATING"
proof -
  obtain segs where segs: "trajectory env prompt segs" "follows prompt segs d" "even (length segs)"
      "segs = [] \<or> length (seg_ids segs) < response_cap env"
    using assms(1) by (auto simp: agent_inv_def)
  obtain out w1 efields where out: "serve env (ad_prompt_ids d) (stop_ids (parser_stop_ids env) stop) (ad_image_data d) w = Inr (out, w1)"
      and d': "d' = record_reply out efields d \<or> (\<exists>cs. d' = (record_reply out efields d)\<lparr>ad_tool_calls := cs\<rparr>)"
      and st': "st' = TERMINATED \<or> st' = PROCESSING_TOOLS"
    using assms(2) unfolding handle_generating_def bind_r_def Let_def by (auto split: sum.splits prod.splits if_splits)
  let ?segs = "segs @ [(True, to_token_ids out)]"
  have "serve env (prompt @ seg_ids segs) (stop_ids (parser_stop_ids env) stop) (ad_image_data d) w = Inr (out, w1)"
    using out segs(2) by (simp add: follows_def)
  then have "segment_ok env prompt segs (True, to_token_ids out)" using segs(3,4) unfolding segment_ok_def by (simp, blast)
  then have "trajectory env prompt ?segs" using segs(1) by (rule Extend [rotated])
  moreover have "follows prompt ?segs d'" using d' segs(2,3) by (auto simp: follows_def record_reply_def)
  ultimately show ?thesis using st' segs(3) by (auto simp: agent_inv_def intro!: exI [of _ ?segs])
qed

lemma processing_cases:
  fixes d :: "('i, 'q, 'e, 'm) agent_data"
  assumes "handle_processing_tools env d w = Inr (st', d', w')"
  obtains (Stop) msgs rewards where "st' = TERMINATED" "d' = record_tools msgs rewards d"
  | (Observe) msgs rewards ids images where "st' = GENERATING" "d' = record_observation ids images (record_tools msgs rewards d)"
      "length (ad_response_mask d) + length ids < response_cap env"
proof -
  have m: "ad_response_mask (record_tools a b d) = ad_response_mask d" for a b by (simp add: record_tools_def)
  obtain responses w1 where c: "call_tools env (ad_active_tools d) (take (max_parallel_calls env) (ad_tool_calls d)) w = (responses, w1)"
    by fastforce
  obtain a :: "'q message list" and i r where f: "fold_r (add_response (has_image_processor env)) responses ([], [], []) = Inr (a, i, r)"
    using assms unfolding handle_processing_tools_def Let_def c prod.case by (cases "fold_r (add_response (has_image_processor env)) responses ([] :: 'q message list, [], [])") auto
  obtain ids where t: "tool_response_ids env a (map fc_name (take (max_parallel_calls env) (ad_tool_calls d))) i = Inr ids"
    using assms unfolding handle_processing_tools_def Let_def c f bind_r_Inr prod.case by (auto simp: bind_r_def split: sum.splits)
  show thesis
    using assms that unfolding handle_processing_tools_def Let_def c f t bind_r_Inr prod.case m by (auto split: if_splits)
qed

lemma processing_inv:
  assumes "agent_inv env prompt PROCESSING_TOOLS d" "handle_processing_tools env d w = Inr (st', d', w')"
  shows "agent_inv env prompt st' d'"
proof -
  obtain segs where segs: "trajectory env prompt segs" "follows prompt segs d" "odd (length segs)"
    using assms(1) by (auto simp: agent_inv_def)
  show ?thesis using assms(2)
  proof (cases rule: processing_cases)
    case Stop
    then have "follows prompt segs d'" using segs(2) by (simp add: follows_def record_tools_def)
    then show ?thesis using Stop segs by (auto simp: agent_inv_def)
  next
    case (Observe msgs rewards ids images)
    let ?segs = "segs @ [(False, ids)]"
    have "segment_ok env prompt segs (False, ids)" using segs(2,3) Observe(3) by (simp add: segment_ok_def follows_def)
    then have "trajectory env prompt ?segs" using segs(1) by (rule Extend [rotated])
    moreover have "follows prompt ?segs d'"
      using Observe(2) segs(2,3) by (auto simp: follows_def record_tools_def record_observation_def elim!: oddE)
    ultimately show ?thesis using Observe segs(2,3) by (auto simp: agent_inv_def follows_def intro!: exI [of _ ?segs])
  qed
qed

lemma pending_inv:
  assumes "handle_pending env d w = Inr (st', d', w')" "ad_response_mask d = []" "ad_assistant_turns d = 0" "ad_user_turns d = 0"
  shows "st' = GENERATING \<and> ad_response_mask d' = [] \<and> ad_assistant_turns d' = 0 \<and> agent_inv env (ad_prompt_ids d') GENERATING d'
     \<and> apply_chat_template env (ad_messages d) (ad_active_tools d) (ad_image_data d) (has_video_or_audio env) False = Inr (ad_prompt_ids d')"
  using assms unfolding handle_pending_def by (auto simp: agent_inv_def follows_def intro!: exI [of _ "[]"] Start)

lemma agent_step_inv:
  assumes "agent_inv env prompt st d" "agent_step env stop st d w = Inr (st', d', w')"
  shows "agent_inv env prompt st' d'"
  using assms generating_inv [of env prompt d stop w st' d' w'] processing_inv [of env prompt d w st' d' w']
  by (cases st) (auto simp: agent_step_def agent_inv_def [of _ _ PENDING])

section \<open>Runs\<close>

lemma agent_loop_keeps:
  fixes I :: "agent_state \<Rightarrow> ('i, 'q, 'e, 'm) agent_data \<Rightarrow> bool"
  assumes step: "\<And>st d w st' d' w'. I st d \<Longrightarrow> st \<noteq> TERMINATED \<Longrightarrow> agent_step env stop st d w = Inr (st', d', w') \<Longrightarrow> I st' d'"
    and run: "agent_loop env stop st d w = Some (Inr (d', w'))" and init: "I st d"
  shows "I TERMINATED d'"
proof -
  have "(\<lambda>(d, w). I TERMINATED d) (d', w')"
    by (rule repeat_r_post [OF run [unfolded agent_loop_def], where I = "\<lambda>(st, d, w). I st d"])
       (use init in \<open>auto split: if_splits intro: step\<close>)
  then show ?thesis by simp
qed

text \<open>A loop returns when every step that does not end it decreases a measure.\<close>

lemma agent_loop_returns:
  fixes f :: "agent_state \<Rightarrow> ('i, 'q, 'e, 'm) agent_data \<Rightarrow> nat"
  assumes step: "\<And>st d w st' d' w'. st \<noteq> TERMINATED \<Longrightarrow> agent_step env stop st d w = Inr (st', d', w') \<Longrightarrow> st' \<noteq> TERMINATED
      \<Longrightarrow> f st' d' < f st d"
  shows "\<exists>r. agent_loop env stop st d w = Some r"
  unfolding agent_loop_def
  by (rule repeat_r_returns [where I = "\<lambda>_. True" and m = "\<lambda>(st, d, w). if st = TERMINATED then 0 else Suc (f st d)"])
     (auto split: if_splits intro: step)

lemma generating_progress:
  assumes "handle_generating env stop False d w = Inr (PROCESSING_TOOLS, d', w')"
  obtains out efields w1 where "serve env (ad_prompt_ids d) (stop_ids (parser_stop_ids env) stop) (ad_image_data d) w = Inr (out, w1)"
    "extract_tool_calls env (to_token_ids out) (ad_active_tools d) \<noteq> []"
    "d' = (record_reply out efields d)\<lparr>ad_tool_calls := extract_tool_calls env (to_token_ids out) (ad_active_tools d)\<rparr>"
    "length (ad_response_mask d') < response_cap env" "\<not> limit_reached (max_assistant_turns env) (ad_assistant_turns d')"
    "length (ad_response_mask d') = length (ad_response_mask d) + length (to_token_ids out)"
    "ad_assistant_turns d' = ad_assistant_turns d + 1"
proof -
  obtain out w1 where s: "serve env (ad_prompt_ids d) (stop_ids (parser_stop_ids env) stop) (ad_image_data d) w = Inr (out, w1)"
    using assms unfolding handle_generating_def bind_r_def by (auto split: sum.splits)
  obtain fs where m: "merge_extra_fields (to_extra_fields out) (ad_extra_fields d) = Inr fs"
    using assms unfolding handle_generating_def s bind_r_Inr prod.case by (auto simp: bind_r_def split: sum.splits)
  have p: "ad_response_ids (record_reply out fs d) = to_token_ids out" "ad_active_tools (record_reply out fs d) = ad_active_tools d"
    by (simp_all add: record_reply_def)
  have *: "extract_tool_calls env (to_token_ids out) (ad_active_tools d) \<noteq> []"
    "d' = (record_reply out fs d)\<lparr>ad_tool_calls := extract_tool_calls env (to_token_ids out) (ad_active_tools d)\<rparr>"
    "length (ad_response_mask (record_reply out fs d)) < response_cap env"
    "\<not> limit_reached (max_assistant_turns env) (ad_assistant_turns (record_reply out fs d))"
    using assms unfolding handle_generating_def s m bind_r_Inr prod.case Let_def p by (auto split: if_splits)
  show thesis by (rule that [OF s *(1,2)]) (use *(2-4) in \<open>auto simp: record_reply_def\<close>)
qed

lemma generating_next:
  assumes "handle_generating env stop False d w = Inr (st', d', w')" "st' \<noteq> TERMINATED"
  shows "st' = PROCESSING_TOOLS"
  using assms unfolding handle_generating_def bind_r_def Let_def by (auto split: sum.splits prod.splits if_splits)

definition state_rank :: "agent_state \<Rightarrow> nat" where
  "state_rank st = (case st of PENDING \<Rightarrow> 2 | PROCESSING_TOOLS \<Rightarrow> 1 | _ \<Rightarrow> 0)"

lemma pending_next:
  assumes "handle_pending env d w = Inr (st', d', w')"
  shows "st' = GENERATING" "ad_assistant_turns d' = ad_assistant_turns d" "ad_response_mask d' = ad_response_mask d"
    "ad_response_logprobs d' = ad_response_logprobs d"
  using assms unfolding handle_pending_def by auto

lemma processing_next:
  assumes "handle_processing_tools env d w = Inr (st', d', w')" "st' \<noteq> TERMINATED"
  shows "st' = GENERATING" "ad_assistant_turns d' = ad_assistant_turns d"
    "length (ad_response_mask d) \<le> length (ad_response_mask d')"
  using assms by (cases rule: processing_cases; simp add: record_observation_def record_tools_def)+

lemma turns_decrease:
  assumes "max_assistant_turns env = Some n" "n \<noteq> 0" "st \<noteq> TERMINATED" "st' \<noteq> TERMINATED"
    and step: "agent_step env stop st d w = Inr (st', d', w')"
  shows "2 * (n - ad_assistant_turns d') + state_rank st' < 2 * (n - ad_assistant_turns d) + state_rank st"
proof (cases st)
  case PENDING
  then show ?thesis using step pending_next by (fastforce simp: agent_step_def state_rank_def)
next
  case GENERATING
  then have g: "handle_generating env stop False d w = Inr (PROCESSING_TOOLS, d', w')" "st' = PROCESSING_TOOLS"
    using step assms(4) generating_next by (fastforce simp: agent_step_def)+
  show ?thesis by (rule generating_progress [OF g(1)]) (use GENERATING g(2) assms(1,2) in \<open>simp add: limit_reached_def state_rank_def\<close>)
next
  case PROCESSING_TOOLS
  then have "handle_processing_tools env d w = Inr (st', d', w')" using step by (simp add: agent_step_def)
  from processing_next [OF this assms(4)] show ?thesis using PROCESSING_TOOLS by (simp add: state_rank_def)
qed (use assms in simp)

lemma room_decreases:
  assumes "\<forall>tls. extract_tool_calls env [] tls = []" "st \<noteq> TERMINATED" "st' \<noteq> TERMINATED"
    and step: "agent_step env stop st d w = Inr (st', d', w')"
  shows "2 * (response_cap env - length (ad_response_mask d')) + state_rank st'
    < 2 * (response_cap env - length (ad_response_mask d)) + state_rank st"
proof (cases st)
  case PENDING
  then show ?thesis using step pending_next by (fastforce simp: agent_step_def state_rank_def)
next
  case GENERATING
  then have g: "handle_generating env stop False d w = Inr (PROCESSING_TOOLS, d', w')" "st' = PROCESSING_TOOLS"
    using step assms(3) generating_next by (fastforce simp: agent_step_def)+
  obtain ids where ids: "extract_tool_calls env ids (ad_active_tools d) \<noteq> []" "length (ad_response_mask d') < response_cap env"
    "length (ad_response_mask d') = length (ad_response_mask d) + length ids"
    by (rule generating_progress [OF g(1)]) blast
  moreover have "ids \<noteq> []" using ids(1) assms(1) by auto
  ultimately show ?thesis using GENERATING g(2) by (cases ids) (simp_all add: state_rank_def)
next
  case PROCESSING_TOOLS
  then have "handle_processing_tools env d w = Inr (st', d', w')" using step by (simp add: agent_step_def)
  from processing_next [OF this assms(3)] show ?thesis using PROCESSING_TOOLS by (simp add: state_rank_def)
qed (use assms in simp)

text \<open>
  [C17] Every run of the tool agent ends, whatever the server, the tools and the tokenizer do: because the number of
  assistant turns is limited, or because the response fills up, as long as the parser finds no tool call in an empty
  reply. (With neither, a server that answers nothing would be asked forever.)
\<close>

theorem tool_agent_terminates:
  assumes "(\<exists>n. max_assistant_turns env = Some n \<and> n \<noteq> 0) \<or> (\<forall>tls. extract_tool_calls env [] tls = [])"
  shows "\<exists>r. tool_agent_run env stop raw_prompt images selection w = Some r"
proof -
  have "\<exists>r. agent_loop env stop PENDING (initial_data env raw_prompt images selection) w = Some r"
    using assms
  proof
    assume "\<exists>n. max_assistant_turns env = Some n \<and> n \<noteq> 0"
    then obtain n where n: "max_assistant_turns env = Some n" "n \<noteq> 0" by blast
    show ?thesis by (rule agent_loop_returns) (rule turns_decrease [OF n])
  next
    assume parser: "\<forall>tls. extract_tool_calls env [] tls = []"
    show ?thesis by (rule agent_loop_returns) (rule room_decreases [OF parser])
  qed
  then show ?thesis by (auto simp: tool_agent_run_def)
qed

lemma tool_agent_trajectory_facts:
  assumes "tool_agent_run env stop raw_prompt images selection w = Some (Inr (out, w'))"
  shows "\<exists>prompt segs. apply_chat_template env (map Given raw_prompt) (active_tools env selection) images (has_video_or_audio env) False = Inr prompt
    \<and> trajectory env prompt segs \<and> odd (length segs) \<and> ao_num_turns out = length segs + 1
    \<and> ao_response_mask out = take (response_cap env) (seg_mask segs)
    \<and> ao_prompt_ids out = prompt
    \<and> ao_response_ids out = take (response_cap env) (if seg_ids segs = [] then prompt else seg_ids segs)"
proof -
  let ?d = "initial_data env raw_prompt images selection"
  obtain d' where run: "agent_loop env stop PENDING ?d w = Some (Inr (d', w'))" and out: "out = finalize env d'"
    using assms by (auto simp: tool_agent_run_def)
  obtain d1 w1 where p: "handle_pending env ?d w = Inr (GENERATING, d1, w1)" and run1: "agent_loop env stop GENERATING d1 w1 = Some (Inr (d', w'))"
    using run by (subst (asm) agent_loop_simps) (auto simp: agent_step_def handle_pending_def bind_r_def split: sum.splits)
  let ?prompt = "ad_prompt_ids d1"
  have init: "agent_inv env ?prompt GENERATING d1"
    and tmpl: "apply_chat_template env (map Given raw_prompt) (active_tools env selection) images (has_video_or_audio env) False = Inr ?prompt"
    using pending_inv [OF p] by (auto simp: initial_data_def)
  have "agent_inv env ?prompt TERMINATED d'"
    by (rule agent_loop_keeps [where I = "agent_inv env ?prompt", OF _ run1 init]) (rule agent_step_inv)
  then obtain segs where segs: "trajectory env ?prompt segs" "follows ?prompt segs d'" "odd (length segs)"
    by (auto simp: agent_inv_def)
  have "(length segs + 1) div 2 + length segs div 2 = length segs" using segs(3) by (auto elim!: oddE)
  then have "ad_user_turns d' + ad_assistant_turns d' = length segs" using segs(2) by (simp add: follows_def)
  then show ?thesis using segs tmpl unfolding out
    by (intro exI [of _ ?prompt] exI [of _ segs]) (auto simp: finalize_def Let_def follows_def last_n_def)
qed

lemma template_fits:
  assumes "apply_chat_template env messages tls images media remove = Inr ids" "0 < prompt_cap env"
  shows "length ids \<le> prompt_cap env"
  using assms by (auto simp: apply_chat_template_def Let_def last_n_def split: if_splits)

text \<open>
  [C12] What a finished run returns is a trajectory: after the templated prompt, generated segments alternate with
  observations; each generated segment is the server's reply to exactly the tokens before it, each observation fits
  into the response, and the mask is 1 on the generated tokens and 0 on the observed ones. The prompt, the response
  and the mask of the output are those of the trajectory, cut at the response length. When all segments are empty,
  \<open>prompt_ids[-0:]\<close> is the whole list, and the prompt is returned as the response, with an empty mask.
\<close>

theorem tool_agent_trajectory:
  assumes "tool_agent_run env stop raw_prompt images selection w = Some (Inr (out, w'))"
  shows "\<exists>prompt segs. apply_chat_template env (map Given raw_prompt) (active_tools env selection) images (has_video_or_audio env) False = Inr prompt
    \<and> trajectory env prompt segs \<and> odd (length segs) \<and> ao_num_turns out = length segs + 1
    \<and> ao_response_mask out = take (response_cap env) (seg_mask segs)
    \<and> ao_prompt_ids out = prompt
    \<and> ao_response_ids out = take (response_cap env) (if seg_ids segs = [] then prompt else seg_ids segs)"
  using assms by (rule tool_agent_trajectory_facts)

text \<open>
  Log-probabilities stay aligned with the response through tool calls: when the server reports one per token, the
  output has exactly one per entry of the mask, and those of observed tokens are 0.
\<close>

theorem tool_agent_logprobs_aligned:
  fixes env :: "('a, 'i, 'q, 'e, 'm, 's) agent_env"
  assumes server: "\<forall>p st im w out w'. serve env p st im w = Inr (out, w')
      \<longrightarrow> (\<exists>lps. to_log_probs out = Some lps \<and> length lps = length (to_token_ids out))"
    and parser: "\<forall>tls. extract_tool_calls env [] tls = []"
    and run: "tool_agent_run env stop raw_prompt images selection w = Some (Inr (out, w'))"
  shows "length (opt_default [] (ao_response_logprobs out)) = length (ao_response_mask out)
    \<and> (\<forall>i < length (ao_response_mask out). ao_response_mask out ! i = 0 \<longrightarrow> opt_default [] (ao_response_logprobs out) ! i = 0)"
proof -
  define I where "I st d \<longleftrightarrow> list_all2 (\<lambda>m lp. m = 0 \<longrightarrow> lp = 0) (ad_response_mask d) (ad_response_logprobs d)
      \<and> (st = PROCESSING_TOOLS \<longrightarrow> ad_response_mask d \<noteq> [])" for st and d :: "('i, 'q, 'e, 'm) agent_data"
  have zeros: "list_all2 (\<lambda>m lp. m = 0 \<longrightarrow> lp = 0) (replicate n (0::int)) (replicate n (0::real))" for n
    by (induction n) simp_all
  have ones: "list_all2 (\<lambda>m lp. m = 0 \<longrightarrow> lp = 0) (replicate (length lps) (1::int)) (lps :: real list)" for lps
    by (induction lps) simp_all
  have step: "I st' d'" if "I st d" "st \<noteq> TERMINATED" "agent_step env stop st d w = Inr (st', d', w')" for st d w st' d' w'
  proof (cases st)
    case PENDING
    then show ?thesis using that pending_next by (fastforce simp: agent_step_def I_def)
  next
    case GENERATING
    then have g: "handle_generating env stop False d w = Inr (st', d', w')" using that(3) by (simp add: agent_step_def)
    then obtain out w1 fs where s: "serve env (ad_prompt_ids d) (stop_ids (parser_stop_ids env) stop) (ad_image_data d) w = Inr (out, w1)"
      and d': "d' = record_reply out fs d \<or> (\<exists>cs. d' = (record_reply out fs d)\<lparr>ad_tool_calls := cs\<rparr>)"
      unfolding handle_generating_def bind_r_def Let_def by (auto split: sum.splits prod.splits if_splits)
    obtain lps where "to_log_probs out = Some lps" "length lps = length (to_token_ids out)" using server s by blast
    then have *: "list_all2 (\<lambda>m lp. m = 0 \<longrightarrow> lp = 0) (ad_response_mask d') (ad_response_logprobs d')"
      using d' that(1) ones [of lps] by (auto simp: record_reply_def I_def intro!: list_all2_appendI)
    have "ad_response_mask d' \<noteq> []" if "st' = PROCESSING_TOOLS"
      by (rule generating_progress [OF g [unfolded that]]) (use parser in \<open>auto simp: record_reply_def\<close>)
    with * show ?thesis by (simp add: I_def)
  next
    case PROCESSING_TOOLS
    then have "handle_processing_tools env d w = Inr (st', d', w')" using that(3) by (simp add: agent_step_def)
    then show ?thesis
      using that(1) PROCESSING_TOOLS zeros
      by (cases rule: processing_cases) (auto simp: I_def record_tools_def record_observation_def intro!: list_all2_appendI)
  qed (use that in simp)
  obtain d' where loop: "agent_loop env stop PENDING (initial_data env raw_prompt images selection) w = Some (Inr (d', w'))"
      and out: "out = finalize env d'" using run by (auto simp: tool_agent_run_def)
  have "I TERMINATED d'" by (rule agent_loop_keeps [where I = I, OF _ loop]) (rule step, auto simp: I_def initial_data_def)
  then have al: "list_all2 (\<lambda>m lp. m = 0 \<longrightarrow> lp = 0) (ad_response_mask d') (ad_response_logprobs d')" by (simp add: I_def)
  have lp: "opt_default [] (ao_response_logprobs out) = take (response_cap env) (ad_response_logprobs d')"
    by (simp add: out finalize_def Let_def)
  have "list_all2 (\<lambda>m lp. m = 0 \<longrightarrow> lp = 0) (ao_response_mask out) (opt_default [] (ao_response_logprobs out))"
    unfolding lp using al by (simp add: out finalize_def Let_def list_all2_takeI)
  then show ?thesis by (auto simp: list_all2_conv_all_nth)
qed

section \<open>Further facts\<close>

text \<open>The marks of the teacher's tokens (and everything else the server attaches) are those of the first reply: later
  replies do not extend them, although the response goes on.\<close>

lemma add_spec_key_other:
  assumes "add_spec_key new key f = Inr g" "k \<noteq> key"
  shows "map_of g k = map_of f k"
  using assms unfolding add_spec_key_def by (auto simp: bind_r_def update_conv split: option.splits sum.splits)

lemma later_replies_keep_extra_fields:
  assumes "merge_extra_fields new f = Inr g" "f \<noteq> []" "k \<noteq> ''max_global_steps''" "k \<notin> set spec_decode_extra_keys"
  shows "map_of g k = map_of f k"
proof -
  have "map_of g k = map_of f k" if "fold_r (add_spec_key new) keys f = Inr g" "k \<notin> set keys" for keys f
    using that
  proof (induction keys arbitrary: f)
    case (Cons key keys)
    then obtain f' where "add_spec_key new key f = Inr f'" "fold_r (add_spec_key new) keys f' = Inr g" by auto
    then show ?case using Cons add_spec_key_other [of new key f f' k] by simp
  qed simp
  then show ?thesis using assms unfolding merge_extra_fields_def Let_def
    by (auto simp: update_conv split: option.splits if_splits)
qed

text \<open>Truncation in the middle to one character: \<open>half\<close> is 0 and \<open>txt[-0:]\<close> is the whole text.\<close>

lemma truncate_to_one_keeps_text:
  assumes "1 < length txt"
  shows "truncate_response 1 ''middle'' txt = ''...(truncated)...'' @ txt"
  using assms by (simp add: truncate_response_def last_n_def Let_def)

theorem single_turn_masks:
  assumes "single_turn_run env max_tokens stop raw_prompt images w = Inr (out, w')"
  shows "ao_response_mask out = replicate (length (ao_response_ids out)) 1"
    and "apply_chat_template env (map Given raw_prompt) [] images (has_video_or_audio env) False = Inr (ao_prompt_ids out)"
  using assms unfolding single_turn_run_def Let_def by (auto simp: py_take_def)

text \<open>A concrete agent: the model calls a calculator once and then answers.\<close>

definition ex_tool :: "(unit, unit, nat) agent_tool" where
  "ex_tool = Function_Tool (\<lambda>_ n. (Inr (RStr ''4''), n + 1))"

definition ex_env :: "(unit, unit, nat, unit, unit, nat) agent_env" where
  "ex_env = \<lparr>max_user_turns = None, max_assistant_turns = None, max_parallel_calls = 1, max_tool_response_length = 8,
     tool_response_truncate_side = ''left'', parser_name = ''hermes'', parser_stop_ids = [], prompt_cap = 5, response_cap = 6,
     has_image_processor = False, has_video_or_audio = False, system_prompt = [9], tools = [(''calc'', ex_tool)],
     conv = \<lparr>json_loads = (\<lambda>_. Inr ()), json_dumps = (\<lambda>_. []), raw_str = (\<lambda>_. []), raw_float = (\<lambda>_. Inr 0), raw_dict = (\<lambda>_. Inr ())\<rparr>,
     parts_repr = (\<lambda>_. []),
     chat_template = (\<lambda>messages _ _. case messages of ToolText t # _ \<Rightarrow> [9, int (length t)] | _ \<Rightarrow> [9, 1, 2]),
     encode = (\<lambda>s. []),
     extract_tool_calls = (\<lambda>ids _. if ids = [7, 7] then [\<lparr>fc_name = ''calc'', fc_arguments = []\<rparr>] else []),
     serve = (\<lambda>prompt _ _ n. Inr (\<lparr>to_token_ids = (if n = 0 then [7, 7] else [8]),
        to_log_probs = Some (if n = 0 then [1, 2] else [3]), to_routed_experts = None, to_stop_reason = None, to_num_preempted = None, to_extra_fields = []\<rparr>, n))\<rparr>"

lemma ex_parser: "\<forall>tls. extract_tool_calls ex_env [] tls = []"
  by (simp add: ex_env_def)

lemma ex_run: "\<exists>out. tool_agent_run ex_env None [0] None None 0 = Some (Inr (out, 1)) \<and> ao_prompt_ids out = [9, 1, 2]
    \<and> ao_response_ids out = [7, 7, 1, 8] \<and> ao_response_mask out = [1, 1, 0, 1] \<and> ao_response_logprobs out = Some [1, 2, 0, 3]"
proof -
  note defs = agent_step_def handle_pending_def handle_generating_def handle_processing_tools_def Let_def merge_extra_fields_def
    record_reply_def record_tools_def record_observation_def limit_reached_def stop_ids_def apply_chat_template_def call_tool_def
    execute_tool_def normalize_function_tool_return_def coerce_response_def text_response_def truncate_response_def
    add_response_def has_media_def tool_message_def tool_response_ids_def initial_data_def active_tools_def ex_env_def ex_tool_def
    spec_decode_extra_keys_def List.map_filter_def
  have "\<exists>d. agent_loop ex_env None PENDING (initial_data ex_env [0] None None) 0 = Some (Inr (d, 1))
    \<and> ad_prompt_ids d = [9, 1, 2, 7, 7, 1, 8] \<and> ad_response_mask d = [1, 1, 0, 1] \<and> ad_response_logprobs d = [1, 2, 0, 3]"
    by (subst agent_loop_simps, simp add: defs)+
  then obtain d where "agent_loop ex_env None PENDING (initial_data ex_env [0] None None) 0 = Some (Inr (d, 1))"
    "ad_prompt_ids d = [9, 1, 2, 7, 7, 1, 8]" "ad_response_mask d = [1, 1, 0, 1]" "ad_response_logprobs d = [1, 2, 0, 3]" by blast
  then show ?thesis by (simp add: tool_agent_run_def finalize_def Let_def last_n_def ex_env_def)
qed

theorem tool_agent_terminates_witness: "\<exists>r. tool_agent_run ex_env None [0] None None 0 = Some r"
  by (rule tool_agent_terminates) (use ex_parser in blast)

theorem tool_agent_trajectory_witness:
  "\<exists>out segs. tool_agent_run ex_env None [0] None None 0 = Some (Inr (out, 1)) \<and> trajectory ex_env [9, 1, 2] segs \<and> odd (length segs)"
proof -
  obtain out where r: "tool_agent_run ex_env None [0] None None 0 = Some (Inr (out, 1))" "ao_prompt_ids out = [9, 1, 2]"
    using ex_run by blast
  obtain segs where "trajectory ex_env (ao_prompt_ids out) segs" "odd (length segs)"
    using tool_agent_trajectory [OF r(1)] by auto
  then show ?thesis using r by auto
qed

theorem tool_agent_logprobs_aligned_witness:
  "\<exists>out. tool_agent_run ex_env None [0] None None 0 = Some (Inr (out, 1)) \<and> length (opt_default [] (ao_response_logprobs out)) = 4"
proof -
  obtain out where r: "tool_agent_run ex_env None [0] None None 0 = Some (Inr (out, 1))" "ao_response_mask out = [1, 1, 0, 1]"
    using ex_run by blast
  have "length (opt_default [] (ao_response_logprobs out)) = length (ao_response_mask out)"
    by (rule tool_agent_logprobs_aligned [OF _ ex_parser r(1), THEN conjunct1]) (simp add: ex_env_def)
  then show ?thesis using r by auto
qed

end
