(* ===== verification/Agent_Batch.thy ===== *)
theory Agent_Batch
  imports Agent_Loop Data_Proto_Laws
begin

text \<open>
  From agent outputs to a batch: the padding of one output in \<open>AgentLoopWorker._agent_loop_postprocess\<close>, the rows that the
  teacher contributes (\<open>teacher_manager.py\<close>), the assembly of a container in \<open>_postprocess\<close>, and the worker and manager that
  run a batch of agents. The text-only path is modelled (no processor). Floats are atoms of the Python values.
\<close>

section \<open>Padding\<close>

text \<open>\<open>tokenizer.pad\<close> to \<open>max_length\<close> leaves longer sequences as they are; it raises when asked to pad without a padding
  token, whatever the length. \<open>_pad_token_ids\<close> fills an empty sequence itself.\<close>

definition pad_ids :: "string \<Rightarrow> nat \<Rightarrow> 'a \<Rightarrow> 'a list \<Rightarrow> 'a list" where
  "pad_ids side max_length x xs =
     (if side = ''left'' then replicate (max_length - length xs) x @ xs else xs @ replicate (max_length - length xs) x)"

definition pad_token_ids :: "int option \<Rightarrow> int option \<Rightarrow> int list \<Rightarrow> nat \<Rightarrow> string \<Rightarrow> (int list \<times> int list) result" where
  "pad_token_ids pad_id eos_id tokens max_length side =
     (if tokens = []
      then (let p = (case pad_id of Some p \<Rightarrow> p | None \<Rightarrow> opt_default 0 eos_id)
            in Inr (replicate max_length p, replicate max_length 0))
      else case pad_id of
        Some p \<Rightarrow> Inr (pad_ids side max_length p tokens, pad_ids side max_length 0 (replicate (length tokens) 1))
      | None \<Rightarrow> Inl (ValueError ''Asking to pad but the tokenizer does not have a padding token''))"

text \<open>\<open>compute_position_id_with_mask\<close>: \<open>clip(cumsum(mask) - 1, min=0)\<close>.\<close>

fun running_sums :: "int \<Rightarrow> int list \<Rightarrow> int list" where
  "running_sums s [] = []"
| "running_sums s (m # ms) = (s + m) # running_sums (s + m) ms"

definition compute_position_id_with_mask :: "int list \<Rightarrow> int list" where
  "compute_position_id_with_mask attention = map (\<lambda>c. max 0 (c - 1)) (running_sums 0 attention)"

section \<open>The teacher\<close>

text \<open>\<open>_get_teacher_sampling_params\<close>: the number of prompt log-probabilities to ask for.\<close>

definition teacher_num_logprobs :: "real \<Rightarrow> bool \<Rightarrow> nat \<Rightarrow> nat result" where
  "teacher_num_logprobs temperature use_topk topk =
     (if temperature \<noteq> 1 then Inl NotImplementedError else Inr (if use_topk then topk else 0))"

definition resolve_teacher_key :: "string list \<Rightarrow> string option \<Rightarrow> string result" where
  "resolve_teacher_key teachers routing_key =
     (if length teachers = 1 then Inr (hd teachers)
      else case routing_key of
        None \<Rightarrow> Inl (ValueError ''Routing key is required for multi-teacher distillation'')
      | Some k \<Rightarrow> if k \<in> set teachers then Inr k else Inl (ValueError ''No teacher configured for routing key''))"

record teacher_reply =
  rep_ids :: "int list list"
  rep_logprobs :: "real list list"
  rep_token_logprobs :: "real list option"

text \<open>\<open>compute_teacher_logprobs_single\<close>; each teacher has its server, called with the token ids and the number of entries.\<close>

definition compute_teacher_logprobs_single :: "(string \<times> (int list \<Rightarrow> nat \<Rightarrow> teacher_reply result)) list \<Rightarrow> real \<Rightarrow> bool \<Rightarrow> nat
    \<Rightarrow> string option \<Rightarrow> int list \<Rightarrow> teacher_reply result" where
  "compute_teacher_logprobs_single teachers temperature use_topk topk routing_key ids =
     bind_r (resolve_teacher_key (map fst teachers) routing_key) (\<lambda>k.
     bind_r (teacher_num_logprobs temperature use_topk topk) (\<lambda>n.
     bind_r (case map_of teachers k of None \<Rightarrow> Inl (KeyError k) | Some client \<Rightarrow> client ids n) (\<lambda>rep.
       if length (rep_ids rep) = length ids \<and> length (rep_logprobs rep) = length ids then Inr rep
       else Inl (AssertionError ''teacher rows''))))"

text \<open>\<open>_pad_teacher_outputs\<close> and the padding of the token log-probabilities: \<open>F.pad\<close> along the positions.\<close>

definition pad_positions :: "nat \<Rightarrow> nat \<Rightarrow> 'a \<Rightarrow> 'a list \<Rightarrow> 'a list" where
  "pad_positions left right x xs = replicate left x @ xs @ replicate right x"

definition pad_teacher_outputs :: "int \<Rightarrow> nat \<Rightarrow> nat \<Rightarrow> int list list \<Rightarrow> real list list \<Rightarrow> int list list \<times> real list list" where
  "pad_teacher_outputs pad_id left right ids lps =
     (let k = (case ids of [] \<Rightarrow> 0 | r # _ \<Rightarrow> length r); k' = (case lps of [] \<Rightarrow> 0 | r # _ \<Rightarrow> length r)
      in (pad_positions left right (replicate k pad_id) ids, pad_positions left right (replicate k' 0) lps))"

section \<open>One output\<close>

record 'e internal_output =
  io_prompt_ids :: "int list"
  io_response_ids :: "int list"
  io_input_ids :: "int list"
  io_position_ids :: "int list"
  io_response_mask :: "int list"
  io_attention_mask :: "int list"
  io_response_logprobs :: "real list option"
  io_routed_experts :: "'e list option"
  io_teacher_ids :: "int list list option"
  io_teacher_logprobs :: "real list list option"
  io_teacher_token_logprobs :: "real list option"
  io_reward_score :: "real option"
  io_num_turns :: nat
  io_metrics :: "real py_obj"
  io_extra_fields :: "real py_obj dict"

record post_config =
  pc_prompt_length :: nat
  pc_response_length :: nat
  pc_pad_token_id :: "int option"
  pc_eos_token_id :: "int option"
  pc_speculative :: bool
  pc_distillation :: bool

text \<open>The check of the teacher mask, which the rollout server must have attached.\<close>

definition relay_mask_key :: string where
  "relay_mask_key = ''relay_teacher_mask''"

definition check_relay_mask :: "bool \<Rightarrow> int list \<Rightarrow> real py_obj dict \<Rightarrow> real py_obj dict result" where
  "check_relay_mask speculative response_ids extra =
     (if speculative \<and> map_of extra relay_mask_key = None
      then if response_ids = [] then Inr (AList.update relay_mask_key (MList []) extra)
        else Inl (RuntimeError ''relay_teacher_mask missing for non-empty response'')
      else Inr extra)"

text \<open>The routed experts are placed at the prompt; a piece that does not fit in the row cannot be assigned.\<close>

definition place_experts :: "nat \<Rightarrow> nat \<Rightarrow> 'e::zero list \<Rightarrow> 'e list result" where
  "place_experts row_len start xs =
     (let stop = min (start + length xs) row_len in
      if stop - start \<noteq> length xs then Inl (RuntimeError ''shape mismatch'')
      else Inr (replicate start 0 @ xs @ replicate (row_len - stop) 0))"

definition opt_dict :: "real py_obj option \<Rightarrow> real py_obj dict" where
  "opt_dict v = (case v of Some (MDict d) \<Rightarrow> d | _ \<Rightarrow> [])"

text \<open>\<open>_agent_loop_postprocess\<close>. The reward loop and the teacher are functions of the agent's output.\<close>

definition agent_loop_postprocess :: "post_config \<Rightarrow> (('i, 'e, real) agent_output \<Rightarrow> (real \<times> real py_obj dict) result) option
    \<Rightarrow> (int list \<Rightarrow> teacher_reply result) \<Rightarrow> bool \<Rightarrow> nat option \<Rightarrow> real py_obj \<Rightarrow> real py_obj \<Rightarrow> real option
    \<Rightarrow> ('i, 'e::zero, real) agent_output \<Rightarrow> 'e internal_output result" where
  "agent_loop_postprocess cfg reward teacher validate response_length raw_prompt metrics score out =
     (let rl = (case response_length of None \<Rightarrow> pc_response_length cfg | Some 0 \<Rightarrow> pc_response_length cfg | Some n \<Rightarrow> n);
          pad = pad_token_ids (pc_pad_token_id cfg) (pc_eos_token_id cfg);
          given = AList.update ''raw_prompt'' raw_prompt
            (AList.update ''tool_rewards'' (MList (map MAtom (ao_tool_rewards out)))
            (AList.update ''turn_scores'' (MList []) (ao_extra_fields out)))
      in bind_r (check_relay_mask (pc_speculative cfg) (ao_response_ids out) given) (\<lambda>extra.
         bind_r (pad (ao_prompt_ids out) (pc_prompt_length cfg) ''left'') (\<lambda>(prompt, prompt_attention).
         bind_r (pad (ao_response_ids out) rl ''right'') (\<lambda>(response, response_attention).
         bind_r (pad (ao_response_mask out) rl ''right'') (\<lambda>(mask_ids, _).
         bind_r (if length mask_ids = length response_attention then Inr (map2 (*) mask_ids response_attention)
                 else Inl (RuntimeError ''shape mismatch'')) (\<lambda>response_mask.
         bind_r (opt_r (place_experts (length prompt + length response) (length prompt - length (ao_prompt_ids out)))
                   (ao_routed_experts out)) (\<lambda>experts.
         bind_r (case (score, reward) of
                   (None, Some f) \<Rightarrow> bind_r (f out) (\<lambda>(s, info). Inr (Some s, AList.update ''reward_extra_info'' (MDict info) extra))
                 | _ \<Rightarrow> Inr (score, extra)) (\<lambda>(score', extra').
         bind_r (if pc_distillation cfg \<and> \<not> validate
                 then bind_r (teacher (ao_prompt_ids out @ ao_response_ids out)) (\<lambda>rep.
                        case pc_pad_token_id cfg of
                          None \<Rightarrow> Inl TypeError
                        | Some p \<Rightarrow> Inr (Some (pad_teacher_outputs p (length prompt - length (ao_prompt_ids out))
                            (length response - length (ao_response_ids out)) (rep_ids rep) (rep_logprobs rep)), rep_token_logprobs rep))
                 else Inr (None, None)) (\<lambda>(teacher_rows, token_lps).
           Inr \<lparr>io_prompt_ids = prompt, io_response_ids = response, io_input_ids = prompt @ response,
                io_position_ids = compute_position_id_with_mask (prompt_attention @ response_attention),
                io_response_mask = response_mask, io_attention_mask = prompt_attention @ response_attention,
                io_response_logprobs = map_option (\<lambda>l. l @ replicate (rl - length l) 0) (ao_response_logprobs out),
                io_routed_experts = experts,
                io_teacher_ids = map_option fst teacher_rows, io_teacher_logprobs = map_option snd teacher_rows,
                io_teacher_token_logprobs = map_option (pad_positions (length prompt - length (ao_prompt_ids out))
                   (length response - length (ao_response_ids out)) 0) token_lps,
                io_reward_score = score', io_num_turns = ao_num_turns out, io_metrics = metrics, io_extra_fields = extra'\<rparr>)))))))))"

section \<open>The batch\<close>

datatype 'e cell = IntRow "int list" | RealRow "real list" | IntRows "int list list" | RealRows "real list list" | ExpertRow "'e list"

fun cell_width :: "'e cell \<Rightarrow> nat \<times> nat" where
  "cell_width (IntRow xs) = (length xs, 0)"
| "cell_width (RealRow xs) = (length xs, 0)"
| "cell_width (IntRows xs) = (length xs, case xs of [] \<Rightarrow> 0 | r # _ \<Rightarrow> length r)"
| "cell_width (RealRows xs) = (length xs, case xs of [] \<Rightarrow> 0 | r # _ \<Rightarrow> length r)"
| "cell_width (ExpertRow xs) = (length xs, 0)"

text \<open>\<open>torch.cat\<close> of single rows.\<close>

definition cat_rows :: "'e cell list \<Rightarrow> 'e cell list result" where
  "cat_rows xs =
     (if xs = [] then Inl (RuntimeError ''expected a non-empty list of Tensors'')
      else if list_all (\<lambda>x. cell_width x = cell_width (hd xs)) xs then Inr xs
      else Inl (RuntimeError ''Sizes of tensors must match''))"

text \<open>An optional column: present when the first output has it, and then all must.\<close>

definition optional_column :: "string \<Rightarrow> ('o \<Rightarrow> 'e cell option) \<Rightarrow> 'o list \<Rightarrow> (string \<times> 'e cell list) list result" where
  "optional_column key f outs =
     (case outs of
        [] \<Rightarrow> Inl IndexError
      | out # _ \<Rightarrow>
          (if f out = None then Inr []
           else bind_r (map_r (\<lambda>x. case f x of None \<Rightarrow> Inl TypeError | Some c \<Rightarrow> Inr c) outs) (\<lambda>cs.
                bind_r (cat_rows cs) (\<lambda>cs. Inr [(key, cs)]))))"

text \<open>\<open>rm_scores\<close>: zero except at the last token of the response.\<close>

definition score_row :: "int list \<Rightarrow> int list \<Rightarrow> real \<Rightarrow> real list" where
  "score_row response_attention response_mask score =
     (let n = sum_list response_attention; zeros = replicate (length response_mask) 0
      in if n > 0 then zeros[nat (n - 1) := score] else zeros)"

definition rm_scores :: "nat \<Rightarrow> 'e internal_output list \<Rightarrow> (string \<times> 'e cell list) list" where
  "rm_scores prompt_length outs =
     (if list_all (\<lambda>x. io_reward_score x \<noteq> None) outs
      then [(''rm_scores'', map (\<lambda>x. RealRow (score_row (drop prompt_length (io_attention_mask x)) (io_response_mask x)
               (the (io_reward_score x)))) outs)]
      else [])"

definition default_extra_keys :: "string list" where
  "default_extra_keys = [''turn_scores'', ''tool_rewards'', ''min_global_steps'', ''max_global_steps'', ''extras'']"

text \<open>The extra fields as columns; the keys are a set, listed here in the order of their first occurrence.\<close>

definition extra_columns :: "'e internal_output list \<Rightarrow> (string \<times> real py_obj list) list" where
  "extra_columns outs =
     map (\<lambda>key. (key, map (\<lambda>x. opt_default MNone (map_of (io_extra_fields x) key)) outs))
       (rev (remdups (rev (concat (map (\<lambda>x. map fst (io_extra_fields x)) outs) @ default_extra_keys))))"

definition reward_columns :: "'e internal_output list \<Rightarrow> (string list \<times> (string \<times> real py_obj list) list) result" where
  "reward_columns outs =
     (let infos = map (\<lambda>x. opt_dict (map_of (io_extra_fields x) ''reward_extra_info'')) outs;
          keys = (case infos of [] \<Rightarrow> [] | info # _ \<Rightarrow> map fst info)
      in bind_r (map_r (\<lambda>key. bind_r (map_r (\<lambda>info. case map_of info key of None \<Rightarrow> Inl (KeyError key) | Some v \<Rightarrow> Inr v) infos)
             (\<lambda>col. Inr (key, col))) keys) (\<lambda>cols. Inr (keys, cols)))"

definition update_all :: "'v dict \<Rightarrow> 'v dict \<Rightarrow> 'v dict" where
  "update_all new d = fold (\<lambda>(k, v). AList.update k v) new d"

text \<open>\<open>_postprocess\<close>.\<close>

definition postprocess :: "bool \<Rightarrow> (string \<times> real py_obj list) list \<Rightarrow> 'e internal_output list
    \<Rightarrow> ('e cell, real py_obj, real) data_proto result" where
  "postprocess reward_loop input_non_tensor outs =
     bind_r (map_r (\<lambda>(key, f). bind_r (cat_rows (map (\<lambda>x. IntRow (f x)) outs)) (\<lambda>cs. Inr (key, cs)))
        [(''prompts'', io_prompt_ids), (''responses'', io_response_ids), (''response_mask'', io_response_mask),
         (''input_ids'', io_input_ids), (''attention_mask'', io_attention_mask), (''position_ids'', io_position_ids)]) (\<lambda>cols.
     bind_r (optional_column ''rollout_log_probs'' (map_option RealRow \<circ> io_response_logprobs) outs) (\<lambda>c1.
     bind_r (optional_column ''routed_experts'' (map_option ExpertRow \<circ> io_routed_experts) outs) (\<lambda>c2.
     bind_r (optional_column ''teacher_logprobs'' (map_option RealRows \<circ> io_teacher_logprobs) outs) (\<lambda>c3.
     bind_r (optional_column ''teacher_ids'' (map_option IntRows \<circ> io_teacher_ids) outs) (\<lambda>c4.
     bind_r (optional_column ''teacher_token_logprobs'' (map_option RealRow \<circ> io_teacher_token_logprobs) outs) (\<lambda>c5.
     bind_r (reward_columns outs) (\<lambda>(reward_keys, reward_cols).
       let scores = rm_scores (length (io_prompt_ids (hd outs))) outs;
           nt = [(''__num_turns__'', map (\<lambda>x. MInt (int (io_num_turns x))) outs)];
           nt = (if \<not> reward_loop then update_all input_non_tensor nt else nt);
           nt = AList.update ''multi_modal_inputs'' (map (\<lambda>_. MDict []) outs) (update_all reward_cols nt);
           nt = update_all (extra_columns outs) nt;
           metrics = (''metrics'', MList (map io_metrics outs))
       in bind_r (make_td (length outs) (cols @ c1 @ c2 @ c3 @ c4 @ c5 @ scores)) (\<lambda>td.
          make_dp (Some td) nt (if scores = [] then [metrics] else [metrics, (''reward_extra_keys'', MList (map MStr reward_keys))])))))))))"

section \<open>Worker and manager\<close>

record agent_sampling =
  as_temperature :: real
  as_top_p :: real
  as_top_k :: int
  as_logprobs :: bool
  as_max_tokens :: "int option"
  as_seed :: "int option"

record worker_config =
  wc_temperature :: real
  wc_top_p :: real
  wc_top_k :: int
  wc_logprobs :: bool
  wc_val_temperature :: real
  wc_val_top_p :: real
  wc_val_top_k :: int
  wc_val_max_tokens :: int
  wc_default_agent :: string
  wc_post :: post_config

text \<open>The sampling parameters of a batch and the width of its responses; validation overrides both.\<close>

definition batch_sampling :: "worker_config \<Rightarrow> bool \<Rightarrow> agent_sampling \<times> nat" where
  "batch_sampling cfg validate =
     (let limit = validate \<and> wc_val_max_tokens cfg > 0 in
      (\<lparr>as_temperature = (if validate then wc_val_temperature cfg else wc_temperature cfg),
        as_top_p = (if validate then wc_val_top_p cfg else wc_top_p cfg),
        as_top_k = (if validate then wc_val_top_k cfg else wc_top_k cfg),
        as_logprobs = wc_logprobs cfg,
        as_max_tokens = (if limit then Some (wc_val_max_tokens cfg) else None), as_seed = None\<rparr>,
       if limit then nat (wc_val_max_tokens cfg) else pc_response_length (wc_post cfg)))"

definition greedy_sampling :: "agent_sampling \<Rightarrow> agent_sampling" where
  "greedy_sampling p = p\<lparr>as_top_p := 1, as_top_k := - 1, as_temperature := 0\<rparr>"

definition sample_sampling :: "bool \<Rightarrow> real py_obj option \<Rightarrow> real py_obj option \<Rightarrow> agent_sampling \<Rightarrow> agent_sampling result" where
  "sample_sampling validate seed do_sample p =
     bind_r (case seed of None \<Rightarrow> Inr p | Some s \<Rightarrow> if validate then bind_r (py_int_of s) (\<lambda>i. Inr (p\<lparr>as_seed := Some i\<rparr>)) else Inr p) (\<lambda>p.
       Inr (case do_sample of None \<Rightarrow> p | Some b \<Rightarrow> if \<not> validate \<and> \<not> py_truth b then greedy_sampling p else p))"

text \<open>\<open>get_trajectory_info\<close>: repeated indices in a row are rollouts of one sample.\<close>

record 'x trajectory_info =
  ti_sample_index :: 'x
  ti_rollout_n :: nat

fun get_trajectory_info :: "('x \<times> nat) option \<Rightarrow> 'x list \<Rightarrow> 'x trajectory_info list" where
  "get_trajectory_info prev [] = []"
| "get_trajectory_info prev (x # xs) =
     (let n = (case prev of None \<Rightarrow> 0 | Some (y, k) \<Rightarrow> if y = x then k + 1 else 0)
      in \<lparr>ti_sample_index = x, ti_rollout_n = n\<rparr> # get_trajectory_info (Some (x, n)) xs)"

text \<open>The agents of the registry, by name: what \<open>run\<close> returns with its metrics and a score, if the agent computes one.\<close>

type_synonym ('i, 'e) agent =
  "agent_sampling \<Rightarrow> real py_obj trajectory_info \<Rightarrow> (string \<times> real py_obj) list \<Rightarrow> (('i, 'e, real) agent_output \<times> real py_obj \<times> real option) result"

definition internal_keys :: "string list" where
  "internal_keys = [''__do_sample__'', ''__sampling_seed__'']"

definition run_agent_loop :: "worker_config \<Rightarrow> (string \<rightharpoonup> ('i, 'e) agent) \<Rightarrow> (('i, 'e, real) agent_output \<Rightarrow> (real \<times> real py_obj dict) result) option
    \<Rightarrow> (int list \<Rightarrow> teacher_reply result) \<Rightarrow> bool \<Rightarrow> nat \<Rightarrow> agent_sampling \<Rightarrow> real py_obj trajectory_info \<Rightarrow> (string \<times> real py_obj) list
    \<Rightarrow> 'e::zero internal_output result" where
  "run_agent_loop cfg agents reward teacher validate response_length p info row =
     (case map_of row ''agent_name'' of
        Some (MStr name) \<Rightarrow>
          (case agents name of
             None \<Rightarrow> Inl (AssertionError ''Agent loop not registered'')
           | Some agent \<Rightarrow>
               bind_r (agent p info (filter (\<lambda>(k, _). k \<noteq> ''agent_name'') row)) (\<lambda>(out, metrics, score).
                 case map_of row ''raw_prompt'' of
                   None \<Rightarrow> Inl (KeyError ''raw_prompt'')
                 | Some prompt \<Rightarrow> agent_loop_postprocess (wc_post cfg) reward teacher validate (Some response_length) prompt metrics score out))
      | _ \<Rightarrow> Inl (AssertionError ''Agent loop not registered''))"

definition meta_flag :: "string \<Rightarrow> ('t, 'n, 'm) data_proto \<Rightarrow> bool" where
  "meta_flag k d = (case map_of (dp_meta d) k of None \<Rightarrow> False | Some v \<Rightarrow> py_truth v)"

text \<open>\<open>AgentLoopWorker.generate_sequences\<close>: one agent per row, in any order; the outputs are gathered in the order of the rows.\<close>

definition worker_generate :: "worker_config \<Rightarrow> (string \<rightharpoonup> ('i, 'e) agent) \<Rightarrow> (('i, 'e, real) agent_output \<Rightarrow> (real \<times> real py_obj dict) result) option
    \<Rightarrow> (int list \<Rightarrow> teacher_reply result) \<Rightarrow> ('t, real py_obj, real) data_proto \<Rightarrow> ('e::zero cell, real py_obj, real) data_proto result" where
  "worker_generate cfg agents reward teacher batch =
     (let n = dp_len batch; validate = meta_flag ''validate'' batch; nt0 = dp_non_tensor batch;
          nt = (if map_of nt0 ''agent_name'' = None then nt0 @ [(''agent_name'', replicate n (MStr (wc_default_agent cfg)))] else nt0);
          index = (case map_of nt ''index'' of Some c \<Rightarrow> c | None \<Rightarrow> map (\<lambda>i. MInt (int i)) [0..<n]);
          (p, response_length) = batch_sampling cfg validate; infos = get_trajectory_info None index
      in bind_r (map_r (\<lambda>i.
             let row = map (\<lambda>(k, c). (k, c ! i)) nt in
             bind_r (sample_sampling validate (map_of row ''__sampling_seed__'') (map_of row ''__do_sample__'') p) (\<lambda>pi.
               run_agent_loop cfg agents reward teacher validate response_length pi (infos ! i)
                 (filter (\<lambda>(k, _). k \<notin> set internal_keys) row))) [0..<n])
           (postprocess (reward \<noteq> None) nt))"

text \<open>\<open>_performance_metrics\<close>: minimum, maximum and mean of four quantities, and those of the slowest sample.\<close>

definition metric_of :: "string \<Rightarrow> real py_obj \<Rightarrow> real result" where
  "metric_of key m =
     (case m of
        MDict d \<Rightarrow> (case map_of d key of Some (MAtom x) \<Rightarrow> Inr x | Some (MInt i) \<Rightarrow> Inr (of_int i) | Some _ \<Rightarrow> Inl TypeError | None \<Rightarrow> Inl (KeyError key))
      | _ \<Rightarrow> Inl TypeError)"

definition summary :: "string \<Rightarrow> real list \<Rightarrow> (string \<times> real) list" where
  "summary name xs =
     [(''agent_loop/'' @ name @ ''/min'', Min (set xs)), (''agent_loop/'' @ name @ ''/max'', Max (set xs)),
      (''agent_loop/'' @ name @ ''/mean'', sum_list xs / real (length xs))]"

definition argmax :: "real list \<Rightarrow> nat" where
  "argmax xs = length (takeWhile (\<lambda>x. x \<noteq> Max (set xs)) xs)"

definition performance_metrics :: "real py_obj list \<Rightarrow> (int list list \<times> nat) option \<Rightarrow> (string \<times> real) list result" where
  "performance_metrics metrics attention =
     bind_r (map_r (metric_of ''generate_sequences'') metrics) (\<lambda>gen.
     bind_r (map_r (metric_of ''tool_calls'') metrics) (\<lambda>tool.
     bind_r (map_r (metric_of ''compute_score'') metrics) (\<lambda>score.
     bind_r (map_r (metric_of ''num_preempted'') metrics) (\<lambda>pre.
       if metrics = [] then Inl (ValueError ''zero-size array to reduction operation'')
       else let slow = argmax (map2 (+) (map2 (+) gen tool) score) in
       Inr (summary ''num_preempted'' pre @ summary ''generate_sequences'' gen @ summary ''tool_calls'' tool @ summary ''compute_score'' score
          @ [(''agent_loop/slowest/generate_sequences'', gen ! slow), (''agent_loop/slowest/tool_calls'', tool ! slow),
             (''agent_loop/slowest/compute_score'', score ! slow), (''agent_loop/slowest/num_preempted'', pre ! slow)]
          @ (case attention of
               None \<Rightarrow> []
             | Some (rows, p) \<Rightarrow> [(''agent_loop/slowest/prompt_length'', of_int (sum_list (take p (rows ! slow)))),
                 (''agent_loop/slowest/response_length'', of_int (sum_list (drop p (rows ! slow))))]))))))"

definition int_rows :: "string \<Rightarrow> ('e cell, 'n, 'm) data_proto \<Rightarrow> int list list result" where
  "int_rows key d =
     (case dp_batch d of
        None \<Rightarrow> Inl TypeError
      | Some td \<Rightarrow> (case map_of (td_items td) key of
          None \<Rightarrow> Inl (KeyError key)
        | Some cs \<Rightarrow> map_r (\<lambda>c. case c of IntRow xs \<Rightarrow> Inr xs | _ \<Rightarrow> Inl TypeError) cs))"

definition pop_metrics :: "('t, 'n, real) data_proto \<Rightarrow> (real py_obj list \<times> real py_obj dict) result" where
  "pop_metrics d =
     (case map_of (dp_meta d) ''metrics'' of
        Some (MList ms) \<Rightarrow> Inr (ms, AList.delete ''metrics'' (dp_meta d))
      | Some _ \<Rightarrow> Inl TypeError
      | None \<Rightarrow> Inl (KeyError ''metrics''))"

text \<open>\<open>AgentLoopManager.generate_sequences\<close>: a chunk of the prompts per worker.\<close>

definition manager_generate :: "bool \<Rightarrow> (('t, real py_obj, real) data_proto \<Rightarrow> ('e::zero cell, real py_obj, real) data_proto result) list
    \<Rightarrow> ('t, real py_obj, real) data_proto \<Rightarrow> ('e cell, real py_obj, real) data_proto result" where
  "manager_generate config workers prompts =
     bind_r (dp_chunk config (length workers) prompts) (\<lambda>chunked.
       if length chunked \<noteq> length workers then Inl (ValueError ''zip() arguments must have equal length'')
       else bind_r (map_r (\<lambda>(worker, c). worker c) (zip workers chunked)) (\<lambda>outputs.
            bind_r (dp_concat outputs) (\<lambda>merged.
            bind_r (map_r pop_metrics outputs) (\<lambda>popped.
            bind_r (int_rows ''attention_mask'' merged) (\<lambda>attention.
            bind_r (int_rows ''prompts'' merged) (\<lambda>prompt_rows.
            bind_r (performance_metrics (concat (map fst popped)) (Some (attention, length (hd (prompt_rows @ [[]]))))) (\<lambda>timing.
              case popped of
                [] \<Rightarrow> Inl IndexError
              | (_, rest) # _ \<Rightarrow> Inr (merged\<lparr>dp_meta := update_all rest [(''timing'', MDict (map (\<lambda>(k, x). (k, MAtom x)) timing))]\<rparr>))))))))"

section \<open>Padding keeps the trajectory\<close>

lemma running_sums_append: "running_sums s (xs @ ys) = running_sums s xs @ running_sums (s + sum_list xs) ys"
  by (induction xs arbitrary: s) (simp_all add: ac_simps)

lemma running_sums_zeros: "running_sums s (replicate n 0) = replicate n s"
  by (induction n) simp_all

lemma running_sums_ones: "running_sums s (replicate n 1) = map (\<lambda>i. s + 1 + int i) [0..<n]"
proof (induction n arbitrary: s)
  case (Suc n)
  have "[0..<Suc n] = 0 # map Suc [0..<n]" by (simp only: upt_conv_Cons [OF zero_less_Suc] map_Suc_upt)
  then show ?case by (simp add: Suc comp_def add.assoc del: upt_Suc)
qed simp

lemma position_ids_of_block:
  "compute_position_id_with_mask (replicate a 0 @ replicate n 1 @ replicate b 0)
     = replicate a 0 @ map int [0..<n] @ replicate b (max 0 (int n - 1))"
  by (simp add: compute_position_id_with_mask_def running_sums_append running_sums_zeros running_sums_ones sum_list_replicate comp_def)

lemma times_masks: "length xs = n \<Longrightarrow> map2 (*) (xs @ ys) (replicate n (1::int) @ replicate m 0) = xs @ map2 (*) ys (replicate m 0)"
proof -
  have "map2 (*) xs (replicate (length xs) (1::int)) = xs" by (induction xs) simp_all
  then show "length xs = n \<Longrightarrow> ?thesis" by auto
qed

lemma times_zeros: "length xs = n \<Longrightarrow> map2 (*) xs (replicate n (0::int)) = replicate n 0"
  by (induction xs arbitrary: n) auto

lemma pad_token_ids_run:
  assumes "pad_token_ids pad_id eos_id tokens n side = Inr (ids, att)" "length tokens \<le> n"
  shows "\<exists>p. ids = pad_ids side n p tokens \<and> att = pad_ids side n 0 (replicate (length tokens) 1)"
proof (cases "tokens = []")
  case True
  then show ?thesis using assms by (auto simp: pad_token_ids_def pad_ids_def)
next
  case False
  then show ?thesis using assms by (auto simp: pad_token_ids_def pad_ids_def split: option.splits if_splits)
qed

text \<open>The widths in use, and the parts of a successful postprocessing.\<close>

definition row_width :: "post_config \<Rightarrow> nat option \<Rightarrow> nat" where
  "row_width cfg response_length = (case response_length of None \<Rightarrow> pc_response_length cfg | Some 0 \<Rightarrow> pc_response_length cfg | Some n \<Rightarrow> n)"

lemma postprocess_parts:
  assumes "agent_loop_postprocess cfg reward teacher validate rl raw_prompt metrics score out = Inr io"
  obtains pids patt rids ratt mids matt where
    "pad_token_ids (pc_pad_token_id cfg) (pc_eos_token_id cfg) (ao_prompt_ids out) (pc_prompt_length cfg) ''left'' = Inr (pids, patt)"
    "pad_token_ids (pc_pad_token_id cfg) (pc_eos_token_id cfg) (ao_response_ids out) (row_width cfg rl) ''right'' = Inr (rids, ratt)"
    "pad_token_ids (pc_pad_token_id cfg) (pc_eos_token_id cfg) (ao_response_mask out) (row_width cfg rl) ''right'' = Inr (mids, matt)"
    "io_prompt_ids io = pids" "io_response_ids io = rids" "io_input_ids io = pids @ rids" "io_attention_mask io = patt @ ratt"
    "io_position_ids io = compute_position_id_with_mask (patt @ ratt)" "io_response_mask io = map2 (*) mids ratt"
    "io_response_logprobs io = map_option (\<lambda>l. l @ replicate (row_width cfg rl - length l) 0) (ao_response_logprobs out)"
  using assms unfolding agent_loop_postprocess_def Let_def row_width_def [symmetric] bind_r_eq_Inr
  by (auto split: if_splits prod.splits option.splits)

lemma padded_row:
  assumes run: "agent_loop_postprocess cfg reward teacher validate rl raw_prompt metrics score out = Inr io"
    and fits: "length (ao_prompt_ids out) \<le> pc_prompt_length cfg" "length (ao_response_ids out) \<le> row_width cfg rl"
    and mask_len: "length (ao_response_mask out) = length (ao_response_ids out)"
  shows "\<exists>p q. io_prompt_ids io = replicate (pc_prompt_length cfg - length (ao_prompt_ids out)) p @ ao_prompt_ids out
      \<and> io_response_ids io = ao_response_ids out @ replicate (row_width cfg rl - length (ao_response_ids out)) q"
    and "io_input_ids io = io_prompt_ids io @ io_response_ids io"
    and "io_attention_mask io = replicate (pc_prompt_length cfg - length (ao_prompt_ids out)) 0
      @ replicate (length (ao_prompt_ids out) + length (ao_response_ids out)) 1
      @ replicate (row_width cfg rl - length (ao_response_ids out)) 0"
    and "io_position_ids io = replicate (pc_prompt_length cfg - length (ao_prompt_ids out)) 0
      @ map int [0..<length (ao_prompt_ids out) + length (ao_response_ids out)]
      @ replicate (row_width cfg rl - length (ao_response_ids out)) (max 0 (int (length (ao_prompt_ids out) + length (ao_response_ids out)) - 1))"
    and "io_response_mask io = ao_response_mask out @ replicate (row_width cfg rl - length (ao_response_ids out)) 0"
proof -
  let ?a = "pc_prompt_length cfg - length (ao_prompt_ids out)" and ?b = "row_width cfg rl - length (ao_response_ids out)"
  obtain pids patt rids ratt mids matt where
    p: "pad_token_ids (pc_pad_token_id cfg) (pc_eos_token_id cfg) (ao_prompt_ids out) (pc_prompt_length cfg) ''left'' = Inr (pids, patt)"
    and r: "pad_token_ids (pc_pad_token_id cfg) (pc_eos_token_id cfg) (ao_response_ids out) (row_width cfg rl) ''right'' = Inr (rids, ratt)"
    and m: "pad_token_ids (pc_pad_token_id cfg) (pc_eos_token_id cfg) (ao_response_mask out) (row_width cfg rl) ''right'' = Inr (mids, matt)"
    and io: "io_prompt_ids io = pids" "io_response_ids io = rids" "io_input_ids io = pids @ rids" "io_attention_mask io = patt @ ratt"
      "io_position_ids io = compute_position_id_with_mask (patt @ ratt)" "io_response_mask io = map2 (*) mids ratt"
    by (rule postprocess_parts [OF run])
  obtain x where x: "pids = replicate ?a x @ ao_prompt_ids out" "patt = replicate ?a 0 @ replicate (length (ao_prompt_ids out)) 1"
    using pad_token_ids_run [OF p fits(1)] by (auto simp: pad_ids_def)
  obtain y where y: "rids = ao_response_ids out @ replicate ?b y" "ratt = replicate (length (ao_response_ids out)) 1 @ replicate ?b 0"
    using pad_token_ids_run [OF r fits(2)] by (auto simp: pad_ids_def)
  obtain z where z: "mids = ao_response_mask out @ replicate ?b z"
    using pad_token_ids_run [OF m] fits(2) mask_len by (auto simp: pad_ids_def)
  show "\<exists>p q. io_prompt_ids io = replicate ?a p @ ao_prompt_ids out \<and> io_response_ids io = ao_response_ids out @ replicate ?b q"
    using io(1,2) x(1) y(1) by auto
  show "io_input_ids io = io_prompt_ids io @ io_response_ids io" using io by simp
  show att: "io_attention_mask io = replicate ?a 0 @ replicate (length (ao_prompt_ids out) + length (ao_response_ids out)) 1 @ replicate ?b 0"
    by (simp add: io x y replicate_add)
  show "io_position_ids io = replicate ?a 0 @ map int [0..<length (ao_prompt_ids out) + length (ao_response_ids out)]
      @ replicate ?b (max 0 (int (length (ao_prompt_ids out) + length (ao_response_ids out)) - 1))"
    using att unfolding io(4,5) by (simp only: position_ids_of_block)
  show "io_response_mask io = ao_response_mask out @ replicate ?b 0"
    unfolding io z y using mask_len by (simp only: times_masks times_zeros length_replicate)
qed

text \<open>
  An empty mask with a non-empty response: \<open>_pad_token_ids\<close> fills the mask with the padding token, and the product with the
  response's attention mask leaves that number as the weight of every token of the response. A tool agent whose replies
  are all empty returns exactly this, with its prompt as the response.
\<close>

lemma empty_mask_weights_response:
  assumes run: "agent_loop_postprocess cfg reward teacher validate rl raw_prompt metrics score out = Inr io"
    and "pc_pad_token_id cfg = Some p" "ao_response_mask out = []" "length (ao_response_ids out) \<le> row_width cfg rl"
  shows "io_response_mask io = replicate (length (ao_response_ids out)) p @ replicate (row_width cfg rl - length (ao_response_ids out)) 0"
proof -
  let ?n = "length (ao_response_ids out)" and ?w = "row_width cfg rl"
  obtain rids ratt mids matt where
    r: "pad_token_ids (pc_pad_token_id cfg) (pc_eos_token_id cfg) (ao_response_ids out) ?w ''right'' = Inr (rids, ratt)"
    and m: "pad_token_ids (pc_pad_token_id cfg) (pc_eos_token_id cfg) (ao_response_mask out) ?w ''right'' = Inr (mids, matt)"
    and io: "io_response_mask io = map2 (*) mids ratt"
    by (rule postprocess_parts [OF run])
  have "ratt = replicate ?n 1 @ replicate (?w - ?n) 0" using pad_token_ids_run [OF r assms(4)] by (auto simp: pad_ids_def)
  moreover have "mids = replicate ?n p @ replicate (?w - ?n) p"
    using m assms(2,3,4) by (simp add: pad_token_ids_def flip: replicate_add)
  ultimately show ?thesis unfolding io by (simp only: times_masks times_zeros length_replicate)
qed

text \<open>The tokens of a row that a 0/1 row marks.\<close>

definition marked :: "int list \<Rightarrow> 'a list \<Rightarrow> 'a list" where
  "marked m xs = map fst (filter (\<lambda>(x, b). b = 1) (zip xs m))"

lemma zip_take1: "zip (take n xs) ys = take n (zip xs ys)"
proof (induction n arbitrary: xs ys)
  case (Suc n)
  then show ?case by (cases xs; cases ys) simp_all
qed simp

lemma marked_append: "length m = length xs \<Longrightarrow> marked (m @ m') (xs @ ys) = marked m xs @ marked m' ys"
  by (simp add: marked_def)

lemma marked_replicate [simp]:
  "length xs = n \<Longrightarrow> marked (replicate n 1) xs = xs" "marked (replicate n 0) xs = []"
proof -
  have "filter (\<lambda>(x, b). b = 1) (zip xs (replicate (length xs) (1::int))) = zip xs (replicate (length xs) 1)"
    by (auto simp: filter_id_conv set_zip)
  then show "length xs = n \<Longrightarrow> marked (replicate n 1) xs = xs" by (auto simp: marked_def)
  show "marked (replicate n 0) xs = []" by (auto simp: marked_def filter_empty_conv set_zip)
qed

lemma marked_trajectory: "marked (seg_mask segs) (seg_ids segs) = concat (map snd (filter fst segs))"
proof (induction segs)
  case (Cons s segs)
  obtain g ids where s: "s = (g, ids)" by (cases s)
  have "marked (seg_mask (s # segs)) (seg_ids (s # segs))
      = marked (replicate (length ids) (if g then 1 else 0) @ seg_mask segs) (ids @ seg_ids segs)"
    by (simp add: s seg_mask_def seg_ids_def)
  also have "\<dots> = (if g then ids else []) @ marked (seg_mask segs) (seg_ids segs)" by (subst marked_append) simp_all
  finally show ?case using Cons by (simp add: s)
qed (simp add: marked_def)

text \<open>The row of a run that generated something.\<close>

lemma tool_agent_row_marks:
  assumes run: "tool_agent_run env stop raw images selection w = Some (Inr (out, w'))" and some: "ao_response_mask out \<noteq> []"
    and post: "agent_loop_postprocess cfg reward teacher validate rl raw_prompt metrics score out = Inr io"
    and widths: "0 < prompt_cap env" "prompt_cap env \<le> pc_prompt_length cfg" "response_cap env \<le> row_width cfg rl"
  shows "\<exists>prompt segs. trajectory env prompt segs \<and> ao_prompt_ids out = prompt
    \<and> marked (io_attention_mask io) (io_input_ids io) = prompt @ take (response_cap env) (seg_ids segs)
    \<and> marked (io_attention_mask io) (io_position_ids io) = map int [0..<length (prompt @ take (response_cap env) (seg_ids segs))]
    \<and> (length (seg_ids segs) \<le> response_cap env \<longrightarrow> marked (io_response_mask io) (io_response_ids io) = concat (map snd (filter fst segs)))
    \<and> marked (io_response_mask io) (io_response_ids io) = marked (seg_mask segs) (take (response_cap env) (seg_ids segs))"
proof -
  let ?L = "response_cap env"
  obtain prompt segs where tmpl: "apply_chat_template env (map Given raw) (active_tools env selection) images (has_video_or_audio env) False = Inr prompt"
    and segs: "trajectory env prompt segs" "ao_response_mask out = take ?L (seg_mask segs)" "ao_prompt_ids out = prompt"
      "ao_response_ids out = take ?L (if seg_ids segs = [] then prompt else seg_ids segs)"
    using tool_agent_trajectory_facts [OF run] by blast
  have ne: "seg_ids segs \<noteq> []" using some segs(2) by (metis length_0_conv length_seg_mask take_Nil)
  have resp: "ao_response_ids out = take ?L (seg_ids segs)" using segs(4) ne by simp
  have lens: "length (ao_prompt_ids out) \<le> pc_prompt_length cfg" "length (ao_response_ids out) \<le> row_width cfg rl"
    "length (ao_response_mask out) = length (ao_response_ids out)"
    using template_fits [OF tmpl widths(1)] widths segs(2,3) by (simp_all add: resp)
  note row = padded_row [OF post lens]
  obtain p q where pq: "io_prompt_ids io = replicate (pc_prompt_length cfg - length prompt) p @ prompt"
      "io_response_ids io = ao_response_ids out @ replicate (row_width cfg rl - length (ao_response_ids out)) q"
    using row(1) segs(3) by auto
  have att: "marked (io_attention_mask io) (io_input_ids io) = prompt @ ao_response_ids out"
    unfolding row(2,3) pq segs(3) replicate_add append_assoc by (simp add: marked_append)
  have pos: "marked (io_attention_mask io) (io_position_ids io) = map int [0..<length (prompt @ ao_response_ids out)]"
    unfolding row(3,4) segs(3) by (simp add: marked_append)
  have mrk: "marked (io_response_mask io) (io_response_ids io) = marked (take ?L (seg_mask segs)) (take ?L (seg_ids segs))"
    unfolding row(5) pq(2) by (simp add: marked_append lens(3)) (simp add: segs(2) resp)
  have cut: "marked (take ?L (seg_mask segs)) (take ?L (seg_ids segs)) = marked (seg_mask segs) (take ?L (seg_ids segs))"
    using zip_take1 [of ?L "seg_ids segs" "seg_mask segs"] by (simp add: marked_def take_zip)
  have full: "marked (seg_mask segs) (take ?L (seg_ids segs)) = concat (map snd (filter fst segs))" if "length (seg_ids segs) \<le> ?L"
    using that marked_trajectory [of segs] by simp
  show ?thesis
    by (rule exI [of _ prompt], rule exI [of _ segs]) (use segs(1,3) att [unfolded resp] pos [unfolded resp] trans [OF mrk cut] full in auto)
qed

text \<open>
  [C13] From the tool agent to the batch. When a run of the tool agent that generated something is padded into a row of the
  batch, the marked tokens of the row are those of the trajectory. The attention mask
  marks exactly the prompt followed by the response, cut at the agent's response cap, in order; the response mask marks
  exactly the generated tokens among them, and neither observations nor padding; positions count from 0 through prompt and
  response. A run that generated nothing (its response mask is empty) becomes a row whose response is the prompt, every token of it weighted
  with the padding token's id. The agent's caps must fit the row: \<open>0 < prompt_cap\<close>, and neither cap is larger than its
  part of the row.
\<close>

theorem tool_agent_row:
  assumes run: "tool_agent_run env stop raw images selection w = Some (Inr (out, w'))"
    and post: "agent_loop_postprocess cfg reward teacher validate rl raw_prompt metrics score out = Inr io"
    and widths: "0 < prompt_cap env" "prompt_cap env \<le> pc_prompt_length cfg" "response_cap env \<le> row_width cfg rl"
  shows "if ao_response_mask out = []
    then ao_response_ids out = take (response_cap env) (ao_prompt_ids out)
      \<and> (\<forall>p. pc_pad_token_id cfg = Some p \<longrightarrow> io_response_mask io
          = replicate (length (ao_response_ids out)) p @ replicate (row_width cfg rl - length (ao_response_ids out)) 0)
    else \<exists>prompt segs. trajectory env prompt segs \<and> ao_prompt_ids out = prompt
    \<and> marked (io_attention_mask io) (io_input_ids io) = prompt @ take (response_cap env) (seg_ids segs)
    \<and> marked (io_attention_mask io) (io_position_ids io) = map int [0..<length (prompt @ take (response_cap env) (seg_ids segs))]
    \<and> (length (seg_ids segs) \<le> response_cap env \<longrightarrow> marked (io_response_mask io) (io_response_ids io) = concat (map snd (filter fst segs)))
    \<and> marked (io_response_mask io) (io_response_ids io) = marked (seg_mask segs) (take (response_cap env) (seg_ids segs))"
proof (cases "ao_response_mask out = []")
  case True
  obtain prompt segs where segs: "ao_response_mask out = take (response_cap env) (seg_mask segs)" "ao_prompt_ids out = prompt"
      "ao_response_ids out = take (response_cap env) (if seg_ids segs = [] then prompt else seg_ids segs)"
    using tool_agent_trajectory_facts [OF run] by blast
  have none: "take (response_cap env) (seg_ids segs) = []"
    using True segs(1) by (metis length_0_conv length_seg_mask take_eq_Nil)
  have resp: "ao_response_ids out = take (response_cap env) prompt"
    using segs(3) none by (cases "seg_ids segs = []") simp_all
  then have "length (ao_response_ids out) \<le> row_width cfg rl" using widths(3) by simp
  with empty_mask_weights_response [OF post _ True] resp segs(2) True show ?thesis by simp
next
  case False
  then show ?thesis using tool_agent_row_marks [OF run False post widths] by (simp only: if_False)
qed

section \<open>Scores\<close>

lemma score_row_of_block:
  assumes "length m = n + b"
  shows "score_row (replicate n 1 @ replicate b 0) m s = (if n = 0 then replicate b 0 else replicate (n - 1) 0 @ s # replicate b 0)"
proof (cases n)
  case 0
  then show ?thesis using assms by (simp add: score_row_def sum_list_replicate)
next
  case (Suc k)
  have "(replicate (k + 1 + b) 0)[k := s] = replicate k 0 @ s # replicate b (0 :: real)"
    by (induction k) simp_all
  then show ?thesis using assms Suc by (simp add: score_row_def sum_list_replicate)
qed

text \<open>The rows of a batch as \<open>agent_loop_postprocess\<close> makes them: blocks of prompt and response of fixed widths.\<close>

definition block_row :: "nat \<Rightarrow> nat \<Rightarrow> 'e internal_output \<Rightarrow> nat \<Rightarrow> nat \<Rightarrow> bool" where
  "block_row width_p width_r x np nr \<longleftrightarrow> np \<le> width_p \<and> nr \<le> width_r \<and> length (io_prompt_ids x) = width_p
     \<and> length (io_response_mask x) = width_r
     \<and> io_attention_mask x = replicate (width_p - np) 0 @ replicate (np + nr) 1 @ replicate (width_r - nr) 0"

text \<open>
  \<open>_postprocess\<close> puts the reward of a row on the last token of its response and nowhere else: on rows as the padding
  produces them, when every row has a score, the batch has a column \<open>rm_scores\<close> whose row is zero except for the score
  at the last valid response position; the row sums to the score, and a row without response tokens loses its score.
\<close>

theorem rm_scores_on_last_token:
  assumes run: "postprocess reward_loop input_nt outs = Inr d" and ne: "outs \<noteq> []"
    and rows: "\<forall>x \<in> set outs. block_row width_p width_r x (np x) (nr x)"
    and scored: "\<forall>x \<in> set outs. io_reward_score x = Some (score x)"
  shows "\<exists>td. dp_batch d = Some td \<and> (''rm_scores'', map (\<lambda>x. RealRow (if nr x = 0 then replicate width_r 0
         else replicate (nr x - 1) 0 @ score x # replicate (width_r - nr x) 0)) outs) \<in> set (td_items td)
    \<and> td_size td = length outs"
proof -
  obtain a as where outs: "outs = a # as" using ne by (cases outs) auto
  have w: "length (io_prompt_ids (hd outs)) = width_p" using rows outs by (simp add: block_row_def)
  have row: "score_row (drop width_p (io_attention_mask x)) (io_response_mask x) (the (io_reward_score x))
      = (if nr x = 0 then replicate width_r 0 else replicate (nr x - 1) 0 @ score x # replicate (width_r - nr x) 0)"
    if "x \<in> set outs" for x
  proof -
    have b: "block_row width_p width_r x (np x) (nr x)" using rows that by blast
    then have "drop width_p (io_attention_mask x) = replicate (nr x) 1 @ replicate (width_r - nr x) 0"
      by (auto simp: block_row_def replicate_add)
    then show ?thesis using score_row_of_block [of "io_response_mask x" "nr x" "width_r - nr x"] b scored that
      by (simp add: block_row_def)
  qed
  let ?col = "map (\<lambda>x. RealRow (if nr x = 0 then replicate width_r 0
         else replicate (nr x - 1) 0 @ score x # replicate (width_r - nr x) 0)) outs"
  have col: "rm_scores width_p outs = [(''rm_scores'', ?col)]"
    using scored row by (auto simp: rm_scores_def list_all_iff)
  have "\<exists>items td nt meta. make_td (length outs) items = Inr td \<and> make_dp (Some td) nt meta = Inr d \<and> (''rm_scores'', ?col) \<in> set items"
    using run unfolding postprocess_def Let_def w col bind_r_eq_Inr
    by (clarsimp simp del: map_eq_conv) (intro exI conjI, assumption, assumption, simp)
  then obtain items td nt meta where td: "make_td (length outs) items = Inr td" and d: "make_dp (Some td) nt meta = Inr d"
      and c: "(''rm_scores'', ?col) \<in> set items" by blast
  have "td_items td = items" "td_size td = length outs" using td by (auto simp: make_td_def split: if_splits)
  moreover have "dp_batch d = Some td" using d by (auto simp: make_dp_def Let_def)
  ultimately show ?thesis using c by blast
qed

section \<open>A concrete row\<close>

definition ex_post :: post_config where
  "ex_post = \<lparr>pc_prompt_length = 5, pc_response_length = 6, pc_pad_token_id = Some 0, pc_eos_token_id = None,
     pc_speculative = False, pc_distillation = False\<rparr>"

definition ex_post_env :: "(unit, unit, nat, nat, real, nat) agent_env" where
  "ex_post_env = \<lparr>max_user_turns = None, max_assistant_turns = None, max_parallel_calls = 1, max_tool_response_length = 8,
     tool_response_truncate_side = ''left'', parser_name = ''hermes'', parser_stop_ids = [], prompt_cap = 5, response_cap = 6,
     has_image_processor = False, has_video_or_audio = False, system_prompt = [], tools = [],
     conv = \<lparr>json_loads = (\<lambda>_. Inr ()), json_dumps = (\<lambda>_. []), raw_str = (\<lambda>_. []), raw_float = (\<lambda>_. Inr 0), raw_dict = (\<lambda>_. Inr ())\<rparr>,
     parts_repr = (\<lambda>_. []), chat_template = (\<lambda>_ _ _. [4, 5]), encode = (\<lambda>_. []), extract_tool_calls = (\<lambda>_ _. []),
     serve = (\<lambda>_ _ _ w. Inr (\<lparr>to_token_ids = [7, 8], to_log_probs = None, to_routed_experts = None, to_stop_reason = None, to_num_preempted = None,
       to_extra_fields = []\<rparr>, w))\<rparr>"

theorem tool_agent_row_witness:
  "\<exists>out io. tool_agent_run ex_post_env None [0] None None 0 = Some (Inr (out, 0))
     \<and> agent_loop_postprocess ex_post None (\<lambda>_. Inl TypeError) False None MNone MNone None out = Inr (io :: nat internal_output)
     \<and> (\<exists>segs. trajectory ex_post_env [4, 5] segs \<and> marked (io_attention_mask io) (io_input_ids io) = [4, 5] @ take 6 (seg_ids segs))"
proof -
  let ?out = "\<lparr>ao_prompt_ids = [4, 5], ao_response_ids = [7, 8], ao_response_mask = [1, 1], ao_images = None,
      ao_response_logprobs = None, ao_num_turns = 2, ao_routed_experts = None, ao_num_preempted = Some (- 1),
      ao_extra_fields = [], ao_tool_rewards = []\<rparr> :: (unit, nat, real) agent_output"
  have run: "tool_agent_run ex_post_env None [0] None None 0 = Some (Inr (?out, 0))"
    unfolding tool_agent_run_def
    by (subst agent_loop_simps, simp add: agent_step_def handle_pending_def handle_generating_def Let_def merge_extra_fields_def
        record_reply_def limit_reached_def stop_ids_def apply_chat_template_def initial_data_def active_tools_def ex_post_env_def)
      ((subst agent_loop_simps, simp add: agent_step_def handle_generating_def Let_def merge_extra_fields_def
        record_reply_def limit_reached_def stop_ids_def ex_post_env_def)+, simp add: finalize_def last_n_def Let_def ex_post_env_def)
  obtain io :: "nat internal_output" where
    post: "agent_loop_postprocess ex_post None (\<lambda>_. Inl TypeError) False None MNone MNone None ?out = Inr io"
    by (simp add: agent_loop_postprocess_def Let_def ex_post_def check_relay_mask_def pad_token_ids_def pad_ids_def opt_r_def)
  have "\<exists>segs. trajectory ex_post_env [4, 5] segs \<and> marked (io_attention_mask io) (io_input_ids io) = [4, 5] @ take 6 (seg_ids segs)"
    using tool_agent_row [OF run post] by (auto simp: ex_post_env_def ex_post_def row_width_def)
  then show ?thesis using run post by blast
qed

definition ex_row :: "nat internal_output" where
  "ex_row = \<lparr>io_prompt_ids = [0, 4], io_response_ids = [7, 8, 0], io_input_ids = [0, 4, 7, 8, 0], io_position_ids = [0, 0, 1, 2, 2],
     io_response_mask = [1, 1, 0], io_attention_mask = [0, 1, 1, 1, 0], io_response_logprobs = None, io_routed_experts = None,
     io_teacher_ids = None, io_teacher_logprobs = None, io_teacher_token_logprobs = None, io_reward_score = Some (7),
     io_num_turns = 2, io_metrics = MDict [], io_extra_fields = []\<rparr>"

theorem rm_scores_on_last_token_witness:
  "\<exists>d td. postprocess False [] [ex_row] = Inr d \<and> dp_batch d = Some td \<and> (''rm_scores'', [RealRow [0, 7, 0]]) \<in> set (td_items td)"
proof -
  obtain d where run: "postprocess False [] [ex_row] = Inr d"
    by (simp add: postprocess_def cat_rows_def optional_column_def reward_columns_def rm_scores_def make_td_def make_dp_def
        check_consistency_def extra_columns_def update_all_def ex_row_def Let_def opt_dict_def default_extra_keys_def ensure_def)
  have "\<forall>x \<in> set [ex_row]. block_row 2 3 x 1 2"
    by (simp add: block_row_def ex_row_def numeral_eq_Suc)
  from rm_scores_on_last_token [OF run _ this, of "\<lambda>_. 7"] show ?thesis
    using run by (auto simp: ex_row_def)
qed

end
