(* ===== verification/LLM_Server.thy ===== *)
theory LLM_Server
  imports Agent_Loop
begin

text \<open>
  Requests to the language model servers: \<open>GlobalRequestLoadBalancer\<close> and \<open>LLMServerClient\<close> of
  \<open>verl/workers/rollout/llm_server.py\<close>, and \<open>FullyAsyncLLMServerClient\<close> of
  \<open>verl/experimental/fully_async_policy/fully_async_rollouter.py\<close>, which resumes interrupted generations. Dictionaries are
  association lists in insertion order. The LRU cache of sticky sessions and the servers are parameters.
\<close>

section \<open>The load balancer\<close>

text \<open>\<open>LRUCache\<close>: a look-up refreshes an entry, a store may evict others.\<close>

record 'c lru_ops =
  lru_get :: "'c \<Rightarrow> string \<Rightarrow> string option \<times> 'c"
  lru_set :: "'c \<Rightarrow> string \<Rightarrow> string \<Rightarrow> 'c"
  lru_del :: "'c \<Rightarrow> string \<Rightarrow> 'c"

record ('h, 'c) balancer =
  lb_servers :: "(string \<times> 'h) list"
  lb_inflight :: "(string \<times> nat) list"
  lb_cache :: 'c

definition new_balancer :: "'c \<Rightarrow> (string \<times> 'h) list \<Rightarrow> ('h, 'c) balancer result" where
  "new_balancer empty_cache servers =
     (if servers = [] then Inl (ValueError ''servers must be non-empty'')
      else Inr \<lparr>lb_servers = servers, lb_inflight = map (\<lambda>(sid, _). (sid, 0)) servers, lb_cache = empty_cache\<rparr>)"

text \<open>\<open>min(d, key=d.get)\<close>: the first key with the least value.\<close>

fun first_min :: "(string \<times> nat) list \<Rightarrow> string \<times> nat" where
  "first_min [e] = e"
| "first_min (e # es) = (let m = first_min es in if snd e \<le> snd m then e else m)"
| "first_min [] = ([], 0)"

definition count_of :: "('h, 'c) balancer \<Rightarrow> string \<Rightarrow> nat" where
  "count_of lb sid = opt_default 0 (map_of (lb_inflight lb) sid)"

definition take_server :: "string \<Rightarrow> ('h, 'c) balancer \<Rightarrow> ((string \<times> 'h) \<times> ('h, 'c) balancer) result" where
  "take_server sid lb =
     (case map_of (lb_servers lb) sid of
        None \<Rightarrow> Inl (KeyError sid)
      | Some h \<Rightarrow> Inr ((sid, h), lb\<lparr>lb_inflight := AList.update sid (count_of lb sid + 1) (lb_inflight lb)\<rparr>))"

definition acquire_server :: "'c lru_ops \<Rightarrow> string \<Rightarrow> ('h, 'c) balancer \<Rightarrow> ((string \<times> 'h) \<times> ('h, 'c) balancer) result" where
  "acquire_server lru request_id lb =
     (let (hit, cache) = lru_get lru (lb_cache lb) request_id;
          active = (\<lambda>sid. map_of (lb_inflight lb) sid \<noteq> None);
          select = (\<lambda>lb. if lb_inflight lb = [] then Inl (RuntimeError ''No available servers in load balancer'')
              else let sid = fst (first_min (lb_inflight lb)) in
                take_server sid (lb\<lparr>lb_cache := lru_set lru (lb_cache lb) request_id sid\<rparr>))
      in case hit of
           Some sid \<Rightarrow> if active sid then take_server sid (lb\<lparr>lb_cache := cache\<rparr>)
             else select (lb\<lparr>lb_cache := lru_del lru cache request_id\<rparr>)
         | None \<Rightarrow> select (lb\<lparr>lb_cache := cache\<rparr>))"

definition release_server :: "string \<Rightarrow> ('h, 'c) balancer \<Rightarrow> ('h, 'c) balancer" where
  "release_server sid lb =
     (case map_of (lb_inflight lb) sid of
        None \<Rightarrow> lb
      | Some n \<Rightarrow> if n > 0 then lb\<lparr>lb_inflight := AList.update sid (n - 1) (lb_inflight lb)\<rparr> else lb)"

definition add_servers :: "(string \<times> 'h) list \<Rightarrow> ('h, 'c) balancer \<Rightarrow> ('h, 'c) balancer" where
  "add_servers servers lb =
     fold (\<lambda>(sid, h) lb. lb\<lparr>lb_inflight := AList.update sid 0 (lb_inflight lb), lb_servers := AList.update sid h (lb_servers lb)\<rparr>) servers lb"

definition remove_servers :: "string list \<Rightarrow> ('h, 'c) balancer \<Rightarrow> ('h, 'c) balancer" where
  "remove_servers sids lb =
     fold (\<lambda>sid lb. lb\<lparr>lb_inflight := AList.delete sid (lb_inflight lb), lb_servers := AList.delete sid (lb_servers lb)\<rparr>) sids lb"

text \<open>The status: the counts, their sum, the number of servers and the registered handles.\<close>

definition get_status :: "('h, 'c) balancer \<Rightarrow> (string \<times> nat) list \<times> nat \<times> nat \<times> string list" where
  "get_status lb = (lb_inflight lb, sum_list (map snd (lb_inflight lb)), length (lb_inflight lb), map fst (lb_servers lb))"

section \<open>The client\<close>

text \<open>\<open>LLMServerClient.generate\<close>: the server is released whether or not it answers. The state is the balancer and the
  outside world.\<close>

definition client_generate :: "'c lru_ops \<Rightarrow> ('h \<Rightarrow> 'a \<Rightarrow> 's \<Rightarrow> 'r result \<times> 's) \<Rightarrow> string \<Rightarrow> 'a \<Rightarrow> ('h, 'c) balancer \<times> 's
    \<Rightarrow> 'r result \<times> ('h, 'c) balancer \<times> 's" where
  "client_generate lru engine request_id arg = (\<lambda>(lb, w).
     case acquire_server lru request_id lb of
       Inl e \<Rightarrow> (Inl e, lb, w)
     | Inr ((sid, h), lb') \<Rightarrow> (case engine h arg w of (r, w') \<Rightarrow> (r, release_server sid lb', w')))"

section \<open>Requests in flight\<close>

definition lb_ok :: "('h, 'c) balancer \<Rightarrow> bool" where
  "lb_ok lb \<longleftrightarrow> distinct (map fst (lb_inflight lb)) \<and> distinct (map fst (lb_servers lb))
     \<and> fst ` set (lb_inflight lb) = fst ` set (lb_servers lb)"

text \<open>
  What can happen to the balancer, with the multiset of servers that unfinished requests hold, and the names that were added
  while requests of that name were unfinished and still have some of them (adding a name resets its counter). Servers may be added and
  removed at any time.
\<close>

inductive lb_step :: "'c lru_ops \<Rightarrow> ('h, 'c) balancer \<times> string multiset \<times> string set \<Rightarrow> ('h, 'c) balancer \<times> string multiset \<times> string set \<Rightarrow> bool"
  for lru :: "'c lru_ops" where
  Acquire: "acquire_server lru rid lb = Inr ((sid, h), lb') \<Longrightarrow> lb_step lru (lb, out, busy) (lb', add_mset sid out, busy)"
| Release: "sid \<in># out \<Longrightarrow> out' = out - {#sid#} \<Longrightarrow> lb_step lru (lb, out, busy) (release_server sid lb, out', {s \<in> busy. s \<in># out'})"
| Add: "lb_step lru (lb, out, busy) (add_servers servers lb, out, busy \<union> {sid \<in> fst ` set servers. sid \<in># out})"
| Remove: "lb_step lru (lb, out, busy) (remove_servers sids lb, out, busy)"

definition lb_inv :: "('h, 'c) balancer \<times> string multiset \<times> string set \<Rightarrow> bool" where
  "lb_inv = (\<lambda>(lb, out, busy). lb_ok lb
     \<and> (\<forall>sid n. map_of (lb_inflight lb) sid = Some n \<longrightarrow> n \<le> count out sid \<and> (sid \<notin> busy \<longrightarrow> n = count out sid)))"

text \<open>What the routing relies on of the cache: a stored entry is found, and a look-up does not lose the entry it finds.\<close>

definition lru_laws :: "'c lru_ops \<Rightarrow> bool" where
  "lru_laws lru \<longleftrightarrow> (\<forall>c r s. fst (lru_get lru (lru_set lru c r s) r) = Some s)
     \<and> (\<forall>c r s. fst (lru_get lru c r) = Some s \<longrightarrow> fst (lru_get lru (snd (lru_get lru c r)) r) = Some s)"

lemma update_keys: "fst ` set (AList.update k v d) = insert k (fst ` set d)"
  by (induction d) auto

lemma delete_keys: "fst ` set (AList.delete k d) = fst ` set d - {k}"
  by (induction d) (auto simp: AList.delete_eq)

lemma first_min_least:
  assumes "es \<noteq> []"
  shows "first_min es \<in> set es \<and> (\<forall>e \<in> set es. snd (first_min es) \<le> snd e)"
  using assms by (induction es rule: first_min.induct) (auto simp: Let_def intro: order_trans)

lemma take_server_run:
  assumes "take_server sid lb = Inr ((sid', h), lb')"
  shows "sid' = sid" "map_of (lb_servers lb) sid = Some h" "lb_servers lb' = lb_servers lb"
    "lb_inflight lb' = AList.update sid (count_of lb sid + 1) (lb_inflight lb)"
  using assms by (auto simp: take_server_def split: option.splits)

text \<open>Which server a request gets.\<close>

lemma acquire_server_run:
  assumes "acquire_server lru rid lb = Inr ((sid, h), lb')" "lb_ok lb"
  shows "map_of (lb_inflight lb) sid \<noteq> None" "map_of (lb_servers lb) sid = Some h" "lb_servers lb' = lb_servers lb"
    "lb_inflight lb' = AList.update sid (count_of lb sid + 1) (lb_inflight lb)"
    "case fst (lru_get lru (lb_cache lb) rid) of
       Some s \<Rightarrow> if map_of (lb_inflight lb) s \<noteq> None then sid = s else (\<forall>e \<in> set (lb_inflight lb). count_of lb sid \<le> snd e)
     | None \<Rightarrow> (\<forall>e \<in> set (lb_inflight lb). count_of lb sid \<le> snd e)"
proof -
  obtain hit cache where c: "lru_get lru (lb_cache lb) rid = (hit, cache)" by fastforce
  let ?m = "first_min (lb_inflight lb)"
  let ?hit = "\<exists>s. hit = Some s \<and> map_of (lb_inflight lb) s \<noteq> None"
  obtain cache' where t: "take_server sid (lb\<lparr>lb_cache := cache'\<rparr>) = Inr ((sid, h), lb')"
      and s: "if ?hit then hit = Some sid else lb_inflight lb \<noteq> [] \<and> sid = fst ?m"
    using assms(1) unfolding acquire_server_def c Let_def prod.case
    by (auto split: option.splits if_splits dest: take_server_run(1))
  have same: "lb_servers (lb\<lparr>lb_cache := cache'\<rparr>) = lb_servers lb" "lb_inflight (lb\<lparr>lb_cache := cache'\<rparr>) = lb_inflight lb"
    "count_of (lb\<lparr>lb_cache := cache'\<rparr>) sid = count_of lb sid" by (simp_all add: count_of_def)
  show "map_of (lb_servers lb) sid = Some h" "lb_servers lb' = lb_servers lb"
    "lb_inflight lb' = AList.update sid (count_of lb sid + 1) (lb_inflight lb)"
    using take_server_run(2-4) [OF t] unfolding same by simp_all
  then show known: "map_of (lb_inflight lb) sid \<noteq> None"
    using assms(2) by (metis lb_ok_def map_of_eq_None_iff option.distinct(1))
  have least: "\<forall>e \<in> set (lb_inflight lb). count_of lb sid \<le> snd e" if "lb_inflight lb \<noteq> []" "sid = fst ?m"
  proof -
    have m: "?m \<in> set (lb_inflight lb)" "\<forall>e \<in> set (lb_inflight lb). snd ?m \<le> snd e" using first_min_least [OF that(1)] by auto
    have "map_of (lb_inflight lb) sid = Some (snd ?m)"
      using assms(2) m(1) that(2) by (simp add: lb_ok_def map_of_is_SomeI)
    then show ?thesis using m(2) by (simp add: count_of_def)
  qed
  show "case fst (lru_get lru (lb_cache lb) rid) of
       Some s \<Rightarrow> if map_of (lb_inflight lb) s \<noteq> None then sid = s else (\<forall>e \<in> set (lb_inflight lb). count_of lb sid \<le> snd e)
     | None \<Rightarrow> (\<forall>e \<in> set (lb_inflight lb). count_of lb sid \<le> snd e)"
    using s least c by (auto split: option.splits if_splits)
qed

lemma take_server_cache: "take_server s lb = Inr ((sid, h), lb') \<Longrightarrow> lb_cache lb' = lb_cache lb \<and> sid = s"
  by (auto simp: take_server_def split: option.splits)

text \<open>The session's server is found in the cache afterwards.\<close>

lemma acquire_server_sticks:
  assumes "lru_laws lru" "acquire_server lru rid lb = Inr ((sid, h), lb')"
  shows "fst (lru_get lru (lb_cache lb') rid) = Some sid"
proof -
  obtain hit cache where c: "lru_get lru (lb_cache lb) rid = (hit, cache)" by fastforce
  have set: "fst (lru_get lru (lru_set lru c' rid s) rid) = Some s" for c' s using assms(1) by (simp add: lru_laws_def)
  have get: "hit = Some s \<Longrightarrow> fst (lru_get lru cache rid) = Some s" for s
    using assms(1) c unfolding lru_laws_def by (metis fst_conv snd_conv)
  show ?thesis
    using assms(2) unfolding acquire_server_def c Let_def prod.case
    by (auto split: option.splits if_splits dest!: take_server_cache simp: set get)
qed

lemma acquire_server_returns:
  assumes "lb_ok lb" "lb_inflight lb \<noteq> []"
  shows "\<exists>sid h lb'. acquire_server lru rid lb = Inr ((sid, h), lb')"
proof -
  have known: "\<exists>h lb'. take_server sid (lb\<lparr>lb_cache := c\<rparr>) = Inr ((sid, h), lb')" if "map_of (lb_inflight lb) sid \<noteq> None" for sid c
  proof -
    have "map_of (lb_servers lb) sid \<noteq> None" using that assms(1) by (metis lb_ok_def map_of_eq_None_iff)
    then show ?thesis by (auto simp: take_server_def)
  qed
  have "map_of (lb_inflight lb) (fst (first_min (lb_inflight lb))) \<noteq> None"
    using first_min_least [OF assms(2)] by (metis image_eqI map_of_eq_None_iff)
  then show ?thesis using known assms(2)
    by (auto simp: acquire_server_def Let_def split: prod.splits option.splits if_splits) blast+
qed

lemma map_of_delete: "map_of (AList.delete k d) x = (if x = k then None else map_of d x)"
  by (simp add: delete_conv')

lemma add_servers_step:
  assumes "lb_inv (lb, out, busy)"
  shows "lb_inv (add_servers servers lb, out, busy \<union> {sid \<in> fst ` set servers. sid \<in># out})"
  using assms
proof (induction servers arbitrary: lb busy)
  case (Cons e servers)
  obtain sid h where e: "e = (sid, h)" by (cases e)
  let ?lb = "lb\<lparr>lb_inflight := AList.update sid 0 (lb_inflight lb), lb_servers := AList.update sid h (lb_servers lb)\<rparr>"
  let ?busy = "busy \<union> {s. s = sid \<and> s \<in># out}"
  have "lb_inv (?lb, out, ?busy)" using Cons.prems
    unfolding lb_inv_def lb_ok_def prod.case
    by (simp add: update_keys distinct_update update_conv') (auto simp: count_eq_zero_iff split: if_splits)
  moreover have "?busy \<union> {s \<in> fst ` set servers. s \<in># out} = busy \<union> {s \<in> fst ` set (e # servers). s \<in># out}"
    by (auto simp: e)
  ultimately show ?case using Cons.IH [of ?lb ?busy] by (simp add: add_servers_def e)
qed (simp add: add_servers_def)

lemma remove_servers_step:
  assumes "lb_inv (lb, out, busy)"
  shows "lb_inv (remove_servers sids lb, out, busy)"
  using assms
proof (induction sids arbitrary: lb)
  case (Cons sid sids)
  let ?lb = "lb\<lparr>lb_inflight := AList.delete sid (lb_inflight lb), lb_servers := AList.delete sid (lb_servers lb)\<rparr>"
  have "lb_inv (?lb, out, busy)" using Cons.prems
    unfolding lb_inv_def lb_ok_def prod.case by (simp add: delete_keys distinct_delete map_of_delete)
  with Cons show ?case by (simp add: remove_servers_def)
qed (simp add: remove_servers_def)

lemma release_server_step:
  assumes "lb_inv (lb, out, busy)" "sid \<in># out"
  shows "lb_inv (release_server sid lb, out - {#sid#}, {s \<in> busy. s \<in># out - {#sid#}})"
proof -
  have ok: "lb_ok lb" and cnt: "\<And>s n. map_of (lb_inflight lb) s = Some n \<Longrightarrow> n \<le> count out s \<and> (s \<notin> busy \<longrightarrow> n = count out s)"
    using assms(1) by (auto simp: lb_inv_def)
  have m: "map_of (lb_inflight (release_server sid lb)) s = (case map_of (lb_inflight lb) s of
      None \<Rightarrow> None | Some n \<Rightarrow> Some (if s = sid then n - 1 else n))" for s
    by (auto simp: release_server_def update_conv' split: option.splits)
  have "lb_ok (release_server sid lb)"
  proof (cases "map_of (lb_inflight lb) sid")
    case (Some n)
    then have "sid \<in> fst ` set (lb_inflight lb)" by (metis map_of_eq_None_iff option.distinct(1))
    then show ?thesis using ok Some by (simp add: lb_ok_def release_server_def update_keys distinct_update insert_absorb)
  qed (use ok in \<open>simp add: release_server_def\<close>)
  moreover have "n \<le> count (out - {#sid#}) s \<and> (\<not> (s \<in> busy \<and> s \<in># out - {#sid#}) \<longrightarrow> n = count (out - {#sid#}) s)"
    if now: "map_of (lb_inflight (release_server sid lb)) s = Some n" for s n
  proof -
    obtain k where k: "map_of (lb_inflight lb) s = Some k" "n = (if s = sid then k - 1 else k)"
      using now unfolding m by (cases "map_of (lb_inflight lb) s") auto
    have le: "n \<le> count (out - {#sid#}) s" using cnt [OF k(1)] k(2) by auto
    moreover have "n = count (out - {#sid#}) s" if "s \<notin># out - {#sid#}" using le that by (simp add: not_in_iff)
    moreover have "n = count (out - {#sid#}) s" if "s \<notin> busy" using cnt [OF k(1)] k(2) that by auto
    ultimately show ?thesis by blast
  qed
  ultimately show ?thesis unfolding lb_inv_def by auto
qed

lemma acquire_server_step:
  assumes "lb_inv (lb, out, busy)" "acquire_server lru rid lb = Inr ((sid, h), lb')"
  shows "lb_inv (lb', add_mset sid out, busy)"
proof -
  have ok: "lb_ok lb" and cnt: "\<And>s n. map_of (lb_inflight lb) s = Some n \<Longrightarrow> n \<le> count out s \<and> (s \<notin> busy \<longrightarrow> n = count out s)"
    using assms(1) by (auto simp: lb_inv_def)
  note run = acquire_server_run [OF assms(2) ok]
  obtain n where n: "map_of (lb_inflight lb) sid = Some n" using run(1) by auto
  then have mem: "sid \<in> fst ` set (lb_inflight lb)" by (metis map_of_eq_None_iff option.distinct(1))
  have "lb_ok lb'" using ok mem by (simp add: lb_ok_def run(3,4) update_keys distinct_update insert_absorb)
  moreover have "m \<le> count (add_mset sid out) s \<and> (s \<notin> busy \<longrightarrow> m = count (add_mset sid out) s)"
    if "map_of (lb_inflight lb') s = Some m" for s m
    using that cnt n by (auto simp: run(4) update_conv' count_of_def split: if_splits)
  ultimately show ?thesis by (simp add: lb_inv_def)
qed

lemma lb_step_inv: "lb_step lru s s' \<Longrightarrow> lb_inv s \<Longrightarrow> lb_inv s'"
  by (induction rule: lb_step.induct) (simp_all add: acquire_server_step release_server_step add_servers_step remove_servers_step)

lemma new_balancer_inv:
  assumes "new_balancer c servers = Inr lb" "distinct (map fst servers)"
  shows "lb_inv (lb, {#}, {})"
proof -
  have "map fst (map (\<lambda>(sid, _). (sid, 0 :: nat)) servers) = map fst servers" by auto
  moreover from arg_cong [OF this, of set]
  have "fst ` set (map (\<lambda>(sid, _). (sid, 0 :: nat)) servers) = fst ` set servers" unfolding set_map by simp
  moreover have "n = 0" if "map_of (map (\<lambda>(sid, _). (sid, 0 :: nat)) servers) s = Some n" for s n
    using map_of_SomeD [OF that] by auto
  moreover have "lb = \<lparr>lb_servers = servers, lb_inflight = map (\<lambda>(sid, _). (sid, 0)) servers, lb_cache = c\<rparr>"
    using assms(1) by (simp add: new_balancer_def split: if_splits)
  ultimately show ?thesis using assms(2) unfolding lb_inv_def lb_ok_def by (simp del: map_map set_map)
qed

text \<open>
  [C15] The load balancer, in every state that requests, releases, added and removed servers can lead to (a name may be added
  again at any time). The counter of a server is the number of unfinished requests that hold its name, except for a name that
  was added again while such requests were unfinished: until the last of them ends its counter may be smaller. Both tables
  have the same servers, so a request is always served when there is a server; it goes to the server of its session while
  that is present, and otherwise to one with the least counter, which, if its own counter is exact, is one with the fewest
  unfinished requests. Afterwards the cache has the server for the session, if the cache finds what was stored last
  and keeps what it finds.
\<close>

theorem balancer_counts_requests:
  assumes "new_balancer c servers = Inr lb0" "distinct (map fst servers)" "(lb_step lru)\<^sup>*\<^sup>* (lb0, {#}, {}) (lb, out, busy)"
    and "lru_laws lru"
  shows "(\<forall>sid n. map_of (lb_inflight lb) sid = Some n \<longrightarrow> n \<le> count out sid \<and> (sid \<notin> busy \<longrightarrow> n = count out sid))
    \<and> fst ` set (lb_inflight lb) = fst ` set (lb_servers lb)
    \<and> (lb_servers lb \<noteq> [] \<longrightarrow> (\<exists>sid h lb'. acquire_server lru rid lb = Inr ((sid, h), lb') \<and> map_of (lb_servers lb) sid = Some h
      \<and> fst (lru_get lru (lb_cache lb') rid) = Some sid
      \<and> (if \<exists>s. fst (lru_get lru (lb_cache lb) rid) = Some s \<and> s \<in> fst ` set (lb_servers lb)
         then fst (lru_get lru (lb_cache lb) rid) = Some sid
         else \<forall>s \<in> fst ` set (lb_servers lb). count_of lb sid \<le> count_of lb s \<and> (sid \<notin> busy \<longrightarrow> count out sid \<le> count out s))))"
proof -
  have inv: "lb_inv (lb, out, busy)" using assms(3)
    by (induction rule: rtranclp_induct) (auto intro: new_balancer_inv [OF assms(1,2)] lb_step_inv)
  then have ok: "lb_ok lb"
    and cnt: "\<And>s n. map_of (lb_inflight lb) s = Some n \<Longrightarrow> n \<le> count out s \<and> (s \<notin> busy \<longrightarrow> n = count out s)"
    by (auto simp: lb_inv_def)
  then have tables: "fst ` set (lb_inflight lb) = fst ` set (lb_servers lb)" by (simp add: lb_ok_def)
  have keys: "s \<in> fst ` set (lb_servers lb) \<longleftrightarrow> map_of (lb_inflight lb) s \<noteq> None" for s
    unfolding tables [symmetric] by (simp add: map_of_eq_None_iff)
  have "\<exists>sid h lb'. acquire_server lru rid lb = Inr ((sid, h), lb') \<and> map_of (lb_servers lb) sid = Some h
      \<and> fst (lru_get lru (lb_cache lb') rid) = Some sid
      \<and> (if \<exists>s. fst (lru_get lru (lb_cache lb) rid) = Some s \<and> s \<in> fst ` set (lb_servers lb)
         then fst (lru_get lru (lb_cache lb) rid) = Some sid
         else \<forall>s \<in> fst ` set (lb_servers lb). count_of lb sid \<le> count_of lb s \<and> (sid \<notin> busy \<longrightarrow> count out sid \<le> count out s))"
    if "lb_servers lb \<noteq> []"
  proof -
    have "lb_inflight lb \<noteq> []" using that tables by auto
    from acquire_server_returns [OF ok this] obtain sid h lb' where a: "acquire_server lru rid lb = Inr ((sid, h), lb')" by blast
    note run = acquire_server_run [OF a ok]
    have least: "\<forall>s \<in> fst ` set (lb_servers lb). count_of lb sid \<le> count_of lb s \<and> (sid \<notin> busy \<longrightarrow> count out sid \<le> count out s)"
      if "\<forall>e \<in> set (lb_inflight lb). count_of lb sid \<le> snd e"
    proof
      fix s assume "s \<in> fst ` set (lb_servers lb)"
      then obtain n where n: "map_of (lb_inflight lb) s = Some n" using keys by auto
      then have le: "count_of lb sid \<le> n" using that map_of_SomeD [OF n] by fastforce
      obtain m where m: "map_of (lb_inflight lb) sid = Some m" using run(1) by auto
      then have "count_of lb sid = m" "sid \<notin> busy \<longrightarrow> count out sid = m" using cnt [OF m] by (simp_all add: count_of_def)
      then show "count_of lb sid \<le> count_of lb s \<and> (sid \<notin> busy \<longrightarrow> count out sid \<le> count out s)"
        using le n cnt [OF n] by (simp add: count_of_def)
    qed
    show ?thesis
      using a run(2,5) keys least acquire_server_sticks [OF assms(4) a]
      by (intro exI [of _ sid] exI [of _ h] exI [of _ lb']) (auto split: option.splits if_splits)
  qed
  then show ?thesis using cnt tables by blast
qed

text \<open>Adding a name again while an old request of that name is unfinished loses count: the old request's release takes away
  the new request's entry.\<close>

definition no_cache :: "unit lru_ops" where
  "no_cache = \<lparr>lru_get = (\<lambda>c _. (None, c)), lru_set = (\<lambda>c _ _. c), lru_del = (\<lambda>c _. c)\<rparr>"

lemma readding_server_loses_count:
  "\<exists>lb1 lb2. acquire_server no_cache ''old'' \<lparr>lb_servers = [(''a'', 0 :: nat)], lb_inflight = [(''a'', 0)], lb_cache = ()\<rparr> = Inr ((''a'', 0), lb1)
    \<and> acquire_server no_cache ''new'' (add_servers [(''a'', 1)] (remove_servers [''a''] lb1)) = Inr ((''a'', 1), lb2)
    \<and> count_of (release_server ''a'' lb2) ''a'' = 0"
  by (simp add: acquire_server_def no_cache_def take_server_def count_of_def add_servers_def remove_servers_def release_server_def Let_def)

text \<open>A call of the client, successful or not, leaves the counts as they were.\<close>

lemma client_generate_balanced:
  assumes "lb_ok lb" "client_generate lru engine rid arg (lb, w) = (r, lb', w')"
  shows "map_of (lb_inflight lb') = map_of (lb_inflight lb)"
proof (cases "acquire_server lru rid lb")
  case (Inl e)
  then show ?thesis using assms(2) by (simp add: client_generate_def)
next
  case (Inr x)
  obtain sid h lb1 where x: "x = ((sid, h), lb1)" by (metis surj_pair)
  note run = acquire_server_run [OF Inr [unfolded x] assms(1)]
  obtain n where n: "map_of (lb_inflight lb) sid = Some n" using run(1) by auto
  have "lb' = release_server sid lb1" using assms(2) Inr x by (auto simp: client_generate_def split: prod.splits)
  moreover have "map_of (lb_inflight lb1) = (map_of (lb_inflight lb))(sid \<mapsto> n + 1)"
    by (simp add: run(4) count_of_def n update_conv')
  ultimately show ?thesis using n by (simp add: release_server_def update_conv' fun_upd_idem)
qed

section \<open>Resumed generation\<close>

text \<open>\<open>FullyAsyncLLMServerClient.generate\<close>. The base client is asked with the prompt, the tokens so far and the token limit
  that \<open>sampling_params\<close> holds (which the loop overwrites); only the three step numbers are kept of the extra fields.\<close>

record ('e, 'm) resume_state =
  rs_token_ids :: "int list"
  rs_log_probs :: "real list"
  rs_routed_experts :: "'e list option"
  rs_num_preempted :: int
  rs_stop_reason :: "string option"
  rs_limit :: "int option"
  rs_min_steps :: "'m py_obj"
  rs_max_steps :: "'m py_obj"

definition aborted :: "('e, 'm) server_reply \<Rightarrow> bool" where
  "aborted out \<longleftrightarrow> to_stop_reason out \<in> {Some ''aborted'', Some ''abort''}"

definition merge_reply :: "int option \<Rightarrow> ('e, 'm) server_reply \<Rightarrow> ('e, 'm) resume_state \<Rightarrow> ('e, 'm) resume_state" where
  "merge_reply original out s =
     (let ids = rs_token_ids s @ to_token_ids out; steps = opt_default MNone (map_of (to_extra_fields out) ''global_steps'') in
      s\<lparr>rs_token_ids := ids,
        rs_log_probs := rs_log_probs s @ opt_default [] (to_log_probs out),
        rs_routed_experts := (case to_routed_experts out of
            None \<Rightarrow> rs_routed_experts s
          | Some e \<Rightarrow> if to_token_ids out = [] then rs_routed_experts s
              else (case rs_routed_experts s of None \<Rightarrow> Some e | Some e0 \<Rightarrow> Some (e0 @ last_n (length (to_token_ids out)) e))),
        rs_num_preempted := rs_num_preempted s + opt_default 0 (to_num_preempted out),
        rs_stop_reason := (case original of
            Some l \<Rightarrow> if l \<le> int (length ids) then Some ''length'' else to_stop_reason out | None \<Rightarrow> to_stop_reason out),
        rs_limit := (case original of Some l \<Rightarrow> Some (l - int (length ids)) | None \<Rightarrow> rs_limit s),
        rs_min_steps := (if rs_min_steps s = MNone then steps else rs_min_steps s),
        rs_max_steps := steps\<rparr>)"

definition resume_body :: "(int list \<Rightarrow> int option \<Rightarrow> 's \<Rightarrow> (('e, 'm) server_reply \<times> 's) result) \<Rightarrow> bool \<Rightarrow> int option \<Rightarrow> int list
    \<Rightarrow> ('e, 'm) resume_state \<times> 's \<Rightarrow> (('e, 'm) resume_state \<times> 's + ('e, 'm) resume_state \<times> 's) result" where
  "resume_body base partial_rollout original prompt = (\<lambda>(s, w).
     bind_r (base (prompt @ rs_token_ids s) (rs_limit s) w) (\<lambda>(out, w').
       let s' = merge_reply original out s in
       Inr (if (case original of Some l \<Rightarrow> l \<le> int (length (rs_token_ids s')) | None \<Rightarrow> False)
               \<or> \<not> aborted out \<or> \<not> partial_rollout
            then Inr (s', w') else Inl (s', w'))))"

definition resume_start :: "int option \<Rightarrow> ('e, 'm) resume_state" where
  "resume_start original =
     \<lparr>rs_token_ids = [], rs_log_probs = [], rs_routed_experts = None, rs_num_preempted = 0, rs_stop_reason = None,
      rs_limit = original, rs_min_steps = MNone, rs_max_steps = MNone\<rparr>"

definition resume_finish :: "('e, 'm) resume_state \<Rightarrow> ('e, 'm) server_reply" where
  "resume_finish s =
     \<lparr>to_token_ids = rs_token_ids s, to_log_probs = Some (rs_log_probs s), to_routed_experts = rs_routed_experts s,
      to_stop_reason = rs_stop_reason s, to_num_preempted = Some (rs_num_preempted s),
      to_extra_fields = [(''global_steps'', rs_max_steps s), (''min_global_steps'', rs_min_steps s), (''max_global_steps'', rs_max_steps s)]\<rparr>"

text \<open>The result also has the limit that is left in the caller's \<open>sampling_params\<close>.\<close>

definition fully_async_generate :: "(int list \<Rightarrow> int option \<Rightarrow> 's \<Rightarrow> (('e, 'm) server_reply \<times> 's) result) \<Rightarrow> bool \<Rightarrow> int list \<Rightarrow> int option
    \<Rightarrow> 's \<Rightarrow> (('e, 'm) server_reply \<times> int option \<times> 's) result option" where
  "fully_async_generate base partial_rollout prompt original w =
     map_option (\<lambda>r. bind_r r (\<lambda>(s, w'). Inr (resume_finish s, rs_limit s, w')))
       (repeat_r (resume_body base partial_rollout original prompt) (resume_start original, w))"

text \<open>The specification: replies that continue each other, each asked with the budget that is left.\<close>

definition budget_left :: "int option \<Rightarrow> int list \<Rightarrow> int option" where
  "budget_left original ids = map_option (\<lambda>l. l - int (length ids)) original"

definition reply_ids :: "('e, 'm) server_reply list \<Rightarrow> int list" where
  "reply_ids outs = concat (map to_token_ids outs)"

inductive reply_chain :: "(int list \<Rightarrow> int option \<Rightarrow> 's \<Rightarrow> (('e, 'm) server_reply \<times> 's) result) \<Rightarrow> int option \<Rightarrow> int list
    \<Rightarrow> ('e, 'm) server_reply list \<Rightarrow> bool"
  for base :: "int list \<Rightarrow> int option \<Rightarrow> 's \<Rightarrow> (('e, 'm) server_reply \<times> 's) result" and original :: "int option" and prompt :: "int list" where
  Empty: "reply_chain base original prompt []"
| Reply: "reply_chain base original prompt outs \<Longrightarrow> list_all aborted outs
    \<Longrightarrow> base (prompt @ reply_ids outs) (budget_left original (reply_ids outs)) w = Inr (out, w')
    \<Longrightarrow> (\<And>l. original = Some l \<Longrightarrow> outs = [] \<or> int (length (reply_ids outs)) < l)
    \<Longrightarrow> reply_chain base original prompt (outs @ [out])"

definition follows_replies :: "int option \<Rightarrow> ('e, 'm) server_reply list \<Rightarrow> ('e, 'm) resume_state \<Rightarrow> bool" where
  "follows_replies original outs s \<longleftrightarrow> rs_token_ids s = reply_ids outs
     \<and> rs_log_probs s = concat (map (\<lambda>r. opt_default [] (to_log_probs r)) outs)
     \<and> rs_num_preempted s = sum_list (map (\<lambda>r. opt_default 0 (to_num_preempted r)) outs)
     \<and> rs_limit s = budget_left original (reply_ids outs)"

lemma merge_reply_follows:
  assumes "follows_replies original outs s"
  shows "follows_replies original (outs @ [out]) (merge_reply original out s)"
  using assms by (auto simp: follows_replies_def merge_reply_def Let_def reply_ids_def budget_left_def split: option.splits)

definition resume_inv where
  "resume_inv base original prompt s \<longleftrightarrow> (\<exists>outs. reply_chain base original prompt outs \<and> follows_replies original outs s
     \<and> list_all aborted outs \<and> (\<forall>l. original = Some l \<longrightarrow> outs = [] \<or> int (length (reply_ids outs)) < l))"

lemma resume_body_inv:
  assumes inv: "resume_inv base original prompt s" and body: "resume_body base partial original prompt (s, w) = Inr c"
  shows "\<exists>outs out w' s'. reply_chain base original prompt (outs @ [out]) \<and> follows_replies original (outs @ [out]) s'
      \<and> s' = merge_reply original out s \<and> list_all aborted outs
      \<and> (c = Inl (s', w') \<and> aborted out \<and> (\<forall>l. original = Some l \<longrightarrow> int (length (reply_ids (outs @ [out]))) < l) \<or> c = Inr (s', w'))"
proof -
  obtain outs where o: "reply_chain base original prompt outs" "follows_replies original outs s" "list_all aborted outs"
      "\<forall>l. original = Some l \<longrightarrow> outs = [] \<or> int (length (reply_ids outs)) < l" using inv by (auto simp: resume_inv_def)
  obtain out w' where b: "base (prompt @ rs_token_ids s) (rs_limit s) w = Inr (out, w')"
    using body by (auto simp: resume_body_def)
  let ?s = "merge_reply original out s"
  have f: "follows_replies original (outs @ [out]) ?s" by (rule merge_reply_follows [OF o(2)])
  have "reply_chain base original prompt (outs @ [out])"
    by (rule Reply [OF o(1,3), where w = w and w' = w']) (use b o(2,4) in \<open>auto simp: follows_replies_def\<close>)
  moreover have "c = Inl (?s, w') \<and> aborted out \<and> (\<forall>l. original = Some l \<longrightarrow> int (length (reply_ids (outs @ [out]))) < l) \<or> c = Inr (?s, w')"
    using body f unfolding resume_body_def prod.case b bind_r_Inr Let_def
    by (auto simp: follows_replies_def split: option.splits if_splits)
  ultimately show ?thesis using f o(3) by blast
qed

text \<open>
  [C14] Interrupted generations are resumed without loss: what the fully asynchronous client returns is the concatenation of
  a chain of replies, all but the last interrupted, each generated for exactly the prompt followed by the tokens before
  it and asked with the budget that is left; log-probabilities are concatenated in the same order. If every reply keeps
  to the limit it was given, the whole response keeps to the caller's.
\<close>

theorem resumed_generation_is_chain:
  assumes "fully_async_generate base partial prompt original w = Some (Inr (out, limit, w'))"
  shows "\<exists>outs. outs \<noteq> [] \<and> reply_chain base original prompt outs \<and> list_all aborted (butlast outs)
    \<and> to_token_ids out = reply_ids outs
    \<and> to_log_probs out = Some (concat (map (\<lambda>r. opt_default [] (to_log_probs r)) outs))
    \<and> limit = budget_left original (reply_ids outs)
    \<and> (\<forall>l. original = Some l \<longrightarrow> 0 \<le> l \<longrightarrow>
        (\<forall>p b w r w'. base p (Some b) w = Inr (r, w') \<longrightarrow> 0 \<le> b \<longrightarrow> int (length (to_token_ids r)) \<le> b) \<longrightarrow>
        int (length (to_token_ids out)) \<le> l)"
proof -
  obtain s where run: "repeat_r (resume_body base partial original prompt) (resume_start original, w) = Some (Inr (s, w'))"
      and out: "out = resume_finish s" "limit = rs_limit s" using assms by (auto simp: fully_async_generate_def)
  let ?Q = "\<lambda>(s, w). \<exists>outs. outs \<noteq> [] \<and> reply_chain base original prompt outs \<and> follows_replies original outs s \<and> list_all aborted (butlast outs)"
  have "?Q (s, w')"
  proof (rule repeat_r_post [OF run, where I = "\<lambda>(s, w). resume_inv base original prompt s"])
    show "(\<lambda>(s, w). resume_inv base original prompt s) (resume_start original, w)"
      by (auto simp: resume_inv_def follows_replies_def resume_start_def reply_ids_def budget_left_def map_option.identity option.map_ident
          intro!: exI [of _ "[]"] Empty)
  next
    fix x x' assume "(\<lambda>(s, w). resume_inv base original prompt s) x" "resume_body base partial original prompt x = Inr (Inl x')"
    then obtain outs out w' s' where "reply_chain base original prompt (outs @ [out])" "follows_replies original (outs @ [out]) s'"
        "list_all aborted outs" "x' = (s', w')" "aborted out"
        "\<forall>l. original = Some l \<longrightarrow> int (length (reply_ids (outs @ [out]))) < l"
      using resume_body_inv [of base original prompt "fst x" partial "snd x" "Inl x'"] by (auto split: prod.splits)
    then show "(\<lambda>(s, w). resume_inv base original prompt s) x'"
      by (auto simp: resume_inv_def intro!: exI [of _ "outs @ [out]"])
  next
    fix x y assume "(\<lambda>(s, w). resume_inv base original prompt s) x" "resume_body base partial original prompt x = Inr (Inr y)"
    then show "?Q y" using resume_body_inv [of base original prompt "fst x" partial "snd x" "Inr y"]
      by (auto split: prod.splits)
  qed
  then obtain outs where outs: "outs \<noteq> []" "reply_chain base original prompt outs" "follows_replies original outs s"
      "list_all aborted (butlast outs)" by auto
  have "int (length (reply_ids outs)) \<le> l"
    if l: "original = Some l" "0 \<le> l" and b: "\<forall>p b w r w'. base p (Some b) w = Inr (r, w') \<longrightarrow> 0 \<le> b \<longrightarrow> int (length (to_token_ids r)) \<le> b" for l
    using outs(2)
  proof cases
    case (Reply outs' w out w')
    have "base (prompt @ reply_ids outs') (Some (l - int (length (reply_ids outs')))) w = Inr (out, w')"
      using Reply(4) l(1) by (simp add: budget_left_def)
    moreover have "0 \<le> l - int (length (reply_ids outs'))" using Reply(5) [OF l(1)] l(2) by (auto simp: reply_ids_def)
    ultimately have "int (length (to_token_ids out)) \<le> l - int (length (reply_ids outs'))" using b by blast
    then show ?thesis by (simp add: Reply(1) reply_ids_def)
  qed (use l in \<open>simp add: reply_ids_def\<close>)
  then show ?thesis using outs out by (auto simp: follows_replies_def resume_finish_def)
qed

text \<open>A loop ends when a well-founded order decreases with every iteration.\<close>

lemma repeat_r_ends:
  assumes "wf R" "\<And>x x'. f x = Inr (Inl x') \<Longrightarrow> (x', x) \<in> R"
  shows "\<exists>r. repeat_r f x = Some r"
  using assms(1)
proof (induction x rule: wf_induct_rule)
  case (less x)
  show ?case
  proof (cases "f x")
    case (Inr c)
    then show ?thesis using less assms(2) by (cases c) (subst repeat_r.simps, simp)+
  qed (subst repeat_r.simps, simp)
qed

text \<open>
  [C18] The resumed generation ends, without partial rollout with the first reply, and with partial rollout if the server
  is not interrupted forever without progress: the outside world has a measure (such as the number of interruptions
  still to come) that decreases with every interrupted reply, unless there is a token limit and the reply has at least one
  token. Interrupted replies without tokens, which the rollout server gives when it is paused before it has generated
  anything, are allowed.
\<close>

theorem resumed_generation_ends:
  fixes pauses :: "'s \<Rightarrow> nat" and base :: "int list \<Rightarrow> int option \<Rightarrow> 's \<Rightarrow> (('e, 'm) server_reply \<times> 's) result"
  assumes "partial \<longrightarrow> (\<forall>p b w r w'. base p b w = Inr (r, w') \<longrightarrow> aborted r \<longrightarrow>
      original \<noteq> None \<and> to_token_ids r \<noteq> [] \<or> pauses w' < pauses w)"
  shows "\<exists>r. fully_async_generate base partial prompt original w = Some r"
proof -
  define left where "left = (\<lambda>s :: ('e, 'm) resume_state. case original of None \<Rightarrow> 0 | Some l \<Rightarrow> nat (l - int (length (rs_token_ids s))))"
  let ?R = "inv_image (less_than <*lex*> less_than) (\<lambda>(s, w). (left s, pauses w))"
  have "\<exists>r. repeat_r (resume_body base partial original prompt) (resume_start original, w) = Some r"
  proof (rule repeat_r_ends [of ?R])
    fix x x' assume "resume_body base partial original prompt x = Inr (Inl x')"
    then obtain s w out w' where x: "x = (s, w)" "base (prompt @ rs_token_ids s) (rs_limit s) w = Inr (out, w')" "aborted out" "partial"
        "x' = (merge_reply original out s, w')"
        "\<forall>l. original = Some l \<longrightarrow> int (length (rs_token_ids (merge_reply original out s))) < l"
      by (cases x) (auto simp: resume_body_def Let_def split: if_splits option.splits)
    have ids: "rs_token_ids (merge_reply original out s) = rs_token_ids s @ to_token_ids out" by (simp add: merge_reply_def Let_def)
    have "original \<noteq> None \<and> to_token_ids out \<noteq> [] \<or> pauses w' < pauses w" using assms x(2-4) by blast
    moreover have "left (merge_reply original out s) < left s" if "original \<noteq> None" "to_token_ids out \<noteq> []"
      using that x(6) ids by (cases "to_token_ids out") (auto simp: left_def)
    moreover have "left (merge_reply original out s) \<le> left s" using ids by (auto simp: left_def split: option.splits)
    ultimately show "(x', x) \<in> ?R" unfolding x(1,5) by auto
  qed (simp add: wf_inv_image wf_lex_prod)
  then show ?thesis by (auto simp: fully_async_generate_def)
qed

text \<open>The extra fields of the replies, among them the teacher's marks, are dropped.\<close>

lemma resumed_generation_drops_marks:
  assumes "fully_async_generate base partial prompt original w = Some (Inr (out, limit, w'))"
  shows "map_of (to_extra_fields out) ''relay_teacher_mask'' = None"
  using assms by (auto simp: fully_async_generate_def resume_finish_def)

section \<open>Concrete runs\<close>

definition ex_base :: "int list \<Rightarrow> int option \<Rightarrow> nat \<Rightarrow> ((unit, nat) server_reply \<times> nat) result" where
  "ex_base p limit n =
     Inr (\<lparr>to_token_ids = (if limit = Some 0 then [] else [int n]), to_log_probs = Some [0], to_routed_experts = None,
           to_stop_reason = Some (if n = 0 then ''aborted'' else ''completed''), to_num_preempted = None,
           to_extra_fields = [(''global_steps'', MInt (int n))]\<rparr>, n + 1)"

lemma ex_resumed: "\<exists>out. fully_async_generate ex_base True [5] (Some 4) 0 = Some (Inr (out, Some 2, 2)) \<and> to_token_ids out = [0, 1]"
  by (simp add: fully_async_generate_def repeat_r.simps resume_body_def resume_start_def ex_base_def merge_reply_def aborted_def
      resume_finish_def Let_def)

theorem resumed_generation_is_chain_witness:
  "\<exists>out outs. fully_async_generate ex_base True [5] (Some 4) 0 = Some (Inr (out, Some 2, 2))
     \<and> reply_chain ex_base (Some 4) [5] outs \<and> reply_ids outs = [0, 1]"
proof -
  obtain out where r: "fully_async_generate ex_base True [5] (Some 4) 0 = Some (Inr (out, Some 2, 2))" "to_token_ids out = [0, 1]"
    using ex_resumed by blast
  from resumed_generation_is_chain [OF r(1)] show ?thesis using r by auto
qed

text \<open>A server that is interrupted at every call, the first time before it has generated anything: the token limit ends it.\<close>

definition ex_paused :: "int list \<Rightarrow> int option \<Rightarrow> nat \<Rightarrow> ((unit, nat) server_reply \<times> nat) result" where
  "ex_paused p limit n =
     Inr (\<lparr>to_token_ids = (if n = 0 then [] else [int n]), to_log_probs = None, to_routed_experts = None,
           to_stop_reason = Some ''aborted'', to_num_preempted = None, to_extra_fields = []\<rparr>, n + 1)"

theorem resumed_generation_ends_witness:
  "(\<exists>r. fully_async_generate ex_paused True [5] (Some 2) 0 = Some r) \<and> (\<exists>r. fully_async_generate ex_paused False [5] None 0 = Some r)"
proof
  show "\<exists>r. fully_async_generate ex_paused True [5] (Some 2) 0 = Some r"
    by (rule resumed_generation_ends [where pauses = "\<lambda>n. 1 - n"]) (auto simp: ex_paused_def)
  show "\<exists>r. fully_async_generate ex_paused False [5] None 0 = Some r" by (rule resumed_generation_ends) simp
qed

definition ex_balancer :: "(nat, string \<rightharpoonup> string) balancer" where
  "ex_balancer = \<lparr>lb_servers = [(''a'', 0), (''b'', 1)], lb_inflight = [(''a'', 0), (''b'', 0)], lb_cache = Map.empty\<rparr>"

definition dict_cache :: "(string \<rightharpoonup> string) lru_ops" where
  "dict_cache = \<lparr>lru_get = (\<lambda>c r. (c r, c)), lru_set = (\<lambda>c r s. c(r \<mapsto> s)), lru_del = (\<lambda>c r. c(r := None))\<rparr>"

text \<open>A request holds \<open>a\<close> when \<open>a\<close> is added again, so its counter is too small; the session \<open>q\<close> stays on \<open>a\<close>.\<close>

theorem balancer_counts_requests_witness:
  "\<exists>lb. (lb_step dict_cache)\<^sup>*\<^sup>* (ex_balancer, {#}, {}) (lb, {#''a''#}, {''a''}) \<and> map_of (lb_inflight lb) ''a'' = Some 0
     \<and> (\<exists>h lb'. acquire_server dict_cache ''q'' lb = Inr ((''a'', h), lb') \<and> fst (lru_get dict_cache (lb_cache lb') ''q'') = Some ''a'')"
proof -
  have new: "new_balancer Map.empty [(''a'', 0), (''b'', 1)] = Inr ex_balancer" by (simp add: new_balancer_def ex_balancer_def)
  have d: "distinct (map fst [(''a'', 0 :: nat), (''b'', 1)])" by simp
  have laws: "lru_laws dict_cache" by (simp add: lru_laws_def dict_cache_def)
  let ?lb1 = "ex_balancer\<lparr>lb_inflight := [(''a'', 1), (''b'', 0)], lb_cache := [''q'' \<mapsto> ''a'']\<rparr>"
  have "acquire_server dict_cache ''q'' ex_balancer = Inr ((''a'', 0), ?lb1)"
    by (simp add: acquire_server_def dict_cache_def take_server_def count_of_def ex_balancer_def Let_def)
  then have one: "lb_step dict_cache (ex_balancer, {#}, {}) (?lb1, {#''a''#}, {})" by (rule lb_step.Acquire)
  let ?lb = "add_servers [(''a'', 7)] ?lb1"
  have two: "lb_step dict_cache (?lb1, {#''a''#}, {}) (?lb, {#''a''#}, {''a''})"
    using lb_step.Add [of dict_cache ?lb1 "{#''a''#}" "{}" "[(''a'', 7)]"] by simp
  have steps: "(lb_step dict_cache)\<^sup>*\<^sup>* (ex_balancer, {#}, {}) (?lb, {#''a''#}, {''a''})"
    using one two by (meson rtranclp.rtrancl_into_rtrancl rtranclp.rtrancl_refl)
  have lb: "map_of (lb_inflight ?lb) ''a'' = Some 0" "fst (lru_get dict_cache (lb_cache ?lb) ''q'') = Some ''a''"
    "lb_servers ?lb = [(''a'', 7), (''b'', 1)]"
    by (simp_all add: add_servers_def ex_balancer_def dict_cache_def)
  from balancer_counts_requests [OF new d steps laws, of "''q''"] steps lb show ?thesis
    by (intro exI [of _ ?lb]) auto
qed

end
