(* ===== verification/Message_Queue.thy ===== *)
theory Message_Queue
  imports Prelude "HOL-Library.Sublist"
begin

text \<open>
  The queue between rollouter and trainer: \<open>MessageQueue\<close> of \<open>verl/experimental/fully_async_policy/message_queue.py\<close>. Every
  method holds the lock, so it is one step; \<open>get_sample\<close> may wait on the condition, which releases the lock, and checks
  again when it is notified. The step relation has the consumers that wait and those about to check, and records what
  was put and what was returned.
\<close>

section \<open>The queue\<close>

record 'x message_queue =
  mq_queue :: "'x list"
  mq_max :: nat
  mq_running :: bool
  mq_produced :: nat
  mq_consumed :: nat
  mq_dropped :: nat
  mq_val_queue :: "'x list"

definition new_queue :: "int option \<Rightarrow> 'x message_queue result" where
  "new_queue max_queue_size =
     (case max_queue_size of
        None \<Rightarrow> Inl (ValueError ''max_queue_size cannot be None'')
      | Some n \<Rightarrow> if n < 0 then Inl (ValueError ''maxlen must be non-negative'')
          else Inr \<lparr>mq_queue = [], mq_max = nat n, mq_running = True, mq_produced = 0, mq_consumed = 0, mq_dropped = 0, mq_val_queue = []\<rparr>)"

definition put_sample :: "'x \<Rightarrow> 'x message_queue \<Rightarrow> (bool \<times> 'x message_queue) result" where
  "put_sample x q =
     (if mq_max q \<le> length (mq_queue q)
      then if mq_queue q = [] then Inl IndexError
        else Inr (False, q\<lparr>mq_queue := tl (mq_queue q) @ [x], mq_dropped := mq_dropped q + 1, mq_produced := mq_produced q + 1\<rparr>)
      else Inr (True, q\<lparr>mq_queue := mq_queue q @ [x], mq_produced := mq_produced q + 1\<rparr>))"

text \<open>One pass of the loop in \<open>get_sample\<close>: wait, or return a sample with the length that is left, or return \<open>None\<close>.\<close>

datatype 'x get_outcome = Wait | Closed | Sample 'x nat

definition get_sample :: "'x message_queue \<Rightarrow> 'x get_outcome \<times> 'x message_queue" where
  "get_sample q =
     (case mq_queue q of
        [] \<Rightarrow> if mq_running q then (Wait, q) else (Closed, q)
      | x # xs \<Rightarrow> (Sample x (length xs), q\<lparr>mq_queue := xs, mq_consumed := mq_consumed q + 1\<rparr>))"

definition clear_queue :: "'x message_queue \<Rightarrow> 'x message_queue" where
  "clear_queue q = q\<lparr>mq_queue := []\<rparr>"

definition shutdown :: "'x message_queue \<Rightarrow> 'x message_queue" where
  "shutdown q = q\<lparr>mq_running := False\<rparr>"

definition get_statistics :: "'x message_queue \<Rightarrow> nat \<times> nat \<times> nat \<times> nat \<times> nat" where
  "get_statistics q = (length (mq_queue q), mq_produced q, mq_consumed q, mq_dropped q, mq_max q)"

text \<open>\<open>get_memory_usage\<close>, with the size that is estimated for the first sample, or no size when that raises.\<close>

definition get_memory_usage :: "('x \<Rightarrow> nat option) \<Rightarrow> 'x message_queue \<Rightarrow> nat \<times> nat" where
  "get_memory_usage size_of q =
     (let n = length (mq_queue q)
      in (n, if n > 0 then (case size_of (hd (mq_queue q)) of Some s \<Rightarrow> s * n | None \<Rightarrow> n * 15000) else 0))"

definition put_validate :: "'x \<Rightarrow> 'x message_queue \<Rightarrow> 'x message_queue" where
  "put_validate x q = q\<lparr>mq_val_queue := mq_val_queue q @ [x]\<rparr>"

definition get_validate :: "'x message_queue \<Rightarrow> 'x option \<times> 'x message_queue" where
  "get_validate q = (case mq_val_queue q of [] \<Rightarrow> (None, q) | x # xs \<Rightarrow> (Some x, q\<lparr>mq_val_queue := xs\<rparr>))"

section \<open>Producers and consumers\<close>

text \<open>Consumers are numbered; \<open>waiting\<close> ones are suspended on the condition, \<open>ready\<close> ones are about to check.\<close>

record 'x queue_system =
  qs_queue :: "'x message_queue"
  qs_waiting :: "nat set"
  qs_ready :: "nat set"
  qs_put :: "'x list"
  qs_got :: "'x list"
  qs_cleared :: nat

definition wake_all :: "'x message_queue \<Rightarrow> 'x queue_system \<Rightarrow> 'x queue_system" where
  "wake_all q s = s\<lparr>qs_queue := q, qs_ready := qs_ready s \<union> qs_waiting s, qs_waiting := {}\<rparr>"

definition check_sample :: "nat \<Rightarrow> 'x queue_system \<Rightarrow> 'x queue_system" where
  "check_sample c s =
     (case get_sample (qs_queue s) of
        (Wait, q) \<Rightarrow> s\<lparr>qs_ready := qs_ready s - {c}, qs_waiting := insert c (qs_waiting s)\<rparr>
      | (Closed, q) \<Rightarrow> s\<lparr>qs_ready := qs_ready s - {c}\<rparr>
      | (Sample x n, q) \<Rightarrow> s\<lparr>qs_queue := q, qs_ready := qs_ready s - {c}, qs_got := qs_got s @ [x]\<rparr>)"

inductive queue_step :: "'x queue_system \<Rightarrow> 'x queue_system \<Rightarrow> bool" where
  Put: "put_sample x (qs_queue s) = Inr (b, q) \<Longrightarrow> queue_step s ((wake_all q s)\<lparr>qs_put := qs_put s @ [x]\<rparr>)"
| Call: "c \<notin> qs_waiting s \<Longrightarrow> queue_step s (s\<lparr>qs_ready := insert c (qs_ready s)\<rparr>)"
| Check: "c \<in> qs_ready s \<Longrightarrow> queue_step s (check_sample c s)"
| Clear: "queue_step s (s\<lparr>qs_queue := clear_queue (qs_queue s), qs_cleared := qs_cleared s + length (mq_queue (qs_queue s))\<rparr>)"
| Shutdown: "queue_step s (wake_all (shutdown (qs_queue s)) s)"
| Put_Validate: "queue_step s (s\<lparr>qs_queue := put_validate x (qs_queue s)\<rparr>)"
| Get_Validate: "queue_step s (s\<lparr>qs_queue := snd (get_validate (qs_queue s))\<rparr>)"

definition queue_start :: "'x message_queue \<Rightarrow> 'x queue_system" where
  "queue_start q = \<lparr>qs_queue = q, qs_waiting = {}, qs_ready = {}, qs_put = [], qs_got = [], qs_cleared = 0\<rparr>"

definition queue_inv :: "nat \<Rightarrow> 'x queue_system \<Rightarrow> bool" where
  "queue_inv cap s \<longleftrightarrow>
     (let q = qs_queue s in
      mq_max q = cap \<and> length (mq_queue q) \<le> cap
      \<and> subseq (qs_got s @ mq_queue q) (qs_put s)
      \<and> mq_produced q = length (qs_put s) \<and> mq_consumed q = length (qs_got s)
      \<and> mq_produced q = mq_consumed q + mq_dropped q + qs_cleared s + length (mq_queue q)
      \<and> (qs_waiting s \<noteq> {} \<longrightarrow> mq_queue q = [] \<and> mq_running q))"

lemma subseq_drop_middle: "subseq (xs @ y # ys) zs \<Longrightarrow> subseq (xs @ ys) zs"
  by (meson list_emb_Cons list_emb_append_mono subseq_order.order_refl subseq_order.trans)

lemma queue_step_inv: "queue_step s s' \<Longrightarrow> queue_inv cap s \<Longrightarrow> queue_inv cap s'"
proof (induction rule: queue_step.induct)
  case (Put x s b q)
  have "subseq ((qs_got s @ mq_queue (qs_queue s)) @ [x]) (qs_put s @ [x])"
    using Put.prems by (intro list_emb_append_mono) (auto simp: queue_inv_def Let_def)
  then show ?case
  proof (cases "cap \<le> length (mq_queue (qs_queue s))")
    case True
    then obtain y ys where y: "mq_queue (qs_queue s) = y # ys" using Put by (cases "mq_queue (qs_queue s)") (auto simp: put_sample_def queue_inv_def Let_def)
    have "subseq (qs_got s @ ys @ [x]) (qs_put s @ [x])"
      using \<open>subseq ((qs_got s @ mq_queue (qs_queue s)) @ [x]) (qs_put s @ [x])\<close> unfolding y by (auto intro: subseq_drop_middle)
    then show ?thesis using Put True y by (auto simp: put_sample_def queue_inv_def wake_all_def Let_def)
  qed (use Put in \<open>auto simp: put_sample_def queue_inv_def wake_all_def Let_def\<close>)
next
  case (Check c s)
  then show ?case
    by (cases "mq_queue (qs_queue s)") (auto simp: check_sample_def get_sample_def queue_inv_def Let_def)
next
  case (Clear s)
  have "subseq (qs_got s) (qs_put s)"
    by (rule subseq_order.trans [of _ "qs_got s @ mq_queue (qs_queue s)"])
       (use Clear in \<open>auto simp: queue_inv_def Let_def intro: prefix_imp_subseq\<close>)
  then show ?case using Clear by (auto simp: clear_queue_def queue_inv_def Let_def)
next
  case (Get_Validate s)
  then show ?case by (auto simp: get_validate_def queue_inv_def Let_def split: list.splits)
qed (auto simp: queue_inv_def wake_all_def shutdown_def put_validate_def Let_def)

lemma queue_reachable_inv:
  assumes "new_queue (Some (int cap)) = Inr q" "queue_step\<^sup>*\<^sup>* (queue_start q) s"
  shows "queue_inv cap s"
  using assms(2)
proof (induction rule: rtranclp_induct)
  case base
  show ?case using assms(1) by (auto simp: new_queue_def queue_start_def queue_inv_def Let_def)
qed (rule queue_step_inv)

text \<open>
  [C16] The queue delivers in order and accounts for everything: in every state that producers, consumers and clearing can
  lead to, what was returned followed by what is queued is a subsequence of what was put, the queue holds at most its
  capacity, and every sample that was put is returned, dropped, cleared or still queued, as the counters say.
\<close>

theorem queue_delivers_in_order:
  assumes "new_queue (Some (int cap)) = Inr q" "queue_step\<^sup>*\<^sup>* (queue_start q) s"
  shows "subseq (qs_got s @ mq_queue (qs_queue s)) (qs_put s)
    \<and> length (mq_queue (qs_queue s)) \<le> cap
    \<and> mq_produced (qs_queue s) = length (qs_put s) \<and> mq_consumed (qs_queue s) = length (qs_got s)
    \<and> mq_produced (qs_queue s) = mq_consumed (qs_queue s) + mq_dropped (qs_queue s) + qs_cleared s + length (mq_queue (qs_queue s))"
  using queue_reachable_inv [OF assms] by (auto simp: queue_inv_def Let_def)

text \<open>
  [C21] No consumer is forgotten: in every reachable state a consumer is suspended only while the queue is empty and
  running. So after a shutdown nobody is suspended, and every consumer's next check returns: a sample if one is left,
  and otherwise the end of the queue. A running consumer that checks a non-empty queue gets its first sample.
\<close>

theorem queue_consumers_return:
  assumes "new_queue (Some (int cap)) = Inr q" "queue_step\<^sup>*\<^sup>* (queue_start q) s"
  shows "(mq_queue (qs_queue s) \<noteq> [] \<or> \<not> mq_running (qs_queue s) \<longrightarrow> qs_waiting s = {}
      \<and> (\<forall>c \<in> qs_ready s. qs_ready (check_sample c s) = qs_ready s - {c} \<and> qs_waiting (check_sample c s) = {}))
    \<and> (\<forall>x xs c. mq_queue (qs_queue s) = x # xs \<longrightarrow> qs_got (check_sample c s) = qs_got s @ [x])"
  using queue_reachable_inv [OF assms]
  by (cases "mq_queue (qs_queue s)") (auto simp: queue_inv_def Let_def check_sample_def get_sample_def)

text \<open>A queue of capacity zero cannot take a sample: the oldest sample is removed from the empty queue.\<close>

lemma zero_capacity_put_raises:
  assumes "new_queue (Some 0) = Inr q"
  shows "put_sample x q = Inl IndexError"
  using assms by (auto simp: new_queue_def put_sample_def)

section \<open>A concrete run\<close>

definition ex_queue :: "nat message_queue" where
  "ex_queue = \<lparr>mq_queue = [], mq_max = 1, mq_running = True, mq_produced = 0, mq_consumed = 0, mq_dropped = 0, mq_val_queue = []\<rparr>"

lemma ex_queue_new: "new_queue (Some (int 1)) = Inr ex_queue"
  by (simp add: new_queue_def ex_queue_def)

definition ex_waiting :: "nat queue_system" where
  "ex_waiting = (queue_start ex_queue)\<lparr>qs_waiting := {7}\<rparr>"

lemma ex_waiting_reachable: "queue_step\<^sup>*\<^sup>* (queue_start ex_queue) ex_waiting"
proof -
  have "queue_step (queue_start ex_queue) ((queue_start ex_queue)\<lparr>qs_ready := insert 7 (qs_ready (queue_start ex_queue))\<rparr>)"
    by (rule Call) (simp add: queue_start_def)
  moreover have "queue_step ((queue_start ex_queue)\<lparr>qs_ready := {7}\<rparr>) (check_sample 7 ((queue_start ex_queue)\<lparr>qs_ready := {7}\<rparr>))"
    by (rule Check) simp
  ultimately show ?thesis
    by (simp add: queue_start_def check_sample_def get_sample_def ex_queue_def ex_waiting_def)
qed

definition ex_put :: "nat queue_system" where
  "ex_put = (wake_all (ex_queue\<lparr>mq_queue := [3], mq_produced := 1\<rparr>) ex_waiting)\<lparr>qs_put := [3]\<rparr>"

lemma ex_put_reachable: "queue_step\<^sup>*\<^sup>* (queue_start ex_queue) ex_put"
proof -
  have "queue_step ex_waiting ((wake_all (ex_queue\<lparr>mq_queue := [3], mq_produced := 1\<rparr>) ex_waiting)\<lparr>qs_put := qs_put ex_waiting @ [3]\<rparr>)"
    by (rule Put [where b = True]) (simp add: put_sample_def ex_waiting_def queue_start_def ex_queue_def)
  then show ?thesis using ex_waiting_reachable by (simp add: ex_put_def ex_waiting_def queue_start_def)
qed

theorem queue_delivers_in_order_witness:
  "subseq (qs_got ex_put @ mq_queue (qs_queue ex_put)) (qs_put ex_put) \<and> qs_put ex_put = [3]"
  using queue_delivers_in_order [OF ex_queue_new ex_put_reachable] by (simp add: ex_put_def)

theorem queue_consumers_return_witness:
  "qs_waiting ex_put = {} \<and> qs_got (check_sample 7 ex_put) = [3] \<and> 7 \<in> qs_ready ex_put"
  using queue_consumers_return [OF ex_queue_new ex_put_reachable]
  by (simp add: ex_put_def wake_all_def ex_waiting_def queue_start_def)

end
