(* ===== verification/Offline_Data.thy ===== *)
theory Offline_Data
  imports Py_Data Complex_Main
begin

text \<open>
  Offline trajectories for the SFT, SeqKD and TRD baselines (\<open>opd/data\<close>): the generation of one trajectory per prompt by
  shards (\<open>generate_teacher_trajectories.py\<close>, \<open>generate_trd_trajectories.py\<close>), the merge of the shards
  (\<open>merge_offline_trajectories.py\<close>), and the dataset that feeds them to training (\<open>tokenized_sft_dataset.py\<close>). A file of
  JSON lines or a parquet file is the list of its rows, each a dictionary. The tokenizer, the engine and \<open>str\<close> are
  parameters.
\<close>

section \<open>Loading prompts\<close>

type_synonym chat = "(string \<times> string) list"

record gen_completion =
  co_text :: string
  co_ids :: "int list"
  co_finish :: string

record 'm gen_tools =
  gt_str :: "'m py_obj \<Rightarrow> string"
  gt_template :: "chat \<Rightarrow> int list"
  gt_encode :: "string \<Rightarrow> int list"
  gt_decode :: "int list \<Rightarrow> string"
  gt_generate :: "int list list \<Rightarrow> gen_completion list"

definition get_key :: "string \<Rightarrow> 'm py_obj dict \<Rightarrow> 'm py_obj result" where
  "get_key k row = (case map_of row k of None \<Rightarrow> Inl (KeyError k) | Some v \<Rightarrow> Inr v)"

text \<open>\<open>_messages\<close>: role and content of every item, as strings.\<close>

definition message_of :: "'m gen_tools \<Rightarrow> 'm py_obj \<Rightarrow> (string \<times> string) result" where
  "message_of gt v =
     (case v of
        MDict d \<Rightarrow> bind_r (get_key ''role'' d) (\<lambda>r. bind_r (get_key ''content'' d) (\<lambda>c. Inr (gt_str gt r, gt_str gt c)))
      | _ \<Rightarrow> Inl TypeError)"

definition messages_of :: "'m gen_tools \<Rightarrow> 'm py_obj \<Rightarrow> chat result" where
  "messages_of gt v = (case v of MList xs \<Rightarrow> map_r (message_of gt) xs | _ \<Rightarrow> Inl TypeError)"

definition ground_truth :: "'m py_obj dict \<Rightarrow> 'm py_obj" where
  "ground_truth row =
     (case map_of row ''reward_model'' of
        Some (MDict d) \<Rightarrow> opt_default MNone (map_of d ''ground_truth'')
      | _ \<Rightarrow> opt_default MNone (map_of row ''gt''))"

definition default_system :: string where
  "default_system = ''Please reason step by step, and put your final answer within '' @ [CHR 0x5C] @ ''boxed{}.''"

definition problem_context :: "chat \<Rightarrow> string \<times> string" where
  "problem_context messages =
     (opt_default default_system (map_option snd (find (\<lambda>(r, c). r = ''system'') messages)),
      opt_default [] (map_option snd (find (\<lambda>(r, c). r = ''user'') messages)))"

definition newline :: string where
  "newline = [CHR 0x0A]"

definition rewrite_messages :: "string \<Rightarrow> string \<Rightarrow> string \<Rightarrow> chat" where
  "rewrite_messages system problem initial =
     [(''system'', system),
      (''user'', ''Your task is to rewrite your mathematical solution.'' @ newline @ newline
         @ ''**Problem:**'' @ newline @ problem @ newline @ newline
         @ ''**Your Initial Solution:**'' @ newline @ initial @ newline @ newline
         @ ''**Instructions:**'' @ newline
         @ ''1. Preserve the overall structure and reasoning path of your original solution'' @ newline
         @ ''2. Identify and fix errors in computation or logic'' @ newline
         @ ''3. Keep correct intermediate steps and meaningful work'' @ newline
         @ ''4. Output ONLY the rewritten solution'')]"

definition fit_rewrite_prompt :: "'m gen_tools \<Rightarrow> string \<Rightarrow> string \<Rightarrow> string \<Rightarrow> int \<Rightarrow> chat \<times> int list \<times> nat" where
  "fit_rewrite_prompt gt system problem initial max_prompt =
     (let messages = rewrite_messages system problem initial; ids = gt_template gt messages in
      if int (length ids) \<le> max_prompt then (messages, ids, 0)
      else
        (let empty_len = int (length (gt_template gt (rewrite_messages system problem [])));
             budget = nat (max (max_prompt - empty_len - 16) 0);
             initial_ids = gt_encode gt initial;
             retained = gt_decode gt (take budget initial_ids) @ newline @ ''[... initial solution truncated ...]'';
             messages = rewrite_messages system problem retained
         in (messages, py_take max_prompt (gt_template gt messages), length initial_ids - budget)))"

text \<open>The rows of a request: what the record of its output is made of.\<close>

record 'm gen_row =
  gr_index :: int
  gr_messages :: chat
  gr_prompt_ids :: "int list"
  gr_gt :: "'m py_obj"
  gr_rewrite :: "(chat \<times> int list \<times> 'm py_obj list \<times> nat) option"

definition prompt_row :: "'m gen_tools \<Rightarrow> nat \<Rightarrow> 'm py_obj dict \<Rightarrow> 'm gen_row result" where
  "prompt_row gt position source =
     bind_r (get_key ''prompt'' source) (\<lambda>p. bind_r (messages_of gt p) (\<lambda>messages.
       Inr \<lparr>gr_index = int position, gr_messages = messages, gr_prompt_ids = gt_template gt messages,
            gr_gt = ground_truth source, gr_rewrite = None\<rparr>))"

text \<open>\<open>_load_student_rows\<close> and the loop of the teacher script: the rows of one shard and the number of source rows.\<close>

definition load_prompt_rows :: "'m gen_tools \<Rightarrow> nat \<Rightarrow> nat \<Rightarrow> 'm py_obj dict list \<Rightarrow> ('m gen_row list \<times> nat) result" where
  "load_prompt_rows gt num_shards shard_id sources =
     (if num_shards = 0 \<and> sources \<noteq> [] then Inl ZeroDivisionError
      else bind_r (map_r (\<lambda>(position, source). prompt_row gt position source)
             (filter (\<lambda>(position, _). position mod num_shards = shard_id) (enumerate 0 sources)))
           (\<lambda>rows. Inr (rows, length sources)))"

definition rewrite_row :: "'m gen_tools \<Rightarrow> int \<Rightarrow> int \<Rightarrow> 'm py_obj dict \<Rightarrow> 'm gen_row result" where
  "rewrite_row gt max_prompt index source =
     bind_r (get_key ''messages'' source) (\<lambda>m. bind_r (messages_of gt m) (\<lambda>messages.
       if messages = [] then Inl IndexError
       else
         let base = filter (\<lambda>(r, _). r \<noteq> ''assistant'') messages; initial = snd (last messages);
             (system, problem) = problem_context base;
             (rewrite, ids, truncated) = fit_rewrite_prompt gt system problem initial max_prompt
         in bind_r (get_key ''response_token_ids'' source) (\<lambda>y.
            bind_r (case y of MList ys \<Rightarrow> map_r py_int_of ys | _ \<Rightarrow> Inl TypeError) (\<lambda>ys.
              Inr \<lparr>gr_index = index, gr_messages = base, gr_prompt_ids = ids, gr_gt = opt_default MNone (map_of source ''gt''),
                   gr_rewrite = Some (rewrite, gt_template gt base, map MInt ys, truncated)\<rparr>))))"

definition index_of :: "'m py_obj dict \<Rightarrow> int result" where
  "index_of row = bind_r (get_key ''original_index'' row) py_int_of"

definition load_rewrite_rows :: "'m gen_tools \<Rightarrow> int \<Rightarrow> nat \<Rightarrow> nat \<Rightarrow> 'm py_obj dict list \<Rightarrow> ('m gen_row list \<times> nat) result" where
  "load_rewrite_rows gt max_prompt num_shards shard_id sources =
     bind_r (map_r (\<lambda>source. bind_r (index_of source) (\<lambda>i.
         if num_shards = 0 then Inl ZeroDivisionError
         else if i mod int num_shards \<noteq> int shard_id then Inr []
         else bind_r (rewrite_row gt max_prompt i source) (\<lambda>r. Inr [r]))) sources)
       (\<lambda>rows. Inr (concat rows, length sources))"

section \<open>Generation\<close>

definition chat_obj :: "chat \<Rightarrow> 'm py_obj" where
  "chat_obj messages = MList (map (\<lambda>(r, c). MDict [(''role'', MStr r), (''content'', MStr c)]) messages)"

definition ids_obj :: "int list \<Rightarrow> 'm py_obj" where
  "ids_obj ids = MList (map MInt ids)"

text \<open>The record that is written for a row: the student and teacher form, and the rewrite form.\<close>

definition output_record :: "string \<Rightarrow> 'm gen_row \<Rightarrow> gen_completion \<Rightarrow> 'm py_obj dict" where
  "output_record data_source row co =
     (let said = [(''assistant'', co_text co)];
          start = [(''original_index'', MInt (gr_index row)), (''unique_id'', MInt (gr_index row)),
                   (''messages'', chat_obj (gr_messages row @ said))];
          finish = [(''sample_idx'', MInt 0), (''gt'', gr_gt row), (''enable_thinking'', MBool False),
                    (''eos_reached'', MBool (co_finish co = ''stop'')), (''finish_reason'', MStr (co_finish co)),
                    (''gen_len'', MInt (int (length (co_ids co))))]
      in case gr_rewrite row of
           None \<Rightarrow> start @ [(''prompt_token_ids'', ids_obj (gr_prompt_ids row)), (''response_token_ids'', ids_obj (co_ids co))]
             @ finish @ [(''data_source'', MStr data_source)]
         | Some (rewrite, student_ids, y_o, truncated) \<Rightarrow>
             start @ [(''rewrite_messages'', chat_obj (rewrite @ said)), (''prompt_token_ids'', ids_obj student_ids),
               (''teacher_prompt_token_ids'', ids_obj (gr_prompt_ids row)), (''response_token_ids'', ids_obj (co_ids co)),
               (''teacher_response_token_ids'', ids_obj (co_ids co)), (''y_o_response_token_ids'', MList y_o)]
             @ finish @ [(''rewrite_prompt_truncated_tokens'', MInt (int truncated)), (''data_source'', MStr data_source)])"

record shard_summary =
  ss_rows :: nat
  ss_source_rows :: "nat option"
  ss_total_tokens :: nat
  ss_eos_count :: nat
  ss_max_gen_tokens :: nat
  ss_truncated_rows :: nat

text \<open>\<open>main\<close> of the two scripts after loading: one batch for the engine, a record per row, and the summary of the shard.\<close>

definition generate_shard :: "'m gen_tools \<Rightarrow> string \<Rightarrow> 'm gen_row list \<times> nat \<Rightarrow> ('m py_obj dict list \<times> shard_summary) result" where
  "generate_shard gt data_source = (\<lambda>(rows, source_rows).
     let outs = gt_generate gt (map gr_prompt_ids rows) in
     if length outs \<noteq> length rows then Inl (ValueError ''zip() arguments must have equal length'')
     else Inr (map2 (output_record data_source) rows outs,
       \<lparr>ss_rows = length rows, ss_source_rows = Some source_rows, ss_total_tokens = sum_list (map (length \<circ> co_ids) outs),
        ss_eos_count = length (filter (\<lambda>co. co_finish co = ''stop'') outs),
        ss_max_gen_tokens = fold (\<lambda>co m. max m (length (co_ids co))) outs 0,
        ss_truncated_rows = length (filter (\<lambda>r. case gr_rewrite r of None \<Rightarrow> False | Some (_, _, _, t) \<Rightarrow> t > 0) rows)\<rparr>))"

text \<open>The scripts for one shard.\<close>

definition teacher_main :: "'m gen_tools \<Rightarrow> string \<Rightarrow> nat \<Rightarrow> nat \<Rightarrow> 'm py_obj dict list \<Rightarrow> ('m py_obj dict list \<times> shard_summary) result" where
  "teacher_main gt data_source num_shards shard_id sources =
     bind_r (load_prompt_rows gt num_shards shard_id sources) (generate_shard gt data_source)"

definition trd_main :: "'m gen_tools \<Rightarrow> string \<Rightarrow> int \<Rightarrow> int \<Rightarrow> nat \<Rightarrow> nat \<Rightarrow> 'm py_obj dict list
    \<Rightarrow> ('m py_obj dict list \<times> shard_summary) result" where
  "trd_main gt mode max_model_len max_new num_shards shard_id sources =
     (if mode = ''student''
      then bind_r (load_prompt_rows gt num_shards shard_id sources) (generate_shard gt ''trd_student_trajectory'')
      else bind_r (load_rewrite_rows gt (max_model_len - max_new) num_shards shard_id sources)
             (generate_shard gt ''trd_rewrite_student_nothink_prompt''))"

section \<open>Merging\<close>

definition teacher_columns :: "string list" where
  "teacher_columns = [''messages'', ''prompt_token_ids'', ''response_token_ids'', ''sample_idx'', ''unique_id'', ''gt'',
     ''enable_thinking'', ''eos_reached'', ''finish_reason'', ''gen_len'', ''data_source'']"

definition trd_columns :: "string list" where
  "trd_columns = [''messages'', ''rewrite_messages'', ''prompt_token_ids'', ''teacher_prompt_token_ids'', ''response_token_ids'',
     ''teacher_response_token_ids'', ''y_o_response_token_ids'', ''sample_idx'', ''unique_id'', ''gt'', ''enable_thinking'',
     ''eos_reached'', ''finish_reason'', ''gen_len'', ''rewrite_prompt_truncated_tokens'', ''data_source'']"

datatype merge_mode = Student | Teacher | Trd

text \<open>The input: shard files in the order of their names, each with its summary if there is one, or one file.\<close>

datatype 'm merge_input = Shards "('m py_obj dict list \<times> shard_summary option) list" | Single "'m py_obj dict list"

definition read_input :: "nat option \<Rightarrow> bool \<Rightarrow> 'm merge_input \<Rightarrow> ('m py_obj dict list \<times> shard_summary list) result" where
  "read_input expected jsonl input =
     (case input of
        Single rows \<Rightarrow> Inr (rows, [])
      | Shards shards \<Rightarrow>
          (case expected of
             None \<Rightarrow> Inl (ValueError ''--shard-dir requires --expected-shards and --jsonl'')
           | Some n \<Rightarrow>
               if \<not> jsonl then Inl (ValueError ''--shard-dir requires --expected-shards and --jsonl'')
               else if length shards \<noteq> n then Inl (RuntimeError ''expected shards'')
               else bind_r (map_r (\<lambda>(_, s). case s of None \<Rightarrow> Inl (RuntimeError ''missing shard summary'') | Some s \<Rightarrow> Inr s) shards)
                      (\<lambda>summaries. Inr (concat (map fst shards), summaries))))"

text \<open>The rows with their indices, sorted, and checked against the summaries.\<close>

definition check_rows :: "(int \<times> 'm py_obj dict) list \<Rightarrow> shard_summary list \<Rightarrow> unit result" where
  "check_rows rows summaries =
     (if \<not> distinct (map fst rows) then Inl (RuntimeError ''duplicate original_index values across generation shards'')
      else
        (let counts = remdups (List.map_filter ss_source_rows summaries) in
         case counts of
           [] \<Rightarrow> Inr ()
         | [n] \<Rightarrow> if length rows \<noteq> n then Inl (RuntimeError ''expected one trajectory for each of the source rows'') else Inr ()
         | _ \<Rightarrow> Inl (RuntimeError ''generation shards disagree on source row count'')))"

definition parquet_rows :: "merge_mode \<Rightarrow> 'm py_obj dict list \<Rightarrow> 'm py_obj list list result" where
  "parquet_rows mode rows =
     (let columns = (if mode = Teacher then teacher_columns else trd_columns) in
      if rows \<noteq> [] \<and> \<not> set columns \<subseteq> set (map fst (hd rows)) then Inl (RuntimeError ''missing parquet columns'')
      else map_r (\<lambda>row. map_r (\<lambda>key. get_key key row) columns) rows)"

text \<open>The statistics of the merge: the number of rows, the tokens, the longest response and the finished ones.\<close>

record merge_summary =
  ms_rows :: nat
  ms_avg_gen_tokens :: real
  ms_max_gen_tokens :: int
  ms_eos_rate :: real

definition summarize_rows :: "'m py_obj dict list \<Rightarrow> merge_summary result" where
  "summarize_rows rows =
     bind_r (map_r (\<lambda>row. case map_of row ''gen_len'' of None \<Rightarrow> Inr 0 | Some v \<Rightarrow> py_int_of v) rows) (\<lambda>lens.
       let n = real (max (length rows) 1);
           eos = length (filter (\<lambda>row. case map_of row ''eos_reached'' of None \<Rightarrow> False | Some v \<Rightarrow> py_truth v) rows)
       in Inr \<lparr>ms_rows = length rows, ms_avg_gen_tokens = of_int (sum_list lens) / n,
               ms_max_gen_tokens = (if lens = [] then 0 else Max (set lens)), ms_eos_rate = real eos / n\<rparr>)"

text \<open>\<open>main\<close>: what is written as JSON lines (shards only) and as parquet (when asked for), and the summary.\<close>

definition merge_offline :: "merge_mode \<Rightarrow> nat option \<Rightarrow> bool \<Rightarrow> bool \<Rightarrow> 'm merge_input
    \<Rightarrow> ('m py_obj dict list \<times> 'm py_obj list list option \<times> merge_summary) result" where
  "merge_offline mode expected jsonl parquet input =
     bind_r (read_input expected jsonl input) (\<lambda>(rows, summaries).
       if rows = [] then Inl (RuntimeError ''no offline trajectories found'')
       else bind_r (map_r (\<lambda>row. bind_r (index_of row) (\<lambda>i. Inr (i, row))) rows) (\<lambda>indexed.
            let sorted_rows = sort_key fst indexed in
            bind_r (check_rows sorted_rows summaries) (\<lambda>_.
            bind_r (if parquet then bind_r (parquet_rows mode (map snd sorted_rows)) (\<lambda>p. Inr (Some p)) else Inr None) (\<lambda>table.
            bind_r (summarize_rows (map snd sorted_rows)) (\<lambda>summ.
              Inr (map snd sorted_rows, table, summ))))))"

text \<open>
  A phase of \<open>trd_trajectories.sh\<close>: the shards are generated, and merged in the order \<open>ks\<close> of their file names (with more
  than ten of them, the names do not sort as the numbers do). The two phases of the data: student samples, teacher rewrites.
\<close>

definition run_phase :: "(nat \<Rightarrow> ('m py_obj dict list \<times> shard_summary) result) \<Rightarrow> merge_mode \<Rightarrow> bool \<Rightarrow> nat list
    \<Rightarrow> ('m py_obj dict list \<times> 'm py_obj list list option \<times> merge_summary) result" where
  "run_phase shard mode parquet ks =
     bind_r (map_r shard ks) (\<lambda>outs.
       merge_offline mode (Some (length ks)) True parquet (Shards (map (\<lambda>(r, s). (r, Some s)) outs)))"

text \<open>Every shard is a process of its own, with an engine of its own: the engine samples, so nothing relates its answers in
  different shards.\<close>

definition with_engine :: "'m gen_tools \<Rightarrow> (nat \<Rightarrow> int list list \<Rightarrow> gen_completion list) \<Rightarrow> nat \<Rightarrow> 'm gen_tools" where
  "with_engine gt engines k = gt\<lparr>gt_generate := engines k\<rparr>"

definition teacher_pipeline :: "'m gen_tools \<Rightarrow> (nat \<Rightarrow> int list list \<Rightarrow> gen_completion list) \<Rightarrow> string \<Rightarrow> nat list \<Rightarrow> 'm py_obj dict list
    \<Rightarrow> ('m py_obj dict list \<times> 'm py_obj list list option \<times> merge_summary) result" where
  "teacher_pipeline gt engines data_source ks sources =
     run_phase (\<lambda>k. teacher_main (with_engine gt engines k) data_source (length ks) k sources) Teacher True ks"

definition trd_pipeline :: "'m gen_tools \<Rightarrow> (nat \<Rightarrow> int list list \<Rightarrow> gen_completion list) \<Rightarrow> 'm gen_tools
    \<Rightarrow> (nat \<Rightarrow> int list list \<Rightarrow> gen_completion list) \<Rightarrow> int \<Rightarrow> int \<Rightarrow> nat list \<Rightarrow> nat list \<Rightarrow> 'm py_obj dict list
    \<Rightarrow> ('m py_obj dict list \<times> 'm py_obj list list option \<times> merge_summary) result" where
  "trd_pipeline student samplers teacher rewriters max_model_len max_new ks js sources =
     bind_r (run_phase (\<lambda>k. trd_main (with_engine student samplers k) ''student'' max_model_len max_new (length ks) k sources) Student False ks)
       (\<lambda>(samples, _, _). run_phase (\<lambda>k. trd_main (with_engine teacher rewriters k) ''rewrite'' max_model_len max_new (length js) k samples) Trd True js)"

section \<open>The dataset\<close>

record dataset_config =
  dc_pad_mode :: string
  dc_truncation :: string
  dc_max_length :: nat
  dc_pad_token_id :: "int option"

text \<open>\<open>_read_files\<close>; the random choice of samples is a parameter.\<close>

definition read_files :: "int \<Rightarrow> bool \<Rightarrow> (nat \<Rightarrow> nat \<Rightarrow> nat list) \<Rightarrow> 'r list list \<Rightarrow> 'r list result" where
  "read_files max_samples shuffle choice files =
     (if files = [] then Inl (ValueError ''No objects to concatenate'')
      else
        (let frame = concat files in
         if 0 < max_samples \<and> max_samples < int (length frame)
         then map_r (\<lambda>i. if i < length frame then Inr (frame ! i) else Inl IndexError)
                (if shuffle then choice (length frame) (nat max_samples) else [0..<nat max_samples])
         else Inr frame))"

record sft_item =
  it_input_ids :: "int list"
  it_position_ids :: "int list"
  it_loss_mask :: "int list"

definition sft_item_of :: "dataset_config \<Rightarrow> int list \<Rightarrow> int list \<Rightarrow> sft_item result" where
  "sft_item_of cfg prompt_ids response_ids =
     (let ids = prompt_ids @ response_ids; loss = replicate (length prompt_ids) 0 @ replicate (length response_ids) 1;
          n = dc_max_length cfg
      in bind_r
          (if length ids \<le> n then Inr \<lparr>it_input_ids = ids, it_position_ids = map int [0..<length ids], it_loss_mask = loss\<rparr>
           else if dc_truncation cfg = ''error'' then Inl (ValueError ''sequence_length is larger than max_length'')
           else if dc_truncation cfg = ''left''
           then Inr \<lparr>it_input_ids = last_n n ids, it_position_ids = map int [0..<length (last_n n ids)], it_loss_mask = last_n n loss\<rparr>
           else if dc_truncation cfg = ''right''
           then Inr \<lparr>it_input_ids = take n ids, it_position_ids = take n (map int [0..<length ids]), it_loss_mask = take n loss\<rparr>
           else Inl (ValueError ''Unknown truncation method''))
          (\<lambda>item.
            if dc_pad_mode cfg = ''no_padding'' then Inr item
            else if dc_pad_mode cfg \<notin> {''right'', ''left_right''} then Inl (ValueError ''Unknown pad_mode'')
            else
              (let k = n - length (it_input_ids item); p = opt_default 0 (dc_pad_token_id cfg)
               in Inr \<lparr>it_input_ids = it_input_ids item @ replicate k p, it_position_ids = it_position_ids item @ replicate k 0,
                       it_loss_mask = it_loss_mask item @ replicate k 0\<rparr>)))"

section \<open>Sharding does not change the data\<close>

lemma map_r_filter:
  assumes "map_r f xs = Inr ys" "\<And>x y. x \<in> set xs \<Longrightarrow> f x = Inr y \<Longrightarrow> P x \<longleftrightarrow> Q y"
  shows "map_r f (filter P xs) = Inr (filter Q ys)"
  using assms
proof (induction xs arbitrary: ys)
  case (Cons x xs)
  then obtain y ys' where "f x = Inr y" "map_r f xs = Inr ys'" "ys = y # ys'" by auto
  then show ?case using Cons by auto
qed simp

lemma mset_insert_class:
  assumes "distinct ks" "k \<in> set ks"
  shows "mset (concat (map (\<lambda>j. (if k = j then [x] else []) @ g j) ks)) = add_mset x (mset (concat (map g ks)))"
  using assms
proof (induction ks)
  case (Cons j ks)
  show ?case
  proof (cases "k = j")
    case True
    then have rest: "map (\<lambda>i. (if k = i then [x] else []) @ g i) ks = map g ks" using Cons.prems by auto
    show ?thesis unfolding list.map(2) concat.simps rest by (simp add: True)
  next
    case False
    then show ?thesis using Cons by simp
  qed
qed simp

text \<open>The classes of a function with values among \<open>ks\<close> hold every element once.\<close>

lemma mset_classes:
  assumes "distinct ks" "\<forall>x \<in> set xs. f x \<in> set ks"
  shows "mset (concat (map (\<lambda>k. filter (\<lambda>x. f x = k) xs) ks)) = mset xs"
  using assms(2)
proof (induction xs)
  case Nil
  have "concat (map (\<lambda>k. []) ks) = []" by (induction ks) auto
  then show ?case by simp
next
  case (Cons x xs)
  have step: "map (\<lambda>k. filter (\<lambda>x. f x = k) (x # xs)) ks = map (\<lambda>k. (if f x = k then [x] else []) @ filter (\<lambda>x. f x = k) xs) ks"
    by (rule map_cong) auto
  have "f x \<in> set ks" using Cons.prems by simp
  then show ?case unfolding step mset_insert_class [OF assms(1) \<open>f x \<in> set ks\<close>] using Cons by simp
qed

definition shard_of :: "nat \<Rightarrow> 'm gen_row \<Rightarrow> nat" where
  "shard_of n row = nat (gr_index row mod int n)"

definition increasing :: "'m gen_row list \<Rightarrow> bool" where
  "increasing rows \<longleftrightarrow> sorted (map gr_index rows) \<and> distinct (map gr_index rows)"

lemma index_of_output [simp]: "index_of (output_record ds row co) = Inr (gr_index row)"
  by (simp add: index_of_def get_key_def output_record_def Let_def py_int_of_def split: option.splits)

definition record_of :: "string \<Rightarrow> ('m gen_row \<Rightarrow> gen_completion) \<Rightarrow> 'm gen_row \<Rightarrow> 'm py_obj dict" where
  "record_of ds g row = output_record ds row (g row)"

lemma index_records:
  "map_r (\<lambda>row. bind_r (index_of row) (\<lambda>i. Inr (i, row))) (map (record_of ds g) rows) = Inr (map (\<lambda>r. (gr_index r, record_of ds g r)) rows)"
  by (induction rows) (simp_all add: record_of_def)

lemma generate_shard_run:
  assumes "gt_generate gt (map gr_prompt_ids rows) = map g rows"
  shows "\<exists>s. generate_shard gt ds (rows, n) = Inr (map (record_of ds g) rows, s) \<and> ss_source_rows s = Some n"
proof -
  have "map2 (output_record ds) rows (map g rows) = map (record_of ds g) rows"
    by (induction rows) (simp_all add: record_of_def)
  then show ?thesis using assms by (simp add: generate_shard_def Let_def comp_def)
qed

lemma summarize_output: "\<exists>summ. summarize_rows (map (record_of ds g) rows) = Inr summ"
proof -
  have "\<exists>lens. map_r (\<lambda>row. case map_of row ''gen_len'' of None \<Rightarrow> Inr 0 | Some v \<Rightarrow> py_int_of v) (map (record_of ds g) rows) = Inr lens"
    by (induction rows) (auto simp: record_of_def output_record_def Let_def py_int_of_def split: option.splits)
  then show ?thesis by (auto simp: summarize_rows_def Let_def)
qed

lemma same_counts:
  "ss \<noteq> [] \<Longrightarrow> \<forall>s \<in> set ss. ss_source_rows s = Some n \<Longrightarrow> remdups (List.map_filter ss_source_rows ss) = [n]"
proof (induction ss)
  case (Cons s ss)
  then show ?case by (cases ss) (auto simp: map_filter_simps)
qed simp

abbreviation phase :: "(nat \<Rightarrow> ('m gen_row list \<times> nat) result) \<Rightarrow> (nat \<Rightarrow> 'm gen_tools) \<Rightarrow> string \<Rightarrow> merge_mode \<Rightarrow> bool \<Rightarrow> nat list
    \<Rightarrow> ('m py_obj dict list \<times> 'm py_obj list list option \<times> merge_summary) result" where
  "phase load gt data_source \<equiv> run_phase (\<lambda>k. bind_r (load k) (generate_shard (gt k) data_source))"

lemma read_shards:
  fixes outs :: "('m py_obj dict list \<times> shard_summary) list"
  shows "read_input (Some (length outs)) True (Shards (map (\<lambda>(r, s). (r, Some s)) outs))
    = Inr (concat (map fst (map (\<lambda>(r, s). (r, Some s)) outs)), map snd outs)"
proof -
  have "map_r (\<lambda>(_, s). case s of None \<Rightarrow> Inl (RuntimeError ''missing shard summary'') | Some s \<Rightarrow> Inr s)
      (map (\<lambda>(r, s). (r, Some s)) ss) = Inr (map snd ss)" for ss :: "('m py_obj dict list \<times> shard_summary) list"
    by (induction ss) auto
  then show ?thesis unfolding read_input_def merge_input.case option.case by simp
qed

lemma run_phase_eq:
  fixes rows :: "'m gen_row list"
  assumes ks: "mset ks = mset [0..<length ks]" "ks \<noteq> []"
    and load: "\<And>k. k < length ks \<Longrightarrow> load k = Inr (filter (\<lambda>r. shard_of (length ks) r = k) rows, length rows)"
    and rows: "rows \<noteq> []" "increasing rows"
    and engine: "\<forall>k < length ks. gt_generate (gt k) (map gr_prompt_ids (filter (\<lambda>r. shard_of (length ks) r = k) rows))
      = map g (filter (\<lambda>r. shard_of (length ks) r = k) rows)"
  shows "phase load gt ds mode parquet ks
    = bind_r (if parquet then bind_r (parquet_rows mode (map (record_of ds g) rows)) (\<lambda>p. Inr (Some p)) else Inr None) (\<lambda>t.
      bind_r (summarize_rows (map (record_of ds g) rows)) (\<lambda>summ. Inr (map (record_of ds g) rows, t, summ)))"
proof -
  have "distinct ks = distinct [0..<length ks]" by (rule mset_eq_imp_distinct_iff [OF ks(1)])
  then have d: "distinct ks" by simp
  have set_ks: "set ks = {..<length ks}" using mset_eq_setD [OF ks(1)] by (simp only: set_upt atLeast0LessThan)
  let ?rec = "record_of ds g :: 'm gen_row \<Rightarrow> _"
  let ?part = "\<lambda>k. filter (\<lambda>r. shard_of (length ks) r = k) rows"
  have "\<exists>s. bind_r (load k) (generate_shard (gt k) ds) = Inr (map ?rec (?part k), s) \<and> ss_source_rows s = Some (length rows)"
    if "k < length ks" for k
    using generate_shard_run [OF engine [rule_format, OF that]] load [OF that] by simp
  then obtain S where S: "bind_r (load k) (generate_shard (gt k) ds) = Inr (map ?rec (?part k), S k) \<and> ss_source_rows (S k) = Some (length rows)"
    if "k < length ks" for k by metis
  have src: "ss_source_rows (S k) = Some (length rows)" if "k < length ks" for k using S [OF that] by (rule conjunct2)
  have gen: "bind_r (load k) (generate_shard (gt k) ds) = Inr (map ?rec (?part k), S k)" if "k \<in> set ks" for k
    using S that set_ks by blast
  define outs where "outs = map (\<lambda>k. (map ?rec (?part k), S k)) ks"
  have run: "map_r (\<lambda>k. bind_r (load k) (generate_shard (gt k) ds)) ks = Inr outs"
    unfolding outs_def by (rule map_r_Inr) (rule gen)
  let ?all = "concat (map ?part ks)"
  have all: "mset ?all = mset rows"
    by (rule mset_classes [OF d]) (use ks(2) set_ks in \<open>auto simp: shard_of_def nat_less_iff\<close>)
  have cat: "concat (map fst (map (\<lambda>(r, s). (r, Some s)) outs)) = map ?rec ?all"
    by (simp add: outs_def comp_def map_concat)
  have read: "read_input (Some (length ks)) True (Shards (map (\<lambda>(r, s). (r, Some s)) outs)) = Inr (map ?rec ?all, map snd outs)"
    using read_shards [of outs] unfolding cat by (simp add: outs_def)
  have snds: "map snd outs = map S ks" by (simp add: outs_def comp_def)
  have ne: "map ?rec ?all \<noteq> []" using all rows(1) by (metis map_is_Nil_conv mset_zero_iff)
  have sort: "sort_key fst (map (\<lambda>r. (gr_index r, ?rec r)) ?all) = map (\<lambda>r. (gr_index r, ?rec r)) rows"
  proof (rule sort_key_inj_key_eq)
    show "mset (map (\<lambda>r. (gr_index r, ?rec r)) ?all) = mset (map (\<lambda>r. (gr_index r, ?rec r)) rows)" using all by (metis mset_map)
    have "set ?all = set rows" using mset_eq_setD [OF all] .
    then show "inj_on fst (set (map (\<lambda>r. (gr_index r, ?rec r)) ?all))"
      using rows(2) by (auto simp: increasing_def distinct_map inj_on_def)
    show "sorted (map fst (map (\<lambda>r. (gr_index r, ?rec r)) rows))" using rows(2) by (simp add: increasing_def comp_def)
  qed
  have counts: "remdups (List.map_filter ss_source_rows (map S ks)) = [length rows]"
    by (rule same_counts) (use ks(2) src set_ks in auto)
  have check: "check_rows (map (\<lambda>r. (gr_index r, ?rec r)) rows) (map S ks) = Inr ()"
    using rows(2) by (simp add: check_rows_def counts increasing_def comp_def)
  have recs: "map snd (map (\<lambda>r. (gr_index r, ?rec r)) rows) = map ?rec rows" by simp
  show ?thesis
    unfolding run_phase_def run bind_r_Inr merge_offline_def read prod.case if_not_P [OF ne] index_records Let_def sort snds check recs ..
qed

section \<open>The shards of a load\<close>

lemma prompt_row_index: "prompt_row gt i source = Inr row \<Longrightarrow> gr_index row = int i"
  by (auto simp: prompt_row_def)

lemma load_prompt_shards:
  assumes "load_prompt_rows gt 1 0 sources = Inr (rows, n)"
  shows "map gr_index rows = map int [0..<length sources]"
    and "0 < k \<Longrightarrow> load_prompt_rows gt k j sources = Inr (filter (\<lambda>r. shard_of k r = j) rows, length rows)"
proof -
  let ?row = "\<lambda>(position, source). prompt_row gt position source"
  have run: "map_r ?row (enumerate 0 sources) = Inr rows" and "n = length sources"
    using assms by (auto simp: load_prompt_rows_def)
  have len: "length rows = length sources" using map_r_length [OF run] by simp
  have "map gr_index ys = map (int \<circ> fst) xs" if "map_r ?row xs = Inr ys" for xs ys
    using that by (induction xs arbitrary: ys) (auto dest: prompt_row_index)
  from this [OF run] show "map gr_index rows = map int [0..<length sources]"
    by (simp add: map_map [symmetric] del: map_map)
  have "map_r ?row (filter (\<lambda>(position, _). position mod k = j) (enumerate 0 sources)) = Inr (filter (\<lambda>r. shard_of k r = j) rows)"
    by (rule map_r_filter [OF run]) (auto simp: shard_of_def nat_mod_distrib dest!: prompt_row_index)
  then show "load_prompt_rows gt k j sources = Inr (filter (\<lambda>r. shard_of k r = j) rows, length rows)" if "0 < k"
    using that len by (simp add: load_prompt_rows_def)
qed

lemma rewrite_row_index: "rewrite_row gt mp i source = Inr row \<Longrightarrow> gr_index row = i"
  by (auto simp: rewrite_row_def Let_def split: if_splits prod.splits)

lemma load_rewrite_shards:
  assumes run: "load_rewrite_rows gt mp 1 0 sources = Inr (rows, n)"
    and idx: "map_r index_of sources = Inr is" "\<forall>i \<in> set is. 0 \<le> i"
  shows "map gr_index rows = is"
    and "0 < k \<Longrightarrow> load_rewrite_rows gt mp k j sources = Inr (filter (\<lambda>r. shard_of k r = j) rows, length rows)"
proof -
  let ?row = "\<lambda>k j source. bind_r (index_of source) (\<lambda>i.
    if k = 0 then Inl ZeroDivisionError else if i mod int k \<noteq> int j then Inr [] else bind_r (rewrite_row gt mp i source) (\<lambda>r. Inr [r]))"
  obtain rss where rss: "map_r (?row 1 0) sources = Inr rss" "rows = concat rss"
    using run by (auto simp: load_rewrite_rows_def)
  have main: "map gr_index (concat rss) = is \<and> (0 < k \<longrightarrow> (\<exists>pss. map_r (?row k j) sources = Inr pss
      \<and> concat pss = filter (\<lambda>r. shard_of k r = j) (concat rss)))"
    using rss(1) idx
  proof (induction sources arbitrary: rss "is")
    case (Cons x xs)
    then obtain i is' r rss' where x: "index_of x = Inr i" "is = i # is'" "map_r index_of xs = Inr is'"
        "rewrite_row gt mp i x = Inr r" "rss = [r] # rss'" "map_r (?row 1 0) xs = Inr rss'" "0 \<le> i"
      by auto
    have "gr_index r = i" using x(4) by (rule rewrite_row_index)
    moreover have "i mod int k = int j \<longleftrightarrow> nat (i mod int k) = j" if "0 < k" using that by (auto simp: nat_eq_iff)
    ultimately show ?case using Cons.IH [OF x(6,3)] x Cons.prems(3) by (auto simp: shard_of_def)
  qed simp
  then show "map gr_index rows = is" using rss(2) by simp
  have "length rows = length sources"
    using main rss(2) map_r_length [OF idx(1)] by (metis length_map)
  then show "load_rewrite_rows gt mp k j sources = Inr (filter (\<lambda>r. shard_of k r = j) rows, length rows)" if "0 < k"
    using main that rss(2) by (auto simp: load_rewrite_rows_def)
qed

lemma increasing_positions: "map gr_index rows = map int [0..<n] \<Longrightarrow> increasing rows"
  by (simp add: increasing_def distinct_map sorted_wrt_map)

lemma load_ignores_engine [simp]:
  "load_prompt_rows (with_engine gt engines k) = load_prompt_rows gt"
  "load_rewrite_rows (with_engine gt engines k) = load_rewrite_rows gt"
proof -
  have t: "gt_str (with_engine gt engines k) = gt_str gt" "gt_template (with_engine gt engines k) = gt_template gt"
    "gt_encode (with_engine gt engines k) = gt_encode gt" "gt_decode (with_engine gt engines k) = gt_decode gt"
    by (simp_all add: with_engine_def)
  have "message_of (with_engine gt engines k) = message_of gt" by (rule ext) (simp only: message_of_def t)
  then have m: "messages_of (with_engine gt engines k) = messages_of gt" by (intro ext) (simp only: messages_of_def)
  have f: "fit_rewrite_prompt (with_engine gt engines k) = fit_rewrite_prompt gt"
    by (intro ext) (simp only: fit_rewrite_prompt_def t)
  have "prompt_row (with_engine gt engines k) = prompt_row gt" by (intro ext) (simp only: prompt_row_def m t)
  then show "load_prompt_rows (with_engine gt engines k) = load_prompt_rows gt" by (intro ext) (simp only: load_prompt_rows_def)
  have "rewrite_row (with_engine gt engines k) = rewrite_row gt" by (intro ext) (simp only: rewrite_row_def m t f)
  then show "load_rewrite_rows (with_engine gt engines k) = load_rewrite_rows gt" by (intro ext) (simp only: load_rewrite_rows_def)
qed

text \<open>The completion of a row: the one at its place in the batch of its shard.\<close>

definition shard_answer :: "(nat \<Rightarrow> int list list \<Rightarrow> gen_completion list) \<Rightarrow> nat \<Rightarrow> 'm gen_row list \<Rightarrow> 'm gen_row \<Rightarrow> gen_completion" where
  "shard_answer engines n rows row =
     engines (shard_of n row) (map gr_prompt_ids (filter (\<lambda>r. shard_of n r = shard_of n row) rows)) ! (nat (gr_index row) div n)"

lemma filter_mod_upt:
  assumes "k < n"
  shows "filter (\<lambda>i. i mod n = k) [0..<m] = map (\<lambda>j. k + j * n) [0..<(m + n - 1 - k) div n]"
proof (induction m)
  case 0
  have "n - 1 - k < n" using assms by simp
  then show ?case by simp
next
  case (Suc m)
  have s: "Suc m + n - 1 - k = Suc (m + n - 1 - k)" using assms by simp
  show ?case
  proof (cases "m mod n = k")
    case True
    then have m: "m = k + m div n * n" by (metis add.commute div_mult_mod_eq)
    then have e: "m + n - 1 - k = m div n * n + (n - 1)" using assms by linarith
    have "(m div n * n + (n - 1)) div n = m div n + (n - 1) div n" by (rule div_mult_self3) (use assms in simp)
    then have q: "(m + n - 1 - k) div n = m div n" unfolding e using assms by simp
    have "Suc (m + n - 1 - k) = Suc (m div n) * n" unfolding e using assms by simp
    then have "Suc (m + n - 1 - k) div n = Suc (m div n)" using assms by simp
    then show ?thesis using Suc True m q unfolding s by simp
  next
    case False
    have "Suc (m + n - 1 - k) mod n \<noteq> 0"
    proof
      assume "Suc (m + n - 1 - k) mod n = 0"
      then obtain q where "Suc (m + n - 1 - k) = q * n" by (metis mod_0_imp_dvd dvd_def mult.commute)
      then have e: "m + n - k = q * n" using assms by simp
      have "0 < q" using e assms by (cases q) auto
      then have "m = k + (q - 1) * n" using e assms by (cases q) auto
      then show False using False assms by simp
    qed
    then have "Suc (m + n - 1 - k) div n = (m + n - 1 - k) div n" by (simp add: div_Suc)
    then show ?thesis using Suc False unfolding s by simp
  qed
qed

lemma engine_answers:
  assumes idx: "map gr_index rows = map int [0..<m]" and k: "k < n" and len: "\<forall>k ps. length (engines k ps) = length ps"
  shows "engines k (map gr_prompt_ids (filter (\<lambda>r. shard_of n r = k) rows))
    = map (shard_answer engines n rows) (filter (\<lambda>r. shard_of n r = k) rows)"
proof (rule nth_equalityI)
  let ?part = "filter (\<lambda>r. shard_of n r = k) rows"
  show "length (engines k (map gr_prompt_ids ?part)) = length (map (shard_answer engines n rows) ?part)" using len by simp
  fix j assume "j < length (engines k (map gr_prompt_ids ?part))"
  then have j: "j < length ?part" using len by simp
  have nats: "map (\<lambda>r. nat (gr_index r)) rows = [0..<m]"
    using arg_cong [OF idx, of "map nat"] by (simp add: comp_def)
  have shard: "shard_of n r = nat (gr_index r) mod n" if "r \<in> set rows" for r
  proof -
    have "gr_index r \<in> set (map int [0..<m])" using that unfolding idx [symmetric] by simp
    then show ?thesis by (auto simp: shard_of_def nat_mod_distrib)
  qed
  have "map (\<lambda>r. nat (gr_index r)) ?part = map (\<lambda>r. nat (gr_index r)) (filter (\<lambda>r. nat (gr_index r) mod n = k) rows)"
    by (rule arg_cong [where f = "map _"], rule filter_cong) (simp_all add: shard)
  also have "\<dots> = filter (\<lambda>i. i mod n = k) [0..<m]" unfolding nats [symmetric] by (simp add: filter_map comp_def)
  finally have places: "map (\<lambda>r. nat (gr_index r)) ?part = map (\<lambda>j. k + j * n) [0..<(m + n - 1 - k) div n]"
    unfolding filter_mod_upt [OF k] .
  have "nat (gr_index (?part ! j)) = k + j * n"
    using arg_cong [OF places, of "\<lambda>xs. xs ! j"] j arg_cong [OF places, of length] by simp
  then have "nat (gr_index (?part ! j)) div n = j" using k by simp
  moreover have "shard_of n (?part ! j) = k" using j nth_mem [OF j] by simp
  ultimately show "engines k (map gr_prompt_ids ?part) ! j = map (shard_answer engines n rows) ?part ! j"
    using j by (simp add: shard_answer_def)
qed

lemma records_index: "map_r index_of (map (record_of ds g) rows) = Inr (map gr_index rows)"
  by (induction rows) (simp_all add: record_of_def)

text \<open>A phase over the shards of one list of rows: every row gets the completion of its place in its shard.\<close>

lemma phase_shards:
  fixes rows :: "'m gen_row list"
  assumes ks: "mset ks = mset [0..<length ks]" "ks \<noteq> []" and len: "\<forall>k ps. length (engines k ps) = length ps"
    and rows: "map gr_index rows = map int [0..<m]" "0 < m"
    and load: "\<And>k. k < length ks \<Longrightarrow> load k = Inr (filter (\<lambda>r. shard_of (length ks) r = k) rows, length rows)"
  shows "phase load (with_engine gt engines) ds mode parquet ks
    = (let recs = map (record_of ds (shard_answer engines (length ks) rows)) rows in
       bind_r (if parquet then bind_r (parquet_rows mode recs) (\<lambda>p. Inr (Some p)) else Inr None) (\<lambda>t.
       bind_r (summarize_rows recs) (\<lambda>summ. Inr (recs, t, summ))))"
proof -
  have "rows \<noteq> []" using rows by auto
  moreover have "\<forall>k < length ks. gt_generate (with_engine gt engines k) (map gr_prompt_ids (filter (\<lambda>r. shard_of (length ks) r = k) rows))
      = map (shard_answer engines (length ks) rows) (filter (\<lambda>r. shard_of (length ks) r = k) rows)"
    using engine_answers [OF rows(1) _ len] by (simp add: with_engine_def)
  ultimately show ?thesis unfolding Let_def by (intro run_phase_eq [OF ks load _ increasing_positions [OF rows(1)]])
qed

text \<open>Every record of the student phase can be loaded for its rewrite.\<close>

lemma rewrite_row_of_record:
  assumes "gr_rewrite row = None"
  shows "\<exists>r. rewrite_row gt max_prompt i (record_of ds g row) = Inr r \<and> gr_rewrite r \<noteq> None"
proof -
  have msgs: "messages_of gt (chat_obj ms) = Inr (map (\<lambda>(r, c). (gt_str gt (MStr r), gt_str gt (MStr c))) ms)" for ms
    unfolding messages_of_def chat_obj_def by (induction ms) (auto simp: message_of_def get_key_def)
  have ids: "map_r py_int_of (map MInt is) = Inr is" for "is"
    by (induction "is") (simp_all add: py_int_of_def)
  have keys: "get_key ''messages'' (record_of ds g row) = Inr (chat_obj (gr_messages row @ [(''assistant'', co_text (g row))]))"
    "get_key ''response_token_ids'' (record_of ds g row) = Inr (ids_obj (co_ids (g row)))"
    using assms by (simp_all add: record_of_def output_record_def get_key_def)
  show ?thesis
    unfolding rewrite_row_def keys bind_r_Inr msgs ids_obj_def by (simp add: ids Let_def split: prod.split)
qed

lemma load_rewrites:
  assumes "\<forall>row \<in> set rows. gr_rewrite row = None"
  shows "\<exists>rew. load_rewrite_rows gt max_prompt 1 0 (map (record_of ds g) rows) = Inr (rew, length rows) \<and> (\<forall>r \<in> set rew. gr_rewrite r \<noteq> None)"
proof -
  have "\<exists>rss. map_r (\<lambda>source. bind_r (index_of source) (\<lambda>i. bind_r (rewrite_row gt max_prompt i source) (\<lambda>r. Inr [r])))
      (map (record_of ds g) rows) = Inr rss \<and> (\<forall>r \<in> set (concat rss). gr_rewrite r \<noteq> None)"
    using assms
  proof (induction rows)
    case (Cons row rows)
    obtain r where "rewrite_row gt max_prompt (gr_index row) (record_of ds g row) = Inr r" "gr_rewrite r \<noteq> None"
      using rewrite_row_of_record Cons.prems by (metis list.set_intros(1))
    moreover have "index_of (record_of ds g row) = Inr (gr_index row)" by (simp add: record_of_def)
    ultimately show ?case using Cons by auto
  qed simp
  then show ?thesis by (auto simp: load_rewrite_rows_def)
qed

lemma prompt_row_plain: "prompt_row gt i source = Inr row \<Longrightarrow> gr_rewrite row = None"
  by (auto simp: prompt_row_def)

lemma load_prompt_plain:
  assumes "load_prompt_rows gt n k sources = Inr (rows, m)"
  shows "\<forall>row \<in> set rows. gr_rewrite row = None"
proof -
  have "\<forall>y \<in> set ys. gr_rewrite y = None" if "map_r (\<lambda>(position, source). prompt_row gt position source) xs = Inr ys" for xs ys
    using that by (induction xs arbitrary: ys) (auto dest: prompt_row_plain)
  then show ?thesis using assms by (auto simp: load_prompt_rows_def split: if_splits)
qed

section \<open>Tables and prompts\<close>
text \<open>Rows of the student phase have no columns for a rewrite, so asking for a table in student mode always fails.\<close>

lemma student_table_fails:
  assumes "rows \<noteq> []" "\<forall>row \<in> set rows. gr_rewrite row = None"
  shows "parquet_rows Student (map (record_of ds g) rows) = Inl (RuntimeError ''missing parquet columns'')"
  using assms by (cases rows) (auto simp: parquet_rows_def record_of_def output_record_def Let_def trd_columns_def)

lemma teacher_table_complete:
  assumes "\<forall>row \<in> set rows. gr_rewrite row = None"
  shows "\<exists>t. parquet_rows Teacher (map (record_of ds g) rows) = Inr t \<and> length t = length rows"
proof -
  have "map_r (\<lambda>row. map_r (\<lambda>key. get_key key row) teacher_columns) (map (record_of ds g) rows)
      = Inr (map (\<lambda>row. map (\<lambda>key. the (map_of (record_of ds g row) key)) teacher_columns) rows)"
    using assms by (induction rows) (simp_all add: teacher_columns_def get_key_def record_of_def output_record_def Let_def)
  then show ?thesis using assms
    by (cases rows) (auto simp: parquet_rows_def record_of_def output_record_def Let_def teacher_columns_def)
qed

lemma trd_row_complete:
  assumes "gr_rewrite row \<noteq> None"
  shows "\<exists>vs. map_r (\<lambda>key. get_key key (record_of ds g row)) trd_columns = Inr vs"
    and "set trd_columns \<subseteq> set (map fst (record_of ds g row))"
proof -
  obtain rewrite ids y t where r: "gr_rewrite row = Some (rewrite, ids, y, t)" using assms by auto
  show "\<exists>vs. map_r (\<lambda>key. get_key key (record_of ds g row)) trd_columns = Inr vs"
    by (simp add: r trd_columns_def get_key_def record_of_def output_record_def Let_def)
  show "set trd_columns \<subseteq> set (map fst (record_of ds g row))"
    by (simp add: r trd_columns_def record_of_def output_record_def Let_def)
qed

lemma trd_table_complete:
  assumes "\<forall>row \<in> set rows. gr_rewrite row \<noteq> None"
  shows "\<exists>t. parquet_rows Trd (map (record_of ds g) rows) = Inr t \<and> length t = length rows"
proof -
  have "\<exists>t. map_r (\<lambda>row. map_r (\<lambda>key. get_key key row) trd_columns) (map (record_of ds g) rows) = Inr t \<and> length t = length rows"
    using assms
  proof (induction rows)
    case (Cons row rows)
    obtain vs where "map_r (\<lambda>key. get_key key (record_of ds g row)) trd_columns = Inr vs"
      using trd_row_complete(1) Cons.prems by fastforce
    then show ?case using Cons by auto
  qed simp
  moreover have "rows = [] \<or> set trd_columns \<subseteq> set (map fst (hd (map (record_of ds g) rows)))"
    using assms trd_row_complete(2) [of "hd rows" ds g] by (cases rows) auto
  ultimately show ?thesis unfolding parquet_rows_def by (auto simp: Let_def)
qed

text \<open>A rewrite prompt always fits the model, and is cut only when the untruncated one does not fit.\<close>

lemma rewrite_prompt_fits:
  assumes "fit_rewrite_prompt gt system problem initial max_prompt = (messages, ids, truncated)" "0 \<le> max_prompt"
  shows "int (length ids) \<le> max_prompt"
    and "int (length (gt_template gt (rewrite_messages system problem initial))) \<le> max_prompt
      \<Longrightarrow> truncated = 0 \<and> ids = gt_template gt (rewrite_messages system problem initial)"
  using assms by (auto simp: fit_rewrite_prompt_def Let_def py_take_def split: if_splits)

section \<open>The pipeline\<close>

text \<open>
  [C22] The data of the two-phase TRD pipeline, whatever the engines sample: with any numbers of shards, each with an engine of
  its own that answers every batch with one completion per prompt, and merged in any order of their file names, the pipeline succeeds
  for every non-empty list of sources that can be loaded. It writes one trajectory for every source row, in their order. Each
  is the record of the teacher's rewrite prompt for the student's sample of that row, with the completion that stands at its place
  in the batch of its shard; the samples are made of the prompts and the student's completions in the same way. No row is lost,
  repeated or given the completion of another.
\<close>

theorem trd_pipeline_rows:
  assumes "mset ks = mset [0..<length ks]" "ks \<noteq> []" and "mset js = mset [0..<length js]" "js \<noteq> []"
    and "\<forall>k ps. length (samplers k ps) = length ps" and "\<forall>k ps. length (rewriters k ps) = length ps"
    and "sources \<noteq> []" "load_prompt_rows student 1 0 sources = Inr (rows, n)"
  defines "samples \<equiv> map (\<lambda>r. output_record ''trd_student_trajectory'' r (shard_answer samplers (length ks) rows r)) rows"
  shows "\<exists>rewrites table summ. load_rewrite_rows teacher (max_len - max_new) 1 0 samples = Inr (rewrites, length sources)
    \<and> map gr_index rewrites = map int [0..<length sources]
    \<and> trd_pipeline student samplers teacher rewriters max_len max_new ks js sources
      = Inr (map (\<lambda>r. output_record ''trd_rewrite_student_nothink_prompt'' r (shard_answer rewriters (length js) rewrites r)) rewrites,
          Some table, summ)
    \<and> length table = length sources"
proof -
  let ?m = "length sources" and ?sample = "record_of ''trd_student_trajectory'' (shard_answer samplers (length ks) rows)"
  have m: "0 < ?m" using assms(7) by simp
  have smp: "samples = map ?sample rows" by (simp add: samples_def record_of_def)
  note pos = load_prompt_shards(1) [OF assms(8)]
  have lenr: "length rows = ?m" using arg_cong [OF pos, of length] by simp
  have main: "trd_pipeline student samplers teacher rewriters max_len max_new ks js sources = bind_r
      (phase (\<lambda>k. load_prompt_rows student (length ks) k sources) (with_engine student samplers) ''trd_student_trajectory'' Student False ks)
      (\<lambda>(samples, _, _). phase (\<lambda>k. load_rewrite_rows teacher (max_len - max_new) (length js) k samples) (with_engine teacher rewriters)
        ''trd_rewrite_student_nothink_prompt'' Trd True js)"
    by (simp add: trd_pipeline_def trd_main_def)
  obtain s1 where "summarize_rows samples = Inr s1" unfolding smp using summarize_output by blast
  moreover have "load_prompt_rows student (length ks) k sources = Inr (filter (\<lambda>r. shard_of (length ks) r = k) rows, length rows)" for k
    using load_prompt_shards(2) [OF assms(8)] assms(2) by simp
  ultimately have first: "phase (\<lambda>k. load_prompt_rows student (length ks) k sources) (with_engine student samplers)
      ''trd_student_trajectory'' Student False ks = Inr (samples, None, s1)"
    unfolding smp by (subst phase_shards [OF assms(1,2,5) pos m]) (simp_all add: Let_def)
  obtain rew where rew: "load_rewrite_rows teacher (max_len - max_new) 1 0 samples = Inr (rew, ?m)" "\<forall>r \<in> set rew. gr_rewrite r \<noteq> None"
    using load_rewrites [OF load_prompt_plain [OF assms(8)]] unfolding smp lenr by blast
  have idx: "map_r index_of samples = Inr (map int [0..<?m])" unfolding smp records_index pos ..
  have nonneg: "\<forall>i \<in> set (map int [0..<?m]). 0 \<le> i" by auto
  note pos2 = load_rewrite_shards(1) [OF rew(1) idx nonneg]
  have lenw: "length rew = ?m" using arg_cong [OF pos2, of length] by simp
  let ?recs = "map (record_of ''trd_rewrite_student_nothink_prompt'' (shard_answer rewriters (length js) rew)) rew"
  obtain t where t: "parquet_rows Trd ?recs = Inr t" "length t = ?m" using trd_table_complete [OF rew(2)] lenw by metis
  obtain s2 where s2: "summarize_rows ?recs = Inr s2" using summarize_output by blast
  have "load_rewrite_rows teacher (max_len - max_new) (length js) k samples = Inr (filter (\<lambda>r. shard_of (length js) r = k) rew, length rew)" for k
    using load_rewrite_shards(2) [OF rew(1) idx nonneg] assms(4) by simp
  then have "phase (\<lambda>k. load_rewrite_rows teacher (max_len - max_new) (length js) k samples) (with_engine teacher rewriters)
      ''trd_rewrite_student_nothink_prompt'' Trd True js = Inr (?recs, Some t, s2)"
    by (subst phase_shards [OF assms(3,4,6) pos2 m]) (simp_all add: Let_def t(1) s2)
  then show ?thesis
    unfolding main first bind_r_Inr prod.case using rew(1) pos2 t(2) by (auto simp: record_of_def)
qed

text \<open>If the engines answer every prompt for itself (greedy decoding), the data does not depend on how it is sharded.\<close>

lemma shard_answer_pointwise:
  assumes "map gr_index rows = map int [0..<m]" "row \<in> set rows" "0 < n"
  shows "shard_answer (\<lambda>_. map h) n rows row = h (gr_prompt_ids row)"
proof -
  let ?k = "shard_of n row"
  have "row \<in> set (filter (\<lambda>r. shard_of n r = ?k) rows)" using assms(2) by simp
  moreover have "?k < n" using assms(3) by (simp add: shard_of_def nat_less_iff)
  from engine_answers [OF assms(1) this, of "\<lambda>_. map h"]
  have "map (h \<circ> gr_prompt_ids) (filter (\<lambda>r. shard_of n r = ?k) rows)
      = map (shard_answer (\<lambda>_. map h) n rows) (filter (\<lambda>r. shard_of n r = ?k) rows)" by simp
  ultimately show ?thesis by (metis (no_types, lifting) comp_apply map_eq_conv)
qed

section \<open>The loss mask of the dataset\<close>

text \<open>The trained tokens of an item: those with loss mask 1.\<close>

definition trained :: "sft_item \<Rightarrow> int list" where
  "trained item = map fst (filter (\<lambda>(t, m). m = 1) (zip (it_input_ids item) (it_loss_mask item)))"

definition marked_ones :: "int list \<Rightarrow> int list \<Rightarrow> int list" where
  "marked_ones ids ms = map fst (filter (\<lambda>(t, m). m = 1) (zip ids ms))"

lemma marked_ones_simps [simp]:
  "n = length xs \<Longrightarrow> marked_ones xs (replicate n 1) = xs"
  "marked_ones xs (replicate n 0) = []"
  "marked_ones [] ms = []"
  "length xs = length ms \<Longrightarrow> marked_ones (xs @ ys) (ms @ ns) = marked_ones xs ms @ marked_ones ys ns"
proof -
  show "marked_ones xs (replicate n 1) = xs" if "n = length xs"
    unfolding that by (induction xs) (auto simp: marked_ones_def)
  have "filter (\<lambda>(t, m). m = 1) (zip xs (replicate n (0 :: int))) = []" by (auto simp: filter_empty_conv dest: set_zip_rightD)
  then show "marked_ones xs (replicate n 0) = []" by (simp add: marked_ones_def)
qed (simp_all add: marked_ones_def)

lemma trained_marked: "trained item = marked_ones (it_input_ids item) (it_loss_mask item)"
  by (simp add: trained_def marked_ones_def)

text \<open>What is kept of the response.\<close>

definition kept_response :: "dataset_config \<Rightarrow> int list \<Rightarrow> int list \<Rightarrow> int list" where
  "kept_response cfg prompt_ids response_ids =
     (let n = dc_max_length cfg in
      if length prompt_ids + length response_ids \<le> n then response_ids
      else if dc_truncation cfg = ''left'' then last_n n response_ids
      else take (n - length prompt_ids) response_ids)"

text \<open>
  The SFT dataset trains exactly on the response: an item comes out unless a too long row meets a truncation mode other
  than left or right, or the padding mode is unknown. In every item the tokens with loss mask 1 are the response, the
  end of it that fits (left truncation) or the beginning that fits behind the prompt (right truncation), never prompt or
  padding; ids, positions and mask have one length, which with padding is the maximal one.
\<close>

theorem sft_item_trains_response:
  "(if length p + length r > dc_max_length cfg \<and> dc_truncation cfg \<notin> {''left'', ''right''}
      \<or> dc_pad_mode cfg \<notin> {''no_padding'', ''right'', ''left_right''}
    then \<exists>e. sft_item_of cfg p r = Inl e
    else \<exists>item. sft_item_of cfg p r = Inr item \<and> trained item = kept_response cfg p r
      \<and> length (it_loss_mask item) = length (it_input_ids item) \<and> length (it_position_ids item) = length (it_input_ids item)
      \<and> (dc_pad_mode cfg \<noteq> ''no_padding'' \<and> dc_max_length cfg \<noteq> 0 \<longrightarrow> length (it_input_ids item) = dc_max_length cfg))"
proof -
  have left: "marked_ones (last_n n (p @ r)) (last_n n (replicate (length p) 0 @ replicate (length r) 1)) = last_n n r"
    if "n < length p + length r" for n
    using that by (auto simp: last_n_def drop_replicate)
  have right: "marked_ones (take n (p @ r)) (take n (replicate (length p) 0 @ replicate (length r) 1)) = take (n - length p) r" for n
    by (auto simp: take_replicate min_def)
  show ?thesis
    by (auto simp: sft_item_of_def Let_def trained_marked kept_response_def left right last_n_def)
qed

section \<open>Concrete runs\<close>

definition ex_tools :: "unit gen_tools" where
  "ex_tools = \<lparr>gt_str = (\<lambda>v. case v of MStr s \<Rightarrow> s | _ \<Rightarrow> []), gt_template = (\<lambda>c. [int (length c)]), gt_encode = (\<lambda>s. []),
     gt_decode = (\<lambda>ids. []), gt_generate = (\<lambda>_. [])\<rparr>"

text \<open>Engines that answer a prompt differently in every shard and at every place of the batch.\<close>

definition ex_engines :: "nat \<Rightarrow> int list list \<Rightarrow> gen_completion list" where
  "ex_engines k ps = map (\<lambda>j. \<lparr>co_text = ''4'', co_ids = [int k, int j], co_finish = ''stop''\<rparr>) [0..<length ps]"

definition ex_source :: "string \<Rightarrow> unit py_obj dict" where
  "ex_source s = [(''prompt'', MList [MDict [(''role'', MStr ''user''), (''content'', MStr s)]]), (''gt'', MInt 4)]"

lemma ex_load: "\<exists>rows. load_prompt_rows ex_tools 1 0 [ex_source ''2+2'', ex_source ''1+3''] = Inr (rows, 2)"
  by (simp add: load_prompt_rows_def prompt_row_def ex_source_def get_key_def messages_of_def message_of_def ex_tools_def)

theorem trd_pipeline_rows_witness:
  "\<exists>out table summ. trd_pipeline ex_tools ex_engines ex_tools ex_engines 12 2 [1, 0] [2, 0, 1] [ex_source ''2+2'', ex_source ''1+3'']
       = Inr (out, Some table, summ)
     \<and> map_r index_of out = Inr [0, 1] \<and> length table = 2"
proof -
  let ?sources = "[ex_source ''2+2'', ex_source ''1+3'']"
  have order: "mset [1, 0 :: nat] = mset [0..<length [1, 0 :: nat]]" "mset [2, 0, 1 :: nat] = mset [0..<length [2, 0, 1 :: nat]]"
    by (simp_all add: numeral_2_eq_2 numeral_3_eq_3)
  have len: "\<forall>k ps. length (ex_engines k ps) = length ps" by (simp add: ex_engines_def)
  obtain rows where "load_prompt_rows ex_tools 1 0 ?sources = Inr (rows, 2)" using ex_load by blast
  from trd_pipeline_rows [OF order(1) _ order(2) _ len len _ this] obtain rew table summ where
    r: "map gr_index rew = map int [0..<length ?sources]" "length table = length ?sources"
      "trd_pipeline ex_tools ex_engines ex_tools ex_engines 12 2 [1, 0] [2, 0, 1] ?sources
        = Inr (map (\<lambda>r. output_record ''trd_rewrite_student_nothink_prompt'' r (shard_answer ex_engines (length [2, 0, 1 :: nat]) rew r)) rew,
            Some table, summ)" by blast
  have "map_r index_of (map (\<lambda>r. output_record ds r (g r)) rs) = Inr (map gr_index rs)" for ds g and rs :: "unit gen_row list"
    by (induction rs) simp_all
  from this [of "''trd_rewrite_student_nothink_prompt''" "shard_answer ex_engines (length [2, 0, 1 :: nat]) rew" rew]
  show ?thesis using r(1,2) unfolding r(3) by auto
qed

theorem sft_item_trains_response_witness:
  "\<exists>item. sft_item_of \<lparr>dc_pad_mode = ''right'', dc_truncation = ''left'', dc_max_length = 3, dc_pad_token_id = None\<rparr> [7, 8] [1, 2] = Inr item
     \<and> trained item = [1, 2] \<and> length (it_input_ids item) = 3"
  using sft_item_trains_response [of "\<lparr>dc_pad_mode = ''right'', dc_truncation = ''left'', dc_max_length = 3, dc_pad_token_id = None\<rparr>" "[7, 8]" "[1, 2]"]
  by (auto simp: kept_response_def last_n_def)

end
