(* ===== verification/Py_Text.thy ===== *)
theory Py_Text
  imports Py_Data "HOL-Library.Sublist"
begin

text \<open>
  The string methods of Python that the answer graders use, on ASCII text: \<open>in\<close> is \<^const>\<open>sublist\<close> and \<open>startswith\<close> is
  \<^const>\<open>prefix\<close>; \<open>find\<close> from the right, \<open>split\<close> and \<open>replace\<close> for non-empty separators, \<open>str\<close> of integers, and the
  scan for the closing brace with the interface \<open>boxed_extractor\<close> that the graders share.
\<close>

section \<open>Search, split, replace\<close>

text \<open>\<open>s.rfind(sub)\<close>, with \<^const>\<open>None\<close> for -1.\<close>

fun rfind :: "string \<Rightarrow> string \<Rightarrow> nat option" where
  "rfind sub [] = (if sub = [] then Some 0 else None)"
| "rfind sub (c # cs) =
     (case rfind sub cs of Some i \<Rightarrow> Some (Suc i) | None \<Rightarrow> if prefix sub (c # cs) then Some 0 else None)"

text \<open>\<open>s.split(sep)\<close> and \<open>s.replace(old, new)\<close>; the separator is not empty.\<close>

fun split_on :: "string \<Rightarrow> string \<Rightarrow> string list" where
  "split_on sep [] = [[]]"
| "split_on sep (c # cs) =
     (if prefix sep (c # cs) then [] # split_on sep (drop (length sep - 1) cs)
      else case split_on sep cs of [] \<Rightarrow> [[c]] | w # ws \<Rightarrow> (c # w) # ws)"

fun replace_all :: "string \<Rightarrow> string \<Rightarrow> string \<Rightarrow> string" where
  "replace_all old new [] = []"
| "replace_all old new (c # cs) =
     (if prefix old (c # cs) then new @ replace_all old new (drop (length old - 1) cs) else c # replace_all old new cs)"

definition remove_all :: "string \<Rightarrow> string \<Rightarrow> string" where
  "remove_all old = replace_all old []"

lemma split_on_not_Nil [simp]: "split_on sep s \<noteq> []"
  by (cases s) (auto split: list.splits)

fun join_with :: "string \<Rightarrow> string list \<Rightarrow> string" where
  "join_with sep [] = []"
| "join_with sep [w] = w"
| "join_with sep (w # v # ws) = w @ sep @ join_with sep (v # ws)"

lemma join_with_Cons: "ws \<noteq> [] \<Longrightarrow> join_with sep (w # ws) = w @ sep @ join_with sep ws"
  by (cases ws) auto

lemma join_with_first: "join_with sep ((c # w) # ws) = c # join_with sep (w # ws)"
  by (cases ws) auto

lemma join_split: "sep \<noteq> [] \<Longrightarrow> join_with sep (split_on sep s) = s"
proof (induction sep s rule: split_on.induct)
  case (2 sep c cs)
  show ?case
  proof (cases "prefix sep (c # cs)")
    case True
    then obtain t where t: "c # cs = sep @ t" by (auto simp: prefix_def)
    then have "drop (length sep - 1) cs = t" using 2(3) by (cases sep) auto
    then have "split_on sep (c # cs) = [] # split_on sep t" and "join_with sep (split_on sep t) = t"
      using True 2(1) [OF True 2(3)] by simp_all
    then show ?thesis using t by (simp add: join_with_Cons)
  next
    case False
    then show ?thesis using 2(2,3) by (auto simp: join_with_first split: list.splits)
  qed
qed simp

text \<open>Replacing is splitting and joining.\<close>

lemma replace_join: "old \<noteq> [] \<Longrightarrow> replace_all old new s = join_with new (split_on old s)"
proof (induction old new s rule: replace_all.induct)
  case (2 old new c cs)
  then show ?case by (cases "prefix old (c # cs)") (auto simp: join_with_Cons join_with_first split: list.splits)
qed simp

lemma rfind_None: "sub \<noteq> [] \<Longrightarrow> rfind sub s = None \<longleftrightarrow> \<not> sublist sub s"
  by (induction s) (auto simp: sublist_Cons_right split: option.splits)

text \<open>The last occurrence: nothing of \<open>sub\<close> begins after it.\<close>

lemma rfind_last:
  assumes "sub \<noteq> []" "\<not> sublist sub (tl (sub @ rest))"
  shows "rfind sub (pre @ sub @ rest) = Some (length pre)"
proof (induction pre)
  case Nil
  obtain c cs where sub: "sub = c # cs" using assms(1) by (cases sub) auto
  have "rfind sub (cs @ rest) = None" using assms by (subst rfind_None) (auto simp: sub)
  then show ?case by (simp add: sub)
next
  case (Cons c pre)
  then show ?case by simp
qed

lemma rfind_prefix: "rfind sub s = Some i \<Longrightarrow> prefix sub (drop i s)"
  by (induction s arbitrary: i) (auto split: option.splits if_splits)

section \<open>Numbers\<close>

fun str_nat :: "nat \<Rightarrow> string" where
  "str_nat n = (if n < 10 then [char_of (48 + n)] else str_nat (n div 10) @ [char_of (48 + n mod 10)])"

declare str_nat.simps [simp del]

definition str_int :: "int \<Rightarrow> string" where
  "str_int i = (if i < 0 then CHR ''-'' # str_nat (nat (- i)) else str_nat (nat i))"

lemma digit_char: "n < 10 \<Longrightarrow> digit_val (char_of (48 + n)) = Some (int n)"
  by (simp add: digit_val_def Let_def)

lemma digits_value_snoc:
  "digits_value acc b s = Some v \<Longrightarrow> s \<noteq> [] \<Longrightarrow> n < 10 \<Longrightarrow> digits_value acc b (s @ [char_of (48 + n)]) = Some (v * 10 + int n)"
proof (induction acc b s rule: digits_value.induct)
  case (2 acc b c cs)
  show ?case
  proof (cases "cs = []")
    case True
    then show ?thesis using 2(3,5) digit_char [OF 2(5)] by (auto split: option.splits if_splits)
  next
    case False
    then show ?thesis using 2 by (auto split: option.splits if_splits)
  qed
qed simp

lemma str_nat_not_Nil: "str_nat n \<noteq> []"
  by (subst str_nat.simps) simp

lemma digits_value_str_nat: "digits_value 0 False (str_nat n) = Some (int n)"
proof (induction n rule: less_induct)
  case (less n)
  show ?case
  proof (cases "n < 10")
    case True
    then show ?thesis using digit_char [OF True] by (subst str_nat.simps) simp
  next
    case False
    then have "digits_value 0 False (str_nat (n div 10)) = Some (int (n div 10))" by (intro less) simp
    from digits_value_snoc [OF this str_nat_not_Nil, of "n mod 10"] False show ?thesis
      by (subst str_nat.simps) (simp add: zdiv_int zmod_int)
  qed
qed

lemma digits_of_str_nat: "c \<in> set (str_nat n) \<Longrightarrow> digit_val c \<noteq> None"
proof (induction n rule: less_induct)
  case (less n)
  then show ?case using less.IH [of "n div 10"] digit_char [of n] digit_char [of "n mod 10"]
    by (cases "n < 10") (simp_all add: str_nat.simps [of n], auto)
qed

lemma digit_not_special: "digit_val c \<noteq> None \<Longrightarrow> \<not> is_space c \<and> c \<noteq> CHR ''-'' \<and> c \<noteq> CHR ''+'' \<and> c \<noteq> CHR ''/''"
  by (auto simp: digit_val_def is_space_def Let_def split: if_splits)

lemma py_strip_plain: "\<forall>c \<in> set s. \<not> is_space c \<Longrightarrow> py_strip s = s"
proof -
  have id: "dropWhile is_space s = s" if "\<forall>c \<in> set s. \<not> is_space c" for s using that by (cases s) auto
  then show "\<forall>c \<in> set s. \<not> is_space c \<Longrightarrow> py_strip s = s" using id [of s] id [of "rev s"] by (simp add: py_strip_def)
qed

text \<open>\<open>int(str(i))\<close> is \<open>i\<close>.\<close>

lemma py_int_str_int: "py_int (str_int i) = Some i"
proof -
  have plain: "\<forall>c \<in> set (str_nat n). \<not> is_space c \<and> c \<noteq> CHR ''-'' \<and> c \<noteq> CHR ''+''" for n
    using digits_of_str_nat digit_not_special by blast
  have "py_int (str_nat n) = Some (int n)" for n
    using plain [of n] digits_value_str_nat [of n] str_nat_not_Nil [of n]
    by (cases "str_nat n") (auto simp: py_int_def py_strip_plain)
  moreover have "py_int (CHR ''-'' # str_nat n) = Some (- int n)" for n
  proof -
    have "\<not> is_space CHR ''-''" by (simp add: is_space_def)
    then have "py_strip (CHR ''-'' # str_nat n) = CHR ''-'' # str_nat n" using plain [of n] by (intro py_strip_plain) auto
    then show ?thesis using digits_value_str_nat [of n] by (simp add: py_int_def)
  qed
  ultimately show ?thesis by (simp add: str_int_def)
qed

section \<open>The closing brace\<close>

text \<open>
  The loop of the extractors: the distance to the brace that closes the first one, counting from \<open>n\<close> open braces. The
  count may become negative, and is compared with 0 only at a closing brace.
\<close>

fun close_brace :: "int \<Rightarrow> string \<Rightarrow> nat option" where
  "close_brace n [] = None"
| "close_brace n (c # cs) =
     (let n' = (if c = CHR ''{'' then n + 1 else if c = CHR ''}'' then n - 1 else n) in
      if c = CHR ''}'' \<and> n' = 0 then Some 0 else map_option Suc (close_brace n' cs))"

definition braced_span :: "string \<Rightarrow> string option" where
  "braced_span s = map_option (\<lambda>k. take (Suc k) s) (close_brace 0 s)"

text \<open>Balanced text.\<close>

fun balanced_from :: "nat \<Rightarrow> string \<Rightarrow> bool" where
  "balanced_from d [] = (d = 0)"
| "balanced_from d (c # cs) =
     (if c = CHR ''{'' then balanced_from (Suc d) cs
      else if c = CHR ''}'' then 0 < d \<and> balanced_from (d - 1) cs
      else balanced_from d cs)"

abbreviation balanced :: "string \<Rightarrow> bool" where
  "balanced \<equiv> balanced_from 0"

lemma close_brace_balanced: "balanced_from d ans \<Longrightarrow> close_brace (1 + int d) (ans @ CHR ''}'' # post) = Some (length ans)"
proof (induction d ans rule: balanced_from.induct)
  case (2 d c cs)
  then show ?case by (cases "c = CHR ''{''"; cases "c = CHR ''}''") (auto simp: Let_def of_nat_diff algebra_simps)
qed simp

definition boxed :: "string" where
  "boxed = CHR 0x5C # ''boxed''"

definition box :: "string \<Rightarrow> string" where
  "box ans = boxed @ ''{'' @ ans @ ''}''"

lemma braced_span_box: "balanced ans \<Longrightarrow> braced_span (box ans @ post) = Some (box ans)"
  using close_brace_balanced [of 0 ans post] by (simp add: braced_span_def box_def boxed_def Let_def)

lemma close_brace_take: "close_brace n s = Some k \<Longrightarrow> k < length s \<and> s ! k = CHR ''}''"
  by (induction n s arbitrary: k rule: close_brace.induct) (auto simp: Let_def split: if_splits)

lemma braced_span_last: "braced_span s = Some t \<Longrightarrow> t \<noteq> [] \<and> last t = CHR ''}'' \<and> prefix t s"
proof -
  assume "braced_span s = Some t"
  then obtain k where k: "close_brace 0 s = Some k" "t = take (Suc k) s" by (auto simp: braced_span_def)
  then show "t \<noteq> [] \<and> last t = CHR ''}'' \<and> prefix t s"
    using close_brace_take [OF k(1)] take_is_prefix [of "Suc k" s] by (simp add: take_Suc_conv_app_nth)
qed

text \<open>The only start of \<open>\boxed\<close> in a box is its own, unless the answer has one.\<close>

lemma sublist_boxed_skip: "sublist boxed (tl (boxed @ ''{'' @ t)) \<longleftrightarrow> sublist boxed t"
  by (simp add: boxed_def sublist_Cons_right)

lemma rfind_box:
  assumes "\<not> sublist boxed (ans @ ''}'' @ post)"
  shows "rfind boxed (pre @ box ans @ post) = Some (length pre)"
proof -
  have "\<not> sublist boxed (tl (boxed @ ''{'' @ ans @ ''}'' @ post))" using assms by (simp only: sublist_boxed_skip not_False_eq_True)
  then have "rfind boxed (pre @ boxed @ ''{'' @ ans @ ''}'' @ post) = Some (length pre)"
    by (rule rfind_last [rotated]) (simp add: boxed_def)
  then show ?thesis by (simp add: box_def)
qed

end
