(* ===== verification/Math_Reward.thy ===== *)
theory Math_Reward
  imports Py_Text Complex_Main
begin

text \<open>
  The rewards of mathematical answers: \<open>verl/utils/reward_score/math_reward.py\<close> and \<open>math_dapo.py\<close>, and the chained grader
  \<open>opd/reward/math_reward.py\<close> with \<open>extract_answer\<close> and \<open>process_results\<close> of \<open>openmathinst_utils.py\<close>. The comparison
  of expressions by sympy (\<open>math_equal\<close>) and the packages of the fallback (\<open>parse\<close>, \<open>verify\<close>) are parameters.
\<close>

abbreviation tex :: "string \<Rightarrow> string" where
  "tex w \<equiv> CHR 0x5C # w"

section \<open>\<open>math_reward.py\<close>\<close>

definition last_boxed_only_string :: "string \<Rightarrow> string option" where
  "last_boxed_only_string s =
     (if sublist (tex ''boxed '') s
      then Some (tex ''boxed '' @ hd (split_on ''$'' (last (split_on (tex ''boxed '') s))))
      else
        (case (case rfind boxed s of None \<Rightarrow> rfind (tex ''fbox'') s | Some i \<Rightarrow> Some i) of
           None \<Rightarrow> None
         | Some i \<Rightarrow> braced_span (drop i s)))"

definition remove_boxed :: "string \<Rightarrow> string result" where
  "remove_boxed s =
     (if sublist (tex ''boxed '') s
      then (if prefix (tex ''boxed '') s then Inr (drop 7 s) else Inl (AssertionError []))
      else if \<not> prefix (tex ''boxed{'') s then Inl (AssertionError [])
      else if last s \<noteq> CHR ''}'' then Inl (AssertionError [])
      else Inr (drop 7 (butlast s)))"

text \<open>\<open>fix_fracs\<close>: \<^const>\<open>None\<close> when the loop gives up and the string is returned as it is.\<close>

definition frac_part :: "string \<Rightarrow> string option result" where
  "frac_part p =
     (case p of
        [] \<Rightarrow> Inl IndexError
      | c # cs \<Rightarrow>
          if c = CHR ''{'' then Inr (Some (tex ''frac'' @ p))
          else (case cs of
                  [] \<Rightarrow> Inr None
                | b # rest \<Rightarrow>
                    Inr (Some (tex ''frac'' @ ''{'' @ [c] @ ''}'' @ (if b \<noteq> CHR ''{'' then ''{'' @ [b] @ ''}'' else [b]) @ rest))))"

fun fix_frac_parts :: "string \<Rightarrow> string list \<Rightarrow> string option result" where
  "fix_frac_parts new [] = Inr (Some new)"
| "fix_frac_parts new (p # ps) =
     bind_r (frac_part p) (\<lambda>r. case r of None \<Rightarrow> Inr None | Some t \<Rightarrow> fix_frac_parts (new @ t) ps)"

definition fix_fracs :: "string \<Rightarrow> string result" where
  "fix_fracs s = (case split_on (tex ''frac'') s of
     [] \<Rightarrow> Inr s | w # ws \<Rightarrow> bind_r (fix_frac_parts w ws) (\<lambda>r. Inr (opt_default s r)))"

definition fix_a_slash_b :: "string \<Rightarrow> string" where
  "fix_a_slash_b s =
     (case split_on ''/'' s of
        [a, b] \<Rightarrow>
          (case py_int a of
             None \<Rightarrow> s
           | Some i \<Rightarrow>
               (case py_int b of
                  None \<Rightarrow> s
                | Some j \<Rightarrow>
                    if s = str_int i @ ''/'' @ str_int j then tex ''frac'' @ ''{'' @ str_int i @ ''}{'' @ str_int j @ ''}'' else s))
      | _ \<Rightarrow> s)"

definition remove_right_units :: "string \<Rightarrow> string result" where
  "remove_right_units s =
     (if sublist (tex ''text{ '') s
      then (case split_on (tex ''text{ '') s of [a, b] \<Rightarrow> Inr a | _ \<Rightarrow> Inl (AssertionError []))
      else Inr s)"

definition sqrt_part :: "string \<Rightarrow> string result" where
  "sqrt_part p =
     (case p of
        [] \<Rightarrow> Inl IndexError
      | c # cs \<Rightarrow> Inr (tex ''sqrt'' @ (if c \<noteq> CHR ''{'' then ''{'' @ [c] @ ''}'' @ cs else p)))"

definition fix_sqrt :: "string \<Rightarrow> string result" where
  "fix_sqrt s =
     (if \<not> sublist (tex ''sqrt'') s then Inr s
      else (case split_on (tex ''sqrt'') s of
              [] \<Rightarrow> Inr s | w # ws \<Rightarrow> bind_r (map_r sqrt_part ws) (\<lambda>ps. Inr (w @ concat ps))))"

text \<open>\<open>strip_string\<close>: the replacements before and after the units, the ending, and their sequence.\<close>

definition strip_marks :: "string \<Rightarrow> string" where
  "strip_marks s =
     fold (\<lambda>(old, new) t. replace_all old new t)
       [([CHR 0x0A], []), (tex ''!'', []), (tex (tex []), tex []), (''tfrac'', ''frac''), (''dfrac'', ''frac''),
        (tex ''left'', []), (tex ''right'', []), (''^{'' @ tex ''circ}'', []), (''^'' @ tex ''circ'', []), (tex ''$'', [])] s"

definition strip_percent :: "string \<Rightarrow> string" where
  "strip_percent s =
     fold (\<lambda>(old, new) t. replace_all old new t)
       [(tex (tex ''%''), []), (tex ''%'', []), ('' .'', '' 0.''), (''{.'', ''{0.'')] s"

definition drop_left_side :: "string \<Rightarrow> string" where
  "drop_left_side s = (case split_on ''='' s of [a, b] \<Rightarrow> if length a \<le> 2 then b else s | _ \<Rightarrow> s)"

definition strip_rest :: "string \<Rightarrow> string result" where
  "strip_rest s =
     (if s = [] then Inr s
      else
        (let s = drop_left_side (if hd s = CHR ''.'' then CHR ''0'' # s else s)
         in bind_r (fix_sqrt s) (\<lambda>s.
            bind_r (fix_fracs (remove_all '' '' s)) (\<lambda>s.
              Inr (fix_a_slash_b (if s = ''0.5'' then tex ''frac{1}{2}'' else s))))))"

definition strip_string :: "string \<Rightarrow> string result" where
  "strip_string s = bind_r (remove_right_units (strip_marks s)) (\<lambda>s. strip_rest (strip_percent s))"

definition is_equiv :: "string option \<Rightarrow> string option \<Rightarrow> bool" where
  "is_equiv a b =
     (case (a, b) of
        (None, None) \<Rightarrow> True
      | (Some s, Some t) \<Rightarrow>
          (case strip_string s of
             Inl _ \<Rightarrow> s = t
           | Inr s' \<Rightarrow> (case strip_string t of Inl _ \<Rightarrow> s = t | Inr t' \<Rightarrow> s' = t'))
      | _ \<Rightarrow> False)"

definition math_score :: "string \<Rightarrow> string \<Rightarrow> real" where
  "math_score solution ground_truth =
     (case last_boxed_only_string solution of
        None \<Rightarrow> 0
      | Some b \<Rightarrow>
          (case remove_boxed b of
             Inl _ \<Rightarrow> 0
           | Inr answer \<Rightarrow> if is_equiv (Some answer) (Some ground_truth) then 1 else 0))"

section \<open>\<open>openmathinst_utils.py\<close> and the chained grader\<close>

text \<open>\<open>extract_answer\<close> with the regular expression \<open>p(.+)$\<close>: the rest of a line at the end of the text.\<close>

fun search_tail :: "string \<Rightarrow> string \<Rightarrow> string option" where
  "search_tail p [] = None"
| "search_tail p (c # cs) =
     (let rest = drop (length p) (c # cs); line = takeWhile (\<lambda>c. c \<noteq> CHR 0x0A) rest in
      if prefix p (c # cs) \<and> line \<noteq> [] \<and> drop (length line) rest \<in> {[], [CHR 0x0A]} then Some line
      else search_tail p cs)"

definition extract_boxed :: "string \<Rightarrow> string option" where
  "extract_boxed s =
     (if \<not> sublist boxed s then None
      else
        (case (case rfind boxed s of None \<Rightarrow> rfind (tex ''fbox'') s | Some i \<Rightarrow> Some i) of
           None \<Rightarrow> None
         | Some i \<Rightarrow>
             (case braced_span (drop i s) of
                None \<Rightarrow> None
              | Some b \<Rightarrow> if b \<noteq> [] \<and> prefix (tex ''boxed{'') b \<and> last b = CHR ''}'' then Some (drop 7 (butlast b)) else None)))"

definition extract_answer :: "string \<Rightarrow> bool \<Rightarrow> string \<Rightarrow> string option" where
  "extract_answer s extract_from_boxed p = (if \<not> extract_from_boxed then search_tail p s else extract_boxed s)"

text \<open>\<open>Counter(data).most_common(1)\<close>: the first of the elements with the greatest count.\<close>

definition most_common_element :: "'a list \<Rightarrow> 'a result" where
  "most_common_element xs =
     (if xs = [] then Inl (AssertionError ''Data is empty'')
      else Inr (foldl (\<lambda>best x. if count_list xs best < count_list xs x then x else best) (hd xs) xs))"

datatype response = Text string | Texts "string list"

definition process_results :: "(string option \<Rightarrow> string \<Rightarrow> bool result) \<Rightarrow> response \<Rightarrow> string \<Rightarrow> bool \<Rightarrow> string \<Rightarrow> bool result" where
  "process_results math_equal r answer from_boxed p =
     (case r of
        Text s \<Rightarrow> math_equal (extract_answer s from_boxed p) answer
      | Texts ss \<Rightarrow> bind_r (most_common_element (map (\<lambda>s. extract_answer s from_boxed p) ss)) (\<lambda>a. math_equal a answer))"

definition reward_func :: "(string option \<Rightarrow> string \<Rightarrow> bool result) \<Rightarrow> string \<Rightarrow> string \<Rightarrow> real result" where
  "reward_func math_equal solution ground_truth =
     (case extract_answer solution True [] of
        None \<Rightarrow> Inr (- 1)
      | Some a \<Rightarrow> bind_r (math_equal (Some a) ground_truth) (\<lambda>ok. Inr (if ok then 1 else - 1 / 2)))"

definition normalize_ground_truth :: "('m py_obj \<Rightarrow> string) \<Rightarrow> 'm py_obj \<Rightarrow> string" where
  "normalize_ground_truth str gt =
     (let text = (\<lambda>v. case v of MNone \<Rightarrow> [] | _ \<Rightarrow> str v) in
      case gt of
        MDict d \<Rightarrow>
          (case List.find (\<lambda>k. map_of d k \<noteq> None) [''answer'', ''ground_truth'', ''target'', ''solution''] of
             Some k \<Rightarrow> text (the (map_of d k))
           | None \<Rightarrow> str gt)
      | MList (v # _) \<Rightarrow> text v
      | _ \<Rightarrow> text gt)"

text \<open>The graders are tried in order; an exception anywhere gives 0.\<close>

definition or_r :: "bool result \<Rightarrow> bool result \<Rightarrow> bool result" where
  "or_r a b = bind_r a (\<lambda>ok. if ok then Inr True else b)"

definition chained_score :: "('m py_obj \<Rightarrow> string) \<Rightarrow> (string option \<Rightarrow> string \<Rightarrow> bool result) \<Rightarrow> (string \<Rightarrow> 'e result)
    \<Rightarrow> ('e \<Rightarrow> 'e \<Rightarrow> bool result) \<Rightarrow> bool \<Rightarrow> string option \<Rightarrow> 'm py_obj \<Rightarrow> real" where
  "chained_score str math_equal parse verify grader_found solution ground_truth =
     (let resp = opt_default [] solution; gt = normalize_ground_truth str ground_truth in
      if \<not> grader_found then 0
      else case or_r (process_results math_equal (Text resp) gt True ''The final answer is '')
             (or_r (process_results math_equal (Text resp) gt False ''The answer is: '')
               (bind_r (parse (box gt)) (\<lambda>x. bind_r (parse resp) (\<lambda>y. verify x y)))) of
             Inl _ \<Rightarrow> 0
           | Inr ok \<Rightarrow> if ok then 1 else 0)"

section \<open>\<open>math_dapo.py\<close>\<close>

definition last_boxed_dapo :: "string \<Rightarrow> string option" where
  "last_boxed_dapo s =
     (case rfind (tex ''boxed{'') s of None \<Rightarrow> None | Some i \<Rightarrow> braced_span (drop i s))"

definition remove_boxed_dapo :: "string \<Rightarrow> string result" where
  "remove_boxed_dapo s =
     (if \<not> prefix (tex ''boxed{'') s then Inl (AssertionError ''box error'')
      else if last s \<noteq> CHR ''}'' then Inl (AssertionError ''box error'')
      else Inr (drop 7 (butlast s)))"

definition substitutions :: "(string \<times> string) list" where
  "substitutions =
     [(''an '', []), (''a '', []), (''.$'', ''$''), (tex ''$'', []), (tex '' '', []), ('' '', []), (''mbox'', ''text''),
      ('','' @ tex ''text{and}'', '',''), (tex ''text{and}'', '',''), (tex ''text{m}'', tex ''text{}'')]"

definition removed_expressions :: "string list" where
  "removed_expressions =
     [''square'', ''ways'', ''integers'', ''dollars'', ''mph'', ''inches'', ''hours'', ''km'', ''units'', tex ''ldots'', ''sue'',
      ''points'', ''feet'', ''minutes'', ''digits'', ''cents'', ''degrees'', ''cm'', ''gm'', ''pounds'', ''meters'', ''meals'',
      ''edges'', ''students'', ''childrentickets'', ''multiples'', tex ''text{s}'', tex ''text{.}'',
      tex ''text{'' @ [CHR 0x0A] @ ''s}'', tex ''text{}^2'', tex ''text{}^3'', tex ''text{'' @ [CHR 0x0A] @ ''}'', tex ''text{}'',
      tex ''mathrm{th}'', ''^'' @ tex ''circ'', ''^{'' @ tex ''circ}'', tex '';'', '','' @ tex ''!'', ''{,}'', [CHR 0x22], tex ''dots'']"

text \<open>The regular expressions. \<open>.\<close> does not match a line break; a match is replaced and the search goes on behind it.\<close>

definition first_line :: "string \<Rightarrow> string" where
  "first_line = takeWhile (\<lambda>c. c \<noteq> CHR 0x0A)"

text \<open>\<open>(.*?)($)(.*?)($)(.*)\<close> by what is between the first two dollar signs of a line.\<close>

definition dollar_line :: "string \<Rightarrow> string" where
  "dollar_line l = (case split_on ''$'' l of a # b # c # ws \<Rightarrow> ''$'' @ b @ ''$'' | _ \<Rightarrow> l)"

definition sub_dollars :: "string \<Rightarrow> string" where
  "sub_dollars s = join_with [CHR 0x0A] (map dollar_line (split_on [CHR 0x0A] s))"

text \<open>\<open>(opening)(.*?)(})\<close> by the shortest content.\<close>

function sub_braced :: "string \<Rightarrow> string \<Rightarrow> string" where
  "sub_braced op s =
     (case s of
        [] \<Rightarrow> []
      | c # cs \<Rightarrow>
          (let body = takeWhile (\<lambda>c. c \<noteq> CHR ''}'') (drop (length op) s) in
           if op \<noteq> [] \<and> prefix op s \<and> CHR 0x0A \<notin> set body \<and> length op + length body < length s
           then body @ sub_braced op (drop (length op + length body + 1) s)
           else c # sub_braced op cs))"
  by pat_completeness auto
termination by (relation "measure (\<lambda>(op, s). length s)") auto

declare sub_braced.simps [simp del]

text \<open>\<open>(\boxed{)(.*)(})\<close> by the longest content on the line.\<close>

function sub_boxed :: "string \<Rightarrow> string" where
  "sub_boxed s =
     (case s of
        [] \<Rightarrow> []
      | c # cs \<Rightarrow>
          (let line = first_line (drop 7 s) in
           if prefix (tex ''boxed{'') s \<and> CHR ''}'' \<in> set line
           then (let body = rev (tl (dropWhile (\<lambda>c. c \<noteq> CHR ''}'') (rev line)))
                 in body @ sub_boxed (drop (7 + length body + 1) s))
           else c # sub_boxed cs))"
  by pat_completeness auto
termination by (relation "measure length") auto

declare sub_boxed.simps [simp del]

text \<open>\<open>(frac)([^{])(.)\<close> and \<open>(sqrt)([^{])\<close>.\<close>

fun sub_frac :: "string \<Rightarrow> string" where
  "sub_frac [] = []"
| "sub_frac (c # cs) =
     (if prefix ''frac'' (c # cs) \<and> 6 \<le> length (c # cs) \<and> (c # cs) ! 4 \<noteq> CHR ''{'' \<and> (c # cs) ! 5 \<noteq> CHR 0x0A
      then ''frac{'' @ [(c # cs) ! 4] @ ''}{'' @ [(c # cs) ! 5] @ ''}'' @ sub_frac (drop 5 cs)
      else c # sub_frac cs)"

fun sub_sqrt :: "string \<Rightarrow> string" where
  "sub_sqrt [] = []"
| "sub_sqrt (c # cs) =
     (if prefix ''sqrt'' (c # cs) \<and> 5 \<le> length (c # cs) \<and> (c # cs) ! 4 \<noteq> CHR ''{''
      then ''sqrt{'' @ [(c # cs) ! 4] @ ''}'' @ sub_sqrt (drop 4 cs)
      else c # sub_sqrt cs)"

text \<open>\<open>str.isdigit\<close> on ASCII text, which the texts of the model are; Python's test also accepts superscripts and the digits of
  other scripts.\<close>

definition is_digits :: "string \<Rightarrow> bool" where
  "is_digits s \<longleftrightarrow> s \<noteq> [] \<and> (\<forall>c \<in> set s. digit_val c \<noteq> None)"

definition normalize_final_answer :: "string \<Rightarrow> string" where
  "normalize_final_answer s =
     (let s = last (split_on ''='' s);
          s = fold (\<lambda>(before, after) t. replace_all before after t) substitutions s;
          s = fold remove_all removed_expressions s;
          s = sub_dollars s;
          s = sub_braced (tex ''text{'') s;
          s = sub_braced (tex ''textbf{'') s;
          s = sub_braced (tex ''overline{'') s;
          s = sub_boxed s;
          s = remove_all ''$'' (sub_sqrt (sub_frac s));
          s = (if is_digits (remove_all '','' s) then remove_all '','' s else s)
      in py_strip s)"

text \<open>
  \<open>re.findall\<close> of \<open>(?i)Answer\s*:\s*([^\n]+)\<close>: the second \<open>\s*\<close> takes all white space and gives some back when nothing is left
  for the answer.
\<close>

fun capture :: "nat \<Rightarrow> string \<Rightarrow> (string \<times> string) option" where
  "capture p s =
     (let rest = drop p s in
      if rest \<noteq> [] \<and> hd rest \<noteq> CHR 0x0A then Some (first_line rest, drop (length (first_line rest)) rest)
      else case p of 0 \<Rightarrow> None | Suc q \<Rightarrow> capture q s)"

declare capture.simps [simp del]

definition match_answer :: "string \<Rightarrow> (string \<times> string) option" where
  "match_answer s =
     (if py_lower (take 6 s) = ''answer''
      then (case dropWhile is_space (drop 6 s) of
              [] \<Rightarrow> None
            | c # rest \<Rightarrow> if c = CHR '':'' then capture (length (takeWhile is_space rest)) rest else None)
      else None)"

lemma capture_shorter: "capture p s = Some (a, rest) \<Longrightarrow> length rest \<le> length s"
proof (induction p)
  case 0
  then show ?case by (auto simp: capture.simps [of 0] Let_def split: if_splits)
next
  case (Suc p)
  then show ?case by (auto simp: capture.simps [of "Suc p"] Let_def split: if_splits)
qed

lemma match_answer_shorter: "match_answer s = Some (a, rest) \<Longrightarrow> length rest < length s"
proof -
  assume m: "match_answer s = Some (a, rest)"
  then obtain r where r: "dropWhile is_space (drop 6 s) = CHR '':'' # r" "capture (length (takeWhile is_space r)) r = Some (a, rest)"
    by (auto simp: match_answer_def split: if_splits list.splits)
  have "length (dropWhile is_space (drop 6 s)) \<le> length s" using length_dropWhile_le [of is_space "drop 6 s"] by simp
  then show ?thesis using capture_shorter [OF r(2)] r(1) by simp
qed

function find_answers :: "string \<Rightarrow> string list" where
  "find_answers s =
     (case match_answer s of
        Some (a, rest) \<Rightarrow> a # find_answers rest
      | None \<Rightarrow> (case s of [] \<Rightarrow> [] | c # cs \<Rightarrow> find_answers cs))"
  by pat_completeness auto
termination by (relation "measure length") (auto dest: match_answer_shorter)

declare find_answers.simps [simp del]

definition is_correct_minerva :: "string \<Rightarrow> string \<Rightarrow> bool \<Rightarrow> (bool \<times> string) result" where
  "is_correct_minerva solution gt gt_need_extract =
     (let answers = find_answers solution;
          pred = normalize_final_answer (if answers = [] then ''[INVALID]'' else last answers)
      in bind_r (if gt_need_extract
                 then (case last_boxed_dapo gt of None \<Rightarrow> Inl TypeError
                         | Some b \<Rightarrow> bind_r (remove_boxed_dapo b) (\<lambda>g. Inr (normalize_final_answer g)))
                 else Inr (normalize_final_answer gt))
           (\<lambda>gt. Inr (pred = gt, pred)))"

text \<open>\<open>xs[n:]\<close> for an integer.\<close>

definition py_drop :: "int \<Rightarrow> 'a list \<Rightarrow> 'a list" where
  "py_drop n xs = (if 0 \<le> n then drop (nat n) xs else drop (length xs - nat (- n)) xs)"

definition is_correct_strict_box :: "string \<Rightarrow> string \<Rightarrow> int list option \<Rightarrow> (int \<times> string option) result" where
  "is_correct_strict_box pred gt pause =
     bind_r (case pause of
               None \<Rightarrow> Inr (py_drop (- 100) pred)
             | Some is \<Rightarrow> if length is \<noteq> 4 then Inl (AssertionError []) else Inr (py_drop (last is - 100) pred))
       (\<lambda>pred.
         bind_r (case last_boxed_dapo pred of None \<Rightarrow> Inr None | Some b \<Rightarrow> bind_r (remove_boxed_dapo b) (\<lambda>a. Inr (Some a)))
           (\<lambda>extracted. Inr (if extracted = Some gt then 1 else - 1, extracted)))"

definition verify_dapo :: "string \<Rightarrow> string \<Rightarrow> bool \<Rightarrow> int list option \<Rightarrow> (bool \<times> string option) result" where
  "verify_dapo solution answer strict pause =
     (if strict
      then bind_r (is_correct_strict_box solution answer pause) (\<lambda>(correct, pred). Inr (correct = 1, pred))
      else bind_r (is_correct_minerva solution answer False) (\<lambda>(correct, pred). Inr (correct, Some pred)))"

record dapo_score =
  ds_score :: real
  ds_acc :: bool
  ds_pred :: "string option"

definition compute_score_dapo :: "string \<Rightarrow> string \<Rightarrow> bool \<Rightarrow> int list option \<Rightarrow> dapo_score result" where
  "compute_score_dapo solution ground_truth strict pause =
     bind_r (verify_dapo (py_drop (- 300) solution) ground_truth strict pause) (\<lambda>(correct, pred).
       Inr \<lparr>ds_score = (if correct then 1 else - 1), ds_acc = correct, ds_pred = pred\<rparr>)"

section \<open>The extractors\<close>

text \<open>
  What the graders rely on: the extractor returns the content of the last box of a text, if the text is \<open>admissible\<close>.
\<close>

locale boxed_extractor =
  fixes answer_of :: "string \<Rightarrow> string option" and admissible :: "string \<Rightarrow> bool"
  assumes extract_box: "balanced ans \<Longrightarrow> \<not> sublist boxed (ans @ ''}'' @ post) \<Longrightarrow> admissible (pre @ box ans @ post)
    \<Longrightarrow> answer_of (pre @ box ans @ post) = Some ans"
begin

lemma last_box_wins:
  assumes "balanced b" "\<not> sublist boxed (b @ ''}'' @ post)" "admissible (pre @ box a @ mid @ box b @ post)"
  shows "answer_of (pre @ box a @ mid @ box b @ post) = Some b"
  using extract_box [of b post "pre @ box a @ mid"] assms by simp

lemma plain_answer:
  assumes "CHR 0x5C \<notin> set ans" "CHR 0x5C \<notin> set post" "balanced ans" "admissible (pre @ box ans @ post)"
  shows "answer_of (pre @ box ans @ post) = Some ans"
proof (rule extract_box [OF assms(3) _ assms(4)])
  have "CHR 0x5C \<notin> set (ans @ ''}'' @ post)" using assms(1,2) by simp
  moreover have "CHR 0x5C \<in> set boxed" by (simp add: boxed_def)
  ultimately show "\<not> sublist boxed (ans @ ''}'' @ post)" using set_mono_sublist by blast
qed

end

definition extract_math :: "string \<Rightarrow> string option" where
  "extract_math s =
     (case last_boxed_only_string s of
        None \<Rightarrow> None
      | Some b \<Rightarrow> (case remove_boxed b of Inl _ \<Rightarrow> None | Inr a \<Rightarrow> Some a))"

definition extract_dapo :: "string \<Rightarrow> string option" where
  "extract_dapo s =
     (case last_boxed_dapo s of
        None \<Rightarrow> None
      | Some b \<Rightarrow> (case remove_boxed_dapo b of Inl _ \<Rightarrow> None | Inr a \<Rightarrow> Some a))"

lemma math_score_extract:
  "math_score s gt = (case extract_math s of None \<Rightarrow> 0 | Some a \<Rightarrow> if is_equiv (Some a) (Some gt) then 1 else 0)"
  by (simp add: math_score_def extract_math_def split: option.splits sum.splits)

lemma box_parts [simp]:
  "prefix (tex ''boxed{'') (box ans)" "last (box ans) = CHR ''}''" "drop 7 (butlast (box ans)) = ans" "box ans \<noteq> []"
  by (simp_all add: box_def boxed_def butlast_append)

lemma drop_before [simp]: "drop (length pre) (pre @ rest) = rest"
  by simp

lemma boxed_tex: "tex ''boxed'' = boxed"
  by (simp add: boxed_def)

lemma rfind_open_brace:
  assumes "\<not> sublist boxed (ans @ ''}'' @ post)"
  shows "rfind (tex ''boxed{'') (pre @ box ans @ post) = Some (length pre)"
proof -
  have "\<not> sublist (tex ''boxed{'') (ans @ ''}'' @ post)"
  proof
    assume "sublist (tex ''boxed{'') (ans @ ''}'' @ post)"
    moreover have "sublist boxed (tex ''boxed{'')" by (simp add: boxed_def)
    ultimately show False using assms sublist_order.order.trans by blast
  qed
  then have "rfind (tex ''boxed{'') (pre @ tex ''boxed{'' @ ans @ ''}'' @ post) = Some (length pre)"
    by (intro rfind_last) (simp_all add: sublist_Cons_right)
  then show ?thesis by (simp add: box_def boxed_def)
qed

lemma sublist_part: "\<not> sublist sub (pre @ mid @ post) \<Longrightarrow> \<not> sublist sub mid"
  using sublist_appendI sublist_order.order.trans by blast

interpretation math: boxed_extractor extract_math "\<lambda>s. \<not> sublist (tex ''boxed '') s"
proof
  fix ans post pre
  assume a: "balanced ans" "\<not> sublist boxed (ans @ ''}'' @ post)" "\<not> sublist (tex ''boxed '') (pre @ box ans @ post)"
  have last: "last_boxed_only_string (pre @ box ans @ post) = Some (box ans)"
    using a(3) rfind_box [OF a(2)] braced_span_box [OF a(1)] by (simp add: last_boxed_only_string_def)
  have "remove_boxed (box ans) = Inr ans" using sublist_part [OF a(3)] by (simp add: remove_boxed_def)
  then show "extract_math (pre @ box ans @ post) = Some ans" by (simp add: extract_math_def last)
qed

interpretation dapo: boxed_extractor extract_dapo "\<lambda>s. True"
proof
  fix ans post pre
  assume a: "balanced ans" "\<not> sublist boxed (ans @ ''}'' @ post)"
  have last: "last_boxed_dapo (pre @ box ans @ post) = Some (box ans)"
    using rfind_open_brace [OF a(2)] braced_span_box [OF a(1)] by (simp add: last_boxed_dapo_def)
  then show "extract_dapo (pre @ box ans @ post) = Some ans" by (simp add: extract_dapo_def remove_boxed_dapo_def)
qed

interpretation openmath: boxed_extractor extract_boxed "\<lambda>s. True"
proof
  fix ans post pre
  assume a: "balanced ans" "\<not> sublist boxed (ans @ ''}'' @ post)"
  have "sublist boxed (pre @ box ans @ post)" by (simp add: box_def)
  then show "extract_boxed (pre @ box ans @ post) = Some ans"
    using rfind_box [OF a(2)] braced_span_box [OF a(1)] by (simp add: extract_boxed_def)
qed

text \<open>The strict verification reads the end of the text; the scan never fails on what it finds.\<close>

lemma last_boxed_dapo_form: "last_boxed_dapo s = Some b \<Longrightarrow> prefix (tex ''boxed{'') b \<and> last b = CHR ''}''"
proof -
  assume "last_boxed_dapo s = Some b"
  then obtain i where i: "rfind (tex ''boxed{'') s = Some i" "braced_span (drop i s) = Some b"
    by (auto simp: last_boxed_dapo_def split: option.splits)
  have p: "prefix (tex ''boxed{'') (drop i s)" by (rule rfind_prefix [OF i(1)])
  have b: "b \<noteq> []" "last b = CHR ''}''" "prefix b (drop i s)" using braced_span_last [OF i(2)] by simp_all
  have "\<not> prefix b (tex ''boxed{'')"
  proof
    assume "prefix b (tex ''boxed{'')"
    then have "last b \<in> set (tex ''boxed{'')" using b(1) by (meson last_in_set set_mono_prefix subsetD)
    then show False using b(2) by simp
  qed
  then show ?thesis using prefix_same_cases [OF p b(3)] b(2) by blast
qed

lemma split_on_box_space: "math_score s gt = (if is_equiv (Some (hd (split_on ''$'' (last (split_on (tex ''boxed '') s))))) (Some gt) then 1 else 0)"
  if "sublist (tex ''boxed '') s"
  using that by (simp add: math_score_def last_boxed_only_string_def remove_boxed_def prefix_imp_sublist)

lemma rfind_NoneI: "\<not> sublist sub s \<Longrightarrow> rfind sub s = None"
  using rfind_prefix by (metis not_None_eq append_take_drop_id prefix_imp_sublist sublist_append_leftI sublist_order.order.trans)

text \<open>No box starts behind the first character of the last box.\<close>

lemma no_box_behind:
  assumes "\<not> sublist boxed (ans @ ''}'' @ post)" "0 < n"
  shows "\<not> sublist (tex ''boxed{'') (drop n (box ans @ post))"
proof
  assume "sublist (tex ''boxed{'') (drop n (box ans @ post))"
  moreover have "sublist (drop n (box ans @ post)) (''boxed{'' @ ans @ ''}'' @ post)"
    using assms(2) by (cases n) (simp_all add: box_def boxed_def sublist_drop)
  ultimately have "sublist (tex ''boxed{'') (''boxed{'' @ ans @ ''}'' @ post)" by (rule sublist_order.order.trans)
  then have "sublist (tex ''boxed{'') (ans @ ''}'' @ post)" by (simp add: sublist_Cons_right)
  moreover have "sublist boxed (tex ''boxed{'')" by (simp add: boxed_def)
  ultimately show False using assms(1) sublist_order.order.trans by blast
qed

text \<open>
  [C19] What the graders read of a text whose last box has balanced content (and no box inside): the OpenMath grader extracts
  that content. The score of the MATH grader is decided by it too, unless a box without braces (the command followed by a
  space) occurs anywhere; then it is decided by what follows the last of these, up to a dollar sign. The strict DAPO check, which reads
  the last 100 characters only, accepts exactly the ground truth when the whole box lies in them, and otherwise finds no
  answer and rejects.
\<close>

theorem graders_find_last_box:
  assumes "balanced ans" "\<not> sublist boxed (ans @ ''}'' @ post)" "s = pre @ box ans @ post"
  shows "extract_answer s True p = Some ans
    \<and> math_score s gt = (if is_equiv
        (Some (if sublist (tex ''boxed '') s then hd (split_on ''$'' (last (split_on (tex ''boxed '') s))) else ans)) (Some gt) then 1 else 0)
    \<and> is_correct_strict_box s gt None
      = Inr (if length (box ans @ post) \<le> 100 then (if ans = gt then 1 else - 1, Some ans) else (- 1, None))"
proof (intro conjI)
  show "extract_answer s True p = Some ans"
    by (simp add: extract_answer_def openmath.extract_box [OF assms(1,2)] assms(3))
  show "math_score s gt = (if is_equiv
        (Some (if sublist (tex ''boxed '') s then hd (split_on ''$'' (last (split_on (tex ''boxed '') s))) else ans)) (Some gt) then 1 else 0)"
  proof (cases "sublist (tex ''boxed '') s")
    case True
    then show ?thesis by (simp add: split_on_box_space)
  next
    case False
    then show ?thesis using math.extract_box [OF assms(1,2)] unfolding assms(3) by (simp add: math_score_extract)
  qed
  show "is_correct_strict_box s gt None
      = Inr (if length (box ans @ post) \<le> 100 then (if ans = gt then 1 else - 1, Some ans) else (- 1, None))"
  proof (cases "length (box ans @ post) \<le> 100")
    case True
    then obtain pre' where cut: "py_drop (- 100) s = pre' @ box ans @ post"
      unfolding assms(3) by (auto simp: py_drop_def)
    have "last_boxed_dapo (pre' @ box ans @ post) = Some (box ans)"
      using rfind_open_brace [OF assms(2)] braced_span_box [OF assms(1)] by (simp add: last_boxed_dapo_def)
    then show ?thesis
      unfolding is_correct_strict_box_def option.case bind_r_Inr cut if_P [OF True] by (simp add: remove_boxed_dapo_def)
  next
    case False
    let ?n = "length (box ans @ post) - 100"
    have cut: "py_drop (- 100) s = drop ?n (box ans @ post)" using False unfolding assms(3) by (simp add: py_drop_def)
    have "last_boxed_dapo (drop ?n (box ans @ post)) = None"
      using no_box_behind [OF assms(2), of ?n] False unfolding last_boxed_dapo_def by (simp add: rfind_NoneI)
    then show ?thesis
      unfolding is_correct_strict_box_def option.case bind_r_Inr cut if_not_P [OF False] by simp
  qed
qed

text \<open>
  \<open>is_equiv\<close> compares normal forms: an answer is normalised by \<open>strip_string\<close>, and stands for itself when that raises. So
  it is an equivalence relation, and the grader never fails.
\<close>

definition normal_form :: "string option \<Rightarrow> (string + string) option" where
  "normal_form a = map_option (\<lambda>s. case strip_string s of Inl _ \<Rightarrow> Inl s | Inr t \<Rightarrow> Inr t) a"

theorem is_equiv_compares_normal_forms: "is_equiv a b \<longleftrightarrow> normal_form a = normal_form b"
  by (auto simp: is_equiv_def normal_form_def split: option.splits sum.splits)


lemma is_equiv_self [simp]: "is_equiv a a"
  by (auto simp: is_equiv_def split: option.splits sum.splits)

section \<open>Total graders\<close>

lemma strict_box_total:
  assumes "pause = None \<or> (\<exists>is. pause = Some is \<and> length is = 4)"
  shows "\<exists>e. is_correct_strict_box s gt pause = Inr (if e = Some gt then 1 else - 1, e)"
proof -
  have "\<exists>e. bind_r (case last_boxed_dapo t of None \<Rightarrow> Inr None | Some b \<Rightarrow> bind_r (remove_boxed_dapo b) (\<lambda>a. Inr (Some a)))
      (\<lambda>x. Inr (if x = Some gt then 1 else - 1 :: int, x)) = Inr (if e = Some gt then 1 else - 1, e)" for t
    using last_boxed_dapo_form [of t] by (cases "last_boxed_dapo t") (auto simp: remove_boxed_dapo_def)
  then show ?thesis using assms by (auto simp: is_correct_strict_box_def)
qed

text \<open>
  [C20] The DAPO reward never fails (with four pause indices, if any), is 1 for a correct answer and -1 otherwise, and reports
  the prediction it compared: the strict check accepts exactly the ground truth, the Minerva check its normal form.
\<close>

theorem dapo_score_total:
  assumes "pause = None \<or> (\<exists>is. pause = Some is \<and> length is = 4)"
  shows "\<exists>r. compute_score_dapo solution gt strict pause = Inr r \<and> ds_score r = (if ds_acc r then 1 else - 1)
    \<and> ds_acc r = (ds_pred r = Some (if strict then gt else normalize_final_answer gt))"
proof (cases strict)
  case True
  obtain e where "is_correct_strict_box (py_drop (- 300) solution) gt pause = Inr (if e = Some gt then 1 else - 1, e)"
    using strict_box_total [OF assms] by blast
  then show ?thesis using True by (simp add: compute_score_dapo_def verify_dapo_def)
next
  case False
  then show ?thesis by (auto simp: compute_score_dapo_def verify_dapo_def is_correct_minerva_def Let_def)
qed

text \<open>Boxes of the other kind are found by the MATH grader but never stripped, so they always score 0.\<close>

lemma fbox_scores_zero: "\<not> sublist boxed s \<Longrightarrow> math_score s gt = 0"
proof -
  assume no: "\<not> sublist boxed s"
  have "sublist boxed (tex ''boxed '')" by (simp add: boxed_def)
  then have space: "\<not> sublist (tex ''boxed '') s" using no sublist_order.order.trans by blast
  have "remove_boxed b = Inl (AssertionError [])" if lb: "last_boxed_only_string s = Some b" for b
  proof -
    obtain i where "braced_span (drop i s) = Some b"
      using lb space by (auto simp: last_boxed_only_string_def split: option.splits if_splits)
    then have "sublist b s" using braced_span_last [of "drop i s" b]
      by (meson prefix_imp_sublist sublist_drop sublist_order.order.trans)
    moreover have "sublist boxed (tex ''boxed{'')" by (simp add: boxed_def)
    ultimately have "\<not> sublist (tex ''boxed '') b" "\<not> sublist (tex ''boxed{'') b"
      using no space sublist_order.order.trans by blast+
    then show ?thesis by (auto simp: remove_boxed_def dest: prefix_imp_sublist)
  qed
  then show ?thesis by (simp add: math_score_def split: option.splits)
qed

text \<open>A box without braces anywhere in the text takes precedence over a later box.\<close>

lemma space_box_shadows:
  "math_score (tex ''boxed 3, no: '' @ tex ''boxed{4}'') ''4'' = 0"
  "math_score (tex ''boxed{3}, no: '' @ tex ''boxed{4}'') ''4'' = 1"
  by code_simp+

text \<open>Fractions of integers in either notation have one normal form.\<close>

lemma split_on_none: "c \<notin> set s \<Longrightarrow> split_on [c] s = [s]"
  by (induction s) auto

lemma split_on_one: "c \<notin> set a \<Longrightarrow> c \<notin> set b \<Longrightarrow> split_on [c] (a @ [c] @ b) = [a, b]"
  by (induction a) (auto simp: split_on_none)

lemma fix_a_slash_b_int: "fix_a_slash_b (str_int i @ ''/'' @ str_int j) = tex ''frac'' @ ''{'' @ str_int i @ ''}{'' @ str_int j @ ''}''"
proof -
  have "CHR ''/'' \<notin> set (str_int k)" for k
  proof -
    have "CHR ''/'' \<notin> set (str_nat n)" for n using digits_of_str_nat digit_not_special by blast
    then show ?thesis by (simp add: str_int_def)
  qed
  then have "split_on ''/'' (str_int i @ ''/'' @ str_int j) = [str_int i, str_int j]" by (intro split_on_one)
  then show ?thesis by (simp add: fix_a_slash_b_def py_int_str_int)
qed

text \<open>
  The chained grader: the exact answer in the last box is accepted whatever the later graders do, and an exception of the
  first grader is final.
\<close>

lemma chained_boxed_answer:
  assumes "balanced ans" "\<not> sublist boxed (ans @ ''}'' @ post)" "math_equal (Some ans) (normalize_ground_truth str gt) = Inr True"
  shows "chained_score str math_equal parse verify True (Some (pre @ box ans @ post)) gt = 1"
  using assms(3) by (simp add: chained_score_def process_results_def extract_answer_def openmath.extract_box [OF assms(1,2)] or_r_def)

lemma chained_first_exception:
  assumes "math_equal (extract_boxed s) (normalize_ground_truth str gt) = Inl e"
  shows "chained_score str math_equal parse verify found (Some s) gt = 0"
  using assms by (simp add: chained_score_def process_results_def extract_answer_def or_r_def Let_def)

lemma chained_score_range: "chained_score str math_equal parse verify found s gt \<in> {0, 1}"
  by (auto simp: chained_score_def Let_def split: sum.splits)

section \<open>Concrete answers\<close>

definition ex_text :: string where
  "ex_text = ''so '' @ box ''x_{1}'' @ ''.''"

theorem graders_find_last_box_witness:
  "is_correct_strict_box ex_text ''x_{1}'' None = Inr (1, Some ''x_{1}'') \<and> extract_answer ex_text True [] = Some ''x_{1}''
     \<and> math_score ex_text ''x_{1}'' = 1"
proof -
  have "balanced ''x_{1}''" "\<not> sublist boxed (''x_{1}'' @ ''}'' @ ''.'')" by (simp_all add: boxed_def sublist_Cons_right)
  moreover have "\<not> sublist (tex ''boxed '') ex_text" by (simp add: ex_text_def box_def boxed_def sublist_Cons_right)
  moreover have "length (box ''x_{1}'' @ ''.'') \<le> 100" by (simp add: box_def boxed_def)
  ultimately show ?thesis
    using graders_find_last_box [of "''x_{1}''" "''.''" ex_text "''so ''" "[]" "''x_{1}''"] is_equiv_self
    by (simp add: ex_text_def)
qed

theorem dapo_score_total_witness: "\<exists>r. compute_score_dapo ex_text ''x_{1}'' True None = Inr r \<and> ds_score r \<in> {1, - 1}"
  using dapo_score_total [of None ex_text "''x_{1}''" True] by auto

end
