(* ===== verification/Rollout_Correction.thy ===== *)
theory Rollout_Correction
  imports Policy_Losses Advantages Py_Env "HOL-Library.Sublist"
begin

text \<open>
  The correction for rollouts of a stale or differently rounded policy (\<open>verl/trainer/ppo/rollout_corr_helper.py\<close>): importance
  weights with truncation or IcePop, rejection masks, their metrics, and the losses of the bypass mode of \<open>core_algos.py\<close>.
  The reduction over ranks is a parameter.
\<close>

section \<open>Threshold specifications\<close>

text \<open>\<open>float(s)\<close> for decimal text; infinities and NaN are not numbers of the model.\<close>

definition digits_part :: "string \<Rightarrow> (int \<times> nat) option" where
  "digits_part s = (if s = [] then Some (0, 0)
     else map_option (\<lambda>v. (v, length (filter (\<lambda>c. c \<noteq> CHR ''_'') s))) (digits_value 0 False s))"

definition signed :: "string \<Rightarrow> bool \<times> string" where
  "signed s = (case s of [] \<Rightarrow> (False, [])
     | c # cs \<Rightarrow> if c = CHR ''-'' then (True, cs) else if c = CHR ''+'' then (False, cs) else (False, s))"

definition mantissa_value :: "string \<Rightarrow> real option" where
  "mantissa_value s =
     (case py_split (CHR ''.'') s of
        [i] \<Rightarrow> if i = [] then None else map_option (\<lambda>(v, _). of_int v) (digits_part i)
      | [i, f] \<Rightarrow>
          if i = [] \<and> f = [] then None
          else (case digits_part i of None \<Rightarrow> None | Some (v, _) \<Rightarrow>
                 map_option (\<lambda>(w, k). of_int v + of_int w / 10 ^ k) (digits_part f))
      | _ \<Rightarrow> None)"

definition exponent_value :: "string \<Rightarrow> int option" where
  "exponent_value s = (case signed s of (neg, ds) \<Rightarrow> map_option (\<lambda>v. if neg then - v else v) (digits_value 0 False ds))"

definition py_float :: "string \<Rightarrow> real option" where
  "py_float s =
     (case signed (py_strip s) of (neg, body) \<Rightarrow>
        let value = (case py_split (CHR ''e'') (py_lower body) of
            [m] \<Rightarrow> mantissa_value m
          | [m, e] \<Rightarrow> (case mantissa_value m of None \<Rightarrow> None | Some v \<Rightarrow>
              map_option (\<lambda>x. if 0 \<le> x then v * 10 ^ nat x else v / 10 ^ nat (- x)) (exponent_value e))
          | _ \<Rightarrow> None)
        in map_option (\<lambda>v. if neg then - v else v) value)"

text \<open>A threshold of the configuration: a number, a text, or a flag.\<close>

datatype threshold = SNum real | SStr string | SFlag bool

text \<open>\<open>spec.split("_", 1)\<close>.\<close>

definition split_once :: "string \<Rightarrow> (string \<times> string) option" where
  "split_once s = (if CHR ''_'' \<in> set s
     then Some (takeWhile (\<lambda>c. c \<noteq> CHR ''_'') s, tl (dropWhile (\<lambda>c. c \<noteq> CHR ''_'') s)) else None)"

definition float_r :: "string \<Rightarrow> real result" where
  "float_r s = (case py_float s of None \<Rightarrow> Inl (ValueError s) | Some v \<Rightarrow> Inr v)"

definition parse_rollout_is_threshold :: "threshold \<Rightarrow> (real \<times> real option) result" where
  "parse_rollout_is_threshold spec =
     bind_r (case spec of
         SFlag _ \<Rightarrow> Inl TypeError
       | SNum x \<Rightarrow> Inr (x, None)
       | SStr t \<Rightarrow>
           (let s = py_strip t in
            if s = [] then Inl (ValueError ''rollout_is_threshold must not be an empty string.'')
            else (case split_once s of
                    Some (l, u) \<Rightarrow> bind_r (float_r l) (\<lambda>lower. bind_r (float_r u) (\<lambda>upper. Inr (upper, Some lower)))
                  | None \<Rightarrow> bind_r (float_r s) (\<lambda>upper. Inr (upper, None)))))
       (\<lambda>(upper, lower).
         if upper \<le> 0 then Inl (ValueError ''rollout_is_threshold upper bound must be positive'')
         else (case lower of
                 None \<Rightarrow> Inr (upper, None)
               | Some l \<Rightarrow>
                   if l \<le> 0 then Inl (ValueError ''rollout_is_threshold lower bound must be positive'')
                   else if l > upper then Inl (ValueError ''rollout_is_threshold lower bound must be <= upper bound.'')
                   else Inr (upper, Some l)))"

record rs_threshold =
  rt_lower :: "real option"
  rt_upper :: real

text \<open>One entry of a rejection threshold: a number, or the text of one.\<close>

definition option_threshold :: "string \<Rightarrow> real + string \<Rightarrow> rs_threshold result" where
  "option_threshold opt spec =
     (if suffix ''k1'' opt
      then bind_r (case spec of
                     Inl x \<Rightarrow> if x = 0 then Inl ZeroDivisionError else Inr (1 / x, x)
                   | Inr s \<Rightarrow>
                       (case split_once s of
                          Some (l, u) \<Rightarrow> bind_r (float_r l) (\<lambda>lower. bind_r (float_r u) (\<lambda>upper. Inr (lower, upper)))
                        | None \<Rightarrow> bind_r (float_r s) (\<lambda>x. if x = 0 then Inl ZeroDivisionError else Inr (1 / x, x))))
             (\<lambda>(lower, upper).
               if lower \<le> 0 \<or> upper \<le> 0 then Inl (ValueError ''Thresholds must be positive'')
               else Inr \<lparr>rt_lower = Some lower, rt_upper = upper\<rparr>)
      else bind_r (case spec of
                     Inl x \<Rightarrow> Inr x
                   | Inr s \<Rightarrow> if CHR ''_'' \<in> set s then Inl (ValueError ''must provide a single upper bound'') else float_r s)
             (\<lambda>upper. if upper \<le> 0 then Inl (ValueError ''Threshold must be positive'')
               else Inr \<lparr>rt_lower = None, rt_upper = upper\<rparr>))"

definition comma_parts :: "string \<Rightarrow> string list" where
  "comma_parts s = filter (\<lambda>p. p \<noteq> []) (map py_strip (py_split (CHR '','') s))"

definition parse_rollout_rs_thresholds :: "string list \<Rightarrow> threshold option \<Rightarrow> (string \<times> rs_threshold) list result" where
  "parse_rollout_rs_thresholds options spec =
     bind_r (case spec of
         None \<Rightarrow> Inl (ValueError ''rollout_rs_threshold must be provided for rejection sampling.'')
       | Some (SNum x) \<Rightarrow> Inr [Inl x]
       | Some (SStr s) \<Rightarrow> Inr (map Inr (comma_parts s))
       | Some (SFlag b) \<Rightarrow> Inr [Inr (if b then ''True'' else ''False'')])
       (\<lambda>raw.
         if raw = [] then Inl (ValueError ''rollout_rs_threshold must contain at least one threshold value.'')
         else if length raw \<noteq> 1 \<and> length raw \<noteq> length options then Inl (ValueError ''rollout_rs_threshold'')
         else map_r (\<lambda>(opt, s). bind_r (option_threshold opt s) (\<lambda>t. Inr (opt, t)))
                (zip options (if length raw = 1 then replicate (length options) (hd raw) else raw)))"

section \<open>Rejection\<close>

type_synonym metrics = "(string \<times> real) list"

definition supported_rs :: "string list" where
  "supported_rs = [''token_k1'', ''token_k2'', ''token_k3'', ''seq_sum_k1'', ''seq_sum_k2'', ''seq_sum_k3'', ''seq_mean_k1'',
     ''seq_mean_k2'', ''seq_mean_k3'', ''seq_max_k2'', ''seq_max_k3'']"

definition token_level :: "string \<Rightarrow> bool" where
  "token_level opt \<longleftrightarrow> opt \<in> {''token_k1'', ''token_k2'', ''token_k3''}"

definition clamp_log :: "real \<Rightarrow> real" where
  "clamp_log = clamp (- 20) 20"

definition k_stat :: "string \<Rightarrow> real \<Rightarrow> real" where
  "k_stat opt log_ratio =
     (let s = clamp_log log_ratio in
      if suffix ''k1'' opt then - s else if suffix ''k2'' opt then s ^ 2 / 2 else exp s - 1 - s)"

definition masked_mean1 :: "real list \<Rightarrow> real list \<Rightarrow> real" where
  "masked_mean1 values msk = masked_sum1 values msk / (sum_list msk + 1 / 10 ^ 8)"

definition valid_values :: "tensor \<Rightarrow> tensor \<Rightarrow> real list" where
  "valid_values values msk = concat (map2 valid1 values msk)"

definition max_list :: "real list \<Rightarrow> real" where
  "max_list xs = foldr max (tl xs) (hd xs)"

definition min_list_of :: "real list \<Rightarrow> real" where
  "min_list_of xs = foldr min (tl xs) (hd xs)"

definition sequence_max :: "real list \<Rightarrow> real list \<Rightarrow> real" where
  "sequence_max values msk = (if valid1 values msk = [] then 0 else max_list (valid1 values msk))"

definition sequence_stat :: "string \<Rightarrow> real list \<Rightarrow> real list \<Rightarrow> real" where
  "sequence_stat opt log_ratio msk =
     (let values = map (k_stat opt) log_ratio in
      if prefix ''seq_sum'' opt then masked_sum1 values msk
      else if prefix ''seq_mean'' opt then masked_mean1 values msk
      else sequence_max values msk)"

definition stat_kept :: "rs_threshold \<Rightarrow> real \<Rightarrow> bool" where
  "stat_kept th x =
     (case rt_lower th of Some l \<Rightarrow> ln l \<le> x \<and> x \<le> ln (rt_upper th) | None \<Rightarrow> x \<le> rt_upper th)"

definition row_stat :: "string \<Rightarrow> real list \<Rightarrow> real list \<Rightarrow> real list" where
  "row_stat opt log_ratio msk =
     (if token_level opt then map (k_stat opt) log_ratio else map (\<lambda>_. sequence_stat opt log_ratio msk) log_ratio)"

definition row_keep :: "string \<times> rs_threshold \<Rightarrow> real list \<Rightarrow> real list \<Rightarrow> bool list" where
  "row_keep = (\<lambda>(opt, th) log_ratio msk. map (stat_kept th) (row_stat opt log_ratio msk))"

text \<open>\<open>compute_rs_metrics\<close>.\<close>

definition compute_rs_metrics :: "string \<Rightarrow> tensor \<Rightarrow> tensor \<Rightarrow> bool list \<Rightarrow> bool \<Rightarrow> real list option \<Rightarrow> real \<Rightarrow> real \<Rightarrow> bool
    \<Rightarrow> metrics result" where
  "compute_rs_metrics opt stat msk seq_valid seq_level per_sequence upper lower apply_lower =
     (if \<forall>r \<in> set msk. \<forall>m \<in> set r. m = 0 then Inl (ValueError ''response_mask must contain at least one valid token (1).'')
      else
        (let p = ''rollout_rs_'' @ opt;
             seq_values = (case per_sequence of Some vs \<Rightarrow> vs | None \<Rightarrow> map2 masked_mean1 stat msk);
             valid = map fst (filter snd (zip seq_values seq_valid));
             by_seq = (seq_level \<and> valid \<noteq> []);
             tokens = valid_values stat msk;
             high = (if by_seq then mean_of (map (\<lambda>v. of_flag (v > upper)) valid)
                     else masked_mean (map (map (\<lambda>v. of_flag (v > upper))) stat) msk);
             low = (if \<not> apply_lower then 0
                    else if by_seq then mean_of (map (\<lambda>v. of_flag (v < lower)) valid)
                    else masked_mean (map (map (\<lambda>v. of_flag (v < lower))) stat) msk);
             clamped = map (map (\<lambda>v. min (max v (if apply_lower then lower else 0)) upper)) stat;
             mean = masked_mean clamped msk;
             var = masked_mean (map (map (\<lambda>v. v ^ 2)) clamped) msk - mean ^ 2
         in Inr ([(p @ ''_mean'', masked_mean stat msk),
                  (p @ ''_max'', max_list (if by_seq then valid else tokens)),
                  (p @ ''_min'', min_list_of (if by_seq then valid else tokens)),
                  (p @ ''_fraction_high'', high), (p @ ''_fraction_low'', low),
                  (p @ ''_std'', if tsum msk > 1 then sqrt (max var 0) else 0)]
             @ (if valid \<noteq> []
                then [(p @ ''_seq_mean'', mean_of valid), (p @ ''_seq_std'', if length valid > 1 then std_of valid else 0),
                      (p @ ''_seq_max'', max_list valid), (p @ ''_seq_min'', min_list_of valid),
                      (p @ ''_seq_max_deviation'', max_list (map abs valid)),
                      (p @ ''_seq_fraction_high'', mean_of (map (\<lambda>v. of_flag (v > upper)) valid))]
                  @ (if apply_lower then [(p @ ''_seq_fraction_low'', mean_of (map (\<lambda>v. of_flag (v < lower)) valid))] else [])
                else map (\<lambda>s. (p @ s, 0)) [''_seq_mean'', ''_seq_std'', ''_seq_max'', ''_seq_min'', ''_seq_max_deviation'',
                  ''_seq_fraction_high'', ''_seq_fraction_low'']))))"

definition no_valid :: "tensor \<Rightarrow> bool" where
  "no_valid msk \<longleftrightarrow> (\<forall>r \<in> set msk. \<forall>m \<in> set r. m = 0)"

text \<open>One option of the loop: which tokens pass, and its metrics.\<close>

definition rejection_option :: "tensor \<Rightarrow> tensor \<Rightarrow> string \<times> rs_threshold \<Rightarrow> (bool list list \<times> metrics) result" where
  "rejection_option log_ratio msk = (\<lambda>(opt, th).
     let keep = map2 (row_keep (opt, th)) log_ratio msk;
         k1 = suffix ''k1'' opt;
         seq_valid = map (\<lambda>r. sum_list r > 0) msk
     in bind_r (compute_rs_metrics opt (map2 (row_stat opt) log_ratio msk) msk seq_valid (\<not> token_level opt)
                 (if token_level opt then None else Some (map2 (sequence_stat opt) log_ratio msk))
                 (if k1 then ln (rt_upper th) else rt_upper th) (if k1 then ln (opt_default 1 (rt_lower th)) else 0) k1)
          (\<lambda>ms.
            let p = ''rollout_rs_'' @ opt;
                seq_keep = map2 (\<lambda>k m. \<forall>(b, x) \<in> set (zip k m). b \<or> x = 0) keep msk;
                n = real (length (filter id seq_valid))
            in Inr (keep, ms @ [(p @ ''_masked_fraction'', masked_mean (map (map (\<lambda>b. 1 - of_flag b)) keep) msk),
                 (p @ ''_seq_masked_fraction'',
                  if n > 0 then sum_list (map2 (\<lambda>k v. (1 - of_flag k) * of_flag v) seq_keep seq_valid) / n else 0)])))"

definition ones_like :: "tensor \<Rightarrow> tensor" where
  "ones_like = map (map (\<lambda>_. 1))"

definition compute_rollout_rejection_mask :: "tensor \<Rightarrow> tensor \<Rightarrow> string option \<Rightarrow> threshold option \<Rightarrow> (tensor \<times> metrics) result" where
  "compute_rollout_rejection_mask log_ratio msk rollout_rs spec =
     (case rollout_rs of
        None \<Rightarrow> Inl (ValueError ''rollout_rs must be a non-empty string'')
      | Some rs \<Rightarrow>
          if spec = None then Inl (ValueError ''rollout_rs_threshold must be provided for rejection sampling.'')
          else if log_ratio = [] then Inr (msk, [])
          else if comma_parts rs = [] then Inl (ValueError ''rollout_rs must contain at least one valid option.'')
          else if \<not> set (comma_parts rs) \<subseteq> set supported_rs then Inl (ValueError ''Invalid rollout_rs option'')
          else
            bind_r (parse_rollout_rs_thresholds (first_occurrences (comma_parts rs)) spec) (\<lambda>ths.
            bind_r (map_r (rejection_option log_ratio msk) ths) (\<lambda>outs.
              let final = fold (\<lambda>(keep, _) acc. tmap2 (*) acc (map (map of_flag) keep)) outs (ones_like msk);
                  lost = map2 (\<lambda>f m. \<exists>(x, y) \<in> set (zip f m). \<not> (x > 1 / 2) \<and> y \<noteq> 0) final msk
              in Inr (tmap2 (*) msk final,
                   concat (map snd outs) @ [(''rollout_rs_masked_fraction'', masked_mean (map (map (\<lambda>f. 1 - f)) final) msk),
                     (''rollout_rs_seq_masked_fraction'', mean_of (map of_flag lost))]))))"

section \<open>Importance weights\<close>

text \<open>The mean square of the normalised weights. Its inverse is the effective sample size, a division of Python floats that fails
  on zero.\<close>

definition ess_denominator :: "tensor \<Rightarrow> tensor \<Rightarrow> real \<Rightarrow> real" where
  "ess_denominator weights msk upper =
     (let clamped = map (map (\<lambda>w. min (max w 0) upper)) weights; mean = masked_mean clamped msk
      in masked_mean (map (map (\<lambda>w. (w / (mean + 1 / 10 ^ 8)) ^ 2)) clamped) msk)"

definition compute_is_metrics :: "tensor \<Rightarrow> tensor \<Rightarrow> real list \<Rightarrow> tensor \<Rightarrow> bool \<Rightarrow> real \<Rightarrow> real option \<Rightarrow> metrics result" where
  "compute_is_metrics weights raw seq_log_ratio msk sequence upper lower_opt =
     (if no_valid msk then Inl (ValueError ''response_mask must contain at least one valid token (1).'')
      else if ess_denominator weights msk upper = 0 then Inl ZeroDivisionError
      else
        (let lower = opt_default (1 / upper) lower_opt;
             clamped = map (map (\<lambda>w. min (max w 0) upper)) weights;
             mean = masked_mean clamped msk;
             var = masked_mean (map (map (\<lambda>w. w ^ 2)) clamped) msk - mean ^ 2;
             seq_mean = map2 masked_mean1 weights msk
         in Inr ((if sequence
                  then [(''rollout_is_max'', exp (min (max_list seq_log_ratio) 20)), (''rollout_is_min'', exp (min_list_of seq_log_ratio)),
                        (''rollout_is_mean'', masked_mean weights msk),
                        (''rollout_is_ratio_fraction_high'', mean_of (map (\<lambda>x. of_flag (x > ln upper)) seq_log_ratio)),
                        (''rollout_is_ratio_fraction_low'', mean_of (map (\<lambda>x. of_flag (x < ln lower)) seq_log_ratio))]
                  else [(''rollout_is_mean'', masked_mean weights msk),
                        (''rollout_is_ratio_fraction_high'', masked_mean (map (map (\<lambda>x. of_flag (x > upper))) raw) msk),
                        (''rollout_is_ratio_fraction_low'', masked_mean (map (map (\<lambda>x. of_flag (x < lower))) raw) msk),
                        (''rollout_is_max'', max_list (valid_values weights msk)), (''rollout_is_min'', min_list_of (valid_values weights msk))])
               @ [(''rollout_is_std'', if tsum msk > 1 then sqrt (max var 0) else 0),
                  (''rollout_is_eff_sample_size'', 1 / ess_denominator weights msk upper),
                  (''rollout_is_seq_mean'', mean_of seq_mean), (''rollout_is_seq_std'', if length seq_mean > 1 then std_of seq_mean else 0),
                  (''rollout_is_seq_max'', max_list seq_mean), (''rollout_is_seq_min'', min_list_of seq_mean),
                  (''rollout_is_seq_max_deviation'', max_list (map (\<lambda>w. \<bar>w - 1\<bar>) seq_mean)),
                  (''rollout_is_seq_fraction_high'', mean_of (map (\<lambda>w. of_flag (w > upper)) seq_mean)),
                  (''rollout_is_seq_fraction_low'', mean_of (map (\<lambda>w. of_flag (w < lower)) seq_mean))])))"

definition raw_row :: "bool \<Rightarrow> real list \<Rightarrow> real list \<Rightarrow> real list" where
  "raw_row sequence log_ratio msk =
     map2 (*) (if sequence then map (\<lambda>_. exp (clamp_log (masked_sum1 log_ratio msk))) log_ratio
               else map (\<lambda>x. exp (clamp_log x)) log_ratio) msk"

text \<open>Truncation to an upper bound, or IcePop.\<close>

definition bound_weight :: "real \<Rightarrow> real option \<Rightarrow> real \<Rightarrow> real" where
  "bound_weight upper lower w =
     (case lower of None \<Rightarrow> min w upper | Some l \<Rightarrow> if l \<le> w \<and> w \<le> upper then w else 0)"

definition weights_mean :: "(tensor \<Rightarrow> tensor \<Rightarrow> real) option \<Rightarrow> bool \<Rightarrow> tensor \<Rightarrow> tensor \<Rightarrow> real" where
  "weights_mean reduce sequence weights msk =
     (if sequence
      then (let ws = map2 masked_mean1 weights msk; vs = map (\<lambda>r. of_flag (sum_list r > 0)) msk in
            case reduce of Some f \<Rightarrow> f [ws] [vs]
            | None \<Rightarrow> sum_list (map2 (*) ws vs) / max (sum_list vs) (1 / 10 ^ 8))
      else (case reduce of Some f \<Rightarrow> f weights msk | None \<Rightarrow> masked_mean weights msk))"

definition compute_rollout_correction_weights :: "(tensor \<Rightarrow> tensor \<Rightarrow> real) option \<Rightarrow> tensor \<Rightarrow> tensor \<Rightarrow> string \<Rightarrow> threshold \<Rightarrow> bool
    \<Rightarrow> (tensor \<times> metrics) result" where
  "compute_rollout_correction_weights reduce log_ratio msk rollout_is spec batch_normalize =
     (if rollout_is \<notin> {''token'', ''sequence''} then Inl (ValueError ''Invalid rollout_is'')
      else bind_r (parse_rollout_is_threshold spec) (\<lambda>(upper, lower).
        let sequence = (rollout_is = ''sequence'');
            raw = map2 (raw_row sequence) log_ratio msk;
            weights = map (map (bound_weight upper lower)) raw;
            seq_sums = map2 masked_sum1 log_ratio msk
        in bind_r (compute_is_metrics weights raw seq_sums msk sequence upper lower) (\<lambda>ms.
             let ms = ms @ (case lower of None \<Rightarrow> []
                   | Some l \<Rightarrow> [(''rollout_is_oob_ratio'', masked_mean (map (map (\<lambda>w. of_flag (w < l \<or> w > upper))) raw) msk)]);
                 mean = weights_mean reduce sequence weights msk
             in if \<not> batch_normalize then Inr (weights, ms)
                else if mean > 1 / 10 ^ 8
                then Inr (map (map (\<lambda>w. w / mean)) weights, ms @ [(''rollout_is_batch_norm_factor'', mean)])
                else Inr (weights, ms @ [(''rollout_is_batch_norm_factor'', 1)]))))"

section \<open>The whole correction\<close>

definition compute_offpolicy_metrics :: "tensor \<Rightarrow> tensor option \<Rightarrow> tensor \<Rightarrow> metrics result" where
  "compute_offpolicy_metrics old rollout msk =
     (if no_valid msk then Inl (AssertionError ''Expected at least one valid token in response_mask'')
      else
        (let train = map2 masked_mean1 old msk in
         Inr ([(''training_ppl'', mean_of (map (\<lambda>x. exp (- x)) train)), (''training_log_ppl'', mean_of (map uminus train))]
           @ (case rollout of None \<Rightarrow> []
              | Some r \<Rightarrow>
                  (let log_ratio = tmap2 (-) old r; roll = map2 masked_mean1 r msk; diff = map2 (-) roll train;
                       seq_sums = map2 masked_sum1 log_ratio msk
                   in [(''kl'', masked_mean (tmap2 (-) r old) msk),
                       (''k3_kl'', masked_mean (map (map (\<lambda>x. exp x - x - 1)) log_ratio) msk),
                       (''rollout_ppl'', mean_of (map (\<lambda>x. exp (- x)) roll)), (''rollout_log_ppl'', mean_of (map uminus roll)),
                       (''log_ppl_diff'', mean_of diff), (''log_ppl_abs_diff'', mean_of (map abs diff)),
                       (''log_ppl_diff_max'', max_list diff), (''log_ppl_diff_min'', min_list_of diff),
                       (''ppl_ratio'', mean_of (map exp diff)),
                       (''chi2_token'', masked_mean (map (map (\<lambda>x. exp (clamp_log x) ^ 2)) log_ratio) msk - 1),
                       (''chi2_seq'', mean_of (map (\<lambda>x. exp (2 * clamp_log x)) seq_sums) - 1)])))))"

definition corr_prefix :: "metrics \<Rightarrow> metrics" where
  "corr_prefix = map (\<lambda>(k, v). (''rollout_corr/'' @ k, v))"

definition compute_rollout_correction_and_rejection_mask ::
  "(tensor \<Rightarrow> tensor \<Rightarrow> real) option \<Rightarrow> tensor \<Rightarrow> tensor \<Rightarrow> tensor \<Rightarrow> string option \<Rightarrow> threshold option \<Rightarrow> bool \<Rightarrow> string option
     \<Rightarrow> threshold option \<Rightarrow> (tensor option \<times> tensor \<times> metrics) result" where
  "compute_rollout_correction_and_rejection_mask reduce old rollout msk rollout_is is_spec batch_normalize rollout_rs rs_spec =
     (if no_valid msk then Inl (ValueError ''response_mask must contain at least one valid token (1).'')
      else if \<not> same_shape old rollout then Inl (ValueError ''old_log_prob shape does not match rollout_log_prob shape'')
      else if \<not> same_shape old msk then Inl (ValueError ''log_prob shape does not match response_mask shape'')
      else
        (let log_ratio = tmap2 (-) old rollout in
         bind_r (case (rollout_is, is_spec) of
                   (Some level, Some spec) \<Rightarrow>
                     bind_r (compute_rollout_correction_weights reduce log_ratio msk level spec batch_normalize) (\<lambda>(w, ms). Inr (Some w, ms))
                 | _ \<Rightarrow> Inr (None, []))
           (\<lambda>(weights, is_ms).
             bind_r (case rollout_rs of
                       None \<Rightarrow> Inr (msk, [])
                     | Some rs \<Rightarrow>
                         if rs_spec = None then Inl (ValueError ''rollout_rs_threshold must be explicitly provided'')
                         else compute_rollout_rejection_mask log_ratio msk (Some rs) rs_spec)
               (\<lambda>(msk', rs_ms).
                 bind_r (compute_offpolicy_metrics old (Some rollout) msk) (\<lambda>off_ms.
                   Inr (weights, msk', corr_prefix (is_ms @ rs_ms @ off_ms)))))))"

definition compute_rollout_corr_metrics_from_logprobs :: "tensor \<Rightarrow> tensor \<Rightarrow> tensor \<Rightarrow> metrics result" where
  "compute_rollout_corr_metrics_from_logprobs log_prob rollout msk =
     bind_r (compute_offpolicy_metrics log_prob (Some rollout) msk) (\<lambda>ms. Inr (corr_prefix ms))"

section \<open>The losses of the bypass mode\<close>

definition compute_policy_loss_reinforce ::
  "nat \<Rightarrow> tensor \<Rightarrow> tensor \<Rightarrow> tensor \<Rightarrow> tensor \<Rightarrow> string \<Rightarrow> actor_config option \<Rightarrow> tensor option \<Rightarrow> (real \<times> metrics) result" where
  "compute_policy_loss_reinforce horizon rollout_log_prob log_prob advantages msk mode config weights =
     (case config of
        None \<Rightarrow> Inl (AssertionError ''ActorConfig must be provided for REINFORCE loss'')
      | Some cfg \<Rightarrow>
          bind_r (agg_loss horizon (apply_is_weights weights (tmap2 (\<lambda>a l. - a * l) advantages log_prob)) msk mode
                    (ac_global_batch_info cfg))
            (\<lambda>loss. Inr (loss, [(''actor/ppo_kl'', masked_mean (tmap2 (\<lambda>l r. - (l - r)) log_prob rollout_log_prob) msk)])))"

record correction_config =
  cc_loss_type :: string
  cc_rollout_is :: "string option"
  cc_is_threshold :: "threshold option"
  cc_batch_normalize :: bool
  cc_rollout_rs :: "string option"
  cc_rs_threshold :: "threshold option"

definition metrics_of_pg :: "pg_metrics \<Rightarrow> metrics" where
  "metrics_of_pg pm = [(''actor/pg_clipfrac'', pm_clipfrac pm), (''actor/ppo_kl'', pm_ppo_kl pm),
     (''actor/pg_clipfrac_lower'', pm_clipfrac_lower pm)]"

definition compute_policy_loss_bypass_mode ::
  "(tensor \<Rightarrow> tensor \<Rightarrow> real) option \<Rightarrow> nat \<Rightarrow> tensor \<Rightarrow> tensor \<Rightarrow> tensor \<Rightarrow> tensor \<Rightarrow> string
     \<Rightarrow> (actor_config \<times> correction_config option) option \<Rightarrow> (real \<times> metrics) result" where
  "compute_policy_loss_bypass_mode reduce horizon old_log_prob log_prob advantages msk mode config =
     (case config of
        None \<Rightarrow> Inl (AssertionError ''config is required for bypass_mode loss'')
      | Some (cfg, None) \<Rightarrow> Inl (ValueError ''rollout_correction config not found in policy_loss.'')
      | Some (cfg, Some cc) \<Rightarrow>
          bind_r (compute_rollout_correction_and_rejection_mask reduce log_prob old_log_prob msk (cc_rollout_is cc) (cc_is_threshold cc)
                    (cc_batch_normalize cc) (cc_rollout_rs cc) (cc_rs_threshold cc))
            (\<lambda>(weights, msk', rollout_metrics).
              bind_r (if cc_loss_type cc = ''reinforce''
                      then compute_policy_loss_reinforce horizon old_log_prob log_prob advantages msk' mode (Some cfg) weights
                      else if cc_loss_type cc = ''ppo_clip''
                      then bind_r (compute_policy_loss_vanilla horizon old_log_prob log_prob advantages msk' mode (Some cfg) None)
                             (\<lambda>(loss, pm). Inr (loss, metrics_of_pg pm))
                      else Inl (ValueError ''Invalid loss_type''))
                (\<lambda>(loss, pg_metrics). Inr (loss, pg_metrics @ rollout_metrics))))"

section \<open>Facts about thresholds and tensors\<close>

lemma parse_is_threshold_ok:
  "parse_rollout_is_threshold spec = Inr (u, l) \<Longrightarrow> 0 < u \<and> (\<forall>x. l = Some x \<longrightarrow> 0 < x \<and> x \<le> u)"
  by (auto simp: parse_rollout_is_threshold_def split: if_splits option.splits threshold.splits)

lemma option_threshold_ok:
  "option_threshold opt s = Inr th \<Longrightarrow> 0 < rt_upper th \<and> (rt_lower th = None \<longleftrightarrow> \<not> suffix ''k1'' opt)
     \<and> (\<forall>l. rt_lower th = Some l \<longrightarrow> 0 < l)"
  by (auto simp: option_threshold_def split: if_splits)

lemma parse_rs_thresholds_ok:
  assumes "parse_rollout_rs_thresholds options spec = Inr ths" "(opt, th) \<in> set ths"
  shows "0 < rt_upper th \<and> (rt_lower th = None \<longleftrightarrow> \<not> suffix ''k1'' opt) \<and> (\<forall>l. rt_lower th = Some l \<longrightarrow> 0 < l)"
proof -
  have "\<forall>(opt, th) \<in> set ys. \<exists>s. option_threshold opt s = Inr th"
    if "map_r (\<lambda>(opt, s). bind_r (option_threshold opt s) (\<lambda>t. Inr (opt, t))) xs = Inr ys" for xs ys
    using that by (induction xs arbitrary: ys) auto
  then obtain s where "option_threshold opt s = Inr th"
    using assms by (fastforce simp: parse_rollout_rs_thresholds_def split: if_splits)
  then show ?thesis by (rule option_threshold_ok)
qed

lemma length_row_stat [simp]: "length (row_stat opt lr m) = length lr"
  by (simp add: row_stat_def)

text \<open>The product of the passing flags of all options.\<close>

lemma fold_keep:
  assumes "\<forall>keep \<in> set keeps. same_shape keep msk" "same_shape acc msk"
  shows "same_shape (fold (\<lambda>keep acc. tmap2 (*) acc (map (map of_flag) keep)) keeps acc) msk
    \<and> (\<forall>i < length msk. \<forall>j < length (msk ! i).
        fold (\<lambda>keep acc. tmap2 (*) acc (map (map of_flag) keep)) keeps acc ! i ! j
          = (if \<forall>keep \<in> set keeps. keep ! i ! j then acc ! i ! j else 0))"
  using assms
proof (induction keeps arbitrary: acc)
  case (Cons keep keeps)
  let ?acc = "tmap2 (*) acc (map (map of_flag) keep)"
  have flags: "same_shape (map (map of_flag) keep) msk" using Cons.prems(1) by (simp add: same_shape_map)
  have sh: "same_shape acc (map (map of_flag) keep)" using Cons.prems(2) same_shape_sym [OF flags] same_shape_trans by blast
  have "same_shape ?acc msk" using same_shape_tmap2 [OF sh] flags same_shape_trans by blast
  moreover have "?acc ! i ! j = (if keep ! i ! j then acc ! i ! j else 0)" if "i < length msk" "j < length (msk ! i)" for i j
  proof -
    have "length keep = length msk" "length (keep ! i) = length (msk ! i)"
      using same_shape_nth [OF same_shape_sym, of msk keep] Cons.prems(1) that(1) by (auto simp: same_shape_sym)
    then show ?thesis using entry_tmap2 [OF sh, of i j "(*)"] that by (simp add: of_flag_def)
  qed
  ultimately show ?case using Cons.IH [of ?acc] Cons.prems(1) by auto
qed simp

lemma rejection_option_keep:
  "rejection_option lr msk (opt, th) = Inr (keep, ms) \<Longrightarrow> keep = map2 (\<lambda>r m. map (stat_kept th) (row_stat opt r m)) lr msk"
  by (auto simp: rejection_option_def Let_def row_keep_def)

lemma rejection_run:
  assumes "compute_rollout_rejection_mask lr msk (Some rs) (Some spec) = Inr (msk', ms)" "lr \<noteq> []"
  obtains ths outs where "parse_rollout_rs_thresholds (first_occurrences (comma_parts rs)) (Some spec) = Inr ths"
    and "map_r (rejection_option lr msk) ths = Inr outs"
    and "msk' = tmap2 (*) msk (fold (\<lambda>keep acc. tmap2 (*) acc (map (map of_flag) keep)) (map fst outs) (ones_like msk))"
proof -
  have fm: "fold (\<lambda>(keep, _) acc. tmap2 (*) acc (map (map of_flag) keep)) xs a
      = fold (\<lambda>keep acc. tmap2 (*) acc (map (map of_flag) keep)) (map fst xs) a" for xs :: "(bool list list \<times> metrics) list" and a
    by (induction xs arbitrary: a) auto
  show ?thesis using assms that
    by (auto simp: compute_rollout_rejection_mask_def Let_def fm split: if_splits)
qed

lemma rejection_supported:
  assumes "compute_rollout_rejection_mask lr msk (Some rs) (Some spec) = Inr (msk', ms)" "lr \<noteq> []"
  shows "set (comma_parts rs) \<subseteq> set supported_rs"
  using assms by (auto simp: compute_rollout_rejection_mask_def split: if_splits)

lemma parse_rs_options:
  assumes "parse_rollout_rs_thresholds options spec = Inr ths"
  shows "fst ` set ths \<subseteq> set options"
proof -
  have keep: "map fst ys = map fst xs" if "map_r (\<lambda>(opt, s). bind_r (option_threshold opt s) (\<lambda>t. Inr (opt, t))) xs = Inr ys" for xs ys
    using that by (induction xs arbitrary: ys) auto
  obtain zs :: "(real + string) list" where
    "map_r (\<lambda>(opt, s). bind_r (option_threshold opt s) (\<lambda>t. Inr (opt, t))) (zip options zs) = Inr ths"
    using assms by (auto simp: parse_rollout_rs_thresholds_def split: if_splits)
  from keep [OF this] have "set (map fst ths) \<subseteq> set options" by (auto dest: set_zip_leftD)
  then show ?thesis by simp
qed

lemma keeps_of_options:
  assumes "map_r (rejection_option lr msk) ths = Inr outs"
  shows "map fst outs = map (\<lambda>(opt, th). map2 (\<lambda>r m. map (stat_kept th) (row_stat opt r m)) lr msk) ths"
  using assms by (induction ths arbitrary: outs) (auto dest: rejection_option_keep)

lemma rejection_mask_entries:
  assumes run: "compute_rollout_rejection_mask lr msk (Some rs) (Some spec) = Inr (msk', ms)" "lr \<noteq> []" and sh: "same_shape lr msk"
  shows "\<exists>ths. parse_rollout_rs_thresholds (first_occurrences (comma_parts rs)) (Some spec) = Inr ths \<and> same_shape msk' msk
    \<and> (\<forall>i < length msk. \<forall>j < length (msk ! i). msk' ! i ! j
        = (if \<forall>(opt, th) \<in> set ths. stat_kept th (row_stat opt (lr ! i) (msk ! i) ! j) then msk ! i ! j else 0))
    \<and> ((\<forall>(opt, th) \<in> set ths. \<not> token_level opt) \<longrightarrow> (\<forall>i < length msk. msk' ! i = msk ! i \<or> (\<forall>x \<in> set (msk' ! i). x = 0)))"
proof -
  obtain ths outs where ths: "parse_rollout_rs_thresholds (first_occurrences (comma_parts rs)) (Some spec) = Inr ths"
    and outs: "map_r (rejection_option lr msk) ths = Inr outs"
    and msk': "msk' = tmap2 (*) msk (fold (\<lambda>keep acc. tmap2 (*) acc (map (map of_flag) keep)) (map fst outs) (ones_like msk))"
    by (rule rejection_run [OF run])
  let ?keep = "\<lambda>(opt, th). map2 (\<lambda>r m. map (stat_kept th) (row_stat opt r m)) lr msk"
  have keeps: "map fst outs = map ?keep ths" by (rule keeps_of_options [OF outs])
  have shk: "same_shape (?keep x) msk" for x
    by (cases x) (auto intro!: same_shape_map2 [OF sh])
  have ones: "same_shape (ones_like msk) msk" "i < length msk \<Longrightarrow> j < length (msk ! i) \<Longrightarrow> ones_like msk ! i ! j = 1" for i j
    by (simp_all add: ones_like_def same_shape_map same_shape_def)
  let ?final = "fold (\<lambda>keep acc. tmap2 (*) acc (map (map of_flag) keep)) (map fst outs) (ones_like msk)"
  have final: "same_shape ?final msk" "\<And>i j. i < length msk \<Longrightarrow> j < length (msk ! i) \<Longrightarrow>
      ?final ! i ! j = (if \<forall>x \<in> set ths. ?keep x ! i ! j then 1 else 0)"
    using fold_keep [of "map fst outs" msk "ones_like msk"] shk ones unfolding keeps by auto
  have shape: "same_shape msk' msk" unfolding msk'
    using same_shape_tmap2 [OF same_shape_sym [OF final(1)]] final(1) same_shape_trans by blast
  have entry: "msk' ! i ! j = (if \<forall>(opt, th) \<in> set ths. stat_kept th (row_stat opt (lr ! i) (msk ! i) ! j) then msk ! i ! j else 0)"
    if ij: "i < length msk" "j < length (msk ! i)" for i j
  proof -
    have "?keep (opt, th) ! i ! j = stat_kept th (row_stat opt (lr ! i) (msk ! i) ! j)" for opt th
      using ij same_shape_nth [OF sh] by simp
    then have "(\<forall>x \<in> set ths. ?keep x ! i ! j) \<longleftrightarrow> (\<forall>(opt, th) \<in> set ths. stat_kept th (row_stat opt (lr ! i) (msk ! i) ! j))"
      by (intro ball_cong) auto
    moreover have "msk' ! i ! j = msk ! i ! j * ?final ! i ! j"
      unfolding msk' using entry_tmap2 [OF same_shape_sym [OF final(1)], of i j "(*)"] same_shape_nth [OF final(1)] ij by simp
    ultimately show ?thesis using final(2) [OF ij] by simp
  qed
  have whole: "msk' ! i = msk ! i \<or> (\<forall>x \<in> set (msk' ! i). x = 0)"
    if i: "i < length msk" and seq: "\<forall>(opt, th) \<in> set ths. \<not> token_level opt" for i
  proof -
    let ?ok = "\<forall>(opt, th) \<in> set ths. stat_kept th (sequence_stat opt (lr ! i) (msk ! i))"
    have "(\<forall>(opt, th) \<in> set ths. stat_kept th (row_stat opt (lr ! i) (msk ! i) ! j)) = ?ok" if "j < length (msk ! i)" for j
      using seq that i same_shape_nth [OF sh] by (intro ball_cong) (auto simp: row_stat_def)
    then have "msk' ! i ! j = (if ?ok then msk ! i ! j else 0)" if "j < length (msk ! i)" for j
      using entry [OF i that] that by simp
    moreover have "length (msk' ! i) = length (msk ! i)" using same_shape_nth [OF same_shape_sym [OF shape]] i by metis
    ultimately show ?thesis by (cases ?ok) (auto simp: in_set_conv_nth intro: nth_equalityI)
  qed
  show ?thesis using ths shape entry whole by blast
qed

text \<open>
  The specification: an option names a scope and an estimator of the divergence, both in terms of the ratios \<open>\<rho>\<close> of the training to
  the rollout probability (their logarithms are cut at 20). The estimators are the usual \<open>k1 = - ln \<rho>\<close>,
  \<open>k2 = (ln \<rho>)\<^sup>2 / 2\<close> and \<open>k3 = \<rho> - 1 - ln \<rho>\<close>. The \<open>k1\<close> options have two thresholds, for \<open>exp k1\<close>, that is for \<open>1 / \<rho>\<close>.
\<close>

datatype rs_scope = EachToken | SeqSum | SeqMean | SeqMax

datatype rs_estimator = K1 | K2 | K3

definition rs_meaning :: "(string \<times> rs_scope \<times> rs_estimator) list" where
  "rs_meaning =
     [(''token_k1'', EachToken, K1), (''token_k2'', EachToken, K2), (''token_k3'', EachToken, K3),
      (''seq_sum_k1'', SeqSum, K1), (''seq_sum_k2'', SeqSum, K2), (''seq_sum_k3'', SeqSum, K3),
      (''seq_mean_k1'', SeqMean, K1), (''seq_mean_k2'', SeqMean, K2), (''seq_mean_k3'', SeqMean, K3),
      (''seq_max_k2'', SeqMax, K2), (''seq_max_k3'', SeqMax, K3)]"

fun estimate :: "rs_estimator \<Rightarrow> real \<Rightarrow> real" where
  "estimate K1 \<rho> = - ln \<rho>"
| "estimate K2 \<rho> = (ln \<rho>)\<^sup>2 / 2"
| "estimate K3 \<rho> = \<rho> - 1 - ln \<rho>"

text \<open>The estimate of a scope: of the token, or over the live ratios of the sequence (the mean with the code's \<open>1e-8\<close> in the
  denominator).\<close>

fun scope_estimate :: "rs_scope \<Rightarrow> rs_estimator \<Rightarrow> real \<Rightarrow> real list \<Rightarrow> real" where
  "scope_estimate EachToken k \<rho> rs = estimate k \<rho>"
| "scope_estimate SeqSum k \<rho> rs = sum_list (map (estimate k) rs)"
| "scope_estimate SeqMean k \<rho> rs = sum_list (map (estimate k) rs) / (real (length rs) + 1 / 10 ^ 8)"
| "scope_estimate SeqMax k \<rho> rs = (if rs = [] then 0 else Max (estimate k ` set rs))"

definition rs_accepts :: "string \<times> rs_threshold \<Rightarrow> real list \<Rightarrow> real list \<Rightarrow> nat \<Rightarrow> bool" where
  "rs_accepts = (\<lambda>(opt, th) log_ratio msk j.
     (let ratios = map (\<lambda>x. exp (max (- 20) (min 20 x))) log_ratio; (scope, k) = the (map_of rs_meaning opt);
          d = scope_estimate scope k (ratios ! j) (valid1 ratios msk)
      in if k = K1 then the (rt_lower th) \<le> exp d \<and> exp d \<le> rt_upper th else d \<le> rt_upper th))"

lemma max_list_Max: "xs \<noteq> [] \<Longrightarrow> max_list xs = Max (set xs)"
proof -
  have "foldr max ys (x :: real) = Max (insert x (set ys))" for x ys
    by (induction ys) (simp_all add: insert_commute)
  then show "xs \<noteq> [] \<Longrightarrow> max_list xs = Max (set xs)" by (cases xs) (simp_all add: max_list_def)
qed

lemma clamp_log_alt: "clamp_log x = max (- 20) (min 20 x)"
  by (auto simp: clamp_log_def clamp_def)

lemma masked_sum1_valid:
  assumes "\<forall>m \<in> set msk. m = 0 \<or> m = 1"
  shows "masked_sum1 values msk = sum_list (valid1 values msk)"
  using assms
proof (induction "values" arbitrary: msk)
  case (Cons v "values")
  then show ?case by (cases msk) (auto simp: masked_sum1_def valid1_def)
qed (simp add: masked_sum1_def valid1_def)

lemma length_valid1:
  assumes "\<forall>m \<in> set msk. m = 0 \<or> m = (1 :: real)" "length values = length msk"
  shows "sum_list msk = real (length (valid1 values msk))"
  using assms(2,1) by (induction "values" msk rule: list_induct2) (auto simp: valid1_def)

lemma valid1_map: "valid1 (map f xs) msk = map f (valid1 xs msk)"
  by (simp add: valid1_def zip_map1 filter_map comp_def split_def)

lemma k_stat_estimate: "k_stat opt x = estimate (if suffix ''k1'' opt then K1 else if suffix ''k2'' opt then K2 else K3) (exp (clamp_log x))"
  by (simp add: k_stat_def Let_def)

lemma row_stat_scope:
  assumes "opt \<in> set supported_rs" "length lr = length msk" "j < length msk" "\<forall>m \<in> set msk. m = 0 \<or> m = 1"
  shows "\<exists>scope k. map_of rs_meaning opt = Some (scope, k) \<and> (k = K1 \<longleftrightarrow> suffix ''k1'' opt)
    \<and> row_stat opt lr msk ! j = scope_estimate scope k (exp (clamp_log (lr ! j))) (valid1 (map (\<lambda>x. exp (clamp_log x)) lr) msk)"
proof -
  let ?live = "valid1 (map (\<lambda>x. exp (clamp_log x)) lr) msk"
  have v: "valid1 (map (k_stat opt) lr) msk = map (estimate k) ?live"
    if "k = (if suffix ''k1'' opt then K1 else if suffix ''k2'' opt then K2 else K3)" for k
    unfolding valid1_map map_map comp_def k_stat_estimate that ..
  have n: "sum_list msk = real (length ?live)" using length_valid1 [OF assms(4), of "map (\<lambda>x. exp (clamp_log x)) lr"] assms(2) by simp
  have t: "row_stat opt lr msk ! j = scope_estimate EachToken k (exp (clamp_log (lr ! j))) ?live"
    if "token_level opt" "k = (if suffix ''k1'' opt then K1 else if suffix ''k2'' opt then K2 else K3)" for k
    using that assms(2,3) by (simp add: row_stat_def k_stat_estimate)
  have s: "row_stat opt lr msk ! j = scope_estimate SeqSum k (exp (clamp_log (lr ! j))) ?live"
    if "\<not> token_level opt" "prefix ''seq_sum'' opt" "k = (if suffix ''k1'' opt then K1 else if suffix ''k2'' opt then K2 else K3)" for k
    using that(1,2) assms(2,3) by (simp add: row_stat_def sequence_stat_def masked_sum1_valid [OF assms(4)] v [OF that(3)])
  have a: "row_stat opt lr msk ! j = scope_estimate SeqMean k (exp (clamp_log (lr ! j))) ?live"
    if "\<not> token_level opt" "\<not> prefix ''seq_sum'' opt" "prefix ''seq_mean'' opt"
      "k = (if suffix ''k1'' opt then K1 else if suffix ''k2'' opt then K2 else K3)" for k
    using that(1-3) assms(2,3)
    by (simp add: row_stat_def sequence_stat_def masked_mean1_def masked_sum1_valid [OF assms(4)] v [OF that(4)] n)
  have m: "row_stat opt lr msk ! j = scope_estimate SeqMax k (exp (clamp_log (lr ! j))) ?live"
    if "\<not> token_level opt" "\<not> prefix ''seq_sum'' opt" "\<not> prefix ''seq_mean'' opt"
      "k = (if suffix ''k1'' opt then K1 else if suffix ''k2'' opt then K2 else K3)" for k
    using that(1-3) assms(2,3) by (simp add: row_stat_def sequence_stat_def sequence_max_def v [OF that(4)] max_list_Max)
  have "opt = ''token_k1'' \<or> opt = ''token_k2'' \<or> opt = ''token_k3'' \<or> opt = ''seq_sum_k1'' \<or> opt = ''seq_sum_k2'' \<or> opt = ''seq_sum_k3''
    \<or> opt = ''seq_mean_k1'' \<or> opt = ''seq_mean_k2'' \<or> opt = ''seq_mean_k3'' \<or> opt = ''seq_max_k2'' \<or> opt = ''seq_max_k3''"
    using assms(1) by (simp only: supported_rs_def list.set insert_iff empty_iff simp_thms)
  then show ?thesis
    by (elim disjE)
      (use t s a m in \<open>simp add: rs_meaning_def token_level_def suffix_def del: scope_estimate.simps\<close>)+
qed

lemma stat_kept_accepts:
  assumes "opt \<in> set supported_rs" "length lr = length msk" "j < length msk" "\<forall>m \<in> set msk. m = 0 \<or> m = 1"
    and th: "0 < rt_upper th \<and> (rt_lower th = None \<longleftrightarrow> \<not> suffix ''k1'' opt) \<and> (\<forall>l. rt_lower th = Some l \<longrightarrow> 0 < l)"
  shows "stat_kept th (row_stat opt lr msk ! j) \<longleftrightarrow> rs_accepts (opt, th) lr msk j"
proof -
  obtain scope k where k: "map_of rs_meaning opt = Some (scope, k)" "k = K1 \<longleftrightarrow> suffix ''k1'' opt"
    and st: "row_stat opt lr msk ! j = scope_estimate scope k (exp (clamp_log (lr ! j))) (valid1 (map (\<lambda>x. exp (clamp_log x)) lr) msk)"
    using row_stat_scope [OF assms(1-4)] by blast
  have logs: "ln l \<le> d \<longleftrightarrow> l \<le> exp d" "d \<le> ln l \<longleftrightarrow> exp d \<le> l" if "0 < l" for l d :: real
    using that by (metis exp_le_cancel_iff exp_ln)+
  show ?thesis
    unfolding rs_accepts_def st prod.case k(1) option.sel Let_def
    using k(2) th assms(2,3) by (auto simp: stat_kept_def logs clamp_log_alt split: option.splits)
qed

text \<open>
  [C33] The rejection mask, for a 0/1 mask of the shape of the log ratios: a token stays exactly when it is valid and every listed option
  accepts it or its sequence, in the sense of \<open>rs_accepts\<close>: the textbook estimators k1, k2 and k3 of the ratio, of the token
  or summed, averaged or maximised over the valid tokens of the sequence, at most the upper threshold, and for k1, whose exponential is the
  inverse ratio, between two thresholds. (The documentation says the k1 thresholds bound the ratio itself; they bound its
  inverse.) Nothing else changes. When all options are on sequences, a sequence stays or goes as a whole.
\<close>

theorem rejection_mask_correct:
  assumes run: "compute_rollout_rejection_mask lr msk (Some rs) (Some spec) = Inr (msk', ms)" "lr \<noteq> []"
    and sh: "same_shape lr msk" and m01: "mask01 msk"
  shows "\<exists>ths. parse_rollout_rs_thresholds (first_occurrences (comma_parts rs)) (Some spec) = Inr ths \<and> same_shape msk' msk
    \<and> (\<forall>i < length msk. \<forall>j < length (msk ! i). msk' ! i ! j
        = (if \<forall>x \<in> set ths. rs_accepts x (lr ! i) (msk ! i) j then msk ! i ! j else 0))
    \<and> ((\<forall>(opt, th) \<in> set ths. opt \<notin> {''token_k1'', ''token_k2'', ''token_k3''}) \<longrightarrow>
        (\<forall>i < length msk. msk' ! i = msk ! i \<or> (\<forall>x \<in> set (msk' ! i). x = 0)))"
proof -
  obtain ths where ths: "parse_rollout_rs_thresholds (first_occurrences (comma_parts rs)) (Some spec) = Inr ths" "same_shape msk' msk"
    and entry: "\<And>i j. i < length msk \<Longrightarrow> j < length (msk ! i) \<Longrightarrow> msk' ! i ! j
        = (if \<forall>(opt, th) \<in> set ths. stat_kept th (row_stat opt (lr ! i) (msk ! i) ! j) then msk ! i ! j else 0)"
    and whole: "(\<forall>(opt, th) \<in> set ths. \<not> token_level opt) \<longrightarrow> (\<forall>i < length msk. msk' ! i = msk ! i \<or> (\<forall>x \<in> set (msk' ! i). x = 0))"
    using rejection_mask_entries [OF run sh] by blast
  have sup: "opt \<in> set supported_rs" if "(opt, th) \<in> set ths" for opt th
    using rejection_supported [OF run] subsetD [OF parse_rs_options [OF ths(1)] imageI [OF that]]
    by (auto simp: first_occurrences_def)
  have "(\<forall>(opt, th) \<in> set ths. stat_kept th (row_stat opt (lr ! i) (msk ! i) ! j)) \<longleftrightarrow> (\<forall>x \<in> set ths. rs_accepts x (lr ! i) (msk ! i) j)"
    if ij: "i < length msk" "j < length (msk ! i)" for i j
  proof (rule ball_cong [OF refl])
    fix x assume x: "x \<in> set ths"
    obtain opt th where e: "x = (opt, th)" by (cases x)
    have len: "length (lr ! i) = length (msk ! i)" using same_shape_nth [OF same_shape_sym [OF sh]] ij(1) by auto
    have m: "\<forall>m \<in> set (msk ! i). m = 0 \<or> m = 1" using m01 ij(1) by (auto simp: mask01_def list_all_iff)
    show "(case x of (opt, th) \<Rightarrow> stat_kept th (row_stat opt (lr ! i) (msk ! i) ! j)) = rs_accepts x (lr ! i) (msk ! i) j"
      unfolding e prod.case
      by (rule stat_kept_accepts [OF sup len ij(2) m parse_rs_thresholds_ok [OF ths(1)]]) (use x e in simp_all)
  qed
  then show ?thesis using ths entry whole by (intro exI [of _ ths]) (simp add: token_level_def)
qed

text \<open>The k1 options bound the inverse of the ratio that the specification names.\<close>

lemma k1_bounds_inverse_ratio:
  assumes "suffix ''k1'' opt" "rt_lower th = Some l" "0 < l" "0 < rt_upper th" "\<bar>x\<bar> \<le> 20"
  shows "stat_kept th (k_stat opt x) \<longleftrightarrow> 1 / rt_upper th \<le> exp x \<and> exp x \<le> 1 / l"
proof -
  have "clamp_log x = x" using assms(5) by (auto simp: clamp_log_def clamp_def)
  then have "stat_kept th (k_stat opt x) \<longleftrightarrow> ln l \<le> - x \<and> - x \<le> ln (rt_upper th)"
    using assms(1,2) by (simp add: stat_kept_def k_stat_def)
  also have "ln l \<le> - x \<longleftrightarrow> exp (ln l) \<le> exp (- x)" by (simp only: exp_le_cancel_iff)
  also have "\<dots> \<longleftrightarrow> exp x \<le> 1 / l" using assms(3) by (simp add: exp_minus field_simps)
  also have "- x \<le> ln (rt_upper th) \<longleftrightarrow> exp (- x) \<le> exp (ln (rt_upper th))" by (simp only: exp_le_cancel_iff)
  also have "\<dots> \<longleftrightarrow> 1 / rt_upper th \<le> exp x" using assms(4) by (simp add: exp_minus field_simps)
  finally show ?thesis by auto
qed

section \<open>Bounds of the importance weights\<close>

lemma length_raw_row: "length lr = length m \<Longrightarrow> length (raw_row sequence lr m) = length m"
  by (simp add: raw_row_def)

lemma raw_weight_entry:
  assumes "same_shape lr msk" "mask01 msk" "0 < upper" "\<forall>l. lower = Some l \<longrightarrow> 0 < l" "i < length msk" "j < length (msk ! i)"
  shows "map (map (bound_weight upper lower)) (map2 (raw_row sequence) lr msk) ! i ! j = (if msk ! i ! j = 0 then 0
      else bound_weight upper lower (exp (clamp_log (if sequence then masked_sum1 (lr ! i) (msk ! i) else lr ! i ! j))))"
proof -
  have len: "length lr = length msk" "length (lr ! i) = length (msk ! i)"
    using same_shape_nth [OF same_shape_sym [OF assms(1)]] assms(5) by auto
  have "msk ! i ! j = 0 \<or> msk ! i ! j = 1" using assms(2,5,6) by (auto simp: mask01_def list_all_length)
  moreover have "map (map (bound_weight upper lower)) (map2 (raw_row sequence) lr msk) ! i ! j
      = bound_weight upper lower (raw_row sequence (lr ! i) (msk ! i) ! j)"
    using assms(5,6) len by (simp add: length_raw_row)
  moreover have "bound_weight upper lower 0 = 0" using assms(3,4) by (auto simp: bound_weight_def split: option.splits)
  ultimately show ?thesis using assms(5,6) len by (auto simp: raw_row_def)
qed

lemma weights_shape: "same_shape lr msk \<Longrightarrow> same_shape (map (map g) (map2 (raw_row sequence) lr msk)) msk"
  by (simp only: same_shape_map) (rule same_shape_map2, assumption, rule length_raw_row)

lemma is_weights_entries:
  assumes run: "compute_rollout_correction_weights reduce lr msk level spec False = Inr (w, ms)"
    and sh: "same_shape lr msk" and m01: "mask01 msk"
  shows "\<exists>upper lower. parse_rollout_is_threshold spec = Inr (upper, lower) \<and> same_shape w msk
    \<and> (\<forall>i < length msk. \<forall>j < length (msk ! i).
        0 \<le> w ! i ! j \<and> w ! i ! j \<le> upper \<and> (\<forall>l. lower = Some l \<longrightarrow> w ! i ! j = 0 \<or> l \<le> w ! i ! j)
        \<and> w ! i ! j = (if msk ! i ! j = 0 then 0
            else bound_weight upper lower (exp (clamp_log (if level = ''sequence'' then masked_sum1 (lr ! i) (msk ! i) else lr ! i ! j)))))"
proof -
  obtain upper lower where p: "parse_rollout_is_threshold spec = Inr (upper, lower)"
    and w: "w = map (map (bound_weight upper lower)) (map2 (raw_row (level = ''sequence'')) lr msk)"
    using run by (auto simp: compute_rollout_correction_weights_def Let_def split: if_splits)
  have ok: "0 < upper" "\<And>l. lower = Some l \<Longrightarrow> 0 < l \<and> l \<le> upper" using parse_is_threshold_ok [OF p] by auto
  have shape: "same_shape w msk" unfolding w by (rule weights_shape [OF sh])
  note entry = raw_weight_entry [OF sh m01 ok(1), of lower _ _ "level = ''sequence''", folded w]
  have "0 \<le> bound_weight upper lower (exp x) \<and> bound_weight upper lower (exp x) \<le> upper
      \<and> (\<forall>l. lower = Some l \<longrightarrow> bound_weight upper lower (exp x) = 0 \<or> l \<le> bound_weight upper lower (exp x))" for x
    using ok by (auto simp: bound_weight_def split: option.splits)
  then show ?thesis using p shape entry ok(1) using entry ok by (intro exI conjI allI impI) (auto simp: less_imp_le)
qed

text \<open>Normalised token weights have mean 1.\<close>

lemma masked_sum1_divide: "masked_sum1 (map (\<lambda>x. x / c) v) m = masked_sum1 v m / c"
proof (induction v arbitrary: m)
  case (Cons x v)
  then show ?case by (cases m) (auto simp: masked_sum1_def add_divide_distrib)
qed (simp add: masked_sum1_def)

lemma masked_mean_divide: "masked_mean (map (map (\<lambda>x. x / c)) v) m = masked_mean v m / c"
proof -
  have "masked_sum (map (map (\<lambda>x. x / c)) v) m = masked_sum v m / c"
  proof (induction v arbitrary: m)
    case (Cons r v)
    then show ?case using masked_sum1_divide [of c r]
      by (cases m) (auto simp: masked_sum_def tsum_def masked_sum1_def add_divide_distrib)
  qed (simp add: masked_sum_def tsum_def)
  then show ?thesis by (simp add: masked_mean_def)
qed

lemma normalised_mean_one: "masked_mean v m \<noteq> 0 \<Longrightarrow> masked_mean (map (map (\<lambda>x. x / masked_mean v m)) v) m = 1"
  by (simp add: masked_mean_divide)

text \<open>Batch normalisation divides the bounded weights by their mean.\<close>

lemma normalised_weights:
  assumes "compute_rollout_correction_weights reduce lr msk level spec batch_normalize = Inr (w, ms)"
  shows "\<exists>v ms'. compute_rollout_correction_weights reduce lr msk level spec False = Inr (v, ms')
    \<and> w = (let mean = weights_mean reduce (level = ''sequence'') v msk in
        if batch_normalize \<and> mean > 1 / 10 ^ 8 then map (map (\<lambda>x. x / mean)) v else v)"
  using assms by (auto simp: compute_rollout_correction_weights_def Let_def split: if_splits)

text \<open>
  [C34] Importance weights, for a 0/1 mask of the shape of the log ratios. The weights are bounded ones, divided by a constant \<open>c\<close>. A bounded
  weight is the ratio of its token or sequence, between \<open>exp (-20)\<close> and \<open>exp 20\<close>, truncated to the upper threshold or, with a
  lower threshold, dropped outside the two; it is between 0 and the upper threshold, and 0 on padding. Without batch normalisation \<open>c\<close>
  is 1. With it \<open>c\<close> is the mean of the bounded weights, unless that is (almost) 0, so the result may exceed the threshold; on token level,
  and without a reduction over ranks, its mean is 1.
\<close>

theorem is_weights_bounded:
  assumes run: "compute_rollout_correction_weights reduce lr msk level spec batch_normalize = Inr (w, ms)"
    and sh: "same_shape lr msk" and m01: "mask01 msk"
  shows "\<exists>upper lower v c. parse_rollout_is_threshold spec = Inr (upper, lower) \<and> same_shape w msk \<and> same_shape v msk
    \<and> (\<forall>i < length msk. \<forall>j < length (msk ! i). w ! i ! j = v ! i ! j / c
        \<and> 0 \<le> v ! i ! j \<and> v ! i ! j \<le> upper \<and> (\<forall>l. lower = Some l \<longrightarrow> v ! i ! j = 0 \<or> l \<le> v ! i ! j)
        \<and> v ! i ! j = (if msk ! i ! j = 0 then 0
            else bound_weight upper lower (exp (clamp_log (if level = ''sequence'' then masked_sum1 (lr ! i) (msk ! i) else lr ! i ! j)))))
    \<and> c = (if batch_normalize \<and> weights_mean reduce (level = ''sequence'') v msk > 1 / 10 ^ 8
           then weights_mean reduce (level = ''sequence'') v msk else 1)
    \<and> (batch_normalize \<and> reduce = None \<and> level = ''token'' \<and> masked_mean v msk > 1 / 10 ^ 8 \<longrightarrow> masked_mean w msk = 1)"
proof -
  let ?mean = "\<lambda>v. weights_mean reduce (level = ''sequence'') v msk"
  obtain v ms' where v: "compute_rollout_correction_weights reduce lr msk level spec False = Inr (v, ms')"
    and w: "w = (if batch_normalize \<and> ?mean v > 1 / 10 ^ 8 then map (map (\<lambda>x. x / ?mean v)) v else v)"
    using normalised_weights [OF run] unfolding Let_def by blast
  from is_weights_entries [OF v sh m01] obtain upper lower where p: "parse_rollout_is_threshold spec = Inr (upper, lower)"
    and shv: "same_shape v msk"
    and entry: "\<And>i j. i < length msk \<Longrightarrow> j < length (msk ! i) \<Longrightarrow>
        0 \<le> v ! i ! j \<and> v ! i ! j \<le> upper \<and> (\<forall>l. lower = Some l \<longrightarrow> v ! i ! j = 0 \<or> l \<le> v ! i ! j)
        \<and> v ! i ! j = (if msk ! i ! j = 0 then 0
            else bound_weight upper lower (exp (clamp_log (if level = ''sequence'' then masked_sum1 (lr ! i) (msk ! i) else lr ! i ! j))))"
    by blast
  define c where "c = (if batch_normalize \<and> ?mean v > 1 / 10 ^ 8 then ?mean v else 1)"
  have wc: "w = map (map (\<lambda>x. x / c)) v" unfolding w c_def by simp
  have shw: "same_shape w msk" unfolding wc same_shape_map by (rule shv)
  have div: "w ! i ! j = v ! i ! j / c" if "i < length msk" "j < length (msk ! i)" for i j
    using same_shape_nth [OF same_shape_sym [OF shv]] that unfolding wc by auto
  have all: "\<forall>i < length msk. \<forall>j < length (msk ! i). w ! i ! j = v ! i ! j / c
        \<and> 0 \<le> v ! i ! j \<and> v ! i ! j \<le> upper \<and> (\<forall>l. lower = Some l \<longrightarrow> v ! i ! j = 0 \<or> l \<le> v ! i ! j)
        \<and> v ! i ! j = (if msk ! i ! j = 0 then 0
            else bound_weight upper lower (exp (clamp_log (if level = ''sequence'' then masked_sum1 (lr ! i) (msk ! i) else lr ! i ! j))))"
    using conjI [OF div entry] by (intro allI impI)
  have one: "batch_normalize \<and> reduce = None \<and> level = ''token'' \<and> masked_mean v msk > 1 / 10 ^ 8 \<longrightarrow> masked_mean w msk = 1"
    using normalised_mean_one [of v msk] unfolding w by (simp add: weights_mean_def)
  show ?thesis
    by (rule exI [of _ upper], rule exI [of _ lower], rule exI [of _ v], rule exI [of _ c]) (intro conjI p shw shv all c_def one)
qed

section \<open>On-policy rollouts\<close>

lemma zero_row: "same_shape p p \<Longrightarrow> tmap2 (-) p p = map (map (\<lambda>_. 0)) (p :: tensor)"
proof -
  have "map2 (-) r r = map (\<lambda>_. 0) (r :: real list)" for r by (induction r) auto
  then show ?thesis by (induction p) auto
qed

lemma zero_stats:
  assumes "length m = length (r :: real list)"
  shows "row_stat opt (map (\<lambda>_. 0) r) m = map (\<lambda>_. 0) r" and "masked_sum1 (map (\<lambda>_. 0) r) m = 0"
proof -
  have k: "k_stat opt 0 = 0" by (simp add: k_stat_def clamp_log_def clamp_def)
  have s: "masked_sum1 (map (\<lambda>_. 0) r) m = 0" using assms
    by (induction r m rule: list_induct2') (auto simp: masked_sum1_def)
  have v: "x = 0" if "x \<in> set (valid1 (map (\<lambda>_. 0) r) m)" for x
    using that by (auto simp: valid1_def dest: set_zip_leftD)
  have "max_list xs = 0" if "xs \<noteq> []" "\<forall>x \<in> set xs. x = 0" for xs :: "real list"
  proof -
    have "foldr max ys 0 = 0" if "\<forall>x \<in> set ys. x = 0" for ys :: "real list" using that by (induction ys) auto
    then show ?thesis using that by (cases xs) (auto simp: max_list_def)
  qed
  then have "sequence_max (map (\<lambda>_. 0) r) m = 0" using v by (simp add: sequence_max_def)
  then have "sequence_stat opt (map (\<lambda>_. 0) r) m = 0" using s k
    by (simp add: sequence_stat_def masked_mean1_def Let_def comp_def)
  then show "row_stat opt (map (\<lambda>_. 0) r) m = map (\<lambda>_. 0) r" using k by (simp add: row_stat_def comp_def)
  show "masked_sum1 (map (\<lambda>_. 0) r) m = 0" by (rule s)
qed

lemma compute_rs_metrics_returns:
  "\<not> no_valid msk \<Longrightarrow> \<exists>ms. compute_rs_metrics opt stat msk sv sl ps u l al = Inr ms"
  unfolding compute_rs_metrics_def no_valid_def Let_def by (simp only: if_False) blast

lemma rejection_option_returns: "\<not> no_valid msk \<Longrightarrow> \<exists>out. rejection_option lr msk x = Inr out"
  using compute_rs_metrics_returns by (cases x) (fastforce simp: rejection_option_def Let_def)

lemma rejection_mask_returns:
  assumes "lr \<noteq> []" "\<not> no_valid msk" "comma_parts rs \<noteq> []" "set (comma_parts rs) \<subseteq> set supported_rs"
    and "parse_rollout_rs_thresholds (first_occurrences (comma_parts rs)) (Some spec) = Inr ths"
  shows "\<exists>msk' ms. compute_rollout_rejection_mask lr msk (Some rs) (Some spec) = Inr (msk', ms)"
proof -
  obtain outs where "map_r (rejection_option lr msk) ths = Inr outs"
    using rejection_option_returns [OF assms(2)] map_r_returns [of ths "rejection_option lr msk"] by blast
  then show ?thesis using assms by (auto simp: compute_rollout_rejection_mask_def Let_def)
qed

lemma tsum_zero_iff:
  assumes "\<forall>r \<in> set t. \<forall>x \<in> set r. 0 \<le> x"
  shows "tsum t = 0 \<longleftrightarrow> (\<forall>r \<in> set t. \<forall>x \<in> set r. x = 0)"
proof -
  have "tsum t = sum_list (concat t)" by (induction t) (auto simp: tsum_def)
  then show ?thesis using assms sum_list_nonneg_eq_0_iff [of "concat t"] by auto
qed

lemma tensor_all:
  assumes "same_shape t msk"
  shows "(\<forall>r \<in> set t. \<forall>x \<in> set r. P x) \<longleftrightarrow> (\<forall>i < length msk. \<forall>j < length (msk ! i). P (t ! i ! j))"
  using same_shape_nth [OF assms] by (simp add: all_set_conv_all_nth)

lemma masked_mean_zero_iff:
  assumes "mask01 msk" "same_shape t msk" "\<And>x. 0 \<le> g x"
  shows "masked_mean (map (map g) t) msk = 0
    \<longleftrightarrow> (\<forall>i < length msk. \<forall>j < length (msk ! i). msk ! i ! j = 0 \<or> g (t ! i ! j) = 0)"
proof -
  let ?p = "tmap2 (\<lambda>v m. (if m \<noteq> 0 then v else 0) * m) (map (map g) t) msk"
  have m: "msk ! i ! j = 0 \<or> msk ! i ! j = 1" if "i < length msk" "j < length (msk ! i)" for i j
    using assms(1) that by (auto simp: mask01_def list_all_length)
  have sh: "same_shape (map (map g) t) msk" using assms(2) by (simp add: same_shape_map)
  have shp: "same_shape ?p msk" by (rule same_shape_tmap2 [OF sh])
  have entry: "?p ! i ! j = (if msk ! i ! j = 0 then 0 else g (t ! i ! j))" if "i < length msk" "j < length (msk ! i)" for i j
    using entry_tmap2 [OF sh that] m [OF that] that same_shape_nth [OF same_shape_sym [OF assms(2)]] by auto
  note all = tensor_all [OF shp]
  have "\<forall>r \<in> set ?p. \<forall>x \<in> set r. 0 \<le> x" unfolding all using entry assms(3) by auto
  then have "tsum ?p = 0 \<longleftrightarrow> (\<forall>r \<in> set ?p. \<forall>x \<in> set r. x = 0)" by (rule tsum_zero_iff)
  also have "\<dots> \<longleftrightarrow> (\<forall>i < length msk. \<forall>j < length (msk ! i). ?p ! i ! j = 0)" by (rule all)
  also have "\<dots> \<longleftrightarrow> (\<forall>i < length msk. \<forall>j < length (msk ! i). msk ! i ! j = 0 \<or> g (t ! i ! j) = 0)"
    using entry by (metis (no_types, lifting))
  finally have "tsum ?p = 0 \<longleftrightarrow> (\<forall>i < length msk. \<forall>j < length (msk ! i). msk ! i ! j = 0 \<or> g (t ! i ! j) = 0)" .
  moreover have "tsum msk + 1 / 10 ^ 8 > 0" using tsum_mask01 [OF assms(1)] by fastforce
  ultimately show ?thesis by (simp add: masked_mean_def masked_sum_def)
qed

lemma ess_zero_iff:
  assumes "mask01 msk" "same_shape w msk" "0 < upper"
  shows "ess_denominator w msk upper = 0 \<longleftrightarrow> (\<forall>i < length msk. \<forall>j < length (msk ! i). msk ! i ! j = 0 \<or> w ! i ! j \<le> 0)"
proof -
  let ?mean = "masked_mean (map (map (\<lambda>w. min (max w 0) upper)) w) msk"
  have "0 \<le> ?mean" using assms(1,3) by (auto simp: masked_mean_def intro!: divide_nonneg_nonneg masked_sum_nonneg dest: tsum_mask01)
  then have "?mean + 1 / 10 ^ 8 > 0" by (smt (verit) divide_pos_pos zero_less_power)
  then have "(min (max x 0) upper / (?mean + 1 / 10 ^ 8)) ^ 2 = 0 \<longleftrightarrow> x \<le> 0" for x
    using assms(3) by auto
  then show ?thesis
    using masked_mean_zero_iff [OF assms(1,2), of "\<lambda>x. (min (max x 0) upper / (?mean + 1 / 10 ^ 8)) ^ 2"]
    by (simp add: ess_denominator_def Let_def comp_def)
qed

text \<open>When some weight of a valid token is left, the weights are computed. When none is left, the metrics divide by zero.\<close>

lemma correction_weights_return:
  assumes "level \<in> {''token'', ''sequence''}" "parse_rollout_is_threshold spec = Inr (u, l)" "same_shape lr msk" "mask01 msk"
    and ij: "i < length msk" "j < length (msk ! i)" "msk ! i ! j \<noteq> 0"
    and pos: "0 < bound_weight u l (exp (clamp_log (if level = ''sequence'' then masked_sum1 (lr ! i) (msk ! i) else lr ! i ! j)))"
  shows "\<exists>w ms. compute_rollout_correction_weights reduce lr msk level spec batch_normalize = Inr (w, ms)"
proof -
  let ?w = "map (map (bound_weight u l)) (map2 (raw_row (level = ''sequence'')) lr msk)"
  have u: "0 < u" "\<forall>x. l = Some x \<longrightarrow> 0 < x" using parse_is_threshold_ok [OF assms(2)] by auto
  have "0 < ?w ! i ! j" using raw_weight_entry [OF assms(3,4) u ij(1,2)] ij(3) pos by simp
  then have "ess_denominator ?w msk u \<noteq> 0"
    unfolding ess_zero_iff [OF assms(4) weights_shape [OF assms(3)] u(1)] using ij by (auto simp: not_le)
  moreover have "\<not> no_valid msk" using ij by (auto simp: no_valid_def intro!: bexI [OF _ nth_mem])
  ultimately show ?thesis using assms(1,2)
    by (simp add: compute_rollout_correction_weights_def compute_is_metrics_def Let_def)
qed

lemma dropped_weights_fail:
  assumes "level \<in> {''token'', ''sequence''}" "parse_rollout_is_threshold spec = Inr (u, l)" "same_shape lr msk" "mask01 msk"
    and "\<not> no_valid msk"
    and none: "\<And>i j. i < length msk \<Longrightarrow> j < length (msk ! i) \<Longrightarrow>
      bound_weight u l (exp (clamp_log (if level = ''sequence'' then masked_sum1 (lr ! i) (msk ! i) else lr ! i ! j))) = 0"
  shows "compute_rollout_correction_weights reduce lr msk level spec bn = Inl ZeroDivisionError"
proof -
  let ?w = "map (map (bound_weight u l)) (map2 (raw_row (level = ''sequence'')) lr msk)"
  have u: "0 < u" "\<forall>x. l = Some x \<longrightarrow> 0 < x" using parse_is_threshold_ok [OF assms(2)] by auto
  have "ess_denominator ?w msk u = 0"
    unfolding ess_zero_iff [OF assms(4) weights_shape [OF assms(3)] u(1)]
    using raw_weight_entry [OF assms(3,4) u] none by (auto simp del: nth_map nth_zip)
  then show ?thesis using assms(1,2,5)
    by (simp add: compute_rollout_correction_weights_def compute_is_metrics_def Let_def)
qed

text \<open>With IcePop one token far from the rollout policy in a batch of one is enough.\<close>

lemma icepop_all_dropped_fails:
  "compute_rollout_correction_weights reduce [[3]] [[1]] ''token'' (SStr ''0.5_2'') bn = Inl ZeroDivisionError"
proof (rule dropped_weights_fail)
  show spec: "parse_rollout_is_threshold (SStr ''0.5_2'') = Inr (2, Some (1 / 2))" by code_simp
  have "1 + 3 \<le> exp (3 :: real)" by (rule exp_ge_add_one_self)
  then show "bound_weight 2 (Some (1 / 2)) (exp (clamp_log (if ''token'' = ''sequence'' then masked_sum1 ([[3]] ! i) ([[1]] ! i) else [[3]] ! i ! j))) = 0"
    if "i < length [[1 :: real]]" "j < length ([[1 :: real]] ! i)" for i j
    using that by (simp add: bound_weight_def clamp_log_def clamp_def)
qed (simp_all add: same_shape_def mask01_def no_valid_def)

text \<open>
  [C35] The correction is the identity for on-policy rollouts: when both policies give the same probabilities and the
  thresholds contain the ratio 1, every weight of a valid token is 1, nothing is rejected, and no step fails.
\<close>

theorem on_policy_correction_is_identity:
  assumes sh: "same_shape p msk" and m01: "mask01 msk" "\<not> no_valid msk"
    and level: "level \<in> {''token'', ''sequence''}" and spec: "parse_rollout_is_threshold spec = Inr (upper, lower)"
    and one: "1 \<le> upper" "\<forall>l. lower = Some l \<longrightarrow> l \<le> 1"
    and opts: "comma_parts rs \<noteq> []" "set (comma_parts rs) \<subseteq> set supported_rs"
    and ths: "parse_rollout_rs_thresholds (first_occurrences (comma_parts rs)) (Some rspec) = Inr ths"
    and inside: "\<forall>(opt, th) \<in> set ths. \<forall>l. rt_lower th = Some l \<longrightarrow> l \<le> 1 \<and> 1 \<le> rt_upper th"
  shows "\<exists>ms. compute_rollout_correction_and_rejection_mask reduce p p msk (Some level) (Some spec) False (Some rs) (Some rspec)
    = Inr (Some msk, msk, ms)"
proof -
  let ?lr = "map (map (\<lambda>_. 0)) p :: tensor"
  have lr: "tmap2 (-) p p = ?lr" by (rule zero_row) (simp add: same_shape_def)
  have shl: "same_shape ?lr msk" using sh by (simp add: same_shape_map)
  have ne: "?lr \<noteq> []" using m01(2) same_shape_nth(1) [OF sh] by (auto simp: no_valid_def)
  have row: "?lr ! i = map (\<lambda>_. 0) (p ! i)" "length (p ! i) = length (msk ! i)" if "i < length msk" for i
    using that same_shape_nth [OF same_shape_sym [OF sh]] by simp_all
  obtain w ms1 where w: "compute_rollout_correction_weights reduce ?lr msk level spec False = Inr (w, ms1)"
  proof -
    obtain i j where ij: "i < length msk" "j < length (msk ! i)" "msk ! i ! j \<noteq> 0"
      using m01(2) by (auto simp: no_valid_def in_set_conv_nth)
    have "0 < bound_weight upper lower 1" using one by (auto simp: bound_weight_def split: option.splits)
    then have "0 < bound_weight upper lower (exp (clamp_log (if level = ''sequence'' then masked_sum1 (?lr ! i) (msk ! i) else ?lr ! i ! j)))"
      using row [OF ij(1)] ij zero_stats(2) [of "msk ! i" "p ! i"] by (simp add: clamp_log_def clamp_def)
    from correction_weights_return [OF level spec shl m01(1) ij this] show ?thesis using that by blast
  qed
  have "w = msk"
  proof (rule tensor_eqI)
    obtain u l where ul: "parse_rollout_is_threshold spec = Inr (u, l)" "same_shape w msk"
      and entry: "\<And>i j. i < length msk \<Longrightarrow> j < length (msk ! i) \<Longrightarrow> w ! i ! j = (if msk ! i ! j = 0 then 0
            else bound_weight u l (exp (clamp_log (if level = ''sequence'' then masked_sum1 (?lr ! i) (msk ! i) else ?lr ! i ! j))))"
      using is_weights_entries [OF w shl m01(1)] by blast
    show "same_shape w msk" by (rule ul(2))
    fix i j assume ij: "i < length msk" "j < length (msk ! i)"
    have "msk ! i ! j = 0 \<or> msk ! i ! j = 1" using m01(1) ij by (auto simp: mask01_def list_all_length)
    moreover have "bound_weight u l 1 = 1" using ul(1) spec one by (auto simp: bound_weight_def split: option.splits)
    moreover have "clamp_log 0 = 0" by (simp add: clamp_log_def clamp_def)
    ultimately show "w ! i ! j = msk ! i ! j"
      using entry [OF ij] row [OF ij(1)] ij zero_stats(2) [of "msk ! i" "p ! i"] by auto
  qed
  obtain msk' ms2 where rej: "compute_rollout_rejection_mask ?lr msk (Some rs) (Some rspec) = Inr (msk', ms2)"
    using rejection_mask_returns [OF ne m01(2) opts ths] by blast
  have "msk' = msk"
  proof (rule tensor_eqI)
    obtain ths' where ths': "parse_rollout_rs_thresholds (first_occurrences (comma_parts rs)) (Some rspec) = Inr ths'" "same_shape msk' msk"
      and entry: "\<And>i j. i < length msk \<Longrightarrow> j < length (msk ! i) \<Longrightarrow> msk' ! i ! j
        = (if \<forall>(opt, th) \<in> set ths'. stat_kept th (row_stat opt (?lr ! i) (msk ! i) ! j) then msk ! i ! j else 0)"
      using rejection_mask_entries [OF rej ne shl] by blast
    show "same_shape msk' msk" by (rule ths'(2))
    fix i j assume ij: "i < length msk" "j < length (msk ! i)"
    have "stat_kept th (row_stat opt (?lr ! i) (msk ! i) ! j)" if "(opt, th) \<in> set ths" for opt th
    proof -
      have "row_stat opt (?lr ! i) (msk ! i) ! j = 0" using row [OF ij(1)] ij zero_stats(1) [of "msk ! i" "p ! i" opt] by simp
      then show ?thesis using parse_rs_thresholds_ok [OF ths that] inside that by (force simp: stat_kept_def split: option.splits)
    qed
    then show "msk' ! i ! j = msk ! i ! j" using entry [OF ij] ths ths'(1) by auto
  qed
  have "same_shape p p" by (simp add: same_shape_def)
  obtain ms3 where off: "compute_offpolicy_metrics p (Some p) msk = Inr ms3" using m01(2) by (auto simp: compute_offpolicy_metrics_def Let_def)
  show ?thesis
    using m01(2) sh \<open>same_shape p p\<close> w rej off \<open>w = msk\<close> \<open>msk' = msk\<close>
    by (simp add: compute_rollout_correction_and_rejection_mask_def Let_def lr)
qed

section \<open>Concrete corrections\<close>

lemma ex_options: "comma_parts ''token_k1, seq_sum_k2'' = [''token_k1'', ''seq_sum_k2'']"
  by code_simp

lemma ex_first: "first_occurrences [''token_k1'', ''seq_sum_k2''] = [''token_k1'', ''seq_sum_k2'']"
  by (simp add: first_occurrences_def)

lemma ex_thresholds: "parse_rollout_rs_thresholds [''token_k1'', ''seq_sum_k2''] (Some (SNum 2))
    = Inr [(''token_k1'', \<lparr>rt_lower = Some (1 / 2), rt_upper = 2\<rparr>), (''seq_sum_k2'', \<lparr>rt_lower = None, rt_upper = 2\<rparr>)]"
  by (simp add: parse_rollout_rs_thresholds_def option_threshold_def suffix_def)

lemma ex_spec: "parse_rollout_is_threshold (SNum 2) = Inr (2, None)"
  by (simp add: parse_rollout_is_threshold_def)

theorem on_policy_correction_is_identity_witness:
  "\<exists>ms. compute_rollout_correction_and_rejection_mask None [[- 1, - 2]] [[- 1, - 2]] [[1, 0]] (Some ''sequence'') (Some (SNum 2)) False
      (Some ''token_k1, seq_sum_k2'') (Some (SNum 2)) = Inr (Some [[1, 0]], [[1, 0]], ms)"
  by (rule on_policy_correction_is_identity [OF _ _ _ _ ex_spec])
     (auto simp: same_shape_def mask01_def no_valid_def ex_options ex_first ex_thresholds supported_rs_def)

lemma ex_mask: "same_shape [[0 :: real, 3]] [[1 :: real, 1]]" "mask01 [[1, 1]]" "\<not> no_valid [[1, 1]]"
  by (simp_all add: same_shape_def mask01_def no_valid_def)

theorem is_weights_bounded_witness:
  "\<exists>w ms. compute_rollout_correction_weights None [[0, 3]] [[1, 1]] ''token'' (SNum 2) True = Inr (w, ms) \<and> masked_mean w [[1, 1]] = 1"
proof -
  obtain w ms where w: "compute_rollout_correction_weights None [[0, 3]] [[1, 1]] ''token'' (SNum 2) True = Inr (w, ms)"
    using correction_weights_return [OF _ ex_spec ex_mask(1,2), of "''token''" 0 0 None True]
    by (auto simp: bound_weight_def clamp_log_def clamp_def)
  from is_weights_bounded [OF w ex_mask(1,2)] obtain upper lower v c where p: "parse_rollout_is_threshold (SNum 2) = Inr (upper, lower)"
    and sh: "same_shape v [[1, 1 :: real]]"
    and entry: "\<forall>i < length [[1, 1 :: real]]. \<forall>j < length ([[1, 1 :: real]] ! i). w ! i ! j = v ! i ! j / c
        \<and> 0 \<le> v ! i ! j \<and> v ! i ! j \<le> upper \<and> (\<forall>l. lower = Some l \<longrightarrow> v ! i ! j = 0 \<or> l \<le> v ! i ! j)
        \<and> v ! i ! j = (if [[1, 1 :: real]] ! i ! j = 0 then 0 else bound_weight upper lower
            (exp (clamp_log (if ''token'' = ''sequence'' then masked_sum1 ([[0, 3]] ! i) ([[1, 1]] ! i) else [[0, 3]] ! i ! j))))"
    and mean: "True \<and> None = (None :: (tensor \<Rightarrow> tensor \<Rightarrow> real) option) \<and> ''token'' = ''token''
        \<and> masked_mean v [[1, 1]] > 1 / 10 ^ 8 \<longrightarrow> masked_mean w [[1, 1]] = 1"
    by (elim exE conjE) (rule that; assumption)
  have ul: "upper = 2" "lower = None" using p by (simp_all add: ex_spec)
  have v: "v ! 0 ! 0 = bound_weight 2 None (exp (clamp_log 0))" "0 \<le> v ! 0 ! 1"
    using entry [rule_format, of 0 0] entry [rule_format, of 0 1] by (simp_all add: ul)
  obtain x y where xy: "v = [[x, y]]" using sh by (auto simp: same_shape_def list_all2_Cons2 length_Suc_conv)
  have "x = 1" "0 \<le> y" using v by (simp_all add: xy bound_weight_def clamp_log_def clamp_def)
  then have "masked_mean v [[1, 1]] > 1 / 10 ^ 8"
    by (simp add: xy masked_mean_def masked_sum_def tsum_def masked_sum1_def field_simps)
  then show ?thesis using w mean by blast
qed

theorem rejection_mask_correct_witness:
  "\<exists>msk' ms. compute_rollout_rejection_mask [[0, 3]] [[1, 1]] (Some ''token_k1, seq_sum_k2'') (Some (SNum 2)) = Inr (msk', ms)
     \<and> msk' ! 0 ! 1 = 0"
proof -
  obtain msk' ms where run: "compute_rollout_rejection_mask [[0, 3]] [[1, 1]] (Some ''token_k1, seq_sum_k2'') (Some (SNum 2)) = Inr (msk', ms)"
    using rejection_mask_returns [of "[[0, 3]]" "[[1, 1]]" "''token_k1, seq_sum_k2''" "SNum 2"] ex_mask(3)
    by (auto simp: ex_options ex_first ex_thresholds supported_rs_def)
  have "\<not> rs_accepts (''token_k1'', \<lparr>rt_lower = Some (1 / 2), rt_upper = 2\<rparr>) [0, 3] [1, 1] 1"
  proof -
    have "exp (- 3 :: real) < 1 / 2" using exp_ge_add_one_self [of 3] by (simp add: exp_minus field_simps)
    then show ?thesis by (simp add: rs_accepts_def rs_meaning_def)
  qed
  then have "msk' ! 0 ! 1 = 0"
    using rejection_mask_correct [OF run _ ex_mask(1,2)] by (auto simp: ex_options ex_first ex_thresholds)
  then show ?thesis using run by blast
qed

end
