(* ===== verification/Token_Baseline.thy ===== *)
theory Token_Baseline
  imports Advantages "HOL-Library.Multiset"
begin

text \<open>
  The optimal-token-baseline estimators of \<open>verl/trainer/ppo/core_algos.py\<close>: the single-turn one on the rows of the batch and
  the multi-turn one, which packs the live tokens of each row first. Masks hold zeros and ones, so the sum of a row is its
  length. Both give a group of responses one baseline per position.
\<close>

section \<open>Weights\<close>

text \<open>\<open>1 - 2 pi_t + sum pi^2\<close>, scaled with the squared importance weights when there are any.\<close>

definition token_weights :: "tensor \<Rightarrow> tensor \<Rightarrow> tensor option \<Rightarrow> tensor" where
  "token_weights old_log_probs sum_pi_squared weights =
     (let w = tmap2 (\<lambda>l s. 1 - 2 * exp l + s) old_log_probs sum_pi_squared in
      case weights of None \<Rightarrow> w | Some r \<Rightarrow> tmap2 (\<lambda>w r. w * r ^ 2) w r)"

definition path_variance :: "tensor \<Rightarrow> tensor \<Rightarrow> tensor" where
  "path_variance w msk = map (cumsum 0) (tmap2 (*) w msk)"

definition row_len :: "real list \<Rightarrow> nat" where
  "row_len row = nat \<lfloor>sum_list row\<rfloor>"

section \<open>The loop over the groups\<close>

text \<open>\<open>handle_zero_tail\<close>: the part of the longest response beyond the second longest gets no baseline.\<close>

definition zero_tail :: "nat list \<Rightarrow> nat list \<Rightarrow> tensor \<Rightarrow> tensor" where
  "zero_tail lens idx baselines =
     (let group = map ((!) lens) idx;
          sorted = sort group;
          max_length = last sorted;
          second_max_length = sorted ! (length sorted - 2);
          max_length_idx = filter (\<lambda>k. group ! k = max_length) [0..<length group]
      in if length max_length_idx = 1 \<and> max_length > second_max_length
         then (let i = idx ! hd max_length_idx; row = baselines ! i
               in baselines[i := take second_max_length row @ map (\<lambda>_. 0) (drop second_max_length row)])
         else baselines)"

text \<open>One group: all its rows get the baseline; a group of one keeps zeros.\<close>

definition place_baseline :: "bool \<Rightarrow> nat list \<Rightarrow> (nat list \<Rightarrow> real list) \<Rightarrow> nat list \<Rightarrow> tensor \<Rightarrow> tensor" where
  "place_baseline tail lens step idx baselines =
     (if length idx = 1 then baselines
      else (let placed = fold (\<lambda>i b. b[i := step idx]) idx baselines
            in if tail then zero_tail lens idx placed else placed))"

definition group_baselines :: "bool \<Rightarrow> nat list \<Rightarrow> (nat list \<Rightarrow> real list) \<Rightarrow> 'i list \<Rightarrow> nat list \<Rightarrow> tensor \<Rightarrow> tensor" where
  "group_baselines tail lens step index rows baselines =
     (let keys = map ((!) index) rows; prompt_groups = id2list keys rows
      in fold (\<lambda>k b. place_baseline tail lens step (key_log prompt_groups k) b) (first_occurrences keys) baselines)"

text \<open>A sum over the rows of a group at one position.\<close>

definition column_sum :: "nat list \<Rightarrow> (nat \<Rightarrow> real) \<Rightarrow> real" where
  "column_sum idx f = sum_list (map f idx)"

section \<open>The two estimators\<close>

definition compute_optimal_token_baseline_advantage ::
  "tensor \<Rightarrow> tensor \<Rightarrow> 'i list \<Rightarrow> tensor \<Rightarrow> tensor \<Rightarrow> tensor option \<Rightarrow> bool \<Rightarrow> real \<Rightarrow> (tensor \<times> tensor) result" where
  "compute_optimal_token_baseline_advantage rewards msk index old_log_probs sum_pi_squared weights tail epsilon =
     (let returns = map reward_to_go (tmap2 (*) rewards msk);
          w = path_variance (token_weights old_log_probs sum_pi_squared weights) msk;
          step = (\<lambda>idx. map (\<lambda>t. column_sum idx (\<lambda>i. returns ! i ! t * w ! i ! t * msk ! i ! t)
                     / (column_sum idx (\<lambda>i. w ! i ! t * msk ! i ! t) + epsilon)) [0..<length (hd rewards)])
      in bind_r (check_index index rewards) (\<lambda>_.
           let baselines = group_baselines tail (map row_len msk) step index [0..<length rewards] (map (map (\<lambda>_. 0)) returns)
           in Inr (tmap2 (*) (tmap2 (-) returns baselines) msk, returns)))"

text \<open>\<open>row[mask]\<close>, padded to the longest response; and the assignment to \<open>row[mask]\<close>.\<close>

definition pack_row :: "nat \<Rightarrow> real list \<Rightarrow> real list \<Rightarrow> real list" where
  "pack_row n row msk = (let vs = valid1 row msk in vs @ replicate (n - length vs) 0)"

fun unpack_row :: "real list \<Rightarrow> real list \<Rightarrow> real list" where
  "unpack_row [] vs = []"
| "unpack_row (m # ms) vs =
     (if m = 0 then 0 # unpack_row ms vs
      else (case vs of [] \<Rightarrow> 0 # unpack_row ms [] | v # vs' \<Rightarrow> v # unpack_row ms vs'))"

definition compute_multi_turn_optimal_token_baseline_advantage ::
  "tensor \<Rightarrow> tensor \<Rightarrow> 'i list \<Rightarrow> tensor \<Rightarrow> tensor \<Rightarrow> tensor option \<Rightarrow> bool \<Rightarrow> real \<Rightarrow> (tensor \<times> tensor) result" where
  "compute_multi_turn_optimal_token_baseline_advantage rewards msk index old_log_probs sum_pi_squared weights tail epsilon =
     (let token_returns = map reward_to_go (tmap2 (*) rewards msk);
          w = path_variance (token_weights old_log_probs sum_pi_squared weights) msk;
          lens = map row_len msk;
          n = (if lens = [] then 0 else Max (set lens));
          all_w = map2 (pack_row n) w msk;
          all_returns = map2 (pack_row n) token_returns msk;
          rows = filter (\<lambda>i. lens ! i \<noteq> 0) [0..<length lens];
          step = (\<lambda>idx. map (\<lambda>t. column_sum idx (\<lambda>i. all_returns ! i ! t * all_w ! i ! t)
                     / (column_sum idx (\<lambda>i. all_w ! i ! t) + epsilon)) [0..<n])
      in if \<exists>i \<in> set rows. length index \<le> i then Inl IndexError
         else (let baselines = group_baselines tail lens step index rows (map (map (\<lambda>_. 0)) all_returns);
                   all_advantages = tmap2 (-) all_returns baselines;
                   advantages = map2 (\<lambda>m (l, a). if l = 0 then map (\<lambda>_. 0) m else unpack_row m (take l a)) msk (zip lens all_advantages)
               in Inr (tmap2 (*) advantages msk, token_returns)))"

section \<open>What the loop over the groups computes\<close>

lemma two_largest:
  fixes g :: "nat list"
  assumes "2 \<le> length g" "s = sort g"
  shows "\<forall>k < length g. g ! k \<le> last s" "\<exists>k < length g. g ! k = last s"
    and "s ! (length s - 2) \<le> last s"
    and "k < length g \<Longrightarrow> g ! k = last s \<Longrightarrow> (\<forall>j < length g. j \<noteq> k \<longrightarrow> g ! j \<le> s ! (length s - 2))"
    and "k < length g \<Longrightarrow> g ! k = last s \<Longrightarrow> (\<exists>j < length g. j \<noteq> k \<and> g ! j = s ! (length s - 2))"
proof -
  let ?S = "s ! (length s - 2)" and ?M = "last s"
  define s' where "s' = take (length s - 2) s"
  have len: "length s = length g" using assms(2) by simp
  have s: "s = s' @ [?S, ?M]"
  proof -
    have "s \<noteq> []" using assms(1) len by auto
    then have "drop (length s - 2) s = [?S, ?M]"
      using assms(1) len by (intro nth_equalityI) (auto simp: less_Suc_eq last_conv_nth numeral_2_eq_2 Suc_diff_Suc)
    then show ?thesis unfolding s'_def by (metis append_take_drop_id)
  qed
  have srt: "sorted (s' @ [?S, ?M])" using s assms(2) by (metis sorted_sort)
  have set: "set g = set (s' @ [?S, ?M])" using s assms(2) by (metis set_sort)
  show "\<forall>k < length g. g ! k \<le> ?M" using srt set by (fastforce simp: sorted_append dest: nth_mem)
  show "\<exists>k < length g. g ! k = ?M" using set by (metis in_set_conv_nth append_is_Nil_conv last_in_set s list.distinct(1))
  show "?S \<le> ?M" using srt by (simp add: sorted_append)
  assume k: "k < length g" "g ! k = ?M"
  have "mset (take k g @ drop (Suc k) g) + {#?M#} = mset g"
    using k id_take_nth_drop [OF k(1)] by (metis mset_append mset.simps(2) union_mset_add_mset_right add.commute add_mset_add_single)
  also have "\<dots> = mset (s' @ [?S]) + {#?M#}" using s assms(2) by (metis mset_sort append.assoc append_Cons append_Nil mset_append mset_single_iff_right)
  finally have "mset (take k g @ drop (Suc k) g) = mset (s' @ [?S])" by simp
  then have rest: "set (take k g @ drop (Suc k) g) = set (s' @ [?S])" by (metis set_mset_mset)
  have others: "set (take k g @ drop (Suc k) g) = {g ! j | j. j < length g \<and> j \<noteq> k}"
  proof (intro equalityI subsetI)
    fix x assume "x \<in> set (take k g @ drop (Suc k) g)"
    then show "x \<in> {g ! j | j. j < length g \<and> j \<noteq> k}"
      using k(1) by (auto simp: in_set_conv_nth)
  next
    fix x assume "x \<in> {g ! j | j. j < length g \<and> j \<noteq> k}"
    then obtain j where j: "j < length g" "j \<noteq> k" "x = g ! j" by auto
    show "x \<in> set (take k g @ drop (Suc k) g)"
    proof (cases "j < k")
      case True
      then have "take k g ! j = x" "j < length (take k g)" using j k(1) by auto
      then show ?thesis by (metis in_set_conv_nth set_append UnI1)
    next
      case False
      then have "drop (Suc k) g ! (j - Suc k) = x" "j - Suc k < length (drop (Suc k) g)" using j k(1) by auto
      then show ?thesis by (metis in_set_conv_nth set_append UnI2)
    qed
  qed
  have others: "{g ! j | j. j < length g \<and> j \<noteq> k} = set (s' @ [?S])" using rest by (simp only: others)
  have le: "x \<le> ?S" if "x \<in> set (s' @ [?S])" for x using srt that by (auto simp: sorted_append)
  show "\<forall>j < length g. j \<noteq> k \<longrightarrow> g ! j \<le> ?S"
  proof (intro allI impI)
    fix j assume "j < length g" "j \<noteq> k"
    then have "g ! j \<in> {g ! j | j. j < length g \<and> j \<noteq> k}" by blast
    then show "g ! j \<le> ?S" unfolding others by (rule le)
  qed
  have "?S \<in> set (s' @ [?S])" by simp
  then have "?S \<in> {g ! j | j. j < length g \<and> j \<noteq> k}" by (simp only: others)
  then obtain j where "?S = g ! j" "j < length g" "j \<noteq> k" by blast
  then show "\<exists>j < length g. j \<noteq> k \<and> g ! j = ?S" by (metis (lifting))
qed

text \<open>Row \<open>i\<close> loses its baseline at \<open>t\<close> when all others of the group are shorter and end by \<open>t\<close>.\<close>

definition beyond_others :: "nat list \<Rightarrow> nat set \<Rightarrow> nat \<Rightarrow> nat \<Rightarrow> bool" where
  "beyond_others lens grp i t \<longleftrightarrow> (\<forall>k \<in> grp - {i}. lens ! k < lens ! i \<and> lens ! k \<le> t)"

lemma distinct_singleton:
  assumes "distinct xs" "set xs = {x}"
  shows "xs = [x]"
proof (cases xs)
  case (Cons y ys)
  then show ?thesis using assms by (cases ys) auto
qed (use assms in simp)

lemma zero_tail_shape: "map length (zero_tail lens idx b) = map length b"
  unfolding zero_tail_def Let_def by (simp add: map_length_update)

lemma zero_tail_nth:
  assumes "distinct idx" "2 \<le> length idx" "i < length b" "t < length (b ! i)"
  shows "zero_tail lens idx b ! i ! t = (if i \<in> set idx \<and> beyond_others lens (set idx) i t then 0 else b ! i ! t)"
proof -
  define g where "g = map ((!) lens) idx"
  define s where "s = sort g"
  have sl: "length s = length g" by (simp add: s_def)
  have len: "2 \<le> length g" using assms(2) by (simp add: g_def)
  note L = two_largest [OF len s_def]
  let ?M = "last s" and ?S = "s ! (length s - 2)"
  let ?at = "filter (\<lambda>k. g ! k = ?M) [0..<length g]"
  obtain k where k: "k < length g" "g ! k = ?M" using L(2) by blast
  have idx: "k < length idx" "lens ! (idx ! k) = ?M" using k by (simp_all add: g_def)
  have other: "\<exists>j < length g. j \<noteq> k \<and> g ! j = ?S" "\<forall>j < length g. j \<noteq> k \<longrightarrow> g ! j \<le> ?S" using L(4,5) [OF k] by auto
  have at: "?at = [k]" if "?S < ?M"
  proof -
    have uniq: "j = k" if "j < length g" "g ! j = ?M" for j using other(2) that \<open>?S < ?M\<close> by (metis leD)
    have "set ?at = {k}"
    proof (intro equalityI subsetI)
      fix j assume "j \<in> set ?at"
      then have "j < length g" "g ! j = ?M" by auto
      then have "j = k" by (rule uniq)
      then show "j \<in> {k}" by simp
    qed (use k in simp)
    then show ?thesis by (intro distinct_singleton) simp_all
  qed
  have others: "(\<forall>j \<in> set idx - {idx ! k}. P (lens ! j)) \<longleftrightarrow> (\<forall>j < length g. j \<noteq> k \<longrightarrow> P (g ! j))" for P
  proof -
    have "set idx - {idx ! k} = (!) idx ` ({..<length idx} - {k})"
      using assms(1) idx(1) by (auto simp: in_set_conv_nth nth_eq_iff_index_eq)
    then show ?thesis by (auto simp: g_def)
  qed
  show "zero_tail lens idx b ! i ! t = (if i \<in> set idx \<and> beyond_others lens (set idx) i t then 0 else b ! i ! t)"
  proof (cases "?S < ?M")
    case True
    have z: "zero_tail lens idx b = b[idx ! k := take ?S (b ! (idx ! k)) @ map (\<lambda>_. 0) (drop ?S (b ! (idx ! k)))]"
      using True at by (simp add: zero_tail_def Let_def sl flip: g_def s_def)
    show ?thesis
    proof (cases "i = idx ! k")
      case i: True
      have "beyond_others lens (set idx) i t \<longleftrightarrow> ?S \<le> t"
      proof -
        have "beyond_others lens (set idx) i t \<longleftrightarrow> (\<forall>j < length g. j \<noteq> k \<longrightarrow> g ! j < ?M \<and> g ! j \<le> t)"
          unfolding beyond_others_def i idx(2) by (rule others)
        also have "\<dots> \<longleftrightarrow> ?S \<le> t"
        proof
          assume "\<forall>j < length g. j \<noteq> k \<longrightarrow> g ! j < ?M \<and> g ! j \<le> t"
          then show "?S \<le> t" using other(1) by metis
        next
          assume "?S \<le> t"
          then show "\<forall>j < length g. j \<noteq> k \<longrightarrow> g ! j < ?M \<and> g ! j \<le> t"
            using other(2) True le_less_trans order_trans by blast
        qed
        finally show ?thesis .
      qed
      then show ?thesis using i assms(3,4) idx(1) z by (auto simp: nth_append)
    next
      case i: False
      have "\<not> beyond_others lens (set idx) i t" if "i \<in> set idx"
      proof
        assume "beyond_others lens (set idx) i t"
        moreover have "idx ! k \<in> set idx - {i}" using i idx(1) by auto
        ultimately have "lens ! (idx ! k) < lens ! i" unfolding beyond_others_def by blast
        then have "?M < lens ! i" using idx(2) by simp
        moreover have "lens ! i \<le> ?M" using L(1) that by (auto simp: g_def in_set_conv_nth)
        ultimately show False by simp
      qed
      then show ?thesis using i z by auto
    qed
  next
    case False
    then have z: "zero_tail lens idx b = b" by (simp add: zero_tail_def Let_def sl flip: g_def s_def)
    have eq: "?S = ?M" using False L(3) by simp
    have "\<not> beyond_others lens (set idx) i t" if "i \<in> set idx"
    proof
      assume b: "beyond_others lens (set idx) i t"
      obtain j where j: "j < length g" "j \<noteq> k" "g ! j = ?M" using other(1) eq by auto
      have two: "idx ! j \<in> set idx" "idx ! k \<in> set idx" "idx ! j \<noteq> idx ! k" "lens ! (idx ! j) = ?M"
        using j idx assms(1) by (auto simp: g_def nth_eq_iff_index_eq)
      have "lens ! i \<le> ?M" using L(1) that by (auto simp: g_def in_set_conv_nth)
      then show False using b two idx(2) unfolding beyond_others_def by (metis Diff_iff leD singletonD)
    qed
    then show ?thesis using z by auto
  qed
qed

lemma fold_place:
  "i < length b \<Longrightarrow> fold (\<lambda>i b. b[i := c]) idx b ! i = (if i \<in> set idx then c else b ! i)"
  "length (fold (\<lambda>i b. b[i := c]) idx b) = length b"
  by (induction idx arbitrary: b) (auto simp: nth_list_update)

text \<open>All rows have length \<open>T\<close>.\<close>

definition rect :: "nat \<Rightarrow> nat \<Rightarrow> 'a list list \<Rightarrow> bool" where
  "rect n T t \<longleftrightarrow> length t = n \<and> (\<forall>i < n. length (t ! i) = T)"

lemma rect_lengths: "rect n T t \<longleftrightarrow> map length t = replicate n T"
  by (auto simp: rect_def list_eq_iff_nth_eq)

definition baseline_entry :: "bool \<Rightarrow> nat list \<Rightarrow> (nat list \<Rightarrow> real list) \<Rightarrow> nat list \<Rightarrow> nat \<Rightarrow> nat \<Rightarrow> real" where
  "baseline_entry tail lens step idx i t =
     (if length idx = 1 \<or> (tail \<and> beyond_others lens (set idx) i t) then 0 else step idx ! t)"

lemma place_baseline_nth:
  assumes "distinct idx" "idx \<noteq> []" "rect n T b" "\<And>idx. length (step idx) = T" "set idx \<subseteq> {..<n}"
  shows "rect n T (place_baseline tail lens step idx b)"
    and "i < n \<Longrightarrow> t < T \<Longrightarrow> place_baseline tail lens step idx b ! i ! t
      = (if i \<in> set idx \<and> length idx \<noteq> 1 then baseline_entry tail lens step idx i t else b ! i ! t)"
proof -
  let ?placed = "fold (\<lambda>i b. b[i := step idx]) idx b"
  have placed: "rect n T ?placed" using assms(3,4) by (auto simp: rect_def fold_place)
  have two: "2 \<le> length idx" if "length idx \<noteq> 1" using that assms(2) by (cases idx) (auto simp: Suc_le_eq)
  show "rect n T (place_baseline tail lens step idx b)"
    using placed assms(3) zero_tail_shape [of lens idx ?placed] by (simp add: place_baseline_def Let_def rect_lengths)
  assume it: "i < n" "t < T"
  then have "i < length ?placed" "t < length (?placed ! i)" using placed by (auto simp: rect_def)
  from zero_tail_nth [OF assms(1) two this, of lens]
  show "place_baseline tail lens step idx b ! i ! t
      = (if i \<in> set idx \<and> length idx \<noteq> 1 then baseline_entry tail lens step idx i t else b ! i ! t)"
    using it assms(3) by (auto simp: place_baseline_def Let_def baseline_entry_def rect_def fold_place)
qed

lemma group_baselines_nth:
  assumes "distinct rows" "set rows \<subseteq> {..<n}" "rect n T b" "\<And>idx. length (step idx) = T"
  shows "rect n T (group_baselines tail lens step index rows b)"
    and "i < n \<Longrightarrow> t < T \<Longrightarrow> group_baselines tail lens step index rows b ! i ! t
      = (if i \<in> set rows \<and> length (filter (\<lambda>j. index ! j = index ! i) rows) \<noteq> 1
         then baseline_entry tail lens step (filter (\<lambda>j. index ! j = index ! i) rows) i t else b ! i ! t)"
proof -
  define grp where "grp k = filter (\<lambda>j. index ! j = k) rows" for k
  have log: "key_log (id2list (map ((!) index) rows) rows) k = grp k" for k
  proof -
    have "members (map ((!) index) xs) xs k = filter (\<lambda>j. index ! j = k) xs" for xs
      by (induction xs) (auto simp: members_def)
    then show ?thesis by (simp add: key_log_id2list grp_def)
  qed
  have grp: "distinct (grp k)" "set (grp k) \<subseteq> {..<n}" "i \<in> set (grp k) \<longleftrightarrow> i \<in> set rows \<and> index ! i = k" for k i
    using assms(1,2) by (auto simp: grp_def)
  let ?loop = "fold (\<lambda>k b. place_baseline tail lens step (grp k) b)"
  have loop: "rect n T (?loop ks b) \<and> (\<forall>i < n. \<forall>t < T. ?loop ks b ! i ! t
      = (if i \<in> set rows \<and> index ! i \<in> set ks \<and> length (grp (index ! i)) \<noteq> 1
         then baseline_entry tail lens step (grp (index ! i)) i t else b ! i ! t))"
    if "\<forall>k \<in> set ks. grp k \<noteq> []" "rect n T b" for ks b
    using that
  proof (induction ks arbitrary: b)
    case (Cons k ks)
    let ?b = "place_baseline tail lens step (grp k) b"
    have ne: "grp k \<noteq> []" using Cons.prems(1) by simp
    note P = place_baseline_nth [OF grp(1) [of k] ne Cons.prems(2) assms(4) grp(2) [of k], where tail = tail and lens = lens]
    show ?case using Cons.IH [of ?b] Cons.prems(1) P by (auto simp: grp(3))
  qed simp
  have keys: "set (first_occurrences (map ((!) index) rows)) = (!) index ` set rows" by (simp add: first_occurrences_def)
  have "\<forall>k \<in> set (first_occurrences (map ((!) index) rows)). grp k \<noteq> []"
    unfolding keys by (auto simp: grp_def filter_empty_conv)
  from loop [OF this assms(3)]
  show "rect n T (group_baselines tail lens step index rows b)"
    and "i < n \<Longrightarrow> t < T \<Longrightarrow> group_baselines tail lens step index rows b ! i ! t
      = (if i \<in> set rows \<and> length (filter (\<lambda>j. index ! j = index ! i) rows) \<noteq> 1
         then baseline_entry tail lens step (filter (\<lambda>j. index ! j = index ! i) rows) i t else b ! i ! t)"
    by (auto simp: group_baselines_def Let_def log keys simp flip: grp_def)
qed

section \<open>The entries of the single-turn estimator\<close>

text \<open>The baseline of response \<open>i\<close> at position \<open>t\<close> over the positions \<open>grp\<close> of its group.\<close>

definition token_baseline :: "bool \<Rightarrow> nat list \<Rightarrow> real \<Rightarrow> (nat \<Rightarrow> real) \<Rightarrow> (nat \<Rightarrow> real) \<Rightarrow> nat set \<Rightarrow> nat \<Rightarrow> nat \<Rightarrow> real" where
  "token_baseline tail lens epsilon G W grp i t =
     (if card grp = 1 \<or> (tail \<and> beyond_others lens grp i t) then 0
      else (\<Sum>k \<in> grp. G k * W k) / ((\<Sum>k \<in> grp. W k) + epsilon))"

abbreviation returns_of :: "tensor \<Rightarrow> tensor \<Rightarrow> tensor" where
  "returns_of rewards msk \<equiv> map reward_to_go (tmap2 (*) rewards msk)"

lemma rect_map2: "rect n S a \<Longrightarrow> rect n T b \<Longrightarrow> (\<And>x y. length x = S \<Longrightarrow> length y = T \<Longrightarrow> length (f x y) = U) \<Longrightarrow> rect n U (map2 f a b)"
  by (simp add: rect_def)

lemma rect_nth: "rect n T t \<Longrightarrow> i < n \<Longrightarrow> j < T \<Longrightarrow> i < length t" "rect n T t \<Longrightarrow> i < n \<Longrightarrow> j < T \<Longrightarrow> j < length (t ! i)"
  by (simp_all add: rect_def)

lemma rect_entry2: "rect n T a \<Longrightarrow> rect n T b \<Longrightarrow> i < n \<Longrightarrow> t < T \<Longrightarrow> tmap2 f a b ! i ! t = f (a ! i ! t) (b ! i ! t)"
  by (simp add: rect_def)

lemma mask01_entry: "mask01 m \<Longrightarrow> rect n T m \<Longrightarrow> i < n \<Longrightarrow> t < T \<Longrightarrow> m ! i ! t = 0 \<or> m ! i ! t = 1"
  by (simp add: mask01_def list_all_length rect_def)

lemma rect_map: "rect n S a \<Longrightarrow> (\<And>x. length x = S \<Longrightarrow> length (f x) = U) \<Longrightarrow> rect n U (map f a)"
  by (simp add: rect_def)

lemma length_reward_to_go [simp]: "length (reward_to_go xs) = length xs"
  by (simp add: reward_to_go_def)

lemma column_sum_set: "distinct idx \<Longrightarrow> column_sum idx f = (\<Sum>k \<in> set idx. f k)"
  by (simp add: column_sum_def sum_list_distinct_conv_sum_set)

lemma otb_entry:
  assumes run: "compute_optimal_token_baseline_advantage rewards msk index l p r tail epsilon = Inr (adv, ret)"
    and sh: "rect n T rewards" "rect n T msk" "length index = n"
    and W: "W = path_variance (token_weights l p r) msk" and it: "i < n" "t < T"
  shows "ret = returns_of rewards msk"
    and "adv ! i ! t = (ret ! i ! t - token_baseline tail (map row_len msk) epsilon (\<lambda>k. ret ! k ! t)
            (\<lambda>k. W ! k ! t * msk ! k ! t) (group_of index (index ! i)) i t) * msk ! i ! t"
    and "rect n T adv"
proof -
  let ?R = "returns_of rewards msk"
  define step where "step idx = map (\<lambda>t. column_sum idx (\<lambda>i. ?R ! i ! t * W ! i ! t * msk ! i ! t)
                     / (column_sum idx (\<lambda>i. W ! i ! t * msk ! i ! t) + epsilon)) [0..<T]" for idx
  let ?z = "map (map (\<lambda>_. 0)) ?R :: tensor"
  let ?B = "group_baselines tail (map row_len msk) step index [0..<n] ?z"
  have T: "length (hd rewards) = T" using sh(1) it(1) by (cases rewards) (auto simp: rect_def dest: spec [of _ 0])
  have n: "length rewards = n" using sh(1) by (simp add: rect_def)
  have adv: "ret = ?R" "adv = tmap2 (*) (tmap2 (-) ?R ?B) msk"
    using run unfolding step_def W by (auto simp: compute_optimal_token_baseline_advantage_def Let_def check_index_def n sh(3) T)
  have R: "rect n T ?R" by (rule rect_map [OF rect_map2 [OF sh(1,2)]]) auto
  have z: "rect n T ?z" by (rule rect_map [OF R]) simp
  let ?g = "filter (\<lambda>j. index ! j = index ! i) [0..<n]"
  have g: "set ?g = group_of index (index ! i)" "distinct ?g" using sh(3) by (auto simp: group_of_def)
  have cg: "length ?g = card (group_of index (index ! i))" using distinct_card [OF g(2)] g(1) by simp
  have st: "\<And>idx. length (step idx) = T" by (simp add: step_def)
  have Bs: "rect n T ?B" by (rule group_baselines_nth(1) [OF _ _ z st]) auto
  have "?B ! i ! t = (if i \<in> set [0..<n] \<and> length ?g \<noteq> 1 then baseline_entry tail (map row_len msk) step ?g i t else ?z ! i ! t)"
    by (rule group_baselines_nth(2) [OF _ _ z st it]) auto
  also have "\<dots> = token_baseline tail (map row_len msk) epsilon (\<lambda>k. ?R ! k ! t) (\<lambda>k. W ! k ! t * msk ! k ! t)
      (group_of index (index ! i)) i t"
  proof -
    have "?z ! i ! t = 0" using rect_nth [OF R it] by (simp only: nth_map)
    moreover have "step ?g ! t = (\<Sum>k \<in> set ?g. ?R ! k ! t * (W ! k ! t * msk ! k ! t)) / ((\<Sum>k \<in> set ?g. W ! k ! t * msk ! k ! t) + epsilon)"
      using it(2) g(2) by (simp add: step_def column_sum_set mult.assoc del: set_filter)
    ultimately show ?thesis using it(1) unfolding baseline_entry_def token_baseline_def g(1) cg by simp
  qed
  finally have entry: "?B ! i ! t = token_baseline tail (map row_len msk) epsilon (\<lambda>k. ?R ! k ! t) (\<lambda>k. W ! k ! t * msk ! k ! t)
      (group_of index (index ! i)) i t" .
  have d: "rect n T (tmap2 (-) ?R ?B)" by (rule rect_map2 [OF R Bs]) simp
  show "ret = ?R" by (rule adv(1))
  show "adv ! i ! t = (ret ! i ! t - token_baseline tail (map row_len msk) epsilon (\<lambda>k. ret ! k ! t)
            (\<lambda>k. W ! k ! t * msk ! k ! t) (group_of index (index ! i)) i t) * msk ! i ! t"
    unfolding adv by (simp only: rect_entry2 [OF d sh(2) it] rect_entry2 [OF R Bs it] entry)
  show "rect n T adv" unfolding adv by (rule rect_map2 [OF d sh(2)]) simp
qed

lemma reward_to_go_nth: "t < length xs \<Longrightarrow> reward_to_go xs ! t = sum_list (drop t xs)"
proof -
  assume t: "t < length xs"
  then have "reward_to_go xs ! t = sum_list (take (length xs - t) (rev xs))"
    by (simp add: reward_to_go_def rev_nth nth_cumsum Suc_diff_Suc)
  then show ?thesis using t by (simp add: take_rev sum_list_rev)
qed

text \<open>The weighted squared error of one baseline for a group, with a small penalty.\<close>

definition baseline_cost :: "real \<Rightarrow> (nat \<Rightarrow> real) \<Rightarrow> (nat \<Rightarrow> real) \<Rightarrow> nat set \<Rightarrow> real \<Rightarrow> real" where
  "baseline_cost epsilon G W grp b = (\<Sum>k \<in> grp. W k * (G k - b) ^ 2) + epsilon * b ^ 2"

lemma baseline_minimises_cost:
  assumes "0 < epsilon" "\<And>k. k \<in> grp \<Longrightarrow> 0 \<le> W k" "c \<noteq> (\<Sum>k \<in> grp. G k * W k) / ((\<Sum>k \<in> grp. W k) + epsilon)"
  shows "baseline_cost epsilon G W grp ((\<Sum>k \<in> grp. G k * W k) / ((\<Sum>k \<in> grp. W k) + epsilon)) < baseline_cost epsilon G W grp c"
proof -
  let ?S = "(\<Sum>k \<in> grp. W k) + epsilon" and ?N = "\<Sum>k \<in> grp. G k * W k"
  have S: "0 < ?S" using assms(1) sum_nonneg [of grp W] assms(2) by fastforce
  have quad: "(A - 2 * c * N + D * c ^ 2) - (A - 2 * (N / D) * N + D * (N / D) ^ 2) = D * (c - N / D) ^ 2" if "0 < D" for A N D :: real
    using that by (simp add: field_simps power2_eq_square)
  have cost: "baseline_cost epsilon G W grp b = (\<Sum>k \<in> grp. W k * G k ^ 2) - 2 * b * ?N + ?S * b ^ 2" for b
    by (simp add: baseline_cost_def power2_diff algebra_simps sum.distrib sum_subtractf sum_distrib_left sum_distrib_right)
  have "baseline_cost epsilon G W grp c - baseline_cost epsilon G W grp (?N / ?S) = ?S * (c - ?N / ?S) ^ 2"
    unfolding cost by (rule quad [OF S])
  moreover have "0 < ?S * (c - ?N / ?S) ^ 2" using S assms(3) by simp
  ultimately show ?thesis by linarith
qed

lemma path_variance_nonneg:
  assumes "rect n T l" "rect n T p" "rect n T msk" "mask01 msk" "\<forall>w. r = Some w \<longrightarrow> rect n T w"
    and "\<forall>i < n. \<forall>t < T. exp (l ! i ! t) ^ 2 \<le> p ! i ! t" "i < n" "t < T"
  shows "0 \<le> path_variance (token_weights l p r) msk ! i ! t * msk ! i ! t"
proof -
  have w: "rect n T (token_weights l p r)"
    using assms(1,2,5) by (auto simp: token_weights_def Let_def split: option.splits intro!: rect_map2 [where S = T and T = T])
  have w0: "0 \<le> token_weights l p r ! i ! u" if "u < T" for u
  proof -
    let ?x = "exp (l ! i ! u)" and ?w = "tmap2 (\<lambda>l s. 1 - 2 * exp l + s) l p"
    have e: "?w ! i ! u = 1 - 2 * ?x + p ! i ! u" by (rule rect_entry2 [OF assms(1,2,7) that])
    have "?x ^ 2 \<le> p ! i ! u" using assms(6,7) that by blast
    moreover have "0 \<le> (1 - ?x) ^ 2" by simp
    ultimately have "0 \<le> ?w ! i ! u" unfolding e by (simp add: power2_diff)
    moreover have "rect n T ?w" by (rule rect_map2 [OF assms(1,2)]) simp
    ultimately show ?thesis using assms(5,7) that by (auto simp: token_weights_def Let_def rect_entry2 split: option.splits)
  qed
  have m: "0 \<le> msk ! i ! u" if "u < T" for u
    using mask01_entry [OF assms(4,3,7) that] by auto
  have len: "length (tmap2 (*) (token_weights l p r) msk) = n" "length (tmap2 (*) (token_weights l p r) msk ! i) = T"
    using w assms(3,7) by (auto simp: rect_def)
  have "path_variance (token_weights l p r) msk ! i ! t = sum_list (take (Suc t) (tmap2 (*) (token_weights l p r) msk ! i))"
    using len assms(7,8) by (simp add: path_variance_def nth_cumsum)
  moreover have "0 \<le> sum_list (take (Suc t) (tmap2 (*) (token_weights l p r) msk ! i))"
  proof (rule sum_list_nonneg)
    fix x assume "x \<in> set (take (Suc t) (tmap2 (*) (token_weights l p r) msk ! i))"
    then obtain u where u: "u < T" and x: "x = tmap2 (*) (token_weights l p r) msk ! i ! u"
      using len by (auto dest!: in_set_takeD simp: in_set_conv_nth)
    show "0 \<le> x" unfolding x rect_entry2 [OF w assms(3,7) u] using w0 [OF u] m [OF u] by simp
  qed
  ultimately show ?thesis using m assms(8) by simp
qed

text \<open>
  [C36] The optimal token baseline, for rectangular tensors, a 0/1 mask, \<open>epsilon > 0\<close>, and sums of squared probabilities that are at
  least the square of the sampled token's: the returns are the rewards to go; the advantage of a valid token is its reward to go minus the
  baseline of its group at its position, and that baseline is the one number \<open>b\<close> that minimises the penalised weighted squared error
  \<open>sum over the group of W (G - b) ^ 2, plus epsilon b ^ 2\<close>. \<open>G\<close> is the reward to go and \<open>W\<close> the path variance accumulated up to the
  position, of the responses that still run; with importance weights its summands are multiplied with the squared weight of their own
  position before they are accumulated. (The penalty comes from the code's division by \<open>sum W + epsilon\<close>. The documentation scales the
  accumulated sum with the squared weight of the last position instead.) A response alone in its group, and the part of the longest
  response beyond all others when \<open>handle_zero_tail\<close> is set, keep the reward to go; padding gets nothing.
\<close>

theorem otb_baseline_optimal:
  assumes run: "compute_optimal_token_baseline_advantage rewards msk index l p r tail epsilon = Inr (adv, ret)"
    and sh: "rect n T rewards" "rect n T msk" "rect n T l" "rect n T p" "\<forall>w. r = Some w \<longrightarrow> rect n T w" "length index = n"
    and "mask01 msk" "0 < epsilon" and pi: "\<forall>i < n. \<forall>t < T. exp (l ! i ! t) ^ 2 \<le> p ! i ! t"
    and it: "i < n" "t < T"
  shows "ret ! i ! t = (\<Sum>u = t..<T. rewards ! i ! u * msk ! i ! u)
    \<and> (msk ! i ! t = 0 \<longrightarrow> adv ! i ! t = 0)
    \<and> (msk ! i ! t \<noteq> 0 \<longrightarrow>
        (if card (group_of index (index ! i)) = 1 \<or> (tail \<and> beyond_others (map row_len msk) (group_of index (index ! i)) i t)
         then adv ! i ! t = ret ! i ! t
         else \<forall>c. c \<noteq> ret ! i ! t - adv ! i ! t \<longrightarrow>
           baseline_cost epsilon (\<lambda>k. ret ! k ! t) (\<lambda>k. path_variance (token_weights l p r) msk ! k ! t * msk ! k ! t)
             (group_of index (index ! i)) (ret ! i ! t - adv ! i ! t)
           < baseline_cost epsilon (\<lambda>k. ret ! k ! t) (\<lambda>k. path_variance (token_weights l p r) msk ! k ! t * msk ! k ! t)
             (group_of index (index ! i)) c))"
proof -
  note E = otb_entry [OF run sh(1,2,6) refl it]
  let ?g = "group_of index (index ! i)" and ?W = "\<lambda>k. path_variance (token_weights l p r) msk ! k ! t * msk ! k ! t"
  have m: "msk ! i ! t = 0 \<or> msk ! i ! t = 1" by (rule mask01_entry [OF assms(8) sh(2) it])
  have W: "0 \<le> ?W k" if "k \<in> ?g" for k
    using path_variance_nonneg [OF sh(3,4,2) assms(8) sh(5) pi _ it(2)] that sh(6) by (auto simp: group_of_def)
  have rt: "ret ! i ! t = (\<Sum>u = t..<T. rewards ! i ! u * msk ! i ! u)"
  proof -
    let ?row = "map2 (*) (rewards ! i) (msk ! i)"
    have "ret ! i = reward_to_go ?row" using E(1) sh(1,2) it by (simp add: rect_def)
    moreover have "length ?row = T" using sh(1,2) it by (simp add: rect_def)
    ultimately have "ret ! i ! t = sum_list (drop t ?row)" using it by (simp add: reward_to_go_nth)
    also have "\<dots> = (\<Sum>u = 0..<T - t. drop t ?row ! u)" using \<open>length ?row = T\<close> by (simp add: sum_list_sum_nth)
    also have "\<dots> = (\<Sum>u = 0..<T - t. ?row ! (u + t))" using \<open>length ?row = T\<close> it by (intro sum.cong) (simp_all add: add.commute)
    also have "\<dots> = (\<Sum>u = t..<T. ?row ! u)" using it sum.shift_bounds_nat_ivl [of "(!) ?row" 0 t "T - t"] by simp
    also have "\<dots> = (\<Sum>u = t..<T. rewards ! i ! u * msk ! i ! u)" using sh(1,2) it by (intro sum.cong) (auto simp: rect_def)
    finally show ?thesis .
  qed
  show ?thesis
  proof (cases "msk ! i ! t = 0")
    case False
    then have adv: "ret ! i ! t - adv ! i ! t = token_baseline tail (map row_len msk) epsilon (\<lambda>k. ret ! k ! t) ?W ?g i t"
      using E(2) m by simp
    show ?thesis
    proof (cases "card ?g = 1 \<or> (tail \<and> beyond_others (map row_len msk) ?g i t)")
      case True
      then have "adv ! i ! t = ret ! i ! t" using adv by (simp add: token_baseline_def)
      then show ?thesis using True False rt by (simp only: if_True simp_thms)
    next
      case C: False
      have b: "ret ! i ! t - adv ! i ! t = (\<Sum>k \<in> ?g. ret ! k ! t * ?W k) / ((\<Sum>k \<in> ?g. ?W k) + epsilon)"
        unfolding adv token_baseline_def using C by (simp only: if_False)
      have best: "baseline_cost epsilon (\<lambda>k. ret ! k ! t) ?W ?g (ret ! i ! t - adv ! i ! t)
          < baseline_cost epsilon (\<lambda>k. ret ! k ! t) ?W ?g c" if "c \<noteq> ret ! i ! t - adv ! i ! t" for c
        unfolding b by (rule baseline_minimises_cost [OF assms(9) W]) (use that b in auto)
      show ?thesis using rt False best C by (simp only: if_False simp_thms) blast
    qed
  qed (use E(2) rt in simp)
qed

section \<open>The multi-turn estimator on single-turn batches\<close>

text \<open>The mask of a response without observations: ones, then padding.\<close>

definition prefix_mask :: "nat \<Rightarrow> real list \<Rightarrow> bool" where
  "prefix_mask T row \<longleftrightarrow> (\<exists>l \<le> T. row = replicate l 1 @ replicate (T - l) 0)"

lemma prefix_row:
  assumes "prefix_mask T row"
  shows "row = replicate (row_len row) 1 @ replicate (T - row_len row) 0" "row_len row \<le> T" "length row = T"
    and "t < T \<Longrightarrow> row ! t = (if t < row_len row then 1 else 0)"
proof -
  obtain l where l: "l \<le> T" "row = replicate l 1 @ replicate (T - l) 0" using assms by (auto simp: prefix_mask_def)
  then have len: "row_len row = l" by (simp add: row_len_def sum_list_replicate)
  show "row = replicate (row_len row) 1 @ replicate (T - row_len row) 0" "row_len row \<le> T" "length row = T"
    using l len by simp_all
  show "t < T \<Longrightarrow> row ! t = (if t < row_len row then 1 else 0)" unfolding len using l by (simp add: nth_append)
qed

lemma unpack_prefix: "unpack_row (replicate (length vs) 1 @ replicate k 0) vs = vs @ replicate k 0"
proof (induction vs)
  case Nil
  show ?case by (induction k) simp_all
qed simp

lemma valid1_prefix:
  assumes "prefix_mask T row" "length v = T"
  shows "valid1 v row = take (row_len row) v"
proof -
  have "valid1 v (replicate l 1 @ replicate k 0) = take l v" if "length v = l + k" for l k and v :: "real list"
    using that
  proof (induction l arbitrary: v)
    case 0
    have "valid1 v (replicate k 0) = []" for v :: "real list" and k
    proof (induction k arbitrary: v)
      case (Suc k) then show ?case by (cases v) (auto simp: valid1_def)
    qed (simp add: valid1_def)
    then show ?case by simp
  next
    case (Suc l) then show ?case by (cases v) (auto simp: valid1_def)
  qed
  then show ?thesis using prefix_row [OF assms(1)] assms(2) by (metis le_add_diff_inverse)
qed

lemma pack_prefix:
  assumes "prefix_mask T row" "length v = T" "row_len row \<le> N"
  shows "length (pack_row N v row) = N" "t < N \<Longrightarrow> pack_row N v row ! t = (if t < row_len row then v ! t else 0)"
  using prefix_row(2) [OF assms(1)] assms(2,3) by (simp_all add: pack_row_def Let_def valid1_prefix [OF assms(1,2)] nth_append)

lemma token_baseline_cong:
  assumes "\<And>k. k \<in> grp \<Longrightarrow> G k * W k = G' k * W' k" "\<And>k. k \<in> grp \<Longrightarrow> W k = W' k"
  shows "token_baseline tail lens epsilon G W grp i t = token_baseline tail lens epsilon G' W' grp i t"
proof -
  have "(\<Sum>k \<in> grp. G k * W k) = (\<Sum>k \<in> grp. G' k * W' k)" "sum W grp = sum W' grp"
    using assms by (auto intro: sum.cong)
  then show ?thesis by (simp only: token_baseline_def)
qed

lemma multi_turn_entry:
  assumes run: "compute_multi_turn_optimal_token_baseline_advantage rewards msk index l p r tail epsilon = Inr (adv, ret)"
    and sh: "rect n T rewards" "rect n T msk" "length index = n" "rect n T W"
    and W: "W = path_variance (token_weights l p r) msk" and pre: "\<forall>i < n. prefix_mask T (msk ! i)" and it: "i < n" "t < T"
  shows "ret = returns_of rewards msk"
    and "adv ! i ! t = (ret ! i ! t - token_baseline tail (map row_len msk) epsilon (\<lambda>k. ret ! k ! t)
            (\<lambda>k. W ! k ! t * msk ! k ! t) {k \<in> group_of index (index ! i). map row_len msk ! k \<noteq> 0} i t) * msk ! i ! t"
    and "rect n T adv"
proof -
  let ?R = "returns_of rewards msk"
  define lens where "lens = map row_len msk"
  define N where "N = (if lens = [] then 0 else Max (set lens))"
  define R where "R = map2 (pack_row N) ?R msk"
  define V where "V = map2 (pack_row N) W msk"
  define rows where "rows = filter (\<lambda>i. lens ! i \<noteq> 0) [0..<length lens]"
  define step where "step idx = map (\<lambda>t. column_sum idx (\<lambda>i. R ! i ! t * V ! i ! t) / (column_sum idx (\<lambda>i. V ! i ! t) + epsilon)) [0..<N]" for idx
  define z where "z = map (map (\<lambda>_. 0 :: real)) R"
  define B where "B = group_baselines tail lens step index rows z"
  define A where "A = tmap2 (-) R B"
  define out where "out = map2 (\<lambda>m (l, a). if l = 0 then map (\<lambda>_. 0) m else unpack_row m (take l a)) msk (zip lens A)"
  have ls: "length lens = n" "\<And>k. k < n \<Longrightarrow> lens ! k = row_len (msk ! k)" using sh(2) by (auto simp: lens_def rect_def)
  have rows: "distinct rows" "set rows = {k. k < n \<and> lens ! k \<noteq> 0}" by (auto simp: rows_def ls(1))
  have ix: "\<not> (\<exists>i \<in> set rows. length index \<le> i)" using rows(2) sh(3) by auto
  have "Inr (adv, ret) = (Inr (tmap2 (*) out msk, ?R) :: (tensor \<times> tensor) result)"
    using ix run [symmetric] unfolding out_def A_def B_def z_def step_def rows_def V_def R_def W N_def lens_def
    by (simp only: compute_multi_turn_optimal_token_baseline_advantage_def Let_def if_False)
  then have res: "adv = tmap2 (*) out msk" "ret = ?R" by simp_all
  have le: "row_len (msk ! k) \<le> N" if "k < n" for k
    using ls that by (auto simp: N_def simp flip: ls(2) intro: Max_ge)
  have rR: "rect n T ?R" by (rule rect_map [OF rect_map2 [OF sh(1,2)]]) auto
  have pk: "length (map2 (pack_row N) X msk ! k) = N"
    "s < N \<Longrightarrow> map2 (pack_row N) X msk ! k ! s = (if s < row_len (msk ! k) then X ! k ! s else 0)"
    if "rect n T X" "k < n" for X k s
    using pack_prefix [of T "msk ! k" "X ! k" N] pre le that sh(2) by (simp_all add: rect_def)
  have Rr: "rect n N R" and Vr: "rect n N V"
    using pk(1) [OF rR] pk(1) [OF sh(4)] rR sh(2,4) unfolding R_def V_def rect_def by (auto simp del: nth_map nth_zip)
  have zr: "rect n N z" unfolding z_def by (rule rect_map [OF Rr]) simp
  have st: "length (step idx) = N" for idx by (simp add: step_def)
  note GB = group_baselines_nth [OF rows(1) _ zr st]
  have sub: "set rows \<subseteq> {..<n}" using rows(2) by auto
  have Br: "rect n N B" unfolding B_def by (rule GB(1) [OF sub])
  have Ar: "rect n N A" unfolding A_def by (rule rect_map2 [OF Rr Br]) simp
  have unp: "length (unpack_row (msk ! k) (take (lens ! k) a)) = T"
      "s < T \<Longrightarrow> unpack_row (msk ! k) (take (lens ! k) a) ! s = (if s < lens ! k then a ! s else 0)"
    if "k < n" "length a = N" for k a s
  proof -
    let ?vs = "take (lens ! k) a"
    have pk: "prefix_mask T (msk ! k)" using pre that(1) by blast
    have len: "length ?vs = lens ! k" using le [OF that(1)] that ls(2) by simp
    have "msk ! k = replicate (length ?vs) 1 @ replicate (T - lens ! k) 0"
      unfolding len using prefix_row(1) [OF pk] ls(2) [OF that(1)] by simp
    then have "unpack_row (msk ! k) ?vs = ?vs @ replicate (T - lens ! k) 0" using unpack_prefix by metis
    moreover have "lens ! k \<le> T" using prefix_row(2) [OF pk] ls(2) [OF that(1)] by simp
    ultimately show "length (unpack_row (msk ! k) ?vs) = T"
      "s < T \<Longrightarrow> unpack_row (msk ! k) ?vs ! s = (if s < lens ! k then a ! s else 0)"
      using len by (simp_all add: nth_append)
  qed
  have outr: "rect n T out" using sh(2) ls(1) Ar unp(1) by (auto simp: out_def rect_def)
  have out: "out ! i ! t = (if t < lens ! i then A ! i ! t else 0)"
    using it sh(2) ls(1) Ar unp(2) by (auto simp: out_def rect_def)
  have m: "msk ! i ! t = (if t < lens ! i then 1 else 0)"
    using prefix_row(4) [of T "msk ! i" t] pre it ls(2) by simp
  show "ret = ?R" by (rule res(2))
  show "rect n T adv" unfolding res(1) by (rule rect_map2 [OF outr sh(2)]) simp
  let ?g = "{k \<in> group_of index (index ! i). map row_len msk ! k \<noteq> 0}"
  show "adv ! i ! t = (ret ! i ! t - token_baseline tail (map row_len msk) epsilon (\<lambda>k. ret ! k ! t)
            (\<lambda>k. W ! k ! t * msk ! k ! t) ?g i t) * msk ! i ! t"
  proof (cases "t < lens ! i")
    case True
    then have tN: "t < N" using le [OF it(1)] ls(2) [OF it(1)] by simp
    let ?f = "filter (\<lambda>j. index ! j = index ! i) rows"
    have f: "set ?f = ?g" "distinct ?f" using rows sh(3) by (auto simp: group_of_def lens_def)
    have cf: "length ?f = card ?g" using distinct_card [OF f(2)] f(1) by simp
    have i: "i \<in> set rows" using rows(2) it(1) True by auto
    have "B ! i ! t = (if i \<in> set rows \<and> length ?f \<noteq> 1 then baseline_entry tail lens step ?f i t else z ! i ! t)"
      unfolding B_def by (rule GB(2) [OF sub it(1) tN])
    also have "\<dots> = token_baseline tail lens epsilon (\<lambda>k. R ! k ! t) (\<lambda>k. V ! k ! t) ?g i t"
    proof -
      have "z ! i ! t = 0" unfolding z_def using rect_nth [OF Rr it(1) tN] by (simp only: nth_map)
      moreover have "step ?f ! t = (\<Sum>k \<in> set ?f. R ! k ! t * V ! k ! t) / ((\<Sum>k \<in> set ?f. V ! k ! t) + epsilon)"
        using tN f(2) by (simp add: step_def column_sum_set del: set_filter)
      ultimately show ?thesis using i unfolding baseline_entry_def token_baseline_def f(1) cf by simp
    qed
    also have "\<dots> = token_baseline tail lens epsilon (\<lambda>k. ?R ! k ! t) (\<lambda>k. W ! k ! t * msk ! k ! t) ?g i t"
    proof (rule token_baseline_cong)
      fix k assume "k \<in> ?g"
      then have k: "k < n" using sh(3) by (simp add: group_of_def)
      have mk: "msk ! k ! t = (if t < row_len (msk ! k) then 1 else 0)" using prefix_row(4) [of T "msk ! k" t] pre it(2) k by simp
      show "R ! k ! t * V ! k ! t = ?R ! k ! t * (W ! k ! t * msk ! k ! t)" "V ! k ! t = W ! k ! t * msk ! k ! t"
        unfolding R_def V_def pk(2) [OF rR k tN] pk(2) [OF sh(4) k tN] mk by simp_all
    qed
    finally have B: "B ! i ! t = token_baseline tail lens epsilon (\<lambda>k. ?R ! k ! t) (\<lambda>k. W ! k ! t * msk ! k ! t) ?g i t" .
    have "A ! i ! t = R ! i ! t - B ! i ! t" unfolding A_def by (rule rect_entry2 [OF Rr Br it(1) tN])
    moreover have "R ! i ! t = ?R ! i ! t" unfolding R_def pk(2) [OF rR it(1) tN] using True ls(2) it by simp
    moreover have "adv ! i ! t = out ! i ! t * msk ! i ! t" unfolding res(1) by (rule rect_entry2 [OF outr sh(2) it])
    ultimately show ?thesis using True B unfolding res(2) m out lens_def by (simp only: if_True)
  next
    case False
    have "adv ! i ! t = out ! i ! t * msk ! i ! t" unfolding res(1) by (rule rect_entry2 [OF outr sh(2) it])
    then show ?thesis using False m by simp
  qed
qed

text \<open>Empty responses do not change the baseline of a live token.\<close>

lemma token_baseline_without_empty:
  assumes "finite grp" "i \<in> grp" "0 < lens ! i" "\<And>k. k \<in> grp \<Longrightarrow> lens ! k = 0 \<Longrightarrow> W k = 0"
    and "tail \<or> (\<forall>k \<in> grp. lens ! k \<noteq> 0)"
  shows "token_baseline tail lens epsilon G W {k \<in> grp. lens ! k \<noteq> 0} i t = token_baseline tail lens epsilon G W grp i t"
proof -
  let ?g = "{k \<in> grp. lens ! k \<noteq> 0}"
  have sums: "(\<Sum>k \<in> ?g. G k * W k) = (\<Sum>k \<in> grp. G k * W k)" "sum W ?g = sum W grp"
    by (rule sum.mono_neutral_left; use assms(1) assms(4) in force)+
  have beyond: "beyond_others lens ?g i t \<longleftrightarrow> beyond_others lens grp i t"
    using assms(3) by (auto simp: beyond_others_def)
  have i: "i \<in> ?g" using assms(2,3) by simp
  have one: "card g = 1 \<longleftrightarrow> g = {i}" if "i \<in> g" for g :: "nat set" using that by (auto simp: card_1_singleton_iff)
  have "card grp = 1 \<or> (tail \<and> beyond_others lens grp i t)" if c: "card ?g = 1"
  proof (cases tail)
    case True
    have "?g = {i}" using one [OF i] c by blast
    then have "beyond_others lens ?g i t" unfolding beyond_others_def by blast
    then show ?thesis using True beyond by blast
  next
    case False
    then have "?g = grp" using assms(5) by auto
    then show ?thesis using c by simp
  qed
  moreover have "card ?g = 1" if "card grp = 1"
  proof -
    have "grp = {i}" using one [OF assms(2)] that by blast
    then have "?g = {i}" using assms(3) by auto
    then show ?thesis by simp
  qed
  ultimately show ?thesis unfolding token_baseline_def sums beyond by auto
qed

text \<open>
  [C37] On responses without observations the multi-turn estimator is the single-turn one: with masks that are ones and then
  padding, both return the same advantages and returns, provided the tail of the longest response is handled (the default)
  or no response is empty.
\<close>

theorem multi_turn_equals_single_turn:
  assumes sh: "rect n T rewards" "rect n T msk" "rect n T l" "rect n T p" "\<forall>w. r = Some w \<longrightarrow> rect n T w" "length index = n"
    and pos: "0 < n" "0 < T" and pre: "\<forall>i < n. prefix_mask T (msk ! i)"
    and tail: "tail \<or> (\<forall>i < n. msk ! i ! 0 \<noteq> 0)"
  shows "compute_multi_turn_optimal_token_baseline_advantage rewards msk index l p r tail epsilon
    = compute_optimal_token_baseline_advantage rewards msk index l p r tail epsilon"
proof -
  define W where "W = path_variance (token_weights l p r) msk"
  have Wr: "rect n T W" unfolding W_def path_variance_def
    by (rule rect_map [OF rect_map2 [OF _ sh(2), where S = T]])
       (use sh(3-5) in \<open>auto simp: token_weights_def Let_def split: option.splits intro!: rect_map2 [where S = T and T = T]\<close>)
  let ?lens = "map row_len msk"
  have lens: "?lens ! k = row_len (msk ! k)" "k < n \<Longrightarrow> k < length msk" if "k < n" for k using sh(2) that by (auto simp: rect_def)
  have m: "msk ! k ! t = (if t < ?lens ! k then 1 else 0)" if "k < n" "t < T" for k t
    using prefix_row(4) [of T "msk ! k" t] pre that lens by simp
  obtain a ra where single: "compute_optimal_token_baseline_advantage rewards msk index l p r tail epsilon = Inr (a, ra)"
    using sh(1,6) by (auto simp: compute_optimal_token_baseline_advantage_def Let_def check_index_def rect_def)
  obtain b rb where multi: "compute_multi_turn_optimal_token_baseline_advantage rewards msk index l p r tail epsilon = Inr (b, rb)"
    using sh(2,6) by (auto simp: compute_multi_turn_optimal_token_baseline_advantage_def Let_def rect_def split: if_splits)
  note S = otb_entry [OF single sh(1,2,6) W_def] and M = multi_turn_entry [OF multi sh(1,2,6) Wr W_def pre]
  have ret: "ra = rb" using S(1) [OF pos] M(1) [OF pos] by simp
  have "b ! i ! t = a ! i ! t" if it: "i < n" "t < T" for i t
  proof (cases "t < ?lens ! i")
    case True
    have "token_baseline tail ?lens epsilon G (\<lambda>k. W ! k ! t * msk ! k ! t) {k \<in> group_of index (index ! i). ?lens ! k \<noteq> 0} i t
        = token_baseline tail ?lens epsilon G (\<lambda>k. W ! k ! t * msk ! k ! t) (group_of index (index ! i)) i t" for G
    proof (rule token_baseline_without_empty)
      show "tail \<or> (\<forall>k \<in> group_of index (index ! i). ?lens ! k \<noteq> 0)"
      proof (cases tail)
        case False
        have "?lens ! k \<noteq> 0" if "k \<in> group_of index (index ! i)" for k
        proof -
          have "k < n" using that sh(6) by (simp add: group_of_def)
          then have "msk ! k ! 0 \<noteq> 0" using tail False by blast
          then show ?thesis unfolding m [OF \<open>k < n\<close> pos(2)] by (auto split: if_splits)
        qed
        then show ?thesis by blast
      qed simp
    qed (use True m [OF _ it(2)] it sh(6) in \<open>auto simp: group_of_def\<close>)
    then show ?thesis unfolding S(2) [OF it] M(2) [OF it] ret by (simp only:)
  qed (use S(2) [OF it] M(2) [OF it] m [OF it] in simp)
  then have "b = a" using S(3) [OF pos] M(3) [OF pos] by (auto simp: rect_def intro!: nth_equalityI)
  then show ?thesis using single multi ret by simp
qed

section \<open>A group of two responses\<close>

lemma ex_rect: "rect 2 2 [[x, y], [z, w]]"
  by (auto simp: rect_def less_Suc_eq numeral_2_eq_2)

theorem multi_turn_equals_single_turn_witness:
  "compute_multi_turn_optimal_token_baseline_advantage [[0, 1], [1, 0]] [[1, 1], [1, 0]] [''p'', ''p''] [[- 1, - 1], [- 1, - 1]] [[1, 1], [1, 1]]
      None True (1 / 10 ^ 8)
    = compute_optimal_token_baseline_advantage [[0, 1], [1, 0]] [[1, 1], [1, 0]] [''p'', ''p''] [[- 1, - 1], [- 1, - 1]] [[1, 1], [1, 1]]
      None True (1 / 10 ^ 8)"
proof (rule multi_turn_equals_single_turn [of 2 2])
  have "prefix_mask 2 [1, 1]" unfolding prefix_mask_def by (rule exI [of _ 2]) (simp add: numeral_2_eq_2)
  moreover have "prefix_mask 2 [1, 0]" unfolding prefix_mask_def by (rule exI [of _ 1]) (simp add: numeral_2_eq_2)
  ultimately show "\<forall>i < 2. prefix_mask 2 ([[1, 1], [1, 0]] ! i)" by (auto simp: less_Suc_eq numeral_2_eq_2)
qed (simp_all add: ex_rect)

theorem otb_baseline_optimal_witness:
  "\<exists>adv ret. compute_optimal_token_baseline_advantage [[0, 1], [1, 0]] [[1, 1], [1, 0]] [''p'', ''p''] [[- 1, - 1], [- 1, - 1]] [[1, 1], [1, 1]]
      None True (1 / 10 ^ 8) = Inr (adv, ret) \<and> ret ! 0 ! 0 = 1 \<and> adv ! 0 ! 1 = ret ! 0 ! 1"
proof -
  obtain adv ret where run: "compute_optimal_token_baseline_advantage [[0, 1], [1, 0]] [[1, 1], [1, 0]] [''p'', ''p''] [[- 1, - 1], [- 1, - 1]]
      [[1, 1], [1, 1]] None True (1 / 10 ^ 8) = Inr (adv, ret)"
    by (auto simp: compute_optimal_token_baseline_advantage_def Let_def check_index_def)
  have g: "group_of [''p'', ''p''] (''p'') = {0, 1}" by (auto simp: group_of_def less_Suc_eq)
  have len: "row_len [1, 1] = 2" "row_len [1, 0] = 1" by (simp_all add: row_len_def)
  have "beyond_others (map row_len [[1, 1], [1, 0]]) {0, 1} 0 1" by (auto simp: beyond_others_def len)
  moreover have m01: "mask01 [[1, 1], [1, 0]]" by (simp add: mask01_def)
  moreover have "\<forall>i < 2. \<forall>t < 2. exp ([[- 1, - 1], [- 1, - 1 :: real]] ! i ! t) ^ 2 \<le> [[1, 1], [1, 1]] ! i ! t"
    by (auto simp: less_Suc_eq numeral_2_eq_2 exp_le_one_iff mult_le_one)
  ultimately have "ret ! 0 ! 0 = 1" "adv ! 0 ! 1 = ret ! 0 ! 1"
    using otb_baseline_optimal [OF run ex_rect ex_rect ex_rect ex_rect _ _ m01, of 0 0]
      otb_baseline_optimal [OF run ex_rect ex_rect ex_rect ex_rect _ _ m01, of 0 1] g
    by (simp_all add: numeral_2_eq_2)
  then show ?thesis using run by blast
qed

text \<open>Importance weights scale the summands of the path variance; the documentation scales the accumulated sum.\<close>

lemma is_weights_scale_summands:
  "path_variance (token_weights [[0, 0]] [[2, 2]] (Some [[1, 2]])) [[1, 1]] = [[1, 5]]"
  "tmap2 (\<lambda>r W. r ^ 2 * W) [[1, 2]] (path_variance (token_weights [[0, 0]] [[2, 2]] None) [[1, 1]]) = [[1, 8]]"
  by (simp_all add: path_variance_def token_weights_def Let_def)

end
