(* ===== verification/Further_Losses.thy ===== *)
theory Further_Losses
  imports Rollout_Correction Token_Baseline
begin

text \<open>
  The remaining policy losses of \<open>verl/trainer/ppo/core_algos.py\<close>: SAPO, GPG, Clip-Cov, KL-Cov and the geometric mean. The
  random permutation of Clip-Cov and the choice of \<open>torch.topk\<close> among equal values are parameters. Metrics are lists of
  names and values.
\<close>

section \<open>Configuration\<close>

record cov_config =
  cv_clip_cov_ratio :: "real option"
  cv_clip_cov_lb :: "real option"
  cv_clip_cov_ub :: "real option"
  cv_kl_cov_ratio :: "real option"
  cv_ppo_kl_coef :: "real option"

record policy_config = actor_config +
  pc_tau_pos :: real
  pc_tau_neg :: real
  pc_policy_loss :: "cov_config option"

section \<open>SAPO and GPG\<close>

definition sigmoid :: "real \<Rightarrow> real" where
  "sigmoid y = 1 / (1 + exp (- y))"

definition gate_function :: "real \<Rightarrow> real \<Rightarrow> real" where
  "gate_function x tau = sigmoid (tau * (x - 1)) * (4 / tau)"

definition compute_policy_loss_sapo ::
  "nat \<Rightarrow> tensor \<Rightarrow> tensor \<Rightarrow> tensor \<Rightarrow> tensor \<Rightarrow> string \<Rightarrow> policy_config option \<Rightarrow> tensor option
     \<Rightarrow> (real \<times> metrics) result" where
  "compute_policy_loss_sapo horizon old_log_prob log_prob advantages msk mode config weights =
     (case config of
        None \<Rightarrow> Inl (AssertionError ''config is not None'')
      | Some cfg \<Rightarrow>
          (let ratio = tmap2 ppo_ratio log_prob old_log_prob;
               losses = tmap2 (\<lambda>A r. - gate_function r (if A > 0 then pc_tau_pos cfg else pc_tau_neg cfg) * A) advantages ratio
           in bind_r (agg_loss horizon (apply_is_weights weights losses) msk ''seq-mean-token-mean'' (ac_global_batch_info cfg))
                (\<lambda>loss. Inr (loss, [(''actor/pg_clipfrac'', 0),
                   (''actor/ppo_kl'', masked_mean (tmap2 (\<lambda>l ol. - neg_approx_kl l ol) log_prob old_log_prob) msk),
                   (''actor/pg_clipfrac_lower'', 0)]))))"

definition compute_policy_loss_gpg ::
  "nat \<Rightarrow> tensor \<Rightarrow> tensor \<Rightarrow> tensor \<Rightarrow> tensor \<Rightarrow> string \<Rightarrow> policy_config option \<Rightarrow> tensor option
     \<Rightarrow> (real \<times> metrics) result" where
  "compute_policy_loss_gpg horizon old_log_prob log_prob advantages msk mode config weights =
     (case config of
        None \<Rightarrow> Inl (AssertionError ''config is not None'')
      | Some cfg \<Rightarrow>
          bind_r (agg_loss horizon (apply_is_weights weights (tmap2 (\<lambda>l A. - l * A) log_prob advantages)) msk mode
                    (ac_global_batch_info cfg))
            (\<lambda>loss. Inr (loss, [])))"

section \<open>Clip-Cov\<close>

text \<open>The positions of a tensor in row-major order, as \<open>torch.nonzero\<close> lists them.\<close>

definition positions :: "'a list list \<Rightarrow> (nat \<times> nat) list" where
  "positions t = concat (map (\<lambda>i. map (Pair i) [0..<length (t ! i)]) [0..<length t])"

definition entry_at :: "'a list list \<Rightarrow> nat \<times> nat \<Rightarrow> 'a" where
  "entry_at t = (\<lambda>(i, j). t ! i ! j)"

definition set_entry :: "'a list list \<Rightarrow> nat \<times> nat \<Rightarrow> 'a \<Rightarrow> 'a list list" where
  "set_entry t = (\<lambda>(i, j) x. t[i := (t ! i)[j := x]])"

text \<open>\<open>cov_all\<close>; \<open>None\<close> stands for minus infinity.\<close>

definition cov_all :: "tensor \<Rightarrow> tensor \<Rightarrow> tensor \<Rightarrow> tensor \<Rightarrow> tensor \<Rightarrow> nat \<times> nat \<Rightarrow> real option" where
  "cov_all advantages log_prob msk losses1 losses2 p =
     (if entry_at msk p = 0 \<or> (entry_at losses2 p > entry_at losses1 p \<and> entry_at msk p > 0) then None
      else Some ((entry_at advantages p - masked_mean advantages msk) * (entry_at log_prob p - masked_mean log_prob msk)))"

text \<open>The tokens that are dropped: at most \<open>clip_num\<close> of the candidates, in the order of a random permutation.\<close>

definition cov_candidates :: "(nat \<times> nat \<Rightarrow> real option) \<Rightarrow> real \<Rightarrow> real \<Rightarrow> tensor \<Rightarrow> (nat \<times> nat) list" where
  "cov_candidates cov lb ub msk =
     filter (\<lambda>p. entry_at msk p > 0 \<and> (case cov p of None \<Rightarrow> False | Some c \<Rightarrow> c < ub \<and> c > lb)) (positions msk)"

definition cov_selected :: "(nat \<Rightarrow> nat list) \<Rightarrow> nat \<Rightarrow> (nat \<times> nat) list \<Rightarrow> (nat \<times> nat) list" where
  "cov_selected randperm clip_num candidates =
     (if candidates = [] then []
      else map ((!) candidates) (take (min clip_num (length candidates)) (randperm (length candidates))))"

definition clip_cov_corr :: "(nat \<Rightarrow> nat list) \<Rightarrow> real \<Rightarrow> real \<Rightarrow> real \<Rightarrow> tensor \<Rightarrow> tensor \<Rightarrow> tensor \<Rightarrow> tensor \<Rightarrow> tensor \<Rightarrow> tensor" where
  "clip_cov_corr randperm ratio lb ub advantages log_prob msk losses1 losses2 =
     (let clip_num = max (nat \<lfloor>ratio * tsum msk\<rfloor>) 1;
          candidates = cov_candidates (cov_all advantages log_prob msk losses1 losses2) lb ub msk
      in fold (\<lambda>p c. set_entry c p 0) (cov_selected randperm clip_num candidates) (ones_like advantages))"

definition compute_policy_loss_clip_cov ::
  "(nat \<Rightarrow> nat list) \<Rightarrow> nat \<Rightarrow> tensor \<Rightarrow> tensor \<Rightarrow> tensor \<Rightarrow> tensor \<Rightarrow> string \<Rightarrow> policy_config option \<Rightarrow> tensor option
     \<Rightarrow> (real \<times> metrics) result" where
  "compute_policy_loss_clip_cov randperm horizon old_log_prob log_prob advantages msk mode config weights =
     (case config of
        None \<Rightarrow> Inl (AssertionError ''config is not None'')
      | Some cfg \<Rightarrow>
          (case pc_policy_loss cfg of
             None \<Rightarrow> Inl (AssertionError ''config.policy_loss is not None'')
           | Some pl \<Rightarrow>
               (let cov_ratio = opt_default (2 / 10 ^ 4) (cv_clip_cov_ratio pl);
                    lo = ratio_low (actor_config.truncate cfg); hi = ratio_high (actor_config.truncate cfg);
                    ub = opt_default 5 (cv_clip_cov_ub pl); lb = opt_default 1 (cv_clip_cov_lb pl);
                    ratio = tmap2 (\<lambda>l ol. exp (l - ol)) log_prob old_log_prob;
                    losses1 = tmap2 pg_loss1 advantages ratio;
                    losses2 = tmap2 (pg_loss2 lo hi) advantages ratio;
                    corr = clip_cov_corr randperm cov_ratio lb ub advantages log_prob msk losses1 losses2
                in if \<not> cov_ratio > 0 then Inl (AssertionError ''clip_ratio should be larger than 0.'')
                   else bind_r (agg_loss horizon (apply_is_weights weights (tmap2 (*) (tmap2 max losses1 losses2) corr)) msk mode
                                  (ac_global_batch_info cfg))
                          (\<lambda>loss. Inr (loss, [(''actor/pg_clipfrac'', masked_mean (map (map (\<lambda>c. of_flag (c = 0))) corr) msk),
                             (''actor/ppo_kl'', masked_mean (tmap2 (\<lambda>l ol. - (l - ol)) log_prob old_log_prob) msk)])))))"

section \<open>KL-Cov\<close>

definition cov_list :: "real list \<Rightarrow> real list \<Rightarrow> real list" where
  "cov_list adv logp = map2 (\<lambda>a l. (a - mean_of adv) * (l - mean_of logp)) adv logp"

text \<open>The tokens with the largest covariance get the penalty. \<open>torch.topk\<close> fails when more are asked for than there are.\<close>

definition kl_cov_positions :: "(real list \<Rightarrow> nat \<Rightarrow> nat list) \<Rightarrow> real \<Rightarrow> tensor \<Rightarrow> tensor \<Rightarrow> tensor \<Rightarrow> (nat \<times> nat) list result" where
  "kl_cov_positions topk kl_cov_ratio advantages log_prob msk =
     (let valid = filter (\<lambda>p. entry_at msk p > 0) (positions msk);
          cov = cov_list (map (entry_at advantages) valid) (map (entry_at log_prob) valid);
          k = max 1 (nat \<lfloor>real (length cov) * kl_cov_ratio\<rfloor>)
      in if valid = [] then Inr []
         else if k > length cov then Inl (RuntimeError ''selected index k out of range'')
         else Inr (map ((!) valid) (topk cov k)))"

definition compute_policy_loss_kl_cov ::
  "(real list \<Rightarrow> nat \<Rightarrow> nat list) \<Rightarrow> nat \<Rightarrow> tensor \<Rightarrow> tensor \<Rightarrow> tensor \<Rightarrow> tensor \<Rightarrow> string \<Rightarrow> policy_config option
     \<Rightarrow> tensor option \<Rightarrow> (real \<times> metrics) result" where
  "compute_policy_loss_kl_cov topk horizon old_log_prob log_prob advantages msk mode config weights =
     (case config of
        None \<Rightarrow> Inl (AssertionError ''config is not None'')
      | Some cfg \<Rightarrow>
          (case pc_policy_loss cfg of
             None \<Rightarrow> Inl (AssertionError ''config.policy_loss is not None'')
           | Some pl \<Rightarrow>
               (let kl_cov_ratio = opt_default (2 / 10 ^ 4) (cv_kl_cov_ratio pl);
                    coef = opt_default 1 (cv_ppo_kl_coef pl);
                    negative_approx_kl = tmap2 (-) log_prob old_log_prob;
                    losses1 = tmap2 (\<lambda>A k. - A * exp k) advantages negative_approx_kl;
                    losses_kl = tmap2 (\<lambda>s k. s + coef * \<bar>k\<bar>) losses1 negative_approx_kl
                in if \<not> kl_cov_ratio > 0 then Inl (AssertionError ''kl_cov_ratio should be larger than 0.'')
                   else bind_r (kl_cov_positions topk kl_cov_ratio advantages log_prob msk) (\<lambda>ps.
                     let losses = fold (\<lambda>p s. set_entry s p (entry_at losses_kl p)) ps losses1
                     in bind_r (agg_loss horizon (apply_is_weights weights losses) msk mode (ac_global_batch_info cfg))
                          (\<lambda>loss. Inr (loss, [(''actor/ppo_kl'', masked_mean (map (map abs) negative_approx_kl) msk)]))))))"

section \<open>The geometric mean\<close>

text \<open>The log ratio of one token, clipped towards zero on the side that the advantage rewards.\<close>

definition geo_log_ratio :: "real \<Rightarrow> real \<Rightarrow> real \<Rightarrow> real \<Rightarrow> real" where
  "geo_log_ratio lo hi A k = sgn A * min (sgn A * k) (sgn A * clamp (- lo) hi k)"

definition geo_row :: "real \<Rightarrow> real \<Rightarrow> real list \<Rightarrow> real list \<Rightarrow> real list \<Rightarrow> real" where
  "geo_row lo hi adv k row_mask =
     exp (sum_list (map2 (*) (map2 (geo_log_ratio lo hi) adv k) row_mask) / (sum_list row_mask + 1 / 10 ^ 8))"

definition compute_policy_loss_geo_mean ::
  "tensor \<Rightarrow> tensor \<Rightarrow> tensor \<Rightarrow> tensor \<Rightarrow> policy_config option \<Rightarrow> tensor option \<Rightarrow> (real \<times> metrics) result" where
  "compute_policy_loss_geo_mean old_log_prob log_prob advantages msk config weights =
     (case config of
        None \<Rightarrow> Inl (AssertionError ''config is not None'')
      | Some cfg \<Rightarrow>
          (let lo = ratio_low (actor_config.truncate cfg); hi = ratio_high (actor_config.truncate cfg);
               k = tmap2 (-) log_prob old_log_prob;
               ratio = map2 (\<lambda>adv (k, m). geo_row lo hi adv k m) advantages (zip k msk);
               advantage = map2 (\<lambda>adv m. sum_list (map2 (*) adv m) / (sum_list m + 1 / 10 ^ 8)) advantages msk;
               losses = map2 (\<lambda>a r. - a * r) advantage ratio;
               losses = (case weights of None \<Rightarrow> losses
                 | Some w \<Rightarrow> map2 (\<lambda>s (w, m). s * exp (sum_list (map2 (*) (map (\<lambda>x. ln (x + 1 / 10 ^ 10)) w) m) / (sum_list m + 1 / 10 ^ 8)))
                               losses (zip w msk));
               clipped = map (map (\<lambda>k. of_flag (k \<noteq> clamp (- lo) hi k))) k
           in Inr (mean_of losses,
                [(''actor/pg_clipfrac'', masked_mean (tmap2 (\<lambda>c A. c * of_flag (A > 0)) clipped advantages) msk),
                 (''actor/ppo_kl'', masked_mean (tmap2 (\<lambda>l ol. - (l - ol)) log_prob old_log_prob) msk),
                 (''actor/pg_clipfrac_lower'', masked_mean (tmap2 (\<lambda>c A. c * of_flag (A < 0)) clipped advantages) msk)])))"

section \<open>The registry\<close>

text \<open>The names under which the losses of the file are registered, and the lookup.\<close>

definition policy_loss_registry :: "string list" where
  "policy_loss_registry = [''vanilla'', ''dppo_tv'', ''dppo_kl'', ''gspo'', ''sapo'', ''gpg'', ''clip_cov'', ''kl_cov'',
     ''geo_mean'', ''cispo'', ''bypass_mode'']"

definition lookup_policy_loss :: "string \<Rightarrow> string result" where
  "lookup_policy_loss name = (if name \<in> set policy_loss_registry then Inr name else Inl (ValueError ''Unsupported loss mode''))"

text \<open>The spellings of the configuration's documentation are not registered.\<close>

lemma documented_modes_unsupported: "lookup_policy_loss m = Inl (ValueError ''Unsupported loss mode'')" if "m \<in> {''clip-cov'', ''kl-cov''}"
  using that by (auto simp: lookup_policy_loss_def policy_loss_registry_def)

section \<open>Positions of a tensor\<close>

lemma positions_set: "set (positions t) = {(i, j). i < length t \<and> j < length (t ! i)}"
  by (auto simp: positions_def)

lemma positions_distinct: "distinct (positions t)"
proof -
  have "distinct (concat (map (\<lambda>i. map (Pair i) [0..<f i]) is))" if "distinct is" for f :: "nat \<Rightarrow> nat" and "is" :: "nat list"
    using that by (induction "is") (auto simp: distinct_map inj_on_def)
  then show ?thesis by (simp add: positions_def)
qed

lemma same_shape_set_entry: "same_shape (set_entry t p x) u = same_shape t u"
  by (cases p) (simp add: set_entry_def same_shape_def map_length_update)

lemma set_entry_nth:
  assumes "i < length t" "j < length (t ! i)"
  shows "set_entry t p x ! i ! j = (if p = (i, j) then x else t ! i ! j)"
  using assms by (cases p; cases "fst p = i"; cases "snd p = j") (auto simp: set_entry_def)

lemma fold_set_entry_shape: "same_shape (fold (\<lambda>p c. set_entry c p (f p)) ps t) u = same_shape t u"
  by (induction ps arbitrary: t) (simp_all add: same_shape_set_entry)

lemma fold_set_entry:
  assumes "i < length t" "j < length (t ! i)"
  shows "fold (\<lambda>p c. set_entry c p (f p)) ps t ! i ! j = (if (i, j) \<in> set ps then f (i, j) else t ! i ! j)"
  using assms
proof (induction ps arbitrary: t)
  case (Cons p ps)
  have "i < length (set_entry t p (f p))" "j < length (set_entry t p (f p) ! i)"
    using Cons.prems same_shape_nth [of t "set_entry t p (f p)"] same_shape_set_entry [of t p "f p" t]
      same_shape_sym [of "set_entry t p (f p)" t] by (auto simp: same_shape_def)
  from Cons.IH [OF this] show ?case using set_entry_nth [OF Cons.prems] by auto
qed simp

section \<open>SAPO and GPG\<close>

lemma sigmoid_bounds: "0 < sigmoid y" "sigmoid y < 1"
  by (simp_all add: sigmoid_def add_pos_pos)

text \<open>The gate is positive, below \<open>4 / tau\<close>, and has slope 1 at ratio 1, so that near the old policy SAPO is the plain ratio.\<close>

lemma gate_bounds: "0 < tau \<Longrightarrow> 0 < gate_function x tau \<and> gate_function x tau < 4 / tau"
  using sigmoid_bounds [of "tau * (x - 1)"] by (simp add: gate_function_def field_simps)

lemma gate_slope: "tau \<noteq> 0 \<Longrightarrow> ((\<lambda>x. gate_function x tau) has_real_derivative 1) (at 1)"
  unfolding gate_function_def sigmoid_def
  by (rule derivative_eq_intros refl | simp add: power2_eq_square)+

lemma gpg_is_reinforce:
  assumes "compute_policy_loss_gpg horizon old log_prob advantages msk mode (Some cfg) weights = Inr (loss, ms)"
    and "same_shape log_prob advantages"
  shows "\<exists>ms'. compute_policy_loss_reinforce horizon old log_prob advantages msk mode (Some (actor_config.truncate cfg)) weights = Inr (loss, ms')"
proof -
  have swap: "tmap2 (\<lambda>l A. - l * A) log_prob advantages = tmap2 (\<lambda>a l. - a * l) advantages log_prob"
  proof (rule nth_equalityI)
    show "length (tmap2 (\<lambda>l A. - l * A) log_prob advantages) = length (tmap2 (\<lambda>a l. - a * l) advantages log_prob)" by simp
  next
    fix i assume "i < length (tmap2 (\<lambda>l A. - l * A) log_prob advantages)"
    then show "tmap2 (\<lambda>l A. - l * A) log_prob advantages ! i = tmap2 (\<lambda>a l. - a * l) advantages log_prob ! i"
      by (auto intro!: nth_equalityI)
  qed
  show ?thesis
    using assms(1) unfolding compute_policy_loss_gpg_def compute_policy_loss_reinforce_def option.case swap
    by (auto simp: actor_config.truncate_def)
qed

section \<open>Few tokens are changed\<close>

lemma cov_selected_set:
  assumes "distinct (randperm (length cs))" "set (randperm (length cs)) = {..<length cs}" "distinct cs"
  shows "set (cov_selected randperm k cs) \<subseteq> set cs" "card (set (cov_selected randperm k cs)) \<le> k"
proof -
  show "set (cov_selected randperm k cs) \<subseteq> set cs"
  proof
    fix x assume "x \<in> set (cov_selected randperm k cs)"
    then obtain m where m: "m \<in> set (take (min k (length cs)) (randperm (length cs)))" "x = cs ! m"
      by (auto simp: cov_selected_def split: if_splits)
    then have "m < length cs" using in_set_takeD [OF m(1)] assms(2) by blast
    then show "x \<in> set cs" using m(2) by simp
  qed
  have "card (set (cov_selected randperm k cs)) \<le> length (cov_selected randperm k cs)" by (rule card_length)
  also have "\<dots> \<le> k" by (auto simp: cov_selected_def min_def)
  finally show "card (set (cov_selected randperm k cs)) \<le> k" .
qed

text \<open>
  [C38] Clip-Cov is the clipped loss on all but few tokens: at most \<open>max 1 (ratio * valid tokens)\<close> tokens lose their loss, each
  of them valid, not clipped, and with a covariance between the bounds; every other token keeps the larger of the two
  PPO losses.
\<close>

theorem clip_cov_drops_few:
  assumes perm: "\<And>n. distinct (randperm n) \<and> set (randperm n) = {..<n}"
    and run: "compute_policy_loss_clip_cov randperm horizon old log_prob advantages msk mode (Some cfg) weights = Inr (loss, ms)"
    and pl: "pc_policy_loss cfg = Some pl"
    and sh: "rect n T old" "rect n T log_prob" "rect n T advantages" "rect n T msk"
  shows "\<exists>S losses. agg_loss horizon (apply_is_weights weights losses) msk mode (ac_global_batch_info cfg) = Inr loss
    \<and> card S \<le> max (nat \<lfloor>opt_default (2 / 10 ^ 4) (cv_clip_cov_ratio pl) * tsum msk\<rfloor>) 1
    \<and> (\<forall>i < n. \<forall>j < T. let r = exp (log_prob ! i ! j - old ! i ! j); A = advantages ! i ! j;
          lo = ratio_low (actor_config.truncate cfg); hi = ratio_high (actor_config.truncate cfg);
          c = (A - masked_mean advantages msk) * (log_prob ! i ! j - masked_mean log_prob msk)
        in losses ! i ! j = (if (i, j) \<in> S then 0 else clip_pg_loss1 lo hi A r)
          \<and> ((i, j) \<in> S \<longrightarrow> msk ! i ! j > 0 \<and> pg_loss2 lo hi A r \<le> pg_loss1 A r
               \<and> opt_default 1 (cv_clip_cov_lb pl) < c \<and> c < opt_default 5 (cv_clip_cov_ub pl)))"
proof -
  let ?lo = "ratio_low (actor_config.truncate cfg)" and ?hi = "ratio_high (actor_config.truncate cfg)"
  define ratio where "ratio = tmap2 (\<lambda>l ol. exp (l - ol)) log_prob old"
  define l1 where "l1 = tmap2 pg_loss1 advantages ratio"
  define l2 where "l2 = tmap2 (pg_loss2 ?lo ?hi) advantages ratio"
  define lb where "lb = opt_default 1 (cv_clip_cov_lb pl)"
  define ub where "ub = opt_default 5 (cv_clip_cov_ub pl)"
  define k where "k = max (nat \<lfloor>opt_default (2 / 10 ^ 4) (cv_clip_cov_ratio pl) * tsum msk\<rfloor>) 1"
  define cs where "cs = cov_candidates (cov_all advantages log_prob msk l1 l2) lb ub msk"
  define S where "S = set (cov_selected randperm k cs)"
  define corr where "corr = fold (\<lambda>p c. set_entry c p 0) (cov_selected randperm k cs) (ones_like advantages)"
  define losses where "losses = tmap2 (*) (tmap2 max l1 l2) corr"
  have corr': "clip_cov_corr randperm (opt_default (2 / 10 ^ 4) (cv_clip_cov_ratio pl)) lb ub advantages log_prob msk l1 l2 = corr"
    by (simp add: clip_cov_corr_def corr_def cs_def k_def Let_def)
  have agg: "agg_loss horizon (apply_is_weights weights losses) msk mode (ac_global_batch_info cfg) = Inr loss"
    using run [unfolded compute_policy_loss_clip_cov_def option.case pl Let_def,
      folded ratio_def, folded l1_def l2_def lb_def ub_def, unfolded corr', folded losses_def] by (auto split: if_splits)
  have rr: "rect n T ratio" unfolding ratio_def by (rule rect_map2 [OF sh(2,1)]) simp
  have r1: "rect n T l1" unfolding l1_def by (rule rect_map2 [OF sh(3) rr]) simp
  have r2: "rect n T l2" unfolding l2_def by (rule rect_map2 [OF sh(3) rr]) simp
  have rm: "rect n T (tmap2 max l1 l2)" by (rule rect_map2 [OF r1 r2]) simp
  have ro: "rect n T (ones_like advantages)" unfolding ones_like_def by (rule rect_map [OF sh(3)]) simp
  have rc: "rect n T corr"
    using fold_set_entry_shape [where f = "\<lambda>_. 0" and ps = "cov_selected randperm k cs" and t = "ones_like advantages"
      and u = "ones_like advantages"] ro
    by (simp add: corr_def same_shape_def rect_lengths)
  have cs: "distinct cs" by (simp add: cs_def cov_candidates_def positions_distinct)
  have sel: "S \<subseteq> set cs" "card S \<le> k" unfolding S_def using cov_selected_set [OF _ _ cs] perm by blast+
  have entry: "losses ! i ! j = (if (i, j) \<in> S then 0 else clip_pg_loss1 ?lo ?hi (advantages ! i ! j) (exp (log_prob ! i ! j - old ! i ! j)))"
    if ij: "i < n" "j < T" for i j
  proof -
    have "corr ! i ! j = (if (i, j) \<in> S then 0 else ones_like advantages ! i ! j)"
      unfolding corr_def S_def by (rule fold_set_entry [where f = "\<lambda>_. 0"]; use rect_nth [OF ro ij] in simp)
    moreover have "ones_like advantages ! i ! j = 1" using sh(3) ij by (simp add: ones_like_def rect_def)
    ultimately show ?thesis
      unfolding losses_def rect_entry2 [OF rm rc ij] rect_entry2 [OF r1 r2 ij]
      unfolding l1_def l2_def rect_entry2 [OF sh(3) rr ij] unfolding ratio_def rect_entry2 [OF sh(2,1) ij]
      by (simp add: clip_pg_loss1_def)
  qed
  have cand: "msk ! i ! j > 0 \<and> pg_loss2 ?lo ?hi (advantages ! i ! j) (exp (log_prob ! i ! j - old ! i ! j))
        \<le> pg_loss1 (advantages ! i ! j) (exp (log_prob ! i ! j - old ! i ! j))
      \<and> lb < (advantages ! i ! j - masked_mean advantages msk) * (log_prob ! i ! j - masked_mean log_prob msk)
      \<and> (advantages ! i ! j - masked_mean advantages msk) * (log_prob ! i ! j - masked_mean log_prob msk) < ub"
    if ij: "i < n" "j < T" and S: "(i, j) \<in> S" for i j
  proof -
    have e: "l1 ! i ! j = pg_loss1 (advantages ! i ! j) (exp (log_prob ! i ! j - old ! i ! j))"
      "l2 ! i ! j = pg_loss2 ?lo ?hi (advantages ! i ! j) (exp (log_prob ! i ! j - old ! i ! j))"
      unfolding l1_def l2_def rect_entry2 [OF sh(3) rr ij] unfolding ratio_def rect_entry2 [OF sh(2,1) ij] by simp_all
    have "(i, j) \<in> set cs" using sel(1) S by blast
    then show ?thesis unfolding e [symmetric]
      by (auto simp: cs_def cov_candidates_def cov_all_def entry_at_def split: if_splits)
  qed
  show ?thesis
    by (rule exI [of _ S], rule exI [of _ losses]) (use agg sel(2) entry cand in \<open>simp add: Let_def k_def lb_def ub_def\<close>)
qed

text \<open>The valid tokens, and the covariance of advantage and log-probability of one of them.\<close>

definition valid_positions :: "tensor \<Rightarrow> (nat \<times> nat) list" where
  "valid_positions msk = filter (\<lambda>p. entry_at msk p > 0) (positions msk)"

definition token_cov :: "tensor \<Rightarrow> tensor \<Rightarrow> tensor \<Rightarrow> nat \<times> nat \<Rightarrow> real" where
  "token_cov advantages log_prob msk p =
     (entry_at advantages p - mean_of (map (entry_at advantages) (valid_positions msk)))
       * (entry_at log_prob p - mean_of (map (entry_at log_prob) (valid_positions msk)))"

definition topk_ok :: "(real list \<Rightarrow> nat \<Rightarrow> nat list) \<Rightarrow> bool" where
  "topk_ok topk \<longleftrightarrow> (\<forall>xs k. k \<le> length xs \<longrightarrow> distinct (topk xs k) \<and> length (topk xs k) = k \<and> set (topk xs k) \<subseteq> {..<length xs}
     \<and> (\<forall>a \<in> set (topk xs k). \<forall>b < length xs. b \<notin> set (topk xs k) \<longrightarrow> xs ! b \<le> xs ! a))"

lemma kl_cov_selected:
  assumes "topk_ok topk" "kl_cov_positions topk ratio advantages log_prob msk = Inr ps"
  shows "set ps \<subseteq> set (valid_positions msk)"
    and "valid_positions msk \<noteq> [] \<Longrightarrow> card (set ps) = max 1 (nat \<lfloor>real (length (valid_positions msk)) * ratio\<rfloor>)"
    and "p \<in> set ps \<Longrightarrow> q \<in> set (valid_positions msk) - set ps \<Longrightarrow> token_cov advantages log_prob msk q \<le> token_cov advantages log_prob msk p"
proof -
  let ?vs = "valid_positions msk"
  have "set ps \<subseteq> set ?vs \<and> (?vs \<noteq> [] \<longrightarrow> card (set ps) = max 1 (nat \<lfloor>real (length ?vs) * ratio\<rfloor>))
    \<and> (\<forall>p \<in> set ps. \<forall>q \<in> set ?vs - set ps. token_cov advantages log_prob msk q \<le> token_cov advantages log_prob msk p)"
  proof (cases "?vs = []")
    case True
    then show ?thesis using assms(2) by (simp add: kl_cov_positions_def Let_def flip: valid_positions_def)
  next
    case False
    define cov where "cov = cov_list (map (entry_at advantages) ?vs) (map (entry_at log_prob) ?vs)"
    define k where "k = max 1 (nat \<lfloor>real (length cov) * ratio\<rfloor>)"
    have len: "length cov = length ?vs" by (simp add: cov_def cov_list_def)
    have cov: "cov ! m = token_cov advantages log_prob msk (?vs ! m)" if "m < length ?vs" for m
      using that by (simp add: cov_def cov_list_def token_cov_def)
    have ps: "ps = map ((!) ?vs) (topk cov k)" and k: "k \<le> length cov"
      using assms(2) [unfolded kl_cov_positions_def Let_def, folded valid_positions_def, folded cov_def, folded k_def] False
      by (auto split: if_splits)
    have tk: "distinct (topk cov k)" "length (topk cov k) = k" "set (topk cov k) \<subseteq> {..<length ?vs}"
      "\<And>a b. a \<in> set (topk cov k) \<Longrightarrow> b < length ?vs \<Longrightarrow> b \<notin> set (topk cov k) \<Longrightarrow> cov ! b \<le> cov ! a"
      using assms(1) k len unfolding topk_ok_def by metis+
    have dv: "distinct ?vs" by (simp add: valid_positions_def positions_distinct)
    have "distinct ps" unfolding ps using tk(1,3) dv
      by (auto simp: distinct_map inj_on_def nth_eq_iff_index_eq subset_iff)
    then have "card (set ps) = k" using distinct_card tk(2) ps by fastforce
    moreover have "set ps \<subseteq> set ?vs" unfolding ps using tk(3) by auto
    moreover have "token_cov advantages log_prob msk q \<le> token_cov advantages log_prob msk p"
      if p: "p \<in> set ps" and q: "q \<in> set ?vs - set ps" for p q
    proof -
      obtain a where a: "a \<in> set (topk cov k)" "p = ?vs ! a" using p ps by auto
      obtain b where b: "b < length ?vs" "q = ?vs ! b" using q by (auto simp: in_set_conv_nth)
      have "b \<notin> set (topk cov k)" using q b ps by auto
      then have "cov ! b \<le> cov ! a" using tk(4) a(1) b(1) by blast
      moreover have "a < length ?vs" using a(1) tk(3) by auto
      ultimately show ?thesis using cov a(2) b by simp
    qed
    ultimately show ?thesis unfolding k_def len by blast
  qed
  then show "set ps \<subseteq> set ?vs" "?vs \<noteq> [] \<Longrightarrow> card (set ps) = max 1 (nat \<lfloor>real (length ?vs) * ratio\<rfloor>)"
    "p \<in> set ps \<Longrightarrow> q \<in> set ?vs - set ps \<Longrightarrow> token_cov advantages log_prob msk q \<le> token_cov advantages log_prob msk p"
    by blast+
qed

text \<open>
  KL-Cov penalises exactly the \<open>max 1 (ratio * valid tokens)\<close> valid tokens with the largest covariance; all others keep
  the plain ratio loss.
\<close>

theorem kl_cov_penalises_largest:
  assumes topk: "topk_ok topk"
    and run: "compute_policy_loss_kl_cov topk horizon old log_prob advantages msk mode (Some cfg) weights = Inr (loss, ms)"
    and pl: "pc_policy_loss cfg = Some pl"
    and sh: "rect n T old" "rect n T log_prob" "rect n T advantages" "rect n T msk" and ne: "valid_positions msk \<noteq> []"
  shows "\<exists>S losses. agg_loss horizon (apply_is_weights weights losses) msk mode (ac_global_batch_info cfg) = Inr loss
    \<and> S \<subseteq> set (valid_positions msk)
    \<and> card S = max 1 (nat \<lfloor>real (length (valid_positions msk)) * opt_default (2 / 10 ^ 4) (cv_kl_cov_ratio pl)\<rfloor>)
    \<and> (\<forall>p \<in> S. \<forall>q \<in> set (valid_positions msk) - S. token_cov advantages log_prob msk q \<le> token_cov advantages log_prob msk p)
    \<and> (\<forall>i < n. \<forall>j < T. losses ! i ! j = - (advantages ! i ! j) * exp (log_prob ! i ! j - old ! i ! j)
          + (if (i, j) \<in> S then opt_default 1 (cv_ppo_kl_coef pl) * \<bar>log_prob ! i ! j - old ! i ! j\<bar> else 0))"
proof -
  define coef where "coef = opt_default 1 (cv_ppo_kl_coef pl)"
  define d where "d = tmap2 (-) log_prob old"
  define l1 where "l1 = tmap2 (\<lambda>A k. - A * exp k) advantages d"
  define l2 where "l2 = tmap2 (\<lambda>s k. s + coef * \<bar>k\<bar>) l1 d"
  obtain ps where ps: "kl_cov_positions topk (opt_default (2 / 10 ^ 4) (cv_kl_cov_ratio pl)) advantages log_prob msk = Inr ps"
    and agg: "agg_loss horizon (apply_is_weights weights (fold (\<lambda>p s. set_entry s p (entry_at l2 p)) ps l1)) msk mode
      (ac_global_batch_info cfg) = Inr loss"
    using run [unfolded compute_policy_loss_kl_cov_def option.case pl Let_def, folded coef_def, folded d_def, folded l1_def, folded l2_def]
    by (auto split: if_splits)
  note sel = kl_cov_selected [OF topk ps]
  have rd: "rect n T d" unfolding d_def by (rule rect_map2 [OF sh(2,1)]) simp
  have r1: "rect n T l1" unfolding l1_def by (rule rect_map2 [OF sh(3) rd]) simp
  have entry: "fold (\<lambda>p s. set_entry s p (entry_at l2 p)) ps l1 ! i ! j = - (advantages ! i ! j) * exp (log_prob ! i ! j - old ! i ! j)
      + (if (i, j) \<in> set ps then coef * \<bar>log_prob ! i ! j - old ! i ! j\<bar> else 0)" if ij: "i < n" "j < T" for i j
  proof -
    have "fold (\<lambda>p s. set_entry s p (entry_at l2 p)) ps l1 ! i ! j = (if (i, j) \<in> set ps then entry_at l2 (i, j) else l1 ! i ! j)"
      by (rule fold_set_entry; use rect_nth [OF r1 ij] in simp)
    moreover have "entry_at l2 (i, j) = l1 ! i ! j + coef * \<bar>d ! i ! j\<bar>"
      unfolding l2_def entry_at_def prod.case by (rule rect_entry2 [OF r1 rd ij])
    moreover have "l1 ! i ! j = - (advantages ! i ! j) * exp (d ! i ! j)" unfolding l1_def by (rule rect_entry2 [OF sh(3) rd ij])
    moreover have "d ! i ! j = log_prob ! i ! j - old ! i ! j" unfolding d_def by (rule rect_entry2 [OF sh(2,1) ij])
    ultimately show ?thesis by simp
  qed
  show ?thesis
    by (rule exI [of _ "set ps"], rule exI [of _ "fold (\<lambda>p s. set_entry s p (entry_at l2 p)) ps l1"])
      (use agg sel(1,3) sel(2) [OF ne] entry in \<open>auto simp: coef_def\<close>)
qed

section \<open>The geometric mean is clipped\<close>

text \<open>The ratio of a response is bounded on the side that its advantages reward: above for positive, below for negative ones.\<close>

lemma geo_row_bounds:
  assumes len: "length adv = length k" "length m = length k" and m: "\<forall>x \<in> set m. 0 \<le> x" and lohi: "0 \<le> lo" "0 \<le> hi"
  shows "\<forall>a \<in> set adv. 0 < a \<Longrightarrow> geo_row lo hi adv k m \<le> exp hi"
    and "\<forall>a \<in> set adv. a < 0 \<Longrightarrow> exp (- lo) \<le> geo_row lo hi adv k m"
proof -
  let ?s = "sum_list m + 1 / 10 ^ 8"
  have s: "0 < ?s" using sum_list_nonneg [of m] m by (simp add: add_nonneg_pos)
  { assume pos: "\<forall>a \<in> set adv. 0 < a"
    have "sum_list (map2 (*) (map2 (geo_log_ratio lo hi) adv k) m) \<le> hi * sum_list m"
      using len(1) len(2) [symmetric] pos m
    proof (induction adv k m rule: list_induct3)
      case (Cons a as x xs y ys)
      have "geo_log_ratio lo hi a x \<le> hi" using Cons.prems(1) lohi by (auto simp: geo_log_ratio_def clamp_def)
      then have "geo_log_ratio lo hi a x * y \<le> hi * y" using Cons.prems by (intro mult_right_mono) auto
      then show ?case using Cons by (simp add: algebra_simps)
    qed simp
    also have "\<dots> \<le> hi * ?s" using lohi by (intro mult_left_mono) auto
    finally show "geo_row lo hi adv k m \<le> exp hi" unfolding geo_row_def using s by (simp add: divide_le_eq) }
  { assume neg: "\<forall>a \<in> set adv. a < 0"
    have "- lo * sum_list m \<le> sum_list (map2 (*) (map2 (geo_log_ratio lo hi) adv k) m)"
      using len(1) len(2) [symmetric] neg m
    proof (induction adv k m rule: list_induct3)
      case (Cons a as x xs y ys)
      have "- lo \<le> geo_log_ratio lo hi a x" using Cons.prems(1) lohi by (auto simp: geo_log_ratio_def clamp_def)
      then have "- lo * y \<le> geo_log_ratio lo hi a x * y" using Cons.prems by (intro mult_right_mono) auto
      then show ?case using Cons by (simp add: algebra_simps)
    qed simp
    moreover have "- lo * ?s \<le> - lo * sum_list m" using lohi by (intro mult_left_mono_neg) auto
    ultimately have "- lo * ?s \<le> sum_list (map2 (*) (map2 (geo_log_ratio lo hi) adv k) m)" by linarith
    then show "exp (- lo) \<le> geo_row lo hi adv k m" unfolding geo_row_def exp_le_cancel_iff using s by (simp add: le_divide_eq) }
qed

section \<open>A concrete batch\<close>

definition ex_cov :: cov_config where
  "ex_cov = \<lparr>cv_clip_cov_ratio = None, cv_clip_cov_lb = Some (1 / 10), cv_clip_cov_ub = None, cv_kl_cov_ratio = None, cv_ppo_kl_coef = None\<rparr>"

definition ex_policy_config :: policy_config where
  "ex_policy_config = \<lparr>ac_clip_ratio = 1 / 5, ac_clip_ratio_low = None, ac_clip_ratio_high = None, ac_clip_ratio_c = None,
     ac_global_batch_info = no_batch_info, pc_tau_pos = 1, pc_tau_neg = 21 / 20,
     pc_policy_loss = Some ex_cov\<rparr>"

lemma ex_pl: "pc_policy_loss ex_policy_config = Some ex_cov"
  by (simp add: ex_policy_config_def)

theorem clip_cov_drops_few_witness:
  "\<exists>loss ms (S :: (nat \<times> nat) set). compute_policy_loss_clip_cov (\<lambda>n. [0..<n]) 2 [[- 1, - 1]] [[- 1, - 2]] [[1, - 1]] [[1, 1]] ''token-mean'' (Some ex_policy_config) None
      = Inr (loss, ms) \<and> card S \<le> (1 :: nat)"
proof -
  obtain loss ms where run: "compute_policy_loss_clip_cov (\<lambda>n. [0..<n]) 2 [[- 1, - 1]] [[- 1, - 2]] [[1, - 1]] [[1, 1]] ''token-mean''
      (Some ex_policy_config) None = Inr (loss, ms)"
    by (simp add: compute_policy_loss_clip_cov_def ex_policy_config_def ex_cov_def Let_def agg_loss_def global_total_def no_batch_info_def)
  have rect: "rect 1 2 [[x, y]]" for x y :: real by (simp add: rect_def)
  have perm: "distinct [0..<n] \<and> set [0..<n] = {..<n}" for n by auto
  obtain S :: "(nat \<times> nat) set" where "card S \<le> max (nat \<lfloor>opt_default (2 / 10 ^ 4) (cv_clip_cov_ratio ex_cov) * tsum [[1, 1]]\<rfloor>) 1"
    using clip_cov_drops_few [OF perm run ex_pl rect rect rect rect] by blast
  then have "card S \<le> 1" by (simp add: tsum_def ex_cov_def)
  then show ?thesis using run by blast
qed

lemma ex_kl_topk: "topk_ok (\<lambda>xs k. take k (rev (map snd (sort_key fst (zip xs [0..<length xs])))))"
proof -
  have "distinct (take k r) \<and> length (take k r) = k \<and> set (take k r) \<subseteq> {..<length xs}
      \<and> (\<forall>a \<in> set (take k r). \<forall>b < length xs. b \<notin> set (take k r) \<longrightarrow> xs ! b \<le> xs ! a)"
    if k: "k \<le> length xs" and r: "r = rev (map snd (sort_key fst (zip xs [0..<length xs])))" for xs :: "real list" and k r
  proof -
    let ?z = "sort_key fst (zip xs [0..<length xs])"
    have mem: "p \<in> set ?z \<longleftrightarrow> snd p < length xs \<and> fst p = xs ! snd p" for p
      by (cases p) (auto simp: set_zip)
    have "map snd (zip xs [0..<length xs]) = [0..<length xs]" by (simp only: map_snd_zip length_upt diff_zero)
    moreover have "mset (map snd ?z) = mset (map snd (zip xs [0..<length xs]))" by (simp only: mset_map mset_sort)
    ultimately have "mset (map snd ?z) = mset [0..<length xs]" by simp
    then have "distinct (map snd ?z)" by (metis distinct_upt mset_eq_imp_distinct_iff)
    then have d: "distinct r" by (simp add: r)
    have set: "set r = {..<length xs}" using mem by (force simp: r image_iff)
    have len: "length r = length xs" by (simp add: r)
    have desc: "xs ! (r ! y) \<le> xs ! (r ! x)" if "x < y" "y < length xs" for x y
    proof -
      have v: "xs ! (r ! m) = fst (rev ?z ! m)" if "m < length xs" for m
      proof -
        have "rev ?z ! m \<in> set ?z" using that by (metis length_rev length_sort length_zip length_upt min.idem minus_nat.diff_0 nth_mem set_rev)
        then show ?thesis using mem [of "rev ?z ! m"] that by (simp add: r rev_map)
      qed
      have "sorted (map fst ?z)" by simp
      then have "sorted_wrt (\<ge>) (map fst (rev ?z))" by (simp add: sorted_wrt_rev rev_map [symmetric])
      then show ?thesis using that v [of x] v [of y] by (simp add: sorted_wrt_iff_nth_less)
    qed
    have "xs ! b \<le> xs ! a" if a: "a \<in> set (take k r)" and b: "b < length xs" "b \<notin> set (take k r)" for a b
    proof -
      obtain x where x: "x < k" "a = r ! x" using a by (auto simp: in_set_conv_nth)
      obtain y where y: "y < length xs" "b = r ! y" using b(1) set len by (metis in_set_conv_nth lessThan_iff)
      have "k \<le> y"
      proof (rule ccontr)
        assume "\<not> k \<le> y"
        then have "y < length (take k r)" "take k r ! y = b" using y k len by simp_all
        then show False using b(2) nth_mem by metis
      qed
      then show ?thesis using desc [of x y] x y by simp
    qed
    moreover have "set (take k r) \<subseteq> {..<length xs}" using set_take_subset [of k r] unfolding set .
    moreover have "distinct (take k r)" "length (take k r) = k" using d len k by simp_all
    ultimately show ?thesis by blast
  qed
  then show ?thesis unfolding topk_ok_def by blast
qed

theorem kl_cov_penalises_largest_witness:
  "\<exists>loss ms (S :: (nat \<times> nat) set). compute_policy_loss_kl_cov (\<lambda>xs k. take k (rev (map snd (sort_key fst (zip xs [0..<length xs]))))) 2 [[- 1, - 1]] [[- 1, - 2]]
      [[1, - 1]] [[1, 1]] ''token-mean'' (Some ex_policy_config) None = Inr (loss, ms) \<and> card S = (1 :: nat)"
proof -
  have pos: "valid_positions [[1, 1]] = [(0, 0), (0, 1)]"
    by (simp add: valid_positions_def positions_def entry_at_def)
  obtain loss ms where run: "compute_policy_loss_kl_cov (\<lambda>xs k. take k (rev (map snd (sort_key fst (zip xs [0..<length xs]))))) 2
      [[- 1, - 1]] [[- 1, - 2]] [[1, - 1]] [[1, 1]] ''token-mean'' (Some ex_policy_config) None = Inr (loss, ms)"
    by (simp add: compute_policy_loss_kl_cov_def kl_cov_positions_def cov_list_def ex_policy_config_def ex_cov_def Let_def agg_loss_def global_total_def
        no_batch_info_def flip: valid_positions_def) (simp add: pos)
  have rect: "rect 1 2 [[x, y]]" for x y :: real by (simp add: rect_def)
  have ne: "valid_positions [[1, 1]] \<noteq> []" by (simp add: pos)
  obtain S :: "(nat \<times> nat) set" where "card S = max 1 (nat \<lfloor>real (length (valid_positions [[1, 1]])) * opt_default (2 / 10 ^ 4) (cv_kl_cov_ratio ex_cov)\<rfloor>)"
    using kl_cov_penalises_largest [OF ex_kl_topk run ex_pl rect rect rect rect ne] by blast
  then have "card S = 1" by (simp add: pos ex_cov_def)
  then show ?thesis using run by blast
qed

end
