(* ===== verification/Offline_Batch.thy ===== *)
theory Offline_Batch
  imports Agent_Batch Padding "HOL-Library.Sublist"
begin

text \<open>
  The dataset of offline teacher trajectories (\<open>OfflineTeacherTrajectoryDataset\<close>, \<open>verl/utils/dataset/rl_dataset.py\<close>; files are
  lists of rows) and the training batch made of its items (\<open>_compute_offline_teacher_logprobs\<close> and
  \<open>_build_offline_teacher_trajectory_batch\<close> of \<open>verl/trainer/ppo/ray_trainer.py\<close>): stored responses are scored by the teacher
  under its own prompt, and its rows are placed at the predictor positions of the student's padded sequence. The columns
  that are only carried over, and the wrapping into a container, are left out. A one-dimensional tensor of the teacher is a
  table of width 1.
\<close>

section \<open>The dataset\<close>

text \<open>\<open>OfflineTeacherTrajectoryDataset\<close>: a row has the configured token columns (the
  teacher prompt is read only when the column exists), the sample index, and its other cells.\<close>

record 'k traj_row =
  tr_prompt :: "int list"
  tr_teacher_prompt :: "int list"
  tr_response :: "int list"
  tr_sample_idx :: "int option"
  tr_cells :: "(string \<times> 'k) list"

record offline_config =
  oc_sample_idx_value :: "int option"
  oc_unique_key :: "string option"
  oc_filter_overlong :: bool
  oc_max_prompt_length :: nat
  oc_max_response_length :: nat
  oc_max_samples :: int
  oc_shuffle :: bool

text \<open>The loop of \<open>_select_first_per_unique_key\<close> with the keys it has seen.\<close>

fun first_per_key :: "('a \<Rightarrow> 'k) \<Rightarrow> 'k set \<Rightarrow> 'a list \<Rightarrow> 'a list" where
  "first_per_key key seen [] = []"
| "first_per_key key seen (row # rows) =
     (if key row \<in> seen then first_per_key key seen rows else row # first_per_key key (insert (key row) seen) rows)"

definition select_first_per_unique_key :: "string list \<Rightarrow> string \<Rightarrow> 'k traj_row list \<Rightarrow> 'k traj_row list result" where
  "select_first_per_unique_key columns unique_key rows =
     (if unique_key \<notin> set columns then Inl (KeyError unique_key)
      else Inr (first_per_key (\<lambda>row. map_of (tr_cells row) unique_key) {} rows))"

text \<open>The generator's choice of \<open>size\<close> out of \<open>total\<close> indices is a parameter.\<close>

definition read_trajectories :: "(nat \<Rightarrow> nat \<Rightarrow> nat list) \<Rightarrow> offline_config \<Rightarrow> string list \<Rightarrow> 'k traj_row list list \<Rightarrow> 'k traj_row list result" where
  "read_trajectories rng_choice cfg columns files =
     (let rows = concat files;
          rows = (case oc_sample_idx_value cfg of None \<Rightarrow> rows
            | Some v \<Rightarrow> filter (\<lambda>row. opt_default (- 1) (tr_sample_idx row) = v) rows)
      in bind_r (case oc_unique_key cfg of None \<Rightarrow> Inr rows | Some k \<Rightarrow> if k = [] then Inr rows else select_first_per_unique_key columns k rows) (\<lambda>rows.
           let rows = (if oc_filter_overlong cfg
                 then filter (\<lambda>row. length (tr_prompt row) \<le> oc_max_prompt_length cfg \<and> length (tr_response row) \<le> oc_max_response_length cfg) rows
                 else rows);
               total = length rows; n = nat (oc_max_samples cfg)
           in Inr (if oc_max_samples cfg > 0 \<and> n < total
                   then map ((!) rows) (if oc_shuffle cfg then rng_choice total n else [0..<n]) else rows)))"

definition split_trajectories :: "int \<Rightarrow> 'k traj_row list \<Rightarrow> 'k traj_row list list result" where
  "split_trajectories num_splits rows =
     (if num_splits \<le> 0 then Inl (ValueError ''num_splits must be a positive integer'')
      else if rows = [] then Inl (ValueError ''Cannot split an empty dataset'')
      else (let k = nat num_splits; total = length rows - length rows mod k; size = total div k
            in Inr (map (\<lambda>i. slice (i * size) (if i < k - 1 then (i + 1) * size else total) rows) [0..<k])))"

section \<open>Scoring\<close>

record offline_rows =
  of_prompts :: "int list list"
  of_teacher_prompts :: "int list list option"
  of_responses :: "int list list"
  of_teacher_responses :: "int list list"
  of_routing :: "string option list"

text \<open>The token columns of a batch of items (\<open>__getitem__\<close>): the teacher scores the response itself, under its own prompt when the
  column is configured and exists.\<close>

definition offline_batch_of :: "bool \<Rightarrow> string option list \<Rightarrow> 'k traj_row list \<Rightarrow> offline_rows" where
  "offline_batch_of teacher_column routing rows =
     \<lparr>of_prompts = map tr_prompt rows,
      of_teacher_prompts = (if teacher_column then Some (map tr_teacher_prompt rows) else None),
      of_responses = map tr_response rows, of_teacher_responses = map tr_response rows, of_routing = routing\<rparr>"

definition teacher_prompts :: "offline_rows \<Rightarrow> int list list" where
  "teacher_prompts rows = opt_default (of_prompts rows) (of_teacher_prompts rows)"

text \<open>The manager is a function from routing key and tokens to a reply; without one the code raises.\<close>

definition compute_offline_teacher_logprobs :: "(string option \<Rightarrow> int list \<Rightarrow> teacher_reply result) option \<Rightarrow> offline_rows
    \<Rightarrow> teacher_reply list result" where
  "compute_offline_teacher_logprobs manager rows =
     (case manager of
        None \<Rightarrow> Inl (RuntimeError ''offline teacher trajectory FKL requires distillation teacher server.'')
      | Some call \<Rightarrow>
          map_r (\<lambda>(key, p, r). call key (p @ r)) (zip (of_routing rows) (zip (teacher_prompts rows) (of_teacher_responses rows))))"

section \<open>Padding\<close>

definition pad_right :: "nat \<Rightarrow> 'a \<Rightarrow> 'a list \<Rightarrow> 'a list" where
  "pad_right n x xs = xs @ replicate (n - length xs) x"

definition check_responses :: "offline_rows \<Rightarrow> unit result" where
  "check_responses rows =
     (if \<exists>(r, tr) \<in> set (zip (of_responses rows) (of_teacher_responses rows)). length tr \<noteq> length r
      then Inl (RuntimeError ''offline teacher response length mismatch'') else Inr ())"

text \<open>Assignment to \<open>n\<close> entries of a tensor: as many values, or one that is broadcast.\<close>

definition broadcast_to :: "nat \<Rightarrow> 'a list \<Rightarrow> 'a list result" where
  "broadcast_to n xs =
     (if length xs = n then Inr xs else if length xs = 1 then Inr (replicate n (hd xs))
      else Inl (RuntimeError ''shape mismatch''))"

text \<open>The first row of the teacher's window goes to the last prompt token, the others to the response tokens from its start.\<close>

definition place_window :: "nat \<Rightarrow> nat \<Rightarrow> nat \<Rightarrow> 'a list \<Rightarrow> 'a list \<Rightarrow> 'a list result" where
  "place_window p_len pw r_len window row =
     (case window of
        [] \<Rightarrow> Inl IndexError
      | first # rest \<Rightarrow>
          bind_r (if r_len > 1 then broadcast_to (r_len - 1) rest else Inr [])
            (\<lambda>vs. let row = row[p_len - 1 := first]
              in Inr (take pw row @ vs @ drop (pw + length vs) row)))"

definition place_reply :: "int \<Rightarrow> nat \<Rightarrow> nat \<Rightarrow> nat \<Rightarrow> bool \<Rightarrow> nat \<Rightarrow> nat \<Rightarrow> nat \<Rightarrow> teacher_reply
    \<Rightarrow> (int list list \<times> real list list \<times> real list option) result" where
  "place_reply pad_id topk pw total_width has_token p_len teacher_p_len r_len rep =
     (let expected = teacher_p_len + r_len; start = teacher_p_len - 1 in
      if length (rep_ids rep) \<noteq> expected \<or> length (rep_logprobs rep) \<noteq> expected
      then Inl (RuntimeError ''offline teacher logprob length mismatch'')
      else if p_len = 0 \<or> teacher_p_len = 0 then Inl (RuntimeError ''offline teacher trajectory requires non-empty prompts'')
      else if start + r_len > length (rep_ids rep) then Inl (RuntimeError ''offline teacher response window overflow'')
      else
        bind_r (map_r (broadcast_to topk) (slice start (start + r_len) (rep_ids rep))) (\<lambda>ids.
        bind_r (map_r (broadcast_to topk) (slice start (start + r_len) (rep_logprobs rep))) (\<lambda>lps.
        bind_r (place_window p_len pw r_len ids (replicate total_width (replicate topk pad_id))) (\<lambda>id_rows.
        bind_r (place_window p_len pw r_len lps (replicate total_width (replicate topk 0))) (\<lambda>lp_rows.
        bind_r (if \<not> has_token then Inr None
                else case rep_token_logprobs rep of
                    None \<Rightarrow> Inr (Some (replicate total_width 0))
                  | Some ts \<Rightarrow>
                      bind_r (place_window p_len pw r_len (slice start (start + r_len) ts) (replicate total_width 0))
                        (\<lambda>row. Inr (Some row)))
          (\<lambda>token_row. Inr (id_rows, lp_rows, token_row)))))))"

section \<open>The batch\<close>

record offline_batch =
  ob_prompts :: "int list list"
  ob_responses :: "int list list"
  ob_input_ids :: "int list list"
  ob_attention_mask :: "int list list"
  ob_position_ids :: "int list list"
  ob_response_mask :: "int list list"
  ob_rm_scores :: "real list list"
  ob_teacher_ids :: "int list list list"
  ob_teacher_logprobs :: "real list list list"
  ob_teacher_token_logprobs :: "real list list option"

definition max_len :: "'a list list \<Rightarrow> nat" where
  "max_len xs = Max (set (map length xs))"

definition mask_row :: "nat \<Rightarrow> 'a list \<Rightarrow> int list" where
  "mask_row n xs = pad_right n 0 (map (\<lambda>_. 1) xs)"

definition offline_metrics :: "offline_rows \<Rightarrow> nat \<Rightarrow> (string \<times> real) list" where
  "offline_metrics rows topk =
     (let lens = map (\<lambda>x. real (length x)) in
      [(''offline_teacher/response_len_mean'', mean_of (lens (of_responses rows))),
       (''offline_teacher/response_len_max'', real (max_len (of_responses rows))),
       (''offline_teacher/student_prompt_len_mean'', mean_of (lens (of_prompts rows))),
       (''offline_teacher/teacher_prompt_len_mean'', mean_of (lens (teacher_prompts rows))),
       (''offline_teacher/teacher_prompt_len_max'', real (max_len (teacher_prompts rows))),
       (''offline_teacher/use_teacher_prompt'', if of_teacher_prompts rows = None then 0 else 1),
       (''offline_teacher/topk'', real topk)])"

text \<open>The width of the first reply; the code reads the first row's.\<close>

definition reply_width :: "teacher_reply \<Rightarrow> nat" where
  "reply_width rep = (case rep_ids rep of [] \<Rightarrow> 0 | row # _ \<Rightarrow> length row)"

definition build_offline_teacher_trajectory_batch ::
  "(string option \<Rightarrow> int list \<Rightarrow> teacher_reply result) option \<Rightarrow> int option \<Rightarrow> int \<Rightarrow> offline_rows
     \<Rightarrow> (offline_batch \<times> (string \<times> real) list) result" where
  "build_offline_teacher_trajectory_batch manager pad_token_id eos_token_id rows =
     bind_r (compute_offline_teacher_logprobs manager rows) (\<lambda>replies.
       let pad_id = opt_default eos_token_id pad_token_id; ps = of_prompts rows; rs = of_responses rows in
       if ps = [] then Inl (ValueError ''max() arg is an empty sequence'')
       else
         (let pw = max_len ps; rw = max_len rs;
              prompt_mask = map (mask_row pw) ps; response_mask = map (mask_row rw) rs;
              prompts = map (pad_right pw pad_id) ps; responses = map (pad_right rw pad_id) rs;
              attention = map2 (@) prompt_mask response_mask
          in bind_r (check_responses rows) (\<lambda>_.
               let topk = reply_width (hd replies); has_token = (\<exists>rep \<in> set replies. rep_token_logprobs rep \<noteq> None) in
               bind_r (map_r (\<lambda>(p, tp, r, rep). place_reply pad_id topk pw (pw + rw) has_token (length p) (length tp) (length r) rep)
                         (zip ps (zip (teacher_prompts rows) (zip rs replies))))
                 (\<lambda>outs. Inr (\<lparr>ob_prompts = prompts, ob_responses = responses, ob_input_ids = map2 (@) prompts responses,
                     ob_attention_mask = attention, ob_position_ids = map compute_position_id_with_mask attention,
                     ob_response_mask = response_mask, ob_rm_scores = map (map (\<lambda>_. 0)) response_mask,
                     ob_teacher_ids = map fst outs, ob_teacher_logprobs = map (\<lambda>(_, l, _). l) outs,
                     ob_teacher_token_logprobs = (if has_token then Some (map (\<lambda>(_, _, t). opt_default [] t) outs) else None)\<rparr>,
                   offline_metrics rows topk)))))"

section \<open>Alignment with the packed sequence\<close>

lemma select_row_append: "length a = length m \<Longrightarrow> select_row (a @ b) (m @ n) = select_row a m @ select_row b n"
  by (simp add: select_row_def)

lemma select_row_ones: "select_row xs (replicate (length xs) True) = xs"
  by (induction xs) (simp_all add: select_row_def)

lemma select_row_zeros: "select_row xs (replicate n False) = []"
proof (induction xs arbitrary: n)
  case (Cons x xs) then show ?case by (cases n) (simp_all add: select_row_def)
qed (simp add: select_row_def)

lemma select_pad_right:
  assumes "length xs \<le> n" "length ys = n"
  shows "select_row ys (map (\<lambda>x. x \<noteq> 0) (mask_row n xs)) = take (length xs) ys"
proof -
  have "select_row (take (length xs) ys) (replicate (length xs) True) = take (length xs) ys"
    using select_row_ones [of "take (length xs) ys"] assms by (simp add: min_absorb1)
  then have "select_row (take (length xs) ys @ drop (length xs) ys) (replicate (length xs) True @ replicate (n - length xs) False)
      = take (length xs) ys"
    using assms by (subst select_row_append) (simp_all add: select_row_zeros)
  then show ?thesis using assms by (simp add: mask_row_def pad_right_def map_replicate_const)
qed

lemma length_mask_row [simp]: "length xs \<le> n \<Longrightarrow> length (mask_row n xs) = n"
  by (simp add: mask_row_def pad_right_def)

lemma length_pad_right [simp]: "length xs \<le> n \<Longrightarrow> length (pad_right n x xs) = n"
  by (simp add: pad_right_def)

text \<open>The valid tokens of a padded row are its prompt and its response.\<close>

abbreviation valid_mask :: "int list \<Rightarrow> int list \<Rightarrow> nat \<Rightarrow> nat \<Rightarrow> bool list" where
  "valid_mask p r pw rw \<equiv> map (\<lambda>x. x \<noteq> 0) (mask_row pw p @ mask_row rw r)"

lemma select_valid:
  assumes "length p \<le> pw" "length r \<le> rw" "length a = pw" "length b = rw"
  shows "select_row (a @ b) (valid_mask p r pw rw) = take (length p) a @ take (length r) b"
  using assms by (simp add: select_row_append select_pad_right)

lemma place_window_select:
  assumes run: "place_window (length p) pw (length r) window (replicate (pw + rw) x) = Inr row"
    and len: "length p \<le> pw" "length r \<le> rw" "0 < length p" "length window = length r"
  shows "length row = pw + rw"
    and "select_row row (valid_mask p r pw rw) = replicate (length p - 1) x @ window @ [x]"
proof -
  obtain first rest where w: "window = first # rest" using run by (auto simp: place_window_def split: list.splits)
  let ?base = "(replicate (pw + rw) x)[length p - 1 := first]"
  have r: "length r = Suc (length rest)" using len(4) w by simp
  have "(if length r > 1 then broadcast_to (length r - 1) rest else Inr []) = Inr rest"
    using r by (cases rest) (auto simp: broadcast_to_def)
  then have row: "row = take pw ?base @ rest @ drop (pw + length rest) ?base"
    using run w by (auto simp: place_window_def Let_def)
  show "length row = pw + rw" using row len r by simp
  have a: "take (length p) (take pw ?base) = replicate (length p - 1) x @ [first]"
  proof -
    have "take (length p) ?base = (replicate (length p) x)[length p - 1 := first]" using len by (simp add: take_update_swap)
    also have "\<dots> = replicate (length p - 1) x @ [first]"
      using len(3) by (intro nth_equalityI) (auto simp: nth_list_update nth_append)
    finally show ?thesis using len by (simp add: min_def)
  qed
  have d: "drop (pw + length rest) ?base = replicate (rw - length rest) x"
  proof -
    have "length p - 1 < pw + length rest" using len(1,3) by linarith
    then show ?thesis by (simp add: drop_update_cancel)
  qed
  have b: "take (length r) (rest @ drop (pw + length rest) ?base) = rest @ [x]"
    unfolding d using r len by (simp add: take_replicate min_def)
  show "select_row row (valid_mask p r pw rw) = replicate (length p - 1) x @ window @ [x]"
    unfolding row by (subst select_valid) (use len r a b w in auto)
qed

lemma broadcast_rows: "\<forall>row \<in> set xs. length row = k \<Longrightarrow> map_r (broadcast_to k) xs = Inr xs"
  by (induction xs) (auto simp: broadcast_to_def)

text \<open>What the model output slicing reads from a packed row of that form.\<close>

lemma window_of_packed:
  assumes "0 < p" "length window = r"
  shows "response_slice d (replicate (p - 1) x @ window @ [x]) r r (p + r) = window"
  using assms by (auto simp: response_slice_def slice_def)

lemma positions_select:
  assumes "length p \<le> pw" "length r \<le> rw"
  shows "select_row (compute_position_id_with_mask (mask_row pw p @ mask_row rw r)) (valid_mask p r pw rw)
    = map int [0..<length p + length r]"
proof -
  let ?ones = "\<lambda>n. replicate n (1 :: int)" and ?z = "\<lambda>n. replicate n (0 :: int)"
  let ?pos = "\<lambda>s n. map (\<lambda>c. max 0 (c - 1)) (running_sums s (?ones n))"
  have pos: "?pos (int s) n = map int [s..<s + n]" for s n
    by (rule nth_equalityI) (simp_all add: running_sums_ones)
  have "compute_position_id_with_mask (mask_row pw p @ mask_row rw r)
      = (?pos 0 (length p) @ replicate (pw - length p) (max 0 (int (length p) - 1)))
        @ (?pos (int (length p)) (length r) @ replicate (rw - length r) (max 0 (int (length p + length r) - 1)))"
    by (simp add: compute_position_id_with_mask_def mask_row_def pad_right_def map_replicate_const running_sums_append running_sums_zeros
        sum_list_replicate)
  also have "select_row \<dots> (valid_mask p r pw rw) = map int [0..<length p] @ map int [length p..<length p + length r]"
    using pos [of 0 "length p"] pos [of "length p" "length r"] assms by (subst select_valid) simp_all
  also have "\<dots> = map int [0..<length p + length r]" by (metis map_append upt_add_eq_append zero_le)
  finally show ?thesis .
qed

lemma place_reply_select:
  assumes run: "place_reply pad_id k pw (pw + rw) has (length p) tp (length r) rep = Inr (ids, lps, toks)"
    and len: "length p \<le> pw" "length r \<le> rw"
    and width: "\<forall>row \<in> set (rep_ids rep). length row = k" "\<forall>row \<in> set (rep_logprobs rep). length row = k"
  shows "0 < length p" "0 < tp"
    and "response_slice d1 (select_row ids (valid_mask p r pw rw)) (length r) (length r) (length p + length r)
      = slice (tp - 1) (tp - 1 + length r) (rep_ids rep)"
    and "response_slice d2 (select_row lps (valid_mask p r pw rw)) (length r) (length r) (length p + length r)
      = slice (tp - 1) (tp - 1 + length r) (rep_logprobs rep)"
    and "has \<Longrightarrow> rep_token_logprobs rep = Some ts \<Longrightarrow> length ts = tp + length r \<Longrightarrow>
      response_slice d3 (select_row (opt_default [] toks) (valid_mask p r pw rw)) (length r) (length r) (length p + length r)
        = slice (tp - 1) (tp - 1 + length r) ts"
proof -
  let ?s = "\<lambda>xs. slice (tp - 1) (tp - 1 + length r) xs"
  have rows: "\<forall>row \<in> set (?s (rep_ids rep)). length row = k" "\<forall>row \<in> set (?s (rep_logprobs rep)). length row = k"
    using width by (auto simp: slice_def dest!: in_set_takeD in_set_dropD)
  have w: "map_r (broadcast_to k) (?s (rep_ids rep)) = Inr (?s (rep_ids rep))" "map_r (broadcast_to k) (?s (rep_logprobs rep)) = Inr (?s (rep_logprobs rep))"
    by (rule broadcast_rows [OF rows(1)], rule broadcast_rows [OF rows(2)])
  have ne: "0 < length p" "0 < tp" and el: "length (rep_ids rep) = tp + length r" "length (rep_logprobs rep) = tp + length r"
    using run by (auto simp: place_reply_def Let_def split: if_splits)
  have ids: "place_window (length p) pw (length r) (?s (rep_ids rep)) (replicate (pw + rw) (replicate k pad_id)) = Inr ids"
    and lps: "place_window (length p) pw (length r) (?s (rep_logprobs rep)) (replicate (pw + rw) (replicate k 0)) = Inr lps"
    and toks: "has \<Longrightarrow> rep_token_logprobs rep = Some ts \<Longrightarrow>
      \<exists>row. toks = Some row \<and> place_window (length p) pw (length r) (?s ts) (replicate (pw + rw) 0) = Inr row"
    using run [unfolded place_reply_def Let_def w] by (auto split: if_splits)
  have ws: "length (?s xs) = length r" if "length xs = tp + length r" for xs :: "'x list" using that ne by simp
  show "0 < length p" "0 < tp" by (rule ne)+
  show "response_slice d1 (select_row ids (valid_mask p r pw rw)) (length r) (length r) (length p + length r) = ?s (rep_ids rep)"
    unfolding place_window_select(2) [OF ids len ne(1) ws [OF el(1)]] by (rule window_of_packed [OF ne(1) ws [OF el(1)]])
  show "response_slice d2 (select_row lps (valid_mask p r pw rw)) (length r) (length r) (length p + length r) = ?s (rep_logprobs rep)"
    unfolding place_window_select(2) [OF lps len ne(1) ws [OF el(2)]] by (rule window_of_packed [OF ne(1) ws [OF el(2)]])
  assume t: "has" "rep_token_logprobs rep = Some ts" "length ts = tp + length r"
  obtain row where row: "toks = Some row" "place_window (length p) pw (length r) (?s ts) (replicate (pw + rw) 0) = Inr row"
    using toks [OF t(1,2)] by blast
  show "response_slice d3 (select_row (opt_default [] toks) (valid_mask p r pw rw)) (length r) (length r) (length p + length r) = ?s ts"
    using window_of_packed [OF ne(1) ws [OF t(3)], of d3 0] place_window_select(2) [OF row(2) len ne(1) ws [OF t(3)]] row(1)
    by simp
qed


lemma le_max_len: "x \<in> set xs \<Longrightarrow> length x \<le> max_len xs"
  by (auto simp: max_len_def intro: Max_ge)

definition offline_shape :: "offline_rows \<Rightarrow> nat \<Rightarrow> bool" where
  "offline_shape rows n \<longleftrightarrow> length (of_prompts rows) = n \<and> length (teacher_prompts rows) = n \<and> length (of_responses rows) = n
     \<and> length (of_teacher_responses rows) = n \<and> length (of_routing rows) = n"

lemma build_parts:
  assumes run: "build_offline_teacher_trajectory_batch (Some call) pad_id eos rows = Inr (b, ms)"
    and pw: "pw = max_len (of_prompts rows)" and rw: "rw = max_len (of_responses rows)"
  obtains replies outs has where "compute_offline_teacher_logprobs (Some call) rows = Inr replies"
    and "has = (\<exists>rep \<in> set replies. rep_token_logprobs rep \<noteq> None)"
    and "map_r (\<lambda>(p, tp, r, rep). place_reply (opt_default eos pad_id) (reply_width (hd replies)) pw (pw + rw) has
        (length p) (length tp) (length r) rep) (zip (of_prompts rows) (zip (teacher_prompts rows) (zip (of_responses rows) replies))) = Inr outs"
    and "check_responses rows = Inr ()"
    and "ob_input_ids b = map2 (@) (map (pad_right pw (opt_default eos pad_id)) (of_prompts rows)) (map (pad_right rw (opt_default eos pad_id)) (of_responses rows))"
    and "ob_attention_mask b = map2 (@) (map (mask_row pw) (of_prompts rows)) (map (mask_row rw) (of_responses rows))"
    and "ob_position_ids b = map compute_position_id_with_mask (ob_attention_mask b)"
    and "ob_teacher_ids b = map fst outs" and "ob_teacher_logprobs b = map (\<lambda>(_, l, _). l) outs"
    and "ob_teacher_token_logprobs b = (if has then Some (map (\<lambda>(_, _, t). opt_default [] t) outs) else None)"
proof -
  obtain replies where reps: "compute_offline_teacher_logprobs (Some call) rows = Inr replies"
    using run by (auto simp: build_offline_teacher_trajectory_batch_def)
  define has where "has = (\<exists>rep \<in> set replies. rep_token_logprobs rep \<noteq> None)"
  have body: "build_offline_teacher_trajectory_batch (Some call) pad_id eos rows =
      (if of_prompts rows = [] then Inl (ValueError ''max() arg is an empty sequence'')
       else bind_r (check_responses rows) (\<lambda>_.
         bind_r (map_r (\<lambda>(p, tp, r, rep). place_reply (opt_default eos pad_id) (reply_width (hd replies)) pw (pw + rw) has
             (length p) (length tp) (length r) rep) (zip (of_prompts rows) (zip (teacher_prompts rows) (zip (of_responses rows) replies))))
           (\<lambda>outs. Inr (\<lparr>ob_prompts = map (pad_right pw (opt_default eos pad_id)) (of_prompts rows),
              ob_responses = map (pad_right rw (opt_default eos pad_id)) (of_responses rows),
              ob_input_ids = map2 (@) (map (pad_right pw (opt_default eos pad_id)) (of_prompts rows)) (map (pad_right rw (opt_default eos pad_id)) (of_responses rows)),
              ob_attention_mask = map2 (@) (map (mask_row pw) (of_prompts rows)) (map (mask_row rw) (of_responses rows)),
              ob_position_ids = map compute_position_id_with_mask (map2 (@) (map (mask_row pw) (of_prompts rows)) (map (mask_row rw) (of_responses rows))),
              ob_response_mask = map (mask_row rw) (of_responses rows), ob_rm_scores = map (map (\<lambda>_. 0)) (map (mask_row rw) (of_responses rows)),
              ob_teacher_ids = map fst outs, ob_teacher_logprobs = map (\<lambda>(_, l, _). l) outs,
              ob_teacher_token_logprobs = (if has then Some (map (\<lambda>(_, _, t). opt_default [] t) outs) else None)\<rparr>,
            offline_metrics rows (reply_width (hd replies))))))"
    by (simp only: build_offline_teacher_trajectory_batch_def reps pw rw has_def Let_def bind_r_Inr)
  show ?thesis using run [unfolded body] that [OF reps has_def] by (auto split: if_splits)
qed

text \<open>What the loss reads for the response of a packed row, and the teacher's rows that predict it.\<close>

abbreviation response_part :: "'a \<Rightarrow> bool list \<Rightarrow> nat \<Rightarrow> nat \<Rightarrow> 'a list \<Rightarrow> 'a list" where
  "response_part d valid p r xs \<equiv> response_slice d (select_row xs valid) r r (p + r)"

abbreviation predictors :: "nat \<Rightarrow> nat \<Rightarrow> 'a list \<Rightarrow> 'a list" where
  "predictors tp r xs \<equiv> slice (tp - 1) (tp - 1 + r) xs"

text \<open>The teacher answers with tables of one width.\<close>

definition uniform_replies :: "(string option \<Rightarrow> int list \<Rightarrow> teacher_reply result) \<Rightarrow> nat \<Rightarrow> bool" where
  "uniform_replies call k \<longleftrightarrow> (\<forall>key ids rep. call key ids = Inr rep \<longrightarrow>
     (\<forall>row \<in> set (rep_ids rep). length row = k) \<and> (\<forall>row \<in> set (rep_logprobs rep). length row = k))"

definition aligned :: "(string option \<Rightarrow> int list \<Rightarrow> teacher_reply result) \<Rightarrow> offline_rows \<Rightarrow> offline_batch \<Rightarrow> nat \<Rightarrow> bool" where
  "aligned call rows b i \<longleftrightarrow> (let p = of_prompts rows ! i; tp = teacher_prompts rows ! i; r = of_responses rows ! i;
        valid = map (\<lambda>x. x \<noteq> 0) (ob_attention_mask b ! i)
    in select_row (ob_input_ids b ! i) valid = p @ r
      \<and> select_row (ob_position_ids b ! i) valid = map int [0..<length p + length r]
      \<and> (\<exists>rep. call (of_routing rows ! i) (tp @ of_teacher_responses rows ! i) = Inr rep
          \<and> length (rep_ids rep) = length tp + length (of_teacher_responses rows ! i)
          \<and> response_part [] valid (length p) (length r) (ob_teacher_ids b ! i) = predictors (length tp) (length r) (rep_ids rep)
          \<and> response_part [] valid (length p) (length r) (ob_teacher_logprobs b ! i) = predictors (length tp) (length r) (rep_logprobs rep)
          \<and> (\<forall>ts. rep_token_logprobs rep = Some ts \<and> length ts = length (rep_ids rep) \<longrightarrow>
               (\<exists>cols. ob_teacher_token_logprobs b = Some cols
                 \<and> response_part 0 valid (length p) (length r) (cols ! i) = predictors (length tp) (length r) ts))))"

lemma offline_rows_aligned:
  assumes run: "build_offline_teacher_trajectory_batch (Some call) pad_id eos rows = Inr (b, ms)" and n: "offline_shape rows n"
    and width: "uniform_replies call k"
    and i: "i < n"
  shows "aligned call rows b i"
proof -
  define pw where "pw = max_len (of_prompts rows)"
  define rw where "rw = max_len (of_responses rows)"
  obtain replies outs has where reps: "compute_offline_teacher_logprobs (Some call) rows = Inr replies"
    and has: "has = (\<exists>rep \<in> set replies. rep_token_logprobs rep \<noteq> None)"
    and outs: "map_r (\<lambda>(p, tp, r, rep). place_reply (opt_default eos pad_id) (reply_width (hd replies)) pw (pw + rw) has
        (length p) (length tp) (length r) rep) (zip (of_prompts rows) (zip (teacher_prompts rows) (zip (of_responses rows) replies))) = Inr outs"
    and check: "check_responses rows = Inr ()"
    and cols: "ob_input_ids b = map2 (@) (map (pad_right pw (opt_default eos pad_id)) (of_prompts rows)) (map (pad_right rw (opt_default eos pad_id)) (of_responses rows))"
      "ob_attention_mask b = map2 (@) (map (mask_row pw) (of_prompts rows)) (map (mask_row rw) (of_responses rows))"
      "ob_position_ids b = map compute_position_id_with_mask (ob_attention_mask b)"
      "ob_teacher_ids b = map fst outs" "ob_teacher_logprobs b = map (\<lambda>(_, l, _). l) outs"
      "ob_teacher_token_logprobs b = (if has then Some (map (\<lambda>(_, _, t). opt_default [] t) outs) else None)"
    by (rule build_parts [OF run pw_def rw_def])
  note sh = n [unfolded offline_shape_def]
  let ?p = "of_prompts rows ! i" and ?tp = "teacher_prompts rows ! i" and ?r = "of_responses rows ! i" and ?tr = "of_teacher_responses rows ! i"
  have rl: "length replies = n" using map_r_length [OF reps [unfolded compute_offline_teacher_logprobs_def option.case]] sh by simp
  have rep: "call (of_routing rows ! j) (teacher_prompts rows ! j @ of_teacher_responses rows ! j) = Inr (replies ! j)" if "j < n" for j
    using map_r_nth [OF reps [unfolded compute_offline_teacher_logprobs_def option.case], of j] sh that by simp
  have ol: "length outs = n" using map_r_length [OF outs] sh rl by simp
  have out: "place_reply (opt_default eos pad_id) (reply_width (hd replies)) pw (pw + rw) has (length (of_prompts rows ! j))
      (length (teacher_prompts rows ! j)) (length (of_responses rows ! j)) (replies ! j) = Inr (outs ! j)" if "j < n" for j
    using map_r_nth [OF outs, of j] sh rl that by simp
  have eq: "length ?tr = length ?r"
    using check i sh by (fastforce simp: check_responses_def set_zip split: if_splits)
  have el: "length (rep_ids (replies ! j)) = length (teacher_prompts rows ! j) + length (of_responses rows ! j)"
    and pos: "0 < length (teacher_prompts rows ! j)" if "j < n" for j
    using out [OF that] by (auto simp: place_reply_def Let_def split: if_splits)
  have k: "reply_width (hd replies) = k"
  proof -
    have 0: "0 < n" using i by simp
    then have "hd replies = replies ! 0" using rl by (cases replies) auto
    moreover have "rep_ids (replies ! 0) \<noteq> []" using el [OF 0] pos [OF 0] by auto
    ultimately show ?thesis using width rep [OF 0] unfolding uniform_replies_def by (cases "rep_ids (replies ! 0)") (auto simp: reply_width_def)
  qed
  have le: "length ?p \<le> pw" "length ?r \<le> rw" unfolding pw_def rw_def using i sh by (auto intro: le_max_len)
  have valid: "map (\<lambda>x. x \<noteq> 0) (ob_attention_mask b ! i) = valid_mask ?p ?r pw rw" using cols(2) i sh by simp
  have w: "\<forall>row \<in> set (rep_ids (replies ! i)). length row = k" "\<forall>row \<in> set (rep_logprobs (replies ! i)). length row = k"
    using width rep [OF i] unfolding uniform_replies_def by blast+
  obtain ids lps toks where o: "outs ! i = (ids, lps, toks)" by (cases "outs ! i") auto
  note S = place_reply_select [OF out [OF i, unfolded k o] le w]
  have inputs: "select_row (ob_input_ids b ! i) (valid_mask ?p ?r pw rw) = ?p @ ?r"
    using cols(1) i sh le select_valid [OF le, of "pad_right pw (opt_default eos pad_id) ?p" "pad_right rw (opt_default eos pad_id) ?r"]
    by (simp add: pad_right_def)
  have positions: "select_row (ob_position_ids b ! i) (valid_mask ?p ?r pw rw) = map int [0..<length ?p + length ?r]"
    using positions_select [OF le] cols(2,3) i sh by simp
  have tids: "ob_teacher_ids b ! i = ids" "ob_teacher_logprobs b ! i = lps" using cols(4,5) o ol i by simp_all
  have toks: "\<exists>cols. ob_teacher_token_logprobs b = Some cols \<and> response_slice 0 (select_row (cols ! i) (valid_mask ?p ?r pw rw)) (length ?r) (length ?r)
      (length ?p + length ?r) = slice (length ?tp - 1) (length ?tp - 1 + length ?r) ts"
    if ts: "rep_token_logprobs (replies ! i) = Some ts" "length ts = length (rep_ids (replies ! i))" for ts
  proof -
    have h: "has" using has ts(1) rl i by (auto intro!: bexI [of _ "replies ! i"])
    show ?thesis using cols(6) h S(5) [OF h ts(1)] ts(2) el [OF i] o ol i by simp
  qed
  show ?thesis
    unfolding aligned_def Let_def valid inputs positions tids using rep [OF i] el [OF i] eq S(3,4) toks by auto
qed

text \<open>A teacher that scores every position, with tables of one width.\<close>

definition scores_all :: "(string option \<Rightarrow> int list \<Rightarrow> teacher_reply result) \<Rightarrow> nat \<Rightarrow> bool" where
  "scores_all call k \<longleftrightarrow> uniform_replies call k \<and> (\<forall>key ids. \<exists>rep. call key ids = Inr rep \<and> length (rep_ids rep) = length ids
     \<and> length (rep_logprobs rep) = length ids \<and> (\<forall>ts. rep_token_logprobs rep = Some ts \<longrightarrow> length ts = length ids))"

lemma place_window_returns:
  "0 < r \<Longrightarrow> length window = r \<Longrightarrow> \<exists>row. place_window p pw r window base = Inr row"
  by (cases window) (auto simp: place_window_def broadcast_to_def Let_def)

lemma place_reply_returns:
  assumes "0 < p" "0 < tp" "0 < r" "length (rep_ids rep) = tp + r" "length (rep_logprobs rep) = tp + r"
    and ts: "\<forall>ts. rep_token_logprobs rep = Some ts \<longrightarrow> length ts = tp + r"
    and width: "\<forall>row \<in> set (rep_ids rep). length row = k" "\<forall>row \<in> set (rep_logprobs rep). length row = k"
  shows "\<exists>out. place_reply pad_id k pw tw has p tp r rep = Inr out"
proof -
  let ?s = "\<lambda>xs. slice (tp - 1) (tp - 1 + r) xs"
  have rows: "\<forall>row \<in> set (?s (rep_ids rep)). length row = k" "\<forall>row \<in> set (?s (rep_logprobs rep)). length row = k"
    using width by (auto simp: slice_def dest!: in_set_takeD in_set_dropD)
  have w: "map_r (broadcast_to k) (?s (rep_ids rep)) = Inr (?s (rep_ids rep))" "map_r (broadcast_to k) (?s (rep_logprobs rep)) = Inr (?s (rep_logprobs rep))"
    by (rule broadcast_rows [OF rows(1)], rule broadcast_rows [OF rows(2)])
  have l: "length (?s xs) = r" if "length xs = tp + r" for xs :: "'x list" using that assms(2) by simp
  obtain a where a: "place_window p pw r (?s (rep_ids rep)) (replicate tw (replicate k pad_id)) = Inr a"
    using place_window_returns [OF assms(3) l [OF assms(4)]] by blast
  obtain b where b: "place_window p pw r (?s (rep_logprobs rep)) (replicate tw (replicate k 0)) = Inr b"
    using place_window_returns [OF assms(3) l [OF assms(5)]] by blast
  have "\<exists>row. place_window p pw r (?s ts) (replicate tw (0 :: real)) = Inr row" if "rep_token_logprobs rep = Some ts" for ts
    using place_window_returns [OF assms(3) l] assms(6) that by blast
  then obtain c where c: "(if \<not> has then Inr None else case rep_token_logprobs rep of None \<Rightarrow> Inr (Some (replicate tw 0))
      | Some ts \<Rightarrow> bind_r (place_window p pw r (?s ts) (replicate tw 0)) (\<lambda>row. Inr (Some row))) = Inr c"
    by (cases has; cases "rep_token_logprobs rep") (simp_all, blast)
  have "place_reply pad_id k pw tw has p tp r rep = Inr (a, b, c)"
    unfolding place_reply_def Let_def w bind_r_Inr a b c using assms(1,2,4,5) by simp
  then show ?thesis by blast
qed

lemma good_reply:
  assumes "scores_all call k" "call key ids = Inr rep"
  shows "length (rep_ids rep) = length ids" "length (rep_logprobs rep) = length ids"
    and "\<forall>ts. rep_token_logprobs rep = Some ts \<longrightarrow> length ts = length ids"
    and "\<forall>row \<in> set (rep_ids rep). length row = k" "\<forall>row \<in> set (rep_logprobs rep). length row = k"
proof -
  obtain rep' where "call key ids = Inr rep'" "length (rep_ids rep') = length ids" "length (rep_logprobs rep') = length ids"
    "\<forall>ts. rep_token_logprobs rep' = Some ts \<longrightarrow> length ts = length ids"
    using assms(1) unfolding scores_all_def by blast
  then show "length (rep_ids rep) = length ids" "length (rep_logprobs rep) = length ids"
    "\<forall>ts. rep_token_logprobs rep = Some ts \<longrightarrow> length ts = length ids" using assms(2) by simp_all
  show "\<forall>row \<in> set (rep_ids rep). length row = k" "\<forall>row \<in> set (rep_logprobs rep). length row = k"
    using assms unfolding scores_all_def uniform_replies_def by blast+
qed

text \<open>An empty response stops the batch: the code reads the first row of an empty window.\<close>

lemma empty_response_fails:
  assumes "0 < p" "0 < tp" "length (rep_ids rep) = tp" "length (rep_logprobs rep) = tp"
  shows "place_reply pad_id k pw tw has p tp 0 rep = Inl IndexError"
  using assms by (simp add: place_reply_def place_window_def slice_def Let_def)

lemma map_r_fails:
  assumes "\<forall>x \<in> set xs. f x = Inl e \<or> (\<exists>y. f x = Inr y)" "\<exists>x \<in> set xs. f x = Inl e"
  shows "map_r f xs = Inl e"
  using assms
proof (induction xs)
  case (Cons x xs)
  then show ?case by (cases "f x = Inl e") auto
qed simp

lemma offline_batch_builds:
  assumes n: "offline_shape rows n" "0 < n" and eq: "of_teacher_responses rows = of_responses rows"
    and ne: "\<forall>i < n. of_prompts rows ! i \<noteq> [] \<and> teacher_prompts rows ! i \<noteq> []"
    and call: "scores_all call k"
  shows "if \<exists>i < n. of_responses rows ! i = [] then build_offline_teacher_trajectory_batch (Some call) pad_id eos rows = Inl IndexError
    else \<exists>b ms. build_offline_teacher_trajectory_batch (Some call) pad_id eos rows = Inr (b, ms)"
proof -
  note sh = n(1) [unfolded offline_shape_def]
  have answers: "\<exists>rep. call key ids = Inr rep" for key ids using call unfolding scores_all_def by blast
  have "\<exists>ys. map_r (\<lambda>(key, p, r). call key (p @ r)) (zip (of_routing rows) (zip (teacher_prompts rows) (of_teacher_responses rows))) = Inr ys"
    by (rule map_r_returns) (use answers in auto)
  then obtain replies where reps: "compute_offline_teacher_logprobs (Some call) rows = Inr replies"
    by (auto simp: compute_offline_teacher_logprobs_def)
  note m = reps [unfolded compute_offline_teacher_logprobs_def option.case]
  have rl: "length replies = n" using map_r_length [OF m] sh by simp
  have rep: "call (of_routing rows ! j) (teacher_prompts rows ! j @ of_responses rows ! j) = Inr (replies ! j)" if "j < n" for j
    using map_r_nth [OF m, of j] sh that eq by simp
  have good: "length (rep_ids (replies ! j)) = length (teacher_prompts rows ! j) + length (of_responses rows ! j)"
    "length (rep_logprobs (replies ! j)) = length (teacher_prompts rows ! j) + length (of_responses rows ! j)"
    "\<forall>ts. rep_token_logprobs (replies ! j) = Some ts \<longrightarrow> length ts = length (teacher_prompts rows ! j) + length (of_responses rows ! j)"
    "\<forall>row \<in> set (rep_ids (replies ! j)). length row = k" "\<forall>row \<in> set (rep_logprobs (replies ! j)). length row = k" if "j < n" for j
    using good_reply [OF call rep [OF that]] by simp_all
  have k: "reply_width (hd replies) = k"
  proof -
    have "hd replies = replies ! 0" using rl n(2) by (cases replies) auto
    moreover have "rep_ids (replies ! 0) \<noteq> []" using good(1) [OF n(2)] ne n(2) by auto
    ultimately show ?thesis using good(4) [OF n(2)] by (cases "rep_ids (replies ! 0)") (auto simp: reply_width_def)
  qed
  let ?place = "\<lambda>(p, tp, r, rep). place_reply (opt_default eos pad_id) k (max_len (of_prompts rows)) (max_len (of_prompts rows) + max_len (of_responses rows))
      (\<exists>rep \<in> set replies. rep_token_logprobs rep \<noteq> None) (length (p :: int list)) (length (tp :: int list)) (length (r :: int list)) rep"
  let ?rows = "zip (of_prompts rows) (zip (teacher_prompts rows) (zip (of_responses rows) replies))"
  have row: "\<exists>j < n. x = (of_prompts rows ! j, teacher_prompts rows ! j, of_responses rows ! j, replies ! j)" if "x \<in> set ?rows" for x
    using that sh rl by (auto simp: set_zip)
  have fails: "?place (of_prompts rows ! j, teacher_prompts rows ! j, of_responses rows ! j, replies ! j) = Inl IndexError"
    if "j < n" "of_responses rows ! j = []" for j
    using empty_response_fails [of "length (of_prompts rows ! j)" "length (teacher_prompts rows ! j)" "replies ! j"] good(1,2) [OF that(1)] ne that
    by simp
  have works: "\<exists>y. ?place (of_prompts rows ! j, teacher_prompts rows ! j, of_responses rows ! j, replies ! j) = Inr y"
    if "j < n" "of_responses rows ! j \<noteq> []" for j
    unfolding prod.case using place_reply_returns [OF _ _ _ good [OF that(1)]] ne that by simp
  have parts: "check_responses rows = Inr ()" "of_prompts rows \<noteq> []"
    using eq sh n(2) by (auto simp: check_responses_def zip_same_conv_map)
  show ?thesis
  proof (cases "\<exists>i < n. of_responses rows ! i = []")
    case True
    then obtain i where i: "i < n" "of_responses rows ! i = []" by blast
    have "(of_prompts rows ! i, teacher_prompts rows ! i, of_responses rows ! i, replies ! i) \<in> set ?rows"
      using i(1) sh rl by (auto simp: in_set_conv_nth intro!: exI [of _ i])
    then have "map_r ?place ?rows = Inl IndexError"
      using row fails [OF i] fails works by (intro map_r_fails) blast+
    then have "build_offline_teacher_trajectory_batch (Some call) pad_id eos rows = Inl IndexError"
      by (simp add: build_offline_teacher_trajectory_batch_def reps Let_def k parts)
    then show ?thesis using True by (simp only: if_True)
  next
    case False
    have "\<exists>outs. map_r ?place ?rows = Inr outs" using row works False by (intro map_r_returns) blast
    then have "\<exists>b ms. build_offline_teacher_trajectory_batch (Some call) pad_id eos rows = Inr (b, ms)"
      by (auto simp: build_offline_teacher_trajectory_batch_def reps Let_def k parts)
    then show ?thesis using False by (simp only: if_False)
  qed
qed

text \<open>
  [C40] Offline teacher trajectories are aligned. For rows of the dataset with non-empty prompts, and a teacher that scores every position
  with rows of one width: if every response is non-empty the batch is built, and after the valid tokens of a row are packed, the
  sequence is the student's prompt followed by the response with positions counted from 0, and the slice that the loss takes for the
  response tokens holds the teacher's rows from the last token of the teacher's own prompt on, which are its predictions of those
  tokens. This holds although the teacher's prompt may differ from the student's and prompts are padded on the right. If
  one response is empty, the whole batch fails with an \<open>IndexError\<close>.
\<close>

theorem offline_batch_aligned:
  assumes rows: "rows \<noteq> []" "\<forall>row \<in> set rows. tr_prompt row \<noteq> [] \<and> (teacher_column \<longrightarrow> tr_teacher_prompt row \<noteq> [])"
    and "length routing = length rows" and call: "scores_all call k"
  shows "if \<exists>row \<in> set rows. tr_response row = []
    then build_offline_teacher_trajectory_batch (Some call) pad_id eos (offline_batch_of teacher_column routing rows) = Inl IndexError
    else \<exists>b ms. build_offline_teacher_trajectory_batch (Some call) pad_id eos (offline_batch_of teacher_column routing rows) = Inr (b, ms)
      \<and> (\<forall>i < length rows. aligned call (offline_batch_of teacher_column routing rows) b i)"
proof -
  let ?o = "offline_batch_of teacher_column routing rows"
  have sh: "offline_shape ?o (length rows)" using assms(3) by (simp add: offline_shape_def offline_batch_of_def teacher_prompts_def)
  have ne: "\<forall>i < length rows. of_prompts ?o ! i \<noteq> [] \<and> teacher_prompts ?o ! i \<noteq> []"
  proof (intro allI impI)
    fix i assume "i < length rows"
    then have "i < length rows" "tr_prompt (rows ! i) \<noteq> []" "teacher_column \<Longrightarrow> tr_teacher_prompt (rows ! i) \<noteq> []"
      using bspec [OF rows(2) nth_mem, of i] by fastforce+
    then show "of_prompts ?o ! i \<noteq> [] \<and> teacher_prompts ?o ! i \<noteq> []"
      by (auto simp: offline_batch_of_def teacher_prompts_def)
  qed
  have "0 < length rows" "of_teacher_responses ?o = of_responses ?o" using rows(1) by (simp_all add: offline_batch_of_def)
  note built = offline_batch_builds [OF sh this ne call, of pad_id eos]
  have "of_responses ?o ! i = tr_response (rows ! i)" if "i < length rows" for i using that by (simp add: offline_batch_of_def)
  then have empty: "(\<exists>i < length rows. of_responses ?o ! i = []) \<longleftrightarrow> (\<exists>row \<in> set rows. tr_response row = [])"
    by (metis in_set_conv_nth)
  have "uniform_replies call k" using call by (simp add: scores_all_def)
  then show ?thesis
    using built offline_rows_aligned [OF _ sh, of call pad_id eos] unfolding empty by (auto split: if_splits)
qed

section \<open>Filtering and splitting\<close>

lemma first_per_key_facts:
  "distinct (map key (first_per_key key seen rows)) \<and> key ` set (first_per_key key seen rows) = key ` set rows - seen
     \<and> subseq (first_per_key key seen rows) rows"
proof (induction key seen rows rule: first_per_key.induct)
  case (2 key seen row rows)
  then show ?case by (cases "key row \<in> seen") (auto simp: image_iff)
qed simp

lemma concat_pieces: "concat (map (\<lambda>i. slice (i * s) ((i + 1) * s) xs) [0..<m]) = take (m * s) xs"
proof (induction m)
  case (Suc m)
  have "take (m * s) xs @ slice (m * s) (Suc m * s) xs = take (Suc m * s) xs"
    by (simp add: slice_def drop_take) (metis add.commute take_add)
  then show ?case using Suc by simp
qed simp

text \<open>Splitting loses at most the last rows, fewer than the number of parts, and keeps the order.\<close>

lemma split_trajectories_concat:
  assumes "split_trajectories k rows = Inr parts"
  shows "concat parts = take (length rows - length rows mod nat k) rows \<and> length parts = nat k"
proof -
  let ?k = "nat k" and ?t = "length rows - length rows mod nat k"
  have k: "0 < ?k" using assms by (auto simp: split_trajectories_def split: if_splits)
  have t: "?k * (?t div ?k) = ?t" by (simp add: minus_mod_eq_mult_div)
  have eq: "(if i < ?k - 1 then (i + 1) * (?t div ?k) else ?t) = (i + 1) * (?t div ?k)" if "i < ?k" for i
  proof (cases "i < ?k - 1")
    case False
    then have "i + 1 = ?k" using that by simp
    then show ?thesis using t False by simp
  qed simp
  have "parts = map (\<lambda>i. slice (i * (?t div ?k)) ((i + 1) * (?t div ?k)) rows) [0..<?k]"
    using assms eq by (auto simp: split_trajectories_def Let_def split: if_splits)
  then show ?thesis using concat_pieces [of "?t div ?k" rows ?k] t by simp
qed

section \<open>A concrete batch\<close>

definition ex_rows :: "nat traj_row list" where
  "ex_rows = [\<lparr>tr_prompt = [1, 2], tr_teacher_prompt = [9, 1, 2], tr_response = [4, 5], tr_sample_idx = None, tr_cells = []\<rparr>,
     \<lparr>tr_prompt = [3], tr_teacher_prompt = [9, 3], tr_response = [6], tr_sample_idx = None, tr_cells = []\<rparr>]"

definition ex_teacher :: "string option \<Rightarrow> int list \<Rightarrow> teacher_reply result" where
  "ex_teacher key ids = Inr \<lparr>rep_ids = map (\<lambda>t. [t]) ids, rep_logprobs = map (\<lambda>t. [of_int t]) ids, rep_token_logprobs = Some (map of_int ids)\<rparr>"

theorem offline_batch_aligned_witness:
  "\<exists>b ms. build_offline_teacher_trajectory_batch (Some ex_teacher) None 0 (offline_batch_of True [None, None] ex_rows) = Inr (b, ms)
     \<and> select_row (ob_input_ids b ! 1) (map (\<lambda>x. x \<noteq> 0) (ob_attention_mask b ! 1)) = [3, 6]
     \<and> response_part [] (map (\<lambda>x. x \<noteq> 0) (ob_attention_mask b ! 1)) 1 1 (ob_teacher_ids b ! 1) = [[3]]"
proof -
  have t: "scores_all ex_teacher 1" by (auto simp: scores_all_def uniform_replies_def ex_teacher_def)
  obtain b ms where run: "build_offline_teacher_trajectory_batch (Some ex_teacher) None 0 (offline_batch_of True [None, None] ex_rows) = Inr (b, ms)"
    and "aligned ex_teacher (offline_batch_of True [None, None] ex_rows) b 1"
    using offline_batch_aligned [of ex_rows True "[None, None]" ex_teacher 1 None 0] t by (auto simp: ex_rows_def)
  then show ?thesis
    by (simp add: aligned_def Let_def ex_rows_def offline_batch_of_def teacher_prompts_def ex_teacher_def slice_def eval_nat_numeral)
qed

end
