(* ===== verification/Spec2Isabelle.thy ===== *)
theory Spec2Isabelle
  imports Relay_Runs Relay_Student Skd_Sampler Relay_Batch Micro_Batches Advantages Distillation Trainer_Balance
    Agent_Batch LLM_Server Message_Queue Offline_Data Math_Reward Further_Losses Offline_Batch
begin

text \<open>
  A verification development for Relay-OPD, on-policy distillation with speculative decoding in which a teacher
  model may take over from the student while a response is sampled (\<open>relay-opd/\<close>: the vLLM patches under \<open>opd/\<close> and the
  training framework under \<open>verl/\<close>).

  \<^bold>\<open>The program.\<close> A rollout worker runs vLLM with a patched rejection sampler. In each step the student has drafted
  some tokens per request; the sampler compares them with the teacher's distribution, emits student and teacher
  tokens and remembers which tokens are the teacher's. These marks travel over a Unix datagram socket to the
  rollout server, which aligns them with the final response and returns both to the trainer. The trainer attaches
  the marks to its batch, balances and splits the batch into micro-batches, and computes advantages and losses in
  which teacher and student tokens are treated differently.

  \<^bold>\<open>Theories and sources.\<close>
  \<^item> \<open>Prelude\<close>: exceptions as values, sequencing of fallible steps, Python lists and keyed logs (with the interface
    \<open>keyed_log\<close>, interpreted on the dictionaries of the code).
  \<^item> \<open>Py_Env\<close>: environment settings (\<open>speculative_decode.py\<close>). \<open>Py_Sort\<close>: Python's stable sort and \<open>heapq\<close>, with the
    interfaces \<open>py_order\<close> and \<open>priority_queue\<close> that the balancing code relies on.
  \<^item> \<open>Mask_IPC\<close>, \<open>Mask_Server\<close>: the datagram format of \<open>_send_mask_chunk_ipc\<close> and the class \<open>OpdMaskIpcServer\<close>
    (\<open>vllm_async_server.py\<close>): decoding, stores, alignment by position, polling.
  \<^item> \<open>Token_Events\<close>: the worker's record of a step and the deferred flush. \<open>Mask_Channel\<close>: worker and server composed.
  \<^item> \<open>Spec_Layout\<close>, \<open>Relay_Sampler\<close>: the flat request layout and \<open>_relay_opd_rejection_sample\<close>, phase by phase in the order
    of the code; \<open>Relay_Rows\<close>, \<open>Relay_Takeover\<close>, \<open>Relay_Student\<close>, \<open>Relay_Runs\<close> hold its proofs and \<open>Relay_Example\<close> a concrete
    call. \<open>Skd_Sampler\<close>: \<open>_skd_topk_rejection_sample\<close>.
  \<^item> \<open>Generate\<close>: \<open>generate\<close> of the rollout server and its helpers.
  \<^item> \<open>Relay_Batch\<close>: the relay fields of the training batch (\<open>ray_trainer.py\<close>).
  \<^item> \<open>Seqlen_Balance\<close>, \<open>Micro_Batches\<close>: \<open>seqlen_balancing.py\<close>.
  \<^item> \<open>Tensor_Ops\<close>: masked reductions and group statistics (\<open>torch_functional.py\<close>, \<open>groupwise.py\<close>). \<open>Advantages\<close>,
    \<open>Policy_Losses\<close>: the estimators, losses and KL controllers of \<open>core_algos.py\<close>.
  \<^item> \<open>Py_Data\<close>, \<open>Data_Proto\<close>, \<open>Data_Proto_Laws\<close>: the batch container \<open>DataProto\<close> (\<open>protocol.py\<close>) and its laws on lists of
    rows. \<open>Dispatch\<close>: calls of worker groups (\<open>single_controller/base/decorator.py\<close>, \<open>ray/base.py\<close>), with the interfaces
    \<open>chunkable\<close>, \<open>concatable\<close> and \<open>map_reduce\<close>. \<open>Trainer_Balance\<close>: \<open>_balance_batch\<close> of the trainer.
  \<^item> \<open>Loops\<close>: the \<open>while True\<close> loops of the code, with the rule by which they return. \<open>Agent_Loop\<close>: the tool agent and the single
    turn agent (\<open>experimental/agent_loop\<close>). \<open>Agent_Batch\<close>: their outputs as rows of a batch, the worker and the manager
    (\<open>agent_loop.py\<close>), and the teacher's log-probabilities (\<open>teacher_manager.py\<close>). \<open>LLM_Server\<close>: the load balancer and the client
    (\<open>llm_server.py\<close>) and the client that resumes interrupted generations (\<open>fully_async_rollouter.py\<close>). \<open>Message_Queue\<close>: the
    queue of the asynchronous trainer (\<open>message_queue.py\<close>).
  \<^item> \<open>Offline_Data\<close>: the sampling, rewriting and merging of trajectories for the offline baselines and the dataset that feeds
    them to training (\<open>opd/data\<close>).
  \<^item> \<open>Offline_Batch\<close>: the dataset of offline teacher trajectories (\<open>utils/dataset/rl_dataset.py\<close>) and the batch that the trainer
    makes of its rows and the teacher's log-probabilities (\<open>ray_trainer.py\<close>).
  \<^item> \<open>Rollout_Correction\<close>: importance weights and rejection masks for rollouts of another policy
    (\<open>ppo/rollout_corr_helper.py\<close>) and the losses of the bypass mode (\<open>core_algos.py\<close>).
  \<^item> \<open>Token_Baseline\<close>, \<open>Further_Losses\<close>: the optimal-token-baseline estimators, and the policy losses SAPO, GPG, Clip-Cov,
    KL-Cov and geometric mean (\<open>core_algos.py\<close>).
  \<^item> \<open>Py_Text\<close>, \<open>Math_Reward\<close>: Python's string methods, and the graders of mathematical answers (\<open>utils/reward_score/math_reward.py\<close>,
    \<open>math_dapo.py\<close>, \<open>opd/reward\<close>) with the interface \<open>boxed_extractor\<close> that three extractors implement.
  \<^item> \<open>Padding\<close>: packed and padded tensors (\<open>workers/utils/padding.py\<close>). \<open>Distillation\<close>: the distillation losses
    (\<open>trainer/distillation/losses.py\<close>, \<open>fsdp/losses.py\<close>, \<open>workers/utils/losses.py\<close>).

  \<^bold>\<open>How the code is rendered.\<close> Dictionaries are maps, records carry the state the code keeps in module globals
  and objects, and every function returns the new state or an exception. Bytes and 32-bit fields are words. Token
  tensors are lists of rows. The sampling code compares and moves probabilities but the theorems do not depend on
  their values, so there they are values of an abstract type with the operations of the tensor library as
  parameters; the advantages and losses compute with real numbers, so rounding, infinities and NaN are outside the
  model, and statements that divide assume a non-zero divisor. Polling loops become lists of what arrives between
  the polls; the receive order is the send order, as on a local datagram socket. What belongs to other programs is
  a parameter: vLLM's own rejection sampler and engine, the tokenizer, top-k, softmax and random draws, the
  all-reduce over ranks, numpy's numbering of groups, the registry of policy losses.

  \<^bold>\<open>What is shown.\<close>
  \<^item> Samplers: a call of the vectorised sampler, seen from one request, is a sequential walk over that request's
    own drafts; a takeover stays within its budgets along every execution; every token in the output of the SKD sampler
    is among the teacher's choices at its position. The trigger is the one of the code, which looks for the teacher's
    first choice in the student's top-k, and not the stricter one that the README describes.
  \<^item> Marks: the wire format is a round trip; through any interleaving of requests and grouping of datagrams the
    server returns the recorded marks for exactly the returned tokens, also when stop events arrive among the marks and
    cut the response, but not when the worker exports its student actions, which makes a complete response fail; a
    response without marks is refused; the marks that reach the loss are the recorded ones on the valid tokens.
  \<^item> Batching: the differencing method always returns a partition whose sums differ by at most one item; micro-batches
    partition the batch, can be undone, and leave the loss unchanged.
  \<^item> Learning: the estimators equal their textbook definitions and each other where they claim to, the aggregated loss
    does not depend on the parallel layout, the clipped losses are bounded, every token is trained by exactly one
    branch of the relay loss, and with the reverse-KL branch the relay loss is plain on-policy distillation.
  \<^item> Token baselines: the baseline minimises the weighted error with a penalty \<open>epsilon b ^ 2\<close>, and the multi-turn estimator extends the single-turn one.
    The covariance losses change few tokens, chosen by their covariance.
  \<^item> Correction: the rejection mask is the one of the textbook estimators k1, k2 and k3, where k1 bounds the inverse ratio; the
    weights are bounded ones, divided by their mean when batch normalisation is on; nothing changes for on-policy rollouts.
  \<^item> Containers: the operations of \<open>DataProto\<close> are list operations on its rows and keep it well-formed; splitting and
    padding can be undone; a distributed call of a row-wise method is the method on every row, and after the
    trainer's balancing every rank computes on its balanced partition.
  \<^item> Agents: a finished run of the tool agent is an alternation of generated and observed tokens that the mask tells apart,
    also after padding (a run that generated nothing is shown to come out wrong); resumed generations lose nothing; the balancer counts the unfinished requests of each server,
    as long as no server is added again while it has some; the queue delivers in order, drops only the oldest samples and forgets no consumer.
  \<^item> Offline data: whatever the engines of the shards sample, the merged data have one trajectory for every source row, in
    order and with the completion of that row; the dataset trains on the response only.
    In an offline batch the teacher's rows stand where the loss reads the predictions of the response.
  \<^item> Rewards: what each grader reads when the last box is balanced; the rewards are total, and the MATH grader compares normal forms.
  \<^item> Loops: the loop of the differencing method is a terminating function (the queue shrinks). The loops of the tool agent
    and of the resuming client need not end; they are partial functions (\<open>repeat_r\<close>) whose value is \<open>None\<close> when they do not,
    and it is proved under which conditions they return. No fuel is used.

  \<^bold>\<open>Not modelled.\<close> The trace files and statistics printing of the samplers, server start-up and weight
  transfer, multi-modal payloads, LoRA request objects and logging; writing the correction into a batch; gradients (\<open>detach\<close> is the identity); sequence and tensor parallelism inside the token
  losses; the Ray trainer loop, training engines, models and kernels, other rollout backends, the comparison of
  expressions by sympy and the other graders,
  checkpointing, configuration schemas, dataset downloads, scripts and tests. Of the agents: multi-modal position ids, the parsers of tool calls, and the launch of servers and
  workers; tools change the world but not the \<open>agent_data\<close> object they are handed, and their \<open>release\<close> does not raise.
\<close>

section \<open>Micro-batches and the loss\<close>

text \<open>
  [C31] Dynamic micro-batching does not change the loss: when \<open>rearrange_micro_batches\<close> has split the sequences of a
  batch into micro-batches and each micro-batch is aggregated by \<open>agg_loss\<close> with the batch-wide totals, the
  accumulated loss is that of the whole batch, in every aggregation mode and however the sequences were
  distributed and ordered.
\<close>

theorem micro_batching_keeps_loss:
  assumes "rearrange_ok a width lens" "num_micro_batches a lens = Inr n" "1 \<le> n" "length rows = length lens"
    and "mode \<in> set agg_modes" "given_totals info"
  shows "\<exists>mbs idx losses. rearrange_micro_batches a width lens rows = Inr (mbs, idx)
    \<and> map_r (\<lambda>mb. agg_loss horizon (map fst mb) (map snd mb) mode info) mbs = Inr losses
    \<and> agg_loss horizon (map fst rows) (map snd rows) mode info = Inr (sum_list losses)"
proof -
  obtain idx where run: "rearrange_micro_batches a width lens rows = Inr (map (map ((!) rows)) idx, idx)"
      and part: "is_partition (length lens) (nat n) idx"
    using rearrange_returns [OF assms(1-3), of rows] by blast
  let ?mbs = "map (map ((!) rows)) idx"
  let ?row = "row_loss horizon mode info"
  define f where "f mb = sum_list (map ?row mb) * real (bi_dp_size info)" for mb :: "(real list \<times> real list) list"
  have agg: "agg_loss horizon (map fst mb) (map snd mb) mode info = Inr (f mb)" for mb
    by (simp add: agg_loss_rows [OF assms(5,6)] f_def zip_map_fst_snd)
  have parts: "map_r (\<lambda>mb. agg_loss horizon (map fst mb) (map snd mb) mode info) ?mbs = Inr (map f ?mbs)"
    by (rule map_r_Inr) (rule agg)
  have "mset (map ((!) rows) (concat idx)) = mset (map ((!) rows) [0..<length rows])"
    using part unfolding is_partition_def assms(4) mset_map by simp
  then have "mset (concat ?mbs) = mset rows" by (simp add: map_concat map_nth)
  then have "mset (map ?row (concat ?mbs)) = mset (map ?row rows)" unfolding mset_map by simp
  then have "sum_list (map ?row (concat ?mbs)) = sum_list (map ?row rows)" by (metis sum_mset_sum_list)
  moreover have "sum_list (map f mbs) = sum_list (map ?row (concat mbs)) * real (bi_dp_size info)" for mbs
    by (induction mbs) (simp_all add: f_def distrib_right)
  ultimately have "sum_list (map f ?mbs) = f rows" unfolding f_def [of rows] by (simp only:)
  then show ?thesis using run parts agg [of rows] by auto
qed

theorem micro_batching_keeps_loss_witness:
  "\<exists>mbs idx losses. rearrange_micro_batches ex_rearrange None [3, 3, 3] [([1], [1]), ([2], [1]), ([6], [1])] = Inr (mbs, idx)
     \<and> map_r (\<lambda>mb. agg_loss 1 (map fst mb) (map snd mb) ''token-mean''
         \<lparr>bi_dp_size = 1, bi_batch_num_tokens = Some 3, bi_global_batch_size = Some 3, bi_loss_scale_factor = None\<rparr>) mbs = Inr losses
     \<and> sum_list losses = 3"
proof -
  let ?info = "\<lparr>bi_dp_size = 1, bi_batch_num_tokens = Some 3, bi_global_batch_size = Some 3, bi_loss_scale_factor = None\<rparr>"
  let ?rows = "[([1], [1]), ([2], [1]), ([6], [1])] :: (real list \<times> real list) list"
  have "rearrange_ok ex_rearrange None [3, 3, 3]" by (simp add: rearrange_ok_def ex_rearrange_def)
  from micro_batching_keeps_loss [OF this ex_num, of ?rows "''token-mean''" ?info 1]
  obtain mbs idx losses where "rearrange_micro_batches ex_rearrange None [3, 3, 3] ?rows = Inr (mbs, idx)"
      "map_r (\<lambda>mb. agg_loss 1 (map fst mb) (map snd mb) ''token-mean'' ?info) mbs = Inr losses"
      "agg_loss 1 (map fst ?rows) (map snd ?rows) ''token-mean'' ?info = Inr (sum_list losses)"
    by (auto simp: agg_modes_def given_totals_def)
  moreover have "agg_loss 1 (map fst ?rows) (map snd ?rows) ''token-mean'' ?info = Inr 3"
    by (simp add: agg_loss_def global_total_def masked_sum_def tsum_def)
  ultimately show ?thesis by auto
qed

end
